(* ===== verification/Prelude.thy ===== *)
theory Prelude
  imports Complex_Main "HOL-Library.Word" "HOL-Library.AList"
begin

text \<open>
  What every component of the model shares: the machine integers and strings of the Rust
  source, the standard-library string operations it calls (\<open>str::split\<close>,
  \<open>str::lines\<close>, \<open>u32::from_str\<close>, \<open>slice::join\<close>,
  \<open>Path::join\<close>), results with the error on the left, and the keyed store that
  stands for a \<open>HashMap\<close>. A Rust \<open>String\<close> is the list of its UTF-8 bytes, so
  a \<open>string\<close> here counts bytes, as the source's \<open>len\<close> does.
\<close>

named_theorems agentd_defs \<open>definitions the component proofs unfold\<close>

type_synonym u32 = "32 word"
type_synonym byte = "8 word"
type_synonym bytes = "byte list"

text \<open>A child's environment, or one layer of it (a \<open>HashMap\<open>String, String\<close>\<close>).\<close>
type_synonym env = "string \<Rightarrow> string option"

text \<open>The largest \<open>u64\<close>, and the saturating addition the source uses at that width.\<close>
definition u64_max :: nat where
  "u64_max = 2 ^ 64 - 1"

definition saturating_add64 :: "nat \<Rightarrow> nat \<Rightarrow> nat" where
  "saturating_add64 a b = min u64_max (a + b)"

definition saturating_mul64 :: "nat \<Rightarrow> nat \<Rightarrow> nat" where
  "saturating_mul64 a b = min u64_max (a * b)"

lemma saturating_add64_le: "saturating_add64 a b \<le> u64_max"
  by (simp add: saturating_add64_def)

section \<open>Results\<close>

text \<open>\<open>Result<T, E>\<close> is \<open>'e + 'a\<close>; \<open>bind_r\<close> is the \<open>?\<close> operator.\<close>

fun bind_r :: "'e + 'a \<Rightarrow> ('a \<Rightarrow> 'e + 'b) \<Rightarrow> 'e + 'b" where
  "bind_r (Inl e) f = Inl e"
| "bind_r (Inr x) f = f x"

lemma bind_r_Inr: "bind_r r f = Inr y \<longleftrightarrow> (\<exists>x. r = Inr x \<and> f x = Inr y)"
  by (cases r) auto

lemma bind_r_Inl: "bind_r r f = Inl e \<longleftrightarrow> r = Inl e \<or> (\<exists>x. r = Inr x \<and> f x = Inl e)"
  by (cases r) auto

fun ok_or :: "'e \<Rightarrow> 'a option \<Rightarrow> 'e + 'a" where
  "ok_or e None = Inl e"
| "ok_or e (Some x) = Inr x"

lemma ok_or_Inr [simp]: "ok_or e m = Inr x \<longleftrightarrow> m = Some x"
  by (cases m) auto

lemma ok_or_Inl [simp]: "ok_or e m = Inl e' \<longleftrightarrow> m = None \<and> e' = e"
  by (cases m) auto

section \<open>Splitting and joining strings\<close>

text \<open>\<open>str::split\<close> on one character: never empty, one piece more than separators.\<close>

fun split_on :: "'a \<Rightarrow> 'a list \<Rightarrow> 'a list list" where
  "split_on d [] = [[]]"
| "split_on d (c # cs) =
     (if c = d then [] # split_on d cs
      else (case split_on d cs of [] \<Rightarrow> [[c]] | w # ws \<Rightarrow> (c # w) # ws))"

lemma split_on_not_Nil [simp]: "split_on d s \<noteq> []"
  by (induction d s rule: split_on.induct) (auto split: list.splits)

lemma split_on_pieces: "w \<in> set (split_on d s) \<Longrightarrow> d \<notin> set w"
proof (induction d s arbitrary: w rule: split_on.induct)
  case (1 d)
  then show ?case by simp
next
  case (2 d c cs)
  then show ?case by (auto split: if_splits list.splits)
qed

lemma split_on_no_sep: "d \<notin> set s \<Longrightarrow> split_on d s = [s]"
  by (induction d s rule: split_on.induct) auto

lemma split_on_append_sep: "d \<notin> set w \<Longrightarrow> split_on d (w @ d # s) = w # split_on d s"
  by (induction w) auto

text \<open>\<open>[T]::join\<close> with a separator.\<close>

fun join_with :: "'a list \<Rightarrow> 'a list list \<Rightarrow> 'a list" where
  "join_with d [] = []"
| "join_with d [w] = w"
| "join_with d (w # v # ws) = w @ d @ join_with d (v # ws)"

lemma split_on_join:
  assumes "ws \<noteq> []" and "\<forall>w \<in> set ws. d \<notin> set w"
  shows "split_on d (join_with [d] ws) = ws"
  using assms
proof (induction "[d]" ws rule: join_with.induct)
  case 1
  then show ?case by simp
next
  case (2 w)
  then show ?case by (simp add: split_on_no_sep)
next
  case (3 w v ws)
  then show ?case by (simp add: split_on_append_sep)
qed

text \<open>
  \<open>str::split_once\<close>: the text before and after the first separator.
\<close>

fun split_once :: "'a \<Rightarrow> 'a list \<Rightarrow> ('a list \<times> 'a list) option" where
  "split_once d [] = None"
| "split_once d (c # cs) =
     (if c = d then Some ([], cs)
      else map_option (\<lambda>(a, b). (c # a, b)) (split_once d cs))"

lemma split_once_None: "split_once d s = None \<longleftrightarrow> d \<notin> set s"
  by (induction d s rule: split_once.induct) auto

lemma split_once_Some: "split_once d s = Some (a, b) \<longleftrightarrow> s = a @ d # b \<and> d \<notin> set a"
proof (induction d s arbitrary: a b rule: split_once.induct)
  case (1 d)
  then show ?case by simp
next
  case (2 d c cs)
  then show ?case by (cases a) (auto split: prod.splits)
qed

text \<open>
  \<open>str::lines\<close>: pieces between newlines, a trailing carriage return of a terminated
  line dropped, no last line when the text ends with a newline.
\<close>

definition LF :: char where "LF = CHR 0x0A"
definition CR :: char where "CR = CHR 0x0D"

definition strip_cr :: "string \<Rightarrow> string" where
  "strip_cr l = (if l \<noteq> [] \<and> last l = CR then butlast l else l)"

definition str_lines :: "string \<Rightarrow> string list" where
  "str_lines s =
     (let ps = split_on LF s
      in map strip_cr (butlast ps) @ (if last ps = [] then [] else [last ps]))"

lemma str_lines_Nil [simp]: "str_lines [] = []"
  by (simp add: str_lines_def)

lemma str_lines_append:
  assumes "LF \<notin> set l"
  shows "str_lines (l @ LF # s) = strip_cr l # str_lines s"
  using assms by (simp add: str_lines_def split_on_append_sep Let_def)

lemma strip_cr_subset: "set (strip_cr l) \<subseteq> set l"
  by (auto simp: strip_cr_def dest: in_set_butlastD)

lemma str_lines_no_LF:
  assumes "l \<in> set (str_lines s)"
  shows "LF \<notin> set l"
proof -
  have piece: "LF \<notin> set p" if "p \<in> set (split_on LF s)" for p
    using that by (rule split_on_pieces)
  have "LF \<notin> set (last (split_on LF s))"
    by (rule piece) simp
  moreover have "LF \<notin> set (strip_cr p)" if "p \<in> set (butlast (split_on LF s))" for p
    using piece [OF in_set_butlastD [OF that]] strip_cr_subset [of p] by blast
  ultimately show ?thesis
    using assms by (auto simp: str_lines_def Let_def split: if_splits)
qed

section \<open>Decimal numbers\<close>

definition is_digit :: "char \<Rightarrow> bool" where
  "is_digit c \<longleftrightarrow> c \<in> set ''0123456789''"

definition digit_val :: "char \<Rightarrow> nat" where
  "digit_val c = (of_char c :: nat) - 48"

fun dec_val :: "nat \<Rightarrow> string \<Rightarrow> nat option" where
  "dec_val acc [] = Some acc"
| "dec_val acc (c # cs) = (if is_digit c then dec_val (acc * 10 + digit_val c) cs else None)"

text \<open>
  \<open>u32::from_str\<close>: one optional leading plus sign, then at least one digit, then the
  range check. A minus sign is not a digit, so it is refused.
\<close>

definition strip_plus :: "string \<Rightarrow> string" where
  "strip_plus s = (case s of [] \<Rightarrow> [] | c # cs \<Rightarrow> if c = CHR ''+'' then cs else s)"

definition parse_u32 :: "string \<Rightarrow> u32 option" where
  "parse_u32 s =
     (let ds = strip_plus s
      in if ds = [] then None
         else (case dec_val 0 ds of
                 None \<Rightarrow> None
               | Some n \<Rightarrow> if n < 2 ^ 32 then Some (of_nat n) else None))"

text \<open>The decimal rendering \<open>Display\<close> gives an unsigned integer.\<close>

definition digit_char :: "nat \<Rightarrow> char" where
  "digit_char d = ''0123456789'' ! d"

fun show_nat :: "nat \<Rightarrow> string" where
  "show_nat n = (if n < 10 then [digit_char n] else show_nat (n div 10) @ [digit_char (n mod 10)])"

declare show_nat.simps [simp del]

lemma less10_cases: "(d::nat) < 10 \<Longrightarrow> d \<in> {0, 1, 2, 3, 4, 5, 6, 7, 8, 9}"
  by auto

lemma digit_char_props:
  assumes "d < 10"
  shows "is_digit (digit_char d) \<and> digit_val (digit_char d) = d"
  using less10_cases [OF assms]
  by (auto simp: is_digit_def digit_char_def digit_val_def)

lemma dec_val_append:
  "dec_val acc (xs @ ys) = (case dec_val acc xs of None \<Rightarrow> None | Some a \<Rightarrow> dec_val a ys)"
  by (induction acc xs rule: dec_val.induct) auto

lemma show_nat_props:
  "show_nat n \<noteq> [] \<and> (\<forall>c \<in> set (show_nat n). is_digit c) \<and> dec_val 0 (show_nat n) = Some n"
proof (induction n rule: show_nat.induct)
  case (1 n)
  show ?case
  proof (cases "n < 10")
    case True
    then show ?thesis by (subst (1 2 3) show_nat.simps) (simp add: digit_char_props)
  next
    case False
    with 1 show ?thesis
      by (subst (1 2 3) show_nat.simps) (auto simp: dec_val_append digit_char_props)
  qed
qed

lemma is_digit_not_special:
  "is_digit c \<Longrightarrow> c \<noteq> CHR ''+'' \<and> c \<noteq> CHR '':'' \<and> c \<noteq> LF \<and> c \<noteq> CR \<and> c \<noteq> CHR ''/''"
  by (auto simp: is_digit_def LF_def CR_def)

lemma strip_plus_digits: "\<forall>c \<in> set s. is_digit c \<Longrightarrow> strip_plus s = s"
  by (cases s) (auto simp: strip_plus_def dest: is_digit_not_special)

text \<open>Parsing is the inverse of rendering on every \<open>u32\<close>.\<close>

lemma parse_u32_show: "parse_u32 (show_nat (unat w)) = Some w"
proof -
  have "unat w < 2 ^ 32" using unsigned_less [of w] by simp
  then show ?thesis
    using show_nat_props [of "unat w"]
    by (simp add: parse_u32_def strip_plus_digits)
qed

section \<open>Paths\<close>

text \<open>
  \<open>Path::is_absolute\<close> and \<open>Path::join\<close> on Unix: an absolute right side
  replaces the left, and a separator is added only when the left side lacks one.
\<close>

definition is_absolute :: "string \<Rightarrow> bool" where
  "is_absolute p \<longleftrightarrow> (case p of [] \<Rightarrow> False | c # _ \<Rightarrow> c = CHR ''/'')"

definition path_join :: "string \<Rightarrow> string \<Rightarrow> string" where
  "path_join d n =
     (if is_absolute n then n
      else if d = [] \<or> last d = CHR ''/'' then d @ n
      else d @ ''/'' @ n)"

lemma path_join_absolute: "is_absolute d \<Longrightarrow> is_absolute (path_join d n)"
  by (auto simp: is_absolute_def path_join_def split: list.splits)

definition starts_with :: "'a list \<Rightarrow> 'a list \<Rightarrow> bool" where
  "starts_with p s \<longleftrightarrow> take (length p) s = p"

section \<open>The keyed store\<close>

text \<open>
  A \<open>HashMap\<close> that is iterated over is an association list with distinct keys; the
  iteration order of the source is unspecified and nothing below depends on it.
  \<open>retain\<close> is \<open>HashMap::retain\<close>.
\<close>

locale keyed_store =
  fixes lookup :: "'s \<Rightarrow> 'k \<Rightarrow> 'v option"
    and insert_at :: "'k \<Rightarrow> 'v \<Rightarrow> 's \<Rightarrow> 's"
    and retain_if :: "('k \<Rightarrow> 'v \<Rightarrow> bool) \<Rightarrow> 's \<Rightarrow> 's"
    and count :: "'s \<Rightarrow> nat"
    and wf :: "'s \<Rightarrow> bool"
  assumes lookup_insert: "lookup (insert_at k v s) j = (if j = k then Some v else lookup s j)"
    and lookup_retain: "wf s \<Longrightarrow>
      lookup (retain_if p s) k = (case lookup s k of None \<Rightarrow> None
                                  | Some v \<Rightarrow> if p k v then Some v else None)"
    and count_retain: "wf s \<Longrightarrow> count (retain_if p s) \<le> count s"
    and wf_insert: "wf s \<Longrightarrow> wf (insert_at k v s)"
    and wf_retain: "wf s \<Longrightarrow> wf (retain_if p s)"
begin

lemma lookup_insert_same [simp]: "lookup (insert_at k v s) k = Some v"
  by (simp add: lookup_insert)

lemma lookup_insert_other: "j \<noteq> k \<Longrightarrow> lookup (insert_at k v s) j = lookup s j"
  by (simp add: lookup_insert)

lemma retain_Some:
  "wf s \<Longrightarrow> lookup (retain_if p s) k = Some v \<longleftrightarrow> lookup s k = Some v \<and> p k v"
  by (auto simp: lookup_retain split: option.splits)

end

definition retain :: "('k \<Rightarrow> 'v \<Rightarrow> bool) \<Rightarrow> ('k \<times> 'v) list \<Rightarrow> ('k \<times> 'v) list" where
  "retain p s = filter (\<lambda>(k, v). p k v) s"

definition keys_distinct :: "('k \<times> 'v) list \<Rightarrow> bool" where
  "keys_distinct s \<longleftrightarrow> distinct (map fst s)"

lemma map_of_retain:
  "keys_distinct s \<Longrightarrow>
     map_of (retain p s) k =
       (case map_of s k of None \<Rightarrow> None | Some v \<Rightarrow> if p k v then Some v else None)"
proof (induction s)
  case Nil
  then show ?case by (simp add: retain_def)
next
  case (Cons kv s)
  obtain j v where kv: "kv = (j, v)" by (cases kv)
  from Cons.prems have d: "keys_distinct s" and j: "j \<notin> fst ` set s"
    by (auto simp: keys_distinct_def kv)
  from j have "map_of s j = None" by (simp add: map_of_eq_None_iff)
  then have "map_of (retain p s) j = None" using Cons.IH [OF d]
    by (metis (no_types, lifting) j map_of_eq_None_iff filter_is_subset image_mono
        retain_def subsetD)
  then show ?case
    using Cons.IH [OF d] by (auto simp: retain_def kv split: option.splits)
qed

lemma keys_distinct_retain: "keys_distinct s \<Longrightarrow> keys_distinct (retain p s)"
  by (simp add: keys_distinct_def retain_def distinct_map_filter)

lemma keys_distinct_update: "keys_distinct s \<Longrightarrow> keys_distinct (AList.update k v s)"
  by (simp add: keys_distinct_def distinct_update)

interpretation store: keyed_store map_of AList.update retain length keys_distinct
proof
  show "map_of (AList.update k v s) j = (if j = k then Some v else map_of s j)" for k v s j
    by (simp add: update_conv')
  show "keys_distinct s \<Longrightarrow> map_of (retain p s) k =
      (case map_of s k of None \<Rightarrow> None | Some v \<Rightarrow> if p k v then Some v else None)" for s p k
    by (rule map_of_retain)
  show "length (retain p s) \<le> length s" for p s
    by (simp add: retain_def)
qed (simp_all add: keys_distinct_update keys_distinct_retain)

end
