(* ===== verification/Protocol.thy ===== *)
theory Protocol
  imports Prelude
begin

text \<open>
  The wire types of \<open>crates/protocol/src/exec.rs\<close>: the start request and its fields,
  the lifecycle phase, the outcome, the stream events, and the error slugs a client branches
  on. Field names carry the prefix of their struct, because a record field is a global
  constant in HOL. A human-readable \<open>detail\<close> string is kept as the message it
  formats with the values it interpolates, one constructor for each message of the source.
\<close>

section \<open>Lifecycle, streams and outcomes\<close>

datatype phase = Running | Exited | Acked

definition phase_as_str :: "phase \<Rightarrow> string" where
  "phase_as_str p = (case p of Running \<Rightarrow> ''running'' | Exited \<Rightarrow> ''exited'' | Acked \<Rightarrow> ''acked'')"

datatype stream_kind = Stdout | Stderr

record outcome =
  oc_exit_code :: "int option"
  oc_signal :: "int option"
  oc_timed_out :: bool
  oc_stdout :: bytes
  oc_stderr :: bytes
  oc_truncated :: bool
  oc_writers_may_be_alive :: bool

text \<open>
  The SSE payloads. The \<open>output\<close> field is base64 on the wire; the codec is the
  \<open>base64\<close> crate's, so the payload type is a parameter of the event type.
\<close>

record exit_event =
  ex_exit_code :: "int option"
  ex_signal :: "int option"
  ex_timed_out :: bool
  ex_truncated :: bool
  ex_writers_may_be_alive :: bool
  ex_offset :: nat

datatype 'p event =
    OutputEvent nat stream_kind 'p
  | GapEvent nat nat
  | ExitEvent exit_event

section \<open>The start request\<close>

datatype name_or_id = Id u32 | Name string

definition name_or_id_from_str :: "string \<Rightarrow> name_or_id" where
  "name_or_id_from_str raw =
     (case parse_u32 raw of
        Some i \<Rightarrow> if \<forall>c \<in> set raw. is_digit c then Id i else Name raw
      | None \<Rightarrow> Name raw)"

definition name_or_id_display :: "name_or_id \<Rightarrow> string" where
  "name_or_id_display n = (case n of Id i \<Rightarrow> show_nat (unat i) | Name s \<Rightarrow> s)"

datatype shell = Flag bool | Named string

definition is_shell :: "shell \<Rightarrow> bool" where
  "is_shell s \<longleftrightarrow> s \<noteq> Flag False"

text \<open>A double: not a number, an infinity, or the rational number it denotes.\<close>

datatype f64 = NaN | PosInf | NegInf | Finite rat

record start_request =
  req_exec_id :: string
  req_command :: "string list"
  req_shell :: shell
  req_cwd :: "string option"
  req_env :: env
  req_user :: "name_or_id option"
  req_group :: "name_or_id option"
  req_timeout_sec :: "f64 option"
  req_stdin :: bool
  req_reap_group_on_exit :: bool
  req_poweroff_on_exit :: bool
  req_inherit_image_env :: bool

text \<open>\<open>StartRequest::new\<close>: every optional field at its default.\<close>

definition new_start_request :: "string \<Rightarrow> string list \<Rightarrow> start_request" where
  "new_start_request exec_id command =
     \<lparr>req_exec_id = exec_id, req_command = command, req_shell = Flag False, req_cwd = None,
      req_env = Map.empty, req_user = None, req_group = None, req_timeout_sec = None,
      req_stdin = False, req_reap_group_on_exit = False, req_poweroff_on_exit = False,
      req_inherit_image_env = False\<rparr>"

section \<open>Refusals\<close>

datatype slug =
    MalformedRequest | UnknownExec | SpawnFailed | PoweroffUnavailable | StillRunning
  | AlreadyAcked | StdinNotRequested | StdinClosed | StdinWriteTimeout | StdinWriteTooLarge
  | StdinWriteFailed | UnknownUser | UnknownGroup | UnknownShell

fun slug_str :: "slug \<Rightarrow> string" where
  "slug_str MalformedRequest = ''malformed_request''"
| "slug_str UnknownExec = ''unknown_exec''"
| "slug_str SpawnFailed = ''spawn_failed''"
| "slug_str PoweroffUnavailable = ''poweroff_unavailable''"
| "slug_str StillRunning = ''still_running''"
| "slug_str AlreadyAcked = ''already_acked''"
| "slug_str StdinNotRequested = ''stdin_not_requested''"
| "slug_str StdinClosed = ''stdin_closed''"
| "slug_str StdinWriteTimeout = ''stdin_write_timeout''"
| "slug_str StdinWriteTooLarge = ''stdin_write_too_large''"
| "slug_str StdinWriteFailed = ''stdin_write_failed''"
| "slug_str UnknownUser = ''unknown_user''"
| "slug_str UnknownGroup = ''unknown_group''"
| "slug_str UnknownShell = ''unknown_shell''"

text \<open>Why an image's default user resolves to no row.\<close>

datatype default_why = DefaultUidHasNoRow string | DefaultNotInPasswd string

datatype detail =
    NotAStartRequest | ExecIdEmpty | PoweroffDetail string
  | TimeoutNotPositive f64 | TimeoutTooLong f64
  | UserNotInPasswd string | GroupNotInGroupFile string
  | NamesNoUser default_why | DefaultNotUidGid string
  | ShellNameEmpty | ShellNotExecutable string | ShellNotOnPath string | CommandEmpty
  | ExecIdDetail string | SpawnDetail string
  | OutputStillWritten | ReleasedByEarlierAck
  | NotAStdinRequest | StdinIsDevNull | UnknownStdinSignal string | BadBase64 string
  | OverStdinCap nat nat | StdinGone | ChildNotReading | StdinIoError string | StdinTimedOut

record rejection =
  rej_error :: slug
  rej_detail :: detail

definition reject :: "slug \<Rightarrow> detail \<Rightarrow> rejection" where
  "reject e d = \<lparr>rej_error = e, rej_detail = d\<rparr>"

lemma reject_sel [simp]: "rej_error (reject e d) = e" "rej_detail (reject e d) = d"
  by (simp_all add: reject_def)

lemma reject_inject [simp]: "reject e d = reject e' d' \<longleftrightarrow> e = e' \<and> d = d'"
  by (simp add: reject_def)

section \<open>Facts of the wire types\<close>

lemma slug_str_inj: "slug_str a = slug_str b \<Longrightarrow> a = b"
  by (cases a; cases b; simp)

lemma phase_as_str_inj: "phase_as_str a = phase_as_str b \<Longrightarrow> a = b"
  by (cases a; cases b; simp add: phase_as_str_def)

lemma from_str_display_id: "name_or_id_from_str (name_or_id_display (Id i)) = Id i"
  using show_nat_props [of "unat i"]
  by (simp add: name_or_id_from_str_def name_or_id_display_def parse_u32_show)

lemma display_from_str_name:
  "name_or_id_from_str s = Name t \<Longrightarrow> name_or_id_display (name_or_id_from_str s) = s"
  by (auto simp: name_or_id_from_str_def name_or_id_display_def split: option.splits if_splits)

end
