(* ===== verification/ExecStart.thy ===== *)
theory ExecStart
  imports Protocol
begin

text \<open>
  \<open>crates/agentd/src/exec_start.rs\<close>: from a start request to what is spawned. The
  guest's passwd and group files are parsed here, the user, the group, the environment layers
  and the shell are resolved in that order, and the first field that cannot be resolved is the
  refusal. The check for an executable file is a parameter of the guest, as it is in the code
  (\<open>Guest::is_executable\<close>).
\<close>

section \<open>The image environment snapshot\<close>

definition AGENTD_PREFIX :: string where
  "AGENTD_PREFIX = ''AGENTD_''"

definition SHELL_FALLBACK_DIRS :: "string list" where
  "SHELL_FALLBACK_DIRS = [''/bin'', ''/usr/bin'']"

text \<open>
  An inherited variable is a pair of OS strings; one that is not UTF-8 has no \<open>String\<close>
  and is \<open>None\<close>. A later duplicate of a key wins, as \<open>collect\<close> into a map does.
\<close>

definition snapshot_image_env :: "(string option \<times> string option) list \<Rightarrow> env" where
  "snapshot_image_env inherited =
     map_of (rev [(k, v). (Some k, Some v) \<leftarrow> inherited, \<not> starts_with AGENTD_PREFIX k])"

section \<open>The passwd and group files\<close>

record passwd_row =
  pw_name :: string
  pw_uid :: u32
  pw_gid :: u32
  pw_home :: string

record group_row =
  gr_name :: string
  gr_gid :: u32

definition skipped_name :: "string \<Rightarrow> bool" where
  "skipped_name name \<longleftrightarrow> name = [] \<or> hd name \<in> set ''#+-''"

definition parse_passwd_line :: "string \<Rightarrow> passwd_row option" where
  "parse_passwd_line line =
     (case split_on (CHR '':'') line of
        [name, _, uid, gid, _, home, _] \<Rightarrow>
          if skipped_name name then None
          else (case (parse_u32 uid, parse_u32 gid) of
                  (Some u, Some g) \<Rightarrow> Some \<lparr>pw_name = name, pw_uid = u, pw_gid = g, pw_home = home\<rparr>
                | _ \<Rightarrow> None)
      | _ \<Rightarrow> None)"

definition parse_passwd :: "string \<Rightarrow> passwd_row list" where
  "parse_passwd text = List.map_filter parse_passwd_line (str_lines text)"

definition parse_group_line :: "string \<Rightarrow> group_row option" where
  "parse_group_line line =
     (case split_on (CHR '':'') line of
        [name, _, gid, _] \<Rightarrow>
          if skipped_name name then None
          else map_option (\<lambda>g. \<lparr>gr_name = name, gr_gid = g\<rparr>) (parse_u32 gid)
      | _ \<Rightarrow> None)"

definition parse_group :: "string \<Rightarrow> group_row list" where
  "parse_group text = List.map_filter parse_group_line (str_lines text)"

section \<open>The guest and the plan\<close>

record guest =
  g_launch_env :: env
  g_image_env :: "env option"
  g_passwd :: string
  g_group :: string
  g_default_user :: "string option"
  g_captured_user :: bool
  g_is_executable :: "string \<Rightarrow> bool"

datatype program = Argv string "string list" | Script string string

record plan =
  pl_program :: program
  pl_uid :: "u32 option"
  pl_gid :: "u32 option"
  pl_layers :: "env list"

text \<open>\<open>Plan::environment\<close>: the layers folded lowest first with \<open>extend\<close>.\<close>

definition environment :: "plan \<Rightarrow> env" where
  "environment p = foldl (++) Map.empty (pl_layers p)"

record user =
  us_uid :: u32
  us_row :: "passwd_row option"
  us_primary_gid :: bool

section \<open>Resolving names\<close>

definition digits :: "string \<Rightarrow> u32 option" where
  "digits raw = (if raw = [] \<or> \<not> (\<forall>c \<in> set raw. is_digit c) then None else parse_u32 raw)"

definition row_by_uid :: "passwd_row list \<Rightarrow> u32 \<Rightarrow> passwd_row option" where
  "row_by_uid rows uid = find (\<lambda>row. pw_uid row = uid) rows"

definition row_by_name :: "passwd_row list \<Rightarrow> string \<Rightarrow> passwd_row option" where
  "row_by_name rows name = find (\<lambda>row. pw_name row = name) rows"

fun resolve_user :: "name_or_id \<Rightarrow> passwd_row list \<Rightarrow> rejection + user" where
  "resolve_user (Id uid) rows =
     Inr \<lparr>us_uid = uid, us_row = row_by_uid rows uid, us_primary_gid = False\<rparr>"
| "resolve_user (Name name) rows =
     (case row_by_name rows name of
        Some row \<Rightarrow> Inr \<lparr>us_uid = pw_uid row, us_row = Some row, us_primary_gid = True\<rparr>
      | None \<Rightarrow>
          (case digits name of
             Some uid \<Rightarrow> Inr \<lparr>us_uid = uid, us_row = row_by_uid rows uid, us_primary_gid = False\<rparr>
           | None \<Rightarrow> Inl (reject UnknownUser (UserNotInPasswd name))))"

definition default_user_row :: "string \<Rightarrow> passwd_row list \<Rightarrow> default_why + passwd_row" where
  "default_user_row name rows =
     (case resolve_user (Name name) rows of
        Inr u \<Rightarrow> (case us_row u of Some row \<Rightarrow> Inr row | None \<Rightarrow> Inl (DefaultUidHasNoRow name))
      | Inl _ \<Rightarrow> Inl (DefaultNotInPasswd name))"

definition captured_identity :: "string \<Rightarrow> (u32 \<times> u32) option" where
  "captured_identity v =
     (case split_once (CHR '':'') v of
        None \<Rightarrow> None
      | Some (uid, gid) \<Rightarrow>
          (case digits uid of None \<Rightarrow> None | Some u \<Rightarrow> map_option (\<lambda>g. (u, g)) (digits gid)))"

definition resolve_request_user ::
  "start_request \<Rightarrow> string option \<Rightarrow> bool \<Rightarrow> passwd_row list \<Rightarrow> rejection + user option" where
  "resolve_request_user rq default_user captured_user rows =
     (case (req_user rq, default_user) of
        (Some spec, _) \<Rightarrow> bind_r (resolve_user spec rows) (\<lambda>u. Inr (Some u))
      | (None, Some name) \<Rightarrow>
          if captured_user then
            bind_r (ok_or (reject UnknownUser (DefaultNotUidGid name)) (captured_identity name))
              (\<lambda>(uid, gid). Inr (Some \<lparr>us_uid = uid, us_row = row_by_uid rows uid,
                                        us_primary_gid = False\<rparr>))
          else
            (case default_user_row name rows of
               Inr row \<Rightarrow> Inr (Some \<lparr>us_uid = pw_uid row, us_row = Some row,
                                      us_primary_gid = True\<rparr>)
             | Inl why \<Rightarrow> Inl (reject UnknownUser (NamesNoUser why)))
      | (None, None) \<Rightarrow> Inr None)"

fun resolve_group :: "name_or_id \<Rightarrow> group_row list \<Rightarrow> rejection + u32" where
  "resolve_group (Id gid) rows = Inr gid"
| "resolve_group (Name name) rows =
     ok_or (reject UnknownGroup (GroupNotInGroupFile name))
       (case find (\<lambda>row. gr_name row = name) rows of
          Some row \<Rightarrow> Some (gr_gid row)
        | None \<Rightarrow> digits name)"

section \<open>Resolving the shell\<close>

definition searched_dirs :: "string option \<Rightarrow> string option \<Rightarrow> string list" where
  "searched_dirs child_path image_path =
     filter is_absolute
       (concat (map (split_on (CHR '':''))
          ((case child_path of None \<Rightarrow> [] | Some p \<Rightarrow> [p]) @
           (case image_path of None \<Rightarrow> [] | Some p \<Rightarrow> [p])))
        @ SHELL_FALLBACK_DIRS)"

fun first_executable :: "(string \<Rightarrow> bool) \<Rightarrow> string \<Rightarrow> string list \<Rightarrow> string option" where
  "first_executable is_exec name [] = None"
| "first_executable is_exec name (d # ds) =
     (if is_exec (path_join d name) then Some (path_join d name)
      else first_executable is_exec name ds)"

definition resolve_shell ::
  "string \<Rightarrow> string option \<Rightarrow> string option \<Rightarrow> (string \<Rightarrow> bool) \<Rightarrow> rejection + string" where
  "resolve_shell name child_path image_path is_exec =
     (if name = [] then Inl (reject MalformedRequest ShellNameEmpty)
      else if CHR ''/'' \<in> set name then
        (if is_absolute name \<and> is_exec name then Inr name
         else Inl (reject UnknownShell (ShellNotExecutable name)))
      else ok_or (reject UnknownShell (ShellNotOnPath name))
             (first_executable is_exec name (searched_dirs child_path image_path)))"

section \<open>The resolution\<close>

definition choose_gid ::
  "start_request \<Rightarrow> guest \<Rightarrow> user option \<Rightarrow> rejection + u32 option" where
  "choose_gid rq g user =
     (let groups = (case req_group rq of Some (Name _) \<Rightarrow> parse_group (g_group g) | _ \<Rightarrow> [])
      in case req_group rq of
           Some spec \<Rightarrow> bind_r (resolve_group spec groups) (\<lambda>gid. Inr (Some gid))
         | None \<Rightarrow>
             if req_user rq = None \<and>
                (case g_default_user g of None \<Rightarrow> False | Some v \<Rightarrow> CHR '':'' \<in> set v)
             then Inr (map_option snd (Option.bind (g_default_user g) captured_identity))
             else Inr (case user of
                         None \<Rightarrow> None
                       | Some u \<Rightarrow> if us_primary_gid u then map_option pw_gid (us_row u) else None))"

definition identity_layer :: "user option \<Rightarrow> env" where
  "identity_layer user =
     (case Option.bind user us_row of
        None \<Rightarrow> Map.empty
      | Some row \<Rightarrow> [''HOME'' \<mapsto> pw_home row, ''USER'' \<mapsto> pw_name row, ''LOGNAME'' \<mapsto> pw_name row])"

definition env_layers :: "start_request \<Rightarrow> guest \<Rightarrow> user option \<Rightarrow> env list" where
  "env_layers rq g user =
     [(case (req_inherit_image_env rq, g_image_env g) of
         (True, Some img) \<Rightarrow> img
       | _ \<Rightarrow> Map.empty),
      identity_layer user,
      g_launch_env g,
      req_env rq]"

fun find_var :: "string \<Rightarrow> env list \<Rightarrow> string option" where
  "find_var k [] = None"
| "find_var k (l # ls) = (case l k of Some v \<Rightarrow> Some v | None \<Rightarrow> find_var k ls)"

definition choose_program :: "start_request \<Rightarrow> guest \<Rightarrow> env list \<Rightarrow> rejection + program" where
  "choose_program rq g layers =
     (case req_shell rq of
        Flag False \<Rightarrow>
          (case req_command rq of
             [] \<Rightarrow> Inl (reject MalformedRequest CommandEmpty)
           | prog # args \<Rightarrow> Inr (Argv prog args))
      | Flag True \<Rightarrow> Inr (Script ''/bin/sh'' (join_with [LF] (req_command rq)))
      | Named name \<Rightarrow>
          bind_r (resolve_shell name (find_var ''PATH'' (rev layers))
                    (Option.bind (g_image_env g) (\<lambda>img. img ''PATH''))
                    (g_is_executable g))
            (\<lambda>sh. Inr (Script sh (join_with [LF] (req_command rq)))))"

definition make_plan :: "start_request \<Rightarrow> guest \<Rightarrow> rejection + plan" where
  "make_plan rq g =
     (let passwd = (if req_user rq \<noteq> None \<or> g_default_user g \<noteq> None
                    then parse_passwd (g_passwd g) else [])
      in bind_r (resolve_request_user rq (g_default_user g) (g_captured_user g) passwd)
           (\<lambda>user. bind_r (choose_gid rq g user)
             (\<lambda>gid. let layers = env_layers rq g user
               in bind_r (choose_program rq g layers)
                 (\<lambda>program. Inr \<lparr>pl_program = program, pl_uid = map_option us_uid user,
                                  pl_gid = gid, pl_layers = layers\<rparr>))))"


section \<open>The parsers\<close>

lemma snapshot_Some:
  assumes "snapshot_image_env inherited k = Some v"
  shows "(Some k, Some v) \<in> set inherited \<and> \<not> starts_with AGENTD_PREFIX k"
  using map_of_SomeD [OF assms [unfolded snapshot_image_env_def]] by auto

lemma parse_passwd_line_row:
  assumes "parse_passwd_line line = Some row"
  shows "pw_name row \<noteq> [] \<and> CHR '':'' \<notin> set (pw_name row) \<and> pw_name row \<in> set (split_on (CHR '':'') line)"
proof -
  from assms obtain name x uid gid y home z where
    sp: "split_on (CHR '':'') line = [name, x, uid, gid, y, home, z]"
    by (simp add: parse_passwd_line_def split: list.split_asm)
  then have mem: "name \<in> set (split_on (CHR '':'') line)" by simp
  from assms sp have "pw_name row = name" "name \<noteq> []"
    by (auto simp: parse_passwd_line_def skipped_name_def split: if_splits option.splits)
  with mem split_on_pieces [OF mem] show ?thesis by simp
qed

lemma parse_passwd_Nil [simp]: "parse_passwd [] = []"
  by (simp add: parse_passwd_def List.map_filter_def)

lemma parse_passwd_Cons:
  assumes "LF \<notin> set l"
  shows "parse_passwd (l @ LF # rest) =
    (case parse_passwd_line (strip_cr l) of None \<Rightarrow> [] | Some row \<Rightarrow> [row]) @ parse_passwd rest"
  using assms by (simp add: parse_passwd_def str_lines_append List.map_filter_def split: option.splits)

text \<open>
  What resolution relies on in a parsed user database: no row has an empty name, and no row's
  name holds a colon. The first client lemma is that a default user that resolves names a row
  of the file and holds no colon either.
\<close>

locale user_db =
  fixes parse :: "string \<Rightarrow> passwd_row list"
  assumes name_nonempty: "row \<in> set (parse text) \<Longrightarrow> pw_name row \<noteq> []"
    and name_no_colon: "row \<in> set (parse text) \<Longrightarrow> CHR '':'' \<notin> set (pw_name row)"
begin

lemma row_by_name_props:
  assumes "row_by_name (parse text) name = Some row"
  shows "row \<in> set (parse text) \<and> pw_name row = name \<and> CHR '':'' \<notin> set name"
proof -
  from assms have "row \<in> set (parse text)" and "pw_name row = name"
    by (auto simp: row_by_name_def find_Some_iff)
  with name_no_colon show ?thesis by blast
qed

lemma row_by_uid_props:
  "row_by_uid (parse text) uid = Some row \<Longrightarrow> row \<in> set (parse text) \<and> pw_uid row = uid"
  by (auto simp: row_by_uid_def find_Some_iff)

lemma default_row_props:
  assumes "default_user_row name (parse text) = Inr row"
  shows "row \<in> set (parse text) \<and> CHR '':'' \<notin> set name \<and>
         (pw_name row = name \<or> digits name = Some (pw_uid row))"
proof (cases "row_by_name (parse text) name")
  case (Some r)
  with assms have "r = row" by (simp add: default_user_row_def)
  with row_by_name_props [OF Some] show ?thesis by simp
next
  case None
  with assms obtain uid where uid: "digits name = Some uid"
    and r: "row_by_uid (parse text) uid = Some row"
    by (auto simp: default_user_row_def split: option.splits)
  from uid have "\<forall>c \<in> set name. is_digit c" by (simp add: digits_def split: if_splits)
  then have "CHR '':'' \<notin> set name" using is_digit_not_special by blast
  with uid row_by_uid_props [OF r] show ?thesis by simp
qed

end

lemma parse_passwd_rows:
  "row \<in> set (parse_passwd text) \<Longrightarrow> \<exists>line. parse_passwd_line line = Some row"
  by (auto simp: parse_passwd_def List.map_filter_def)

interpretation passwd: user_db parse_passwd
  by unfold_locales (auto dest!: parse_passwd_rows parse_passwd_line_row)

section \<open>The stages of the resolution\<close>

lemma foldl_map_add:
  "foldl (++) m (ls @ [l]) k = (case l k of Some v \<Rightarrow> Some v | None \<Rightarrow> foldl (++) m ls k)"
  by (simp add: map_add_def)

text \<open>The shell search reads the same \<open>PATH\<close> the composed environment holds.\<close>

lemma find_var_environment:
  "find_var k (rev (pl_layers p)) = environment p k"
proof -
  have "find_var k (rev ls) = foldl (++) Map.empty ls k" for ls
    by (induction ls rule: rev_induct) (simp_all add: foldl_map_add del: foldl_append split: option.split)
  then show ?thesis by (simp add: environment_def)
qed

lemma make_plan_Inr:
  assumes "make_plan rq g = Inr p"
  obtains user where
    "resolve_request_user rq (g_default_user g) (g_captured_user g) (parse_passwd (g_passwd g))
       = Inr user"
    "choose_gid rq g user = Inr (pl_gid p)"
    "pl_uid p = map_option us_uid user"
    "pl_layers p = env_layers rq g user"
    "choose_program rq g (pl_layers p) = Inr (pl_program p)"
proof -
  from assms obtain user gid prog where u:
    "resolve_request_user rq (g_default_user g) (g_captured_user g)
       (if req_user rq \<noteq> None \<or> g_default_user g \<noteq> None then parse_passwd (g_passwd g) else [])
     = Inr user"
    and rest: "choose_gid rq g user = Inr gid"
      "choose_program rq g (env_layers rq g user) = Inr prog"
      "p = \<lparr>pl_program = prog, pl_uid = map_option us_uid user, pl_gid = gid,
            pl_layers = env_layers rq g user\<rparr>"
    by (auto simp: make_plan_def Let_def bind_r_Inr)
  show ?thesis
  proof (rule that [of user])
    show "resolve_request_user rq (g_default_user g) (g_captured_user g)
        (parse_passwd (g_passwd g)) = Inr user"
      using u by (cases "req_user rq"; cases "g_default_user g")
        (auto simp: resolve_request_user_def)
  qed (use rest in auto)
qed

lemma first_executable_Some:
  "first_executable ex name ds = Some p \<Longrightarrow>
     \<exists>pre d post. ds = pre @ d # post \<and> p = path_join d name \<and> ex p
       \<and> (\<forall>x \<in> set pre. \<not> ex (path_join x name))"
proof (induction ds)
  case Nil
  then show ?case by simp
next
  case (Cons x ds)
  show ?case
  proof (cases "ex (path_join x name)")
    case True
    with Cons.prems have "x # ds = [] @ x # ds \<and> p = path_join x name \<and> ex p" by simp
    then show ?thesis by (metis empty_iff empty_set)
  next
    case False
    with Cons obtain pre d post where "ds = pre @ d # post" "p = path_join d name" "ex p"
      "\<forall>x \<in> set pre. \<not> ex (path_join x name)"
      by auto
    with False show ?thesis by (intro exI [of _ "x # pre"]) auto
  qed
qed

lemma first_executable_None:
  "first_executable ex name ds = None \<longleftrightarrow> (\<forall>d \<in> set ds. \<not> ex (path_join d name))"
  by (induction ds) auto

lemma searched_dirs_absolute: "d \<in> set (searched_dirs cp ip) \<Longrightarrow> is_absolute d"
  by (auto simp: searched_dirs_def)

lemma resolve_user_slug: "resolve_user spec rows = Inl r \<Longrightarrow> rej_error r = UnknownUser"
  by (cases spec) (auto split: option.splits)

lemma resolve_group_slug: "resolve_group spec rows = Inl r \<Longrightarrow> rej_error r = UnknownGroup"
  by (cases spec) auto

lemma resolve_request_user_slug:
  "resolve_request_user rq d c rows = Inl r \<Longrightarrow> rej_error r = UnknownUser"
  by (auto simp: resolve_request_user_def bind_r_Inl dest: resolve_user_slug
      split: option.splits if_splits sum.splits)

lemma choose_gid_slug: "choose_gid rq g user = Inl r \<Longrightarrow> rej_error r = UnknownGroup"
  by (auto simp: choose_gid_def Let_def bind_r_Inl dest: resolve_group_slug
      split: option.splits if_splits)

lemma resolve_shell_slug:
  "resolve_shell n cp ip ex = Inl r \<Longrightarrow> rej_error r \<in> {MalformedRequest, UnknownShell}"
  by (auto simp: resolve_shell_def split: if_splits)

lemma choose_program_slug:
  "choose_program rq g ls = Inl r \<Longrightarrow> rej_error r \<in> {MalformedRequest, UnknownShell}"
  by (auto simp: choose_program_def bind_r_Inl split: shell.splits bool.splits list.splits
      dest!: resolve_shell_slug)


section \<open>Properties\<close>

text \<open>A guest and requests the witnesses evaluate the resolution on.\<close>

definition sample_guest :: guest where
  "sample_guest =
     \<lparr>g_launch_env = [''LANG'' \<mapsto> ''C''],
      g_image_env = Some (snapshot_image_env
        [(Some ''AGENTD_PORT'', Some ''1''), (Some ''PATH'', Some ''/image/bin'')]),
      g_passwd = ''agent:x:1000:1001:Agent:/home/agent:/bin/sh'',
      g_group = ''staff:x:50:agent'',
      g_default_user = Some ''agent'', g_captured_user = False,
      g_is_executable = (\<lambda>p. p = ''/image/bin/zsh'')\<rparr>"

definition sample_request :: start_request where
  "sample_request = (new_start_request ''e1'' [''true''])\<lparr>req_inherit_image_env := True\<rparr>"

lemma sample_rows:
  "parse_passwd (g_passwd sample_guest) =
     [\<lparr>pw_name = ''agent'', pw_uid = 1000, pw_gid = 1001, pw_home = ''/home/agent''\<rparr>]"
  by (simp add: sample_guest_def parse_passwd_def List.map_filter_def str_lines_def LF_def
      parse_passwd_line_def skipped_name_def parse_u32_def strip_plus_def is_digit_def
      digit_val_def)

lemma sample_sel [simp]:
  "g_default_user sample_guest = Some ''agent''" "g_captured_user sample_guest = False"
  "g_launch_env sample_guest = [''LANG'' \<mapsto> ''C'']"
  "req_user sample_request = None" "req_group sample_request = None"
  "req_shell sample_request = Flag False" "req_command sample_request = [''true'']"
  "req_env sample_request = Map.empty" "req_inherit_image_env sample_request = True"
  by (simp_all add: sample_guest_def sample_request_def new_start_request_def)

lemma sample_plan:
  "make_plan sample_request sample_guest =
     Inr \<lparr>pl_program = Argv ''true'' [], pl_uid = Some 1000, pl_gid = Some 1001,
          pl_layers = env_layers sample_request sample_guest
            (Some \<lparr>us_uid = 1000, us_row = Some \<lparr>pw_name = ''agent'', pw_uid = 1000,
                     pw_gid = 1001, pw_home = ''/home/agent''\<rparr>, us_primary_gid = True\<rparr>)\<rparr>"
  by (simp add: make_plan_def Let_def sample_rows resolve_request_user_def
      default_user_row_def row_by_name_def choose_gid_def choose_program_def)

text \<open>
  C1: The environment of a planned child takes every variable from the highest layer that
  sets it: the request's own environment, then the launch environment, then the passwd
  identity of the resolved user, then the image snapshot when the request asked for it.
\<close>
theorem plan_environment_precedence:
  assumes "make_plan rq g = Inr p"
  shows "\<exists>user.
    resolve_request_user rq (g_default_user g) (g_captured_user g) (parse_passwd (g_passwd g))
      = Inr user \<and>
    environment p k =
    (case req_env rq k of Some v \<Rightarrow> Some v | None \<Rightarrow>
     (case g_launch_env g k of Some v \<Rightarrow> Some v | None \<Rightarrow>
      (case identity_layer user k of Some v \<Rightarrow> Some v | None \<Rightarrow>
       (if req_inherit_image_env rq then Option.bind (g_image_env g) (\<lambda>img. img k) else None))))
    \<and> pl_uid p = map_option us_uid user"
proof -
  obtain user where "pl_layers p = env_layers rq g user" and uid: "pl_uid p = map_option us_uid user"
    and res: "resolve_request_user rq (g_default_user g) (g_captured_user g)
      (parse_passwd (g_passwd g)) = Inr user"
    by (rule make_plan_Inr [OF assms])
  then have "environment p k =
    (case req_env rq k of Some v \<Rightarrow> Some v | None \<Rightarrow>
     (case g_launch_env g k of Some v \<Rightarrow> Some v | None \<Rightarrow>
      (case identity_layer user k of Some v \<Rightarrow> Some v | None \<Rightarrow>
       (if req_inherit_image_env rq then Option.bind (g_image_env g) (\<lambda>img. img k) else None))))"
    by (auto simp: environment_def env_layers_def map_add_def split: option.splits bool.splits)
  with uid res show ?thesis by blast
qed

theorem plan_environment_precedence_witness:
  "\<exists>p user. make_plan sample_request sample_guest = Inr p \<and> environment p ''PATH'' =
    (case req_env sample_request ''PATH'' of Some v \<Rightarrow> Some v | None \<Rightarrow>
     (case g_launch_env sample_guest ''PATH'' of Some v \<Rightarrow> Some v | None \<Rightarrow>
      (case identity_layer user ''PATH'' of Some v \<Rightarrow> Some v | None \<Rightarrow>
       (if req_inherit_image_env sample_request
        then Option.bind (g_image_env sample_guest) (\<lambda>img. img ''PATH'') else None))))"
  using plan_environment_precedence [OF sample_plan, of "''PATH''"] sample_plan by blast

text \<open>
  C2: A variable of the daemon's own configuration (any name starting with AGENTD_) reaches a
  planned child only if the launch environment or the request itself sets it: the image
  snapshot and the passwd identity never carry one.
\<close>
theorem agentd_variables_reach_no_child:
  assumes "make_plan rq g = Inr p"
    and "g_image_env g = Some (snapshot_image_env inherited)"
    and "starts_with AGENTD_PREFIX k"
    and "g_launch_env g k = None" and "req_env rq k = None"
  shows "environment p k = None"
proof -
  obtain user where ls: "pl_layers p = env_layers rq g user"
    by (rule make_plan_Inr [OF assms(1)])
  have "snapshot_image_env inherited k = None"
    using snapshot_Some [of inherited k] assms(3) by fastforce
  moreover have "identity_layer user k = None"
    using assms(3) by (auto simp: identity_layer_def starts_with_def AGENTD_PREFIX_def split: option.splits)
  ultimately show ?thesis
    using ls assms(2,4,5)
    by (auto simp: environment_def env_layers_def map_add_def split: option.splits bool.splits)
qed

theorem agentd_variables_reach_no_child_witness:
  "\<exists>p. make_plan sample_request sample_guest = Inr p \<and> environment p ''AGENTD_PORT'' = None"
proof -
  have "starts_with AGENTD_PREFIX ''AGENTD_PORT''"
    by (simp add: starts_with_def AGENTD_PREFIX_def)
  then show ?thesis
    using sample_plan agentd_variables_reach_no_child [OF sample_plan, of _ "''AGENTD_PORT''"]
    by (auto simp: sample_guest_def sample_request_def new_start_request_def)
qed

text \<open>
  A request that names its user gets the same answer whatever the image's default user is,
  captured or not: the whole plan, or the same refusal.
\<close>
theorem named_user_ignores_default:
  assumes "req_user rq \<noteq> None"
  shows "make_plan rq (g\<lparr>g_default_user := d, g_captured_user := c\<rparr>) = make_plan rq g"
proof -
  have "choose_gid rq (g\<lparr>g_default_user := d, g_captured_user := c\<rparr>) u = choose_gid rq g u" for u
    using assms by (auto simp: choose_gid_def Let_def split: option.split name_or_id.split)
  moreover have "choose_program rq (g\<lparr>g_default_user := d, g_captured_user := c\<rparr>) ls
      = choose_program rq g ls" for ls
    by (auto simp: choose_program_def split: shell.splits)
  ultimately show ?thesis
    using assms
    by (auto simp: make_plan_def resolve_request_user_def env_layers_def split: option.splits)
qed

theorem named_user_ignores_default_witness:
  "req_user (sample_request\<lparr>req_user := Some (Id 0)\<rparr>) \<noteq> None \<and>
   make_plan (sample_request\<lparr>req_user := Some (Id 0)\<rparr>)
     (sample_guest\<lparr>g_default_user := None, g_captured_user := True\<rparr>)
   = make_plan (sample_request\<lparr>req_user := Some (Id 0)\<rparr>) sample_guest"
  using named_user_ignores_default [of "sample_request\<lparr>req_user := Some (Id 0)\<rparr>"] by simp

text \<open>
  On an image with a default user, a request that names no user never keeps the daemon's
  own user or group: an uncaptured default runs as the uid and the primary gid of a row of the
  passwd file that the default names, and a captured one as exactly the uid and gid it spells
  (when the request names no group).
\<close>
theorem default_user_never_falls_back_to_daemon:
  assumes "make_plan rq g = Inr p"
    and "req_user rq = None" and "req_group rq = None" and "g_default_user g = Some name"
  shows "if g_captured_user g
    then \<exists>u gr. captured_identity name = Some (u, gr) \<and> pl_uid p = Some u \<and> pl_gid p = Some gr
    else \<exists>row \<in> set (parse_passwd (g_passwd g)).
           (pw_name row = name \<or> digits name = Some (pw_uid row)) \<and>
           pl_uid p = Some (pw_uid row) \<and> pl_gid p = Some (pw_gid row)"
proof -
  let ?rows = "parse_passwd (g_passwd g)"
  obtain user where
    u: "resolve_request_user rq (g_default_user g) (g_captured_user g) ?rows = Inr user"
    and gid: "choose_gid rq g user = Inr (pl_gid p)"
    and uid: "pl_uid p = map_option us_uid user"
    by (rule make_plan_Inr [OF assms(1)])
  show ?thesis
  proof (cases "g_captured_user g")
    case True
    with u assms(2,4) obtain a b where ci: "captured_identity name = Some (a, b)"
      and us: "map_option us_uid user = Some a"
      by (auto simp: resolve_request_user_def bind_r_Inr)
    from ci have "CHR '':'' \<in> set name"
      by (auto simp: captured_identity_def split_once_Some split: option.splits)
    with gid ci assms have "pl_gid p = Some b" by (simp add: choose_gid_def)
    with True ci us uid show ?thesis by simp
  next
    case False
    with u assms(2,4) obtain row where r: "default_user_row name ?rows = Inr row"
      and us: "user = Some \<lparr>us_uid = pw_uid row, us_row = Some row, us_primary_gid = True\<rparr>"
      by (auto simp: resolve_request_user_def split: sum.splits)
    from passwd.default_row_props [OF r] gid us assms
    have "pl_gid p = Some (pw_gid row)" by (simp add: choose_gid_def)
    with False us uid passwd.default_row_props [OF r] show ?thesis by auto
  qed
qed

theorem default_user_never_falls_back_to_daemon_witness:
  "\<exists>p. make_plan sample_request sample_guest = Inr p \<and>
    (\<exists>row \<in> set (parse_passwd (g_passwd sample_guest)).
       pl_uid p = Some (pw_uid row) \<and> pl_gid p = Some (pw_gid row))"
  using sample_plan default_user_never_falls_back_to_daemon [OF sample_plan]
  by (auto simp: sample_request_def new_start_request_def sample_guest_def)


text \<open>
  The daemon refuses a start request as unknown_user exactly when the user it would run as
  does not resolve: a named user that is no row and no digits, an uncaptured default that is no
  row, or a captured default that is no numeric uid:gid pair. Nothing else in the request can
  cause or hide that refusal, since the user is resolved first.
\<close>
theorem unknown_user_iff:
  "(\<exists>d. make_plan rq g = Inl (reject UnknownUser d)) \<longleftrightarrow>
    (let rows = parse_passwd (g_passwd g) in
     case req_user rq of
       Some (Id _) \<Rightarrow> False
     | Some (Name n) \<Rightarrow> row_by_name rows n = None \<and> digits n = None
     | None \<Rightarrow>
        (case g_default_user g of
           None \<Rightarrow> False
         | Some n \<Rightarrow>
             if g_captured_user g then captured_identity n = None
             else row_by_name rows n = None \<and>
                  (case digits n of None \<Rightarrow> True | Some u \<Rightarrow> row_by_uid rows u = None)))"
proof -
  let ?rows = "parse_passwd (g_passwd g)"
  let ?R = "resolve_request_user rq (g_default_user g) (g_captured_user g)"
  have same: "?R (if req_user rq \<noteq> None \<or> g_default_user g \<noteq> None then ?rows else []) = ?R ?rows"
    by (auto simp: resolve_request_user_def)
  have "(\<exists>d. make_plan rq g = Inl (reject UnknownUser d)) \<longleftrightarrow> (\<exists>r. ?R ?rows = Inl r)"
  proof (cases "?R ?rows")
    case (Inl r)
    then have "r = reject UnknownUser (rej_detail r)"
      using resolve_request_user_slug [OF Inl] by (simp add: reject_def)
    with Inl same show ?thesis by (auto simp: make_plan_def intro: exI [of _ "rej_detail r"])
  next
    case (Inr user)
    with same show ?thesis
      by (auto simp: make_plan_def Let_def bind_r_Inl
          dest!: choose_gid_slug choose_program_slug)
  qed
  then show ?thesis
    by (auto simp: resolve_request_user_def bind_r_Inl Let_def default_user_row_def
        split: option.splits name_or_id.splits sum.splits if_splits)
qed

text \<open>
  A request that names its user and no group takes its uid and gid as documented: a name
  that is a row takes the row's uid and primary gid, while a uid (an integer, or digits that
  name no row) is taken as it is and keeps the daemon's group.
\<close>
theorem named_user_ids:
  assumes "make_plan rq g = Inr p" and "req_user rq = Some spec" and "req_group rq = None"
  shows "pl_uid p = (case spec of Id u \<Rightarrow> Some u
      | Name n \<Rightarrow> (case row_by_name (parse_passwd (g_passwd g)) n of
          Some row \<Rightarrow> Some (pw_uid row) | None \<Rightarrow> digits n))
    \<and> pl_gid p = (case spec of Id u \<Rightarrow> None
      | Name n \<Rightarrow> map_option pw_gid (row_by_name (parse_passwd (g_passwd g)) n))"
proof -
  obtain user where
    u: "resolve_request_user rq (g_default_user g) (g_captured_user g) (parse_passwd (g_passwd g))
        = Inr user"
    and gid: "choose_gid rq g user = Inr (pl_gid p)"
    and uid: "pl_uid p = map_option us_uid user"
    by (rule make_plan_Inr [OF assms(1)])
  from u assms(2) obtain us where us: "resolve_user spec (parse_passwd (g_passwd g)) = Inr us"
    and "user = Some us"
    by (auto simp: resolve_request_user_def bind_r_Inr)
  with gid uid assms(2,3) show ?thesis
    by (cases spec) (auto simp: choose_gid_def split: option.splits)
qed

theorem named_user_ids_witness:
  "\<exists>p. make_plan (sample_request\<lparr>req_user := Some (Id 0)\<rparr>) sample_guest = Inr p \<and>
       pl_uid p = Some 0 \<and> pl_gid p = None"
proof -
  let ?rq = "sample_request\<lparr>req_user := Some (Id 0)\<rparr>"
  obtain p where p: "make_plan ?rq sample_guest = Inr p"
    by (simp add: make_plan_def Let_def resolve_request_user_def choose_gid_def choose_program_def)
  from named_user_ids [OF p] p show ?thesis by auto
qed

text \<open>
  A bare shell name resolves to the first directory searched that holds an executable of
  that name, always an absolute path, and is refused as unknown_shell exactly when no directory
  searched holds one. The directories searched are the absolute entries of the child's PATH,
  then of the image's PATH, then /bin and /usr/bin.
\<close>
theorem bare_shell_first_match:
  assumes "name \<noteq> []" and "CHR ''/'' \<notin> set name"
  shows "case resolve_shell name cp ip ex of
      Inr p \<Rightarrow> is_absolute p \<and> ex p \<and>
        (\<exists>pre d post. searched_dirs cp ip = pre @ d # post \<and> p = path_join d name \<and>
           (\<forall>x \<in> set pre. \<not> ex (path_join x name)))
    | Inl r \<Rightarrow> r = reject UnknownShell (ShellNotOnPath name) \<and>
        (\<forall>d \<in> set (searched_dirs cp ip). \<not> ex (path_join d name))"
proof (cases "first_executable ex name (searched_dirs cp ip)")
  case None
  with assms iffD1 [OF first_executable_None None] show ?thesis by (simp add: resolve_shell_def)
next
  case (Some p)
  from first_executable_Some [OF Some] obtain pre d post where
    dp: "searched_dirs cp ip = pre @ d # post" "p = path_join d name" "ex p"
      "\<forall>x \<in> set pre. \<not> ex (path_join x name)"
    by blast
  then have "is_absolute p"
    using searched_dirs_absolute [of d cp ip] path_join_absolute by simp
  with dp Some assms show ?thesis by (auto simp: resolve_shell_def)
qed

theorem bare_shell_first_match_witness:
  "resolve_shell ''zsh'' None (Some ''rel:/image/bin'') (g_is_executable sample_guest)
     = Inr ''/image/bin/zsh'' \<and> is_absolute ''/image/bin/zsh''"
proof -
  have "resolve_shell ''zsh'' None (Some ''rel:/image/bin'') (g_is_executable sample_guest)
     = Inr ''/image/bin/zsh''"
    by (simp add: resolve_shell_def searched_dirs_def is_absolute_def path_join_def
        sample_guest_def)
  with bare_shell_first_match [of "''zsh''" None "Some ''rel:/image/bin''"
      "g_is_executable sample_guest"]
  show ?thesis by simp
qed

text \<open>The line format of passwd(5), and the rows it can carry.\<close>

definition render_passwd_row :: "passwd_row \<Rightarrow> string" where
  "render_passwd_row r =
     join_with '':'' [pw_name r, ''x'', show_nat (unat (pw_uid r)), show_nat (unat (pw_gid r)),
                      [], pw_home r, ''/bin/sh'']"

definition wf_passwd_row :: "passwd_row \<Rightarrow> bool" where
  "wf_passwd_row r \<longleftrightarrow> \<not> skipped_name (pw_name r) \<and>
     CHR '':'' \<notin> set (pw_name r @ pw_home r) \<and> LF \<notin> set (pw_name r @ pw_home r)"

lemma show_nat_chars: "c \<in> set (show_nat n) \<Longrightarrow> c \<noteq> CHR '':'' \<and> c \<noteq> LF"
  using show_nat_props [of n] is_digit_not_special by blast

lemma render_passwd_row_line:
  assumes "wf_passwd_row r"
  shows "parse_passwd_line (render_passwd_row r) = Some r \<and> LF \<notin> set (render_passwd_row r)
     \<and> strip_cr (render_passwd_row r) = render_passwd_row r"
proof -
  have "split_on (CHR '':'') (render_passwd_row r) =
      [pw_name r, ''x'', show_nat (unat (pw_uid r)), show_nat (unat (pw_gid r)),
       [], pw_home r, ''/bin/sh'']"
    unfolding render_passwd_row_def
    using assms by (intro split_on_join) (auto simp: wf_passwd_row_def dest: show_nat_chars)
  then have "parse_passwd_line (render_passwd_row r) = Some r"
    using assms by (simp add: parse_passwd_line_def wf_passwd_row_def parse_u32_show)
  moreover have "LF \<notin> set (render_passwd_row r)"
    using assms by (auto simp: render_passwd_row_def wf_passwd_row_def dest: show_nat_chars)
      (simp_all add: LF_def)
  moreover have "last (render_passwd_row r) \<noteq> CR"
    by (simp add: render_passwd_row_def CR_def)
  ultimately show ?thesis by (simp add: strip_cr_def)
qed

text \<open>
  Reading a passwd file back gives exactly the rows it was written from, ids included: the
  parser loses, reorders and invents no row of a well-formed file.
\<close>
theorem passwd_roundtrip:
  assumes "\<forall>r \<in> set rows. wf_passwd_row r"
  shows "parse_passwd (concat (map (\<lambda>r. render_passwd_row r @ [LF]) rows)) = rows"
  using assms
proof (induction rows)
  case Nil
  then show ?case by simp
next
  case (Cons r rows)
  then have "wf_passwd_row r" by simp
  from render_passwd_row_line [OF this] Cons show ?case
    by (simp add: parse_passwd_Cons)
qed

theorem passwd_roundtrip_witness:
  "parse_passwd (render_passwd_row \<lparr>pw_name = ''agent'', pw_uid = 1000, pw_gid = 7, pw_home = ''/''\<rparr>
      @ [LF]) = [\<lparr>pw_name = ''agent'', pw_uid = 1000, pw_gid = 7, pw_home = ''/''\<rparr>]"
  using passwd_roundtrip [of "[\<lparr>pw_name = ''agent'', pw_uid = 1000, pw_gid = 7, pw_home = ''/''\<rparr>]"]
  by (simp add: wf_passwd_row_def skipped_name_def LF_def)

end
