(* ===== verification/Strings.thy ===== *)
theory Strings
  imports Prelude
begin

text \<open>
  The rest of the string library the daemon calls: lossy decoding of bytes, white space by the
  Unicode property, and the parsing of unsigned integers of any width. A Rust \<open>str\<close> is
  the list of its UTF-8 bytes, as characters (\<open>string\<close>) or as \<open>bytes\<close>.
\<close>

section \<open>Lossy UTF-8\<close>

text \<open>
  \<open>String::from_utf8_lossy\<close>: each maximal invalid prefix of a sequence becomes one
  replacement character.
\<close>

definition REPLACEMENT :: bytes where
  "REPLACEMENT = [0xEF, 0xBF, 0xBD]"

definition utf8_cont :: "byte \<Rightarrow> bool" where
  "utf8_cont b \<longleftrightarrow> 0x80 \<le> b \<and> b \<le> 0xBF"

definition utf8_second :: "byte \<Rightarrow> byte \<Rightarrow> bool" where
  "utf8_second l b \<longleftrightarrow>
     (if l = 0xE0 then 0xA0 \<le> b \<and> b \<le> 0xBF
      else if l = 0xED then 0x80 \<le> b \<and> b \<le> 0x9F
      else if l = 0xF0 then 0x90 \<le> b \<and> b \<le> 0xBF
      else if l = 0xF4 then 0x80 \<le> b \<and> b \<le> 0x8F
      else utf8_cont b)"

definition utf8_width :: "byte \<Rightarrow> nat" where
  "utf8_width l =
     (if l < 0x80 then 1
      else if 0xC2 \<le> l \<and> l \<le> 0xDF then 2
      else if 0xE0 \<le> l \<and> l \<le> 0xEF then 3
      else if 0xF0 \<le> l \<and> l \<le> 0xF4 then 4
      else 0)"

fun utf8_lossy :: "bytes \<Rightarrow> bytes" where
  "utf8_lossy [] = []"
| "utf8_lossy (a # bs) =
     (if utf8_width a = 1 then a # utf8_lossy bs
      else if utf8_width a = 0 then REPLACEMENT @ utf8_lossy bs
      else
        (case bs of
           [] \<Rightarrow> REPLACEMENT
         | b # cs \<Rightarrow>
             if \<not> utf8_second a b then REPLACEMENT @ utf8_lossy bs
             else if utf8_width a = 2 then a # b # utf8_lossy cs
             else
               (case cs of
                  [] \<Rightarrow> REPLACEMENT
                | c # ds \<Rightarrow>
                    if \<not> utf8_cont c then REPLACEMENT @ utf8_lossy cs
                    else if utf8_width a = 3 then a # b # c # utf8_lossy ds
                    else
                      (case ds of
                         [] \<Rightarrow> REPLACEMENT
                       | d # es \<Rightarrow>
                           if \<not> utf8_cont d then REPLACEMENT @ utf8_lossy ds
                           else a # b # c # d # utf8_lossy es))))"

lemma utf8_lossy_ascii: "\<forall>b \<in> set bs. b < 0x80 \<Longrightarrow> utf8_lossy bs = bs"
  by (induction bs) (simp_all add: utf8_width_def)

section \<open>Splitting at white space\<close>

text \<open>
  \<open>str::split_whitespace\<close> splits at the characters with the Unicode White_Space property;
  \<open>ws_len\<close> is the length of such a character at the front of a UTF-8 string, or 0.
\<close>

definition code :: "char \<Rightarrow> nat" where
  "code c = of_char c"

definition ws_len :: "string \<Rightarrow> nat" where
  "ws_len s =
     (case s of
        [] \<Rightarrow> 0
      | a # t \<Rightarrow>
          if code a = 0x20 \<or> (0x09 \<le> code a \<and> code a \<le> 0x0D) then 1
          else
            (case t of
               [] \<Rightarrow> 0
             | b # u \<Rightarrow>
                 if code a = 0xC2 \<and> (code b = 0x85 \<or> code b = 0xA0) then 2
                 else
                   (case u of
                      [] \<Rightarrow> 0
                    | c # _ \<Rightarrow>
                        if (code a, code b, code c) = (0xE1, 0x9A, 0x80) \<or>
                           (code a, code b) = (0xE2, 0x80) \<and>
                             ((0x80 \<le> code c \<and> code c \<le> 0x8A) \<or> code c = 0xA8 \<or> code c = 0xA9
                              \<or> code c = 0xAF) \<or>
                           (code a, code b, code c) = (0xE2, 0x81, 0x9F) \<or>
                           (code a, code b, code c) = (0xE3, 0x80, 0x80)
                        then 3 else 0)))"

definition flush :: "string \<Rightarrow> string list" where
  "flush w = (if w = [] then [] else [w])"

function split_ws :: "string \<Rightarrow> string \<Rightarrow> string list" where
  "split_ws w s =
     (if s = [] then flush w
      else if ws_len s = 0 then split_ws (w @ [hd s]) (tl s)
      else flush w @ split_ws [] (drop (ws_len s) s))"
  by pat_completeness auto
termination
  by (relation "measure (\<lambda>(w, s). length s)") (auto intro: Nat.diff_less)

declare split_ws.simps [simp del]

definition split_whitespace :: "string \<Rightarrow> string list" where
  "split_whitespace s = split_ws [] s"

lemma code_blank [simp]: "code (CHR '' '') = 0x20"
  by (simp add: code_def)

lemma split_ws_blank: "split_ws w ('' '' @ s) = flush w @ split_ws [] s"
  by (subst split_ws.simps) (simp add: ws_len_def)

lemma split_ws_Nil: "split_ws w [] = flush w"
  by (subst split_ws.simps) simp

section \<open>Trimming\<close>

text \<open>\<open>str::trim\<close>: white space dropped at both ends.\<close>

function trim_start :: "string \<Rightarrow> string" where
  "trim_start s = (if s = [] \<or> ws_len s = 0 then s else trim_start (drop (ws_len s) s))"
  by pat_completeness auto
termination
  by (relation "measure length") auto

declare trim_start.simps [simp del]

fun trim_end :: "string \<Rightarrow> string" where
  "trim_end [] = []"
| "trim_end (c # cs) = (if trim_start (c # cs) = [] then [] else c # trim_end cs)"

definition str_trim :: "string \<Rightarrow> string" where
  "str_trim s = trim_end (trim_start s)"

text \<open>\<open>str::to_ascii_lowercase\<close>.\<close>

definition ascii_lower :: "char \<Rightarrow> char" where
  "ascii_lower c = (if 65 \<le> code c \<and> code c \<le> 90 then char_of (code c + 32) else c)"

section \<open>Strings and bytes\<close>

lemma unat_of_char_byte: "char_of (unat (of_char c :: byte)) = c"
proof -
  have less: "(of_char c :: nat) < 256" by (cases c) (simp add: of_char_def)
  have "(of_char c :: byte) = of_nat (of_char c)" by (simp only: of_nat_of_char)
  with less show ?thesis by (simp add: unat_of_nat)
qed

definition string_of :: "bytes \<Rightarrow> string" where
  "string_of bs = map (\<lambda>b. char_of (unat b)) bs"

definition as_bytes :: "string \<Rightarrow> bytes" where
  "as_bytes s = map of_char s"

lemma string_of_as_bytes [simp]: "string_of (as_bytes s) = s"
  by (simp add: string_of_def as_bytes_def comp_def unat_of_char_byte)

lemma as_bytes_append [simp]: "as_bytes (a @ b) = as_bytes a @ as_bytes b" "as_bytes [] = []"
  "length (as_bytes a) = length a"
  by (simp_all add: as_bytes_def)

lemma string_of_append [simp]: "string_of (a @ b) = string_of a @ string_of b" "string_of [] = []"
  by (simp_all add: string_of_def)

text \<open>Well-formed UTF-8 is what lossy decoding leaves alone.\<close>

definition utf8_string :: "bytes \<Rightarrow> string option" where
  "utf8_string bs = (if utf8_lossy bs = bs then Some (string_of bs) else None)"

section \<open>Unsigned integers\<close>

text \<open>\<open>from_str\<close> of an unsigned type whose values are below a bound.\<close>

definition parse_below :: "nat \<Rightarrow> string \<Rightarrow> nat option" where
  "parse_below bound s =
     (let ds = strip_plus s
      in if ds = [] then None
         else (case dec_val 0 ds of
                 None \<Rightarrow> None
               | Some n \<Rightarrow> if n < bound then Some n else None))"

lemma parse_below_bound: "parse_below bound s = Some n \<Longrightarrow> n < bound"
  by (auto simp: parse_below_def Let_def split: if_splits option.splits)

lemma parse_below_show: "n < bound \<Longrightarrow> parse_below bound (show_nat n) = Some n"
  using show_nat_props [of n] by (simp add: parse_below_def strip_plus_digits)

end
