(* ===== verification/Config.thy ===== *)
theory Config
  imports ExecStart Strings
begin

text \<open>
  The daemon's configuration (\<open>crates/agentd/src/config.rs\<close>) and the image user captured
  at build time (\<open>image_user.rs\<close>). The process environment is a map to raw bytes, the
  sealed record a file with its owner, mode and contents; the JSON decoding of the record is the
  parameter \<open>decode\<close>. Durations are nanoseconds.
\<close>

section \<open>The settings\<close>

record config =
  cf_port :: nat
  cf_max_body_bytes :: nat
  cf_max_drain_bytes :: nat
  cf_max_output_bytes :: nat
  cf_output_linger :: nat
  cf_exec_ttl :: nat
  cf_kill_grace :: nat
  cf_max_tar_members :: nat
  cf_max_tar_bytes :: nat
  cf_stream_buffer_bytes :: nat
  cf_stream_channel_capacity :: nat
  cf_sse_keepalive :: nat
  cf_max_stdin_write_bytes :: nat
  cf_stdin_write_timeout :: nat
  cf_disk_reserve_bytes :: nat
  cf_repair_identity :: bool
  cf_hooks_dir :: string
  cf_hook_handler_timeout :: nat
  cf_passwd_path :: string
  cf_group_path :: string
  cf_default_user :: "string option"
  cf_captured_user :: bool

definition secs :: "nat \<Rightarrow> nat" where
  "secs n = n * 10 ^ 9"

definition DEFAULT_AGENT_PORT :: nat where
  "DEFAULT_AGENT_PORT = 9000"

definition MAX_HOOK_HANDLER_SECS :: nat where
  "MAX_HOOK_HANDLER_SECS = 55"

definition DEFAULT_USER_VAR :: string where
  "DEFAULT_USER_VAR = ''AGENTD_DEFAULT_USER''"

definition SETTING :: string where
  "SETTING = ''AGENTD_PRESERVE_IMAGE_USER''"

definition default_config :: config where
  "default_config = \<lparr>
     cf_port = DEFAULT_AGENT_PORT,
     cf_max_body_bytes = 512 * 1024 * 1024,
     cf_max_drain_bytes = 64 * 1024,
     cf_max_output_bytes = 8 * 1024 * 1024,
     cf_output_linger = secs 5,
     cf_exec_ttl = secs (15 * 60),
     cf_kill_grace = secs 10,
     cf_max_tar_members = 100000,
     cf_max_tar_bytes = 8 * 1024 * 1024 * 1024,
     cf_stream_buffer_bytes = 1024 * 1024,
     cf_stream_channel_capacity = 256,
     cf_sse_keepalive = secs 15,
     cf_max_stdin_write_bytes = 1024 * 1024,
     cf_stdin_write_timeout = secs 5,
     cf_disk_reserve_bytes = 256 * 1024 * 1024,
     cf_repair_identity = True,
     cf_hooks_dir = ''/etc/agentd/hooks.d'',
     cf_hook_handler_timeout = secs 20,
     cf_passwd_path = ''/etc/passwd'',
     cf_group_path = ''/etc/group'',
     cf_default_user = None,
     cf_captured_user = False\<rparr>"

section \<open>The captured image user\<close>

definition MAX_RECORD_BYTES :: nat where
  "MAX_RECORD_BYTES = 128"

record record_file =
  rf_is_file :: bool
  rf_owner :: u32
  rf_mode :: u32
  rf_bytes :: bytes

text \<open>\<open>open\<close> with \<open>O_NOFOLLOW\<close>: no file, or one that is not root's, is an error.\<close>

definition open_record :: "record_file option \<Rightarrow> record_file option" where
  "open_record f =
     (case f of None \<Rightarrow> None
      | Some r \<Rightarrow> if \<not> rf_is_file r \<or> rf_owner r \<noteq> 0 then None else Some r)"

definition read_identity ::
  "(bytes \<Rightarrow> (u32 \<times> u32) option) \<Rightarrow> record_file \<Rightarrow> (u32 \<times> u32) option" where
  "read_identity decode r =
     (let bs = take (MAX_RECORD_BYTES + 1) (rf_bytes r)
      in if MAX_RECORD_BYTES < length bs then None else decode bs)"

definition read_sealed ::
  "(bytes \<Rightarrow> (u32 \<times> u32) option) \<Rightarrow> record_file \<Rightarrow> string option" where
  "read_sealed decode r =
     (if and (rf_mode r) 18 \<noteq> 0 then None
      else map_option (\<lambda>(uid, gid). show_nat (unat uid) @ '':'' @ show_nat (unat gid))
             (read_identity decode r))"

definition image_default_user ::
  "(bytes \<Rightarrow> (u32 \<times> u32) option) \<Rightarrow> record_file option \<Rightarrow> string option" where
  "image_default_user decode f = Option.bind (open_record f) (read_sealed decode)"

text \<open>The build modes: \<open>capture\<close> as the final user, \<open>seal\<close> as root.\<close>

definition capture ::
  "(u32 \<times> u32 \<Rightarrow> bytes) \<Rightarrow> u32 \<Rightarrow> u32 \<Rightarrow> record_file option \<Rightarrow> record_file option" where
  "capture encode euid egid f =
     (case open_record f of None \<Rightarrow> None | Some r \<Rightarrow> Some (r\<lparr>rf_bytes := encode (euid, egid)\<rparr>))"

definition seal ::
  "(bytes \<Rightarrow> (u32 \<times> u32) option) \<Rightarrow> u32 \<Rightarrow> record_file option \<Rightarrow> record_file option" where
  "seal decode euid f =
     (if euid \<noteq> 0 then None
      else (case open_record f of
              None \<Rightarrow> None
            | Some r \<Rightarrow>
                (case read_identity decode r of
                   None \<Rightarrow> None
                 | Some _ \<Rightarrow> Some (r\<lparr>rf_mode := 292\<rparr>))))"

section \<open>Reading the environment\<close>

type_synonym os_env = "string \<Rightarrow> bytes option"

text \<open>\<open>std::env::var\<close>: a value that is not UTF-8 is an error like an unset one.\<close>

definition env_var :: "os_env \<Rightarrow> string \<Rightarrow> string option" where
  "env_var e key = Option.bind (e key) utf8_string"

text \<open>A setting that is set and parses replaces the default.\<close>

definition env_parse :: "nat \<Rightarrow> os_env \<Rightarrow> string \<Rightarrow> nat option" where
  "env_parse bound e key = Option.bind (env_var e key) (parse_below bound)"

definition env_flag :: "os_env \<Rightarrow> string \<Rightarrow> bool option" where
  "env_flag e key =
     Option.bind (env_var e key) (\<lambda>raw.
       let s = map ascii_lower (str_trim raw)
       in if s \<in> set [''1'', ''true'', ''yes'', ''on''] then Some True
          else if s \<in> set [''0'', ''false'', ''no'', ''off''] then Some False
          else None)"

definition default_user_of :: "bytes option \<Rightarrow> string option" where
  "default_user_of raw = map_option (\<lambda>r. string_of (utf8_lossy r)) raw"

definition INVALID_PRESERVED_USER :: string where
  "INVALID_PRESERVED_USER = ''<invalid preserved image user>''"

definition preserved_user :: "bytes \<Rightarrow> string option \<Rightarrow> string" where
  "preserved_user flag captured =
     (case (utf8_string flag, captured) of
        (Some f, Some user) \<Rightarrow> if f = ''1'' then user else INVALID_PRESERVED_USER
      | _ \<Rightarrow> INVALID_PRESERVED_USER)"

definition configured_default ::
  "bytes option \<Rightarrow> bytes option \<Rightarrow> string option \<Rightarrow> string option" where
  "configured_default explicit preserve captured =
     (if explicit \<noteq> None then default_user_of explicit
      else map_option (\<lambda>flag. preserved_user flag captured) preserve)"

definition or_default :: "'a option \<Rightarrow> 'a \<Rightarrow> 'a" where
  "or_default m d = (case m of None \<Rightarrow> d | Some x \<Rightarrow> x)"

text \<open>\<open>Config::from_env\<close>: \<open>captured\<close> is what reading the record gave.\<close>

definition config_from_env :: "os_env \<Rightarrow> string option \<Rightarrow> config" where
  "config_from_env e captured =
     (let d = default_config;
          u16 = 2 ^ 16; u64 = 2 ^ 64
      in d\<lparr>cf_port := or_default (env_parse u16 e ''AGENTD_PORT'') (cf_port d),
           cf_max_body_bytes := or_default (env_parse u64 e ''AGENTD_MAX_BODY_BYTES'') (cf_max_body_bytes d),
           cf_max_output_bytes := or_default (env_parse u64 e ''AGENTD_MAX_OUTPUT_BYTES'') (cf_max_output_bytes d),
           cf_output_linger := or_default (map_option secs (env_parse u64 e ''AGENTD_OUTPUT_LINGER_SECS'')) (cf_output_linger d),
           cf_exec_ttl := or_default (map_option secs (env_parse u64 e ''AGENTD_EXEC_TTL_SECS'')) (cf_exec_ttl d),
           cf_stream_buffer_bytes := or_default (env_parse u64 e ''AGENTD_STREAM_BUFFER_BYTES'') (cf_stream_buffer_bytes d),
           cf_stream_channel_capacity := or_default (env_parse u64 e ''AGENTD_STREAM_CHANNEL_CAPACITY'') (cf_stream_channel_capacity d),
           cf_sse_keepalive := or_default (map_option secs (env_parse u64 e ''AGENTD_SSE_KEEPALIVE_SECS'')) (cf_sse_keepalive d),
           cf_max_stdin_write_bytes := or_default (env_parse u64 e ''AGENTD_MAX_STDIN_WRITE_BYTES'') (cf_max_stdin_write_bytes d),
           cf_disk_reserve_bytes := or_default (env_parse u64 e ''AGENTD_DISK_RESERVE_BYTES'') (cf_disk_reserve_bytes d),
           cf_repair_identity := or_default (env_flag e ''AGENTD_REPAIR_IDENTITY'') (cf_repair_identity d),
           cf_hook_handler_timeout :=
             or_default (map_option (\<lambda>s. secs (max 1 (min s MAX_HOOK_HANDLER_SECS)))
                           (env_parse u64 e ''AGENTD_HOOK_HANDLER_TIMEOUT_SECS''))
               (cf_hook_handler_timeout d),
           cf_captured_user := (e DEFAULT_USER_VAR = None \<and> e SETTING \<noteq> None),
           cf_default_user := configured_default (e DEFAULT_USER_VAR) (e SETTING) captured\<rparr>)"

text \<open>The guest a start request is resolved against, from the configuration and the files read.\<close>

definition guest_of ::
  "config \<Rightarrow> env \<Rightarrow> env option \<Rightarrow> string \<Rightarrow> string \<Rightarrow> (string \<Rightarrow> bool) \<Rightarrow> guest" where
  "guest_of cfg launch img passwd grp is_exec =
     \<lparr>g_launch_env = launch, g_image_env = img, g_passwd = passwd, g_group = grp,
      g_default_user = cf_default_user cfg, g_captured_user = cf_captured_user cfg,
      g_is_executable = is_exec\<rparr>"

section \<open>Facts\<close>

lemma digits_show: "digits (show_nat (unat (w::u32))) = Some w"
  using show_nat_props [of "unat w"] by (simp add: digits_def parse_u32_show)

lemma captured_identity_show:
  "captured_identity (show_nat (unat u) @ '':'' @ show_nat (unat g)) = Some (u, g)"
proof -
  have "CHR '':'' \<notin> set (show_nat (unat u))" by (auto dest: show_nat_chars)
  then have "split_once (CHR '':'') (show_nat (unat u) @ '':'' @ show_nat (unat g))
      = Some (show_nat (unat u), show_nat (unat g))"
    by (simp add: split_once_Some)
  then show ?thesis by (simp add: captured_identity_def digits_show)
qed

lemma invalid_preserved_refused: "captured_identity INVALID_PRESERVED_USER = None"
  by (simp add: captured_identity_def INVALID_PRESERVED_USER_def)

lemma captured_config:
  assumes "e DEFAULT_USER_VAR = None" and "e SETTING \<noteq> None"
  shows "cf_captured_user (config_from_env e captured) \<and>
    (cf_default_user (config_from_env e captured) = Some INVALID_PRESERVED_USER \<or>
     cf_default_user (config_from_env e captured) = captured)"
  using assms
  by (auto simp: config_from_env_def Let_def configured_default_def preserved_user_def
      split: option.splits)

lemma image_default_user_Some:
  "image_default_user decode f = Some s \<Longrightarrow>
    \<exists>r u g. f = Some r \<and> rf_is_file r \<and> rf_owner r = 0 \<and> and (rf_mode r) 18 = 0 \<and>
      decode (rf_bytes r) = Some (u, g) \<and> s = show_nat (unat u) @ '':'' @ show_nat (unat g)"
  by (auto simp: image_default_user_def open_record_def read_sealed_def read_identity_def
      bind_eq_Some_conv Let_def split: option.splits if_splits)

section \<open>Properties\<close>

text \<open>
  C6: On an image that preserves its builder user, a start that names no user or group never
  runs as the daemon's root by accident: it runs as exactly the uid and gid of the sealed,
  root-owned record, or it is refused as unknown_user. No passwd content, launch environment or
  record damage changes that.
\<close>
theorem preserved_user_never_downgraded:
  assumes "e DEFAULT_USER_VAR = None" and "e SETTING \<noteq> None"
    and "req_user rq = None" and "req_group rq = None"
    and "cfg = config_from_env e (image_default_user decode f)"
  shows "case make_plan rq (guest_of cfg launch img passwd grp ex) of
      Inl r \<Rightarrow> rej_error r = UnknownUser \<or>
        (\<exists>(u::u32) (g::u32). image_default_user decode f = Some (show_nat (unat u) @ '':'' @ show_nat (unat g)))
    | Inr p \<Rightarrow> \<exists>r u g. f = Some r \<and> rf_owner r = 0 \<and> and (rf_mode r) 18 = 0 \<and>
        decode (rf_bytes r) = Some (u, g) \<and> pl_uid p = Some u \<and> pl_gid p = Some g"
proof -
  let ?g = "guest_of cfg launch img passwd grp ex"
  have cap: "cf_captured_user cfg"
    and def: "cf_default_user cfg = Some INVALID_PRESERVED_USER \<or>
      cf_default_user cfg = image_default_user decode f"
    using captured_config [OF assms(1,2)] assms(5) by blast+
  have some: "cf_default_user cfg \<noteq> None"
    using assms(1,2,5) by (auto simp: config_from_env_def Let_def configured_default_def)
  show ?thesis
  proof (cases "make_plan rq ?g")
    case (Inl r)
    show ?thesis
    proof (cases "cf_default_user cfg = Some INVALID_PRESERVED_USER")
      case True
      then have "resolve_request_user rq (g_default_user ?g) (g_captured_user ?g) rows
          = Inl (reject UnknownUser (DefaultNotUidGid INVALID_PRESERVED_USER))" for rows
        using assms(3) cap
        by (simp add: resolve_request_user_def guest_of_def invalid_preserved_refused)
      then have "make_plan rq ?g = Inl (reject UnknownUser (DefaultNotUidGid INVALID_PRESERVED_USER))"
        by (simp add: make_plan_def Let_def)
      then show ?thesis by simp
    next
      case False
      with def some obtain s where s: "image_default_user decode f = Some s" by auto
      from image_default_user_Some [OF s] obtain u g :: u32
        where "s = show_nat (unat u) @ '':'' @ show_nat (unat g)" by blast
      with s have "\<exists>(u::u32) (g::u32). image_default_user decode f = Some (show_nat (unat u) @ '':'' @ show_nat (unat g))"
        by blast
      with Inl show ?thesis by simp
    qed
  next
    case (Inr p)
    obtain user where u: "resolve_request_user rq (g_default_user ?g) (g_captured_user ?g)
        (parse_passwd (g_passwd ?g)) = Inr user"
      and gid: "choose_gid rq ?g user = Inr (pl_gid p)" and uid: "pl_uid p = map_option us_uid user"
      by (rule make_plan_Inr [OF Inr])
    from u assms(3) cap some obtain name a b where nm: "cf_default_user cfg = Some name"
      and ci: "captured_identity name = Some (a, b)" and us: "map_option us_uid user = Some a"
      by (auto simp: resolve_request_user_def guest_of_def bind_r_Inr split: option.splits)
    with def have "image_default_user decode f = Some name" by (auto simp: invalid_preserved_refused)
    from image_default_user_Some [OF this] obtain r x y where r: "f = Some r" "rf_owner r = 0"
      "and (rf_mode r) 18 = 0" "decode (rf_bytes r) = Some (x, y)"
      and name: "name = show_nat (unat x) @ '':'' @ show_nat (unat y)" by blast
    from ci name have xy: "a = x" "b = y" using captured_identity_show [of x y] by auto
    have "choose_gid rq ?g user = Inr (Some y)"
      using assms(3,4) nm ci xy name by (simp add: choose_gid_def guest_of_def)
    with gid uid us xy r Inr show ?thesis by auto
  qed
qed

theorem preserved_user_never_downgraded_witness:
  "\<exists>p. make_plan (new_start_request ''a'' [''id''])
      (guest_of (config_from_env [SETTING \<mapsto> [0x31]]
        (image_default_user (\<lambda>_. Some (7, 8))
          (Some \<lparr>rf_is_file = True, rf_owner = 0, rf_mode = 292, rf_bytes = []\<rparr>)))
        Map.empty None [] [] (\<lambda>_. False)) = Inr p \<and> pl_uid p = Some 7 \<and> pl_gid p = Some 8"
proof -
  let ?f = "Some \<lparr>rf_is_file = True, rf_owner = 0, rf_mode = 292, rf_bytes = []\<rparr>"
  let ?e = "[SETTING \<mapsto> [0x31]] :: os_env"
  let ?rq = "new_start_request ''a'' [''id'']"
  let ?cfg = "config_from_env ?e (image_default_user (\<lambda>_. Some (7, 8)) ?f)"
  have e: "?e DEFAULT_USER_VAR = None" "?e SETTING \<noteq> None"
    by (simp_all add: DEFAULT_USER_VAR_def SETTING_def)
  have rq: "req_user ?rq = None" "req_group ?rq = None" by (simp_all add: new_start_request_def)
  have img: "image_default_user (\<lambda>_. Some (7, 8)) ?f = Some (show_nat 7 @ '':'' @ show_nat 8)"
    by (simp add: image_default_user_def open_record_def read_sealed_def read_identity_def
        MAX_RECORD_BYTES_def)
  have "utf8_string [0x31] = Some ''1''"
    by (simp add: utf8_string_def utf8_width_def string_of_def char_of_def bit_numeral_rec bit_0)
  with e img have "cf_default_user ?cfg = Some (show_nat 7 @ '':'' @ show_nat 8)"
    by (simp add: config_from_env_def Let_def configured_default_def preserved_user_def)
  moreover have "captured_identity (show_nat 7 @ '':'' @ show_nat 8) = Some (7, 8)"
    using captured_identity_show [of 7 8] by simp
  moreover have "cf_captured_user ?cfg" using captured_config [OF e] by blast
  ultimately obtain p where p: "make_plan ?rq (guest_of ?cfg Map.empty None [] [] (\<lambda>_. False)) = Inr p"
    using rq by (simp add: make_plan_def Let_def resolve_request_user_def guest_of_def
        choose_gid_def choose_program_def new_start_request_def)
  from preserved_user_never_downgraded [OF e rq refl, where launch = Map.empty and img = None
      and passwd = "[]" and grp = "[]" and ex = "\<lambda>_. False" and f = ?f
      and decode = "\<lambda>_. Some (7, 8)"]
  have "pl_uid p = Some 7 \<and> pl_gid p = Some 8" unfolding p by auto
  with p show ?thesis by blast
qed

end
