(* ===== verification/ReplayLog.thy ===== *)
theory ReplayLog
  imports Protocol
begin

text \<open>
  The replay window of \<open>crates/agentd/src/exec.rs\<close>: \<open>Log\<close>, \<open>RingChunk\<close>,
  \<open>Frame\<close>, \<open>Log::trim\<close>, \<open>Log::since\<close>, \<open>Shared::publish\<close>. The
  specification is the history: the list of every byte ever published, tagged with its stream.
  The ring is proved to be exactly the last \<open>buffer_cap\<close> bytes of it. Offsets are
  \<open>u64\<close> in the code and count published bytes; the model has them as \<open>nat\<close>, since a
  wrap would need \<open>2^64\<close> bytes of output.
\<close>

datatype frame = Chunk stream_kind nat bytes | FinishedFrame

text \<open>The terminal marker, written once when the exec is over.\<close>

record terminal =
  tm_exit_code :: "int option"
  tm_signal :: "int option"
  tm_timed_out :: bool
  tm_truncated :: bool
  tm_writers_may_be_alive :: bool

record ring_chunk =
  ck_stream :: stream_kind
  ck_offset :: nat
  ck_bytes :: bytes

record log =
  lg_ring :: "ring_chunk list"
  lg_total :: nat
  lg_start :: nat
  lg_retained :: nat

definition default_log :: log where
  "default_log = \<lparr>lg_ring = [], lg_total = 0, lg_start = 0, lg_retained = 0\<rparr>"

section \<open>The operations\<close>

function trim :: "nat \<Rightarrow> log \<Rightarrow> log" where
  "trim cap l =
     (if cap < lg_retained l then
        (let over = lg_retained l - cap in
         case lg_ring l of
           [] \<Rightarrow> l
         | front # rest \<Rightarrow>
             if length (ck_bytes front) \<le> over then
               trim cap (l\<lparr>lg_retained := lg_retained l - length (ck_bytes front),
                           lg_start := lg_start l + length (ck_bytes front),
                           lg_ring := rest\<rparr>)
             else
               trim cap (l\<lparr>lg_ring := front\<lparr>ck_bytes := drop over (ck_bytes front),
                                              ck_offset := ck_offset front + over\<rparr> # rest,
                           lg_retained := lg_retained l - over,
                           lg_start := lg_start l + over\<rparr>))
      else l)"
  by pat_completeness auto
termination
  by (relation "measure (\<lambda>(cap, l). length (lg_ring l) + lg_retained l)") auto

declare trim.simps [simp del]

text \<open>
  \<open>Shared::publish\<close> under the log lock: nothing for an empty read; otherwise append, trim,
  and return the frame broadcast to the live channel.
\<close>

definition publish :: "nat \<Rightarrow> stream_kind \<Rightarrow> bytes \<Rightarrow> log \<Rightarrow> log \<times> frame option" where
  "publish cap kind bs l =
     (if bs = [] then (l, None)
      else
        (let offset = lg_total l;
             l1 = l\<lparr>lg_total := lg_total l + length bs,
                    lg_retained := lg_retained l + length bs,
                    lg_ring := lg_ring l @ [\<lparr>ck_stream = kind, ck_offset = offset, ck_bytes = bs\<rparr>]\<rparr>
         in (trim cap l1, Some (Chunk kind offset bs))))"

definition chunk_frame :: "ring_chunk \<Rightarrow> frame" where
  "chunk_frame c = Chunk (ck_stream c) (ck_offset c) (ck_bytes c)"

definition since :: "log \<Rightarrow> nat \<Rightarrow> (nat \<times> nat) option \<times> frame list \<times> nat" where
  "since l from =
     (let gap = (if from < lg_start l then Some (from, lg_start l) else None);
          cursor = max from (lg_start l);
          frames = map chunk_frame
            (filter (\<lambda>c. cursor < ck_offset c + length (ck_bytes c)) (lg_ring l))
      in (gap, frames, cursor))"

section \<open>The history a log stands for\<close>

type_synonym history = "(stream_kind \<times> byte) list"

definition tag :: "stream_kind \<Rightarrow> bytes \<Rightarrow> history" where
  "tag k bs = map (Pair k) bs"

lemma tag_simps [simp]: "length (tag k bs) = length bs" "tag k [] = []"
  "tag k (drop n bs) = drop n (tag k bs)" "tag k bs = [] \<longleftrightarrow> bs = []"
  by (simp_all add: tag_def drop_map)

fun flat :: "ring_chunk list \<Rightarrow> history" where
  "flat [] = []"
| "flat (c # cs) = tag (ck_stream c) (ck_bytes c) @ flat cs"

lemma flat_append [simp]: "flat (xs @ ys) = flat xs @ flat ys"
  by (induction xs) auto

text \<open>Chunks sit end to end from an offset, none of them empty.\<close>

fun chunks_at :: "nat \<Rightarrow> ring_chunk list \<Rightarrow> bool" where
  "chunks_at p [] = True"
| "chunks_at p (c # cs) =
     (ck_offset c = p \<and> ck_bytes c \<noteq> [] \<and> chunks_at (p + length (ck_bytes c)) cs)"

lemma chunks_at_snoc:
  "chunks_at p (cs @ [c]) \<longleftrightarrow>
     chunks_at p cs \<and> ck_offset c = p + length (flat cs) \<and> ck_bytes c \<noteq> []"
  by (induction cs arbitrary: p) (auto simp: add.assoc)

definition log_inv :: "log \<Rightarrow> history \<Rightarrow> bool" where
  "log_inv l h \<longleftrightarrow>
     lg_total l = length h \<and> lg_start l \<le> length h \<and>
     chunks_at (lg_start l) (lg_ring l) \<and>
     flat (lg_ring l) = drop (lg_start l) h \<and>
     lg_retained l = length h - lg_start l"

lemma log_inv_default: "log_inv default_log []"
  by (simp add: log_inv_def default_log_def)

lemma drop_split:
  assumes "drop s h = x @ y"
  shows "drop (s + length x) h = y"
proof -
  have "drop (s + length x) h = drop (length x) (drop s h)" by (simp add: add.commute)
  also have "\<dots> = y" by (simp only: assms append_eq_conv_conj) simp
  finally show ?thesis .
qed

lemma trim_inv:
  "log_inv l h \<Longrightarrow> log_inv (trim cap l) h \<and> lg_total (trim cap l) = lg_total l \<and>
     lg_retained (trim cap l) = min cap (lg_retained l)"
proof (induction cap l rule: trim.induct)
  case (1 cap l)
  show ?case
  proof (cases "cap < lg_retained l")
    case False
    with 1 show ?thesis by (subst (1 2 3) trim.simps) simp
  next
    case over: True
    with 1(3) obtain front rest where ring: "lg_ring l = front # rest"
      by (cases "lg_ring l") (auto simp: log_inv_def)
    let ?over = "lg_retained l - cap"
    let ?n = "length (ck_bytes front)"
    let ?pop = "l\<lparr>lg_retained := lg_retained l - ?n, lg_start := lg_start l + ?n, lg_ring := rest\<rparr>"
    let ?cut = "l\<lparr>lg_ring := front\<lparr>ck_bytes := drop ?over (ck_bytes front),
        ck_offset := ck_offset front + ?over\<rparr> # rest,
        lg_retained := lg_retained l - ?over, lg_start := lg_start l + ?over\<rparr>"
    from 1(3) ring have fl: "drop (lg_start l) h = tag (ck_stream front) (ck_bytes front) @ flat rest"
      and len: "lg_retained l = length h - lg_start l" "lg_start l \<le> length h"
      by (auto simp: log_inv_def)
    from arg_cong [OF fl, of length] len have tot: "length h = lg_start l + ?n + length (flat rest)"
      by simp
    show ?thesis
    proof (cases "?n \<le> ?over")
      case True
      have "log_inv ?pop h"
        using 1(3) ring tot drop_split [OF fl] by (auto simp: log_inv_def)
      with 1(1) [OF over refl ring True] over True ring tot len show ?thesis
        by (subst (1 2 3) trim.simps) (simp add: Let_def)
    next
      case False
      have "drop (lg_start l + ?over) h
          = drop ?over (tag (ck_stream front) (ck_bytes front)) @ flat rest"
        using False by (simp only: fl drop_drop [symmetric] add.commute [of "lg_start l"]) simp
      then have "log_inv ?cut h"
        using 1(3) ring tot False by (auto simp: log_inv_def)
      with 1(2) [OF over refl ring False] over False ring tot len show ?thesis
        by (subst (1 2 3) trim.simps) (simp add: Let_def)
    qed
  qed
qed

text \<open>Publishing appends to the history and keeps the window at the configured size.\<close>

lemma publish_inv:
  assumes "log_inv l h"
  shows "log_inv (fst (publish cap k bs l)) (h @ tag k bs)"
proof (cases "bs = []")
  case True
  with assms show ?thesis by (simp add: publish_def)
next
  case False
  let ?c = "\<lparr>ck_stream = k, ck_offset = lg_total l, ck_bytes = bs\<rparr>"
  let ?l1 = "l\<lparr>lg_total := lg_total l + length bs, lg_retained := lg_retained l + length bs,
               lg_ring := lg_ring l @ [?c]\<rparr>"
  have "log_inv ?l1 (h @ tag k bs)"
    using assms False by (auto simp: log_inv_def chunks_at_snoc)
  from trim_inv [OF this] False show ?thesis by (simp add: publish_def Let_def)
qed

lemma publish_total: "log_inv l h \<Longrightarrow> lg_total (fst (publish cap k bs l)) = lg_total l + length bs"
  using publish_inv [of l h cap k bs] by (simp add: log_inv_def)

lemma publish_retained:
  assumes "log_inv l h" and "lg_retained l = min cap (length h)"
  shows "lg_retained (fst (publish cap k bs l)) = min cap (length h + length bs)"
proof (cases "bs = []")
  case True
  with assms show ?thesis by (simp add: publish_def)
next
  case False
  let ?c = "\<lparr>ck_stream = k, ck_offset = lg_total l, ck_bytes = bs\<rparr>"
  let ?l1 = "l\<lparr>lg_total := lg_total l + length bs, lg_retained := lg_retained l + length bs,
               lg_ring := lg_ring l @ [?c]\<rparr>"
  have "log_inv ?l1 (h @ tag k bs)"
    using assms False by (auto simp: log_inv_def chunks_at_snoc)
  from trim_inv [OF this] False assms show ?thesis by (simp add: publish_def Let_def)
qed

text \<open>A sequence of publishes, as one exec's pumps make it.\<close>

fun publish_all :: "nat \<Rightarrow> (stream_kind \<times> bytes) list \<Rightarrow> log \<Rightarrow> log" where
  "publish_all cap [] l = l"
| "publish_all cap ((k, bs) # ps) l = publish_all cap ps (fst (publish cap k bs l))"

definition published :: "(stream_kind \<times> bytes) list \<Rightarrow> history" where
  "published ps = concat (map (\<lambda>(k, bs). tag k bs) ps)"

lemma publish_all_inv:
  assumes "log_inv l h" and "lg_retained l = min cap (length h)"
  shows "log_inv (publish_all cap ps l) (h @ published ps) \<and>
    lg_retained (publish_all cap ps l) = min cap (length (h @ published ps))"
  using assms
proof (induction ps arbitrary: l h)
  case Nil
  then show ?case by (simp add: published_def)
next
  case (Cons p ps)
  obtain k bs where p: "p = (k, bs)" by (cases p)
  from Cons.IH [OF publish_inv [OF Cons.prems(1)], of cap k bs] publish_retained [OF Cons.prems, of k bs]
  show ?case by (simp add: p published_def)
qed


lemma publish_all_window:
  "log_inv (publish_all cap ps default_log) (published ps) \<and>
   lg_start (publish_all cap ps default_log) = length (published ps) - cap \<and>
   lg_retained (publish_all cap ps default_log) = min cap (length (published ps))"
proof -
  have "log_inv (publish_all cap ps default_log) (published ps) \<and>
    lg_retained (publish_all cap ps default_log) = min cap (length (published ps))"
    using publish_all_inv [OF log_inv_default, of cap ps] by (simp add: default_log_def)
  then show ?thesis by (auto simp: log_inv_def)
qed

section \<open>The interface an attached stream reads through\<close>

text \<open>Frames end to end from one offset to another.\<close>

fun chain :: "nat \<Rightarrow> frame list \<Rightarrow> nat \<Rightarrow> bool" where
  "chain p [] q \<longleftrightarrow> p = q"
| "chain p (Chunk k off b # fs) q \<longleftrightarrow> off = p \<and> b \<noteq> [] \<and> chain (p + length b) fs q"
| "chain p (FinishedFrame # fs) q \<longleftrightarrow> False"

lemma chain_chunk_frame [simp]:
  "chain p (chunk_frame c # fs) q \<longleftrightarrow>
     ck_offset c = p \<and> ck_bytes c \<noteq> [] \<and> chain (p + length (ck_bytes c)) fs q"
  by (simp add: chunk_frame_def)

lemma chain_le: "chain p fs q \<Longrightarrow> p \<le> q"
  by (induction p fs q rule: chain.induct) auto

text \<open>A frame that carries the bytes the history has at its offset.\<close>

fun frame_in :: "history \<Rightarrow> frame \<Rightarrow> bool" where
  "frame_in h (Chunk k off b) \<longleftrightarrow> off + length b \<le> length h \<and> take (length b) (drop off h) = tag k b"
| "frame_in h FinishedFrame \<longleftrightarrow> True"

lemma frame_in_append: "frame_in h f \<Longrightarrow> frame_in (h @ h') f"
  by (cases f) auto

text \<open>
  What the log promises a stream that attaches at an offset: the gap is exactly what the window
  no longer holds, the frames are true, and they reach the end of the history without a hole.
\<close>

locale replay_source =
  fixes inv :: "'l \<Rightarrow> history \<Rightarrow> bool"
    and first_held :: "'l \<Rightarrow> nat"
    and snapshot :: "'l \<Rightarrow> nat \<Rightarrow> (nat \<times> nat) option \<times> frame list \<times> nat"
  assumes snapshot_gap: "inv l h \<Longrightarrow> snapshot l from = (g, fs, c) \<Longrightarrow>
      c = max from (first_held l) \<and>
      g = (if from < first_held l then Some (from, first_held l) else None)"
    and snapshot_true: "inv l h \<Longrightarrow> snapshot l from = (g, fs, c) \<Longrightarrow> f \<in> set fs \<Longrightarrow> frame_in h f"
    and snapshot_chain: "inv l h \<Longrightarrow> snapshot l from = (g, fs, c) \<Longrightarrow>
      if c < length h then \<exists>p \<le> c. chain p fs (length h) else fs = []"

lemma chunks_at_true:
  "chunks_at p cs \<Longrightarrow> flat cs = drop p h \<Longrightarrow> p \<le> length h \<Longrightarrow> c \<in> set cs \<Longrightarrow> frame_in h (chunk_frame c)"
proof (induction cs arbitrary: p)
  case Nil
  then show ?case by simp
next
  case (Cons d cs)
  from Cons.prems have fl: "drop p h = tag (ck_stream d) (ck_bytes d) @ flat cs" by simp
  from arg_cong [OF fl, of length] Cons.prems(1,3)
  have len: "p + length (ck_bytes d) + length (flat cs) = length h"
    by (cases "ck_bytes d") auto
  show ?case
  proof (cases "c = d")
    case True
    with Cons.prems(1) fl len show ?thesis by (simp add: chunk_frame_def)
  next
    case False
    with Cons.prems(4) have "c \<in> set cs" by simp
    then show ?thesis
      using Cons.IH [of "p + length (ck_bytes d)"] Cons.prems(1) drop_split [OF fl] len by simp
  qed
qed

lemma chunks_at_chain:
  "chunks_at p cs \<Longrightarrow> p + length (flat cs) = q \<Longrightarrow> p \<le> c \<Longrightarrow> c < q \<Longrightarrow>
    \<exists>p' \<le> c. chain p' (map chunk_frame (filter (\<lambda>d. c < ck_offset d + length (ck_bytes d)) cs)) q"
proof (induction cs arbitrary: p)
  case Nil
  then show ?case by simp
next
  case (Cons d cs)
  have all: "chunks_at p' ds \<Longrightarrow> c < p' \<Longrightarrow>
      chain p' (map chunk_frame (filter (\<lambda>d. c < ck_offset d + length (ck_bytes d)) ds))
        (p' + length (flat ds))" for p' ds
  proof (induction ds arbitrary: p')
    case Nil
    then show ?case by simp
  next
    case (Cons d ds)
    then have "c < p' + length (ck_bytes d)" by simp
    with Cons show ?case by (simp add: add.assoc [symmetric])
  qed
  show ?case
  proof (cases "c < ck_offset d + length (ck_bytes d)")
    case True
    with Cons.prems all [of "p + length (ck_bytes d)" cs] show ?thesis
      by (intro exI [of _ p]) (auto simp: add.assoc)
  next
    case False
    with Cons.prems Cons.IH [of "p + length (ck_bytes d)"] show ?thesis by auto
  qed
qed

lemma chunks_at_end:
  "chunks_at p cs \<Longrightarrow> d \<in> set cs \<Longrightarrow> ck_offset d + length (ck_bytes d) \<le> p + length (flat cs)"
  by (induction cs arbitrary: p) fastforce+

interpretation ring: replay_source log_inv lg_start since
proof
  fix l :: log and h fr g fs c
  assume inv: "log_inv l h" and s: "since l fr = (g, fs, c)"
  from s show "c = max fr (lg_start l) \<and>
      g = (if fr < lg_start l then Some (fr, lg_start l) else None)"
    by (auto simp: since_def Let_def)
  from s have fs: "fs = map chunk_frame
      (filter (\<lambda>d. c < ck_offset d + length (ck_bytes d)) (lg_ring l))"
    and c: "lg_start l \<le> c"
    by (auto simp: since_def Let_def)
  from inv have ch: "chunks_at (lg_start l) (lg_ring l)" and fl: "flat (lg_ring l) = drop (lg_start l) h"
    and st: "lg_start l \<le> length h"
    by (auto simp: log_inv_def)
  show "frame_in h f" if "f \<in> set fs" for f
    using that chunks_at_true [OF ch fl st] by (auto simp: fs)
  have end_: "lg_start l + length (flat (lg_ring l)) = length h" using fl st by simp
  show "if c < length h then \<exists>p \<le> c. chain p fs (length h) else fs = []"
  proof (cases "c < length h")
    case True
    with chunks_at_chain [OF ch end_ c] show ?thesis by (simp add: fs)
  next
    case False
    with chunks_at_end [OF ch] end_ show ?thesis
      by (force simp: fs filter_empty_conv)
  qed
qed

section \<open>Properties\<close>

text \<open>
  The replay window is exactly the configured size. After any sequence of publishes on a
  fresh exec, the ring holds the last buffer_cap bytes of everything published (all of it while
  it is shorter), each with its stream, in order, and nothing else; the total is the number of
  bytes published.
\<close>
theorem replay_window_exact:
  "let l = publish_all cap ps default_log; h = published ps
   in flat (lg_ring l) = drop (length h - cap) h \<and> lg_start l = length h - cap \<and>
      lg_total l = length h \<and> lg_retained l = min cap (length h)"
  using publish_all_window [of cap ps] by (simp add: log_inv_def Let_def)

text \<open>
  A snapshot taken at any offset is honest about the window: its gap names exactly the
  bytes between the requested offset and the oldest byte still held, every replayed frame
  carries the bytes published at its offset, and from the cursor on the frames reach the end of
  the output without a hole.
\<close>
theorem snapshot_honest:
  assumes "since (publish_all cap ps default_log) from = (gap, frames, cursor)"
  shows "cursor = max from (length (published ps) - cap) \<and>
    gap = (if from < length (published ps) - cap
           then Some (from, length (published ps) - cap) else None) \<and>
    (\<forall>f \<in> set frames. frame_in (published ps) f) \<and>
    (if cursor < length (published ps)
     then \<exists>p \<le> cursor. chain p frames (length (published ps)) else frames = [])"
proof -
  have inv: "log_inv (publish_all cap ps default_log) (published ps)"
    and st: "lg_start (publish_all cap ps default_log) = length (published ps) - cap"
    using publish_all_window by blast+
  show ?thesis
    using ring.snapshot_gap [OF inv assms, unfolded st] ring.snapshot_true [OF inv assms]
      ring.snapshot_chain [OF inv assms] by blast
qed

theorem snapshot_honest_witness:
  "since (publish_all 2 [(Stdout, [1, 2]), (Stderr, [3])] default_log) 0
     = (Some (0, 1), [Chunk Stdout 1 [2], Chunk Stderr 2 [3]], 1) \<and>
   frame_in (published [(Stdout, [1, 2]), (Stderr, [3])]) (Chunk Stdout 1 [2]) \<and>
   frame_in (published [(Stdout, [1, 2]), (Stderr, [3])]) (Chunk Stderr 2 [3])"
proof -
  have s: "since (publish_all 2 [(Stdout, [1, 2]), (Stderr, [3])] default_log) 0
     = (Some (0, 1), [Chunk Stdout 1 [2], Chunk Stderr 2 [3]], 1)"
    by (simp add: publish_def default_log_def trim.simps since_def chunk_frame_def)
  with snapshot_honest [OF s] show ?thesis by (auto simp del: frame_in.simps)
qed

end
