(* ===== verification/IdentityRepair.thy ===== *)
theory IdentityRepair
  imports Prelude
begin

text \<open>
  Identity repair (\<open>crates/agentd/src/identity.rs\<close>): the files every VM restored from one
  image shares, and the steps that give this VM its own. The guest is its files, its hostname and
  its bind mounts; what the kernel refuses, with which error, and how much of a failed write
  landed, are parameters, so that every partial failure is covered. The paths repaired are files,
  none of them itself mounted over before repair.
\<close>

section \<open>The guest\<close>

record machine =
  hs_files :: "string \<Rightarrow> (string \<times> u32) option"
  hs_hostname :: string
  hs_mounts :: "(string \<times> string) list"

text \<open>What a reader of a path sees: the source of the newest mount over it, or the file.\<close>

definition file_at :: "machine \<Rightarrow> string \<Rightarrow> (string \<times> u32) option" where
  "file_at h p = (case map_of (hs_mounts h) p of Some src \<Rightarrow> hs_files h src | None \<Rightarrow> hs_files h p)"

datatype call =
    Mkdirs string | Unlink string | WriteFile string | Chmod string
  | SetHostname string | BindMount string string

record answers =
  an_refuses :: "machine \<Rightarrow> call \<Rightarrow> string option"
  an_partial :: "machine \<Rightarrow> string \<Rightarrow> nat option"
  an_umask :: u32

text \<open>\<open>Path::parent\<close>, without the empty path the callers filter out.\<close>

definition parent_dir :: "string \<Rightarrow> string option" where
  "parent_dir p =
     (if CHR ''/'' \<notin> set p then None
      else (let d = rev (drop 1 (dropWhile (\<lambda>c. c \<noteq> CHR ''/'') (rev p)))
            in Some (if d = [] then ''/'' else d)))"

definition create_parent :: "answers \<Rightarrow> string \<Rightarrow> machine \<Rightarrow> string option" where
  "create_parent an p h =
     (case parent_dir p of None \<Rightarrow> None | Some d \<Rightarrow> an_refuses an h (Mkdirs d))"

definition put_file :: "string \<Rightarrow> (string \<times> u32) option \<Rightarrow> machine \<Rightarrow> machine" where
  "put_file p f h = h\<lparr>hs_files := (hs_files h)(p := f)\<rparr>"

definition mode_for :: "answers \<Rightarrow> string \<Rightarrow> machine \<Rightarrow> u32" where
  "mode_for an p h = (case hs_files h p of Some (c, m) \<Rightarrow> m | None \<Rightarrow> and 438 (not (an_umask an)))"

text \<open>\<open>std::fs::write\<close>: a write that fails can leave a prefix of the contents.\<close>

definition write_all :: "answers \<Rightarrow> string \<Rightarrow> string \<Rightarrow> machine \<Rightarrow> string option \<times> machine" where
  "write_all an p contents h =
     (case an_refuses an h (WriteFile p) of
        None \<Rightarrow> (None, put_file p (Some (contents, mode_for an p h)) h)
      | Some e \<Rightarrow>
          (Some e,
           case an_partial an h p of
             None \<Rightarrow> h
           | Some n \<Rightarrow> put_file p (Some (take n contents, mode_for an p h)) h))"

section \<open>Steps and the report\<close>

datatype step_result = Repaired | NotApplicable | Failed string

datatype step_name = MachineId | Hostname | BootId | RandomSeed | CachedCredential

record repair_step =
  sp_name :: step_name
  sp_result :: step_result

record report =
  rp_attempted :: bool
  rp_steps :: "repair_step list"

definition skipped :: report where
  "skipped = \<lparr>rp_attempted = False, rp_steps = []\<rparr>"

fun is_failed :: "step_result \<Rightarrow> bool" where
  "is_failed (Failed e) = True"
| "is_failed _ = False"

definition degraded :: "report \<Rightarrow> bool" where
  "degraded r = list_ex (\<lambda>s. is_failed (sp_result s)) (rp_steps r)"

record layout =
  ly_machine_id :: string
  ly_boot_id :: string
  ly_boot_id_source :: string
  ly_random_seed :: string
  ly_credential_paths :: "string list"
  ly_hostname :: "string option"

definition default_layout :: layout where
  "default_layout =
     \<lparr>ly_machine_id = ''/etc/machine-id'', ly_boot_id = ''/proc/sys/kernel/random/boot_id'',
      ly_boot_id_source = ''/run/agentd-boot-id'', ly_random_seed = ''/var/lib/systemd/random-seed'',
      ly_credential_paths = [''/var/lib/dbus/machine-id''], ly_hostname = None\<rparr>"

section \<open>The steps\<close>

definition write_machine_id :: "answers \<Rightarrow> string \<Rightarrow> string \<Rightarrow> machine \<Rightarrow> step_result \<times> machine" where
  "write_machine_id an p fresh h =
     (case create_parent an p h of
        Some e \<Rightarrow> (Failed e, h)
      | None \<Rightarrow>
          (let h1 = (case an_refuses an h (Unlink p) of None \<Rightarrow> put_file p None h | Some e \<Rightarrow> h)
           in case write_all an p (fresh @ [LF]) h1 of
                (Some e, h2) \<Rightarrow> (Failed e, h2)
              | (None, h2) \<Rightarrow>
                  (case an_refuses an h2 (Chmod p) of
                     Some e \<Rightarrow> (Failed e, h2)
                   | None \<Rightarrow> (Repaired, put_file p (Some (fresh @ [LF], 292)) h2))))"

definition dashed :: "string \<Rightarrow> string" where
  "dashed s =
     (if length s \<noteq> 32 then s
      else take 8 s @ ''-'' @ take 4 (drop 8 s) @ ''-'' @ take 4 (drop 12 s) @ ''-'' @
        take 4 (drop 16 s) @ ''-'' @ drop 20 s)"

definition repair_boot_id :: "layout \<Rightarrow> answers \<Rightarrow> string \<Rightarrow> machine \<Rightarrow> step_result \<times> machine" where
  "repair_boot_id ly an fresh h =
     (if file_at h (ly_boot_id ly) = None then (NotApplicable, h)
      else
        (case create_parent an (ly_boot_id_source ly) h of
           Some e \<Rightarrow> (Failed e, h)
         | None \<Rightarrow>
             (case write_all an (ly_boot_id_source ly) (dashed fresh @ [LF]) h of
                (Some e, h1) \<Rightarrow> (Failed e, h1)
              | (None, h1) \<Rightarrow>
                  (case an_refuses an h1 (BindMount (ly_boot_id_source ly) (ly_boot_id ly)) of
                     Some e \<Rightarrow> (Failed e, h1)
                   | None \<Rightarrow>
                       (Repaired,
                        h1\<lparr>hs_mounts := (ly_boot_id ly, ly_boot_id_source ly) # hs_mounts h1\<rparr>)))))"

definition set_hostname :: "answers \<Rightarrow> string \<Rightarrow> machine \<Rightarrow> step_result \<times> machine" where
  "set_hostname an name h =
     (case an_refuses an h (SetHostname name) of
        None \<Rightarrow> (Repaired, h\<lparr>hs_hostname := name\<rparr>)
      | Some e \<Rightarrow> (Failed e, h))"

definition remove_if_present :: "answers \<Rightarrow> string \<Rightarrow> machine \<Rightarrow> step_result \<times> machine" where
  "remove_if_present an p h =
     (if hs_files h p = None then (NotApplicable, h)
      else
        (case an_refuses an h (Unlink p) of
           None \<Rightarrow> (Repaired, put_file p None h)
         | Some e \<Rightarrow> (Failed e, h)))"

fun remove_credentials :: "answers \<Rightarrow> string list \<Rightarrow> machine \<Rightarrow> repair_step list \<times> machine" where
  "remove_credentials an [] h = ([], h)"
| "remove_credentials an (p # ps) h =
     (let (r, h1) = remove_if_present an p h; (steps, h2) = remove_credentials an ps h1
      in (\<lparr>sp_name = CachedCredential, sp_result = r\<rparr> # steps, h2))"

text \<open>
  \<open>repair\<close>. The fresh id or the error of minting it is an input; slicing the first twelve
  characters of an id that has fewer panics, which leaves no report.
\<close>

definition identity_steps ::
  "layout \<Rightarrow> answers \<Rightarrow> string + string \<Rightarrow> machine \<Rightarrow> repair_step list option \<times> machine" where
  "identity_steps ly an fresh h =
     (case fresh of
        Inl e \<Rightarrow>
          (Some (map (\<lambda>n. \<lparr>sp_name = n, sp_result = Failed e\<rparr>) [MachineId, Hostname, BootId]), h)
      | Inr new_id \<Rightarrow>
          (let (r1, h1) = write_machine_id an (ly_machine_id ly) new_id h
           in if ly_hostname ly = None \<and> length new_id < 12 then (None, h1)
              else
                (let name = (case ly_hostname ly of
                       Some n \<Rightarrow> n | None \<Rightarrow> ''microvm-'' @ take 12 new_id);
                     (r2, h2) = set_hostname an name h1;
                     (r3, h3) = repair_boot_id ly an new_id h2
                 in (Some [\<lparr>sp_name = MachineId, sp_result = r1\<rparr>,
                           \<lparr>sp_name = Hostname, sp_result = r2\<rparr>,
                           \<lparr>sp_name = BootId, sp_result = r3\<rparr>], h3))))"

definition repair :: "layout \<Rightarrow> answers \<Rightarrow> string + string \<Rightarrow> machine \<Rightarrow> report option \<times> machine" where
  "repair ly an fresh h =
     (case identity_steps ly an fresh h of
        (None, h1) \<Rightarrow> (None, h1)
      | (Some steps, h1) \<Rightarrow>
          (let (r, h2) = remove_if_present an (ly_random_seed ly) h1;
               (creds, h3) = remove_credentials an (ly_credential_paths ly) h2
           in (Some \<lparr>rp_attempted = True,
                 rp_steps = steps @ [\<lparr>sp_name = RandomSeed, sp_result = r\<rparr>] @ creds\<rparr>, h3)))"

section \<open>What each step leaves\<close>

text \<open>A step on one file touches nothing else.\<close>

definition only_file :: "string \<Rightarrow> machine \<Rightarrow> machine \<Rightarrow> bool" where
  "only_file p h h' \<longleftrightarrow> (\<forall>q. q \<noteq> p \<longrightarrow> hs_files h' q = hs_files h q) \<and>
     hs_hostname h' = hs_hostname h \<and> hs_mounts h' = hs_mounts h"

lemma only_file_refl [simp]: "only_file p h h"
  by (simp add: only_file_def)

lemma only_file_put [simp]: "only_file p h (put_file p f h')  \<longleftrightarrow> only_file p h h'"
  by (auto simp: only_file_def put_file_def)

lemma put_file_at [simp]: "hs_files (put_file p f h) p = f"
  by (simp add: put_file_def)

lemma write_all_props:
  assumes "write_all an p c h = (r, h')"
  shows "only_file p h h' \<and> (r = None \<longrightarrow> (\<exists>m. hs_files h' p = Some (c, m)))"
  using assms by (auto simp: write_all_def split: option.splits)

lemma write_machine_id_props:
  assumes "write_machine_id an p i h = (r, h')"
  shows "only_file p h h' \<and> (r = NotApplicable \<longrightarrow> False) \<and>
    (r = Repaired \<longrightarrow> hs_files h' p = Some (i @ [LF], 292))"
proof (cases "create_parent an p h")
  case (Some e)
  with assms show ?thesis by (auto simp: write_machine_id_def)
next
  case None
  let ?h1 = "case an_refuses an h (Unlink p) of None \<Rightarrow> put_file p None h | Some e \<Rightarrow> h"
  obtain w h2 where w: "write_all an p (i @ [LF]) ?h1 = (w, h2)"
    by (cases "write_all an p (i @ [LF]) ?h1")
  have "only_file p h ?h1" by (simp split: option.split)
  with write_all_props [OF w] have o: "only_file p h h2" by (auto simp: only_file_def)
  show ?thesis
    using assms None w o
    by (auto simp: write_machine_id_def Let_def split: option.splits)
qed

lemma remove_if_present_props:
  assumes "remove_if_present an p h = (r, h')"
  shows "only_file p h h' \<and> (is_failed r \<or> hs_files h' p = None)"
  using assms by (auto simp: remove_if_present_def split: if_splits option.splits)

lemma set_hostname_props:
  assumes "set_hostname an n h = (r, h')"
  shows "hs_files h' = hs_files h \<and> hs_mounts h' = hs_mounts h \<and>
    (is_failed r \<or> hs_hostname h' = n)"
  using assms by (auto simp: set_hostname_def split: option.splits)

lemma repair_boot_id_props:
  assumes "repair_boot_id ly an i h = (r, h')"
  shows "(\<forall>q. q \<noteq> ly_boot_id_source ly \<longrightarrow> hs_files h' q = hs_files h q) \<and>
    hs_hostname h' = hs_hostname h \<and>
    (is_failed r \<or> file_at h (ly_boot_id ly) = None \<and> h' = h \<or>
      hs_mounts h' = (ly_boot_id ly, ly_boot_id_source ly) # hs_mounts h \<and>
      (\<exists>m. hs_files h' (ly_boot_id_source ly) = Some (dashed i @ [LF], m)))"
proof (cases "file_at h (ly_boot_id ly) = None \<or> create_parent an (ly_boot_id_source ly) h \<noteq> None")
  case True
  with assms show ?thesis
    by (auto simp: repair_boot_id_def split: option.splits if_splits)
next
  case False
  obtain w h1 where w: "write_all an (ly_boot_id_source ly) (dashed i @ [LF]) h = (w, h1)"
    by (cases "write_all an (ly_boot_id_source ly) (dashed i @ [LF]) h")
  show ?thesis
    using assms False w write_all_props [OF w]
    by (auto simp: repair_boot_id_def only_file_def split: option.splits)
qed

lemma remove_credentials_props:
  assumes "remove_credentials an ps h = (steps, h')"
  shows "(\<forall>q. q \<notin> set ps \<longrightarrow> hs_files h' q = hs_files h q) \<and> hs_hostname h' = hs_hostname h \<and>
    hs_mounts h' = hs_mounts h \<and>
    (list_ex (\<lambda>s. is_failed (sp_result s)) steps \<or> (\<forall>p \<in> set ps. hs_files h' p = None))"
  using assms
proof (induction ps arbitrary: h steps)
  case (Cons p ps)
  obtain r h1 where r: "remove_if_present an p h = (r, h1)" by (cases "remove_if_present an p h")
  obtain st h2 where c: "remove_credentials an ps h1 = (st, h2)"
    by (cases "remove_credentials an ps h1")
  have e: "steps = \<lparr>sp_name = CachedCredential, sp_result = r\<rparr> # st" "h' = h2"
    using Cons.prems r c by simp_all
  note p = remove_if_present_props [OF r]
  note ih = Cons.IH [OF c [folded e(2)]]
  show ?case
  proof (intro conjI)
    show "\<forall>q. q \<notin> set (p # ps) \<longrightarrow> hs_files h' q = hs_files h q"
      using p ih by (auto simp: only_file_def)
    show "hs_hostname h' = hs_hostname h" "hs_mounts h' = hs_mounts h"
      using p ih by (auto simp: only_file_def)
    show "list_ex (\<lambda>s. is_failed (sp_result s)) steps \<or> (\<forall>q \<in> set (p # ps). hs_files h' q = None)"
      using p ih e(1) by (cases "p \<in> set ps") auto
  qed
qed simp

section \<open>A report that says repaired\<close>

lemma repair_steps:
  assumes "repair ly an fresh h = (Some r, h')" and "\<not> degraded r"
  obtains i r1 h1 r2 h2 r3 h3 r4 h4 creds where
    "fresh = Inr i" and "write_machine_id an (ly_machine_id ly) i h = (r1, h1)"
    and "set_hostname an (case ly_hostname ly of Some n \<Rightarrow> n | None \<Rightarrow> ''microvm-'' @ take 12 i) h1 = (r2, h2)"
    and "repair_boot_id ly an i h2 = (r3, h3)"
    and "remove_if_present an (ly_random_seed ly) h3 = (r4, h4)"
    and "remove_credentials an (ly_credential_paths ly) h4 = (creds, h')"
    and "\<not> is_failed r1" and "\<not> is_failed r2" and "\<not> is_failed r3" and "\<not> is_failed r4"
    and "\<not> list_ex (\<lambda>s. is_failed (sp_result s)) creds" and "rp_attempted r"
proof -
  from assms obtain steps h3 where st: "identity_steps ly an fresh h = (Some steps, h3)"
    by (auto simp: repair_def split: prod.splits option.splits)
  obtain r4 h4 where r4: "remove_if_present an (ly_random_seed ly) h3 = (r4, h4)"
    by (cases "remove_if_present an (ly_random_seed ly) h3")
  obtain creds h5 where c: "remove_credentials an (ly_credential_paths ly) h4 = (creds, h5)"
    by (cases "remove_credentials an (ly_credential_paths ly) h4")
  have r: "r = \<lparr>rp_attempted = True,
      rp_steps = steps @ [\<lparr>sp_name = RandomSeed, sp_result = r4\<rparr>] @ creds\<rparr>" "h' = h5"
    using assms(1) st r4 c by (simp_all add: repair_def)
  have ok: "\<not> list_ex (\<lambda>s. is_failed (sp_result s)) steps" "\<not> is_failed r4"
    "\<not> list_ex (\<lambda>s. is_failed (sp_result s)) creds"
    using assms(2) r(1) by (auto simp: degraded_def)
  have "\<exists>i. fresh = Inr i"
    using st ok(1) by (cases fresh) (auto simp: identity_steps_def)
  then obtain i where i: "fresh = Inr i" ..
  obtain r1 h1 where r1: "write_machine_id an (ly_machine_id ly) i h = (r1, h1)"
    by (cases "write_machine_id an (ly_machine_id ly) i h")
  let ?n = "case ly_hostname ly of Some n \<Rightarrow> n | None \<Rightarrow> ''microvm-'' @ take 12 i"
  obtain r2 h2 where r2: "set_hostname an ?n h1 = (r2, h2)" by (cases "set_hostname an ?n h1")
  obtain r3 h3' where r3: "repair_boot_id ly an i h2 = (r3, h3')" by (cases "repair_boot_id ly an i h2")
  have "steps = [\<lparr>sp_name = MachineId, sp_result = r1\<rparr>, \<lparr>sp_name = Hostname, sp_result = r2\<rparr>,
      \<lparr>sp_name = BootId, sp_result = r3\<rparr>]" "h3' = h3"
    using st i r1 r2 r3 by (auto simp: identity_steps_def Let_def split: if_splits)
  then show thesis
    using that [OF i r1 r2 r3, of r4 h4 creds] r4 c r ok by simp
qed

text \<open>The paths a repair works on, none of them mounted over before it.\<close>

definition repaired_paths :: "layout \<Rightarrow> string list" where
  "repaired_paths ly =
     [ly_machine_id ly, ly_boot_id ly, ly_boot_id_source ly, ly_random_seed ly] @ ly_credential_paths ly"

definition unmounted :: "layout \<Rightarrow> machine \<Rightarrow> bool" where
  "unmounted ly h \<longleftrightarrow> (\<forall>p \<in> set (repaired_paths ly). map_of (hs_mounts h) p = None)"

lemma no_mounts_unmounted: "hs_mounts h = [] \<Longrightarrow> unmounted ly h"
  by (simp add: unmounted_def)

lemma repaired_truthful:
  assumes run: "repair ly an fresh h = (Some r, h')" and ok: "\<not> degraded r"
    and mounts: "unmounted ly h"
    and d: "distinct ([ly_machine_id ly, ly_boot_id ly, ly_boot_id_source ly, ly_random_seed ly] @
      ly_credential_paths ly)"
  shows "\<exists>i. fresh = Inr i \<and> file_at h' (ly_machine_id ly) = Some (i @ [LF], 292) \<and>
    hs_hostname h' = (case ly_hostname ly of Some n \<Rightarrow> n | None \<Rightarrow> ''microvm-'' @ take 12 i) \<and>
    (file_at h (ly_boot_id ly) = None \<or>
      (\<exists>m. file_at h' (ly_boot_id ly) = Some (dashed i @ [LF], m))) \<and>
    file_at h' (ly_random_seed ly) = None \<and> (\<forall>p \<in> set (ly_credential_paths ly). file_at h' p = None)"
proof -
  obtain i r1 h1 r2 h2 r3 h3 r4 h4 creds where
    s: "fresh = Inr i" "write_machine_id an (ly_machine_id ly) i h = (r1, h1)"
    "set_hostname an (case ly_hostname ly of Some n \<Rightarrow> n | None \<Rightarrow> ''microvm-'' @ take 12 i) h1 = (r2, h2)"
    "repair_boot_id ly an i h2 = (r3, h3)"
    "remove_if_present an (ly_random_seed ly) h3 = (r4, h4)"
    "remove_credentials an (ly_credential_paths ly) h4 = (creds, h')"
    and f: "\<not> is_failed r1" "\<not> is_failed r2" "\<not> is_failed r3" "\<not> is_failed r4"
    "\<not> list_ex (\<lambda>s. is_failed (sp_result s)) creds"
    by (rule repair_steps [OF run ok])
  note p1 = write_machine_id_props [OF s(2)] and p2 = set_hostname_props [OF s(3)]
    and p3 = repair_boot_id_props [OF s(4)] and p4 = remove_if_present_props [OF s(5)]
    and p5 = remove_credentials_props [OF s(6)]
  have r1: "r1 = Repaired" using p1 f(1) by (cases r1) auto
  have frame: "hs_files h' q = hs_files h3 q"
    if "q \<noteq> ly_random_seed ly" "q \<notin> set (ly_credential_paths ly)" for q
    using that p4 p5 by (simp add: only_file_def)
  have mid: "hs_files h' (ly_machine_id ly) = Some (i @ [LF], 292)"
    using frame [of "ly_machine_id ly"] d p3 p2 p1 r1 by auto
  have m2: "hs_mounts h2 = hs_mounts h" using p2 p1 by (simp add: only_file_def)
  have b2: "file_at h2 (ly_boot_id ly) = file_at h (ly_boot_id ly)"
    using p2 p1 d mounts m2 by (auto simp: file_at_def only_file_def unmounted_def repaired_paths_def)
  have m3: "hs_mounts h3 = hs_mounts h \<or> hs_mounts h3 = (ly_boot_id ly, ly_boot_id_source ly) # hs_mounts h"
    using p3 f(3) m2 by auto
  then have same: "file_at h' q = hs_files h' q" if "q \<in> set (repaired_paths ly)" "q \<noteq> ly_boot_id ly" for q
    using that mounts p4 p5 by (auto simp: file_at_def only_file_def unmounted_def)
  have boot: "file_at h (ly_boot_id ly) = None \<or>
      (\<exists>m. file_at h' (ly_boot_id ly) = Some (dashed i @ [LF], m))"
  proof (cases "file_at h (ly_boot_id ly) = None")
    case False
    then have b: "hs_mounts h3 = (ly_boot_id ly, ly_boot_id_source ly) # hs_mounts h2"
      "\<exists>m. hs_files h3 (ly_boot_id_source ly) = Some (dashed i @ [LF], m)"
      using p3 f(3) b2 by auto
    have "hs_mounts h' = hs_mounts h3" using p4 p5 by (simp add: only_file_def)
    then show ?thesis using b frame [of "ly_boot_id_source ly"] d by (auto simp: file_at_def)
  qed simp
  have seed: "hs_files h' (ly_random_seed ly) = None"
    using p4 p5 f(4) d by auto
  have "file_at h' (ly_machine_id ly) = hs_files h' (ly_machine_id ly)"
    "file_at h' (ly_random_seed ly) = hs_files h' (ly_random_seed ly)"
    "\<forall>p \<in> set (ly_credential_paths ly). file_at h' p = hs_files h' p"
    using d by (auto intro!: same simp: repaired_paths_def)
  then show ?thesis
    using s(1) mid boot seed p5 f(5) p4 p3 p2 f(2) by (auto simp: only_file_def)
qed

lemma default_layout_distinct:
  "distinct ([ly_machine_id default_layout, ly_boot_id default_layout,
     ly_boot_id_source default_layout, ly_random_seed default_layout] @
     ly_credential_paths default_layout)"
  by (simp add: default_layout_def)

lemma dashed_inject:
  assumes "length i = 32" and "length j = 32" and "dashed i = dashed j"
  shows "i = j"
proof -
  have cut: "k = take 8 k @ take 4 (drop 8 k) @ take 4 (drop 12 k) @ take 4 (drop 16 k) @ drop 20 k"
    if "length k = 32" for k :: string
  proof -
    have step: "drop n k = take 4 (drop n k) @ drop (n + 4) k" for n
      by (metis append_take_drop_id drop_drop add.commute)
    have "k = take 8 k @ drop 8 k" by (rule append_take_drop_id [symmetric])
    moreover have "drop 8 k = take 4 (drop 8 k) @ drop 12 k" using step [of 8] by (simp del: append_take_drop_id)
    moreover have "drop 12 k = take 4 (drop 12 k) @ drop 16 k" using step [of 12] by (simp del: append_take_drop_id)
    moreover have "drop 16 k = take 4 (drop 16 k) @ drop 20 k" using step [of 16] by (simp del: append_take_drop_id)
    ultimately show ?thesis by presburger
  qed
  have "take 8 i = take 8 j \<and> take 4 (drop 8 i) = take 4 (drop 8 j) \<and>
      take 4 (drop 12 i) = take 4 (drop 12 j) \<and> take 4 (drop 16 i) = take 4 (drop 16 j) \<and>
      drop 20 i = drop 20 j"
    using assms by (simp add: dashed_def append_eq_append_conv)
  with cut [OF assms(1)] cut [OF assms(2)] show ?thesis by metis
qed

text \<open>An id of the length the host mints never panics, whatever the kernel refuses.\<close>

lemma repair_reports:
  assumes "\<forall>i. fresh = Inr i \<longrightarrow> 12 \<le> length i"
  shows "\<exists>r. fst (repair ly an fresh h) = Some r \<and> rp_attempted r"
proof -
  have "\<exists>steps. fst (identity_steps ly an fresh h) = Some steps"
    using assms by (auto simp: identity_steps_def Let_def split: sum.splits prod.splits)
  then obtain steps h1 where "identity_steps ly an fresh h = (Some steps, h1)"
    by (metis prod.collapse)
  then show ?thesis by (auto simp: repair_def split: prod.splits)
qed

text \<open>
  A machine id whose rewrite fails is not left as the image had it: the old file is unlinked
  before the new one is written.
\<close>

lemma failed_write_loses_machine_id:
  assumes "create_parent an p h = None" and "an_refuses an h (Unlink p) = None"
    and "an_refuses an (put_file p None h) (WriteFile p) = Some e"
    and "an_partial an (put_file p None h) p = None"
  shows "write_machine_id an p i h = (Failed e, put_file p None h)"
  using assms by (simp add: write_machine_id_def write_all_def)

section \<open>Properties\<close>

text \<open>
  A repair that reports no failed step has repaired. On a VM restored from an image with no
  mounts, whatever the kernel refused on the way, a report that is not degraded means: the machine
  id is the fresh one, read-only; the hostname is derived from it; a reader of boot_id, where the
  platform has one, sees the same id in its dashed form; and neither the saved random seed nor the
  cached D-Bus id is left.
\<close>
theorem undegraded_report_is_truthful:
  assumes "repair default_layout an fresh h = (Some r, h')" and "\<not> degraded r" and "hs_mounts h = []"
  shows "\<exists>i. fresh = Inr i \<and> file_at h' ''/etc/machine-id'' = Some (i @ [LF], 292) \<and>
    hs_hostname h' = ''microvm-'' @ take 12 i \<and>
    (file_at h ''/proc/sys/kernel/random/boot_id'' = None \<or>
      (\<exists>m. file_at h' ''/proc/sys/kernel/random/boot_id'' = Some (dashed i @ [LF], m))) \<and>
    file_at h' ''/var/lib/systemd/random-seed'' = None \<and>
    file_at h' ''/var/lib/dbus/machine-id'' = None"
  using repaired_truthful [OF assms(1,2) no_mounts_unmounted [OF assms(3)] default_layout_distinct]
  by (simp add: default_layout_def)

text \<open>An image with its four files, on a kernel that refuses nothing.\<close>

definition image_machine :: machine where
  "image_machine = \<lparr>hs_files = Map.empty(''/etc/machine-id'' \<mapsto> (''image'', 292),
       ''/proc/sys/kernel/random/boot_id'' \<mapsto> (''image'', 292),
       ''/var/lib/systemd/random-seed'' \<mapsto> (''seed'', 384)),
     hs_hostname = ''image'', hs_mounts = []\<rparr>"

definition willing :: answers where
  "willing = \<lparr>an_refuses = (\<lambda>h c. None), an_partial = (\<lambda>h p. None), an_umask = 18\<rparr>"

definition sample_id :: "char \<Rightarrow> string" where
  "sample_id c = replicate 32 c"

lemma sample_repair:
  "\<exists>r h'. repair default_layout willing (Inr (sample_id c)) image_machine = (Some r, h') \<and> \<not> degraded r"
  by (simp add: repair_def identity_steps_def write_machine_id_def set_hostname_def
      repair_boot_id_def remove_if_present_def create_parent_def parent_dir_def write_all_def
      willing_def image_machine_def default_layout_def sample_id_def degraded_def Let_def
      file_at_def put_file_def)

theorem undegraded_report_is_truthful_witness:
  "\<exists>r h'. repair default_layout willing (Inr (sample_id CHR ''a'')) image_machine = (Some r, h') \<and>
     file_at h' ''/etc/machine-id'' = Some (sample_id CHR ''a'' @ [LF], 292)"
proof -
  obtain r h' where r: "repair default_layout willing (Inr (sample_id CHR ''a'')) image_machine = (Some r, h')"
    "\<not> degraded r" using sample_repair by blast
  have "hs_mounts image_machine = []" by (simp add: image_machine_def)
  from undegraded_report_is_truthful [OF r this] r(1) show ?thesis by auto
qed

text \<open>
  Two VMs restored from one image share no identifier the repair names. When both report no
  failed step and were given different ids of 32 characters, their machine ids differ, a reader of
  boot_id sees different values on the two, and the image's random seed is on neither.
\<close>
theorem repaired_vms_share_no_identifier:
  assumes "repair default_layout an1 (Inr i1) h = (Some r1, h1)" and "\<not> degraded r1"
    and "repair default_layout an2 (Inr i2) h = (Some r2, h2)" and "\<not> degraded r2"
    and "hs_mounts h = []" and "i1 \<noteq> i2" and "length i1 = 32" and "length i2 = 32"
  shows "map_option fst (file_at h1 ''/etc/machine-id'') \<noteq> map_option fst (file_at h2 ''/etc/machine-id'') \<and>
    (file_at h ''/proc/sys/kernel/random/boot_id'' = None \<or>
      map_option fst (file_at h1 ''/proc/sys/kernel/random/boot_id'') \<noteq>
      map_option fst (file_at h2 ''/proc/sys/kernel/random/boot_id'')) \<and>
    file_at h1 ''/var/lib/systemd/random-seed'' = None \<and>
    file_at h2 ''/var/lib/systemd/random-seed'' = None"
proof -
  note um = no_mounts_unmounted [OF assms(5)]
  note t1 = repaired_truthful [OF assms(1,2) um default_layout_distinct]
    and t2 = repaired_truthful [OF assms(3,4) um default_layout_distinct]
  have "dashed i1 \<noteq> dashed i2" using dashed_inject assms(6-8) by blast
  with t1 t2 assms(6) show ?thesis by (auto simp: default_layout_def)
qed

theorem repaired_vms_share_no_identifier_witness:
  "\<exists>r1 h1 r2 h2. repair default_layout willing (Inr (sample_id CHR ''a'')) image_machine = (Some r1, h1) \<and>
     repair default_layout willing (Inr (sample_id CHR ''b'')) image_machine = (Some r2, h2) \<and>
     map_option fst (file_at h1 ''/proc/sys/kernel/random/boot_id'') \<noteq>
     map_option fst (file_at h2 ''/proc/sys/kernel/random/boot_id'')"
proof -
  obtain r1 h1 where a: "repair default_layout willing (Inr (sample_id CHR ''a'')) image_machine = (Some r1, h1)"
    "\<not> degraded r1" using sample_repair by blast
  obtain r2 h2 where b: "repair default_layout willing (Inr (sample_id CHR ''b'')) image_machine = (Some r2, h2)"
    "\<not> degraded r2" using sample_repair by blast
  have i: "hs_mounts image_machine = []" "sample_id CHR ''a'' \<noteq> sample_id CHR ''b''"
    "length (sample_id CHR ''a'') = 32" "length (sample_id CHR ''b'') = 32"
    by (simp_all add: image_machine_def sample_id_def)
  have "file_at image_machine ''/proc/sys/kernel/random/boot_id'' \<noteq> None"
    by (simp add: file_at_def image_machine_def)
  with repaired_vms_share_no_identifier [OF a b i] a(1) b(1) show ?thesis by blast
qed

end
