(* ===== verification/AppState.thy ===== *)
theory AppState
  imports Config ReplayLog IdentityRepair
begin

text \<open>
  The daemon's state (\<open>crates/agentd/src/state.rs\<close>) and the bearer guard
  (\<open>auth.rs\<close>). One record holds what \<open>AppState\<close> keeps behind its locks. The exec
  entries share their \<open>Shared\<close> part with the waiter task and with handlers in flight, so
  that part lives in a heap (\<open>dm_heap\<close>) and an entry holds its address. A lock recovered
  from poisoning hands back the value it holds, so it is the value itself here; the tunnel's key
  material is an opaque type.
\<close>

section \<open>Exec entries\<close>

text \<open>
  \<open>Shared\<close>: of the child's stdin only whether the daemon still holds its copy matters; the
  live channel's receivers are the streams of theory \<open>AttachStream\<close>.
\<close>

record shared =
  sh_result :: "outcome option"
  sh_terminal :: "terminal option"
  sh_log :: log
  sh_stdin :: bool
  sh_stdin_requested :: bool
  sh_buffer_cap :: nat

record exec_entry =
  en_pgid :: "u32 option"
  en_shared :: nat
  en_acked_at :: "nat option"
  en_started_at :: nat
  en_reap :: bool

section \<open>The hook log\<close>

record handler_outcome =
  ho_exit_code :: "int option"
  ho_signal :: "int option"
  ho_timed_out :: bool
  ho_duration_ms :: nat
  ho_error :: "string option"

definition handler_succeeded :: "handler_outcome \<Rightarrow> bool" where
  "handler_succeeded o' \<longleftrightarrow> ho_exit_code o' = Some 0 \<and> \<not> ho_timed_out o' \<and> ho_error o' = None"

record hook_observation =
  hk_hook :: string
  hk_fired_at :: nat
  hk_handler :: "handler_outcome option"

record hook_log =
  hl_observed :: "hook_observation list"
  hl_dropped :: nat

definition HOOK_LOG_CAP :: nat where
  "HOOK_LOG_CAP = 64"

section \<open>The state\<close>

record 'm daemon =
  dm_config :: config
  dm_token :: "bytes option"
  dm_launch_env :: env
  dm_image_env :: "env option"
  dm_tunnel_identity :: "'m option"
  dm_execs :: "(string \<times> exec_entry) list"
  dm_heap :: "shared list"
  dm_hooks :: hook_log
  dm_identity :: report
  dm_now :: nat

definition new_daemon :: "config \<Rightarrow> env option \<Rightarrow> 'm daemon" where
  "new_daemon cfg image_env =
     \<lparr>dm_config = cfg, dm_token = None, dm_launch_env = Map.empty, dm_image_env = image_env,
      dm_tunnel_identity = None, dm_execs = [], dm_heap = [],
      dm_hooks = \<lparr>hl_observed = [], hl_dropped = 0\<rparr>, dm_identity = skipped, dm_now = 0\<rparr>"

section \<open>Bootstrap\<close>

datatype bootstrap = Installed | AlreadyIdentical | Conflict

text \<open>\<open>constant_time_eq\<close>: the length check, then the comparison of the bytes.\<close>

definition constant_time_eq :: "bytes \<Rightarrow> bytes \<Rightarrow> bool" where
  "constant_time_eq a b \<longleftrightarrow>
     (if length a \<noteq> length b then False
      else foldl (or) (0::byte) (map2 (xor) a b) = 0)"

definition bootstrap_with_identity ::
  "bytes \<Rightarrow> env \<Rightarrow> 'm option \<Rightarrow> 'm daemon \<Rightarrow> bootstrap \<times> 'm daemon" where
  "bootstrap_with_identity presented launch_env identity s =
     (case dm_token s of
        None \<Rightarrow>
          (Installed, s\<lparr>dm_token := Some presented, dm_launch_env := launch_env,
                        dm_tunnel_identity := identity\<rparr>)
      | Some installed \<Rightarrow>
          if constant_time_eq installed presented then (AlreadyIdentical, s) else (Conflict, s))"

definition bootstrap_token :: "bytes \<Rightarrow> env \<Rightarrow> 'm daemon \<Rightarrow> bootstrap \<times> 'm daemon" where
  "bootstrap_token presented launch_env s = bootstrap_with_identity presented launch_env None s"

definition is_bootstrapped :: "'m daemon \<Rightarrow> bool" where
  "is_bootstrapped s \<longleftrightarrow> dm_token s \<noteq> None"

definition token_matches :: "bytes \<Rightarrow> 'm daemon \<Rightarrow> bool option" where
  "token_matches presented s =
     (case dm_token s of None \<Rightarrow> None | Some installed \<Rightarrow> Some (constant_time_eq installed presented))"

section \<open>Recording hooks\<close>

definition record_hook :: "nat \<Rightarrow> string \<Rightarrow> 'm daemon \<Rightarrow> nat option \<times> 'm daemon" where
  "record_hook epoch hook s =
     (let log = dm_hooks s
      in if HOOK_LOG_CAP \<le> length (hl_observed log)
         then (None, s\<lparr>dm_hooks := log\<lparr>hl_dropped := saturating_add64 (hl_dropped log) 1\<rparr>\<rparr>)
         else (Some (length (hl_observed log)),
               s\<lparr>dm_hooks := log\<lparr>hl_observed := hl_observed log @
                   [\<lparr>hk_hook = hook, hk_fired_at = epoch, hk_handler = None\<rparr>]\<rparr>\<rparr>))"

definition record_handler :: "nat \<Rightarrow> handler_outcome \<Rightarrow> 'm daemon \<Rightarrow> 'm daemon" where
  "record_handler slot oc s =
     (let log = dm_hooks s; obs = hl_observed log
      in if slot < length obs
         then s\<lparr>dm_hooks := log\<lparr>hl_observed := obs[slot := (obs ! slot)\<lparr>hk_handler := Some oc\<rparr>]\<rparr>\<rparr>
         else s)"

definition hook_report :: "'m daemon \<Rightarrow> hook_observation list \<times> nat" where
  "hook_report s = (hl_observed (dm_hooks s), hl_dropped (dm_hooks s))"

section \<open>Identity repair\<close>

text \<open>
  The repairer's report is stored; a repairer that panicked (\<open>None\<close>) leaves what was there.
\<close>

definition repair_identity :: "report option \<Rightarrow> 'm daemon \<Rightarrow> 'm daemon" where
  "repair_identity r s = (case r of None \<Rightarrow> s | Some rep \<Rightarrow> s\<lparr>dm_identity := rep\<rparr>)"

section \<open>The bearer guard\<close>

text \<open>The bytes of the \<open>Authorization\<close> header, if there is one, as the guard reads them.\<close>

definition eq_ignore_ascii_case :: "bytes \<Rightarrow> string \<Rightarrow> bool" where
  "eq_ignore_ascii_case a b \<longleftrightarrow> map ascii_lower (string_of a) = map ascii_lower b"

definition bearer_bytes :: "bytes option \<Rightarrow> bytes option" where
  "bearer_bytes header =
     (case header of
        None \<Rightarrow> None
      | Some raw \<Rightarrow>
          (case split_once 0x20 raw of
             None \<Rightarrow> None
           | Some (scheme, rest) \<Rightarrow>
               if eq_ignore_ascii_case scheme ''bearer'' then Some rest else None))"

text \<open>The verdict of \<open>require_token\<close>: a refusal status, or \<open>None\<close> to go on.\<close>

definition auth_verdict :: "bytes option \<Rightarrow> 'm daemon \<Rightarrow> nat option" where
  "auth_verdict header s =
     (case bearer_bytes header of
        None \<Rightarrow> if \<not> is_bootstrapped s then Some 503 else Some 401
      | Some token \<Rightarrow>
          (case token_matches token s of
             None \<Rightarrow> Some 503
           | Some True \<Rightarrow> None
           | Some False \<Rightarrow> Some 401))"

text \<open>
  \<open>drain_bounded\<close> over the frames of the body (data, trailers, or a transport error), and the
  refusal: the status, and whether the connection is closed because the body was not drained
  within the bounds (\<open>None\<close> is the two-second timeout).
\<close>

datatype body_frame = DataFrame bytes | OtherFrame | FrameError

fun drain_bounded :: "nat \<Rightarrow> nat \<Rightarrow> body_frame list \<Rightarrow> bool" where
  "drain_bounded cap seen [] = True"
| "drain_bounded cap seen (FrameError # fs) = False"
| "drain_bounded cap seen (OtherFrame # fs) = drain_bounded cap seen fs"
| "drain_bounded cap seen (DataFrame d # fs) =
     (if cap \<le> seen + length d then False else drain_bounded cap (seen + length d) fs)"

definition require_token ::
  "bytes option \<Rightarrow> body_frame list option \<Rightarrow> 'm daemon \<Rightarrow> (nat \<times> bool) option" where
  "require_token header body s =
     map_option (\<lambda>status. (status,
         \<not> (case body of None \<Rightarrow> False
              | Some fs \<Rightarrow> drain_bounded (cf_max_drain_bytes (dm_config s)) 0 fs)))
       (auth_verdict header s)"

section \<open>Facts\<close>

lemma word_or_eq_0: "(or) (a::byte) b = 0 \<longleftrightarrow> a = 0 \<and> b = 0"
  by (rule or_eq_0_iff)

lemma word_xor_eq_0: "(xor) (a::byte) b = 0 \<longleftrightarrow> a = b"
proof
  assume "(xor) a b = 0"
  then have "(xor) ((xor) a b) b = b" by simp
  then show "a = b" by (simp add: xor.assoc)
qed simp

lemma foldl_or_zero: "foldl (or) (a::byte) xs = 0 \<longleftrightarrow> a = 0 \<and> (\<forall>x \<in> set xs. x = 0)"
  by (induction xs arbitrary: a) (auto simp: word_or_eq_0)

lemma constant_time_eq_iff [simp]: "constant_time_eq a b \<longleftrightarrow> a = b"
proof (cases "length a = length b")
  case True
  then show ?thesis
    by (induction a b rule: list_induct2) (auto simp: constant_time_eq_def foldl_or_zero word_xor_eq_0)
next
  case False
  then show ?thesis by (auto simp: constant_time_eq_def)
qed

lemma split_once_at: "d \<notin> set a \<Longrightarrow> split_once d (a @ d # b) = Some (a, b)"
  by (simp add: split_once_Some)

lemma auth_verdict_eq:
  "auth_verdict header s =
    (case dm_token s of
       None \<Rightarrow> Some 503
     | Some t \<Rightarrow>
         if \<exists>scheme. header = Some (scheme @ 0x20 # t) \<and> 0x20 \<notin> set scheme \<and>
              eq_ignore_ascii_case scheme ''bearer''
         then None else Some 401)"
proof (cases "bearer_bytes header")
  case None
  then have "\<not> (\<exists>scheme t. header = Some (scheme @ 0x20 # t) \<and> 0x20 \<notin> set scheme \<and>
      eq_ignore_ascii_case scheme ''bearer'')"
    by (auto simp: bearer_bytes_def split_once_at split: option.splits if_splits)
  with None show ?thesis
    by (auto simp: auth_verdict_def is_bootstrapped_def split: option.split)
next
  case (Some rest)
  then obtain scheme where h: "header = Some (scheme @ 0x20 # rest)" "0x20 \<notin> set scheme"
    "eq_ignore_ascii_case scheme ''bearer''"
    by (auto simp: bearer_bytes_def split_once_Some split: option.splits if_splits)
  have ex: "(\<exists>scheme. header = Some (scheme @ 0x20 # t) \<and> 0x20 \<notin> set scheme \<and>
      eq_ignore_ascii_case scheme ''bearer'') \<longleftrightarrow> t = rest" for t
  proof
    assume "\<exists>scheme. header = Some (scheme @ 0x20 # t) \<and> 0x20 \<notin> set scheme \<and>
      eq_ignore_ascii_case scheme ''bearer''"
    then obtain scheme' where e: "header = Some (scheme' @ 0x20 # t)" "0x20 \<notin> set scheme'" by blast
    from e(1) h(1) have "split_once 0x20 (scheme' @ 0x20 # t) = split_once 0x20 (scheme @ 0x20 # rest)"
      by simp
    then show "t = rest" using split_once_at [OF e(2), of t] split_once_at [OF h(2), of rest] by simp
  next
    assume "t = rest"
    with h show "\<exists>scheme. header = Some (scheme @ 0x20 # t) \<and> 0x20 \<notin> set scheme \<and>
      eq_ignore_ascii_case scheme ''bearer''" by blast
  qed
  show ?thesis
  proof (cases "dm_token s")
    case None
    with Some show ?thesis by (simp add: auth_verdict_def token_matches_def)
  next
    case (Some t)
    with \<open>bearer_bytes header = Some rest\<close> show ?thesis
      unfolding ex by (auto simp: auth_verdict_def token_matches_def)
  qed
qed

section \<open>Properties\<close>

text \<open>
  The control API opens to exactly one thing: the installed token, presented after the
  scheme bearer (in any case) and one space. Before bootstrap every request is refused with 503,
  whatever it presents; after it, everything but the installed token is refused with 401. A
  header of arbitrary bytes is only ever refused.
\<close>
theorem control_opens_to_installed_token_only:
  "auth_verdict header s =
    (case dm_token s of
       None \<Rightarrow> Some 503
     | Some t \<Rightarrow>
         if \<exists>scheme. header = Some (scheme @ 0x20 # t) \<and> 0x20 \<notin> set scheme \<and>
              eq_ignore_ascii_case scheme ''bearer''
         then None else Some 401)"
  by (rule auth_verdict_eq)

text \<open>A sequence of bootstrap attempts, as the run hook makes them under the token lock.\<close>

fun bootstraps ::
  "(bytes \<times> env \<times> 'm option) list \<Rightarrow> 'm daemon \<Rightarrow> bootstrap list \<times> 'm daemon" where
  "bootstraps [] s = ([], s)"
| "bootstraps ((t, e, i) # ps) s =
     (let (b, s1) = bootstrap_with_identity t e i s; (bs, s2) = bootstraps ps s1 in (b # bs, s2))"

lemma bootstraps_after:
  "dm_token s = Some t \<Longrightarrow>
    bootstraps ps s = (map (\<lambda>(t', _, _). if t' = t then AlreadyIdentical else Conflict) ps, s)"
  by (induction ps) (auto simp: bootstrap_with_identity_def)

text \<open>
  Bootstrap is one-shot. Of any sequence of attempts on a fresh daemon the first installs
  its token, its launch environment and its tunnel identity, and no later attempt changes any of
  the three: one that presents the installed token is told so, any other is a conflict.
\<close>
theorem bootstrap_is_one_shot:
  "bootstraps ((t, e, i) # ps) (new_daemon cfg img) =
    (Installed # map (\<lambda>(t', _, _). if t' = t then AlreadyIdentical else Conflict) ps,
     (new_daemon cfg img)\<lparr>dm_token := Some t, dm_launch_env := e, dm_tunnel_identity := i\<rparr>)"
proof -
  let ?s = "(new_daemon cfg img)\<lparr>dm_token := Some t, dm_launch_env := e, dm_tunnel_identity := i\<rparr>"
  have "bootstrap_with_identity t e i (new_daemon cfg img) = (Installed, ?s)"
    by (simp add: bootstrap_with_identity_def new_daemon_def)
  moreover have "dm_token ?s = Some t" by simp
  ultimately show ?thesis using bootstraps_after [of ?s t ps] by simp
qed

end
