(* ===== verification/Waiter.thy ===== *)
theory Waiter
  imports ReplayLog Strings
begin

text \<open>
  The task that waits for one child (\<open>super_wait\<close>, \<open>Capped\<close> and the group
  escalation of \<open>crates/agentd/src/exec.rs\<close>). What the select loop sees is an input of the
  model: the list of branches that became ready, in order. A branch that can never be ready
  there (a read of a pipe at end of file, a deadline that was not set) leaves the state as it is.
  Time enters through the deadline branches and, for the escalation, through the probes made
  before its deadline. The panic of \<open>Instant::now() + linger\<close> on a duration the clock cannot hold
  is not modelled.
\<close>

section \<open>The capped reader\<close>

record capped =
  cp_reader :: bool
  cp_buf :: bytes
  cp_cap :: nat
  cp_truncated :: bool
  cp_eof :: bool
  cp_kind :: stream_kind

text \<open>One \<open>read\<close>: some bytes, none at end of file, or an error.\<close>

datatype read_result = ReadOk bytes | ReadErr

definition capped_new :: "bool \<Rightarrow> nat \<Rightarrow> stream_kind \<Rightarrow> capped" where
  "capped_new reader cap kind =
     \<lparr>cp_reader = reader, cp_buf = [], cp_cap = cap, cp_truncated = False, cp_eof = \<not> reader,
      cp_kind = kind\<rparr>"

definition capped_done :: "capped \<Rightarrow> bool" where
  "capped_done c \<longleftrightarrow> cp_eof c"

text \<open>The reader after one read, and what it published.\<close>

definition pump :: "read_result \<Rightarrow> capped \<Rightarrow> capped \<times> (stream_kind \<times> bytes) list" where
  "pump r c =
     (if cp_eof c \<or> \<not> cp_reader c then (c, [])
      else
        (case r of
           ReadErr \<Rightarrow> (c\<lparr>cp_eof := True\<rparr>, [])
         | ReadOk bs \<Rightarrow>
             if bs = [] then (c\<lparr>cp_eof := True\<rparr>, [])
             else
               (let room = cp_cap c - length (cp_buf c)
                in (if room = 0 then c\<lparr>cp_truncated := True\<rparr>
                    else if room < length bs
                    then c\<lparr>cp_buf := cp_buf c @ take room bs, cp_truncated := True\<rparr>
                    else c\<lparr>cp_buf := cp_buf c @ bs\<rparr>,
                    [(cp_kind c, bs)]))))"

definition into_string :: "capped \<Rightarrow> bytes" where
  "into_string c = utf8_lossy (cp_buf c)"

section \<open>Signalling a group\<close>

datatype signal = SIGTERM | SIGKILL

datatype killpg_result = Delivered | ESRCH | OtherErrno

definition signal_group :: "killpg_result \<Rightarrow> bool" where
  "signal_group r \<longleftrightarrow> r = Delivered"

text \<open>
  \<open>escalate_blind\<close>: the answer and the signals sent. The probes are what
  \<open>group_has_live_members\<close> answered before the grace deadline, each \<open>None\<close> when
  its task panicked.
\<close>

definition escalate_blind :: "killpg_result \<Rightarrow> bool option list \<Rightarrow> bool \<times> signal list" where
  "escalate_blind term probes =
     (if \<not> signal_group term then (False, [SIGTERM])
      else if list_all (\<lambda>alive. case alive of None \<Rightarrow> True | Some a \<Rightarrow> a) probes
      then (True, [SIGTERM, SIGKILL])
      else (True, [SIGTERM]))"

text \<open>\<open>group_has_live_members\<close>: the existence probe, then the pids found in \<open>/proc\<close>.\<close>

definition group_has_live_members :: "killpg_result \<Rightarrow> u32 list option \<Rightarrow> bool" where
  "group_has_live_members probe pids =
     (if probe = ESRCH then False
      else (case pids of None \<Rightarrow> False | Some ps \<Rightarrow> ps \<noteq> []))"

section \<open>The wait\<close>

datatype exit_status = ExitedWith int | KilledBy int

definition status_code :: "exit_status \<Rightarrow> int option" where
  "status_code s = (case s of ExitedWith c \<Rightarrow> Some c | KilledBy _ \<Rightarrow> None)"

definition unix_signal :: "exit_status \<Rightarrow> int option" where
  "unix_signal s = (case s of ExitedWith _ \<Rightarrow> None | KilledBy n \<Rightarrow> Some n)"

text \<open>
  What \<open>Child::wait\<close> gives: \<open>None\<close> is a failed wait. A branch of the select: the
  child is done, a pipe read, the timeout (with the wait that follows the escalation), the end
  of the linger.
\<close>

type_synonym wait_result = "exit_status option"

datatype wait_event =
    ChildDone wait_result
  | OutRead read_result
  | ErrRead read_result
  | TimedOut wait_result
  | LingerOver

record waiter =
  wt_out :: capped
  wt_err :: capped
  wt_published :: "(stream_kind \<times> bytes) list"
  wt_timed_out :: bool
  wt_escalated :: "u32 list"

definition pump_out :: "read_result \<Rightarrow> waiter \<Rightarrow> waiter" where
  "pump_out r w =
     (case pump r (wt_out w) of
        (c, ps) \<Rightarrow> w\<lparr>wt_out := c, wt_published := wt_published w @ ps\<rparr>)"

definition pump_err :: "read_result \<Rightarrow> waiter \<Rightarrow> waiter" where
  "pump_err r w =
     (case pump r (wt_err w) of
        (c, ps) \<Rightarrow> w\<lparr>wt_err := c, wt_published := wt_published w @ ps\<rparr>)"

definition escalate_group :: "u32 option \<Rightarrow> waiter \<Rightarrow> waiter" where
  "escalate_group pgid w =
     (case pgid of None \<Rightarrow> w | Some g \<Rightarrow> w\<lparr>wt_escalated := wt_escalated w @ [g]\<rparr>)"

text \<open>The range of the monotonic clock: \<open>Instant::checked_add\<close> fails past it.\<close>

definition INSTANT_MAX :: nat where
  "INSTANT_MAX = 2 ^ 63 * 10 ^ 9 - 1"

definition deadline_of :: "nat option \<Rightarrow> nat \<Rightarrow> nat option" where
  "deadline_of timeout now =
     (case timeout of None \<Rightarrow> None
      | Some budget \<Rightarrow> if now + budget \<le> INSTANT_MAX then Some (now + budget) else None)"

text \<open>Phase one, while the child lives; \<open>None\<close> is a wait that has not ended yet.\<close>

fun phase_one ::
  "u32 option \<Rightarrow> nat option \<Rightarrow> wait_event list \<Rightarrow> waiter
     \<Rightarrow> (wait_result \<times> waiter \<times> wait_event list) option" where
  "phase_one pgid deadline [] w = None"
| "phase_one pgid deadline (ChildDone r # es) w = Some (r, w, es)"
| "phase_one pgid deadline (OutRead r # es) w = phase_one pgid deadline es (pump_out r w)"
| "phase_one pgid deadline (ErrRead r # es) w = phase_one pgid deadline es (pump_err r w)"
| "phase_one pgid deadline (TimedOut r # es) w =
     (if deadline = None then phase_one pgid deadline es w
      else Some (r, escalate_group pgid (w\<lparr>wt_timed_out := True\<rparr>), es))"
| "phase_one pgid deadline (LingerOver # es) w = phase_one pgid deadline es w"

definition reap_group :: "bool \<Rightarrow> u32 option \<Rightarrow> waiter \<Rightarrow> waiter" where
  "reap_group reap pgid w =
     (if reap \<and> \<not> wt_timed_out w then escalate_group pgid w else w)"

text \<open>Phase two, the linger: whether a writer may still hold a pipe, and the state.\<close>

definition both_done :: "waiter \<Rightarrow> bool" where
  "both_done w \<longleftrightarrow> capped_done (wt_out w) \<and> capped_done (wt_err w)"

fun phase_two :: "wait_event list \<Rightarrow> waiter \<Rightarrow> (bool \<times> waiter) option" where
  "phase_two [] w = (if both_done w then Some (False, w) else None)"
| "phase_two (e # es) w =
     (if both_done w then Some (False, w)
      else
        (case e of
           OutRead r \<Rightarrow> phase_two es (pump_out r w)
         | ErrRead r \<Rightarrow> phase_two es (pump_err r w)
         | LingerOver \<Rightarrow> Some (True, w)
         | _ \<Rightarrow> phase_two es w))"

definition new_waiter :: "bool \<Rightarrow> bool \<Rightarrow> nat \<Rightarrow> waiter" where
  "new_waiter out err cap =
     \<lparr>wt_out = capped_new out cap Stdout, wt_err = capped_new err cap Stderr,
      wt_published = [], wt_timed_out = False, wt_escalated = []\<rparr>"

definition outcome_of :: "wait_result \<Rightarrow> bool \<Rightarrow> waiter \<Rightarrow> outcome" where
  "outcome_of status writers w =
     \<lparr>oc_exit_code = Option.bind status status_code,
      oc_signal = Option.bind status unix_signal,
      oc_timed_out = wt_timed_out w,
      oc_stdout = into_string (wt_out w),
      oc_stderr = into_string (wt_err w),
      oc_truncated = (cp_truncated (wt_out w) \<or> cp_truncated (wt_err w)),
      oc_writers_may_be_alive = writers\<rparr>"

definition super_wait ::
  "bool \<Rightarrow> bool \<Rightarrow> u32 option \<Rightarrow> nat \<Rightarrow> nat option \<Rightarrow> bool \<Rightarrow> nat \<Rightarrow> wait_event list
     \<Rightarrow> (outcome \<times> waiter) option" where
  "super_wait out err pgid cap timeout reap now events =
     (case phase_one pgid (deadline_of timeout now) events (new_waiter out err cap) of
        None \<Rightarrow> None
      | Some (status, w, rest) \<Rightarrow>
          (case phase_two rest (reap_group reap pgid w) of
             None \<Rightarrow> None
           | Some (writers, w') \<Rightarrow> Some (outcome_of status writers w', w')))"


section \<open>What the waiter keeps\<close>

text \<open>The bytes of one stream in what was published.\<close>

definition stream_bytes :: "stream_kind \<Rightarrow> (stream_kind \<times> bytes) list \<Rightarrow> bytes" where
  "stream_bytes k ps = concat (map snd (filter (\<lambda>(j, _). j = k) ps))"

lemma stream_bytes_simps [simp]:
  "stream_bytes k [] = []"
  "stream_bytes k (ps @ qs) = stream_bytes k ps @ stream_bytes k qs"
  "stream_bytes k [(j, bs)] = (if j = k then bs else [])"
  by (simp_all add: stream_bytes_def)

text \<open>A reader's buffer is the head of what its stream published, and says when it is not all.\<close>

definition holds_head :: "nat \<Rightarrow> stream_kind \<Rightarrow> (stream_kind \<times> bytes) list \<Rightarrow> capped \<Rightarrow> bool" where
  "holds_head cap k ps c \<longleftrightarrow>
     cp_kind c = k \<and> cp_cap c = cap \<and> cp_buf c = take cap (stream_bytes k ps) \<and>
     cp_truncated c = (cap < length (stream_bytes k ps))"

definition waiter_inv :: "nat \<Rightarrow> waiter \<Rightarrow> bool" where
  "waiter_inv cap w \<longleftrightarrow>
     holds_head cap Stdout (wt_published w) (wt_out w) \<and>
     holds_head cap Stderr (wt_published w) (wt_err w)"

lemma pump_kind: "pump r c = (c', ps) \<Longrightarrow> (j, bs) \<in> set ps \<Longrightarrow> j = cp_kind c"
  by (auto simp: pump_def Let_def split: if_splits read_result.splits)

lemma pump_holds_head:
  assumes "holds_head cap k ps c" and "pump r c = (c', qs)"
  shows "holds_head cap k (ps @ qs) c'"
  using assms
  by (auto simp: holds_head_def pump_def Let_def min_def split: if_splits read_result.splits)

lemma pump_other_stream:
  assumes "holds_head cap k ps d" and "pump r c = (c', qs)" and "cp_kind c \<noteq> k"
  shows "holds_head cap k (ps @ qs) d"
  using assms
  by (auto simp: holds_head_def pump_def Let_def split: if_splits read_result.splits)

lemma pump_out_inv: "waiter_inv cap w \<Longrightarrow> waiter_inv cap (pump_out r w)"
  by (auto simp: waiter_inv_def pump_out_def split: prod.splits intro: pump_holds_head
      elim!: pump_other_stream) (simp add: holds_head_def)

lemma pump_err_inv: "waiter_inv cap w \<Longrightarrow> waiter_inv cap (pump_err r w)"
  by (auto simp: waiter_inv_def pump_err_def split: prod.splits intro: pump_holds_head
      elim!: pump_other_stream) (simp add: holds_head_def)

lemma escalate_group_inv [simp]:
  "waiter_inv cap (escalate_group pgid w) = waiter_inv cap w"
  "wt_timed_out (escalate_group pgid w) = wt_timed_out w"
  "wt_escalated (escalate_group pgid w) = wt_escalated w @ (case pgid of None \<Rightarrow> [] | Some g \<Rightarrow> [g])"
  by (auto simp: waiter_inv_def escalate_group_def split: option.splits)

lemma pump_out_keeps [simp]:
  "wt_timed_out (pump_out r w) = wt_timed_out w" "wt_escalated (pump_out r w) = wt_escalated w"
  by (simp_all add: pump_out_def split: prod.splits)

lemma pump_err_keeps [simp]:
  "wt_timed_out (pump_err r w) = wt_timed_out w" "wt_escalated (pump_err r w) = wt_escalated w"
  by (simp_all add: pump_err_def split: prod.splits)

lemma phase_one_inv:
  "phase_one pgid deadline es w = Some (r, w', rest) \<Longrightarrow> waiter_inv cap w \<Longrightarrow> waiter_inv cap w'"
proof (induction pgid deadline es w rule: phase_one.induct)
  case (5 pgid deadline r' es w)
  have "waiter_inv cap (w\<lparr>wt_timed_out := True\<rparr>) = waiter_inv cap w" by (simp add: waiter_inv_def)
  with 5 show ?case by (auto split: if_splits)
qed (auto intro: pump_out_inv pump_err_inv)

lemma phase_one_timeout:
  "phase_one pgid deadline es w = Some (r, w', rest) \<Longrightarrow> \<not> wt_timed_out w \<Longrightarrow>
     (wt_timed_out w' \<longrightarrow> deadline \<noteq> None) \<and>
     wt_escalated w' = wt_escalated w @
       (if wt_timed_out w' then case pgid of None \<Rightarrow> [] | Some g \<Rightarrow> [g] else [])"
  by (induction pgid deadline es w rule: phase_one.induct) (auto split: if_splits)

lemma phase_two_inv:
  "phase_two es w = Some (wr, w') \<Longrightarrow> waiter_inv cap w \<Longrightarrow> waiter_inv cap w'"
  by (induction es arbitrary: w)
    (auto split: if_splits wait_event.splits intro: pump_out_inv pump_err_inv)

lemma phase_two_result:
  "phase_two es w = Some (wr, w') \<Longrightarrow>
     (wr \<longleftrightarrow> \<not> both_done w') \<and> wt_timed_out w' = wt_timed_out w \<and> wt_escalated w' = wt_escalated w"
  by (induction es arbitrary: w) (auto split: if_splits wait_event.splits)

lemma new_waiter_inv [simp]: "waiter_inv cap (new_waiter out err cap)"
  by (simp add: waiter_inv_def new_waiter_def holds_head_def capped_new_def)

lemma super_wait_Some:
  assumes "super_wait out err pgid cap timeout reap now es = Some (oc, w)"
  obtains status w1 rest writers w2 where
    "phase_one pgid (deadline_of timeout now) es (new_waiter out err cap) = Some (status, w1, rest)"
    "w2 = reap_group reap pgid w1" "phase_two rest w2 = Some (writers, w)"
    "oc = outcome_of status writers w"
  using assms by (auto simp: super_wait_def split: option.splits)

lemma reap_group_inv [simp]:
  "waiter_inv cap (reap_group reap pgid w) = waiter_inv cap w"
  "wt_timed_out (reap_group reap pgid w) = wt_timed_out w"
  by (simp_all add: reap_group_def)

lemma phase_two_linger: "\<exists>wr w'. phase_two (es @ [LingerOver]) w = Some (wr, w')"
  by (induction es arbitrary: w) (auto split: wait_event.splits)

lemma phase_one_reads:
  assumes "set es1 \<subseteq> range OutRead \<union> range ErrRead"
  shows "\<exists>w1. phase_one pgid deadline (es1 @ ChildDone r # es) w = Some (r, w1, es) \<and>
    wt_timed_out w1 = wt_timed_out w"
  using assms
proof (induction es1 arbitrary: w)
  case Nil
  then show ?case by simp
next
  case (Cons e es1)
  from Cons.IH [of "pump_out x w" for x] Cons.IH [of "pump_err x w" for x] Cons.prems
  show ?case by auto
qed

section \<open>Properties\<close>

text \<open>
  C4: The outcome a poll returns and the output a stream carries agree: each captured stream is
  the lossy decoding of the first max_output_bytes of exactly the bytes published for that
  stream, truncated is set exactly when one stream published more than that, and
  writers_may_be_alive exactly when a pipe had not reached its end.
\<close>
theorem outcome_is_head_of_published_output:
  assumes "super_wait out err pgid cap timeout reap now es = Some (oc, w)"
  shows "oc_stdout oc = utf8_lossy (take cap (stream_bytes Stdout (wt_published w))) \<and>
    oc_stderr oc = utf8_lossy (take cap (stream_bytes Stderr (wt_published w))) \<and>
    (oc_truncated oc \<longleftrightarrow> cap < length (stream_bytes Stdout (wt_published w)) \<or>
                          cap < length (stream_bytes Stderr (wt_published w))) \<and>
    (oc_writers_may_be_alive oc \<longleftrightarrow> \<not> (cp_eof (wt_out w) \<and> cp_eof (wt_err w)))"
proof -
  from assms obtain status w1 rest writers w2 where
    p1: "phase_one pgid (deadline_of timeout now) es (new_waiter out err cap) = Some (status, w1, rest)"
    and w2: "w2 = reap_group reap pgid w1" and p2: "phase_two rest w2 = Some (writers, w)"
    and oc: "oc = outcome_of status writers w"
    by (rule super_wait_Some)
  from phase_one_inv [OF p1] phase_two_inv [OF p2] have "waiter_inv cap w" by (simp add: w2)
  with oc phase_two_result [OF p2] show ?thesis
    by (auto simp: waiter_inv_def holds_head_def outcome_of_def into_string_def both_done_def
        capped_done_def)
qed

theorem outcome_is_head_of_published_output_witness:
  "\<exists>oc w. super_wait True True None 2 None False 0
      [OutRead (ReadOk [104, 105]), ErrRead (ReadOk [33]), ChildDone (Some (ExitedWith 0)),
       OutRead (ReadOk [106]), ErrRead (ReadOk []), LingerOver] = Some (oc, w) \<and>
    oc_stdout oc = utf8_lossy (take 2 (stream_bytes Stdout (wt_published w))) \<and>
    oc_truncated oc \<and> oc_writers_may_be_alive oc"
proof -
  let ?es = "[OutRead (ReadOk [104, 105]), ErrRead (ReadOk [33]), ChildDone (Some (ExitedWith 0)),
       OutRead (ReadOk [106]), ErrRead (ReadOk []), LingerOver]"
  obtain oc w where ow: "super_wait True True None 2 None False 0 ?es = Some (oc, w)"
    and flags: "oc_truncated oc" "oc_writers_may_be_alive oc"
    by (simp add: super_wait_def deadline_of_def new_waiter_def capped_new_def pump_out_def
        pump_err_def pump_def reap_group_def both_done_def capped_done_def outcome_of_def)
  from outcome_is_head_of_published_output [OF ow] ow flags show ?thesis by blast
qed

text \<open>
  A waiter signals its process group at most once: exactly when the timeout fired or the
  start asked for the group to be reaped, and a group was captured. The timeout can only fire
  when the start set one that the clock can hold, and the outcome says that it did.
\<close>
theorem group_escalated_at_most_once:
  assumes "super_wait out err pgid cap timeout reap now es = Some (oc, w)"
  shows "wt_escalated w =
      (case pgid of None \<Rightarrow> [] | Some g \<Rightarrow> if oc_timed_out oc \<or> reap then [g] else []) \<and>
    (timeout = None \<or> INSTANT_MAX < now + the timeout \<longrightarrow> \<not> oc_timed_out oc)"
proof -
  from assms obtain status w1 rest writers w2 where
    p1: "phase_one pgid (deadline_of timeout now) es (new_waiter out err cap) = Some (status, w1, rest)"
    and w2: "w2 = reap_group reap pgid w1" and p2: "phase_two rest w2 = Some (writers, w)"
    and oc: "oc = outcome_of status writers w"
    by (rule super_wait_Some)
  have "\<not> wt_timed_out (new_waiter out err cap)" "wt_escalated (new_waiter out err cap) = []"
    by (simp_all add: new_waiter_def)
  with phase_one_timeout [OF p1] phase_two_result [OF p2] oc w2 show ?thesis
    by (auto simp: reap_group_def outcome_of_def deadline_of_def split: option.splits)
qed

theorem group_escalated_at_most_once_witness:
  "\<exists>oc w. super_wait False False (Some 7) 2 (Some 5) True 1 [TimedOut (Some (KilledBy 15))]
      = Some (oc, w) \<and> wt_escalated w = [7] \<and> oc_timed_out oc"
proof -
  obtain oc w where ow: "super_wait False False (Some 7) 2 (Some 5) True 1
      [TimedOut (Some (KilledBy 15))] = Some (oc, w)" and t: "oc_timed_out oc"
    by (simp add: super_wait_def deadline_of_def INSTANT_MAX_def new_waiter_def capped_new_def
        reap_group_def escalate_group_def both_done_def capped_done_def outcome_of_def)
  from group_escalated_at_most_once [OF ow] ow t show ?thesis by auto
qed

text \<open>
  C5: The wait ends. Whatever the pipes did before, once the child is done and the linger is
  over there is an outcome, with the child's exit code and signal, even if a grandchild never
  closes a pipe.
\<close>
theorem wait_ends_after_linger:
  assumes "set es1 \<subseteq> range OutRead \<union> range ErrRead"
  shows "\<exists>oc w. super_wait out err pgid cap timeout reap now
      (es1 @ ChildDone r # es2 @ [LingerOver]) = Some (oc, w) \<and>
    oc_exit_code oc = Option.bind r status_code \<and> oc_signal oc = Option.bind r unix_signal \<and>
    \<not> oc_timed_out oc"
proof -
  have "\<exists>w1. phase_one pgid deadline (es1 @ ChildDone r # es2 @ [LingerOver]) w
      = Some (r, w1, es2 @ [LingerOver]) \<and> wt_timed_out w1 = wt_timed_out w" for deadline w
    by (rule phase_one_reads [OF assms])
  then obtain w1 where p1: "phase_one pgid (deadline_of timeout now)
      (es1 @ ChildDone r # es2 @ [LingerOver]) (new_waiter out err cap)
      = Some (r, w1, es2 @ [LingerOver])" and "wt_timed_out w1 = wt_timed_out (new_waiter out err cap)"
    by blast
  then have t: "\<not> wt_timed_out w1" by (simp add: new_waiter_def)
  obtain wr w2 where p2: "phase_two (es2 @ [LingerOver]) (reap_group reap pgid w1) = Some (wr, w2)"
    using phase_two_linger by blast
  from phase_two_result [OF p2] t p1 p2 show ?thesis
    by (simp add: super_wait_def outcome_of_def)
qed

theorem wait_ends_after_linger_witness:
  "\<exists>oc w. super_wait True True (Some 3) 9 (Some 8) False 0
      ([OutRead ReadErr] @ ChildDone (Some (KilledBy 9)) # [ErrRead (ReadOk [1])] @ [LingerOver])
    = Some (oc, w) \<and> oc_exit_code oc = None \<and> oc_signal oc = Some 9"
  using wait_ends_after_linger [of "[OutRead ReadErr]" True True "Some 3" 9 "Some 8" False 0
      "Some (KilledBy 9)" "[ErrRead (ReadOk [1])]"]
  by (simp add: status_code_def unix_signal_def) blast

end
