(* ===== verification/ProcScan.thy ===== *)
theory ProcScan
  imports Protocol Strings
begin

text \<open>
  Which processes of a group are alive: \<open>live_pgrp\<close> and \<open>pids_in_groups\<close> of
  \<open>crates/agentd/src/exec.rs\<close>. The directory listing of \<open>/proc\<close> and the text of
  each \<open>stat\<close> file are inputs; a name that is not UTF-8 and a file that cannot be read are
  \<open>None\<close>.
\<close>

section \<open>The fields of a stat line\<close>

text \<open>A field of a \<open>stat\<close> line after the command name: ASCII, no blank, no parenthesis.\<close>

definition plain_field :: "string \<Rightarrow> bool" where
  "plain_field w \<longleftrightarrow> w \<noteq> [] \<and>
     (\<forall>c \<in> set w. code c < 0x80 \<and> code c > 0x20 \<and> c \<noteq> CHR '')'')"

lemma split_ws_plain:
  assumes "\<forall>c \<in> set v. code c < 0x80 \<and> code c > 0x20"
  shows "split_ws w (v @ s) = split_ws (w @ v) s"
  using assms
proof (induction v arbitrary: w)
  case Nil
  then show ?case by simp
next
  case (Cons c v)
  then have "ws_len (c # v @ s) = 0"
    by (auto simp: ws_len_def split: list.split)
  then have "split_ws w ((c # v) @ s) = split_ws (w @ [c]) (v @ s)"
    by (subst split_ws.simps) simp
  with Cons show ?case by simp
qed

lemma split_whitespace_join:
  assumes "\<forall>w \<in> set ws. plain_field w"
  shows "split_whitespace ('' '' @ join_with '' '' ws) = ws"
proof -
  have plain: "split_ws [] (w @ s) = split_ws w s" if "plain_field w" for w s
    using that split_ws_plain [of w "[]" s] by (simp add: plain_field_def)
  have "split_ws [] (join_with '' '' ws) = ws"
    using assms
  proof (induction "'' ''" ws rule: join_with.induct)
    case 1
    then show ?case by (simp add: split_ws_Nil flush_def)
  next
    case (2 w)
    with plain [of w "[]"] show ?case by (simp add: split_ws_Nil flush_def plain_field_def)
  next
    case (3 w v ws)
    then have "split_ws [] (join_with '' '' (w # v # ws)) = flush w @ split_ws [] (join_with '' '' (v # ws))"
      using plain [of w] split_ws_blank by simp
    with 3 show ?case by (simp add: flush_def plain_field_def)
  qed
  then show ?thesis
    using split_ws_blank [of "[]"] by (simp add: split_whitespace_def flush_def)
qed

section \<open>One stat line\<close>

text \<open>The text after the last closing parenthesis (\<open>str::rfind\<close>).\<close>

definition after_last :: "char \<Rightarrow> string \<Rightarrow> string option" where
  "after_last d s = (if d \<in> set s then Some (rev (takeWhile (\<lambda>c. c \<noteq> d) (rev s))) else None)"

definition nth_opt :: "'a list \<Rightarrow> nat \<Rightarrow> 'a option" where
  "nth_opt xs i = (if i < length xs then Some (xs ! i) else None)"

definition STATES :: "string list" where
  "STATES = [''R'', ''S'', ''D'', ''Z'', ''T'', ''t'', ''X'', ''x'', ''K'', ''W'', ''P'', ''I'']"

definition live_pgrp :: "string \<Rightarrow> u32 option" where
  "live_pgrp stat =
     Option.bind (after_last (CHR '')'') stat) (\<lambda>after_comm.
       let flds = split_whitespace after_comm
       in Option.bind (nth_opt flds 0) (\<lambda>state.
            if state \<notin> set STATES then None
            else Option.bind (Option.bind (nth_opt flds 2) parse_u32) (\<lambda>group.
              Option.bind (Option.bind (nth_opt flds 17) parse_u32) (\<lambda>threads.
                if threads = 0 \<or> (state = ''Z'' \<or> state = ''X'') \<and> threads = 1 then None
                else Some group))))"

lemma after_last_split:
  assumes "d \<notin> set b"
  shows "after_last d (a @ d # b) = Some b"
proof -
  have "takeWhile (\<lambda>c. c \<noteq> d) (rev b @ d # rev a) = rev b"
    using assms by (subst takeWhile_append2) auto
  then show ?thesis by (simp add: after_last_def)
qed

section \<open>The scan\<close>

text \<open>
  \<open>pids_in_groups\<close>: the map it builds, one directory entry (its name, its \<open>stat\<close>
  text) at a time; no listing is an unreadable \<open>/proc\<close>.
\<close>

definition add_pid ::
  "(u32 \<Rightarrow> u32 list option) \<Rightarrow> string option \<times> string option \<Rightarrow> (u32 \<Rightarrow> u32 list option)" where
  "add_pid by_group e =
     (case Option.bind (fst e) parse_u32 of
        None \<Rightarrow> by_group
      | Some pid \<Rightarrow>
          (case Option.bind (snd e) live_pgrp of
             None \<Rightarrow> by_group
           | Some g \<Rightarrow>
               (case by_group g of
                  None \<Rightarrow> by_group
                | Some pids \<Rightarrow> by_group(g \<mapsto> pids @ [pid]))))"

definition pids_in_groups ::
  "u32 list \<Rightarrow> (string option \<times> string option) list option \<Rightarrow> u32 \<Rightarrow> u32 list option" where
  "pids_in_groups groups entries =
     (let empty = (\<lambda>g. if g \<in> set groups then Some [] else None)
      in case entries of
           None \<Rightarrow> empty
         | Some es \<Rightarrow> (\<lambda>g. map_option sort (foldl add_pid empty es g)))"

text \<open>The pids an entry list shows alive in one group.\<close>

definition live_in :: "u32 \<Rightarrow> (string option \<times> string option) list \<Rightarrow> u32 list" where
  "live_in g es =
     [pid. (n, s) \<leftarrow> es, Some pid \<leftarrow> [Option.bind n parse_u32], Option.bind s live_pgrp = Some g]"

lemma live_in_simps [simp]:
  "live_in g [] = []"
  "live_in g (es @ fs) = live_in g es @ live_in g fs"
  by (simp_all add: live_in_def)

lemma live_in_single:
  "live_in g [(n, s)] =
     (case Option.bind n parse_u32 of None \<Rightarrow> []
      | Some pid \<Rightarrow> if Option.bind s live_pgrp = Some g then [pid] else [])"
  by (simp add: live_in_def split: option.split)

lemma foldl_add_pid:
  "foldl add_pid (\<lambda>g. if P g then Some [] else None) es
     = (\<lambda>g. if P g then Some (live_in g es) else None)"
proof (induction es rule: rev_induct)
  case Nil
  show ?case by (intro ext) simp
next
  case (snoc e es)
  obtain n s where e: "e = (n, s)" by (cases e)
  let ?init = "\<lambda>g. if P g then Some [] else None"
  have "foldl add_pid ?init (es @ [e]) = add_pid (foldl add_pid ?init es) e" by simp
  also have "\<dots> = add_pid (\<lambda>g. if P g then Some (live_in g es) else None) e"
    by (simp only: snoc)
  also have "\<dots> = (\<lambda>g. if P g then Some (live_in g (es @ [e])) else None)"
    by (rule ext) (simp add: add_pid_def e live_in_single split: option.split)
  finally show ?case .
qed

lemma pids_in_groups_live:
  "pids_in_groups groups (Some es) g = (if g \<in> set groups then Some (sort (live_in g es)) else None)"
  by (simp add: pids_in_groups_def foldl_add_pid)

section \<open>Properties\<close>

text \<open>
  A stat line is read right whatever the command is called. For any command name (blanks,
  parentheses and closing parentheses included), the line of a process is taken as live in its
  process group exactly when it has threads and is not a dead leader with no other thread left.
\<close>
theorem live_pgrp_any_comm:
  assumes "state \<in> set STATES" and "\<forall>w \<in> set flds. plain_field w" and "17 \<le> length flds"
    and "flds ! 1 = show_nat (unat pgrp)" and "flds ! 16 = show_nat (unat (threads::u32))"
  shows "live_pgrp (pid @ '' ('' @ comm @ '')'' @ '' '' @ join_with '' '' (state # flds))
    = (if threads = 0 \<or> (state = ''Z'' \<or> state = ''X'') \<and> threads = 1 then None else Some pgrp)"
proof -
  let ?rest = "'' '' @ join_with '' '' (state # flds)"
  have st: "plain_field state"
    using assms(1) by (auto simp: STATES_def plain_field_def code_def)
  have "CHR '')'' \<notin> set (join_with '' '' ws)" if "\<forall>w \<in> set ws. plain_field w" for ws
    using that by (induction "'' ''" ws rule: join_with.induct) (auto simp: plain_field_def)
  with st assms(2) have "CHR '')'' \<notin> set ?rest" by simp
  from after_last_split [OF this, of "pid @ '' ('' @ comm"]
  have al: "after_last (CHR '')'') (pid @ '' ('' @ comm @ '')'' @ ?rest) = Some ?rest" by simp
  have "split_whitespace ?rest = state # flds"
    using st assms(2) by (intro split_whitespace_join) simp
  moreover have "Option.bind (nth_opt (state # flds) 2) parse_u32 = Some pgrp"
    "Option.bind (nth_opt (state # flds) 17) parse_u32 = Some threads"
    using assms(3-5) by (simp_all add: nth_opt_def parse_u32_show)
  ultimately show ?thesis
    unfolding live_pgrp_def al using assms(1) by (simp add: Let_def nth_opt_def)
qed

text \<open>
  A process called \<open>x) R 1 (\<close>, twice the fields a line needs.
\<close>

theorem live_pgrp_any_comm_witness:
  "live_pgrp (''12'' @ '' ('' @ '') R 1 ('' @ '')'' @ '' ''
      @ join_with '' '' (''Z'' # replicate 16 ''7'' @ [''2''])) = Some 7"
proof -
  let ?flds = "replicate 16 ''7'' @ [''2'']"
  have "plain_field w" if "w \<in> set ?flds" for w
    using that by (auto simp: plain_field_def code_def)
  moreover have "?flds ! 1 = show_nat (unat (7::u32))" "?flds ! 16 = show_nat (unat (2::u32))"
    by (simp_all add: show_nat.simps digit_char_def nth_append)
  ultimately have "live_pgrp (''12'' @ '' ('' @ '') R 1 ('' @ '')'' @ '' ''
      @ join_with '' '' (''Z'' # ?flds))
    = (if (2::u32) = 0 \<or> (''Z'' = ''Z'' \<or> ''Z'' = ''X'') \<and> (2::u32) = 1 then None else Some 7)"
    by (intro live_pgrp_any_comm) (simp_all add: STATES_def)
  then show ?thesis by simp
qed

end
