(* ===== verification/ExecRegistry.thy ===== *)
theory ExecRegistry
  imports AppState Waiter ProcScan
begin

text \<open>
  The exec routes over the registry (\<open>crates/agentd/src/exec.rs\<close>): start and spawn, poll,
  ack, kill, stdin, the TTL collection, the activity signal and the process listing, and what
  the waiter task writes when a child is over. A handler that takes its \<open>Shared\<close> in one
  place and its lock in another is two functions, so that theory \<open>RegistryRuns\<close> can put
  other steps between them. What the guest answers is an input: the spawn, the files of
  \<open>/etc\<close>, a pipe write, the signals.
\<close>

section \<open>Responses\<close>

record proc_group =
  pg_exec_id :: string
  pg_pgid :: "u32 option"
  pg_started_at :: nat
  pg_child_exited :: bool
  pg_reap :: bool
  pg_pids :: "u32 list"

datatype body =
    ErrorBody rejection
  | StartBody string phase
  | PollBody string phase "outcome option"
  | StdinBody string nat bool
  | KillBody string bool
  | ProcsBody "proc_group list"

record response =
  rs_status :: nat
  rs_body :: body

definition fail :: "nat \<Rightarrow> slug \<Rightarrow> detail \<Rightarrow> response" where
  "fail status e d = \<lparr>rs_status = status, rs_body = ErrorBody (reject e d)\<rparr>"

definition ok_response :: "body \<Rightarrow> response" where
  "ok_response b = \<lparr>rs_status = 200, rs_body = b\<rparr>"

section \<open>The timeout\<close>

text \<open>
  \<open>Duration::try_from_secs_f64\<close>: nanoseconds rounded to the nearest, ties to even, or an
  error past what 64-bit seconds hold.
\<close>

definition nanos_of :: "rat \<Rightarrow> nat" where
  "nanos_of q =
     (let x = q * 10 ^ 9; n = nat \<lfloor>x\<rfloor>; r = x - of_nat n
      in if 1 / 2 < r \<or> r = 1 / 2 \<and> odd n then n + 1 else n)"

definition duration_try_from_secs :: "rat \<Rightarrow> nat option" where
  "duration_try_from_secs q =
     (if nanos_of q < 2 ^ 64 * 10 ^ 9 then Some (nanos_of q) else None)"

definition validate_timeout :: "f64 option \<Rightarrow> detail + nat option" where
  "validate_timeout raw =
     (case raw of
        None \<Rightarrow> Inr None
      | Some f \<Rightarrow>
          (case f of
             Finite q \<Rightarrow>
               if q \<le> 0 then Inl (TimeoutNotPositive f)
               else (case duration_try_from_secs q of
                       Some d \<Rightarrow> Inr (Some d)
                     | None \<Rightarrow> Inl (TimeoutTooLong f))
           | _ \<Rightarrow> Inl (TimeoutNotPositive f)))"

section \<open>The command\<close>

datatype stdio = Piped | DevNull

record command =
  cm_program :: string
  cm_args :: "string list"
  cm_env :: env
  cm_cwd :: "string option"
  cm_gid :: "u32 option"
  cm_uid :: "u32 option"
  cm_process_group :: nat
  cm_stdin :: stdio
  cm_stdout :: stdio
  cm_stderr :: stdio

text \<open>The files of the guest a start reads, and its executables.\<close>

record host =
  ht_read :: "string \<Rightarrow> string"
  ht_is_executable :: "string \<Rightarrow> bool"

definition request_guest :: "start_request \<Rightarrow> host \<Rightarrow> 'm daemon \<Rightarrow> guest" where
  "request_guest rq h s =
     (let cfg = dm_config s;
          passwd = (if req_user rq \<noteq> None \<or> cf_default_user cfg \<noteq> None
                    then ht_read h (cf_passwd_path cfg) else []);
          grp = (case req_group rq of
                   Some (Name _) \<Rightarrow> ht_read h (cf_group_path cfg)
                 | _ \<Rightarrow> [])
      in guest_of cfg (dm_launch_env s) (dm_image_env s) passwd grp (ht_is_executable h))"

text \<open>\<open>Command::envs\<close> once per layer on an emptied environment.\<close>

fun apply_envs :: "env list \<Rightarrow> env \<Rightarrow> env" where
  "apply_envs [] e = e"
| "apply_envs (l # ls) e = apply_envs ls (e ++ l)"

definition build_command :: "start_request \<Rightarrow> host \<Rightarrow> 'm daemon \<Rightarrow> rejection + command" where
  "build_command rq h s =
     bind_r (make_plan rq (request_guest rq h s)) (\<lambda>plan.
       let (prog, args) =
         (case pl_program plan of
            Argv prog args \<Rightarrow> (prog, args)
          | Script sh script \<Rightarrow> (sh, [''-c'', script]))
       in Inr \<lparr>cm_program = prog, cm_args = args, cm_env = apply_envs (pl_layers plan) Map.empty,
               cm_cwd = req_cwd rq, cm_gid = pl_gid plan, cm_uid = pl_uid plan,
               cm_process_group = 0,
               cm_stdin = (if req_stdin rq then Piped else DevNull),
               cm_stdout = Piped, cm_stderr = Piped\<rparr>)"

section \<open>Start\<close>

text \<open>What the kernel answers the spawn with: an error, or the pid if it can still be read.\<close>

type_synonym spawn_result = "string + u32 option"

definition new_shared :: "config \<Rightarrow> command \<Rightarrow> shared" where
  "new_shared cfg cmd =
     \<lparr>sh_result = None, sh_terminal = None, sh_log = default_log,
      sh_stdin = (cm_stdin cmd = Piped), sh_stdin_requested = (cm_stdin cmd = Piped),
      sh_buffer_cap = cf_stream_buffer_bytes cfg\<rparr>"

definition spawn ::
  "string \<Rightarrow> command \<Rightarrow> bool \<Rightarrow> spawn_result \<Rightarrow> nat \<Rightarrow> 'm daemon \<Rightarrow> string + 'm daemon" where
  "spawn xid cmd reap child epoch s =
     bind_r child (\<lambda>pgid.
       let a = length (dm_heap s);
           entry = \<lparr>en_pgid = pgid, en_shared = a, en_acked_at = None, en_started_at = epoch,
                    en_reap = reap\<rparr>
       in Inr (s\<lparr>dm_heap := dm_heap s @ [new_shared (dm_config s) cmd],
                 dm_execs := AList.update xid entry (dm_execs s)\<rparr>))"

definition start ::
  "start_request option \<Rightarrow> string option \<Rightarrow> host \<Rightarrow> spawn_result \<Rightarrow> nat \<Rightarrow> 'm daemon
     \<Rightarrow> response \<times> 'm daemon" where
  "start body poweroff_error h child epoch s =
     (case body of
        None \<Rightarrow> (fail 400 MalformedRequest NotAStartRequest, s)
      | Some rq \<Rightarrow>
          if req_exec_id rq = [] then (fail 400 MalformedRequest ExecIdEmpty, s)
          else if req_poweroff_on_exit rq \<and> poweroff_error \<noteq> None
          then (fail 400 PoweroffUnavailable (PoweroffDetail (the poweroff_error)), s)
          else
            (case validate_timeout (req_timeout_sec rq) of
               Inl d \<Rightarrow> (fail 400 MalformedRequest d, s)
             | Inr timeout \<Rightarrow>
                 (case build_command rq h s of
                    Inl rej \<Rightarrow> (fail 400 (rej_error rej) (rej_detail rej), s)
                  | Inr cmd \<Rightarrow>
                      if map_of (dm_execs s) (req_exec_id rq) \<noteq> None
                      then (ok_response (StartBody (req_exec_id rq) Running), s)
                      else
                        (case spawn (req_exec_id rq) cmd (req_reap_group_on_exit rq) child epoch s of
                           Inr s' \<Rightarrow> (ok_response (StartBody (req_exec_id rq) Running), s')
                         | Inl err \<Rightarrow> (fail 500 SpawnFailed (SpawnDetail err), s)))))"

section \<open>The waiter's writes\<close>

definition cell :: "'m daemon \<Rightarrow> nat \<Rightarrow> shared" where
  "cell s a = dm_heap s ! a"

definition set_cell :: "nat \<Rightarrow> shared \<Rightarrow> 'm daemon \<Rightarrow> 'm daemon" where
  "set_cell a c s = s\<lparr>dm_heap := (dm_heap s)[a := c]\<rparr>"

definition publish_to :: "nat \<Rightarrow> stream_kind \<Rightarrow> bytes \<Rightarrow> 'm daemon \<Rightarrow> 'm daemon" where
  "publish_to a k bs s =
     (let c = cell s a
      in set_cell a (c\<lparr>sh_log := fst (publish (sh_buffer_cap c) k bs (sh_log c))\<rparr>) s)"

definition terminal_of :: "outcome \<Rightarrow> terminal" where
  "terminal_of oc =
     \<lparr>tm_exit_code = oc_exit_code oc, tm_signal = oc_signal oc, tm_timed_out = oc_timed_out oc,
      tm_truncated = oc_truncated oc, tm_writers_may_be_alive = oc_writers_may_be_alive oc\<rparr>"

text \<open>The terminal marker, then the result, then the stdin handle.\<close>

definition write_terminal :: "nat \<Rightarrow> outcome \<Rightarrow> 'm daemon \<Rightarrow> 'm daemon" where
  "write_terminal a oc s = set_cell a ((cell s a)\<lparr>sh_terminal := Some (terminal_of oc)\<rparr>) s"

definition write_result :: "nat \<Rightarrow> outcome \<Rightarrow> 'm daemon \<Rightarrow> 'm daemon" where
  "write_result a oc s = set_cell a ((cell s a)\<lparr>sh_result := Some oc\<rparr>) s"

definition drop_stdin :: "nat \<Rightarrow> 'm daemon \<Rightarrow> 'm daemon" where
  "drop_stdin a s = set_cell a ((cell s a)\<lparr>sh_stdin := False\<rparr>) s"

section \<open>Poll\<close>

definition phase_of :: "bool \<Rightarrow> bool \<Rightarrow> phase" where
  "phase_of acked finished = (if acked then Acked else if finished then Exited else Running)"

definition lookup_exec :: "string \<Rightarrow> 'm daemon \<Rightarrow> response + exec_entry" where
  "lookup_exec xid s =
     ok_or (fail 404 UnknownExec (ExecIdDetail xid)) (map_of (dm_execs s) xid)"

definition poll_read :: "string \<Rightarrow> bool \<Rightarrow> nat \<Rightarrow> 'm daemon \<Rightarrow> response" where
  "poll_read xid acked a s =
     (let result = sh_result (cell s a); phase = phase_of acked (result \<noteq> None)
      in ok_response (PollBody xid phase (if acked then None else result)))"

definition poll :: "string \<Rightarrow> 'm daemon \<Rightarrow> response" where
  "poll xid s =
     (case lookup_exec xid s of
        Inl r \<Rightarrow> r
      | Inr e \<Rightarrow> poll_read xid (en_acked_at e \<noteq> None) (en_shared e) s)"

section \<open>Ack\<close>

definition is_acked :: "string \<Rightarrow> 'm daemon \<Rightarrow> bool" where
  "is_acked xid s =
     (case map_of (dm_execs s) xid of None \<Rightarrow> False | Some e \<Rightarrow> en_acked_at e \<noteq> None)"

text \<open>Under the lock of the result slot.\<close>

definition ack_locked :: "string \<Rightarrow> nat \<Rightarrow> 'm daemon \<Rightarrow> response \<times> 'm daemon" where
  "ack_locked xid a s =
     (case sh_result (cell s a) of
        None \<Rightarrow>
          (if is_acked xid s then (fail 409 AlreadyAcked ReleasedByEarlierAck, s)
           else (fail 409 StillRunning OutputStillWritten, s))
      | Some oc \<Rightarrow>
          (let s1 = set_cell a ((cell s a)\<lparr>sh_result := None\<rparr>) s
           in case map_of (dm_execs s1) xid of
                Some e \<Rightarrow>
                  if en_acked_at e = None
                  then (ok_response (PollBody xid Acked (Some oc)),
                        s1\<lparr>dm_execs := AList.update xid (e\<lparr>en_acked_at := Some (dm_now s1)\<rparr>)
                             (dm_execs s1)\<rparr>)
                  else (fail 409 AlreadyAcked ReleasedByEarlierAck, s1)
              | None \<Rightarrow> (fail 409 AlreadyAcked ReleasedByEarlierAck, s1)))"

definition ack :: "string \<Rightarrow> 'm daemon \<Rightarrow> response \<times> 'm daemon" where
  "ack xid s =
     (case lookup_exec xid s of
        Inl r \<Rightarrow> (r, s)
      | Inr e \<Rightarrow> ack_locked xid (en_shared e) s)"

section \<open>Kill\<close>

definition kill ::
  "string \<Rightarrow> killpg_result \<Rightarrow> bool option list \<Rightarrow> 'm daemon \<Rightarrow> response \<times> (u32 \<times> signal) list" where
  "kill xid term probes s =
     (case lookup_exec xid s of
        Inl r \<Rightarrow> (r, [])
      | Inr e \<Rightarrow>
          (case en_pgid e of
             None \<Rightarrow> (ok_response (KillBody xid False), [])
           | Some pgid \<Rightarrow>
               (case escalate_blind term probes of
                  (signaled, signals) \<Rightarrow>
                    (ok_response (KillBody xid signaled), map (Pair pgid) signals))))"

section \<open>Stdin\<close>

record stdin_request =
  sr_data_b64 :: "string option"
  sr_signal :: "string option"

text \<open>How the write to the pipe ended.\<close>

datatype stdin_write = WroteAll | BrokenPipe | WriteError string | WriteTimedOut

definition write_stdin ::
  "(string \<Rightarrow> string + bytes) \<Rightarrow> string \<Rightarrow> stdin_request option \<Rightarrow> stdin_write \<Rightarrow> 'm daemon
     \<Rightarrow> response \<times> 'm daemon" where
  "write_stdin decode xid body wrote s =
     (case body of
        None \<Rightarrow> (fail 400 MalformedRequest NotAStdinRequest, s)
      | Some rq \<Rightarrow>
     (case lookup_exec xid s of
        Inl r \<Rightarrow> (r, s)
      | Inr e \<Rightarrow>
     (let a = en_shared e; c = cell s a in
      if \<not> sh_stdin_requested c then (fail 409 StdinNotRequested StdinIsDevNull, s)
      else
     (case (case sr_signal rq of
              None \<Rightarrow> Inr False
            | Some sig \<Rightarrow> if sig = ''eof'' then Inr True else Inl (UnknownStdinSignal sig)) of
        Inl d \<Rightarrow> (fail 400 MalformedRequest d, s)
      | Inr eof \<Rightarrow>
     (case (case sr_data_b64 rq of None \<Rightarrow> Inr [] | Some enc \<Rightarrow> decode enc) of
        Inl err \<Rightarrow> (fail 400 MalformedRequest (BadBase64 err), s)
      | Inr data \<Rightarrow>
      let cap = cf_max_stdin_write_bytes (dm_config s) in
      if cap < length data
      then (fail 413 StdinWriteTooLarge (OverStdinCap (length data) cap), s)
      else if \<not> sh_stdin c then (fail 410 StdinClosed StdinGone, s)
      else
        (case (if data = [] then WroteAll else wrote) of
           BrokenPipe \<Rightarrow> (fail 410 StdinClosed ChildNotReading, drop_stdin a s)
         | WriteError err \<Rightarrow> (fail 500 StdinWriteFailed (StdinIoError err), s)
         | WriteTimedOut \<Rightarrow> (fail 408 StdinWriteTimeout StdinTimedOut, s)
         | WroteAll \<Rightarrow>
             (ok_response (StdinBody xid (length data) eof),
              if eof then drop_stdin a s else s)))))))"

section \<open>Collection, activity, processes\<close>

definition keep_entry :: "nat \<Rightarrow> nat \<Rightarrow> string \<Rightarrow> exec_entry \<Rightarrow> bool" where
  "keep_entry ttl now xid e =
     (case en_acked_at e of Some acked \<Rightarrow> now - acked < ttl | None \<Rightarrow> True)"

definition collect_expired :: "'m daemon \<Rightarrow> nat \<times> 'm daemon" where
  "collect_expired s =
     (let ttl = cf_exec_ttl (dm_config s);
          before = length (dm_execs s);
          execs = retain (keep_entry ttl (dm_now s)) (dm_execs s)
      in (before - length execs, s\<lparr>dm_execs := execs\<rparr>))"

text \<open>
  \<open>try_lock\<close> on the terminal slot of an address: \<open>locked\<close> says which are held right now.
\<close>

definition activity :: "(nat \<Rightarrow> bool) \<Rightarrow> 'm daemon \<Rightarrow> bool \<times> nat" where
  "activity locked s =
     (let cells = map (\<lambda>(xid, e). en_shared e) (dm_execs s);
          busy = list_ex (\<lambda>a. if locked a then True else sh_terminal (cell s a) = None) cells
      in (busy, length cells))"

definition procs ::
  "(nat \<Rightarrow> bool) \<Rightarrow> (string option \<times> string option) list option option \<Rightarrow> 'm daemon \<Rightarrow> response" where
  "procs locked listing s =
     (let wanted = List.map_filter (\<lambda>(xid, e). en_pgid e) (dm_execs s);
          by_group = (case listing of None \<Rightarrow> Map.empty | Some l \<Rightarrow> pids_in_groups wanted l)
      in ok_response (ProcsBody (map (\<lambda>(xid, e).
           \<lparr>pg_exec_id = xid, pg_pgid = en_pgid e, pg_started_at = en_started_at e,
            pg_child_exited =
              (if locked (en_shared e) then False else sh_terminal (cell s (en_shared e)) \<noteq> None),
            pg_reap = en_reap e,
            pg_pids = (case Option.bind (en_pgid e) by_group of None \<Rightarrow> [] | Some ps \<Rightarrow> ps)\<rparr>)
         (dm_execs s))))"

end
