(* ===== verification/RegistryRuns.thy ===== *)
theory RegistryRuns
  imports ExecRegistry
begin

text \<open>
  Runs of the registry: the handlers, the waiter tasks and the collection loop of one daemon,
  interleaved at every point where the code gives up a lock. A waiter task of an address goes
  through the steps of the spawned task in \<open>spawn\<close> (publish while it drains, then the terminal
  marker, the result, the stdin handle); an ack looks its entry up in one step and takes the
  result slot's lock in another. Every step is a function of the state, so a run is a list of
  acts.
\<close>

section \<open>Systems and acts\<close>

datatype task_phase = Draining | Marked outcome | Over outcome

record task =
  tk_id :: string
  tk_phase :: task_phase

record 'm system =
  sy_daemon :: "'m daemon"
  sy_tasks :: "task list"
  sy_acks :: "(string \<times> nat) list"

datatype 'm act =
    DoStart "start_request option" "string option" host spawn_result nat
  | DoPublish nat stream_kind bytes
  | DoTerminal nat outcome
  | DoResult nat
  | DoDropStdin nat
  | DoAckLookup string
  | DoAckLocked string nat
  | DoStdin string "stdin_request option" "string + bytes" stdin_write
  | DoCollect
  | DoTick nat
  | DoBootstrap bytes env "'m option"

definition init_system :: "config \<Rightarrow> env option \<Rightarrow> 'm system" where
  "init_system cfg img =
     \<lparr>sy_daemon = new_daemon cfg img, sy_tasks = [], sy_acks = []\<rparr>"

definition task_at :: "'m system \<Rightarrow> nat \<Rightarrow> task_phase option" where
  "task_at y a = (if a < length (sy_tasks y) then Some (tk_phase (sy_tasks y ! a)) else None)"

definition set_phase :: "nat \<Rightarrow> task_phase \<Rightarrow> 'm system \<Rightarrow> 'm system" where
  "set_phase a p y = y\<lparr>sy_tasks := (sy_tasks y)[a := (sy_tasks y ! a)\<lparr>tk_phase := p\<rparr>]\<rparr>"

definition with_daemon :: "'m daemon \<Rightarrow> 'm system \<Rightarrow> 'm system" where
  "with_daemon s y = y\<lparr>sy_daemon := s\<rparr>"

text \<open>One act: the response, if it has one, and the next system; \<open>None\<close> is not enabled.\<close>

fun do_act :: "'m act \<Rightarrow> 'm system \<Rightarrow> (response option \<times> 'm system) option" where
  "do_act (DoStart body err h child epoch) y =
     (case start body err h child epoch (sy_daemon y) of
        (r, s) \<Rightarrow>
          Some (Some r, y\<lparr>sy_daemon := s,
            sy_tasks := sy_tasks y @
              (if length (dm_heap s) = length (dm_heap (sy_daemon y)) then []
               else [\<lparr>tk_id = req_exec_id (the body), tk_phase = Draining\<rparr>])\<rparr>))"
| "do_act (DoPublish a k bs) y =
     (if task_at y a = Some Draining
      then Some (None, with_daemon (publish_to a k bs (sy_daemon y)) y) else None)"
| "do_act (DoTerminal a oc) y =
     (if task_at y a = Some Draining
      then Some (None, set_phase a (Marked oc) (with_daemon (write_terminal a oc (sy_daemon y)) y))
      else None)"
| "do_act (DoResult a) y =
     (case task_at y a of
        Some (Marked oc) \<Rightarrow>
          Some (None, set_phase a (Over oc) (with_daemon (write_result a oc (sy_daemon y)) y))
      | _ \<Rightarrow> None)"
| "do_act (DoDropStdin a) y =
     (case task_at y a of
        Some (Over oc) \<Rightarrow> Some (None, with_daemon (drop_stdin a (sy_daemon y)) y)
      | _ \<Rightarrow> None)"
| "do_act (DoAckLookup xid) y =
     (case lookup_exec xid (sy_daemon y) of
        Inl r \<Rightarrow> Some (Some r, y)
      | Inr e \<Rightarrow> Some (None, y\<lparr>sy_acks := (xid, en_shared e) # sy_acks y\<rparr>))"
| "do_act (DoAckLocked xid a) y =
     (if (xid, a) \<in> set (sy_acks y)
      then (case ack_locked xid a (sy_daemon y) of
              (r, s) \<Rightarrow> Some (Some r, y\<lparr>sy_daemon := s, sy_acks := remove1 (xid, a) (sy_acks y)\<rparr>))
      else None)"
| "do_act (DoStdin xid body decoded wrote) y =
     (case write_stdin (\<lambda>_. decoded) xid body wrote (sy_daemon y) of
        (r, s) \<Rightarrow> Some (Some r, with_daemon s y))"
| "do_act DoCollect y = Some (None, with_daemon (snd (collect_expired (sy_daemon y))) y)"
| "do_act (DoTick d) y =
     Some (None, with_daemon ((sy_daemon y)\<lparr>dm_now := dm_now (sy_daemon y) + d\<rparr>) y)"
| "do_act (DoBootstrap t e i) y =
     Some (None, with_daemon (snd (bootstrap_with_identity t e i (sy_daemon y))) y)"

inductive runs :: "'m system \<Rightarrow> ('m act \<times> response option) list \<Rightarrow> 'm system \<Rightarrow> bool" where
  runs_Nil: "runs y [] y"
| runs_snoc: "runs y tr y1 \<Longrightarrow> do_act act y1 = Some (r, y2) \<Longrightarrow> runs y (tr @ [(act, r)]) y2"

text \<open>The addresses whose output an ack handed to its caller, in order.\<close>

definition releases :: "('m act \<times> response option) list \<Rightarrow> nat list" where
  "releases tr =
     [a. (DoAckLocked xid a, Some r) \<leftarrow> tr, rs_status r = 200]"

lemma releases_simps [simp]:
  "releases [] = []"
  "releases (tr @ tr') = releases tr @ releases tr'"
  by (simp_all add: releases_def)

lemma releases_single:
  "releases [(act, r)] =
     (case (act, r) of
        (DoAckLocked xid a, Some r) \<Rightarrow> (if rs_status r = 200 then [a] else [])
      | _ \<Rightarrow> [])"
  by (simp add: releases_def split: act.split option.split)

section \<open>The invariant\<close>

text \<open>The entry that holds an address, if it is still registered.\<close>

definition holder :: "(string \<times> exec_entry) list \<Rightarrow> string \<Rightarrow> nat \<Rightarrow> exec_entry option" where
  "holder execs xid a =
     (case map_of execs xid of
        None \<Rightarrow> None
      | Some e \<Rightarrow> if en_shared e = a then Some e else None)"

definition held_unacked :: "(string \<times> exec_entry) list \<Rightarrow> string \<Rightarrow> nat \<Rightarrow> bool" where
  "held_unacked execs xid a \<longleftrightarrow> (\<exists>e. holder execs xid a = Some e \<and> en_acked_at e = None)"

text \<open>
  What an address looks like in each phase of its task. Until the result is released the entry
  is registered and unacked; a released result leaves an acked entry, or none.
\<close>

definition address_ok ::
  "(string \<times> exec_entry) list \<Rightarrow> nat list \<Rightarrow> nat \<Rightarrow> task \<Rightarrow> shared \<Rightarrow> bool" where
  "address_ok execs released a t c \<longleftrightarrow>
     (case tk_phase t of
        Draining \<Rightarrow> sh_terminal c = None \<and> sh_result c = None \<and> a \<notin> set released \<and>
          held_unacked execs (tk_id t) a
      | Marked oc \<Rightarrow> sh_terminal c = Some (terminal_of oc) \<and> sh_result c = None \<and>
          a \<notin> set released \<and> held_unacked execs (tk_id t) a
      | Over oc \<Rightarrow> sh_terminal c = Some (terminal_of oc) \<and>
          (if a \<in> set released
           then sh_result c = None \<and>
             (case holder execs (tk_id t) a of None \<Rightarrow> True | Some e \<Rightarrow> en_acked_at e \<noteq> None)
           else sh_result c = Some oc \<and> held_unacked execs (tk_id t) a))"

definition log_ok :: "shared \<Rightarrow> bool" where
  "log_ok c \<longleftrightarrow> (\<exists>ps. sh_log c = publish_all (sh_buffer_cap c) ps default_log)"

definition entries_ok :: "(string \<times> exec_entry) list \<Rightarrow> task list \<Rightarrow> bool" where
  "entries_ok execs ts \<longleftrightarrow> keys_distinct execs \<and>
     (\<forall>(xid, e) \<in> set execs. en_shared e < length ts \<and> tk_id (ts ! en_shared e) = xid)"

definition reg_inv :: "nat list \<Rightarrow> 'm system \<Rightarrow> bool" where
  "reg_inv released y \<longleftrightarrow>
     (let s = sy_daemon y; ts = sy_tasks y
      in length ts = length (dm_heap s) \<and> entries_ok (dm_execs s) ts \<and>
         (\<forall>a < length ts. address_ok (dm_execs s) released a (ts ! a) (cell s a) \<and> log_ok (cell s a)) \<and>
         (\<forall>(xid, a) \<in> set (sy_acks y). a < length ts \<and> tk_id (ts ! a) = xid) \<and>
         distinct released \<and> (\<forall>a \<in> set released. a < length ts))"

lemma reg_inv_init: "reg_inv [] (init_system cfg img)"
  by (simp add: reg_inv_def init_system_def new_daemon_def entries_ok_def keys_distinct_def)

lemma reg_invD:
  assumes "reg_inv released y"
  shows "length (sy_tasks y) = length (dm_heap (sy_daemon y))"
    and "entries_ok (dm_execs (sy_daemon y)) (sy_tasks y)"
    and "a < length (sy_tasks y) \<Longrightarrow>
      address_ok (dm_execs (sy_daemon y)) released a (sy_tasks y ! a) (cell (sy_daemon y) a)"
    and "a < length (sy_tasks y) \<Longrightarrow> log_ok (cell (sy_daemon y) a)"
    and "(xid, a) \<in> set (sy_acks y) \<Longrightarrow> a < length (sy_tasks y) \<and> tk_id (sy_tasks y ! a) = xid"
    and "distinct released"
    and "a \<in> set released \<Longrightarrow> a < length (sy_tasks y)"
  using assms by (auto simp: reg_inv_def Let_def)

lemma lookup_exec_Inr:
  "lookup_exec xid s = Inr e \<longleftrightarrow> map_of (dm_execs s) xid = Some e"
  by (simp add: lookup_exec_def)

lemma entries_ok_lookup:
  "entries_ok execs ts \<Longrightarrow> map_of execs xid = Some e \<Longrightarrow>
     en_shared e < length ts \<and> tk_id (ts ! en_shared e) = xid"
  by (auto simp: entries_ok_def dest!: map_of_SomeD)

text \<open>
  A write to one cell, with its task's phase: everything else is as it was, so the invariant
  follows from the address written to.
\<close>

lemma reg_inv_set_cell:
  assumes inv: "reg_inv released y" and a: "a < length (sy_tasks y)"
    and ok: "address_ok (dm_execs (sy_daemon y)) released a ((sy_tasks y ! a)\<lparr>tk_phase := p\<rparr>) c"
    and log: "log_ok c"
  shows "reg_inv released (set_phase a p (with_daemon (set_cell a c (sy_daemon y)) y))"
proof -
  let ?y = "set_phase a p (with_daemon (set_cell a c (sy_daemon y)) y)"
  have ids: "tk_id (sy_tasks ?y ! b) = tk_id (sy_tasks y ! b)" for b
    by (cases "b = a") (simp_all add: set_phase_def with_daemon_def a)
  have cells: "cell (sy_daemon ?y) b = (if b = a then c else cell (sy_daemon y) b)"
    if "b < length (sy_tasks y)" for b
    using that reg_invD(1) [OF inv] a
    by (simp add: cell_def set_cell_def set_phase_def with_daemon_def)
  have "entries_ok (dm_execs (sy_daemon y)) (sy_tasks ?y)"
    using reg_invD(2) [OF inv] ids by (simp add: entries_ok_def set_phase_def with_daemon_def)
  moreover have "address_ok (dm_execs (sy_daemon y)) released b (sy_tasks ?y ! b) (cell (sy_daemon ?y) b)
      \<and> log_ok (cell (sy_daemon ?y) b)" if "b < length (sy_tasks y)" for b
    using reg_invD(3,4) [OF inv that] cells [OF that] ok log a
    by (cases "b = a") (simp_all add: set_phase_def with_daemon_def)
  moreover have "\<forall>(xid, b) \<in> set (sy_acks y). b < length (sy_tasks y) \<and> tk_id (sy_tasks ?y ! b) = xid"
    using reg_invD(5) [OF inv] ids by auto
  ultimately show ?thesis
    using reg_invD(1,6,7) [OF inv] ids
    by (simp add: reg_inv_def Let_def set_phase_def with_daemon_def set_cell_def)
qed

lemma set_phase_same: "a < length (sy_tasks y) \<Longrightarrow> set_phase a (tk_phase (sy_tasks y ! a)) y = y"
  by (simp add: set_phase_def)

section \<open>Every act keeps the invariant\<close>

lemma publish_all_snoc:
  "publish_all cap (ps @ [(k, bs)]) l = fst (publish cap k bs (publish_all cap ps l))"
  by (induction cap ps l rule: publish_all.induct) auto

lemma task_at_Some: "task_at y a = Some p \<longleftrightarrow> a < length (sy_tasks y) \<and> tk_phase (sy_tasks y ! a) = p"
  by (auto simp: task_at_def)

lemma address_ok_holder:
  "holder execs (tk_id t) a = holder execs' (tk_id t) a \<Longrightarrow>
     address_ok execs released a t c = address_ok execs' released a t c"
  by (cases "tk_phase t") (simp_all add: address_ok_def held_unacked_def)

lemma address_ok_released:
  "b \<noteq> a \<Longrightarrow> address_ok execs (released @ [a]) b t c = address_ok execs released b t c"
  by (cases "tk_phase t") (simp_all add: address_ok_def)

lemma log_ok_result [simp]:
  "log_ok (c\<lparr>sh_result := r\<rparr>) = log_ok c" "log_ok (c\<lparr>sh_terminal := t\<rparr>) = log_ok c"
  "log_ok (c\<lparr>sh_stdin := b\<rparr>) = log_ok c"
  by (simp_all add: log_ok_def)

lemma address_ok_log [simp]:
  "address_ok execs released a t (c\<lparr>sh_log := l\<rparr>) = address_ok execs released a t c"
  "address_ok execs released a t (c\<lparr>sh_stdin := b\<rparr>) = address_ok execs released a t c"
  by (simp_all add: address_ok_def split: task_phase.split)

lemma publish_keeps:
  assumes inv: "reg_inv released y" and "task_at y a = Some p"
  shows "reg_inv released (with_daemon (publish_to a k bs (sy_daemon y)) y)"
proof -
  let ?c = "cell (sy_daemon y) a"
  let ?c' = "?c\<lparr>sh_log := fst (publish (sh_buffer_cap ?c) k bs (sh_log ?c))\<rparr>"
  from assms(2) have a: "a < length (sy_tasks y)" by (simp add: task_at_Some)
  from reg_invD(4) [OF inv a] obtain ps where
    "sh_log ?c = publish_all (sh_buffer_cap ?c) ps default_log"
    by (auto simp: log_ok_def)
  then have "log_ok ?c'"
    by (simp add: log_ok_def publish_all_snoc [symmetric]) blast
  with reg_inv_set_cell [OF inv a, of "tk_phase (sy_tasks y ! a)" ?c'] reg_invD(3) [OF inv a]
  show ?thesis by (simp add: publish_to_def Let_def set_phase_def with_daemon_def)
qed

lemma drop_stdin_keeps:
  assumes inv: "reg_inv released y" and a: "a < length (sy_tasks y)"
  shows "reg_inv released (with_daemon (drop_stdin a (sy_daemon y)) y)"
  using reg_inv_set_cell [OF inv a, of "tk_phase (sy_tasks y ! a)"
      "(cell (sy_daemon y) a)\<lparr>sh_stdin := False\<rparr>"] reg_invD(3,4) [OF inv a]
  by (simp add: drop_stdin_def set_phase_def with_daemon_def)

lemma terminal_keeps:
  assumes inv: "reg_inv released y" and t: "task_at y a = Some Draining"
  shows "reg_inv released
    (set_phase a (Marked oc) (with_daemon (write_terminal a oc (sy_daemon y)) y))"
proof -
  from t have a: "a < length (sy_tasks y)" by (simp add: task_at_Some)
  have "address_ok (dm_execs (sy_daemon y)) released a ((sy_tasks y ! a)\<lparr>tk_phase := Marked oc\<rparr>)
      ((cell (sy_daemon y) a)\<lparr>sh_terminal := Some (terminal_of oc)\<rparr>)"
    using reg_invD(3) [OF inv a] t by (simp add: address_ok_def task_at_Some)
  with reg_inv_set_cell [OF inv a this] reg_invD(4) [OF inv a] show ?thesis
    by (simp add: write_terminal_def)
qed

lemma result_keeps:
  assumes inv: "reg_inv released y" and t: "task_at y a = Some (Marked oc)"
  shows "reg_inv released
    (set_phase a (Over oc) (with_daemon (write_result a oc (sy_daemon y)) y))"
proof -
  from t have a: "a < length (sy_tasks y)" by (simp add: task_at_Some)
  have "address_ok (dm_execs (sy_daemon y)) released a ((sy_tasks y ! a)\<lparr>tk_phase := Over oc\<rparr>)
      ((cell (sy_daemon y) a)\<lparr>sh_result := Some oc\<rparr>)"
    using reg_invD(3) [OF inv a] t by (simp add: address_ok_def task_at_Some)
  with reg_inv_set_cell [OF inv a this] reg_invD(4) [OF inv a] show ?thesis
    by (simp add: write_result_def)
qed

text \<open>Changes to the registry alone: an address is fine as long as its holder is.\<close>

lemma reg_inv_execs:
  assumes inv: "reg_inv released y"
    and ents: "entries_ok execs (sy_tasks y)"
    and same: "\<And>a. a < length (sy_tasks y) \<Longrightarrow>
      holder execs (tk_id (sy_tasks y ! a)) a =
        holder (dm_execs (sy_daemon y)) (tk_id (sy_tasks y ! a)) a \<or>
      a \<in> set released \<and> holder execs (tk_id (sy_tasks y ! a)) a = None"
  shows "reg_inv released (with_daemon ((sy_daemon y)\<lparr>dm_execs := execs\<rparr>) y)"
proof -
  have "address_ok execs released a (sy_tasks y ! a) (cell (sy_daemon y) a)"
    if a: "a < length (sy_tasks y)" for a
    using reg_invD(3) [OF inv a] same [OF a]
    by (auto simp: address_ok_def held_unacked_def split: task_phase.splits if_splits)
  with reg_invD [OF inv] ents show ?thesis
    by (auto simp: reg_inv_def Let_def with_daemon_def cell_def)
qed

lemma collect_keeps:
  assumes inv: "reg_inv released y"
  shows "reg_inv released (with_daemon (snd (collect_expired (sy_daemon y))) y)"
proof -
  let ?P = "keep_entry (cf_exec_ttl (dm_config (sy_daemon y))) (dm_now (sy_daemon y))"
  let ?execs = "retain ?P (dm_execs (sy_daemon y))"
  have wf: "keys_distinct (dm_execs (sy_daemon y))"
    using reg_invD(2) [OF inv] by (simp add: entries_ok_def)
  have "entries_ok ?execs (sy_tasks y)"
    using reg_invD(2) [OF inv] store.wf_retain [OF wf] by (auto simp: entries_ok_def retain_def)
  moreover have "holder ?execs (tk_id (sy_tasks y ! a)) a =
        holder (dm_execs (sy_daemon y)) (tk_id (sy_tasks y ! a)) a \<or>
      a \<in> set released \<and> holder ?execs (tk_id (sy_tasks y ! a)) a = None"
    if a: "a < length (sy_tasks y)" for a
    using reg_invD(3) [OF inv a]
    by (auto simp: holder_def store.lookup_retain [OF wf] keep_entry_def address_ok_def
        held_unacked_def split: option.splits task_phase.splits if_splits)
  ultimately show ?thesis
    using reg_inv_execs [OF inv] by (simp add: collect_expired_def Let_def)
qed

text \<open>An ack that finds a result always finds its entry registered and unacked.\<close>

lemma ack_finds_entry:
  assumes inv: "reg_inv released y" and ack: "(xid, a) \<in> set (sy_acks y)"
    and res: "sh_result (cell (sy_daemon y) a) = Some oc"
  shows "\<exists>e. map_of (dm_execs (sy_daemon y)) xid = Some e \<and> en_shared e = a \<and>
    en_acked_at e = None \<and> a \<notin> set released \<and> tk_phase (sy_tasks y ! a) = Over oc"
proof -
  from reg_invD(5) [OF inv ack] have a: "a < length (sy_tasks y)" and i: "tk_id (sy_tasks y ! a) = xid"
    by simp_all
  from reg_invD(3) [OF inv a] res i show ?thesis
    by (auto simp: address_ok_def held_unacked_def holder_def split: task_phase.splits if_splits
        option.splits)
qed

lemma ack_locked_found:
  assumes "sh_result (cell s a) = Some oc" and "map_of (dm_execs s) xid = Some e"
    and "en_acked_at e = None"
  shows "ack_locked xid a s =
    (ok_response (PollBody xid Acked (Some oc)),
     (set_cell a ((cell s a)\<lparr>sh_result := None\<rparr>) s)
       \<lparr>dm_execs := AList.update xid (e\<lparr>en_acked_at := Some (dm_now s)\<rparr>) (dm_execs s)\<rparr>)"
  using assms by (simp add: ack_locked_def set_cell_def)

lemma ack_locked_empty:
  "sh_result (cell s a) = None \<Longrightarrow> snd (ack_locked xid a s) = s \<and> rs_status (fst (ack_locked xid a s)) = 409"
  by (simp add: ack_locked_def fail_def)

lemma holder_update:
  assumes "map_of execs xid = Some e" and "en_shared e' = en_shared e" and "b \<noteq> en_shared e"
  shows "holder (AList.update xid e' execs) j b = holder execs j b"
  using assms by (simp add: holder_def update_conv')

lemma entries_ok_update:
  assumes "entries_ok execs ts" and "map_of execs xid = Some e" and "en_shared e' = en_shared e"
  shows "entries_ok (AList.update xid e' execs) ts"
proof -
  have wf: "keys_distinct execs" using assms(1) by (simp add: entries_ok_def)
  have wf': "keys_distinct (AList.update xid e' execs)" by (rule store.wf_insert [OF wf])
  have "en_shared f < length ts \<and> tk_id (ts ! en_shared f) = j"
    if "(j, f) \<in> set (AList.update xid e' execs)" for j f
  proof -
    have "map_of (AList.update xid e' execs) j = Some f"
      using wf' that by (simp add: keys_distinct_def)
    with assms entries_ok_lookup [OF assms(1)] show ?thesis
      by (auto simp: update_conv' split: if_splits)
  qed
  with wf' show ?thesis by (auto simp: entries_ok_def)
qed

lemma ack_keeps:
  assumes inv: "reg_inv released y" and ack: "(xid, a) \<in> set (sy_acks y)"
    and out: "ack_locked xid a (sy_daemon y) = (r, s)"
  shows "reg_inv (released @ (if rs_status r = 200 then [a] else []))
    (y\<lparr>sy_daemon := s, sy_acks := remove1 (xid, a) (sy_acks y)\<rparr>)"
proof (cases "sh_result (cell (sy_daemon y) a)")
  case None
  from ack_locked_empty [OF None, of xid] out have "s = sy_daemon y" "rs_status r = 409" by simp_all
  moreover have "\<forall>(j, b) \<in> set (remove1 (xid, a) (sy_acks y)). b < length (sy_tasks y) \<and>
      tk_id (sy_tasks y ! b) = j"
    using reg_invD(5) [OF inv] by (auto dest: subsetD [OF set_remove1_subset])
  ultimately show ?thesis
    using reg_invD(1,2,3,4,6,7) [OF inv] by (auto simp: reg_inv_def Let_def)
next
  case (Some oc)
  from ack_finds_entry [OF inv ack Some] obtain e where
    e: "map_of (dm_execs (sy_daemon y)) xid = Some e" "en_shared e = a" "en_acked_at e = None"
    and a: "a \<notin> set released" and ph: "tk_phase (sy_tasks y ! a) = Over oc" by blast
  let ?s = "sy_daemon y"
  let ?execs = "AList.update xid (e\<lparr>en_acked_at := Some (dm_now ?s)\<rparr>) (dm_execs ?s)"
  let ?c = "(cell ?s a)\<lparr>sh_result := None\<rparr>"
  from ack_locked_found [OF Some e(1,3)] out
  have s: "s = (set_cell a ?c ?s)\<lparr>dm_execs := ?execs\<rparr>" and r: "rs_status r = 200"
    by (auto simp: ok_response_def)
  from reg_invD(5) [OF inv ack] have al: "a < length (sy_tasks y)" and i: "tk_id (sy_tasks y ! a) = xid"
    by simp_all
  have cells: "cell s b = (if b = a then ?c else cell ?s b)" if "b < length (sy_tasks y)" for b
    using that reg_invD(1) [OF inv] al by (simp add: s cell_def set_cell_def)
  have "address_ok ?execs (released @ [a]) b (sy_tasks y ! b) (cell s b) \<and> log_ok (cell s b)"
    if b: "b < length (sy_tasks y)" for b
  proof (cases "b = a")
    case True
    have "holder ?execs xid a = Some (e\<lparr>en_acked_at := Some (dm_now ?s)\<rparr>)"
      using e by (simp add: holder_def update_conv')
    with True cells [OF b] reg_invD(3,4) [OF inv al] ph i show ?thesis
      by (simp add: address_ok_def)
  next
    case False
    have "holder ?execs j b = holder (dm_execs ?s) j b" for j
      using holder_update [OF e(1), of "e\<lparr>en_acked_at := Some (dm_now ?s)\<rparr>" b j] False e by simp
    then have "address_ok ?execs released b (sy_tasks y ! b) (cell ?s b)
        = address_ok (dm_execs ?s) released b (sy_tasks y ! b) (cell ?s b)"
      by (intro address_ok_holder)
    with False cells [OF b] reg_invD(3,4) [OF inv b] show ?thesis
      by (simp add: address_ok_released)
  qed
  moreover have "entries_ok ?execs (sy_tasks y)"
    by (rule entries_ok_update [OF reg_invD(2) [OF inv] e(1)]) simp
  moreover have "length (dm_heap s) = length (dm_heap ?s)" "dm_execs s = ?execs"
    by (simp_all add: s set_cell_def)
  moreover have "\<forall>(j, b) \<in> set (remove1 (xid, a) (sy_acks y)). b < length (sy_tasks y) \<and>
      tk_id (sy_tasks y ! b) = j"
    using reg_invD(5) [OF inv] by (auto dest: subsetD [OF set_remove1_subset])
  ultimately show ?thesis
    using reg_invD(1,6,7) [OF inv] a al r by (auto simp: reg_inv_def Let_def)
qed

lemma start_spawned:
  assumes "start body err h child epoch s = (r, s')" and "s' \<noteq> s"
  obtains rq cmd pgid where "body = Some rq" "req_exec_id rq \<noteq> []"
    "map_of (dm_execs s) (req_exec_id rq) = None" "child = Inr pgid"
    "s' = s\<lparr>dm_heap := dm_heap s @ [new_shared (dm_config s) cmd],
            dm_execs := AList.update (req_exec_id rq)
              \<lparr>en_pgid = pgid, en_shared = length (dm_heap s), en_acked_at = None,
               en_started_at = epoch, en_reap = req_reap_group_on_exit rq\<rparr> (dm_execs s)\<rparr>"
    "r = ok_response (StartBody (req_exec_id rq) Running)"
  using assms
  by (cases child) (auto simp: start_def spawn_def Let_def split: option.splits if_splits sum.splits)

lemma start_keeps:
  assumes inv: "reg_inv released y" and out: "start body err h child epoch (sy_daemon y) = (r, s)"
  shows "reg_inv released (y\<lparr>sy_daemon := s,
    sy_tasks := sy_tasks y @
      (if length (dm_heap s) = length (dm_heap (sy_daemon y)) then []
       else [\<lparr>tk_id = req_exec_id (the body), tk_phase = Draining\<rparr>])\<rparr>)"
proof (cases "s = sy_daemon y")
  case True
  with inv show ?thesis by simp
next
  case False
  let ?s = "sy_daemon y"
  let ?n = "length (sy_tasks y)"
  from start_spawned [OF out False] obtain rq cmd pgid where
    body: "body = Some rq" and new: "map_of (dm_execs ?s) (req_exec_id rq) = None"
    and s: "s = ?s\<lparr>dm_heap := dm_heap ?s @ [new_shared (dm_config ?s) cmd],
            dm_execs := AList.update (req_exec_id rq)
              \<lparr>en_pgid = pgid, en_shared = length (dm_heap ?s), en_acked_at = None,
               en_started_at = epoch, en_reap = req_reap_group_on_exit rq\<rparr> (dm_execs ?s)\<rparr>"
    by metis
  let ?xid = "req_exec_id rq"
  let ?e = "\<lparr>en_pgid = pgid, en_shared = ?n, en_acked_at = None, en_started_at = epoch,
    en_reap = req_reap_group_on_exit rq\<rparr>"
  let ?execs = "AList.update ?xid ?e (dm_execs ?s)"
  let ?ts = "sy_tasks y @ [\<lparr>tk_id = ?xid, tk_phase = Draining\<rparr>]"
  have n: "?n = length (dm_heap ?s)" by (rule reg_invD(1) [OF inv])
  have ents: "entries_ok ?execs ?ts"
  proof -
    have wf: "keys_distinct (dm_execs ?s)" using reg_invD(2) [OF inv] by (simp add: entries_ok_def)
    have wf': "keys_distinct ?execs" by (rule store.wf_insert [OF wf])
    have "en_shared f < Suc ?n \<and> tk_id (?ts ! en_shared f) = j" if "(j, f) \<in> set ?execs" for j f
    proof -
      have "map_of ?execs j = Some f" using wf' that by (simp add: keys_distinct_def)
      with entries_ok_lookup [OF reg_invD(2) [OF inv], of j f] show ?thesis
        by (auto simp: update_conv' nth_append split: if_splits)
    qed
    with wf' show ?thesis by (auto simp: entries_ok_def)
  qed
  have "address_ok ?execs released b (?ts ! b) (cell s b) \<and> log_ok (cell s b)" if b: "b < Suc ?n" for b
  proof (cases "b = ?n")
    case True
    have "holder ?execs ?xid ?n = Some ?e" by (simp add: holder_def update_conv')
    moreover have "?n \<notin> set released" using reg_invD(7) [OF inv, of ?n] by auto
    moreover have "log_ok (new_shared (dm_config ?s) cmd)"
      by (simp add: log_ok_def new_shared_def exI [of _ "[]"])
    ultimately show ?thesis
      using True n by (simp add: address_ok_def s cell_def nth_append new_shared_def held_unacked_def)
  next
    case False
    with b have lt: "b < ?n" by simp
    have "holder ?execs j b = holder (dm_execs ?s) j b" for j
      using new lt n by (auto simp: holder_def update_conv')
    then have "address_ok ?execs released b (sy_tasks y ! b) (cell ?s b)
        = address_ok (dm_execs ?s) released b (sy_tasks y ! b) (cell ?s b)"
      by (intro address_ok_holder)
    with reg_invD(3,4) [OF inv lt] lt n show ?thesis by (simp add: s cell_def nth_append)
  qed
  moreover have "\<forall>(j, b) \<in> set (sy_acks y). b < Suc ?n \<and> tk_id (?ts ! b) = j"
    using reg_invD(5) [OF inv] by (auto simp: nth_append)
  moreover have "\<forall>a \<in> set released. a < Suc ?n" using reg_invD(7) [OF inv] less_SucI by blast
  moreover have "dm_execs s = ?execs" "length (dm_heap s) = Suc ?n" by (simp_all add: s n)
  ultimately show ?thesis
    using ents reg_invD(6) [OF inv] n body by (simp add: reg_inv_def Let_def)
qed

lemma write_stdin_state:
  assumes "write_stdin decode xid body wrote s = (r, s')"
  shows "s' = s \<or> (\<exists>e. map_of (dm_execs s) xid = Some e \<and> s' = drop_stdin (en_shared e) s)"
  using assms
  by (auto simp: write_stdin_def Let_def lookup_exec_Inr split: option.splits sum.splits if_splits
      stdin_write.splits)

lemma stdin_keeps:
  assumes inv: "reg_inv released y" and out: "write_stdin decode xid body wrote (sy_daemon y) = (r, s)"
  shows "reg_inv released (with_daemon s y)"
proof -
  from write_stdin_state [OF out] consider "s = sy_daemon y"
    | e where "map_of (dm_execs (sy_daemon y)) xid = Some e" "s = drop_stdin (en_shared e) (sy_daemon y)"
    by blast
  then show ?thesis
  proof cases
    case 1
    with inv show ?thesis by (simp add: with_daemon_def)
  next
    case 2
    from entries_ok_lookup [OF reg_invD(2) [OF inv] 2(1)] drop_stdin_keeps [OF inv] 2(2)
    show ?thesis by simp
  qed
qed

lemma ack_lookup_keeps:
  assumes inv: "reg_inv released y" and "lookup_exec xid (sy_daemon y) = Inr e"
  shows "reg_inv released (y\<lparr>sy_acks := (xid, en_shared e) # sy_acks y\<rparr>)"
  using assms(2) inv entries_ok_lookup [OF reg_invD(2) [OF inv], of xid e]
  by (auto simp: lookup_exec_Inr reg_inv_def Let_def)

lemma other_fields_keep:
  assumes "reg_inv released y" and "dm_heap s = dm_heap (sy_daemon y)"
    and "dm_execs s = dm_execs (sy_daemon y)"
  shows "reg_inv released (with_daemon s y)"
  using reg_invD [OF assms(1)] assms(2,3)
  by (auto simp: reg_inv_def Let_def with_daemon_def cell_def)

lemma bootstrap_keeps_registry:
  "dm_heap (snd (bootstrap_with_identity t e i s)) = dm_heap s \<and>
   dm_execs (snd (bootstrap_with_identity t e i s)) = dm_execs s"
  by (simp add: bootstrap_with_identity_def split: option.split)

lemma do_act_keeps:
  assumes inv: "reg_inv released y" and act: "do_act act y = Some (r, y')"
  shows "reg_inv (released @ releases [(act, r)]) y'"
proof (cases act)
  case (DoStart body err h child epoch)
  obtain r' s where "start body err h child epoch (sy_daemon y) = (r', s)"
    by (cases "start body err h child epoch (sy_daemon y)")
  with start_keeps [OF inv this] act DoStart show ?thesis by (auto simp: releases_single)
next
  case (DoPublish a k bs)
  with act publish_keeps [OF inv, of a Draining k bs] show ?thesis
    by (auto simp: releases_single split: if_splits)
next
  case (DoTerminal a oc)
  with act terminal_keeps [OF inv, of a oc] show ?thesis
    by (auto simp: releases_single split: if_splits)
next
  case (DoResult a)
  with act result_keeps [OF inv, of a] show ?thesis
    by (auto simp: releases_single split: option.splits task_phase.splits)
next
  case (DoDropStdin a)
  with act drop_stdin_keeps [OF inv, of a] show ?thesis
    by (auto simp: releases_single task_at_Some split: option.splits task_phase.splits)
next
  case (DoAckLookup xid)
  with act inv ack_lookup_keeps [OF inv, of xid] show ?thesis
    by (auto simp: releases_single split: sum.splits)
next
  case (DoAckLocked xid a)
  obtain r' s where "ack_locked xid a (sy_daemon y) = (r', s)"
    by (cases "ack_locked xid a (sy_daemon y)")
  with act DoAckLocked ack_keeps [OF inv _ this] show ?thesis
    by (auto simp: releases_single split: if_splits)
next
  case (DoStdin xid body decoded wrote)
  obtain r' s where "write_stdin (\<lambda>_. decoded) xid body wrote (sy_daemon y) = (r', s)"
    by (cases "write_stdin (\<lambda>_. decoded) xid body wrote (sy_daemon y)")
  with act DoStdin stdin_keeps [OF inv this] show ?thesis by (auto simp: releases_single)
next
  case DoCollect
  with act collect_keeps [OF inv] show ?thesis by (auto simp: releases_single)
next
  case (DoTick d)
  with act other_fields_keep [OF inv] show ?thesis by (auto simp: releases_single)
next
  case (DoBootstrap t e i)
  with act other_fields_keep [OF inv] bootstrap_keeps_registry [of t e i "sy_daemon y"]
  show ?thesis by (auto simp: releases_single)
qed

lemma runs_inv: "runs y tr y' \<Longrightarrow> reg_inv released y \<Longrightarrow> reg_inv (released @ releases tr) y'"
proof (induction rule: runs.induct)
  case (runs_Nil y)
  then show ?case by simp
next
  case (runs_snoc y tr y1 act r y2)
  from do_act_keeps [OF runs_snoc.IH [OF runs_snoc.prems] runs_snoc.hyps(2)] show ?case by simp
qed

lemma run_inv: "runs (init_system cfg img) tr y \<Longrightarrow> reg_inv (releases tr) y"
  using runs_inv [OF _ reg_inv_init] by simp

section \<open>A run to evaluate\<close>

fun run_acts :: "'m act list \<Rightarrow> 'm system \<Rightarrow> (('m act \<times> response option) list \<times> 'm system) option" where
  "run_acts [] y = Some ([], y)"
| "run_acts (act # acts) y =
     (case do_act act y of
        None \<Rightarrow> None
      | Some (r, y') \<Rightarrow> map_option (\<lambda>(tr, z). ((act, r) # tr, z)) (run_acts acts y'))"

lemma runs_Cons: "runs y1 tr y2 \<Longrightarrow> do_act act y = Some (r, y1) \<Longrightarrow> runs y ((act, r) # tr) y2"
proof (induction rule: runs.induct)
  case (runs_Nil y1)
  with runs.runs_Nil [of y] show ?case using runs_snoc [of y "[]" y act r y1] by simp
next
  case (runs_snoc y1 tr y2 act' r' y3)
  from runs.runs_snoc [OF runs_snoc.IH [OF runs_snoc.prems] runs_snoc.hyps(2)] show ?case by simp
qed

lemma runs_trans: "runs y1 tr' y2 \<Longrightarrow> runs y0 tr y1 \<Longrightarrow> runs y0 (tr @ tr') y2"
proof (induction rule: runs.induct)
  case (runs_Nil y1)
  then show ?case by simp
next
  case (runs_snoc y1 tr' y2 act r y3)
  from runs.runs_snoc [OF runs_snoc.IH [OF runs_snoc.prems] runs_snoc.hyps(2)] show ?case by simp
qed

lemma run_acts_runs: "run_acts acts y = Some (tr, y') \<Longrightarrow> runs y tr y'"
proof (induction acts arbitrary: y tr)
  case Nil
  then show ?case by (auto intro: runs_Nil)
next
  case (Cons act acts)
  then show ?case by (auto split: option.splits intro: runs_Cons)
qed

text \<open>One id started, run to its end, acked, collected, and started again.\<close>

definition demo_config :: config where
  "demo_config = default_config\<lparr>cf_exec_ttl := 1\<rparr>"

definition demo_host :: host where
  "demo_host = \<lparr>ht_read = (\<lambda>_. []), ht_is_executable = (\<lambda>_. False)\<rparr>"

definition demo_outcome :: outcome where
  "demo_outcome = \<lparr>oc_exit_code = Some 0, oc_signal = None, oc_timed_out = False,
     oc_stdout = [104], oc_stderr = [], oc_truncated = False, oc_writers_may_be_alive = False\<rparr>"

definition demo_start :: "unit act" where
  "demo_start = DoStart (Some (new_start_request ''a'' [''id''])) None demo_host (Inr (Some 7)) 0"

definition demo_init :: "unit system" where
  "demo_init = init_system demo_config None"

lemma demo_build:
  "dm_config s = demo_config \<Longrightarrow> \<exists>cmd. build_command (new_start_request ''a'' [''id'']) demo_host s = Inr cmd"
  by (simp add: build_command_def request_guest_def make_plan_def Let_def resolve_request_user_def
      guest_of_def choose_gid_def choose_program_def new_start_request_def demo_config_def
      default_config_def)

lemma demo_start_act:
  assumes "dm_config (sy_daemon y) = demo_config" and "dm_execs (sy_daemon y) = []"
  shows "\<exists>c. do_act demo_start y =
    Some (Some (ok_response (StartBody ''a'' Running)),
      y\<lparr>sy_daemon := (sy_daemon y)\<lparr>dm_heap := dm_heap (sy_daemon y) @ [new_shared demo_config c],
          dm_execs := [(''a'', \<lparr>en_pgid = Some 7, en_shared = length (dm_heap (sy_daemon y)),
            en_acked_at = None, en_started_at = 0, en_reap = False\<rparr>)]\<rparr>,
        sy_tasks := sy_tasks y @ [\<lparr>tk_id = ''a'', tk_phase = Draining\<rparr>]\<rparr>)"
proof -
  obtain c where c: "build_command (new_start_request ''a'' [''id'']) demo_host (sy_daemon y) = Inr c"
    using demo_build [OF assms(1)] by blast
  have rq: "req_exec_id (new_start_request ''a'' [''id'']) = ''a''"
    "\<not> req_poweroff_on_exit (new_start_request ''a'' [''id''])"
    "req_timeout_sec (new_start_request ''a'' [''id'']) = None"
    "\<not> req_reap_group_on_exit (new_start_request ''a'' [''id''])"
    by (simp_all add: new_start_request_def)
  show ?thesis
    using assms c by (simp add: demo_start_def start_def rq validate_timeout_def spawn_def Let_def)
      blast
qed

lemma demo_sel [simp]:
  "dm_config (sy_daemon demo_init) = demo_config" "dm_execs (sy_daemon demo_init) = []"
  "dm_heap (sy_daemon demo_init) = []" "sy_tasks demo_init = []" "sy_acks demo_init = []"
  "dm_now (sy_daemon demo_init) = 0" "cf_exec_ttl demo_config = 1"
  by (simp_all add: demo_init_def init_system_def new_daemon_def demo_config_def)

lemmas demo_step = set_phase_def with_daemon_def task_at_def write_terminal_def write_result_def
  publish_to_def set_cell_def cell_def lookup_exec_def ack_locked_def new_shared_def fail_def
  is_acked_def ok_response_def collect_expired_def retain_def keep_entry_def releases_single

text \<open>After its exit, before its ack; with two acks in flight; and after the second start.\<close>

lemma demo_exited:
  "\<exists>tr y. runs demo_init tr y \<and> task_at y 0 = Some (Over demo_outcome) \<and> releases tr = [] \<and>
     tk_id (sy_tasks y ! 0) = ''a'' \<and> sy_acks y = [] \<and>
     dm_config (sy_daemon y) = demo_config \<and> dm_now (sy_daemon y) = 0 \<and> length (sy_tasks y) = 1 \<and>
     length (dm_heap (sy_daemon y)) = 1 \<and> sh_result (cell (sy_daemon y) 0) = Some demo_outcome \<and>
     dm_execs (sy_daemon y) = [(''a'', \<lparr>en_pgid = Some 7, en_shared = 0,
            en_acked_at = None, en_started_at = 0, en_reap = False\<rparr>)]"
proof -
  obtain c where "do_act demo_start demo_init =
    Some (Some (ok_response (StartBody ''a'' Running)),
      demo_init\<lparr>sy_daemon := (sy_daemon demo_init)\<lparr>dm_heap := [new_shared demo_config c],
          dm_execs := [(''a'', \<lparr>en_pgid = Some 7, en_shared = 0,
            en_acked_at = None, en_started_at = 0, en_reap = False\<rparr>)]\<rparr>,
        sy_tasks := [\<lparr>tk_id = ''a'', tk_phase = Draining\<rparr>]\<rparr>)"
    using demo_start_act [of demo_init] by auto
  then obtain tr y where r: "run_acts [demo_start, DoPublish 0 Stdout [104], DoTerminal 0 demo_outcome,
      DoResult 0] demo_init = Some (tr, y)"
    and y: "task_at y 0 = Some (Over demo_outcome)" "releases tr = []" "tk_id (sy_tasks y ! 0) = ''a''"
     "sy_acks y = []" "dm_config (sy_daemon y) = demo_config" "dm_now (sy_daemon y) = 0"
     "length (sy_tasks y) = 1" "length (dm_heap (sy_daemon y)) = 1"
     "sh_result (cell (sy_daemon y) 0) = Some demo_outcome"
     "dm_execs (sy_daemon y) = [(''a'', \<lparr>en_pgid = Some 7, en_shared = 0,
            en_acked_at = None, en_started_at = 0, en_reap = False\<rparr>)]"
    by (simp add: demo_step releases_def demo_start_def Let_def)
  from run_acts_runs [OF r] y show ?thesis by blast
qed

lemma demo_restarted:
  "\<exists>tr y. runs demo_init tr y \<and> length (sy_tasks y) = 2 \<and>
     tk_id (sy_tasks y ! 0) = ''a'' \<and> tk_id (sy_tasks y ! 1) = ''a'' \<and> sy_acks y = [(''a'', 0)] \<and>
     releases tr = [0] \<and> task_at y 0 = Some (Over demo_outcome) \<and> task_at y 1 = Some Draining"
proof -
  obtain tr y where y: "runs demo_init tr y" "task_at y 0 = Some (Over demo_outcome)" "releases tr = []"
     "tk_id (sy_tasks y ! 0) = ''a''" "sy_acks y = []" "dm_config (sy_daemon y) = demo_config"
     "dm_now (sy_daemon y) = 0" "length (sy_tasks y) = 1"
     "length (dm_heap (sy_daemon y)) = 1" "sh_result (cell (sy_daemon y) 0) = Some demo_outcome"
     "dm_execs (sy_daemon y) = [(''a'', \<lparr>en_pgid = Some 7, en_shared = 0,
            en_acked_at = None, en_started_at = 0, en_reap = False\<rparr>)]"
    using demo_exited by blast
  let ?acts = "[DoAckLookup ''a'', DoAckLookup ''a'', DoAckLocked ''a'' 0, DoTick 1, DoCollect]"
  from y(2-) obtain tr' y' where r: "run_acts ?acts y = Some (tr', y')"
    and y': "releases tr' = [0]" "sy_tasks y' = sy_tasks y" "sy_acks y' = [(''a'', 0)]"
      "dm_config (sy_daemon y') = demo_config" "dm_execs (sy_daemon y') = []"
    by (simp add: demo_step releases_def)
  obtain c y2 where d: "do_act demo_start y' = Some (Some (ok_response (StartBody ''a'' Running)), y2)"
    and y2: "sy_tasks y2 = sy_tasks y' @ [\<lparr>tk_id = ''a'', tk_phase = Draining\<rparr>]" "sy_acks y2 = sy_acks y'"
    using demo_start_act [OF y'(4,5)] by auto
  have "runs demo_init ((tr @ tr') @ [(demo_start, Some (ok_response (StartBody ''a'' Running)))]) y2"
    by (rule runs_snoc [OF runs_trans [OF run_acts_runs [OF r] y(1)] d])
  moreover have "releases ((tr @ tr') @ [(demo_start, Some (ok_response (StartBody ''a'' Running)))]) = [0]"
    using y(3) y'(1) by (simp add: releases_def demo_start_def)
  ultimately show ?thesis
    using y y' y2 by (intro exI conjI) (assumption | simp add: task_at_def nth_append)+
qed

section \<open>Properties\<close>

text \<open>
  C7: Output is released exactly once. However starts, output, exits, acks (duplicate and
  concurrent ones included) and collections interleave, the output of a child is handed to at
  most one ack, what that ack returns is the outcome its waiter recorded, and every other ack of
  it that found an entry is answered 409.
\<close>
theorem output_released_once:
  assumes "runs (init_system cfg img) tr y"
  shows "distinct (releases tr) \<and>
    (\<forall>xid a. (xid, a) \<in> set (sy_acks y) \<longrightarrow>
      fst (ack_locked xid a (sy_daemon y)) =
        (case task_at y a of
           Some (Over oc) \<Rightarrow>
             if a \<in> set (releases tr)
             then (if is_acked xid (sy_daemon y) then fail 409 AlreadyAcked ReleasedByEarlierAck
                   else fail 409 StillRunning OutputStillWritten)
             else ok_response (PollBody xid Acked (Some oc))
         | _ \<Rightarrow> fail 409 StillRunning OutputStillWritten))"
proof (intro conjI allI impI)
  note inv = run_inv [OF assms]
  show "distinct (releases tr)" by (rule reg_invD(6) [OF inv])
  fix xid a
  assume ack: "(xid, a) \<in> set (sy_acks y)"
  let ?s = "sy_daemon y"
  from reg_invD(5) [OF inv ack] have a: "a < length (sy_tasks y)" and i: "tk_id (sy_tasks y ! a) = xid"
    by simp_all
  note ok = reg_invD(3) [OF inv a]
  show "fst (ack_locked xid a ?s) =
        (case task_at y a of
           Some (Over oc) \<Rightarrow>
             if a \<in> set (releases tr)
             then (if is_acked xid ?s then fail 409 AlreadyAcked ReleasedByEarlierAck
                   else fail 409 StillRunning OutputStillWritten)
             else ok_response (PollBody xid Acked (Some oc))
         | _ \<Rightarrow> fail 409 StillRunning OutputStillWritten)"
  proof (cases "sh_result (cell ?s a)")
    case (Some oc)
    from ack_finds_entry [OF inv ack Some] obtain e where
      e: "map_of (dm_execs ?s) xid = Some e" "en_acked_at e = None"
      and "a \<notin> set (releases tr)" "tk_phase (sy_tasks y ! a) = Over oc" by blast
    with ack_locked_found [OF Some e] a show ?thesis by (simp add: task_at_def)
  next
    case None
    with ok i a show ?thesis
      by (auto simp: ack_locked_def task_at_def address_ok_def held_unacked_def holder_def
          is_acked_def split: task_phase.splits option.splits if_splits)
  qed
qed

theorem output_released_once_witness:
  "\<exists>tr y. runs (init_system demo_config None :: unit system) tr y \<and> releases tr = [0] \<and>
    distinct (releases tr) \<and> sy_acks y = [(''a'', 0)] \<and>
    rs_status (fst (ack_locked ''a'' 0 (sy_daemon y))) = 409"
proof -
  obtain tr y where y: "runs demo_init tr y" "releases tr = [0]" "sy_acks y = [(''a'', 0)]"
    "task_at y 0 = Some (Over demo_outcome)"
    using demo_restarted by blast
  from output_released_once [OF y(1) [unfolded demo_init_def]] y show ?thesis
    by (intro exI [of _ tr] exI [of _ y]) (auto simp: demo_init_def fail_def)
qed

text \<open>
  Finished output waits for its ack. In every run, a child whose waiter recorded an outcome
  and whose output no ack has released is still registered, and a poll of its id answers exited
  with exactly that outcome: no collection, retried start, stdin write, later exec or lapse of
  time loses it.
\<close>
theorem finished_output_waits_for_ack:
  assumes "runs (init_system cfg img) tr y" and "task_at y a = Some (Over oc)"
    and "a \<notin> set (releases tr)"
  shows "poll (tk_id (sy_tasks y ! a)) (sy_daemon y)
    = ok_response (PollBody (tk_id (sy_tasks y ! a)) Exited (Some oc))"
proof -
  from assms(2) have a: "a < length (sy_tasks y)" and p: "tk_phase (sy_tasks y ! a) = Over oc"
    by (simp_all add: task_at_Some)
  from reg_invD(3) [OF run_inv [OF assms(1)] a] p assms(3) show ?thesis
    by (auto simp: address_ok_def held_unacked_def holder_def poll_def lookup_exec_def poll_read_def
        phase_of_def Let_def split: option.splits if_splits)
qed

theorem finished_output_waits_for_ack_witness:
  "\<exists>tr y. runs (init_system demo_config None :: unit system) tr y \<and>
    poll ''a'' (sy_daemon y) = ok_response (PollBody ''a'' Exited (Some demo_outcome))"
proof -
  obtain tr y where y: "runs demo_init tr y" "task_at y 0 = Some (Over demo_outcome)"
    "releases tr = []" "tk_id (sy_tasks y ! 0) = ''a''"
    using demo_exited by blast
  from finished_output_waits_for_ack [OF y(1) [unfolded demo_init_def] y(2)] y show ?thesis
    by (auto simp: demo_init_def)
qed

text \<open>
  An id never has two live execs. However often a start is retried, two children spawned
  under one id are never both registered, and at least one of them has had its output released
  to an ack.
\<close>
theorem one_live_exec_per_id:
  assumes "runs (init_system cfg img) tr y"
    and "a < length (sy_tasks y)" and "b < length (sy_tasks y)" and "a \<noteq> b"
    and "tk_id (sy_tasks y ! a) = tk_id (sy_tasks y ! b)"
  shows "(a \<in> set (releases tr) \<or> b \<in> set (releases tr)) \<and>
    (holder (dm_execs (sy_daemon y)) (tk_id (sy_tasks y ! a)) a = None \<or>
     holder (dm_execs (sy_daemon y)) (tk_id (sy_tasks y ! b)) b = None)"
proof -
  note inv = run_inv [OF assms(1)]
  have ex: "holder (dm_execs (sy_daemon y)) (tk_id (sy_tasks y ! a)) a = None \<or>
     holder (dm_execs (sy_daemon y)) (tk_id (sy_tasks y ! b)) b = None"
    using assms(4,5) by (auto simp: holder_def split: option.splits)
  have "c \<in> set (releases tr)"
    if "c < length (sy_tasks y)" "holder (dm_execs (sy_daemon y)) (tk_id (sy_tasks y ! c)) c = None" for c
    using reg_invD(3) [OF inv that(1)] that(2)
    by (auto simp: address_ok_def held_unacked_def split: task_phase.splits if_splits)
  with ex assms(2,3) show ?thesis by blast
qed

theorem one_live_exec_per_id_witness:
  "\<exists>tr y. runs (init_system demo_config None :: unit system) tr y \<and> length (sy_tasks y) = 2 \<and>
    (0 \<in> set (releases tr) \<or> 1 \<in> set (releases tr))"
proof -
  obtain tr y where y: "runs demo_init tr y" "length (sy_tasks y) = 2"
    "tk_id (sy_tasks y ! 0) = ''a''" "tk_id (sy_tasks y ! 1) = ''a''"
    using demo_restarted by blast
  from one_live_exec_per_id [OF y(1) [unfolded demo_init_def], of 0 1] y show ?thesis
    by (auto simp: demo_init_def)
qed

text \<open>
  The activity signal is exact. With no lock contended, busy is true exactly when a
  registered exec's child is still being waited for: an exited exec awaiting its ack and an
  acked exec are not busy, so a daemon whose commands are all over is never kept alive by them.
\<close>
theorem busy_iff_draining:
  assumes "runs (init_system cfg img) tr y"
  shows "activity (\<lambda>_. False) (sy_daemon y) =
    ((\<exists>a. task_at y a = Some Draining), length (dm_execs (sy_daemon y)))"
proof -
  note inv = run_inv [OF assms]
  let ?s = "sy_daemon y"
  have none: "sh_terminal (cell ?s a) = None \<longleftrightarrow> tk_phase (sy_tasks y ! a) = Draining"
    if "a < length (sy_tasks y)" for a
    using reg_invD(3) [OF inv that] by (auto simp: address_ok_def split: task_phase.splits)
  have "(\<exists>(xid, e) \<in> set (dm_execs ?s). sh_terminal (cell ?s (en_shared e)) = None)
      \<longleftrightarrow> (\<exists>a. task_at y a = Some Draining)"
  proof
    assume "\<exists>(xid, e) \<in> set (dm_execs ?s). sh_terminal (cell ?s (en_shared e)) = None"
    then obtain xid e where e: "(xid, e) \<in> set (dm_execs ?s)"
      "sh_terminal (cell ?s (en_shared e)) = None" by blast
    from e(1) reg_invD(2) [OF inv] have "en_shared e < length (sy_tasks y)"
      by (auto simp: entries_ok_def)
    with none e(2) show "\<exists>a. task_at y a = Some Draining" by (auto simp: task_at_Some)
  next
    assume "\<exists>a. task_at y a = Some Draining"
    then obtain a where a: "a < length (sy_tasks y)" "tk_phase (sy_tasks y ! a) = Draining"
      by (auto simp: task_at_Some)
    with reg_invD(3) [OF inv a(1)] obtain e where
      "map_of (dm_execs ?s) (tk_id (sy_tasks y ! a)) = Some e" "en_shared e = a"
      by (auto simp: address_ok_def held_unacked_def holder_def split: option.splits if_splits)
    with none [OF a(1)] a(2) show
      "\<exists>(xid, e) \<in> set (dm_execs ?s). sh_terminal (cell ?s (en_shared e)) = None"
      by (auto dest: map_of_SomeD)
  qed
  then show ?thesis
    by (auto simp: activity_def Let_def list_ex_iff split: prod.splits)
qed

theorem busy_iff_draining_witness:
  "\<exists>tr y. runs (init_system demo_config None :: unit system) tr y \<and>
    task_at y 1 = Some Draining \<and> fst (activity (\<lambda>_. False) (sy_daemon y))"
proof -
  obtain tr y where y: "runs demo_init tr y" "task_at y 1 = Some Draining"
    using demo_restarted by blast
  from busy_iff_draining [OF y(1) [unfolded demo_init_def]] y show ?thesis
    by (intro exI [of _ tr] exI [of _ y]) (auto simp: demo_init_def)
qed

end
