(* ===== verification/ModelAgentd.thy ===== *)
theory ModelAgentd
  imports Prelude
begin

text \<open>
  The repository's own specification of bootstrap and the exec lifecycle
  (\<open>crates/model/src/lib.rs\<close>): the state machine \<open>Agentd\<close> whose reachable states
  Stateright enumerates for small bounds. Here its transition function is a HOL function and its
  properties are proved for every configuration, by induction over reachability. The \<open>u8\<close>
  counters are naturals; \<open>counters_bounded\<close> shows the guards keep them within the
  configured \<open>u8\<close> limits, so none of them wraps.
\<close>

section \<open>The machine\<close>

datatype principal = Platform | Client | AttackerProcess

datatype model_token = HarnessToken | AttackerToken

datatype boot = Uninitialized | Ready model_token principal

datatype exec_phase = PhaseRunning | PhaseExited | PhaseAcked

record model_exec =
  me_id :: nat
  me_phase :: exec_phase
  me_output_held :: bool
  me_spawns :: nat
  me_starts :: nat

datatype model_response = RespOk | RespConflict | RespUnauthorized | RespUnavailable

datatype control_op = ExecStart nat | ExecPoll nat | ExecAck nat | CollectAcked

datatype action =
    RunHook principal model_token
  | Control principal model_token control_op
  | ChildExit nat

record model_state =
  ms_boot :: boot
  ms_execs :: "model_exec list"
  ms_last :: "(action \<times> model_response) option"
  ms_token_replacements :: nat
  ms_attacker_authorized :: bool
  ms_released_without_ack :: bool
  ms_hooks_seen :: nat

record model_config =
  mc_exec_ids :: nat
  mc_max_hooks :: nat
  mc_max_starts_per_exec :: nat
  mc_attacker_before_bootstrap :: bool

definition default_model_config :: model_config where
  "default_model_config = \<lparr>mc_exec_ids = 2, mc_max_hooks = 3, mc_max_starts_per_exec = 2,
     mc_attacker_before_bootstrap = False\<rparr>"

definition deployment_invariant_broken :: model_config where
  "deployment_invariant_broken = default_model_config\<lparr>mc_attacker_before_bootstrap := True\<rparr>"

definition exec_of :: "nat \<Rightarrow> model_state \<Rightarrow> model_exec option" where
  "exec_of i s = find (\<lambda>e. me_id e = i) (ms_execs s)"

text \<open>\<open>exec_mut\<close>: the first exec with the id, replaced by a function of it.\<close>

fun exec_mut :: "nat \<Rightarrow> (model_exec \<Rightarrow> model_exec) \<Rightarrow> model_exec list \<Rightarrow> model_exec list" where
  "exec_mut i f [] = []"
| "exec_mut i f (e # es) = (if me_id e = i then f e # es else e # exec_mut i f es)"

definition installed_token :: "model_state \<Rightarrow> model_token option" where
  "installed_token s = (case ms_boot s of Uninitialized \<Rightarrow> None | Ready t _ \<Rightarrow> Some t)"

definition attacker_active :: "model_config \<Rightarrow> model_state \<Rightarrow> bool" where
  "attacker_active cfg s \<longleftrightarrow> mc_attacker_before_bootstrap cfg \<or> ms_boot s \<noteq> Uninitialized"

definition init_model_state :: model_state where
  "init_model_state = \<lparr>ms_boot = Uninitialized, ms_execs = [], ms_last = None,
     ms_token_replacements = 0, ms_attacker_authorized = False, ms_released_without_ack = False,
     ms_hooks_seen = 0\<rparr>"

definition caller_actions ::
  "model_config \<Rightarrow> model_state \<Rightarrow> principal \<times> model_token \<Rightarrow> action list" where
  "caller_actions cfg s caller =
     (case caller of (p, token) \<Rightarrow>
        concat (map (\<lambda>i.
          (let starts = (case exec_of i s of None \<Rightarrow> 0 | Some e \<Rightarrow> me_starts e)
           in (if starts < mc_max_starts_per_exec cfg then [Control p token (ExecStart i)] else []) @
              (if exec_of i s \<noteq> None
               then [Control p token (ExecPoll i), Control p token (ExecAck i)] else [])))
          [0..<mc_exec_ids cfg]) @ [Control p token CollectAcked])"

definition model_actions :: "model_config \<Rightarrow> model_state \<Rightarrow> action list" where
  "model_actions cfg s =
     (if ms_hooks_seen s < mc_max_hooks cfg
      then RunHook Platform HarnessToken #
           (if attacker_active cfg s then [RunHook AttackerProcess AttackerToken] else [])
      else []) @
     concat (map (caller_actions cfg s)
       ((Client, HarnessToken) #
        (if attacker_active cfg s then [(AttackerProcess, AttackerToken)] else []))) @
     [ChildExit (me_id e). e \<leftarrow> ms_execs s, me_phase e = PhaseRunning]"

definition collectable :: "model_exec \<Rightarrow> bool" where
  "collectable e \<longleftrightarrow> me_phase e = PhaseAcked"

fun apply_op :: "control_op \<Rightarrow> model_state \<Rightarrow> model_response \<times> model_state" where
  "apply_op (ExecStart i) s =
     (RespOk,
      (case exec_of i s of
         Some _ \<Rightarrow>
           s\<lparr>ms_execs := exec_mut i (\<lambda>e. e\<lparr>me_starts := me_starts e + 1\<rparr>) (ms_execs s)\<rparr>
       | None \<Rightarrow>
           s\<lparr>ms_execs := ms_execs s @
               [\<lparr>me_id = i, me_phase = PhaseRunning, me_output_held = True, me_spawns = 1,
                 me_starts = 1\<rparr>]\<rparr>))"
| "apply_op (ExecPoll i) s = (RespOk, s)"
| "apply_op (ExecAck i) s =
     (case exec_of i s of
        Some e \<Rightarrow>
          if me_phase e = PhaseExited
          then (RespOk, s\<lparr>ms_execs :=
                  exec_mut i (\<lambda>e. e\<lparr>me_phase := PhaseAcked, me_output_held := False\<rparr>) (ms_execs s)\<rparr>)
          else (RespConflict, s)
      | None \<Rightarrow> (RespConflict, s))"
| "apply_op CollectAcked s =
     (RespOk,
      s\<lparr>ms_released_without_ack := ms_released_without_ack s \<or>
          list_ex (\<lambda>e. collectable e \<and> me_output_held e) (ms_execs s),
        ms_execs := filter (\<lambda>e. \<not> collectable e) (ms_execs s)\<rparr>)"

text \<open>The effect and response of an action, before the bookkeeping at the end.\<close>

fun apply_action :: "action \<Rightarrow> model_state \<Rightarrow> (model_response \<times> model_state) option" where
  "apply_action (RunHook p token) s =
     (let n = s\<lparr>ms_hooks_seen := ms_hooks_seen s + 1\<rparr>
      in case ms_boot s of
           Uninitialized \<Rightarrow> Some (RespOk, n\<lparr>ms_boot := Ready token p\<rparr>)
         | Ready installed _ \<Rightarrow>
             if installed = token then Some (RespOk, n) else Some (RespConflict, n))"
| "apply_action (Control p token op) s =
     (case installed_token s of
        None \<Rightarrow> Some (RespUnavailable, s)
      | Some installed \<Rightarrow>
          if installed \<noteq> token then Some (RespUnauthorized, s)
          else Some (apply_op op
                 (if p = AttackerProcess then s\<lparr>ms_attacker_authorized := True\<rparr> else s)))"
| "apply_action (ChildExit i) s =
     (case exec_of i s of
        Some e \<Rightarrow>
          if me_phase e = PhaseRunning
          then Some (RespOk, s\<lparr>ms_execs := exec_mut i (\<lambda>e. e\<lparr>me_phase := PhaseExited\<rparr>) (ms_execs s)\<rparr>)
          else None
      | None \<Rightarrow> None)"

definition next_state :: "model_state \<Rightarrow> action \<Rightarrow> model_state option" where
  "next_state s act =
     (case apply_action act s of
        None \<Rightarrow> None
      | Some (response, n) \<Rightarrow>
          (let n1 = (case (ms_boot s, ms_boot n) of
                       (Ready before _, Ready after _) \<Rightarrow>
                         if before \<noteq> after
                         then n\<lparr>ms_token_replacements := ms_token_replacements n + 1\<rparr> else n
                     | _ \<Rightarrow> n);
               n2 = n1\<lparr>ms_last := Some (act, response)\<rparr>
           in if n2 = s then None else Some n2))"

inductive model_reachable :: "model_config \<Rightarrow> model_state \<Rightarrow> bool" for cfg where
  reach_init: "model_reachable cfg init_model_state"
| reach_step: "model_reachable cfg s \<Longrightarrow> act \<in> set (model_actions cfg s) \<Longrightarrow>
    next_state s act = Some s' \<Longrightarrow> model_reachable cfg s'"

section \<open>The properties the specification lists\<close>

definition attacker_never_authorized :: "model_state \<Rightarrow> bool" where
  "attacker_never_authorized s \<longleftrightarrow> \<not> ms_attacker_authorized s"

definition bootstrap_one_shot :: "model_state \<Rightarrow> bool" where
  "bootstrap_one_shot s \<longleftrightarrow> ms_token_replacements s = 0"

definition only_installed_token_accepted :: "model_state \<Rightarrow> bool" where
  "only_installed_token_accepted s \<longleftrightarrow>
     (case ms_last s of
        Some (RunHook p token, RespOk) \<Rightarrow> installed_token s = Some token
      | _ \<Rightarrow> True)"

definition first_bootstrap_installs :: "model_state \<Rightarrow> bool" where
  "first_bootstrap_installs s \<longleftrightarrow>
     (case ms_last s of
        Some (RunHook p token, response) \<Rightarrow>
          if ms_hooks_seen s = 1 then response = RespOk \<and> installed_token s = Some token else True
      | _ \<Rightarrow> True)"

definition installed_bootstrap_accepted :: "model_state \<Rightarrow> bool" where
  "installed_bootstrap_accepted s \<longleftrightarrow>
     (case ms_last s of
        Some (RunHook p token, response) \<Rightarrow>
          if installed_token s = Some token then response = RespOk else True
      | _ \<Rightarrow> True)"

definition closed_before_bootstrap :: "model_state \<Rightarrow> bool" where
  "closed_before_bootstrap s \<longleftrightarrow>
     (case ms_last s of
        Some (Control p token op, response) \<Rightarrow>
          ms_boot s \<noteq> Uninitialized \<or> response = RespUnavailable
      | _ \<Rightarrow> True)"

definition other_token_refused :: "model_state \<Rightarrow> bool" where
  "other_token_refused s \<longleftrightarrow>
     (case (ms_last s, installed_token s) of
        (Some (Control p token op, response), Some installed) \<Rightarrow>
          if installed \<noteq> token then response = RespUnauthorized else True
      | _ \<Rightarrow> True)"

definition installed_token_accepted :: "model_state \<Rightarrow> bool" where
  "installed_token_accepted s \<longleftrightarrow>
     (case (ms_last s, installed_token s) of
        (Some (Control p token op, response), Some installed) \<Rightarrow>
          if installed = token then response \<noteq> RespUnauthorized \<and> response \<noteq> RespUnavailable
          else True
      | _ \<Rightarrow> True)"

definition output_kept_until_ack :: "model_state \<Rightarrow> bool" where
  "output_kept_until_ack s \<longleftrightarrow> \<not> ms_released_without_ack s \<and>
     list_all (\<lambda>e. me_output_held e \<or> me_phase e = PhaseAcked) (ms_execs s)"

definition never_spawns_twice :: "model_state \<Rightarrow> bool" where
  "never_spawns_twice s \<longleftrightarrow> list_all (\<lambda>e. me_spawns e = 1) (ms_execs s)"

definition one_entry_per_id :: "model_state \<Rightarrow> bool" where
  "one_entry_per_id s \<longleftrightarrow>
     list_all (\<lambda>e. length (filter (\<lambda>o'. me_id o' = me_id e) (ms_execs s)) = 1) (ms_execs s)"

text \<open>All but the first, which holds only while no attacker acts before bootstrap.\<close>

definition always_properties :: "model_state \<Rightarrow> bool" where
  "always_properties s \<longleftrightarrow> bootstrap_one_shot s \<and> only_installed_token_accepted s \<and>
     first_bootstrap_installs s \<and> installed_bootstrap_accepted s \<and> closed_before_bootstrap s \<and>
     other_token_refused s \<and> installed_token_accepted s \<and> output_kept_until_ack s \<and>
     never_spawns_twice s \<and> one_entry_per_id s"

section \<open>The invariant\<close>

definition model_exec_ok :: "model_config \<Rightarrow> model_exec \<Rightarrow> bool" where
  "model_exec_ok cfg e \<longleftrightarrow> me_spawns e = 1 \<and> (me_output_held e \<longleftrightarrow> me_phase e \<noteq> PhaseAcked) \<and>
     me_starts e \<le> max 1 (mc_max_starts_per_exec cfg)"

definition core_ok :: "model_config \<Rightarrow> model_state \<Rightarrow> bool" where
  "core_ok cfg s \<longleftrightarrow> distinct (map me_id (ms_execs s)) \<and> (\<forall>e \<in> set (ms_execs s). model_exec_ok cfg e) \<and>
     ms_token_replacements s = 0 \<and> \<not> ms_released_without_ack s \<and>
     (ms_boot s = Uninitialized \<longleftrightarrow> ms_hooks_seen s = 0) \<and> ms_hooks_seen s \<le> mc_max_hooks cfg"

definition trusted_ok :: "model_state \<Rightarrow> bool" where
  "trusted_ok s \<longleftrightarrow> installed_token s \<noteq> Some AttackerToken \<and> \<not> ms_attacker_authorized s"

lemma exec_mut_ids [simp]: "(\<And>e. me_id (f e) = me_id e) \<Longrightarrow> map me_id (exec_mut i f es) = map me_id es"
  by (induction i f es rule: exec_mut.induct) auto

lemma exec_mut_set: "set (exec_mut i f es) \<subseteq> set es \<union> {f e |e. find (\<lambda>e. me_id e = i) es = Some e}"
  by (induction i f es rule: exec_mut.induct) auto

lemma exec_mut_ok:
  assumes "\<forall>e \<in> set es. model_exec_ok cfg e"
    and "\<And>e. find (\<lambda>e. me_id e = i) es = Some e \<Longrightarrow> model_exec_ok cfg e \<Longrightarrow> model_exec_ok cfg (f e)"
  shows "\<forall>e \<in> set (exec_mut i f es). model_exec_ok cfg e"
proof
  fix e assume "e \<in> set (exec_mut i f es)"
  with exec_mut_set [of i f es] consider "e \<in> set es"
    | x where "find (\<lambda>e. me_id e = i) es = Some x" "e = f x" by blast
  then show "model_exec_ok cfg e"
  proof cases
    case 2
    from 2(1) have "x \<in> set es" by (auto simp: find_Some_iff)
    with assms 2 show ?thesis by blast
  qed (use assms(1) in blast)
qed

lemma exec_of_None: "exec_of i s = None \<Longrightarrow> i \<notin> me_id ` set (ms_execs s)"
  by (auto simp: exec_of_def find_None_iff)

lemma caller_actions_shape:
  assumes "act \<in> set (caller_actions cfg s (p, token))"
  shows "\<exists>op. act = Control p token op \<and>
    (\<forall>i e. op = ExecStart i \<longrightarrow> exec_of i s = Some e \<longrightarrow> me_starts e < mc_max_starts_per_exec cfg)"
  using assms by (auto simp: caller_actions_def Let_def split: if_splits option.splits)

lemma model_actions_shape:
  assumes "act \<in> set (model_actions cfg s)"
  shows "case act of
      RunHook p token \<Rightarrow> ms_hooks_seen s < mc_max_hooks cfg \<and>
        ((p, token) = (Platform, HarnessToken) \<or>
         (p, token) = (AttackerProcess, AttackerToken) \<and> attacker_active cfg s)
    | Control p token op \<Rightarrow>
        ((p, token) = (Client, HarnessToken) \<or>
         (p, token) = (AttackerProcess, AttackerToken) \<and> attacker_active cfg s) \<and>
        (\<forall>i e. op = ExecStart i \<longrightarrow> exec_of i s = Some e \<longrightarrow> me_starts e < mc_max_starts_per_exec cfg)
    | ChildExit i \<Rightarrow> True"
  using assms
  by (auto simp: model_actions_def split: if_splits dest!: caller_actions_shape)

lemma apply_op_core:
  assumes ok: "core_ok cfg s" and op: "apply_op op s = (r, n)"
    and starts: "\<And>i e. op = ExecStart i \<Longrightarrow> exec_of i s = Some e \<Longrightarrow>
      me_starts e < mc_max_starts_per_exec cfg"
  shows "core_ok cfg n \<and> ms_boot n = ms_boot s \<and>
    ms_attacker_authorized n = ms_attacker_authorized s \<and> ms_hooks_seen n = ms_hooks_seen s \<and>
    (r = RespOk \<or> r = RespConflict)"
proof (cases op)
  case (ExecStart i)
  show ?thesis
  proof (cases "exec_of i s")
    case None
    from exec_of_None [OF None] ok op ExecStart None show ?thesis
      by (auto simp: core_ok_def model_exec_ok_def)
  next
    case (Some e)
    let ?f = "\<lambda>e. e\<lparr>me_starts := me_starts e + 1\<rparr>"
    have "\<forall>x \<in> set (exec_mut i ?f (ms_execs s)). model_exec_ok cfg x"
      using ok starts [OF ExecStart] by (intro exec_mut_ok) (auto simp: core_ok_def model_exec_ok_def exec_of_def)
    with ok op ExecStart Some show ?thesis by (auto simp: core_ok_def)
  qed
next
  case (ExecAck i)
  let ?f = "\<lambda>e. e\<lparr>me_phase := PhaseAcked, me_output_held := False\<rparr>"
  have "\<forall>x \<in> set (exec_mut i ?f (ms_execs s)). model_exec_ok cfg x"
    using ok by (intro exec_mut_ok) (auto simp: core_ok_def model_exec_ok_def)
  with ok op ExecAck show ?thesis by (auto simp: core_ok_def split: option.splits if_splits)
next
  case CollectAcked
  with ok op show ?thesis
    by (auto simp: core_ok_def collectable_def model_exec_ok_def list_ex_iff distinct_map_filter)
qed (use ok op in auto)

text \<open>What \<open>next_state\<close> makes of an applied action.\<close>

lemma next_state_Some:
  assumes "next_state s act = Some s'"
  obtains r n where "apply_action act s = Some (r, n)"
    "s' = n\<lparr>ms_token_replacements := ms_token_replacements n +
        (case (ms_boot s, ms_boot n) of
           (Ready a _, Ready b _) \<Rightarrow> if a \<noteq> b then 1 else 0 | _ \<Rightarrow> 0),
        ms_last := Some (act, r)\<rparr>"
  using assms
  by (auto simp: next_state_def Let_def split: option.splits if_splits boot.splits)

definition same_boot :: "model_state \<Rightarrow> model_state \<Rightarrow> bool" where
  "same_boot s n \<longleftrightarrow> ms_boot n = ms_boot s \<or> ms_boot s = Uninitialized"

lemma apply_action_core:
  assumes ok: "core_ok cfg s" and act: "act \<in> set (model_actions cfg s)"
    and out: "apply_action act s = Some (r, n)"
  shows "core_ok cfg n \<and> same_boot s n \<and>
    (case act of
       RunHook p token \<Rightarrow>
         ms_attacker_authorized n = ms_attacker_authorized s \<and> ms_hooks_seen n = ms_hooks_seen s + 1 \<and>
         (if ms_boot s = Uninitialized then r = RespOk \<and> ms_boot n = Ready token p
          else ms_boot n = ms_boot s \<and>
            (r = (if installed_token s = Some token then RespOk else RespConflict)))
     | Control p token op \<Rightarrow> ms_boot n = ms_boot s \<and> ms_hooks_seen n = ms_hooks_seen s \<and>
         (case installed_token s of
            None \<Rightarrow> r = RespUnavailable \<and> n = s
          | Some installed \<Rightarrow>
              if installed \<noteq> token then r = RespUnauthorized \<and> n = s
              else (r = RespOk \<or> r = RespConflict) \<and>
                   (ms_attacker_authorized n \<longrightarrow> ms_attacker_authorized s \<or> p = AttackerProcess))
     | ChildExit i \<Rightarrow> ms_boot n = ms_boot s \<and> ms_hooks_seen n = ms_hooks_seen s \<and>
         ms_attacker_authorized n = ms_attacker_authorized s)"
proof (cases act)
  case (RunHook p token)
  with ok out model_actions_shape [OF act] show ?thesis
    by (auto simp: core_ok_def same_boot_def installed_token_def Let_def split: boot.splits if_splits)
next
  case (Control p token op)
  show ?thesis
  proof (cases "installed_token s = Some token")
    case False
    with ok out Control show ?thesis
      by (auto simp: same_boot_def split: option.splits)
  next
    case True
    let ?s = "if p = AttackerProcess then s\<lparr>ms_attacker_authorized := True\<rparr> else s"
    have "core_ok cfg ?s" using ok by (simp add: core_ok_def)
    moreover have "apply_op op ?s = (r, n)" using out Control True by simp
    moreover have "\<And>i e. op = ExecStart i \<Longrightarrow> exec_of i ?s = Some e \<Longrightarrow>
        me_starts e < mc_max_starts_per_exec cfg"
      using model_actions_shape [OF act] Control by (auto simp: exec_of_def split: if_splits)
    ultimately have "core_ok cfg n \<and> ms_boot n = ms_boot ?s \<and>
        ms_attacker_authorized n = ms_attacker_authorized ?s \<and> ms_hooks_seen n = ms_hooks_seen ?s \<and>
        (r = RespOk \<or> r = RespConflict)"
      by (rule apply_op_core)
    with Control True show ?thesis by (auto simp: same_boot_def)
  qed
next
  case (ChildExit i)
  let ?f = "\<lambda>e. e\<lparr>me_phase := PhaseExited\<rparr>"
  have "\<forall>x \<in> set (exec_mut i ?f (ms_execs s)). model_exec_ok cfg x"
    if "exec_of i s = Some e" "me_phase e = PhaseRunning" for e
    using ok that by (intro exec_mut_ok) (auto simp: core_ok_def model_exec_ok_def exec_of_def)
  with ok out ChildExit show ?thesis
    by (auto simp: core_ok_def same_boot_def split: option.splits if_splits)
qed

definition last_ok :: "model_state \<Rightarrow> bool" where
  "last_ok s \<longleftrightarrow> only_installed_token_accepted s \<and> first_bootstrap_installs s \<and>
     installed_bootstrap_accepted s \<and> closed_before_bootstrap s \<and> other_token_refused s \<and>
     installed_token_accepted s"

lemmas last_defs = last_ok_def only_installed_token_accepted_def first_bootstrap_installs_def
  installed_bootstrap_accepted_def closed_before_bootstrap_def other_token_refused_def
  installed_token_accepted_def

lemma step_keeps:
  assumes ok: "core_ok cfg s" and act: "act \<in> set (model_actions cfg s)"
    and step: "next_state s act = Some s'"
  shows "core_ok cfg s' \<and> last_ok s' \<and>
    (\<not> mc_attacker_before_bootstrap cfg \<and> trusted_ok s \<longrightarrow> trusted_ok s')"
proof -
  obtain r n where ap: "apply_action act s = Some (r, n)"
    and s': "s' = n\<lparr>ms_token_replacements := ms_token_replacements n +
        (case (ms_boot s, ms_boot n) of
           (Ready a _, Ready b _) \<Rightarrow> if a \<noteq> b then 1 else 0 | _ \<Rightarrow> 0),
        ms_last := Some (act, r)\<rparr>"
    by (rule next_state_Some [OF step])
  note core = apply_action_core [OF ok act ap]
  from core have "same_boot s n" by blast
  then have "(case (ms_boot s, ms_boot n) of
           (Ready a _, Ready b _) \<Rightarrow> if a \<noteq> b then 1 else 0 | _ \<Rightarrow> 0) = (0::nat)"
    by (auto simp: same_boot_def split: boot.split)
  with s' have s'': "s' = n\<lparr>ms_last := Some (act, r)\<rparr>" by simp
  have it: "installed_token (n\<lparr>ms_last := l\<rparr>) = installed_token n" for l
    by (simp add: installed_token_def)
  have c: "core_ok cfg s'" using core by (simp add: s'' core_ok_def)
  have l: "last_ok s'"
  proof (cases act)
    case (RunHook p token)
    show ?thesis
    proof (cases "ms_boot s")
      case Uninitialized
      with core RunHook show ?thesis
        by (auto simp: s'' last_defs it installed_token_def split: model_response.split)
    next
      case (Ready t q)
      with ok have "ms_hooks_seen s \<noteq> 0" by (simp add: core_ok_def)
      with Ready core RunHook show ?thesis
        by (auto simp: s'' last_defs it installed_token_def split: model_response.split if_splits)
    qed
  next
    case (Control p token op)
    with core show ?thesis
      by (auto simp: s'' last_defs it installed_token_def split: option.splits boot.splits if_splits)
  next
    case (ChildExit i)
    then show ?thesis by (auto simp: s'' last_defs split: option.split)
  qed
  have "trusted_ok s'" if t: "\<not> mc_attacker_before_bootstrap cfg" "trusted_ok s"
  proof (cases act)
    case (RunHook p token)
    with core t model_actions_shape [OF act] show ?thesis
      by (auto simp: s'' trusted_ok_def it installed_token_def attacker_active_def split: boot.splits if_splits)
  next
    case (Control p token op)
    with core t model_actions_shape [OF act] show ?thesis
      by (auto simp: s'' trusted_ok_def it installed_token_def split: option.splits boot.splits if_splits)
  next
    case (ChildExit i)
    with core t show ?thesis by (auto simp: s'' trusted_ok_def it installed_token_def)
  qed
  with c l show ?thesis by blast
qed

lemma reachable_core: "model_reachable cfg s \<Longrightarrow> core_ok cfg s \<and> last_ok s"
proof (induction rule: model_reachable.induct)
  case reach_init
  show ?case by (simp add: core_ok_def init_model_state_def last_defs)
next
  case (reach_step s act s')
  with step_keeps [of cfg s act s'] show ?case by blast
qed

lemma reachable_trusted:
  "model_reachable cfg s \<Longrightarrow> \<not> mc_attacker_before_bootstrap cfg \<Longrightarrow> trusted_ok s"
proof (induction rule: model_reachable.induct)
  case reach_init
  show ?case by (simp add: trusted_ok_def init_model_state_def installed_token_def)
next
  case (reach_step s act s')
  with step_keeps [of cfg s act s'] reachable_core [of cfg s] show ?case by blast
qed

text \<open>No \<open>u8\<close> counter passes its configured bound.\<close>

lemma counters_bounded:
  assumes "model_reachable cfg s"
  shows "ms_hooks_seen s \<le> mc_max_hooks cfg \<and> ms_token_replacements s = 0 \<and>
    (\<forall>e \<in> set (ms_execs s). me_spawns e = 1 \<and> me_starts e \<le> max 1 (mc_max_starts_per_exec cfg))"
  using reachable_core [OF assms] by (auto simp: core_ok_def model_exec_ok_def)

lemma one_of_distinct:
  "distinct (map f xs) \<Longrightarrow> x \<in> set xs \<Longrightarrow> length (filter (\<lambda>y. f y = f x) xs) = 1"
proof (induction xs)
  case (Cons a xs)
  then show ?case
    by (cases "x = a") (auto simp: filter_empty_conv intro: rev_image_eqI)
qed simp

text \<open>Paths of the machine, for the reachability of particular states.\<close>

fun run_model :: "model_config \<Rightarrow> action list \<Rightarrow> model_state \<Rightarrow> model_state option" where
  "run_model cfg [] s = Some s"
| "run_model cfg (act # acts) s =
     (if act \<in> set (model_actions cfg s)
      then (case next_state s act of None \<Rightarrow> None | Some s' \<Rightarrow> run_model cfg acts s')
      else None)"

lemma run_model_reachable:
  "model_reachable cfg s \<Longrightarrow> run_model cfg acts s = Some s' \<Longrightarrow> model_reachable cfg s'"
  by (induction acts arbitrary: s) (auto split: if_splits option.splits intro: reach_step)

section \<open>Properties\<close>

lemma reachable_always:
  assumes "model_reachable cfg s"
  shows "always_properties s"
proof -
  from reachable_core [OF assms] have core: "core_ok cfg s" and l: "last_ok s" by blast+
  from core have "output_kept_until_ack s" "never_spawns_twice s" "bootstrap_one_shot s"
    by (auto simp: core_ok_def model_exec_ok_def output_kept_until_ack_def never_spawns_twice_def
        bootstrap_one_shot_def list_all_iff)
  moreover have "one_entry_per_id s"
    using core one_of_distinct [of me_id "ms_execs s"]
    by (auto simp: core_ok_def one_entry_per_id_def list_all_iff)
  ultimately show ?thesis using l by (auto simp: always_properties_def last_ok_def)
qed

lemma sample_path:
  "\<exists>s. run_model default_model_config
     [RunHook Platform HarnessToken, Control Client HarnessToken (ExecStart 1), ChildExit 1,
      RunHook AttackerProcess AttackerToken, Control Client HarnessToken (ExecAck 1)]
     init_model_state = Some s \<and> ms_hooks_seen s = 2 \<and> installed_token s = Some HarnessToken \<and>
     exec_of 1 s = Some \<lparr>me_id = 1, me_phase = PhaseAcked, me_output_held = False, me_spawns = 1,
       me_starts = 1\<rparr>"
  by (simp add: default_model_config_def init_model_state_def model_actions_def attacker_active_def
      caller_actions_def exec_of_def next_state_def installed_token_def upt_rec)

text \<open>
  The deployment assumption is needed, and its price is exact: if a guest process can act
  before bootstrap and one hook may arrive, the attacker reaches authority in two requests, its
  own hook and any control request, while every other safety property still holds.
\<close>
theorem broken_deployment_authorizes_attacker:
  assumes "mc_attacker_before_bootstrap cfg" and "0 < mc_max_hooks cfg"
  shows "\<exists>s. run_model cfg [RunHook AttackerProcess AttackerToken,
      Control AttackerProcess AttackerToken CollectAcked] init_model_state = Some s \<and>
    ms_attacker_authorized s \<and> always_properties s"
proof -
  let ?acts = "[RunHook AttackerProcess AttackerToken, Control AttackerProcess AttackerToken CollectAcked]"
  obtain s where r: "run_model cfg ?acts init_model_state = Some s" and a: "ms_attacker_authorized s"
    using assms
    by (simp add: init_model_state_def model_actions_def attacker_active_def caller_actions_def
        next_state_def installed_token_def)
  have "model_reachable cfg s" by (rule run_model_reachable [OF reach_init r])
  with r a reachable_always show ?thesis by blast
qed

theorem broken_deployment_authorizes_attacker_witness:
  "\<exists>s. run_model deployment_invariant_broken [RunHook AttackerProcess AttackerToken,
      Control AttackerProcess AttackerToken CollectAcked] init_model_state = Some s \<and>
    ms_attacker_authorized s"
proof -
  have "mc_attacker_before_bootstrap deployment_invariant_broken"
    "0 < mc_max_hooks deployment_invariant_broken"
    by (simp_all add: deployment_invariant_broken_def default_model_config_def)
  from broken_deployment_authorizes_attacker [OF this] show ?thesis by blast
qed

text \<open>
  C9: The specification's safety properties hold in every reachable state, for every number of
  ids, hooks and retries, and in every deployment: bootstrap is one-shot and answers as AGENTD-2,
  -3 and -4 say, the control API is closed before it and opens to the installed token only
  (AGENTD-1, -5, -6), output is never released before an ack, a retried start never spawns twice,
  ids are unique. The one always property that rests on the deployment, that no attacker is ever
  authorized, holds in every reachable state exactly when no process of the guest can act before
  bootstrap (or no hook may arrive at all): that hypothesis of the specification is needed.
\<close>
theorem model_always_properties:
  "(\<forall>s. model_reachable cfg s \<longrightarrow> always_properties s) \<and>
   (\<not> mc_attacker_before_bootstrap cfg \<longrightarrow> (\<forall>s. model_reachable cfg s \<longrightarrow> attacker_never_authorized s)) \<and>
   (mc_attacker_before_bootstrap cfg \<longrightarrow> 0 < mc_max_hooks cfg \<longrightarrow>
      (\<exists>s. model_reachable cfg s \<and> \<not> attacker_never_authorized s))"
proof (intro conjI impI allI)
  show "always_properties s" if "model_reachable cfg s" for s
    by (rule reachable_always [OF that])
  show "attacker_never_authorized s" if "\<not> mc_attacker_before_bootstrap cfg" "model_reachable cfg s" for s
    using reachable_trusted [OF that(2,1)] by (auto simp: attacker_never_authorized_def trusted_ok_def)
  show "\<exists>s. model_reachable cfg s \<and> \<not> attacker_never_authorized s"
    if broken: "mc_attacker_before_bootstrap cfg" "0 < mc_max_hooks cfg"
  proof -
    obtain s where r: "run_model cfg [RunHook AttackerProcess AttackerToken,
        Control AttackerProcess AttackerToken CollectAcked] init_model_state = Some s"
      and "ms_attacker_authorized s"
      using broken_deployment_authorizes_attacker [OF broken] by blast
    with run_model_reachable [OF reach_init r] show ?thesis
      by (auto simp: attacker_never_authorized_def)
  qed
qed

theorem model_always_properties_witness:
  "\<exists>s. model_reachable default_model_config s \<and> ms_hooks_seen s = 2 \<and> always_properties s \<and>
     attacker_never_authorized s"
proof -
  obtain s where r: "run_model default_model_config
     [RunHook Platform HarnessToken, Control Client HarnessToken (ExecStart 1), ChildExit 1,
      RunHook AttackerProcess AttackerToken, Control Client HarnessToken (ExecAck 1)]
     init_model_state = Some s" and h: "ms_hooks_seen s = 2"
    using sample_path by blast
  have reached: "model_reachable default_model_config s" by (rule run_model_reachable [OF reach_init r])
  have "\<not> mc_attacker_before_bootstrap default_model_config" by (simp add: default_model_config_def)
  with model_always_properties [of default_model_config] reached h show ?thesis by blast
qed

end
