(* ===== verification/Lifecycle.thy ===== *)
theory Lifecycle
  imports RegistryRuns ModelAgentd
begin

text \<open>
  The lifecycle of one exec id as an abstract state machine, and the two implementations of it in
  the repository: the registry of the daemon (theory \<open>RegistryRuns\<close>) and the specification
  crate (theory \<open>ModelAgentd\<close>). Each step of either one is a step of the machine for every
  id, with the label the caller can see.
\<close>

section \<open>The machine\<close>

datatype lifecycle_label = Spawned | ChildExited | OutputAcked | Collected | Unchanged

inductive lifecycle ::
  "exec_phase option \<Rightarrow> lifecycle_label \<Rightarrow> exec_phase option \<Rightarrow> bool" where
  lc_spawn: "lifecycle None Spawned (Some PhaseRunning)"
| lc_exit: "lifecycle (Some PhaseRunning) ChildExited (Some PhaseExited)"
| lc_ack: "lifecycle (Some PhaseExited) OutputAcked (Some PhaseAcked)"
| lc_collect: "lifecycle (Some PhaseAcked) Collected None"
| lc_stay: "lifecycle p Unchanged p"

inductive_cases lifecycle_ackE: "lifecycle p OutputAcked q"
inductive_simps lifecycle_unchanged [simp]: "lifecycle p Unchanged q"

section \<open>The registry\<close>

definition entry_phase :: "'m daemon \<Rightarrow> exec_entry \<Rightarrow> exec_phase" where
  "entry_phase s e =
     (case phase_of (en_acked_at e \<noteq> None) (sh_result (cell s (en_shared e)) \<noteq> None) of
        Running \<Rightarrow> PhaseRunning | Exited \<Rightarrow> PhaseExited | Acked \<Rightarrow> PhaseAcked)"

definition daemon_phase :: "'m system \<Rightarrow> string \<Rightarrow> exec_phase option" where
  "daemon_phase y xid =
     map_option (entry_phase (sy_daemon y)) (map_of (dm_execs (sy_daemon y)) xid)"

text \<open>What the label of an act is allowed to be, for an id.\<close>

definition label_fits ::
  "'m act \<Rightarrow> response option \<Rightarrow> string \<Rightarrow> lifecycle_label \<Rightarrow> bool" where
  "label_fits act r xid l \<longleftrightarrow>
     (case l of
        Spawned \<Rightarrow> (\<exists>rq err h child epoch. act = DoStart (Some rq) err h child epoch \<and>
          req_exec_id rq = xid \<and> r = Some (ok_response (StartBody xid Running)))
      | ChildExited \<Rightarrow> (\<exists>a. act = DoResult a)
      | OutputAcked \<Rightarrow> (\<exists>a oc. act = DoAckLocked xid a \<and>
          r = Some (ok_response (PollBody xid Acked (Some oc))))
      | Collected \<Rightarrow> act = DoCollect
      | Unchanged \<Rightarrow> \<not> (\<exists>a oc. act = DoAckLocked xid a \<and>
          r = Some (ok_response (PollBody xid Acked (Some oc)))))"

lemma daemon_phase_same:
  assumes "map_of (dm_execs s) xid = map_of (dm_execs (sy_daemon y)) xid"
    and "\<And>e. map_of (dm_execs (sy_daemon y)) xid = Some e \<Longrightarrow>
      sh_result (cell s (en_shared e)) = sh_result (cell (sy_daemon y) (en_shared e))"
    and "sy_daemon y' = s"
  shows "daemon_phase y' xid = daemon_phase y xid"
  using assms
  by (cases "map_of (dm_execs (sy_daemon y)) xid") (auto simp: daemon_phase_def entry_phase_def)

lemma set_cell_result:
  "b < length (dm_heap s) \<Longrightarrow> a < length (dm_heap s) \<Longrightarrow>
    sh_result (cell (set_cell a c s) b) = (if b = a then sh_result c else sh_result (cell s b))"
  by (simp add: cell_def set_cell_def)

lemma set_cell_execs [simp]: "dm_execs (set_cell a c s) = dm_execs s"
  by (simp add: set_cell_def)

lemma same_result_phase:
  assumes inv: "reg_inv released y" and a: "a < length (sy_tasks y)"
    and c: "sh_result c = sh_result (cell (sy_daemon y) a)"
    and y': "sy_daemon y' = set_cell a c (sy_daemon y)"
  shows "daemon_phase y' xid = daemon_phase y xid"
proof (rule daemon_phase_same [OF _ _ y'])
  fix e assume "map_of (dm_execs (sy_daemon y)) xid = Some e"
  from entries_ok_lookup [OF reg_invD(2) [OF inv] this] reg_invD(1) [OF inv] a c
  show "sh_result (cell (set_cell a c (sy_daemon y)) (en_shared e))
      = sh_result (cell (sy_daemon y) (en_shared e))"
    by (auto simp: set_cell_result)
qed simp

lemma drop_stdin_phase:
  assumes "reg_inv released y" and "a < length (sy_tasks y)"
    and "sy_daemon y' = drop_stdin a (sy_daemon y)"
  shows "daemon_phase y' xid = daemon_phase y xid"
  by (rule same_result_phase [OF assms(1,2) _ assms(3) [unfolded drop_stdin_def]]) simp

lemma with_daemon_sel [simp]: "sy_daemon (with_daemon s y) = s" "sy_daemon (set_phase a p y) = sy_daemon y"
  by (simp_all add: with_daemon_def set_phase_def)

lemma result_phase:
  assumes inv: "reg_inv released y" and t: "task_at y a = Some (Marked oc)"
    and y': "sy_daemon y' = write_result a oc (sy_daemon y)"
  shows "if xid = tk_id (sy_tasks y ! a)
    then daemon_phase y xid = Some PhaseRunning \<and> daemon_phase y' xid = Some PhaseExited
    else daemon_phase y' xid = daemon_phase y xid"
proof -
  from t have a: "a < length (sy_tasks y)" by (simp add: task_at_Some)
  with reg_invD(3) [OF inv a] t obtain e where
    e: "map_of (dm_execs (sy_daemon y)) (tk_id (sy_tasks y ! a)) = Some e" "en_shared e = a"
    "en_acked_at e = None" "sh_result (cell (sy_daemon y) a) = None"
    by (auto simp: address_ok_def task_at_Some held_unacked_def holder_def
        split: option.splits if_splits)
  have len: "a < length (dm_heap (sy_daemon y))" using a reg_invD(1) [OF inv] by simp
  show ?thesis
  proof (cases "xid = tk_id (sy_tasks y ! a)")
    case True
    with e y' len show ?thesis
      by (simp add: daemon_phase_def entry_phase_def phase_of_def write_result_def set_cell_result)
  next
    case False
    have "daemon_phase y' xid = daemon_phase y xid"
    proof (rule daemon_phase_same [OF _ _ y'])
      fix f assume "map_of (dm_execs (sy_daemon y)) xid = Some f"
      from entries_ok_lookup [OF reg_invD(2) [OF inv] this] False
      have "en_shared f \<noteq> a" "en_shared f < length (dm_heap (sy_daemon y))"
        using reg_invD(1) [OF inv] by auto
      with len show "sh_result (cell (write_result a oc (sy_daemon y)) (en_shared f))
          = sh_result (cell (sy_daemon y) (en_shared f))"
        by (simp add: write_result_def set_cell_result)
    qed (simp add: write_result_def)
    with False show ?thesis by simp
  qed
qed

lemma ack_phase:
  assumes inv: "reg_inv released y" and ack: "(j, a) \<in> set (sy_acks y)"
    and out: "ack_locked j a (sy_daemon y) = (r, s)" and y': "sy_daemon y' = s"
  shows "if xid = j \<and> rs_status r = 200
    then daemon_phase y xid = Some PhaseExited \<and> daemon_phase y' xid = Some PhaseAcked \<and>
         (\<exists>oc. r = ok_response (PollBody xid Acked (Some oc)))
    else daemon_phase y' xid = daemon_phase y xid"
proof (cases "sh_result (cell (sy_daemon y) a)")
  case None
  from ack_locked_empty [OF None, of j] out have "s = sy_daemon y" "rs_status r = 409" by simp_all
  with y' show ?thesis by (simp add: daemon_phase_def)
next
  case (Some oc)
  from ack_finds_entry [OF inv ack Some] obtain e where
    e: "map_of (dm_execs (sy_daemon y)) j = Some e" "en_shared e = a" "en_acked_at e = None" by blast
  let ?s = "set_cell a ((cell (sy_daemon y) a)\<lparr>sh_result := None\<rparr>) (sy_daemon y)"
  from ack_locked_found [OF Some e(1,3)] out
  have s: "s = ?s\<lparr>dm_execs := AList.update j (e\<lparr>en_acked_at := Some (dm_now (sy_daemon y))\<rparr>)
        (dm_execs (sy_daemon y))\<rparr>"
    and r: "r = ok_response (PollBody j Acked (Some oc))" by simp_all
  from reg_invD(5) [OF inv ack] reg_invD(1) [OF inv]
  have len: "a < length (dm_heap (sy_daemon y))" and i: "tk_id (sy_tasks y ! a) = j" by simp_all
  show ?thesis
  proof (cases "xid = j")
    case True
    with e y' s r Some show ?thesis
      by (simp add: daemon_phase_def entry_phase_def phase_of_def update_conv' ok_response_def)
  next
    case False
    have "daemon_phase y' xid = daemon_phase y xid"
    proof (rule daemon_phase_same [OF _ _ y'])
      show "map_of (dm_execs s) xid = map_of (dm_execs (sy_daemon y)) xid"
        using False by (simp add: s update_conv')
      fix f assume "map_of (dm_execs (sy_daemon y)) xid = Some f"
      from entries_ok_lookup [OF reg_invD(2) [OF inv] this] False i
      have "en_shared f \<noteq> a" "en_shared f < length (dm_heap (sy_daemon y))"
        using reg_invD(1) [OF inv] by auto
      with len show "sh_result (cell s (en_shared f)) = sh_result (cell (sy_daemon y) (en_shared f))"
        by (simp add: s cell_def set_cell_def)
    qed
    with False show ?thesis by simp
  qed
qed

lemma collect_phase:
  assumes inv: "reg_inv released y" and y': "sy_daemon y' = snd (collect_expired (sy_daemon y))"
  shows "daemon_phase y' xid = daemon_phase y xid \<or>
    daemon_phase y xid = Some PhaseAcked \<and> daemon_phase y' xid = None"
proof -
  have wf: "keys_distinct (dm_execs (sy_daemon y))"
    using reg_invD(2) [OF inv] by (simp add: entries_ok_def)
  show ?thesis
    by (auto simp: daemon_phase_def y' collect_expired_def Let_def store.lookup_retain [OF wf]
        keep_entry_def entry_phase_def phase_of_def cell_def split: option.splits)
qed

lemma start_phase:
  assumes inv: "reg_inv released y" and out: "start body err h child epoch (sy_daemon y) = (r, s)"
    and y': "sy_daemon y' = s"
  shows "daemon_phase y' xid = daemon_phase y xid \<or>
    daemon_phase y xid = None \<and> daemon_phase y' xid = Some PhaseRunning \<and>
    (\<exists>rq. body = Some rq \<and> req_exec_id rq = xid \<and> r = ok_response (StartBody xid Running))"
proof (cases "s = sy_daemon y")
  case True
  with y' show ?thesis by (simp add: daemon_phase_def)
next
  case False
  from start_spawned [OF out False] obtain rq cmd pgid where
    body: "body = Some rq" and new: "map_of (dm_execs (sy_daemon y)) (req_exec_id rq) = None"
    and s: "s = (sy_daemon y)\<lparr>dm_heap := dm_heap (sy_daemon y) @ [new_shared (dm_config (sy_daemon y)) cmd],
            dm_execs := AList.update (req_exec_id rq)
              \<lparr>en_pgid = pgid, en_shared = length (dm_heap (sy_daemon y)), en_acked_at = None,
               en_started_at = epoch, en_reap = req_reap_group_on_exit rq\<rparr> (dm_execs (sy_daemon y))\<rparr>"
    and r: "r = ok_response (StartBody (req_exec_id rq) Running)"
    by metis
  show ?thesis
  proof (cases "xid = req_exec_id rq")
    case True
    with new body r y' show ?thesis
      by (auto simp: daemon_phase_def s update_conv' entry_phase_def phase_of_def cell_def
          new_shared_def nth_append)
  next
    case False
    have "daemon_phase y' xid = daemon_phase y xid"
    proof (rule daemon_phase_same [OF _ _ y'])
      show "map_of (dm_execs s) xid = map_of (dm_execs (sy_daemon y)) xid"
        using False by (simp add: s update_conv')
      fix f assume "map_of (dm_execs (sy_daemon y)) xid = Some f"
      from entries_ok_lookup [OF reg_invD(2) [OF inv] this] reg_invD(1) [OF inv]
      show "sh_result (cell s (en_shared f)) = sh_result (cell (sy_daemon y) (en_shared f))"
        by (simp add: s cell_def nth_append)
    qed
    then show ?thesis by blast
  qed
qed

lemma entry_phase_heap: "dm_heap s = dm_heap s' \<Longrightarrow> entry_phase s = entry_phase s'"
  by (rule ext) (simp add: entry_phase_def cell_def)

lemma unchanged_fits:
  assumes "\<not> (\<exists>a oc. act = DoAckLocked xid a \<and> r = Some (ok_response (PollBody xid Acked (Some oc))))"
    and "q = p"
  shows "\<exists>l. lifecycle p l q \<and> label_fits act r xid l"
  using assms by (intro exI [of _ Unchanged]) (simp add: label_fits_def)

lemma act_follows_lifecycle:
  assumes inv: "reg_inv released y" and act: "do_act act y = Some (r, y')"
  shows "\<exists>l. lifecycle (daemon_phase y xid) l (daemon_phase y' xid) \<and> label_fits act r xid l"
proof (cases act)
  case (DoStart body err h child epoch)
  obtain r' s where st: "start body err h child epoch (sy_daemon y) = (r', s)"
    by (cases "start body err h child epoch (sy_daemon y)")
  with act DoStart have r: "r = Some r'" and y': "sy_daemon y' = s" by auto
  from start_phase [OF inv st y', of xid] show ?thesis
  proof
    assume "daemon_phase y' xid = daemon_phase y xid"
    with DoStart show ?thesis by (intro unchanged_fits) simp_all
  next
    assume "daemon_phase y xid = None \<and> daemon_phase y' xid = Some PhaseRunning \<and>
      (\<exists>rq. body = Some rq \<and> req_exec_id rq = xid \<and> r' = ok_response (StartBody xid Running))"
    with DoStart r show ?thesis
      by (intro exI [of _ Spawned]) (auto simp: label_fits_def intro: lc_spawn)
  qed
next
  case (DoPublish a k bs)
  with act have "task_at y a = Some Draining" and y': "sy_daemon y' = publish_to a k bs (sy_daemon y)"
    by (auto split: if_splits)
  then have "daemon_phase y' xid = daemon_phase y xid"
    by (intro same_result_phase [OF inv _ _ y' [unfolded publish_to_def Let_def]])
      (simp_all add: task_at_Some)
  with DoPublish show ?thesis by (intro unchanged_fits) simp_all
next
  case (DoTerminal a oc)
  with act have "task_at y a = Some Draining" and y': "sy_daemon y' = write_terminal a oc (sy_daemon y)"
    by (auto split: if_splits)
  then have "daemon_phase y' xid = daemon_phase y xid"
    by (intro same_result_phase [OF inv _ _ y' [unfolded write_terminal_def]])
      (simp_all add: task_at_Some)
  with DoTerminal show ?thesis by (intro unchanged_fits) simp_all
next
  case (DoResult a)
  with act obtain oc where t: "task_at y a = Some (Marked oc)"
    and y': "sy_daemon y' = write_result a oc (sy_daemon y)"
    by (auto split: option.splits task_phase.splits)
  show ?thesis
  proof (cases "xid = tk_id (sy_tasks y ! a)")
    case True
    with result_phase [OF inv t y', of xid] DoResult show ?thesis
      by (intro exI [of _ ChildExited]) (simp add: label_fits_def lc_exit)
  next
    case False
    with result_phase [OF inv t y', of xid] DoResult show ?thesis
      by (intro unchanged_fits) simp_all
  qed
next
  case (DoDropStdin a)
  with act have "a < length (sy_tasks y)" and y': "sy_daemon y' = drop_stdin a (sy_daemon y)"
    by (auto simp: task_at_Some split: option.splits task_phase.splits)
  with drop_stdin_phase [OF inv this] DoDropStdin show ?thesis by (intro unchanged_fits) simp_all
next
  case (DoAckLookup j)
  with act have "sy_daemon y' = sy_daemon y" by (auto split: sum.splits)
  then have "daemon_phase y' xid = daemon_phase y xid" by (simp add: daemon_phase_def)
  with DoAckLookup show ?thesis by (intro unchanged_fits) simp_all
next
  case (DoAckLocked j a)
  obtain r' s where al: "ack_locked j a (sy_daemon y) = (r', s)"
    by (cases "ack_locked j a (sy_daemon y)")
  with act DoAckLocked have ack: "(j, a) \<in> set (sy_acks y)" and r: "r = Some r'"
    and y': "sy_daemon y' = s" by (auto split: if_splits)
  show ?thesis
  proof (cases "xid = j \<and> rs_status r' = 200")
    case True
    with ack_phase [OF inv ack al y', of xid] DoAckLocked r show ?thesis
      by (intro exI [of _ OutputAcked]) (auto simp: label_fits_def lc_ack)
  next
    case False
    with ack_phase [OF inv ack al y', of xid] have "daemon_phase y' xid = daemon_phase y xid" by auto
    moreover have "rs_status r' = 200" if "r' = ok_response b" for b
      using that by (simp add: ok_response_def)
    ultimately show ?thesis using False DoAckLocked r by (intro unchanged_fits) auto
  qed
next
  case (DoStdin j body decoded wrote)
  obtain r' s where ws: "write_stdin (\<lambda>_. decoded) j body wrote (sy_daemon y) = (r', s)"
    by (cases "write_stdin (\<lambda>_. decoded) j body wrote (sy_daemon y)")
  with act DoStdin have y': "sy_daemon y' = s" by auto
  from write_stdin_state [OF ws] have "daemon_phase y' xid = daemon_phase y xid"
  proof
    assume "s = sy_daemon y"
    with y' show ?thesis by (simp add: daemon_phase_def)
  next
    assume "\<exists>e. map_of (dm_execs (sy_daemon y)) j = Some e \<and> s = drop_stdin (en_shared e) (sy_daemon y)"
    then obtain e where "map_of (dm_execs (sy_daemon y)) j = Some e"
      "s = drop_stdin (en_shared e) (sy_daemon y)" by blast
    with entries_ok_lookup [OF reg_invD(2) [OF inv]] y' drop_stdin_phase [OF inv] show ?thesis by blast
  qed
  with DoStdin show ?thesis by (intro unchanged_fits) simp_all
next
  case DoCollect
  with act have y': "sy_daemon y' = snd (collect_expired (sy_daemon y))" by auto
  from collect_phase [OF inv this, of xid] show ?thesis
  proof
    assume "daemon_phase y' xid = daemon_phase y xid"
    with DoCollect show ?thesis by (intro unchanged_fits) simp_all
  next
    assume "daemon_phase y xid = Some PhaseAcked \<and> daemon_phase y' xid = None"
    with DoCollect show ?thesis
      by (intro exI [of _ Collected]) (simp add: label_fits_def lc_collect)
  qed
next
  case (DoTick d)
  with act have "sy_daemon y' = (sy_daemon y)\<lparr>dm_now := dm_now (sy_daemon y) + d\<rparr>" by auto
  then have "daemon_phase y' xid = daemon_phase y xid"
    using entry_phase_heap [of "sy_daemon y'" "sy_daemon y"] by (simp add: daemon_phase_def)
  with DoTick show ?thesis by (intro unchanged_fits) simp_all
next
  case (DoBootstrap t e i)
  with act have "sy_daemon y' = snd (bootstrap_with_identity t e i (sy_daemon y))" by auto
  then have "daemon_phase y' xid = daemon_phase y xid"
    using bootstrap_keeps_registry [of t e i "sy_daemon y"]
      entry_phase_heap [of "sy_daemon y'" "sy_daemon y"] by (simp add: daemon_phase_def)
  with DoBootstrap show ?thesis by (intro unchanged_fits) simp_all
qed

section \<open>The specification crate\<close>

definition model_phase :: "model_state \<Rightarrow> nat \<Rightarrow> exec_phase option" where
  "model_phase s i = map_option me_phase (exec_of i s)"

lemma exec_mut_find:
  assumes "\<And>e. me_id (f e) = me_id e"
  shows "find (\<lambda>e. me_id e = j) (exec_mut i f es) =
    (if j = i then map_option f (find (\<lambda>e. me_id e = j) es) else find (\<lambda>e. me_id e = j) es)"
  by (induction es) (auto simp: assms)

lemma find_distinct_filter:
  "distinct (map me_id es) \<Longrightarrow> find (\<lambda>e. me_id e = j) (filter P es) =
    (case find (\<lambda>e. me_id e = j) es of None \<Rightarrow> None | Some e \<Rightarrow> if P e then Some e else None)"
proof (induction es)
  case Nil
  then show ?case by simp
next
  case (Cons e es)
  then show ?case
  proof (cases "me_id e = j")
    case True
    with Cons.prems have "j \<notin> me_id ` set es" by auto
    then have "find (\<lambda>e. me_id e = j) es = None" "find (\<lambda>e. me_id e = j) (filter P es) = None"
      by (auto simp: find_None_iff)
    with True show ?thesis by simp
  qed simp
qed

lemma find_append:
  "find P (xs @ ys) = (case find P xs of None \<Rightarrow> find P ys | Some x \<Rightarrow> Some x)"
  by (induction xs) auto

lemma model_phase_op:
  assumes core: "core_ok cfg s" and op: "apply_op op s = (r, n)"
  shows "model_phase n i = model_phase s i \<or>
    (op = ExecStart i \<and> model_phase s i = None \<and> model_phase n i = Some PhaseRunning) \<or>
    (op = ExecAck i \<and> r = RespOk \<and> model_phase s i = Some PhaseExited \<and>
       model_phase n i = Some PhaseAcked) \<or>
    (op = CollectAcked \<and> model_phase s i = Some PhaseAcked \<and> model_phase n i = None)"
proof (cases op)
  case (ExecStart j)
  show ?thesis
  proof (cases "exec_of j s")
    case None
    have n: "n = s\<lparr>ms_execs := ms_execs s @ [\<lparr>me_id = j, me_phase = PhaseRunning,
        me_output_held = True, me_spawns = 1, me_starts = 1\<rparr>]\<rparr>"
      using op ExecStart None by simp
    have "model_phase n i = (if i = j then Some PhaseRunning else model_phase s i)"
    proof (cases "i = j")
      case True
      with None show ?thesis by (simp add: n model_phase_def exec_of_def find_append)
    next
      case False
      then show ?thesis
        by (simp add: n model_phase_def exec_of_def find_append split: option.split)
    qed
    moreover have "model_phase s j = None" using None by (simp add: model_phase_def)
    ultimately show ?thesis using ExecStart by (cases "i = j") simp_all
  next
    case (Some e)
    then have "ms_execs n = exec_mut j (\<lambda>e. e\<lparr>me_starts := me_starts e + 1\<rparr>) (ms_execs s)"
      using op ExecStart by auto
    then have "model_phase n i = model_phase s i"
      by (simp add: model_phase_def exec_of_def exec_mut_find option.map_comp comp_def)
    then show ?thesis by blast
  qed
next
  case (ExecAck j)
  then show ?thesis
    using op by (auto simp: model_phase_def exec_of_def exec_mut_find split: option.splits if_splits)
next
  case CollectAcked
  have "distinct (map me_id (ms_execs s))" using core by (simp add: core_ok_def)
  moreover have "ms_execs n = filter (\<lambda>e. me_phase e \<noteq> PhaseAcked) (ms_execs s)"
    using op CollectAcked by (auto simp: collectable_def)
  ultimately have n: "exec_of i n = (case exec_of i s of None \<Rightarrow> None
      | Some e \<Rightarrow> if me_phase e \<noteq> PhaseAcked then Some e else None)"
    by (simp add: exec_of_def find_distinct_filter)
  show ?thesis
  proof (cases "exec_of i s")
    case None
    with n show ?thesis by (simp add: model_phase_def)
  next
    case (Some e)
    with n CollectAcked show ?thesis by (cases "me_phase e") (simp_all add: model_phase_def)
  qed
qed (use op in auto)

definition model_label_fits :: "action \<Rightarrow> model_response \<Rightarrow> nat \<Rightarrow> lifecycle_label \<Rightarrow> bool" where
  "model_label_fits act r i l \<longleftrightarrow>
     (case l of
        Spawned \<Rightarrow> r = RespOk \<and> (\<exists>p t. act = Control p t (ExecStart i))
      | ChildExited \<Rightarrow> act = ChildExit i
      | OutputAcked \<Rightarrow> r = RespOk \<and> (\<exists>p t. act = Control p t (ExecAck i))
      | Collected \<Rightarrow> (\<exists>p t. act = Control p t CollectAcked)
      | Unchanged \<Rightarrow> True)"

lemma model_follows_lifecycle:
  assumes core: "core_ok cfg s" and step: "next_state s act = Some s'"
  shows "\<exists>l r. ms_last s' = Some (act, r) \<and> lifecycle (model_phase s i) l (model_phase s' i) \<and>
    model_label_fits act r i l"
proof -
  obtain r n where ap: "apply_action act s = Some (r, n)"
    and "s' = n\<lparr>ms_token_replacements := ms_token_replacements n +
        (case (ms_boot s, ms_boot n) of
           (Ready a _, Ready b _) \<Rightarrow> if a \<noteq> b then 1 else 0 | _ \<Rightarrow> 0),
        ms_last := Some (act, r)\<rparr>"
    by (rule next_state_Some [OF step])
  then have last: "ms_last s' = Some (act, r)" and ph: "model_phase s' i = model_phase n i"
    by (simp_all add: model_phase_def exec_of_def)
  have stay: ?thesis if "model_phase n i = model_phase s i"
    using that last ph by (intro exI [of _ Unchanged] exI [of _ r]) (simp add: model_label_fits_def)
  show ?thesis
  proof (cases act)
    case (RunHook p t)
    with ap have "ms_execs n = ms_execs s" by (auto simp: Let_def split: boot.splits if_splits)
    then show ?thesis by (intro stay) (simp add: model_phase_def exec_of_def)
  next
    case (Control p t op)
    show ?thesis
    proof (cases "installed_token s = Some t")
      case False
      with ap Control have "n = s" by (auto split: option.splits)
      then show ?thesis by (intro stay) simp
    next
      case True
      let ?s = "if p = AttackerProcess then s\<lparr>ms_attacker_authorized := True\<rparr> else s"
      have c: "core_ok cfg ?s" using core by (simp add: core_ok_def)
      have same: "model_phase ?s i = model_phase s i" by (simp add: model_phase_def exec_of_def)
      have "apply_op op ?s = (r, n)" using ap Control True by simp
      from model_phase_op [OF c this, of i, unfolded same] show ?thesis
      proof (elim disjE conjE)
        assume "model_phase n i = model_phase s i"
        then show ?thesis by (rule stay)
      next
        assume 2: "op = ExecStart i" "model_phase s i = None" "model_phase n i = Some PhaseRunning"
        have "r = RespOk" using \<open>apply_op op ?s = (r, n)\<close> 2(1) by simp
        with 2 Control last ph show ?thesis
          by (intro exI [of _ Spawned] exI [of _ r]) (simp add: model_label_fits_def lc_spawn)
      next
        assume "op = ExecAck i" "r = RespOk" "model_phase s i = Some PhaseExited"
          "model_phase n i = Some PhaseAcked"
        with Control last ph show ?thesis
          by (intro exI [of _ OutputAcked] exI [of _ r]) (simp add: model_label_fits_def lc_ack)
      next
        assume "op = CollectAcked" "model_phase s i = Some PhaseAcked" "model_phase n i = None"
        with Control last ph show ?thesis
          by (intro exI [of _ Collected] exI [of _ r]) (simp add: model_label_fits_def lc_collect)
      qed
    qed
  next
    case (ChildExit j)
    with ap obtain e where e: "exec_of j s = Some e" "me_phase e = PhaseRunning"
      and n: "n = s\<lparr>ms_execs := exec_mut j (\<lambda>e. e\<lparr>me_phase := PhaseExited\<rparr>) (ms_execs s)\<rparr>"
      by (auto split: option.splits if_splits)
    then have ni: "model_phase n i = (if i = j then Some PhaseExited else model_phase s i)"
      by (simp add: model_phase_def exec_of_def exec_mut_find)
    show ?thesis
    proof (cases "i = j")
      case True
      have "model_phase s i = Some PhaseRunning" using e True by (simp add: model_phase_def)
      moreover have "model_phase n i = Some PhaseExited" using ni True by simp
      ultimately show ?thesis using True ChildExit last
        by (intro exI [of _ ChildExited] exI [of _ r])
          (simp add: model_label_fits_def lc_exit ph [unfolded True])
    next
      case False
      with ni show ?thesis by (intro stay) simp
    qed
  qed
qed

section \<open>Properties\<close>

text \<open>
  C10: The daemon implements the lifecycle its specification states. In every run, each step
  moves every exec id along running, exited, acked, collected and no other way: only a start
  answered 200 makes an id running, only its child's result makes it exited, only an ack that
  returns the output makes it acked (and every such ack does), and only a collection drops it,
  from acked.
\<close>
theorem daemon_refines_lifecycle:
  assumes "runs (init_system cfg img) tr y" and "do_act act y = Some (r, y')"
  shows "\<exists>l. lifecycle (daemon_phase y xid) l (daemon_phase y' xid) \<and> label_fits act r xid l"
  using act_follows_lifecycle [OF run_inv [OF assms(1)] assms(2)] .

theorem daemon_refines_lifecycle_witness:
  "\<exists>tr y y' l. runs (init_system demo_config None :: unit system) tr y \<and>
    do_act DoCollect y = Some (None, y') \<and> daemon_phase y ''a'' = Some PhaseExited \<and>
    lifecycle (Some PhaseExited) l (daemon_phase y' ''a'') \<and> label_fits (DoCollect :: unit act) None ''a'' l"
proof -
  obtain tr y where y: "runs demo_init tr y" "sh_result (cell (sy_daemon y) 0) = Some demo_outcome"
     "dm_execs (sy_daemon y) = [(''a'', \<lparr>en_pgid = Some 7, en_shared = 0,
            en_acked_at = None, en_started_at = 0, en_reap = False\<rparr>)]"
    using demo_exited by blast
  obtain y' where a: "do_act DoCollect y = Some (None, y')" by simp
  have "daemon_phase y ''a'' = Some PhaseExited"
    using y(2,3) by (simp add: daemon_phase_def entry_phase_def phase_of_def)
  moreover obtain l where "lifecycle (daemon_phase y ''a'') l (daemon_phase y' ''a'')"
    "label_fits (DoCollect :: unit act) None ''a'' l"
    using daemon_refines_lifecycle [OF y(1) [unfolded demo_init_def] a, of "''a''"] by blast
  ultimately show ?thesis
    using y(1) a by (intro exI [of _ tr] exI [of _ y] exI [of _ y'] exI [of _ l]) (simp add: demo_init_def)
qed

text \<open>
  The specification crate's state machine takes the same lifecycle steps as the daemon: from
  every reachable state each action moves every exec id along running, exited, acked, collected,
  a start only when it is answered, an ack only when it returns the output, and a collection only
  from acked.
\<close>
theorem model_refines_lifecycle:
  assumes "model_reachable mcfg s" and "next_state s act = Some s'"
  shows "\<exists>l r. ms_last s' = Some (act, r) \<and>
    lifecycle (model_phase s i) l (model_phase s' i) \<and> model_label_fits act r i l"
  using model_follows_lifecycle [OF _ assms(2)] reachable_core [OF assms(1)] by blast

theorem model_refines_lifecycle_witness:
  "\<exists>s' l r. next_state init_model_state (RunHook Platform HarnessToken) = Some s' \<and>
    lifecycle (model_phase init_model_state 0) l (model_phase s' 0) \<and>
    model_label_fits (RunHook Platform HarnessToken) r 0 l"
proof -
  obtain s' where m: "next_state init_model_state (RunHook Platform HarnessToken) = Some s'"
    by (simp add: next_state_def init_model_state_def)
  then show ?thesis using model_refines_lifecycle [OF reach_init m, of 0] by blast
qed

end
