(* ===== verification/AttachStream.thy ===== *)
theory AttachStream
  imports ReplayLog
begin

text \<open>
  One attached stream of \<open>crates/agentd/src/exec.rs\<close>: \<open>Attach\<close>,
  \<open>Attach::take_chunk\<close>, \<open>Attach::exit_event\<close>, \<open>build_stream\<close>. What the
  tokio broadcast channel hands the receiver is an input of the model, a list of receive results,
  each with the shared state (terminal marker, log total) as it is when the stream reads it. The
  base64 encoding of a chunk is a parameter \<open>enc\<close>; the properties use only that a decoder
  \<open>dec\<close> undoes it.
\<close>

definition unknown_terminal :: terminal where
  "unknown_terminal = \<lparr>tm_exit_code = None, tm_signal = None, tm_timed_out = False,
     tm_truncated = False, tm_writers_may_be_alive = False\<rparr>"

text \<open>What a stream reads of \<open>Shared\<close> at one moment.\<close>

record shared_view =
  sv_terminal :: "terminal option"
  sv_total :: nat

datatype recv = Received frame | Lagged nat | Closed

type_synonym recv_input = "recv \<times> shared_view"

record 'p attach =
  at_pending :: "'p event list"
  at_backlog :: "frame list"
  at_cursor :: nat
  at_finished :: bool

section \<open>The operations\<close>

text \<open>\<open>output_event\<close> and \<open>gap_event\<close>.\<close>

definition output_event :: "(bytes \<Rightarrow> 'p) \<Rightarrow> stream_kind \<Rightarrow> nat \<Rightarrow> bytes \<Rightarrow> 'p event" where
  "output_event enc kind offset bs = OutputEvent offset kind (enc bs)"

definition gap_event :: "nat \<Rightarrow> nat \<Rightarrow> 'p event" where
  "gap_event a b = GapEvent a b"

definition exit_event_of :: "shared_view \<Rightarrow> 'p event" where
  "exit_event_of v =
     (let t = (case sv_terminal v of None \<Rightarrow> unknown_terminal | Some t \<Rightarrow> t)
      in ExitEvent \<lparr>ex_exit_code = tm_exit_code t, ex_signal = tm_signal t,
           ex_timed_out = tm_timed_out t, ex_truncated = tm_truncated t,
           ex_writers_may_be_alive = tm_writers_may_be_alive t, ex_offset = sv_total v\<rparr>)"

definition take_chunk ::
  "(bytes \<Rightarrow> 'p) \<Rightarrow> stream_kind \<Rightarrow> nat \<Rightarrow> bytes \<Rightarrow> 'p attach \<Rightarrow> 'p attach" where
  "take_chunk enc kind offset bs a =
     (let end = offset + length bs
      in if end \<le> at_cursor a then a
         else
           (let a1 = (if at_cursor a < offset
                      then a\<lparr>at_pending := at_pending a @ [gap_event (at_cursor a) offset],
                             at_cursor := offset\<rparr>
                      else a);
                skip = at_cursor a1 - offset;
                slice = drop skip bs
            in a1\<lparr>at_pending := at_pending a1 @ [output_event enc kind (at_cursor a1) slice],
                  at_cursor := end\<rparr>))"

definition take_lag :: "shared_view \<Rightarrow> 'p attach \<Rightarrow> 'p attach" where
  "take_lag v a =
     (if at_cursor a < sv_total v
      then a\<lparr>at_pending := at_pending a @ [gap_event (at_cursor a) (sv_total v)],
             at_cursor := sv_total v\<rparr>
      else a)"

lemma take_chunk_backlog [simp]: "at_backlog (take_chunk enc k off b a) = at_backlog a"
  by (simp add: take_chunk_def Let_def)

lemma take_lag_backlog [simp]: "at_backlog (take_lag v a) = at_backlog a"
  by (simp add: take_lag_def)

lemma take_chunk_finished [simp]: "at_finished (take_chunk enc k off b a) = at_finished a"
  by (simp add: take_chunk_def Let_def)

lemma take_lag_finished [simp]: "at_finished (take_lag v a) = at_finished a"
  by (simp add: take_lag_def)

text \<open>The initial state \<open>build_stream\<close> makes from an attach.\<close>

definition open_attach ::
  "(nat \<times> nat) option \<Rightarrow> frame list \<Rightarrow> nat \<Rightarrow> bool \<Rightarrow> 'p attach" where
  "open_attach gap backlog cursor already_finished =
     \<lparr>at_pending = (case gap of None \<Rightarrow> [] | Some (a, b) \<Rightarrow> [gap_event a b]),
      at_backlog = backlog, at_cursor = cursor, at_finished = already_finished\<rparr>"

text \<open>
  One step of the unfolded stream: the loop that hands out a pending event, replays the backlog,
  ends if the exec was over at attach, or waits on the channel. \<open>None\<close> is a stream still
  waiting; an event with no next state is the last one. The view is the shared state read when
  the stream ends without waiting.
\<close>

function next_event ::
  "(bytes \<Rightarrow> 'p) \<Rightarrow> shared_view \<Rightarrow> recv_input list \<Rightarrow> 'p attach
     \<Rightarrow> ('p event \<times> 'p attach option \<times> recv_input list) option" where
  "next_event enc view inputs a =
     (case at_pending a of
        e # es \<Rightarrow> Some (e, Some (a\<lparr>at_pending := es\<rparr>), inputs)
      | [] \<Rightarrow>
         (case at_backlog a of
            Chunk k off b # fs \<Rightarrow>
              next_event enc view inputs (take_chunk enc k off b (a\<lparr>at_backlog := fs\<rparr>))
          | FinishedFrame # fs \<Rightarrow> next_event enc view inputs (a\<lparr>at_backlog := fs\<rparr>)
          | [] \<Rightarrow>
             (if at_finished a then Some (exit_event_of view, None, inputs)
              else
                (case inputs of
                   [] \<Rightarrow> None
                 | (Received (Chunk k off b), v) # rest \<Rightarrow>
                     next_event enc view rest (take_chunk enc k off b a)
                 | (Received FinishedFrame, v) # rest \<Rightarrow> Some (exit_event_of v, None, rest)
                 | (Lagged n, v) # rest \<Rightarrow> next_event enc view rest (take_lag v a)
                 | (Closed, v) # rest \<Rightarrow> Some (exit_event_of v, None, rest)))))"
  by pat_completeness auto
termination
  by (relation "measure (\<lambda>(enc, view, inputs, a). length (at_backlog a) + length inputs)") auto

declare next_event.simps [simp del]

text \<open>
  The same events described directly: what one chunk emits at a cursor, then the backlog, then
  the channel.
\<close>

definition emit :: "(bytes \<Rightarrow> 'p) \<Rightarrow> stream_kind \<Rightarrow> nat \<Rightarrow> bytes \<Rightarrow> nat \<Rightarrow> 'p event list \<times> nat" where
  "emit enc k off b c =
     (if off + length b \<le> c then ([], c)
      else ((if c < off then [gap_event c off] else []) @
            [output_event enc k (max c off) (drop (max c off - off) b)], off + length b))"

lemma take_chunk_emit:
  "take_chunk enc k off b a =
     a\<lparr>at_pending := at_pending a @ fst (emit enc k off b (at_cursor a)),
       at_cursor := snd (emit enc k off b (at_cursor a))\<rparr>"
  by (auto simp: take_chunk_def emit_def Let_def max_def)

fun frames_out :: "(bytes \<Rightarrow> 'p) \<Rightarrow> frame list \<Rightarrow> nat \<Rightarrow> 'p event list \<times> nat" where
  "frames_out enc [] c = ([], c)"
| "frames_out enc (Chunk k off b # fs) c =
     (fst (emit enc k off b c) @ fst (frames_out enc fs (snd (emit enc k off b c))),
      snd (frames_out enc fs (snd (emit enc k off b c))))"
| "frames_out enc (FinishedFrame # fs) c = frames_out enc fs c"

fun inputs_out :: "(bytes \<Rightarrow> 'p) \<Rightarrow> recv_input list \<Rightarrow> nat \<Rightarrow> 'p event list" where
  "inputs_out enc [] c = []"
| "inputs_out enc ((Received (Chunk k off b), v) # rest) c =
     fst (emit enc k off b c) @ inputs_out enc rest (snd (emit enc k off b c))"
| "inputs_out enc ((Received FinishedFrame, v) # rest) c = [exit_event_of v]"
| "inputs_out enc ((Lagged n, v) # rest) c =
     (if c < sv_total v then gap_event c (sv_total v) # inputs_out enc rest (sv_total v)
      else inputs_out enc rest c)"
| "inputs_out enc ((Closed, v) # rest) c = [exit_event_of v]"

definition rest_events ::
  "(bytes \<Rightarrow> 'p) \<Rightarrow> shared_view \<Rightarrow> recv_input list \<Rightarrow> 'p attach \<Rightarrow> 'p event list" where
  "rest_events enc view inputs a =
     at_pending a @ fst (frames_out enc (at_backlog a) (at_cursor a)) @
     (if at_finished a then [exit_event_of view]
      else inputs_out enc inputs (snd (frames_out enc (at_backlog a) (at_cursor a))))"

text \<open>
  What remains to be handed out weighs three for each frame to come (a frame makes two events at
  most) and one for each pending event; every event handed out takes at least one off.
\<close>

definition remaining :: "recv_input list \<Rightarrow> 'p attach \<Rightarrow> nat" where
  "remaining inputs a = 3 * (length (at_backlog a) + length inputs) + length (at_pending a)"

lemma emit_length: "length (fst (emit enc k off b c)) \<le> 2"
  by (simp add: emit_def)

lemma next_event_step:
  "case next_event enc view inputs a of
     None \<Rightarrow> rest_events enc view inputs a = []
   | Some (e, None, inputs') \<Rightarrow> rest_events enc view inputs a = [e]
   | Some (e, Some a', inputs') \<Rightarrow>
       rest_events enc view inputs a = e # rest_events enc view inputs' a' \<and>
       remaining inputs' a' < remaining inputs a"
  (is "?P enc view inputs a")
proof (induction enc view inputs a rule: next_event.induct)
  case (1 enc view inputs a)
  note unfold = next_event.simps [of enc view inputs a]
  show ?case
  proof (cases "at_pending a")
    case (Cons e es)
    then show ?thesis by (simp add: unfold rest_events_def remaining_def)
  next
    case pend: Nil
    show ?thesis
    proof (cases "at_backlog a")
      case bl: (Cons f fs)
      show ?thesis
      proof (cases f)
        case (Chunk k off b)
        let ?a = "take_chunk enc k off b (a\<lparr>at_backlog := fs\<rparr>)"
        have same: "rest_events enc view inputs ?a = rest_events enc view inputs a"
          "remaining inputs ?a \<le> remaining inputs a"
          using pend bl Chunk emit_length [of enc k off b "at_cursor a"]
          by (simp_all add: rest_events_def take_chunk_emit remaining_def)
        have "next_event enc view inputs a = next_event enc view inputs ?a"
          using unfold by (simp add: pend bl Chunk)
        with 1(3) [OF pend bl Chunk] same show ?thesis
          by (auto split: option.splits)
      next
        case FinishedFrame
        have same: "rest_events enc view inputs (a\<lparr>at_backlog := fs\<rparr>) = rest_events enc view inputs a"
          "remaining inputs (a\<lparr>at_backlog := fs\<rparr>) \<le> remaining inputs a"
          using pend bl FinishedFrame by (simp_all add: rest_events_def remaining_def)
        have "next_event enc view inputs a = next_event enc view inputs (a\<lparr>at_backlog := fs\<rparr>)"
          using unfold by (simp add: pend bl FinishedFrame)
        with 1(4) [OF pend bl FinishedFrame] same show ?thesis
          by (auto split: option.splits)
      qed
    next
      case bl: Nil
      show ?thesis
      proof (cases "at_finished a \<or> inputs = []")
        case True
        then show ?thesis by (auto simp: unfold pend bl rest_events_def)
      next
        case False
        then obtain r v rest where inp: "inputs = (r, v) # rest" and nf: "\<not> at_finished a"
          by (cases inputs) auto
        show ?thesis
        proof (cases r)
          case (Received f)
          show ?thesis
          proof (cases f)
            case (Chunk k off b)
            let ?a = "take_chunk enc k off b a"
            have same: "rest_events enc view rest ?a = rest_events enc view inputs a"
              "remaining rest ?a \<le> remaining inputs a"
              using pend bl inp nf Received Chunk emit_length [of enc k off b "at_cursor a"]
              by (simp_all add: rest_events_def take_chunk_emit remaining_def)
            have "next_event enc view inputs a = next_event enc view rest ?a"
              using unfold by (simp add: pend bl nf inp Received Chunk)
            with 1(1) [OF pend bl nf inp refl Received Chunk] same show ?thesis
              by (auto split: option.splits)
          next
            case FinishedFrame
            then show ?thesis using unfold by (simp add: pend bl nf inp Received rest_events_def)
          qed
        next
          case (Lagged n)
          have same: "rest_events enc view rest (take_lag v a) = rest_events enc view inputs a"
            "remaining rest (take_lag v a) \<le> remaining inputs a"
            using pend bl inp nf Lagged by (simp_all add: rest_events_def take_lag_def remaining_def)
          have "next_event enc view inputs a = next_event enc view rest (take_lag v a)"
            using unfold by (simp add: pend bl nf inp Lagged)
          with 1(2) [OF pend bl nf inp refl Lagged] same show ?thesis
            by (auto split: option.splits)
        next
          case Closed
          then show ?thesis using unfold by (simp add: pend bl nf inp rest_events_def)
        qed
      qed
    qed
  qed
qed

text \<open>The whole body of the response, for the channel inputs seen so far.\<close>

function stream_events ::
  "(bytes \<Rightarrow> 'p) \<Rightarrow> shared_view \<Rightarrow> recv_input list \<Rightarrow> 'p attach \<Rightarrow> 'p event list" where
  "stream_events enc view inputs a =
     (case next_event enc view inputs a of
        None \<Rightarrow> []
      | Some (e, None, inputs') \<Rightarrow> [e]
      | Some (e, Some a', inputs') \<Rightarrow> e # stream_events enc view inputs' a')"
  by pat_completeness auto
termination
proof (relation "measure (\<lambda>(enc, view, inputs, a). remaining inputs a)", goal_cases)
  case 1
  show ?case by simp
next
  case (2 enc view inputs a r e q s inputs' a')
  with next_event_step [of enc view inputs a] show ?case by auto
qed

declare stream_events.simps [simp del]

lemma stream_events_eq: "stream_events enc view inputs a = rest_events enc view inputs a"
proof (induction enc view inputs a rule: stream_events.induct)
  case (1 enc view inputs a)
  show ?case
  proof (cases "next_event enc view inputs a")
    case None
    with next_event_step [of enc view inputs a] show ?thesis
      by (simp add: stream_events.simps [of enc view inputs a])
  next
    case (Some r)
    obtain e q inputs' where r: "r = (e, q, inputs')" by (cases r)
    show ?thesis
    proof (cases q)
      case None
      with next_event_step [of enc view inputs a] Some r show ?thesis
        by (simp add: stream_events.simps [of enc view inputs a])
    next
      case (Some a')
      have "next_event enc view inputs a = Some (e, Some a', inputs')"
        using \<open>next_event enc view inputs a = Some r\<close> r Some by simp
      with 1 [of "(e, Some a', inputs')" e "(Some a', inputs')" "Some a'" inputs' a']
        next_event_step [of enc view inputs a]
      show ?thesis by (simp add: stream_events.simps [of enc view inputs a])
    qed
  qed
qed


section \<open>What a reader can rely on\<close>

text \<open>
  Events that account for every byte from one offset to another: each output starts where the
  previous event ended, and a gap says where it ends. An exit event is no part of it.
\<close>

fun tiles :: "('p \<Rightarrow> bytes) \<Rightarrow> nat \<Rightarrow> 'p event list \<Rightarrow> nat \<Rightarrow> bool" where
  "tiles dec p [] q \<longleftrightarrow> p = q"
| "tiles dec p (OutputEvent off k d # es) q \<longleftrightarrow>
     off = p \<and> tiles dec (p + length (dec d)) es q"
| "tiles dec p (GapEvent a b # es) q \<longleftrightarrow> a = p \<and> a < b \<and> tiles dec b es q"
| "tiles dec p (ExitEvent x # es) q \<longleftrightarrow> False"

lemma tiles_append: "tiles dec p (xs @ ys) q \<longleftrightarrow> (\<exists>m. tiles dec p xs m \<and> tiles dec m ys q)"
  by (induction dec p xs q rule: tiles.induct) auto

lemma tiles_le: "tiles dec p es q \<Longrightarrow> p \<le> q"
  by (induction dec p es q rule: tiles.induct) auto

fun faithful :: "('p \<Rightarrow> bytes) \<Rightarrow> history \<Rightarrow> 'p event \<Rightarrow> bool" where
  "faithful dec h (OutputEvent off k d) \<longleftrightarrow> frame_in h (Chunk k off (dec d))"
| "faithful dec h (GapEvent a b) \<longleftrightarrow> True"
| "faithful dec h (ExitEvent x) \<longleftrightarrow> True"

fun is_gap :: "'p event \<Rightarrow> bool" where
  "is_gap (GapEvent a b) \<longleftrightarrow> True"
| "is_gap (OutputEvent off k d) \<longleftrightarrow> False"
| "is_gap (ExitEvent x) \<longleftrightarrow> False"

fun out_bytes :: "('p \<Rightarrow> bytes) \<Rightarrow> 'p event list \<Rightarrow> history" where
  "out_bytes dec [] = []"
| "out_bytes dec (OutputEvent off k d # es) = tag k (dec d) @ out_bytes dec es"
| "out_bytes dec (GapEvent a b # es) = out_bytes dec es"
| "out_bytes dec (ExitEvent x # es) = out_bytes dec es"

definition inputs_true :: "history \<Rightarrow> recv_input list \<Rightarrow> bool" where
  "inputs_true h inputs \<longleftrightarrow> (\<forall>f v. (Received f, v) \<in> set inputs \<longrightarrow> frame_in h f)"

lemma inputs_true_Cons [simp]:
  "inputs_true h ((r, v) # rest) \<longleftrightarrow> (\<forall>f. r = Received f \<longrightarrow> frame_in h f) \<and> inputs_true h rest"
  by (auto simp: inputs_true_def)

text \<open>
  Where the live channel leads a cursor, and the marker at which it ends, if it does.
\<close>

fun reach :: "recv_input list \<Rightarrow> nat \<Rightarrow> nat" where
  "reach [] c = c"
| "reach ((Received (Chunk k off b), v) # rest) c = reach rest (max c (off + length b))"
| "reach ((Received FinishedFrame, v) # rest) c = c"
| "reach ((Lagged n, v) # rest) c = reach rest (max c (sv_total v))"
| "reach ((Closed, v) # rest) c = c"

fun closing :: "recv_input list \<Rightarrow> shared_view option" where
  "closing [] = None"
| "closing ((Received (Chunk k off b), v) # rest) = closing rest"
| "closing ((Received FinishedFrame, v) # rest) = Some v"
| "closing ((Lagged n, v) # rest) = closing rest"
| "closing ((Closed, v) # rest) = Some v"

text \<open>
  Where a stream ends that starts at \<open>c\<close>, and its last event: at the snapshot with the exit
  event when the exec was over at attach, else where the channel leads, with the exit event once
  the channel ends.
\<close>

definition stream_reach :: "bool \<Rightarrow> recv_input list \<Rightarrow> nat \<Rightarrow> nat" where
  "stream_reach fin inputs c = (if fin then c else reach inputs c)"

definition stream_exit :: "bool \<Rightarrow> shared_view \<Rightarrow> recv_input list \<Rightarrow> 'p event list" where
  "stream_exit fin view inputs =
     (case (if fin then Some view else closing inputs) of None \<Rightarrow> [] | Some v \<Rightarrow> [exit_event_of v])"

text \<open>
  What the broadcast channel hands one subscriber of the chunks \<open>fs\<close> it is sent before the end
  marker: each in order, but a receiver that lags loses the oldest chunks it has not read, all of
  them published by then; \<open>n\<close> bytes are published in all.
\<close>

fun frame_end :: "frame \<Rightarrow> nat" where
  "frame_end (Chunk k off b) = off + length b"
| "frame_end FinishedFrame = 0"

fun hands_over :: "nat \<Rightarrow> frame list \<Rightarrow> recv_input list \<Rightarrow> bool" where
  "hands_over n fs [] \<longleftrightarrow> False"
| "hands_over n fs ((Received FinishedFrame, v) # rest) \<longleftrightarrow> fs = []"
| "hands_over n fs ((Received (Chunk k off b), v) # rest) \<longleftrightarrow>
     (case fs of [] \<Rightarrow> False | f # fs' \<Rightarrow> f = Chunk k off b \<and> hands_over n fs' rest)"
| "hands_over n fs ((Lagged m, v) # rest) \<longleftrightarrow>
     m \<le> length fs \<and> sv_total v \<le> n \<and> (\<forall>f \<in> set (take m fs). frame_end f \<le> sv_total v) \<and>
     hands_over n (drop m fs) rest"
| "hands_over n fs ((Closed, v) # rest) \<longleftrightarrow> False"

text \<open>
  The stream sees the whole exec: it was over, with nothing published after the snapshot, or it
  runs and the channel hands over all that is published from an offset the snapshot covers.
\<close>

definition sees_all :: "bool \<Rightarrow> nat \<Rightarrow> nat \<Rightarrow> recv_input list \<Rightarrow> bool" where
  "sees_all fin held n inputs \<longleftrightarrow>
     (if fin then n = held
      else (\<exists>sent p. p \<le> held \<and> chain p sent n \<and> hands_over n sent inputs))"

lemma chain_split:
  "chain p fs n \<Longrightarrow> m \<le> length fs \<Longrightarrow> (\<forall>f \<in> set (take m fs). frame_end f \<le> t) \<Longrightarrow>
     \<exists>p'. p' \<le> max p t \<and> chain p' (drop m fs) n"
proof (induction m arbitrary: p fs)
  case 0
  then show ?case by (intro exI [of _ p]) simp
next
  case (Suc m)
  then obtain k b rest where fs: "fs = Chunk k p b # rest" "chain (p + length b) rest n"
    by (cases fs; cases "hd fs") auto
  with Suc.prems have "p + length b \<le> t" "\<forall>f \<in> set (take m rest). frame_end f \<le> t" "m \<le> length rest"
    by auto
  with Suc.IH [OF fs(2)] show ?case by (auto simp: fs max_def split: if_splits)
qed

lemma hands_over_reach:
  "hands_over n fs inputs \<Longrightarrow> chain p fs n \<Longrightarrow> p \<le> c \<Longrightarrow>
     reach inputs c = max c n \<and> closing inputs \<noteq> None"
proof (induction n fs inputs arbitrary: p c rule: hands_over.induct)
  case (3 n fs k off b v rest)
  then obtain fs' where fs: "fs = Chunk k off b # fs'" "hands_over n fs' rest"
    by (cases fs) auto
  with "3.prems" have ch: "off = p" "chain (p + length b) fs' n" by auto
  from "3.IH" [OF fs(1) fs(2) ch(2), of "max c (p + length b)"] chain_le [OF ch(2)] ch(1)
  show ?case by (simp add: max_def)
next
  case (4 n fs m v rest)
  then obtain p' where p': "p' \<le> max p (sv_total v)" "chain p' (drop m fs) n"
    using chain_split [of p fs n m "sv_total v"] by auto
  have "hands_over n (drop m fs) rest" "sv_total v \<le> n" "p' \<le> max c (sv_total v)"
    using 4 p' by auto
  with "4.IH" [OF _ p'(2), of "max c (sv_total v)"] show ?case by (auto simp: max_def)
qed auto

lemma sees_all_reach:
  assumes "sees_all fin held n inputs" and "held \<le> n"
  shows "stream_reach fin inputs (max c held) = max c n" and "stream_exit fin view inputs \<noteq> []"
proof -
  have "stream_reach fin inputs (max c held) = max c n \<and> stream_exit fin view inputs \<noteq> []"
  proof (cases fin)
    case True
    then show ?thesis using assms by (simp add: sees_all_def stream_reach_def stream_exit_def)
  next
    case False
    then obtain sent p where "p \<le> held" "chain p sent n" "hands_over n sent inputs"
      using assms(1) by (auto simp: sees_all_def)
    with hands_over_reach [of n sent inputs p "max c held"] assms(2) False show ?thesis
      by (auto simp: stream_reach_def stream_exit_def split: option.splits)
  qed
  then show "stream_reach fin inputs (max c held) = max c n" "stream_exit fin view inputs \<noteq> []" by auto
qed

lemma frame_in_drop:
  assumes "frame_in h (Chunk k off b)" and "n \<le> length b"
  shows "frame_in h (Chunk k (off + n) (drop n b))"
proof -
  have "take (length b - n) (drop (off + n) h) = drop n (take (length b) (drop off h))"
    by (simp add: drop_take add.commute)
  with assms show ?thesis by simp
qed

lemma emit_props:
  assumes "\<And>b. dec (enc b) = b"
  shows "tiles dec c (fst (emit enc k off b c)) (snd (emit enc k off b c))"
    and "frame_in h (Chunk k off b) \<Longrightarrow> e \<in> set (fst (emit enc k off b c)) \<Longrightarrow> faithful dec h e"
proof -
  show "tiles dec c (fst (emit enc k off b c)) (snd (emit enc k off b c))"
    using assms by (auto simp: emit_def gap_event_def output_event_def max_def)
  show "frame_in h (Chunk k off b) \<Longrightarrow> e \<in> set (fst (emit enc k off b c)) \<Longrightarrow> faithful dec h e"
    using assms frame_in_drop [of h k off b "max c off - off"]
    by (auto simp: emit_def gap_event_def output_event_def max_def split: if_splits simp del: frame_in.simps)
qed

lemma emit_no_gap: "off \<le> c \<Longrightarrow> e \<in> set (fst (emit enc k off b c)) \<Longrightarrow> \<not> is_gap e"
  by (auto simp: emit_def output_event_def split: if_splits)

lemma emit_cursor: "snd (emit enc k off b c) = max c (off + length b)"
  by (simp add: emit_def)

lemma frames_out_tiles:
  assumes "\<And>b. dec (enc b) = b"
  shows "tiles dec c (fst (frames_out enc fs c)) (snd (frames_out enc fs c))"
proof (induction fs arbitrary: c)
  case Nil
  then show ?case by simp
next
  case (Cons f fs)
  show ?case
  proof (cases f)
    case (Chunk k off b)
    with Cons.IH [of "snd (emit enc k off b c)"] emit_props(1) [of dec enc c k off b, OF assms]
    show ?thesis by (auto simp: tiles_append)
  next
    case FinishedFrame
    with Cons.IH show ?thesis by simp
  qed
qed

lemma frames_out_faithful:
  assumes "\<And>b. dec (enc b) = b"
  shows "(\<And>f. f \<in> set fs \<Longrightarrow> frame_in h f) \<Longrightarrow> e \<in> set (fst (frames_out enc fs c)) \<Longrightarrow> faithful dec h e"
proof (induction fs arbitrary: c)
  case Nil
  then show ?case by simp
next
  case (Cons f fs)
  show ?case
  proof (cases f)
    case (Chunk k off b)
    with Cons show ?thesis
      using emit_props(2) [of dec enc h k off b e c, OF assms]
      by (auto simp del: frame_in.simps)
  next
    case FinishedFrame
    with Cons show ?thesis by simp
  qed
qed

lemma frames_out_chain:
  "chain p fs q \<Longrightarrow> p \<le> c \<Longrightarrow>
    snd (frames_out enc fs c) = max c q \<and> (\<forall>e \<in> set (fst (frames_out enc fs c)). \<not> is_gap e)"
proof (induction fs arbitrary: p c)
  case Nil
  then show ?case by simp
next
  case (Cons f fs)
  then obtain k b where f: "f = Chunk k p b" and ch: "chain (p + length b) fs q"
    by (cases f) auto
  have snd: "snd (emit enc k p b c) = max c (p + length b)" by (rule emit_cursor)
  from Cons.IH [OF ch, of "max c (p + length b)"] chain_le [OF ch]
    emit_no_gap [of p c] Cons.prems(2)
  show ?case by (auto simp: f snd)
qed

lemma inputs_out_exact:
  assumes "\<And>b. dec (enc b) = b"
  shows "\<exists>body. inputs_out enc inputs c
        = body @ (case closing inputs of None \<Rightarrow> [] | Some v \<Rightarrow> [exit_event_of v]) \<and>
      tiles dec c body (reach inputs c) \<and>
      (inputs_true h inputs \<longrightarrow> (\<forall>e \<in> set body. faithful dec h e))"
proof (induction inputs arbitrary: c)
  case Nil
  then show ?case by simp
next
  case (Cons i inputs)
  obtain r v where i: "i = (r, v)" by (cases i)
  show ?case
  proof (cases r)
    case Closed
    then show ?thesis by (simp add: i)
  next
    case (Lagged n)
    obtain body where
      "inputs_out enc inputs (max c (sv_total v)) = body @ (case closing inputs of None \<Rightarrow> [] | Some v \<Rightarrow> [exit_event_of v])"
      "tiles dec (max c (sv_total v)) body (reach inputs (max c (sv_total v)))"
      "inputs_true h inputs \<longrightarrow> (\<forall>e \<in> set body. faithful dec h e)"
      using Cons.IH [of "max c (sv_total v)"] by blast
    with Lagged show ?thesis
      by (cases "c < sv_total v")
        (auto simp: i gap_event_def max_def intro: exI [of _ "gap_event c (sv_total v) # body"] exI [of _ body])
  next
    case (Received f)
    show ?thesis
    proof (cases f)
      case FinishedFrame
      then show ?thesis using Received by (simp add: i)
    next
      case (Chunk k off b)
      let ?c = "snd (emit enc k off b c)"
      obtain body where
        "inputs_out enc inputs ?c = body @ (case closing inputs of None \<Rightarrow> [] | Some v \<Rightarrow> [exit_event_of v])"
        "tiles dec ?c body (reach inputs ?c)"
        "inputs_true h inputs \<longrightarrow> (\<forall>e \<in> set body. faithful dec h e)"
        using Cons.IH [of ?c] by blast
      with emit_props(1) [of dec enc c k off b, OF assms]
        emit_props(2) [of dec enc h k off b _ c, OF assms] Received Chunk
      show ?thesis
        by (intro exI [of _ "fst (emit enc k off b c) @ body"])
          (auto simp: i tiles_append emit_cursor simp del: frame_in.simps)
    qed
  qed
qed

lemma inputs_out_props:
  assumes "\<And>b. dec (enc b) = b"
  shows "\<exists>body tail q. inputs_out enc inputs c = body @ tail \<and> tiles dec c body q \<and>
      (tail = [] \<or> (\<exists>v. tail = [exit_event_of v]))"
  using inputs_out_exact [of dec enc inputs c, OF assms]
  by (cases "closing inputs") (simp, blast)+

lemma chain_no_finished: "chain p fs q \<Longrightarrow> FinishedFrame \<notin> set fs"
  by (induction p fs q rule: chain.induct) auto

lemma inputs_out_sent:
  "FinishedFrame \<notin> set fs \<Longrightarrow>
    inputs_out enc (map (\<lambda>f. (Received f, w)) fs @ [(Received FinishedFrame, v)]) c
      = fst (frames_out enc fs c) @ [exit_event_of v]"
  by (induction enc fs c rule: frames_out.induct) auto

text \<open>Without gaps, what was delivered is the history itself between the two offsets.\<close>

lemma tiles_bytes:
  "tiles dec p es q \<Longrightarrow> \<forall>e \<in> set es. faithful dec h e \<and> \<not> is_gap e \<Longrightarrow>
     out_bytes dec es = take (q - p) (drop p h)"
proof (induction es arbitrary: p)
  case Nil
  then show ?case by simp
next
  case (Cons e es)
  show ?case
  proof (cases e)
    case (OutputEvent off k d)
    let ?n = "length (dec d)"
    from Cons OutputEvent have IH: "out_bytes dec es = take (q - (p + ?n)) (drop (p + ?n) h)"
      and t: "tiles dec (p + ?n) es q" and off: "off = p"
      and f: "take ?n (drop p h) = tag k (dec d)"
      by auto
    from tiles_le [OF t] have "q - p = ?n + (q - (p + ?n))" by simp
    then have "take (q - p) (drop p h) = take ?n (drop p h) @ take (q - (p + ?n)) (drop ?n (drop p h))"
      by (simp only: take_add)
    with IH f OutputEvent show ?thesis by (simp add: add.commute)
  qed (use Cons in auto)
qed

section \<open>Clients of the replay source\<close>

context replay_source
begin

text \<open>From any snapshot, whatever the channel then delivers.\<close>

lemma replay_end:
  assumes inv: "inv l h" and snap: "snapshot l fr = (g, fs, c)" and held: "first_held l \<le> length h"
  shows "snd (frames_out enc fs c) = max fr (length h)"
proof -
  have c: "c = max fr (first_held l)" using snapshot_gap [OF inv snap] by simp
  show ?thesis
  proof (cases "c < length h")
    case True
    with snapshot_chain [OF inv snap] obtain p where "p \<le> c" "chain p fs (length h)" by auto
    with frames_out_chain [of p fs "length h" c enc] True c show ?thesis by (simp add: max_def split: if_splits)
  next
    case False
    with snapshot_chain [OF inv snap] c held show ?thesis by (simp add: max_def split: if_splits)
  qed
qed

lemma stream_tiles:
  assumes dec: "\<And>b. dec (enc b) = b"
    and inv: "inv l h" and snap: "snapshot l fr = (g, fs, c)" and held: "first_held l \<le> length h"
    and live: "inputs_true (h @ later) inputs"
  shows "\<exists>body. stream_events enc view inputs (open_attach g fs c fin) = body @ stream_exit fin view inputs \<and>
    tiles dec fr body (stream_reach fin inputs (max fr (length h))) \<and>
    (\<forall>e \<in> set body. faithful dec (h @ later) e)"
proof -
  let ?g = "case g of None \<Rightarrow> [] | Some (a, b) \<Rightarrow> [gap_event a b]"
  let ?out = "frames_out enc fs c"
  have gap: "tiles dec fr ?g c \<and> (\<forall>e \<in> set ?g. faithful dec (h @ later) e)"
    using snapshot_gap [OF inv snap] by (auto simp: gap_event_def max_def)
  have bk: "tiles dec c (fst ?out) (max fr (length h))"
    "\<forall>e \<in> set (fst ?out). faithful dec (h @ later) e"
    using frames_out_tiles [of dec enc c fs, OF dec] replay_end [OF inv snap held, of enc]
      frames_out_faithful [of dec enc fs "h @ later", OF dec] frame_in_append [of h _ later]
      snapshot_true [OF inv snap] by (simp, blast)
  obtain body where rest: "(if fin then [exit_event_of view] else inputs_out enc inputs (max fr (length h)))
      = body @ stream_exit fin view inputs"
    "tiles dec (max fr (length h)) body (stream_reach fin inputs (max fr (length h)))"
    "\<forall>e \<in> set body. faithful dec (h @ later) e"
  proof (cases fin)
    case True
    then show ?thesis by (intro that [of "[]"]) (auto simp: stream_exit_def stream_reach_def)
  next
    case False
    then show ?thesis
      using that inputs_out_exact [of dec enc inputs "max fr (length h)" "h @ later", OF dec] live
      by (auto simp: stream_exit_def stream_reach_def)
  qed
  have "tiles dec fr (?g @ fst ?out @ body) (stream_reach fin inputs (max fr (length h)))"
    unfolding tiles_append using conjunct1 [OF gap] bk(1) rest(2) by blast
  moreover have "stream_events enc view inputs (open_attach g fs c fin)
      = (?g @ fst ?out @ body) @ stream_exit fin view inputs"
    using rest(1) replay_end [OF inv snap held, of enc]
    by (cases fin) (simp_all add: stream_events_eq rest_events_def open_attach_def)
  ultimately show ?thesis using gap bk(2) rest(3) by (intro exI [of _ "?g @ fst ?out @ body"]) auto
qed

text \<open>From a snapshot of a running exec, when the channel delivers everything published after.\<close>

lemma stream_lossless:
  assumes dec: "\<And>b. dec (enc b) = b"
    and inv: "inv l h" and snap: "snapshot l fr = (g, fs, c)"
    and fr: "fr \<le> length h" and held: "first_held l \<le> length h"
    and live: "chain (length h) sent (length h')" "\<And>f. f \<in> set sent \<Longrightarrow> frame_in h' f"
    and h': "h' = h @ later"
  shows "\<exists>body. stream_events enc view (map (\<lambda>f. (Received f, w)) sent @ [(Received FinishedFrame, v)])
      (open_attach g fs c False)
    = (case g of None \<Rightarrow> [] | Some (a, b) \<Rightarrow> [gap_event a b]) @ body @ [exit_event_of v] \<and>
    out_bytes dec body = drop (max fr (first_held l)) h' \<and> (\<forall>e \<in> set body. \<not> is_gap e)"
proof -
  let ?replay = "frames_out enc fs c" and ?live = "frames_out enc sent (length h)"
  have c: "c = max fr (first_held l)" using snapshot_gap [OF inv snap] by simp
  have fo: "snd ?replay = length h \<and> (\<forall>e \<in> set (fst ?replay). \<not> is_gap e)"
  proof (cases "c < length h")
    case True
    with snapshot_chain [OF inv snap] obtain p where "p \<le> c" "chain p fs (length h)" by auto
    with frames_out_chain [of p fs "length h" c enc] True show ?thesis by simp
  next
    case False
    with c fr held have "c = length h" by linarith
    moreover from False snapshot_chain [OF inv snap] have "fs = []" by simp
    ultimately show ?thesis by simp
  qed
  have lv: "snd ?live = length h' \<and> (\<forall>e \<in> set (fst ?live). \<not> is_gap e)"
    using frames_out_chain [of "length h" sent "length h'" "length h" enc] live(1)
      chain_le [OF live(1)] by simp
  let ?body = "fst ?replay @ fst ?live"
  have "tiles dec c (fst ?replay) (length h)" "tiles dec (length h) (fst ?live) (length h')"
    using frames_out_tiles [of dec enc c fs, OF dec] frames_out_tiles [of dec enc "length h" sent, OF dec]
      fo lv by simp_all
  then have "tiles dec c ?body (length h')" by (auto simp: tiles_append)
  moreover have "faithful dec h' e" if "e \<in> set (fst ?replay)" for e
    using frames_out_faithful [of dec enc fs h', OF dec _ that] snapshot_true [OF inv snap]
      frame_in_append [of h _ later] by (auto simp: h')
  moreover have "faithful dec h' e" if "e \<in> set (fst ?live)" for e
    using live(2) that by (rule frames_out_faithful [of dec enc sent h', OF dec])
  ultimately have "tiles dec c ?body (length h') \<and> (\<forall>e \<in> set ?body. faithful dec h' e \<and> \<not> is_gap e)"
    using fo lv by auto
  then have "out_bytes dec ?body = take (length h' - c) (drop c h')" using tiles_bytes by blast
  then have bytes: "out_bytes dec ?body = drop (max fr (first_held l)) h'" by (simp add: c)
  have ev: "stream_events enc view (map (\<lambda>f. (Received f, w)) sent @ [(Received FinishedFrame, v)])
      (open_attach g fs c False)
    = (case g of None \<Rightarrow> [] | Some (a, b) \<Rightarrow> [gap_event a b]) @ ?body @ [exit_event_of v]"
    using fo inputs_out_sent [OF chain_no_finished [OF live(1)]]
    by (simp add: stream_events_eq rest_events_def open_attach_def)
  have "\<forall>e \<in> set ?body. \<not> is_gap e" using fo lv by auto
  with ev bytes show ?thesis by (intro exI [of _ ?body] conjI)
qed

text \<open>A stream that found the exec already over ends at its snapshot, whatever came later.\<close>

lemma stream_finished_stops:
  assumes dec: "\<And>b. dec (enc b) = b"
    and inv: "inv l h" and snap: "snapshot l fr = (g, fs, c)"
  shows "\<exists>body. stream_events enc view inputs (open_attach g fs c True) = body @ [exit_event_of view] \<and>
    tiles dec fr body (max c (length h))"
proof -
  let ?g = "case g of None \<Rightarrow> [] | Some (a, b) \<Rightarrow> [gap_event a b]"
  have gap: "tiles dec fr ?g c"
    using snapshot_gap [OF inv snap] by (auto simp: gap_event_def max_def)
  have "snd (frames_out enc fs c) = max c (length h)"
  proof (cases "c < length h")
    case True
    with snapshot_chain [OF inv snap] obtain p where "p \<le> c" "chain p fs (length h)" by auto
    with frames_out_chain [of p fs "length h" c enc] show ?thesis by simp
  next
    case False
    with snapshot_chain [OF inv snap] show ?thesis by simp
  qed
  with gap frames_out_tiles [of dec enc c fs, OF dec] show ?thesis
    by (intro exI [of _ "?g @ fst (frames_out enc fs c)"])
      (auto simp: stream_events_eq rest_events_def open_attach_def tiles_append)
qed

end


section \<open>Properties\<close>

text \<open>The shared state of an exec that has published nothing.\<close>

definition idle_view :: shared_view where
  "idle_view = \<lparr>sv_terminal = None, sv_total = 0\<rparr>"

lemma fresh_log_inv: "log_inv (publish_all cap ps default_log) (published ps)"
  using publish_all_window by blast

lemma published_append: "published (ps @ qs) = published ps @ published qs"
  by (simp add: published_def)

lemma window_start_le: "lg_start (publish_all cap ps default_log) \<le> length (published ps)"
  using publish_all_window [of cap ps] by simp

text \<open>
  C3: Whatever the live channel does (deliver, repeat, skip, lag, close), one stream body
  accounts for every byte from the requested offset on, once and in order: each output event
  starts where the previous event ended and carries the bytes and the stream the command wrote
  at that offset, each hole is a gap event with its exact bounds, and without gaps the bytes are
  the command's own. It goes on to the end of the snapshot (an exec found over) or to where the
  channel leads, and the exit event comes last, exactly when the exec was over or the channel
  ended. When nothing was published between the snapshot and the marker of an exec found over, or
  the channel of a running one hands over what is published (losing chunks only to lags), the
  body reaches the last byte the command ever wrote and ends with the exit event. The one
  case left out is output that lands between the snapshot and the marker.
\<close>
theorem stream_accounts_for_every_byte:
  assumes "\<And>b. dec (enc b) = b"
    and "since (publish_all cap ps default_log) offset = (gap, backlog, cursor)"
    and "inputs_true (published (ps @ later)) inputs"
  shows "\<exists>body.
    stream_events enc view inputs (open_attach gap backlog cursor finished)
      = body @ stream_exit finished view inputs \<and>
    tiles dec offset body (stream_reach finished inputs (max offset (length (published ps)))) \<and>
    (\<forall>e \<in> set body. faithful dec (published (ps @ later)) e) \<and>
    (filter is_gap body = [] \<longrightarrow>
       out_bytes dec body
         = take (stream_reach finished inputs (max offset (length (published ps))) - offset)
             (drop offset (published (ps @ later)))) \<and>
    (sees_all finished (length (published ps)) (length (published (ps @ later))) inputs \<longrightarrow>
       tiles dec offset body (max offset (length (published (ps @ later)))) \<and>
       stream_exit finished view inputs \<noteq> ([] :: 'p event list))"
proof -
  let ?q = "stream_reach finished inputs (max offset (length (published ps)))"
  obtain body where b: "stream_events enc view inputs (open_attach gap backlog cursor finished)
      = body @ stream_exit finished view inputs"
    "tiles dec offset body ?q" "\<forall>e \<in> set body. faithful dec (published (ps @ later)) e"
    using ring.stream_tiles [where dec = dec and enc = enc, OF assms(1) fresh_log_inv assms(2) window_start_le,
        of "published later" inputs view finished] assms(3) by (auto simp: published_append)
  have "filter is_gap body = [] \<longrightarrow> out_bytes dec body = take (?q - offset) (drop offset (published (ps @ later)))"
    using tiles_bytes [OF b(2)] b(3) by (auto simp: filter_empty_conv)
  moreover have "length (published ps) \<le> length (published (ps @ later))" by (simp add: published_append)
  ultimately show ?thesis
    using b sees_all_reach [of finished "length (published ps)" "length (published (ps @ later))" inputs]
    by (intro exI [of _ body]) auto
qed

theorem stream_accounts_for_every_byte_witness:
  "\<exists>body. stream_events id idle_view
        [(Received (Chunk Stdout 2 [9]), idle_view), (Received FinishedFrame, idle_view)]
      (open_attach (Some (0, 1)) [Chunk Stdout 1 [8]] 1 False) = body @ [exit_event_of idle_view] \<and>
    tiles id 0 body 3"
proof -
  let ?in = "[(Received (Chunk Stdout 2 [9]), idle_view), (Received FinishedFrame, idle_view)]"
  have s: "since (publish_all 1 [(Stdout, [7, 8])] default_log) 0
      = (Some (0, 1), [Chunk Stdout 1 [8]], 1)"
    by (simp add: publish_def default_log_def trim.simps since_def chunk_frame_def)
  have t: "inputs_true (published ([(Stdout, [7, 8])] @ [(Stdout, [9])])) ?in"
    by (simp add: inputs_true_def published_def tag_def)
  have lens: "length (published [(Stdout, [7, 8])]) = 2" "length (published ([(Stdout, [7, 8])] @ [(Stdout, [9])])) = 3"
    by (simp_all add: published_def)
  have all: "sees_all False 2 3 ?in"
    by (simp add: sees_all_def) (intro exI [of _ "[Chunk Stdout 2 [9]]"] exI [of _ 2], simp)
  from stream_accounts_for_every_byte [where dec = id and enc = id, OF _ s t, of idle_view False, unfolded lens] all
  show ?thesis by (simp add: stream_exit_def) blast
qed

text \<open>
  While the exec runs and the channel delivers every chunk published after the attach, in
  order, and then the end marker, the stream delivers exactly the bytes the command wrote from
  the requested offset (or from the oldest byte of the window, after one gap event that says
  so), with no other gap, and ends with the exit event.
\<close>
theorem stream_delivers_everything:
  assumes "\<And>b. dec (enc b) = b"
    and "since (publish_all cap ps default_log) offset = (gap, backlog, cursor)"
    and "offset \<le> length (published ps)"
    and "chain (length (published ps)) sent (length (published (ps @ later)))"
    and "\<And>f. f \<in> set sent \<Longrightarrow> frame_in (published (ps @ later)) f"
  shows "\<exists>body. stream_events enc view
      (map (\<lambda>f. (Received f, w)) sent @ [(Received FinishedFrame, v)])
      (open_attach gap backlog cursor False)
    = (if offset < length (published ps) - cap
       then [GapEvent offset (length (published ps) - cap)] else []) @ body @ [exit_event_of v] \<and>
    out_bytes dec body
      = drop (max offset (length (published ps) - cap)) (published (ps @ later)) \<and>
    (\<forall>e \<in> set body. \<not> is_gap e)"
proof -
  let ?l = "publish_all cap ps default_log"
  have st: "lg_start ?l = length (published ps) - cap" using publish_all_window by blast
  have "lg_start ?l \<le> length (published ps)" by (simp add: st)
  from ring.stream_lossless [where dec = dec and enc = enc, OF assms(1) fresh_log_inv assms(2,3) this assms(4,5)
      published_append, unfolded st, of view w v]
    ring.snapshot_gap [OF fresh_log_inv assms(2), unfolded st]
  show ?thesis by (auto simp: gap_event_def)
qed

theorem stream_delivers_everything_witness:
  "\<exists>body. stream_events id idle_view
      [(Received (Chunk Stdout 2 [9]), idle_view), (Received FinishedFrame, idle_view)]
      (open_attach (Some (0, 1)) [Chunk Stdout 1 [8]] 1 False)
    = [GapEvent 0 1] @ body @ [exit_event_of idle_view] \<and>
    out_bytes id body = [(Stdout, 8), (Stdout, 9)] \<and> filter is_gap body = []"
proof -
  have s: "since (publish_all 1 [(Stdout, [7, 8])] default_log) 0
      = (Some (0, 1), [Chunk Stdout 1 [8]], 1)"
    by (simp add: publish_def default_log_def trim.simps since_def chunk_frame_def)
  from stream_delivers_everything [where dec = id and enc = id, OF _ s, of "[Chunk Stdout 2 [9]]" "[(Stdout, [9])]" idle_view idle_view idle_view]
  show ?thesis by (simp add: published_def tag_def filter_empty_conv)
qed

text \<open>
  Reconnecting at the offset where a gap-free connection stopped loses and repeats nothing:
  the bytes already received followed by the bytes of the second stream are the output from the
  first offset on, as long as the window still holds the resume offset.
\<close>
theorem resume_continues_exactly:
  assumes "\<And>b. dec (enc b) = b"
    and "tiles dec offset received q"
    and "\<forall>e \<in> set received. faithful dec (published ps) e \<and> \<not> is_gap e"
    and "since (publish_all cap ps default_log) q = (gap, backlog, cursor)"
    and "q \<le> length (published ps)" and "length (published ps) - cap \<le> q"
    and "chain (length (published ps)) sent (length (published (ps @ later)))"
    and "\<And>f. f \<in> set sent \<Longrightarrow> frame_in (published (ps @ later)) f"
  shows "\<exists>body. stream_events enc view
      (map (\<lambda>f. (Received f, w)) sent @ [(Received FinishedFrame, v)])
      (open_attach gap backlog cursor False) = body @ [exit_event_of v] \<and>
    out_bytes dec received @ out_bytes dec body = drop offset (published (ps @ later))"
proof -
  let ?l = "publish_all cap ps default_log"
  have st: "lg_start ?l = length (published ps) - cap" using publish_all_window by blast
  then have held: "lg_start ?l \<le> length (published ps)" by simp
  have "gap = None" using ring.snapshot_gap [OF fresh_log_inv assms(4), unfolded st] assms(6) by simp
  with ring.stream_lossless [where dec = dec and enc = enc, OF assms(1) fresh_log_inv assms(4,5) held assms(7,8)
      published_append, unfolded st, of view w v] assms(6)
  obtain body where body: "stream_events enc view
      (map (\<lambda>f. (Received f, w)) sent @ [(Received FinishedFrame, v)])
      (open_attach gap backlog cursor False) = body @ [exit_event_of v]"
    and out: "out_bytes dec body = drop q (published (ps @ later))"
    by (auto simp: max_def split: if_splits)
  have le: "offset \<le> q" by (rule tiles_le [OF assms(2)])
  have "out_bytes dec received = take (q - offset) (drop offset (published ps))"
    by (rule tiles_bytes [OF assms(2,3)])
  also have "\<dots> = take (q - offset) (drop offset (published (ps @ later)))"
    using le assms(5) by (simp add: published_append)
  finally have "out_bytes dec received @ out_bytes dec body
      = take (q - offset) (drop offset (published (ps @ later))) @
        drop (q - offset) (drop offset (published (ps @ later)))"
    using out le by simp
  then have "out_bytes dec received @ out_bytes dec body = drop offset (published (ps @ later))"
    by (simp only: append_take_drop_id)
  with body show ?thesis by blast
qed

theorem resume_continues_exactly_witness:
  "\<exists>body. stream_events id idle_view [(Received (Chunk Stderr 2 [9]), idle_view), (Received FinishedFrame, idle_view)]
      (open_attach None [Chunk Stdout 0 [7, 8]] 1 False) = body @ [exit_event_of idle_view] \<and>
    out_bytes id [OutputEvent 0 Stdout [7]] @ out_bytes id body
      = [(Stdout, 7), (Stdout, 8), (Stderr, 9)]"
proof -
  have s: "since (publish_all 5 [(Stdout, [7, 8])] default_log) 1
      = (None, [Chunk Stdout 0 [7, 8]], 1)"
    by (simp add: publish_def default_log_def trim.simps since_def chunk_frame_def)
  from resume_continues_exactly [where dec = id and enc = id, OF _ _ _ s, of 0 "[OutputEvent 0 Stdout [7]]"
      "[Chunk Stderr 2 [9]]" "[(Stderr, [9])]" idle_view idle_view idle_view]
  show ?thesis by (simp add: published_def tag_def)
qed

text \<open>
  A stream that finds the terminal marker set after it took its snapshot ends at the
  snapshot, and ignores its live channel: it accounts for no byte published between the snapshot
  and the marker, while its exit event carries the full total. If output landed in between, those
  bytes are neither delivered nor covered by a gap event.
\<close>
theorem finished_stream_stops_at_snapshot:
  assumes "\<And>b. dec (enc b) = b"
    and "since (publish_all cap ps default_log) offset = (gap, backlog, cursor)"
    and "offset \<le> length (published ps)"
  shows "\<exists>body. stream_events enc view inputs (open_attach gap backlog cursor True)
      = body @ [exit_event_of view] \<and>
    tiles dec offset body (length (published ps))"
proof -
  have "cursor = max offset (length (published ps) - cap)"
    using ring.snapshot_gap [OF fresh_log_inv assms(2)] publish_all_window by metis
  with assms(3) have "max cursor (length (published ps)) = length (published ps)" by simp
  with ring.stream_finished_stops [where dec = dec and enc = enc, OF assms(1) fresh_log_inv assms(2), of view inputs]
  show ?thesis by simp
qed

theorem finished_stream_stops_at_snapshot_witness:
  "\<exists>body. stream_events id \<lparr>sv_terminal = Some unknown_terminal, sv_total = 5\<rparr>
      [(Received (Chunk Stdout 2 [9, 9, 9]), idle_view)]
      (open_attach None [Chunk Stdout 0 [7, 8]] 0 True)
    = body @ [exit_event_of \<lparr>sv_terminal = Some unknown_terminal, sv_total = 5\<rparr>] \<and>
    tiles id 0 body (Suc (Suc 0))"
proof -
  have s: "since (publish_all 9 [(Stdout, [7, 8])] default_log) 0
      = (None, [Chunk Stdout 0 [7, 8]], 0)"
    by (simp add: publish_def default_log_def trim.simps since_def chunk_frame_def)
  from finished_stream_stops_at_snapshot [where dec = id and enc = id, OF _ s,
      where view = "\<lparr>sv_terminal = Some unknown_terminal, sv_total = 5\<rparr>"
        and inputs = "[(Received (Chunk Stdout 2 [9, 9, 9]), idle_view)]"]
  show ?thesis by (simp add: published_def tag_def)
qed

text \<open>
  A subscriber that lagged is not served again from the replay window: it gets a gap event
  up to the current total and only bytes past it, even when the window still holds every byte it
  missed (the ring's tail from its cursor is the history's).
\<close>
theorem lag_skips_what_the_window_holds:
  assumes "\<And>b. dec (enc b) = b"
    and "at_pending a = []" and "at_backlog a = []" and "\<not> at_finished a"
    and "length (published ps) - cap \<le> at_cursor a" and "at_cursor a < length (published ps)"
    and "sv_total v = lg_total (publish_all cap ps default_log)"
  shows "drop (at_cursor a - lg_start (publish_all cap ps default_log))
      (flat (lg_ring (publish_all cap ps default_log))) = drop (at_cursor a) (published ps) \<and>
    (\<exists>body tail q. stream_events enc view ((Lagged n, v) # inputs) a
        = GapEvent (at_cursor a) (length (published ps)) # body @ tail \<and>
      tiles dec (length (published ps)) body q \<and> (tail = [] \<or> (\<exists>w. tail = [exit_event_of w])))"
proof -
  have inv: "log_inv (publish_all cap ps default_log) (published ps)" by (rule fresh_log_inv)
  have st: "lg_start (publish_all cap ps default_log) = length (published ps) - cap"
    using publish_all_window by blast
  have tot: "sv_total v = length (published ps)" using inv assms(7) by (simp add: log_inv_def)
  obtain body tail q where "inputs_out enc inputs (length (published ps)) = body @ tail"
    "tiles dec (length (published ps)) body q" "tail = [] \<or> (\<exists>v. tail = [exit_event_of v])"
    using inputs_out_props [where dec = dec and enc = enc and inputs = inputs, OF assms(1)] by blast
  then show ?thesis
    using inv assms st tot
    by (auto simp: log_inv_def stream_events_eq rest_events_def gap_event_def)
qed

theorem lag_skips_what_the_window_holds_witness:
  "\<exists>body tail q. stream_events id idle_view [(Lagged 1, \<lparr>sv_terminal = None, sv_total = 2\<rparr>)]
      \<lparr>at_pending = [], at_backlog = [], at_cursor = 1, at_finished = False\<rparr>
    = GapEvent 1 (Suc (Suc 0)) # body @ tail \<and>
      tiles id (Suc (Suc 0)) body q \<and> (tail = [] \<or> (\<exists>w. tail = [exit_event_of w]))"
  using lag_skips_what_the_window_holds [of id id
      "\<lparr>at_pending = [], at_backlog = [], at_cursor = 1, at_finished = False\<rparr>"
      "[(Stdout, [7, 8])]" 9 "\<lparr>sv_terminal = None, sv_total = 2\<rparr>" idle_view 1 "[]"]
  by (simp add: published_def tag_def publish_def default_log_def trim.simps)

end
