(* ===== verification/Disk.thy ===== *)
theory Disk
  imports Prelude
begin

text \<open>
  The disk-pressure guard (\<open>crates/agentd/src/disk.rs\<close>). Free space is measured through a
  probe, a function of the filesystem and the target path, \<open>None\<close> when it fails. The
  filesystem written to is its free space and the bytes of the file being written; a source is
  the bytes still to come and whether it ends in a read error rather than at end of file.
\<close>

section \<open>Readings and the guard\<close>

record reading =
  rd_available :: nat
  rd_reserve :: nat

definition under_pressure :: "reading \<Rightarrow> bool" where
  "under_pressure r \<longleftrightarrow> 0 < rd_reserve r \<and> rd_available r < rd_reserve r"

record file_system =
  fs_free :: nat
  fs_file :: bytes

record 'f guard =
  gd_probe :: "'f \<Rightarrow> string \<Rightarrow> nat option"
  gd_reserve :: nat

definition guard_read :: "'f guard \<Rightarrow> 'f \<Rightarrow> string \<Rightarrow> reading option" where
  "guard_read g fs path =
     map_option (\<lambda>n. \<lparr>rd_available = n, rd_reserve = gd_reserve g\<rparr>) (gd_probe g fs path)"

definition preflight :: "'f guard \<Rightarrow> 'f \<Rightarrow> string \<Rightarrow> reading option" where
  "preflight g fs path =
     (case guard_read g fs path of
        Some r \<Rightarrow> if under_pressure r then Some r else None
      | None \<Rightarrow> None)"

definition PROBE_INTERVAL_BYTES :: nat where
  "PROBE_INTERVAL_BYTES = 8 * 1024 * 1024"

lemma probe_interval_pos [simp]: "0 < PROBE_INTERVAL_BYTES"
  by (simp add: PROBE_INTERVAL_BYTES_def)

section \<open>The pacer\<close>

record 'f pacer =
  pa_guard :: "'f guard"
  pa_since_probe :: nat

definition new_pacer :: "'f guard \<Rightarrow> 'f pacer" where
  "new_pacer g = \<lparr>pa_guard = g, pa_since_probe = 0\<rparr>"

definition pacer_record ::
  "nat \<Rightarrow> string \<Rightarrow> 'f \<Rightarrow> 'f pacer \<Rightarrow> reading option \<times> 'f pacer" where
  "pacer_record n target fs p =
     (let since = saturating_add64 (pa_since_probe p) n
      in if since < PROBE_INTERVAL_BYTES then (None, p\<lparr>pa_since_probe := since\<rparr>)
         else (preflight (pa_guard p) fs target, p\<lparr>pa_since_probe := 0\<rparr>))"

section \<open>The guarded copy\<close>

datatype copy_error = Pressure reading | Io

text \<open>
  One slice: \<open>tokio::io::copy\<close> of at most \<open>limit\<close> bytes. A slice the filesystem cannot
  hold, or one the source cannot finish, is an error after the bytes that did fit.
\<close>

definition append_bytes :: "bytes \<Rightarrow> file_system \<Rightarrow> file_system" where
  "append_bytes bs fs = fs\<lparr>fs_free := fs_free fs - length bs, fs_file := fs_file fs @ bs\<rparr>"

definition copy_slice ::
  "nat \<Rightarrow> bytes \<times> bool \<Rightarrow> file_system \<Rightarrow> nat option \<times> (bytes \<times> bool) \<times> file_system" where
  "copy_slice limit src fs =
     (let chunk = take limit (fst src); rest = (drop limit (fst src), snd src)
      in if fs_free fs < length chunk then (None, rest, append_bytes (take (fs_free fs) chunk) fs)
         else if length chunk < limit \<and> snd src then (None, rest, append_bytes chunk fs)
         else (Some (length chunk), rest, append_bytes chunk fs))"

lemma copy_slice_rest: "copy_slice limit src fs = (r, rest, fs') \<Longrightarrow> rest = (drop limit (fst src), snd src)"
  by (auto simp: copy_slice_def Let_def split: if_splits)

function copy_guarded ::
  "file_system guard \<Rightarrow> string \<Rightarrow> bytes \<times> bool \<Rightarrow> file_system \<Rightarrow> nat
     \<Rightarrow> ((nat \<times> copy_error) + nat) \<times> file_system" where
  "copy_guarded g target src fs written =
     (case copy_slice PROBE_INTERVAL_BYTES src fs of
        (None, _, fs') \<Rightarrow> (Inl (written, Io), fs')
      | (Some copied, rest, fs') \<Rightarrow>
          if copied < PROBE_INTERVAL_BYTES then (Inr (written + copied), fs')
          else
            (case preflight g fs' target of
               Some r \<Rightarrow> (Inl (written + copied, Pressure r), fs')
             | None \<Rightarrow> copy_guarded g target rest fs' (written + copied)))"
  by pat_completeness auto
termination
  by (relation "measure (\<lambda>(g, target, src, fs, written). length (fst src))")
    (auto simp: copy_slice_def Let_def min_def split: if_splits intro!: diff_less)

declare copy_guarded.simps [simp del]

section \<open>How far a transfer can overrun the reserve\<close>

text \<open>A probe that tells the truth about the filesystem, as \<open>statvfs\<close> documents.\<close>

definition truthful :: "file_system guard \<Rightarrow> string \<Rightarrow> bool" where
  "truthful g target \<longleftrightarrow> (\<forall>fs. gd_probe g fs target = Some (fs_free fs))"

lemma preflight_truthful:
  "truthful g target \<Longrightarrow> preflight g fs target =
     (if fs_free fs < gd_reserve g
      then Some \<lparr>rd_available = fs_free fs, rd_reserve = gd_reserve g\<rparr> else None)"
  by (simp add: truthful_def preflight_def guard_read_def under_pressure_def)

lemma append_bytes_sel [simp]:
  "fs_free (append_bytes bs fs) = fs_free fs - length bs"
  "fs_file (append_bytes bs fs) = fs_file fs @ bs"
  by (simp_all add: append_bytes_def)

lemma copy_slice_props:
  assumes "copy_slice limit src fs = (r, rest, fs')"
  shows "fs_free fs \<le> fs_free fs' + limit \<and>
    (\<exists>k \<le> length (take limit (fst src)). fs_file fs' = fs_file fs @ take k (fst src) \<and>
       (case r of None \<Rightarrow> True | Some copied \<Rightarrow> k = copied \<and> copied = length (take limit (fst src)) \<and>
          \<not> (copied < limit \<and> snd src)))"
proof -
  let ?chunk = "take limit (fst src)"
  consider "fs_free fs < length ?chunk" "r = None" "fs' = append_bytes (take (fs_free fs) ?chunk) fs"
    | "\<not> fs_free fs < length ?chunk" "r = None" "fs' = append_bytes ?chunk fs"
    | "\<not> fs_free fs < length ?chunk" "r = Some (length ?chunk)" "fs' = append_bytes ?chunk fs"
        "\<not> (length ?chunk < limit \<and> snd src)"
    using assms by (auto simp: copy_slice_def Let_def split: if_splits)
  then show ?thesis
  proof cases
    case 1
    then show ?thesis by (auto intro!: exI [of _ "fs_free fs"] simp: min_def)
  next
    case 2
    then show ?thesis by (auto intro!: exI [of _ "length ?chunk"] simp: min_def)
  next
    case 3
    then show ?thesis by (auto intro!: exI [of _ "length ?chunk"] simp: min_def)
  qed
qed

text \<open>
  What one copy has done when it stops: the bytes that landed are a prefix of the source, the
  free space is at most one probe interval under the reserve, and the count it reports is exact
  except after an I/O error, where it leaves out the slice that failed.
\<close>

definition copy_result_ok ::
  "nat \<Rightarrow> bytes \<times> bool \<Rightarrow> nat \<Rightarrow> nat \<Rightarrow> (nat \<times> copy_error) + nat \<Rightarrow> file_system \<Rightarrow> bool" where
  "copy_result_ok reserve src k written r fs' \<longleftrightarrow>
     (case r of
        Inr n \<Rightarrow> n = written + k \<and> k = length (fst src) \<and> \<not> snd src
      | Inl (n, Pressure rd) \<Rightarrow>
          n = written + k \<and> rd_available rd = fs_free fs' \<and> fs_free fs' < reserve
      | Inl (n, Io) \<Rightarrow> n \<le> written + k \<and> written + k \<le> n + PROBE_INTERVAL_BYTES)"

lemma copy_guarded_props:
  assumes "truthful g target" and "gd_reserve g \<le> fs_free fs"
    and "copy_guarded g target src fs written = (r, fs')"
  shows "gd_reserve g \<le> fs_free fs' + PROBE_INTERVAL_BYTES \<and>
    (\<exists>k \<le> length (fst src). fs_file fs' = fs_file fs @ take k (fst src) \<and>
       copy_result_ok (gd_reserve g) src k written r fs')"
  using assms
proof (induction g target src fs written arbitrary: r fs' rule: copy_guarded.induct)
  case (1 g target src fs written)
  let ?P = PROBE_INTERVAL_BYTES
  obtain c rest fs1 where sl: "copy_slice ?P src fs = (c, rest, fs1)"
    by (cases "copy_slice ?P src fs") auto
  from copy_slice_props [OF sl] obtain k where b: "fs_free fs \<le> fs_free fs1 + ?P"
    and k: "k \<le> length (take ?P (fst src))" "fs_file fs1 = fs_file fs @ take k (fst src)"
    and c: "case c of None \<Rightarrow> True | Some copied \<Rightarrow> k = copied \<and>
      copied = length (take ?P (fst src)) \<and> \<not> (copied < ?P \<and> snd src)" by blast
  note run = 1(4) [unfolded copy_guarded.simps [of g target src fs written] sl, simplified]
  have bound: "gd_reserve g \<le> fs_free fs1 + ?P" using b 1(3) by simp
  show ?case
  proof (cases c)
    case None
    with run have "r = Inl (written, Io)" "fs' = fs1" by simp_all
    with bound k show ?thesis
      by (intro conjI exI [of _ k]) (auto simp: copy_result_ok_def)
  next
    case (Some copied)
    with c have kc: "k = copied" "copied = length (take ?P (fst src))" "\<not> (copied < ?P \<and> snd src)"
      by simp_all
    show ?thesis
    proof (cases "copied < ?P")
      case True
      with run Some have "r = Inr (written + copied)" "fs' = fs1" by simp_all
      with bound k kc True show ?thesis
        by (intro conjI exI [of _ k]) (auto simp: copy_result_ok_def)
    next
      case False
      show ?thesis
      proof (cases "fs_free fs1 < gd_reserve g")
        case True
        with run Some False preflight_truthful [OF 1(2)]
        have "r = Inl (written + copied, Pressure \<lparr>rd_available = fs_free fs1,
            rd_reserve = gd_reserve g\<rparr>)" "fs' = fs1" by auto
        with bound k kc True show ?thesis
          by (intro conjI exI [of _ k]) (auto simp: copy_result_ok_def)
      next
        case enough: False
        with run Some False preflight_truthful [OF 1(2)]
        have rec: "copy_guarded g target rest fs1 (written + copied) = (r, fs')" by simp
        have pre: "preflight g fs1 target = None" using enough preflight_truthful [OF 1(2)] by simp
        from 1(1) [OF sl [symmetric] Some refl False pre 1(2) _ rec] enough
        obtain k' where g: "gd_reserve g \<le> fs_free fs' + ?P"
          and k': "k' \<le> length (fst rest)" "fs_file fs' = fs_file fs1 @ take k' (fst rest)"
          and ok: "copy_result_ok (gd_reserve g) rest k' (written + copied) r fs'" by auto
        have rest: "rest = (drop ?P (fst src), snd src)" by (rule copy_slice_rest [OF sl])
        have "copied = ?P" using kc False by simp
        with k k' kc rest have "fs_file fs' = fs_file fs @ take (?P + k') (fst src)"
          by (simp add: take_add)
        moreover have "?P + k' \<le> length (fst src)" using k'(1) kc \<open>copied = ?P\<close> rest by simp
        moreover have "copy_result_ok (gd_reserve g) src (?P + k') written r fs'"
          using ok rest \<open>copied = ?P\<close> \<open>?P + k' \<le> length (fst src)\<close>
          by (auto simp: copy_result_ok_def split: sum.splits prod.splits copy_error.splits)
        ultimately show ?thesis using g by blast
      qed
    qed
  qed
qed

text \<open>
  Members written one after the other, each whole, with the pacer asked after each: how the tar
  extraction of \<open>fs.rs\<close> uses it.
\<close>

fun paced :: "file_system pacer \<Rightarrow> string \<Rightarrow> bytes list \<Rightarrow> file_system \<Rightarrow> copy_error option \<times> file_system" where
  "paced p target [] fs = (None, fs)"
| "paced p target (m # ms) fs =
     (if fs_free fs < length m then (Some Io, append_bytes (take (fs_free fs) m) fs)
      else
        (case pacer_record (length m) target (append_bytes m fs) p of
           (Some r, _) \<Rightarrow> (Some (Pressure r), append_bytes m fs)
         | (None, p') \<Rightarrow> paced p' target ms (append_bytes m fs)))"

lemma saturating_less: "saturating_add64 a b < PROBE_INTERVAL_BYTES \<longleftrightarrow> a + b < PROBE_INTERVAL_BYTES"
  by (auto simp: saturating_add64_def u64_max_def PROBE_INTERVAL_BYTES_def)

lemma saturating_small: "a + b < PROBE_INTERVAL_BYTES \<Longrightarrow> saturating_add64 a b = a + b"
  by (simp add: saturating_add64_def u64_max_def PROBE_INTERVAL_BYTES_def)

lemma paced_bound:
  assumes "truthful (pa_guard p) target" and "pa_since_probe p < PROBE_INTERVAL_BYTES"
    and "gd_reserve (pa_guard p) \<le> fs_free fs + pa_since_probe p"
    and "\<forall>m \<in> set ms. length m \<le> M" and "paced p target ms fs = (r, fs')"
  shows "gd_reserve (pa_guard p) \<le> fs_free fs' + PROBE_INTERVAL_BYTES + M"
  using assms
proof (induction p target ms fs arbitrary: r fs' rule: paced.induct)
  case (1 p target fs)
  then show ?case by simp
next
  case (2 p target m ms fs)
  let ?fs = "append_bytes m fs"
  have m: "length m \<le> M" using 2(5) by simp
  have left: "gd_reserve (pa_guard p) \<le> fs_free ?fs + length m + pa_since_probe p" using 2(4) by simp
  show ?case
  proof (cases "fs_free fs < length m")
    case True
    with 2(6) have "fs' = append_bytes (take (fs_free fs) m) fs" by simp
    with True m 2(3,4) show ?thesis by simp
  next
    case fits: False
    show ?thesis
    proof (cases "pa_since_probe p + length m < PROBE_INTERVAL_BYTES")
      case True
      then have rec: "pacer_record (length m) target ?fs p
          = (None, p\<lparr>pa_since_probe := pa_since_probe p + length m\<rparr>)"
        by (simp add: pacer_record_def saturating_small Let_def)
      from 2(1) [OF fits rec [symmetric] refl] fits True 2(2,5,6) rec left show ?thesis
        by (simp add: ac_simps)
    next
      case False
      then have rec: "pacer_record (length m) target ?fs p
          = (preflight (pa_guard p) ?fs target, p\<lparr>pa_since_probe := 0\<rparr>)"
        by (simp add: pacer_record_def saturating_less Let_def)
      show ?thesis
      proof (cases "fs_free ?fs < gd_reserve (pa_guard p)")
        case True
        with fits rec 2(6) preflight_truthful [OF 2(2)] have "fs' = ?fs" by auto
        with left m 2(3) show ?thesis by simp
      next
        case enough: False
        with rec preflight_truthful [OF 2(2)]
        have rec0: "pacer_record (length m) target ?fs p = (None, p\<lparr>pa_since_probe := 0\<rparr>)" by simp
        from 2(1) [OF fits rec0 [symmetric] refl] fits 2(2,5,6) rec0 enough show ?thesis by simp
      qed
    qed
  qed
qed

section \<open>Properties\<close>

text \<open>
  C8: A guarded copy that passed its preflight can overrun the reserve by at most one probe
  interval (8 MiB), however large the upload and however it ends, when it is the only writer and
  the probe is right. What lands is a prefix of the source; the count reported with success or
  pressure is exactly what landed, and after an I/O error it is short by at most the slice that
  failed.
\<close>
theorem guarded_copy_overshoot_bounded:
  assumes "truthful g target" and "preflight g fs target = None"
    and "copy_guarded g target src fs 0 = (r, fs')"
  shows "gd_reserve g \<le> fs_free fs' + PROBE_INTERVAL_BYTES \<and>
    (\<exists>k \<le> length (fst src). fs_file fs' = fs_file fs @ take k (fst src) \<and>
       copy_result_ok (gd_reserve g) src k 0 r fs')"
proof -
  have "gd_reserve g \<le> fs_free fs"
    using assms(2) preflight_truthful [OF assms(1), of fs] by (simp split: if_splits)
  from copy_guarded_props [OF assms(1) this assms(3)] show ?thesis .
qed

theorem guarded_copy_overshoot_bounded_witness:
  "\<exists>r fs'. copy_guarded \<lparr>gd_probe = (\<lambda>fs _. Some (fs_free fs)), gd_reserve = 5\<rparr> ''/t''
      ([1, 2], True) \<lparr>fs_free = 6, fs_file = []\<rparr> 0 = (r, fs') \<and>
    5 \<le> fs_free fs' + PROBE_INTERVAL_BYTES \<and> fs_file fs' = [1, 2] \<and> r = Inl (0, Io)"
proof -
  let ?g = "\<lparr>gd_probe = (\<lambda>fs _. Some (fs_free fs)), gd_reserve = 5\<rparr>"
  let ?fs = "\<lparr>fs_free = 6, fs_file = []\<rparr>"
  have t: "truthful ?g ''/t''" by (simp add: truthful_def)
  have p: "preflight ?g ?fs ''/t'' = None" by (simp add: preflight_truthful [OF t])
  have "copy_slice PROBE_INTERVAL_BYTES ([1, 2], True) ?fs
      = (None, ([], True), append_bytes [1, 2] ?fs)"
    by (simp add: copy_slice_def PROBE_INTERVAL_BYTES_def)
  then have c: "copy_guarded ?g ''/t'' ([1, 2], True) ?fs 0 = (Inl (0, Io), append_bytes [1, 2] ?fs)"
    by (simp add: copy_guarded.simps)
  from guarded_copy_overshoot_bounded [OF t p c] c show ?thesis by simp
qed

text \<open>
  The pacer bounds an extraction's overrun by one probe interval plus the largest member,
  and no better: members are written whole before the pacer is asked, so a first member as large
  as the free space takes all of it, whatever the reserve.
\<close>
theorem paced_extraction_overshoot:
  assumes "truthful g target" and "preflight g fs target = None"
    and "\<forall>m \<in> set ms. length m \<le> M" and "paced (new_pacer g) target ms fs = (r, fs')"
  shows "gd_reserve g \<le> fs_free fs' + PROBE_INTERVAL_BYTES + M \<and>
    (\<forall>m. length m = fs_free fs \<longrightarrow> fs_free (snd (paced (new_pacer g) target [m] fs)) = 0)"
proof -
  have le: "gd_reserve g \<le> fs_free fs"
    using assms(2) preflight_truthful [OF assms(1), of fs] by (simp split: if_splits)
  have "fs_free (snd (paced (new_pacer g) target [m] fs)) = 0" if "length m = fs_free fs" for m
    using that by (auto split: prod.splits option.splits)
  then show ?thesis
    using paced_bound [of "new_pacer g", OF _ _ _ assms(3,4)] assms(1) le
    by (simp add: new_pacer_def)
qed

theorem paced_extraction_overshoot_witness:
  "fs_free (snd (paced (new_pacer \<lparr>gd_probe = (\<lambda>fs _. Some (fs_free fs)), gd_reserve = 3\<rparr>) ''/t''
      [[1, 2, 3]] \<lparr>fs_free = 3, fs_file = []\<rparr>)) = 0"
proof -
  let ?g = "\<lparr>gd_probe = (\<lambda>fs _. Some (fs_free fs)), gd_reserve = 3\<rparr>"
  let ?fs = "\<lparr>fs_free = 3, fs_file = []\<rparr>"
  have t: "truthful ?g ''/t''" by (simp add: truthful_def)
  have p: "preflight ?g ?fs ''/t'' = None" by (simp add: preflight_truthful [OF t])
  obtain r fs' where c: "paced (new_pacer ?g) ''/t'' [[4]] ?fs = (r, fs')" by (cases "paced (new_pacer ?g) ''/t'' [[4]] ?fs")
  from conjunct2 [OF paced_extraction_overshoot [OF t p _ c, of 1], rule_format, of "[1, 2, 3]"]
  show ?thesis by simp
qed

end
