(* ===== verification/LineRange.thy ===== *)
theory LineRange
  imports Strings
begin

text \<open>
  The line range of a file read: the query of \<open>crates/protocol/src/fs.rs\<close> and the chunk
  filter of \<open>crates/agentd/src/fs.rs\<close> (\<open>LineSlicer\<close>, \<open>sliced_stream\<close>). The
  source is the list of what reading the file gives, \<open>None\<close> a read error. A line owns its
  newline, so the specification cuts the file into lines and keeps a run of them.
\<close>

section \<open>The query\<close>

record file_read_query =
  fq_path :: string
  fq_start_line :: "nat option"
  fq_end_line :: "nat option"

datatype range_error = LineZero | EndBeforeStart nat nat

definition line_window :: "file_read_query \<Rightarrow> range_error + (nat \<times> nat option) option" where
  "line_window q =
     (if fq_start_line q = None \<and> fq_end_line q = None then Inr None
      else
        (let start = (case fq_start_line q of None \<Rightarrow> 1 | Some n \<Rightarrow> n)
         in if start = 0 then Inl LineZero
            else
              (case fq_end_line q of
                 Some e \<Rightarrow> if e < start then Inl (EndBeforeStart e start)
                           else Inr (Some (start, Some e))
               | None \<Rightarrow> Inr (Some (start, None)))))"

section \<open>The slicer\<close>

record line_slicer =
  ls_start :: nat
  ls_end :: "nat option"
  ls_line :: nat
  ls_finished :: bool

definition slicer_new :: "nat \<Rightarrow> nat option \<Rightarrow> line_slicer" where
  "slicer_new start end' =
     \<lparr>ls_start = start, ls_end = end', ls_line = 1, ls_finished = False\<rparr>"

definition line_range :: "file_read_query \<Rightarrow> range_error + line_slicer option" where
  "line_range q =
     bind_r (line_window q) (\<lambda>w. Inr (map_option (\<lambda>(start, e). slicer_new start e) w))"

definition NL :: byte where
  "NL = 0x0A"

fun position :: "'a \<Rightarrow> 'a list \<Rightarrow> nat option" where
  "position x [] = None"
| "position x (y # ys) = (if y = x then Some 0 else map_option Suc (position x ys))"

lemma position_Some: "position x ys = Some n \<Longrightarrow> n < length ys \<and> ys ! n = x \<and> x \<notin> set (take n ys)"
  by (induction ys arbitrary: n) (auto split: if_splits)

lemma position_None: "position x ys = None \<Longrightarrow> x \<notin> set ys"
  by (induction ys) (auto split: if_splits)

text \<open>The loop of \<open>LineSlicer::take\<close>: the slicer, where the slice starts, where it ends.\<close>

function take_loop ::
  "bytes \<Rightarrow> line_slicer \<Rightarrow> nat \<Rightarrow> nat option \<Rightarrow> nat \<Rightarrow> line_slicer \<times> nat option \<times> nat" where
  "take_loop chunk s pos begin' to =
     (if pos < length chunk then
        (let inside = (ls_start s \<le> ls_line s \<and>
                       (case ls_end s of None \<Rightarrow> True | Some e \<Rightarrow> ls_line s \<le> e));
             newline = map_option (\<lambda>offset. pos + offset) (position NL (drop pos chunk));
             segment_end = (case newline of None \<Rightarrow> length chunk | Some n \<Rightarrow> n + 1);
             begin2 = (if inside then (case begin' of None \<Rightarrow> Some pos | Some b \<Rightarrow> Some b)
                       else begin');
             to2 = (if inside then segment_end else to)
         in case newline of
              None \<Rightarrow> take_loop chunk s segment_end begin2 to2
            | Some _ \<Rightarrow>
                (let s2 = s\<lparr>ls_line := ls_line s + 1\<rparr>
                 in case ls_end s2 of
                      Some e \<Rightarrow>
                        if e < ls_line s2 then (s2\<lparr>ls_finished := True\<rparr>, begin2, to2)
                        else take_loop chunk s2 segment_end begin2 to2
                    | None \<Rightarrow> take_loop chunk s2 segment_end begin2 to2))
      else (s, begin', to))"
  by pat_completeness auto
termination
  by (relation "measure (\<lambda>(chunk, s, pos, b, t). length chunk - pos)")
    (auto split: option.splits)

declare take_loop.simps [simp del]

definition slicer_take :: "bytes \<Rightarrow> line_slicer \<Rightarrow> line_slicer \<times> bytes" where
  "slicer_take chunk s =
     (if ls_finished s \<or> chunk = [] then (s, [])
      else
        (case take_loop chunk s 0 None 0 of
           (s', Some b, to) \<Rightarrow> (s', take (to - b) (drop b chunk))
         | (s', None, _) \<Rightarrow> (s', [])))"

text \<open>\<open>sliced_stream\<close>: what the response body carries, up to its end or an error.\<close>

fun sliced_stream :: "bytes option list \<Rightarrow> line_slicer \<Rightarrow> bytes option list" where
  "sliced_stream [] s = []"
| "sliced_stream (c # cs) s =
     (if ls_finished s then []
      else
        (case c of
           None \<Rightarrow> [None]
         | Some chunk \<Rightarrow>
             (case slicer_take chunk s of
                (s', taken) \<Rightarrow>
                  if taken \<noteq> [] then Some taken # sliced_stream cs s' else sliced_stream cs s')))"

section \<open>The lines of a file\<close>

fun file_lines :: "bytes \<Rightarrow> bytes list" where
  "file_lines [] = []"
| "file_lines (b # bs) =
     (if b = NL then [b] # file_lines bs
      else (case file_lines bs of [] \<Rightarrow> [[b]] | l # ls \<Rightarrow> (b # l) # ls))"

definition line_run :: "nat \<Rightarrow> nat option \<Rightarrow> bytes \<Rightarrow> bytes" where
  "line_run start end' bs =
     concat (case end' of
        None \<Rightarrow> drop (start - 1) (file_lines bs)
      | Some e \<Rightarrow> take (e - (start - 1)) (drop (start - 1) (file_lines bs)))"

lemma concat_file_lines [simp]: "concat (file_lines bs) = bs"
  by (induction bs rule: file_lines.induct) (auto split: list.splits)

text \<open>The same selection byte by byte, with the number of the line the next byte is on.\<close>

fun sel :: "nat \<Rightarrow> nat option \<Rightarrow> nat \<Rightarrow> bytes \<Rightarrow> bytes" where
  "sel st en line [] = []"
| "sel st en line (b # bs) =
     (if st \<le> line \<and> (case en of None \<Rightarrow> True | Some e \<Rightarrow> line \<le> e) then [b] else []) @
     sel st en (if b = NL then line + 1 else line) bs"

definition nls :: "bytes \<Rightarrow> nat" where
  "nls bs = length (filter (\<lambda>b. b = NL) bs)"

lemma nls_simps [simp]: "nls [] = 0" "nls (b # bs) = (if b = NL then 1 else 0) + nls bs"
  "nls (xs @ ys) = nls xs + nls ys"
  by (simp_all add: nls_def)

lemma nls_0: "NL \<notin> set bs \<Longrightarrow> nls bs = 0"
  by (induction bs) auto

lemma sel_append: "sel st en line (xs @ ys) = sel st en line xs @ sel st en (line + nls xs) ys"
  by (induction xs arbitrary: line) auto

lemma sel_past: "e < line \<Longrightarrow> sel st (Some e) line bs = []"
  by (induction bs arbitrary: line) auto

lemma sel_segment:
  "NL \<notin> set xs \<Longrightarrow> sel st en line xs =
    (if st \<le> line \<and> (case en of None \<Rightarrow> True | Some e \<Rightarrow> line \<le> e) then xs else [])"
  by (induction xs) auto

fun lsel :: "nat \<Rightarrow> nat option \<Rightarrow> nat \<Rightarrow> bytes list \<Rightarrow> bytes" where
  "lsel st en line [] = []"
| "lsel st en line (l # ls) =
     (if st \<le> line \<and> (case en of None \<Rightarrow> True | Some e \<Rightarrow> line \<le> e) then l else []) @
     lsel st en (line + 1) ls"

lemma sel_lsel: "sel st en line bs = lsel st en line (file_lines bs)"
proof (induction bs arbitrary: line rule: file_lines.induct)
  case (2 b bs)
  then show ?case
    by (cases "b = NL"; cases "file_lines bs") auto
qed simp

lemma lsel_None: "lsel st None line ls = concat (drop (st - line) ls)"
proof (induction ls arbitrary: line)
  case (Cons l ls)
  show ?case
  proof (cases "st - line")
    case 0
    then show ?thesis by (simp add: Cons)
  next
    case (Suc n)
    then have "\<not> st \<le> line" "st - Suc line = n" by auto
    with Suc show ?thesis by (simp add: Cons)
  qed
qed simp

lemma lsel_Some:
  "lsel st (Some e) line ls = concat (take (Suc e - max st line) (drop (st - line) ls))"
proof (induction ls arbitrary: line)
  case (Cons l ls)
  show ?case
  proof (cases "st \<le> line")
    case True
    then show ?thesis
      by (cases "line \<le> e") (simp_all add: Cons max_def Suc_diff_le)
  next
    case False
    then obtain n where n: "st - line = Suc n" by (cases "st - line") auto
    then have "max st (Suc line) = st" "max st line = st" "st - Suc line = n" by auto
    with n False show ?thesis by (simp add: Cons)
  qed
qed simp

lemma sel_run: "0 < st \<Longrightarrow> sel st en 1 bs = line_run st en bs"
  by (cases en; cases "st \<le> 1")
    (auto simp: sel_lsel lsel_None lsel_Some line_run_def max_def le_Suc_eq intro!: arg_cong [of _ _ concat])

section \<open>The slicer selects by line\<close>

definition slice_of :: "bytes \<Rightarrow> nat option \<Rightarrow> nat \<Rightarrow> bytes" where
  "slice_of chunk b to = (case b of None \<Rightarrow> [] | Some f \<Rightarrow> take (to - f) (drop f chunk))"

lemma slice_extend:
  "f \<le> m \<Longrightarrow> m \<le> n \<Longrightarrow> take (n - f) (drop f xs) = take (m - f) (drop f xs) @ take (n - m) (drop m xs)"
proof -
  assume "f \<le> m" "m \<le> n"
  then have "n - f = (m - f) + (n - m)" "drop (m - f) (drop f xs) = drop m xs" by simp_all
  then show ?thesis by (simp only: take_add)
qed

definition window_open :: "line_slicer \<Rightarrow> bool" where
  "window_open s \<longleftrightarrow> \<not> ls_finished s \<and> (case ls_end s of None \<Rightarrow> True | Some e \<Rightarrow> ls_line s \<le> e)"

text \<open>
  After some bytes, the slicer is where the byte-wise selection is: either still open on the line
  they lead to, or finished because they passed the last line.
\<close>

definition slicer_after :: "line_slicer \<Rightarrow> bytes \<Rightarrow> line_slicer \<Rightarrow> bool" where
  "slicer_after s bs s' \<longleftrightarrow> ls_start s' = ls_start s \<and> ls_end s' = ls_end s \<and>
     (if ls_finished s' then (\<exists>e. ls_end s = Some e \<and> e < ls_line s + nls bs)
      else ls_line s' = ls_line s + nls bs \<and> window_open s')"

definition loop_inv :: "line_slicer \<Rightarrow> nat \<Rightarrow> nat option \<Rightarrow> nat \<Rightarrow> bool" where
  "loop_inv s pos b to \<longleftrightarrow>
     (case b of None \<Rightarrow> True | Some f \<Rightarrow> f \<le> pos \<and> to = pos \<and> ls_start s \<le> ls_line s)"

text \<open>How far the next segment goes, and the slice after it.\<close>

lemma slice_segment:
  assumes "loop_inv s pos b to" and "pos \<le> m"
  shows "slice_of chunk (if ls_start s \<le> ls_line s then (case b of None \<Rightarrow> Some pos | Some f \<Rightarrow> Some f) else b)
      (if ls_start s \<le> ls_line s then m else to)
    = slice_of chunk b to @ (if ls_start s \<le> ls_line s then take (m - pos) (drop pos chunk) else [])"
proof (cases b)
  case None
  then show ?thesis by (simp add: slice_of_def)
next
  case (Some f)
  with assms have "f \<le> pos" "to = pos" "ls_start s \<le> ls_line s" by (simp_all add: loop_inv_def)
  with Some assms(2) slice_extend [of f pos m chunk] show ?thesis by (simp add: slice_of_def)
qed

lemma take_loop_last:
  assumes "pos < length chunk" and "position NL (drop pos chunk) = None" and "window_open s"
  shows "take_loop chunk s pos b to =
    (s, if ls_start s \<le> ls_line s then (case b of None \<Rightarrow> Some pos | Some f \<Rightarrow> Some f) else b,
     if ls_start s \<le> ls_line s then length chunk else to)"
proof -
  have "(case ls_end s of None \<Rightarrow> True | Some e \<Rightarrow> ls_line s \<le> e)"
    using assms(3) by (simp add: window_open_def)
  then show ?thesis
    using assms(1,2) by (subst take_loop.simps) (simp add: Let_def take_loop.simps [of _ _ "length chunk"])
qed

lemma take_loop_line:
  assumes "pos < length chunk" and "position NL (drop pos chunk) = Some n" and "window_open s"
  shows "take_loop chunk s pos b to =
    (let s2 = s\<lparr>ls_line := ls_line s + 1\<rparr>;
         b2 = (if ls_start s \<le> ls_line s then (case b of None \<Rightarrow> Some pos | Some f \<Rightarrow> Some f) else b);
         to2 = (if ls_start s \<le> ls_line s then pos + n + 1 else to)
     in if (case ls_end s of None \<Rightarrow> False | Some e \<Rightarrow> e < ls_line s + 1)
        then (s2\<lparr>ls_finished := True\<rparr>, b2, to2)
        else take_loop chunk s2 (pos + n + 1) b2 to2)"
proof -
  have "(case ls_end s of None \<Rightarrow> True | Some e \<Rightarrow> ls_line s \<le> e)"
    using assms(3) by (simp add: window_open_def)
  then show ?thesis
    using assms(1,2) by (subst take_loop.simps) (simp add: Let_def split: option.split)
qed

lemma line_split:
  assumes "position NL (drop pos chunk) = Some n"
  shows "drop pos chunk = (take n (drop pos chunk) @ [NL]) @ drop (pos + n + 1) chunk"
    and "take (n + 1) (drop pos chunk) = take n (drop pos chunk) @ [NL]"
proof -
  note pn = position_Some [OF assms]
  show "take (n + 1) (drop pos chunk) = take n (drop pos chunk) @ [NL]"
    using pn take_Suc_conv_app_nth [of n "drop pos chunk"] by simp
  then show "drop pos chunk = (take n (drop pos chunk) @ [NL]) @ drop (pos + n + 1) chunk"
    using append_take_drop_id [of "n + 1" "drop pos chunk"] by (simp add: add.commute)
qed

lemma take_loop_sel:
  assumes "window_open s" and "loop_inv s pos b to" and "pos \<le> length chunk"
    and "take_loop chunk s pos b to = (s', b', to')"
  shows "slice_of chunk b' to' = slice_of chunk b to @ sel (ls_start s) (ls_end s) (ls_line s) (drop pos chunk)
    \<and> slicer_after s (drop pos chunk) s'"
  using assms
proof (induction "length chunk - pos" arbitrary: s pos b to rule: less_induct)
  case less
  let ?in = "ls_start s \<le> ls_line s"
  let ?b = "if ?in then (case b of None \<Rightarrow> Some pos | Some f \<Rightarrow> Some f) else b"
  have inside: "(ls_start s \<le> ls_line s \<and> (case ls_end s of None \<Rightarrow> True | Some e \<Rightarrow> ls_line s \<le> e)) = ?in"
    using less(2) by (simp add: window_open_def)
  consider (stop) "pos = length chunk" | (last) "pos < length chunk" "position NL (drop pos chunk) = None"
    | (line) n where "pos < length chunk" "position NL (drop pos chunk) = Some n"
    using less(4) by (cases "position NL (drop pos chunk)") fastforce+
  then show ?case
  proof cases
    case stop
    then show ?thesis
      using less(2,5) take_loop.simps [of chunk s pos b to]
      by (auto simp: slicer_after_def window_open_def)
  next
    case last
    have "sel (ls_start s) (ls_end s) (ls_line s) (drop pos chunk) = (if ?in then drop pos chunk else [])"
      by (simp only: sel_segment [OF position_None [OF last(2)]] inside)
    moreover have r: "s' = s" "b' = ?b" "to' = (if ?in then length chunk else to)"
      using less(5) [unfolded take_loop_last [OF last less(2)]] by auto
    ultimately show ?thesis unfolding r
      using slice_segment [OF less(3), of "length chunk" chunk]
        last(1) less(2) nls_0 [OF position_None [OF last(2)]]
      by (simp add: slicer_after_def window_open_def)
  next
    case line
    let ?m = "pos + n + 1"
    let ?s = "s\<lparr>ls_line := ls_line s + 1\<rparr>"
    let ?to = "if ?in then ?m else to"
    note pn = position_Some [OF line(2)]
    have n0: "nls (take n (drop pos chunk)) = 0" using pn by (simp add: nls_0)
    have seg: "sel (ls_start s) (ls_end s) (ls_line s) (drop pos chunk)
        = (if ?in then take (n + 1) (drop pos chunk) else [])
          @ sel (ls_start s) (ls_end s) (ls_line s + 1) (drop ?m chunk)"
      unfolding line_split(2) [OF line(2)]
      by (subst line_split(1) [OF line(2)]) (simp add: sel_append sel_segment pn n0 inside)
    have nl: "nls (drop pos chunk) = 1 + nls (drop ?m chunk)"
      by (subst line_split(1) [OF line(2)]) (simp add: n0)
    note ext = slice_segment [OF less(3), of ?m chunk]
    show ?thesis
    proof (cases "case ls_end s of None \<Rightarrow> False | Some e \<Rightarrow> e < ls_line s + 1")
      case True
      then obtain e where e: "ls_end s = Some e" "e < ls_line s + 1" by (auto split: option.splits)
      have r: "s' = ?s\<lparr>ls_finished := True\<rparr>" "b' = ?b" "to' = ?to"
        using less(5) take_loop_line [OF line less(2), of b to] True by (simp_all add: Let_def)
      show ?thesis unfolding r
        using ext seg e sel_past [of e "ls_line s + 1"] nl by (simp add: slicer_after_def)
    next
      case False
      have w: "window_open ?s"
        using less(2) False by (auto simp: window_open_def split: option.splits)
      have li: "loop_inv ?s ?m ?b ?to"
        using less(3) by (auto simp: loop_inv_def split: option.splits)
      have "take_loop chunk ?s ?m ?b ?to = (s', b', to')"
        using less(5) take_loop_line [OF line less(2), of b to] False by (simp add: Let_def)
      from less(1) [OF _ w li _ this] pn ext seg nl show ?thesis
        by (auto simp: slicer_after_def)
    qed
  qed
qed

lemma slicer_take_sel:
  assumes "window_open s" and "slicer_take chunk s = (s', taken)"
  shows "taken = sel (ls_start s) (ls_end s) (ls_line s) chunk \<and> slicer_after s chunk s'"
proof (cases "chunk = []")
  case True
  with assms show ?thesis by (auto simp: slicer_take_def window_open_def slicer_after_def)
next
  case False
  obtain t b to where tl: "take_loop chunk s 0 None 0 = (t, b, to)" by (metis prod_cases3)
  have "loop_inv s 0 None 0" by (simp add: loop_inv_def)
  from take_loop_sel [OF assms(1) this _ tl] False assms tl show ?thesis
    by (auto simp: slicer_take_def window_open_def slice_of_def split: option.splits)
qed

section \<open>The stream\<close>

text \<open>The bytes of a body that ended without an error.\<close>

definition body_bytes :: "bytes option list \<Rightarrow> bytes" where
  "body_bytes out = concat (List.map_filter (\<lambda>c. c) out)"

lemma body_bytes_simps [simp]: "body_bytes [] = []" "body_bytes (Some b # out) = b @ body_bytes out"
  by (simp_all add: body_bytes_def map_filter_def)

lemma sliced_finished: "ls_finished s \<Longrightarrow> sliced_stream cs s = []"
  by (cases cs) simp_all

lemma sliced_stream_sel:
  assumes "window_open s"
  shows "body_bytes (sliced_stream (map Some chunks) s)
      = sel (ls_start s) (ls_end s) (ls_line s) (concat chunks) \<and>
    None \<notin> set (sliced_stream (map Some chunks) s) \<and>
    Some [] \<notin> set (sliced_stream (map Some chunks) s)"
  using assms
proof (induction chunks arbitrary: s)
  case (Cons c chunks)
  obtain s' taken where tk: "slicer_take c s = (s', taken)" by (cases "slicer_take c s")
  note st = slicer_take_sel [OF Cons.prems tk]
  have nf: "\<not> ls_finished s" using Cons.prems by (simp add: window_open_def)
  show ?case
  proof (cases "ls_finished s'")
    case True
    with st obtain e where e: "ls_end s = Some e" "e < ls_line s + nls c"
      by (auto simp: slicer_after_def)
    with st tk nf True show ?thesis
      by (simp add: sel_append sel_past sliced_finished)
  next
    case False
    with st have w: "window_open s'" and s': "ls_start s' = ls_start s" "ls_end s' = ls_end s"
      "ls_line s' = ls_line s + nls c"
      by (simp_all add: slicer_after_def)
    from Cons.IH [OF w] st tk nf s' show ?thesis
      by (auto simp: sel_append)
  qed
qed simp

text \<open>A window closed by what was read ends the stream, whatever the rest of the file holds.\<close>

lemma sliced_stream_stops:
  assumes "window_open s" and "ls_end s = Some e" and "e < ls_line s + nls (concat chunks)"
  shows "sliced_stream (map Some chunks @ rest) s = sliced_stream (map Some chunks) s"
  using assms
proof (induction chunks arbitrary: s)
  case Nil
  then show ?case by (simp add: window_open_def)
next
  case (Cons c chunks)
  obtain s' taken where tk: "slicer_take c s = (s', taken)" by (cases "slicer_take c s")
  note st = slicer_take_sel [OF Cons.prems(1) tk]
  show ?case
  proof (cases "ls_finished s'")
    case True
    then show ?thesis by (simp add: tk sliced_finished)
  next
    case False
    with st have "window_open s'" "ls_end s' = Some e" "ls_line s' = ls_line s + nls c"
      using Cons.prems(2) by (simp_all add: slicer_after_def)
    with Cons show ?thesis by (simp add: tk)
  qed
qed

lemma line_window_Some:
  "line_window q = Inr (Some (st, en)) \<Longrightarrow> 0 < st \<and> (case en of None \<Rightarrow> True | Some e \<Rightarrow> st \<le> e)"
  by (auto simp: line_window_def Let_def split: option.splits if_splits)

lemma line_range_open:
  assumes "line_range q = Inr (Some s)"
  shows "window_open s \<and> 0 < ls_start s \<and> ls_line s = 1 \<and>
    line_window q = Inr (Some (ls_start s, ls_end s))"
proof -
  from assms obtain st en where w: "line_window q = Inr (Some (st, en))" and s: "s = slicer_new st en"
    by (auto simp: line_range_def bind_r_Inr)
  from line_window_Some [OF w] w show ?thesis
    by (auto simp: s slicer_new_def window_open_def split: option.splits)
qed

section \<open>Properties\<close>

text \<open>
  C13: A ranged read returns exactly the lines asked for. However the file arrives in chunks, the
  body is the concatenation of lines start to end with their newlines, no piece of it is empty,
  and once the last line asked for has ended nothing more of the file is read, so a later read
  error cannot fail the response.
\<close>
theorem ranged_read_returns_lines:
  assumes "line_range q = Inr (Some s)"
  shows "body_bytes (sliced_stream (map Some chunks) s)
      = line_run (ls_start s) (ls_end s) (concat chunks) \<and>
    None \<notin> set (sliced_stream (map Some chunks) s) \<and>
    Some [] \<notin> set (sliced_stream (map Some chunks) s) \<and>
    (\<forall>e rest. ls_end s = Some e \<and> e \<le> nls (concat chunks) \<longrightarrow>
      sliced_stream (map Some chunks @ rest) s = sliced_stream (map Some chunks) s)"
proof -
  note o = line_range_open [OF assms]
  have w: "window_open s" using o by blast
  show ?thesis
    using sliced_stream_sel [OF w, of chunks] sliced_stream_stops [OF w] o
    by (simp add: sel_run [unfolded One_nat_def])
qed

text \<open>\<open>a, newline, b, newline, c\<close> in two chunks, lines 2 to 2.\<close>

definition sample_query :: file_read_query where
  "sample_query = \<lparr>fq_path = ''f'', fq_start_line = Some 2, fq_end_line = Some 2\<rparr>"

theorem ranged_read_returns_lines_witness:
  "line_range sample_query = Inr (Some (slicer_new 2 (Some 2))) \<and>
   body_bytes (sliced_stream (map Some [[0x61, NL, 0x62], [NL, 0x63]]) (slicer_new 2 (Some 2)))
     = [0x62, NL]"
proof -
  have q: "line_range sample_query = Inr (Some (slicer_new 2 (Some 2)))"
    by (simp add: line_range_def line_window_def sample_query_def)
  from ranged_read_returns_lines [OF q, of "[[0x61, NL, 0x62], [NL, 0x63]]"] q show ?thesis
    by (simp add: slicer_new_def line_run_def NL_def)
qed

end
