(* ===== verification/FsPaths.thy ===== *)
theory FsPaths
  imports Strings
begin

text \<open>
  The lexical layer of tar extraction (\<open>crates/agentd/src/fs.rs\<close>): the components of a
  path, \<open>normalize\<close>, the depth check of link targets, where a member lands, and the octal
  mode of a write. Everything is decided on the text of the path.
\<close>

section \<open>Components\<close>

text \<open>
  \<open>Path::components\<close> on Unix: repeated separators and a dot that is not the first
  component disappear.
\<close>

datatype component = RootDir | CurDir | ParentDir | Normal string

definition comp_of :: "string \<Rightarrow> component option" where
  "comp_of s =
     (if s = [] \<or> s = ''.'' then None else if s = ''..'' then Some ParentDir else Some (Normal s))"

definition components :: "string \<Rightarrow> component list" where
  "components p =
     (if is_absolute p then [RootDir]
      else if hd (split_on (CHR ''/'') p) = ''.'' then [CurDir] else []) @
     List.map_filter comp_of (split_on (CHR ''/'') p)"

text \<open>A name that a single step of a walk takes literally.\<close>

definition normal_name :: "string \<Rightarrow> bool" where
  "normal_name s \<longleftrightarrow> s \<noteq> [] \<and> s \<noteq> ''.'' \<and> s \<noteq> ''..'' \<and> CHR ''/'' \<notin> set s"

lemma components_normal: "Normal s \<in> set (components p) \<Longrightarrow> normal_name s"
  using split_on_pieces [of s "CHR ''/''" p]
  by (auto simp: components_def comp_of_def map_filter_def normal_name_def split: if_splits)

section \<open>Normalizing a member's path\<close>

fun norm_walk :: "string list \<Rightarrow> component list \<Rightarrow> string list option" where
  "norm_walk parts [] = Some parts"
| "norm_walk parts (RootDir # cs) = None"
| "norm_walk parts (CurDir # cs) = norm_walk parts cs"
| "norm_walk parts (ParentDir # cs) =
     (if parts = [] then None else norm_walk (butlast parts) cs)"
| "norm_walk parts (Normal s # cs) = norm_walk (parts @ [s]) cs"

definition normalize :: "string \<Rightarrow> string list option" where
  "normalize path = norm_walk [] (components path)"

lemma norm_walk_normal:
  "norm_walk parts cs = Some out \<Longrightarrow> \<forall>s \<in> set parts. normal_name s \<Longrightarrow>
   \<forall>s. Normal s \<in> set cs \<longrightarrow> normal_name s \<Longrightarrow> \<forall>s \<in> set out. normal_name s"
  by (induction parts cs rule: norm_walk.induct) (auto split: if_splits dest: in_set_butlastD)

lemma normalize_normal: "normalize path = Some parts \<Longrightarrow> \<forall>s \<in> set parts. normal_name s"
  using norm_walk_normal [of "[]" "components path" parts] components_normal
  by (auto simp: normalize_def)

section \<open>The depth of a link target\<close>

fun depth_walk :: "nat \<Rightarrow> component list \<Rightarrow> bool" where
  "depth_walk depth [] = True"
| "depth_walk depth (RootDir # cs) = False"
| "depth_walk depth (CurDir # cs) = depth_walk depth cs"
| "depth_walk depth (ParentDir # cs) =
     (case depth of 0 \<Rightarrow> False | Suc next \<Rightarrow> depth_walk next cs)"
| "depth_walk depth (Normal _ # cs) = depth_walk (depth + 1) cs"

definition link_target_is_in_tree :: "nat \<Rightarrow> string \<Rightarrow> bool" where
  "link_target_is_in_tree base_depth target =
     (if is_absolute target then False else depth_walk base_depth (components target))"

text \<open>Counting depth is walking the target from any directory that deep.\<close>

lemma depth_walk_norm_walk: "depth_walk (length parts) cs \<longleftrightarrow> norm_walk parts cs \<noteq> None"
proof (induction parts cs rule: norm_walk.induct)
  case (4 parts cs)
  then show ?case by (cases parts rule: rev_cases) auto
qed auto

text \<open>A link in a directory resolves, on the text alone, to a path under the root.\<close>

definition target_stays :: "string list \<Rightarrow> string \<Rightarrow> bool" where
  "target_stays dir target \<longleftrightarrow> \<not> is_absolute target \<and> norm_walk dir (components target) \<noteq> None"

lemma link_target_stays: "link_target_is_in_tree (length dir) target \<longleftrightarrow> target_stays dir target"
  by (simp add: link_target_is_in_tree_def target_stays_def depth_walk_norm_walk)

lemma link_target_normalize:
  "link_target_is_in_tree 0 target \<Longrightarrow> \<exists>parts. normalize target = Some parts"
  using link_target_stays [of "[]" target] by (auto simp: target_stays_def normalize_def)

section \<open>Where a member lands\<close>

datatype landing = Under string "string list" | Root | Escapes

definition resolve_member :: "string \<Rightarrow> string \<Rightarrow> landing" where
  "resolve_member base path =
     (case normalize path of
        None \<Rightarrow> Escapes
      | Some parts \<Rightarrow> if parts = [] then Root else Under (foldl path_join base parts) parts)"

lemma resolve_member_Under:
  "resolve_member base path = Under dest parts \<Longrightarrow>
     dest = foldl path_join base parts \<and> parts \<noteq> [] \<and> (\<forall>s \<in> set parts. normal_name s)"
  using normalize_normal [of path parts] by (auto simp: resolve_member_def split: option.splits if_splits)

text \<open>Two members land at the same destination only when their components agree.\<close>

definition joined :: "string \<Rightarrow> string list \<Rightarrow> string" where
  "joined base parts =
     (if base = [] \<or> last base = CHR ''/'' then base else base @ ''/'') @ join_with ''/'' parts"

lemma normal_not_absolute: "normal_name n \<Longrightarrow> \<not> is_absolute n"
  by (cases n) (auto simp: is_absolute_def normal_name_def)

lemma normal_last: "normal_name n \<Longrightarrow> n \<noteq> [] \<and> last n \<noteq> CHR ''/''"
  by (auto simp: normal_name_def dest: last_in_set)

lemma join_with_snoc: "ws \<noteq> [] \<Longrightarrow> join_with d (ws @ [w]) = join_with d ws @ d @ w"
proof (induction d ws rule: join_with.induct)
  case (3 d w' v ws)
  then show ?case by (cases ws) auto
qed auto

lemma foldl_path_join:
  assumes "parts \<noteq> []" and "\<forall>s \<in> set parts. normal_name s"
  shows "foldl path_join base parts = joined base parts"
  using assms
proof (induction parts rule: rev_induct)
  case (snoc n parts)
  show ?case
  proof (cases "parts = []")
    case True
    then show ?thesis
      using snoc.prems by (simp add: joined_def path_join_def normal_not_absolute)
  next
    case False
    have "joined base parts \<noteq> [] \<and> last (joined base parts) \<noteq> CHR ''/''"
    proof -
      obtain ps q where parts: "parts = ps @ [q]" using False by (cases parts rule: rev_cases) auto
      have q: "q \<noteq> [] \<and> last q \<noteq> CHR ''/''" using snoc.prems(2) parts normal_last by simp
      have "\<exists>pre. joined base parts = pre @ q"
        by (cases "ps = []") (auto simp: joined_def parts join_with_snoc)
      with q show ?thesis by auto
    qed
    with snoc False show ?thesis
      by (simp add: path_join_def normal_not_absolute) (simp add: joined_def join_with_snoc)
  qed
qed simp

lemma joined_inject:
  assumes "joined base parts = joined base parts'"
    and "\<forall>s \<in> set parts. normal_name s" "\<forall>s \<in> set parts'. normal_name s"
    and "parts \<noteq> []" "parts' \<noteq> []"
  shows "parts = parts'"
proof -
  from assms(1) have j: "join_with ''/'' parts = join_with ''/'' parts'" by (simp add: joined_def)
  have "parts = split_on (CHR ''/'') (join_with ''/'' parts)"
    using assms(2,4) by (intro split_on_join [symmetric]) (auto simp: normal_name_def)
  also have "\<dots> = split_on (CHR ''/'') (join_with ''/'' parts')" by (simp only: j)
  also have "\<dots> = parts'"
    using assms(3,5) by (intro split_on_join) (auto simp: normal_name_def)
  finally show ?thesis .
qed

lemma resolve_member_inject:
  assumes "resolve_member base p = Under dest parts" and "resolve_member base p' = Under dest parts'"
  shows "parts = parts'"
proof -
  note a = resolve_member_Under [OF assms(1)] and b = resolve_member_Under [OF assms(2)]
  have "joined base parts = dest" "joined base parts' = dest"
    using a b foldl_path_join [of parts base] foldl_path_join [of parts' base] by simp_all
  then have "joined base parts = joined base parts'" by simp
  then show ?thesis using joined_inject a b by blast
qed

section \<open>The mode of a write\<close>

text \<open>\<open>u32::from_str_radix\<close> in base 8: an optional plus, then at least one digit.\<close>

fun oct_val :: "nat \<Rightarrow> string \<Rightarrow> nat option" where
  "oct_val acc [] = Some acc"
| "oct_val acc (c # cs) =
     (if is_digit c \<and> digit_val c < 8 then oct_val (8 * acc + digit_val c) cs else None)"

definition from_str_radix8 :: "string \<Rightarrow> u32 option" where
  "from_str_radix8 s =
     (let ds = strip_plus s
      in if ds = [] then None
         else (case oct_val 0 ds of
                 Some n \<Rightarrow> if n < 2 ^ 32 then Some (of_nat n) else None
               | None \<Rightarrow> None))"

text \<open>\<open>trim_start_matches\<close> strips the pattern as often as it stands at the front.\<close>

function trim_start_matches :: "string \<Rightarrow> string \<Rightarrow> string" where
  "trim_start_matches pat s =
     (if pat \<noteq> [] \<and> starts_with pat s \<and> s \<noteq> [] then trim_start_matches pat (drop (length pat) s) else s)"
  by pat_completeness auto
termination
  by (relation "measure (\<lambda>(pat, s). length s)") auto

declare trim_start_matches.simps [simp del]

definition parse_mode :: "string \<Rightarrow> u32 option" where
  "parse_mode raw =
     (let digits = trim_start_matches ''0O'' (trim_start_matches ''0o'' (str_trim raw))
      in case from_str_radix8 digits of
           None \<Rightarrow> None
         | Some mode \<Rightarrow> if mode \<le> 4095 then Some mode else None)"

end
