(* ===== verification/TarExtract.thy ===== *)
theory TarExtract
  imports FsPaths Disk
begin

text \<open>
  Tar extraction (\<open>crates/agentd/src/fs.rs\<close>, \<open>Confined\<close> and
  \<open>extract_into\<close>). The kernel is a parameter: a record with one function per system call
  the code makes, each from the filesystem to an answer and the filesystem it leaves. What the
  code relies on is the locale \<open>kernel_laws\<close>, which states the documented effect of each
  call; a call may fail at any time, with the filesystem unchanged. A directory descriptor is the
  path of the directory it was opened on, a file descriptor the inode. The archive is what the
  third-party reader yields. No other process writes during the extraction.
\<close>

section \<open>The filesystem and its calls\<close>

type_synonym path = "string list"

datatype entry = DirEntry u32 | FileEntry nat | LinkEntry string | SpecialEntry

record tree_fs =
  tf_ent :: "path \<Rightarrow> entry option"
  tf_inode :: "nat \<Rightarrow> (bytes \<times> u32) option"

datatype errno = ELOOP | EXDEV | EACCES | EEXIST | EPERM | EINVAL | OtherError nat

fun is_dir_entry :: "entry \<Rightarrow> bool" where
  "is_dir_entry (DirEntry m) = True"
| "is_dir_entry _ = False"

text \<open>
  \<open>open_root\<close> is \<open>create_dir_all\<close> and the \<open>openat2\<close> of the root;
  \<open>open_dir\<close> and \<open>open_new\<close> are \<open>openat2\<close> with \<open>RESOLVE\<close>, of a
  directory and of a new exclusive file; \<open>copy\<close> is \<open>io::copy\<close> of a member's bytes
  (and whether its reader fails after them). \<open>kn_hash\<close> is no system call: it is the hash by which
  the map of deferred modes hands out its entries, any function of the path.
\<close>

record kernel =
  kn_open_root :: "string \<Rightarrow> tree_fs \<Rightarrow> (errno + path) \<times> tree_fs"
  kn_dup :: "path \<Rightarrow> tree_fs \<Rightarrow> errno option"
  kn_mkdirat :: "path \<Rightarrow> string \<Rightarrow> tree_fs \<Rightarrow> errno option \<times> tree_fs"
  kn_open_dir :: "path \<Rightarrow> string \<Rightarrow> tree_fs \<Rightarrow> errno + path"
  kn_unlinkat :: "path \<Rightarrow> string \<Rightarrow> tree_fs \<Rightarrow> tree_fs"
  kn_open_new :: "path \<Rightarrow> string \<Rightarrow> tree_fs \<Rightarrow> (errno + nat) \<times> tree_fs"
  kn_copy :: "nat \<Rightarrow> bytes \<times> bool \<Rightarrow> tree_fs \<Rightarrow> (errno + nat) \<times> tree_fs"
  kn_symlinkat :: "string \<Rightarrow> path \<Rightarrow> string \<Rightarrow> tree_fs \<Rightarrow> errno option \<times> tree_fs"
  kn_linkat :: "path \<Rightarrow> string \<Rightarrow> path \<Rightarrow> string \<Rightarrow> tree_fs \<Rightarrow> errno option \<times> tree_fs"
  kn_fstatat :: "path \<Rightarrow> string \<Rightarrow> tree_fs \<Rightarrow> errno + bool"
  kn_fchmodat :: "path \<Rightarrow> string \<Rightarrow> u32 \<Rightarrow> tree_fs \<Rightarrow> errno option \<times> tree_fs"
  kn_hash :: "string \<Rightarrow> nat"

section \<open>The confined walk\<close>

record walk_error =
  we_component :: "string option"
  we_errno :: errno

definition walk_at :: "string \<Rightarrow> errno \<Rightarrow> walk_error" where
  "walk_at part e = \<lparr>we_component = Some part, we_errno = e\<rparr>"

definition walk_none :: "errno \<Rightarrow> walk_error" where
  "walk_none e = \<lparr>we_component = None, we_errno = e\<rparr>"

fun make_dirs_from ::
  "kernel \<Rightarrow> path \<Rightarrow> string list \<Rightarrow> tree_fs \<Rightarrow> (walk_error + path) \<times> tree_fs" where
  "make_dirs_from K current [] fs = (Inr current, fs)"
| "make_dirs_from K current (part # parts) fs =
     (case kn_mkdirat K current part fs of
        (r, fs1) \<Rightarrow>
          if r \<noteq> None \<and> r \<noteq> Some EEXIST then (Inl (walk_at part (the r)), fs1)
          else
            (case kn_open_dir K current part fs1 of
               Inl e \<Rightarrow> (Inl (walk_at part e), fs1)
             | Inr d \<Rightarrow> make_dirs_from K d parts fs1))"

definition make_dirs ::
  "kernel \<Rightarrow> path \<Rightarrow> string list \<Rightarrow> tree_fs \<Rightarrow> (walk_error + path) \<times> tree_fs" where
  "make_dirs K r parts fs =
     (case kn_dup K r fs of
        Some e \<Rightarrow> (Inl (walk_none e), fs)
      | None \<Rightarrow> make_dirs_from K r parts fs)"

definition parent_of ::
  "kernel \<Rightarrow> path \<Rightarrow> string list \<Rightarrow> tree_fs \<Rightarrow> (walk_error + path \<times> string) \<times> tree_fs" where
  "parent_of K r parts fs =
     (case make_dirs K r (butlast parts) fs of
        (Inl e, fs1) \<Rightarrow> (Inl e, fs1)
      | (Inr d, fs1) \<Rightarrow> (Inr (d, last parts), fs1))"

definition create_dir ::
  "kernel \<Rightarrow> path \<Rightarrow> string list \<Rightarrow> tree_fs \<Rightarrow> (walk_error + unit) \<times> tree_fs" where
  "create_dir K r parts fs =
     (case make_dirs K r parts fs of
        (Inl e, fs1) \<Rightarrow> (Inl e, fs1)
      | (Inr _, fs1) \<Rightarrow> (Inr (), fs1))"

definition create_file ::
  "kernel \<Rightarrow> path \<Rightarrow> string list \<Rightarrow> tree_fs \<Rightarrow> (walk_error + nat) \<times> tree_fs" where
  "create_file K r parts fs =
     (case parent_of K r parts fs of
        (Inl e, fs1) \<Rightarrow> (Inl e, fs1)
      | (Inr (d, name), fs1) \<Rightarrow>
          (case kn_open_new K d name (kn_unlinkat K d name fs1) of
             (Inl e, fs2) \<Rightarrow> (Inl (walk_at (last parts) e), fs2)
           | (Inr fd, fs2) \<Rightarrow> (Inr fd, fs2)))"

definition create_symlink ::
  "kernel \<Rightarrow> path \<Rightarrow> string list \<Rightarrow> string \<Rightarrow> tree_fs \<Rightarrow> (walk_error + unit) \<times> tree_fs" where
  "create_symlink K r parts target fs =
     (case parent_of K r parts fs of
        (Inl e, fs1) \<Rightarrow> (Inl e, fs1)
      | (Inr (d, name), fs1) \<Rightarrow>
          (case kn_symlinkat K target d name (kn_unlinkat K d name fs1) of
             (Some e, fs2) \<Rightarrow> (Inl (walk_at (last parts) e), fs2)
           | (None, fs2) \<Rightarrow> (Inr (), fs2)))"

text \<open>The source side of a hard link: nothing is created on the way.\<close>

fun walk_existing_from ::
  "kernel \<Rightarrow> path \<Rightarrow> string list \<Rightarrow> tree_fs \<Rightarrow> walk_error + path" where
  "walk_existing_from K current [] fs = Inr current"
| "walk_existing_from K current (part # parts) fs =
     (case kn_open_dir K current part fs of
        Inl e \<Rightarrow> Inl (walk_at part e)
      | Inr d \<Rightarrow> walk_existing_from K d parts fs)"

definition walk_existing ::
  "kernel \<Rightarrow> path \<Rightarrow> string list \<Rightarrow> tree_fs \<Rightarrow> walk_error + path" where
  "walk_existing K r parts fs =
     (case kn_dup K r fs of
        Some e \<Rightarrow> Inl (walk_none e)
      | None \<Rightarrow> walk_existing_from K r parts fs)"

datatype hard_link_error = Dest walk_error | Source walk_error

definition create_hard_link ::
  "kernel \<Rightarrow> path \<Rightarrow> string list \<Rightarrow> string list \<Rightarrow> tree_fs \<Rightarrow> (hard_link_error + unit) \<times> tree_fs" where
  "create_hard_link K r parts source fs =
     (case parent_of K r parts fs of
        (Inl e, fs1) \<Rightarrow> (Inl (Dest e), fs1)
      | (Inr (d, name), fs1) \<Rightarrow>
          if parts = source then
            (case kn_fstatat K d name fs1 of
               Inl e \<Rightarrow> (Inl (Source (walk_at (last source) e)), fs1)
             | Inr is_dir \<Rightarrow>
                 if is_dir then (Inl (Source (walk_at (last source) EPERM)), fs1)
                 else (Inr (), fs1))
          else
            (let fs2 = kn_unlinkat K d name fs1
             in if source = [] then (Inl (Dest (walk_none EINVAL)), fs2)
                else
                  (case walk_existing K r (butlast source) fs2 of
                     Inl e \<Rightarrow> (Inl (Source e), fs2)
                   | Inr sd \<Rightarrow>
                       (case kn_linkat K sd (last source) d name fs2 of
                          (Some e, fs3) \<Rightarrow> (Inl (Dest (walk_at (last parts) e)), fs3)
                        | (None, fs3) \<Rightarrow> (Inr (), fs3)))))"

definition set_mode ::
  "kernel \<Rightarrow> path \<Rightarrow> string list \<Rightarrow> u32 \<Rightarrow> tree_fs \<Rightarrow> (walk_error + unit) \<times> tree_fs" where
  "set_mode K r parts mode fs =
     (case parent_of K r parts fs of
        (Inl e, fs1) \<Rightarrow> (Inl e, fs1)
      | (Inr (d, name), fs1) \<Rightarrow>
          (case kn_fchmodat K d name mode fs1 of
             (Some e, fs2) \<Rightarrow> (Inl (walk_at (last parts) e), fs2)
           | (None, fs2) \<Rightarrow> (Inr (), fs2)))"

section \<open>Refusals\<close>

datatype walk_cause = SymlinkOnTheWay | ResolvesOutside | PermissionsRefuse

datatype refusal_reason =
    EscapesRoot
  | OnlyDirectoryNamesRoot
  | DeviceOrFifo
  | NoLinkTarget
  | AbsoluteTarget string
  | TargetOutside string
  | CannotCreate "string option" "string option" walk_cause

datatype refusal =
    RefMember string refusal_reason
  | RefTooManyMembers nat
  | RefTooManyBytes nat
  | RefPressure string reading
  | RefIo

text \<open>The status a refusal is answered with.\<close>

fun refusal_status :: "refusal \<Rightarrow> nat" where
  "refusal_status (RefMember m r) = 400"
| "refusal_status (RefTooManyMembers n) = 413"
| "refusal_status (RefTooManyBytes n) = 413"
| "refusal_status (RefPressure p r) = 507"
| "refusal_status RefIo = 500"

definition into_refusal :: "walk_error \<Rightarrow> string \<Rightarrow> string option \<Rightarrow> refusal" where
  "into_refusal e member ctxt =
     (case we_errno e of
        ELOOP \<Rightarrow> RefMember member (CannotCreate ctxt (we_component e) SymlinkOnTheWay)
      | EXDEV \<Rightarrow> RefMember member (CannotCreate ctxt (we_component e) ResolvesOutside)
      | EACCES \<Rightarrow> RefMember member (CannotCreate ctxt (we_component e) PermissionsRefuse)
      | _ \<Rightarrow> RefIo)"

section \<open>Extraction\<close>

record caps =
  cap_members :: nat
  cap_bytes :: nat

datatype entry_type = TDirectory | TSymlink | TLink | TChar | TBlock | TFifo | TData

text \<open>
  A member as the reader yields it; the outer \<open>None\<close> of a path or link name is a decoding
  error. The data comes with whether reading it fails after those bytes.
\<close>

record tar_entry =
  te_path :: "string option"
  te_kind :: entry_type
  te_link_name :: "string option option"
  te_size :: nat
  te_data :: "bytes \<times> bool"
  te_mode :: "u32 option"

record extraction =
  ex_fs :: tree_fs
  ex_deferred :: "(string \<times> (string list \<times> u32)) list"
  ex_members :: nat
  ex_total :: nat
  ex_pacer :: "tree_fs pacer"

definition defer_mode :: "string \<Rightarrow> string list \<Rightarrow> u32 option \<Rightarrow> extraction \<Rightarrow> extraction" where
  "defer_mode dest parts mode x =
     (case mode of
        None \<Rightarrow> x
      | Some m \<Rightarrow> x\<lparr>ex_deferred := AList.update dest (parts, m) (ex_deferred x)\<rparr>)"

definition extract_directory ::
  "kernel \<Rightarrow> path \<Rightarrow> string \<Rightarrow> string \<Rightarrow> string list \<Rightarrow> tar_entry \<Rightarrow> extraction
     \<Rightarrow> (refusal + unit) \<times> extraction" where
  "extract_directory K r member dest parts e x =
     (case create_dir K r parts (ex_fs x) of
        (Inl err, fs) \<Rightarrow> (Inl (into_refusal err member None), x\<lparr>ex_fs := fs\<rparr>)
      | (Inr _, fs) \<Rightarrow> (Inr (), defer_mode dest parts (te_mode e) (x\<lparr>ex_fs := fs\<rparr>)))"

definition extract_symlink ::
  "kernel \<Rightarrow> path \<Rightarrow> string \<Rightarrow> string \<Rightarrow> string list \<Rightarrow> string \<Rightarrow> extraction
     \<Rightarrow> (refusal + unit) \<times> extraction" where
  "extract_symlink K r member dest parts target x =
     (case create_symlink K r parts target (ex_fs x) of
        (Inl err, fs) \<Rightarrow> (Inl (into_refusal err member None), x\<lparr>ex_fs := fs\<rparr>)
      | (Inr _, fs) \<Rightarrow>
          (Inr (), x\<lparr>ex_fs := fs, ex_deferred := AList.delete dest (ex_deferred x)\<rparr>))"

definition extract_hard_link ::
  "kernel \<Rightarrow> path \<Rightarrow> string \<Rightarrow> string \<Rightarrow> string list \<Rightarrow> string \<Rightarrow> extraction
     \<Rightarrow> (refusal + unit) \<times> extraction" where
  "extract_hard_link K r member dest parts target x =
     (let source = (case normalize target of None \<Rightarrow> [] | Some s \<Rightarrow> s)
      in case create_hard_link K r parts source (ex_fs x) of
           (Inl (Dest err), fs) \<Rightarrow> (Inl (into_refusal err member None), x\<lparr>ex_fs := fs\<rparr>)
         | (Inl (Source err), fs) \<Rightarrow>
             (Inl (into_refusal err member (Some target)), x\<lparr>ex_fs := fs\<rparr>)
         | (Inr _, fs) \<Rightarrow>
             if parts = source then (Inr (), x\<lparr>ex_fs := fs\<rparr>)
             else (Inr (), x\<lparr>ex_fs := fs, ex_deferred := AList.delete dest (ex_deferred x)\<rparr>))"

definition extract_link ::
  "kernel \<Rightarrow> path \<Rightarrow> string \<Rightarrow> string \<Rightarrow> string list \<Rightarrow> tar_entry \<Rightarrow> extraction
     \<Rightarrow> (refusal + unit) \<times> extraction" where
  "extract_link K r member dest parts e x =
     (case te_link_name e of
        None \<Rightarrow> (Inl RefIo, x)
      | Some None \<Rightarrow> (Inl (RefMember member NoLinkTarget), x)
      | Some (Some target) \<Rightarrow>
          if is_absolute target then (Inl (RefMember member (AbsoluteTarget target)), x)
          else if \<not> link_target_is_in_tree
                    (if te_kind e = TSymlink then length parts - 1 else 0) target
          then (Inl (RefMember member (TargetOutside target)), x)
          else if te_kind e = TSymlink then extract_symlink K r member dest parts target x
          else extract_hard_link K r member dest parts target x)"

definition extract_data ::
  "kernel \<Rightarrow> caps \<Rightarrow> string \<Rightarrow> path \<Rightarrow> string \<Rightarrow> string \<Rightarrow> string list \<Rightarrow> tar_entry \<Rightarrow> extraction
     \<Rightarrow> (refusal + unit) \<times> extraction" where
  "extract_data K cs base r member dest parts e x =
     (let total = saturating_add64 (ex_total x) (te_size e); x1 = x\<lparr>ex_total := total\<rparr>
      in if cap_bytes cs < total then (Inl (RefTooManyBytes (cap_bytes cs)), x1)
         else
           (case create_file K r parts (ex_fs x1) of
              (Inl err, fs) \<Rightarrow> (Inl (into_refusal err member None), x1\<lparr>ex_fs := fs\<rparr>)
            | (Inr fd, fs) \<Rightarrow>
                (case kn_copy K fd (te_data e) fs of
                   (Inl _, fs2) \<Rightarrow> (Inl RefIo, x1\<lparr>ex_fs := fs2\<rparr>)
                 | (Inr written, fs2) \<Rightarrow>
                     (let x2 = defer_mode dest parts (te_mode e) (x1\<lparr>ex_fs := fs2\<rparr>)
                      in case pacer_record written base fs2 (ex_pacer x2) of
                           (Some reading, p) \<Rightarrow>
                             (Inl (RefPressure base reading), x2\<lparr>ex_pacer := p\<rparr>)
                         | (None, p) \<Rightarrow> (Inr (), x2\<lparr>ex_pacer := p\<rparr>)))))"

text \<open>One turn of the loop over the members; \<open>None\<close> is an error of the reader.\<close>

definition extract_member ::
  "kernel \<Rightarrow> caps \<Rightarrow> string \<Rightarrow> path \<Rightarrow> tar_entry option \<Rightarrow> extraction
     \<Rightarrow> (refusal + unit) \<times> extraction" where
  "extract_member K cs base r me x =
     (case me of
        None \<Rightarrow> (Inl RefIo, x)
      | Some e \<Rightarrow>
          (let x1 = x\<lparr>ex_members := ex_members x + 1\<rparr>
           in if cap_members cs < ex_members x1
              then (Inl (RefTooManyMembers (cap_members cs)), x1)
              else
                (case te_path e of
                   None \<Rightarrow> (Inl RefIo, x1)
                 | Some path \<Rightarrow>
                     (case resolve_member base path of
                        Escapes \<Rightarrow> (Inl (RefMember path EscapesRoot), x1)
                      | Root \<Rightarrow>
                          if te_kind e = TDirectory then (Inr (), x1)
                          else (Inl (RefMember path OnlyDirectoryNamesRoot), x1)
                      | Under dest parts \<Rightarrow>
                          (case te_kind e of
                             TDirectory \<Rightarrow> extract_directory K r path dest parts e x1
                           | TData \<Rightarrow> extract_data K cs base r path dest parts e x1
                           | TSymlink \<Rightarrow> extract_link K r path dest parts e x1
                           | TLink \<Rightarrow> extract_link K r path dest parts e x1
                           | _ \<Rightarrow> (Inl (RefMember path DeviceOrFifo), x1))))))"

fun extract_members ::
  "kernel \<Rightarrow> caps \<Rightarrow> string \<Rightarrow> path \<Rightarrow> tar_entry option list \<Rightarrow> extraction
     \<Rightarrow> (refusal + unit) \<times> extraction" where
  "extract_members K cs base r [] x = (Inr (), x)"
| "extract_members K cs base r (e # es) x =
     (case extract_member K cs base r e x of
        (Inl ref, x1) \<Rightarrow> (Inl ref, x1)
      | (Inr _, x1) \<Rightarrow> extract_members K cs base r es x1)"

text \<open>
  \<open>apply_deferred_modes\<close>: deepest first and otherwise as the hash map iterates, masked, a failure only
  logged.
\<close>

definition deferred_order ::
  "(string \<Rightarrow> nat) \<Rightarrow> (string \<times> (string list \<times> u32)) list \<Rightarrow> (string list \<times> u32) list" where
  "deferred_order hash deferred =
     sort_key (\<lambda>(parts, m). - int (length parts)) (map snd (sort_key (\<lambda>(p, e). hash p) deferred))"

fun apply_modes :: "kernel \<Rightarrow> path \<Rightarrow> (string list \<times> u32) list \<Rightarrow> tree_fs \<Rightarrow> tree_fs" where
  "apply_modes K r [] fs = fs"
| "apply_modes K r ((parts, mode) # es) fs =
     apply_modes K r es (snd (set_mode K r parts (and mode 493) fs))"

definition apply_deferred_modes ::
  "kernel \<Rightarrow> path \<Rightarrow> (string \<times> (string list \<times> u32)) list \<Rightarrow> tree_fs \<Rightarrow> tree_fs" where
  "apply_deferred_modes K r deferred fs = apply_modes K r (deferred_order (kn_hash K) deferred) fs"

definition extract_into ::
  "kernel \<Rightarrow> tree_fs guard \<Rightarrow> caps \<Rightarrow> string \<Rightarrow> tar_entry option list option \<Rightarrow> tree_fs
     \<Rightarrow> (refusal + nat) \<times> tree_fs" where
  "extract_into K g cs base archive fs =
     (case kn_open_root K base fs of
        (Inl _, fs1) \<Rightarrow> (Inl RefIo, fs1)
      | (Inr r, fs1) \<Rightarrow>
          (case archive of
             None \<Rightarrow> (Inl RefIo, fs1)
           | Some entries \<Rightarrow>
               (case extract_members K cs base r entries
                       \<lparr>ex_fs = fs1, ex_deferred = [], ex_members = 0, ex_total = 0,
                        ex_pacer = new_pacer g\<rparr> of
                  (Inl ref, x) \<Rightarrow> (Inl ref, ex_fs x)
                | (Inr _, x) \<Rightarrow>
                    (Inr (ex_members x), apply_deferred_modes K r (ex_deferred x) (ex_fs x)))))"

section \<open>What the kernel promises\<close>

definition set_ent :: "path \<Rightarrow> entry option \<Rightarrow> tree_fs \<Rightarrow> tree_fs" where
  "set_ent p e fs = fs\<lparr>tf_ent := (tf_ent fs)(p := e)\<rparr>"

definition set_inode :: "nat \<Rightarrow> bytes \<times> u32 \<Rightarrow> tree_fs \<Rightarrow> tree_fs" where
  "set_inode i c fs = fs\<lparr>tf_inode := (tf_inode fs)(i \<mapsto> c)\<rparr>"

lemma set_ent_simps [simp]:
  "tf_ent (set_ent p e fs) = (tf_ent fs)(p := e)" "tf_inode (set_ent p e fs) = tf_inode fs"
  "tf_ent (set_inode i c fs) = tf_ent fs" "tf_inode (set_inode i c fs) = (tf_inode fs)(i \<mapsto> c)"
  by (simp_all add: set_ent_def set_inode_def)

lemma set_inode_twice [simp]: "set_inode i c (set_inode i c' fs) = set_inode i c fs"
  by (simp add: set_inode_def)

locale kernel_laws =
  fixes K :: kernel
  assumes mkdirat_law: "normal_name n \<Longrightarrow> kn_mkdirat K d n fs = (r, fs') \<Longrightarrow>
      (case r of Some e \<Rightarrow> fs' = fs
       | None \<Rightarrow> tf_ent fs (d @ [n]) = None \<and> (\<exists>m. fs' = set_ent (d @ [n]) (Some (DirEntry m)) fs))"
    and open_dir_law: "normal_name n \<Longrightarrow> kn_open_dir K d n fs = Inr d' \<Longrightarrow>
      d' = d @ [n] \<and> (\<exists>m. tf_ent fs (d @ [n]) = Some (DirEntry m))"
    and unlinkat_law: "normal_name n \<Longrightarrow> kn_unlinkat K d n fs = fs' \<Longrightarrow>
      fs' = fs \<or>
      (\<exists>e. tf_ent fs (d @ [n]) = Some e \<and> \<not> is_dir_entry e \<and> fs' = set_ent (d @ [n]) None fs)"
    and open_new_law: "normal_name n \<Longrightarrow> kn_open_new K d n fs = (rn, fs') \<Longrightarrow>
      (case rn of Inl e \<Rightarrow> fs' = fs
       | Inr i \<Rightarrow> tf_ent fs (d @ [n]) = None \<and> tf_inode fs i = None \<and>
           (\<exists>m. fs' = set_inode i ([], m) (set_ent (d @ [n]) (Some (FileEntry i)) fs)))"
    and copy_law: "tf_inode fs i = Some (old, m) \<Longrightarrow> kn_copy K i data fs = (rn, fs') \<Longrightarrow>
      \<exists>bs. fs' = set_inode i (old @ bs, m) fs \<and>
        (case rn of Inl e \<Rightarrow> True | Inr k \<Rightarrow> bs = fst data \<and> k = length bs)"
    and symlinkat_law: "normal_name n \<Longrightarrow> kn_symlinkat K t d n fs = (r, fs') \<Longrightarrow>
      (case r of Some e \<Rightarrow> fs' = fs
       | None \<Rightarrow> tf_ent fs (d @ [n]) = None \<and> fs' = set_ent (d @ [n]) (Some (LinkEntry t)) fs)"
    and linkat_law: "normal_name sn \<Longrightarrow> normal_name n \<Longrightarrow> kn_linkat K sd sn d n fs = (r, fs') \<Longrightarrow>
      (case r of Some e \<Rightarrow> fs' = fs
       | None \<Rightarrow> tf_ent fs (d @ [n]) = None \<and>
           (\<exists>e. tf_ent fs (sd @ [sn]) = Some e \<and> \<not> is_dir_entry e \<and>
              fs' = set_ent (d @ [n]) (Some e) fs))"
    and fchmodat_law: "normal_name n \<Longrightarrow> kn_fchmodat K d n mode fs = (r, fs') \<Longrightarrow>
      (case r of Some e \<Rightarrow> fs' = fs
       | None \<Rightarrow>
           (case tf_ent fs (d @ [n]) of
              Some (DirEntry m) \<Rightarrow> fs' = set_ent (d @ [n]) (Some (DirEntry mode)) fs
            | Some (FileEntry i) \<Rightarrow>
                fs' = fs \<or> (\<exists>c m. tf_inode fs i = Some (c, m) \<and> fs' = set_inode i (c, mode) fs)
            | _ \<Rightarrow> fs' = fs))"

end
