(* ===== verification/TarConfined.thy ===== *)
theory TarConfined
  imports TarExtract
begin

text \<open>
  What tar extraction guarantees: per operation what it changes (\<open>quiet\<close>), per member its
  effect (\<open>member_effect\<close>), and over an archive the invariants of confinement, delivery
  and symlink targets. The lemmas hold under the laws of the kernel; \<open>mem_kernel\<close> is a
  kernel that keeps them.
\<close>

section \<open>What each operation changes\<close>

definition under :: "path \<Rightarrow> path \<Rightarrow> bool" where
  "under r p \<longleftrightarrow> (\<exists>q. q \<noteq> [] \<and> p = r @ q)"

definition is_dir_at :: "tree_fs \<Rightarrow> path \<Rightarrow> bool" where
  "is_dir_at fs p \<longleftrightarrow> (case tf_ent fs p of None \<Rightarrow> False | Some e \<Rightarrow> is_dir_entry e)"

text \<open>Only missing directories under the root were made.\<close>

definition dirs_added :: "path \<Rightarrow> tree_fs \<Rightarrow> tree_fs \<Rightarrow> bool" where
  "dirs_added r fs fs' \<longleftrightarrow> tf_inode fs' = tf_inode fs \<and>
     (\<forall>p. tf_ent fs' p = tf_ent fs p \<or> under r p \<and> tf_ent fs p = None \<and> is_dir_at fs' p)"

text \<open>Besides, what is not a directory at one place under the root may be gone.\<close>

definition quiet :: "path \<Rightarrow> string list \<Rightarrow> tree_fs \<Rightarrow> tree_fs \<Rightarrow> bool" where
  "quiet r parts fs fs' \<longleftrightarrow> tf_inode fs' = tf_inode fs \<and>
     (\<forall>p. tf_ent fs' p = tf_ent fs p \<or>
       under r p \<and> (tf_ent fs p = None \<and> is_dir_at fs' p \<or>
                    p = r @ parts \<and> tf_ent fs' p = None \<and> \<not> is_dir_at fs p))"

lemma dirs_added_refl: "dirs_added r fs fs"
  by (simp add: dirs_added_def)

lemma dirs_added_trans: "dirs_added r a b \<Longrightarrow> dirs_added r b c \<Longrightarrow> dirs_added r a c"
  unfolding dirs_added_def is_dir_at_def by (metis option.simps(4))

lemma dirs_added_quiet: "dirs_added r fs fs' \<Longrightarrow> quiet r parts fs fs'"
  by (auto simp: dirs_added_def quiet_def)

lemma dirs_added_mkdir:
  "tf_ent fs (r @ q) = None \<Longrightarrow> q \<noteq> [] \<Longrightarrow> dirs_added r fs (set_ent (r @ q) (Some (DirEntry m)) fs)"
  by (auto simp: dirs_added_def under_def is_dir_at_def)

lemma quiet_unlink:
  assumes "dirs_added r fs fs1" and "parts \<noteq> []"
    and "fs2 = fs1 \<or> (\<exists>e. tf_ent fs1 (r @ parts) = Some e \<and> \<not> is_dir_entry e \<and>
      fs2 = set_ent (r @ parts) None fs1)"
  shows "quiet r parts fs fs2"
proof -
  have d: "tf_ent fs1 p = tf_ent fs p \<or> under r p \<and> tf_ent fs p = None \<and> is_dir_at fs1 p" for p
    using assms(1) by (simp add: dirs_added_def)
  from assms(3) show ?thesis
  proof
    assume "fs2 = fs1"
    then show ?thesis using dirs_added_quiet [OF assms(1)] by simp
  next
    assume "\<exists>e. tf_ent fs1 (r @ parts) = Some e \<and> \<not> is_dir_entry e \<and> fs2 = set_ent (r @ parts) None fs1"
    then obtain e where e: "tf_ent fs1 (r @ parts) = Some e" "\<not> is_dir_entry e"
      and fs2: "fs2 = set_ent (r @ parts) None fs1"
      by blast
    have "\<not> is_dir_at fs1 (r @ parts)" using e by (simp add: is_dir_at_def)
    with d [of "r @ parts"] have same: "tf_ent fs (r @ parts) = Some e" using e by auto
    have "tf_ent fs2 p = tf_ent fs p \<or>
       under r p \<and> (tf_ent fs p = None \<and> is_dir_at fs2 p \<or>
                    p = r @ parts \<and> tf_ent fs2 p = None \<and> \<not> is_dir_at fs p)" for p
    proof (cases "p = r @ parts")
      case True
      then show ?thesis using fs2 same e assms(2) by (auto simp: under_def is_dir_at_def)
    next
      case False
      then show ?thesis using d [of p] fs2 by (simp add: is_dir_at_def)
    qed
    then show ?thesis using assms(1) fs2 by (simp add: quiet_def dirs_added_def)
  qed
qed

context kernel_laws
begin

lemma make_dirs_from_added:
  assumes "\<forall>n \<in> set parts. normal_name n" and "make_dirs_from K (r @ q) parts fs = (res, fs')"
  shows "dirs_added r fs fs' \<and> (\<forall>d. res = Inr d \<longrightarrow> d = r @ q @ parts)"
  using assms
proof (induction parts arbitrary: q fs)
  case Nil
  then show ?case by (auto simp: dirs_added_refl)
next
  case (Cons n parts)
  obtain e fs1 where mk: "kn_mkdirat K (r @ q) n fs = (e, fs1)" by (cases "kn_mkdirat K (r @ q) n fs")
  have n: "normal_name n" using Cons.prems(1) by simp
  have added: "dirs_added r fs fs1"
    using mkdirat_law [OF n mk] dirs_added_mkdir [of fs r "q @ [n]"]
    by (cases e) (auto simp: dirs_added_refl)
  show ?case
  proof (cases "e \<noteq> None \<and> e \<noteq> Some EEXIST")
    case True
    then show ?thesis using Cons.prems(2) mk added by auto
  next
    case go: False
    show ?thesis
    proof (cases "kn_open_dir K (r @ q) n fs1")
      case (Inl err)
      then show ?thesis using Cons.prems(2) mk go added by auto
    next
      case (Inr d)
      then have "d = r @ (q @ [n])" using open_dir_law [OF n Inr] by simp
      then have "make_dirs_from K (r @ (q @ [n])) parts fs1 = (res, fs')"
        using Cons.prems(2) mk go Inr by auto
      from Cons.IH [OF _ this] Cons.prems(1) added show ?thesis
        by (auto intro: dirs_added_trans)
    qed
  qed
qed

lemma make_dirs_added:
  assumes "\<forall>n \<in> set parts. normal_name n" and "make_dirs K r parts fs = (res, fs')"
  shows "dirs_added r fs fs' \<and> (\<forall>d. res = Inr d \<longrightarrow> d = r @ parts)"
  using make_dirs_from_added [of parts r "[]" fs res fs'] assms
  by (auto simp: make_dirs_def dirs_added_refl split: option.splits)

lemma make_dirs_from_dir:
  assumes "\<forall>n \<in> set parts. normal_name n" and "parts \<noteq> []"
    and "make_dirs_from K (r @ q) parts fs = (Inr d, fs')"
  shows "is_dir_at fs' (r @ q @ parts)"
  using assms
proof (induction parts arbitrary: q fs)
  case (Cons n parts)
  obtain e fs1 where mk: "kn_mkdirat K (r @ q) n fs = (e, fs1)" by (cases "kn_mkdirat K (r @ q) n fs")
  obtain d1 where od: "kn_open_dir K (r @ q) n fs1 = Inr d1"
    and rest: "make_dirs_from K d1 parts fs1 = (Inr d, fs')"
    using Cons.prems(3) mk by (auto split: if_splits sum.splits)
  have n: "normal_name n" using Cons.prems(1) by simp
  note l = open_dir_law [OF n od]
  show ?case
  proof (cases "parts = []")
    case True
    then show ?thesis using rest l by (auto simp: is_dir_at_def)
  next
    case False
    then show ?thesis using Cons.IH [of "q @ [n]" fs1] Cons.prems(1) rest l by simp
  qed
qed simp

lemma make_dirs_dir:
  assumes "\<forall>n \<in> set parts. normal_name n" and "parts \<noteq> []" and "make_dirs K r parts fs = (Inr d, fs')"
  shows "is_dir_at fs' (r @ parts)"
  using make_dirs_from_dir [of parts r "[]"] assms by (auto simp: make_dirs_def split: option.splits)

lemma parent_of_added:
  assumes "\<forall>n \<in> set parts. normal_name n" and "parent_of K r parts fs = (res, fs')" and "parts \<noteq> []"
  shows "dirs_added r fs fs' \<and>
    (\<forall>d n. res = Inr (d, n) \<longrightarrow> d @ [n] = r @ parts \<and> normal_name n)"
proof -
  obtain res1 fs1 where md: "make_dirs K r (butlast parts) fs = (res1, fs1)"
    by (cases "make_dirs K r (butlast parts) fs")
  have "\<forall>n \<in> set (butlast parts). normal_name n" using assms(1) by (auto dest: in_set_butlastD)
  from make_dirs_added [OF this md] assms md show ?thesis
    by (auto simp: parent_of_def split: sum.splits)
qed

lemma walk_existing_from_path:
  "\<forall>n \<in> set parts. normal_name n \<Longrightarrow> walk_existing_from K (r @ q) parts fs = Inr d \<Longrightarrow>
     d = r @ q @ parts"
proof (induction parts arbitrary: q)
  case (Cons n parts)
  then obtain d1 where d1: "kn_open_dir K (r @ q) n fs = Inr d1"
    and w: "walk_existing_from K d1 parts fs = Inr d"
    by (auto split: sum.splits)
  have "d1 = r @ (q @ [n])" using open_dir_law [OF _ d1] Cons.prems(1) by simp
  with w Cons.IH [of "q @ [n]"] Cons.prems(1) show ?case by simp
qed simp

lemma walk_existing_path:
  "\<forall>n \<in> set parts. normal_name n \<Longrightarrow> walk_existing K r parts fs = Inr d \<Longrightarrow> d = r @ parts"
  using walk_existing_from_path [of parts r "[]"] by (auto simp: walk_existing_def split: option.splits)

text \<open>A leaf operation: the walk to its parent, then the replacement of its name.\<close>

lemma parent_unlinked:
  assumes "\<forall>n \<in> set parts. normal_name n" and "parts \<noteq> []"
    and "parent_of K r parts fs = (Inr (d, n), fs1)" and "fs2 = kn_unlinkat K d n fs1"
  shows "quiet r parts fs fs2 \<and> d @ [n] = r @ parts \<and> normal_name n"
proof -
  from parent_of_added [OF assms(1,3,2)] have p: "dirs_added r fs fs1" "d @ [n] = r @ parts"
    "normal_name n"
    by auto
  from unlinkat_law [OF p(3) assms(4) [symmetric]] p assms(2) quiet_unlink [OF p(1) assms(2)]
  show ?thesis by auto
qed

lemma create_file_effect:
  assumes "\<forall>n \<in> set parts. normal_name n" and "parts \<noteq> []" and "create_file K r parts fs = (res, fs')"
  shows "case res of Inl e \<Rightarrow> quiet r parts fs fs'
    | Inr i \<Rightarrow> \<exists>fs1 m. quiet r parts fs fs1 \<and> tf_ent fs1 (r @ parts) = None \<and> tf_inode fs1 i = None \<and>
        fs' = set_inode i ([], m) (set_ent (r @ parts) (Some (FileEntry i)) fs1)"
proof -
  obtain res1 fs1 where po: "parent_of K r parts fs = (res1, fs1)" by (cases "parent_of K r parts fs")
  show ?thesis
  proof (cases res1)
    case (Inl e)
    then show ?thesis
      using assms po parent_of_added [OF assms(1) po assms(2)]
      by (auto simp: create_file_def dirs_added_quiet)
  next
    case (Inr dn)
    obtain d n where dn: "dn = (d, n)" by (cases dn)
    let ?fs2 = "kn_unlinkat K d n fs1"
    obtain res2 fs3 where on: "kn_open_new K d n ?fs2 = (res2, fs3)" by (cases "kn_open_new K d n ?fs2")
    have q: "quiet r parts fs ?fs2" "d @ [n] = r @ parts" "normal_name n"
      using parent_unlinked [OF assms(1,2) po [unfolded Inr dn] refl] by simp_all
    from open_new_law [OF q(3) on] q(1,2) assms(3) po Inr dn on show ?thesis
      by (cases res2) (auto simp: create_file_def intro!: exI [of _ ?fs2])
  qed
qed

lemma create_symlink_effect:
  assumes "\<forall>n \<in> set parts. normal_name n" and "parts \<noteq> []"
    and "create_symlink K r parts t fs = (res, fs')"
  shows "case res of Inl e \<Rightarrow> quiet r parts fs fs'
    | Inr _ \<Rightarrow> \<exists>fs1. quiet r parts fs fs1 \<and> tf_ent fs1 (r @ parts) = None \<and>
        fs' = set_ent (r @ parts) (Some (LinkEntry t)) fs1"
proof -
  obtain res1 fs1 where po: "parent_of K r parts fs = (res1, fs1)" by (cases "parent_of K r parts fs")
  show ?thesis
  proof (cases res1)
    case (Inl e)
    then show ?thesis
      using assms po parent_of_added [OF assms(1) po assms(2)]
      by (auto simp: create_symlink_def dirs_added_quiet)
  next
    case (Inr dn)
    obtain d n where dn: "dn = (d, n)" by (cases dn)
    let ?fs2 = "kn_unlinkat K d n fs1"
    obtain res2 fs3 where on: "kn_symlinkat K t d n ?fs2 = (res2, fs3)"
      by (cases "kn_symlinkat K t d n ?fs2")
    have q: "quiet r parts fs ?fs2" "d @ [n] = r @ parts" "normal_name n"
      using parent_unlinked [OF assms(1,2) po [unfolded Inr dn] refl] by simp_all
    from symlinkat_law [OF q(3) on] q(1,2) assms(3) po Inr dn on show ?thesis
      by (cases res2) (auto simp: create_symlink_def intro!: exI [of _ ?fs2])
  qed
qed

lemma create_hard_link_effect:
  assumes "\<forall>n \<in> set parts. normal_name n" and "parts \<noteq> []" and "\<forall>n \<in> set source. normal_name n"
    and "create_hard_link K r parts source fs = (res, fs')"
  shows "case res of Inl e \<Rightarrow> quiet r parts fs fs'
    | Inr _ \<Rightarrow> if parts = source then quiet r parts fs fs'
        else \<exists>fs1 e. quiet r parts fs fs1 \<and> tf_ent fs1 (r @ parts) = None \<and>
          tf_ent fs1 (r @ source) = Some e \<and> \<not> is_dir_entry e \<and>
          fs' = set_ent (r @ parts) (Some e) fs1"
proof -
  obtain res1 fs1 where po: "parent_of K r parts fs = (res1, fs1)" by (cases "parent_of K r parts fs")
  note pa = parent_of_added [OF assms(1) po assms(2)]
  show ?thesis
  proof (cases res1)
    case (Inl e)
    then show ?thesis
      using assms(4) po pa by (auto simp: create_hard_link_def dirs_added_quiet)
  next
    case (Inr dn)
    obtain d n where dn: "dn = (d, n)" by (cases dn)
    let ?fs2 = "kn_unlinkat K d n fs1"
    have q: "quiet r parts fs ?fs2" "d @ [n] = r @ parts" "normal_name n"
      using parent_unlinked [OF assms(1,2) po [unfolded Inr dn] refl] by simp_all
    consider (self) "parts = source" | (none) "parts \<noteq> source" "source = []"
      | (lost) e where "parts \<noteq> source" "source \<noteq> []" "walk_existing K r (butlast source) ?fs2 = Inl e"
      | (found) sd where "parts \<noteq> source" "source \<noteq> []" "walk_existing K r (butlast source) ?fs2 = Inr sd"
      by (cases "walk_existing K r (butlast source) ?fs2") auto
    then show ?thesis
    proof cases
      case self
      then show ?thesis
        using assms(4) po Inr dn pa
        by (auto simp: create_hard_link_def dirs_added_quiet split: sum.splits if_splits)
    next
      case none
      then show ?thesis using assms(4) po Inr dn q by (auto simp: create_hard_link_def)
    next
      case lost
      then show ?thesis using assms(4) po Inr dn q by (auto simp: create_hard_link_def Let_def)
    next
      case found
      obtain e fs3 where ln: "kn_linkat K sd (last source) d n ?fs2 = (e, fs3)"
        by (cases "kn_linkat K sd (last source) d n ?fs2")
      have "\<forall>n \<in> set (butlast source). normal_name n" using assms(3) by (auto dest: in_set_butlastD)
      from walk_existing_path [OF this found(3)] found(2)
      have sd: "sd @ [last source] = r @ source" by simp
      have "normal_name (last source)" using assms(3) found(2) by simp
      from linkat_law [OF this q(3) ln] found q sd assms(4) po Inr dn ln show ?thesis
        by (cases e) (auto simp: create_hard_link_def Let_def intro!: exI [of _ ?fs2])
    qed
  qed
qed

lemma set_mode_effect:
  assumes "\<forall>n \<in> set parts. normal_name n" and "parts \<noteq> []" and "set_mode K r parts mode fs = (res, fs')"
  shows "\<exists>fs1. dirs_added r fs fs1 \<and>
    (fs' = fs1 \<or>
     (is_dir_at fs1 (r @ parts) \<and> fs' = set_ent (r @ parts) (Some (DirEntry mode)) fs1) \<or>
     (\<exists>i c m. tf_ent fs1 (r @ parts) = Some (FileEntry i) \<and> tf_inode fs1 i = Some (c, m) \<and>
        fs' = set_inode i (c, mode) fs1))"
proof -
  obtain res1 fs1 where po: "parent_of K r parts fs = (res1, fs1)" by (cases "parent_of K r parts fs")
  note pa = parent_of_added [OF assms(1) po assms(2)]
  show ?thesis
  proof (cases res1)
    case (Inl e)
    then show ?thesis using assms(3) po pa by (auto simp: set_mode_def)
  next
    case (Inr dn)
    obtain d n where dn: "dn = (d, n)" by (cases dn)
    obtain e fs2 where ch: "kn_fchmodat K d n mode fs1 = (e, fs2)" by (cases "kn_fchmodat K d n mode fs1")
    have fs': "fs' = fs2" using assms(3) po Inr dn ch by (auto simp: set_mode_def split: option.splits)
    from pa Inr dn have d: "dirs_added r fs fs1" "d @ [n] = r @ parts" "normal_name n" by auto
    from fchmodat_law [OF d(3) ch] d(1,2) fs' show ?thesis
      by (intro exI [of _ fs1])
        (auto simp: is_dir_at_def split: option.splits entry.splits)
  qed
qed

end

section \<open>What a member does\<close>

text \<open>Where a member lands, with its type.\<close>

definition lands :: "string \<Rightarrow> tar_entry option \<Rightarrow> (entry_type \<times> string list) option" where
  "lands base me =
     (case me of
        None \<Rightarrow> None
      | Some e \<Rightarrow>
          (case te_path e of
             None \<Rightarrow> None
           | Some path \<Rightarrow>
               (case resolve_member base path of
                  Under dest parts \<Rightarrow> Some (te_kind e, parts)
                | _ \<Rightarrow> None)))"

definition member_data :: "tar_entry option \<Rightarrow> bytes" where
  "member_data me = (case me of None \<Rightarrow> [] | Some e \<Rightarrow> fst (te_data e))"

definition declared :: "string \<Rightarrow> tar_entry option \<Rightarrow> nat" where
  "declared base me =
     (case lands base me of
        Some (TData, _) \<Rightarrow> (case me of None \<Rightarrow> 0 | Some e \<Rightarrow> te_size e)
      | _ \<Rightarrow> 0)"

lemma lands_normal: "lands base me = Some (k, parts) \<Longrightarrow> parts \<noteq> [] \<and> (\<forall>n \<in> set parts. normal_name n)"
  using resolve_member_Under by (auto simp: lands_def split: option.splits landing.splits)

type_synonym deferred = "(string \<times> (string list \<times> u32)) list"

text \<open>
  The effect of one turn of the loop on the filesystem and the deferred modes; \<open>ok\<close> says that
  the loop goes on.
\<close>

inductive member_effect ::
  "string \<Rightarrow> path \<Rightarrow> tar_entry option \<Rightarrow> bool \<Rightarrow> tree_fs \<times> deferred \<Rightarrow> tree_fs \<times> deferred \<Rightarrow> bool"
  for base r me ok where
  eff_none: "(ok \<Longrightarrow> lands base me = None) \<Longrightarrow> member_effect base r me ok (fs, d) (fs, d)"
| eff_quiet: "lands base me = Some (k, parts) \<Longrightarrow> quiet r parts fs fs' \<Longrightarrow> (ok \<Longrightarrow> k \<noteq> TData) \<Longrightarrow>
    member_effect base r me ok (fs, d) (fs', d)"
| eff_dir: "lands base me = Some (TDirectory, parts) \<Longrightarrow> quiet r parts fs fs' \<Longrightarrow>
    is_dir_at fs' (r @ parts) \<Longrightarrow>
    member_effect base r me ok (fs, d) (fs', AList.update (joined base parts) (parts, m) d)"
| eff_file: "lands base me = Some (TData, parts) \<Longrightarrow> quiet r parts fs fs1 \<Longrightarrow>
    tf_ent fs1 (r @ parts) = None \<Longrightarrow> tf_inode fs1 i = None \<Longrightarrow> (ok \<Longrightarrow> bs = member_data me) \<Longrightarrow>
    d' = d \<or> (\<exists>m'. d' = AList.update (joined base parts) (parts, m') d) \<Longrightarrow>
    member_effect base r me ok (fs, d)
      (set_inode i (bs, m) (set_ent (r @ parts) (Some (FileEntry i)) fs1), d')"
| eff_symlink: "lands base me = Some (TSymlink, parts) \<Longrightarrow> quiet r parts fs fs1 \<Longrightarrow>
    tf_ent fs1 (r @ parts) = None \<Longrightarrow> target_stays (butlast parts) t \<Longrightarrow>
    member_effect base r me ok (fs, d)
      (set_ent (r @ parts) (Some (LinkEntry t)) fs1, AList.delete (joined base parts) d)"
| eff_hard_link: "lands base me = Some (TLink, parts) \<Longrightarrow> quiet r parts fs fs1 \<Longrightarrow>
    tf_ent fs1 (r @ parts) = None \<Longrightarrow> tf_ent fs1 q = Some e \<Longrightarrow> \<not> is_dir_entry e \<Longrightarrow>
    member_effect base r me ok (fs, d)
      (set_ent (r @ parts) (Some e) fs1, AList.delete (joined base parts) d)"

context kernel_laws
begin

lemma create_dir_effect:
  assumes "\<forall>n \<in> set parts. normal_name n" and "parts \<noteq> []" and "create_dir K r parts fs = (res, fs')"
  shows "quiet r parts fs fs' \<and> (isl res \<or> is_dir_at fs' (r @ parts))"
  using make_dirs_added [OF assms(1)] make_dirs_dir [OF assms(1,2)] assms(3)
  by (auto simp: create_dir_def dirs_added_quiet split: prod.splits sum.splits)

lemma extract_directory_effect:
  assumes "lands base me = Some (TDirectory, parts)"
    and "extract_directory K r member (joined base parts) parts e x = (res, x')"
  shows "member_effect base r me (\<not> isl res) (ex_fs x, ex_deferred x) (ex_fs x', ex_deferred x')"
proof -
  obtain res1 fs where cd: "create_dir K r parts (ex_fs x) = (res1, fs)"
    by (cases "create_dir K r parts (ex_fs x)")
  note n = lands_normal [OF assms(1)]
  from create_dir_effect [OF _ _ cd] n have q: "quiet r parts (ex_fs x) fs"
    and d: "isl res1 \<or> is_dir_at fs (r @ parts)" by auto
  show ?thesis
  proof (cases res1)
    case (Inl err)
    then show ?thesis
      using assms(2) cd eff_quiet [OF assms(1) q, of "\<not> isl res" "ex_deferred x"]
      by (auto simp: extract_directory_def)
  next
    case (Inr u)
    then show ?thesis
      using assms(2) cd d eff_quiet [OF assms(1) q, of "\<not> isl res" "ex_deferred x"]
        eff_dir [OF assms(1) q]
      by (auto simp: extract_directory_def defer_mode_def split: option.splits)
  qed
qed

lemma extract_data_effect:
  assumes "lands base (Some e) = Some (TData, parts)"
    and "extract_data K cs base r member (joined base parts) parts e x = (res, x')"
  shows "member_effect base r (Some e) (\<not> isl res) (ex_fs x, ex_deferred x) (ex_fs x', ex_deferred x')"
proof -
  let ?total = "saturating_add64 (ex_total x) (te_size e)"
  note n = lands_normal [OF assms(1)]
  show ?thesis
  proof (cases "cap_bytes cs < ?total")
    case True
    then show ?thesis using assms(2) by (auto simp: extract_data_def intro: eff_none)
  next
    case False
    obtain res1 fs where cf: "create_file K r parts (ex_fs x) = (res1, fs)"
      by (cases "create_file K r parts (ex_fs x)")
    from create_file_effect [OF _ _ cf] n have ce: "case res1 of Inl e \<Rightarrow> quiet r parts (ex_fs x) fs
      | Inr i \<Rightarrow> \<exists>fs1 m. quiet r parts (ex_fs x) fs1 \<and> tf_ent fs1 (r @ parts) = None \<and>
          tf_inode fs1 i = None \<and> fs = set_inode i ([], m) (set_ent (r @ parts) (Some (FileEntry i)) fs1)"
      by blast
    show ?thesis
    proof (cases res1)
      case (Inl err)
      then show ?thesis
        using assms(2) cf ce False eff_quiet [OF assms(1), of r "ex_fs x" fs "\<not> isl res" "ex_deferred x"]
        by (auto simp: extract_data_def)
    next
      case (Inr i)
      with ce obtain fs1 m where q: "quiet r parts (ex_fs x) fs1" "tf_ent fs1 (r @ parts) = None"
        "tf_inode fs1 i = None"
        and fs: "fs = set_inode i ([], m) (set_ent (r @ parts) (Some (FileEntry i)) fs1)"
        by auto
      obtain res2 fs2 where cp: "kn_copy K i (te_data e) fs = (res2, fs2)"
        by (cases "kn_copy K i (te_data e) fs")
      have "tf_inode fs i = Some ([], m)" by (simp add: fs)
      from copy_law [OF this cp] obtain bs where
        w: "fs2 = set_inode i ([] @ bs, m) fs" and ok: "case res2 of Inl e \<Rightarrow> True
          | Inr k \<Rightarrow> bs = fst (te_data e) \<and> k = length bs" by blast
      have fs2: "fs2 = set_inode i (bs, m) (set_ent (r @ parts) (Some (FileEntry i)) fs1)"
        by (simp add: w fs)
      have bs: "bs = fst (te_data e)" if "\<not> isl res2" using that ok by (cases res2) auto
      have x': "ex_fs x' = fs2" "isl res2 \<Longrightarrow> isl res"
        "ex_deferred x' = ex_deferred x \<or>
          (\<exists>m'. ex_deferred x' = AList.update (joined base parts) (parts, m') (ex_deferred x))"
        using assms(2) False cf Inr cp
        by (auto simp: extract_data_def Let_def defer_mode_def split: sum.splits option.splits prod.splits)
      show ?thesis
        unfolding x'(1) fs2
        by (rule eff_file [OF assms(1) q _ x'(3)]) (use bs x'(2) in \<open>auto simp: member_data_def\<close>)
    qed
  qed
qed

lemma extract_link_effect:
  assumes "lands base (Some e) = Some (te_kind e, parts)" and "te_kind e = TSymlink \<or> te_kind e = TLink"
    and "extract_link K r member (joined base parts) parts e x = (res, x')"
  shows "member_effect base r (Some e) (\<not> isl res) (ex_fs x, ex_deferred x) (ex_fs x', ex_deferred x')"
proof -
  note n = lands_normal [OF assms(1)]
  let ?depth = "if te_kind e = TSymlink then length parts - 1 else 0"
  consider (refused) "isl res" "x' = x"
    | (sym) t where "te_kind e = TSymlink" "link_target_is_in_tree (length parts - 1) t"
        "extract_symlink K r member (joined base parts) parts t x = (res, x')"
    | (hard) t where "te_kind e = TLink" "link_target_is_in_tree 0 t"
        "extract_hard_link K r member (joined base parts) parts t x = (res, x')"
    using assms(2,3) by (auto simp: extract_link_def split: option.splits if_splits)
  then show ?thesis
  proof cases
    case refused
    then show ?thesis by (auto intro: eff_none)
  next
    case sym
    obtain res1 fs where cs: "create_symlink K r parts t (ex_fs x) = (res1, fs)"
      by (cases "create_symlink K r parts t (ex_fs x)")
    have st: "target_stays (butlast parts) t"
      using sym(2) link_target_stays [of "butlast parts" t] by simp
    from create_symlink_effect [OF _ _ cs] n have ce: "case res1 of Inl e \<Rightarrow> quiet r parts (ex_fs x) fs
      | Inr _ \<Rightarrow> \<exists>fs1. quiet r parts (ex_fs x) fs1 \<and> tf_ent fs1 (r @ parts) = None \<and>
        fs = set_ent (r @ parts) (Some (LinkEntry t)) fs1" by blast
    show ?thesis
    proof (cases res1)
      case (Inl err)
      then show ?thesis
        using sym(3) cs ce eff_quiet [OF assms(1), of r "ex_fs x" fs "\<not> isl res" "ex_deferred x"]
        by (auto simp: extract_symlink_def)
    next
      case (Inr u)
      with ce obtain fs1 where "quiet r parts (ex_fs x) fs1" "tf_ent fs1 (r @ parts) = None"
        "fs = set_ent (r @ parts) (Some (LinkEntry t)) fs1" by auto
      then show ?thesis
        using sym(3) cs Inr eff_symlink [OF _ _ _ st, of base "Some e" r "ex_fs x" fs1] assms(1) sym(1)
        by (auto simp: extract_symlink_def)
    qed
  next
    case hard
    define source where "source = (case normalize t of None \<Rightarrow> [] | Some s \<Rightarrow> s)"
    have sn: "\<forall>n \<in> set source. normal_name n"
      by (cases "normalize t") (auto simp: source_def dest: normalize_normal)
    obtain res1 fs where cl: "create_hard_link K r parts source (ex_fs x) = (res1, fs)"
      by (cases "create_hard_link K r parts source (ex_fs x)")
    note ce = create_hard_link_effect [OF conjunct2 [OF n] conjunct1 [OF n] sn cl]
    note qu = eff_quiet [OF assms(1), of r "ex_fs x" fs "\<not> isl res" "ex_deferred x"]
    show ?thesis
    proof (cases res1)
      case (Inl err)
      then show ?thesis
        using hard(1,3) cl ce qu
        by (auto simp: extract_hard_link_def Let_def source_def [symmetric] split: hard_link_error.splits)
    next
      case (Inr u)
      show ?thesis
      proof (cases "parts = source")
        case True
        then show ?thesis
          using hard(1,3) cl ce qu Inr
          by (auto simp: extract_hard_link_def Let_def source_def [symmetric])
      next
        case False
        with ce Inr obtain fs1 en where "quiet r parts (ex_fs x) fs1" "tf_ent fs1 (r @ parts) = None"
          "tf_ent fs1 (r @ source) = Some en" "\<not> is_dir_entry en"
          "fs = set_ent (r @ parts) (Some en) fs1" by auto
        then show ?thesis
          using hard(1,3) cl Inr False assms(1)
            eff_hard_link [of base "Some e" parts r "ex_fs x" fs1 "r @ source" en]
          by (auto simp: extract_hard_link_def Let_def source_def [symmetric])
      qed
    qed
  qed
qed

lemma extract_member_effect:
  assumes "extract_member K cs base r me x = (res, x')"
  shows "member_effect base r me (\<not> isl res) (ex_fs x, ex_deferred x) (ex_fs x', ex_deferred x')"
proof -
  consider (stop) "isl res" "ex_fs x' = ex_fs x" "ex_deferred x' = ex_deferred x"
    | (skip) "lands base me = None" "ex_fs x' = ex_fs x" "ex_deferred x' = ex_deferred x"
    | (land) e path dest parts where "me = Some e" "te_path e = Some path"
        "resolve_member base path = Under dest parts" "te_kind e \<in> {TDirectory, TData, TSymlink, TLink}"
        "(case te_kind e of
             TDirectory \<Rightarrow> extract_directory K r path dest parts e (x\<lparr>ex_members := ex_members x + 1\<rparr>)
           | TData \<Rightarrow> extract_data K cs base r path dest parts e (x\<lparr>ex_members := ex_members x + 1\<rparr>)
           | _ \<Rightarrow> extract_link K r path dest parts e (x\<lparr>ex_members := ex_members x + 1\<rparr>)) = (res, x')"
    using assms
    by (auto simp: extract_member_def lands_def Let_def
        split: option.splits if_splits landing.splits entry_type.splits)
  then show ?thesis
  proof cases
    case stop
    then show ?thesis by (auto intro: eff_none)
  next
    case skip
    then show ?thesis by (auto intro: eff_none)
  next
    case land
    have l: "lands base (Some e) = Some (te_kind e, parts)" using land by (simp add: lands_def)
    have dest: "dest = joined base parts"
      using resolve_member_Under [OF land(3)] foldl_path_join by auto
    show ?thesis
      using land(4,5) l extract_directory_effect [of base "Some e" parts] extract_data_effect [of base e parts]
        extract_link_effect [of base e parts]
      unfolding dest land(1) by fastforce
  qed
qed

end

section \<open>Confinement\<close>

text \<open>
  Since the root was opened: nothing outside it changed, no inode that existed then changed its
  bytes or mode, and every directory is still one.
\<close>

definition fs_confined :: "tree_fs \<Rightarrow> path \<Rightarrow> tree_fs \<Rightarrow> bool" where
  "fs_confined fs0 r fs \<longleftrightarrow>
     (\<forall>p. \<not> under r p \<longrightarrow> tf_ent fs p = tf_ent fs0 p) \<and>
     (\<forall>i c. tf_inode fs0 i = Some c \<longrightarrow> tf_inode fs i = Some c) \<and>
     (\<forall>p. is_dir_at fs0 p \<longrightarrow> is_dir_at fs p)"

text \<open>A mode waits only for a directory or for a file the extraction made.\<close>

definition mode_ok :: "tree_fs \<Rightarrow> path \<Rightarrow> tree_fs \<Rightarrow> string list \<Rightarrow> bool" where
  "mode_ok fs0 r fs parts \<longleftrightarrow> parts \<noteq> [] \<and> (\<forall>n \<in> set parts. normal_name n) \<and>
     (\<forall>i. tf_ent fs (r @ parts) = Some (FileEntry i) \<longrightarrow> tf_inode fs0 i = None)"

definition conf_inv :: "tree_fs \<Rightarrow> string \<Rightarrow> path \<Rightarrow> tree_fs \<times> deferred \<Rightarrow> bool" where
  "conf_inv fs0 base r s \<longleftrightarrow> fs_confined fs0 r (fst s) \<and> distinct (map fst (snd s)) \<and>
     (\<forall>(dest, (parts, m)) \<in> set (snd s). mode_ok fs0 r (fst s) parts \<and> dest = joined base parts)"

lemma under_append: "q \<noteq> [] \<Longrightarrow> under r (r @ q)"
  by (auto simp: under_def)

lemma fs_confined_quiet:
  assumes "fs_confined fs0 r fs" and "quiet r parts fs fs'"
  shows "fs_confined fs0 r fs'"
proof -
  have q: "tf_ent fs' p = tf_ent fs p \<or> under r p \<and> (tf_ent fs p = None \<and> is_dir_at fs' p \<or>
      p = r @ parts \<and> tf_ent fs' p = None \<and> \<not> is_dir_at fs p)" for p
    using assms(2) by (simp add: quiet_def)
  have "is_dir_at fs' p" if "is_dir_at fs p" for p
    using q [of p] that by (auto simp: is_dir_at_def)
  moreover have "tf_inode fs' = tf_inode fs" using assms(2) by (simp add: quiet_def)
  moreover have "\<not> under r p \<longrightarrow> tf_ent fs' p = tf_ent fs p" for p using q [of p] by blast
  ultimately show ?thesis using assms(1) by (simp add: fs_confined_def)
qed

lemma fs_confined_set_ent:
  assumes "fs_confined fs0 r fs" and "parts \<noteq> []" and "\<not> is_dir_at fs (r @ parts) \<or> is_dir_entry e"
  shows "fs_confined fs0 r (set_ent (r @ parts) (Some e) fs)"
  using assms under_append [OF assms(2), of r] by (auto simp: fs_confined_def is_dir_at_def)

lemma fs_confined_set_inode:
  "fs_confined fs0 r fs \<Longrightarrow> tf_inode fs0 i = None \<Longrightarrow> fs_confined fs0 r (set_inode i c fs)"
  by (auto simp: fs_confined_def is_dir_at_def)

lemma fs_confined_fresh: "fs_confined fs0 r fs \<Longrightarrow> tf_inode fs i = None \<Longrightarrow> tf_inode fs0 i = None"
  by (cases "tf_inode fs0 i") (auto simp: fs_confined_def)

lemma quiet_file:
  "quiet r parts fs fs' \<Longrightarrow> tf_ent fs' p = Some (FileEntry i) \<Longrightarrow> tf_ent fs p = Some (FileEntry i)"
  by (auto simp: quiet_def is_dir_at_def dest!: spec [of _ p])

lemma mode_ok_quiet: "mode_ok fs0 r fs parts \<Longrightarrow> quiet r parts' fs fs' \<Longrightarrow> mode_ok fs0 r fs' parts"
  by (auto simp: mode_ok_def dest: quiet_file)

lemma mode_ok_set_ent:
  "mode_ok fs0 r fs parts \<Longrightarrow> (\<forall>i. e = FileEntry i \<longrightarrow> parts = parts' \<longrightarrow> tf_inode fs0 i = None) \<Longrightarrow>
     mode_ok fs0 r (set_ent (r @ parts') (Some e) fs) parts"
  by (auto simp: mode_ok_def)

lemma mode_ok_set_inode [simp]: "mode_ok fs0 r (set_inode i c fs) parts = mode_ok fs0 r fs parts"
  by (simp add: mode_ok_def)

lemma update_member:
  "(k', v') \<in> set (AList.update k v al) \<Longrightarrow> distinct (map fst al) \<Longrightarrow>
     (k', v') = (k, v) \<or> (k', v') \<in> set al"
  by (induction al) (auto split: if_splits)

lemma delete_member: "x \<in> set (AList.delete k al) \<longleftrightarrow> x \<in> set al \<and> fst x \<noteq> k"
  by (auto simp: AList.delete_eq)

lemma conf_inv_quiet:
  "conf_inv fs0 base r (fs, d) \<Longrightarrow> quiet r parts fs fs' \<Longrightarrow> conf_inv fs0 base r (fs', d)"
  by (auto simp: conf_inv_def intro: fs_confined_quiet mode_ok_quiet)

lemma conf_inv_update:
  "conf_inv fs0 base r (fs, d) \<Longrightarrow> mode_ok fs0 r fs parts \<Longrightarrow>
     conf_inv fs0 base r (fs, AList.update (joined base parts) (parts, m) d)"
  by (auto simp: conf_inv_def distinct_update dest!: update_member)

lemma conf_inv_place:
  assumes "conf_inv fs0 base r (fs, d)" and "parts \<noteq> []" and "tf_ent fs (r @ parts) = None"
    and "\<forall>i. e = FileEntry i \<longrightarrow> tf_inode fs0 i = None"
  shows "conf_inv fs0 base r (set_ent (r @ parts) (Some e) fs, d)"
  using assms
  by (auto simp: conf_inv_def is_dir_at_def intro!: fs_confined_set_ent mode_ok_set_ent)

lemma conf_inv_replace:
  assumes "conf_inv fs0 base r (fs, d)" and "parts \<noteq> []" and "tf_ent fs (r @ parts) = None"
  shows "conf_inv fs0 base r (set_ent (r @ parts) (Some e) fs, AList.delete (joined base parts) d)"
  using assms
  by (auto simp: conf_inv_def is_dir_at_def delete_member distinct_delete
      intro!: fs_confined_set_ent mode_ok_set_ent)

lemma effect_conf_inv:
  assumes "member_effect base r me ok s s'" and "conf_inv fs0 base r s"
  shows "conf_inv fs0 base r s'"
  using assms
proof (cases rule: member_effect.cases)
  case (eff_dir parts fs fs' d m)
  note n = lands_normal [OF eff_dir(3)]
  have "mode_ok fs0 r fs' parts" using n eff_dir(5) by (auto simp: mode_ok_def is_dir_at_def)
  with conf_inv_quiet [of fs0 base r fs d, OF _ eff_dir(4)] assms(2) eff_dir(1,2) show ?thesis
    by (simp add: conf_inv_update)
next
  case (eff_file parts fs fs1 i bs d' d m)
  note n = lands_normal [OF eff_file(3)]
  from conf_inv_quiet [OF _ eff_file(4)] assms(2) eff_file(1) have c: "conf_inv fs0 base r (fs1, d)" by simp
  then have fresh: "tf_inode fs0 i = None"
    using eff_file(6) fs_confined_fresh by (auto simp: conf_inv_def)
  let ?fs = "set_inode i (bs, m) (set_ent (r @ parts) (Some (FileEntry i)) fs1)"
  have "conf_inv fs0 base r (set_ent (r @ parts) (Some (FileEntry i)) fs1, d)"
    using conf_inv_place [OF c _ eff_file(5)] n fresh by simp
  then have c2: "conf_inv fs0 base r (?fs, d)"
    using fresh by (auto simp: conf_inv_def intro: fs_confined_set_inode)
  have "mode_ok fs0 r ?fs parts" using n fresh by (simp add: mode_ok_def)
  with c2 eff_file(2,8) show ?thesis by (auto simp: conf_inv_update)
next
  case (eff_symlink parts fs fs1 t d)
  then show ?thesis
    using conf_inv_quiet [OF _ eff_symlink(4)] conf_inv_replace [OF _ _ eff_symlink(5)] assms(2)
      lands_normal [OF eff_symlink(3)] by auto
next
  case (eff_hard_link parts fs fs1 q e d)
  then show ?thesis
    using conf_inv_quiet [OF _ eff_hard_link(4)] conf_inv_replace [OF _ _ eff_hard_link(5)] assms(2)
      lands_normal [OF eff_hard_link(3)] by auto
qed (auto intro: conf_inv_quiet)

context kernel_laws
begin

lemma extract_members_conf:
  assumes "extract_members K cs base r es x = (res, x')"
    and "conf_inv fs0 base r (ex_fs x, ex_deferred x)"
  shows "conf_inv fs0 base r (ex_fs x', ex_deferred x')"
  using assms
proof (induction es arbitrary: x)
  case (Cons e es)
  obtain res1 x1 where m: "extract_member K cs base r e x = (res1, x1)"
    by (cases "extract_member K cs base r e x")
  from effect_conf_inv [OF extract_member_effect [OF m] Cons.prems(2)] Cons m show ?case
    by (auto split: sum.splits)
qed simp

lemma set_mode_conf:
  assumes "set_mode K r parts mode fs = (res, fs')" and "fs_confined fs0 r fs" and "mode_ok fs0 r fs parts"
  shows "fs_confined fs0 r fs' \<and> (\<forall>q. mode_ok fs0 r fs q \<longrightarrow> mode_ok fs0 r fs' q)"
proof -
  have n: "parts \<noteq> []" "\<forall>n \<in> set parts. normal_name n" using assms(3) by (simp_all add: mode_ok_def)
  from set_mode_effect [OF n(2,1) assms(1)] obtain fs1 where d: "dirs_added r fs fs1" and
    c: "fs' = fs1 \<or>
     (is_dir_at fs1 (r @ parts) \<and> fs' = set_ent (r @ parts) (Some (DirEntry mode)) fs1) \<or>
     (\<exists>i c m. tf_ent fs1 (r @ parts) = Some (FileEntry i) \<and> tf_inode fs1 i = Some (c, m) \<and>
        fs' = set_inode i (c, mode) fs1)" by blast
  note q = dirs_added_quiet [OF d]
  have f1: "fs_confined fs0 r fs1" by (rule fs_confined_quiet [OF assms(2) q])
  have m1: "mode_ok fs0 r fs1 p" if "mode_ok fs0 r fs p" for p by (rule mode_ok_quiet [OF that q])
  from c show ?thesis
  proof (elim disjE conjE exE)
    assume "fs' = fs1"
    then show ?thesis using f1 m1 by simp
  next
    assume "fs' = set_ent (r @ parts) (Some (DirEntry mode)) fs1"
    then show ?thesis
      using f1 m1 n fs_confined_set_ent [OF f1 n(1), of "DirEntry mode"] by (simp add: mode_ok_set_ent)
  next
    fix i c m
    assume e: "tf_ent fs1 (r @ parts) = Some (FileEntry i)" and fs': "fs' = set_inode i (c, mode) fs1"
    then have "tf_inode fs0 i = None" using m1 [OF assms(3)] by (simp add: mode_ok_def)
    then show ?thesis using fs' f1 m1 by (simp add: fs_confined_set_inode)
  qed
qed

lemma apply_modes_conf:
  "fs_confined fs0 r fs \<Longrightarrow> \<forall>(parts, m) \<in> set ds. mode_ok fs0 r fs parts \<Longrightarrow>
     fs_confined fs0 r (apply_modes K r ds fs)"
proof (induction ds arbitrary: fs)
  case (Cons e ds)
  obtain parts mode where e: "e = (parts, mode)" by (cases e)
  obtain res fs' where s: "set_mode K r parts (and mode 493) fs = (res, fs')"
    by (cases "set_mode K r parts (and mode 493) fs")
  from set_mode_conf [OF s Cons.prems(1)] Cons.prems(2) e
  have c: "fs_confined fs0 r fs'" and m: "\<And>q. mode_ok fs0 r fs q \<Longrightarrow> mode_ok fs0 r fs' q" by simp_all
  have "\<forall>(parts, m) \<in> set ds. mode_ok fs0 r fs' parts" using Cons.prems(2) m by fastforce
  from Cons.IH [OF c this] s e show ?case by simp
qed simp

lemma extract_into_conf:
  assumes "kn_open_root K base fs = (Inr r, fs1)" and "extract_into K g cs base archive fs = (res, fs')"
  shows "fs_confined fs1 r fs'"
proof (cases archive)
  case None
  then show ?thesis using assms by (auto simp: extract_into_def fs_confined_def)
next
  case (Some es)
  let ?x = "\<lparr>ex_fs = fs1, ex_deferred = [], ex_members = 0, ex_total = 0, ex_pacer = new_pacer g\<rparr>"
  obtain res1 x' where m: "extract_members K cs base r es ?x = (res1, x')"
    by (cases "extract_members K cs base r es ?x")
  have "conf_inv fs1 base r (fs1, [])" by (simp add: conf_inv_def fs_confined_def)
  with extract_members_conf [OF m, of fs1] have c: "conf_inv fs1 base r (ex_fs x', ex_deferred x')" by simp
  have "fs_confined fs1 r (apply_deferred_modes K r (ex_deferred x') (ex_fs x'))"
    unfolding apply_deferred_modes_def
    by (rule apply_modes_conf) (use c in \<open>auto simp: conf_inv_def deferred_order_def\<close>)
  then show ?thesis
    using assms Some m c by (cases res1) (auto simp: extract_into_def conf_inv_def)
qed

end

section \<open>Delivery\<close>

text \<open>A path names a file that holds the bytes.\<close>

definition holds :: "tree_fs \<Rightarrow> path \<Rightarrow> bytes \<Rightarrow> bool" where
  "holds fs p bs \<longleftrightarrow> (\<exists>i m. tf_ent fs p = Some (FileEntry i) \<and> tf_inode fs i = Some (bs, m))"

lemma holds_quiet: "quiet r parts fs fs' \<Longrightarrow> holds fs p bs \<Longrightarrow> p \<noteq> r @ parts \<Longrightarrow> holds fs' p bs"
  by (auto simp: quiet_def holds_def is_dir_at_def dest!: spec [of _ p])

lemma effect_keeps_file:
  assumes "member_effect base r me ok s s'" and "holds (fst s) (r @ parts) bs"
    and "\<forall>k. lands base me \<noteq> Some (k, parts)"
  shows "holds (fst s') (r @ parts) bs"
  using assms
proof (cases rule: member_effect.cases)
  case (eff_file parts' fs fs1 i bs' d' d m)
  with assms(2,3) holds_quiet [OF eff_file(4)] have "holds fs1 (r @ parts) bs" by auto
  with eff_file assms(3) show ?thesis by (auto simp: holds_def)
next
  case (eff_symlink parts' fs fs1 t d)
  with assms(2,3) holds_quiet [OF eff_symlink(4)] have "holds fs1 (r @ parts) bs" by auto
  with eff_symlink assms(3) show ?thesis by (auto simp: holds_def)
next
  case (eff_hard_link parts' fs fs1 q e d)
  with assms(2,3) holds_quiet [OF eff_hard_link(4)] have "holds fs1 (r @ parts) bs" by auto
  with eff_hard_link assms(3) show ?thesis by (auto simp: holds_def)
qed (auto intro: holds_quiet)

lemma effect_writes_file:
  "member_effect base r me True s s' \<Longrightarrow> lands base me = Some (TData, parts) \<Longrightarrow>
     holds (fst s') (r @ parts) (member_data me)"
  by (cases rule: member_effect.cases) (auto simp: holds_def)

text \<open>Symlinks: each was there before, or its target stays under the root.\<close>

definition links_stay :: "tree_fs \<Rightarrow> path \<Rightarrow> tree_fs \<Rightarrow> bool" where
  "links_stay fs0 r fs \<longleftrightarrow>
     (\<forall>p t. tf_ent fs p = Some (LinkEntry t) \<longrightarrow> tf_ent fs0 p = Some (LinkEntry t) \<or>
        (\<exists>q. q \<noteq> [] \<and> p = r @ q \<and> target_stays (butlast q) t))"

lemma links_stay_quiet: "links_stay fs0 r fs \<Longrightarrow> quiet r parts fs fs' \<Longrightarrow> links_stay fs0 r fs'"
  unfolding links_stay_def quiet_def is_dir_at_def
  by (metis (no_types, lifting) is_dir_entry.simps(3) option.distinct(1) option.simps(5))

lemma links_stay_set_inode [simp]: "links_stay fs0 r (set_inode i c fs) = links_stay fs0 r fs"
  by (simp add: links_stay_def)

lemma links_stay_set_dir: "links_stay fs0 r fs \<Longrightarrow> links_stay fs0 r (set_ent p (Some (DirEntry m)) fs)"
  by (simp add: links_stay_def)

lemma effect_links:
  assumes "member_effect base r me ok s s'" and "links_stay fs0 r (fst s)"
    and "\<forall>parts. lands base me \<noteq> Some (TLink, parts)"
  shows "links_stay fs0 r (fst s')"
  using assms
proof (cases rule: member_effect.cases)
  case (eff_file parts fs fs1 i bs d' d m)
  with assms(2) links_stay_quiet [OF _ eff_file(4)] have "links_stay fs0 r fs1" by simp
  with eff_file show ?thesis by (auto simp: links_stay_def)
next
  case (eff_symlink parts fs fs1 t d)
  with assms(2) links_stay_quiet [OF _ eff_symlink(4)] have "links_stay fs0 r fs1" by simp
  with eff_symlink lands_normal [OF eff_symlink(3)] show ?thesis by (auto simp: links_stay_def)
qed (auto intro: links_stay_quiet)

context kernel_laws
begin

lemma extract_members_links:
  assumes "extract_members K cs base r es x = (res, x')" and "links_stay fs0 r (ex_fs x)"
    and "\<forall>me \<in> set es. \<forall>parts. lands base me \<noteq> Some (TLink, parts)"
  shows "links_stay fs0 r (ex_fs x')"
  using assms
proof (induction es arbitrary: x)
  case (Cons e es)
  obtain res1 x1 where m: "extract_member K cs base r e x = (res1, x1)"
    by (cases "extract_member K cs base r e x")
  from effect_links [OF extract_member_effect [OF m], of fs0] Cons m show ?case
    by (auto split: sum.splits)
qed simp

lemma extract_members_keep_file:
  assumes "extract_members K cs base r es x = (res, x')" and "holds (ex_fs x) (r @ parts) bs"
    and "\<forall>me \<in> set es. \<forall>k. lands base me \<noteq> Some (k, parts)"
  shows "holds (ex_fs x') (r @ parts) bs"
  using assms
proof (induction es arbitrary: x)
  case (Cons e es)
  obtain res1 x1 where m: "extract_member K cs base r e x = (res1, x1)"
    by (cases "extract_member K cs base r e x")
  from effect_keeps_file [OF extract_member_effect [OF m], of parts bs] Cons m show ?case
    by (auto split: sum.splits)
qed simp

lemma extract_members_append:
  "extract_members K cs base r (es @ es') x =
     (case extract_members K cs base r es x of
        (Inl ref, x1) \<Rightarrow> (Inl ref, x1)
      | (Inr _, x1) \<Rightarrow> extract_members K cs base r es' x1)"
  by (induction es arbitrary: x) (auto split: prod.splits sum.splits)

lemma set_mode_same:
  assumes "set_mode K r parts mode fs = (res, fs')" and "parts \<noteq> []" and "\<forall>n \<in> set parts. normal_name n"
  shows "(holds fs p bs \<longrightarrow> holds fs' p bs) \<and> (links_stay fs0 r fs \<longrightarrow> links_stay fs0 r fs')"
proof -
  from set_mode_effect [OF assms(3,2,1)] obtain fs1 where d: "dirs_added r fs fs1" and
    c: "fs' = fs1 \<or>
     (is_dir_at fs1 (r @ parts) \<and> fs' = set_ent (r @ parts) (Some (DirEntry mode)) fs1) \<or>
     (\<exists>i c m. tf_ent fs1 (r @ parts) = Some (FileEntry i) \<and> tf_inode fs1 i = Some (c, m) \<and>
        fs' = set_inode i (c, mode) fs1)" by blast
  have h: "holds fs p bs \<longrightarrow> holds fs1 p bs"
    using d by (auto simp: dirs_added_def holds_def dest!: spec [of _ p])
  have l: "links_stay fs0 r fs \<longrightarrow> links_stay fs0 r fs1"
    using links_stay_quiet [OF _ dirs_added_quiet [OF d]] by blast
  have "holds fs1 p bs \<longrightarrow> holds fs' p bs"
    using c by (auto simp: holds_def is_dir_at_def)
  moreover have "links_stay fs0 r fs1 \<longrightarrow> links_stay fs0 r fs'"
    using c by (auto simp: links_stay_set_dir)
  ultimately show ?thesis using h l by blast
qed

lemma apply_modes_same:
  "\<forall>(parts, m) \<in> set ds. parts \<noteq> [] \<and> (\<forall>n \<in> set parts. normal_name n) \<Longrightarrow>
     (holds fs p bs \<longrightarrow> holds (apply_modes K r ds fs) p bs) \<and>
     (links_stay fs0 r fs \<longrightarrow> links_stay fs0 r (apply_modes K r ds fs))"
proof (induction ds arbitrary: fs)
  case (Cons e ds)
  obtain parts mode where e: "e = (parts, mode)" by (cases e)
  obtain res fs' where s: "set_mode K r parts (and mode 493) fs = (res, fs')"
    by (cases "set_mode K r parts (and mode 493) fs")
  from set_mode_same [OF s, of p bs fs0] Cons.IH [of fs'] Cons.prems e s show ?case by auto
qed simp

lemma extract_into_links:
  assumes "kn_open_root K base fs = (Inr r, fs1)" and "extract_into K g cs base (Some es) fs = (res, fs')"
    and "\<forall>me \<in> set es. \<forall>parts. lands base me \<noteq> Some (TLink, parts)"
  shows "links_stay fs1 r fs'"
proof -
  let ?x = "\<lparr>ex_fs = fs1, ex_deferred = [], ex_members = 0, ex_total = 0, ex_pacer = new_pacer g\<rparr>"
  obtain res1 x' where m: "extract_members K cs base r es ?x = (res1, x')"
    by (cases "extract_members K cs base r es ?x")
  have "conf_inv fs1 base r (fs1, [])" by (simp add: conf_inv_def fs_confined_def)
  with extract_members_conf [OF m, of fs1] have c: "conf_inv fs1 base r (ex_fs x', ex_deferred x')" by simp
  have l: "links_stay fs1 r (ex_fs x')"
    by (rule extract_members_links [OF m _ assms(3)]) (simp add: links_stay_def)
  have "links_stay fs1 r (apply_deferred_modes K r (ex_deferred x') (ex_fs x'))"
    unfolding apply_deferred_modes_def
    by (rule conjunct2 [OF apply_modes_same, rule_format, OF _ l])
      (use c in \<open>auto simp: conf_inv_def deferred_order_def mode_ok_def\<close>)
  then show ?thesis
    using assms(1,2) m l by (cases res1) (auto simp: extract_into_def)
qed

text \<open>How many members were counted, and how many bytes they declare.\<close>

lemma defer_mode_counts [simp]:
  "ex_members (defer_mode dest parts m x) = ex_members x"
  "ex_total (defer_mode dest parts m x) = ex_total x"
  by (simp_all add: defer_mode_def split: option.split)

lemma extract_directory_counts:
  "extract_directory K r member dest parts e x = (res, x') \<Longrightarrow>
     ex_members x' = ex_members x \<and> ex_total x' = ex_total x"
  by (auto simp: extract_directory_def split: prod.splits sum.splits)

lemma extract_symlink_counts:
  "extract_symlink K r member dest parts t x = (res, x') \<Longrightarrow>
     ex_members x' = ex_members x \<and> ex_total x' = ex_total x"
  by (auto simp: extract_symlink_def split: prod.splits sum.splits)

lemma extract_hard_link_counts:
  "extract_hard_link K r member dest parts t x = (res, x') \<Longrightarrow>
     ex_members x' = ex_members x \<and> ex_total x' = ex_total x"
  by (auto simp: extract_hard_link_def Let_def split: prod.splits sum.splits hard_link_error.splits if_splits)

lemma extract_link_counts:
  "extract_link K r member dest parts e x = (res, x') \<Longrightarrow>
     ex_members x' = ex_members x \<and> ex_total x' = ex_total x"
  by (auto simp: extract_link_def extract_symlink_counts extract_hard_link_counts
      split: option.splits if_splits)

lemma extract_data_counts:
  "extract_data K cs base r member dest parts e x = (Inr u, x') \<Longrightarrow>
     ex_members x' = ex_members x \<and> ex_total x' = saturating_add64 (ex_total x) (te_size e) \<and>
     ex_total x' \<le> cap_bytes cs"
  by (auto simp: extract_data_def Let_def split: prod.splits sum.splits option.splits if_splits)

lemma extract_member_counts:
  assumes "extract_member K cs base r me x = (Inr u, x')" and "ex_total x \<le> cap_bytes cs"
    and "ex_total x \<le> u64_max"
  shows "ex_members x' = ex_members x + 1 \<and> ex_members x' \<le> cap_members cs \<and>
    ex_total x' = saturating_add64 (ex_total x) (declared base me) \<and> ex_total x' \<le> cap_bytes cs"
proof -
  let ?x = "x\<lparr>ex_members := ex_members x + 1\<rparr>"
  from assms(1) obtain e where e: "me = Some e" and cap: "ex_members x + 1 \<le> cap_members cs"
    by (auto simp: extract_member_def Let_def split: option.splits if_splits)
  have id: "saturating_add64 (ex_total x) 0 = ex_total x" using assms(3) by (simp add: saturating_add64_def)
  consider (root) "lands base me = None" "x' = ?x"
    | (data) path dest parts where "lands base me = Some (TData, parts)"
        "extract_data K cs base r path dest parts e ?x = (Inr u, x')"
    | (other) k path dest parts where "lands base me = Some (k, parts)" "k \<noteq> TData"
        "extract_directory K r path dest parts e ?x = (Inr u, x') \<or>
         extract_link K r path dest parts e ?x = (Inr u, x')"
    using assms(1) e cap
    by (auto simp: extract_member_def lands_def Let_def
        split: option.splits landing.splits entry_type.splits if_splits)
  then show ?thesis
  proof cases
    case root
    then show ?thesis using cap assms(2) id by (simp add: declared_def)
  next
    case data
    from extract_data_counts [OF data(2)] data(1) cap e show ?thesis by (simp add: declared_def)
  next
    case other
    then have "ex_members x' = ex_members ?x \<and> ex_total x' = ex_total ?x"
      using extract_directory_counts extract_link_counts by blast
    moreover have "declared base me = 0" using other(1,2) by (simp add: declared_def split: entry_type.split)
    ultimately show ?thesis using cap assms(2) id by simp
  qed
qed

lemma extract_members_counts:
  assumes "extract_members K cs base r es x = (Inr u, x')" and "ex_total x \<le> cap_bytes cs"
    and "ex_total x \<le> u64_max" and "ex_members x \<le> cap_members cs"
  shows "ex_members x' = ex_members x + length es \<and> ex_members x' \<le> cap_members cs \<and>
    ex_total x' = saturating_add64 (ex_total x) (sum_list (map (declared base) es)) \<and>
    ex_total x' \<le> cap_bytes cs"
  using assms
proof (induction es arbitrary: x)
  case Nil
  then show ?case by (auto simp: saturating_add64_def)
next
  case (Cons e es)
  then obtain v x1 where m: "extract_member K cs base r e x = (Inr v, x1)"
    and rest: "extract_members K cs base r es x1 = (Inr u, x')"
    by (auto split: prod.splits sum.splits)
  note c = extract_member_counts [OF m Cons.prems(2,3)]
  have "saturating_add64 (saturating_add64 a b) d = saturating_add64 a (b + d)" for a b d
    by (simp add: saturating_add64_def)
  with Cons.IH [OF rest] c saturating_add64_le [of "ex_total x" "declared base e"] show ?case
    by simp
qed

end

context kernel_laws
begin

lemma extract_into_delivers:
  assumes "kn_open_root K base fs = (Inr r, fs1)"
    and "extract_into K g cs base (Some (pre @ me # post)) fs = (Inr n, fs')"
    and "lands base me = Some (TData, parts)"
    and "\<forall>me' \<in> set post. \<forall>k. lands base me' \<noteq> Some (k, parts)"
  shows "holds fs' (r @ parts) (member_data me) \<and> n = length (pre @ me # post) \<and>
    n \<le> cap_members cs \<and>
    saturating_add64 0 (sum_list (map (declared base) (pre @ me # post))) \<le> cap_bytes cs"
proof -
  let ?x = "\<lparr>ex_fs = fs1, ex_deferred = [], ex_members = 0, ex_total = 0, ex_pacer = new_pacer g\<rparr>"
  from assms(1,2) obtain u x' where m: "extract_members K cs base r (pre @ me # post) ?x = (Inr u, x')"
    and n: "n = ex_members x'"
    and fs': "fs' = apply_deferred_modes K r (ex_deferred x') (ex_fs x')"
    by (auto simp: extract_into_def split: prod.splits sum.splits)
  from m obtain v x1 w x2 where "extract_members K cs base r pre ?x = (Inr v, x1)"
    and m1: "extract_member K cs base r me x1 = (Inr w, x2)"
    and m2: "extract_members K cs base r post x2 = (Inr u, x')"
    by (auto simp: extract_members_append split: prod.splits sum.splits)
  from effect_writes_file [OF _ assms(3)] extract_member_effect [OF m1]
  have "holds (ex_fs x2) (r @ parts) (member_data me)" by fastforce
  from extract_members_keep_file [OF m2 this assms(4)]
  have h: "holds (ex_fs x') (r @ parts) (member_data me)" .
  have "conf_inv fs1 base r (fs1, [])" by (simp add: conf_inv_def fs_confined_def)
  with extract_members_conf [OF m, of fs1] have c: "conf_inv fs1 base r (ex_fs x', ex_deferred x')" by simp
  have "holds fs' (r @ parts) (member_data me)"
    unfolding fs' apply_deferred_modes_def
    by (rule conjunct1 [OF apply_modes_same, rule_format, OF _ h])
      (use c in \<open>auto simp: conf_inv_def deferred_order_def mode_ok_def\<close>)
  moreover have "ex_members x' = length (pre @ me # post) \<and> ex_members x' \<le> cap_members cs \<and>
      ex_total x' = saturating_add64 0 (sum_list (map (declared base) (pre @ me # post))) \<and>
      ex_total x' \<le> cap_bytes cs"
    using extract_members_counts [OF m] by simp
  ultimately show ?thesis using n by simp
qed

end

section \<open>A kernel that keeps the laws\<close>

definition free_inode :: "tree_fs \<Rightarrow> nat option" where
  "free_inode fs = find (\<lambda>i. tf_inode fs i = None) [0..<64]"

definition mem_kernel :: kernel where
  "mem_kernel = \<lparr>
     kn_open_root = (\<lambda>p fs. (Inr [p], fs)),
     kn_dup = (\<lambda>d fs. None),
     kn_mkdirat = (\<lambda>d n fs.
       if tf_ent fs (d @ [n]) = None then (None, set_ent (d @ [n]) (Some (DirEntry 511)) fs)
       else (Some EEXIST, fs)),
     kn_open_dir = (\<lambda>d n fs.
       (case tf_ent fs (d @ [n]) of
          Some (DirEntry m) \<Rightarrow> Inr (d @ [n])
        | Some (LinkEntry t) \<Rightarrow> Inl ELOOP
        | Some _ \<Rightarrow> Inl (OtherError 20)
        | None \<Rightarrow> Inl (OtherError 2))),
     kn_unlinkat = (\<lambda>d n fs.
       (case tf_ent fs (d @ [n]) of
          Some e \<Rightarrow> if is_dir_entry e then fs else set_ent (d @ [n]) None fs
        | None \<Rightarrow> fs)),
     kn_open_new = (\<lambda>d n fs.
       (case (tf_ent fs (d @ [n]), free_inode fs) of
          (None, Some i) \<Rightarrow>
            (Inr i, set_inode i ([], 438) (set_ent (d @ [n]) (Some (FileEntry i)) fs))
        | (Some _, _) \<Rightarrow> (Inl EEXIST, fs)
        | (None, None) \<Rightarrow> (Inl (OtherError 28), fs))),
     kn_copy = (\<lambda>i data fs.
       (case tf_inode fs i of
          Some (old, m) \<Rightarrow>
            (if snd data then Inl (OtherError 5) else Inr (length (fst data)),
             set_inode i (old @ fst data, m) fs)
        | None \<Rightarrow> (Inl (OtherError 9), fs))),
     kn_symlinkat = (\<lambda>t d n fs.
       if tf_ent fs (d @ [n]) = None then (None, set_ent (d @ [n]) (Some (LinkEntry t)) fs)
       else (Some EEXIST, fs)),
     kn_linkat = (\<lambda>sd sn d n fs.
       (case (tf_ent fs (sd @ [sn]), tf_ent fs (d @ [n])) of
          (Some e, None) \<Rightarrow>
            if is_dir_entry e then (Some EPERM, fs) else (None, set_ent (d @ [n]) (Some e) fs)
        | (Some e, Some _) \<Rightarrow> (Some EEXIST, fs)
        | (None, _) \<Rightarrow> (Some (OtherError 2), fs))),
     kn_fstatat = (\<lambda>d n fs.
       (case tf_ent fs (d @ [n]) of
          Some e \<Rightarrow> Inr (is_dir_entry e)
        | None \<Rightarrow> Inl (OtherError 2))),
     kn_fchmodat = (\<lambda>d n mode fs.
       (case tf_ent fs (d @ [n]) of
          Some (DirEntry m) \<Rightarrow> (None, set_ent (d @ [n]) (Some (DirEntry mode)) fs)
        | Some (FileEntry i) \<Rightarrow>
            (case tf_inode fs i of
               Some (c, m) \<Rightarrow> (None, set_inode i (c, mode) fs)
             | None \<Rightarrow> (Some (OtherError 5), fs))
        | Some _ \<Rightarrow> (Some (OtherError 95), fs)
        | None \<Rightarrow> (Some (OtherError 2), fs))), kn_hash = length\<rparr>"

lemma free_inode_Some: "free_inode fs = Some i \<Longrightarrow> tf_inode fs i = None"
  by (auto simp: free_inode_def find_Some_iff)

interpretation mem: kernel_laws mem_kernel
  by unfold_locales
    (auto simp: mem_kernel_def free_inode_Some
      split: option.splits entry.splits if_splits prod.splits)

definition empty_fs :: tree_fs where
  "empty_fs = \<lparr>tf_ent = (\<lambda>p. if p = [''/r''] then Some (DirEntry 493) else None),
               tf_inode = (\<lambda>i. None)\<rparr>"

definition no_guard :: "tree_fs guard" where
  "no_guard = \<lparr>gd_probe = (\<lambda>fs p. None), gd_reserve = 0\<rparr>"

definition demo_caps :: caps where
  "demo_caps = \<lparr>cap_members = 10, cap_bytes = 1000\<rparr>"

definition file_member :: "string \<Rightarrow> bytes \<Rightarrow> tar_entry option" where
  "file_member p bs = Some \<lparr>te_path = Some p, te_kind = TData, te_link_name = Some None,
     te_size = length bs, te_data = (bs, False), te_mode = Some 511\<rparr>"

definition link_member :: "entry_type \<Rightarrow> string \<Rightarrow> string \<Rightarrow> tar_entry option" where
  "link_member k p t = Some \<lparr>te_path = Some p, te_kind = k, te_link_name = Some (Some t),
     te_size = 0, te_data = ([], False), te_mode = Some 511\<rparr>"

lemma mem_kernel_sel [simp]:
  "kn_open_root mem_kernel p fs = (Inr [p], fs)"
  "kn_dup mem_kernel d fs = None"
  "kn_mkdirat mem_kernel d n fs =
     (if tf_ent fs (d @ [n]) = None then (None, set_ent (d @ [n]) (Some (DirEntry 511)) fs)
      else (Some EEXIST, fs))"
  "kn_open_dir mem_kernel d n fs =
     (case tf_ent fs (d @ [n]) of
        Some (DirEntry m) \<Rightarrow> Inr (d @ [n])
      | Some (LinkEntry t) \<Rightarrow> Inl ELOOP
      | Some _ \<Rightarrow> Inl (OtherError 20)
      | None \<Rightarrow> Inl (OtherError 2))"
  "kn_unlinkat mem_kernel d n fs =
     (case tf_ent fs (d @ [n]) of
        Some e \<Rightarrow> if is_dir_entry e then fs else set_ent (d @ [n]) None fs
      | None \<Rightarrow> fs)"
  "kn_symlinkat mem_kernel t d n fs =
     (if tf_ent fs (d @ [n]) = None then (None, set_ent (d @ [n]) (Some (LinkEntry t)) fs)
      else (Some EEXIST, fs))"
  by (simp_all add: mem_kernel_def)

lemma mem_open_new [simp]:
  "tf_ent fs (d @ [n]) = None \<Longrightarrow> tf_inode fs 0 = None \<Longrightarrow>
     kn_open_new mem_kernel d n fs =
       (Inr 0, set_inode 0 ([], 438) (set_ent (d @ [n]) (Some (FileEntry 0)) fs))"
  by (simp add: mem_kernel_def free_inode_def upt_rec)

lemma mem_copy [simp]:
  "tf_inode fs i = Some (old, m) \<Longrightarrow>
     kn_copy mem_kernel i (bs, False) fs = (Inr (length bs), set_inode i (old @ bs, m) fs)"
  by (simp add: mem_kernel_def)

lemma mem_fchmodat [simp]:
  "tf_ent fs (d @ [n]) = Some (FileEntry i) \<Longrightarrow> tf_inode fs i = Some (c, m) \<Longrightarrow>
     kn_fchmodat mem_kernel d n mode fs = (None, set_inode i (c, mode) fs)"
  by (simp add: mem_kernel_def)

lemmas extract_eval = extract_into_def extract_member_def extract_link_def
  extract_symlink_def extract_data_def defer_mode_def
  create_file_def create_symlink_def parent_of_def make_dirs_def
  set_mode_def apply_deferred_modes_def deferred_order_def
  new_pacer_def pacer_record_def preflight_def guard_read_def
  saturating_add64_def u64_max_def PROBE_INTERVAL_BYTES_def

text \<open>A symlink one directory down, then a hard link to it at the root.\<close>

definition demo_files :: "tar_entry option list" where
  "demo_files = [file_member ''a/b'' [1, 2], link_member TSymlink ''a/s'' ''../c'']"

definition demo_links :: "tar_entry option list" where
  "demo_links = [link_member TSymlink ''d/s'' ''../x'', link_member TLink ''h'' ''d/s'']"

definition demo_extract :: "tar_entry option list \<Rightarrow> (refusal + nat) \<times> tree_fs" where
  "demo_extract es = extract_into mem_kernel no_guard demo_caps ''/r'' (Some es) empty_fs"

lemma demo_lands:
  "lands ''/r'' (file_member ''a/b'' [1, 2]) = Some (TData, [''a'', ''b''])"
  "lands ''/r'' (link_member TSymlink ''a/s'' ''../c'') = Some (TSymlink, [''a'', ''s''])"
  by code_simp+

lemma demo_resolve:
  "resolve_member ''/r'' ''a/b'' = Under ''/r/a/b'' [''a'', ''b'']"
  "resolve_member ''/r'' ''a/s'' = Under ''/r/a/s'' [''a'', ''s'']"
  "\<not> is_absolute ''../c''" "link_target_is_in_tree (Suc 0) ''../c''"
  by code_simp+

lemma demo_files_eval:
  "\<exists>fs. demo_extract demo_files = (Inr 2, fs) \<and>
     tf_ent fs [''/r'', ''a'', ''s''] = Some (LinkEntry ''../c'')"
  by (simp add: demo_extract_def demo_files_def extract_eval demo_resolve file_member_def
      link_member_def demo_caps_def no_guard_def empty_fs_def)

lemma demo_root: "kn_open_root mem_kernel ''/r'' empty_fs = (Inr [''/r''], empty_fs)"
  by (simp add: mem_kernel_def)

section \<open>Properties\<close>

text \<open>
  C11: Extraction is confined. Whatever the archive holds, and whether or not it is accepted, no
  path outside the root gains, loses or changes an entry, no file that existed before has its
  bytes or mode changed (through a hard link made earlier, or by a deferred mode), and no
  directory that existed is removed. The kernel may fail any call; it is relied on only for what
  each successful call does.
\<close>
theorem extraction_confined:
  assumes "kernel_laws K" and "kn_open_root K base fs = (Inr r, fs1)"
    and "extract_into K g cs base archive fs = (res, fs')"
  shows "(\<forall>p. \<not> under r p \<longrightarrow> tf_ent fs' p = tf_ent fs1 p) \<and>
    (\<forall>i c. tf_inode fs1 i = Some c \<longrightarrow> tf_inode fs' i = Some c) \<and>
    (\<forall>p. is_dir_at fs1 p \<longrightarrow> is_dir_at fs' p)"
  using kernel_laws.extract_into_conf [OF assms] by (simp add: fs_confined_def)

theorem extraction_confined_witness:
  "fst (demo_extract demo_links) = Inr 2 \<and>
   tf_ent (snd (demo_extract demo_links)) [''/r''] = Some (DirEntry 493)"
proof -
  have f: "fst (demo_extract demo_links) = Inr 2" by code_simp
  have "extract_into mem_kernel no_guard demo_caps ''/r'' (Some demo_links) empty_fs
      = (fst (demo_extract demo_links), snd (demo_extract demo_links))"
    by (simp add: demo_extract_def)
  note c = extraction_confined [OF mem.kernel_laws_axioms demo_root this]
  have "\<not> under [''/r''] [''/r'']" by (simp add: under_def)
  with c have "tf_ent (snd (demo_extract demo_links)) [''/r''] = tf_ent empty_fs [''/r'']"
    by blast
  with f show ?thesis by (simp add: empty_fs_def)
qed

text \<open>
  C12: An accepted archive is delivered. Extraction answers success with the number of members
  only after every one of them went through, within both caps, and each file whose path no later
  member names again stands, by the path its name normalizes to, with exactly the bytes the
  archive carried.
\<close>
theorem extraction_delivers_files:
  assumes "kernel_laws K" and "kn_open_root K base fs = (Inr r, fs1)"
    and "extract_into K g cs base (Some (pre @ me # post)) fs = (Inr n, fs')"
    and "lands base me = Some (TData, parts)"
    and "\<forall>me' \<in> set post. \<forall>k. lands base me' \<noteq> Some (k, parts)"
  shows "holds fs' (r @ parts) (member_data me) \<and> n = length (pre @ me # post) \<and>
    n \<le> cap_members cs \<and>
    saturating_add64 0 (sum_list (map (declared base) (pre @ me # post))) \<le> cap_bytes cs"
  using kernel_laws.extract_into_delivers [OF assms] .

theorem extraction_delivers_files_witness:
  "\<exists>fs. demo_extract demo_files = (Inr 2, fs) \<and> holds fs [''/r'', ''a'', ''b''] [1, 2]"
proof -
  obtain fs where e: "demo_extract demo_files = (Inr 2, fs)" using demo_files_eval by blast
  then have "extract_into mem_kernel no_guard demo_caps ''/r'' (Some ([] @ file_member ''a/b'' [1, 2] #
      [link_member TSymlink ''a/s'' ''../c''])) empty_fs = (Inr 2, fs)"
    by (simp add: demo_extract_def demo_files_def)
  from extraction_delivers_files [OF mem.kernel_laws_axioms demo_root this demo_lands(1)]
  have "holds fs ([''/r''] @ [''a'', ''b'']) (member_data (file_member ''a/b'' [1, 2]))"
    using demo_lands(2) by simp
  with e show ?thesis by (simp add: member_data_def file_member_def)
qed

text \<open>
  Symlinks stay in tree. An archive without hard links leaves no symlink it created with a
  target that leads, on the text alone, out of the extraction root: every symlink present after
  any extraction was there before or has a relative target that stays under the root from the
  directory that holds it.
\<close>
theorem symlinks_stay_in_tree:
  assumes "kernel_laws K" and "kn_open_root K base fs = (Inr r, fs1)"
    and "extract_into K g cs base (Some es) fs = (res, fs')"
    and "\<forall>me \<in> set es. \<forall>parts. lands base me \<noteq> Some (TLink, parts)"
  shows "links_stay fs1 r fs'"
  using kernel_laws.extract_into_links [OF assms] .

theorem symlinks_stay_in_tree_witness:
  "\<exists>fs. demo_extract demo_files = (Inr 2, fs) \<and> links_stay empty_fs [''/r''] fs \<and>
     tf_ent fs [''/r'', ''a'', ''s''] = Some (LinkEntry ''../c'')"
proof -
  obtain fs where e: "demo_extract demo_files = (Inr 2, fs)"
    "tf_ent fs [''/r'', ''a'', ''s''] = Some (LinkEntry ''../c'')"
    using demo_files_eval by blast
  then have "extract_into mem_kernel no_guard demo_caps ''/r'' (Some demo_files) empty_fs = (Inr 2, fs)"
    by (simp add: demo_extract_def)
  from symlinks_stay_in_tree [OF mem.kernel_laws_axioms demo_root this]
  have "links_stay empty_fs [''/r''] fs" by (simp add: demo_files_def demo_lands)
  with e show ?thesis by blast
qed

text \<open>
  A hard link carries a symlink out of the tree. The archive whose first member is the
  in-tree symlink d/s with target ../x and whose second is the hard link h to d/s is accepted, and
  it leaves at the root a symlink h whose target leads outside it: the hard link's own target is
  judged as a path, and the link call links the symlink itself.
\<close>
theorem hard_link_carries_symlink_out:
  "fst (demo_extract demo_links) = Inr 2 \<and>
   tf_ent (snd (demo_extract demo_links)) [''/r'', ''h''] = Some (LinkEntry ''../x'') \<and>
   target_stays [''d''] ''../x'' \<and> \<not> target_stays [] ''../x''"
proof -
  have "fst (demo_extract demo_links) = Inr 2" by code_simp
  moreover have "tf_ent (snd (demo_extract demo_links)) [''/r'', ''h''] = Some (LinkEntry ''../x'')"
    by code_simp
  moreover have "target_stays [''d''] ''../x''" "\<not> target_stays [] ''../x''" by code_simp+
  ultimately show ?thesis by blast
qed

end
