(* ===== verification/FsRoutes.thy ===== *)
theory FsRoutes
  imports TarExtract LineRange
begin

text \<open>
  The handlers of the file routes (\<open>crates/agentd/src/fs.rs\<close>) around extraction, line ranges
  and the guarded copy. What the guest's filesystem answers is an input; a response is its status,
  with the body of a read. A query is what the extractors gave: for a file read, whether the
  strict query or only its path parsed.
\<close>

section \<open>Sizing a tree before packing it\<close>

text \<open>
  A directory is its listing; \<open>None\<close> is a directory that cannot be read, or an entry whose
  metadata cannot. A symlink is measured as itself, so it is neither file nor directory.
\<close>

datatype tree_node =
    TreeDir "tree_node option list option"
  | TreeFile nat
  | TreeOther

record estimate =
  es_members :: nat
  es_bytes :: nat

fun scan_dir ::
  "caps \<Rightarrow> tree_node option list \<Rightarrow> tree_node option list option list \<Rightarrow> estimate
     \<Rightarrow> refusal + tree_node option list option list \<times> estimate" where
  "scan_dir cs [] stack est = Inr (stack, est)"
| "scan_dir cs (None # es) stack est = Inl RefIo"
| "scan_dir cs (Some node # es) stack est =
     (let est1 = est\<lparr>es_members := es_members est + 1\<rparr>
      in if cap_members cs < es_members est1 then Inl (RefTooManyMembers (cap_members cs))
         else
           (case node of
              TreeDir listing \<Rightarrow> scan_dir cs es (listing # stack) est1
            | TreeFile len \<Rightarrow>
                (let bs = saturating_add64 (es_bytes est1) len
                 in if cap_bytes cs < bs then Inl (RefTooManyBytes (cap_bytes cs))
                    else scan_dir cs es stack (est1\<lparr>es_bytes := bs\<rparr>))
            | TreeOther \<Rightarrow> scan_dir cs es stack est1))"

fun node_size :: "tree_node \<Rightarrow> nat" and listing_size :: "tree_node option list option \<Rightarrow> nat" where
  "node_size (TreeDir l) = Suc (listing_size l)"
| "node_size (TreeFile n) = 1"
| "node_size TreeOther = 1"
| "listing_size None = 1"
| "listing_size (Some es) = Suc (sum_list (map (\<lambda>e. case e of None \<Rightarrow> 0 | Some n \<Rightarrow> node_size n) es))"

definition stack_size :: "tree_node option list option list \<Rightarrow> nat" where
  "stack_size stack = sum_list (map listing_size stack)"

definition entries_size :: "tree_node option list \<Rightarrow> nat" where
  "entries_size es = sum_list (map (\<lambda>e. case e of None \<Rightarrow> 0 | Some n \<Rightarrow> node_size n) es)"

lemma listing_size_Some [simp]: "listing_size (Some es) = Suc (entries_size es)"
  by (simp add: entries_size_def)

declare listing_size.simps(2) [simp del]

lemma scan_dir_size:
  "scan_dir cs es stack est = Inr (stack', est') \<Longrightarrow> stack_size stack' \<le> stack_size stack + entries_size es"
  by (induction cs es stack est rule: scan_dir.induct)
    (fastforce simp: stack_size_def entries_size_def Let_def split: if_splits tree_node.splits)+

text \<open>The loop of \<open>estimate_tree\<close>: pop a directory, scan it.\<close>

function estimate_loop ::
  "caps \<Rightarrow> tree_node option list option list \<Rightarrow> estimate \<Rightarrow> refusal + estimate" where
  "estimate_loop cs [] est = Inr est"
| "estimate_loop cs (None # stack) est = Inl RefIo"
| "estimate_loop cs (Some es # stack) est =
     (case scan_dir cs es stack est of
        Inl ref \<Rightarrow> Inl ref
      | Inr (stack', est') \<Rightarrow> estimate_loop cs stack' est')"
  by pat_completeness auto
termination
  by (relation "measure (\<lambda>(cs, stack, est). stack_size stack)")
    (auto simp: stack_size_def dest!: scan_dir_size)

definition estimate_tree :: "caps \<Rightarrow> tree_node option list option \<Rightarrow> refusal + estimate" where
  "estimate_tree cs listing = estimate_loop cs [listing] \<lparr>es_members = 0, es_bytes = 0\<rparr>"

text \<open>What it should find: the number of nodes below, the bytes of the files among them.\<close>

fun node_count :: "tree_node \<Rightarrow> nat" and node_bytes :: "tree_node \<Rightarrow> nat"
  and node_readable :: "tree_node \<Rightarrow> bool" where
  "node_count (TreeDir l) =
     1 + (case l of None \<Rightarrow> 0
          | Some es \<Rightarrow> sum_list (map (\<lambda>e. case e of None \<Rightarrow> 0 | Some n \<Rightarrow> node_count n) es))"
| "node_count (TreeFile n) = 1"
| "node_count TreeOther = 1"
| "node_bytes (TreeDir l) =
     (case l of None \<Rightarrow> 0
      | Some es \<Rightarrow> sum_list (map (\<lambda>e. case e of None \<Rightarrow> 0 | Some n \<Rightarrow> node_bytes n) es))"
| "node_bytes (TreeFile n) = n"
| "node_bytes TreeOther = 0"
| "node_readable (TreeDir l) \<longleftrightarrow>
     (case l of None \<Rightarrow> False
      | Some es \<Rightarrow> list_all (\<lambda>e. case e of None \<Rightarrow> False | Some n \<Rightarrow> node_readable n) es)"
| "node_readable (TreeFile n) \<longleftrightarrow> True"
| "node_readable TreeOther \<longleftrightarrow> True"

definition entries_count :: "tree_node option list \<Rightarrow> nat" where
  "entries_count es = sum_list (map (\<lambda>e. case e of None \<Rightarrow> 0 | Some n \<Rightarrow> node_count n) es)"

definition entries_bytes :: "tree_node option list \<Rightarrow> nat" where
  "entries_bytes es = sum_list (map (\<lambda>e. case e of None \<Rightarrow> 0 | Some n \<Rightarrow> node_bytes n) es)"

definition entries_readable :: "tree_node option list \<Rightarrow> bool" where
  "entries_readable es \<longleftrightarrow> list_all (\<lambda>e. case e of None \<Rightarrow> False | Some n \<Rightarrow> node_readable n) es"

lemma entries_simps [simp]:
  "entries_count [] = 0" "entries_count (Some n # es) = node_count n + entries_count es"
  "entries_bytes [] = 0" "entries_bytes (Some n # es) = node_bytes n + entries_bytes es"
  "entries_readable []" "entries_readable (Some n # es) \<longleftrightarrow> node_readable n \<and> entries_readable es"
  "\<not> entries_readable (None # es)"
  by (simp_all add: entries_count_def entries_bytes_def entries_readable_def)

lemma node_dir [simp]:
  "node_count (TreeDir (Some es)) = 1 + entries_count es"
  "node_bytes (TreeDir (Some es)) = entries_bytes es"
  "node_readable (TreeDir (Some es)) = entries_readable es"
  "\<not> node_readable (TreeDir None)"
  by (simp_all add: entries_count_def entries_bytes_def entries_readable_def)

declare node_count.simps(1) [simp del] node_bytes.simps(1) [simp del] node_readable.simps(1) [simp del]

fun stack_count :: "tree_node option list option list \<Rightarrow> nat" where
  "stack_count [] = 0"
| "stack_count (l # ls) = (case l of None \<Rightarrow> 0 | Some es \<Rightarrow> entries_count es) + stack_count ls"

fun stack_bytes :: "tree_node option list option list \<Rightarrow> nat" where
  "stack_bytes [] = 0"
| "stack_bytes (l # ls) = (case l of None \<Rightarrow> 0 | Some es \<Rightarrow> entries_bytes es) + stack_bytes ls"

fun stack_readable :: "tree_node option list option list \<Rightarrow> bool" where
  "stack_readable [] \<longleftrightarrow> True"
| "stack_readable (l # ls) \<longleftrightarrow>
     (case l of None \<Rightarrow> False | Some es \<Rightarrow> entries_readable es) \<and> stack_readable ls"

text \<open>
  The estimate so far with what is left, and whether that is within the caps; the sum of bytes
  saturates.
\<close>

definition total_of :: "nat \<Rightarrow> nat \<Rightarrow> estimate \<Rightarrow> estimate" where
  "total_of m b est = \<lparr>es_members = es_members est + m, es_bytes = saturating_add64 (es_bytes est) b\<rparr>"

definition under_caps :: "caps \<Rightarrow> estimate \<Rightarrow> bool" where
  "under_caps cs est \<longleftrightarrow> es_members est \<le> cap_members cs \<and> es_bytes est \<le> cap_bytes cs"

definition too_large :: "caps \<Rightarrow> refusal + 'a \<Rightarrow> bool" where
  "too_large cs res \<longleftrightarrow> res = Inl (RefTooManyMembers (cap_members cs)) \<or> res = Inl (RefTooManyBytes (cap_bytes cs))"

lemma saturating_assoc: "saturating_add64 (saturating_add64 a b) c = saturating_add64 a (b + c)"
  by (simp add: saturating_add64_def)

lemma saturating_mono: "saturating_add64 a b \<le> saturating_add64 a (b + c)"
  by (simp add: saturating_add64_def)

lemma scan_dir_total:
  assumes "entries_readable es" and "stack_readable stack" and "under_caps cs est"
  shows "case scan_dir cs es stack est of
      Inl ref \<Rightarrow> too_large cs (Inl ref :: refusal + unit) \<and>
        \<not> under_caps cs (total_of (entries_count es + stack_count stack) (entries_bytes es + stack_bytes stack) est)
    | Inr (stack', est') \<Rightarrow> stack_readable stack' \<and> under_caps cs est' \<and>
        total_of (stack_count stack') (stack_bytes stack') est'
          = total_of (entries_count es + stack_count stack) (entries_bytes es + stack_bytes stack) est"
  using assms
proof (induction cs es stack est rule: scan_dir.induct)
  case (3 cs node es stack est)
  let ?est = "est\<lparr>es_members := es_members est + 1\<rparr>"
  show ?case
  proof (cases "cap_members cs < es_members ?est")
    case True
    then have "\<not> under_caps cs (total_of (node_count node + k) j est)" for k j
      by (cases node) (auto simp: under_caps_def total_of_def node_count.simps)
    with True show ?thesis by (simp add: Let_def too_large_def add.assoc)
  next
    case False
    show ?thesis
    proof (cases node)
      case (TreeDir l)
      then obtain ds where l: "l = Some ds" using 3(4) by (cases l) auto
      from 3(1) [OF refl False TreeDir] 3(4-6) TreeDir l False show ?thesis
        by (auto simp: under_caps_def total_of_def ac_simps Let_def split: sum.splits prod.splits)
    next
      case (TreeFile len)
      let ?b = "saturating_add64 (es_bytes ?est) len"
      show ?thesis
      proof (cases "cap_bytes cs < ?b")
        case True
        have "\<not> under_caps cs (total_of m (len + k) est)" for m k
          using True saturating_mono [of "es_bytes est" len k] by (simp add: under_caps_def total_of_def)
        with True False TreeFile show ?thesis by (simp add: Let_def too_large_def add.assoc)
      next
        case ok: False
        from 3(2) [OF refl False TreeFile refl ok] 3(4-6) TreeFile False ok show ?thesis
          by (auto simp: under_caps_def total_of_def saturating_assoc ac_simps Let_def
              split: sum.splits prod.splits)
      qed
    next
      case TreeOther
      from 3(3) [OF refl False TreeOther] 3(4-6) TreeOther False show ?thesis
        by (auto simp: under_caps_def total_of_def ac_simps Let_def split: sum.splits prod.splits)
    qed
  qed
qed auto

lemma estimate_loop_total:
  assumes "stack_readable stack" and "under_caps cs est" and "cap_bytes cs \<le> u64_max"
  shows "let t = total_of (stack_count stack) (stack_bytes stack) est
    in if under_caps cs t then estimate_loop cs stack est = Inr t
       else too_large cs (estimate_loop cs stack est)"
  using assms
proof (induction cs stack est rule: estimate_loop.induct)
  case (1 cs est)
  then show ?case
    by (cases est) (auto simp: le_trans total_of_def under_caps_def saturating_add64_def Let_def min_def too_large_def)
next
  case (3 cs es stack est)
  then have r: "entries_readable es" "stack_readable stack" by simp_all
  note t = scan_dir_total [OF r 3(3)]
  show ?case
  proof (cases "scan_dir cs es stack est")
    case (Inl ref)
    with t show ?thesis by (simp add: too_large_def)
  next
    case (Inr p)
    obtain stack' est' where p: "p = (stack', est')" by (cases p)
    from 3(1) [OF Inr p [symmetric]] 3(4) t Inr p show ?thesis by (simp add: Let_def)
  qed
qed simp

section \<open>Reading\<close>

datatype 'q query = BadQuery | OnlyPath | GoodQuery 'q

datatype fs_body = NoBody | StreamBody "bytes option list"

record fs_response =
  fr_status :: nat
  fr_body :: fs_body

definition plain :: "nat \<Rightarrow> fs_response" where
  "plain status = \<lparr>fr_status = status, fr_body = NoBody\<rparr>"

text \<open>Opening a path to read; then its metadata: a directory, something else, or an error.\<close>

datatype open_result = Opened | NotFound | OpenFailed

datatype metadata = IsDir | NotDir | MetaFailed

definition read_file ::
  "file_read_query query \<Rightarrow> open_result \<Rightarrow> metadata \<Rightarrow> bytes option list \<Rightarrow> fs_response" where
  "read_file q opened meta chunks =
     (case q of
        BadQuery \<Rightarrow> plain 400
      | OnlyPath \<Rightarrow> plain 400
      | GoodQuery rq \<Rightarrow>
          (case line_range rq of
             Inl _ \<Rightarrow> plain 400
           | Inr slicer \<Rightarrow>
               (case opened of
                  NotFound \<Rightarrow> plain 404
                | OpenFailed \<Rightarrow> plain 500
                | Opened \<Rightarrow>
                    (case meta of
                       IsDir \<Rightarrow> plain 400
                     | MetaFailed \<Rightarrow> plain 500
                     | NotDir \<Rightarrow>
                         \<lparr>fr_status = 200,
                          fr_body = StreamBody (case slicer of
                             None \<Rightarrow> chunks
                           | Some s \<Rightarrow> sliced_stream chunks s)\<rparr>))))"

text \<open>\<open>stat\<close> of the root of a download, and what the tar builder makes of it.\<close>

datatype root_stat = RootIsDir | RootIsNotDir | RootMissing | RootStatFailed

definition read_tar ::
  "caps \<Rightarrow> string query \<Rightarrow> root_stat \<Rightarrow> tree_node option list option \<Rightarrow> bytes option \<Rightarrow> fs_response" where
  "read_tar cs q stat listing packed =
     (case q of
        GoodQuery root_path \<Rightarrow>
          (case stat of
             RootIsNotDir \<Rightarrow> plain 400
           | RootMissing \<Rightarrow> plain 404
           | RootStatFailed \<Rightarrow> plain 500
           | RootIsDir \<Rightarrow>
               (case estimate_tree cs listing of
                  Inl ref \<Rightarrow> plain (refusal_status ref)
                | Inr _ \<Rightarrow>
                    (case packed of
                       None \<Rightarrow> plain (refusal_status RefIo)
                     | Some archive \<Rightarrow>
                         \<lparr>fr_status = 200, fr_body = StreamBody [Some archive]\<rparr>)))
      | _ \<Rightarrow> plain 400)"

section \<open>Writing\<close>

text \<open>
  The target of a write: what the path names (nothing, a file, or a symlink to a file that may
  not exist), and the free space of its filesystem. A file knows how many other names it has.
  \<open>wr_elsewhere\<close> is the file that the path named and names no longer, while another name still
  does. The steps of the guest that can fail are inputs: creating the parent, opening, removing the
  path, applying the mode. A new file gets the mode asked for, or 0666, under the umask.
\<close>

record inode =
  in_bytes :: bytes
  in_mode :: u32
  in_others :: nat

datatype path_entry = NothingThere | Regular inode | Symlink "inode option"

record write_target =
  wr_entry :: path_entry
  wr_elsewhere :: "inode option"
  wr_free :: nat

record write_answers =
  wa_parent_ok :: bool
  wa_open_ok :: bool
  wa_remove_ok :: bool
  wa_chmod_ok :: bool
  wa_umask :: u32

record write_query =
  wq_path :: string
  wq_mode :: "string option"

text \<open>The file a path leads to: an open, a \<open>chmod\<close> and a read follow a symlink.\<close>

fun follow :: "path_entry \<Rightarrow> inode option" where
  "follow NothingThere = None"
| "follow (Regular i) = Some i"
| "follow (Symlink oi) = oi"

fun at_path :: "(inode \<Rightarrow> inode) \<Rightarrow> path_entry \<Rightarrow> path_entry" where
  "at_path f NothingThere = NothingThere"
| "at_path f (Regular i) = Regular (f i)"
| "at_path f (Symlink oi) = Symlink (map_option f oi)"

definition path_file :: "write_target \<Rightarrow> (bytes \<times> u32) option" where
  "path_file t = map_option (\<lambda>i. (in_bytes i, in_mode i)) (follow (wr_entry t))"

definition path_size :: "write_target \<Rightarrow> nat" where
  "path_size t = (case path_file t of None \<Rightarrow> 0 | Some (bs, m) \<Rightarrow> length bs)"

definition fs_view :: "write_target \<Rightarrow> file_system" where
  "fs_view t = \<lparr>fs_free = wr_free t, fs_file = (case path_file t of None \<Rightarrow> [] | Some (bs, m) \<Rightarrow> bs)\<rparr>"

text \<open>
  Opening with create and truncate: the space of the old bytes comes back, an existing file keeps
  its mode and its names, and a symlink to nothing gets the file it names.
\<close>

definition open_truncated :: "u32 option \<Rightarrow> write_answers \<Rightarrow> write_target \<Rightarrow> write_target" where
  "open_truncated mode a t =
     (let created = \<lparr>in_bytes = [], in_mode = and (case mode of None \<Rightarrow> 438 | Some m \<Rightarrow> m) (not (wa_umask a)),
                     in_others = 0\<rparr>
      in case wr_entry t of
           NothingThere \<Rightarrow> t\<lparr>wr_entry := Regular created\<rparr>
         | Regular i \<Rightarrow> t\<lparr>wr_entry := Regular (i\<lparr>in_bytes := []\<rparr>), wr_free := wr_free t + length (in_bytes i)\<rparr>
         | Symlink None \<Rightarrow> t\<lparr>wr_entry := Symlink (Some created)\<rparr>
         | Symlink (Some i) \<Rightarrow>
             t\<lparr>wr_entry := Symlink (Some (i\<lparr>in_bytes := []\<rparr>)), wr_free := wr_free t + length (in_bytes i)\<rparr>)"

definition landed :: "file_system \<Rightarrow> write_target \<Rightarrow> write_target" where
  "landed fs t = t\<lparr>wr_entry := at_path (\<lambda>i. i\<lparr>in_bytes := fs_file fs\<rparr>) (wr_entry t), wr_free := fs_free fs\<rparr>"

text \<open>
  \<open>remove_file\<close> unlinks the path itself. The space comes back only when the path was the
  file's last name; of a symlink the link goes and the file it leads to stays.
\<close>

definition removed :: "write_target \<Rightarrow> write_target" where
  "removed t =
     (case wr_entry t of
        NothingThere \<Rightarrow> t
      | Regular i \<Rightarrow>
          if in_others i = 0
          then t\<lparr>wr_entry := NothingThere, wr_free := wr_free t + length (in_bytes i)\<rparr>
          else t\<lparr>wr_entry := NothingThere, wr_elsewhere := Some (i\<lparr>in_others := in_others i - 1\<rparr>)\<rparr>
      | Symlink oi \<Rightarrow> t\<lparr>wr_entry := NothingThere, wr_elsewhere := oi\<rparr>)"

definition chmodded :: "u32 \<Rightarrow> write_target \<Rightarrow> write_target" where
  "chmodded mode t = t\<lparr>wr_entry := at_path (\<lambda>i. i\<lparr>in_mode := mode\<rparr>) (wr_entry t)\<rparr>"

definition requested_mode :: "string option \<Rightarrow> (unit + u32 option)" where
  "requested_mode raw =
     (case raw of None \<Rightarrow> Inr None
      | Some r \<Rightarrow> (case parse_mode r of Some m \<Rightarrow> Inr (Some m) | None \<Rightarrow> Inl ()))"

definition write_file ::
  "file_system guard \<Rightarrow> write_query query \<Rightarrow> bytes \<times> bool \<Rightarrow> write_answers \<Rightarrow> write_target
     \<Rightarrow> nat \<times> write_target" where
  "write_file g q body a t =
     (case q of
        GoodQuery rq \<Rightarrow>
          (case requested_mode (wq_mode rq) of
             Inl _ \<Rightarrow> (400, t)
           | Inr mode \<Rightarrow>
               (case preflight g (fs_view t) (wq_path rq) of
                  Some _ \<Rightarrow> (507, t)
                | None \<Rightarrow>
                    if \<not> wa_parent_ok a then (500, t)
                    else if \<not> wa_open_ok a then (500, t)
                    else
                      (let t1 = open_truncated mode a t
                       in case copy_guarded g (wq_path rq) body (fs_view t1) 0 of
                            (Inl (written, Pressure _), fs) \<Rightarrow>
                              (507, if wa_remove_ok a then removed (landed fs t1) else landed fs t1)
                          | (Inl (written, Io), fs) \<Rightarrow> (500, landed fs t1)
                          | (Inr written, fs) \<Rightarrow>
                              (case mode of
                                 None \<Rightarrow> (204, landed fs t1)
                               | Some m \<Rightarrow>
                                   if wa_chmod_ok a then (204, chmodded m (landed fs t1))
                                   else (500, landed fs t1)))))
      | _ \<Rightarrow> (400, t))"

text \<open>An upload: spooled under the guard, then extracted. The spool is a file of its own.\<close>

definition spool_body :: "file_system guard \<Rightarrow> string \<Rightarrow> bytes \<times> bool \<Rightarrow> file_system \<Rightarrow> copy_error + bytes" where
  "spool_body g spool_dir body fs =
     (case copy_guarded g spool_dir body (fs\<lparr>fs_file := []\<rparr>) 0 of
        (Inl (written, err), _) \<Rightarrow> Inl err
      | (Inr written, fs1) \<Rightarrow> Inr (fs_file fs1))"

definition write_tar ::
  "kernel \<Rightarrow> tree_fs guard \<Rightarrow> file_system guard \<Rightarrow> caps \<Rightarrow> (bytes \<Rightarrow> tar_entry option list option) \<Rightarrow>
     string query \<Rightarrow> string \<Rightarrow> bytes \<times> bool \<Rightarrow> file_system \<Rightarrow> tree_fs \<Rightarrow> nat \<times> tree_fs" where
  "write_tar K g sg cs read_archive q spool_dir body spool_fs fs =
     (case q of
        GoodQuery base \<Rightarrow>
          if \<not> is_absolute base then (400, fs)
          else
            (case preflight g fs base of
               Some _ \<Rightarrow> (507, fs)
             | None \<Rightarrow>
                 (case spool_body sg spool_dir body spool_fs of
                    Inl (Pressure _) \<Rightarrow> (507, fs)
                  | Inl Io \<Rightarrow> (400, fs)
                  | Inr archive \<Rightarrow>
                      (case extract_into K g cs base (read_archive archive) fs of
                         (Inr members, fs1) \<Rightarrow> (204, fs1)
                       | (Inl ref, fs1) \<Rightarrow> (refusal_status ref, fs1))))
      | _ \<Rightarrow> (400, fs))"

section \<open>What a guarded copy leaves\<close>

definition copied :: "bytes \<times> bool \<Rightarrow> file_system \<Rightarrow> nat \<Rightarrow> file_system \<Rightarrow> bool" where
  "copied src fs k fs' \<longleftrightarrow> k \<le> length (fst src) \<and> fs_file fs' = fs_file fs @ take k (fst src) \<and>
     fs_free fs' + k = fs_free fs"

lemma copy_slice_copied:
  assumes "copy_slice limit src fs = (c, rest, fs1)"
  shows "\<exists>k. copied src fs k fs1 \<and> rest = (drop limit (fst src), snd src) \<and>
    (case c of None \<Rightarrow> True
     | Some n \<Rightarrow> k = n \<and> n = min limit (length (fst src)) \<and> (n < limit \<longrightarrow> \<not> snd src))"
proof -
  let ?chunk = "take limit (fst src)"
  have n: "length ?chunk = min limit (length (fst src))" by (simp add: min.commute)
  have all: "copied src fs (length ?chunk) (append_bytes ?chunk fs)" if "length ?chunk \<le> fs_free fs"
    using that by (simp add: copied_def append_bytes_def n min_def)
  have part: "copied src fs (fs_free fs) (append_bytes (take (fs_free fs) ?chunk) fs)"
    if "fs_free fs < length ?chunk"
    using that by (simp add: copied_def append_bytes_def min_def split: if_splits)
  have rest: "rest = (drop limit (fst src), snd src)"
    using copy_slice_rest [OF assms] .
  obtain chunk where ch: "?chunk = chunk" by simp
  note run = assms [unfolded copy_slice_def Let_def ch]
  consider "fs_free fs < length chunk" "c = None" "fs1 = append_bytes (take (fs_free fs) chunk) fs"
    | "length chunk \<le> fs_free fs" "c = None" "fs1 = append_bytes chunk fs"
    | "length chunk \<le> fs_free fs" "c = Some (length chunk)" "fs1 = append_bytes chunk fs"
        "\<not> (length chunk < limit \<and> snd src)"
    using run by (auto split: if_splits)
  then show ?thesis
  proof cases
    case 1
    then show ?thesis using part rest unfolding ch by auto
  next
    case 2
    then show ?thesis using all rest unfolding ch by auto
  next
    case 3
    then show ?thesis using all rest n unfolding ch by (intro exI [of _ "length chunk"]) auto
  qed
qed

lemma copy_guarded_copied:
  assumes "copy_guarded g target src fs written = (r, fs')"
  shows "\<exists>k. copied src fs k fs' \<and> (\<forall>n. r = Inr n \<longrightarrow> k = length (fst src) \<and> \<not> snd src)"
  using assms
proof (induction g target src fs written arbitrary: r fs' rule: copy_guarded.induct)
  case (1 g target src fs written)
  let ?P = PROBE_INTERVAL_BYTES
  obtain c rest fs1 where sl: "copy_slice ?P src fs = (c, rest, fs1)"
    by (cases "copy_slice ?P src fs") auto
  from copy_slice_copied [OF sl] obtain k where k: "copied src fs k fs1"
    and rest: "rest = (drop ?P (fst src), snd src)"
    and c: "case c of None \<Rightarrow> True
     | Some n \<Rightarrow> k = n \<and> n = min ?P (length (fst src)) \<and> (n < ?P \<longrightarrow> \<not> snd src)" by blast
  consider (io) "c = None" | (short) n where "c = Some n" "n < ?P"
    | (full) n where "c = Some n" "\<not> n < ?P" by (cases c) auto
  then show ?case
  proof cases
    case io
    with 1(2) sl k show ?thesis by (subst (asm) copy_guarded.simps) auto
  next
    case short
    with 1(2) sl k c show ?thesis
      by (subst (asm) copy_guarded.simps) (auto simp: min_def split: if_splits)
  next
    case full
    with c have n: "n = ?P" "k = ?P" "?P \<le> length (fst src)" by (auto simp: min_def split: if_splits)
    show ?thesis
    proof (cases "preflight g fs1 target")
      case (Some rd)
      with 1(2) sl full k show ?thesis by (subst (asm) copy_guarded.simps) auto
    next
      case None
      with 1(2) sl full have "copy_guarded g target rest fs1 (written + n) = (r, fs')"
        by (subst (asm) copy_guarded.simps) auto
      from 1(1) [OF sl [symmetric] full(1) refl full(2) None this] obtain j where
        j: "copied rest fs1 j fs'" "\<forall>n. r = Inr n \<longrightarrow> j = length (fst rest) \<and> \<not> snd rest" by blast
      then have "copied src fs (k + j) fs'"
        using k rest n by (auto simp: copied_def take_add)
      then show ?thesis using j(2) rest n by (intro exI [of _ "k + j"]) auto
    qed
  qed
qed

section \<open>Properties\<close>

text \<open>
  A download is sized before it is built. On a readable tree the stack-driven walk ends with
  exactly the number of nodes and the (saturating) sum of file sizes when both caps hold, and with
  a too-large refusal otherwise, so a download of an over-cap tree is answered 413 and one within
  the caps is never refused for its size.
\<close>
theorem estimate_is_exact:
  assumes "entries_readable es" and "cap_bytes cs \<le> u64_max"
  shows "let m = entries_count es; b = saturating_add64 0 (entries_bytes es)
    in if m \<le> cap_members cs \<and> b \<le> cap_bytes cs
       then estimate_tree cs (Some es) = Inr \<lparr>es_members = m, es_bytes = b\<rparr>
       else fr_status (read_tar cs (GoodQuery base) RootIsDir (Some es) packed) = 413"
  using estimate_loop_total [of "[Some es]" cs "\<lparr>es_members = 0, es_bytes = 0\<rparr>"] assms
  by (auto simp: Let_def total_of_def under_caps_def estimate_tree_def too_large_def read_tar_def
      plain_def)

text \<open>A file of three bytes beside a directory holding one of four.\<close>

definition sample_tree :: "tree_node option list" where
  "sample_tree = [Some (TreeFile 3), Some (TreeDir (Some [Some (TreeFile 4), Some TreeOther]))]"

theorem estimate_is_exact_witness:
  "estimate_tree \<lparr>cap_members = 4, cap_bytes = 7\<rparr> (Some sample_tree) = Inr \<lparr>es_members = 4, es_bytes = 7\<rparr> \<and>
   fr_status (read_tar \<lparr>cap_members = 4, cap_bytes = 6\<rparr> (GoodQuery ''/t'') RootIsDir
     (Some sample_tree) None) = 413"
  using estimate_is_exact [of sample_tree "\<lparr>cap_members = 4, cap_bytes = 7\<rparr>"]
    estimate_is_exact [of sample_tree "\<lparr>cap_members = 4, cap_bytes = 6\<rparr>" "''/t''" None]
  by (simp add: sample_tree_def Let_def saturating_add64_def u64_max_def node_count.simps)

text \<open>Whether the path is the only name of the file it would be written to.\<close>

fun sole_name :: "path_entry \<Rightarrow> bool" where
  "sole_name NothingThere \<longleftrightarrow> True"
| "sole_name (Regular i) \<longleftrightarrow> in_others i = 0"
| "sole_name (Symlink oi) \<longleftrightarrow> False"

lemma path_file_at [simp]:
  "follow (at_path f e) = map_option f (follow e)"
  by (cases e) simp_all

lemma open_truncated_facts:
  "\<exists>m. path_file (open_truncated mode a t) = Some ([], m)"
  "wr_free (open_truncated mode a t) = wr_free t + path_size t"
  "sole_name (wr_entry (open_truncated mode a t)) = sole_name (wr_entry t)"
  by (cases "wr_entry t"; auto simp: open_truncated_def path_file_def path_size_def Let_def split: option.splits)+

lemma landed_facts:
  "path_file (landed fs t) = map_option (\<lambda>(bs, m). (fs_file fs, m)) (path_file t)"
  "wr_free (landed fs t) = fs_free fs" "sole_name (wr_entry (landed fs t)) = sole_name (wr_entry t)"
  by (cases "wr_entry t"; simp add: landed_def path_file_def option.map_comp comp_def)+

lemma removed_facts:
  assumes "path_file t = Some (bs, m)"
  shows "wr_entry (removed t) = NothingThere"
    and "sole_name (wr_entry t) \<Longrightarrow> wr_free (removed t) = wr_free t + length bs"
    and "\<not> sole_name (wr_entry t) \<Longrightarrow> wr_free (removed t) = wr_free t \<and>
      (\<exists>i. wr_elsewhere (removed t) = Some i \<and> in_bytes i = bs)"
  using assms by (cases "wr_entry t"; auto simp: removed_def path_file_def)+

text \<open>
  C14: A write is all or nothing unless the wire or the filesystem fails it. A refused mode or a
  filesystem already under its reserve leaves the target as it was; a 204 means the path leads to
  the whole body, with the mode asked for. A transfer aborted for space leaves nothing at the path
  when its removal works, and gives the space of the file, old bytes and new, back when the path
  was the file's only name; through a symlink, or beside another hard link, the file is left
  truncated under its other name, with a prefix of the body in place of what it held. Without the
  removal, and in some answers of 500, the partial file is at the path: it then holds a prefix of
  the body.
\<close>
theorem write_file_outcomes:
  assumes "write_file g (GoodQuery rq) body a t = (status, t')"
  shows "(status = 400 \<longrightarrow> t' = t) \<and>
    (status = 204 \<longrightarrow> snd body = False \<and>
       (\<exists>m. path_file t' = Some (fst body, m) \<and>
          (\<forall>raw. wq_mode rq = Some raw \<longrightarrow> parse_mode raw = Some m))) \<and>
    (status = 507 \<longrightarrow> t' = t \<or>
       (\<exists>k \<le> length (fst body).
          if \<not> wa_remove_ok a
          then (\<exists>m. path_file t' = Some (take k (fst body), m)) \<and> wr_free t' + k = wr_free t + path_size t
          else wr_entry t' = NothingThere \<and>
            (if sole_name (wr_entry t) then wr_free t' = wr_free t + path_size t
             else wr_free t' + k = wr_free t + path_size t \<and>
               (\<exists>i. wr_elsewhere t' = Some i \<and> in_bytes i = take k (fst body))))) \<and>
    (status = 500 \<longrightarrow> t' = t \<or> (\<exists>k m. path_file t' = Some (take k (fst body), m))) \<and>
    status \<in> {204, 400, 500, 507}"
proof (cases "\<exists>mode. requested_mode (wq_mode rq) = Inr mode \<and>
    preflight g (fs_view t) (wq_path rq) = None \<and> wa_parent_ok a \<and> wa_open_ok a")
  case False
  then show ?thesis
    using assms by (auto simp: write_file_def split: sum.splits option.splits if_splits)
next
  case True
  then obtain mode where mode: "requested_mode (wq_mode rq) = Inr mode"
    and go: "preflight g (fs_view t) (wq_path rq) = None" "wa_parent_ok a" "wa_open_ok a" by blast
  let ?t = "open_truncated mode a t"
  obtain m where t1: "path_file ?t = Some ([], m)" and free: "wr_free ?t = wr_free t + path_size t"
    and sole: "sole_name (wr_entry ?t) = sole_name (wr_entry t)"
    using open_truncated_facts [of mode a t] by blast
  have md: "\<forall>raw. wq_mode rq = Some raw \<longrightarrow> mode = parse_mode raw \<and> mode \<noteq> None"
    "wq_mode rq = None \<longrightarrow> mode = None"
    using mode by (auto simp: requested_mode_def split: option.splits dest: sym)
  obtain r fs where c: "copy_guarded g (wq_path rq) body (fs_view ?t) 0 = (r, fs)"
    by (cases "copy_guarded g (wq_path rq) body (fs_view ?t) 0")
  from copy_guarded_copied [OF c] obtain k where k: "copied body (fs_view ?t) k fs"
    "\<forall>n. r = Inr n \<longrightarrow> k = length (fst body) \<and> \<not> snd body" by blast
  let ?l = "landed fs ?t"
  have l: "path_file ?l = Some (take k (fst body), m)" "wr_free ?l + k = wr_free t + path_size t"
    "k \<le> length (fst body)" "sole_name (wr_entry ?l) = sole_name (wr_entry t)"
    using k(1) t1 free sole by (simp_all add: landed_facts copied_def fs_view_def)
  have run: "(status, t') = (case (r, fs) of
       (Inl (written, Pressure _), fs) \<Rightarrow> (507, if wa_remove_ok a then removed ?l else ?l)
     | (Inl (written, Io), fs) \<Rightarrow> (500, ?l)
     | (Inr written, fs) \<Rightarrow>
         (case mode of
            None \<Rightarrow> (204, ?l)
          | Some m \<Rightarrow> if wa_chmod_ok a then (204, chmodded m ?l) else (500, ?l)))"
    using assms mode go c by (simp add: write_file_def Let_def)
  show ?thesis
  proof (cases r)
    case (Inl e)
    obtain w err where e: "e = (w, err)" by (cases e)
    show ?thesis
    proof (cases err)
      case (Pressure rd)
      then have "status = 507" "t' = (if wa_remove_ok a then removed ?l else ?l)" using run Inl e by simp_all
      then show ?thesis
        using l removed_facts [OF l(1)] by (auto intro!: exI [of _ k] simp: min_def)
    next
      case Io
      then show ?thesis using run Inl e l by auto
    qed
  next
    case (Inr n)
    then have whole: "take k (fst body) = fst body" "\<not> snd body" using k(2) by auto
    have "path_file (chmodded m' ?l) = Some (fst body, m')" for m'
      using l(1) whole by (auto simp: chmodded_def path_file_def)
    then show ?thesis
      using run Inr l md whole by (cases mode) (auto split: if_splits intro: exI [of _ k])
  qed
qed

lemma parse_mode_0640: "parse_mode ''0640'' = Some 416"
proof -
  have "str_trim ''0640'' = ''0640''" by code_simp
  moreover have "trim_start_matches ''0o'' ''0640'' = ''0640''"
    "trim_start_matches ''0O'' ''0640'' = ''0640''"
    by (simp_all add: trim_start_matches.simps starts_with_def)
  moreover have "from_str_radix8 ''0640'' = Some 416"
    by (simp add: from_str_radix8_def strip_plus_def is_digit_def digit_val_def)
  ultimately show ?thesis by (simp add: parse_mode_def)
qed

text \<open>A mode with a leading zero, a body of two bytes, through a symlink to a file of three.\<close>

theorem write_file_outcomes_witness:
  "\<exists>t'. write_file \<lparr>gd_probe = (\<lambda>fs p. Some (fs_free fs)), gd_reserve = 2\<rparr>
       (GoodQuery \<lparr>wq_path = ''/t'', wq_mode = Some ''0640''\<rparr>) ([7, 8], False)
       \<lparr>wa_parent_ok = True, wa_open_ok = True, wa_remove_ok = True, wa_chmod_ok = True,
         wa_umask = 18\<rparr>
       \<lparr>wr_entry = Symlink (Some \<lparr>in_bytes = [1, 2, 3], in_mode = 511, in_others = 0\<rparr>),
         wr_elsewhere = None, wr_free = 5\<rparr> = (204, t') \<and>
     path_file t' = Some ([7, 8], 416)"
proof -
  let ?g = "\<lparr>gd_probe = (\<lambda>fs p. Some (fs_free fs)), gd_reserve = 2\<rparr>"
  let ?q = "\<lparr>wq_path = ''/t'', wq_mode = Some ''0640''\<rparr>"
  let ?a = "\<lparr>wa_parent_ok = True, wa_open_ok = True, wa_remove_ok = True, wa_chmod_ok = True,
         wa_umask = 18\<rparr>"
  let ?t = "\<lparr>wr_entry = Symlink (Some \<lparr>in_bytes = [1, 2, 3], in_mode = 511, in_others = 0\<rparr>),
    wr_elsewhere = None, wr_free = 5\<rparr>"
  have m: "parse_mode ''0640'' = Some 416" by (rule parse_mode_0640)
  have p: "preflight ?g (fs_view ?t) ''/t'' = None"
    by (simp add: preflight_def guard_read_def under_pressure_def fs_view_def path_file_def)
  have s: "copy_slice PROBE_INTERVAL_BYTES ([7, 8], False) \<lparr>fs_free = 8, fs_file = []\<rparr>
      = (Some 2, ([], False), append_bytes [7, 8] \<lparr>fs_free = 8, fs_file = []\<rparr>)"
    by (simp add: copy_slice_def PROBE_INTERVAL_BYTES_def)
  have v: "fs_view (open_truncated (Some 416) ?a ?t) = \<lparr>fs_free = 8, fs_file = []\<rparr>"
    by (simp add: open_truncated_def fs_view_def path_file_def)
  have c: "copy_guarded ?g ''/t'' ([7, 8], False) \<lparr>fs_free = 8, fs_file = []\<rparr> 0
      = (Inr 2, append_bytes [7, 8] \<lparr>fs_free = 8, fs_file = []\<rparr>)"
    by (subst copy_guarded.simps) (simp add: s, simp add: PROBE_INTERVAL_BYTES_def)
  have r: "requested_mode (Some ''0640'') = Inr (Some 416)" by (simp add: requested_mode_def m)
  have "\<exists>t'. write_file ?g (GoodQuery ?q) ([7, 8], False) ?a ?t = (204, t')"
    unfolding write_file_def by (simp add: p [simplified] r v c Let_def)
  then obtain t' where w: "write_file ?g (GoodQuery ?q) ([7, 8], False) ?a ?t = (204, t')" by blast
  from write_file_outcomes [OF w] m have "path_file t' = Some ([7, 8], 416)" by auto
  with w show ?thesis by blast
qed

end
