(* ===== verification/HookPayload.thy ===== *)
theory HookPayload
  imports Prelude
begin

text \<open>
  The run hook's payload (\<open>crates/protocol/src/hook.rs\<close>), the seed check of
  \<open>protocol/src/identity.rs\<close> and the daemon's reading of the identity halves
  (\<open>agentd/src/tunnel_identity.rs\<close>). Parsed JSON is the value type; the JSON reader and the
  base64 decoder, which are third-party crates, are parameters. An object is its members in
  iteration order.
\<close>

section \<open>JSON values\<close>

datatype json =
    JNull | JBool bool | JNumber int | JString string
  | JArray "json list" | JObject "(string \<times> json) list"

fun as_object :: "json \<Rightarrow> (string \<times> json) list option" where
  "as_object (JObject kvs) = Some kvs"
| "as_object _ = None"

fun as_str :: "json \<Rightarrow> string option" where
  "as_str (JString s) = Some s"
| "as_str _ = None"

section \<open>The payload\<close>

record run_hook =
  rh_agent_token :: string
  rh_env :: env
  rh_identity_seed :: "string option"
  rh_identity_host_public_key :: "string option"

datatype run_hook_error =
    NotAnObject | TokenMissingOrNotAString | TokenEmpty | EnvNotAnObject
  | EnvValueNotAString string | IdentityNotAString string

definition SEED_KEY :: string where
  "SEED_KEY = ''identity_seed''"

definition HOST_PUBLIC_KEY_KEY :: string where
  "HOST_PUBLIC_KEY_KEY = ''identity_host_public_key''"

fun env_entries :: "(string \<times> json) list \<Rightarrow> env \<Rightarrow> run_hook_error + env" where
  "env_entries [] env = Inr env"
| "env_entries ((k, v) # kvs) env =
     (case as_str v of
        None \<Rightarrow> Inl (EnvValueNotAString k)
      | Some s \<Rightarrow> env_entries kvs (env(k \<mapsto> s)))"

definition parse_env :: "json option \<Rightarrow> run_hook_error + env" where
  "parse_env raw =
     (case raw of
        None \<Rightarrow> Inr Map.empty
      | Some JNull \<Rightarrow> Inr Map.empty
      | Some v \<Rightarrow>
          (case as_object v of
             None \<Rightarrow> Inl EnvNotAnObject
           | Some kvs \<Rightarrow> env_entries kvs Map.empty))"

definition identity_value :: "(string \<times> json) list \<Rightarrow> string \<Rightarrow> run_hook_error + string option" where
  "identity_value obj k =
     (case map_of obj k of
        None \<Rightarrow> Inr None
      | Some JNull \<Rightarrow> Inr None
      | Some (JString s) \<Rightarrow> Inr (Some s)
      | Some _ \<Rightarrow> Inl (IdentityNotAString k))"

definition parse_value :: "json option \<Rightarrow> run_hook_error + run_hook" where
  "parse_value v =
     bind_r (ok_or NotAnObject (Option.bind v as_object)) (\<lambda>obj.
     bind_r (ok_or TokenMissingOrNotAString (Option.bind (map_of obj ''agent_token'') as_str)) (\<lambda>token.
     if token = [] then Inl TokenEmpty
     else
       bind_r (parse_env (map_of obj ''env'')) (\<lambda>env.
       bind_r (identity_value obj SEED_KEY) (\<lambda>seed.
       bind_r (identity_value obj HOST_PUBLIC_KEY_KEY) (\<lambda>host.
         Inr \<lparr>rh_agent_token = token, rh_env = env, rh_identity_seed = seed,
              rh_identity_host_public_key = host\<rparr>)))))"

definition parse :: "(string \<Rightarrow> json option) \<Rightarrow> string \<Rightarrow> run_hook_error + run_hook" where
  "parse json_from_str raw = parse_value (json_from_str raw)"

section \<open>The tunnel identity\<close>

definition SEED_BYTES :: nat where
  "SEED_BYTES = 32"

datatype seed_error = WrongLength nat | AllZero

definition seed_from_bytes :: "bytes \<Rightarrow> seed_error + bytes" where
  "seed_from_bytes bs =
     (if length bs \<noteq> SEED_BYTES then Inl (WrongLength (length bs))
      else if list_all (\<lambda>b. b = 0) bs then Inl AllZero
      else Inr bs)"

record material =
  mt_seed :: bytes
  mt_host_public_key :: bytes

datatype material_error =
    HalfDelivered string | NotBase64 string | NotASeed string seed_error

definition decode_half ::
  "(string \<Rightarrow> bytes option) \<Rightarrow> string \<Rightarrow> string \<Rightarrow> material_error + bytes" where
  "decode_half b64 encoded k =
     (case b64 encoded of
        None \<Rightarrow> Inl (NotBase64 k)
      | Some bs \<Rightarrow>
          (case seed_from_bytes bs of Inl e \<Rightarrow> Inl (NotASeed k e) | Inr s \<Rightarrow> Inr s))"

definition from_payload ::
  "(string \<Rightarrow> bytes option) \<Rightarrow> run_hook \<Rightarrow> material_error + material option" where
  "from_payload b64 hook =
     (case (rh_identity_seed hook, rh_identity_host_public_key hook) of
        (Some seed, Some host) \<Rightarrow>
          bind_r (decode_half b64 seed SEED_KEY) (\<lambda>s.
          bind_r (decode_half b64 host HOST_PUBLIC_KEY_KEY) (\<lambda>k.
            Inr (Some \<lparr>mt_seed = s, mt_host_public_key = k\<rparr>)))
      | (None, None) \<Rightarrow> Inr None
      | (Some _, None) \<Rightarrow> Inl (HalfDelivered HOST_PUBLIC_KEY_KEY)
      | (None, Some _) \<Rightarrow> Inl (HalfDelivered SEED_KEY))"

section \<open>What a refusal can depend on\<close>

text \<open>
  The public part of a payload: its keys and the types of its values, with the contents of every
  string, number and flag gone. Only whether the token is empty is kept of a string.
\<close>

fun redact :: "json \<Rightarrow> json" where
  "redact JNull = JNull"
| "redact (JBool b) = JBool False"
| "redact (JNumber n) = JNumber 0"
| "redact (JString s) = JString (if s = [] then [] else ''*'')"
| "redact (JArray vs) = JArray (map redact vs)"
| "redact (JObject kvs) = JObject (map (\<lambda>(k, v). (k, redact v)) kvs)"

lemma as_object_redact: "as_object (redact v) = map_option (map (\<lambda>(k, v). (k, redact v))) (as_object v)"
  by (cases v) simp_all

lemma as_str_redact: "as_str (redact v) = map_option (\<lambda>s. if s = [] then [] else ''*'') (as_str v)"
  by (cases v) simp_all

lemma map_of_redact: "map_of (map (\<lambda>(k, v). (k, redact v)) kvs) k = map_option redact (map_of kvs k)"
  by (simp add: map_of_map)

lemma env_entries_redact:
  "env_entries (map (\<lambda>(k, v). (k, redact v)) kvs) env1 = Inl e \<longleftrightarrow> env_entries kvs env2 = Inl e"
proof (induction kvs arbitrary: env1 env2)
  case (Cons kv kvs)
  obtain k v where kv: "kv = (k, v)" by (cases kv)
  show ?case
  proof (cases "as_str v")
    case (Some s)
    show ?thesis
      unfolding kv list.map prod.case env_entries.simps as_str_redact Some option.map option.case
      by (rule Cons.IH)
  qed (simp add: kv as_str_redact)
qed simp

lemma parse_env_redact: "parse_env (map_option redact raw) = Inl e \<longleftrightarrow> parse_env raw = Inl e"
proof (cases raw)
  case (Some v)
  then show ?thesis by (cases v) (simp_all add: parse_env_def env_entries_redact)
qed (simp add: parse_env_def)

lemma identity_value_redact:
  "identity_value (map (\<lambda>(k, v). (k, redact v)) obj) k = Inl e \<longleftrightarrow> identity_value obj k = Inl e"
  by (auto simp: identity_value_def map_of_redact split: option.splits json.splits
      elim: redact.elims)

lemma Inl_or_Inr: "(\<exists>x. r = Inr x) \<longleftrightarrow> (\<forall>e. r \<noteq> Inl e)"
  by (cases r) auto

section \<open>Properties\<close>

text \<open>
  A refused payload tells nothing of its secrets. Whether a payload is refused and with which
  error depends on its keys, the types of its values and whether the token is empty: the payload
  with every string, number and flag replaced by a fixed one is refused with the same error, so
  no token, environment value or key material reaches a log line or a response body.
\<close>
theorem refusal_depends_on_no_value:
  "parse_value (map_option redact v) = Inl e \<longleftrightarrow> parse_value v = Inl e"
proof (cases "Option.bind v as_object")
  case None
  then have "Option.bind (map_option redact v) as_object = None"
    by (cases v) (simp_all add: as_object_redact)
  with None show ?thesis by (simp add: parse_value_def)
next
  case (Some obj)
  then have obj': "Option.bind (map_option redact v) as_object = Some (map (\<lambda>(k, v). (k, redact v)) obj)"
    by (cases v) (simp_all add: as_object_redact)
  show ?thesis
  proof (cases "Option.bind (map_of obj ''agent_token'') as_str")
    case None
    then have "Option.bind (map_option redact (map_of obj ''agent_token'')) as_str = None"
      by (cases "map_of obj ''agent_token''") (simp_all add: as_str_redact)
    with None Some obj' show ?thesis by (simp add: parse_value_def map_of_redact)
  next
    case (Some token)
    then have "Option.bind (map_option redact (map_of obj ''agent_token'')) as_str
        = Some (if token = [] then [] else ''*'')"
      by (cases "map_of obj ''agent_token''") (simp_all add: as_str_redact)
    with Some \<open>Option.bind v as_object = Some obj\<close> obj' show ?thesis
      using parse_env_redact [of "map_of obj ''env''"] identity_value_redact [of obj]
      by (auto simp: parse_value_def map_of_redact bind_r_Inl Inl_or_Inr)
  qed
qed

text \<open>
  Identity material is whole or absent. The daemon takes key material from a payload exactly
  when both halves are there, each the base64 of 32 bytes that are not all zero, and then holds
  exactly those bytes; a payload with neither half launches without; anything else is refused.
\<close>
theorem identity_material_whole_or_absent:
  "(from_payload b64 hook = Inr None \<longleftrightarrow>
      rh_identity_seed hook = None \<and> rh_identity_host_public_key hook = None) \<and>
   (from_payload b64 hook = Inr (Some m) \<longleftrightarrow>
      (\<exists>s k. rh_identity_seed hook = Some s \<and> rh_identity_host_public_key hook = Some k \<and>
        b64 s = Some (mt_seed m) \<and> b64 k = Some (mt_host_public_key m) \<and>
        length (mt_seed m) = SEED_BYTES \<and> (\<exists>b \<in> set (mt_seed m). b \<noteq> 0) \<and>
        length (mt_host_public_key m) = SEED_BYTES \<and> (\<exists>b \<in> set (mt_host_public_key m). b \<noteq> 0)))"
  by (cases m) (auto simp: from_payload_def decode_half_def seed_from_bytes_def bind_r_Inr list_all_iff
      split: option.splits sum.splits if_splits)

end
