(* ===== verification/HookRoutes.thy ===== *)
theory HookRoutes
  imports HookPayload RegistryRuns Disk "HOL-Library.Multiset"
begin

text \<open>
  The lifecycle hooks (\<open>crates/agentd/src/routes.rs\<close>), the workload's handlers
  (\<open>hook_handlers.rs\<close>) and the health report. Anything may post to the hooks, in any
  order and at any time: a handler gives up the daemon while it repairs the identity, waits for
  the handler lock or waits for a child, so each piece between two awaits is one act, interleaved
  with the acts of \<open>RegistryRuns\<close>. A request whose connection is dropped takes no
  further act.
\<close>

section \<open>Workload handlers\<close>

definition HOOK_NAMES :: "string list" where
  "HOOK_NAMES = [''run'', ''suspend'', ''resume'', ''terminate'']"

text \<open>What \<open>stat\<close> says of the handler's file: an error, or whether it is a regular file and its mode.\<close>

definition check_executable :: "string + (bool \<times> u32) \<Rightarrow> string + unit" where
  "check_executable meta =
     (case meta of
        Inl e \<Rightarrow> Inl e
      | Inr (is_file, mode) \<Rightarrow>
          if \<not> is_file then Inl ''not a regular file''
          else if and mode 73 = 0 then Inl ''not executable''
          else Inr ())"

record handler_status =
  es_code :: "int option"
  es_signal :: "int option"

text \<open>
  How the race against the budget ended: the child was reaped and both pipes closed in time, or
  the deadline came first, with the child perhaps reaped before it and perhaps found dead after
  the group was killed. A child whose wait failed has no status.
\<close>

datatype handler_race = InTime "handler_status option" | Deadline "handler_status option" "handler_status option"

record handler_start =
  hd_meta :: "string + (bool \<times> u32)"
  hd_spawn :: "string + u32 option"
  hd_race :: handler_race
  hd_millis :: nat

definition handler_env :: "env \<Rightarrow> env \<Rightarrow> string \<Rightarrow> env" where
  "handler_env inherited launch_env hook = (inherited ++ launch_env)(''AGENTD_HOOK'' \<mapsto> hook)"

definition failed_outcome :: "nat \<Rightarrow> string \<Rightarrow> handler_outcome" where
  "failed_outcome ms e =
     \<lparr>ho_exit_code = None, ho_signal = None, ho_timed_out = False, ho_duration_ms = ms,
      ho_error = Some e\<rparr>"

text \<open>The group that is killed is the child's own; a pid past \<open>i32\<close> is not signalled.\<close>

definition kill_target :: "u32 option \<Rightarrow> u32 list" where
  "kill_target pid = (case pid of Some p \<Rightarrow> if unat p < 2 ^ 31 then [p] else [] | None \<Rightarrow> [])"

definition execute :: "handler_start \<Rightarrow> handler_outcome \<times> u32 list" where
  "execute i =
     (case check_executable (hd_meta i) of
        Inl e \<Rightarrow> (failed_outcome (hd_millis i) e, [])
      | Inr _ \<Rightarrow>
          (case hd_spawn i of
             Inl e \<Rightarrow> (failed_outcome (hd_millis i) (''spawn failed: '' @ e), [])
           | Inr pid \<Rightarrow>
               (let (status, timed_out) =
                      (case hd_race i of
                         InTime st \<Rightarrow> (st, False)
                       | Deadline before late \<Rightarrow>
                           (case late of Some st \<Rightarrow> Some st | None \<Rightarrow> before, True))
                in (\<lparr>ho_exit_code = Option.bind status es_code, ho_signal = Option.bind status es_signal,
                     ho_timed_out = timed_out, ho_duration_ms = hd_millis i, ho_error = None\<rparr>,
                    if timed_out then kill_target pid else []))))"

text \<open>\<open>run\<close>, up to the lock: no slot, no known name or no file, no handler.\<close>

definition handler_due :: "config \<Rightarrow> (string \<Rightarrow> bool) \<Rightarrow> string \<Rightarrow> nat option \<Rightarrow> (nat \<times> string) list" where
  "handler_due cfg exists_at hook slot =
     (case slot of
        None \<Rightarrow> []
      | Some i \<Rightarrow>
          (case find (\<lambda>n. n = hook) HOOK_NAMES of
             None \<Rightarrow> []
           | Some name \<Rightarrow>
               if exists_at (path_join (cf_hooks_dir cfg) name) then [(i, name)] else []))"

section \<open>The run hook\<close>

text \<open>
  The run hook up to its first await: refused, answered, or on to the repair with the slot of its
  log entry. The body is \<open>None\<close> when it is not JSON of the envelope's shape, and the
  envelope's payload is optional.
\<close>

datatype run_verdict = Answer nat | Won "nat option"

definition run_arrive ::
  "(string \<Rightarrow> json option) \<Rightarrow> (string \<Rightarrow> bytes option) \<Rightarrow> nat \<Rightarrow> string option option
     \<Rightarrow> material daemon \<Rightarrow> run_verdict \<times> material daemon" where
  "run_arrive from_json b64 epoch body s =
     (let (slot, s1) = record_hook epoch ''run'' s
      in case body of
           None \<Rightarrow> (Answer 400, s1)
         | Some None \<Rightarrow> (Answer 400, s1)
         | Some (Some raw) \<Rightarrow>
             (case parse from_json raw of
                Inl e \<Rightarrow> (Answer 400, s1)
              | Inr hook \<Rightarrow>
                  (case from_payload b64 hook of
                     Inl e \<Rightarrow> (Answer 400, s1)
                   | Inr identity \<Rightarrow>
                       (case bootstrap_with_identity (as_bytes (rh_agent_token hook)) (rh_env hook)
                               identity s1 of
                          (Installed, s2) \<Rightarrow> (Won slot, s2)
                        | (AlreadyIdentical, s2) \<Rightarrow> (Answer 200, s2)
                        | (Conflict, s2) \<Rightarrow> (Answer 409, s2)))))"

text \<open>\<open>main\<close> hands the host's repairer to a daemon configured to repair.\<close>

definition repairer :: "config \<Rightarrow> answers \<Rightarrow> string + string \<Rightarrow> machine \<Rightarrow> report option \<times> machine" where
  "repairer cfg an fresh m =
     (if cf_repair_identity cfg then repair default_layout an fresh m else (Some skipped, m))"

section \<open>Acts\<close>

record hook_world =
  hw_system :: "material system"
  hw_machine :: machine
  hw_repairing :: "nat option list"
  hw_waiting :: "(nat \<times> string) list"
  hw_running :: "(nat \<times> string) option"
  hw_begun :: "(nat \<times> string) list"
  hw_repairs :: nat

definition init_world :: "config \<Rightarrow> env option \<Rightarrow> machine \<Rightarrow> hook_world" where
  "init_world cfg img m =
     \<lparr>hw_system = init_system cfg img, hw_machine = m, hw_repairing = [], hw_waiting = [],
      hw_running = None, hw_begun = [], hw_repairs = 0\<rparr>"

datatype notice = Ready | Validate | Suspend | Resume | Terminate

fun notice_name :: "notice \<Rightarrow> string" where
  "notice_name Ready = ''ready''"
| "notice_name Validate = ''validate''"
| "notice_name Suspend = ''suspend''"
| "notice_name Resume = ''resume''"
| "notice_name Terminate = ''terminate''"

datatype hook_act =
    PostNotice notice nat "string \<Rightarrow> bool"
  | PostRun nat "string option option"
  | BodyRefused string nat bool
  | FinishRepair nat answers "string + string" "string \<Rightarrow> bool"
  | BeginHandler nat
  | FinishHandler handler_start
  | AbandonHandler
  | ControlAct "material act"

definition daemon_of :: "hook_world \<Rightarrow> material daemon" where
  "daemon_of w = sy_daemon (hw_system w)"

definition put_daemon :: "material daemon \<Rightarrow> hook_world \<Rightarrow> hook_world" where
  "put_daemon s w = w\<lparr>hw_system := with_daemon s (hw_system w)\<rparr>"

text \<open>The suspend, resume and terminate hooks run a handler; the two of the image build do not.\<close>

definition notice_hook :: "notice \<Rightarrow> nat \<Rightarrow> (string \<Rightarrow> bool) \<Rightarrow> hook_world \<Rightarrow> nat option \<times> hook_world" where
  "notice_hook n epoch exists_at w =
     (let (slot, s) = record_hook epoch (notice_name n) (daemon_of w);
          due = (if n = Ready \<or> n = Validate then []
                 else handler_due (dm_config s) exists_at (notice_name n) slot)
      in (if due = [] then Some 200 else None,
          (put_daemon s w)\<lparr>hw_waiting := hw_waiting w @ due\<rparr>))"

text \<open>A body that is too large or too slow never reaches a handler, and is recorded all the same.\<close>

definition bound_hook_body :: "string \<Rightarrow> nat \<Rightarrow> bool \<Rightarrow> hook_world \<Rightarrow> nat \<times> hook_world" where
  "bound_hook_body name epoch timed_out w =
     (if timed_out then 408 else 413, put_daemon (snd (record_hook epoch name (daemon_of w))) w)"

text \<open>The run hook from the end of the repair to the wait for the handler lock.\<close>

definition finish_repair ::
  "nat \<Rightarrow> answers \<Rightarrow> string + string \<Rightarrow> (string \<Rightarrow> bool) \<Rightarrow> hook_world \<Rightarrow> nat option \<times> hook_world" where
  "finish_repair k an fresh exists_at w =
     (let cfg = dm_config (daemon_of w);
          (r, m) = repairer cfg an fresh (hw_machine w);
          due = handler_due cfg exists_at ''run'' (hw_repairing w ! k)
      in (if due = [] then Some 200 else None,
          (put_daemon (repair_identity r (daemon_of w)) w)
            \<lparr>hw_machine := m, hw_repairs := hw_repairs w + 1,
             hw_repairing := take k (hw_repairing w) @ drop (k + 1) (hw_repairing w),
             hw_waiting := hw_waiting w @ due\<rparr>))"

text \<open>Taking the handler lock, and what follows the handler.\<close>

definition begin_handler :: "nat \<Rightarrow> hook_world \<Rightarrow> hook_world" where
  "begin_handler k w =
     w\<lparr>hw_running := Some (hw_waiting w ! k), hw_begun := hw_waiting w ! k # hw_begun w,
       hw_waiting := take k (hw_waiting w) @ drop (k + 1) (hw_waiting w)\<rparr>"

definition finish_handler :: "handler_start \<Rightarrow> nat \<Rightarrow> hook_world \<Rightarrow> hook_world" where
  "finish_handler i slot w =
     (put_daemon (record_handler slot (fst (execute i)) (daemon_of w)) w)\<lparr>hw_running := None\<rparr>"

fun do_hook ::
  "(string \<Rightarrow> json option) \<Rightarrow> (string \<Rightarrow> bytes option) \<Rightarrow> hook_act \<Rightarrow> hook_world
     \<Rightarrow> (nat option \<times> hook_world) option" where
  "do_hook from_json b64 (PostNotice n epoch exists_at) w = Some (notice_hook n epoch exists_at w)"
| "do_hook from_json b64 (PostRun epoch body) w =
     (case run_arrive from_json b64 epoch body (daemon_of w) of
        (Answer status, s) \<Rightarrow> Some (Some status, put_daemon s w)
      | (Won slot, s) \<Rightarrow>
          Some (None, (put_daemon s w)\<lparr>hw_repairing := hw_repairing w @ [slot]\<rparr>))"
| "do_hook from_json b64 (BodyRefused name epoch timed_out) w =
     (case bound_hook_body name epoch timed_out w of (status, w1) \<Rightarrow> Some (Some status, w1))"
| "do_hook from_json b64 (FinishRepair k an fresh exists_at) w =
     (if k < length (hw_repairing w) then Some (finish_repair k an fresh exists_at w) else None)"
| "do_hook from_json b64 (BeginHandler k) w =
     (if k < length (hw_waiting w) \<and> hw_running w = None
      then Some (None, begin_handler k w) else None)"
| "do_hook from_json b64 (FinishHandler i) w =
     (case hw_running w of
        None \<Rightarrow> None
      | Some (slot, name) \<Rightarrow> Some (Some 200, finish_handler i slot w))"
| "do_hook from_json b64 AbandonHandler w =
     (case hw_running w of None \<Rightarrow> None | Some _ \<Rightarrow> Some (None, w\<lparr>hw_running := None\<rparr>))"
| "do_hook from_json b64 (ControlAct act) w =
     (case act of
        DoBootstrap _ _ _ \<Rightarrow> None
      | _ \<Rightarrow> map_option (\<lambda>(r, y). (None, w\<lparr>hw_system := y\<rparr>)) (do_act act (hw_system w)))"

declare bound_hook_body_def [simp] finish_repair_def [simp] begin_handler_def [simp]
  finish_handler_def [simp]

inductive hook_runs ::
  "(string \<Rightarrow> json option) \<Rightarrow> (string \<Rightarrow> bytes option) \<Rightarrow> hook_world \<Rightarrow> hook_world \<Rightarrow> bool"
  for from_json b64 w0 where
  hook_runs_refl: "hook_runs from_json b64 w0 w0"
| hook_runs_step: "hook_runs from_json b64 w0 w \<Longrightarrow> do_hook from_json b64 act w = Some (r, w') \<Longrightarrow>
     hook_runs from_json b64 w0 w'"

section \<open>What the other acts leave alone\<close>

definition boot_part ::
  "'m daemon \<Rightarrow> config \<times> bytes option \<times> env \<times> env option \<times> 'm option \<times> hook_log \<times> report" where
  "boot_part s = (dm_config s, dm_token s, dm_launch_env s, dm_image_env s, dm_tunnel_identity s,
     dm_hooks s, dm_identity s)"

lemma boot_part_set_cell [simp]: "boot_part (set_cell a c s) = boot_part s"
  by (simp add: boot_part_def set_cell_def)

lemma boot_part_waiter [simp]:
  "boot_part (publish_to a k bs s) = boot_part s"
  "boot_part (write_terminal a oc s) = boot_part s"
  "boot_part (write_result a oc s) = boot_part s"
  "boot_part (drop_stdin a s) = boot_part s"
  by (simp_all add: publish_to_def write_terminal_def write_result_def drop_stdin_def Let_def)

lemma boot_part_collect [simp]: "boot_part (snd (collect_expired s)) = boot_part s"
  by (simp add: collect_expired_def boot_part_def Let_def)

lemma boot_part_tick [simp]: "boot_part (s\<lparr>dm_now := n\<rparr>) = boot_part s"
  "boot_part (s\<lparr>dm_execs := e\<rparr>) = boot_part s" "boot_part (s\<lparr>dm_heap := h\<rparr>) = boot_part s"
  by (simp_all add: boot_part_def)

lemma boot_part_ack: "boot_part (snd (ack_locked xid a s)) = boot_part s"
  by (simp add: ack_locked_def Let_def split: option.split)

lemma boot_part_stdin: "boot_part (snd (write_stdin d xid body wrote s)) = boot_part s"
  by (simp add: write_stdin_def Let_def split: option.split sum.split stdin_write.split)

lemma boot_part_spawn: "spawn xid cmd reap child epoch s = Inr s' \<Longrightarrow> boot_part s' = boot_part s"
  by (auto simp: spawn_def bind_r_Inr Let_def boot_part_def)

lemma boot_part_start: "boot_part (snd (start body pe h child epoch s)) = boot_part s"
  by (auto simp: start_def boot_part_spawn split: option.split sum.split)

lemma boot_part_do_act:
  assumes "do_act act y = Some (r, y')" and "\<And>t e i. act \<noteq> DoBootstrap t e i"
  shows "boot_part (sy_daemon y') = boot_part (sy_daemon y)"
proof (cases act)
  case (DoStart body pe h child epoch)
  with assms(1) boot_part_start [of body pe h child epoch "sy_daemon y"] show ?thesis
    by (auto split: prod.splits)
next
  case (DoAckLocked xid a)
  with assms(1) boot_part_ack [of xid a "sy_daemon y"] show ?thesis
    by (auto split: prod.splits if_splits)
next
  case (DoStdin xid body d wrote)
  with assms(1) boot_part_stdin [of "\<lambda>_. d" xid body wrote "sy_daemon y"] show ?thesis
    by (auto simp: with_daemon_def split: prod.splits)
qed (use assms in \<open>auto simp: with_daemon_def set_phase_def
      split: if_splits option.splits task_phase.splits sum.splits\<close>)

section \<open>The verdict of the run hook\<close>

lemma record_hook_part:
  assumes "record_hook epoch hook s = (slot, s')"
  shows "dm_token s' = dm_token s \<and> dm_config s' = dm_config s \<and> dm_launch_env s' = dm_launch_env s \<and>
    dm_tunnel_identity s' = dm_tunnel_identity s \<and> dm_identity s' = dm_identity s \<and>
    dm_execs s' = dm_execs s \<and> dm_heap s' = dm_heap s"
  using assms by (auto simp: record_hook_def Let_def split: if_splits)

text \<open>What a well-formed payload delivers, or \<open>None\<close>.\<close>

definition delivered ::
  "(string \<Rightarrow> json option) \<Rightarrow> (string \<Rightarrow> bytes option) \<Rightarrow> string option option
     \<Rightarrow> (bytes \<times> env \<times> material option) option" where
  "delivered from_json b64 body =
     (case body of
        Some (Some raw) \<Rightarrow>
          (case parse from_json raw of
             Inr hook \<Rightarrow>
               (case from_payload b64 hook of
                  Inr m \<Rightarrow> Some (as_bytes (rh_agent_token hook), rh_env hook, m)
                | Inl _ \<Rightarrow> None)
           | Inl _ \<Rightarrow> None)
      | _ \<Rightarrow> None)"

lemma run_arrive_delivered:
  assumes "record_hook epoch ''run'' s = (slot, s1)"
  shows "run_arrive from_json b64 epoch body s =
    (case delivered from_json b64 body of
       None \<Rightarrow> (Answer 400, s1)
     | Some (t, e, m) \<Rightarrow>
         (case dm_token s of
            None \<Rightarrow> (Won slot, s1\<lparr>dm_token := Some t, dm_launch_env := e, dm_tunnel_identity := m\<rparr>)
          | Some t' \<Rightarrow> (Answer (if t' = t then 200 else 409), s1)))"
  using assms record_hook_part [OF assms]
  by (auto simp: run_arrive_def delivered_def bootstrap_with_identity_def
      split: option.split sum.split)

section \<open>The log bounds the handlers\<close>

definition hook_names :: "material daemon \<Rightarrow> string list" where
  "hook_names s = map hk_hook (hl_observed (dm_hooks s))"

lemma record_hook_names:
  assumes "record_hook epoch hook s = (slot, s')"
  shows "if length (hook_names s) < HOOK_LOG_CAP
    then slot = Some (length (hook_names s)) \<and> hook_names s' = hook_names s @ [hook]
    else slot = None \<and> hook_names s' = hook_names s"
  using assms by (auto simp: record_hook_def hook_names_def Let_def split: if_splits)

lemma record_handler_part [simp]:
  "hook_names (record_handler slot oc s) = hook_names s"
  "dm_token (record_handler slot oc s) = dm_token s"
  "dm_config (record_handler slot oc s) = dm_config s"
  "dm_identity (record_handler slot oc s) = dm_identity s"
  by (auto simp: record_handler_def hook_names_def Let_def map_update nth_list_update list_eq_iff_nth_eq)

lemma repair_identity_part [simp]:
  "hook_names (repair_identity r s) = hook_names s"
  "dm_token (repair_identity r s) = dm_token s"
  "dm_config (repair_identity r s) = dm_config s"
  by (auto simp: repair_identity_def hook_names_def split: option.split)

lemma daemon_of_put [simp]: "daemon_of (put_daemon s w) = s"
  by (simp add: daemon_of_def put_daemon_def with_daemon_def)

lemma put_daemon_fields [simp]:
  "hw_repairing (put_daemon s w) = hw_repairing w" "hw_waiting (put_daemon s w) = hw_waiting w"
  "hw_begun (put_daemon s w) = hw_begun w" "hw_running (put_daemon s w) = hw_running w"
  "hw_repairs (put_daemon s w) = hw_repairs w" "hw_machine (put_daemon s w) = hw_machine w"
  by (simp_all add: put_daemon_def)

text \<open>Every task holds the slot of its own log entry: repairing ones a run entry.\<close>

definition tasks_of :: "hook_world \<Rightarrow> (nat \<times> string) list" where
  "tasks_of w = map (\<lambda>i. (i, ''run'')) (List.map_filter (\<lambda>x. x) (hw_repairing w)) @
     hw_waiting w @ hw_begun w"

definition slots_ok :: "string list \<Rightarrow> (nat \<times> string) list \<Rightarrow> bool" where
  "slots_ok names ts \<longleftrightarrow> distinct (map fst ts) \<and>
     (\<forall>(i, n) \<in> set ts. i < length names \<and> names ! i = n \<and> n \<in> set HOOK_NAMES)"

definition hook_log_inv :: "hook_world \<Rightarrow> bool" where
  "hook_log_inv w \<longleftrightarrow> length (hook_names (daemon_of w)) \<le> HOOK_LOG_CAP \<and>
     slots_ok (hook_names (daemon_of w)) (tasks_of w)"

lemma slots_ok_grow: "slots_ok names ts \<Longrightarrow> slots_ok (names @ ns) ts"
  by (auto simp: slots_ok_def nth_append)

lemma slots_ok_new:
  "slots_ok names ts \<Longrightarrow> n \<in> set HOOK_NAMES \<Longrightarrow> slots_ok (names @ [n]) ((length names, n) # ts)"
  by (auto simp: slots_ok_def nth_append)

lemma slots_ok_mset: "mset ts = mset ts' \<Longrightarrow> slots_ok names ts \<longleftrightarrow> slots_ok names ts'"
proof -
  assume m: "mset ts = mset ts'"
  then have "distinct (map fst ts) = distinct (map fst ts')"
    by (metis mset_map mset_eq_imp_distinct_iff)
  moreover have "set ts = set ts'" using m by (rule mset_eq_setD)
  ultimately show ?thesis by (simp add: slots_ok_def)
qed

lemma slots_ok_sub: "slots_ok names (ts @ ts') \<Longrightarrow> slots_ok names ts'"
  by (auto simp: slots_ok_def)

lemma mset_remove_nth:
  assumes "k < length xs"
  shows "mset xs = add_mset (xs ! k) (mset (take k xs @ drop (k + 1) xs))"
proof -
  have "xs = take k xs @ xs ! k # drop (k + 1) xs" using assms by (simp add: id_take_nth_drop)
  then show ?thesis by (metis add_mset_add_single mset_append mset.simps(2) union_mset_add_mset_right)
qed

lemma handler_due_cases:
  "handler_due cfg ex hook slot = [] \<or>
   (\<exists>i. slot = Some i \<and> hook \<in> set HOOK_NAMES \<and> handler_due cfg ex hook slot = [(i, hook)])"
  by (auto simp: handler_due_def find_Some_iff find_None_iff split: option.split)

lemma record_due_ok:
  assumes "record_hook epoch hook s = (slot, s')" and "slots_ok (hook_names s) ts"
    and "length (hook_names s) \<le> HOOK_LOG_CAP"
  shows "slots_ok (hook_names s') (handler_due cfg ex hook slot @ ts) \<and>
    slots_ok (hook_names s') ts \<and>
    (hook \<in> set HOOK_NAMES \<longrightarrow> slots_ok (hook_names s') (map (\<lambda>i. (i, hook)) (case slot of None \<Rightarrow> [] | Some i \<Rightarrow> [i]) @ ts)) \<and>
    length (hook_names s') \<le> HOOK_LOG_CAP"
  using record_hook_names [OF assms(1)] assms(2,3) handler_due_cases [of cfg ex hook slot]
    slots_ok_grow [OF assms(2)] slots_ok_new [OF assms(2)]
  by (auto split: if_splits)

lemma names_boot_part: "boot_part s = boot_part s' \<Longrightarrow> hook_names s = hook_names s'"
  by (simp add: boot_part_def hook_names_def)

lemma tasks_put [simp]: "tasks_of (put_daemon s w) = tasks_of w"
  by (simp add: tasks_of_def)

lemma hook_log_invI:
  assumes "mset (tasks_of w) = mset ts" and "hook_names (daemon_of w) = ns" and "slots_ok ns ts"
    and "length ns \<le> HOOK_LOG_CAP"
  shows "hook_log_inv w"
  using assms slots_ok_mset [OF assms(1)] by (simp add: hook_log_inv_def)

lemma hook_log_inv_init: "hook_log_inv (init_world cfg img m)"
  by (simp add: hook_log_inv_def init_world_def daemon_of_def init_system_def new_daemon_def
      hook_names_def tasks_of_def slots_ok_def)

lemma hook_log_inv_step:
  assumes "do_hook from_json b64 act w = Some (r, w')" and inv: "hook_log_inv w"
  shows "hook_log_inv w'"
proof -
  let ?s = "daemon_of w"
  have ok: "slots_ok (hook_names ?s) (tasks_of w)" "length (hook_names ?s) \<le> HOOK_LOG_CAP"
    using inv by (simp_all add: hook_log_inv_def)
  show ?thesis
  proof (cases act)
    case (PostNotice n epoch ex)
    obtain slot s where rec: "record_hook epoch (notice_name n) ?s = (slot, s)"
      by (cases "record_hook epoch (notice_name n) ?s")
    let ?due = "if n = Ready \<or> n = Validate then []
      else handler_due (dm_config s) ex (notice_name n) slot"
    have w': "w' = (put_daemon s w)\<lparr>hw_waiting := hw_waiting w @ ?due\<rparr>"
      using assms(1) PostNotice rec by (auto simp: notice_hook_def Let_def)
    have "mset (tasks_of w') = mset (?due @ tasks_of w)"
      unfolding w' by (simp add: tasks_of_def)
    moreover have "hook_names (daemon_of w') = hook_names s"
      unfolding w' by (simp add: daemon_of_def put_daemon_def with_daemon_def)
    moreover have "slots_ok (hook_names s) (?due @ tasks_of w)" "length (hook_names s) \<le> HOOK_LOG_CAP"
      using record_due_ok [OF rec ok] by auto
    ultimately show ?thesis by (rule hook_log_invI)
  next
    case (PostRun epoch body)
    obtain slot s1 where rec: "record_hook epoch ''run'' ?s = (slot, s1)"
      by (cases "record_hook epoch ''run'' ?s")
    note d = record_due_ok [OF rec ok, of undefined undefined]
    have run: "''run'' \<in> set HOOK_NAMES" by (simp add: HOOK_NAMES_def)
    consider (answer) st where "run_arrive from_json b64 epoch body ?s = (Answer st, s1)"
      | (won) s2 where "run_arrive from_json b64 epoch body ?s = (Won slot, s2)"
          "hook_names s2 = hook_names s1"
      unfolding run_arrive_delivered [OF rec]
      by (cases "delivered from_json b64 body"; cases "dm_token ?s")
        (auto simp: hook_names_def split: prod.splits)
    then show ?thesis
    proof cases
      case answer
      with assms(1) PostRun d show ?thesis by (auto simp: hook_log_inv_def)
    next
      case won
      have w': "w' = (put_daemon s2 w)\<lparr>hw_repairing := hw_repairing w @ [slot]\<rparr>"
        using assms(1) PostRun won(1) by simp
      have "mset (tasks_of w')
          = mset (map (\<lambda>i. (i, ''run'')) (case slot of None \<Rightarrow> [] | Some i \<Rightarrow> [i]) @ tasks_of w)"
        unfolding w' by (cases slot) (simp_all add: tasks_of_def List.map_filter_simps map_filter_def)
      moreover have "hook_names (daemon_of w') = hook_names s1"
        unfolding w' using won(2) by (simp add: daemon_of_def put_daemon_def with_daemon_def)
      moreover have "slots_ok (hook_names s1)
          (map (\<lambda>i. (i, ''run'')) (case slot of None \<Rightarrow> [] | Some i \<Rightarrow> [i]) @ tasks_of w)"
        "length (hook_names s1) \<le> HOOK_LOG_CAP" using d run by blast+
      ultimately show ?thesis by (rule hook_log_invI)
    qed
  next
    case (BodyRefused name epoch t)
    obtain slot s1 where rec: "record_hook epoch name ?s = (slot, s1)"
      by (cases "record_hook epoch name ?s")
    with assms(1) BodyRefused record_due_ok [OF rec ok] show ?thesis by (auto simp: hook_log_inv_def)
  next
    case (FinishRepair k an fresh ex)
    then have k: "k < length (hw_repairing w)" using assms(1) by (auto split: if_splits)
    let ?slot = "hw_repairing w ! k"
    let ?due = "handler_due (dm_config ?s) ex ''run'' ?slot"
    let ?own = "map (\<lambda>i. (i, ''run'')) (case ?slot of None \<Rightarrow> [] | Some i \<Rightarrow> [i])"
    obtain rep m where rep: "repairer (dm_config ?s) an fresh (hw_machine w) = (rep, m)"
      by (cases "repairer (dm_config ?s) an fresh (hw_machine w)")
    let ?rest = "map (\<lambda>i. (i, ''run'')) (List.map_filter (\<lambda>x. x)
        (take k (hw_repairing w) @ drop (k + 1) (hw_repairing w))) @ hw_waiting w @ hw_begun w"
    have all: "hw_repairing w = take k (hw_repairing w) @ ?slot # drop (k + 1) (hw_repairing w)"
      using k by (simp add: id_take_nth_drop)
    have "mset (tasks_of w) = mset (?own @ ?rest)"
      unfolding tasks_of_def by (subst all) (cases ?slot; simp add: map_filter_def)
    then have rest: "slots_ok (hook_names ?s) (?own @ ?rest)" using ok slots_ok_mset by blast
    have "mset (tasks_of w') = mset (?due @ ?rest)" "hook_names (daemon_of w') = hook_names ?s"
      using assms(1) FinishRepair k rep
      by (auto simp: tasks_of_def Let_def daemon_of_def put_daemon_def with_daemon_def)
    moreover have "slots_ok (hook_names ?s) (?due @ ?rest)"
      using rest slots_ok_sub [OF rest] handler_due_cases [of "dm_config ?s" ex "''run''" ?slot]
      by auto
    ultimately show ?thesis using ok(2) by (rule hook_log_invI)
  next
    case (BeginHandler k)
    then have k: "k < length (hw_waiting w)" using assms(1) by (auto split: if_splits)
    have "mset (tasks_of w') = mset (tasks_of w)" "hook_names (daemon_of w') = hook_names ?s"
      using assms(1) BeginHandler mset_remove_nth [OF k]
      by (auto simp: tasks_of_def daemon_of_def split: if_splits)
    then show ?thesis using ok by (rule hook_log_invI)
  next
    case (FinishHandler i)
    with assms(1) ok show ?thesis
      by (auto simp: hook_log_inv_def tasks_of_def daemon_of_def put_daemon_def with_daemon_def
          split: option.splits)
  next
    case AbandonHandler
    with assms(1) ok show ?thesis
      by (auto simp: hook_log_inv_def tasks_of_def daemon_of_def split: option.splits)
  next
    case (ControlAct a)
    then obtain r' y where y: "do_act a (hw_system w) = Some (r', y)" "w' = w\<lparr>hw_system := y\<rparr>"
      "\<And>t e i. a \<noteq> DoBootstrap t e i"
      using assms(1) by (auto split: act.splits)
    have "hook_names (daemon_of w') = hook_names ?s"
      using names_boot_part [OF boot_part_do_act [OF y(1,3)]] y(2) by (simp add: daemon_of_def)
    then show ?thesis using ok y(2) by (simp add: hook_log_inv_def tasks_of_def)
  qed
qed

section \<open>One repair, by the hook that won\<close>

definition repair_inv :: "(string + string) set \<Rightarrow> config \<Rightarrow> machine \<Rightarrow> hook_world \<Rightarrow> bool" where
  "repair_inv drawn cfg m0 w \<longleftrightarrow>
     (let d = daemon_of w in
      dm_config d = cfg \<and>
      hw_repairs w + length (hw_repairing w) = (if dm_token d = None then 0 else 1) \<and>
      (if hw_repairs w = 0 then dm_identity d = skipped \<and> hw_machine w = m0
       else \<exists>an fresh r. fresh \<in> drawn \<and> repairer cfg an fresh m0 = (r, hw_machine w) \<and>
         dm_identity d = (case r of None \<Rightarrow> skipped | Some rep \<Rightarrow> rep)))"

definition identity_part :: "hook_world \<Rightarrow> config \<times> bool \<times> report \<times> machine \<times> nat \<times> nat option list" where
  "identity_part w = (dm_config (daemon_of w), dm_token (daemon_of w) = None, dm_identity (daemon_of w),
     hw_machine w, hw_repairs w, hw_repairing w)"

lemma repair_inv_part: "identity_part w' = identity_part w \<Longrightarrow> repair_inv drawn cfg m0 w' = repair_inv drawn cfg m0 w"
  by (auto simp: repair_inv_def identity_part_def Let_def)

lemma repair_inv_init: "repair_inv drawn cfg m0 (init_world cfg img m0)"
  by (simp add: repair_inv_def init_world_def daemon_of_def init_system_def new_daemon_def Let_def)

lemma record_hook_identity_part:
  assumes "record_hook epoch hook (daemon_of w) = (slot, s)"
  shows "identity_part ((put_daemon s w)\<lparr>hw_waiting := ws\<rparr>) = identity_part w"
    and "identity_part (put_daemon s w) = identity_part w"
  using record_hook_part [OF assms]
  by (simp_all add: identity_part_def daemon_of_def put_daemon_def with_daemon_def)

lemma repair_inv_step:
  assumes "do_hook from_json b64 act w = Some (r, w')" and inv: "repair_inv drawn cfg m0 w"
    and from_drawn: "\<And>k an fresh ex. act = FinishRepair k an fresh ex \<Longrightarrow> fresh \<in> drawn"
  shows "repair_inv drawn cfg m0 w'"
proof -
  let ?s = "daemon_of w"
  show ?thesis
  proof (cases act)
    case (PostNotice n epoch ex)
    obtain slot s where rec: "record_hook epoch (notice_name n) ?s = (slot, s)"
      by (cases "record_hook epoch (notice_name n) ?s")
    have "identity_part w' = identity_part w"
      using assms(1) PostNotice rec record_hook_identity_part [OF rec]
      by (auto simp: notice_hook_def Let_def)
    then show ?thesis using inv repair_inv_part by blast
  next
    case (PostRun epoch body)
    obtain slot s1 where rec: "record_hook epoch ''run'' ?s = (slot, s1)"
      by (cases "record_hook epoch ''run'' ?s")
    note part = record_hook_part [OF rec]
    consider (answer) st where "run_arrive from_json b64 epoch body ?s = (Answer st, s1)"
      | (won) t e m where "dm_token ?s = None"
          "run_arrive from_json b64 epoch body ?s
           = (Won slot, s1\<lparr>dm_token := Some t, dm_launch_env := e, dm_tunnel_identity := m\<rparr>)"
      unfolding run_arrive_delivered [OF rec]
      by (cases "delivered from_json b64 body"; cases "dm_token ?s") (auto split: prod.splits)
    then show ?thesis
    proof cases
      case answer
      then have "w' = put_daemon s1 w" using assms(1) PostRun by simp
      then show ?thesis using inv repair_inv_part record_hook_identity_part(2) [OF rec] by blast
    next
      case won
      then show ?thesis
        using assms(1) PostRun inv part
        by (auto simp: repair_inv_def Let_def daemon_of_def put_daemon_def with_daemon_def)
    qed
  next
    case (BodyRefused name epoch t)
    obtain slot s1 where rec: "record_hook epoch name ?s = (slot, s1)"
      by (cases "record_hook epoch name ?s")
    with assms(1) BodyRefused have "w' = put_daemon s1 w" by simp
    then show ?thesis using inv repair_inv_part record_hook_identity_part(2) [OF rec] by blast
  next
    case (FinishRepair k an fresh ex)
    then have k: "k < length (hw_repairing w)" using assms(1) by (auto split: if_splits)
    then have one: "hw_repairs w = 0" "length (hw_repairing w) = 1" "k = 0" "dm_token ?s \<noteq> None"
      using inv by (auto simp: repair_inv_def Let_def split: if_splits)
    obtain rep m where rep: "repairer cfg an fresh m0 = (rep, m)"
      by (cases "repairer cfg an fresh m0")
    have c: "dm_config ?s = cfg" "dm_identity ?s = skipped" "hw_machine w = m0"
      using inv one(1) by (simp_all add: repair_inv_def Let_def)
    have w': "daemon_of w' = repair_identity rep ?s" "hw_machine w' = m" "hw_repairs w' = 1"
      "hw_repairing w' = []"
      using assms(1) FinishRepair k rep c one
      by (auto simp: Let_def daemon_of_def put_daemon_def with_daemon_def)
    have "dm_identity (repair_identity rep ?s) = (case rep of None \<Rightarrow> skipped | Some x \<Rightarrow> x)"
      using c(2) by (simp add: repair_identity_def split: option.split)
    then show ?thesis using w' rep c one(4) from_drawn [OF FinishRepair] by (auto simp: repair_inv_def)
  next
    case (BeginHandler k)
    with assms(1) have "identity_part w' = identity_part w"
      by (auto simp: identity_part_def daemon_of_def split: if_splits)
    then show ?thesis using inv repair_inv_part by blast
  next
    case (FinishHandler i)
    with assms(1) have "identity_part w' = identity_part w"
      by (auto simp: identity_part_def daemon_of_def put_daemon_def with_daemon_def split: option.splits)
    then show ?thesis using inv repair_inv_part by blast
  next
    case AbandonHandler
    with assms(1) have "identity_part w' = identity_part w"
      by (auto simp: identity_part_def daemon_of_def split: option.splits)
    then show ?thesis using inv repair_inv_part by blast
  next
    case (ControlAct a)
    then obtain r' y where y: "do_act a (hw_system w) = Some (r', y)" "w' = w\<lparr>hw_system := y\<rparr>"
      "\<And>t e i. a \<noteq> DoBootstrap t e i"
      using assms(1) by (auto split: act.splits)
    have "identity_part w' = identity_part w"
      using boot_part_do_act [OF y(1,3)] y(2) by (simp add: identity_part_def daemon_of_def boot_part_def)
    then show ?thesis using inv repair_inv_part by blast
  qed
qed

lemma hook_runs_inv:
  assumes "hook_runs from_json b64 (init_world cfg img m0) w"
  shows "hook_log_inv w \<and> repair_inv UNIV cfg m0 w"
  using assms
  by (induction rule: hook_runs.induct)
    (auto simp: hook_log_inv_init repair_inv_init intro: hook_log_inv_step repair_inv_step)

text \<open>The same runs with their acts, and the ids their repairs drew.\<close>

inductive hook_trace ::
  "(string \<Rightarrow> json option) \<Rightarrow> (string \<Rightarrow> bytes option) \<Rightarrow> hook_world \<Rightarrow> hook_act list \<Rightarrow> hook_world \<Rightarrow> bool"
  for from_json b64 w0 where
  hook_trace_nil: "hook_trace from_json b64 w0 [] w0"
| hook_trace_snoc: "hook_trace from_json b64 w0 acts w \<Longrightarrow> do_hook from_json b64 act w = Some (r, w') \<Longrightarrow>
     hook_trace from_json b64 w0 (acts @ [act]) w'"

definition drawn_ids :: "hook_act list \<Rightarrow> string list" where
  "drawn_ids acts = [i. FinishRepair k an (Inr i) ex \<leftarrow> acts]"

definition draws :: "hook_act list \<Rightarrow> (string + string) set" where
  "draws acts = {fresh. \<exists>k an ex. FinishRepair k an fresh ex \<in> set acts}"

lemma drawn_ids_draws: "i \<in> set (drawn_ids acts) \<longleftrightarrow> Inr i \<in> draws acts"
proof
  show "i \<in> set (drawn_ids acts) \<Longrightarrow> Inr i \<in> draws acts"
    by (auto simp: drawn_ids_def draws_def split: hook_act.splits sum.splits)
  assume "Inr i \<in> draws acts"
  then obtain k an ex where "FinishRepair k an (Inr i) ex \<in> set acts" by (auto simp: draws_def)
  then show "i \<in> set (drawn_ids acts)"
    by (auto simp: drawn_ids_def intro!: bexI [of _ "FinishRepair k an (Inr i) ex"])
qed

lemma repair_inv_mono: "repair_inv D cfg m0 w \<Longrightarrow> D \<subseteq> D' \<Longrightarrow> repair_inv D' cfg m0 w"
  by (auto simp: repair_inv_def Let_def split: if_splits)

lemma hook_trace_inv:
  assumes "hook_trace from_json b64 (init_world cfg img m0) acts w"
  shows "repair_inv (draws acts) cfg m0 w"
  using assms
proof (induction rule: hook_trace.induct)
  case hook_trace_nil
  show ?case by (rule repair_inv_init)
next
  case (hook_trace_snoc acts w act r w')
  have "draws acts \<subseteq> draws (acts @ [act])" by (auto simp: draws_def)
  with hook_trace_snoc.IH have "repair_inv (draws (acts @ [act])) cfg m0 w" by (rule repair_inv_mono)
  with hook_trace_snoc.hyps(2) show ?case by (rule repair_inv_step) (auto simp: draws_def)
qed

section \<open>Health\<close>

record disk_health =
  dh_available :: nat
  dh_reserve :: nat
  dh_under_pressure :: bool

record health_report =
  he_bootstrapped :: bool
  he_disk :: "disk_health option"
  he_identity_degraded :: bool
  he_identity_repaired :: bool
  he_identity_steps :: "repair_step list"
  he_image_env_keys :: "nat option"
  he_busy :: bool
  he_execs :: nat
  he_hooks :: "hook_observation list"
  he_hooks_dropped :: nat

text \<open>The reading of the guard on the working directory, and which terminal slots are locked.\<close>

definition health :: "reading option \<Rightarrow> (nat \<Rightarrow> bool) \<Rightarrow> 'm daemon \<Rightarrow> health_report" where
  "health disk locked s =
     (let (busy, execs) = activity locked s; (hooks, dropped) = hook_report s; rep = dm_identity s
      in \<lparr>he_bootstrapped = is_bootstrapped s,
          he_disk = map_option (\<lambda>r. \<lparr>dh_available = rd_available r, dh_reserve = rd_reserve r,
            dh_under_pressure = under_pressure r\<rparr>) disk,
          he_identity_degraded = degraded rep, he_identity_repaired = rp_attempted rep,
          he_identity_steps = rp_steps rep,
          he_image_env_keys = map_option (\<lambda>e. card (dom e)) (dm_image_env s),
          he_busy = busy, he_execs = execs, he_hooks = hooks, he_hooks_dropped = dropped\<rparr>)"

lemma health_identity [simp]:
  "he_identity_repaired (health disk locked s) = rp_attempted (dm_identity s)"
  "he_identity_degraded (health disk locked s) = degraded (dm_identity s)"
  "he_bootstrapped (health disk locked s) = is_bootstrapped s"
  by (simp_all add: health_def Let_def split: prod.split)

section \<open>Properties\<close>

text \<open>
  A daemon after a hook request has been logged: one more entry, or one more dropped at the cap;
  and the slot of the entry.
\<close>

definition logged :: "nat \<Rightarrow> string \<Rightarrow> 'm daemon \<Rightarrow> 'm daemon" where
  "logged epoch hook s = s\<lparr>dm_hooks :=
     (if length (hl_observed (dm_hooks s)) < HOOK_LOG_CAP
      then \<lparr>hl_observed = hl_observed (dm_hooks s) @ [\<lparr>hk_hook = hook, hk_fired_at = epoch, hk_handler = None\<rparr>],
            hl_dropped = hl_dropped (dm_hooks s)\<rparr>
      else \<lparr>hl_observed = hl_observed (dm_hooks s), hl_dropped = saturating_add64 (hl_dropped (dm_hooks s)) 1\<rparr>)\<rparr>"

definition log_slot :: "'m daemon \<Rightarrow> nat option" where
  "log_slot s = (if length (hl_observed (dm_hooks s)) < HOOK_LOG_CAP
     then Some (length (hl_observed (dm_hooks s))) else None)"

lemma record_hook_logged: "record_hook epoch hook s = (log_slot s, logged epoch hook s)"
  by (simp add: record_hook_def logged_def log_slot_def Let_def)

lemma delivered_token: "delivered from_json b64 body = Some (t, e, m) \<Longrightarrow> t \<noteq> []"
  by (auto simp: delivered_def as_bytes_def parse_def parse_value_def bind_r_Inr
      split: option.splits sum.splits if_splits)

lemma finish_repair_answers:
  assumes "do_hook from_json b64 (FinishRepair k an fresh ex) w = Some (r, w')"
  shows "daemon_of w' = (daemon_of w)\<lparr>dm_identity := dm_identity (daemon_of w')\<rparr> \<and>
    (r = Some 200 \<and> hw_waiting w' = hw_waiting w \<or>
     r = None \<and> (\<exists>i. hw_repairing w ! k = Some i \<and> hw_waiting w' = hw_waiting w @ [(i, ''run'')]))"
proof -
  let ?s = "daemon_of w"
  obtain rep m where rep: "repairer (dm_config ?s) an fresh (hw_machine w) = (rep, m)"
    by (cases "repairer (dm_config ?s) an fresh (hw_machine w)")
  have id: "repair_identity rep ?s = ?s\<lparr>dm_identity := dm_identity (repair_identity rep ?s)\<rparr>"
    by (simp add: repair_identity_def split: option.split)
  have d: "daemon_of w' = repair_identity rep ?s"
    using assms rep by (auto simp: Let_def daemon_of_def put_daemon_def with_daemon_def split: if_splits)
  show ?thesis
    using assms rep id handler_due_cases [of "dm_config ?s" ex "''run''" "hw_repairing w ! k"]
    unfolding d by (auto simp: Let_def split: if_splits)
qed

text \<open>
  C15: The run hook installs a whole payload or changes nothing but the log. Every request is
  logged, as the next entry or as one more dropped, and that is all a refused one does to the
  daemon: 400 for a malformed payload, 200 for the installed token and 409 for any other. It wins
  exactly on a daemon without a token, with a well-formed payload; then token (not empty), launch
  environment and tunnel identity are that payload's and nothing else but the log changes, and
  its answer is held back: the repair changes nothing of the daemon but the identity report and
  answers 200, or leaves the entry to its handler, whose end answers 200.
\<close>
theorem run_hook_installs_or_leaves:
  "do_hook from_json b64 (PostRun epoch body) w =
     (let s = daemon_of w; s1 = logged epoch ''run'' s
      in case delivered from_json b64 body of
           None \<Rightarrow> Some (Some 400, put_daemon s1 w)
         | Some (t, e, m) \<Rightarrow>
             (case dm_token s of
                Some t' \<Rightarrow> Some (Some (if t' = t then 200 else 409), put_daemon s1 w)
              | None \<Rightarrow>
                  Some (None, (put_daemon (s1\<lparr>dm_token := Some t, dm_launch_env := e,
                          dm_tunnel_identity := m\<rparr>) w)\<lparr>hw_repairing := hw_repairing w @ [log_slot s]\<rparr>))) \<and>
   (\<forall>t e m. delivered from_json b64 body = Some (t, e, m) \<longrightarrow> t \<noteq> []) \<and>
   (\<forall>k an fresh ex u r u'. do_hook from_json b64 (FinishRepair k an fresh ex) u = Some (r, u') \<longrightarrow>
      daemon_of u' = (daemon_of u)\<lparr>dm_identity := dm_identity (daemon_of u')\<rparr> \<and>
      (r = Some 200 \<and> hw_waiting u' = hw_waiting u \<or>
       r = None \<and> (\<exists>i. hw_repairing u ! k = Some i \<and> hw_waiting u' = hw_waiting u @ [(i, ''run'')]))) \<and>
   (\<forall>i u r u'. do_hook from_json b64 (FinishHandler i) u = Some (r, u') \<longrightarrow> r = Some 200)"
proof (intro conjI allI impI)
  show "do_hook from_json b64 (PostRun epoch body) w =
     (let s = daemon_of w; s1 = logged epoch ''run'' s
      in case delivered from_json b64 body of
           None \<Rightarrow> Some (Some 400, put_daemon s1 w)
         | Some (t, e, m) \<Rightarrow>
             (case dm_token s of
                Some t' \<Rightarrow> Some (Some (if t' = t then 200 else 409), put_daemon s1 w)
              | None \<Rightarrow>
                  Some (None, (put_daemon (s1\<lparr>dm_token := Some t, dm_launch_env := e,
                          dm_tunnel_identity := m\<rparr>) w)\<lparr>hw_repairing := hw_repairing w @ [log_slot s]\<rparr>)))"
    using run_arrive_delivered [OF record_hook_logged, of from_json b64 epoch body "daemon_of w"]
    by (simp add: Let_def split: option.split prod.split)
  show "t \<noteq> []" if "delivered from_json b64 body = Some (t, e, m)" for t e m
    using that by (rule delivered_token)
next
  fix k an fresh ex u r u'
  assume fin: "do_hook from_json b64 (FinishRepair k an fresh ex) u = Some (r, u')"
  show "daemon_of u' = (daemon_of u)\<lparr>dm_identity := dm_identity (daemon_of u')\<rparr>"
    "r = Some 200 \<and> hw_waiting u' = hw_waiting u \<or>
       r = None \<and> (\<exists>i. hw_repairing u ! k = Some i \<and> hw_waiting u' = hw_waiting u @ [(i, ''run'')])"
    using finish_repair_answers [OF fin] by blast+
next
  show "r = Some 200" if "do_hook from_json b64 (FinishHandler i) u = Some (r, u')" for i u r u'
    using that by (auto split: option.splits)
qed

text \<open>
  However many hook requests arrive, from whomever, interleaved with anything the control API
  does, at most 64 handlers ever begin, each one of the four known hooks and each for a request of
  its own in the log, and the identity is repaired at most once, by the hook that installed the
  token.
\<close>
theorem hook_requests_bounded:
  assumes "hook_runs from_json b64 (init_world cfg img m0) w"
  shows "length (hw_begun w) \<le> HOOK_LOG_CAP \<and> distinct (map fst (hw_begun w)) \<and>
    (\<forall>(i, n) \<in> set (hw_begun w). n \<in> set HOOK_NAMES \<and>
       i < length (hl_observed (dm_hooks (daemon_of w))) \<and>
       hk_hook (hl_observed (dm_hooks (daemon_of w)) ! i) = n) \<and>
    hw_repairs w \<le> 1 \<and> (hw_repairs w = 1 \<longrightarrow> dm_token (daemon_of w) \<noteq> None)"
proof -
  from hook_runs_inv [OF assms] have li: "hook_log_inv w" and ri: "repair_inv UNIV cfg m0 w" by blast+
  from li have ok: "slots_ok (hook_names (daemon_of w)) (hw_begun w)"
    and cap: "length (hook_names (daemon_of w)) \<le> HOOK_LOG_CAP"
    using slots_ok_sub [of _ "_ @ hw_waiting w" "hw_begun w"] by (auto simp: hook_log_inv_def tasks_of_def)
  have d: "distinct (map fst (hw_begun w))" using ok by (simp add: slots_ok_def)
  have "set (map fst (hw_begun w)) \<subseteq> {..<length (hook_names (daemon_of w))}"
    using ok by (auto simp: slots_ok_def)
  then have "card (set (map fst (hw_begun w))) \<le> length (hook_names (daemon_of w))"
    using card_mono [of "{..<length (hook_names (daemon_of w))}"] by fastforce
  then have "length (hw_begun w) \<le> HOOK_LOG_CAP"
    using distinct_card [OF d] cap by simp
  moreover have "\<forall>(i, n) \<in> set (hw_begun w). n \<in> set HOOK_NAMES \<and>
       i < length (hl_observed (dm_hooks (daemon_of w))) \<and>
       hk_hook (hl_observed (dm_hooks (daemon_of w)) ! i) = n"
    using ok by (auto simp: slots_ok_def hook_names_def)
  moreover have "hw_repairs w \<le> 1 \<and> (hw_repairs w = 1 \<longrightarrow> dm_token (daemon_of w) \<noteq> None)"
    using ri by (auto simp: repair_inv_def Let_def split: if_splits)
  ultimately show ?thesis using d by blast
qed

text \<open>A suspend hook on a fresh daemon whose image carries every handler; its handler begins.\<close>

definition no_json :: "string \<Rightarrow> json option" where
  "no_json raw = None"

definition no_b64 :: "string \<Rightarrow> bytes option" where
  "no_b64 raw = None"

definition suspended_world :: hook_world where
  "suspended_world =
     (let w = init_world default_config None image_machine; w1 = snd (notice_hook Suspend 5 (\<lambda>p. True) w)
      in w1\<lparr>hw_running := Some (0, ''suspend''), hw_begun := [(0, ''suspend'')], hw_waiting := []\<rparr>)"

lemma suspended_world_runs: "hook_runs no_json no_b64 (init_world default_config None image_machine) suspended_world"
proof -
  let ?w = "init_world default_config None image_machine"
  let ?w1 = "snd (notice_hook Suspend 5 (\<lambda>p. True) ?w)"
  have a: "do_hook no_json no_b64 (PostNotice Suspend 5 (\<lambda>p. True)) ?w
      = Some (fst (notice_hook Suspend 5 (\<lambda>p. True) ?w), ?w1)" by simp
  have wt: "hw_waiting ?w1 = [(0, ''suspend'')]" "hw_running ?w1 = None" "hw_begun ?w1 = []"
    by (simp_all add: notice_hook_def record_hook_def Let_def init_world_def daemon_of_def init_system_def
        new_daemon_def put_daemon_def HOOK_LOG_CAP_def handler_due_def HOOK_NAMES_def)
  have b: "do_hook no_json no_b64 (BeginHandler 0) ?w1 = Some (None, suspended_world)"
    by (simp add: wt suspended_world_def Let_def)
  show ?thesis
    by (rule hook_runs_step [OF hook_runs_step [OF hook_runs_refl a] b])
qed

theorem hook_requests_bounded_witness:
  "hook_runs no_json no_b64 (init_world default_config None image_machine) suspended_world \<and>
   length (hw_begun suspended_world) = 1 \<and>
   hk_hook (hl_observed (dm_hooks (daemon_of suspended_world)) ! 0) = ''suspend''"
proof -
  have b: "hw_begun suspended_world = [(0, ''suspend'')]" by (simp add: suspended_world_def Let_def)
  from hook_requests_bounded [OF suspended_world_runs] b suspended_world_runs show ?thesis by simp
qed

text \<open>A draw of 32 characters whose ids are not the image's.\<close>

definition unlike_image :: "machine \<Rightarrow> string \<Rightarrow> bool" where
  "unlike_image m0 i \<longleftrightarrow> length i = 32 \<and>
     map_option fst (file_at m0 ''/etc/machine-id'') \<noteq> Some (i @ [LF]) \<and>
     map_option fst (file_at m0 ''/proc/sys/kernel/random/boot_id'') \<noteq> Some (dashed i @ [LF])"

text \<open>
  C16: Health tells the truth about the identity. Whatever requests a daemon has served since it
  was restored onto a machine with none of the repaired paths mounted over, when its health report
  says the identity was repaired and not degraded, the daemon is bootstrapped and the repair left
  on its machine, as a reader sees the files, the machine id one of its repairs drew, the hostname
  derived from that id, a boot id (where there is one) that is the same id, and neither the image's
  random seed nor its D-Bus id. Where the kernel's generator draws no id the image holds, neither
  the machine id nor the boot id is the image's. The machine is as the repair left it; what the
  workload's own processes do to its files is not in the model.
\<close>
theorem health_identity_truthful:
  assumes "hook_trace from_json b64 (init_world cfg img m0) acts w" and "unmounted default_layout m0"
    and "he_identity_repaired (health disk locked (daemon_of w))"
    and "\<not> he_identity_degraded (health disk locked (daemon_of w))"
  shows "he_bootstrapped (health disk locked (daemon_of w)) \<and> cf_repair_identity cfg \<and>
    (\<exists>i. i \<in> set (drawn_ids acts) \<and>
      file_at (hw_machine w) ''/etc/machine-id'' = Some (i @ [LF], 292) \<and>
      hs_hostname (hw_machine w) = ''microvm-'' @ take 12 i \<and>
      (file_at m0 ''/proc/sys/kernel/random/boot_id'' = None \<or>
        (\<exists>m. file_at (hw_machine w) ''/proc/sys/kernel/random/boot_id'' = Some (dashed i @ [LF], m))) \<and>
      file_at (hw_machine w) ''/var/lib/systemd/random-seed'' = None \<and>
      file_at (hw_machine w) ''/var/lib/dbus/machine-id'' = None) \<and>
    ((\<forall>i \<in> set (drawn_ids acts). unlike_image m0 i) \<longrightarrow>
      map_option fst (file_at (hw_machine w) ''/etc/machine-id'')
        \<noteq> map_option fst (file_at m0 ''/etc/machine-id'') \<and>
      (file_at m0 ''/proc/sys/kernel/random/boot_id'' = None \<or>
        map_option fst (file_at (hw_machine w) ''/proc/sys/kernel/random/boot_id'')
          \<noteq> map_option fst (file_at m0 ''/proc/sys/kernel/random/boot_id'')))"
proof -
  have ri: "repair_inv (draws acts) cfg m0 w" using hook_trace_inv [OF assms(1)] .
  have at: "rp_attempted (dm_identity (daemon_of w))" "\<not> degraded (dm_identity (daemon_of w))"
    using assms(3,4) by simp_all
  then have ns: "dm_identity (daemon_of w) \<noteq> skipped" by (auto simp: skipped_def)
  have n: "hw_repairs w \<noteq> 0"
  proof
    assume "hw_repairs w = 0"
    with ri have "dm_identity (daemon_of w) = skipped" by (simp add: repair_inv_def Let_def)
    with ns show False by contradiction
  qed
  then obtain an fresh r where r: "fresh \<in> draws acts" "repairer cfg an fresh m0 = (r, hw_machine w)"
    "dm_identity (daemon_of w) = (case r of None \<Rightarrow> skipped | Some rep \<Rightarrow> rep)"
    using ri by (simp add: repair_inv_def Let_def) blast
  obtain rep where rep: "r = Some rep" "dm_identity (daemon_of w) = rep"
    using r(3) at(1) by (cases r) (auto simp: skipped_def)
  have cfg: "cf_repair_identity cfg"
    using r(2) rep ns by (auto simp: repairer_def split: if_splits)
  then have run: "repair default_layout an fresh m0 = (Some rep, hw_machine w)"
    using r(2) rep(1) by (simp add: repairer_def)
  have boot: "dm_token (daemon_of w) \<noteq> None" using ri n by (auto simp: repair_inv_def Let_def split: if_splits)
  obtain i where i: "fresh = Inr i" "file_at (hw_machine w) ''/etc/machine-id'' = Some (i @ [LF], 292)"
    "hs_hostname (hw_machine w) = ''microvm-'' @ take 12 i"
    "file_at m0 ''/proc/sys/kernel/random/boot_id'' = None \<or>
      (\<exists>m. file_at (hw_machine w) ''/proc/sys/kernel/random/boot_id'' = Some (dashed i @ [LF], m))"
    "file_at (hw_machine w) ''/var/lib/systemd/random-seed'' = None"
    "file_at (hw_machine w) ''/var/lib/dbus/machine-id'' = None"
    using repaired_truthful [OF run at(2) [unfolded rep(2)] assms(2) default_layout_distinct]
    by (auto simp: default_layout_def)
  have drawn: "i \<in> set (drawn_ids acts)" using r(1) i(1) by (simp add: drawn_ids_draws)
  have own: "map_option fst (file_at (hw_machine w) ''/etc/machine-id'') = Some (i @ [LF])"
    "file_at m0 ''/proc/sys/kernel/random/boot_id'' = None \<or>
      map_option fst (file_at (hw_machine w) ''/proc/sys/kernel/random/boot_id'') = Some (dashed i @ [LF])"
    using i(2,4) by auto
  have unlike: "(\<forall>i \<in> set (drawn_ids acts). unlike_image m0 i) \<longrightarrow>
      map_option fst (file_at (hw_machine w) ''/etc/machine-id'')
        \<noteq> map_option fst (file_at m0 ''/etc/machine-id'') \<and>
      (file_at m0 ''/proc/sys/kernel/random/boot_id'' = None \<or>
        map_option fst (file_at (hw_machine w) ''/proc/sys/kernel/random/boot_id'')
          \<noteq> map_option fst (file_at m0 ''/proc/sys/kernel/random/boot_id''))"
    using own drawn unfolding unlike_image_def by metis
  show ?thesis
    by (intro conjI unlike exI [of _ i] drawn i(2-) cfg) (use boot in \<open>simp add: is_bootstrapped_def\<close>)
qed

text \<open>A launch: a payload with a token, then a repair the kernel refuses nothing of.\<close>

definition token_json :: "string \<Rightarrow> json option" where
  "token_json raw = Some (JObject [(''agent_token'', JString raw)])"

theorem health_identity_truthful_witness:
  "\<exists>w acts. hook_trace token_json no_b64 (init_world default_config None image_machine) acts w \<and>
     drawn_ids acts = [sample_id CHR ''a''] \<and>
     he_identity_repaired (health None (\<lambda>a. False) (daemon_of w)) \<and>
     file_at (hw_machine w) ''/etc/machine-id'' = Some (sample_id CHR ''a'' @ [LF], 292)"
proof -
  let ?w = "init_world default_config None image_machine"
  let ?id = "sample_id CHR ''a''"
  let ?run = "PostRun 5 (Some (Some ''tok''))" and ?fin = "FinishRepair 0 willing (Inr ?id) (\<lambda>p. False)"
  obtain rep m where rep: "repair default_layout willing (Inr ?id) image_machine = (Some rep, m)"
    "\<not> degraded rep" using sample_repair by blast
  have att: "rp_attempted rep" using repair_reports [of "Inr ?id" default_layout willing image_machine] rep
    by (auto simp: sample_id_def)
  have "\<exists>s. run_arrive token_json no_b64 5 (Some (Some ''tok'')) (daemon_of ?w) = (Won (Some 0), s) \<and>
      dm_config s = default_config"
    by (simp add: run_arrive_def record_hook_def Let_def init_world_def daemon_of_def init_system_def
        new_daemon_def HOOK_LOG_CAP_def parse_def parse_value_def token_json_def parse_env_def
        identity_value_def SEED_KEY_def HOST_PUBLIC_KEY_KEY_def from_payload_def
        bootstrap_with_identity_def)
  then obtain s where s: "run_arrive token_json no_b64 5 (Some (Some ''tok'')) (daemon_of ?w) = (Won (Some 0), s)"
    "dm_config s = default_config" by blast
  let ?w1 = "(put_daemon s ?w)\<lparr>hw_repairing := [Some 0]\<rparr>"
  have a: "do_hook token_json no_b64 ?run ?w = Some (None, ?w1)"
    by (simp add: s(1)) (simp add: init_world_def)
  have d1: "daemon_of ?w1 = s" "hw_machine ?w1 = image_machine" "hw_repairing ?w1 = [Some 0]"
    by (simp_all add: daemon_of_def put_daemon_def with_daemon_def init_world_def)
  have cfg: "cf_repair_identity default_config" by (simp add: default_config_def)
  obtain r2 w2 where b: "do_hook token_json no_b64 ?fin ?w1 = Some (r2, w2)"
    "hw_machine w2 = m" "dm_identity (daemon_of w2) = rep"
    by (simp add: d1 s(2) repairer_def cfg rep(1) Let_def del: put_daemon_fields)
      (simp add: daemon_of_def put_daemon_def with_daemon_def repair_identity_def)
  have trace: "hook_trace token_json no_b64 ?w ([] @ [?run] @ [?fin]) w2"
    using hook_trace_snoc [OF hook_trace_snoc [OF hook_trace_nil a] b(1)] by simp
  have um: "unmounted default_layout image_machine"
    by (rule no_mounts_unmounted) (simp add: image_machine_def)
  have ids: "drawn_ids ([] @ [?run] @ [?fin]) = [?id]" by (simp add: drawn_ids_def)
  have health: "he_identity_repaired (health None (\<lambda>a. False) (daemon_of w2))"
    "\<not> he_identity_degraded (health None (\<lambda>a. False) (daemon_of w2))"
    using att rep(2) b(3) by simp_all
  from health_identity_truthful [OF trace um health, unfolded ids]
  have "file_at (hw_machine w2) ''/etc/machine-id'' = Some (?id @ [LF], 292)" by simp
  with trace ids health(1) show ?thesis by blast
qed

theorem run_hook_installs_or_leaves_witness:
  "\<exists>w'. do_hook token_json no_b64 (PostRun 5 (Some (Some ''tok''))) (init_world default_config None image_machine)
      = Some (None, w') \<and>
    dm_token (daemon_of w') = Some (as_bytes ''tok'') \<and> as_bytes ''tok'' \<noteq> [] \<and> hw_repairing w' = [Some 0]"
proof -
  let ?w = "init_world default_config None image_machine" and ?body = "Some (Some ''tok'')"
  obtain e m where d: "delivered token_json no_b64 ?body = Some (as_bytes ''tok'', e, m)"
    by (simp add: delivered_def parse_def parse_value_def token_json_def parse_env_def
        identity_value_def SEED_KEY_def HOST_PUBLIC_KEY_KEY_def from_payload_def)
  have fresh: "dm_token (daemon_of ?w) = None" "hw_repairing ?w = []" "log_slot (daemon_of ?w) = Some 0"
    by (simp_all add: init_world_def daemon_of_def init_system_def new_daemon_def log_slot_def HOOK_LOG_CAP_def)
  note R = run_hook_installs_or_leaves [of token_json no_b64 5 ?body ?w]
  have "as_bytes ''tok'' \<noteq> []" using R d by blast
  moreover obtain w' where "do_hook token_json no_b64 (PostRun 5 ?body) ?w = Some (None, w')"
    "w' = (put_daemon ((logged 5 ''run'' (daemon_of ?w))\<lparr>dm_token := Some (as_bytes ''tok''), dm_launch_env := e,
        dm_tunnel_identity := m\<rparr>) ?w)\<lparr>hw_repairing := [Some 0]\<rparr>"
    using conjunct1 [OF R] d fresh by (simp add: Let_def)
  ultimately show ?thesis
    by (intro exI [of _ w']) (simp add: daemon_of_def put_daemon_def with_daemon_def)
qed

end
