(* ===== verification/RouteSurface.thy ===== *)
theory RouteSurface
  imports AppState
begin

text \<open>
  The router of \<open>crates/agentd/src/routes.rs\<close>: the documented surface, the handler of each
  row, and what stands between a request and its handler. Path matching is the router's
  documented behaviour: a literal path wins over one with a parameter, a path served under
  another method is 405, any other path is 404, and the guard runs only for a matched route.
\<close>

datatype route_auth = Bearer | Open | PlatformHook

record endpoint =
  ep_method :: string
  ep_path :: string
  ep_auth :: route_auth

definition HOOK_PREFIX :: string where
  "HOOK_PREFIX = ''/aws/lambda-microvms/runtime/v1''"

definition hook_path :: "string \<Rightarrow> string" where
  "hook_path hook = HOOK_PREFIX @ ''/'' @ hook"

definition surface_docs :: "endpoint list" where
  "surface_docs = map (\<lambda>(m, p, a). \<lparr>ep_method = m, ep_path = p, ep_auth = a\<rparr>)
     [(''POST'', hook_path ''ready'', PlatformHook),
      (''POST'', hook_path ''validate'', PlatformHook),
      (''POST'', hook_path ''run'', PlatformHook),
      (''POST'', hook_path ''suspend'', PlatformHook),
      (''POST'', hook_path ''resume'', PlatformHook),
      (''POST'', hook_path ''terminate'', PlatformHook),
      (''POST'', ''/v1/exec/start'', Bearer),
      (''GET'', ''/v1/exec/{id}'', Bearer),
      (''GET'', ''/v1/exec/{id}/stream'', Bearer),
      (''POST'', ''/v1/exec/{id}/stdin'', Bearer),
      (''POST'', ''/v1/exec/{id}/ack'', Bearer),
      (''POST'', ''/v1/exec/{id}/kill'', Bearer),
      (''GET'', ''/v1/procs'', Bearer),
      (''GET'', ''/v1/tcp'', Bearer),
      (''GET'', ''/v1/fs/file'', Bearer),
      (''PUT'', ''/v1/fs/file'', Bearer),
      (''GET'', ''/v1/fs/tar'', Bearer),
      (''PUT'', ''/v1/fs/tar'', Bearer),
      (''GET'', ''/v1/discovery'', Bearer),
      (''GET'', ''/v1/health'', Open),
      (''GET'', ''/v1/schema'', Open)]"

datatype route_handler =
    ReadyHook | ValidateHook | RunHook | SuspendHook | ResumeHook | TerminateHook
  | ExecStart | ExecPoll | ExecStream | ExecStdin | ExecAck | ExecKill | Procs
  | ReadFile | WriteFile | ReadTar | WriteTar | TunnelOpen | Health | Discovery | Schema

text \<open>\<open>handler_for\<close>; \<open>None\<close> is its panic on a row with no handler.\<close>

definition handler_for :: "endpoint \<Rightarrow> route_handler option" where
  "handler_for e =
     (let m = ep_method e; p = ep_path e in
      if m = ''POST'' \<and> p = hook_path ''ready'' then Some ReadyHook
      else if m = ''POST'' \<and> p = hook_path ''validate'' then Some ValidateHook
      else if m = ''POST'' \<and> p = hook_path ''run'' then Some RunHook
      else if m = ''POST'' \<and> p = hook_path ''suspend'' then Some SuspendHook
      else if m = ''POST'' \<and> p = hook_path ''resume'' then Some ResumeHook
      else if m = ''POST'' \<and> p = hook_path ''terminate'' then Some TerminateHook
      else map_of
        [((''POST'', ''/v1/exec/start''), ExecStart), ((''GET'', ''/v1/exec/{id}''), ExecPoll),
         ((''GET'', ''/v1/exec/{id}/stream''), ExecStream), ((''POST'', ''/v1/exec/{id}/stdin''), ExecStdin),
         ((''POST'', ''/v1/exec/{id}/ack''), ExecAck), ((''POST'', ''/v1/exec/{id}/kill''), ExecKill),
         ((''GET'', ''/v1/procs''), Procs), ((''GET'', ''/v1/fs/file''), ReadFile),
         ((''PUT'', ''/v1/fs/file''), WriteFile), ((''GET'', ''/v1/fs/tar''), ReadTar),
         ((''PUT'', ''/v1/fs/tar''), WriteTar), ((''GET'', ''/v1/tcp''), TunnelOpen),
         ((''GET'', ''/v1/health''), Health), ((''GET'', ''/v1/discovery''), Discovery),
         ((''GET'', ''/v1/schema''), Schema)] (m, p))"

section \<open>Serving a request\<close>

definition segment_matches :: "string \<Rightarrow> string \<Rightarrow> bool" where
  "segment_matches pat seg \<longleftrightarrow> (if pat = ''{id}'' then seg \<noteq> [] else pat = seg)"

definition path_matches :: "string \<Rightarrow> string \<Rightarrow> bool" where
  "path_matches pat path =
     list_all2 segment_matches (split_on CHR ''/'' pat) (split_on CHR ''/'' path)"

definition rows_at :: "string \<Rightarrow> endpoint list" where
  "rows_at path =
     (let exact = filter (\<lambda>e. ep_path e = path) surface_docs
      in if exact \<noteq> [] then exact else filter (\<lambda>e. path_matches (ep_path e) path) surface_docs)"

text \<open>A \<open>GET\<close> route answers \<open>HEAD\<close> too.\<close>

definition method_ok :: "string \<Rightarrow> endpoint \<Rightarrow> bool" where
  "method_ok m e \<longleftrightarrow> ep_method e = m \<or> m = ''HEAD'' \<and> ep_method e = ''GET''"

datatype served = NotFound | MethodNotAllowed | Refused nat | Panics | Handled route_handler

definition serve :: "string \<Rightarrow> string \<Rightarrow> bytes option \<Rightarrow> 'm daemon \<Rightarrow> served" where
  "serve m path header s =
     (if rows_at path = [] then NotFound
      else
        (case find (method_ok m) (rows_at path) of
           None \<Rightarrow> MethodNotAllowed
         | Some e \<Rightarrow>
             (case (if ep_auth e = Bearer then auth_verdict header s else None) of
                Some status \<Rightarrow> Refused status
              | None \<Rightarrow> (case handler_for e of None \<Rightarrow> Panics | Some h \<Rightarrow> Handled h))))"

section \<open>The surface\<close>

definition open_handlers :: "route_handler list" where
  "open_handlers = [ReadyHook, ValidateHook, RunHook, SuspendHook, ResumeHook, TerminateHook, Health, Schema]"

definition row_ok :: "endpoint \<Rightarrow> bool" where
  "row_ok e \<longleftrightarrow> (case handler_for e of None \<Rightarrow> False
     | Some h \<Rightarrow> (ep_auth e = Bearer \<longleftrightarrow> h \<notin> set open_handlers))"

lemma surface_rows_ok: "list_all row_ok surface_docs"
  by (simp add: surface_docs_def row_ok_def handler_for_def open_handlers_def hook_path_def HOOK_PREFIX_def)

lemma rows_at_subset: "set (rows_at path) \<subseteq> set surface_docs"
  by (auto simp: rows_at_def Let_def)

lemma serve_row:
  assumes "find (method_ok m) (rows_at path) = Some e"
  shows "row_ok e \<and> method_ok m e"
proof -
  have "e \<in> set (rows_at path)" "method_ok m e"
    using assms by (auto simp: find_Some_iff)
  then show ?thesis using rows_at_subset surface_rows_ok by (auto simp: list_all_iff)
qed

section \<open>Properties\<close>

text \<open>
  Nothing is served past the guard but the hooks, health and the schema. Whatever a request's
  method and path, if a handler runs for it then it is one of those eight or the request bears the
  installed token, so before bootstrap no other handler runs at all; and no request reaches a row
  without a handler.
\<close>
theorem surface_is_guarded:
  "(case serve m path header s of
      Handled h \<Rightarrow> h \<in> set open_handlers \<or> (\<exists>t scheme. dm_token s = Some t \<and>
        header = Some (scheme @ 0x20 # t) \<and> eq_ignore_ascii_case scheme ''bearer'')
    | Panics \<Rightarrow> False
    | Refused status \<Rightarrow> status = (if dm_token s = None then 503 else 401)
    | _ \<Rightarrow> True)"
proof (cases "rows_at path = [] \<or> find (method_ok m) (rows_at path) = None")
  case True
  then show ?thesis by (auto simp: serve_def)
next
  case False
  then obtain e where e: "find (method_ok m) (rows_at path) = Some e" by blast
  then have ok: "row_ok e" using serve_row by blast
  then obtain h where h: "handler_for e = Some h" "ep_auth e = Bearer \<longleftrightarrow> h \<notin> set open_handlers"
    by (auto simp: row_ok_def split: option.splits)
  show ?thesis
    using e h False auth_verdict_eq [of header s]
    by (auto simp: serve_def split: option.splits if_splits)
qed

end
