(* ===== verification/Tunnel.thy ===== *)
theory Tunnel
  imports HookPayload "HOL-Library.Sublist"
begin

text \<open>
  The TCP relay (\<open>crates/agentd/src/tunnel.rs\<close>, the codes of \<open>protocol/src/tunnel.rs\<close>
  and the end of stream of \<open>protocol/src/identity.rs\<close>). The Noise implementation is a
  parameter: what opening a message at a position gives, and what sealing one gives. The select
  loop is the list of the branches it took, each with what the socket or the guest connection
  answered; \<open>None\<close> is a relay that has not ended.
\<close>

section \<open>Codes and limits\<close>

definition NORMAL :: nat where "NORMAL = 1000"
definition NO_LISTENER :: nat where "NO_LISTENER = 4502"
definition BAD_PORT :: nat where "BAD_PORT = 4400"
definition RELAY_FAILED :: nat where "RELAY_FAILED = 4500"
definition NO_IDENTITY :: nat where "NO_IDENTITY = 4401"
definition IDENTITY_REFUSED :: nat where "IDENTITY_REFUSED = 4403"

definition RELAY_CHUNK_BYTES :: nat where "RELAY_CHUNK_BYTES = 64 * 1024"
definition NOISE_CHUNK_BYTES :: nat where "NOISE_CHUNK_BYTES = 32 * 1024"
definition NOISE_MAX_MESSAGE_BYTES :: nat where "NOISE_MAX_MESSAGE_BYTES = 65535"
definition NOISE_TAG_BYTES :: nat where "NOISE_TAG_BYTES = 16"

definition TUNNEL_CONFIRMATION :: bytes where
  "TUNNEL_CONFIRMATION = map of_char ''microvms-tunnel-ready''"

definition HANDSHAKE_PAYLOAD :: bytes where
  "HANDSHAKE_PAYLOAD = [1]"

definition offers_end_of_stream :: "bytes \<Rightarrow> bool" where
  "offers_end_of_stream payload = (case payload of [] \<Rightarrow> False | flags # _ \<Rightarrow> and flags 1 \<noteq> 0)"

definition is_end_of_stream :: "bytes \<Rightarrow> bool" where
  "is_end_of_stream plaintext \<longleftrightarrow> plaintext = []"

section \<open>The two channels\<close>

text \<open>What \<open>recv\<close> of the WebSocket gives; \<open>WsGone\<close> is the end of the transport.\<close>

datatype ws_in = WsBinary bytes | WsText bytes | WsClose | WsGone | WsOther | WsError

record noise_session =
  ns_hello :: "bytes \<Rightarrow> bytes option"
  ns_reply :: "bytes \<Rightarrow> bytes option"
  ns_open :: "nat \<Rightarrow> bytes \<Rightarrow> bytes option"
  ns_seal :: "nat \<Rightarrow> bytes \<Rightarrow> bytes option"

text \<open>
  A channel: the bare socket, or a session with the positions of the next message each way and
  whether the caller offered the end of stream. A message that does not open moves no position.
\<close>

datatype channel = Plain | Noise nat nat bool

datatype inbound = Bytes bytes | EndedIn | Closed | FailedIn

definition noise_open :: "noise_session \<Rightarrow> nat \<Rightarrow> bytes \<Rightarrow> inbound \<times> nat" where
  "noise_open S pos fr =
     (case ns_open S pos fr of
        None \<Rightarrow> (FailedIn, pos)
      | Some plain \<Rightarrow> (if is_end_of_stream plain then EndedIn else Bytes plain, pos + 1))"

fun channel_recv :: "noise_session \<Rightarrow> ws_in \<Rightarrow> channel \<Rightarrow> inbound \<times> channel" where
  "channel_recv S (WsBinary b) Plain = (Bytes b, Plain)"
| "channel_recv S (WsText b) Plain = (Bytes b, Plain)"
| "channel_recv S (WsBinary b) (Noise i out offered) =
     (case noise_open S i b of (r, i') \<Rightarrow> (r, Noise i' out offered))"
| "channel_recv S (WsText b) (Noise i out offered) = (FailedIn, Noise i out offered)"
| "channel_recv S WsClose ch = (Closed, ch)"
| "channel_recv S WsGone ch = (Closed, ch)"
| "channel_recv S WsOther ch = (Bytes [], ch)"
| "channel_recv S WsError ch = (FailedIn, ch)"

text \<open>
  Sending: the frame that goes out, or none when sealing fails; whether the socket took it is
  the socket's answer.
\<close>

fun channel_send :: "noise_session \<Rightarrow> bytes \<Rightarrow> channel \<Rightarrow> bytes option \<times> channel" where
  "channel_send S b Plain = (Some b, Plain)"
| "channel_send S b (Noise i out offered) =
     (case ns_seal S out b of
        None \<Rightarrow> (None, Noise i out offered)
      | Some fr \<Rightarrow> (Some fr, Noise i (out + 1) offered))"

fun caller_proves_end :: "channel \<Rightarrow> bool" where
  "caller_proves_end Plain = False"
| "caller_proves_end (Noise i out offered) = offered"

fun chunk_bytes :: "channel \<Rightarrow> nat" where
  "chunk_bytes Plain = RELAY_CHUNK_BYTES"
| "chunk_bytes (Noise i out offered) = NOISE_CHUNK_BYTES"

section \<open>The pump\<close>

datatype ended = CallerFinished | CallerClosed | GuestEof | GuestRefused | RelayFailed | TransportFailed

record relay_state =
  pu_channel :: channel
  pu_to_guest :: bytes
  pu_sent :: "bytes list"

text \<open>
  A branch of the select: a message from the caller, with how many of its bytes a failed write
  to the guest took (\<open>None\<close> when it takes them all); or a read of the guest, which is some
  bytes of at most \<open>chunk_bytes\<close>, none at end of file or an error (\<open>None\<close>), with
  whether the socket takes the frame.
\<close>

datatype pump_event = FromCaller ws_in "nat option" | FromGuest "bytes option" bool

fun pump_step :: "noise_session \<Rightarrow> pump_event \<Rightarrow> relay_state \<Rightarrow> ended option \<times> relay_state" where
  "pump_step S (FromCaller msg wrote) p =
     (case channel_recv S msg (pu_channel p) of
        (r, ch) \<Rightarrow>
          (let p1 = p\<lparr>pu_channel := ch\<rparr>
           in case r of
                Bytes bs \<Rightarrow>
                  if bs = [] then (None, p1)
                  else
                    (case wrote of
                       Some k \<Rightarrow> (Some GuestRefused, p1\<lparr>pu_to_guest := pu_to_guest p1 @ take k bs\<rparr>)
                     | None \<Rightarrow> (None, p1\<lparr>pu_to_guest := pu_to_guest p1 @ bs\<rparr>))
              | EndedIn \<Rightarrow> (Some CallerFinished, p1)
              | Closed \<Rightarrow> (Some CallerClosed, p1)
              | FailedIn \<Rightarrow> (Some TransportFailed, p1)))"
| "pump_step S (FromGuest None took) p = (Some RelayFailed, p)"
| "pump_step S (FromGuest (Some bs) took) p =
     (if bs = [] then (Some GuestEof, p)
      else
        (case channel_send S bs (pu_channel p) of
           (None, ch) \<Rightarrow> (Some TransportFailed, p\<lparr>pu_channel := ch\<rparr>)
         | (Some fr, ch) \<Rightarrow>
             (if took then None else Some TransportFailed,
              p\<lparr>pu_channel := ch, pu_sent := pu_sent p @ [fr]\<rparr>)))"

fun pump_loop :: "noise_session \<Rightarrow> pump_event list \<Rightarrow> relay_state \<Rightarrow> (ended \<times> relay_state) option" where
  "pump_loop S [] p = None"
| "pump_loop S (e # es) p =
     (case pump_step S e p of
        (Some oc, p1) \<Rightarrow> Some (oc, p1)
      | (None, p1) \<Rightarrow> pump_loop S es p1)"

text \<open>
  After the loop: the end of stream, the close frame's code, and how the guest's connection ends.
  The end of stream of a plain channel sends nothing; a close follows it only if it went out. A
  reset needs a zero linger on the guest's socket; where that cannot be set the connection closes.
\<close>

datatype guest_end = GuestReadsEof | GuestReadsReset

definition send_end :: "noise_session \<Rightarrow> bool \<Rightarrow> relay_state \<Rightarrow> bool \<times> relay_state" where
  "send_end S took p =
     (if pu_channel p = Plain then (True, p)
      else
        (case channel_send S [] (pu_channel p) of
           (None, ch) \<Rightarrow> (False, p\<lparr>pu_channel := ch\<rparr>)
         | (Some fr, ch) \<Rightarrow> (took, p\<lparr>pu_channel := ch, pu_sent := pu_sent p @ [fr]\<rparr>)))"

definition reset :: "bool \<Rightarrow> guest_end" where
  "reset lingers = (if lingers then GuestReadsReset else GuestReadsEof)"

definition pump_finish :: "noise_session \<Rightarrow> bool \<Rightarrow> bool \<Rightarrow> ended \<Rightarrow> relay_state \<Rightarrow> nat option \<times> guest_end \<times> relay_state" where
  "pump_finish S took lingers oc p =
     (let cut_short = caller_proves_end (pu_channel p) \<and> (oc = CallerClosed \<or> oc = TransportFailed);
          (code, p1) =
            (case oc of
               GuestEof \<Rightarrow> (case send_end S took p of (sent, p1) \<Rightarrow> (if sent then Some NORMAL else None, p1))
             | CallerFinished \<Rightarrow> (Some NORMAL, p)
             | CallerClosed \<Rightarrow> (Some NORMAL, p)
             | GuestRefused \<Rightarrow> (Some NORMAL, p)
             | RelayFailed \<Rightarrow> (Some RELAY_FAILED, p)
             | TransportFailed \<Rightarrow> (None, p))
      in (code, if cut_short then reset lingers else GuestReadsEof, p1))"

section \<open>Dial and handshake\<close>

text \<open>What connecting to the guest port gave: connected, refused, or no answer in time.\<close>

datatype connect_result = Connected | ConnectError | ConnectTimeout

definition dial :: "nat \<Rightarrow> connect_result \<Rightarrow> nat + unit" where
  "dial port c =
     (if port = 0 then Inl BAD_PORT
      else (case c of Connected \<Rightarrow> Inr () | _ \<Rightarrow> Inl NO_LISTENER))"

definition read_hello :: "noise_session \<Rightarrow> bytes \<Rightarrow> bool option" where
  "read_hello S first = map_option offers_end_of_stream (ns_hello S first)"

text \<open>
  The confirmation loop: pings are skipped, the first binary frame decides; the empty list is the
  ten-second timeout.
\<close>

datatype confirm_in = ConfirmFrame ws_in | ConfirmPing

fun confirmed :: "noise_session \<Rightarrow> confirm_in list \<Rightarrow> bool" where
  "confirmed S [] = False"
| "confirmed S (ConfirmPing # ms) = confirmed S ms"
| "confirmed S (ConfirmFrame (WsBinary fr) # ms) = (ns_open S 0 fr = Some TUNNEL_CONFIRMATION)"
| "confirmed S (ConfirmFrame _ # ms) = False"

definition respond ::
  "noise_session \<Rightarrow> ws_in \<Rightarrow> bool \<Rightarrow> confirm_in list \<Rightarrow> bytes list \<times> channel option" where
  "respond S first took confirms =
     (case first of
        WsBinary hello \<Rightarrow>
          (case read_hello S hello of
             None \<Rightarrow> ([], None)
           | Some offered \<Rightarrow>
               (case ns_reply S HANDSHAKE_PAYLOAD of
                  None \<Rightarrow> ([], None)
                | Some reply \<Rightarrow>
                    ([reply], if took \<and> confirmed S confirms then Some (Noise 1 0 offered) else None)))
      | _ \<Rightarrow> ([], None))"

datatype tunnel_effect = SentFrames "bytes list" | SentClose nat | DialedGuest nat

text \<open>
  One verified tunnel up to its pump: the effects so far and the channel to pump. The responder
  is \<open>None\<close> when it cannot be built from the stored material.
\<close>

definition verified_setup ::
  "nat \<Rightarrow> material option \<Rightarrow> (material \<Rightarrow> nat \<Rightarrow> noise_session option) \<Rightarrow> ws_in \<Rightarrow> bool
     \<Rightarrow> confirm_in list \<Rightarrow> connect_result \<Rightarrow> tunnel_effect list \<times> channel option" where
  "verified_setup port identity responder first took confirms c =
     (case identity of
        None \<Rightarrow> ([SentClose NO_IDENTITY], None)
      | Some m \<Rightarrow>
          (case responder m port of
             None \<Rightarrow> ([SentClose RELAY_FAILED], None)
           | Some S \<Rightarrow>
               (case respond S first took confirms of
                  (frames, None) \<Rightarrow> ([SentFrames frames, SentClose IDENTITY_REFUSED], None)
                | (frames, Some ch) \<Rightarrow>
                    (case dial port c of
                       Inl code \<Rightarrow> ([SentFrames frames] @
                         (if port = 0 then [] else [DialedGuest port]) @ [SentClose code], None)
                     | Inr _ \<Rightarrow> ([SentFrames frames, DialedGuest port], Some ch)))))"

definition plain_setup :: "nat \<Rightarrow> connect_result \<Rightarrow> tunnel_effect list \<times> channel option" where
  "plain_setup port c =
     (case dial port c of
        Inl code \<Rightarrow> ((if port = 0 then [] else [DialedGuest port]) @ [SentClose code], None)
      | Inr _ \<Rightarrow> ([DialedGuest port], Some Plain))"

text \<open>A verified chunk and its tag fit one Noise message, as the build asserts.\<close>

lemma noise_chunk_fits: "chunk_bytes (Noise i out offered) + NOISE_TAG_BYTES \<le> NOISE_MAX_MESSAGE_BYTES"
  by (simp add: NOISE_CHUNK_BYTES_def NOISE_TAG_BYTES_def NOISE_MAX_MESSAGE_BYTES_def)

section \<open>From the caller to the guest\<close>

text \<open>
  What an authenticated session gives its receiver: whatever arrives, a message opens at a
  position only as what the caller sealed there.
\<close>

definition genuine :: "noise_session \<Rightarrow> bytes list \<Rightarrow> bool" where
  "genuine S sent \<longleftrightarrow>
     (\<forall>pos fr plain. ns_open S pos fr = Some plain \<longrightarrow> pos < length sent \<and> sent ! pos = plain)"

definition upload_ok :: "bytes list \<Rightarrow> relay_state \<Rightarrow> bool" where
  "upload_ok sent p \<longleftrightarrow> (\<exists>i out offered. pu_channel p = Noise (Suc i) out offered \<and>
     i \<le> length (tl sent) \<and> pu_to_guest p = concat (take i (tl sent)))"

lemma offered_recv:
  "channel_recv S msg (Noise i out offered) = (r, ch) \<Longrightarrow> \<exists>i'. ch = Noise i' out offered"
  by (cases msg) (auto simp: noise_open_def split: option.splits)

lemma offered_send:
  "channel_send S b (Noise i out offered) = (r, ch) \<Longrightarrow> \<exists>out'. ch = Noise i out' offered"
  by (auto split: option.splits)

lemma noise_recv_genuine:
  assumes "genuine S sent" and "channel_recv S msg (Noise (Suc i) out offered) = (r, ch)"
  shows "case r of
      Bytes bs \<Rightarrow> bs = [] \<and> ch = Noise (Suc i) out offered \<or>
        bs \<noteq> [] \<and> i < length (tl sent) \<and> tl sent ! i = bs \<and> ch = Noise (Suc (Suc i)) out offered
    | EndedIn \<Rightarrow> i < length (tl sent) \<and> tl sent ! i = [] \<and> ch = Noise (Suc (Suc i)) out offered
    | _ \<Rightarrow> ch = Noise (Suc i) out offered"
proof -
  have g: "i < length (tl sent) \<and> tl sent ! i = plain" if "ns_open S (Suc i) fr = Some plain" for fr plain
    using assms(1) that unfolding genuine_def by (cases sent) fastforce+
  show ?thesis
    using assms(2) g by (cases msg) (auto simp: noise_open_def is_end_of_stream_def split: option.splits)
qed

lemma upload_step:
  assumes "genuine S sent" and "upload_ok sent p" and "pump_step S e p = (oc, p1)"
  shows "case oc of
      None \<Rightarrow> upload_ok sent p1
    | Some o' \<Rightarrow> prefix (pu_to_guest p1) (concat (tl sent)) \<and>
        (o' = CallerFinished \<longrightarrow> (\<exists>k < length (tl sent). tl sent ! k = [] \<and>
          pu_to_guest p1 = concat (take k (tl sent))))"
proof -
  obtain i out offered where p: "pu_channel p = Noise (Suc i) out offered" "i \<le> length (tl sent)"
    "pu_to_guest p = concat (take i (tl sent))"
    using assms(2) by (auto simp: upload_ok_def)
  have pre: "prefix (concat (take k (tl sent))) (concat (tl sent))" for k
    by (metis append_take_drop_id concat_append prefixI)
  show ?thesis
  proof (cases e)
    case (FromCaller msg wrote)
    obtain r ch where r: "channel_recv S msg (Noise (Suc i) out offered) = (r, ch)"
      by (cases "channel_recv S msg (Noise (Suc i) out offered)")
    note g = noise_recv_genuine [OF assms(1) r]
    show ?thesis
    proof (cases r)
      case (Bytes bs)
      show ?thesis
      proof (cases "bs = []")
        case True
        then show ?thesis using assms(3) FromCaller p r Bytes g by (auto simp: upload_ok_def)
      next
        case False
        then have n: "i < length (tl sent)" "tl sent ! i = bs" "ch = Noise (Suc (Suc i)) out offered"
          using g Bytes by auto
        have nxt: "concat (take (Suc i) (tl sent)) = pu_to_guest p @ bs"
          using n p(3) by (simp add: take_Suc_conv_app_nth)
        then have "prefix (pu_to_guest p @ take k bs) (concat (tl sent))" for k
          using pre [of "Suc i"] by (metis append_assoc append_take_drop_id prefixE prefixI)
        then show ?thesis
          using assms(3) FromCaller p r Bytes False n nxt
          by (auto simp: upload_ok_def Let_def split: option.splits)
      qed
    next
      case EndedIn
      then show ?thesis using assms(3) FromCaller p r g pre by (auto simp: Let_def)
    next
      case Closed
      then show ?thesis using assms(3) FromCaller p r g pre by (auto simp: Let_def)
    next
      case FailedIn
      then show ?thesis using assms(3) FromCaller p r g pre by (auto simp: Let_def)
    qed
  next
    case (FromGuest got took)
    then show ?thesis
      using assms(3) p pre
      by (cases got) (auto simp: upload_ok_def split: if_splits option.splits)
  qed
qed

lemma upload_loop:
  assumes "genuine S sent" and "upload_ok sent p" and "pump_loop S es p = Some (oc, p')"
  shows "prefix (pu_to_guest p') (concat (tl sent)) \<and>
    (oc = CallerFinished \<longrightarrow> (\<exists>k < length (tl sent). tl sent ! k = [] \<and>
      pu_to_guest p' = concat (take k (tl sent))))"
  using assms(2,3)
proof (induction es arbitrary: p)
  case (Cons e es)
  obtain o1 p1 where st: "pump_step S e p = (o1, p1)" by (cases "pump_step S e p")
  note step = upload_step [OF assms(1) Cons.prems(1) st]
  show ?case
  proof (cases o1)
    case None
    then show ?thesis using step st Cons by simp
  next
    case (Some o')
    then show ?thesis using step st Cons.prems(2) by simp
  qed
qed simp

lemma offered_step: "pump_step S e p = (oc, p1) \<Longrightarrow> pu_channel p = Noise i out offered \<Longrightarrow>
    \<exists>i' out'. pu_channel p1 = Noise i' out' offered"
proof (cases e)
  case (FromCaller msg wrote)
  assume a: "pump_step S e p = (oc, p1)" "pu_channel p = Noise i out offered"
  obtain r ch where r: "channel_recv S msg (Noise i out offered) = (r, ch)"
    by (cases "channel_recv S msg (Noise i out offered)")
  from offered_recv [OF r] a FromCaller r show ?thesis
    by (cases r) (auto simp: Let_def split: if_splits option.splits)
next
  case (FromGuest got took)
  assume "pump_step S e p = (oc, p1)" "pu_channel p = Noise i out offered"
  with FromGuest show ?thesis by (cases got) (auto split: if_splits option.splits)
qed

lemma offered_loop: "pump_loop S es p = Some (oc, p') \<Longrightarrow> pu_channel p = Noise i out offered \<Longrightarrow>
    caller_proves_end (pu_channel p') = offered"
proof (induction es arbitrary: p i out)
  case (Cons e es)
  obtain o1 p1 where st: "pump_step S e p = (o1, p1)" by (cases "pump_step S e p")
  obtain i' out' where c: "pu_channel p1 = Noise i' out' offered"
    using offered_step [OF st Cons.prems(2)] by blast
  show ?case
    using Cons.prems(1) st c Cons.IH [of p1] by (cases o1) auto
qed simp

section \<open>From the guest to the caller\<close>

text \<open>The frames are the seals of the plaintexts, in order from a position.\<close>

fun sealing :: "noise_session \<Rightarrow> nat \<Rightarrow> bytes list \<Rightarrow> bytes list \<Rightarrow> bool" where
  "sealing S pos [] [] = True"
| "sealing S pos (pt # pts) (fr # frs) = (ns_seal S pos pt = Some fr \<and> sealing S (pos + 1) pts frs)"
| "sealing S pos _ _ = False"

lemma sealing_length: "sealing S pos pts frs \<Longrightarrow> length frs = length pts"
  by (induction S pos pts frs rule: sealing.induct) auto

lemma sealing_snoc:
  "sealing S pos (pts @ [pt]) frs \<longleftrightarrow>
    (\<exists>frs' fr. frs = frs' @ [fr] \<and> sealing S pos pts frs' \<and> ns_seal S (pos + length pts) pt = Some fr)"
proof (induction pts arbitrary: pos frs)
  case Nil
  show ?case
  proof (cases frs)
    case (Cons f fs)
    then show ?thesis by (cases fs) (auto simp: Cons_eq_append_conv)
  qed simp
next
  case (Cons a pts)
  show ?case
  proof (cases frs)
    case frs: (Cons f fs)
    then show ?thesis using Cons.IH [of "pos + 1" fs] by (auto simp: Cons_eq_append_conv)
  qed auto
qed

text \<open>What the guest sent before its end of file, in the order it was read.\<close>

fun guest_reads :: "pump_event list \<Rightarrow> bytes list" where
  "guest_reads [] = []"
| "guest_reads (FromGuest (Some bs) took # es) = (if bs = [] then [] else bs # guest_reads es)"
| "guest_reads (e # es) = guest_reads es"

text \<open>The plaintexts relayed so far, and the pump's position for the next.\<close>

definition relayed :: "noise_session \<Rightarrow> bytes list \<Rightarrow> relay_state \<Rightarrow> bool" where
  "relayed S pts p \<longleftrightarrow> (\<exists>i offered. pu_channel p = Noise i (length pts) offered) \<and>
     sealing S 0 pts (pu_sent p) \<and> [] \<notin> set pts"

lemma relayed_step:
  assumes "relayed S pts p" and "pump_step S e p = (oc, p1)"
  shows "\<exists>new. relayed S (pts @ new) p1 \<and>
    (case oc of
       None \<Rightarrow> guest_reads (e # es) = new @ guest_reads es
     | Some GuestEof \<Rightarrow> new = [] \<and> guest_reads (e # es) = []
     | Some _ \<Rightarrow> prefix new (guest_reads (e # es)))"
proof -
  obtain i offered where p: "pu_channel p = Noise i (length pts) offered" "sealing S 0 pts (pu_sent p)"
    "[] \<notin> set pts"
    using assms(1) by (auto simp: relayed_def)
  show ?thesis
  proof (cases e)
    case (FromCaller msg wrote)
    obtain r ch where r: "channel_recv S msg (Noise i (length pts) offered) = (r, ch)"
      by (cases "channel_recv S msg (Noise i (length pts) offered)")
    obtain i' where ch: "ch = Noise i' (length pts) offered" using offered_recv [OF r] by blast
    have "relayed S pts p1" and "oc \<noteq> Some GuestEof"
      using assms(2) FromCaller p r ch
      by (cases r; auto simp: relayed_def Let_def split: if_splits option.splits)+
    then show ?thesis using FromCaller by (auto intro!: exI [of _ "[]"] split: option.splits ended.splits)
  next
    case (FromGuest got took)
    show ?thesis
    proof (cases got)
      case None
      then show ?thesis using assms FromGuest by (auto intro!: exI [of _ "[]"])
    next
      case (Some bs)
      show ?thesis
      proof (cases "bs = []")
        case True
        then show ?thesis using assms FromGuest Some by (auto intro!: exI [of _ "[]"])
      next
        case False
        show ?thesis
        proof (cases "ns_seal S (length pts) bs")
          case None
          then have "relayed S pts p1" "oc = Some TransportFailed"
            using assms(2) FromGuest Some False p by (auto simp: relayed_def)
          then show ?thesis by (auto intro!: exI [of _ "[]"])
        next
          case seal: (Some fr)
          then have "relayed S (pts @ [bs]) p1" "oc = (if took then None else Some TransportFailed)"
            using assms(2) FromGuest Some False p by (auto simp: relayed_def sealing_snoc)
          then show ?thesis
            using FromGuest Some False by (auto intro!: exI [of _ "[bs]"])
        qed
      qed
    qed
  qed
qed

lemma relayed_loop:
  assumes "relayed S pts p" and "pump_loop S es p = Some (oc, p')"
  shows "\<exists>new. relayed S (pts @ new) p' \<and> prefix new (guest_reads es) \<and>
    (oc = GuestEof \<longrightarrow> new = guest_reads es)"
  using assms
proof (induction es arbitrary: p pts)
  case (Cons e es)
  obtain o1 p1 where st: "pump_step S e p = (o1, p1)" by (cases "pump_step S e p")
  from relayed_step [OF Cons.prems(1) st, of es] obtain new where
    new: "relayed S (pts @ new) p1"
    "case o1 of
       None \<Rightarrow> guest_reads (e # es) = new @ guest_reads es
     | Some GuestEof \<Rightarrow> new = [] \<and> guest_reads (e # es) = []
     | Some _ \<Rightarrow> prefix new (guest_reads (e # es))" by blast
  show ?case
  proof (cases o1)
    case None
    with st Cons.prems(2) have "pump_loop S es p1 = Some (oc, p')" by simp
    from Cons.IH [OF new(1) this] obtain more_new where
      "relayed S (pts @ new @ more_new) p'" "prefix more_new (guest_reads es)"
      "oc = GuestEof \<longrightarrow> more_new = guest_reads es" by auto
    then show ?thesis using new(2) None by (auto intro!: exI [of _ "new @ more_new"])
  next
    case (Some o')
    with st Cons.prems(2) have "p1 = p'" "oc = o'" by simp_all
    then show ?thesis using new Some by (cases o') (auto intro!: exI [of _ new])
  qed
qed simp

section \<open>Properties\<close>

text \<open>
  C17: A guest that reads end of file got the whole upload, unless its own side ended the
  connection. On a verified tunnel, whatever the path drops, replays, reorders, forges or closes,
  what reaches the guest is a prefix of what the caller sent, in order. The guest's connection is
  reset exactly when the caller offered the end of stream, the tunnel was closed or failed on the
  caller's side without it, and the socket takes the zero linger; in every other case it is closed,
  which the guest reads as an end of file. So from a caller that offered the end of stream, over a
  socket that takes the linger, an end of file means that the caller's end of stream arrived and
  every byte before it was written to the guest, or that the guest itself closed, refused a write
  or failed a read. A caller that offers no end of stream always ends in an end of file.
\<close>
theorem guest_eof_means_whole_upload:
  assumes "genuine S (TUNNEL_CONFIRMATION # sent)"
    and "pump_loop S es \<lparr>pu_channel = Noise 1 0 offered, pu_to_guest = [], pu_sent = []\<rparr> = Some (oc, p)"
    and "pump_finish S took lingers oc p = (code, guest, p')"
  shows "prefix (pu_to_guest p) (concat sent) \<and> pu_to_guest p' = pu_to_guest p \<and>
    (guest = GuestReadsReset \<longleftrightarrow> offered \<and> lingers \<and> (oc = CallerClosed \<or> oc = TransportFailed)) \<and>
    (guest = GuestReadsEof \<and> offered \<and> lingers \<longrightarrow>
       (oc = CallerFinished \<and> (\<exists>k < length sent. sent ! k = [] \<and> pu_to_guest p' = concat (take k sent))) \<or>
       oc \<in> {GuestEof, GuestRefused, RelayFailed}) \<and>
    (oc = CallerFinished \<longrightarrow> guest = GuestReadsEof \<and>
       (\<exists>k < length sent. sent ! k = [] \<and> pu_to_guest p' = concat (take k sent)))"
proof -
  let ?p0 = "\<lparr>pu_channel = Noise 1 0 offered, pu_to_guest = [], pu_sent = []\<rparr>"
  have "upload_ok (TUNNEL_CONFIRMATION # sent) ?p0" by (simp add: upload_ok_def)
  from upload_loop [OF assms(1) this assms(2)] have u: "prefix (pu_to_guest p) (concat sent)"
    "oc = CallerFinished \<longrightarrow> (\<exists>k < length sent. sent ! k = [] \<and> pu_to_guest p = concat (take k sent))"
    by simp_all
  have off: "caller_proves_end (pu_channel p) = offered" using offered_loop [OF assms(2)] by simp
  have same: "pu_to_guest p' = pu_to_guest p"
    using assms(3) by (auto simp: pump_finish_def send_end_def Let_def split: ended.splits prod.splits option.splits if_splits)
  have guest: "guest = (if offered \<and> (oc = CallerClosed \<or> oc = TransportFailed) then reset lingers else GuestReadsEof)"
    using assms(3) off by (auto simp: pump_finish_def Let_def split: ended.splits prod.splits)
  show ?thesis using u same guest by (cases oc) (auto simp: reset_def)
qed

text \<open>A session that marks a frame with its position, and a caller that sends two bytes and its end.\<close>

definition tagged_session :: "bytes list \<Rightarrow> noise_session" where
  "tagged_session sent =
     \<lparr>ns_hello = (\<lambda>m. Some [1]), ns_reply = (\<lambda>m. Some m),
      ns_open = (\<lambda>pos fr. case fr of [] \<Rightarrow> None
        | tag # rest \<Rightarrow> if unat tag = pos \<and> pos < length sent \<and> sent ! pos = rest then Some rest else None),
      ns_seal = (\<lambda>pos plain. Some (of_nat pos # plain))\<rparr>"

lemma tagged_genuine: "genuine (tagged_session sent) sent"
  by (auto simp: genuine_def tagged_session_def split: list.splits if_splits)

definition upload_events :: "pump_event list" where
  "upload_events = [FromCaller (WsBinary [1, 7, 8]) None, FromGuest (Some [9]) True,
     FromCaller (WsBinary [2]) None]"

theorem guest_eof_means_whole_upload_witness:
  "\<exists>p. pump_loop (tagged_session (TUNNEL_CONFIRMATION # [[7, 8], []])) upload_events
       \<lparr>pu_channel = Noise 1 0 True, pu_to_guest = [], pu_sent = []\<rparr> = Some (CallerFinished, p) \<and>
     prefix (pu_to_guest p) [7, 8] \<and>
     fst (snd (pump_finish (tagged_session (TUNNEL_CONFIRMATION # [[7, 8], []])) True True CallerFinished p)) = GuestReadsEof"
proof -
  let ?S = "tagged_session (TUNNEL_CONFIRMATION # [[7, 8], []])"
  let ?p0 = "\<lparr>pu_channel = Noise 1 0 True, pu_to_guest = [], pu_sent = []\<rparr>"
  have "\<exists>p. pump_loop ?S upload_events ?p0 = Some (CallerFinished, p)"
    by (simp add: upload_events_def tagged_session_def noise_open_def is_end_of_stream_def)
  then obtain p where l: "pump_loop ?S upload_events ?p0 = Some (CallerFinished, p)" ..
  obtain code guest p' where f: "pump_finish ?S True True CallerFinished p = (code, guest, p')"
    by (cases "pump_finish ?S True True CallerFinished p")
  from guest_eof_means_whole_upload [OF tagged_genuine l f] l f show ?thesis by auto
qed

text \<open>
  The guest's stream is relayed once, in order, and its end of stream is honest. Each frame
  sent to a verified caller is the seal, at its own position, of one read of the guest, in order
  and none left out; the seal of the empty message goes out only after the guest's own end of
  file with every byte before it relayed, and the normal close of a finished guest follows only
  that.
\<close>
theorem guest_stream_relayed_in_order:
  assumes "pump_loop S es \<lparr>pu_channel = Noise 1 0 offered, pu_to_guest = [], pu_sent = []\<rparr> = Some (oc, p)"
    and "pump_finish S took lingers oc p = (code, guest, p')"
  shows "\<exists>pts ended. sealing S 0 (pts @ (if ended then [[]] else [])) (pu_sent p') \<and>
    prefix pts (guest_reads es) \<and> [] \<notin> set pts \<and>
    (ended \<longrightarrow> oc = GuestEof \<and> pts = guest_reads es) \<and>
    (oc = GuestEof \<and> code = Some NORMAL \<longrightarrow> ended)"
proof -
  let ?p0 = "\<lparr>pu_channel = Noise 1 0 offered, pu_to_guest = [], pu_sent = []\<rparr>"
  have "relayed S [] ?p0" by (simp add: relayed_def)
  from relayed_loop [OF this assms(1)] obtain pts where
    r: "relayed S pts p" "prefix pts (guest_reads es)" "oc = GuestEof \<longrightarrow> pts = guest_reads es" by auto
  then obtain i off where ch: "pu_channel p = Noise i (length pts) off" "sealing S 0 pts (pu_sent p)"
    "[] \<notin> set pts" by (auto simp: relayed_def)
  show ?thesis
  proof (cases "oc = GuestEof \<and> ns_seal S (length pts) [] \<noteq> None")
    case True
    then have "sealing S 0 (pts @ [[]]) (pu_sent p')"
      using assms(2) ch by (auto simp: pump_finish_def send_end_def Let_def sealing_snoc)
    then show ?thesis using True r ch(3) by (intro exI [of _ pts] exI [of _ True]) simp
  next
    case False
    then have "pu_sent p' = pu_sent p" "oc = GuestEof \<longrightarrow> code \<noteq> Some NORMAL"
      using assms(2) ch
      by (auto simp: pump_finish_def send_end_def Let_def split: ended.splits)
    then show ?thesis using r ch by (intro exI [of _ pts] exI [of _ False]) auto
  qed
qed

theorem guest_stream_relayed_in_order_witness:
  "\<exists>p p' code guest. pump_loop (tagged_session []) [FromGuest (Some [9]) True, FromGuest (Some []) True]
       \<lparr>pu_channel = Noise 1 0 True, pu_to_guest = [], pu_sent = []\<rparr> = Some (GuestEof, p) \<and>
     pump_finish (tagged_session []) True True GuestEof p = (Some NORMAL, guest, p') \<and>
     sealing (tagged_session []) 0 [[9], []] (pu_sent p')"
proof -
  let ?es = "[FromGuest (Some [9]) True, FromGuest (Some []) True]"
  let ?p0 = "\<lparr>pu_channel = Noise 1 0 True, pu_to_guest = [], pu_sent = []\<rparr>"
  have "\<exists>p. pump_loop (tagged_session []) ?es ?p0 = Some (GuestEof, p) \<and> pu_channel p = Noise 1 1 True"
    by (simp add: tagged_session_def)
  then obtain p where l: "pump_loop (tagged_session []) ?es ?p0 = Some (GuestEof, p)"
    "pu_channel p = Noise 1 1 True" by blast
  obtain code guest p' where f: "pump_finish (tagged_session []) True True GuestEof p = (code, guest, p')"
    by (cases "pump_finish (tagged_session []) True True GuestEof p")
  have c: "code = Some NORMAL"
    using f l(2) by (simp add: pump_finish_def send_end_def tagged_session_def Let_def)
  have "guest_reads ?es = [[9]]" by simp
  with guest_stream_relayed_in_order [OF l(1) f] c
  have "sealing (tagged_session []) 0 [[9], []] (pu_sent p')" by auto
  with l f c show ?thesis by blast
qed

text \<open>
  No guest service is dialled before the caller is proved. On a verified tunnel the guest
  port is connected to only when the VM holds identity material, the caller's first message opened
  under it for this port, and the caller's confirmation opened as the session's first message; a
  VM without material answers 4401 and nothing else, and no refusal falls back to a plain tunnel.
\<close>
theorem dial_only_after_proof:
  "let (effects, ch) = verified_setup port identity responder first took confirms c in
   (identity = None \<longrightarrow> effects = [SentClose NO_IDENTITY]) \<and>
   (DialedGuest port' \<in> set effects \<or> ch \<noteq> None \<longrightarrow>
     (\<exists>m S hello fr. identity = Some m \<and> responder m port = Some S \<and> first = WsBinary hello \<and>
       ns_hello S hello \<noteq> None \<and> ns_open S 0 fr = Some TUNNEL_CONFIRMATION)) \<and>
   (\<forall>ch'. ch = Some ch' \<longrightarrow> DialedGuest port \<in> set effects \<and> ch' \<noteq> Plain)"
proof -
  have conf: "\<exists>fr. ns_open S 0 fr = Some TUNNEL_CONFIRMATION" if "confirmed S confirms" for S
    using that by (induction S confirms rule: confirmed.induct) auto
  have proved: "\<exists>hello fr. first = WsBinary hello \<and> ns_hello S hello \<noteq> None \<and>
      ns_open S 0 fr = Some TUNNEL_CONFIRMATION \<and> ch \<noteq> Plain"
    if "respond S first took confirms = (frames, Some ch)" for S frames ch
    using that conf [of S]
    by (auto simp: respond_def read_hello_def split: ws_in.splits option.splits if_splits)
  show ?thesis
  proof (cases identity)
    case None
    then show ?thesis by (simp add: verified_setup_def)
  next
    case id: (Some m)
    show ?thesis
    proof (cases "responder m port")
      case None
      then show ?thesis using id by (simp add: verified_setup_def)
    next
      case S: (Some S)
      obtain frames och where r: "respond S first took confirms = (frames, och)"
        by (cases "respond S first took confirms")
      show ?thesis
      proof (cases och)
        case None
        then show ?thesis using id S r by (simp add: verified_setup_def)
      next
        case (Some ch)
        then show ?thesis
          using id S r proved [of S frames ch]
          by (cases "dial port c") (auto simp: verified_setup_def dial_def split: if_splits)
      qed
    qed
  qed
qed

text \<open>A VM with material, a caller that confirms, and a guest that answers on port 80.\<close>

theorem dial_only_after_proof_witness:
  "DialedGuest 80 \<in> set (fst (verified_setup 80 (Some \<lparr>mt_seed = [], mt_host_public_key = []\<rparr>)
       (\<lambda>m port. Some (tagged_session [TUNNEL_CONFIRMATION])) (WsBinary [1]) True
       [ConfirmPing, ConfirmFrame (WsBinary (0 # TUNNEL_CONFIRMATION))] Connected)) \<and>
   (\<exists>fr. ns_open (tagged_session [TUNNEL_CONFIRMATION]) 0 fr = Some TUNNEL_CONFIRMATION)"
proof -
  let ?m = "\<lparr>mt_seed = [], mt_host_public_key = []\<rparr> :: material"
  let ?r = "\<lambda>(m::material) (port::nat). Some (tagged_session [TUNNEL_CONFIRMATION])"
  let ?cs = "[ConfirmPing, ConfirmFrame (WsBinary (0 # TUNNEL_CONFIRMATION))]"
  obtain effects ch where v: "verified_setup 80 (Some ?m) ?r (WsBinary [1]) True ?cs Connected = (effects, ch)"
    by (cases "verified_setup 80 (Some ?m) ?r (WsBinary [1]) True ?cs Connected")
  have d: "DialedGuest 80 \<in> set effects"
    using v by (auto simp: verified_setup_def respond_def read_hello_def tagged_session_def dial_def)
  with dial_only_after_proof [of 80 "Some ?m" ?r "WsBinary [1]" True ?cs Connected 80] v
  have "\<exists>fr. ns_open (tagged_session [TUNNEL_CONFIRMATION]) 0 fr = Some TUNNEL_CONFIRMATION" by auto
  with d v show ?thesis by simp
qed

end
