(* ===== verification/ClientErrors.thy ===== *)
theory ClientErrors
  imports Strings
begin

text \<open>
  The client's one error type, \<open>crates/microvms-domain/src/error.rs\<close> (\<open>Error\<close>,
  \<open>ErrorKind\<close>, \<open>WireKind\<close>), and the typed error of a response,
  \<open>HttpResponse::error_for_status\<close> of \<open>crates/microvms-app/src/session/http.rs\<close>.
  A message is kept as what its format string interpolates, one constructor for each message of
  the modelled client code.
\<close>

section \<open>The two granularities\<close>

datatype error_kind =
    Unexpected | InvalidArg | Retryable | Credentials | ProtocolKind | BuildWedged | LaunchDied
  | WindowClosed | Platform | TimeoutKind | Interrupted | Precondition | ExecFailed

datatype wire_kind =
    Unauthorized | ProtocolError | NotFound | Conflict | StdinClosedKind | TooLarge | RequestTimeout
  | NotBootstrapped | ServerError | InsufficientStorage | Transport | AuthTokenMint | ExecTimeout
  | OutputGap

definition ALL_KINDS :: "error_kind list" where
  "ALL_KINDS = [Unexpected, InvalidArg, Retryable, Credentials, ProtocolKind, BuildWedged, LaunchDied,
     WindowClosed, Platform, TimeoutKind, Interrupted, Precondition, ExecFailed]"

definition ALL_WIRE :: "wire_kind list" where
  "ALL_WIRE = [Unauthorized, ProtocolError, NotFound, Conflict, StdinClosedKind, TooLarge,
     RequestTimeout, NotBootstrapped, ServerError, InsufficientStorage, Transport, AuthTokenMint,
     ExecTimeout, OutputGap]"

text \<open>\<open>ErrorKind::retryable\<close> and \<open>ErrorKind::code\<close>.\<close>

definition kind_retryable :: "error_kind \<Rightarrow> bool" where
  "kind_retryable k \<longleftrightarrow> k = Retryable"

fun kind_code :: "error_kind \<Rightarrow> string" where
  "kind_code Unexpected = ''ERR_UNEXPECTED''"
| "kind_code InvalidArg = ''ERR_INVALID_ARG''"
| "kind_code Retryable = ''ERR_RETRYABLE''"
| "kind_code Credentials = ''ERR_CREDENTIALS''"
| "kind_code ProtocolKind = ''ERR_PROTOCOL''"
| "kind_code BuildWedged = ''ERR_BUILD_WEDGED''"
| "kind_code LaunchDied = ''ERR_LAUNCH_DIED''"
| "kind_code WindowClosed = ''ERR_WINDOW_CLOSED''"
| "kind_code Platform = ''ERR_PLATFORM''"
| "kind_code TimeoutKind = ''ERR_TIMEOUT''"
| "kind_code Interrupted = ''ERR_INTERRUPTED''"
| "kind_code Precondition = ''ERR_PRECONDITION''"
| "kind_code ExecFailed = ''ERR_EXEC_FAILED''"

fun wire_as_str :: "wire_kind \<Rightarrow> string" where
  "wire_as_str Unauthorized = ''Unauthorized''"
| "wire_as_str ProtocolError = ''ProtocolError''"
| "wire_as_str NotFound = ''NotFound''"
| "wire_as_str Conflict = ''Conflict''"
| "wire_as_str StdinClosedKind = ''StdinClosed''"
| "wire_as_str TooLarge = ''TooLarge''"
| "wire_as_str RequestTimeout = ''RequestTimeout''"
| "wire_as_str NotBootstrapped = ''NotBootstrapped''"
| "wire_as_str ServerError = ''ServerError''"
| "wire_as_str InsufficientStorage = ''InsufficientStorage''"
| "wire_as_str Transport = ''Transport''"
| "wire_as_str AuthTokenMint = ''AuthTokenMint''"
| "wire_as_str ExecTimeout = ''ExecTimeout''"
| "wire_as_str OutputGap = ''OutputGap''"

text \<open>\<open>WireKind::status\<close>, \<open>from_status\<close> and \<open>error_kind\<close>.\<close>

fun wire_status :: "wire_kind \<Rightarrow> nat option" where
  "wire_status ProtocolError = Some 400"
| "wire_status Unauthorized = Some 401"
| "wire_status NotFound = Some 404"
| "wire_status RequestTimeout = Some 408"
| "wire_status Conflict = Some 409"
| "wire_status StdinClosedKind = Some 410"
| "wire_status TooLarge = Some 413"
| "wire_status ServerError = Some 500"
| "wire_status NotBootstrapped = Some 503"
| "wire_status InsufficientStorage = Some 507"
| "wire_status _ = None"

definition from_status :: "nat \<Rightarrow> wire_kind option" where
  "from_status s =
     (if s = 400 then Some ProtocolError
      else if s = 401 then Some Unauthorized
      else if s = 404 then Some NotFound
      else if s = 408 then Some RequestTimeout
      else if s = 409 then Some Conflict
      else if s = 410 then Some StdinClosedKind
      else if s = 413 then Some TooLarge
      else if s = 503 then Some NotBootstrapped
      else if s = 507 then Some InsufficientStorage
      else if 500 \<le> s then Some ServerError
      else None)"

fun wire_error_kind :: "wire_kind \<Rightarrow> error_kind" where
  "wire_error_kind Unauthorized = Credentials"
| "wire_error_kind Transport = Retryable"
| "wire_error_kind AuthTokenMint = Retryable"
| "wire_error_kind NotBootstrapped = Retryable"
| "wire_error_kind RequestTimeout = Retryable"
| "wire_error_kind ServerError = Retryable"
| "wire_error_kind ProtocolError = ProtocolKind"
| "wire_error_kind NotFound = ProtocolKind"
| "wire_error_kind Conflict = ProtocolKind"
| "wire_error_kind StdinClosedKind = ProtocolKind"
| "wire_error_kind TooLarge = ProtocolKind"
| "wire_error_kind ExecTimeout = TimeoutKind"
| "wire_error_kind OutputGap = Platform"
| "wire_error_kind InsufficientStorage = Platform"

section \<open>The error value\<close>

datatype message =
    UndelimitedData nat nat
  | UndecodableOutput nat string
  | StreamDropped nat nat
  | Unrecoverable nat nat
  | UnrecoverableSplit nat nat
  | StillPhase string nat
  | NotAcknowledged message
  | HttpStatus string string nat "string option"
  | UnreadableBody string string string
  | RequestTimedOut string string
  | NotBootstrappedWithin nat "message option"
  | PoweroffUnsupported
  | BadDuration
  | IdleWindowTooShort nat
  | IntervalTooShort nat
  | IntervalOverHalf nat nat
  | MaxDurationZero
  | UnknownPolicy string
  | BackendError string

text \<open>
  \<open>Error\<close>: the private fields of the struct. \<open>source\<close> is the error it wraps: one of
  this crate, whose retry details \<open>with_source\<close> reads, or a foreign one.
\<close>

datatype client_error =
  ClientError (er_kind: error_kind) (er_wire: "wire_kind option") (er_message: message)
    (er_throttled: bool) (er_attempts: nat) (er_backoff: nat) (er_source: "error_source option")
and error_source = OwnSource client_error | ForeignSource string

definition new_error :: "error_kind \<Rightarrow> message \<Rightarrow> client_error" where
  "new_error k m = ClientError k None m False 0 0 None"

definition invalid_arg :: "message \<Rightarrow> client_error" where
  "invalid_arg m = new_error InvalidArg m"

definition wire_error :: "wire_kind \<Rightarrow> message \<Rightarrow> client_error" where
  "wire_error w m = ClientError (wire_error_kind w) (Some w) m False 0 0 None"

definition with_source :: "error_source \<Rightarrow> client_error \<Rightarrow> client_error" where
  "with_source s e =
     (case s of
        OwnSource inner \<Rightarrow>
          (if er_attempts e = 0
           then ClientError (er_kind e) (er_wire e) (er_message e) (er_throttled inner)
                  (er_attempts inner) (er_backoff inner) (Some s)
           else ClientError (er_kind e) (er_wire e) (er_message e) (er_throttled e) (er_attempts e)
                  (er_backoff e) (Some s))
      | ForeignSource m \<Rightarrow>
          ClientError (er_kind e) (er_wire e) (er_message e) (er_throttled e) (er_attempts e)
            (er_backoff e) (Some s))"

definition with_throttled :: "bool \<Rightarrow> client_error \<Rightarrow> client_error" where
  "with_throttled t e =
     ClientError (er_kind e) (er_wire e) (er_message e) t (er_attempts e) (er_backoff e) (er_source e)"

definition with_retry_details :: "nat \<Rightarrow> nat \<Rightarrow> client_error \<Rightarrow> client_error" where
  "with_retry_details n b e =
     ClientError (er_kind e) (er_wire e) (er_message e) (er_throttled e) n b (er_source e)"

definition retryable :: "client_error \<Rightarrow> bool" where
  "retryable e \<longleftrightarrow> kind_retryable (er_kind e)"

definition error_code :: "client_error \<Rightarrow> string" where
  "error_code e = kind_code (er_kind e)"

section \<open>The error of a response\<close>

definition error_for_status :: "string \<Rightarrow> string \<Rightarrow> nat \<Rightarrow> bytes \<Rightarrow> client_error + unit" where
  "error_for_status meth path status body =
     (if 200 \<le> status \<and> status < 300 then Inr ()
      else
        (let detail = str_trim (string_of (utf8_lossy (take (min (length body) 512) body)));
             msg = HttpStatus meth path status (if detail = [] then None else Some detail)
         in (case from_status status of
               Some w \<Rightarrow> Inl (wire_error w msg)
             | None \<Rightarrow> Inl (new_error ProtocolKind msg))))"

section \<open>Facts of the table\<close>

text \<open>The daemon's statuses and the client's reading of them are inverse.\<close>

lemma status_roundtrip: "wire_status w = Some s \<Longrightarrow> from_status s = Some w"
  by (cases w) (auto simp: from_status_def)

lemma from_status_status: "from_status s = Some w \<Longrightarrow> wire_status w = Some s \<or> w = ServerError \<and> 500 \<le> s"
  by (auto simp: from_status_def split: if_splits)

lemma wire_as_str_inj: "wire_as_str a = wire_as_str b \<Longrightarrow> a = b"
  by (cases a; cases b; simp)

lemma kind_code_inj: "kind_code a = kind_code b \<Longrightarrow> a = b"
  by (cases a; cases b; simp)

lemma ALL_KINDS_total: "k \<in> set ALL_KINDS \<and> distinct ALL_KINDS"
  by (cases k) (simp_all add: ALL_KINDS_def)

lemma ALL_WIRE_total: "w \<in> set ALL_WIRE \<and> distinct ALL_WIRE"
  by (cases w) (simp_all add: ALL_WIRE_def)

lemma error_sel [simp]:
  "er_kind (new_error k m) = k" "er_wire (new_error k m) = None" "er_message (new_error k m) = m"
  "er_kind (wire_error w m) = wire_error_kind w" "er_wire (wire_error w m) = Some w"
  "er_message (wire_error w m) = m"
  by (simp_all add: new_error_def wire_error_def)

lemma retryable_wire: "retryable (wire_error w m) \<longleftrightarrow>
    w \<in> {Transport, AuthTokenMint, NotBootstrapped, RequestTimeout, ServerError}"
  by (cases w) (simp_all add: retryable_def kind_retryable_def)

lemma retryable_new: "retryable (new_error k m) \<longleftrightarrow> k = Retryable"
  by (simp add: retryable_def kind_retryable_def)

text \<open>
  An error keeps its kind, wire kind and message through every annotation, so what a caller
  branches on is decided where the error is raised.
\<close>

lemma annotations_keep_class:
  "er_kind (with_source s e) = er_kind e \<and> er_wire (with_source s e) = er_wire e \<and>
   er_kind (with_throttled t e) = er_kind e \<and> er_wire (with_throttled t e) = er_wire e \<and>
   er_kind (with_retry_details n b e) = er_kind e \<and> er_wire (with_retry_details n b e) = er_wire e"
  by (simp add: with_source_def with_throttled_def with_retry_details_def split: error_source.splits)

lemma with_source_keeps_work:
  "er_attempts e = 0 \<Longrightarrow> er_attempts (with_source (OwnSource s) e) = er_attempts s \<and>
     er_backoff (with_source (OwnSource s) e) = er_backoff s"
  by (simp add: with_source_def)

text \<open>
  A response becomes a retryable error exactly for the statuses the daemon answers when an
  identical request could succeed; an exhausted disk is not one of them.
\<close>

lemma error_for_status_retryable:
  "(\<exists>e. error_for_status m p s b = Inl e \<and> retryable e) \<longleftrightarrow> s = 408 \<or> (500 \<le> s \<and> s \<noteq> 507)"
  by (auto simp: error_for_status_def from_status_def Let_def retryable_wire retryable_new)

lemma error_for_status_ok: "error_for_status m p s b = Inr () \<longleftrightarrow> 200 \<le> s \<and> s < 300"
  by (auto simp: error_for_status_def Let_def split: option.splits)

end
