(* ===== verification/SseParser.thy ===== *)
theory SseParser
  imports Protocol ClientErrors
begin

text \<open>
  The client's incremental parser of the event stream,
  \<open>crates/microvms-app/src/session/sse.rs\<close>: \<open>SseParser::feed\<close> with its scan
  cursor and its ceiling on undelimited bytes, \<open>find_frame_end\<close>, \<open>parse_frame\<close>
  and \<open>decode\<close>. The specification is \<open>parse_all\<close>, which reads a whole body at
  once; feeding the body in any pieces is proved to give the same frames. The JSON and base64
  decoders are third-party crates and a parameter, the record \<open>codec\<close>.
\<close>

section \<open>Locating the end of a frame\<close>

definition MAX_TERMINATOR_LEN :: nat where
  "MAX_TERMINATOR_LEN = 4"

definition MAX_PENDING_BYTES :: nat where
  "MAX_PENDING_BYTES = 4 * 1024 * 1024"

record sse_frame =
  sf_event :: string
  sf_data :: string

record sse_parser =
  sp_buffer :: bytes
  sp_scanned :: nat

definition sse_new :: sse_parser where
  "sse_new = \<lparr>sp_buffer = [], sp_scanned = 0\<rparr>"

definition LFB :: byte where "LFB = 0x0A"
definition CRB :: byte where "CRB = 0x0D"
definition COLON :: byte where "COLON = 0x3A"

definition TERMINATORS :: "bytes list" where
  "TERMINATORS = [[CRB, LFB, CRB, LFB], [LFB, LFB], [CRB, CRB]]"

text \<open>\<open>find\<close>: the position of the first window equal to the needle.\<close>

fun find_bytes :: "'a list \<Rightarrow> 'a list \<Rightarrow> nat option" where
  "find_bytes [] needle = None"
| "find_bytes (x # xs) needle =
     (if take (length needle) (x # xs) = needle then Some 0
      else map_option Suc (find_bytes xs needle))"

text \<open>One pass of the loop over the terminators: the earliest start wins, a tie keeps the first.\<close>

definition earlier ::
  "bytes \<Rightarrow> nat \<Rightarrow> bytes \<Rightarrow> (nat \<times> nat) option \<Rightarrow> (nat \<times> nat) option" where
  "earlier tail from terminator earliest =
     (case find_bytes tail terminator of
        None \<Rightarrow> earliest
      | Some i \<Rightarrow>
          (let idx = from + i in
           case earliest of
             None \<Rightarrow> Some (idx, length terminator)
           | Some (start, w) \<Rightarrow>
               if idx < start then Some (idx, length terminator) else earliest))"

definition find_frame_end :: "bytes \<Rightarrow> nat \<Rightarrow> (nat \<times> nat) option" where
  "find_frame_end buffer from =
     (if length buffer < from then None
      else
        (case fold (earlier (drop from buffer) from) TERMINATORS None of
           None \<Rightarrow> None
         | Some (start, width) \<Rightarrow> Some (start, start + width)))"

section \<open>Reading one frame\<close>

text \<open>A carriage return, with or without its line feed, becomes one line feed.\<close>

fun normalize_eol :: "bytes \<Rightarrow> bytes" where
  "normalize_eol [] = []"
| "normalize_eol (b # bs) =
     (if b = CRB
      then LFB # (case bs of [] \<Rightarrow> [] | c # cs \<Rightarrow> if c = LFB then normalize_eol cs else normalize_eol bs)
      else b # normalize_eol bs)"

definition strip_space :: "bytes \<Rightarrow> bytes" where
  "strip_space v = (case v of [] \<Rightarrow> [] | c # cs \<Rightarrow> if c = 0x20 then cs else v)"

definition lossy_string :: "bytes \<Rightarrow> string" where
  "lossy_string bs = string_of (utf8_lossy bs)"

text \<open>The name and value of one line, then the loop over the lines.\<close>

definition field_of :: "bytes \<Rightarrow> bytes \<times> bytes" where
  "field_of line =
     (case find_bytes line [COLON] of
        Some i \<Rightarrow> (take i line, drop (i + 1) line)
      | None \<Rightarrow> (line, []))"

definition take_line :: "bytes \<Rightarrow> string \<times> string list \<Rightarrow> string \<times> string list" where
  "take_line line acc =
     (case acc of (event, data_lines) \<Rightarrow>
        if line = [] \<or> starts_with [COLON] line then acc
        else
          (let (name, raw) = field_of line;
               value = strip_space raw;
               key = lossy_string name
           in if key = ''event'' then (lossy_string value, data_lines)
              else if key = ''data'' then (event, data_lines @ [lossy_string value])
              else acc))"

definition parse_frame :: "bytes \<Rightarrow> sse_frame option" where
  "parse_frame raw =
     (let (event, data_lines) = fold take_line (split_on LFB (normalize_eol raw)) ('''', [])
      in if data_lines = [] then None
         else Some \<lparr>sf_event = event, sf_data = join_with [LF] data_lines\<rparr>)"

section \<open>Feeding bytes\<close>

lemma find_bytes_less: "find_bytes h n = Some i \<Longrightarrow> i < length h"
  by (induction h n arbitrary: i rule: find_bytes.induct) (auto split: if_splits)

lemma find_bytes_Some:
  "n \<noteq> [] \<Longrightarrow> find_bytes h n = Some i \<longleftrightarrow>
     take (length n) (drop i h) = n \<and> (\<forall>j < i. take (length n) (drop j h) \<noteq> n)"
proof (induction h arbitrary: i)
  case Nil
  then show ?case by auto
next
  case (Cons x xs)
  show ?case
  proof (cases i)
    case 0
    then show ?thesis by auto
  next
    case (Suc k)
    with Cons show ?thesis by (auto simp: less_Suc_eq_0_disj)
  qed
qed

lemma find_bytes_None:
  "n \<noteq> [] \<Longrightarrow> find_bytes h n = None \<longleftrightarrow> (\<forall>j. take (length n) (drop j h) \<noteq> n)"
proof (induction h)
  case Nil
  then show ?case by auto
next
  case (Cons x xs)
  have "(\<forall>j. take (length n) (drop j (x # xs)) \<noteq> n) \<longleftrightarrow>
      take (length n) (x # xs) \<noteq> n \<and> (\<forall>j. take (length n) (drop j xs) \<noteq> n)"
    by (metis drop0 drop_Suc_Cons nat.exhaust)
  with Cons show ?case by simp
qed

lemma earlier_consumed:
  assumes "earlier tail from t best = Some (s, w)" and "best = Some (s, w) \<Longrightarrow> 0 < w" and "t \<noteq> []"
  shows "0 < w"
  using assms by (auto simp: earlier_def Let_def split: option.splits if_splits prod.splits)

lemma find_frame_end_consumed:
  assumes "find_frame_end b from = Some (s, e)"
  shows "s < e" and "b \<noteq> []"
proof -
  obtain w where f: "fold (earlier (drop from b) from) TERMINATORS None = Some (s, w)" and e: "e = s + w"
    using assms by (auto simp: find_frame_end_def split: if_splits option.splits)
  have "0 < w"
  proof (rule earlier_consumed)
    show "earlier (drop from b) from [CRB, CRB]
        (earlier (drop from b) from [LFB, LFB] (earlier (drop from b) from [CRB, LFB, CRB, LFB] None))
      = Some (s, w)"
      using f by (simp add: TERMINATORS_def)
    assume "earlier (drop from b) from [LFB, LFB] (earlier (drop from b) from [CRB, LFB, CRB, LFB] None)
      = Some (s, w)"
    then show "0 < w"
    proof (rule earlier_consumed)
      assume "earlier (drop from b) from [CRB, LFB, CRB, LFB] None = Some (s, w)"
      then show "0 < w" by (rule earlier_consumed) simp_all
    qed simp
  qed simp
  with e show "s < e" by simp
  show "b \<noteq> []" using f by (auto simp: TERMINATORS_def earlier_def)
qed

text \<open>The loop of \<open>feed\<close>: drain every complete frame, then remember how far the scan got.\<close>

function feed_loop :: "bytes \<Rightarrow> nat \<Rightarrow> sse_frame list \<Rightarrow> bytes \<times> nat \<times> sse_frame list" where
  "feed_loop buffer scanned frames =
     (let from = scanned - (MAX_TERMINATOR_LEN - 1) in
      case find_frame_end buffer from of
        None \<Rightarrow> (buffer, length buffer, frames)
      | Some (body, consumed) \<Rightarrow>
          feed_loop (drop consumed buffer) 0
            (case parse_frame (take body buffer) of
               None \<Rightarrow> frames
             | Some f \<Rightarrow> frames @ [f]))"
  by pat_completeness auto
termination
proof (relation "measure (\<lambda>(buffer, scanned, frames). length buffer)", goal_cases)
  case 1
  show ?case by simp
next
  case (2 buffer scanned frames lo r body consumed)
  then have "body < consumed" "buffer \<noteq> []" by (auto dest: find_frame_end_consumed)
  then show ?case by simp
qed

declare feed_loop.simps [simp del]

definition feed :: "bytes \<Rightarrow> sse_parser \<Rightarrow> (client_error + sse_frame list) \<times> sse_parser" where
  "feed chunk p =
     (let (buffer, scanned, frames) = feed_loop (sp_buffer p @ chunk) (sp_scanned p) []
      in if MAX_PENDING_BYTES < length buffer
         then (Inl (new_error ProtocolKind (UndelimitedData (length buffer) MAX_PENDING_BYTES)),
               \<lparr>sp_buffer = [], sp_scanned = 0\<rparr>)
         else (Inr frames, \<lparr>sp_buffer = buffer, sp_scanned = scanned\<rparr>))"

definition pending :: "sse_parser \<Rightarrow> nat" where
  "pending p = length (sp_buffer p)"

section \<open>Typed events\<close>

text \<open>
  What \<open>decode\<close> relies on outside the repository: \<open>serde_json::from_str\<close> for each
  payload type, \<open>None\<close> where it fails, and the base64 engine, whose error is its text.
\<close>

record codec =
  cd_output :: "string \<Rightarrow> (nat \<times> stream_kind \<times> string) option"
  cd_gap :: "string \<Rightarrow> (nat \<times> nat) option"
  cd_exit :: "string \<Rightarrow> exit_event option"
  cd_base64 :: "string \<Rightarrow> string + bytes"

type_synonym exec_event = "bytes event"

definition decode :: "codec \<Rightarrow> sse_frame \<Rightarrow> client_error + exec_event option" where
  "decode cd f =
     (if sf_event f = ''output'' then
        (case cd_output cd (sf_data f) of
           None \<Rightarrow> Inr None
         | Some (offset, kind, output) \<Rightarrow>
             (case cd_base64 cd output of
                Inl err \<Rightarrow> Inl (wire_error ProtocolError (UndecodableOutput offset err))
              | Inr data \<Rightarrow> Inr (Some (OutputEvent offset kind data))))
      else if sf_event f = ''gap'' then
        (case cd_gap cd (sf_data f) of
           None \<Rightarrow> Inr None
         | Some (a, b) \<Rightarrow> Inr (Some (GapEvent a b)))
      else if sf_event f = ''exit'' then
        (case cd_exit cd (sf_data f) of
           None \<Rightarrow> Inr None
         | Some e \<Rightarrow> Inr (Some (ExitEvent e)))
      else Inr None)"


section \<open>Where a frame ends\<close>

definition occ :: "bytes \<Rightarrow> nat \<Rightarrow> bytes \<Rightarrow> bool" where
  "occ t i b \<longleftrightarrow> take (length t) (drop i b) = t"

definition blank_at :: "bytes \<Rightarrow> nat \<Rightarrow> bool" where
  "blank_at b i \<longleftrightarrow> (\<exists>t \<in> set TERMINATORS. occ t i b)"

definition best_of :: "bytes \<Rightarrow> nat \<Rightarrow> bytes set \<Rightarrow> (nat \<times> nat) option \<Rightarrow> bool" where
  "best_of b lo T best \<longleftrightarrow>
     (case best of
        None \<Rightarrow> \<forall>t \<in> T. \<forall>i \<ge> lo. \<not> occ t i b
      | Some (s, w) \<Rightarrow>
          lo \<le> s \<and> (\<exists>t \<in> T. occ t s b \<and> w = length t) \<and>
          (\<forall>t \<in> T. \<forall>i. lo \<le> i \<and> i < s \<longrightarrow> \<not> occ t i b))"

lemma find_bytes_occ:
  assumes "t \<noteq> []"
  shows "find_bytes (drop lo b) t = None \<longleftrightarrow> (\<forall>i \<ge> lo. \<not> occ t i b)"
    and "find_bytes (drop lo b) t = Some k \<longleftrightarrow> occ t (lo + k) b \<and> (\<forall>i. lo \<le> i \<and> i < lo + k \<longrightarrow> \<not> occ t i b)"
proof -
  have shift: "(\<forall>i \<ge> lo. P i) \<longleftrightarrow> (\<forall>j. P (lo + j))" for P :: "nat \<Rightarrow> bool"
    by (metis le_add1 le_Suc_ex)
  show "find_bytes (drop lo b) t = None \<longleftrightarrow> (\<forall>i \<ge> lo. \<not> occ t i b)"
    unfolding shift using assms by (simp add: find_bytes_None occ_def add.commute)
  have "(\<forall>i. lo \<le> i \<and> i < lo + k \<longrightarrow> P i) \<longleftrightarrow> (\<forall>j < k. P (lo + j))" for P :: "nat \<Rightarrow> bool"
    by (metis (no_types, lifting) le_Suc_ex le_add1 nat_add_left_cancel_less)
  then show "find_bytes (drop lo b) t = Some k \<longleftrightarrow> occ t (lo + k) b \<and> (\<forall>i. lo \<le> i \<and> i < lo + k \<longrightarrow> \<not> occ t i b)"
    using assms by (simp add: find_bytes_Some occ_def add.commute)
qed

lemma best_of_earlier:
  assumes "best_of b lo T best" and "t \<noteq> []"
  shows "best_of b lo (insert t T) (earlier (drop lo b) lo t best)"
proof (cases "find_bytes (drop lo b) t")
  case None
  with assms show ?thesis
    by (auto simp: earlier_def best_of_def find_bytes_occ split: option.splits)
next
  case (Some k)
  then have f: "occ t (lo + k) b" "\<forall>i. lo \<le> i \<and> i < lo + k \<longrightarrow> \<not> occ t i b"
    using assms(2) by (simp_all add: find_bytes_occ)
  show ?thesis
  proof (cases best)
    case None
    with assms(1) Some f show ?thesis by (auto simp: earlier_def best_of_def Let_def)
  next
    case (Some sw)
    obtain s w where sw: "sw = (s, w)" by (cases sw)
    show ?thesis
    proof (cases "lo + k < s")
      case True
      with assms(1) \<open>find_bytes (drop lo b) t = Some k\<close> Some f show ?thesis
        by (auto simp: earlier_def best_of_def Let_def sw)
    next
      case False
      with assms(1) \<open>find_bytes (drop lo b) t = Some k\<close> Some f show ?thesis
        by (auto simp: earlier_def best_of_def Let_def sw)
    qed
  qed
qed

lemma best_of_terminators:
  "best_of b lo (set TERMINATORS) (fold (earlier (drop lo b) lo) TERMINATORS None)"
proof -
  have "best_of b lo {} None" by (simp add: best_of_def)
  then have "best_of b lo (insert [CRB, CRB] (insert [LFB, LFB] (insert [CRB, LFB, CRB, LFB] {})))
     (earlier (drop lo b) lo [CRB, CRB] (earlier (drop lo b) lo [LFB, LFB]
        (earlier (drop lo b) lo [CRB, LFB, CRB, LFB] None)))"
    by (intro best_of_earlier) simp_all
  then show ?thesis by (simp add: TERMINATORS_def insert_commute)
qed

lemma occ_less:
  assumes "occ t i b" and "t \<noteq> []"
  shows "i + length t \<le> length b"
proof -
  have "length (take (length t) (drop i b)) = length t" using assms(1) by (simp add: occ_def)
  moreover have "0 < length t" using assms(2) by simp
  ultimately show ?thesis unfolding length_take length_drop by linarith
qed

lemma occ_nth:
  assumes "occ t i b" and "j < length t"
  shows "b ! (i + j) = t ! j"
proof -
  have "i + length t \<le> length b" using assms occ_less by fastforce
  then have "take (length t) (drop i b) ! j = b ! (i + j)" using assms(2) by simp
  with assms(1) show ?thesis by (simp add: occ_def)
qed

lemma occ_append: "i + length t \<le> length b \<Longrightarrow> occ t i (b @ c) \<longleftrightarrow> occ t i b"
  by (simp add: occ_def)

lemma TERMINATORS_cases:
  assumes "t \<in> set TERMINATORS"
  obtains "t = [CRB, LFB, CRB, LFB]" | "t = [LFB, LFB]" | "t = [CRB, CRB]"
  using assms by (auto simp: TERMINATORS_def)

lemma CR_LF_differ [simp]: "CRB \<noteq> LFB" "LFB \<noteq> CRB"
  by (simp_all add: CRB_def LFB_def)

lemma terminator_unique:
  assumes "occ t i b" "occ t' i b" "t \<in> set TERMINATORS" "t' \<in> set TERMINATORS"
  shows "t = t'"
proof -
  have "t ! 0 = t' ! 0" "t ! 1 = t' ! 1"
    using assms occ_nth [of t i b 0] occ_nth [of t' i b 0] occ_nth [of t i b 1] occ_nth [of t' i b 1]
    by (auto simp: TERMINATORS_def)
  with assms(3,4) show ?thesis by (auto simp: TERMINATORS_def)
qed

lemma find_frame_end_Some:
  "find_frame_end b lo = Some (s, e) \<longleftrightarrow>
     lo \<le> s \<and> (\<exists>t \<in> set TERMINATORS. occ t s b \<and> e = s + length t) \<and>
     (\<forall>i. lo \<le> i \<and> i < s \<longrightarrow> \<not> blank_at b i)" (is "?l \<longleftrightarrow> ?r")
proof
  assume ?l
  then show ?r
    using best_of_terminators [of b lo]
    by (fastforce simp: find_frame_end_def best_of_def blank_at_def split: if_splits option.splits)
next
  assume r: ?r
  then obtain t where t: "t \<in> set TERMINATORS" "occ t s b" "e = s + length t" by auto
  then have len: "lo \<le> length b" using r occ_less [of t s b] by (auto simp: TERMINATORS_def)
  let ?f = "fold (earlier (drop lo b) lo) TERMINATORS None"
  have best: "best_of b lo (set TERMINATORS) ?f" by (rule best_of_terminators)
  show ?l
  proof (cases ?f)
    case None
    with best r t show ?thesis by (auto simp: best_of_def)
  next
    case (Some sw)
    obtain s' w where sw: "sw = (s', w)" by (cases sw)
    with best Some obtain t' where t': "t' \<in> set TERMINATORS" "occ t' s' b" "w = length t'" "lo \<le> s'"
      and first: "\<forall>t \<in> set TERMINATORS. \<forall>i. lo \<le> i \<and> i < s' \<longrightarrow> \<not> occ t i b"
      by (auto simp: best_of_def)
    have "s' = s"
    proof (rule linorder_cases [of s' s])
      assume "s' < s"
      with r t' show ?thesis by (auto simp: blank_at_def)
    next
      assume "s < s'"
      with first r t show ?thesis by auto
    qed simp
    with terminator_unique [of t s b t'] t t' Some sw len show ?thesis by (simp add: find_frame_end_def)
  qed
qed

lemma find_frame_end_None:
  "find_frame_end b lo = None \<longleftrightarrow> (\<forall>i \<ge> lo. \<not> blank_at b i)"
proof (cases "length b < lo")
  case True
  have "\<not> blank_at b i" if "lo \<le> i" for i
    using True that occ_less [of _ i b] by (fastforce simp: blank_at_def TERMINATORS_def)
  with True show ?thesis by (simp add: find_frame_end_def)
next
  case False
  show ?thesis
  proof
    assume "find_frame_end b lo = None"
    then show "\<forall>i \<ge> lo. \<not> blank_at b i"
      using best_of_terminators [of b lo] False
      by (auto simp: find_frame_end_def best_of_def blank_at_def split: option.splits)
  next
    assume none: "\<forall>i \<ge> lo. \<not> blank_at b i"
    show "find_frame_end b lo = None"
    proof (rule ccontr)
      assume "find_frame_end b lo \<noteq> None"
      then obtain s e where "find_frame_end b lo = Some (s, e)" by auto
      with none show False unfolding find_frame_end_Some by (auto simp: blank_at_def)
    qed
  qed
qed

section \<open>Pieces against the whole body\<close>

text \<open>The reference: the frames of a whole body, and what is left after the last blank line.\<close>

function parse_all :: "bytes \<Rightarrow> sse_frame list \<times> bytes" where
  "parse_all b =
     (case find_frame_end b 0 of
        None \<Rightarrow> ([], b)
      | Some (body, consumed) \<Rightarrow>
          (let (fs, rest) = parse_all (drop consumed b)
           in (case_option [] (\<lambda>f. [f]) (parse_frame (take body b)) @ fs, rest)))"
  by pat_completeness auto
termination
proof (relation "measure length", goal_cases)
  case 1
  show ?case by simp
next
  case (2 b r body consumed)
  then have "body < consumed" "b \<noteq> []" by (auto dest: find_frame_end_consumed)
  then show ?case by simp
qed

declare parse_all.simps [simp del]

lemma parse_all_None: "find_frame_end b 0 = None \<Longrightarrow> parse_all b = ([], b)"
  by (subst parse_all.simps) simp

lemma parse_all_Some:
  "find_frame_end b 0 = Some (body, consumed) \<Longrightarrow>
     parse_all b = (case_option [] (\<lambda>f. [f]) (parse_frame (take body b)) @ fst (parse_all (drop consumed b)),
                    snd (parse_all (drop consumed b)))"
  by (subst parse_all.simps) (simp add: split_beta)

lemma parse_all_nil [simp]: "parse_all [] = ([], [])"
  by (rule parse_all_None) (simp add: find_frame_end_def TERMINATORS_def earlier_def)

text \<open>Two terminators overlap only where one is inside the longer one's start.\<close>

lemma terminators_clash:
  assumes "occ t' i b" "t' \<in> set TERMINATORS" "occ t s b" "t \<in> set TERMINATORS" "i < s"
  shows "i + length t' \<le> s + length t"
proof (rule ccontr)
  assume over: "\<not> i + length t' \<le> s + length t"
  with assms(2,4,5) have t': "t' = [CRB, LFB, CRB, LFB]" and s: "s = i + 1"
    by (auto simp: TERMINATORS_def)
  have "b ! (i + 1) = LFB" "b ! (i + 2) = CRB"
    using occ_nth [OF assms(1), of 1] occ_nth [OF assms(1), of 2] by (simp_all add: t')
  moreover have "b ! (s + 0) = t ! 0" "b ! (s + 1) = t ! 1"
    using occ_nth [OF assms(3), of 0] occ_nth [OF assms(3), of 1] assms(4) by (auto simp: TERMINATORS_def)
  ultimately show False using assms(4) s by (auto simp: TERMINATORS_def)
qed

lemma blank_at_append:
  assumes "blank_at b i"
  shows "blank_at (b @ c) i"
proof -
  obtain t where t: "t \<in> set TERMINATORS" "occ t i b" using assms by (auto simp: blank_at_def)
  then have "i + length t \<le> length b" using occ_less [of t i b] by (auto simp: TERMINATORS_def)
  with t show ?thesis unfolding blank_at_def by (intro bexI [of _ t]) (simp_all add: occ_append)
qed

lemma find_frame_end_append:
  assumes "find_frame_end b 0 = Some (s, e)"
  shows "find_frame_end (b @ c) 0 = Some (s, e)" and "e \<le> length b"
proof -
  obtain t where t: "t \<in> set TERMINATORS" "occ t s b" "e = s + length t"
    and first: "\<forall>i < s. \<not> blank_at b i"
    using assms by (auto simp: find_frame_end_Some)
  show e: "e \<le> length b" using occ_less [OF t(2)] t(1,3) by (auto simp: TERMINATORS_def)
  have occ: "occ t s (b @ c)" using t e by (simp add: occ_append)
  have "\<not> blank_at (b @ c) i" if "i < s" for i
  proof
    assume "blank_at (b @ c) i"
    then obtain t' where t': "t' \<in> set TERMINATORS" "occ t' i (b @ c)" by (auto simp: blank_at_def)
    have "i + length t' \<le> length b"
      using terminators_clash [OF t'(2,1) occ t(1) that] e t(3) by simp
    then have "occ t' i b" using t'(2) by (simp add: occ_append)
    with t' first that show False by (auto simp: blank_at_def)
  qed
  with t occ show "find_frame_end (b @ c) 0 = Some (s, e)" by (auto simp: find_frame_end_Some)
qed

lemma parse_all_append:
  "parse_all (b @ c) =
     (fst (parse_all b) @ fst (parse_all (snd (parse_all b) @ c)), snd (parse_all (snd (parse_all b) @ c)))"
proof (induction b rule: parse_all.induct)
  case (1 b)
  show ?case
  proof (cases "find_frame_end b 0")
    case None
    then show ?thesis by (simp add: parse_all_None)
  next
    case (Some se)
    obtain s e where se: "se = (s, e)" by (cases se)
    with Some have f: "find_frame_end b 0 = Some (s, e)" by simp
    have e: "e \<le> length b" "s < e"
      using find_frame_end_append(2) [OF f] find_frame_end_consumed(1) [OF f] by auto
    have "parse_all (drop e b @ c) = (fst (parse_all (drop e b)) @ fst (parse_all (snd (parse_all (drop e b)) @ c)),
        snd (parse_all (snd (parse_all (drop e b)) @ c)))"
      using 1 [OF f refl] by simp
    then show ?thesis
      using parse_all_Some [OF f] parse_all_Some [OF find_frame_end_append(1) [OF f, of c]] e by simp
  qed
qed

lemma parse_all_rest: "find_frame_end (snd (parse_all b)) 0 = None"
proof (induction b rule: parse_all.induct)
  case (1 b)
  then show ?case by (cases "find_frame_end b 0") (auto simp: parse_all_None parse_all_Some)
qed

lemma parse_all_idem [simp]: "parse_all (snd (parse_all b)) = ([], snd (parse_all b))"
  by (rule parse_all_None [OF parse_all_rest])

text \<open>What the scan cursor may skip: no blank line lies inside the scanned prefix.\<close>

definition scan_ok :: "bytes \<Rightarrow> nat \<Rightarrow> bool" where
  "scan_ok b scanned \<longleftrightarrow> scanned \<le> length b \<and> (\<forall>i. \<not> blank_at (take scanned b) i)"

lemma scan_ok_from:
  assumes "scan_ok b scanned"
  shows "find_frame_end b (scanned - (MAX_TERMINATOR_LEN - 1)) = find_frame_end b 0"
proof -
  let ?lo = "scanned - (MAX_TERMINATOR_LEN - 1)"
  have early: "\<not> blank_at b i" if "i < ?lo" for i
  proof
    assume "blank_at b i"
    then obtain t where t: "t \<in> set TERMINATORS" "occ t i b" by (auto simp: blank_at_def)
    have "i + length t \<le> scanned" using that t(1) by (auto simp: TERMINATORS_def MAX_TERMINATOR_LEN_def)
    then have "occ t i (take scanned b @ drop scanned b) \<longleftrightarrow> occ t i (take scanned b)"
      using assms by (intro occ_append) (simp add: scan_ok_def)
    with t assms show False by (auto simp: scan_ok_def blank_at_def)
  qed
  show ?thesis
  proof (cases "find_frame_end b 0")
    case None
    then have "find_frame_end b ?lo = None" unfolding find_frame_end_None by blast
    with None show ?thesis by simp
  next
    case (Some se)
    obtain s e where se: "se = (s, e)" by (cases se)
    with Some have f: "find_frame_end b 0 = Some (s, e)" by simp
    then have "blank_at b s" by (auto simp: find_frame_end_Some blank_at_def)
    with early have "?lo \<le> s" by (meson not_le)
    with f have "find_frame_end b ?lo = Some (s, e)" by (auto simp: find_frame_end_Some)
    with f show ?thesis by simp
  qed
qed

lemma scan_ok_zero: "scan_ok b 0"
  by (auto simp: scan_ok_def blank_at_def TERMINATORS_def occ_def)

lemma scan_ok_append: "scan_ok b scanned \<Longrightarrow> scan_ok (b @ c) scanned"
  by (simp add: scan_ok_def)

lemma feed_loop_parse_all:
  "scan_ok b scanned \<Longrightarrow>
     feed_loop b scanned frames =
       (snd (parse_all b), length (snd (parse_all b)), frames @ fst (parse_all b))"
proof (induction b scanned frames rule: feed_loop.induct)
  case (1 b scanned frames)
  have scan: "find_frame_end b (scanned - (MAX_TERMINATOR_LEN - 1)) = find_frame_end b 0"
    by (rule scan_ok_from [OF 1(2)])
  show ?case
  proof (cases "find_frame_end b 0")
    case None
    then show ?thesis by (subst feed_loop.simps) (simp add: scan parse_all_None del: One_nat_def)
  next
    case (Some se)
    obtain s e where se: "se = (s, e)" by (cases se)
    with Some have f: "find_frame_end b 0 = Some (s, e)" by simp
    note IH = 1(1) [OF refl, unfolded scan, OF f refl scan_ok_zero]
    show ?thesis by (subst feed_loop.simps) (simp add: scan f IH parse_all_Some [OF f] del: One_nat_def split: option.splits)
  qed
qed

text \<open>The parser between two feeds: its buffer holds no blank line and is wholly scanned.\<close>

definition parser_ok :: "sse_parser \<Rightarrow> bool" where
  "parser_ok p \<longleftrightarrow> sp_scanned p = length (sp_buffer p) \<and> find_frame_end (sp_buffer p) 0 = None \<and>
     length (sp_buffer p) \<le> MAX_PENDING_BYTES"

lemma parser_ok_scan: "parser_ok p \<Longrightarrow> scan_ok (sp_buffer p @ c) (sp_scanned p)"
  by (simp add: parser_ok_def scan_ok_def find_frame_end_None)

lemma feed_parse_all:
  assumes "parser_ok p"
  shows "feed chunk p =
    (let (fs, rest) = parse_all (sp_buffer p @ chunk)
     in if MAX_PENDING_BYTES < length rest
        then (Inl (new_error ProtocolKind (UndelimitedData (length rest) MAX_PENDING_BYTES)), sse_new)
        else (Inr fs, \<lparr>sp_buffer = rest, sp_scanned = length rest\<rparr>))"
  using feed_loop_parse_all [OF parser_ok_scan [OF assms, of chunk], of "[]"]
  by (simp add: feed_def sse_new_def split_beta)

lemma sse_new_ok: "parser_ok sse_new"
  using parse_all_rest [of "[]"] by (simp add: parser_ok_def sse_new_def find_frame_end_def
      TERMINATORS_def earlier_def)

lemma feed_keeps_ok:
  assumes "parser_ok p"
  shows "parser_ok (snd (feed chunk p))"
proof -
  show ?thesis
    using sse_new_ok parse_all_rest [of "sp_buffer p @ chunk"]
    by (auto simp: feed_parse_all [OF assms] parser_ok_def split_beta)
qed

text \<open>Feeding a list of chunks, stopping at the first refusal.\<close>

fun feed_chunks :: "bytes list \<Rightarrow> sse_parser \<Rightarrow> (client_error + sse_frame list) \<times> sse_parser" where
  "feed_chunks [] p = (Inr [], p)"
| "feed_chunks (c # cs) p =
     (case feed c p of
        (Inl e, q) \<Rightarrow> (Inl e, q)
      | (Inr fs, q) \<Rightarrow>
          (case feed_chunks cs q of
             (Inl e, r) \<Rightarrow> (Inl e, r)
           | (Inr gs, r) \<Rightarrow> (Inr (fs @ gs), r)))"

lemma feed_chunks_parse_all:
  "parser_ok p \<Longrightarrow> feed_chunks cs p = (Inr fs, q) \<Longrightarrow>
     fs = fst (parse_all (sp_buffer p @ concat cs)) \<and> sp_buffer q = snd (parse_all (sp_buffer p @ concat cs))"
proof (induction cs arbitrary: p fs)
  case Nil
  then show ?case by (simp add: parser_ok_def parse_all_None)
next
  case (Cons c cs)
  from Cons.prems(2) obtain gs p' hs where step: "feed c p = (Inr gs, p')" "feed_chunks cs p' = (Inr hs, q)"
    and fs: "fs = gs @ hs"
    by (auto split: sum.splits prod.splits)
  have ok: "parser_ok p'" using feed_keeps_ok [OF Cons.prems(1), of c] step by simp
  have gs: "gs = fst (parse_all (sp_buffer p @ c))" "sp_buffer p' = snd (parse_all (sp_buffer p @ c))"
    using step(1) by (auto simp: feed_parse_all [OF Cons.prems(1)] Let_def split_beta split: if_splits)
  from Cons.IH [OF ok step(2)] gs parse_all_append [of "sp_buffer p @ c" "concat cs"] show ?case
    by (simp add: fs)
qed

lemma feed_chunks_refused:
  assumes "parser_ok p"
  shows "(\<exists>e q. feed_chunks cs p = (Inl e, q)) \<longleftrightarrow>
     (\<exists>k. 0 < k \<and> k \<le> length cs \<and>
        MAX_PENDING_BYTES < length (snd (parse_all (sp_buffer p @ concat (take k cs)))))"
  using assms
proof (induction cs arbitrary: p)
  case Nil
  then show ?case by simp
next
  case (Cons c cs)
  let ?big = "\<lambda>b. MAX_PENDING_BYTES < length (snd (parse_all b))"
  have split: "(\<exists>k. 0 < k \<and> k \<le> length (c # cs) \<and> P (take k (c # cs))) \<longleftrightarrow>
      P [c] \<or> (\<exists>k. 0 < k \<and> k \<le> length cs \<and> P (c # take k cs))" for P :: "bytes list \<Rightarrow> bool"
  proof
    assume "\<exists>k. 0 < k \<and> k \<le> length (c # cs) \<and> P (take k (c # cs))"
    then obtain k where k: "k \<le> length cs" "P (take (Suc k) (c # cs))"
      by (metis Suc_le_mono gr0_implies_Suc length_Cons)
    then show "P [c] \<or> (\<exists>k. 0 < k \<and> k \<le> length cs \<and> P (c # take k cs))"
      by (cases k) auto
  next
    assume "P [c] \<or> (\<exists>k. 0 < k \<and> k \<le> length cs \<and> P (c # take k cs))"
    then show "\<exists>k. 0 < k \<and> k \<le> length (c # cs) \<and> P (take k (c # cs))"
    proof
      assume "P [c]"
      then show ?thesis by (intro exI [of _ 1]) simp
    next
      assume "\<exists>k. 0 < k \<and> k \<le> length cs \<and> P (c # take k cs)"
      then obtain k where "0 < k" "k \<le> length cs" "P (c # take k cs)" by auto
      then show ?thesis by (intro exI [of _ "Suc k"]) simp
    qed
  qed
  show ?case
  proof (cases "?big (sp_buffer p @ c)")
    case True
    then show ?thesis
      unfolding split [of "\<lambda>ds. ?big (sp_buffer p @ concat ds)"]
      by (simp add: feed_parse_all [OF Cons.prems] split_beta)
  next
    case False
    let ?q = "\<lparr>sp_buffer = snd (parse_all (sp_buffer p @ c)),
                sp_scanned = length (snd (parse_all (sp_buffer p @ c)))\<rparr>"
    have f: "feed c p = (Inr (fst (parse_all (sp_buffer p @ c))), ?q)"
      using False by (simp add: feed_parse_all [OF Cons.prems] split_beta)
    have ok: "parser_ok ?q" using feed_keeps_ok [OF Cons.prems, of c] f by simp
    have rest: "?big (sp_buffer p @ concat (c # ds)) \<longleftrightarrow> ?big (sp_buffer ?q @ concat ds)" for ds
      using parse_all_append [of "sp_buffer p @ c" "concat ds"] by simp
    have "(\<exists>e r. feed_chunks (c # cs) p = (Inl e, r)) \<longleftrightarrow> (\<exists>e r. feed_chunks cs ?q = (Inl e, r))"
      by (auto simp: f split: sum.splits prod.splits)
    also have "\<dots> \<longleftrightarrow> (\<exists>k. 0 < k \<and> k \<le> length cs \<and> ?big (sp_buffer ?q @ concat (take k cs)))"
      by (rule Cons.IH [OF ok])
    finally show ?thesis
      unfolding split [of "\<lambda>ds. ?big (sp_buffer p @ concat ds)"] rest using False by simp
  qed
qed

section \<open>A body as it is written\<close>

text \<open>
  One spelling of an event stream: named events with one data line, and comments, each line ended
  by the same one of the three line ends the parser accepts.
\<close>

datatype sse_item = EventItem bytes bytes | CommentItem bytes

definition EOLS :: "bytes list" where
  "EOLS = [[LFB], [CRB, LFB], [CRB]]"

fun sse_text :: "bytes \<Rightarrow> sse_item \<Rightarrow> bytes" where
  "sse_text eol (EventItem e d) =
     as_bytes ''event: '' @ e @ eol @ as_bytes ''data: '' @ d @ eol @ eol"
| "sse_text eol (CommentItem c) = COLON # c @ eol @ eol"

fun item_frames :: "sse_item \<Rightarrow> sse_frame list" where
  "item_frames (EventItem e d) = [\<lparr>sf_event = lossy_string e, sf_data = lossy_string d\<rparr>]"
| "item_frames (CommentItem c) = []"

definition clean :: "bytes \<Rightarrow> bool" where
  "clean bs \<longleftrightarrow> LFB \<notin> set bs \<and> CRB \<notin> set bs"

fun item_clean :: "sse_item \<Rightarrow> bool" where
  "item_clean (EventItem e d) \<longleftrightarrow> clean e \<and> clean d"
| "item_clean (CommentItem c) \<longleftrightarrow> clean c"

lemma clean_simps [simp]: "clean []" "clean (x # xs) \<longleftrightarrow> x \<noteq> LFB \<and> x \<noteq> CRB \<and> clean xs"
  "clean (xs @ ys) \<longleftrightarrow> clean xs \<and> clean ys"
  by (auto simp: clean_def)

lemma blank_at_Cons [simp]: "blank_at (x # b) (Suc i) \<longleftrightarrow> blank_at b i"
  by (simp add: blank_at_def occ_def)

lemma find_frame_end_Cons:
  assumes "\<not> blank_at (x # b) 0"
  shows "find_frame_end (x # b) 0 = map_option (\<lambda>(s, e). (Suc s, Suc e)) (find_frame_end b 0)"
proof (cases "find_frame_end b 0")
  case None
  then have "\<not> blank_at (x # b) i" for i using assms by (cases i) (simp_all add: find_frame_end_None)
  then have "find_frame_end (x # b) 0 = None" by (simp add: find_frame_end_None)
  with None show ?thesis by simp
next
  case (Some se)
  obtain s e where se: "se = (s, e)" by (cases se)
  with Some obtain t where t: "t \<in> set TERMINATORS" "occ t s b" "e = s + length t" "\<forall>i < s. \<not> blank_at b i"
    by (auto simp: find_frame_end_Some)
  have "\<not> blank_at (x # b) i" if "i < Suc s" for i using assms t(4) that by (cases i) auto
  moreover have "occ t (Suc s) (x # b)" using t(2) by (simp add: occ_def)
  ultimately have "find_frame_end (x # b) 0 = Some (Suc s, Suc e)"
    using t(1,3) by (auto simp: find_frame_end_Some)
  with Some se show ?thesis by simp
qed

lemma blank_at_0: "blank_at b 0 \<longleftrightarrow> (\<exists>t \<in> set TERMINATORS. take (length t) b = t)"
  by (simp add: blank_at_def occ_def)

lemma find_frame_end_clean:
  "clean l \<Longrightarrow> find_frame_end (l @ b) 0 =
     map_option (\<lambda>(s, e). (length l + s, length l + e)) (find_frame_end b 0)"
proof (induction l)
  case Nil
  then show ?case by (cases "find_frame_end b 0") auto
next
  case (Cons x l)
  then have "\<not> blank_at (x # l @ b) 0" by (auto simp: blank_at_0 TERMINATORS_def)
  with Cons show ?case by (cases "find_frame_end b 0") (auto simp: find_frame_end_Cons)
qed

lemma find_frame_end_eol:
  assumes "eol \<in> set EOLS" and "x \<noteq> LFB" "x \<noteq> CRB"
  shows "find_frame_end (eol @ x # b) 0 =
    map_option (\<lambda>(s, e). (length eol + s, length eol + e)) (find_frame_end (x # b) 0)"
proof -
  have "\<not> blank_at (eol @ x # b) 0" "\<not> blank_at (LFB # x # b) 0"
    using assms by (auto simp: blank_at_0 TERMINATORS_def EOLS_def)
  with assms show ?thesis
    by (cases "find_frame_end (x # b) 0") (auto simp: EOLS_def find_frame_end_Cons)
qed

lemma find_frame_end_blank:
  assumes "eol \<in> set EOLS"
  shows "find_frame_end (eol @ eol @ b) 0 = Some (0, length eol + length eol)"
  using assms by (auto simp: find_frame_end_Some EOLS_def TERMINATORS_def occ_def)

lemma normalize_clean: "clean l \<Longrightarrow> normalize_eol (l @ b) = l @ normalize_eol b"
  by (induction l) auto

lemma normalize_eol_eol:
  assumes "eol \<in> set EOLS" and "x \<noteq> LFB" "x \<noteq> CRB"
  shows "normalize_eol (eol @ x # b) = LFB # x # normalize_eol b"
  using assms by (auto simp: EOLS_def)

lemma lossy_ascii: "\<forall>b \<in> set (as_bytes s). b < 0x80 \<Longrightarrow> lossy_string (as_bytes s) = s"
  by (simp add: lossy_string_def utf8_lossy_ascii)

lemma lossy_names: "lossy_string (as_bytes ''event'') = ''event''" "lossy_string (as_bytes ''data'') = ''data''"
  by (rule lossy_ascii, simp add: as_bytes_def)+

lemma field_of_names:
  "field_of (as_bytes ''event: '' @ e) = (as_bytes ''event'', 0x20 # e)"
  "field_of (as_bytes ''data: '' @ e) = (as_bytes ''data'', 0x20 # e)"
  by (simp_all add: field_of_def as_bytes_def COLON_def)

lemma event_line:
  "take_line (as_bytes ''event: '' @ e) (v, ds) = (lossy_string e, ds)"
  "take_line (as_bytes ''data: '' @ d) (v, ds) = (v, ds @ [lossy_string d])"
  "take_line (COLON # c) (v, ds) = (v, ds)"
proof -
  have "\<not> starts_with [COLON] (as_bytes ''event: '' @ e)" "\<not> starts_with [COLON] (as_bytes ''data: '' @ d)"
    "as_bytes ''event: '' @ e \<noteq> []" "as_bytes ''data: '' @ d \<noteq> []"
    by (simp_all add: starts_with_def as_bytes_def COLON_def)
  then show "take_line (as_bytes ''event: '' @ e) (v, ds) = (lossy_string e, ds)"
    "take_line (as_bytes ''data: '' @ d) (v, ds) = (v, ds @ [lossy_string d])"
    by (simp_all only: take_line_def field_of_names lossy_names) (simp_all add: strip_space_def lossy_names)
  show "take_line (COLON # c) (v, ds) = (v, ds)" by (simp add: take_line_def starts_with_def)
qed

lemma clean_literals: "clean (as_bytes ''event: '')" "clean (as_bytes ''data: '')" "COLON \<noteq> LFB" "COLON \<noteq> CRB"
  by (simp_all add: as_bytes_def LFB_def CRB_def COLON_def)

lemma parse_item:
  assumes "eol \<in> set EOLS" and "item_clean it"
  shows "parse_all (sse_text eol it @ b) = (item_frames it @ fst (parse_all b), snd (parse_all b))"
proof (cases it)
  case (EventItem e d)
  let ?l1 = "as_bytes ''event: '' @ e" and ?l2 = "as_bytes ''data: '' @ d"
  have c: "clean ?l1" "clean ?l2" using assms(2) EventItem clean_literals by simp_all
  obtain x r where x: "?l2 = x # r" by (simp add: as_bytes_def)
  have xc: "x \<noteq> LFB" "x \<noteq> CRB" using c(2) by (simp_all add: x)
  let ?raw = "?l1 @ eol @ ?l2"
  have "find_frame_end (eol @ ?l2 @ eol @ eol @ b) 0
      = Some (length eol + length ?l2, length eol + length ?l2 + (length eol + length eol))"
    using find_frame_end_eol [OF assms(1) xc, of "r @ eol @ eol @ b"]
      find_frame_end_clean [OF c(2), of "eol @ eol @ b"] find_frame_end_blank [OF assms(1), of b]
    by (simp add: x)
  then have f: "find_frame_end (sse_text eol it @ b) 0
      = Some (length ?raw, length ?raw + (length eol + length eol))"
    using find_frame_end_clean [OF c(1), of "eol @ ?l2 @ eol @ eol @ b"]
    by (simp add: EventItem add.assoc)
  have spell: "sse_text eol it @ b = ?raw @ eol @ eol @ b" by (simp add: EventItem)
  have "normalize_eol ?raw = ?l1 @ LFB # ?l2"
  proof -
    have "normalize_eol ?raw = ?l1 @ normalize_eol (eol @ ?l2)" using normalize_clean [OF c(1)] by simp
    also have "normalize_eol (eol @ ?l2) = LFB # x # normalize_eol r"
      using normalize_eol_eol [OF assms(1) xc] by (simp add: x)
    also have "normalize_eol r = r" using normalize_clean [of r "[]"] c(2) by (simp add: x)
    finally show ?thesis by (simp add: x)
  qed
  moreover have "split_on LFB (?l1 @ LFB # ?l2) = [?l1, ?l2]"
    using c by (simp add: split_on_append_sep split_on_no_sep clean_def del: append_assoc)
  ultimately have pf: "parse_frame ?raw = Some \<lparr>sf_event = lossy_string e, sf_data = lossy_string d\<rparr>"
    by (simp add: parse_frame_def event_line)
  show ?thesis
    unfolding parse_all_Some [OF f] unfolding spell using pf by (simp add: EventItem)
next
  case (CommentItem c)
  have cl: "clean (COLON # c)" using assms(2) CommentItem clean_literals by simp
  have f: "find_frame_end (sse_text eol it @ b) 0
      = Some (length (COLON # c), length (COLON # c) + (length eol + length eol))"
    using find_frame_end_clean [OF cl, of "eol @ eol @ b"] find_frame_end_blank [OF assms(1), of b]
    by (simp add: CommentItem)
  have "normalize_eol (COLON # c) = COLON # c" using normalize_clean [OF cl, of "[]"] by simp
  moreover have "split_on LFB (COLON # c) = [COLON # c]"
    using cl by (intro split_on_no_sep) (auto simp: clean_def)
  ultimately have "parse_frame (COLON # c) = None" by (simp add: parse_frame_def event_line)
  then show ?thesis unfolding parse_all_Some [OF f] by (simp add: CommentItem)
qed

lemma parse_items:
  "eol \<in> set EOLS \<Longrightarrow> \<forall>it \<in> set items. item_clean it \<Longrightarrow>
     parse_all (concat (map (sse_text eol) items) @ b)
       = (concat (map item_frames items) @ fst (parse_all b), snd (parse_all b))"
  by (induction items) (simp_all add: parse_item)

lemma parse_all_shrinks: "length (snd (parse_all b)) \<le> length b"
proof (induction b rule: parse_all.induct)
  case (1 b)
  show ?case
  proof (cases "find_frame_end b 0")
    case None
    then show ?thesis by (simp add: parse_all_None)
  next
    case (Some se)
    obtain s e where se: "se = (s, e)" by (cases se)
    with Some have f: "find_frame_end b 0 = Some (s, e)" by simp
    with 1 [OF f refl] show ?thesis by (simp add: parse_all_Some)
  qed
qed

text \<open>What the parser holds while a body arrives is at most one item of it.\<close>

lemma residue_within_item:
  assumes "eol \<in> set EOLS" and "a @ b = concat (map (sse_text eol) items)"
    and "\<forall>it \<in> set items. item_clean it \<and> length (sse_text eol it) \<le> n"
  shows "length (snd (parse_all a)) \<le> n"
  using assms(2,3)
proof (induction items arbitrary: a)
  case Nil
  then show ?case by (simp add: parse_all_None find_frame_end_None blank_at_def occ_def TERMINATORS_def)
next
  case (Cons it items)
  show ?case
  proof (cases "length a \<le> length (sse_text eol it)")
    case True
    with Cons.prems(2) parse_all_shrinks [of a] show ?thesis by auto
  next
    case False
    let ?t = "sse_text eol it"
    from Cons.prems(1) have "a @ b = ?t @ concat (map (sse_text eol) items)" by simp
    then have t: "take (length ?t) a = ?t" and ab: "drop (length ?t) a @ b = concat (map (sse_text eol) items)"
      using False by (simp_all add: append_eq_append_conv_if)
    define a' where "a' = drop (length ?t) a"
    have a: "a = ?t @ a'" using append_take_drop_id [of "length ?t" a] unfolding t a'_def by simp
    have ab: "a' @ b = concat (map (sse_text eol) items)" using ab by (simp add: a'_def)
    have "parse_all a = (item_frames it @ fst (parse_all a'), snd (parse_all a'))"
      using parse_item [OF assms(1), of it a'] Cons.prems(2) by (simp add: a)
    with Cons.IH [OF ab] Cons.prems(2) show ?thesis by simp
  qed
qed

lemma feed_chunks_items:
  assumes "eol \<in> set EOLS" and "concat cs = concat (map (sse_text eol) items)"
    and "\<forall>it \<in> set items. item_clean it \<and> length (sse_text eol it) \<le> MAX_PENDING_BYTES"
  shows "\<exists>q. feed_chunks cs sse_new = (Inr (concat (map item_frames items)), q) \<and> sp_buffer q = []"
proof -
  have "length (snd (parse_all (concat (take k cs)))) \<le> MAX_PENDING_BYTES" for k
  proof (rule residue_within_item [OF assms(1) _ assms(3)])
    show "concat (take k cs) @ concat (drop k cs) = concat (map (sse_text eol) items)"
      using assms(2) by (metis append_take_drop_id concat_append)
  qed
  then have "\<not> (\<exists>e q. feed_chunks cs sse_new = (Inl e, q))"
    unfolding feed_chunks_refused [OF sse_new_ok] by (simp add: sse_new_def not_less)
  then obtain fs q where f: "feed_chunks cs sse_new = (Inr fs, q)"
    by (metis sum.exhaust surj_pair)
  from feed_chunks_parse_all [OF sse_new_ok f] parse_items [OF assms(1), of items "[]"] assms(2,3) f
  show ?thesis
    by (simp add: sse_new_def parse_all_None find_frame_end_None blank_at_def occ_def TERMINATORS_def)
qed

lemma feed_error: "feed c p = (Inl e, q) \<Longrightarrow> er_kind e = ProtocolKind \<and> q = sse_new"
  by (auto simp: feed_def sse_new_def split_beta Let_def split: if_splits)

lemma feed_chunks_error:
  "feed_chunks cs p = (Inl e, q) \<Longrightarrow> er_kind e = ProtocolKind \<and> q = sse_new"
proof (induction cs arbitrary: p e)
  case Nil
  then show ?case by simp
next
  case (Cons c cs)
  from Cons.prems feed_error [of c p] Cons.IH show ?case
    by (auto split: prod.splits sum.splits)
qed

section \<open>Properties\<close>

text \<open>
  C18: However the transport cuts the body into chunks, the parser returns the frames of the whole
  body and holds what follows the last blank line; it refuses, with a protocol error that no
  reconnect repeats, exactly when after some chunk more than the ceiling is held undelimited.
\<close>
theorem chunking_never_changes_frames:
  "case feed_chunks cs sse_new of
     (Inr fs, q) \<Rightarrow> (fs, sp_buffer q) = parse_all (concat cs) \<and>
        (\<forall>k. \<not> (k \<le> length cs \<and> MAX_PENDING_BYTES < length (snd (parse_all (concat (take k cs))))))
   | (Inl e, q) \<Rightarrow> \<not> retryable e \<and> q = sse_new \<and>
        (\<exists>k \<le> length cs. MAX_PENDING_BYTES < length (snd (parse_all (concat (take k cs)))))"
proof -
  have b: "sp_buffer sse_new = []" by (simp add: sse_new_def)
  have zero: "\<not> MAX_PENDING_BYTES < length (snd (parse_all []))" using parse_all_shrinks [of "[]"] by simp
  note refused = feed_chunks_refused [OF sse_new_ok, of cs, unfolded b append_Nil]
  show ?thesis
  proof (cases "feed_chunks cs sse_new")
    case (Pair r q)
    show ?thesis
    proof (cases r)
      case (Inl e)
      with feed_chunks_error [of cs sse_new e q] refused Pair show ?thesis
        by (auto simp: retryable_def kind_retryable_def)
    next
      case (Inr fs)
      have "\<not> (k \<le> length cs \<and> MAX_PENDING_BYTES < length (snd (parse_all (concat (take k cs)))))" for k
        using refused Pair Inr zero by (cases "k = 0") auto
      moreover have "(fs, sp_buffer q) = parse_all (concat cs)"
        using feed_chunks_parse_all [OF sse_new_ok, of cs fs q] Pair Inr by (simp add: b)
      ultimately show ?thesis using Pair Inr by simp
    qed
  qed
qed

text \<open>
  C36: an event stream written with any one line end, whatever comments it carries between its
  events and however the transport cuts it, gives back exactly its events, as long as no single
  one of them is longer than the ceiling.
\<close>
theorem event_stream_roundtrip:
  assumes "eol \<in> set EOLS" and "concat cs = concat (map (sse_text eol) items)"
    and "\<forall>it \<in> set items. item_clean it \<and> length (sse_text eol it) \<le> MAX_PENDING_BYTES"
  shows "\<exists>q. feed_chunks cs sse_new = (Inr (concat (map item_frames items)), q) \<and> pending q = 0"
  using feed_chunks_items [OF assms] by (auto simp: pending_def)

theorem event_stream_roundtrip_witness:
  "\<exists>q. feed_chunks [as_bytes ''event: e'' @ [CRB], LFB # as_bytes ''data: d'' @ [CRB, LFB, CRB], [LFB, COLON, CRB], [LFB, CRB, LFB]]
      sse_new = (Inr [\<lparr>sf_event = ''e'', sf_data = ''d''\<rparr>], q) \<and> pending q = 0"
proof -
  have l: "lossy_string (as_bytes ''e'') = ''e''" "lossy_string (as_bytes ''d'') = ''d''"
    by (rule lossy_ascii, simp add: as_bytes_def)+
  from event_stream_roundtrip [of "[CRB, LFB]"
      "[as_bytes ''event: e'' @ [CRB], LFB # as_bytes ''data: d'' @ [CRB, LFB, CRB], [LFB, COLON, CRB], [LFB, CRB, LFB]]"
      "[EventItem (as_bytes ''e'') (as_bytes ''d''), CommentItem []]"]
  show ?thesis unfolding concat.simps list.map item_frames.simps l
    by (simp add: EOLS_def as_bytes_def MAX_PENDING_BYTES_def LFB_def CRB_def)
qed

end
