(* ===== verification/ExecClient.thy ===== *)
theory ExecClient
  imports SseParser
begin

text \<open>
  The client's handle for one exec, \<open>crates/microvms-app/src/session/exec.rs\<close>: the live
  attach, \<open>StreamState\<close> and \<open>advance\<close> with its cursor, reconnects and backoff,
  \<open>for_each_event_async\<close>, the polling \<open>wait\<close> and \<open>wait_and_ack\<close>,
  and the readings of an \<open>ExecResult\<close>. The network is a parameter: what each attach answers, given how many came
  before it and the offset it asks for. A connection is the chunks its body delivers and how the
  body ends. Offsets are \<open>u64\<close>; the one addition wraps, as a release build does.
\<close>

section \<open>One live attach\<close>

record live_attach =
  la_chunks :: "bytes list"
  la_end :: "client_error option"
  la_parser :: sse_parser
  la_frames :: "sse_frame list"

text \<open>The inner loop of \<open>Attach::next_event\<close>: a frame that decodes to nothing is skipped.\<close>

fun pop_frames :: "codec \<Rightarrow> sse_frame list \<Rightarrow> (client_error + exec_event option) \<times> sse_frame list" where
  "pop_frames cd [] = (Inr None, [])"
| "pop_frames cd (f # fs) =
     (case decode cd f of
        Inl e \<Rightarrow> (Inl e, fs)
      | Inr (Some ev) \<Rightarrow> (Inr (Some ev), fs)
      | Inr None \<Rightarrow> pop_frames cd fs)"

function attach_next :: "codec \<Rightarrow> live_attach \<Rightarrow> (client_error + exec_event option) \<times> live_attach" where
  "attach_next cd a =
     (case pop_frames cd (la_frames a) of
        (Inl e, fs) \<Rightarrow> (Inl e, a\<lparr>la_frames := fs\<rparr>)
      | (Inr (Some ev), fs) \<Rightarrow> (Inr (Some ev), a\<lparr>la_frames := fs\<rparr>)
      | (Inr None, fs) \<Rightarrow>
          (case la_chunks a of
             [] \<Rightarrow>
               (case la_end a of
                  None \<Rightarrow> (Inr None, a\<lparr>la_frames := []\<rparr>)
                | Some e \<Rightarrow> (Inl e, a\<lparr>la_frames := []\<rparr>))
           | c # cs \<Rightarrow>
               (case feed c (la_parser a) of
                  (Inl e, p) \<Rightarrow> (Inl e, a\<lparr>la_chunks := cs, la_parser := p, la_frames := []\<rparr>)
                | (Inr fs, p) \<Rightarrow> attach_next cd (a\<lparr>la_chunks := cs, la_parser := p, la_frames := fs\<rparr>))))"
  by pat_completeness auto
termination
  by (relation "measure (\<lambda>(cd, a). length (la_chunks a))") auto

declare attach_next.simps [simp del]

section \<open>Opening an attach\<close>

record stream_options =
  so_offset :: nat
  so_reconnect :: bool
  so_max_reconnects :: nat
  so_error_on_gap :: bool
  so_idle_timeout :: nat

definition DEFAULT_STREAM_IDLE_TIMEOUT :: nat where
  "DEFAULT_STREAM_IDLE_TIMEOUT = 60000"

definition default_stream_options :: stream_options where
  "default_stream_options =
     \<lparr>so_offset = 0, so_reconnect = True, so_max_reconnects = 20, so_error_on_gap = False,
      so_idle_timeout = DEFAULT_STREAM_IDLE_TIMEOUT\<rparr>"

text \<open>
  What one attach request meets: no response (a failed mint, a refused connection), or a response
  with its status, its error body, the chunks of its stream and how that stream ends.
\<close>

datatype attach_answer =
    NoResponse client_error
  | Response nat bytes "bytes list" "client_error option"

type_synonym network = "nat \<Rightarrow> nat \<Rightarrow> attach_answer"

text \<open>What the drive did: the offset of every attach request, and every backoff, in milliseconds.\<close>

record client_log =
  cl_attaches :: "nat list"
  cl_sleeps :: "nat list"

definition stream_path :: "string \<Rightarrow> nat \<Rightarrow> string" where
  "stream_path exec_id offset =
     ''/v1/exec/'' @ exec_id @ ''/stream?offset='' @ show_nat offset"

definition open_at :: "string \<Rightarrow> nat \<Rightarrow> attach_answer \<Rightarrow> client_error + live_attach" where
  "open_at exec_id offset answer =
     (case answer of
        NoResponse e \<Rightarrow> Inl e
      | Response status body chunks ending \<Rightarrow>
          bind_r (error_for_status ''GET'' (stream_path exec_id offset) status body)
            (\<lambda>u. Inr \<lparr>la_chunks = chunks, la_end = ending, la_parser = sse_new, la_frames = []\<rparr>))"

section \<open>The stream state machine\<close>

definition RECONNECT_BACKOFF :: "nat list" where
  "RECONNECT_BACKOFF = [250, 500, 1000, 2000, 4000]"

definition backoff :: "nat \<Rightarrow> nat" where
  "backoff attempts = RECONNECT_BACKOFF ! min (attempts - 1) (length RECONNECT_BACKOFF - 1)"

datatype stream_state =
    ReconnectAt nat nat
  | AttachedAt live_attach nat nat
  | StreamDone

fun state_cursor :: "stream_state \<Rightarrow> nat option" where
  "state_cursor (ReconnectAt cursor attempts) = Some cursor"
| "state_cursor (AttachedAt a cursor attempts) = Some cursor"
| "state_cursor StreamDone = None"

text \<open>The end of an output event, at the width of the offset.\<close>

definition end_offset :: "nat \<Rightarrow> bytes \<Rightarrow> nat" where
  "end_offset offset data = (offset + length data) mod 2 ^ 64"

lemma pop_frames_fewer: "pop_frames cd fs = (Inr (Some ev), gs) \<Longrightarrow> length gs < length fs"
  by (induction cd fs rule: pop_frames.induct) (auto split: sum.splits option.splits)

lemma attach_next_fewer:
  "attach_next cd a = (Inr (Some ev), a') \<Longrightarrow>
     length (la_chunks a') < length (la_chunks a) \<or>
     length (la_chunks a') = length (la_chunks a) \<and> length (la_frames a') < length (la_frames a)"
proof (induction cd a rule: attach_next.induct)
  case (1 cd a)
  obtain q fs where pop: "pop_frames cd (la_frames a) = (q, fs)" by (cases "pop_frames cd (la_frames a)")
  consider (err) e where "q = Inl e" | (ev) v where "q = Inr (Some v)" | (dry) "q = Inr None"
    by (metis option.exhaust sum.exhaust)
  then show ?case
  proof cases
    case err
    then show ?thesis using 1(2) pop by (subst (asm) attach_next.simps) auto
  next
    case ev
    then show ?thesis using 1(2) pop pop_frames_fewer [of cd "la_frames a" v fs]
      by (subst (asm) attach_next.simps) auto
  next
    case dry
    show ?thesis
    proof (cases "la_chunks a")
      case Nil
      then show ?thesis using 1(2) pop dry
        by (subst (asm) attach_next.simps) (auto split: option.splits)
    next
      case (Cons c cs)
      obtain r p where feed: "feed c (la_parser a) = (r, p)" by (cases "feed c (la_parser a)")
      show ?thesis
      proof (cases r)
        case (Inl e)
        then show ?thesis using 1(2) pop dry Cons feed by (subst (asm) attach_next.simps) auto
      next
        case (Inr gs)
        let ?a = "a\<lparr>la_chunks := cs, la_parser := p, la_frames := gs\<rparr>"
        have "attach_next cd ?a = (Inr (Some ev), a')"
          using 1(2) pop dry Cons feed Inr by (subst (asm) attach_next.simps) auto
        from 1(1) [OF pop [symmetric] dry refl Cons feed [symmetric] Inr this] show ?thesis
          by (auto simp: Cons)
      qed
    qed
  qed
qed

text \<open>
  \<open>advance\<close>: one item of the stream and the state after it, or the end. \<open>attempts\<close> counts every connection that
  failed so far; it is never reset, so the budget is the whole stream's.
\<close>

definition after_failure :: "nat \<Rightarrow> nat \<Rightarrow> stream_state" where
  "after_failure cursor attempts = ReconnectAt cursor (attempts + 1)"

text \<open>The backoff before a reconnect, then the attach request.\<close>

definition tried :: "nat \<Rightarrow> nat \<Rightarrow> client_log \<Rightarrow> client_log" where
  "tried cursor attempts tr =
     (let tr1 = (if 0 < attempts
                 then tr\<lparr>cl_sleeps := cl_sleeps tr @ [backoff attempts]\<rparr> else tr)
      in tr1\<lparr>cl_attaches := cl_attaches tr1 @ [cursor]\<rparr>)"

fun state_rank :: "nat \<Rightarrow> stream_state \<Rightarrow> nat" where
  "state_rank m (ReconnectAt cursor n) = (if m < n then 0 else 2 * (m + 2 - n) + 2)"
| "state_rank m (AttachedAt a cursor n) = 2 * (m + 2 - n) + 1"
| "state_rank m StreamDone = 0"

function advance ::
  "codec \<Rightarrow> string \<Rightarrow> network \<Rightarrow> stream_options \<Rightarrow> stream_state \<Rightarrow> client_log
     \<Rightarrow> ((client_error + exec_event) \<times> stream_state) option \<times> client_log" where
  "advance cd exec_id net opts state tr =
     (case state of
        StreamDone \<Rightarrow> (None, tr)
      | ReconnectAt cursor attempts \<Rightarrow>
          (if 0 < attempts \<and> \<not> so_reconnect opts then (None, tr)
           else if 0 < attempts \<and> so_max_reconnects opts < attempts
           then (Some (Inl (new_error Retryable (StreamDropped attempts cursor)), StreamDone), tr)
           else
             (case open_at exec_id cursor (net (length (cl_attaches tr)) cursor) of
                Inr a \<Rightarrow> advance cd exec_id net opts (AttachedAt a cursor attempts) (tried cursor attempts tr)
              | Inl e \<Rightarrow>
                  (if retryable e \<and> so_reconnect opts
                   then advance cd exec_id net opts (after_failure cursor attempts) (tried cursor attempts tr)
                   else (Some (Inl e, StreamDone), tried cursor attempts tr))))
      | AttachedAt a cursor attempts \<Rightarrow>
          (case attach_next cd a of
             (Inr (Some (OutputEvent offset kind data)), a') \<Rightarrow>
               (Some (Inr (OutputEvent offset kind data),
                      AttachedAt a' (max cursor (end_offset offset data)) attempts), tr)
           | (Inr (Some (GapEvent lo to)), a') \<Rightarrow>
               (if so_error_on_gap opts
                then (Some (Inl (wire_error OutputGap (Unrecoverable lo to)), StreamDone), tr)
                else (Some (Inr (GapEvent lo to), AttachedAt a' (max cursor to) attempts), tr))
           | (Inr (Some (ExitEvent x)), a') \<Rightarrow> (Some (Inr (ExitEvent x), StreamDone), tr)
           | (Inr None, a') \<Rightarrow>
               (if \<not> so_reconnect opts then (None, tr)
                else advance cd exec_id net opts (after_failure cursor attempts) tr)
           | (Inl e, a') \<Rightarrow>
               (if retryable e \<and> so_reconnect opts
                then advance cd exec_id net opts (after_failure cursor attempts) tr
                else (Some (Inl e, StreamDone), tr))))"
  by pat_completeness auto
termination
  by (relation "measure (\<lambda>(cd, exec_id, net, opts, state, tr). state_rank (so_max_reconnects opts) state)")
    (auto simp: after_failure_def)

declare advance.simps [simp del]

lemma advance_Done [simp]: "advance cd exec_id net opts StreamDone tr = (None, tr)"
  by (subst advance.simps) simp

definition may_attach :: "stream_options \<Rightarrow> nat \<Rightarrow> bool" where
  "may_attach opts n \<longleftrightarrow> n = 0 \<or> so_reconnect opts \<and> n \<le> so_max_reconnects opts"

lemma advance_not_attach:
  assumes "\<not> may_attach opts n"
  shows "advance cd exec_id net opts (ReconnectAt c n) tr =
    (if so_reconnect opts then (Some (Inl (new_error Retryable (StreamDropped n c)), StreamDone), tr)
     else (None, tr))"
  using assms by (subst advance.simps) (auto simp: may_attach_def)

lemma advance_open:
  assumes "may_attach opts n" and "open_at exec_id c (net (length (cl_attaches tr)) c) = Inr a"
  shows "advance cd exec_id net opts (ReconnectAt c n) tr
    = advance cd exec_id net opts (AttachedAt a c n) (tried c n tr)"
  using assms by (subst advance.simps) (auto simp: may_attach_def)

lemma advance_failed:
  assumes "may_attach opts n" and "open_at exec_id c (net (length (cl_attaches tr)) c) = Inl e"
  shows "advance cd exec_id net opts (ReconnectAt c n) tr =
    (if retryable e \<and> so_reconnect opts
     then advance cd exec_id net opts (after_failure c n) (tried c n tr)
     else (Some (Inl e, StreamDone), tried c n tr))"
  using assms by (subst advance.simps) (auto simp: may_attach_def)

lemma advance_event:
  assumes "attach_next cd a = (Inr (Some ev), a')"
  shows "advance cd exec_id net opts (AttachedAt a c n) tr =
    (case ev of
       OutputEvent offset kind data \<Rightarrow>
         (Some (Inr ev, AttachedAt a' (max c (end_offset offset data)) n), tr)
     | GapEvent lo to \<Rightarrow>
         if so_error_on_gap opts
         then (Some (Inl (wire_error OutputGap (Unrecoverable lo to)), StreamDone), tr)
         else (Some (Inr ev, AttachedAt a' (max c to) n), tr)
     | ExitEvent x \<Rightarrow> (Some (Inr ev, StreamDone), tr))"
  using assms by (subst advance.simps) (auto split: event.splits)

lemma advance_ended:
  assumes "attach_next cd a = (Inr None, a')"
  shows "advance cd exec_id net opts (AttachedAt a c n) tr =
    (if so_reconnect opts then advance cd exec_id net opts (after_failure c n) tr else (None, tr))"
  using assms by (subst advance.simps) auto

lemma advance_broke:
  assumes "attach_next cd a = (Inl e, a')"
  shows "advance cd exec_id net opts (AttachedAt a c n) tr =
    (if retryable e \<and> so_reconnect opts then advance cd exec_id net opts (after_failure c n) tr
     else (Some (Inl e, StreamDone), tr))"
  using assms by (subst advance.simps) auto

section \<open>Driving a stream to its end\<close>

datatype end_reason = Exited | Stopped | Cut

record stream_end =
  se_reason :: end_reason
  se_cursor :: nat

definition stream_end :: "end_reason \<Rightarrow> nat \<Rightarrow> stream_end" where
  "stream_end r c = \<lparr>se_reason = r, se_cursor = c\<rparr>"

fun is_exit :: "'p event \<Rightarrow> bool" where
  "is_exit (ExitEvent x) \<longleftrightarrow> True"
| "is_exit (OutputEvent off k d) \<longleftrightarrow> False"
| "is_exit (GapEvent a b) \<longleftrightarrow> False"

fun state_chunks :: "stream_state \<Rightarrow> nat" where
  "state_chunks (AttachedAt a c n) = length (la_chunks a)"
| "state_chunks (ReconnectAt c n) = 0"
| "state_chunks StreamDone = 0"

fun state_frames :: "stream_state \<Rightarrow> nat" where
  "state_frames (AttachedAt a c n) = length (la_frames a)"
| "state_frames (ReconnectAt c n) = 0"
| "state_frames StreamDone = 0"

definition state_less :: "nat \<Rightarrow> (stream_state \<times> stream_state) set" where
  "state_less m = measures [state_rank m, state_chunks, state_frames]"

text \<open>
  Induction over the machine: a step that ends here, one that opens a connection, one whose
  attach or body fails.
\<close>

lemma advance_less:
  "advance cd exec_id net opts state tr = (Some (Inr ev, next), tr') \<Longrightarrow>
     (next, state) \<in> state_less (so_max_reconnects opts)"
proof (induction cd exec_id net opts state tr rule: advance.induct)
  case (1 cd exec_id net opts state tr)
  show ?case
  proof (cases state)
    case StreamDone
    then show ?thesis using 1(5) by simp
  next
    case (ReconnectAt cursor attempts)
    let ?answer = "net (length (cl_attaches tr)) cursor"
    have may: "may_attach opts attempts"
      using 1(5) by (cases "may_attach opts attempts") (auto simp: ReconnectAt advance_not_attach split: if_splits)
    then have go: "\<not> (0 < attempts \<and> \<not> so_reconnect opts)" "\<not> (0 < attempts \<and> so_max_reconnects opts < attempts)"
      by (auto simp: may_attach_def)
    show ?thesis
    proof (cases "open_at exec_id cursor ?answer")
      case (Inr a)
      with 1(5) have "advance cd exec_id net opts (AttachedAt a cursor attempts) (tried cursor attempts tr)
          = (Some (Inr ev, next), tr')"
        by (simp add: ReconnectAt advance_open [OF may])
      from 1(2) [OF ReconnectAt go Inr this] show ?thesis
        using go(2) by (auto simp: state_less_def ReconnectAt)
    next
      case (Inl e)
      with 1(5) have re: "retryable e \<and> so_reconnect opts"
        and "advance cd exec_id net opts (after_failure cursor attempts) (tried cursor attempts tr)
          = (Some (Inr ev, next), tr')"
        by (auto simp: ReconnectAt advance_failed [OF may] split: if_splits)
      from 1(1) [OF ReconnectAt go Inl this] show ?thesis
        using go(2) by (auto simp: state_less_def ReconnectAt after_failure_def split: if_splits)
    qed
  next
    case (AttachedAt a cursor attempts)
    obtain r a' where nx: "attach_next cd a = (r, a')" by (cases "attach_next cd a")
    consider (err) e where "r = Inl e" | (ends) "r = Inr None" | (ev) v where "r = Inr (Some v)"
      by (metis option.exhaust sum.exhaust)
    then show ?thesis
    proof cases
      case ev
      then have nx: "attach_next cd a = (Inr (Some v), a')" using nx by simp
      have "next = StreamDone \<or> (\<exists>c. next = AttachedAt a' c attempts)"
        using 1(5) by (auto simp: AttachedAt advance_event [OF nx] split: event.splits if_splits)
      then show ?thesis using attach_next_fewer [OF nx]
        by (auto simp: state_less_def AttachedAt)
    next
      case ends
      then have nx': "attach_next cd a = (Inr None, a')" using nx by simp
      from 1(5) have re: "\<not> \<not> so_reconnect opts"
        and "advance cd exec_id net opts (after_failure cursor attempts) tr = (Some (Inr ev, next), tr')"
        by (auto simp: AttachedAt advance_ended [OF nx'] split: if_splits)
      from 1(4) [OF AttachedAt nx' [symmetric] refl refl this] show ?thesis
        by (auto simp: state_less_def AttachedAt after_failure_def split: if_splits)
    next
      case err
      then have nx': "attach_next cd a = (Inl e, a')" using nx by simp
      from 1(5) have re: "retryable e \<and> so_reconnect opts"
        and "advance cd exec_id net opts (after_failure cursor attempts) tr = (Some (Inr ev, next), tr')"
        by (auto simp: AttachedAt advance_broke [OF nx'] split: if_splits)
      from 1(3) [OF AttachedAt nx' [symmetric] refl this] show ?thesis
        by (auto simp: state_less_def AttachedAt after_failure_def split: if_splits)
    qed
  qed
qed

text \<open>
  \<open>for_each_event_async\<close>: the callback sees everything delivered so far and answers
  whether to break. The result comes with what was delivered and with the log of requests.
\<close>

function drive ::
  "codec \<Rightarrow> string \<Rightarrow> network \<Rightarrow> stream_options \<Rightarrow> (exec_event list \<Rightarrow> bool) \<Rightarrow> stream_state
     \<Rightarrow> nat \<Rightarrow> exec_event list \<Rightarrow> client_log
     \<Rightarrow> (client_error + stream_end) \<times> exec_event list \<times> client_log" where
  "drive cd exec_id net opts breaks state cursor seen tr =
     (case advance cd exec_id net opts state tr of
        (None, tr') \<Rightarrow> (Inr (stream_end Cut cursor), seen, tr')
      | (Some (item, next), tr') \<Rightarrow>
          (let cursor' = (case state_cursor next of Some c \<Rightarrow> c | None \<Rightarrow> cursor) in
           case item of
             Inl e \<Rightarrow> (Inl e, seen, tr')
           | Inr ev \<Rightarrow>
               (if breaks (seen @ [ev]) then (Inr (stream_end Stopped cursor'), seen @ [ev], tr')
                else if is_exit ev then (Inr (stream_end Exited cursor'), seen @ [ev], tr')
                else drive cd exec_id net opts breaks next cursor' (seen @ [ev]) tr')))"
  by pat_completeness auto
termination
proof (relation "measures [
    (\<lambda>(cd, exec_id, net, opts, breaks, state, cursor, seen, tr). state_rank (so_max_reconnects opts) state),
    (\<lambda>(cd, exec_id, net, opts, breaks, state, cursor, seen, tr). state_chunks state),
    (\<lambda>(cd, exec_id, net, opts, breaks, state, cursor, seen, tr). state_frames state)]", goal_cases)
  case 1
  show ?case by simp
next
  case (2 cd exec_id net opts breaks state cursor seen tr q tr' r item nx c ev)
  then have "advance cd exec_id net opts state tr = (Some (Inr ev, nx), tr')" by simp
  from advance_less [OF this] show ?case by (auto simp: state_less_def)
qed

declare drive.simps [simp del]

definition for_each_event ::
  "codec \<Rightarrow> string \<Rightarrow> network \<Rightarrow> stream_options \<Rightarrow> (exec_event list \<Rightarrow> bool)
     \<Rightarrow> (client_error + stream_end) \<times> exec_event list \<times> client_log" where
  "for_each_event cd exec_id net opts breaks =
     drive cd exec_id net opts breaks (ReconnectAt (so_offset opts) 0) (so_offset opts) []
       \<lparr>cl_attaches = [], cl_sleeps = []\<rparr>"

section \<open>The requests a drive makes\<close>

text \<open>
  Every attach request goes to where the delivered events end, each reconnect waits first, and
  the budget bounds them all.
\<close>

fun state_attempts :: "stream_state \<Rightarrow> nat" where
  "state_attempts (ReconnectAt c n) = n"
| "state_attempts (AttachedAt a c n) = n"
| "state_attempts StreamDone = 0"

text \<open>Attach requests so far against failures so far: one more than the failures while attached.\<close>

definition log_ok :: "stream_options \<Rightarrow> stream_state \<Rightarrow> client_log \<Rightarrow> bool" where
  "log_ok opts state tr \<longleftrightarrow>
     length (cl_sleeps tr) = length (cl_attaches tr) - 1 \<and>
     length (cl_attaches tr) \<le> so_max_reconnects opts + 1 \<and>
     (\<not> so_reconnect opts \<longrightarrow> length (cl_attaches tr) \<le> 1) \<and>
     (\<forall>c n. state = ReconnectAt c n \<longrightarrow> length (cl_attaches tr) = n) \<and>
     (\<forall>a c n. state = AttachedAt a c n \<longrightarrow> length (cl_attaches tr) = n + 1) \<and>
     cl_sleeps tr = map backoff [1..<length (cl_attaches tr)]"

lemma tried_log:
  "cl_attaches (tried c n tr) = cl_attaches tr @ [c]"
  "cl_sleeps (tried c n tr) = cl_sleeps tr @ (if 0 < n then [backoff n] else [])"
  by (simp_all add: tried_def Let_def)

lemma log_ok_tried:
  assumes "log_ok opts (ReconnectAt c n) tr" and "may_attach opts n"
  shows "log_ok opts (AttachedAt a c n) (tried c n tr)" "log_ok opts StreamDone (tried c n tr)"
    "so_reconnect opts \<Longrightarrow> log_ok opts (after_failure c n) (tried c n tr)"
  using assms by (auto simp: log_ok_def tried_log may_attach_def after_failure_def)

lemma advance_log:
  "log_ok opts state tr \<Longrightarrow> advance cd exec_id net opts state tr = (res, tr') \<Longrightarrow>
     log_ok opts (case res of None \<Rightarrow> StreamDone | Some (item, next) \<Rightarrow> next) tr'"
proof (induction cd exec_id net opts state tr rule: advance.induct)
  case (1 cd exec_id net opts state tr)
  have fin: "log_ok opts StreamDone tr" using 1(5) by (simp add: log_ok_def)
  show ?case
  proof (cases state)
    case StreamDone
    then show ?thesis using 1(5,6) by auto
  next
    case (ReconnectAt c n)
    show ?thesis
    proof (cases "may_attach opts n")
      case False
      then show ?thesis using 1(6) fin by (auto simp: ReconnectAt advance_not_attach split: if_splits)
    next
      case may: True
      then have go: "\<not> (0 < n \<and> \<not> so_reconnect opts)" "\<not> (0 < n \<and> so_max_reconnects opts < n)"
        by (auto simp: may_attach_def)
      note ok = log_ok_tried [OF 1(5) [unfolded ReconnectAt] may]
      show ?thesis
      proof (cases "open_at exec_id c (net (length (cl_attaches tr)) c)")
        case (Inr a)
        with 1(6) have "advance cd exec_id net opts (AttachedAt a c n) (tried c n tr) = (res, tr')"
          by (simp add: ReconnectAt advance_open [OF may])
        from 1(2) [OF ReconnectAt go Inr ok(1) this] show ?thesis .
      next
        case (Inl e)
        show ?thesis
        proof (cases "retryable e \<and> so_reconnect opts")
          case True
          with 1(6) Inl have "advance cd exec_id net opts (after_failure c n) (tried c n tr) = (res, tr')"
            by (simp add: ReconnectAt advance_failed [OF may])
          from 1(1) [OF ReconnectAt go Inl True ok(3) this] True show ?thesis by simp
        next
          case False
          with 1(6) Inl ok(2) show ?thesis by (auto simp: ReconnectAt advance_failed [OF may])
        qed
      qed
    qed
  next
    case (AttachedAt a c n)
    obtain r a' where nx: "attach_next cd a = (r, a')" by (cases "attach_next cd a")
    have fail: "so_reconnect opts \<Longrightarrow> log_ok opts (after_failure c n) tr"
      using 1(5) by (simp add: log_ok_def AttachedAt after_failure_def)
    consider (err) e where "r = Inl e" | (ends) "r = Inr None" | (ev) v where "r = Inr (Some v)"
      by (metis option.exhaust sum.exhaust)
    then show ?thesis
    proof cases
      case ev
      then have nx: "attach_next cd a = (Inr (Some v), a')" using nx by simp
      have "log_ok opts (AttachedAt a' c' n) tr" for c' using 1(5) by (auto simp: log_ok_def AttachedAt)
      with 1(6) fin show ?thesis
        by (auto simp: AttachedAt advance_event [OF nx] split: event.splits if_splits)
    next
      case ends
      then have nx': "attach_next cd a = (Inr None, a')" using nx by simp
      show ?thesis
      proof (cases "so_reconnect opts")
        case True
        with 1(6) have "advance cd exec_id net opts (after_failure c n) tr = (res, tr')"
          by (simp add: AttachedAt advance_ended [OF nx'])
        from 1(4) [OF AttachedAt nx' [symmetric] refl refl _ fail [OF True] this] True show ?thesis by simp
      next
        case False
        with 1(6) fin show ?thesis by (auto simp: AttachedAt advance_ended [OF nx'])
      qed
    next
      case err
      then have nx': "attach_next cd a = (Inl e, a')" using nx by simp
      show ?thesis
      proof (cases "retryable e \<and> so_reconnect opts")
        case True
        with 1(6) have "advance cd exec_id net opts (after_failure c n) tr = (res, tr')"
          by (simp add: AttachedAt advance_broke [OF nx'])
        from 1(3) [OF AttachedAt nx' [symmetric] refl True fail this] True show ?thesis by simp
      next
        case False
        with 1(6) fin show ?thesis by (auto simp: AttachedAt advance_broke [OF nx'])
      qed
    qed
  qed
qed

section \<open>The cursor\<close>

text \<open>What a delivered event does to the offset a resume would ask for.\<close>

fun event_end :: "nat \<Rightarrow> exec_event \<Rightarrow> nat" where
  "event_end c (OutputEvent offset kind data) = max c (end_offset offset data)"
| "event_end c (GapEvent lo to) = max c to"
| "event_end c (ExitEvent x) = c"

fun cursor_after :: "nat \<Rightarrow> exec_event list \<Rightarrow> nat" where
  "cursor_after c [] = c"
| "cursor_after c (ev # evs) = cursor_after (event_end c ev) evs"

lemma cursor_after_append: "cursor_after c (xs @ ys) = cursor_after (cursor_after c xs) ys"
  by (induction c xs rule: cursor_after.induct) auto

lemma event_end_le: "c \<le> event_end c ev"
  by (cases ev) auto

lemma cursor_after_le: "c \<le> cursor_after c evs"
proof (induction c evs rule: cursor_after.induct)
  case (2 c ev evs)
  with event_end_le [of c ev] show ?case by simp
qed simp

lemma advance_cursor:
  "advance cd exec_id net opts state tr = (res, tr') \<Longrightarrow> state_cursor state = Some c \<Longrightarrow>
     (\<exists>m. cl_attaches tr' = cl_attaches tr @ replicate m c) \<and>
     (\<forall>ev next. res = Some (Inr ev, next) \<longrightarrow>
        (if is_exit ev then next = StreamDone else \<exists>a n. next = AttachedAt a (event_end c ev) n))"
proof (induction cd exec_id net opts state tr rule: advance.induct)
  case (1 cd exec_id net opts state tr)
  have none: "\<exists>m. cl_attaches tr = cl_attaches tr @ replicate m c" by (rule exI [of _ 0]) simp
  show ?case
  proof (cases state)
    case StreamDone
    then show ?thesis using 1(6) by simp
  next
    case (ReconnectAt c' n)
    then have c: "c' = c" using 1(6) by simp
    have one: "\<exists>m. cl_attaches (tried c n tr) @ replicate k c = cl_attaches tr @ replicate m c" for k
      by (rule exI [of _ "Suc k"]) (simp add: tried_log)
    show ?thesis
    proof (cases "may_attach opts n")
      case False
      then show ?thesis using 1(5) none by (auto simp: ReconnectAt advance_not_attach split: if_splits)
    next
      case may: True
      then have go: "\<not> (0 < n \<and> \<not> so_reconnect opts)" "\<not> (0 < n \<and> so_max_reconnects opts < n)"
        by (auto simp: may_attach_def)
      show ?thesis
      proof (cases "open_at exec_id c (net (length (cl_attaches tr)) c)")
        case (Inr a)
        with 1(5) have "advance cd exec_id net opts (AttachedAt a c n) (tried c n tr) = (res, tr')"
          by (simp add: ReconnectAt c advance_open [OF may])
        from 1(2) [OF ReconnectAt [unfolded c] go Inr this] one show ?thesis by fastforce
      next
        case (Inl e)
        show ?thesis
        proof (cases "retryable e \<and> so_reconnect opts")
          case True
          with 1(5) Inl have "advance cd exec_id net opts (after_failure c n) (tried c n tr) = (res, tr')"
            by (simp add: ReconnectAt c advance_failed [OF may])
          from 1(1) [OF ReconnectAt [unfolded c] go Inl True this] one show ?thesis
            by (fastforce simp: after_failure_def)
        next
          case False
          with 1(5) Inl one [of 0] show ?thesis by (auto simp: ReconnectAt c advance_failed [OF may])
        qed
      qed
    qed
  next
    case (AttachedAt a c' n)
    then have c: "c' = c" using 1(6) by simp
    obtain r a' where nx: "attach_next cd a = (r, a')" by (cases "attach_next cd a")
    consider (err) e where "r = Inl e" | (ends) "r = Inr None" | (ev) v where "r = Inr (Some v)"
      by (metis option.exhaust sum.exhaust)
    then show ?thesis
    proof cases
      case ev
      then have nx: "attach_next cd a = (Inr (Some v), a')" using nx by simp
      show ?thesis using 1(5) none
        by (cases v) (auto simp: AttachedAt c advance_event [OF nx] split: if_splits)
    next
      case ends
      then have nx': "attach_next cd a = (Inr None, a')" using nx by simp
      show ?thesis
      proof (cases "so_reconnect opts")
        case True
        with 1(5) have "advance cd exec_id net opts (after_failure c n) tr = (res, tr')"
          by (simp add: AttachedAt c advance_ended [OF nx'])
        from 1(4) [OF AttachedAt [unfolded c] nx' [symmetric] refl refl _ this] True show ?thesis
          by (simp add: after_failure_def)
      next
        case False
        with 1(5) none show ?thesis by (auto simp: AttachedAt c advance_ended [OF nx'])
      qed
    next
      case err
      then have nx': "attach_next cd a = (Inl e, a')" using nx by simp
      show ?thesis
      proof (cases "retryable e \<and> so_reconnect opts")
        case True
        with 1(5) have "advance cd exec_id net opts (after_failure c n) tr = (res, tr')"
          by (simp add: AttachedAt c advance_broke [OF nx'])
        from 1(3) [OF AttachedAt [unfolded c] nx' [symmetric] refl True this] True show ?thesis
          by (simp add: after_failure_def)
      next
        case False
        with 1(5) none show ?thesis by (auto simp: AttachedAt c advance_broke [OF nx'])
      qed
    qed
  qed
qed

text \<open>The drive between two steps: its cursor is that of what it delivered.\<close>

definition drive_ok ::
  "stream_options \<Rightarrow> stream_state \<Rightarrow> nat \<Rightarrow> exec_event list \<Rightarrow> client_log \<Rightarrow> bool" where
  "drive_ok opts state cursor seen tr \<longleftrightarrow>
     cursor = cursor_after (so_offset opts) seen \<and>
     state_cursor state = Some cursor \<and> log_ok opts state tr \<and>
     (\<forall>c \<in> set (cl_attaches tr). \<exists>k \<le> length seen. c = cursor_after (so_offset opts) (take k seen)) \<and>
     sorted (cl_attaches tr) \<and> (\<forall>c \<in> set (cl_attaches tr). c \<le> cursor)"

text \<open>What holds of the log at the end, whatever ended the drive.\<close>

definition log_good :: "stream_options \<Rightarrow> exec_event list \<Rightarrow> client_log \<Rightarrow> bool" where
  "log_good opts seen tr \<longleftrightarrow>
     length (cl_attaches tr) \<le> so_max_reconnects opts + 1 \<and>
     (so_reconnect opts \<or> length (cl_attaches tr) \<le> 1) \<and>
     cl_sleeps tr = map backoff [1..<length (cl_attaches tr)] \<and>
     sorted (cl_attaches tr) \<and>
     (\<forall>c \<in> set (cl_attaches tr). \<exists>k \<le> length seen. c = cursor_after (so_offset opts) (take k seen))"

lemma drive_ok_good:
  assumes "log_ok opts s tr" "sorted (cl_attaches tr)"
    "\<forall>c \<in> set (cl_attaches tr). \<exists>k \<le> length seen. c = cursor_after (so_offset opts) (take k seen)"
  shows "log_good opts seen tr"
  using assms by (auto simp: log_good_def log_ok_def)

lemma seen_grows:
  assumes "\<forall>c \<in> A. \<exists>k \<le> length seen. c = cursor_after x (take k seen)"
  shows "\<forall>c \<in> A. \<exists>k \<le> length (seen @ ys). c = cursor_after x (take k (seen @ ys))"
proof
  fix c assume "c \<in> A"
  with assms obtain k where "k \<le> length seen" "c = cursor_after x (take k seen)" by blast
  then show "\<exists>k \<le> length (seen @ ys). c = cursor_after x (take k (seen @ ys))"
    by (intro exI [of _ k]) simp
qed

lemma drive_result:
  "drive_ok opts state cursor seen tr \<Longrightarrow>
     drive cd exec_id net opts breaks state cursor seen tr = (res, seen', tr') \<Longrightarrow>
     log_good opts seen' tr' \<and>
     (\<forall>e. res = Inr e \<longrightarrow> se_cursor e = cursor_after (so_offset opts) seen') \<and>
     (\<exists>ys. seen' = seen @ ys)"
proof (induction cd exec_id net opts breaks state cursor seen tr rule: drive.induct)
  case (1 cd exec_id net opts breaks state cursor seen tr)
  obtain r t where adv: "advance cd exec_id net opts state tr = (r, t)"
    by (cases "advance cd exec_id net opts state tr")
  have ok: "state_cursor state = Some cursor" "cursor = cursor_after (so_offset opts) seen"
    "log_ok opts state tr" using 1(2) by (auto simp: drive_ok_def)
  obtain m where m: "cl_attaches t = cl_attaches tr @ replicate m cursor"
    and nxt: "\<forall>ev next. r = Some (Inr ev, next) \<longrightarrow>
        (if is_exit ev then next = StreamDone else \<exists>a n. next = AttachedAt a (event_end cursor ev) n)"
    using advance_cursor [OF adv ok(1)] by blast
  have tlog: "log_ok opts (case r of None \<Rightarrow> StreamDone | Some (item, next) \<Rightarrow> next) t"
    by (rule advance_log [OF ok(3) adv])
  have at: "\<forall>c \<in> set (cl_attaches t). \<exists>k \<le> length seen. c = cursor_after (so_offset opts) (take k seen)"
    using 1(2) ok(2) by (auto simp: m drive_ok_def)
  have srt: "sorted (cl_attaches t)" "\<forall>c \<in> set (cl_attaches t). c \<le> cursor"
    using 1(2) by (auto simp: m drive_ok_def sorted_append)
  have good: "log_good opts seen t" by (rule drive_ok_good [OF tlog srt(1) at])
  show ?case
  proof (cases r)
    case None
    then have "res = Inr (stream_end Cut cursor)" "seen' = seen" "tr' = t"
      using 1(3) by (simp_all add: drive.simps [of cd exec_id net opts breaks] adv)
    with good ok(2) show ?thesis by (auto simp: stream_end_def)
  next
    case (Some q)
    obtain item nx where q: "q = (item, nx)" by (cases q)
    show ?thesis
    proof (cases item)
      case (Inl e)
      then have "res = Inl e" "seen' = seen" "tr' = t"
        using 1(3) Some q by (simp_all add: drive.simps [of cd exec_id net opts breaks] adv)
      with good show ?thesis by auto
    next
      case (Inr ev)
      let ?seen = "seen @ [ev]"
      let ?c = "case state_cursor nx of None \<Rightarrow> cursor | Some c \<Rightarrow> c"
      have c: "?c = cursor_after (so_offset opts) ?seen"
        using nxt Some q Inr ok(2) by (cases ev) (auto simp: cursor_after_append)
      have at': "\<forall>c \<in> set (cl_attaches t). \<exists>k \<le> length ?seen. c = cursor_after (so_offset opts) (take k ?seen)"
        by (rule seen_grows [OF at])
      have good': "log_good opts ?seen t" by (rule drive_ok_good [OF tlog srt(1) at'])
      show ?thesis
      proof (cases "breaks ?seen \<or> is_exit ev")
        case True
        then have "\<exists>k. res = Inr (stream_end k ?c)" "seen' = ?seen" "tr' = t"
          using 1(3) Some q Inr
          by (auto simp: drive.simps [of cd exec_id net opts breaks] adv Let_def split: if_splits)
        with good' c show ?thesis by (auto simp: stream_end_def)
      next
        case False
        then have go: "\<not> breaks ?seen" "\<not> is_exit ev" by auto
        obtain a n where nx: "nx = AttachedAt a (event_end cursor ev) n"
          using nxt Some q Inr go(2) by auto
        have "drive_ok opts nx ?c ?seen t"
          using c tlog at' srt event_end_le [of cursor ev] ok(2) nx Some q
          by (fastforce simp: drive_ok_def)
        moreover have "drive cd exec_id net opts breaks nx ?c ?seen t = (res, seen', tr')"
          using 1(3) Some q Inr go
          by (simp add: drive.simps [of cd exec_id net opts breaks state] adv Let_def)
        ultimately show ?thesis
          using 1(1) [OF adv [symmetric] Some q [symmetric] refl Inr go] by fastforce
      qed
    qed
  qed
qed

lemma fresh_drive_ok:
  "drive_ok opts (ReconnectAt (so_offset opts) 0) (so_offset opts) [] \<lparr>cl_attaches = [], cl_sleeps = []\<rparr>"
  by (simp add: drive_ok_def log_ok_def)

end
