(* ===== verification/ClientStream.thy ===== *)
theory ClientStream
  imports ExecClient AttachStream
begin

text \<open>
  The client's drive against the daemon's stream. Each connection carries some prefix of the bytes
  the daemon would send from the offset the client asked for, cut anywhere, into any chunks; the
  client is proved to deliver every byte once and in order, or to report exactly the range that is
  gone, whatever the network does. The JSON and base64 codecs are the parameters of both sides;
  the properties use that decoding a rendered event gives back the event.
\<close>

section \<open>The events of one connection\<close>

text \<open>Every event \<open>Attach::next_event\<close> would give, and the error the body ends with.\<close>

function body_events :: "codec \<Rightarrow> live_attach \<Rightarrow> exec_event list \<times> client_error option" where
  "body_events cd a =
     (case attach_next cd a of
        (Inr (Some ev), a') \<Rightarrow> (ev # fst (body_events cd a'), snd (body_events cd a'))
      | (Inr None, a') \<Rightarrow> ([], None)
      | (Inl e, a') \<Rightarrow> ([], Some e))"
  by pat_completeness auto
termination
  by (relation "measures [\<lambda>(cd, a). length (la_chunks a), \<lambda>(cd, a). length (la_frames a)]")
    (auto dest: attach_next_fewer simp: eq_commute [of _ "attach_next _ _"])

declare body_events.simps [simp del]

lemma body_events_step:
  "attach_next cd a = (Inr (Some ev), a') \<Longrightarrow>
     body_events cd a = (ev # fst (body_events cd a'), snd (body_events cd a'))"
  "attach_next cd a = (Inr None, a') \<Longrightarrow> body_events cd a = ([], None)"
  "attach_next cd a = (Inl e, a') \<Longrightarrow> body_events cd a = ([], Some e)"
  by (subst body_events.simps, simp)+

text \<open>A connection whose frames all decode: its events are those of the frames, in order.\<close>

definition decodes :: "codec \<Rightarrow> sse_frame list \<Rightarrow> exec_event list \<Rightarrow> bool" where
  "decodes cd fs evs \<longleftrightarrow> list_all2 (\<lambda>f ev. decode cd f = Inr (Some ev)) fs evs"

lemma body_events_frames:
  "decodes cd fs evs \<Longrightarrow> la_frames a = fs @ gs \<Longrightarrow>
     body_events cd a = (evs @ fst (body_events cd (a\<lparr>la_frames := gs\<rparr>)), snd (body_events cd (a\<lparr>la_frames := gs\<rparr>)))"
proof (induction fs arbitrary: evs a)
  case Nil
  have "a\<lparr>la_frames := gs\<rparr> = a"
    using Nil.prems(2) by (cases a) simp
  moreover have "evs = []" using Nil.prems(1) by (simp add: decodes_def)
  ultimately show ?case by (metis append_Nil prod.collapse)
next
  case (Cons f fs)
  then obtain ev rest where evs: "evs = ev # rest" "decode cd f = Inr (Some ev)" "decodes cd fs rest"
    by (auto simp: decodes_def list_all2_Cons1)
  let ?a = "a\<lparr>la_frames := fs @ gs\<rparr>"
  have "attach_next cd a = (Inr (Some ev), ?a)"
    using Cons.prems evs by (subst attach_next.simps) simp
  from body_events_step(1) [OF this] Cons.IH [OF evs(3), of ?a] show ?case by (simp add: evs)
qed

lemma body_events_chunks:
  assumes "feed_chunks cs p = (Inr fs, q)" and "decodes cd fs evs"
  shows "body_events cd \<lparr>la_chunks = cs, la_end = ending, la_parser = p, la_frames = []\<rparr> = (evs, ending)"
  using assms
proof (induction cs arbitrary: p fs evs)
  case Nil
  then have "fs = []" "evs = []" by (auto simp: decodes_def)
  then show ?case
    by (subst body_events.simps, subst attach_next.simps) (simp split: option.splits)
next
  case (Cons c cs)
  obtain gs p' hs where step: "feed c p = (Inr gs, p')" "feed_chunks cs p' = (Inr hs, q)" and fs: "fs = gs @ hs"
    using Cons.prems(1) by (auto split: sum.splits prod.splits)
  obtain es es' where evs: "evs = es @ es'" "decodes cd gs es" "decodes cd hs es'"
    using Cons.prems(2) by (auto simp: decodes_def fs list_all2_append1)
  let ?a = "\<lparr>la_chunks = c # cs, la_end = ending, la_parser = p, la_frames = []\<rparr>"
  let ?b = "\<lparr>la_chunks = cs, la_end = ending, la_parser = p', la_frames = gs\<rparr>"
  have "attach_next cd ?a = attach_next cd ?b"
    using step(1) by (subst attach_next.simps) simp
  then have "body_events cd ?a = body_events cd ?b"
    by (simp add: body_events.simps [of cd ?a] body_events.simps [of cd ?b])
  also have "\<dots> = (es @ es', ending)"
    using body_events_frames [OF evs(2), of ?b "[]"] Cons.IH [OF step(2) evs(3)] by simp
  finally show ?case by (simp add: evs)
qed

text \<open>
  A body that arrived only in part, cut at any byte: the frames are a prefix of the frames of the
  whole body.
\<close>

lemma cut_body_events:
  assumes "eol \<in> set EOLS" and "concat cs @ missing = concat (map (sse_text eol) items)"
    and "\<forall>it \<in> set items. item_clean it \<and> length (sse_text eol it) \<le> MAX_PENDING_BYTES"
    and "decodes cd (concat (map item_frames items)) evs"
  shows "\<exists>n. body_events cd \<lparr>la_chunks = cs, la_end = ending, la_parser = sse_new, la_frames = []\<rparr>
      = (take n evs, ending)"
    and "missing = [] \<Longrightarrow> body_events cd \<lparr>la_chunks = cs, la_end = ending, la_parser = sse_new, la_frames = []\<rparr>
      = (evs, ending)"
proof -
  have "length (snd (parse_all (concat (take k cs)))) \<le> MAX_PENDING_BYTES" for k
  proof (rule residue_within_item [OF assms(1) _ assms(3)])
    show "concat (take k cs) @ (concat (drop k cs) @ missing) = concat (map (sse_text eol) items)"
      using assms(2) by (metis append.assoc append_take_drop_id concat_append)
  qed
  then have "\<not> (\<exists>e q. feed_chunks cs sse_new = (Inl e, q))"
    unfolding feed_chunks_refused [OF sse_new_ok] by (simp add: sse_new_def not_less)
  then obtain fs q where f: "feed_chunks cs sse_new = (Inr fs, q)"
    by (metis sum.exhaust surj_pair)
  have fs: "fs = fst (parse_all (concat cs))"
    using feed_chunks_parse_all [OF sse_new_ok f] by (simp add: sse_new_def)
  have all: "fst (parse_all (concat cs @ missing)) = concat (map item_frames items)"
    using parse_items [OF assms(1), of items "[]"] assms(2,3)
    by simp
  have pre: "concat (map item_frames items) = fs @ fst (parse_all (snd (parse_all (concat cs)) @ missing))"
    using all parse_all_append [of "concat cs" missing] by (simp add: fs)
  then obtain es es' where es: "evs = es @ es'" "decodes cd fs es"
    using assms(4) by (auto simp: decodes_def list_all2_append1)
  then have "es = take (length es) evs" by simp
  with body_events_chunks [OF f es(2), of ending]
  show "\<exists>n. body_events cd \<lparr>la_chunks = cs, la_end = ending, la_parser = sse_new, la_frames = []\<rparr>
      = (take n evs, ending)" by metis
  show "body_events cd \<lparr>la_chunks = cs, la_end = ending, la_parser = sse_new, la_frames = []\<rparr> = (evs, ending)"
    if "missing = []"
  proof -
    have "decodes cd fs evs" using assms(4) pre that by simp
    from body_events_chunks [OF f this] show ?thesis .
  qed
qed

section \<open>Where a delivered event comes from\<close>

lemma advance_event_source:
  "advance cd exec_id net opts state tr = (Some (Inr ev, nxt), tr') \<Longrightarrow> state_cursor state = Some c \<Longrightarrow>
     \<exists>a a' n. ((\<exists>m. state = AttachedAt a c m) \<or> (\<exists>k. open_at exec_id c (net k c) = Inr a)) \<and>
       attach_next cd a = (Inr (Some ev), a') \<and>
       (if is_exit ev then nxt = StreamDone else nxt = AttachedAt a' (event_end c ev) n)"
proof (induction cd exec_id net opts state tr rule: advance.induct)
  case (1 cd exec_id net opts state tr)
  show ?case
  proof (cases state)
    case StreamDone
    then show ?thesis using 1(5) by simp
  next
    case (ReconnectAt c' n)
    then have c: "c' = c" using 1(6) by simp
    have may: "may_attach opts n"
      using 1(5) by (cases "may_attach opts n") (auto simp: ReconnectAt advance_not_attach split: if_splits)
    then have go: "\<not> (0 < n \<and> \<not> so_reconnect opts)" "\<not> (0 < n \<and> so_max_reconnects opts < n)"
      by (auto simp: may_attach_def)
    show ?thesis
    proof (cases "open_at exec_id c (net (length (cl_attaches tr)) c)")
      case (Inr a)
      with 1(5) have "advance cd exec_id net opts (AttachedAt a c n) (tried c n tr) = (Some (Inr ev, nxt), tr')"
        by (simp add: ReconnectAt c advance_open [OF may])
      from 1(2) [OF ReconnectAt [unfolded c] go Inr this] Inr show ?thesis by auto
    next
      case (Inl e)
      with 1(5) have re: "retryable e \<and> so_reconnect opts"
        and "advance cd exec_id net opts (after_failure c n) (tried c n tr) = (Some (Inr ev, nxt), tr')"
        by (auto simp: ReconnectAt c advance_failed [OF may] split: if_splits)
      from 1(1) [OF ReconnectAt [unfolded c] go Inl this] show ?thesis
        unfolding after_failure_def state_cursor.simps by blast
    qed
  next
    case (AttachedAt a c' n)
    then have c: "c' = c" using 1(6) by simp
    obtain r a' where nx: "attach_next cd a = (r, a')" by (cases "attach_next cd a")
    consider (err) e where "r = Inl e" | (ends) "r = Inr None" | (ev) v where "r = Inr (Some v)"
      by (metis option.exhaust sum.exhaust)
    then show ?thesis
    proof cases
      case ev
      then have nx: "attach_next cd a = (Inr (Some v), a')" using nx by simp
      show ?thesis using 1(5) nx
        by (cases v) (auto simp: AttachedAt c advance_event [OF nx] split: if_splits)
    next
      case ends
      then have nx': "attach_next cd a = (Inr None, a')" using nx by simp
      from 1(5) have re: "\<not> \<not> so_reconnect opts"
        and "advance cd exec_id net opts (after_failure c n) tr = (Some (Inr ev, nxt), tr')"
        by (auto simp: AttachedAt c advance_ended [OF nx'] split: if_splits)
      from 1(4) [OF AttachedAt [unfolded c] nx' [symmetric] refl refl this] show ?thesis
        unfolding after_failure_def state_cursor.simps by blast
    next
      case err
      then have nx': "attach_next cd a = (Inl e, a')" using nx by simp
      from 1(5) have re: "retryable e \<and> so_reconnect opts"
        and "advance cd exec_id net opts (after_failure c n) tr = (Some (Inr ev, nxt), tr')"
        by (auto simp: AttachedAt c advance_broke [OF nx'] split: if_splits)
      from 1(3) [OF AttachedAt [unfolded c] nx' [symmetric] refl this] show ?thesis
        unfolding after_failure_def state_cursor.simps by blast
    qed
  qed
qed

section \<open>Honest connections\<close>

text \<open>A decoded event carries its bytes as they are.\<close>

definition raw :: "bytes \<Rightarrow> bytes" where
  "raw b = b"

text \<open>
  What one connection opened at \<open>c\<close> may deliver of a history: events that account for
  the bytes from \<open>c\<close> on, as far as the connection got, and the exit event only last. A
  connection that is \<open>whole\<close> never leads past the history, and reaches its end before the
  exit event.
\<close>

definition honest_body :: "bool \<Rightarrow> history \<Rightarrow> nat \<Rightarrow> exec_event list \<Rightarrow> bool" where
  "honest_body whole h c evs \<longleftrightarrow>
     (\<exists>body tail q. evs = body @ tail \<and> tiles raw c body q \<and>
        (tail = [] \<or> (\<exists>x. tail = [ExitEvent x])) \<and> (\<forall>e \<in> set body. faithful raw h e) \<and>
        (whole \<longrightarrow> q \<le> max c (length h) \<and> (tail \<noteq> [] \<longrightarrow> q = max c (length h))))"

definition honest :: "bool \<Rightarrow> codec \<Rightarrow> string \<Rightarrow> network \<Rightarrow> history \<Rightarrow> bool" where
  "honest whole cd exec_id net h \<longleftrightarrow>
     (\<forall>k c a. open_at exec_id c (net k c) = Inr a \<longrightarrow> honest_body whole h c (fst (body_events cd a)))"

lemma honest_bodyE:
  assumes "honest_body whole h c evs"
  obtains body tail q where "evs = body @ tail" "tiles raw c body q"
    "tail = [] \<or> (\<exists>x. tail = [ExitEvent x])" "\<forall>e \<in> set body. faithful raw h e"
    "whole \<longrightarrow> q \<le> max c (length h)" "whole \<longrightarrow> tail \<noteq> [] \<longrightarrow> q = max c (length h)"
  using assms unfolding honest_body_def by blast

lemma honest_body_take: "honest_body whole h c evs \<Longrightarrow> honest_body whole h c (take n evs)"
proof -
  assume "honest_body whole h c evs"
  then obtain body tail q where b: "evs = body @ tail" "tiles raw c body q"
    "tail = [] \<or> (\<exists>x. tail = [ExitEvent x])" "\<forall>e \<in> set body. faithful raw h e"
    "whole \<longrightarrow> q \<le> max c (length h)" "whole \<longrightarrow> tail \<noteq> [] \<longrightarrow> q = max c (length h)"
    by (rule honest_bodyE)
  show "honest_body whole h c (take n evs)"
  proof (cases "n \<le> length body")
    case True
    obtain m where m: "tiles raw c (take n body) m" "tiles raw m (drop n body) q"
      using b(2) tiles_append [of raw c "take n body" "drop n body" q] by auto
    have "m \<le> q" by (rule tiles_le [OF m(2)])
    with b(4,5) m(1) show ?thesis
      unfolding honest_body_def
      by (intro exI [of _ "take n body"] exI [of _ "[]"] exI [of _ m])
        (auto simp: b(1) True dest: in_set_takeD)
  next
    case False
    have "take n evs = body @ take (n - length body) tail" using False by (simp add: b(1))
    moreover have "take (n - length body) tail = tail" using b(3) False by auto
    ultimately show ?thesis using \<open>honest_body whole h c evs\<close> by (simp add: b(1))
  qed
qed

lemma tiles_cursor:
  assumes "length h < 2 ^ 64"
  shows "tiles raw p evs q \<Longrightarrow> \<forall>e \<in> set evs. faithful raw h e \<Longrightarrow> cursor_after p evs = q"
proof (induction evs arbitrary: p)
  case Nil
  then show ?case by simp
next
  case (Cons ev evs)
  show ?case
  proof (cases ev)
    case (OutputEvent off k d)
    with Cons.prems(2) have "off + length d \<le> length h" by (simp add: raw_def)
    with assms have "end_offset off d = off + length d" by (simp add: end_offset_def)
    with Cons OutputEvent show ?thesis by (simp add: raw_def)
  qed (use Cons in \<open>simp_all add: raw_def\<close>)
qed

lemma cursor_after_exits: "cursor_after p (filter (\<lambda>e. \<not> is_exit e) evs) = cursor_after p evs"
proof (induction evs arbitrary: p)
  case (Cons ev evs)
  then show ?case by (cases ev) simp_all
qed simp

lemma honest_body_Cons:
  assumes "honest_body whole h c (ev # evs)" and "\<not> is_exit ev" and "length h < 2 ^ 64"
  shows "tiles raw c [ev] (event_end c ev) \<and> faithful raw h ev \<and>
    honest_body whole h (event_end c ev) evs \<and>
    (whole \<longrightarrow> event_end c ev \<le> max c (length h))"
proof -
  obtain body tail q where b: "ev # evs = body @ tail" "tiles raw c body q"
    "tail = [] \<or> (\<exists>x. tail = [ExitEvent x])" "\<forall>e \<in> set body. faithful raw h e"
    "whole \<longrightarrow> q \<le> max c (length h)" "whole \<longrightarrow> tail \<noteq> [] \<longrightarrow> q = max c (length h)"
    using assms(1) by (rule honest_bodyE)
  have "body \<noteq> []" using b(1,3) assms(2) by auto
  with b(1) obtain rest where body: "body = ev # rest" "evs = rest @ tail" by (cases body) auto
  obtain m where m: "tiles raw c [ev] m" "tiles raw m rest q"
    using b(2) tiles_append [of raw c "[ev]" rest q] by (auto simp: body)
  have "cursor_after c [ev] = m" using tiles_cursor [OF assms(3) m(1)] b(4) by (simp add: body)
  then have ends: "m = event_end c ev" by simp
  note le = tiles_le [OF m(1)] tiles_le [OF m(2)]
  have "honest_body whole h m evs"
    unfolding honest_body_def
    by (intro exI [of _ rest] exI [of _ tail] exI [of _ q])
      (use b(3-6) body m(2) le in \<open>auto simp: max_def split: if_splits\<close>)
  with m(1) b(4,5) le show ?thesis by (auto simp: ends body)
qed

lemma honest_exit_last:
  assumes "honest_body whole h c (ev # evs)" and "is_exit ev"
  shows "evs = []" and "whole \<Longrightarrow> length h \<le> c"
proof -
  obtain body tail q where b: "ev # evs = body @ tail" "tiles raw c body q"
    "tail = [] \<or> (\<exists>x. tail = [ExitEvent x])"
    "whole \<longrightarrow> tail \<noteq> [] \<longrightarrow> q = max c (length h)"
    using assms(1) unfolding honest_body_def by blast
  have "body = []"
  proof (rule ccontr)
    assume "body \<noteq> []"
    with b(1) obtain rest where "body = ev # rest" by (cases body) auto
    with b(2) assms(2) show False by (cases ev) auto
  qed
  with b show "evs = []" "whole \<Longrightarrow> length h \<le> c" by (auto simp: max_def split: if_splits)
qed

text \<open>What a drive has delivered so far, at its state.\<close>

definition delivering :: "bool \<Rightarrow> codec \<Rightarrow> history \<Rightarrow> nat \<Rightarrow> stream_state \<Rightarrow> nat \<Rightarrow> exec_event list \<Rightarrow> bool" where
  "delivering whole cd h offset state cursor seen \<longleftrightarrow>
     state_cursor state = Some cursor \<and> tiles raw offset seen cursor \<and> (\<forall>e \<in> set seen. faithful raw h e) \<and>
     (whole \<longrightarrow> cursor \<le> max offset (length h)) \<and>
     (\<forall>a n. state = AttachedAt a cursor n \<longrightarrow> honest_body whole h cursor (fst (body_events cd a)))"

lemma drive_delivers:
  assumes "honest whole cd exec_id net h" and "length h < 2 ^ 64"
  shows "delivering whole cd h offset state cursor seen \<Longrightarrow>
     drive cd exec_id net opts breaks state cursor seen tr = (res, seen', tr') \<Longrightarrow>
     \<exists>body tail q. seen' = body @ tail \<and> tiles raw offset body q \<and> (\<forall>e \<in> set body. faithful raw h e) \<and>
       (tail = [] \<or> (\<exists>x. tail = [ExitEvent x])) \<and>
       (\<forall>e. res = Inr e \<longrightarrow> se_cursor e = q \<and> (se_reason e = Exited \<longrightarrow> tail \<noteq> []) \<and>
          (se_reason e = Cut \<longrightarrow> tail = [])) \<and>
       (whole \<longrightarrow> q \<le> max offset (length h) \<and> (tail \<noteq> [] \<longrightarrow> q = max offset (length h)))"
  using assms
proof (induction cd exec_id net opts breaks state cursor seen tr rule: drive.induct)
  case (1 cd exec_id net opts breaks state cursor seen tr)
  obtain r t where adv: "advance cd exec_id net opts state tr = (r, t)"
    by (cases "advance cd exec_id net opts state tr")
  note d = 1(2) [unfolded delivering_def]
  consider (stop) "r = None" | (fail) e nx where "r = Some (Inl e, nx)"
    | (ev) ev nx where "r = Some (Inr ev, nx)"
    by (metis option.exhaust sum.exhaust surj_pair)
  then show ?case
  proof cases
    case stop
    then have r: "res = Inr (stream_end Cut cursor)" "seen' = seen"
      using 1(3) by (simp_all add: drive.simps [of cd exec_id net opts breaks] adv)
    show ?thesis
      by (rule exI [of _ seen], rule exI [of _ "[]"], rule exI [of _ cursor])
        (use d r in \<open>simp add: stream_end_def\<close>)
  next
    case fail
    then have r: "res = Inl e" "seen' = seen"
      using 1(3) by (simp_all add: drive.simps [of cd exec_id net opts breaks] adv)
    show ?thesis
      by (rule exI [of _ seen], rule exI [of _ "[]"], rule exI [of _ cursor]) (use d r in simp)
  next
    case ev
    from advance_event_source [OF adv [unfolded ev]] d obtain a a' n where
      src: "(\<exists>m. state = AttachedAt a cursor m) \<or> (\<exists>k. open_at exec_id cursor (net k cursor) = Inr a)"
      and nx: "attach_next cd a = (Inr (Some ev), a')"
      and nxt: "if is_exit ev then nx = StreamDone else nx = AttachedAt a' (event_end cursor ev) n"
      by blast
    have "honest_body whole h cursor (fst (body_events cd a))"
      using src d 1(4) by (auto simp: honest_def)
    then have hb: "honest_body whole h cursor (ev # fst (body_events cd a'))"
      using body_events_step(1) [OF nx] by simp
    let ?c = "case state_cursor nx of None \<Rightarrow> cursor | Some c \<Rightarrow> c"
    show ?thesis
    proof (cases "is_exit ev")
      case True
      then obtain k where r: "res = Inr (stream_end k cursor)" "k \<noteq> Cut" "seen' = seen @ [ev]"
        using 1(3) ev nxt
        by (auto simp: drive.simps [of cd exec_id net opts breaks] adv Let_def split: if_splits)
      obtain x where x: "ev = ExitEvent x" using True by (cases ev) auto
      have "offset \<le> cursor" using d tiles_le by blast
      with d honest_exit_last(2) [OF hb True] have reached: "whole \<longrightarrow> cursor = max offset (length h)"
        by auto
      from x reached show ?thesis
        by - (rule exI [of _ seen], rule exI [of _ "[ev]"], rule exI [of _ cursor],
          use d r in \<open>simp add: stream_end_def\<close>)
    next
      case False
      have step: "tiles raw cursor [ev] (event_end cursor ev)" "faithful raw h ev"
        "honest_body whole h (event_end cursor ev) (fst (body_events cd a'))"
        "whole \<longrightarrow> event_end cursor ev \<le> max cursor (length h)"
        using honest_body_Cons [OF hb False 1(5)] by auto
      have within: "whole \<longrightarrow> event_end cursor ev \<le> max offset (length h)" using step(4) d by auto
      have c: "?c = event_end cursor ev" using nxt False by simp
      have t: "tiles raw offset (seen @ [ev]) (event_end cursor ev)" "\<forall>e \<in> set (seen @ [ev]). faithful raw h e"
        using d step by (auto simp: tiles_append)
      show ?thesis
      proof (cases "breaks (seen @ [ev])")
        case True
        then have r: "res = Inr (stream_end Stopped ?c)" "seen' = seen @ [ev]"
          using 1(3) ev by (simp_all add: drive.simps [of cd exec_id net opts breaks] adv Let_def)
        show ?thesis
          by (rule exI [of _ "seen @ [ev]"], rule exI [of _ "[]"], rule exI [of _ ?c])
            (use t c r within in \<open>simp add: stream_end_def\<close>)
      next
        case nb: False
        have "drive cd exec_id net opts breaks nx ?c (seen @ [ev]) t = (res, seen', tr')"
          using 1(3) ev nb False by (simp add: drive.simps [of cd exec_id net opts breaks state] adv Let_def)
        moreover have "delivering whole cd h offset nx ?c (seen @ [ev])"
          using t c step(3) nxt False within by (simp add: delivering_def)
        ultimately show ?thesis
          using 1(1) [OF adv [symmetric] ev refl refl refl nb False] 1(4,5) by blast
      qed
    qed
  qed
qed

section \<open>The daemon at the other end\<close>

text \<open>
  The chunks of one connection opened at \<open>c\<close>: some first part of the text of the
  daemon's stream from \<open>c\<close>, taken after the publishes \<open>ps\<close>, with any live
  channel. Rendering an event and decoding its frame gives the event back, which is what the
  serializer of the daemon and the decoder of the client promise; comments may stand between.
  With \<open>whole\<close> the daemon's stream (not what the network leaves of it) sees the whole
  exec: an exec found over published nothing after the snapshot, and a running one's channel hands
  over what is published, losing chunks only to lags.
\<close>

definition carries ::
  "bool \<Rightarrow> codec \<Rightarrow> (bytes \<Rightarrow> 'p) \<Rightarrow> ('p \<Rightarrow> bytes) \<Rightarrow> bytes \<Rightarrow> nat \<Rightarrow> (stream_kind \<times> bytes) list \<Rightarrow> nat \<Rightarrow> bytes list \<Rightarrow> bool"
where
  "carries whole cd enc dec eol cap all c chunks \<longleftrightarrow>
     (\<exists>ps later gap backlog cursor view inputs fin items missing.
        all = ps @ later \<and>
        since (publish_all cap ps default_log) c = (gap, backlog, cursor) \<and>
        inputs_true (published all) inputs \<and>
        (whole \<longrightarrow> sees_all fin (length (published ps)) (length (published all)) inputs) \<and>
        (\<forall>it \<in> set items. item_clean it \<and> length (sse_text eol it) \<le> MAX_PENDING_BYTES) \<and>
        decodes cd (concat (map item_frames items))
          (map (map_event dec) (stream_events enc view inputs (open_attach gap backlog cursor fin))) \<and>
        concat chunks @ missing = concat (map (sse_text eol) items))"

lemma tiles_map: "tiles raw p (map (map_event dec) es) q \<longleftrightarrow> tiles dec p es q"
proof (induction es arbitrary: p)
  case Nil
  show ?case by simp
next
  case (Cons e es)
  then show ?case by (cases e) (simp_all add: raw_def)
qed

lemma faithful_map: "faithful raw h (map_event dec e) \<longleftrightarrow> faithful dec h e"
  by (cases e) (simp_all add: raw_def)

lemma carries_honest:
  assumes "carries whole cd enc dec eol cap all c chunks" and "eol \<in> set EOLS" and "\<And>b. dec (enc b) = b"
  shows "honest_body whole (published all) c
    (fst (body_events cd \<lparr>la_chunks = chunks, la_end = ending, la_parser = sse_new, la_frames = []\<rparr>))"
proof -
  obtain ps later gap backlog cursor view inputs fin items missing where
    all: "all = ps @ later" and since: "since (publish_all cap ps default_log) c = (gap, backlog, cursor)"
    and inp: "inputs_true (published all) inputs"
    and sees: "whole \<longrightarrow> sees_all fin (length (published ps)) (length (published all)) inputs"
    and items: "\<forall>it \<in> set items. item_clean it \<and> length (sse_text eol it) \<le> MAX_PENDING_BYTES"
    and dc: "decodes cd (concat (map item_frames items))
          (map (map_event dec) (stream_events enc view inputs (open_attach gap backlog cursor fin)))"
    and cut: "concat chunks @ missing = concat (map (sse_text eol) items)"
    using assms(1) unfolding carries_def by blast
  let ?evs = "stream_events enc view inputs (open_attach gap backlog cursor fin)"
  let ?q = "stream_reach fin inputs (max c (length (published ps)))"
  obtain body where
    ev: "?evs = body @ stream_exit fin view inputs" "tiles dec c body ?q"
    "\<forall>e \<in> set body. faithful dec (published all) e"
    using ring.stream_tiles [where dec = dec and enc = enc, OF assms(3) fresh_log_inv since window_start_le,
        of "published later" inputs view fin] inp unfolding all published_append by blast
  have "length (published ps) \<le> length (published all)" by (simp add: all published_append)
  with sees have q: "whole \<longrightarrow> ?q = max c (length (published all))"
    using sees_all_reach(1) by blast
  have tail: "map (map_event dec) (stream_exit fin view inputs) = [] \<or>
      (\<exists>x. map (map_event dec) (stream_exit fin view inputs) = [ExitEvent x])"
    by (auto simp: stream_exit_def exit_event_of_def Let_def split: option.splits)
  have "honest_body whole (published all) c (map (map_event dec) ?evs)"
    unfolding honest_body_def
    by (rule exI [of _ "map (map_event dec) body"],
        rule exI [of _ "map (map_event dec) (stream_exit fin view inputs)"], rule exI [of _ ?q])
      (use ev q tail in \<open>auto simp: tiles_map faithful_map\<close>)
  with cut_body_events(1) [OF assms(2) cut items dc, of ending] show ?thesis
    by (auto intro: honest_body_take)
qed

definition served ::
  "bool \<Rightarrow> codec \<Rightarrow> (bytes \<Rightarrow> 'p) \<Rightarrow> ('p \<Rightarrow> bytes) \<Rightarrow> bytes \<Rightarrow> nat \<Rightarrow> (stream_kind \<times> bytes) list \<Rightarrow> network \<Rightarrow> bool" where
  "served whole cd enc dec eol cap all net \<longleftrightarrow>
     (\<forall>k c status body chunks ending.
        net k c = Response status body chunks ending \<longrightarrow> carries whole cd enc dec eol cap all c chunks)"

lemma served_honest:
  assumes "served whole cd enc dec eol cap all net" and "eol \<in> set EOLS" and "\<And>b. dec (enc b) = b"
  shows "honest whole cd exec_id net (published all)"
  unfolding honest_def
proof (intro allI impI)
  fix k c a
  assume "open_at exec_id c (net k c) = Inr a"
  then obtain status body chunks ending where "net k c = Response status body chunks ending"
    and "a = \<lparr>la_chunks = chunks, la_end = ending, la_parser = sse_new, la_frames = []\<rparr>"
    by (auto simp: open_at_def bind_r_Inr split: attach_answer.splits)
  with assms carries_honest [of whole cd enc dec eol cap all c chunks ending]
  show "honest_body whole (published all) c (fst (body_events cd a))"
    unfolding served_def by blast
qed

lemma out_bytes_append: "out_bytes dec (xs @ ys) = out_bytes dec xs @ out_bytes dec ys"
  by (induction dec xs rule: out_bytes.induct) auto

section \<open>Cuts are ridden out\<close>

lemma drive_same_advance:
  "advance cd exec_id net opts s tr = advance cd exec_id net opts s' tr' \<Longrightarrow>
     drive cd exec_id net opts breaks s c seen tr = drive cd exec_id net opts breaks s' c seen tr'"
  by (simp add: drive.simps [of cd exec_id net opts breaks])

text \<open>A connection without an exit event is delivered whole, then counts as one failure.\<close>

lemma drive_cut_body:
  assumes "so_reconnect opts" and "\<not> so_error_on_gap opts"
  shows "\<forall>ev \<in> set (fst (body_events cd a)). \<not> is_exit ev \<Longrightarrow>
    (\<forall>e. snd (body_events cd a) = Some e \<longrightarrow> retryable e) \<Longrightarrow>
    drive cd exec_id net opts (\<lambda>_. False) (AttachedAt a c n) c seen tr
      = drive cd exec_id net opts (\<lambda>_. False) (after_failure (cursor_after c (fst (body_events cd a))) n)
          (cursor_after c (fst (body_events cd a))) (seen @ fst (body_events cd a)) tr"
proof (induction cd a arbitrary: c seen rule: body_events.induct)
  case (1 cd a)
  obtain r a' where nx: "attach_next cd a = (r, a')" by (cases "attach_next cd a")
  consider (err) e where "r = Inl e" | (ends) "r = Inr None" | (ev) v where "r = Inr (Some v)"
    by (metis option.exhaust sum.exhaust)
  then show ?case
  proof cases
    case err
    then have nx': "attach_next cd a = (Inl e, a')" using nx by simp
    then have "advance cd exec_id net opts (AttachedAt a c n) tr = advance cd exec_id net opts (after_failure c n) tr"
      using 1(4) assms(1) body_events_step(3) [OF nx'] by (simp add: advance_broke [OF nx'])
    from drive_same_advance [OF this] body_events_step(3) [OF nx'] show ?thesis by simp
  next
    case ends
    then have nx': "attach_next cd a = (Inr None, a')" using nx by simp
    then have "advance cd exec_id net opts (AttachedAt a c n) tr = advance cd exec_id net opts (after_failure c n) tr"
      using assms(1) by (simp add: advance_ended [OF nx'])
    from drive_same_advance [OF this] body_events_step(2) [OF nx'] show ?thesis by simp
  next
    case ev
    then have nx': "attach_next cd a = (Inr (Some v), a')" using nx by simp
    note be = body_events_step(1) [OF nx']
    have ne: "\<not> is_exit v" using 1(3) be by simp
    then have "advance cd exec_id net opts (AttachedAt a c n) tr = (Some (Inr v, AttachedAt a' (event_end c v) n), tr)"
      using assms(2) by (cases v) (simp_all add: advance_event [OF nx'])
    then have "drive cd exec_id net opts (\<lambda>_. False) (AttachedAt a c n) c seen tr
        = drive cd exec_id net opts (\<lambda>_. False) (AttachedAt a' (event_end c v) n) (event_end c v) (seen @ [v]) tr"
      using ne by (simp add: drive.simps [of cd exec_id net opts "\<lambda>_. False" "AttachedAt a c n"])
    with 1(1) [OF nx' [symmetric] refl refl, of "event_end c v" "seen @ [v]"] 1(3,4) be show ?thesis by simp
  qed
qed

lemma drive_exit_body:
  assumes "\<not> so_error_on_gap opts"
  shows "fst (body_events cd a) = evs @ [ExitEvent x] \<Longrightarrow> \<forall>ev \<in> set evs. \<not> is_exit ev \<Longrightarrow>
    drive cd exec_id net opts (\<lambda>_. False) (AttachedAt a c n) c seen tr
      = (Inr (stream_end Exited (cursor_after c evs)), seen @ evs @ [ExitEvent x], tr)"
proof (induction evs arbitrary: a c seen)
  case Nil
  obtain r a' where nx: "attach_next cd a = (r, a')" by (cases "attach_next cd a")
  with Nil(1) have "attach_next cd a = (Inr (Some (ExitEvent x)), a')"
    by (subst (asm) body_events.simps) (auto split: sum.splits option.splits)
  from advance_event [OF this] show ?case
    by (simp add: drive.simps [of cd exec_id net opts "\<lambda>_. False" "AttachedAt a c n"])
next
  case (Cons v evs)
  obtain r a' where nx: "attach_next cd a = (r, a')" by (cases "attach_next cd a")
  with Cons(2) have nx': "attach_next cd a = (Inr (Some v), a')"
    by (subst (asm) body_events.simps) (auto split: sum.splits option.splits)
  have ne: "\<not> is_exit v" using Cons(3) by simp
  then have "advance cd exec_id net opts (AttachedAt a c n) tr = (Some (Inr v, AttachedAt a' (event_end c v) n), tr)"
    using assms(1) by (cases v) (simp_all add: advance_event [OF nx'])
  then have "drive cd exec_id net opts (\<lambda>_. False) (AttachedAt a c n) c seen tr
      = drive cd exec_id net opts (\<lambda>_. False) (AttachedAt a' (event_end c v) n) (event_end c v) (seen @ [v]) tr"
    using ne by (simp add: drive.simps [of cd exec_id net opts "\<lambda>_. False" "AttachedAt a c n"])
  with Cons.IH [of a' "event_end c v" "seen @ [v]"] Cons(2,3) body_events_step(1) [OF nx'] show ?case by simp
qed

text \<open>An attach that fails, or a body that is cut, in a way a reconnect is tried for.\<close>

definition cut_or_refused :: "codec \<Rightarrow> string \<Rightarrow> nat \<Rightarrow> attach_answer \<Rightarrow> bool" where
  "cut_or_refused cd exec_id c answer \<longleftrightarrow>
     (case open_at exec_id c answer of
        Inl e \<Rightarrow> retryable e
      | Inr a \<Rightarrow> (\<forall>ev \<in> set (fst (body_events cd a)). \<not> is_exit ev) \<and>
                (\<forall>e. snd (body_events cd a) = Some e \<longrightarrow> retryable e))"

definition reaches_exit :: "codec \<Rightarrow> string \<Rightarrow> nat \<Rightarrow> attach_answer \<Rightarrow> bool" where
  "reaches_exit cd exec_id c answer \<longleftrightarrow>
     (case open_at exec_id c answer of
        Inl e \<Rightarrow> False
      | Inr a \<Rightarrow> (\<exists>evs x. fst (body_events cd a) = evs @ [ExitEvent x] \<and> (\<forall>ev \<in> set evs. \<not> is_exit ev)))"

lemma drive_reaches_exit:
  assumes "so_reconnect opts" and "\<not> so_error_on_gap opts"
    and "m \<le> so_max_reconnects opts"
    and "\<And>k c. k < m \<Longrightarrow> cut_or_refused cd exec_id c (net k c)"
    and "\<And>c. reaches_exit cd exec_id c (net m c)"
  shows "n \<le> m \<Longrightarrow> length (cl_attaches tr) = n \<Longrightarrow>
    \<exists>c' seen' tr'. drive cd exec_id net opts (\<lambda>_. False) (ReconnectAt c n) c seen tr
        = (Inr (stream_end Exited c'), seen', tr') \<and> length (cl_attaches tr') = m + 1"
proof (induction "m - n" arbitrary: n c seen tr)
  case 0
  then have n: "n = m" by simp
  have may: "may_attach opts n" using assms(1,3) n by (simp add: may_attach_def)
  obtain a evs x where a: "open_at exec_id c (net (length (cl_attaches tr)) c) = Inr a"
    and b: "fst (body_events cd a) = evs @ [ExitEvent x]" "\<forall>ev \<in> set evs. \<not> is_exit ev"
    using assms(5) [of c] 0 n by (auto simp: reaches_exit_def split: sum.splits)
  have "drive cd exec_id net opts (\<lambda>_. False) (ReconnectAt c n) c seen tr
      = drive cd exec_id net opts (\<lambda>_. False) (AttachedAt a c n) c seen (tried c n tr)"
    by (intro drive_same_advance advance_open may a)
  with drive_exit_body [OF assms(2) b] 0 n show ?case by (auto simp: tried_log)
next
  case (Suc k)
  then have lt: "n < m" by simp
  have may: "may_attach opts n" using assms(1,3) lt by (simp add: may_attach_def)
  let ?answer = "net (length (cl_attaches tr)) c"
  have cut: "cut_or_refused cd exec_id c ?answer" using assms(4) [of n c] lt Suc.prems(2) by simp
  have len: "length (cl_attaches (tried c n tr)) = n + 1" using Suc.prems(2) by (simp add: tried_log)
  have IH: "\<exists>c' seen' tr'. drive cd exec_id net opts (\<lambda>_. False) (after_failure d n) d s (tried c n tr)
        = (Inr (stream_end Exited c'), seen', tr') \<and> length (cl_attaches tr') = m + 1" for d s
    unfolding after_failure_def using Suc.hyps(1) [of "n + 1" "tried c n tr" d s] Suc.hyps(2) lt len by simp
  show ?case
  proof (cases "open_at exec_id c ?answer")
    case (Inl e)
    then have "advance cd exec_id net opts (ReconnectAt c n) tr
        = advance cd exec_id net opts (after_failure c n) (tried c n tr)"
      using cut assms(1) by (simp add: advance_failed [OF may] cut_or_refused_def)
    from drive_same_advance [OF this, of "\<lambda>_. False" c seen] IH [of c seen] show ?thesis by simp
  next
    case (Inr a)
    have "drive cd exec_id net opts (\<lambda>_. False) (ReconnectAt c n) c seen tr
        = drive cd exec_id net opts (\<lambda>_. False) (AttachedAt a c n) c seen (tried c n tr)"
      by (intro drive_same_advance advance_open may Inr)
    also have "\<dots> = drive cd exec_id net opts (\<lambda>_. False) (after_failure (cursor_after c (fst (body_events cd a))) n)
          (cursor_after c (fst (body_events cd a))) (seen @ fst (body_events cd a)) (tried c n tr)"
      by (rule drive_cut_body [OF assms(1,2)]) (use cut Inr in \<open>auto simp: cut_or_refused_def\<close>)
    finally show ?thesis using IH by simp
  qed
qed

section \<open>Properties\<close>

text \<open>What a fresh drive over such connections delivers, with its end pinned.\<close>

lemma fresh_drive_delivers:
  assumes "served whole cd enc dec eol cap all net" and "eol \<in> set EOLS" and "\<And>b. dec (enc b) = b"
    and "length (published all) < 2 ^ 64"
    and "for_each_event cd exec_id net opts breaks = (res, seen, tr)"
  obtains body tail where "seen = body @ tail" "\<forall>e \<in> set body. \<not> is_exit e"
    "tail = [] \<or> (\<exists>x. tail = [ExitEvent x])"
    "tiles raw (so_offset opts) body (cursor_after (so_offset opts) seen)"
    "\<forall>e \<in> set body. faithful raw (published all) e"
    "\<forall>e. res = Inr e \<longrightarrow> se_cursor e = cursor_after (so_offset opts) seen \<and>
       (se_reason e = Exited \<longrightarrow> tail \<noteq> []) \<and> (se_reason e = Cut \<longrightarrow> tail = [])"
    "whole \<longrightarrow> cursor_after (so_offset opts) seen \<le> max (so_offset opts) (length (published all)) \<and>
       (tail \<noteq> [] \<longrightarrow> cursor_after (so_offset opts) seen = max (so_offset opts) (length (published all)))"
proof -
  have "delivering whole cd (published all) (so_offset opts) (ReconnectAt (so_offset opts) 0) (so_offset opts) []"
    by (simp add: delivering_def)
  from drive_delivers [OF served_honest [OF assms(1,2), OF assms(3)] assms(4) this assms(5) [unfolded for_each_event_def]]
  obtain body tail q where r: "seen = body @ tail" "tiles raw (so_offset opts) body q"
    "\<forall>e \<in> set body. faithful raw (published all) e" "tail = [] \<or> (\<exists>x. tail = [ExitEvent x])"
    "\<forall>e. res = Inr e \<longrightarrow> se_cursor e = q \<and> (se_reason e = Exited \<longrightarrow> tail \<noteq> []) \<and>
          (se_reason e = Cut \<longrightarrow> tail = [])"
    "whole \<longrightarrow> q \<le> max (so_offset opts) (length (published all)) \<and>
       (tail \<noteq> [] \<longrightarrow> q = max (so_offset opts) (length (published all)))"
    by (elim exE conjE) (rule that)
  have "cursor_after (so_offset opts) body = q" by (rule tiles_cursor [OF assms(4) r(2,3)])
  with r(4) have q: "q = cursor_after (so_offset opts) seen" by (auto simp: r(1) cursor_after_append)
  have "\<not> is_exit e" if "e \<in> set body" for e
    using r(2) that
  proof (induction body arbitrary: q rule: rev_induct)
    case (snoc f fs)
    then show ?case by (cases f) (auto simp: tiles_append)
  qed simp
  with r that show thesis unfolding q by blast
qed

text \<open>
  C19: The daemon's stream and the client together: however each connection is cut (at any byte,
  into any chunks, with any live channel behind it) and whatever attaches fail, the client hands
  over every byte from its starting offset up to the cursor it returns exactly once and in order,
  with the bytes and the stream the command wrote, or a gap event with the exact range that is
  gone; an exit event can only come last, and only it makes the drive report an exit. Without gaps
  the bytes are the command's output up to the cursor. And when each daemon stream sees the whole
  exec (no output landed between the snapshot and the marker of an exec found over, and a live
  channel loses chunks only to lags), nothing before the exit event is missing: a drive that
  reports the exit has accounted for every byte the command ever wrote.
\<close>
theorem client_receives_every_byte:
  fixes enc :: "bytes \<Rightarrow> 'p"
  assumes "served whole cd enc dec eol cap all net" and "eol \<in> set EOLS" and "\<And>b. dec (enc b) = b"
    and "length (published all) < 2 ^ 64"
    and "for_each_event cd exec_id net opts breaks = (res, seen, tr)"
  shows "let q = cursor_after (so_offset opts) seen; body = filter (\<lambda>e. \<not> is_exit e) seen
    in tiles raw (so_offset opts) body q \<and>
      (\<forall>e \<in> set seen. faithful raw (published all) e) \<and>
      (\<forall>e \<in> set (butlast seen). \<not> is_exit e) \<and>
      (\<forall>e. res = Inr e \<longrightarrow> se_cursor e = q \<and>
         (se_reason e = Exited \<longrightarrow> seen \<noteq> [] \<and> is_exit (last seen)) \<and>
         (se_reason e = Cut \<longrightarrow> body = seen)) \<and>
      (filter is_gap seen = [] \<longrightarrow>
         out_bytes raw seen = take (q - so_offset opts) (drop (so_offset opts) (published all))) \<and>
      (whole \<longrightarrow> q \<le> max (so_offset opts) (length (published all)) \<and>
         (body \<noteq> seen \<longrightarrow> q = max (so_offset opts) (length (published all))))"
proof -
  let ?q = "cursor_after (so_offset opts) seen"
  obtain body tail where r: "seen = body @ tail" "\<forall>e \<in> set body. \<not> is_exit e"
    "tail = [] \<or> (\<exists>x. tail = [ExitEvent x])" "tiles raw (so_offset opts) body ?q"
    "\<forall>e \<in> set body. faithful raw (published all) e"
    "\<forall>e. res = Inr e \<longrightarrow> se_cursor e = ?q \<and> (se_reason e = Exited \<longrightarrow> tail \<noteq> []) \<and>
       (se_reason e = Cut \<longrightarrow> tail = [])"
    "whole \<longrightarrow> ?q \<le> max (so_offset opts) (length (published all)) \<and>
       (tail \<noteq> [] \<longrightarrow> ?q = max (so_offset opts) (length (published all)))"
    using assms by (rule fresh_drive_delivers)
  have body: "filter (\<lambda>e. \<not> is_exit e) seen = body" using r(1-3) by auto
  have bytes: "out_bytes raw seen = take (?q - so_offset opts) (drop (so_offset opts) (published all))"
    if "filter is_gap seen = []"
  proof -
    have "out_bytes raw seen = out_bytes raw body" using r(1,3) by (auto simp: out_bytes_append)
    also have "\<dots> = take (?q - so_offset opts) (drop (so_offset opts) (published all))"
      by (rule tiles_bytes [OF r(4)]) (use r(1,5) that in \<open>auto simp: filter_empty_conv\<close>)
    finally show ?thesis .
  qed
  have ends: "body \<noteq> seen \<longleftrightarrow> tail \<noteq> []" "\<forall>e \<in> set (butlast seen). \<not> is_exit e"
    "\<forall>e \<in> set seen. faithful raw (published all) e" "tail \<noteq> [] \<Longrightarrow> seen \<noteq> [] \<and> is_exit (last seen)"
    using r(1-3,5) by (auto simp: butlast_append dest: in_set_butlastD)
  show ?thesis
    unfolding Let_def body using r(4,6,7) ends bytes by auto
qed

definition demo_codec :: codec where
  "demo_codec =
     \<lparr>cd_output = (\<lambda>s. Some (0, Stdout, s)), cd_gap = (\<lambda>s. None),
      cd_exit = (\<lambda>s. Some \<lparr>ex_exit_code = None, ex_signal = None, ex_timed_out = False,
        ex_truncated = False, ex_writers_may_be_alive = False, ex_offset = 0\<rparr>),
      cd_base64 = (\<lambda>s. Inr [7])\<rparr>"

definition demo_chunks :: "bytes list" where
  "demo_chunks = [as_bytes ''event: out'', as_bytes ''put'' @ [LFB] @ as_bytes ''data: a'' @ [LFB, LFB],
     as_bytes ''event: ex'']"

definition demo_network :: network where
  "demo_network k c = (if c = 0 then Response 200 [] demo_chunks None
     else NoResponse (new_error Credentials (BackendError '''')))"

lemma demo_served: "served True demo_codec id id [LFB] 9 [(Stdout, [7])] demo_network"
proof -
  let ?exit = "\<lparr>ex_exit_code = None, ex_signal = None, ex_timed_out = False,
        ex_truncated = False, ex_writers_may_be_alive = False, ex_offset = 0\<rparr>"
  let ?items = "[EventItem (as_bytes ''output'') (as_bytes ''a''), EventItem (as_bytes ''exit'') (as_bytes ''x'')]"
  let ?missing = "as_bytes ''it'' @ [LFB] @ as_bytes ''data: x'' @ [LFB, LFB]"
  have since: "since (publish_all 9 [(Stdout, [7])] default_log) 0 = (None, [Chunk Stdout 0 [7]], 0)"
    by (simp add: publish_def default_log_def trim.simps since_def chunk_frame_def)
  have names: "lossy_string (as_bytes ''output'') = ''output''" "lossy_string (as_bytes ''exit'') = ''exit''"
    "lossy_string (as_bytes ''a'') = ''a''" "lossy_string (as_bytes ''x'') = ''x''"
    by (rule lossy_ascii, simp add: as_bytes_def)+
  have evs: "stream_events id idle_view [] (open_attach None [Chunk Stdout 0 [7]] 0 True)
      = [OutputEvent 0 Stdout [7], ExitEvent ?exit]"
    by (simp add: stream_events_eq rest_events_def open_attach_def emit_def output_event_def
        exit_event_of_def idle_view_def unknown_terminal_def)
  have "carries True demo_codec id id [LFB] 9 [(Stdout, [7])] 0 demo_chunks"
    unfolding carries_def
  proof (intro exI conjI)
    show "[(Stdout, [7])] = [(Stdout, [7])] @ []" by simp
    show "since (publish_all 9 [(Stdout, [7])] default_log) 0 = (None, [Chunk Stdout 0 [7]], 0)" by (rule since)
    show "inputs_true (published [(Stdout, [7])]) []" by (simp add: inputs_true_def)
    show "True \<longrightarrow> sees_all True (length (published [(Stdout, [7])])) (length (published [(Stdout, [7])])) []"
      by (simp add: sees_all_def)
    show "\<forall>it \<in> set ?items. item_clean it \<and> length (sse_text [LFB] it) \<le> MAX_PENDING_BYTES"
      by (simp add: as_bytes_def LFB_def CRB_def MAX_PENDING_BYTES_def)
    show "decodes demo_codec (concat (map item_frames ?items))
        (map (map_event id) (stream_events id idle_view [] (open_attach None [Chunk Stdout 0 [7]] 0 True)))"
      by (simp add: evs decodes_def decode_def names demo_codec_def)
    show "concat demo_chunks @ ?missing = concat (map (sse_text [LFB]) ?items)"
      by (simp add: demo_chunks_def as_bytes_def)
  qed
  then show ?thesis by (simp add: served_def demo_network_def)
qed

theorem client_receives_every_byte_witness:
  "\<exists>res seen tr. for_each_event demo_codec ''e1'' demo_network default_stream_options (\<lambda>_. False)
      = (res, seen, tr) \<and>
    tiles raw 0 (filter (\<lambda>e. \<not> is_exit e) seen) (cursor_after 0 seen) \<and> cursor_after 0 seen \<le> 1"
proof -
  obtain res seen tr where r: "for_each_event demo_codec ''e1'' demo_network default_stream_options (\<lambda>_. False)
      = (res, seen, tr)" by (metis prod.exhaust)
  have "[LFB] \<in> set EOLS" "length (published [(Stdout, [7])]) < 2 ^ 64"
    by (simp_all add: EOLS_def published_def)
  from client_receives_every_byte [OF demo_served this(1) _ this(2) r]
  have "tiles raw 0 (filter (\<lambda>e. \<not> is_exit e) seen) (cursor_after 0 seen) \<and> cursor_after 0 seen \<le> 1"
    by (simp add: Let_def default_stream_options_def published_def)
  with r show ?thesis by blast
qed

text \<open>
  A stream is always finite: whatever the network answers, the drive returns after at most one attach
  request more than its reconnect budget (one in all when it may not reconnect), waits before each
  reconnect for the next step of the backoff, and every request asks for the offset at which the
  events delivered by then end, so the offsets never go back.
\<close>
theorem stream_ends_within_budget:
  "case for_each_event cd exec_id net opts breaks of
     (res, seen, tr) \<Rightarrow>
       length (cl_attaches tr) \<le> so_max_reconnects opts + 1 \<and>
       (so_reconnect opts \<or> length (cl_attaches tr) \<le> 1) \<and>
       cl_sleeps tr = map backoff [1..<length (cl_attaches tr)] \<and> sorted (cl_attaches tr) \<and>
       set (cl_attaches tr) \<subseteq> range (\<lambda>k. cursor_after (so_offset opts) (take k seen))"
proof -
  obtain res seen tr where r: "for_each_event cd exec_id net opts breaks = (res, seen, tr)"
    by (metis prod.exhaust)
  from drive_result [OF fresh_drive_ok r [unfolded for_each_event_def]] have "log_good opts seen tr" by blast
  with r show ?thesis by (auto simp: log_good_def)
qed

text \<open>
  C20: Within its budget a reconnecting client is not stopped by any refusal or cut that says
  nothing about the exec: if the attaches before the m-th fail so, and the m-th delivers up to the
  exit event, the drive reports the exit, whatever offsets it had reached in between.
\<close>
theorem stream_rides_out_cuts:
  assumes "so_reconnect opts" and "\<not> so_error_on_gap opts" and "m \<le> so_max_reconnects opts"
    and "\<And>k c. k < m \<Longrightarrow> cut_or_refused cd exec_id c (net k c)"
    and "\<And>c. reaches_exit cd exec_id c (net m c)"
  shows "\<exists>c seen tr. for_each_event cd exec_id net opts (\<lambda>_. False) = (Inr (stream_end Exited c), seen, tr) \<and>
    length (cl_attaches tr) = m + 1"
  unfolding for_each_event_def
  by (rule drive_reaches_exit [where m = m and n = 0]) (use assms in simp_all)

theorem stream_rides_out_cuts_witness:
  "\<exists>c seen tr. for_each_event demo_codec ''e1''
      (\<lambda>k c. if k = 0 then NoResponse (new_error Retryable (BackendError ''reset''))
             else Response 200 [] [sse_text [LFB] (EventItem (as_bytes ''exit'') (as_bytes ''x''))] None)
      default_stream_options (\<lambda>_. False)
    = (Inr (stream_end Exited c), seen, tr) \<and> length (cl_attaches tr) = 1 + 1"
proof (rule stream_rides_out_cuts)
  let ?net = "\<lambda>k c. if k = 0 then NoResponse (new_error Retryable (BackendError ''reset''))
             else Response 200 [] [sse_text [LFB] (EventItem (as_bytes ''exit'') (as_bytes ''x''))] None"
  show "so_reconnect default_stream_options" "\<not> so_error_on_gap default_stream_options"
    "1 \<le> so_max_reconnects default_stream_options" by (simp_all add: default_stream_options_def)
  show "cut_or_refused demo_codec ''e1'' c (?net k c)" if "k < 1" for k :: nat and c :: nat
  proof -
    have "k = 0" using that by simp
    then show ?thesis by (simp add: cut_or_refused_def open_at_def retryable_new)
  qed
  let ?item = "EventItem (as_bytes ''exit'') (as_bytes ''x'')"
  let ?x = "\<lparr>ex_exit_code = None, ex_signal = None, ex_timed_out = False,
        ex_truncated = False, ex_writers_may_be_alive = False, ex_offset = 0\<rparr>"
  have names: "lossy_string (as_bytes ''exit'') = ''exit''" by (rule lossy_ascii) (simp add: as_bytes_def)
  have "decodes demo_codec (concat (map item_frames [?item])) [ExitEvent ?x]"
    by (simp add: decodes_def decode_def names demo_codec_def)
  then have "fst (body_events demo_codec \<lparr>la_chunks = [sse_text [LFB] ?item], la_end = None,
      la_parser = sse_new, la_frames = []\<rparr>) = [] @ [ExitEvent ?x]"
    using cut_body_events(2) [of "[LFB]" "[sse_text [LFB] ?item]" "[]" "[?item]" demo_codec "[ExitEvent ?x]" None]
    by (simp add: EOLS_def as_bytes_def LFB_def CRB_def MAX_PENDING_BYTES_def)
  then show "reaches_exit demo_codec ''e1'' c (?net (1 :: nat) c)" for c :: nat
    by (auto simp: reaches_exit_def open_at_def error_for_status_def simp del: sse_text.simps)
qed

end
