(* ===== verification/Completion.thy ===== *)
theory Completion
  imports ExecClient ExecRegistry
begin

text \<open>
  One command driven to exactly one result: \<open>ExecResult\<close>, \<open>wait\<close> and
  \<open>wait_and_ack\<close> of \<open>crates/microvms-app/src/session/exec.rs\<close> and the
  composition of \<open>session/complete.rs\<close>. Time is a number of nanoseconds that sleeps and
  requests advance. The daemon behind the transport is a parameter, the record \<open>server\<close>:
  what it answers to each request after the requests already sent, and how long that takes.
\<close>

section \<open>Results\<close>

record poll_response =
  pr_exec_id :: string
  pr_phase :: phase
  pr_result :: "outcome option"

datatype kill_answer = Signalled | AlreadyGone | KillFailed message

record client_deadline =
  dl_after :: nat
  dl_kill :: kill_answer
  dl_ack_error :: "message option"

record exec_result =
  xr_exec_id :: string
  xr_phase :: phase
  xr_outcome :: "outcome option"
  xr_client_deadline :: "client_deadline option"

definition result_of :: "poll_response \<Rightarrow> exec_result" where
  "result_of r = \<lparr>xr_exec_id = pr_exec_id r, xr_phase = pr_phase r, xr_outcome = pr_result r,
     xr_client_deadline = None\<rparr>"

definition xr_done :: "exec_result \<Rightarrow> bool" where
  "xr_done r \<longleftrightarrow> xr_phase r = phase.Exited \<or> xr_phase r = Acked"

definition xr_exit_code :: "exec_result \<Rightarrow> int option" where
  "xr_exit_code r = Option.bind (xr_outcome r) oc_exit_code"

definition xr_succeeded :: "exec_result \<Rightarrow> bool" where
  "xr_succeeded r \<longleftrightarrow>
     (case xr_outcome r of None \<Rightarrow> False | Some oc \<Rightarrow> oc_exit_code oc = Some 0 \<and> \<not> oc_timed_out oc)"

definition xr_stdout :: "exec_result \<Rightarrow> bytes" where
  "xr_stdout r = (case xr_outcome r of None \<Rightarrow> [] | Some oc \<Rightarrow> oc_stdout oc)"

definition xr_stderr :: "exec_result \<Rightarrow> bytes" where
  "xr_stderr r = (case xr_outcome r of None \<Rightarrow> [] | Some oc \<Rightarrow> oc_stderr oc)"

definition TIMED_OUT_EXIT_CODE :: int where
  "TIMED_OUT_EXIT_CODE = 124"

definition deadline_ended :: "exec_result \<Rightarrow> bool" where
  "deadline_ended r \<longleftrightarrow>
     (case xr_client_deadline r of
        None \<Rightarrow> False
      | Some d \<Rightarrow> dl_ack_error d \<noteq> None \<or> dl_kill d = Signalled) \<or>
     (case xr_outcome r of None \<Rightarrow> False | Some oc \<Rightarrow> oc_timed_out oc)"

definition posix_exit_code :: "exec_result \<Rightarrow> int option" where
  "posix_exit_code r =
     (if deadline_ended r then Some TIMED_OUT_EXIT_CODE
      else
        (case xr_outcome r of
           None \<Rightarrow> None
         | Some oc \<Rightarrow>
             (case (oc_exit_code oc, oc_signal oc) of
                (Some n, _) \<Rightarrow> Some n
              | (None, Some sig) \<Rightarrow> Some (128 + sig)
              | (None, None) \<Rightarrow> None)))"

definition xr_synthesized :: "exec_result \<Rightarrow> bool" where
  "xr_synthesized r \<longleftrightarrow>
     (case xr_client_deadline r of None \<Rightarrow> False | Some d \<Rightarrow> dl_ack_error d \<noteq> None)"

text \<open>\<open>notes\<close>: one constructor for each sentence, with what it interpolates.\<close>

datatype result_note =
    TruncatedNote | TimedOutNote | WritersNote
  | CollectedAfterDeadline nat kill_answer
  | SynthesizedAfterDeadline nat kill_answer message

definition outcome_notes :: "outcome \<Rightarrow> result_note list" where
  "outcome_notes oc =
     (if oc_truncated oc then [TruncatedNote] else []) @
     (if oc_timed_out oc then [TimedOutNote] else []) @
     (if oc_writers_may_be_alive oc then [WritersNote] else [])"

definition deadline_note :: "client_deadline \<Rightarrow> result_note" where
  "deadline_note d =
     (case dl_ack_error d of
        None \<Rightarrow> CollectedAfterDeadline (dl_after d) (dl_kill d)
      | Some e \<Rightarrow> SynthesizedAfterDeadline (dl_after d) (dl_kill d) e)"

definition xr_notes :: "exec_result \<Rightarrow> result_note list" where
  "xr_notes r =
     (case xr_outcome r of None \<Rightarrow> [] | Some oc \<Rightarrow> outcome_notes oc) @
     (case xr_client_deadline r of None \<Rightarrow> [] | Some d \<Rightarrow> [deadline_note d])"

section \<open>The daemon and the clock\<close>

datatype request = AskPoll | AskAck | AskKill

record world =
  wd_now :: nat
  wd_sent :: "request list"

record server =
  sv_poll :: "request list \<Rightarrow> client_error + poll_response"
  sv_ack :: "request list \<Rightarrow> client_error + poll_response"
  sv_kill :: "request list \<Rightarrow> client_error + bool"
  sv_takes :: "request list \<Rightarrow> nat"

definition sent :: "server \<Rightarrow> request \<Rightarrow> world \<Rightarrow> world" where
  "sent srv q w = \<lparr>wd_now = wd_now w + sv_takes srv (wd_sent w), wd_sent = wd_sent w @ [q]\<rparr>"

definition sleep_for :: "nat \<Rightarrow> world \<Rightarrow> world" where
  "sleep_for d w = w\<lparr>wd_now := wd_now w + d\<rparr>"

definition poll_exec :: "server \<Rightarrow> world \<Rightarrow> (client_error + exec_result) \<times> world" where
  "poll_exec srv w = (map_sum id result_of (sv_poll srv (wd_sent w)), sent srv AskPoll w)"

definition ack_exec :: "server \<Rightarrow> world \<Rightarrow> (client_error + exec_result) \<times> world" where
  "ack_exec srv w = (map_sum id result_of (sv_ack srv (wd_sent w)), sent srv AskAck w)"

definition kill_exec :: "server \<Rightarrow> world \<Rightarrow> (client_error + bool) \<times> world" where
  "kill_exec srv w = (sv_kill srv (wd_sent w), sent srv AskKill w)"

definition FAR_FUTURE :: nat where
  "FAR_FUTURE = 946080000 * 10 ^ 9"

definition deadline_after :: "nat \<Rightarrow> nat \<Rightarrow> nat" where
  "deadline_after now after = (if now + after \<le> INSTANT_MAX then now + after else now + FAR_FUTURE)"

section \<open>Waiting\<close>

definition POLL_INTERVAL :: nat where
  "POLL_INTERVAL = 10 ^ 9"

definition phase_word :: "phase option \<Rightarrow> string" where
  "phase_word p = (case p of None \<Rightarrow> ''unknown'' | Some p \<Rightarrow> phase_as_str p)"

text \<open>The loop of \<open>wait\<close>: what one poll settles, then the deadline, then the sleep.\<close>

fun settles :: "client_error + exec_result \<Rightarrow> bool" where
  "settles (Inr r) \<longleftrightarrow> xr_done r"
| "settles (Inl e) \<longleftrightarrow> \<not> retryable e"

fun seen_phase :: "client_error + exec_result \<Rightarrow> phase option \<Rightarrow> phase option" where
  "seen_phase (Inr r) lp = Some (xr_phase r)"
| "seen_phase (Inl e) lp = lp"

function wait_loop ::
  "server \<Rightarrow> nat \<Rightarrow> nat \<Rightarrow> phase option \<Rightarrow> world \<Rightarrow> (client_error + exec_result) \<times> world" where
  "wait_loop srv deadline timeout last_phase w =
     (let (answer, w1) = poll_exec srv w; last1 = seen_phase answer last_phase
      in if settles answer then (answer, w1)
         else if deadline \<le> wd_now w1
         then (Inl (wire_error ExecTimeout (StillPhase (phase_word last1) (timeout div 10 ^ 9))), w1)
         else wait_loop srv deadline timeout last1
                (sleep_for (min POLL_INTERVAL (deadline - wd_now w1)) w1))"
  by pat_completeness auto
termination
  by (relation "measure (\<lambda>(srv, deadline, timeout, last_phase, w). deadline - wd_now w)")
    (auto simp: poll_exec_def sent_def sleep_for_def POLL_INTERVAL_def)

declare wait_loop.simps [simp del]

definition wait_exec :: "server \<Rightarrow> nat \<Rightarrow> world \<Rightarrow> (client_error + exec_result) \<times> world" where
  "wait_exec srv timeout w = wait_loop srv (deadline_after (wd_now w) timeout) timeout None w"

definition wait_and_ack :: "server \<Rightarrow> nat \<Rightarrow> world \<Rightarrow> (client_error + exec_result) \<times> world" where
  "wait_and_ack srv timeout w =
     (case wait_exec srv timeout w of
        (Inl e, w1) \<Rightarrow> (Inl e, w1)
      | (Inr r, w1) \<Rightarrow> if xr_phase r = Acked then (Inr r, w1) else ack_exec srv w1)"

lemma wait_loop_later: "wait_loop srv dl timeout lp w = (r, w') \<Longrightarrow> wd_now w \<le> wd_now w'"
proof (induction srv dl timeout lp w rule: wait_loop.induct)
  case (1 srv dl timeout lp w)
  obtain a w1 where poll: "poll_exec srv w = (a, w1)" by (cases "poll_exec srv w")
  then have le: "wd_now w \<le> wd_now w1" by (auto simp: poll_exec_def sent_def)
  show ?case
  proof (cases "settles a \<or> dl \<le> wd_now w1")
    case True
    with 1(2) poll le show ?thesis by (subst (asm) wait_loop.simps) (auto simp: Let_def split: if_splits)
  next
    case False
    then have "wait_loop srv dl timeout (seen_phase a lp)
        (sleep_for (min POLL_INTERVAL (dl - wd_now w1)) w1) = (r, w')"
      using 1(2) poll by (subst (asm) wait_loop.simps) auto
    with 1(1) [OF poll [symmetric] refl refl] False le show ?thesis by (fastforce simp: sleep_for_def)
  qed
qed

lemma wait_and_ack_later: "wait_and_ack srv timeout w = (r, w') \<Longrightarrow> wd_now w \<le> wd_now w'"
  by (auto simp: wait_and_ack_def wait_exec_def ack_exec_def sent_def
      dest!: wait_loop_later split: prod.splits sum.splits if_splits)

section \<open>Completion\<close>

definition ACK_RETRY_INTERVAL :: nat where
  "ACK_RETRY_INTERVAL = 10 ^ 9"

function wait_and_ack_until :: "server \<Rightarrow> nat \<Rightarrow> world \<Rightarrow> (client_error + exec_result) \<times> world" where
  "wait_and_ack_until srv deadline w =
     (case wait_and_ack srv (deadline - wd_now w) w of
        (Inr r, w1) \<Rightarrow> (Inr r, w1)
      | (Inl e, w1) \<Rightarrow>
          (if retryable e \<and> er_wire e \<noteq> Some ExecTimeout
           then
             (let left = deadline - wd_now w1 in
              if left = 0 then (Inl (wire_error ExecTimeout (NotAcknowledged (er_message e))), w1)
              else wait_and_ack_until srv deadline (sleep_for (min ACK_RETRY_INTERVAL left) w1))
           else (Inl e, w1)))"
  by pat_completeness auto
termination
proof (relation "measure (\<lambda>(srv, deadline, w). deadline - wd_now w)", goal_cases)
  case 1
  show ?case by simp
next
  case (2 srv deadline w r w1 e left)
  with wait_and_ack_later [of srv "deadline - wd_now w" w "Inl e" w1] show ?case
    by (auto simp: sleep_for_def ACK_RETRY_INTERVAL_def)
qed

declare wait_and_ack_until.simps [simp del]

record completion_options =
  co_client_grace :: nat
  co_stream :: stream_options

definition DEFAULT_CLIENT_GRACE :: nat where
  "DEFAULT_CLIENT_GRACE = 60 * 10 ^ 9"

definition default_completion_options :: completion_options where
  "default_completion_options =
     \<lparr>co_client_grace = DEFAULT_CLIENT_GRACE, co_stream = default_stream_options\<rparr>"

definition NO_TIMEOUT_CEILING :: nat where
  "NO_TIMEOUT_CEILING = 28800 * 10 ^ 9"

record completion_plan =
  pl_deadline :: nat
  pl_options :: completion_options

text \<open>\<open>duration::of_secs_f64\<close>, and the saturating addition of two durations.\<close>

definition of_secs_f64 :: "f64 \<Rightarrow> client_error + nat" where
  "of_secs_f64 figure =
     (case figure of
        Finite q \<Rightarrow>
          (if q < 0 then Inl (invalid_arg BadDuration)
           else (case duration_try_from_secs q of
                   None \<Rightarrow> Inl (invalid_arg BadDuration)
                 | Some d \<Rightarrow> Inr d))
      | _ \<Rightarrow> Inl (invalid_arg BadDuration))"

definition DURATION_MAX :: nat where
  "DURATION_MAX = 2 ^ 64 * 10 ^ 9 - 1"

definition completion_plan :: "start_request \<Rightarrow> completion_options \<Rightarrow> client_error + completion_plan" where
  "completion_plan rq opts =
     bind_r (case req_timeout_sec rq of
               Some figure \<Rightarrow>
                 bind_r (of_secs_f64 figure) (\<lambda>d. Inr (min DURATION_MAX (d + co_client_grace opts)))
             | None \<Rightarrow> Inr NO_TIMEOUT_CEILING)
       (\<lambda>d. Inr \<lparr>pl_deadline = d, pl_options = opts\<rparr>)"

text \<open>
  \<open>CompletionPlan::stream\<close>: only output reaches the sink, and only the exit event counts as
  the end. \<open>streamed\<close> is its whole run; how long that takes, if it ever ends, is
  \<open>takes\<close>.
\<close>

fun is_output :: "'p event \<Rightarrow> bool" where
  "is_output (OutputEvent off k d) \<longleftrightarrow> True"
| "is_output (GapEvent a b) \<longleftrightarrow> False"
| "is_output (ExitEvent x) \<longleftrightarrow> False"

definition sink_breaks :: "(exec_event list \<Rightarrow> bool) \<Rightarrow> exec_event list \<Rightarrow> bool" where
  "sink_breaks sink evs \<longleftrightarrow> evs \<noteq> [] \<and> is_output (last evs) \<and> sink (filter is_output evs)"

definition streamed ::
  "codec \<Rightarrow> string \<Rightarrow> network \<Rightarrow> stream_options \<Rightarrow> (exec_event list \<Rightarrow> bool) \<Rightarrow> bool" where
  "streamed cd exec_id net opts sink =
     (case fst (for_each_event cd exec_id net opts (sink_breaks sink)) of
        Inr e \<Rightarrow> se_reason e = end_reason.Exited
      | Inl e \<Rightarrow> False)"

definition kill_answer_of :: "client_error + bool \<Rightarrow> kill_answer" where
  "kill_answer_of r =
     (case r of
        Inr True \<Rightarrow> Signalled
      | Inr False \<Rightarrow> AlreadyGone
      | Inl e \<Rightarrow> KillFailed (er_message e))"

definition after_deadline :: "server \<Rightarrow> string \<Rightarrow> completion_plan \<Rightarrow> world \<Rightarrow> exec_result \<times> world" where
  "after_deadline srv exec_id plan w =
     (let (killed, w1) = kill_exec srv w;
          kill = kill_answer_of killed;
          grace = deadline_after (wd_now w1) (co_client_grace (pl_options plan))
      in case wait_and_ack_until srv grace w1 of
           (Inr r, w2) \<Rightarrow>
             (r\<lparr>xr_client_deadline := Some \<lparr>dl_after = pl_deadline plan, dl_kill = kill, dl_ack_error = None\<rparr>\<rparr>, w2)
         | (Inl e, w2) \<Rightarrow>
             (\<lparr>xr_exec_id = exec_id, xr_phase = Running, xr_outcome = None,
               xr_client_deadline =
                 Some \<lparr>dl_after = pl_deadline plan, dl_kill = kill, dl_ack_error = Some (er_message e)\<rparr>\<rparr>, w2))"

text \<open>Steps 1 and 2 of \<open>drive\<close>: the stream under the deadline, then the wait.\<close>

datatype stream_outcome = StreamElapsed | StreamExit | StreamOther

definition stream_under ::
  "nat \<Rightarrow> nat option \<Rightarrow> bool \<Rightarrow> world \<Rightarrow> stream_outcome \<times> world" where
  "stream_under deadline takes exited w =
     (case takes of
        None \<Rightarrow> (StreamElapsed, w\<lparr>wd_now := max (wd_now w) deadline\<rparr>)
      | Some t \<Rightarrow>
          if wd_now w + t \<le> deadline
          then (if exited then StreamExit else StreamOther, sleep_for t w)
          else (StreamElapsed, w\<lparr>wd_now := max (wd_now w) deadline\<rparr>))"

definition wait_under ::
  "server \<Rightarrow> string \<Rightarrow> completion_plan \<Rightarrow> nat \<Rightarrow> world \<Rightarrow> (client_error + exec_result) \<times> world" where
  "wait_under srv exec_id plan deadline w =
     (case wait_and_ack_until srv deadline w of
        (Inr r, w1) \<Rightarrow> (Inr r, w1)
      | (Inl e, w1) \<Rightarrow>
          if er_wire e = Some ExecTimeout
          then (case after_deadline srv exec_id plan w1 of (r, w2) \<Rightarrow> (Inr r, w2))
          else (Inl e, w1))"

definition plan_drive ::
  "server \<Rightarrow> string \<Rightarrow> completion_plan \<Rightarrow> (nat option \<times> bool) option \<Rightarrow> world
     \<Rightarrow> (client_error + exec_result) \<times> world" where
  "plan_drive srv exec_id plan stream w =
     (let deadline = deadline_after (wd_now w) (pl_deadline plan) in
      case stream of
        None \<Rightarrow> wait_under srv exec_id plan deadline w
      | Some (takes, exited) \<Rightarrow>
          (case stream_under deadline takes exited w of
             (StreamElapsed, w1) \<Rightarrow> (case after_deadline srv exec_id plan w1 of (r, w2) \<Rightarrow> (Inr r, w2))
           | (StreamOther, w1) \<Rightarrow> wait_under srv exec_id plan deadline w1
           | (StreamExit, w1) \<Rightarrow>
               (case ack_exec srv w1 of
                  (Inr r, w2) \<Rightarrow>
                    if xr_done r \<and> xr_outcome r \<noteq> None then (Inr r, w2)
                    else wait_under srv exec_id plan deadline w2
                | (Inl e, w2) \<Rightarrow> wait_under srv exec_id plan deadline w2)))"

text \<open>
  \<open>run_to_completion\<close>: the plan before anything starts, the start, then the drive. What the
  start answers is an input; with a sink the stream is the client's drive over the network.
\<close>

definition run_to_completion ::
  "codec \<Rightarrow> network \<Rightarrow> server \<Rightarrow> start_request \<Rightarrow> completion_options \<Rightarrow> (exec_event list \<Rightarrow> bool) option
     \<Rightarrow> nat option \<Rightarrow> client_error + string \<Rightarrow> world \<Rightarrow> (client_error + exec_result) \<times> world" where
  "run_to_completion cd net srv rq opts sink takes started w =
     (case completion_plan rq opts of
        Inl e \<Rightarrow> (Inl e, w)
      | Inr plan \<Rightarrow>
          (case started of
             Inl e \<Rightarrow> (Inl e, w)
           | Inr exec_id \<Rightarrow>
               plan_drive srv exec_id plan
                 (map_option (\<lambda>s. (takes, streamed cd exec_id net (co_stream opts) s)) sink) w))"

end
