(* ===== verification/ModelRun.thy ===== *)
theory ModelRun
  imports Prelude
begin

text \<open>
  The specification machine of run-to-completion, \<open>crates/model/src/run.rs\<close>: what a
  command can do server-side (\<open>fate\<close>), the composition's steps and actions,
  \<open>actions\<close> and \<open>next_state\<close> for the specified and the rejected behaviors, the
  POSIX exit code, the notes and the always properties. They are proved for every fate and every
  exit code and signal, not only the eight fates the checker explores.
\<close>

section \<open>The data\<close>

definition SIGKILL :: int where "SIGKILL = 9"
definition SIGSEGV :: int where "SIGSEGV = 11"
definition SIGTERM :: int where "SIGTERM = 15"
definition TIMED_OUT :: int where "TIMED_OUT = 124"

datatype fate = Exits int | Dies int | DaemonDeadline int | DaemonDeadlineExit int | Outlives

record run_status =
  st_exit_code :: "int option"
  st_signal :: "int option"
  st_timed_out :: bool
  st_truncated :: bool

datatype run_kill = RunSignalled | RunAlreadyGone | RunKillFailed

record run_deadline =
  rd_kill :: run_kill
  rd_synthesized :: bool

definition run_posix :: "run_status option \<Rightarrow> run_deadline option \<Rightarrow> int option" where
  "run_posix status client =
     (if (case client of None \<Rightarrow> False | Some c \<Rightarrow> rd_synthesized c \<or> rd_kill c = RunSignalled)
      then Some TIMED_OUT
      else
        (case status of
           None \<Rightarrow> None
         | Some s \<Rightarrow>
             if st_timed_out s then Some TIMED_OUT
             else (case (st_exit_code s, st_signal s) of
                     (Some n, _) \<Rightarrow> Some n
                   | (None, Some sig) \<Rightarrow> Some (128 + sig)
                   | (None, None) \<Rightarrow> None)))"

definition literal_mapping :: "run_status option \<Rightarrow> run_deadline option \<Rightarrow> int option" where
  "literal_mapping status client =
     (if (case client of None \<Rightarrow> False | Some c \<Rightarrow> rd_synthesized c) then Some TIMED_OUT
      else
        (case status of
           None \<Rightarrow> None
         | Some s \<Rightarrow>
             let deadline = st_timed_out s \<or>
                   (case client of None \<Rightarrow> False | Some c \<Rightarrow> rd_kill c = RunSignalled)
             in (case (st_exit_code s, st_signal s) of
                   (Some n, _) \<Rightarrow> Some n
                 | (None, Some sig) \<Rightarrow>
                     if deadline \<and> (sig = SIGTERM \<or> sig = SIGKILL) then Some TIMED_OUT
                     else Some (128 + sig)
                 | (None, None) \<Rightarrow> None)))"

definition harvester_mapping :: "run_status option \<Rightarrow> run_deadline option \<Rightarrow> int option" where
  "harvester_mapping status client =
     (if (case client of None \<Rightarrow> False | Some c \<Rightarrow> rd_synthesized c) then Some TIMED_OUT
      else
        (case status of
           None \<Rightarrow> None
         | Some s \<Rightarrow>
             (case (st_exit_code s, st_signal s) of
                (Some n, _) \<Rightarrow> Some n
              | (None, Some sig) \<Rightarrow>
                  if sig = SIGTERM \<or> sig = SIGKILL then Some TIMED_OUT else Some (128 + sig)
              | (None, None) \<Rightarrow> None)))"

record run_notes =
  rn_truncated :: bool
  rn_daemon_deadline :: bool
  rn_client_deadline :: bool
  rn_synthesized :: bool

definition no_notes :: run_notes where
  "no_notes = \<lparr>rn_truncated = False, rn_daemon_deadline = False, rn_client_deadline = False,
     rn_synthesized = False\<rparr>"

definition notes_of :: "run_status option \<Rightarrow> run_deadline option \<Rightarrow> run_notes" where
  "notes_of status client =
     \<lparr>rn_truncated = (case status of None \<Rightarrow> False | Some s \<Rightarrow> st_truncated s),
      rn_daemon_deadline = (case status of None \<Rightarrow> False | Some s \<Rightarrow> st_timed_out s),
      rn_client_deadline = (client \<noteq> None),
      rn_synthesized = (case client of None \<Rightarrow> False | Some c \<Rightarrow> rd_synthesized c)\<rparr>"

datatype behavior =
    Specified | CutReturnsWhatItSaw | AckWithoutKill | SynthesizeOnFailedKill
  | LiteralMapping | HarvesterMapping | SilentTruncation

definition behavior_posix :: "behavior \<Rightarrow> run_status option \<Rightarrow> run_deadline option \<Rightarrow> int option" where
  "behavior_posix b =
     (if b = LiteralMapping then literal_mapping
      else if b = HarvesterMapping then harvester_mapping
      else run_posix)"

definition behavior_notes :: "behavior \<Rightarrow> run_status option \<Rightarrow> run_deadline option \<Rightarrow> run_notes" where
  "behavior_notes b status client =
     (if b = SilentTruncation then (notes_of status client)\<lparr>rn_truncated := False\<rparr>
      else notes_of status client)"

datatype run_step =
  StepStart | StepStreaming | StepAckAfterExit | StepWaiting | StepKilling | StepGraceAck | StepDone

record returned =
  rt_status :: "run_status option"
  rt_client :: "run_deadline option"
  rt_posix :: "int option"
  rt_notes :: run_notes

record run_state =
  ru_sink :: bool
  ru_fate :: fate
  ru_truncated :: bool
  ru_step :: run_step
  ru_exit_event :: bool
  ru_cut :: bool
  ru_waited :: bool
  ru_acked :: bool
  ru_deadline :: bool
  ru_kill_sent :: bool
  ru_kill :: "run_kill option"
  ru_grace_ack_sent :: bool
  ru_grace_ack_failed :: bool
  ru_synthesized :: bool
  ru_results :: nat
  ru_errors :: nat
  ru_returned :: "returned option"

datatype run_action =
    ActStarted | ActStartFailed | ActExitEvent | ActStreamCut | ActAckOk | ActAckFailed | ActWaitDone
  | ActWaitFatal | ActDeadline | ActKillAnswered run_kill | ActGraceAckOk | ActGraceAckFailed

section \<open>The machine\<close>

definition FATES :: "fate list" where
  "FATES = [Exits 0, Exits 3, Dies SIGKILL, Dies SIGSEGV, DaemonDeadline SIGTERM, DaemonDeadline SIGKILL,
     DaemonDeadlineExit 0, Outlives]"

fun fate_status :: "fate \<Rightarrow> bool \<Rightarrow> run_status option" where
  "fate_status (Exits n) tr =
     Some \<lparr>st_exit_code = Some n, st_signal = None, st_timed_out = False, st_truncated = tr\<rparr>"
| "fate_status (Dies sig) tr =
     Some \<lparr>st_exit_code = None, st_signal = Some sig, st_timed_out = False, st_truncated = tr\<rparr>"
| "fate_status (DaemonDeadline sig) tr =
     Some \<lparr>st_exit_code = None, st_signal = Some sig, st_timed_out = True, st_truncated = tr\<rparr>"
| "fate_status (DaemonDeadlineExit n) tr =
     Some \<lparr>st_exit_code = Some n, st_signal = None, st_timed_out = True, st_truncated = tr\<rparr>"
| "fate_status Outlives tr = None"

definition status_after_kill :: "fate \<Rightarrow> run_kill option \<Rightarrow> bool \<Rightarrow> run_status option" where
  "status_after_kill f kill tr =
     (if f = Outlives \<and> kill = Some RunSignalled
      then Some \<lparr>st_exit_code = None, st_signal = Some SIGTERM, st_timed_out = False, st_truncated = tr\<rparr>
      else fate_status f tr)"

definition finish :: "behavior \<Rightarrow> run_status option \<Rightarrow> run_deadline option \<Rightarrow> run_state \<Rightarrow> run_state" where
  "finish b status client s =
     s\<lparr>ru_step := StepDone, ru_results := ru_results s + 1,
       ru_returned := Some \<lparr>rt_status = status, rt_client = client,
         rt_posix = behavior_posix b status client, rt_notes = behavior_notes b status client\<rparr>\<rparr>"

definition raise_error :: "run_state \<Rightarrow> run_state" where
  "raise_error s = s\<lparr>ru_step := StepDone, ru_errors := ru_errors s + 1\<rparr>"

definition run_init :: "bool \<Rightarrow> fate \<Rightarrow> bool \<Rightarrow> run_state" where
  "run_init sink f tr =
     \<lparr>ru_sink = sink, ru_fate = f, ru_truncated = tr, ru_step = StepStart, ru_exit_event = False,
      ru_cut = False, ru_waited = False, ru_acked = False, ru_deadline = False, ru_kill_sent = False,
      ru_kill = None, ru_grace_ack_sent = False, ru_grace_ack_failed = False, ru_synthesized = False,
      ru_results = 0, ru_errors = 0, ru_returned = None\<rparr>"

definition init_run_states :: "run_state list" where
  "init_run_states =
     [run_init sink f tr. sink \<leftarrow> [False, True], f \<leftarrow> FATES, tr \<leftarrow> [False, True]]"

definition run_actions :: "run_state \<Rightarrow> run_action list" where
  "run_actions s =
     (let finished = (ru_fate s \<noteq> Outlives) in
      case ru_step s of
        StepStart \<Rightarrow> [ActStarted, ActStartFailed]
      | StepStreaming \<Rightarrow> (if finished then [ActExitEvent] else []) @ [ActStreamCut, ActDeadline]
      | StepAckAfterExit \<Rightarrow> [ActAckOk, ActAckFailed]
      | StepWaiting \<Rightarrow> (if finished then [ActWaitDone] else []) @ [ActWaitFatal, ActDeadline]
      | StepKilling \<Rightarrow>
          (if finished then [ActKillAnswered RunAlreadyGone, ActKillAnswered RunKillFailed]
           else [ActKillAnswered RunSignalled, ActKillAnswered RunKillFailed])
      | StepGraceAck \<Rightarrow>
          (if finished \<or> ru_kill s = Some RunSignalled then [ActGraceAckOk] else []) @ [ActGraceAckFailed]
      | StepDone \<Rightarrow> [])"

definition last_kill :: "run_state \<Rightarrow> run_kill" where
  "last_kill s = (case ru_kill s of None \<Rightarrow> RunKillFailed | Some k \<Rightarrow> k)"

fun run_apply :: "behavior \<Rightarrow> run_state \<Rightarrow> run_action \<Rightarrow> run_state" where
  "run_apply b s ActStarted =
     (if ru_sink s then s\<lparr>ru_step := StepStreaming\<rparr> else s\<lparr>ru_step := StepWaiting, ru_waited := True\<rparr>)"
| "run_apply b s ActStartFailed = raise_error s"
| "run_apply b s ActExitEvent = s\<lparr>ru_exit_event := True, ru_step := StepAckAfterExit\<rparr>"
| "run_apply b s ActStreamCut =
     (let n = s\<lparr>ru_cut := True\<rparr> in
      if b = CutReturnsWhatItSaw then finish b None None n
      else n\<lparr>ru_step := StepWaiting, ru_waited := True\<rparr>)"
| "run_apply b s ActAckOk =
     finish b (fate_status (ru_fate s) (ru_truncated s)) None (s\<lparr>ru_acked := True\<rparr>)"
| "run_apply b s ActAckFailed = s\<lparr>ru_step := StepWaiting, ru_waited := True\<rparr>"
| "run_apply b s ActWaitDone =
     finish b (fate_status (ru_fate s) (ru_truncated s)) None (s\<lparr>ru_acked := True\<rparr>)"
| "run_apply b s ActWaitFatal = raise_error s"
| "run_apply b s ActDeadline =
     (let n = s\<lparr>ru_deadline := True\<rparr> in
      if b = AckWithoutKill then n\<lparr>ru_step := StepGraceAck, ru_grace_ack_sent := True\<rparr>
      else n\<lparr>ru_step := StepKilling, ru_kill_sent := True\<rparr>)"
| "run_apply b s (ActKillAnswered answer) =
     (let n = s\<lparr>ru_kill := Some answer\<rparr> in
      if b = SynthesizeOnFailedKill \<and> answer = RunKillFailed
      then finish b None (Some \<lparr>rd_kill = answer, rd_synthesized = True\<rparr>) (n\<lparr>ru_synthesized := True\<rparr>)
      else n\<lparr>ru_step := StepGraceAck, ru_grace_ack_sent := True\<rparr>)"
| "run_apply b s ActGraceAckOk =
     finish b (status_after_kill (ru_fate s) (ru_kill s) (ru_truncated s))
       (Some \<lparr>rd_kill = last_kill s, rd_synthesized = False\<rparr>) (s\<lparr>ru_acked := True\<rparr>)"
| "run_apply b s ActGraceAckFailed =
     finish b None (Some \<lparr>rd_kill = last_kill s, rd_synthesized = True\<rparr>)
       (s\<lparr>ru_grace_ack_failed := True, ru_synthesized := True\<rparr>)"

definition run_next :: "behavior \<Rightarrow> run_state \<Rightarrow> run_action \<Rightarrow> run_state option" where
  "run_next b s a = (let n = run_apply b s a in if n \<noteq> s then Some n else None)"

inductive run_reach :: "behavior \<Rightarrow> run_state \<Rightarrow> run_state \<Rightarrow> bool" for b where
  reach_init: "run_reach b s s"
| reach_step: "run_reach b s t \<Longrightarrow> a \<in> set (run_actions t) \<Longrightarrow> run_next b t a = Some u \<Longrightarrow> run_reach b s u"

text \<open>A list of actions, each enabled where it is taken.\<close>

fun run_path :: "behavior \<Rightarrow> run_state \<Rightarrow> run_action list \<Rightarrow> run_state option" where
  "run_path b s [] = Some s"
| "run_path b s (a # as) =
     (if a \<in> set (run_actions s)
      then (case run_next b s a of None \<Rightarrow> None | Some t \<Rightarrow> run_path b t as)
      else None)"

lemma run_path_append:
  "run_path b s (as @ bs) = Option.bind (run_path b s as) (\<lambda>t. run_path b t bs)"
  by (induction b s as rule: run_path.induct) (auto split: option.splits)

lemma run_path_reach: "run_path b s as = Some t \<Longrightarrow> run_reach b s t"
proof (induction as arbitrary: t rule: rev_induct)
  case Nil
  then show ?case by (auto intro: run_reach.reach_init)
next
  case (snoc a as)
  then obtain u where u: "run_path b s as = Some u" "run_path b u [a] = Some t"
    by (auto simp: run_path_append bind_eq_Some_conv simp del: run_path.simps)
  with snoc.IH [OF u(1)] show ?case by (auto intro: run_reach.reach_step split: if_splits option.splits)
qed

section \<open>The always properties\<close>

definition ended_by_deadline :: "returned \<Rightarrow> bool" where
  "ended_by_deadline r \<longleftrightarrow>
     (case rt_status r of None \<Rightarrow> False | Some s \<Rightarrow> st_timed_out s) \<or>
     (case rt_client r of None \<Rightarrow> False | Some c \<Rightarrow> rd_synthesized c \<or> rd_kill c = RunSignalled)"

definition not_signalled :: "returned \<Rightarrow> bool" where
  "not_signalled r \<longleftrightarrow> (case rt_client r of None \<Rightarrow> True | Some c \<Rightarrow> rd_kill c \<noteq> RunSignalled)"

definition on_return :: "run_state \<Rightarrow> (returned \<Rightarrow> bool) \<Rightarrow> bool" where
  "on_return s p \<longleftrightarrow> (case ru_returned s of None \<Rightarrow> True | Some r \<Rightarrow> p r)"

definition run_always :: "run_state \<Rightarrow> bool list" where
  "run_always s =
     [on_return s (\<lambda>r. \<not> ended_by_deadline r \<or> rt_posix r = Some TIMED_OUT),
      on_return s (\<lambda>r. case rt_status r of
          None \<Rightarrow> True
        | Some st \<Rightarrow>
            (case (st_exit_code st, st_signal st, st_timed_out st) of
               (None, Some sig, False) \<Rightarrow> \<not> not_signalled r \<or> rt_posix r = Some (128 + sig)
             | _ \<Rightarrow> True)),
      on_return s (\<lambda>r. case rt_status r of
          None \<Rightarrow> True
        | Some st \<Rightarrow>
            (case (st_exit_code st, st_timed_out st) of
               (Some n, False) \<Rightarrow> \<not> not_signalled r \<or> rt_posix r = Some n
             | _ \<Rightarrow> True)),
      on_return s (\<lambda>r. \<not> (case rt_status r of None \<Rightarrow> False | Some st \<Rightarrow> st_truncated st) \<or>
         rn_truncated (rt_notes r)),
      on_return s (\<lambda>r.
         (\<not> (case rt_status r of None \<Rightarrow> False | Some st \<Rightarrow> st_timed_out st) \<or> rn_daemon_deadline (rt_notes r)) \<and>
         (rt_client r = None \<or> rn_client_deadline (rt_notes r)) \<and>
         (\<not> (case rt_client r of None \<Rightarrow> False | Some c \<Rightarrow> rd_synthesized c) \<or> rn_synthesized (rt_notes r))),
      on_return s (\<lambda>r.
         \<not> (rt_client r = None \<and>
            (case rt_status r of None \<Rightarrow> False | Some st \<Rightarrow> \<not> st_truncated st \<and> \<not> st_timed_out st)) \<or>
         rt_notes r = no_notes),
      ru_results s + ru_errors s \<le> 1,
      ru_results s = 0 \<or> ru_acked s \<or> ru_synthesized s,
      \<not> (ru_cut s \<and> ru_step s = StepDone) \<or> ru_waited s,
      \<not> ru_kill_sent s \<or> ru_deadline s,
      \<not> ru_grace_ack_sent s \<or> ru_kill_sent s,
      \<not> (ru_kill s = Some RunKillFailed \<and> ru_step s = StepDone) \<or> ru_grace_ack_sent s,
      \<not> ru_synthesized s \<or> ru_kill_sent s \<and> ru_grace_ack_failed s,
      on_return s (\<lambda>r.
         \<not> (case rt_client r of None \<Rightarrow> False | Some c \<Rightarrow> rd_synthesized c) \<or>
         rt_posix r = Some TIMED_OUT \<and> rn_synthesized (rt_notes r))]"

text \<open>What a state knows, by its step.\<close>

definition quiet :: "run_state \<Rightarrow> bool" where
  "quiet s \<longleftrightarrow> \<not> ru_deadline s \<and> \<not> ru_kill_sent s \<and> ru_kill s = None \<and> \<not> ru_grace_ack_sent s"

definition unfinished :: "run_state \<Rightarrow> bool" where
  "unfinished s \<longleftrightarrow> \<not> ru_acked s \<and> \<not> ru_synthesized s \<and> \<not> ru_grace_ack_failed s \<and>
     ru_results s = 0 \<and> ru_errors s = 0 \<and> ru_returned s = None"

text \<open>A synthesized result carries no status.\<close>

definition synthesized_blank :: "returned \<Rightarrow> bool" where
  "synthesized_blank r \<longleftrightarrow>
     (case rt_client r of None \<Rightarrow> True | Some c \<Rightarrow> \<not> rd_synthesized c \<or> rt_status r = None)"

fun step_inv :: "run_step \<Rightarrow> run_state \<Rightarrow> bool" where
  "step_inv StepStart s \<longleftrightarrow> quiet s \<and> unfinished s \<and> \<not> ru_cut s"
| "step_inv StepStreaming s \<longleftrightarrow> quiet s \<and> unfinished s \<and> \<not> ru_cut s"
| "step_inv StepAckAfterExit s \<longleftrightarrow> quiet s \<and> unfinished s \<and> \<not> ru_cut s"
| "step_inv StepWaiting s \<longleftrightarrow> quiet s \<and> unfinished s \<and> ru_waited s"
| "step_inv StepKilling s \<longleftrightarrow> unfinished s \<and> ru_deadline s \<and> ru_kill_sent s \<and> ru_kill s = None \<and>
     \<not> ru_grace_ack_sent s"
| "step_inv StepGraceAck s \<longleftrightarrow> unfinished s \<and> ru_deadline s \<and> ru_kill_sent s \<and> ru_kill s \<noteq> None \<and>
     ru_grace_ack_sent s"
| "step_inv StepDone s \<longleftrightarrow>
     ru_results s + ru_errors s = 1 \<and> (ru_results s = 0 \<or> ru_acked s \<or> ru_synthesized s) \<and>
     (\<not> ru_kill_sent s \<or> ru_deadline s) \<and> (\<not> ru_grace_ack_sent s \<or> ru_kill_sent s) \<and>
     (ru_kill s = None \<or> ru_grace_ack_sent s) \<and>
     (\<not> ru_synthesized s \<or> ru_kill_sent s \<and> ru_grace_ack_failed s) \<and>
     (ru_returned s = None \<longleftrightarrow> ru_results s = 0) \<and>
     on_return s (\<lambda>r. rt_posix r = run_posix (rt_status r) (rt_client r) \<and>
        rt_notes r = notes_of (rt_status r) (rt_client r) \<and> synthesized_blank r)"

definition run_inv :: "run_state \<Rightarrow> bool" where
  "run_inv s \<longleftrightarrow> step_inv (ru_step s) s \<and> (\<not> ru_cut s \<or> ru_waited s)"

lemma run_inv_init: "run_inv (run_init sink f tr)"
  by (simp add: run_inv_def run_init_def quiet_def unfinished_def)

lemma run_inv_next:
  assumes "run_inv s" and "a \<in> set (run_actions s)" and "run_next Specified s a = Some t"
  shows "run_inv t"
proof -
  have t: "t = run_apply Specified s a" using assms(3) by (auto simp: run_next_def Let_def split: if_splits)
  show ?thesis
    using assms(1,2) unfolding t
    by (cases "ru_step s"; cases a)
      (auto simp: run_inv_def run_actions_def finish_def raise_error_def quiet_def unfinished_def Let_def
        on_return_def synthesized_blank_def behavior_posix_def behavior_notes_def split: if_splits)
qed

lemma run_inv_reach: "run_reach Specified s t \<Longrightarrow> run_inv s \<Longrightarrow> run_inv t"
  by (induction rule: run_reach.induct) (auto intro: run_inv_next)

lemma run_inv_always:
  assumes "run_inv s"
  shows "list_all id (run_always s)"
proof -
  have ret: "on_return s (\<lambda>r. rt_posix r = run_posix (rt_status r) (rt_client r) \<and>
        rt_notes r = notes_of (rt_status r) (rt_client r) \<and> synthesized_blank r)"
    using assms by (cases "ru_step s") (auto simp: run_inv_def unfinished_def on_return_def)
  have flags: "ru_results s + ru_errors s \<le> 1" "ru_results s = 0 \<or> ru_acked s \<or> ru_synthesized s"
    "\<not> (ru_cut s \<and> ru_step s = StepDone) \<or> ru_waited s" "\<not> ru_kill_sent s \<or> ru_deadline s"
    "\<not> ru_grace_ack_sent s \<or> ru_kill_sent s"
    "\<not> (ru_kill s = Some RunKillFailed \<and> ru_step s = StepDone) \<or> ru_grace_ack_sent s"
    "\<not> ru_synthesized s \<or> ru_kill_sent s \<and> ru_grace_ack_failed s"
    using assms by (cases "ru_step s"; auto simp: run_inv_def unfinished_def quiet_def)+
  show ?thesis
  proof (cases "ru_returned s")
    case None
    with flags show ?thesis by (simp add: run_always_def on_return_def)
  next
    case (Some r)
    with ret have r: "rt_posix r = run_posix (rt_status r) (rt_client r)"
      "rt_notes r = notes_of (rt_status r) (rt_client r)" "synthesized_blank r"
      by (simp_all add: on_return_def)
    show ?thesis using flags r(3)
      by (auto simp: run_always_def on_return_def Some r(1,2) synthesized_blank_def run_posix_def notes_of_def ended_by_deadline_def
          not_signalled_def no_notes_def split: option.splits bool.splits)
  qed
qed

section \<open>Every call returns\<close>

definition step_rank :: "run_step \<Rightarrow> nat" where
  "step_rank st = (case st of StepStart \<Rightarrow> 6 | StepStreaming \<Rightarrow> 5 | StepAckAfterExit \<Rightarrow> 4
     | StepWaiting \<Rightarrow> 3 | StepKilling \<Rightarrow> 2 | StepGraceAck \<Rightarrow> 1 | StepDone \<Rightarrow> 0)"

lemma run_step_down:
  assumes "a \<in> set (run_actions s)" and "run_next b s a = Some t"
  shows "step_rank (ru_step t) < step_rank (ru_step s)"
proof -
  have t: "t = run_apply b s a" using assms(2) by (auto simp: run_next_def Let_def split: if_splits)
  show ?thesis
    using assms(1) unfolding t
    by (cases "ru_step s"; cases a)
      (auto simp: run_actions_def finish_def raise_error_def step_rank_def Let_def split: if_splits)
qed

lemma run_next_enabled:
  assumes "a \<in> set (run_actions s)"
  shows "run_next b s a = Some (run_apply b s a)"
proof -
  have "step_rank (ru_step (run_apply b s a)) < step_rank (ru_step s)"
    using assms by (cases "ru_step s"; cases a)
      (auto simp: run_actions_def finish_def raise_error_def step_rank_def Let_def split: if_splits)
  then have "run_apply b s a \<noteq> s" by auto
  then show ?thesis by (simp add: run_next_def)
qed

lemma run_path_step:
  "a \<in> set (run_actions s) \<Longrightarrow> run_path b (run_apply b s a) as = r \<Longrightarrow> run_path b s (a # as) = r"
  by (simp add: run_next_enabled)

lemma run_not_stuck:
  assumes "ru_step s \<noteq> StepDone"
  shows "\<exists>a t. a \<in> set (run_actions s) \<and> run_next b s a = Some t"
proof -
  obtain a where "a \<in> set (run_actions s)"
    using assms by (cases "ru_step s") (auto simp: run_actions_def Let_def intro: that)
  with run_next_enabled [OF this] show ?thesis by blast
qed

text \<open>Every path ends, at the latest after as many actions as the rank of its first step.\<close>

lemma run_path_length: "run_path b s as = Some t \<Longrightarrow> length as + step_rank (ru_step t) \<le> step_rank (ru_step s)"
proof (induction b s as rule: run_path.induct)
  case (2 b s a as)
  then obtain u where "a \<in> set (run_actions s)" "run_next b s a = Some u" "run_path b u as = Some t"
    by (auto split: if_splits option.splits)
  with 2(1) [of u] run_step_down [of a s b u] show ?case by force
qed simp

text \<open>
  Every reachable state of the run-to-completion machine satisfies each of its always
  properties, whatever the fate, the exit code or the signal of the command; a run takes at most
  six actions, is never stuck before its end, and ends with exactly one result or one error.
\<close>

theorem run_machine_correct:
  assumes "run_path Specified (run_init sink f tr) as = Some t"
  shows "list_all id (run_always t) \<and> length as \<le> 6 \<and>
    (if ru_step t = StepDone then ru_results t + ru_errors t = 1 \<and> run_actions t = []
     else \<exists>a u. a \<in> set (run_actions t) \<and> run_path Specified (run_init sink f tr) (as @ [a]) = Some u)"
proof -
  have inv: "run_inv t" using run_inv_reach [OF run_path_reach [OF assms] run_inv_init] .
  have "length as \<le> 6"
    using run_path_length [OF assms] by (simp add: run_init_def step_rank_def split: run_step.splits)
  moreover have "ru_results t + ru_errors t = 1 \<and> run_actions t = []" if "ru_step t = StepDone"
    using inv that by (simp add: run_inv_def run_actions_def Let_def)
  moreover have "\<exists>a u. a \<in> set (run_actions t) \<and> run_path Specified (run_init sink f tr) (as @ [a]) = Some u"
    if ne: "ru_step t \<noteq> StepDone"
  proof -
    obtain a u where "a \<in> set (run_actions t)" "run_next Specified t a = Some u" using run_not_stuck [OF ne] by blast
    with assms have "run_path Specified (run_init sink f tr) (as @ [a]) = Some u" by (simp add: run_path_append)
    with \<open>a \<in> set (run_actions t)\<close> show ?thesis by blast
  qed
  ultimately show ?thesis using run_inv_always [OF inv] by simp
qed

theorem run_machine_correct_witness:
  "\<exists>t. run_path Specified (run_init True (Dies SIGKILL) False) [ActStarted, ActStreamCut, ActDeadline] = Some t \<and>
    list_all id (run_always t) \<and> ru_step t = StepKilling"
proof -
  let ?s = "run_init True (Dies SIGKILL) False"
  let ?as = "[ActStarted, ActStreamCut, ActDeadline]"
  have "case run_path Specified ?s ?as of None \<Rightarrow> False | Some t \<Rightarrow> ru_step t = StepKilling" by code_simp
  then obtain t where t: "run_path Specified ?s ?as = Some t" "ru_step t = StepKilling"
    by (auto split: option.splits)
  with run_machine_correct [OF t(1)] show ?thesis by blast
qed

section \<open>The rejected behaviors\<close>

text \<open>Each alternative the module names breaks one of the always properties.\<close>

definition breaks_always :: "behavior \<Rightarrow> run_state \<Rightarrow> run_action list \<Rightarrow> bool" where
  "breaks_always b s as =
     (case run_path b s as of None \<Rightarrow> False | Some t \<Rightarrow> \<not> list_all id (run_always t))"

lemma breaks_always_reach:
  "breaks_always b s as \<Longrightarrow> \<exists>t. run_reach b s t \<and> \<not> list_all id (run_always t)"
  by (auto simp: breaks_always_def dest: run_path_reach split: option.splits)

lemma rejected_behaviors:
  "breaks_always CutReturnsWhatItSaw (run_init True (Exits 0) False) [ActStarted, ActStreamCut]"
  "breaks_always AckWithoutKill (run_init False Outlives False) [ActStarted, ActDeadline]"
  "breaks_always SynthesizeOnFailedKill (run_init False Outlives False)
     [ActStarted, ActDeadline, ActKillAnswered RunKillFailed]"
  "breaks_always LiteralMapping (run_init False (DaemonDeadlineExit 0) False) [ActStarted, ActWaitDone]"
  "breaks_always HarvesterMapping (run_init False (Dies SIGKILL) False) [ActStarted, ActWaitDone]"
  "breaks_always SilentTruncation (run_init False (Exits 0) True) [ActStarted, ActWaitDone]"
  by code_simp+

end
