(* ===== verification/RunRefinement.thy ===== *)
theory RunRefinement
  imports ClientStream Completion ModelRun
begin

text \<open>
  The client's run-to-completion refines the specification machine: whatever the daemon answers
  and however long it takes, as long as the answers fit one fate of the command, the calls the
  code makes are a path of the machine, and the result it returns carries the status, the deadline
  record, the exit code and the notes of the machine's. The one exception is an acknowledgement whose
  response was lost.
\<close>

section \<open>The daemon's view of one command\<close>



fun kill_of :: "kill_answer \<Rightarrow> run_kill" where
  "kill_of Signalled = RunSignalled"
| "kill_of AlreadyGone = RunAlreadyGone"
| "kill_of (KillFailed m) = RunKillFailed"















lemma kill_of_signalled [simp]: "kill_of k = RunSignalled \<longleftrightarrow> k = Signalled"
  by (cases k) auto



section \<open>Waiting\<close>

text \<open>The requests of a wait: it adds polls and acks only.\<close>

definition quiet_since :: "world \<Rightarrow> world \<Rightarrow> bool" where
  "quiet_since w w' \<longleftrightarrow> (\<exists>qs. wd_sent w' = wd_sent w @ qs \<and> AskKill \<notin> set qs)"

lemma quiet_refl [simp]: "quiet_since w w"
  by (simp add: quiet_since_def)


lemma quiet_steps [simp]:
  "quiet_since w (sleep_for d w') \<longleftrightarrow> quiet_since w w'"
  "quiet_since (sleep_for d w) w' \<longleftrightarrow> quiet_since w w'"
  "quiet_since w (sent srv AskPoll w)" "quiet_since w (sent srv AskAck w)"
  by (simp_all add: quiet_since_def sleep_for_def sent_def)











section \<open>The paths of the machine\<close>












section \<open>Run-to-completion refines the machine\<close>









section \<open>A lost acknowledgement\<close>

text \<open>
  The exception happens: when the daemon acknowledged and released the exec and the response was lost,
  the next poll shows the phase acked with no outcome, and the call returns that as its result, with
  no exit code and no note.
\<close>

lemma wait_acked:
  "sv_poll srv (wd_sent w) = Inr p \<Longrightarrow> pr_phase p = Acked \<Longrightarrow>
    wait_and_ack srv timeout w = (Inr (result_of p), sent srv AskPoll w)"
  by (simp add: wait_and_ack_def wait_exec_def wait_loop.simps poll_exec_def xr_done_def result_of_def)

lemma wait_exited:
  "sv_poll srv (wd_sent w) = Inr p \<Longrightarrow> pr_phase p = phase.Exited \<Longrightarrow>
    wait_and_ack srv timeout w = ack_exec srv (sent srv AskPoll w)"
  by (simp add: wait_and_ack_def wait_exec_def wait_loop.simps poll_exec_def xr_done_def result_of_def)

lemma lost_ack_response:
  fixes w srv deadline
  defines "w1 \<equiv> sent srv AskAck (sent srv AskPoll w)"
  defines "w2 \<equiv> sleep_for (min ACK_RETRY_INTERVAL (deadline - wd_now w1)) w1"
  assumes "sv_poll srv (wd_sent w) = Inr p" and "pr_phase p = phase.Exited"
    and "sv_ack srv (wd_sent w @ [AskPoll]) = Inl e" and "retryable e" and "er_wire e \<noteq> Some ExecTimeout"
    and "wd_now w1 < deadline"
    and "sv_poll srv (wd_sent w2) = Inr q" and "pr_phase q = Acked" and "pr_result q = None"
  shows "fst (wait_and_ack_until srv deadline w) = Inr (result_of q)"
    and "posix_exit_code (result_of q) = None" and "xr_notes (result_of q) = []"
proof -
  have s: "wd_sent (sent srv AskPoll w) = wd_sent w @ [AskPoll]" by (simp add: sent_def)
  have "wait_and_ack_until srv deadline w = wait_and_ack_until srv deadline w2"
    using assms(3-8) wait_exited [OF assms(3,4), of "deadline - wd_now w"]
    by (subst wait_and_ack_until.simps) (simp add: ack_exec_def s Let_def w1_def [symmetric] w2_def)
  also have "fst \<dots> = Inr (result_of q)"
    using wait_acked [OF assms(9,10)] by (subst wait_and_ack_until.simps) simp
  finally show "fst (wait_and_ack_until srv deadline w) = Inr (result_of q)" .
qed (use assms(11) in \<open>simp_all add: result_of_def posix_exit_code_def deadline_ended_def xr_notes_def\<close>)

end
