(* ===== verification/Split.thy ===== *)
theory Split
  imports ClientStream
begin

text \<open>
  One exec's output as two byte channels, \<open>crates/microvms-app/src/session/split.rs\<close>: the
  routing of each event, the attribution of gaps and the gap policy, over the one drive of
  \<open>ExecClient\<close>. A channel is the list of items sent to it; whether a send finds its
  reader is a parameter. A channel closes when the drive returns.
\<close>

section \<open>The policy\<close>

datatype gap_policy = GapIsError | GapIsEvent

definition ALL_POLICIES :: "gap_policy list" where
  "ALL_POLICIES = [GapIsError, GapIsEvent]"

fun policy_as_str :: "gap_policy \<Rightarrow> string" where
  "policy_as_str GapIsError = ''error''"
| "policy_as_str GapIsEvent = ''event''"

definition policy_from_str :: "string \<Rightarrow> client_error + gap_policy" where
  "policy_from_str name =
     (case filter (\<lambda>p. policy_as_str p = name) ALL_POLICIES of
        p # _ \<Rightarrow> Inr p
      | [] \<Rightarrow> Inl (invalid_arg (UnknownPolicy name)))"

section \<open>The drive\<close>

record output_gap =
  og_stream :: "stream_kind option"
  og_from :: nat
  og_to :: nat

type_synonym split_item = "client_error + bytes"

record split_state =
  sp_out :: "split_item list"
  sp_err :: "split_item list"
  sp_held :: "(nat \<times> nat) list"
  sp_gaps :: "output_gap list"

text \<open>Whether the next send on a side finds its reader, given what the channels carried so far.\<close>

type_synonym readers = "stream_kind \<Rightarrow> split_state \<Rightarrow> bool"

definition split_new :: split_state where
  "split_new = \<lparr>sp_out = [], sp_err = [], sp_held = [], sp_gaps = []\<rparr>"

definition attributed :: "stream_kind option \<Rightarrow> (nat \<times> nat) list \<Rightarrow> output_gap list" where
  "attributed k held = map (\<lambda>(a, b). \<lparr>og_stream = k, og_from = a, og_to = b\<rparr>) held"

definition record_held :: "stream_kind option \<Rightarrow> split_state \<Rightarrow> split_state" where
  "record_held k st = st\<lparr>sp_held := [], sp_gaps := sp_gaps st @ attributed k (sp_held st)\<rparr>"

fun send_item :: "stream_kind \<Rightarrow> split_item \<Rightarrow> split_state \<Rightarrow> split_state" where
  "send_item Stdout item st = st\<lparr>sp_out := sp_out st @ [item]\<rparr>"
| "send_item Stderr item st = st\<lparr>sp_err := sp_err st @ [item]\<rparr>"

definition try_send :: "readers \<Rightarrow> stream_kind \<Rightarrow> split_item \<Rightarrow> split_state \<Rightarrow> split_state" where
  "try_send rd k item st = (if rd k st then send_item k item st else st)"

definition twin :: "client_error \<Rightarrow> client_error" where
  "twin e = (case er_wire e of
     Some w \<Rightarrow> wire_error w (er_message e)
   | None \<Rightarrow> new_error (er_kind e) (er_message e))"

definition reject_both :: "readers \<Rightarrow> client_error \<Rightarrow> split_state \<Rightarrow> split_state" where
  "reject_both rd e st = try_send rd Stderr (Inl (twin e)) (try_send rd Stdout (Inl e) st)"

definition gap_error :: "nat \<Rightarrow> nat \<Rightarrow> client_error" where
  "gap_error a b = wire_error OutputGap (UnrecoverableSplit a b)"

text \<open>The callback of the drive: the state after an event, and whether it breaks.\<close>

fun split_event :: "gap_policy \<Rightarrow> readers \<Rightarrow> split_state \<Rightarrow> exec_event \<Rightarrow> split_state \<times> bool" where
  "split_event pol rd st (OutputEvent off k data) =
     (let st1 = record_held (Some k) st in (try_send rd k (Inr data) st1, \<not> rd k st1))"
| "split_event pol rd st (GapEvent a b) =
     (case pol of
        GapIsError \<Rightarrow> (reject_both rd (gap_error a b) st, True)
      | GapIsEvent \<Rightarrow> (st\<lparr>sp_held := sp_held st @ [(a, b)]\<rparr>, False))"
| "split_event pol rd st (ExitEvent x) = (st, False)"

fun split_run :: "gap_policy \<Rightarrow> readers \<Rightarrow> split_state \<Rightarrow> exec_event list \<Rightarrow> split_state" where
  "split_run pol rd st [] = st"
| "split_run pol rd st (ev # evs) = split_run pol rd (fst (split_event pol rd st ev)) evs"

definition split_breaks :: "gap_policy \<Rightarrow> readers \<Rightarrow> exec_event list \<Rightarrow> bool" where
  "split_breaks pol rd seen \<longleftrightarrow>
     seen \<noteq> [] \<and> snd (split_event pol rd (split_run pol rd split_new (butlast seen)) (last seen))"

definition split_finish :: "readers \<Rightarrow> client_error + stream_end \<Rightarrow> split_state \<Rightarrow> split_state" where
  "split_finish rd res st =
     (let st1 = record_held None st
      in case res of Inl e \<Rightarrow> reject_both rd e st1 | Inr _ \<Rightarrow> st1)"

definition split_drive ::
  "codec \<Rightarrow> string \<Rightarrow> network \<Rightarrow> stream_options \<Rightarrow> gap_policy \<Rightarrow> readers \<Rightarrow> split_state" where
  "split_drive cd exec_id net opts pol rd =
     (case for_each_event cd exec_id net (opts\<lparr>so_error_on_gap := False\<rparr>) (split_breaks pol rd) of
        (res, seen, tr) \<Rightarrow> split_finish rd res (split_run pol rd split_new seen))"

section \<open>The events of a drive\<close>

text \<open>A drive delivers no event after the one its callback breaks on, and after no exit event.\<close>

lemma drive_breaks_last:
  "drive cd exec_id net opts breaks state cursor seen tr = (res, seen', tr') \<Longrightarrow>
     \<exists>ys. seen' = seen @ ys \<and> (\<forall>n. 0 < n \<longrightarrow> n < length ys \<longrightarrow> \<not> breaks (seen @ take n ys)) \<and>
       (\<forall>e. res = Inl e \<longrightarrow> ys = [] \<or> \<not> breaks (seen @ ys))"
proof (induction cd exec_id net opts breaks state cursor seen tr rule: drive.induct)
  case (1 cd exec_id net opts breaks state cursor seen tr)
  obtain r t where adv: "advance cd exec_id net opts state tr = (r, t)"
    by (cases "advance cd exec_id net opts state tr")
  consider (stop) "r = None" | (fail) e nx where "r = Some (Inl e, nx)"
    | (ev) ev nx where "r = Some (Inr ev, nx)"
    by (metis option.exhaust sum.exhaust surj_pair)
  then show ?case
  proof cases
    case stop
    then show ?thesis using 1(2) by (simp add: drive.simps [of cd exec_id net opts breaks state] adv)
  next
    case fail
    then show ?thesis using 1(2) by (simp add: drive.simps [of cd exec_id net opts breaks state] adv)
  next
    case ev
    show ?thesis
    proof (cases "breaks (seen @ [ev]) \<or> is_exit ev")
      case True
      then have "seen' = seen @ [ev]" "\<not> (\<exists>e. res = Inl e)"
        using 1(2) ev by (auto simp: drive.simps [of cd exec_id net opts breaks state] adv Let_def split: if_splits)
      then show ?thesis by (intro exI [of _ "[ev]"]) auto
    next
      case False
      let ?c = "case state_cursor nx of None \<Rightarrow> cursor | Some c \<Rightarrow> c"
      have "drive cd exec_id net opts breaks nx ?c (seen @ [ev]) t = (res, seen', tr')"
        using 1(2) ev False by (simp add: drive.simps [of cd exec_id net opts breaks state] adv Let_def)
      with 1(1) [OF adv [symmetric] ev refl refl refl] False
      obtain ys where ys: "seen' = seen @ ev # ys" "\<forall>n. 0 < n \<longrightarrow> n < length ys \<longrightarrow> \<not> breaks (seen @ ev # take n ys)"
        "\<forall>e. res = Inl e \<longrightarrow> ys = [] \<or> \<not> breaks (seen @ ev # ys)"
        by auto
      have "\<not> breaks (seen @ take n (ev # ys))" if "0 < n" "n < length (ev # ys)" for n
        using that ys(2) False by (cases n; cases "n = 1") auto
      with ys False show ?thesis by (intro exI [of _ "ev # ys"]) auto
    qed
  qed
qed

lemma fresh_breaks_last:
  assumes "for_each_event cd exec_id net opts breaks = (res, seen, tr)"
  shows "0 < n \<Longrightarrow> n < length seen \<Longrightarrow> \<not> breaks (take n seen)"
    and "res = Inl e \<Longrightarrow> seen = [] \<or> \<not> breaks seen"
  using drive_breaks_last [OF assms [unfolded for_each_event_def]] by auto

lemma split_run_append: "split_run pol rd st (xs @ ys) = split_run pol rd (split_run pol rd st xs) ys"
  by (induction xs arbitrary: st) auto

section \<open>What each channel carries\<close>

definition good_chunks :: "split_item list \<Rightarrow> bytes list" where
  "good_chunks items = [b. Inr b \<leftarrow> items]"

lemma good_chunks_simps [simp]:
  "good_chunks [] = []" "good_chunks (xs @ ys) = good_chunks xs @ good_chunks ys"
  "good_chunks [Inr b] = [b]" "good_chunks [Inl e] = []"
  by (simp_all add: good_chunks_def)

fun channel_of :: "stream_kind \<Rightarrow> split_state \<Rightarrow> split_item list" where
  "channel_of Stdout st = sp_out st"
| "channel_of Stderr st = sp_err st"

lemma channel_send [simp]:
  "channel_of k (send_item j item st) = channel_of k st @ (if k = j then [item] else [])"
  "channel_of k (record_held g st) = channel_of k st"
  "channel_of k (st\<lparr>sp_held := h\<rparr>) = channel_of k st" "channel_of k split_new = []"
  by (cases k; cases j; simp add: record_held_def split_new_def)+

lemma send_other [simp]:
  "sp_held (send_item k item st) = sp_held st" "sp_gaps (send_item k item st) = sp_gaps st"
  by (cases k; simp)+

definition side_data :: "stream_kind \<Rightarrow> exec_event list \<Rightarrow> bytes list" where
  "side_data k evs = [d. OutputEvent off j d \<leftarrow> evs, j = k]"

lemma side_data_simps [simp]:
  "side_data k [] = []" "side_data k (OutputEvent off j d # evs) = (if j = k then d # side_data k evs else side_data k evs)"
  "side_data k (GapEvent a b # evs) = side_data k evs" "side_data k (ExitEvent x # evs) = side_data k evs"
  by (simp_all add: side_data_def)

text \<open>The readers both stay, so every send succeeds.\<close>

definition both_read :: readers where
  "both_read k st \<longleftrightarrow> True"

lemma try_send_both [simp]: "try_send both_read k item st = send_item k item st"
  by (simp add: try_send_def both_read_def)

lemma reject_both_both:
  "channel_of k (reject_both both_read e st) = channel_of k st @ [Inl (if k = Stdout then e else twin e)]"
  "sp_gaps (reject_both both_read e st) = sp_gaps st" "sp_held (reject_both both_read e st) = sp_held st"
  by (cases k; simp add: reject_both_def)+

lemma split_run_chunks:
  "good_chunks (channel_of k (split_run pol both_read st evs)) = good_chunks (channel_of k st) @ side_data k evs"
  by (induction evs arbitrary: st rule: list.induct, simp)
    (case_tac x1; case_tac pol; auto simp: Let_def reject_both_both)

text \<open>Only a gap breaks a drive whose readers stay, and only under the error policy.\<close>

lemma breaks_both: "split_breaks pol both_read seen \<longleftrightarrow> seen \<noteq> [] \<and> pol = GapIsError \<and> is_gap (last seen)"
  by (cases "last seen"; cases pol) (auto simp: split_breaks_def Let_def both_read_def)

lemma split_run_items:
  "pol = GapIsError \<longrightarrow> (\<forall>e \<in> set evs. \<not> is_gap e) \<Longrightarrow>
     channel_of k (split_run pol both_read st evs) = channel_of k st @ map Inr (side_data k evs)"
proof (induction evs arbitrary: st)
  case (Cons ev evs)
  then show ?case by (cases ev; cases pol) (auto simp: Let_def)
qed simp

text \<open>The attribution: a gap takes the stream of the next output, or none.\<close>

fun first_side :: "exec_event list \<Rightarrow> stream_kind option" where
  "first_side [] = None"
| "first_side (OutputEvent off k d # evs) = Some k"
| "first_side (GapEvent a b # evs) = first_side evs"
| "first_side (ExitEvent x # evs) = first_side evs"

fun attributed_gaps :: "exec_event list \<Rightarrow> output_gap list" where
  "attributed_gaps [] = []"
| "attributed_gaps (OutputEvent off k d # evs) = attributed_gaps evs"
| "attributed_gaps (GapEvent a b # evs) = \<lparr>og_stream = first_side evs, og_from = a, og_to = b\<rparr> # attributed_gaps evs"
| "attributed_gaps (ExitEvent x # evs) = attributed_gaps evs"

lemma attributed_simps [simp]:
  "attributed k [] = []" "attributed k (xs @ ys) = attributed k xs @ attributed k ys"
  "attributed k [(a, b)] = [\<lparr>og_stream = k, og_from = a, og_to = b\<rparr>]"
  by (simp_all add: attributed_def)

lemma split_run_gaps:
  "sp_gaps (record_held None (split_run GapIsEvent both_read st evs))
     = sp_gaps st @ attributed (first_side evs) (sp_held st) @ attributed_gaps evs"
proof (induction evs arbitrary: st)
  case Nil
  then show ?case by (simp add: record_held_def)
next
  case (Cons ev evs)
  then show ?case by (cases ev) (auto simp: Let_def record_held_def)
qed

lemma split_run_no_gaps:
  "\<forall>e \<in> set evs. \<not> is_gap e \<Longrightarrow> sp_held st = [] \<Longrightarrow>
     sp_gaps (split_run pol both_read st evs) = sp_gaps st \<and> sp_held (split_run pol both_read st evs) = []"
proof (induction evs arbitrary: st)
  case (Cons ev evs)
  then show ?case by (cases ev) (auto simp: Let_def record_held_def)
qed simp

text \<open>The bytes of one side of a history.\<close>

definition side_bytes :: "stream_kind \<Rightarrow> history \<Rightarrow> bytes" where
  "side_bytes k h = map snd (filter (\<lambda>x. fst x = k) h)"

lemma side_bytes_simps [simp]:
  "side_bytes k [] = []" "side_bytes k (xs @ ys) = side_bytes k xs @ side_bytes k ys"
  "side_bytes k (tag j bs) = (if j = k then bs else [])"
  by (auto simp: side_bytes_def tag_def filter_map comp_def)

lemma side_data_bytes: "concat (side_data k evs) = side_bytes k (out_bytes raw evs)"
proof (induction evs)
  case (Cons ev evs)
  then show ?case by (cases ev) (simp_all add: raw_def)
qed simp

text \<open>What ends the channels: nothing, or one failure on both.\<close>

fun failure_item :: "stream_kind \<Rightarrow> client_error option \<Rightarrow> split_item list" where
  "failure_item k None = []"
| "failure_item k (Some e) = [Inl (if k = Stdout then e else twin e)]"

text \<open>
  Under the error policy a drive stops at a gap; what ends the channels is that gap, or else the
  error the drive ended with; and the bytes go up to the start of that gap, or else to the end of the
  events.
\<close>

definition gap_stop :: "gap_policy \<Rightarrow> exec_event list \<Rightarrow> (nat \<times> nat) option" where
  "gap_stop pol seen =
     (if pol = GapIsError \<and> seen \<noteq> []
      then (case last seen of GapEvent a b \<Rightarrow> Some (a, b) | _ \<Rightarrow> None) else None)"

definition split_failure :: "gap_policy \<Rightarrow> client_error + stream_end \<Rightarrow> exec_event list \<Rightarrow> client_error option" where
  "split_failure pol res seen =
     (case gap_stop pol seen of
        Some (a, b) \<Rightarrow> Some (gap_error a b)
      | None \<Rightarrow> (case res of Inl e \<Rightarrow> Some e | Inr _ \<Rightarrow> None))"

definition split_end :: "gap_policy \<Rightarrow> nat \<Rightarrow> exec_event list \<Rightarrow> nat" where
  "split_end pol offset seen =
     (case gap_stop pol seen of Some (a, b) \<Rightarrow> a | None \<Rightarrow> cursor_after offset seen)"

lemma gap_stop_None: "\<forall>e \<in> set seen. \<not> is_gap e \<Longrightarrow> gap_stop pol seen = None"
  by (cases seen rule: rev_cases) (auto simp: gap_stop_def split: event.splits)

lemma gap_stop_snoc [simp]: "gap_stop GapIsError (xs @ [GapEvent a b]) = Some (a, b)"
  by (simp add: gap_stop_def)

lemma side_data_append: "side_data k (xs @ ys) = side_data k xs @ side_data k ys"
  by (simp add: side_data_def)

lemma side_data_tail: "tail = [] \<or> (\<exists>x. tail = [ExitEvent x]) \<Longrightarrow> side_data k (body @ tail) = side_data k body"
  by (auto simp: side_data_append)

lemma gaps_tail:
  assumes "tail = [] \<or> (\<exists>x. tail = [ExitEvent x])"
  shows "attributed_gaps (body @ tail) = attributed_gaps body"
proof -
  have "first_side (body @ tail) = first_side body" for body
    using assms by (induction body rule: first_side.induct) auto
  with assms show ?thesis by (induction body rule: attributed_gaps.induct) auto
qed

text \<open>A drive under the error policy has a gap only as its last event, and then no other error.\<close>

lemma split_gap_last:
  assumes "for_each_event cd exec_id net opts (split_breaks GapIsError both_read) = (res, seen, tr)"
  shows "\<forall>e \<in> set (butlast seen). \<not> is_gap e"
    and "seen \<noteq> [] \<Longrightarrow> is_gap (last seen) \<Longrightarrow> \<exists>e. res = Inr e"
proof -
  show "\<forall>e \<in> set (butlast seen). \<not> is_gap e"
  proof
    fix e assume "e \<in> set (butlast seen)"
    then obtain i where i: "i < length seen - 1" "e = seen ! i" by (auto simp: in_set_conv_nth nth_butlast)
    then have "Suc i < length seen" by simp
    with fresh_breaks_last(1) [OF assms, of "Suc i"] have "\<not> is_gap (last (take (Suc i) seen))"
      by (auto simp: breaks_both)
    with i \<open>Suc i < length seen\<close> show "\<not> is_gap e" by (simp add: take_Suc_conv_app_nth)
  qed
  show "\<exists>e. res = Inr e" if "seen \<noteq> []" "is_gap (last seen)"
    using fresh_breaks_last(2) [OF assms] that by (cases res) (auto simp: breaks_both)
qed

lemma split_drive_error_policy:
  assumes "for_each_event cd exec_id net (opts\<lparr>so_error_on_gap := False\<rparr>) (split_breaks GapIsError both_read)
      = (res, seen, tr)"
  shows "(\<forall>k. channel_of k (split_drive cd exec_id net opts GapIsError both_read)
        = map Inr (side_data k seen) @ failure_item k (split_failure GapIsError res seen)) \<and>
      sp_gaps (split_drive cd exec_id net opts GapIsError both_read) = []"
proof -
  let ?st = "split_run GapIsError both_read split_new seen"
  have d: "split_drive cd exec_id net opts GapIsError both_read = split_finish both_read res ?st"
    by (simp add: split_drive_def assms)
  note before = split_gap_last [OF assms]
  show ?thesis
  proof (cases "seen \<noteq> [] \<and> is_gap (last seen)")
    case True
    then obtain a b xs where seen: "seen = xs @ [GapEvent a b]"
      by (metis append_butlast_last_id is_gap.elims(2))
    have xs: "\<forall>e \<in> set xs. \<not> is_gap e" using before(1) by (simp add: seen)
    obtain e where res: "res = Inr e" using before(2) True by blast
    let ?s0 = "split_run GapIsError both_read split_new xs"
    have clean: "sp_gaps ?s0 = []" "sp_held ?s0 = []"
      using split_run_no_gaps [OF xs, of split_new GapIsError] by (auto simp: split_new_def)
    have st: "?st = reject_both both_read (gap_error a b) ?s0" by (simp add: seen split_run_append)
    have fin: "split_finish both_read res ?st = record_held None (reject_both both_read (gap_error a b) ?s0)"
      unfolding st res by (simp add: split_finish_def)
    have gaps: "sp_gaps (split_finish both_read res ?st) = []"
      unfolding fin using clean by (simp add: record_held_def reject_both_both)
    have chan: "channel_of k (split_finish both_read res ?st)
        = map Inr (side_data k seen) @ failure_item k (Some (gap_error a b))" for k
      unfolding fin using split_run_items [of GapIsError xs k split_new] xs
      by (simp add: reject_both_both seen side_data_append)
    have "split_failure GapIsError res seen = Some (gap_error a b)" by (simp add: split_failure_def seen)
    then show ?thesis unfolding d using gaps chan by (simp del: failure_item.simps)
  next
    case False
    then have none: "\<forall>e \<in> set seen. \<not> is_gap e"
      using before(1) by (cases seen rule: rev_cases) auto
    have clean: "sp_gaps ?st = []" "sp_held ?st = []"
      using split_run_no_gaps [OF none, of split_new GapIsError] by (auto simp: split_new_def)
    have rec: "sp_gaps (record_held None ?st) = []" using clean by (simp add: record_held_def)
    show ?thesis
      using split_run_items [of GapIsError seen] none rec gap_stop_None [OF none]
      by (cases res) (simp_all add: d split_finish_def split_failure_def Let_def reject_both_both)
  qed
qed

lemma split_drive_event_policy:
  assumes "for_each_event cd exec_id net (opts\<lparr>so_error_on_gap := False\<rparr>) (split_breaks GapIsEvent both_read)
      = (res, seen, tr)"
  shows "(\<forall>k. channel_of k (split_drive cd exec_id net opts GapIsEvent both_read)
        = map Inr (side_data k seen) @ failure_item k (split_failure GapIsEvent res seen)) \<and>
      sp_gaps (split_drive cd exec_id net opts GapIsEvent both_read) = attributed_gaps seen"
proof -
  let ?st = "split_run GapIsEvent both_read split_new seen"
  have d: "split_drive cd exec_id net opts GapIsEvent both_read = split_finish both_read res ?st"
    by (simp add: split_drive_def assms)
  have gaps: "sp_gaps (record_held None ?st) = attributed_gaps seen"
    by (subst split_run_gaps) (simp add: split_new_def)
  show ?thesis
    by (cases res)
      (simp_all add: d split_finish_def split_failure_def gap_stop_def Let_def reject_both_both gaps split_run_items)
qed

section \<open>Properties\<close>

text \<open>The bytes of the events before the gap an error policy stops at.\<close>

lemma split_bytes:
  assumes "tiles raw offset body (cursor_after offset seen)" and "\<forall>e \<in> set body. faithful raw h e"
    and "seen = body @ tail" and "tail = [] \<or> (\<exists>x. tail = [ExitEvent x])"
    and "\<forall>e \<in> set (butlast seen). \<not> is_gap e"
  shows "concat (side_data k seen)
    = side_bytes k (take (split_end GapIsError offset seen - offset) (drop offset h))"
proof (cases "body \<noteq> [] \<and> is_gap (last body)")
  case True
  then obtain a b xs where b: "body = xs @ [GapEvent a b]"
    by (metis append_butlast_last_id is_gap.elims(2))
  have "tail = []" using assms(3-5) b by (auto simp: butlast_append)
  then have seen: "seen = xs @ [GapEvent a b]" using assms(3) b by simp
  have "tiles raw offset xs a" using assms(1) b by (auto simp: tiles_append)
  moreover have "\<forall>e \<in> set xs. faithful raw h e \<and> \<not> is_gap e" using assms(2,5) b seen by auto
  ultimately have "out_bytes raw xs = take (a - offset) (drop offset h)" by (rule tiles_bytes)
  then show ?thesis by (simp add: seen split_end_def side_data_append side_data_bytes)
next
  case False
  have no: "\<forall>e \<in> set body. \<not> is_gap e"
    using assms(3-5) False by (cases body rule: rev_cases) (auto simp: butlast_append)
  with assms(3,4) have "gap_stop GapIsError seen = None" by (intro gap_stop_None) auto
  moreover have "out_bytes raw body = take (cursor_after offset seen - offset) (drop offset h)"
    by (rule tiles_bytes [OF assms(1)]) (use assms(2) no in blast)
  moreover have "side_data k seen = side_data k body" using side_data_tail [OF assms(4)] assms(3) by simp
  ultimately show ?thesis by (simp add: split_end_def side_data_bytes)
qed

text \<open>
  C22: The two channels of a split carry the command's output. Each channel is exactly the data
  of its side's output events the one drive delivered, in order, and then nothing, or one failure
  on each: the gap the error policy stopped at, or the error the drive ended with. Those events
  tile the output from the asked offset to the drive's cursor, every byte once, and reach the end of
  the output when the exit event came over connections that see the whole exec. Under the error
  policy no gap comes before the last event, and each side's bytes are exactly its bytes of one
  range of the output, up to that gap or the cursor; under the event policy every gap is
  recorded once, in order, with the stream of the output that followed it.
\<close>

theorem split_sides_exact:
  fixes enc :: "bytes \<Rightarrow> 'p"
  assumes "served whole cd enc dec eol cap all net" and "eol \<in> set EOLS" and "\<And>b. dec (enc b) = b"
    and "length (published all) < 2 ^ 64"
    and "for_each_event cd exec_id net (opts\<lparr>so_error_on_gap := False\<rparr>) (split_breaks pol both_read)
      = (res, seen, tr)"
  shows "let st = split_drive cd exec_id net opts pol both_read; q = cursor_after (so_offset opts) seen;
        body = filter (\<lambda>e. \<not> is_exit e) seen
    in tiles raw (so_offset opts) body q \<and> (\<forall>e \<in> set seen. faithful raw (published all) e) \<and>
      (\<forall>k. channel_of k st = map Inr (side_data k seen) @ failure_item k (split_failure pol res seen)) \<and>
      (pol = GapIsEvent \<longrightarrow> sp_gaps st = attributed_gaps seen) \<and>
      (pol = GapIsError \<longrightarrow> sp_gaps st = [] \<and> (\<forall>e \<in> set (butlast seen). \<not> is_gap e) \<and>
         (\<forall>k. concat (side_data k seen)
            = side_bytes k (take (split_end pol (so_offset opts) seen - so_offset opts)
                (drop (so_offset opts) (published all))))) \<and>
      (whole \<longrightarrow> body \<noteq> seen \<longrightarrow> q = max (so_offset opts) (length (published all)))"
proof -
  let ?opts = "opts\<lparr>so_error_on_gap := False\<rparr>" and ?q = "cursor_after (so_offset opts) seen"
  have off: "so_offset ?opts = so_offset opts" by simp
  obtain body tail where r: "seen = body @ tail" "\<forall>e \<in> set body. \<not> is_exit e"
    "tail = [] \<or> (\<exists>x. tail = [ExitEvent x])" "tiles raw (so_offset opts) body ?q"
    "\<forall>e \<in> set body. faithful raw (published all) e"
    "whole \<longrightarrow> ?q \<le> max (so_offset opts) (length (published all)) \<and>
       (tail \<noteq> [] \<longrightarrow> ?q = max (so_offset opts) (length (published all)))"
    using fresh_drive_delivers [OF assms(1-5), unfolded off] by metis
  have body: "filter (\<lambda>e. \<not> is_exit e) seen = body" using r(1-3) by auto
  have faith: "\<forall>e \<in> set seen. faithful raw (published all) e" using r(1,3,5) by auto
  have ended: "body \<noteq> seen \<longrightarrow> tail \<noteq> []" using r(1) by simp
  show ?thesis
  proof (cases pol)
    case GapIsEvent
    from split_drive_event_policy [OF assms(5) [unfolded GapIsEvent]] r(4,6) faith ended
    show ?thesis unfolding Let_def body GapIsEvent by auto
  next
    case GapIsError
    note fe = assms(5) [unfolded GapIsError]
    note last = split_gap_last(1) [OF fe]
    from split_drive_error_policy [OF fe] r(4,6) faith ended last
      split_bytes [OF r(4,5,1,3) last]
    show ?thesis unfolding Let_def body GapIsError by auto
  qed
qed

theorem split_sides_exact_witness:
  "\<exists>res seen tr. for_each_event demo_codec ''e1'' demo_network
      (default_stream_options\<lparr>so_error_on_gap := False\<rparr>) (split_breaks GapIsError both_read) = (res, seen, tr) \<and>
    channel_of Stdout (split_drive demo_codec ''e1'' demo_network default_stream_options GapIsError both_read)
      = map Inr (side_data Stdout seen) @ failure_item Stdout (split_failure GapIsError res seen)"
proof -
  obtain res seen tr where r: "for_each_event demo_codec ''e1'' demo_network
      (default_stream_options\<lparr>so_error_on_gap := False\<rparr>) (split_breaks GapIsError both_read) = (res, seen, tr)"
    by (metis prod.exhaust)
  have "[LFB] \<in> set EOLS" "length (published [(Stdout, [7])]) < 2 ^ 64" "\<And>b :: bytes. id (id b) = b"
    by (simp_all add: EOLS_def published_def)
  from split_sides_exact [OF demo_served this(1) this(3) this(2) r]
  have "channel_of Stdout (split_drive demo_codec ''e1'' demo_network default_stream_options GapIsError both_read)
      = map Inr (side_data Stdout seen) @ failure_item Stdout (split_failure GapIsError res seen)"
    unfolding Let_def by blast
  with r show ?thesis by blast
qed

section \<open>A cut without reconnects\<close>

text \<open>
  With \<open>reconnect\<close> off a stream that is cut ends the drive without an error, so both
  channels close with no error although no exit event came: the truncated output reads as
  finished.
\<close>

lemma split_cut_is_silent:
  assumes "for_each_event cd exec_id net (opts\<lparr>so_error_on_gap := False\<rparr>) (split_breaks pol both_read)
      = (Inr e, seen, tr)"
    and "\<forall>ev \<in> set seen. \<not> is_gap ev"
  shows "channel_of k (split_drive cd exec_id net opts pol both_read) = map Inr (side_data k seen)"
proof -
  have "pol = GapIsError \<longrightarrow> (\<forall>ev \<in> set seen. \<not> is_gap ev)" using assms(2) by blast
  from split_run_items [OF this, of k split_new]
  show ?thesis by (simp add: split_drive_def assms(1) split_finish_def Let_def)
qed

lemma cut_is_no_error:
  assumes "\<not> so_reconnect opts" and "attach_next cd a = (Inr None, a')"
  shows "drive cd exec_id net opts breaks (AttachedAt a c n) c seen tr = (Inr (stream_end Cut c), seen, tr)"
  using assms by (subst drive.simps) (simp add: advance_ended)

end
