(* ===== verification/KeepAlive.thy ===== *)
theory KeepAlive
  imports ClientErrors
begin

text \<open>
  The keepalive, \<open>crates/microvms-app/src/session/keepalive.rs\<close>: the policy and its
  checks, the poll loop, and the task that runs it in the background. Time is in nanoseconds. What
  each probe answers, and after how long, is a list; when the caller stops the keepalive is a
  parameter. \<open>None\<close> is a run that has not ended within the given answers.
\<close>

definition SECOND :: nat where "SECOND = 10 ^ 9"

definition MIN_IDLE_DURATION_SEC :: nat where "MIN_IDLE_DURATION_SEC = 60"

definition DEFAULT_KEEP_AWAKE_INTERVAL :: nat where "DEFAULT_KEEP_AWAKE_INTERVAL = 20 * SECOND"

definition DEFAULT_TOLERATED_ERRORS :: nat where "DEFAULT_TOLERATED_ERRORS = 3"

definition RETRY_AFTER :: nat where "RETRY_AFTER = SECOND"

datatype keep_awake_end = KeepStopped | KeepIdle | KeepElapsed | KeepNotRunning

fun keep_end_as_str :: "keep_awake_end \<Rightarrow> string" where
  "keep_end_as_str KeepStopped = ''stopped''"
| "keep_end_as_str KeepIdle = ''idle''"
| "keep_end_as_str KeepElapsed = ''elapsed''"
| "keep_end_as_str KeepNotRunning = ''not-running''"

record keep_awake_report =
  kr_end :: keep_awake_end
  kr_polls :: nat
  kr_last_busy :: "bool option"
  kr_elapsed :: nat

record keep_awake =
  ka_interval :: nat
  ka_idle_window :: nat
  ka_while_busy :: bool
  ka_max_duration :: "nat option"
  ka_tolerated_errors :: nat

definition keep_awake_new :: "nat option \<Rightarrow> keep_awake" where
  "keep_awake_new idle_window =
     (let window = (case idle_window of Some w \<Rightarrow> w | None \<Rightarrow> MIN_IDLE_DURATION_SEC * SECOND)
      in \<lparr>ka_interval = min (window div 3) DEFAULT_KEEP_AWAKE_INTERVAL, ka_idle_window = window,
          ka_while_busy = False, ka_max_duration = None,
          ka_tolerated_errors = DEFAULT_TOLERATED_ERRORS\<rparr>)"

definition validate :: "keep_awake \<Rightarrow> client_error + unit" where
  "validate ka =
     (if ka_idle_window ka < MIN_IDLE_DURATION_SEC * SECOND
      then Inl (invalid_arg (IdleWindowTooShort (ka_idle_window ka)))
      else if ka_interval ka < SECOND then Inl (invalid_arg (IntervalTooShort (ka_interval ka)))
      else if ka_idle_window ka div 2 < ka_interval ka
      then Inl (invalid_arg (IntervalOverHalf (ka_interval ka) (ka_idle_window ka)))
      else if ka_max_duration ka = Some 0 then Inl (invalid_arg MaxDurationZero)
      else Inr ())"

section \<open>The loop\<close>

text \<open>
  One probe: how long it takes, and its answer (\<open>Inr None\<close> when the VM no longer runs,
  otherwise whether the daemon reports itself busy).
\<close>

type_synonym probe = "nat \<times> (client_error + bool option)"

record keep_state =
  ks_now :: nat
  ks_polls :: nat
  ks_errors :: nat
  ks_last_busy :: "bool option"
  ks_asked :: "(nat \<times> bool) list"

text \<open>\<open>ks_asked\<close> is the history: when each probe was sent, and whether it was answered, for the probes that came back.\<close>

definition keep_report :: "keep_awake_end \<Rightarrow> nat \<Rightarrow> keep_state \<Rightarrow> keep_awake_report" where
  "keep_report e now s =
     \<lparr>kr_end = e, kr_polls = ks_polls s, kr_last_busy = ks_last_busy s, kr_elapsed = now\<rparr>"

datatype 'r turn = Return 'r | Again nat keep_state

definition answered :: "keep_awake \<Rightarrow> client_error + bool option \<Rightarrow> keep_state
     \<Rightarrow> (client_error + keep_awake_report) turn" where
  "answered ka answer s =
     (case answer of
        Inr (Some busy) \<Rightarrow>
          (let s1 = s\<lparr>ks_polls := ks_polls s + 1, ks_errors := 0, ks_last_busy := Some busy\<rparr>
           in if ka_while_busy ka \<and> \<not> busy then Return (Inr (keep_report KeepIdle (ks_now s) s1))
              else Again (ka_interval ka) s1)
      | Inr None \<Rightarrow> Return (Inr (keep_report KeepNotRunning (ks_now s) s))
      | Inl e \<Rightarrow>
          (if retryable e \<and> ks_errors s < ka_tolerated_errors ka
           then Again RETRY_AFTER (s\<lparr>ks_errors := ks_errors s + 1\<rparr>)
           else Return (Inl e)))"

text \<open>After the answer: the deadline, the sleep (which the stop may end) and the deadline again.\<close>

definition past_max :: "keep_awake \<Rightarrow> nat \<Rightarrow> bool" where
  "past_max ka now \<longleftrightarrow> (case ka_max_duration ka of Some m \<Rightarrow> m \<le> now | None \<Rightarrow> False)"

definition capped_wait :: "keep_awake \<Rightarrow> nat \<Rightarrow> nat \<Rightarrow> nat" where
  "capped_wait ka now wait = (case ka_max_duration ka of Some m \<Rightarrow> min wait (m - now) | None \<Rightarrow> wait)"

definition stops_by :: "nat option \<Rightarrow> nat \<Rightarrow> bool" where
  "stops_by stop_at t \<longleftrightarrow> (case stop_at of Some u \<Rightarrow> u \<le> t | None \<Rightarrow> False)"

definition stopped_at :: "nat option \<Rightarrow> nat \<Rightarrow> nat" where
  "stopped_at stop_at now = (case stop_at of Some u \<Rightarrow> max u now | None \<Rightarrow> now)"

definition rest :: "keep_awake \<Rightarrow> nat option \<Rightarrow> nat \<Rightarrow> keep_state
     \<Rightarrow> (client_error + keep_awake_report) turn" where
  "rest ka stop_at wait s =
     (if past_max ka (ks_now s) then Return (Inr (keep_report KeepElapsed (ks_now s) s))
      else
        (let wake = ks_now s + capped_wait ka (ks_now s) wait in
         if stops_by stop_at wake then Return (Inr (keep_report KeepStopped (stopped_at stop_at (ks_now s)) s))
         else if past_max ka wake then Return (Inr (keep_report KeepElapsed wake s))
         else Again 0 (s\<lparr>ks_now := wake\<rparr>)))"

definition is_answer :: "client_error + bool option \<Rightarrow> bool" where
  "is_answer a \<longleftrightarrow> (case a of Inr (Some b) \<Rightarrow> True | _ \<Rightarrow> False)"

definition asked :: "probe \<Rightarrow> keep_state \<Rightarrow> keep_state" where
  "asked p s = s\<lparr>ks_now := ks_now s + fst p, ks_asked := ks_asked s @ [(ks_now s, is_answer (snd p))]\<rparr>"

fun keep_loop :: "keep_awake \<Rightarrow> nat option \<Rightarrow> probe list \<Rightarrow> keep_state
     \<Rightarrow> (client_error + keep_awake_report) option \<times> keep_state" where
  "keep_loop ka stop_at [] s = (None, s)"
| "keep_loop ka stop_at (p # probes) s =
     (if stops_by stop_at (ks_now s + fst p)
      then (Some (Inr (keep_report KeepStopped (stopped_at stop_at (ks_now s)) s)), s)
      else
        (case answered ka (snd p) (asked p s) of
           Return r \<Rightarrow> (Some r, asked p s)
         | Again wait s1 \<Rightarrow>
             (case rest ka stop_at wait s1 of
                Return r \<Rightarrow> (Some r, s1)
              | Again _ s2 \<Rightarrow> keep_loop ka stop_at probes s2)))"

definition keep_start :: keep_state where
  "keep_start = \<lparr>ks_now = 0, ks_polls = 0, ks_errors = 0, ks_last_busy = None, ks_asked = []\<rparr>"

definition keep_run :: "keep_awake \<Rightarrow> nat option \<Rightarrow> probe list
     \<Rightarrow> (client_error + keep_awake_report) option \<times> keep_state" where
  "keep_run ka stop_at probes =
     (case validate ka of
        Inl e \<Rightarrow> (Some (Inl e), keep_start)
      | Inr _ \<Rightarrow> keep_loop ka stop_at probes keep_start)"

section \<open>The task\<close>

text \<open>
  \<open>spawn\<close>: the probe of a session, gated by whether the VM is still one it may poll, and the
  task. The stop sender is taken by the first \<open>request_stop\<close>; the outcome keeps the kind and
  the message of an error.
\<close>

definition session_probe :: "bool option \<Rightarrow> nat \<times> (client_error + bool) \<Rightarrow> probe" where
  "session_probe running answer =
     (if running = Some False then (0, Inr None)
      else (fst answer, map_sum id Some (snd answer)))"

record keep_awake_task =
  kt_stop :: bool
  kt_outcome :: "(error_kind \<times> message + keep_awake_report) option"

definition spawn_task :: "keep_awake \<Rightarrow> client_error + keep_awake_task" where
  "spawn_task ka = bind_r (validate ka) (\<lambda>u. Inr \<lparr>kt_stop = True, kt_outcome = None\<rparr>)"

definition request_stop :: "keep_awake_task \<Rightarrow> keep_awake_task \<times> bool" where
  "request_stop task = (task\<lparr>kt_stop := False\<rparr>, kt_stop task)"

definition task_done :: "client_error + keep_awake_report \<Rightarrow> keep_awake_task \<Rightarrow> keep_awake_task" where
  "task_done r task = task\<lparr>kt_outcome := Some (map_sum (\<lambda>e. (er_kind e, er_message e)) id r)\<rparr>"

definition task_outcome :: "keep_awake_task \<Rightarrow> (client_error + keep_awake_report) option" where
  "task_outcome task = map_option (map_sum (\<lambda>(k, m). new_error k m) id) (kt_outcome task)"

section \<open>The policy\<close>

lemma validate_ok:
  "validate ka = Inr () \<longleftrightarrow> MIN_IDLE_DURATION_SEC * SECOND \<le> ka_idle_window ka \<and> SECOND \<le> ka_interval ka \<and>
     ka_interval ka \<le> ka_idle_window ka div 2 \<and> ka_max_duration ka \<noteq> Some 0"
  by (auto simp: validate_def)

text \<open>The default policy is valid for every window the platform accepts.\<close>

lemma keep_awake_new_valid:
  "validate (keep_awake_new w) = Inr () \<longleftrightarrow> (case w of None \<Rightarrow> True | Some d \<Rightarrow> MIN_IDLE_DURATION_SEC * SECOND \<le> d)"
  by (auto simp: validate_ok keep_awake_new_def Let_def MIN_IDLE_DURATION_SEC_def SECOND_def
      DEFAULT_KEEP_AWAKE_INTERVAL_def min_def split: option.splits)

section \<open>The window is covered\<close>

text \<open>At most \<open>k\<close> probes in a row go unanswered.\<close>

fun misses_at_most :: "nat \<Rightarrow> nat \<Rightarrow> probe list \<Rightarrow> bool" where
  "misses_at_most k n [] \<longleftrightarrow> True"
| "misses_at_most k n (p # ps) \<longleftrightarrow>
     (if is_answer (snd p) then misses_at_most k 0 ps else n < k \<and> misses_at_most k (n + 1) ps)"

text \<open>No two answered probes, and no end of the run, are more than the window apart.\<close>

fun covered :: "nat \<Rightarrow> nat \<Rightarrow> (nat \<times> bool) list \<Rightarrow> bool" where
  "covered window before [] \<longleftrightarrow> True"
| "covered window before ((t, ok) # h) \<longleftrightarrow>
     (if ok then t \<le> before + window \<and> covered window t h else covered window before h)"

fun last_answered :: "nat \<Rightarrow> (nat \<times> bool) list \<Rightarrow> nat" where
  "last_answered before [] = before"
| "last_answered before ((t, ok) # h) = last_answered (if ok then t else before) h"

lemma covered_snoc:
  "covered w b (h @ [(t, ok)]) \<longleftrightarrow> covered w b h \<and> (ok \<longrightarrow> t \<le> last_answered b h + w)"
  by (induction w b h rule: covered.induct) auto

lemma last_answered_snoc:
  "last_answered b (h @ [(t, ok)]) = (if ok then t else last_answered b h)"
  by (induction b h rule: last_answered.induct) auto

definition slack :: "keep_awake \<Rightarrow> nat \<Rightarrow> nat \<Rightarrow> nat" where
  "slack ka d n = d + ka_interval ka + n * (d + RETRY_AFTER)"

definition keep_inv :: "keep_awake \<Rightarrow> nat \<Rightarrow> keep_state \<Rightarrow> bool" where
  "keep_inv ka d s \<longleftrightarrow> covered (ka_idle_window ka) 0 (ks_asked s) \<and>
     ks_now s \<le> last_answered 0 (ks_asked s) + slack ka d (ks_errors s)"

lemma slack_mono: "n \<le> m \<Longrightarrow> slack ka d n \<le> slack ka d m"
  by (simp add: slack_def)

lemma rest_Again: "rest ka stop_at wait s = Again w s' \<Longrightarrow>
    s' = s\<lparr>ks_now := ks_now s + wait\<rparr> \<and> (\<forall>m. ka_max_duration ka = Some m \<longrightarrow> ks_now s + wait < m)"
  by (auto simp: rest_def capped_wait_def past_max_def Let_def split: if_splits option.splits)

lemma keep_loop_inv:
  "keep_loop ka stop_at probes s = (r, s') \<Longrightarrow> keep_inv ka d s \<Longrightarrow>
     \<forall>p \<in> set probes. fst p \<le> d \<Longrightarrow> misses_at_most k (ks_errors s) probes \<Longrightarrow> ks_errors s \<le> k \<Longrightarrow>
     slack ka d k \<le> ka_idle_window ka \<Longrightarrow>
     covered (ka_idle_window ka) 0 (ks_asked s') \<and>
     (r = None \<longrightarrow> ks_now s' \<le> last_answered 0 (ks_asked s') + ka_idle_window ka)"
proof (induction ka stop_at probes s rule: keep_loop.induct)
  case (1 ka stop_at s)
  then show ?case using slack_mono [of "ks_errors s" k ka d] by (auto simp: keep_inv_def)
next
  case (2 ka stop_at p probes s)
  have d: "fst p \<le> d" using 2(4) by simp
  have near: "ks_now s \<le> last_answered 0 (ks_asked s) + ka_idle_window ka"
    using 2(3) slack_mono [OF 2(6), of ka d] 2(7) by (simp add: keep_inv_def)
  then have cov: "covered (ka_idle_window ka) 0 (ks_asked (asked p s))"
    using 2(3) by (simp add: keep_inv_def asked_def covered_snoc)
  show ?case
  proof (cases "stops_by stop_at (ks_now s + fst p)")
    case True
    with 2(2,3) show ?thesis by (auto simp: keep_inv_def)
  next
    case go: False
    show ?thesis
    proof (cases "answered ka (snd p) (asked p s)")
      case (Return q)
      with 2(2) go cov show ?thesis by auto
    next
      case (Again wait s1)
      have s1: "ks_asked s1 = ks_asked (asked p s)" "ks_now s1 = ks_now s + fst p"
        "is_answer (snd p) \<Longrightarrow> ks_errors s1 = 0 \<and> wait = ka_interval ka"
        "\<not> is_answer (snd p) \<Longrightarrow> ks_errors s1 = ks_errors s + 1 \<and> wait = RETRY_AFTER"
        using Again by (auto simp: answered_def asked_def is_answer_def Let_def split: sum.splits option.splits if_splits)
      show ?thesis
      proof (cases "rest ka stop_at wait s1")
        case (Return q)
        with 2(2) go Again cov s1(1) show ?thesis by auto
      next
        case rst: (Again w s2)
        then have loop: "keep_loop ka stop_at probes s2 = (r, s')" using 2(2) go Again by simp
        from rest_Again [OF rst] have s2: "ks_now s2 = ks_now s1 + wait"
          "ks_asked s2 = ks_asked s1" "ks_errors s2 = ks_errors s1"
          by auto
        have inv: "keep_inv ka d s2"
        proof (cases "is_answer (snd p)")
          case True
          then have "ks_now s2 \<le> ks_now s + slack ka d 0" using s1 s2 d by (simp add: slack_def)
          with True cov show ?thesis
            by (simp add: keep_inv_def s2 s1 asked_def last_answered_snoc)
        next
          case False
          then have "ks_now s2 \<le> ks_now s + d + RETRY_AFTER" using s1 s2 d by simp
          with False cov 2(3) show ?thesis
            by (simp add: keep_inv_def s2 s1 asked_def last_answered_snoc slack_def)
        qed
        have m: "misses_at_most k (ks_errors s2) probes" "ks_errors s2 \<le> k"
          using 2(5) s1 s2 by (cases "is_answer (snd p)"; auto)+
        show ?thesis using 2(1) [OF go Again rst loop inv _ m 2(7)] 2(4) by simp
      qed
    qed
  qed
qed

lemma slack_fits:
  assumes "validate ka = Inr ()" and "2 * (k + 1) * d + 2 * k * RETRY_AFTER \<le> ka_idle_window ka"
  shows "slack ka d k \<le> ka_idle_window ka"
proof -
  have "ka_interval ka \<le> ka_idle_window ka div 2" using assms(1) by (simp add: validate_ok)
  then have "2 * ka_interval ka \<le> ka_idle_window ka" by linarith
  moreover have "2 * slack ka d k = 2 * ka_interval ka + (2 * (k + 1) * d + 2 * k * RETRY_AFTER)"
    by (simp add: slack_def algebra_simps)
  ultimately show ?thesis using assms(2) by linarith
qed

lemmas keep_evals = validate_def keep_run_def keep_start_def keep_awake_new_def answered_def asked_def rest_def
  stops_by_def past_max_def capped_wait_def is_answer_def keep_report_def retryable_new Let_def
  MIN_IDLE_DURATION_SEC_def DEFAULT_KEEP_AWAKE_INTERVAL_def DEFAULT_TOLERATED_ERRORS_def
  RETRY_AFTER_def SECOND_def

section \<open>Properties\<close>

text \<open>
  C23: Under a valid policy the platform never sees an idle window: when no probe takes longer
  than \<open>d\<close> and at most \<open>k\<close> in a row go unanswered, and the retries fit in half the
  window, any two consecutive answered probes are sent within the window of each other, and so is
  the last one of a run that goes on. For the smallest window, 60 seconds, and one miss, that is
  every \<open>d\<close> up to 14.5 seconds.
\<close>

theorem keepalive_covers_window:
  assumes "validate ka = Inr ()" and "\<And>p. p \<in> set probes \<Longrightarrow> fst p \<le> d"
    and "misses_at_most k 0 probes"
    and "2 * (k + 1) * d + 2 * k * RETRY_AFTER \<le> ka_idle_window ka"
    and "keep_run ka stop_at probes = (r, s)"
  shows "covered (ka_idle_window ka) 0 (ks_asked s) \<and>
    (r = None \<longrightarrow> ks_now s \<le> last_answered 0 (ks_asked s) + ka_idle_window ka)"
proof -
  have "keep_inv ka d keep_start" by (simp add: keep_inv_def keep_start_def)
  from keep_loop_inv [OF _ this, of stop_at probes r s k] assms slack_fits [OF assms(1,4)]
  show ?thesis by (simp add: keep_run_def keep_start_def)
qed

theorem keepalive_covers_window_witness:
  "case keep_run (keep_awake_new None) (Some (70 * SECOND))
       [(10 ^ 9, Inr (Some True)), (2 * 10 ^ 9, Inl (new_error Retryable BadDuration)),
        (10 ^ 9, Inr (Some True)), (10 ^ 9, Inr (Some True))] of
     (r, s) \<Rightarrow> covered (60 * SECOND) 0 (ks_asked s) \<and> length (ks_asked s) = 4"
proof -
  let ?ps = "[(10 ^ 9, Inr (Some True)), (2 * 10 ^ 9, Inl (new_error Retryable BadDuration)),
        (10 ^ 9, Inr (Some True)), (10 ^ 9, Inr (Some True))]"
  obtain r s where r: "keep_run (keep_awake_new None) (Some (70 * SECOND)) ?ps = (r, s)" by (metis prod.exhaust)
  have w: "ka_idle_window (keep_awake_new None) = 60 * SECOND"
    by (simp add: keep_awake_new_def MIN_IDLE_DURATION_SEC_def)
  have v: "validate (keep_awake_new None) = Inr ()" by (simp add: keep_awake_new_valid)
  have "covered (ka_idle_window (keep_awake_new None)) 0 (ks_asked s) \<and>
    (r = None \<longrightarrow> ks_now s \<le> last_answered 0 (ks_asked s) + ka_idle_window (keep_awake_new None))"
    by (rule keepalive_covers_window [OF v _ _ _ r, of "2 * 10 ^ 9" 1])
      (auto simp: w is_answer_def RETRY_AFTER_def SECOND_def)
  moreover have "length (ks_asked (snd (keep_run (keep_awake_new None) (Some (70 * SECOND)) ?ps))) = 4"
    by (simp add: keep_evals)
  ultimately show ?thesis unfolding r w by simp
qed

text \<open>
  A keepalive with a maximum duration ends: every turn sleeps at least a second, so one more probe
  than the seconds of the maximum is enough, whatever they answer.
\<close>

lemma answered_Again:
  "answered ka a s = Again wait s1 \<Longrightarrow> ks_now s1 = ks_now s \<and> (wait = ka_interval ka \<or> wait = RETRY_AFTER)"
  by (auto simp: answered_def Let_def split: sum.splits option.splits if_splits)

lemma keep_loop_ends:
  "ka_max_duration ka = Some m \<Longrightarrow> SECOND \<le> ka_interval ka \<Longrightarrow> ks_now s < m \<Longrightarrow>
     m < ks_now s + length probes * SECOND \<Longrightarrow> fst (keep_loop ka stop_at probes s) \<noteq> None"
proof (induction ka stop_at probes s rule: keep_loop.induct)
  case (2 ka stop_at p probes s)
  show ?case
  proof (cases "stops_by stop_at (ks_now s + fst p)")
    case go: False
    show ?thesis
    proof (cases "answered ka (snd p) (asked p s)")
      case (Again wait s1)
      from answered_Again [OF this] have s1: "ks_now s1 = ks_now s + fst p" "SECOND \<le> wait"
        using 2(3) by (auto simp: asked_def RETRY_AFTER_def)
      show ?thesis
      proof (cases "rest ka stop_at wait s1")
        case rst: (Again w s2)
        from rest_Again [OF rst] have "ks_now s2 < m" "ks_now s + SECOND \<le> ks_now s2" using s1 2(2) by auto
        then show ?thesis using 2(1) [OF go Again rst 2(2,3)] 2(5) go Again rst by simp
      qed (use go Again in simp)
    qed (use go in simp)
  qed simp
qed simp

lemma keep_run_ends:
  assumes "ka_max_duration ka = Some m" and "m div SECOND < length probes"
  shows "fst (keep_run ka stop_at probes) \<noteq> None"
proof (cases "validate ka")
  case (Inr u)
  then have v: "SECOND \<le> ka_interval ka" "0 < m" using assms(1) by (auto simp: validate_ok)
  have "m < length probes * SECOND"
    using assms(2) by (metis SECOND_def div_less_iff_less_mult zero_less_numeral zero_less_power)
  with keep_loop_ends [OF assms(1) v(1), of keep_start probes stop_at] v Inr show ?thesis
    by (simp add: keep_run_def keep_start_def)
qed (simp add: keep_run_def)

text \<open>
  A probe that hangs is not covered: the session's requests time out after 60 seconds, and with the
  default policy for a 60-second window one such miss leaves 81 seconds between two answers.
\<close>

lemma one_hung_probe_uncovers:
  "\<not> covered (60 * SECOND) 0 (ks_asked (snd (keep_run (keep_awake_new None) None
      [(0, Inr (Some True)), (60 * SECOND, Inl (new_error Retryable BadDuration)), (0, Inr (Some True))])))"
  by (simp add: keep_evals)

end
