(* ===== verification/ModelExecStart.thy ===== *)
theory ModelExecStart
  imports Prelude
begin

text \<open>
  The specification machine of start resolution, \<open>crates/model/src/exec_start.rs\<close>: the
  environment of a child by the layer each variable came from, the resolution of user, group and
  shell, the specified order and the alternatives it rejects, and the daemon from its start through
  one start request. The always properties are proved for every reachable state.
\<close>

section \<open>Sources and environments\<close>

datatype source = SrcImage | SrcConfig | SrcToken | SrcPasswd | SrcLaunch | SrcRequest

datatype env_key = KHome | KUser | KPath | KImageOnly | KAgentdConfig | KAgentdToken

definition ALL_ENV_KEYS :: "env_key list" where
  "ALL_ENV_KEYS = [KHome, KUser, KPath, KImageOnly, KAgentdConfig, KAgentdToken]"

definition is_agentd :: "env_key \<Rightarrow> bool" where
  "is_agentd k \<longleftrightarrow> k = KAgentdConfig \<or> k = KAgentdToken"

text \<open>\<open>Env\<close>: for each key, the layer that set it. \<open>overlay\<close> is the map addition.\<close>

type_synonym source_env = "env_key \<Rightarrow> source option"

definition overlay :: "source_env \<Rightarrow> source_env \<Rightarrow> source_env" where
  "overlay e other = (\<lambda>k. case other k of Some s \<Rightarrow> Some s | None \<Rightarrow> e k)"

definition env_len :: "source_env \<Rightarrow> nat" where
  "env_len e = length (filter (\<lambda>k. e k \<noteq> None) ALL_ENV_KEYS)"

definition carries_source :: "source_env \<Rightarrow> source \<Rightarrow> bool" where
  "carries_source e s \<longleftrightarrow> list_ex (\<lambda>k. e k = Some s) ALL_ENV_KEYS"

definition without_agentd :: "source_env \<Rightarrow> source_env" where
  "without_agentd e = (\<lambda>k. if is_agentd k then None else e k)"

lemma ALL_ENV_KEYS_total [simp]: "k \<in> set ALL_ENV_KEYS"
  by (cases k) (simp_all add: ALL_ENV_KEYS_def)

lemma carries_source_iff: "carries_source e s \<longleftrightarrow> (\<exists>k. e k = Some s)"
  by (auto simp: carries_source_def list_ex_iff)

section \<open>The request\<close>

datatype user_req = UserAbsent | IdWithRow | IdNoRow | UserKnown | UserUnknown | DigitsNoRow

datatype default_user = DefUnset | DefKnown | DefUnknown | DefDigitsRow | DefDigitsNoRow

definition ALL_DEFAULTS :: "default_user list" where
  "ALL_DEFAULTS = [DefUnset, DefKnown, DefUnknown, DefDigitsRow, DefDigitsNoRow]"

definition default_has_row :: "default_user \<Rightarrow> bool" where
  "default_has_row d \<longleftrightarrow> d = DefKnown \<or> d = DefDigitsRow"

fun as_request :: "default_user \<Rightarrow> user_req option" where
  "as_request DefUnset = None"
| "as_request DefKnown = Some UserKnown"
| "as_request DefDigitsRow = Some UserKnown"
| "as_request DefUnknown = Some UserUnknown"
| "as_request DefDigitsNoRow = Some UserUnknown"

definition as_request_string :: "default_user \<Rightarrow> user_req option" where
  "as_request_string d =
     (case d of
        DefDigitsRow \<Rightarrow> Some IdWithRow
      | DefDigitsNoRow \<Rightarrow> Some DigitsNoRow
      | _ \<Rightarrow> as_request d)"

datatype group_req = GroupAbsent | GroupId | GroupKnown | GroupUnknown

datatype shell_req = ShellOff | ShellOn | NamedPresent | NamedMissing

record exec_request =
  sr_user :: user_req
  sr_group :: group_req
  sr_shell :: shell_req
  sr_inherit :: bool
  sr_sets_home :: bool
  sr_sets_path :: bool

definition ALL_USERS :: "user_req list" where
  "ALL_USERS = [UserAbsent, IdWithRow, IdNoRow, UserKnown, UserUnknown, DigitsNoRow]"

definition ALL_GROUPS :: "group_req list" where
  "ALL_GROUPS = [GroupAbsent, GroupId, GroupKnown, GroupUnknown]"

definition ALL_SHELLS :: "shell_req list" where
  "ALL_SHELLS = [ShellOff, ShellOn, NamedPresent, NamedMissing]"

definition BOTH :: "bool list" where
  "BOTH = [False, True]"

definition all_requests :: "exec_request list" where
  "all_requests =
     [\<lparr>sr_user = u, sr_group = g, sr_shell = sh, sr_inherit = i, sr_sets_home = h, sr_sets_path = p\<rparr>.
        u \<leftarrow> ALL_USERS, g \<leftarrow> ALL_GROUPS, sh \<leftarrow> ALL_SHELLS, i \<leftarrow> BOTH, h \<leftarrow> BOTH, p \<leftarrow> BOTH]"

text \<open>Every request is sent.\<close>

lemma all_requests_total [simp]: "r \<in> set all_requests"
proof -
  have t: "u \<in> set ALL_USERS" "g \<in> set ALL_GROUPS" "sh \<in> set ALL_SHELLS" "p \<in> set BOTH" for u g sh p
    by (cases u; simp add: ALL_USERS_def) (cases g; simp add: ALL_GROUPS_def | cases sh; simp add: ALL_SHELLS_def
        | cases p; simp add: BOTH_def)+
  show ?thesis by (cases r) (simp add: all_requests_def image_iff t)
qed

definition request_env :: "exec_request \<Rightarrow> source_env" where
  "request_env r = (\<lambda>k. if k = KHome \<and> sr_sets_home r \<or> k = KPath \<and> sr_sets_path r
     then Some SrcRequest else None)"

definition is_protocol_one :: "exec_request \<Rightarrow> bool" where
  "is_protocol_one r \<longleftrightarrow> sr_user r \<in> {UserAbsent, IdWithRow, IdNoRow} \<and>
     sr_group r \<in> {GroupAbsent, GroupId} \<and> sr_shell r \<in> {ShellOff, ShellOn}"

definition user_under :: "exec_request \<Rightarrow> default_user \<Rightarrow> user_req" where
  "user_under r d =
     (if sr_user r = UserAbsent
      then (case as_request d of Some u \<Rightarrow> u | None \<Rightarrow> UserAbsent)
      else sr_user r)"

definition has_row :: "exec_request \<Rightarrow> default_user \<Rightarrow> bool" where
  "has_row r d \<longleftrightarrow> user_under r d = IdWithRow \<or> user_under r d = UserKnown"

section \<open>The plan\<close>

datatype account = AccDaemon | AccRequested | AccDefault
datatype child_uid = UidDaemon | UidRequested | UidRow
datatype child_gid = GidDaemon | GidRequested | GidRowPrimary | GidGroupRow
datatype child_program = ProgArgv | ProgBinSh | ProgResolved
datatype refusal_code = CodeUser | CodeGroup | CodeShell

record child =
  ch_account :: account
  ch_uid :: child_uid
  ch_gid :: child_gid
  ch_program :: child_program
  ch_env :: source_env

datatype start_answer = AnsStarted | AnsRefused refusal_code

record exec_world =
  ew_image :: source_env
  ew_launch :: source_env
  ew_default_user :: default_user

datatype defaulting = DefaultSpecified | DefaultIgnored | DefaultOverrides | UnknownAsDaemon | AsRequestString

datatype layering = LayersSpecified | IdentityOnTop | ImageOnTop

definition choose_account :: "defaulting \<Rightarrow> default_user \<Rightarrow> user_req \<Rightarrow> account \<times> user_req" where
  "choose_account df d u =
     (let default = (if df = AsRequestString then as_request_string d else as_request d) in
      case default of
        Some v \<Rightarrow>
          (if df = DefaultOverrides then (AccDefault, v)
           else if u \<noteq> UserAbsent then (AccRequested, u)
           else if df = DefaultIgnored then (AccDaemon, UserAbsent)
           else if df = UnknownAsDaemon \<and> v = UserUnknown then (AccDaemon, UserAbsent)
           else (AccDefault, v))
      | None \<Rightarrow> (if u \<noteq> UserAbsent then (AccRequested, u) else (AccDaemon, UserAbsent)))"

fun uid_of :: "user_req \<Rightarrow> refusal_code + child_uid" where
  "uid_of UserAbsent = Inr UidDaemon"
| "uid_of IdWithRow = Inr UidRequested"
| "uid_of IdNoRow = Inr UidRequested"
| "uid_of DigitsNoRow = Inr UidRequested"
| "uid_of UserKnown = Inr UidRow"
| "uid_of UserUnknown = Inl CodeUser"

fun gid_of :: "bool \<Rightarrow> user_req \<Rightarrow> group_req \<Rightarrow> refusal_code + child_gid" where
  "gid_of numeric u GroupId = Inr GidRequested"
| "gid_of numeric u GroupKnown = Inr GidGroupRow"
| "gid_of numeric u GroupUnknown = Inl CodeGroup"
| "gid_of numeric u GroupAbsent =
     Inr (if u = UserKnown then GidRowPrimary
          else if u = IdWithRow \<and> numeric then GidRowPrimary
          else GidDaemon)"

fun program_of :: "bool \<Rightarrow> shell_req \<Rightarrow> refusal_code + child_program" where
  "program_of fallback ShellOff = Inr ProgArgv"
| "program_of fallback ShellOn = Inr ProgBinSh"
| "program_of fallback NamedPresent = Inr ProgResolved"
| "program_of fallback NamedMissing = (if fallback then Inr ProgBinSh else Inl CodeShell)"

definition identity_env :: "user_req \<Rightarrow> source_env" where
  "identity_env u =
     (\<lambda>k. if (u = IdWithRow \<or> u = UserKnown) \<and> (k = KHome \<or> k = KUser) then Some SrcPasswd else None)"

definition layered :: "layering \<Rightarrow> exec_request \<Rightarrow> exec_world \<Rightarrow> user_req \<Rightarrow> source_env" where
  "layered l r w u =
     (let image = (if sr_inherit r then ew_image w else Map.empty);
          layers = (case l of
             LayersSpecified \<Rightarrow> [image, identity_env u, ew_launch w, request_env r]
           | IdentityOnTop \<Rightarrow> [image, ew_launch w, request_env r, identity_env u]
           | ImageOnTop \<Rightarrow> [identity_env u, ew_launch w, request_env r, image])
      in foldl overlay Map.empty layers)"

definition plan_child ::
  "exec_request \<Rightarrow> exec_world \<Rightarrow> layering \<Rightarrow> bool \<Rightarrow> bool \<Rightarrow> defaulting \<Rightarrow> refusal_code + child" where
  "plan_child r w l numeric fallback df =
     (case choose_account df (ew_default_user w) (sr_user r) of
        (acc, u) \<Rightarrow>
          bind_r (uid_of u) (\<lambda>uid.
          bind_r (gid_of numeric u (sr_group r)) (\<lambda>gid.
          bind_r (program_of fallback (sr_shell r)) (\<lambda>p.
            Inr \<lparr>ch_account = acc, ch_uid = uid, ch_gid = gid, ch_program = p,
              ch_env = layered l r w u\<rparr>))))"

definition specified :: "exec_request \<Rightarrow> exec_world \<Rightarrow> refusal_code + child" where
  "specified r w = plan_child r w LayersSpecified False False DefaultSpecified"

section \<open>The daemon\<close>

datatype start_behavior =
    StartSpecified | SpawnBeforeResolve | BehIdentityOnTop | BehImageOnTop | ImageAlways
  | UnfilteredSnapshot | LiveUnfilteredToken | LiveFilteredToken | NumericPrimaryGroup | ShellFallback
  | HealthCountsLiveEnv | BehDefaultIgnored | DefaultOverridesRequest | UnknownDefaultAsDaemon
  | DefaultReadAsRequest

definition exports_token :: "start_behavior \<Rightarrow> bool" where
  "exports_token b \<longleftrightarrow> b = LiveUnfilteredToken \<or> b = LiveFilteredToken"

definition take_snapshot :: "start_behavior \<Rightarrow> source_env \<Rightarrow> source_env option" where
  "take_snapshot b boot =
     (if b = UnfilteredSnapshot then Some boot
      else if exports_token b then None
      else Some (without_agentd boot))"

datatype start_step = StartIdle | StartReceived | StartResolved | StartAnswered

record start_state =
  sx_booted :: bool
  sx_default :: default_user
  sx_daemon_env :: source_env
  sx_snapshot :: "source_env option"
  sx_token :: bool
  sx_launch :: source_env
  sx_request :: "exec_request option"
  sx_step :: start_step
  sx_resolution :: "(refusal_code + child) option"
  sx_child :: "child option"
  sx_answer :: "start_answer option"
  sx_health :: "nat option option"

definition image_layer :: "start_behavior \<Rightarrow> start_state \<Rightarrow> source_env" where
  "image_layer b s =
     (if b = LiveUnfilteredToken then sx_daemon_env s
      else if b = LiveFilteredToken then without_agentd (sx_daemon_env s)
      else (case sx_snapshot s of Some e \<Rightarrow> e | None \<Rightarrow> Map.empty))"

definition decide :: "start_behavior \<Rightarrow> exec_request \<Rightarrow> exec_world \<Rightarrow> refusal_code + child" where
  "decide b r w =
     plan_child (if b = ImageAlways then r\<lparr>sr_inherit := True\<rparr> else r) w
       (if b = BehIdentityOnTop then IdentityOnTop else if b = BehImageOnTop then ImageOnTop else LayersSpecified)
       (b = NumericPrimaryGroup) (b = ShellFallback)
       (if b = BehDefaultIgnored then DefaultIgnored
        else if b = DefaultOverridesRequest then DefaultOverrides
        else if b = UnknownDefaultAsDaemon then UnknownAsDaemon
        else if b = DefaultReadAsRequest then AsRequestString
        else DefaultSpecified)"

definition health_report :: "start_behavior \<Rightarrow> start_state \<Rightarrow> nat option" where
  "health_report b s =
     (if b = HealthCountsLiveEnv then Some (env_len (sx_daemon_env s))
      else map_option env_len (sx_snapshot s))"

datatype start_action =
    ActBoot default_user | ActRunHook bool bool | ActReceive exec_request | ActResolve | ActSpawn
  | ActAnswer | ActHealth

definition boot_env :: source_env where
  "boot_env = [KHome \<mapsto> SrcImage, KPath \<mapsto> SrcImage, KImageOnly \<mapsto> SrcImage, KAgentdConfig \<mapsto> SrcConfig]"

definition world_of :: "start_behavior \<Rightarrow> start_state \<Rightarrow> exec_world" where
  "world_of b s = \<lparr>ew_image = image_layer b s, ew_launch = sx_launch s, ew_default_user = sx_default s\<rparr>"

definition blind_child :: "start_behavior \<Rightarrow> start_state \<Rightarrow> exec_request \<Rightarrow> child option" where
  "blind_child b s r =
     (case plan_child (r\<lparr>sr_user := UserAbsent, sr_group := GroupAbsent, sr_shell := ShellOn\<rparr>)
             ((world_of b s)\<lparr>ew_default_user := DefUnset\<rparr>) LayersSpecified False False DefaultSpecified of
        Inr c \<Rightarrow> Some c
      | Inl _ \<Rightarrow> None)"

definition start_init :: start_state where
  "start_init =
     \<lparr>sx_booted = False, sx_default = DefUnset, sx_daemon_env = Map.empty, sx_snapshot = None,
      sx_token = False, sx_launch = Map.empty, sx_request = None, sx_step = StartIdle,
      sx_resolution = None, sx_child = None, sx_answer = None, sx_health = None\<rparr>"

definition start_actions :: "start_behavior \<Rightarrow> start_state \<Rightarrow> start_action list" where
  "start_actions b s =
     (if \<not> sx_booted s then map ActBoot ALL_DEFAULTS
      else
        (if sx_health s = None then [ActHealth] else []) @
        (if \<not> sx_token s then [ActRunHook h p. h \<leftarrow> BOTH, p \<leftarrow> BOTH]
         else
           (case sx_step s of
              StartIdle \<Rightarrow> map ActReceive all_requests
            | StartReceived \<Rightarrow>
                if b = SpawnBeforeResolve \<and> sx_child s = None then [ActSpawn] else [ActResolve]
            | StartResolved \<Rightarrow>
                (case sx_resolution s of
                   Some (Inr c) \<Rightarrow> if sx_child s = None then [ActSpawn] else [ActAnswer]
                 | _ \<Rightarrow> [ActAnswer])
            | StartAnswered \<Rightarrow> [])))"

definition answer_of :: "refusal_code + child \<Rightarrow> start_answer" where
  "answer_of res = (case res of Inr _ \<Rightarrow> AnsStarted | Inl c \<Rightarrow> AnsRefused c)"

text \<open>
  \<open>next_state\<close>; the three \<open>expect\<close>s and the \<open>unreachable\<close> are \<open>None\<close>.
\<close>

fun start_next :: "start_behavior \<Rightarrow> start_state \<Rightarrow> start_action \<Rightarrow> start_state option" where
  "start_next b s (ActBoot d) =
     Some (s\<lparr>sx_booted := True, sx_default := d, sx_daemon_env := boot_env,
       sx_snapshot := take_snapshot b boot_env\<rparr>)"
| "start_next b s (ActRunHook home path) =
     (let l1 = (if home then (sx_launch s)(KHome \<mapsto> SrcLaunch) else sx_launch s);
          l2 = (if path then l1(KPath \<mapsto> SrcLaunch) else l1);
          s1 = s\<lparr>sx_token := True, sx_launch := l2\<rparr>
      in Some (if exports_token b
               then s1\<lparr>sx_daemon_env := (sx_daemon_env s)(KAgentdToken \<mapsto> SrcToken)\<rparr> else s1))"
| "start_next b s (ActReceive r) = Some (s\<lparr>sx_request := Some r, sx_step := StartReceived\<rparr>)"
| "start_next b s ActResolve =
     map_option (\<lambda>r. s\<lparr>sx_resolution := Some (decide b r (world_of b s)), sx_step := StartResolved\<rparr>)
       (sx_request s)"
| "start_next b s ActSpawn =
     Option.bind (sx_request s) (\<lambda>r.
       map_option (\<lambda>c. s\<lparr>sx_child := Some c\<rparr>)
         (case sx_resolution s of Some (Inr c) \<Rightarrow> Some c | _ \<Rightarrow> blind_child b s r))"
| "start_next b s ActAnswer =
     map_option (\<lambda>res. s\<lparr>sx_step := StartAnswered,
         sx_answer := Some (answer_of res)\<rparr>)
       (sx_resolution s)"
| "start_next b s ActHealth = Some (s\<lparr>sx_health := Some (health_report b s)\<rparr>)"

inductive start_reach :: "start_behavior \<Rightarrow> start_state \<Rightarrow> bool" for b where
  start_reach_init: "start_reach b start_init"
| start_reach_step: "start_reach b s \<Longrightarrow> a \<in> set (start_actions b s) \<Longrightarrow> start_next b s a = Some t \<Longrightarrow>
    start_reach b t"

section \<open>The always properties\<close>

definition started :: "start_state \<Rightarrow> (exec_request \<times> child) option" where
  "started s =
     (case (sx_request s, sx_child s, sx_answer s) of
        (Some r, Some c, Some AnsStarted) \<Rightarrow> Some (r, c)
      | _ \<Rightarrow> None)"

definition refused :: "start_state \<Rightarrow> (exec_request \<times> refusal_code) option" where
  "refused s =
     (case (sx_request s, sx_answer s) of
        (Some r, Some (AnsRefused c)) \<Rightarrow> Some (r, c)
      | _ \<Rightarrow> None)"

definition on_started :: "start_state \<Rightarrow> (exec_request \<Rightarrow> child \<Rightarrow> bool) \<Rightarrow> bool" where
  "on_started s p \<longleftrightarrow> (case started s of Some (r, c) \<Rightarrow> p r c | None \<Rightarrow> True)"

definition top_source :: "bool \<Rightarrow> bool \<Rightarrow> source \<Rightarrow> source" where
  "top_source by_request by_launch below =
     (if by_request then SrcRequest else if by_launch then SrcLaunch else below)"

definition agentd_7_to_11 :: "start_state \<Rightarrow> bool list" where
  "agentd_7_to_11 s =
     [on_started s (\<lambda>r c. (sr_user r \<noteq> UserKnown \<or> ch_uid c = UidRow) \<and>
        (sr_group r \<noteq> GroupKnown \<or> ch_gid c = GidGroupRow)),
      (case refused s of
         Some (r, code) \<Rightarrow> \<not> (code = CodeUser \<or> code = CodeGroup) \<or> sx_child s = None
       | None \<Rightarrow> True),
      on_started s (\<lambda>r c. sr_user r \<noteq> UserUnknown \<and> sr_group r \<noteq> GroupUnknown),
      on_started s (\<lambda>r c.
        if has_row r (sx_default s)
        then ch_env c KHome = Some (top_source (sr_sets_home r) (sx_launch s KHome \<noteq> None) SrcPasswd) \<and>
          ch_env c KUser = Some SrcPasswd
        else ch_env c KUser = None),
      on_started s (\<lambda>r c. sr_inherit r \<or>
        \<not> carries_source (ch_env c) SrcImage \<and> \<not> carries_source (ch_env c) SrcConfig \<and>
        \<not> carries_source (ch_env c) SrcToken),
      on_started s (\<lambda>r c. \<not> sr_inherit r \<or>
        ch_env c KImageOnly = Some SrcImage \<and>
        ch_env c KPath = Some (top_source (sr_sets_path r) (sx_launch s KPath \<noteq> None) SrcImage) \<and>
        ch_env c KHome = Some (top_source (sr_sets_home r) (sx_launch s KHome \<noteq> None)
          (if has_row r (sx_default s) then SrcPasswd else SrcImage)))]"

definition agentd_12_to_15 :: "start_state \<Rightarrow> bool list" where
  "agentd_12_to_15 s =
     [(case sx_child s of
         None \<Rightarrow> True
       | Some c \<Rightarrow> \<not> carries_source (ch_env c) SrcToken \<and> \<not> carries_source (ch_env c) SrcConfig),
      (case sx_snapshot s of
         None \<Rightarrow> True
       | Some e \<Rightarrow> list_all (\<lambda>k. \<not> is_agentd k \<or> e k = None) ALL_ENV_KEYS),
      (case sx_health s of
         None \<Rightarrow> True
       | Some report \<Rightarrow> report = map_option env_len (sx_snapshot s)),
      on_started s (\<lambda>r c. sr_shell r \<noteq> NamedPresent \<or> ch_program c = ProgResolved),
      (case (sx_request s, sx_answer s) of
         (Some r, Some a) \<Rightarrow> sr_shell r \<noteq> NamedMissing \<or> sx_child s = None \<and> a \<noteq> AnsStarted
       | _ \<Rightarrow> True)]"

definition agentd_16_to_24 :: "start_state \<Rightarrow> bool list" where
  "agentd_16_to_24 s =
     [on_started s (\<lambda>r c.
        \<not> (is_protocol_one r \<and> (sr_user r \<noteq> UserAbsent \<or> sx_default s = DefUnset)) \<or>
        ch_uid c = (if sr_user r = UserAbsent then UidDaemon else UidRequested) \<and>
        ch_gid c = (if sr_group r = GroupId then GidRequested else GidDaemon) \<and>
        ch_program c = (if sr_shell r = ShellOn then ProgBinSh else ProgArgv)),
      on_started s (\<lambda>r c. sr_user r \<noteq> UserAbsent \<or>
        (if sx_default s = DefUnset then ch_account c = AccDaemon \<and> ch_uid c = UidDaemon
         else \<not> default_has_row (sx_default s) \<or>
           ch_account c = AccDefault \<and> ch_uid c = UidRow \<and>
           (sr_group r \<noteq> GroupAbsent \<or> ch_gid c = GidRowPrimary) \<and> ch_env c KUser = Some SrcPasswd)),
      on_started s (\<lambda>r c. sr_user r = UserAbsent \<or> ch_account c = AccRequested),
      (case (sx_request s, sx_answer s) of
         (Some r, Some a) \<Rightarrow>
           \<not> (sr_user r = UserAbsent \<and> sx_default s \<noteq> DefUnset \<and> \<not> default_has_row (sx_default s)) \<or>
           a = AnsRefused CodeUser \<and> sx_child s = None
       | _ \<Rightarrow> True)]"

definition start_always :: "start_state \<Rightarrow> bool list" where
  "start_always s = agentd_7_to_11 s @ agentd_12_to_15 s @ agentd_16_to_24 s"

section \<open>What the specified daemon reaches\<close>

definition child_of :: "refusal_code + child \<Rightarrow> child option" where
  "child_of res = (case res of Inr c \<Rightarrow> Some c | Inl _ \<Rightarrow> None)"

lemma child_of_simps [simp]:
  "child_of (Inr c) = Some c" "child_of (Inl e) = None" "child_of res = Some c \<longleftrightarrow> res = Inr c"
  "Some c = child_of res \<longleftrightarrow> res = Inr c"
  by (auto simp: child_of_def split: sum.splits)

lemma answer_of_simps [simp]:
  "answer_of (Inr c) = AnsStarted" "answer_of (Inl e) = AnsRefused e"
  "answer_of res = AnsStarted \<longleftrightarrow> (\<exists>c. res = Inr c)" "answer_of res = AnsRefused e \<longleftrightarrow> res = Inl e"
  "AnsStarted = answer_of res \<longleftrightarrow> (\<exists>c. res = Inr c)" "AnsRefused e = answer_of res \<longleftrightarrow> res = Inl e"
  by (auto simp: answer_of_def split: sum.splits)

definition launch_ok :: "source_env \<Rightarrow> bool" where
  "launch_ok e \<longleftrightarrow> (\<forall>k. e k = None \<or> e k = Some SrcLaunch \<and> (k = KHome \<or> k = KPath))"

definition settled :: "start_state \<Rightarrow> exec_request \<Rightarrow> bool" where
  "settled s r \<longleftrightarrow> sx_token s \<and> sx_request s = Some r \<and>
     sx_resolution s = Some (specified r (world_of StartSpecified s))"

fun start_step_inv :: "start_step \<Rightarrow> start_state \<Rightarrow> bool" where
  "start_step_inv StartIdle s \<longleftrightarrow> sx_request s = None \<and> sx_resolution s = None \<and> sx_child s = None \<and> sx_answer s = None"
| "start_step_inv StartReceived s \<longleftrightarrow> sx_token s \<and> sx_request s \<noteq> None \<and> sx_resolution s = None \<and>
     sx_child s = None \<and> sx_answer s = None"
| "start_step_inv StartResolved s \<longleftrightarrow> sx_answer s = None \<and>
     (\<exists>r. settled s r \<and> (\<forall>c. sx_child s = Some c \<longrightarrow> specified r (world_of StartSpecified s) = Inr c))"
| "start_step_inv StartAnswered s \<longleftrightarrow>
     (\<exists>r. settled s r \<and> sx_child s = child_of (specified r (world_of StartSpecified s)) \<and>
        sx_answer s = Some (answer_of (specified r (world_of StartSpecified s))))"

definition start_inv :: "start_state \<Rightarrow> bool" where
  "start_inv s \<longleftrightarrow>
     (if sx_booted s
      then sx_daemon_env s = boot_env \<and> sx_snapshot s = Some (without_agentd boot_env) \<and>
        launch_ok (sx_launch s) \<and> (sx_token s \<or> sx_step s = StartIdle) \<and> start_step_inv (sx_step s) s \<and>
        (sx_health s = None \<or> sx_health s = Some (map_option env_len (sx_snapshot s)))
      else s = start_init)"

lemma world_of_health [simp]: "world_of b (s\<lparr>sx_health := h\<rparr>) = world_of b s"
  "world_of b (s\<lparr>sx_child := c\<rparr>) = world_of b s" "world_of b (s\<lparr>sx_step := st, sx_answer := a\<rparr>) = world_of b s"
  "world_of b (s\<lparr>sx_resolution := rs, sx_step := st\<rparr>) = world_of b s"
  by (simp_all add: world_of_def image_layer_def)

lemma launch_ok_simps [simp]:
  "launch_ok Map.empty" "launch_ok e \<Longrightarrow> launch_ok (e(KHome \<mapsto> SrcLaunch))"
  "launch_ok e \<Longrightarrow> launch_ok (e(KPath \<mapsto> SrcLaunch))"
  unfolding launch_ok_def by (simp, metis fun_upd_apply, metis fun_upd_apply)

lemma step_inv_health [simp]: "start_step_inv st (s\<lparr>sx_health := h\<rparr>) = start_step_inv st s"
  by (cases st) (simp_all add: settled_def)

lemma decide_specified: "decide StartSpecified r w = specified r w"
  by (simp add: decide_def specified_def)

lemma start_inv_init: "start_inv start_init"
  by (simp add: start_inv_def start_init_def)

lemma start_inv_step:
  assumes "start_inv s" and "a \<in> set (start_actions StartSpecified s)"
    and "start_next StartSpecified s a = Some t"
  shows "start_inv t"
proof (cases "sx_booted s")
  case False
  with assms show ?thesis
    by (auto simp: start_inv_def start_actions_def start_init_def take_snapshot_def exports_token_def)
next
  case True
  note inv = assms(1) [unfolded start_inv_def]
  show ?thesis
  proof (cases a)
    case (ActRunHook h p)
    then have "\<not> sx_token s" "sx_step s = StartIdle"
      using assms(2) inv True by (auto simp: start_actions_def split: if_splits start_step.splits option.splits sum.splits)
    with ActRunHook assms(3) inv True show ?thesis
      by (auto simp: start_inv_def Let_def exports_token_def)
  next
    case ActHealth
    with assms(3) inv True show ?thesis by (auto simp: start_inv_def health_report_def)
  qed (use assms inv True in \<open>cases "sx_step s"; auto simp: start_inv_def start_actions_def settled_def
      decide_specified split: if_splits sum.splits option.splits\<close>)+
qed

lemma start_inv_reach: "start_reach StartSpecified s \<Longrightarrow> start_inv s"
  by (induction rule: start_reach.induct) (auto intro: start_inv_init start_inv_step)


lemma started_specified:
  assumes "start_inv s" and "started s = Some (r, c)"
  shows "specified r (world_of StartSpecified s) = Inr c \<and> launch_ok (sx_launch s) \<and>
    sx_snapshot s = Some (without_agentd boot_env)"
  using assms by (cases "sx_step s")
    (auto simp: start_inv_def started_def start_init_def settled_def split: if_splits option.splits start_answer.splits)

lemma answered_specified:
  assumes "start_inv s" and "sx_answer s = Some a" and "sx_request s = Some r"
  shows "a = answer_of (specified r (world_of StartSpecified s)) \<and>
    sx_child s = child_of (specified r (world_of StartSpecified s))"
  using assms by (cases "sx_step s") (auto simp: start_inv_def start_init_def settled_def split: if_splits)

lemma child_specified:
  assumes "start_inv s" and "sx_child s = Some c"
  shows "\<exists>r. specified r (world_of StartSpecified s) = Inr c"
  using assms by (cases "sx_step s") (auto simp: start_inv_def start_init_def settled_def split: if_splits)

section \<open>The specified plan\<close>

lemma specified_Inr:
  assumes "specified r w = Inr c"
  shows "uid_of (user_under r (ew_default_user w)) = Inr (ch_uid c)"
    and "gid_of False (user_under r (ew_default_user w)) (sr_group r) = Inr (ch_gid c)"
    and "program_of False (sr_shell r) = Inr (ch_program c)"
    and "ch_env c = layered LayersSpecified r w (user_under r (ew_default_user w))"
    and "ch_account c = (if sr_user r \<noteq> UserAbsent then AccRequested
          else if ew_default_user w = DefUnset then AccDaemon else AccDefault)"
  using assms
  by (cases "ew_default_user w"; cases "sr_user r";
      auto simp: specified_def plan_child_def choose_account_def user_under_def Let_def bind_r_Inr split: if_splits)+

lemma layered_at:
  "layered LayersSpecified r w u k =
     (case request_env r k of Some s \<Rightarrow> Some s
      | None \<Rightarrow> (case ew_launch w k of Some s \<Rightarrow> Some s
        | None \<Rightarrow> (case identity_env u k of Some s \<Rightarrow> Some s
          | None \<Rightarrow> if sr_inherit r then ew_image w k else None)))"
  by (simp add: layered_def Let_def overlay_def split: option.splits)

text \<open>The world of a booted specified daemon.\<close>

definition booted_world :: "exec_world \<Rightarrow> bool" where
  "booted_world w \<longleftrightarrow> ew_image w = without_agentd boot_env \<and> launch_ok (ew_launch w)"

lemma image_at: "booted_world w \<Longrightarrow> ew_image w k =
    (if k = KHome \<or> k = KPath \<or> k = KImageOnly then Some SrcImage else None)"
  by (cases k) (auto simp: booted_world_def without_agentd_def is_agentd_def boot_env_def)

lemma launch_at: "booted_world w \<Longrightarrow> ew_launch w k = Some s \<Longrightarrow> s = SrcLaunch \<and> (k = KHome \<or> k = KPath)"
  unfolding booted_world_def launch_ok_def by (metis option.distinct(1) option.inject)

lemma child_source:
  assumes "booted_world w" and "specified r w = Inr c" and "ch_env c k = Some s"
  shows "s \<in> {SrcRequest, SrcLaunch, SrcPasswd} \<or> s = SrcImage \<and> sr_inherit r"
  using assms(3) launch_at [OF assms(1), of k]
  by (auto simp: specified_Inr(4) [OF assms(2)] layered_at request_env_def identity_env_def image_at [OF assms(1)]
      split: option.splits if_splits)

lemma launch_none: "booted_world w \<Longrightarrow> k \<noteq> KHome \<Longrightarrow> k \<noteq> KPath \<Longrightarrow> ew_launch w k = None"
  using launch_at by (cases "ew_launch w k") blast+

lemma user_of_child:
  assumes "specified r w = Inr c"
  shows "user_under r (ew_default_user w) \<noteq> UserUnknown" and "sr_group r \<noteq> GroupUnknown" and "sr_shell r \<noteq> NamedMissing"
  using specified_Inr(1-3) [OF assms] by auto

section \<open>The always properties hold\<close>

lemma booted_reach:
  assumes "start_inv s" and "sx_booted s"
  shows "booted_world (world_of StartSpecified s)"
  using assms by (simp add: start_inv_def booted_world_def world_of_def image_layer_def)

lemma on_startedI:
  assumes "\<And>r c. started s = Some (r, c) \<Longrightarrow> p r c"
  shows "on_started s p"
  using assms by (auto simp: on_started_def split: option.splits)

lemma started_booted: "start_inv s \<Longrightarrow> started s = Some rc \<Longrightarrow> sx_booted s"
  by (cases "sx_booted s") (auto simp: start_inv_def start_init_def started_def)

lemma world_sel [simp]:
  "ew_default_user (world_of b s) = sx_default s" "ew_launch (world_of b s) = sx_launch s"
  by (simp_all add: world_of_def)

lemma uid_cases:
  "uid_of u = Inr x \<Longrightarrow> x = (if u = UserAbsent then UidDaemon else if u = UserKnown then UidRow else UidRequested)"
  by (cases u) auto

lemma gid_cases:
  "gid_of False u g = Inr x \<Longrightarrow> x = (case g of GroupId \<Rightarrow> GidRequested | GroupKnown \<Rightarrow> GidGroupRow
     | _ \<Rightarrow> if u = UserKnown then GidRowPrimary else GidDaemon)"
  by (cases g) auto

lemma program_cases:
  "program_of False sh = Inr x \<Longrightarrow> x = (case sh of ShellOff \<Rightarrow> ProgArgv | ShellOn \<Rightarrow> ProgBinSh | _ \<Rightarrow> ProgResolved)"
  by (cases sh) auto

lemma agentd_7_to_11_hold:
  assumes "start_inv s"
  shows "list_all id (agentd_7_to_11 s)"
proof -
  note sp = started_specified [OF assms]
  have one: "sr_user r \<noteq> UserKnown \<or> ch_uid c = UidRow" "sr_group r \<noteq> GroupKnown \<or> ch_gid c = GidGroupRow"
    "sr_user r \<noteq> UserUnknown" "sr_group r \<noteq> GroupUnknown"
    if "started s = Some (r, c)" for r c
    using sp [OF that] user_of_child [of r "world_of StartSpecified s" c]
      uid_cases [OF specified_Inr(1), of r "world_of StartSpecified s" c]
      gid_cases [OF specified_Inr(2), of r "world_of StartSpecified s" c]
    by (auto simp: user_under_def)
  have env: "ch_env c k = layered LayersSpecified r (world_of StartSpecified s) (user_under r (sx_default s)) k"
    if "started s = Some (r, c)" for r c k
    using specified_Inr(4) [of r "world_of StartSpecified s" c] sp [OF that] by simp
  have bw: "booted_world (world_of StartSpecified s)" if "started s = Some rc" for rc
    using booted_reach [OF assms started_booted [OF assms that]] .
  have src: "\<not> carries_source (ch_env c) SrcConfig" "\<not> carries_source (ch_env c) SrcToken"
    "sr_inherit r \<or> \<not> carries_source (ch_env c) SrcImage" if "started s = Some (r, c)" for r c
    using child_source [OF bw [OF that]] sp [OF that] by (auto simp: carries_source_iff)
  have launch: "sx_launch s k \<noteq> None \<Longrightarrow> sx_launch s k = Some SrcLaunch"
    "k \<noteq> KHome \<Longrightarrow> k \<noteq> KPath \<Longrightarrow> sx_launch s k = None" if "started s = Some rc" for k rc
    using launch_at [OF bw [OF that], of k] launch_none [OF bw [OF that], of k] by auto
  have idn: "identity_env (user_under r (sx_default s)) k =
      (if has_row r (sx_default s) \<and> (k = KHome \<or> k = KUser) then Some SrcPasswd else None)" for r k
    by (auto simp: identity_env_def has_row_def)
  have nine: "if has_row r (sx_default s)
        then ch_env c KHome = Some (top_source (sr_sets_home r) (sx_launch s KHome \<noteq> None) SrcPasswd) \<and>
          ch_env c KUser = Some SrcPasswd
        else ch_env c KUser = None" if "started s = Some (r, c)" for r c
    using launch [OF that, of KHome] launch [OF that, of KUser] image_at [OF bw [OF that], of KUser]
    by (auto simp: env [OF that] layered_at request_env_def idn top_source_def split: option.splits)
  have eleven: "\<not> sr_inherit r \<or>
        ch_env c KImageOnly = Some SrcImage \<and>
        ch_env c KPath = Some (top_source (sr_sets_path r) (sx_launch s KPath \<noteq> None) SrcImage) \<and>
        ch_env c KHome = Some (top_source (sr_sets_home r) (sx_launch s KHome \<noteq> None)
          (if has_row r (sx_default s) then SrcPasswd else SrcImage))" if "started s = Some (r, c)" for r c
    using launch [OF that, of KHome] launch [OF that, of KPath] launch [OF that, of KImageOnly]
    by (auto simp: env [OF that] layered_at request_env_def idn top_source_def image_at [OF bw [OF that]] split: option.splits)
  have eight: "case refused s of
         Some (r, code) \<Rightarrow> \<not> (code = CodeUser \<or> code = CodeGroup) \<or> sx_child s = None
       | None \<Rightarrow> True"
    using answered_specified [OF assms] by (fastforce simp: refused_def split: option.splits start_answer.splits)
  show ?thesis
    unfolding agentd_7_to_11_def using one nine src eleven eight by (simp add: on_startedI)
qed

lemma agentd_12_to_15_hold:
  assumes "start_inv s"
  shows "list_all id (agentd_12_to_15 s)"
proof -
  have booted: "sx_child s = Some c \<Longrightarrow> sx_booted s" for c
    using assms by (cases "sx_booted s") (auto simp: start_inv_def start_init_def)
  have tw: "case sx_child s of
         None \<Rightarrow> True
       | Some c \<Rightarrow> \<not> carries_source (ch_env c) SrcToken \<and> \<not> carries_source (ch_env c) SrcConfig"
    using child_specified [OF assms] child_source [OF booted_reach [OF assms booted]]
    by (fastforce simp: carries_source_iff split: option.splits)
  have snap: "case sx_snapshot s of
         None \<Rightarrow> True
       | Some e \<Rightarrow> list_all (\<lambda>k. \<not> is_agentd k \<or> e k = None) ALL_ENV_KEYS"
    using assms by (auto simp: start_inv_def start_init_def without_agentd_def list_all_iff split: if_splits option.splits)
  have health: "case sx_health s of
         None \<Rightarrow> True
       | Some report \<Rightarrow> report = map_option env_len (sx_snapshot s)"
    using assms by (auto simp: start_inv_def start_init_def split: if_splits option.splits)
  have shell: "on_started s (\<lambda>r c. sr_shell r \<noteq> NamedPresent \<or> ch_program c = ProgResolved)"
    using started_specified [OF assms] specified_Inr(3) by (fastforce intro!: on_startedI dest: program_cases)
  have missing: "case (sx_request s, sx_answer s) of
         (Some r, Some a) \<Rightarrow> sr_shell r \<noteq> NamedMissing \<or> sx_child s = None \<and> a \<noteq> AnsStarted
       | _ \<Rightarrow> True"
    using answered_specified [OF assms] user_of_child(3)
    by (fastforce split: option.splits simp: child_of_def split: sum.splits)
  show ?thesis using tw snap health shell missing by (simp add: agentd_12_to_15_def)
qed

lemma agentd_16_to_24_hold:
  assumes "start_inv s"
  shows "list_all id (agentd_16_to_24 s)"
proof -
  note sp = started_specified [OF assms]
  have f: "uid_of (user_under r (sx_default s)) = Inr (ch_uid c)"
    "gid_of False (user_under r (sx_default s)) (sr_group r) = Inr (ch_gid c)"
    "program_of False (sr_shell r) = Inr (ch_program c)"
    "ch_account c = (if sr_user r \<noteq> UserAbsent then AccRequested
        else if sx_default s = DefUnset then AccDaemon else AccDefault)"
    if "started s = Some (r, c)" for r c
    using specified_Inr [of r "world_of StartSpecified s" c] sp [OF that] by auto
  have under: "sr_user r \<noteq> UserAbsent \<Longrightarrow> user_under r d = sr_user r" "user_under r DefUnset = sr_user r"
    "sr_user r = UserAbsent \<Longrightarrow> default_has_row d \<Longrightarrow> user_under r d = UserKnown"
    "sr_user r = UserAbsent \<Longrightarrow> d \<noteq> DefUnset \<Longrightarrow> \<not> default_has_row d \<Longrightarrow> user_under r d = UserUnknown" for r d
    by (cases d; simp add: user_under_def default_has_row_def)+
  have sixteen: "ch_uid c = (if sr_user r = UserAbsent then UidDaemon else UidRequested) \<and>
        ch_gid c = (if sr_group r = GroupId then GidRequested else GidDaemon) \<and>
        ch_program c = (if sr_shell r = ShellOn then ProgBinSh else ProgArgv)"
    if st: "started s = Some (r, c)" and p: "is_protocol_one r" "sr_user r \<noteq> UserAbsent \<or> sx_default s = DefUnset" for r c
  proof -
    have u: "user_under r (sx_default s) = sr_user r" using p(2) under(1,2) by metis
    show ?thesis using f(1-3) [OF st] p(1) unfolding u is_protocol_one_def
      by (cases "sr_user r"; cases "sr_group r"; cases "sr_shell r"; simp)
  qed
  have env: "ch_env c KUser = Some SrcPasswd"
    if st: "started s = Some (r, c)" and "user_under r (sx_default s) = UserKnown" for r c
    using specified_Inr(4) [of r "world_of StartSpecified s" c] sp [OF st] that(2)
      launch_none [OF booted_reach [OF assms started_booted [OF assms st]], of KUser]
    by (simp add: layered_at request_env_def identity_env_def)
  have twentytwo: "if sx_default s = DefUnset then ch_account c = AccDaemon \<and> ch_uid c = UidDaemon
         else \<not> default_has_row (sx_default s) \<or>
           ch_account c = AccDefault \<and> ch_uid c = UidRow \<and>
           (sr_group r \<noteq> GroupAbsent \<or> ch_gid c = GidRowPrimary) \<and> ch_env c KUser = Some SrcPasswd"
    if st: "started s = Some (r, c)" and p: "sr_user r = UserAbsent" for r c
    using f [OF st] p env [OF st] under(2,3) [of r] by (cases "sr_group r") auto
  have twentythree: "sr_user r = UserAbsent \<or> ch_account c = AccRequested" if "started s = Some (r, c)" for r c
    using f(4) [OF that] by auto
  have refuse: "specified r (world_of StartSpecified s) = Inl CodeUser"
    if "sr_user r = UserAbsent" "sx_default s \<noteq> DefUnset" "\<not> default_has_row (sx_default s)" for r
    using that by (cases "sx_default s")
      (auto simp: specified_def plan_child_def choose_account_def default_has_row_def Let_def)
  have twentyfour: "case (sx_request s, sx_answer s) of
         (Some r, Some a) \<Rightarrow>
           \<not> (sr_user r = UserAbsent \<and> sx_default s \<noteq> DefUnset \<and> \<not> default_has_row (sx_default s)) \<or>
           a = AnsRefused CodeUser \<and> sx_child s = None
       | _ \<Rightarrow> True"
    using answered_specified [OF assms] refuse by (fastforce split: option.splits)
  show ?thesis
    unfolding agentd_16_to_24_def using sixteen twentytwo twentythree twentyfour
    by (auto intro!: on_startedI simp: id_def)
qed

section \<open>Properties\<close>

text \<open>
  Every state the specified daemon reaches, for every default user, launch environment and
  request, satisfies each of the machine's always properties: named users and groups run as their
  rows, an unresolvable field starts nothing, the environment follows request over launch over
  passwd over image, no child carries the token or the daemon's configuration, and the default
  user is applied exactly to requests that name none.
\<close>

theorem start_machine_always:
  assumes "start_reach StartSpecified s"
  shows "list_all id (start_always s)"
proof -
  note inv = start_inv_reach [OF assms]
  show ?thesis
    using agentd_7_to_11_hold [OF inv] agentd_12_to_15_hold [OF inv] agentd_16_to_24_hold [OF inv]
    by (simp add: start_always_def)
qed

fun start_path :: "start_behavior \<Rightarrow> start_state \<Rightarrow> start_action list \<Rightarrow> start_state option" where
  "start_path b s [] = Some s"
| "start_path b s (a # as) =
     (if a \<in> set (start_actions b s) then Option.bind (start_next b s a) (\<lambda>t. start_path b t as) else None)"

lemma start_path_reach: "start_path b s as = Some t \<Longrightarrow> start_reach b s \<Longrightarrow> start_reach b t"
  by (induction b s as rule: start_path.induct)
    (auto simp: bind_eq_Some_conv split: if_splits intro: start_reach_step)

definition a_request :: exec_request where
  "a_request = \<lparr>sr_user = UserKnown, sr_group = GroupAbsent, sr_shell = ShellOff, sr_inherit = True,
     sr_sets_home = False, sr_sets_path = False\<rparr>"

definition one_start :: "bool \<Rightarrow> default_user \<Rightarrow> exec_request \<Rightarrow> start_action list" where
  "one_start spawns d r =
     [ActBoot d, ActHealth, ActRunHook True True, ActReceive r, ActResolve] @ (if spawns then [ActSpawn] else []) @ [ActAnswer]"

theorem start_machine_always_witness:
  "\<exists>s. start_path StartSpecified start_init (one_start True DefUnset a_request) = Some s \<and>
    sx_answer s = Some AnsStarted \<and> list_all id (start_always s)"
proof -
  let ?as = "one_start True DefUnset a_request"
  have "case start_path StartSpecified start_init ?as of None \<Rightarrow> False | Some s \<Rightarrow> sx_answer s = Some AnsStarted"
    by (simp add: one_start_def start_actions_def BOTH_def start_init_def ALL_DEFAULTS_def health_report_def a_request_def
        take_snapshot_def exports_token_def decide_specified specified_def plan_child_def choose_account_def Let_def)
  then obtain s where s: "start_path StartSpecified start_init ?as = Some s" "sx_answer s = Some AnsStarted"
    by (auto split: option.splits)
  with start_machine_always [OF start_path_reach [OF s(1) start_reach_init]] show ?thesis by blast
qed

text \<open>Every received request is answered: the machine is not stuck before, and every action moves on.\<close>

definition start_rank :: "start_state \<Rightarrow> nat" where
  "start_rank s = (if sx_booted s then 0 else 1) + (if sx_token s then 0 else 1) +
     (if sx_health s = None then 1 else 0) + (if sx_child s = None then 1 else 0) +
     (case sx_step s of StartIdle \<Rightarrow> 3 | StartReceived \<Rightarrow> 2 | StartResolved \<Rightarrow> 1 | StartAnswered \<Rightarrow> 0)"

lemma start_enabled:
  assumes "a \<in> set (start_actions StartSpecified s)"
  shows "case a of ActBoot d \<Rightarrow> \<not> sx_booted s | ActHealth \<Rightarrow> sx_health s = None | ActRunHook h p \<Rightarrow> \<not> sx_token s
    | ActReceive r \<Rightarrow> sx_step s = StartIdle | ActResolve \<Rightarrow> sx_step s = StartReceived
    | ActSpawn \<Rightarrow> sx_child s = None | ActAnswer \<Rightarrow> sx_step s = StartResolved"
  using assms by (auto simp: start_actions_def split: if_splits start_step.splits option.splits sum.splits)

lemma start_step_down:
  assumes "a \<in> set (start_actions StartSpecified s)" and "start_next StartSpecified s a = Some t"
  shows "start_rank t < start_rank s"
  using start_enabled [OF assms(1)] assms(2)
  by (cases a; clarsimp simp: start_rank_def Let_def exports_token_def bind_eq_Some_conv)

lemma start_not_stuck:
  assumes "start_inv s" and "sx_answer s = None"
  shows "\<exists>a t. a \<in> set (start_actions StartSpecified s) \<and> start_next StartSpecified s a = Some t"
proof (cases "sx_booted s \<and> sx_token s")
  case False
  then show ?thesis
    by (intro exI [of _ "if sx_booted s then ActRunHook False False else ActBoot DefUnset"])
      (auto simp: start_actions_def ALL_DEFAULTS_def BOTH_def Let_def)
next
  case True
  show ?thesis
  proof (cases "sx_step s")
    case StartIdle
    with True show ?thesis by (intro exI [of _ "ActReceive a_request"]) (auto simp: start_actions_def)
  next
    case StartReceived
    with True assms show ?thesis
      by (intro exI [of _ ActResolve]) (auto simp: start_actions_def start_inv_def)
  next
    case StartResolved
    with True assms obtain r where r: "settled s r" "\<forall>c. sx_child s = Some c \<longrightarrow> specified r (world_of StartSpecified s) = Inr c"
      by (auto simp: start_inv_def)
    then show ?thesis
      using StartResolved True
      by (intro exI [of _ "if child_of (specified r (world_of StartSpecified s)) \<noteq> None \<and> sx_child s = None then ActSpawn else ActAnswer"])
        (auto simp: start_actions_def settled_def split: option.splits sum.splits)
  next
    case StartAnswered
    with True assms show ?thesis by (auto simp: start_inv_def)
  qed
qed

section \<open>The rejected behaviors\<close>

text \<open>Each alternative the module names breaks an always property, except the filtered live read.\<close>

definition breaks_start :: "start_behavior \<Rightarrow> start_action list \<Rightarrow> bool" where
  "breaks_start b as =
     (case start_path b start_init as of None \<Rightarrow> False | Some s \<Rightarrow> \<not> list_all id (start_always s))"

lemma breaks_start_reach: "breaks_start b as \<Longrightarrow> \<exists>s. start_reach b s \<and> \<not> list_all id (start_always s)"
  by (auto simp: breaks_start_def split: option.splits dest: start_path_reach intro: start_reach_init)

lemmas start_evals = one_start_def start_actions_def BOTH_def start_init_def ALL_DEFAULTS_def health_report_def
  a_request_def take_snapshot_def exports_token_def plan_child_def choose_account_def Let_def breaks_start_def
  decide_def world_of_def image_layer_def blind_child_def start_always_def agentd_7_to_11_def agentd_12_to_15_def
  agentd_16_to_24_def on_started_def started_def refused_def layered_def overlay_def request_env_def
  identity_env_def boot_env_def carries_source_def ALL_ENV_KEYS_def without_agentd_def is_agentd_def
  has_row_def user_under_def top_source_def is_protocol_one_def default_has_row_def as_request_string_def
  answer_of_def env_len_def

lemma start_rejected:
  "breaks_start BehIdentityOnTop (one_start True DefUnset a_request)"
  "breaks_start BehImageOnTop (one_start True DefUnset a_request)"
  "breaks_start ImageAlways (one_start True DefUnset (a_request\<lparr>sr_inherit := False\<rparr>))"
  "breaks_start UnfilteredSnapshot (one_start True DefUnset a_request)"
  "breaks_start LiveUnfilteredToken (one_start True DefUnset a_request)"
  "breaks_start NumericPrimaryGroup (one_start True DefUnset (a_request\<lparr>sr_user := IdWithRow\<rparr>))"
  "breaks_start ShellFallback (one_start True DefUnset (a_request\<lparr>sr_shell := NamedMissing\<rparr>))"
  "breaks_start HealthCountsLiveEnv (one_start True DefUnset a_request)"
  "breaks_start BehDefaultIgnored (one_start True DefKnown (a_request\<lparr>sr_user := UserAbsent\<rparr>))"
  "breaks_start DefaultOverridesRequest (one_start True DefKnown a_request)"
  "breaks_start UnknownDefaultAsDaemon (one_start True DefUnknown (a_request\<lparr>sr_user := UserAbsent\<rparr>))"
  "breaks_start DefaultReadAsRequest (one_start True DefDigitsRow (a_request\<lparr>sr_user := UserAbsent\<rparr>))"
  "breaks_start SpawnBeforeResolve [ActBoot DefUnset, ActRunHook True True,
     ActReceive (a_request\<lparr>sr_user := UserUnknown\<rparr>), ActSpawn, ActResolve, ActAnswer]"
  by (simp add: start_evals)+

end
