(* ===== verification/ExecStartRefinement.thy ===== *)
theory ExecStartRefinement
  imports ExecStart ModelExecStart
begin

text \<open>
  The daemon's \<open>plan\<close> (\<open>exec_start.rs\<close>) refines the specification's
  \<open>specified\<close> (\<open>model/src/exec_start.rs\<close>): a request to a guest is,
  reduced to the cases the machine distinguishes, resolved as the machine resolves it, to the same
  refusal or to a child whose account, ids, program and environment are the machine's. The machine
  has no default user captured from an image, so no request that falls to one.
\<close>

section \<open>The reduction\<close>

text \<open>
  The specification side is written on its own: the first entry of a list with a property, the row
  of an account, the shell a name stands for. The daemon's lookups are compared with these.
\<close>

definition first_with :: "('a \<Rightarrow> bool) \<Rightarrow> 'a list \<Rightarrow> 'a \<Rightarrow> bool" where
  "first_with P xs x \<longleftrightarrow> (\<exists>pre post. xs = pre @ x # post \<and> P x \<and> (\<forall>y \<in> set pre. \<not> P y))"

definition has_name :: "passwd_row list \<Rightarrow> string \<Rightarrow> bool" where
  "has_name rows n \<longleftrightarrow> list_ex (\<lambda>row. pw_name row = n) rows"

definition has_uid :: "passwd_row list \<Rightarrow> u32 \<Rightarrow> bool" where
  "has_uid rows x \<longleftrightarrow> list_ex (\<lambda>row. pw_uid row = x) rows"

definition reduce_user :: "name_or_id option \<Rightarrow> passwd_row list \<Rightarrow> user_req" where
  "reduce_user spec rows =
     (case spec of
        None \<Rightarrow> UserAbsent
      | Some (Id uid) \<Rightarrow> if has_uid rows uid then IdWithRow else IdNoRow
      | Some (Name n) \<Rightarrow>
          if has_name rows n then UserKnown
          else (case digits n of
                  None \<Rightarrow> UserUnknown
                | Some uid \<Rightarrow> if has_uid rows uid then IdWithRow else DigitsNoRow))"

definition reduce_default :: "string option \<Rightarrow> passwd_row list \<Rightarrow> default_user" where
  "reduce_default dflt rows =
     (case dflt of
        None \<Rightarrow> DefUnset
      | Some n \<Rightarrow>
          if has_name rows n then DefKnown
          else (case digits n of
                  None \<Rightarrow> DefUnknown
                | Some uid \<Rightarrow> if has_uid rows uid then DefDigitsRow else DefDigitsNoRow))"

definition reduce_group :: "name_or_id option \<Rightarrow> group_row list \<Rightarrow> group_req" where
  "reduce_group spec rows =
     (case spec of
        None \<Rightarrow> GroupAbsent
      | Some (Id gid) \<Rightarrow> GroupId
      | Some (Name n) \<Rightarrow>
          if list_ex (\<lambda>row. gr_name row = n) rows then GroupKnown
          else if digits n \<noteq> None then GroupId else GroupUnknown)"

text \<open>
  The row of the account a request runs as: by the number asked for, or by the name asked for or
  set as the default, where a name that no row has and that is a number counts as the number.
\<close>

definition named_row :: "passwd_row list \<Rightarrow> string \<Rightarrow> passwd_row \<Rightarrow> bool" where
  "named_row rows n row \<longleftrightarrow>
     (if has_name rows n then first_with (\<lambda>r. pw_name r = n) rows row
      else (\<exists>x. digits n = Some x \<and> first_with (\<lambda>r. pw_uid r = x) rows row))"

definition account_row :: "start_request \<Rightarrow> guest \<Rightarrow> passwd_row \<Rightarrow> bool" where
  "account_row rq g row \<longleftrightarrow>
     (case req_user rq of
        Some (Id x) \<Rightarrow> first_with (\<lambda>r. pw_uid r = x) (parse_passwd (g_passwd g)) row
      | Some (Name n) \<Rightarrow> named_row (parse_passwd (g_passwd g)) n row
      | None \<Rightarrow>
          (case g_default_user g of
             None \<Rightarrow> False
           | Some n \<Rightarrow> named_row (parse_passwd (g_passwd g)) n row))"

text \<open>
  The shell a name stands for under the child's environment: a path is itself, if it is absolute
  and executable; any other name is the first executable of that name in the absolute directories
  of the child's \<open>PATH\<close>, then of the image's, then in the two fallback directories.
\<close>

definition absolute_dirs :: "string option \<Rightarrow> string list" where
  "absolute_dirs path = (case path of None \<Rightarrow> [] | Some p \<Rightarrow> filter is_absolute (split_on (CHR '':'') p))"

definition shell_dirs :: "guest \<Rightarrow> env list \<Rightarrow> string list" where
  "shell_dirs g layers =
     absolute_dirs (foldl (++) Map.empty layers ''PATH'') @
     absolute_dirs (Option.bind (g_image_env g) (\<lambda>img. img ''PATH'')) @ [''/bin'', ''/usr/bin'']"

definition shell_named :: "guest \<Rightarrow> env list \<Rightarrow> string \<Rightarrow> string \<Rightarrow> bool" where
  "shell_named g layers name sh \<longleftrightarrow>
     (if CHR ''/'' \<in> set name then is_absolute name \<and> g_is_executable g name \<and> sh = name
      else (\<exists>d. first_with (\<lambda>d. g_is_executable g (path_join d name)) (shell_dirs g layers) d \<and>
          sh = path_join d name))"

definition shell_present :: "guest \<Rightarrow> env list \<Rightarrow> string \<Rightarrow> bool" where
  "shell_present g layers name \<longleftrightarrow>
     (if CHR ''/'' \<in> set name then is_absolute name \<and> g_is_executable g name
      else list_ex (\<lambda>d. g_is_executable g (path_join d name)) (shell_dirs g layers))"

definition reduce_shell :: "start_request \<Rightarrow> guest \<Rightarrow> env list \<Rightarrow> shell_req" where
  "reduce_shell rq g layers =
     (case req_shell rq of
        Flag b \<Rightarrow> if b then ShellOn else ShellOff
      | Named name \<Rightarrow> if shell_present g layers name then NamedPresent else NamedMissing)"

lemma first_with_find: "find P xs = Some x \<longleftrightarrow> first_with P xs x"
proof
  assume "find P xs = Some x"
  then obtain i where i: "i < length xs" "P (xs ! i)" "x = xs ! i" "\<forall>j < i. \<not> P (xs ! j)"
    by (auto simp: find_Some_iff)
  then have "xs = take i xs @ x # drop (Suc i) xs" by (simp add: id_take_nth_drop)
  moreover have "\<forall>y \<in> set (take i xs). \<not> P y" using i by (auto simp: in_set_conv_nth)
  ultimately show "first_with P xs x" using i unfolding first_with_def by blast
next
  assume "first_with P xs x"
  then obtain pre post where x: "xs = pre @ x # post" "P x" "\<forall>y \<in> set pre. \<not> P y"
    by (auto simp: first_with_def)
  then show "find P xs = Some x"
    unfolding x(1) by (induction pre) auto
qed

lemma find_None_ex: "find P xs = None \<longleftrightarrow> \<not> list_ex P xs"
  by (auto simp: find_None_iff list_ex_iff)

lemma find_ex: "find P xs = Some x \<Longrightarrow> list_ex P xs"
  by (auto simp: find_Some_iff list_ex_iff)

lemma row_found:
  "row_by_name rows n = Some row \<Longrightarrow> has_name rows n \<and> first_with (\<lambda>r. pw_name r = n) rows row"
  "row_by_uid rows x = Some row \<Longrightarrow> has_uid rows x \<and> first_with (\<lambda>r. pw_uid r = x) rows row"
  by (auto simp: row_by_name_def row_by_uid_def first_with_find [symmetric] has_name_def has_uid_def intro: find_ex)

lemma row_missing:
  "row_by_name rows n = None \<Longrightarrow> \<not> has_name rows n" "row_by_uid rows x = None \<Longrightarrow> \<not> has_uid rows x"
  by (simp_all add: row_by_name_def row_by_uid_def find_None_ex has_name_def has_uid_def)

lemma first_with_prop: "first_with P xs x \<Longrightarrow> x \<in> set xs \<and> P x"
  by (auto simp: first_with_def)

lemma first_executable_first:
  "first_executable ex name ds = map_option (\<lambda>d. path_join d name) (find (\<lambda>d. ex (path_join d name)) ds)"
  by (induction ds) auto

lemma searched_shell_dirs:
  "searched_dirs (find_var ''PATH'' (rev layers)) (Option.bind (g_image_env g) (\<lambda>img. img ''PATH''))
     = shell_dirs g layers"
proof -
  have path: "find_var ''PATH'' (rev layers) = foldl (++) Map.empty layers ''PATH''"
    using find_var_environment [of "''PATH''" "\<lparr>pl_program = Argv [] [], pl_uid = None, pl_gid = None, pl_layers = layers\<rparr>"]
    by (simp add: environment_def)
  show ?thesis
    unfolding path
    by (cases "foldl (++) Map.empty layers ''PATH''";
        cases "Option.bind (g_image_env g) (\<lambda>img. img ''PATH'')")
      (simp_all add: searched_dirs_def shell_dirs_def absolute_dirs_def SHELL_FALLBACK_DIRS_def is_absolute_def)
qed

lemma resolve_shell_named:
  assumes "name \<noteq> []"
  shows "case resolve_shell name (find_var ''PATH'' (rev layers))
        (Option.bind (g_image_env g) (\<lambda>img. img ''PATH'')) (g_is_executable g) of
      Inl r \<Rightarrow> \<not> shell_present g layers name \<and> rej_error r = UnknownShell
    | Inr sh \<Rightarrow> shell_present g layers name \<and> shell_named g layers name sh"
proof (cases "CHR ''/'' \<in> set name")
  case True
  with assms show ?thesis by (auto simp: resolve_shell_def shell_present_def shell_named_def)
next
  case False
  show ?thesis
  proof (cases "find (\<lambda>d. g_is_executable g (path_join d name)) (shell_dirs g layers)")
    case None
    with False assms show ?thesis
      by (simp add: resolve_shell_def searched_shell_dirs first_executable_first shell_present_def
          find_None_ex [symmetric])
  next
    case (Some d)
    then have "list_ex (\<lambda>d. g_is_executable g (path_join d name)) (shell_dirs g layers)"
      by (metis find_None_ex option.distinct(1))
    then have "shell_present g layers name" using False by (simp add: shell_present_def)
    moreover have "shell_named g layers name (path_join d name)"
      using Some False by (auto simp: shell_named_def first_with_find [symmetric])
    moreover have "resolve_shell name (find_var ''PATH'' (rev layers))
        (Option.bind (g_image_env g) (\<lambda>img. img ''PATH'')) (g_is_executable g) = Inr (path_join d name)"
      using Some False assms by (simp add: resolve_shell_def searched_shell_dirs first_executable_first)
    ultimately show ?thesis by simp
  qed
qed

text \<open>The variables the machine tracks; \<open>image_only\<close> names its one image-only variable.\<close>

fun key_name :: "string \<Rightarrow> env_key \<Rightarrow> string" where
  "key_name image_only KHome = ''HOME''"
| "key_name image_only KUser = ''USER''"
| "key_name image_only KPath = ''PATH''"
| "key_name image_only KImageOnly = image_only"
| "key_name image_only KAgentdConfig = ''AGENTD_PORT''"
| "key_name image_only KAgentdToken = ''AGENTD_TOKEN''"

definition reduce_layer :: "source \<Rightarrow> string \<Rightarrow> env \<Rightarrow> source_env" where
  "reduce_layer src v e = (\<lambda>k. if e (key_name v k) = None then None else Some src)"

definition reduce_request :: "start_request \<Rightarrow> guest \<Rightarrow> env list \<Rightarrow> exec_request" where
  "reduce_request rq g layers =
     \<lparr>sr_user = reduce_user (req_user rq) (parse_passwd (g_passwd g)),
      sr_group = reduce_group (req_group rq) (parse_group (g_group g)),
      sr_shell = reduce_shell rq g layers, sr_inherit = req_inherit_image_env rq,
      sr_sets_home = (req_env rq ''HOME'' \<noteq> None), sr_sets_path = (req_env rq ''PATH'' \<noteq> None)\<rparr>"

definition reduce_world :: "string \<Rightarrow> guest \<Rightarrow> exec_world" where
  "reduce_world v g =
     \<lparr>ew_image = (case g_image_env g of None \<Rightarrow> Map.empty | Some e \<Rightarrow> reduce_layer SrcImage v e),
      ew_launch = reduce_layer SrcLaunch v (g_launch_env g),
      ew_default_user = reduce_default (g_default_user g) (parse_passwd (g_passwd g))\<rparr>"

text \<open>The layers the daemon resolves the shell under.\<close>

definition planned_layers :: "start_request \<Rightarrow> guest \<Rightarrow> env list" where
  "planned_layers rq g =
     env_layers rq g
       (case resolve_request_user rq (g_default_user g) (g_captured_user g)
               (if req_user rq \<noteq> None \<or> g_default_user g \<noteq> None then parse_passwd (g_passwd g) else []) of
          Inr u \<Rightarrow> u
        | Inl _ \<Rightarrow> None)"

definition requested_id :: "name_or_id option \<Rightarrow> u32 option" where
  "requested_id spec =
     (case spec of Some (Id x) \<Rightarrow> Some x | Some (Name n) \<Rightarrow> digits n | None \<Rightarrow> None)"

text \<open>A plan is the machine's child.\<close>

definition uid_agrees :: "start_request \<Rightarrow> guest \<Rightarrow> plan \<Rightarrow> child_uid \<Rightarrow> bool" where
  "uid_agrees rq g p u \<longleftrightarrow>
     (case u of
        UidDaemon \<Rightarrow> pl_uid p = None
      | UidRequested \<Rightarrow> pl_uid p \<noteq> None \<and> pl_uid p = requested_id (req_user rq)
      | UidRow \<Rightarrow> \<exists>row. account_row rq g row \<and> pl_uid p = Some (pw_uid row))"

definition gid_agrees :: "start_request \<Rightarrow> guest \<Rightarrow> plan \<Rightarrow> child_gid \<Rightarrow> bool" where
  "gid_agrees rq g p d \<longleftrightarrow>
     (case d of
        GidDaemon \<Rightarrow> pl_gid p = None
      | GidRequested \<Rightarrow> pl_gid p \<noteq> None \<and> pl_gid p = requested_id (req_group rq)
      | GidRowPrimary \<Rightarrow> \<exists>row. account_row rq g row \<and> pl_gid p = Some (pw_gid row)
      | GidGroupRow \<Rightarrow> \<exists>n row. req_group rq = Some (Name n) \<and>
          first_with (\<lambda>r. gr_name r = n) (parse_group (g_group g)) row \<and> pl_gid p = Some (gr_gid row))"

definition program_agrees :: "start_request \<Rightarrow> guest \<Rightarrow> plan \<Rightarrow> child_program \<Rightarrow> bool" where
  "program_agrees rq g p c \<longleftrightarrow>
     (case c of
        ProgArgv \<Rightarrow> \<exists>x xs. req_command rq = x # xs \<and> pl_program p = Argv x xs
      | ProgBinSh \<Rightarrow> pl_program p = Script ''/bin/sh'' (join_with [LF] (req_command rq))
      | ProgResolved \<Rightarrow> \<exists>name sh. req_shell rq = Named name \<and> shell_named g (pl_layers p) name sh \<and>
          pl_program p = Script sh (join_with [LF] (req_command rq)))"

text \<open>
  The value of a tracked variable is the one the machine's source holds. The machine's requests
  set only \<open>HOME\<close> and \<open>PATH\<close>; a request that sets another tracked variable gives it.
\<close>

definition env_agrees :: "string \<Rightarrow> start_request \<Rightarrow> guest \<Rightarrow> plan \<Rightarrow> source_env \<Rightarrow> bool" where
  "env_agrees v rq g p e \<longleftrightarrow>
     (\<forall>k. let name = key_name v k
          in if req_env rq name \<noteq> None
             then environment p name = req_env rq name \<and> (k = KHome \<or> k = KPath \<longrightarrow> e k = Some SrcRequest)
             else (case e k of
                None \<Rightarrow> environment p name = None
              | Some SrcLaunch \<Rightarrow> environment p name \<noteq> None \<and> environment p name = g_launch_env g name
              | Some SrcPasswd \<Rightarrow> \<exists>row. account_row rq g row \<and>
                  environment p name = Some (if k = KHome then pw_home row else pw_name row)
              | Some SrcImage \<Rightarrow> environment p name \<noteq> None \<and>
                  environment p name = Option.bind (g_image_env g) (\<lambda>img. img name)
              | _ \<Rightarrow> False))"

definition account_of :: "start_request \<Rightarrow> guest \<Rightarrow> account" where
  "account_of rq g =
     (if req_user rq \<noteq> None then AccRequested
      else if g_default_user g \<noteq> None then AccDefault else AccDaemon)"

definition child_agrees :: "string \<Rightarrow> start_request \<Rightarrow> guest \<Rightarrow> plan \<Rightarrow> child \<Rightarrow> bool" where
  "child_agrees v rq g p c \<longleftrightarrow>
     ch_account c = account_of rq g \<and> uid_agrees rq g p (ch_uid c) \<and> gid_agrees rq g p (ch_gid c) \<and>
     program_agrees rq g p (ch_program c) \<and> env_agrees v rq g p (ch_env c)"

fun slug_of :: "refusal_code \<Rightarrow> slug" where
  "slug_of CodeUser = UnknownUser"
| "slug_of CodeGroup = UnknownGroup"
| "slug_of CodeShell = UnknownShell"

definition answers_agree ::
  "string \<Rightarrow> start_request \<Rightarrow> guest \<Rightarrow> rejection + plan \<Rightarrow> refusal_code + child \<Rightarrow> bool" where
  "answers_agree v rq g planned specd \<longleftrightarrow>
     (case (planned, specd) of
        (Inr p, Inr c) \<Rightarrow> child_agrees v rq g p c
      | (Inl r, Inl code) \<Rightarrow> rej_error r = slug_of code
      | _ \<Rightarrow> False)"

section \<open>The user\<close>

fun user_agrees :: "user_req \<Rightarrow> passwd_row list \<Rightarrow> user option \<Rightarrow> bool" where
  "user_agrees UserAbsent rows u \<longleftrightarrow> u = None"
| "user_agrees IdWithRow rows u \<longleftrightarrow> (\<exists>x row. u = Some \<lparr>us_uid = x, us_row = Some row, us_primary_gid = False\<rparr>)"
| "user_agrees IdNoRow rows u \<longleftrightarrow> (\<exists>x. u = Some \<lparr>us_uid = x, us_row = None, us_primary_gid = False\<rparr>)"
| "user_agrees DigitsNoRow rows u \<longleftrightarrow> (\<exists>x. u = Some \<lparr>us_uid = x, us_row = None, us_primary_gid = False\<rparr>)"
| "user_agrees UserKnown rows u \<longleftrightarrow>
     (\<exists>row \<in> set rows. u = Some \<lparr>us_uid = pw_uid row, us_row = Some row, us_primary_gid = True\<rparr>)"
| "user_agrees UserUnknown rows u \<longleftrightarrow> False"

lemma named_user_stage:
  "case resolve_user spec rows of
     Inl r \<Rightarrow> reduce_user (Some spec) rows = UserUnknown \<and> rej_error r = UnknownUser
   | Inr u \<Rightarrow> user_agrees (reduce_user (Some spec) rows) rows (Some u) \<and>
       (\<not> us_primary_gid u \<longrightarrow> requested_id (Some spec) = Some (us_uid u)) \<and>
       (\<forall>row. us_row u = Some row \<longrightarrow>
          (case spec of Id x \<Rightarrow> first_with (\<lambda>r. pw_uid r = x) rows row | Name n \<Rightarrow> named_row rows n row))"
proof (cases spec)
  case (Id x)
  then show ?thesis
    using row_found(2) [of rows x] row_missing(2) [of rows x]
    by (cases "row_by_uid rows x") (auto simp: reduce_user_def requested_id_def)
next
  case (Name n)
  show ?thesis
  proof (cases "row_by_name rows n")
    case (Some row)
    with row_found(1) [OF Some] Name show ?thesis
      by (auto simp: reduce_user_def named_row_def dest: first_with_prop)
  next
    case none: None
    show ?thesis
    proof (cases "digits n")
      case None
      with none row_missing(1) [OF none] Name show ?thesis by (simp add: reduce_user_def)
    next
      case (Some x)
      with none row_missing(1) [OF none] Name row_found(2) [of rows x] row_missing(2) [of rows x] show ?thesis
        by (cases "row_by_uid rows x") (auto simp: reduce_user_def requested_id_def named_row_def)
    qed
  qed
qed

lemma default_user_stage:
  "case default_user_row name rows of
     Inl why \<Rightarrow> as_request (reduce_default (Some name) rows) = Some UserUnknown
   | Inr row \<Rightarrow> as_request (reduce_default (Some name) rows) = Some UserKnown \<and> row \<in> set rows \<and>
       named_row rows name row"
proof (cases "row_by_name rows name")
  case (Some row)
  with row_found(1) [OF Some] show ?thesis
    by (auto simp: default_user_row_def reduce_default_def named_row_def dest: first_with_prop)
next
  case none: None
  show ?thesis
  proof (cases "digits name")
    case None
    with none row_missing(1) [OF none] show ?thesis by (simp add: default_user_row_def reduce_default_def)
  next
    case (Some x)
    with none row_missing(1) [OF none] row_found(2) [of rows x] row_missing(2) [of rows x] show ?thesis
      by (cases "row_by_uid rows x")
        (auto simp: default_user_row_def reduce_default_def named_row_def dest: first_with_prop)
  qed
qed

definition reduced_user :: "start_request \<Rightarrow> guest \<Rightarrow> user_req" where
  "reduced_user rq g =
     (if req_user rq = None
      then (case as_request (reduce_default (g_default_user g) (parse_passwd (g_passwd g))) of
              Some u \<Rightarrow> u | None \<Rightarrow> UserAbsent)
      else reduce_user (req_user rq) (parse_passwd (g_passwd g)))"

lemma user_stage:
  assumes "g_captured_user g \<longrightarrow> req_user rq \<noteq> None \<or> g_default_user g = None"
  shows "case resolve_request_user rq (g_default_user g) (g_captured_user g)
          (if req_user rq \<noteq> None \<or> g_default_user g \<noteq> None then parse_passwd (g_passwd g) else []) of
      Inl r \<Rightarrow> reduced_user rq g = UserUnknown \<and> rej_error r = UnknownUser
    | Inr u \<Rightarrow> user_agrees (reduced_user rq g) (parse_passwd (g_passwd g)) u \<and>
        (\<forall>x. u = Some x \<and> \<not> us_primary_gid x \<longrightarrow> requested_id (req_user rq) = Some (us_uid x)) \<and>
        (req_user rq = None \<longrightarrow> (\<forall>x. u = Some x \<longrightarrow>
           (\<forall>d. g_default_user g = Some d \<longrightarrow> CHR '':'' \<notin> set d))) \<and>
        (\<forall>x row. u = Some x \<longrightarrow> us_row x = Some row \<longrightarrow> account_row rq g row)"
proof (cases "req_user rq")
  case (Some spec)
  then show ?thesis using named_user_stage [of spec "parse_passwd (g_passwd g)"]
    by (cases "resolve_user spec (parse_passwd (g_passwd g))"; cases spec)
      (auto simp: resolve_request_user_def reduced_user_def account_row_def)
next
  case None
  show ?thesis
  proof (cases "g_default_user g")
    case None
    with \<open>req_user rq = None\<close> show ?thesis
      by (simp add: resolve_request_user_def reduced_user_def reduce_default_def)
  next
    case (Some d)
    with None assms default_user_stage [of d "parse_passwd (g_passwd g)"]
      passwd.default_row_props [of d "g_passwd g"] show ?thesis
      by (auto simp: resolve_request_user_def reduced_user_def account_row_def split: sum.splits)
  qed
qed

section \<open>The group, the program and the environment\<close>

text \<open>The plan so far: what the later fields of a plan are compared with.\<close>

definition gid_chosen :: "start_request \<Rightarrow> guest \<Rightarrow> user option \<Rightarrow> u32 option \<Rightarrow> child_gid \<Rightarrow> bool" where
  "gid_chosen rq g user gid d \<longleftrightarrow>
     gid_agrees rq g \<lparr>pl_program = Argv [] [], pl_uid = map_option us_uid user, pl_gid = gid, pl_layers = []\<rparr> d"

lemma primary_gid:
  "user_agrees u rows usr \<Longrightarrow>
     (case usr of None \<Rightarrow> None | Some x \<Rightarrow> if us_primary_gid x then map_option pw_gid (us_row x) else None)
       = (if u = UserKnown then map_option (\<lambda>x. pw_gid (the (us_row x))) usr else None)"
  by (cases u) auto

lemma group_stage:
  assumes u: "user_agrees u (parse_passwd (g_passwd g)) user" and "u \<noteq> UserUnknown"
    and colon: "req_user rq = None \<and> user \<noteq> None \<longrightarrow> (\<forall>d. g_default_user g = Some d \<longrightarrow> CHR '':'' \<notin> set d)"
    and none: "req_user rq = None \<and> user = None \<longrightarrow> g_default_user g = None"
    and rows: "\<forall>x row. user = Some x \<longrightarrow> us_row x = Some row \<longrightarrow> account_row rq g row"
  shows "case choose_gid rq g user of
      Inl r \<Rightarrow> gid_of False u (reduce_group (req_group rq) (parse_group (g_group g))) = Inl CodeGroup \<and>
        rej_error r = UnknownGroup
    | Inr gid \<Rightarrow> \<exists>d. gid_of False u (reduce_group (req_group rq) (parse_group (g_group g))) = Inr d \<and>
        gid_chosen rq g user gid d"
proof (cases "req_group rq")
  case (Some spec)
  show ?thesis
  proof (cases spec)
    case (Id gid)
    with Some show ?thesis
      by (simp add: choose_gid_def reduce_group_def gid_chosen_def gid_agrees_def requested_id_def)
  next
    case (Name n)
    show ?thesis
    proof (cases "find (\<lambda>row. gr_name row = n) (parse_group (g_group g))")
      case None
      with Some Name show ?thesis
        using None [unfolded find_None_ex] by (cases "digits n")
          (simp_all add: choose_gid_def reduce_group_def gid_chosen_def gid_agrees_def requested_id_def)
    next
      case (Some row)
      with \<open>req_group rq = Some spec\<close> Name find_ex [OF Some] Some [unfolded first_with_find] show ?thesis
        by (auto simp: choose_gid_def reduce_group_def gid_chosen_def gid_agrees_def)
    qed
  qed
next
  case None
  have "req_user rq \<noteq> None \<or> g_default_user g = None \<or> (\<exists>d. g_default_user g = Some d \<and> CHR '':'' \<notin> set d)"
    using colon none by (cases user) auto
  then have "choose_gid rq g user = Inr (if u = UserKnown then map_option (\<lambda>x. pw_gid (the (us_row x))) user else None)"
    using None by (elim disjE exE conjE) (auto simp: choose_gid_def primary_gid [OF u])
  then show ?thesis using None u rows
    by (cases u) (auto simp: reduce_group_def gid_chosen_def gid_agrees_def)
qed

lemma program_stage:
  assumes "req_command rq \<noteq> []" and "req_shell rq \<noteq> Named []"
    and "pl_layers p = layers"
  shows "case choose_program rq g layers of
      Inl r \<Rightarrow> program_of False (reduce_shell rq g layers) = Inl CodeShell \<and> rej_error r = UnknownShell
    | Inr prog \<Rightarrow> \<exists>c. program_of False (reduce_shell rq g layers) = Inr c \<and>
        program_agrees rq g (p\<lparr>pl_program := prog\<rparr>) c"
proof (cases "req_shell rq")
  case (Flag b)
  then show ?thesis using assms(1)
    by (cases b) (auto simp: choose_program_def reduce_shell_def program_agrees_def neq_Nil_conv)
next
  case (Named name)
  have "name \<noteq> []" using assms(2) Named by simp
  from resolve_shell_named [OF this, of g layers] Named assms(3) show ?thesis
    by (auto simp: choose_program_def reduce_shell_def program_agrees_def split: sum.splits)
qed

text \<open>A name for the machine's image-only variable that is none of the others.\<close>

definition own_name :: "string \<Rightarrow> bool" where
  "own_name v \<longleftrightarrow> v \<notin> {''HOME'', ''USER'', ''LOGNAME'', ''PATH'', ''AGENTD_PORT'', ''AGENTD_TOKEN''}"

lemma identity_source:
  assumes "user_agrees u rows user" and "own_name v"
  shows "identity_layer user (key_name v k) \<noteq> None \<longleftrightarrow> identity_env u k \<noteq> None"
  using assms by (cases u; cases k) (auto simp: identity_layer_def identity_env_def own_name_def)

lemma env_stage:
  assumes ua: "user_agrees u rows user" and own: "own_name v" and layers: "pl_layers p = env_layers rq g user"
    and rows: "\<forall>x row. user = Some x \<longrightarrow> us_row x = Some row \<longrightarrow> account_row rq g row"
  shows "env_agrees v rq g p (layered LayersSpecified (reduce_request rq g ls) (reduce_world v g) u)"
  unfolding env_agrees_def Let_def
proof
  fix k
  let ?n = "key_name v k"
  let ?img = "if req_inherit_image_env rq then Option.bind (g_image_env g) (\<lambda>img. img ?n) else None"
  have val: "environment p ?n = (case req_env rq ?n of Some x \<Rightarrow> Some x | None \<Rightarrow>
      (case g_launch_env g ?n of Some x \<Rightarrow> Some x | None \<Rightarrow>
        (case identity_layer user ?n of Some x \<Rightarrow> Some x | None \<Rightarrow> ?img)))"
    by (cases "g_image_env g"; cases "req_inherit_image_env rq")
      (auto simp: environment_def layers env_layers_def map_add_def split: option.splits)
  have req: "request_env (reduce_request rq g ls) k
      = (if (k = KHome \<or> k = KPath) \<and> req_env rq ?n \<noteq> None then Some SrcRequest else None)"
    by (cases k) (auto simp: request_env_def reduce_request_def)
  have launch: "ew_launch (reduce_world v g) k = (if g_launch_env g ?n = None then None else Some SrcLaunch)"
    by (simp add: reduce_world_def reduce_layer_def)
  have image: "(if sr_inherit (reduce_request rq g ls) then ew_image (reduce_world v g) k else None)
      = (if ?img = None then None else Some SrcImage)"
    by (cases "g_image_env g") (auto simp: reduce_request_def reduce_world_def reduce_layer_def)
  have idn: "identity_env u k = (if identity_layer user ?n = None then None else Some SrcPasswd)"
    using identity_source [OF ua own, of k] by (auto simp: identity_env_def)
  have idv: "\<exists>row. account_row rq g row \<and> x = (if k = KHome then pw_home row else pw_name row)"
    if set: "identity_layer user ?n = Some x" for x
  proof -
    obtain y row where y: "user = Some y" "us_row y = Some row"
      using set by (cases user; cases "us_row (the user)") (auto simp: identity_layer_def)
    with rows have "account_row rq g row" by blast
    moreover have "x = (if k = KHome then pw_home row else pw_name row)"
      using set y own by (cases k) (auto simp: identity_layer_def own_name_def split: if_splits)
    ultimately show ?thesis by blast
  qed
  show "if req_env rq ?n \<noteq> None
     then environment p ?n = req_env rq ?n \<and>
       (k = KHome \<or> k = KPath \<longrightarrow>
          layered LayersSpecified (reduce_request rq g ls) (reduce_world v g) u k = Some SrcRequest)
     else (case layered LayersSpecified (reduce_request rq g ls) (reduce_world v g) u k of
        None \<Rightarrow> environment p ?n = None
      | Some SrcLaunch \<Rightarrow> environment p ?n \<noteq> None \<and> environment p ?n = g_launch_env g ?n
      | Some SrcPasswd \<Rightarrow> \<exists>row. account_row rq g row \<and>
          environment p ?n = Some (if k = KHome then pw_home row else pw_name row)
      | Some SrcImage \<Rightarrow> environment p ?n \<noteq> None \<and>
          environment p ?n = Option.bind (g_image_env g) (\<lambda>img. img ?n)
      | _ \<Rightarrow> False)"
  proof (cases "req_env rq ?n")
    case (Some x)
    then show ?thesis by (simp add: val layered_at req)
  next
    case None
    then show ?thesis
      using idv
      by (cases "g_launch_env g ?n"; cases "identity_layer user ?n")
        (auto simp: val layered_at req launch idn image [simplified] split: if_splits)
  qed
qed

section \<open>The plans agree\<close>

lemma default_gives_user:
  "resolve_request_user rq (Some d) cap rows = Inr user \<Longrightarrow> req_user rq = None \<Longrightarrow> user \<noteq> None"
  by (auto simp: resolve_request_user_def bind_r_Inr split: if_splits sum.splits)

lemma reduce_user_absent: "reduce_user spec rows = UserAbsent \<longleftrightarrow> spec = None"
  by (auto simp: reduce_user_def split: option.splits name_or_id.splits)

lemma reduce_default_unset: "as_request (reduce_default dflt rows) = None \<longleftrightarrow> dflt = None"
  by (auto simp: reduce_default_def split: option.splits)

lemma chosen_account:
  "choose_account DefaultSpecified (reduce_default (g_default_user g) (parse_passwd (g_passwd g)))
      (reduce_user (req_user rq) (parse_passwd (g_passwd g)))
    = (account_of rq g, reduced_user rq g)"
  using reduce_user_absent [of "req_user rq" "parse_passwd (g_passwd g)"]
    reduce_default_unset [of "g_default_user g" "parse_passwd (g_passwd g)"]
  by (cases "as_request (reduce_default (g_default_user g) (parse_passwd (g_passwd g)))")
    (auto simp: choose_account_def account_of_def reduced_user_def Let_def)

text \<open>
  C21: The daemon's resolution of a start request is the specification's. Whatever the user and
  group databases, the environments and the executables of the guest, the plan of a request is
  refused with unknown_user, unknown_group or unknown_shell exactly when the machine refuses with
  that code, and otherwise runs the child the machine runs: under the same account; with the uid of
  the first row of the account asked for (by name, or by number for a name that is a number) or the
  number itself, and the gid of that row, of the first group row of the name, or the number; with
  the program the request names, a named shell being the first executable of the child's, the image's
  and the fallback directories; and with every tracked variable holding the value of the layer the
  machine says, or the request's own where it sets a variable no request of the machine sets. The
  request has a command and no empty shell name (those are malformed), and it does not fall to a
  default user captured from the image, a case the machine does not have.
\<close>

theorem plan_refines_specification:
  assumes "req_command rq \<noteq> []" and "req_shell rq \<noteq> Named []"
    and "g_captured_user g \<longrightarrow> req_user rq \<noteq> None \<or> g_default_user g = None" and "own_name v"
  shows "answers_agree v rq g (make_plan rq g)
    (specified (reduce_request rq g (planned_layers rq g)) (reduce_world v g))"
proof -
  let ?rows = "parse_passwd (g_passwd g)"
  let ?read = "if req_user rq \<noteq> None \<or> g_default_user g \<noteq> None then ?rows else []"
  let ?u = "reduced_user rq g"
  define usr where "usr = resolve_request_user rq (g_default_user g) (g_captured_user g) ?read"
  note us = user_stage [OF assms(3), folded usr_def]
  have spec: "specified (reduce_request rq g ls) (reduce_world v g) =
      bind_r (uid_of ?u) (\<lambda>uid. bind_r (gid_of False ?u (reduce_group (req_group rq) (parse_group (g_group g)))) (\<lambda>gid.
        bind_r (program_of False (reduce_shell rq g ls)) (\<lambda>pr.
          Inr \<lparr>ch_account = account_of rq g, ch_uid = uid, ch_gid = gid, ch_program = pr,
            ch_env = layered LayersSpecified (reduce_request rq g ls) (reduce_world v g) ?u\<rparr>)))" for ls
    by (simp add: specified_def plan_child_def reduce_request_def reduce_world_def chosen_account)
  have plan: "make_plan rq g = bind_r usr (\<lambda>user. bind_r (choose_gid rq g user) (\<lambda>gid.
      bind_r (choose_program rq g (env_layers rq g user)) (\<lambda>program.
        Inr \<lparr>pl_program = program, pl_uid = map_option us_uid user, pl_gid = gid,
          pl_layers = env_layers rq g user\<rparr>)))"
    by (simp add: make_plan_def usr_def Let_def)
  show ?thesis
  proof (cases usr)
    case (Inl r)
    with us have "?u = UserUnknown" "rej_error r = UnknownUser" by auto
    then show ?thesis by (simp add: plan Inl spec answers_agree_def)
  next
    case (Inr user)
    with us have ua: "user_agrees ?u ?rows user"
      and id: "\<forall>x. user = Some x \<and> \<not> us_primary_gid x \<longrightarrow> requested_id (req_user rq) = Some (us_uid x)"
      and colon: "req_user rq = None \<and> user \<noteq> None \<longrightarrow> (\<forall>d. g_default_user g = Some d \<longrightarrow> CHR '':'' \<notin> set d)"
      and rows: "\<forall>x row. user = Some x \<longrightarrow> us_row x = Some row \<longrightarrow> account_row rq g row"
      by auto
    have known: "?u \<noteq> UserUnknown" using ua by auto
    have none: "req_user rq = None \<and> user = None \<longrightarrow> g_default_user g = None"
    proof (intro impI, rule ccontr)
      assume u: "req_user rq = None \<and> user = None" and "g_default_user g \<noteq> None"
      then obtain dflt where "g_default_user g = Some dflt" by blast
      from default_gives_user [OF Inr [unfolded usr_def this]] u show False by simp
    qed
    note gs = group_stage [OF ua known colon none rows]
    obtain uid where uid: "uid_of ?u = Inr uid" using known by (cases ?u) auto
    let ?layers = "env_layers rq g user"
    have lay: "planned_layers rq g = ?layers" using Inr by (simp add: planned_layers_def usr_def)
    show ?thesis
    proof (cases "choose_gid rq g user")
      case (Inl r)
      with gs have g: "gid_of False ?u (reduce_group (req_group rq) (parse_group (g_group g))) = Inl CodeGroup"
        "rej_error r = UnknownGroup" by simp_all
      show ?thesis by (simp add: plan \<open>usr = Inr user\<close> Inl spec answers_agree_def uid g)
    next
      case gid: (Inr gid)
      with gs obtain d where d: "gid_of False ?u (reduce_group (req_group rq) (parse_group (g_group g))) = Inr d"
        "gid_chosen rq g user gid d" by auto
      define p where "p prog = \<lparr>pl_program = prog, pl_uid = map_option us_uid user, pl_gid = gid, pl_layers = ?layers\<rparr>" for prog
      note ps = program_stage [OF assms(1,2), of "p (Argv [] [])" ?layers g]
      have uida: "uid_agrees rq g (p prog) uid" for prog
        using ua uid id rows by (cases ?u) (auto simp: uid_agrees_def p_def)
      have gida: "gid_agrees rq g (p prog) d" for prog
        using d(2) by (cases d) (auto simp: gid_chosen_def gid_agrees_def p_def)
      show ?thesis
      proof (cases "choose_program rq g ?layers")
        case (Inl r)
        with ps have "program_of False (reduce_shell rq g ?layers) = Inl CodeShell" "rej_error r = UnknownShell"
          by (auto simp: p_def)
        then show ?thesis
          by (simp add: plan \<open>usr = Inr user\<close> gid Inl spec lay answers_agree_def uid d(1))
      next
        case prog: (Inr prog)
        with ps obtain c where c: "program_of False (reduce_shell rq g ?layers) = Inr c" "program_agrees rq g (p prog) c"
          by (auto simp: p_def)
        have "env_agrees v rq g (p prog) (layered LayersSpecified (reduce_request rq g ?layers) (reduce_world v g) ?u)"
          by (rule env_stage [OF ua assms(4) _ rows]) (simp add: p_def)
        with c uida gida show ?thesis
          by (simp add: plan \<open>usr = Inr user\<close> gid prog spec lay answers_agree_def uid d(1) child_agrees_def p_def [symmetric])
      qed
    qed
  qed
qed

theorem plan_refines_specification_witness:
  "answers_agree ''JAVA_HOME'' sample_request sample_guest (make_plan sample_request sample_guest)
     (specified (reduce_request sample_request sample_guest (planned_layers sample_request sample_guest))
        (reduce_world ''JAVA_HOME'' sample_guest))"
  by (rule plan_refines_specification) (simp_all add: own_name_def)

end
