(* ===== verification/ModelOutput.thy ===== *)
theory ModelOutput
  imports Prelude
begin

text \<open>
  The specification machine of the command line's output, \<open>crates/model/src/output.rs\<close>:
  what a command does when a reader closes its stdout or stderr. The policy, the three alternatives
  it rejects, the run of one command and its always properties, for any number of stream events.
\<close>

section \<open>The policy\<close>

datatype cli_command = Help | OneShot | Launch | Streamed

datatype out_format = TextFormat | JsonFormat

datatype out_channel = OutChannel | ErrChannel

datatype cli_end = CliRunning | CliExited nat | CliPanicked | CliSignaled

datatype cli_outcome = OutcomeSuccess | OutcomeFailed nat | OutcomeInterrupted

definition INTERRUPTED :: nat where "INTERRUPTED = 11"
definition PLATFORM :: nat where "PLATFORM = 9"
definition LAUNCH_DIED :: nat where "LAUNCH_DIED = 7"
definition EXEC_FAILED :: nat where "EXEC_FAILED = 13"
definition UNEXPECTED :: nat where "UNEXPECTED = 1"
definition TABLE_ROWS :: nat where "TABLE_ROWS = 17"

fun outcome_code :: "cli_outcome \<Rightarrow> nat" where
  "outcome_code OutcomeSuccess = 0"
| "outcome_code (OutcomeFailed c) = c"
| "outcome_code OutcomeInterrupted = INTERRUPTED"

datatype out_question =
    FailedWrite cli_command out_channel bool
  | ExitQuestion cli_command out_format cli_outcome bool bool

datatype out_decision = OutContinue | StopStream | ExitWith nat | OutPanic | OutKill

definition out_specified :: "out_question \<Rightarrow> out_decision" where
  "out_specified q =
     (case q of
        FailedWrite cmd ch ev \<Rightarrow>
          if cmd = Streamed \<and> ch = OutChannel \<and> ev then StopStream else OutContinue
      | ExitQuestion cmd fmt oc so se \<Rightarrow> ExitWith (outcome_code oc))"

definition out_today :: "out_question \<Rightarrow> out_decision" where
  "out_today q =
     (case q of
        FailedWrite cmd ch ev \<Rightarrow>
          if cmd = Help \<and> ch = OutChannel then OutPanic
          else if cmd = Streamed \<and> ch = OutChannel \<and> ev then OutContinue
          else out_specified q
      | _ \<Rightarrow> out_specified q)"

definition sigpipe_reset :: "out_question \<Rightarrow> out_decision" where
  "sigpipe_reset q = (case q of FailedWrite cmd ch ev \<Rightarrow> OutKill | _ \<Rightarrow> out_specified q)"

definition closed_is_failure :: "out_question \<Rightarrow> out_decision" where
  "closed_is_failure q =
     (case q of
        ExitQuestion cmd fmt oc so se \<Rightarrow>
          if \<not> so \<and> oc = OutcomeSuccess then ExitWith UNEXPECTED else out_specified q
      | _ \<Rightarrow> out_specified q)"

datatype out_behavior = OutSpecified | OutToday | SigpipeReset | ClosedIsFailure

fun out_decide :: "out_behavior \<Rightarrow> out_question \<Rightarrow> out_decision" where
  "out_decide OutSpecified q = out_specified q"
| "out_decide OutToday q = out_today q"
| "out_decide SigpipeReset q = sigpipe_reset q"
| "out_decide ClosedIsFailure q = closed_is_failure q"

section \<open>One command's run\<close>

record out_config =
  og_behavior :: out_behavior
  og_max_events :: nat

record out_state =
  os_command :: cli_command
  os_format :: out_format
  os_stdout_open :: bool
  os_stderr_open :: bool
  os_outcome :: "cli_outcome option"
  os_owed :: bool
  os_done :: bool
  os_closed_during :: bool
  os_progress :: bool
  os_events :: nat
  os_events_after :: nat
  os_remote :: bool
  os_stopped :: bool
  os_noted :: bool
  os_document :: bool
  os_end :: cli_end

datatype out_action =
    CloseStdout | CloseStderr | Progress | StreamEvent | RemoteExits cli_outcome | Decide cli_outcome
  | Teardown | WriteDocument | ExitNow

text \<open>
  \<open>write\<close>: the new state, and whether the process is still running. The note of a stopped
  stream is itself a write, of a line that is no stream event: no policy stops a stream for it.
\<close>

definition write_line :: "out_config \<Rightarrow> out_state \<Rightarrow> out_channel \<Rightarrow> out_state \<times> bool" where
  "write_line cfg s ch =
     (if (case ch of OutChannel \<Rightarrow> os_stdout_open s | ErrChannel \<Rightarrow> os_stderr_open s) then (s, True)
      else
        (case out_decide (og_behavior cfg) (FailedWrite (os_command s) ch False) of
           OutPanic \<Rightarrow> (s\<lparr>os_end := CliPanicked\<rparr>, False)
         | OutKill \<Rightarrow> (s\<lparr>os_end := CliSignaled\<rparr>, False)
         | _ \<Rightarrow> (s, True)))"

definition write_event :: "out_config \<Rightarrow> out_state \<Rightarrow> out_state \<times> bool" where
  "write_event cfg s =
     (if os_stdout_open s then (s\<lparr>os_events := os_events s + 1\<rparr>, True)
      else
        (let s1 = s\<lparr>os_events_after := os_events_after s + 1\<rparr> in
         case out_decide (og_behavior cfg) (FailedWrite (os_command s) OutChannel True) of
           OutContinue \<Rightarrow> (s1, True)
         | ExitWith _ \<Rightarrow> (s1, True)
         | OutPanic \<Rightarrow> (s1\<lparr>os_end := CliPanicked\<rparr>, False)
         | OutKill \<Rightarrow> (s1\<lparr>os_end := CliSignaled\<rparr>, False)
         | StopStream \<Rightarrow>
             write_line cfg (s1\<lparr>os_stopped := True, os_outcome := Some OutcomeInterrupted, os_noted := True\<rparr>)
               ErrChannel))"

lemma no_stop_for_a_line: "out_decide b (FailedWrite cmd ch False) \<noteq> StopStream"
  by (cases b) (auto simp: out_specified_def out_today_def sigpipe_reset_def closed_is_failure_def)

fun out_outcomes :: "cli_command \<Rightarrow> cli_outcome list" where
  "out_outcomes Help = [OutcomeSuccess]"
| "out_outcomes OneShot = [OutcomeSuccess, OutcomeFailed PLATFORM]"
| "out_outcomes Launch = [OutcomeSuccess, OutcomeFailed LAUNCH_DIED]"
| "out_outcomes Streamed = [OutcomeSuccess, OutcomeFailed EXEC_FAILED]"

definition out_init :: "cli_command \<Rightarrow> out_format \<Rightarrow> out_state" where
  "out_init cmd fmt =
     \<lparr>os_command = cmd, os_format = fmt, os_stdout_open = True, os_stderr_open = True, os_outcome = None,
      os_owed = (cmd = Launch), os_done = False, os_closed_during = False, os_progress = False,
      os_events = 0, os_events_after = 0, os_remote = (cmd = Streamed), os_stopped = False,
      os_noted = False, os_document = False, os_end = CliRunning\<rparr>"

definition out_init_states :: "out_state list" where
  "out_init_states =
     [out_init cmd fmt. cmd \<leftarrow> [Help, OneShot, Launch, Streamed],
        fmt \<leftarrow> (if cmd = Help then [TextFormat] else [TextFormat, JsonFormat])]"

definition streaming :: "out_state \<Rightarrow> bool" where
  "streaming s \<longleftrightarrow> os_command s = Streamed \<and> os_remote s \<and> \<not> os_stopped s \<and> os_outcome s = None"

definition ready :: "out_state \<Rightarrow> bool" where
  "ready s \<longleftrightarrow> os_outcome s \<noteq> None \<and> (\<not> os_owed s \<or> os_done s)"

definition out_actions :: "out_config \<Rightarrow> out_state \<Rightarrow> out_action list" where
  "out_actions cfg s =
     (if os_end s \<noteq> CliRunning then []
      else
        (if os_stdout_open s then [CloseStdout] else []) @
        (if os_stderr_open s then [CloseStderr] else []) @
        (if os_command s \<noteq> Help \<and> \<not> os_progress s then [Progress] else []) @
        (if streaming s
         then (if os_events s + os_events_after s < og_max_events cfg then [StreamEvent] else []) @
              map RemoteExits (out_outcomes (os_command s))
         else []) @
        (if os_command s \<noteq> Streamed \<and> os_outcome s = None
         then map Decide (out_outcomes (os_command s)) else []) @
        (if os_owed s \<and> \<not> os_done s \<and> os_outcome s \<noteq> None then [Teardown] else []) @
        (if ready s \<and> \<not> os_document s then [WriteDocument] else []) @
        (if ready s \<and> os_document s then [ExitNow] else []))"

lemma out_action_enabled:
  "CloseStdout \<in> set (out_actions cfg s) \<Longrightarrow> os_stdout_open s"
  "CloseStderr \<in> set (out_actions cfg s) \<Longrightarrow> os_stderr_open s"
  "Progress \<in> set (out_actions cfg s) \<Longrightarrow> \<not> os_progress s"
  "RemoteExits oc \<in> set (out_actions cfg s) \<Longrightarrow> os_outcome s = None"
  "Decide oc \<in> set (out_actions cfg s) \<Longrightarrow> os_outcome s = None"
  "Teardown \<in> set (out_actions cfg s) \<Longrightarrow> os_owed s \<and> \<not> os_done s"
  "WriteDocument \<in> set (out_actions cfg s) \<Longrightarrow> \<not> os_document s"
  by (auto simp: out_actions_def streaming_def split: if_splits)

definition owed_now :: "out_state \<Rightarrow> bool" where
  "owed_now s \<longleftrightarrow> os_owed s \<and> \<not> os_done s \<and> os_outcome s \<noteq> None"

fun end_of :: "nat \<Rightarrow> out_decision \<Rightarrow> cli_end" where
  "end_of own (ExitWith c) = CliExited c"
| "end_of own OutPanic = CliPanicked"
| "end_of own OutKill = CliSignaled"
| "end_of own _ = CliExited own"

fun out_apply :: "out_config \<Rightarrow> out_state \<Rightarrow> out_action \<Rightarrow> out_state" where
  "out_apply cfg s CloseStdout =
     s\<lparr>os_stdout_open := False, os_closed_during := os_closed_during s \<or> owed_now s\<rparr>"
| "out_apply cfg s CloseStderr =
     s\<lparr>os_stderr_open := False, os_closed_during := os_closed_during s \<or> owed_now s\<rparr>"
| "out_apply cfg s Progress = fst (write_line cfg (s\<lparr>os_progress := True\<rparr>) ErrChannel)"
| "out_apply cfg s StreamEvent = fst (write_event cfg s)"
| "out_apply cfg s (RemoteExits oc) = s\<lparr>os_remote := False, os_outcome := Some oc\<rparr>"
| "out_apply cfg s (Decide oc) = s\<lparr>os_outcome := Some oc\<rparr>"
| "out_apply cfg s Teardown =
     (case write_line cfg s ErrChannel of
        (t, alive) \<Rightarrow> if alive then t\<lparr>os_done := True\<rparr> else t)"
| "out_apply cfg s WriteDocument = fst (write_line cfg (s\<lparr>os_document := True\<rparr>) OutChannel)"
| "out_apply cfg s ExitNow =
     (case os_outcome s of
        None \<Rightarrow> s
      | Some oc \<Rightarrow>
          s\<lparr>os_end := end_of (outcome_code oc)
              (out_decide (og_behavior cfg)
                 (ExitQuestion (os_command s) (os_format s) oc (os_stdout_open s) (os_stderr_open s)))\<rparr>)"

definition out_next :: "out_config \<Rightarrow> out_state \<Rightarrow> out_action \<Rightarrow> out_state option" where
  "out_next cfg s a = (let t = out_apply cfg s a in if t \<noteq> s then Some t else None)"

fun out_path :: "out_config \<Rightarrow> out_state \<Rightarrow> out_action list \<Rightarrow> out_state option" where
  "out_path cfg s [] = Some s"
| "out_path cfg s (a # as) =
     (if a \<in> set (out_actions cfg s) then Option.bind (out_next cfg s a) (\<lambda>t. out_path cfg t as) else None)"

section \<open>The always properties\<close>

definition out_always :: "out_state \<Rightarrow> bool list" where
  "out_always s =
     [os_end s \<noteq> CliPanicked \<and> os_end s \<noteq> CliSignaled,
      (case os_end s of CliRunning \<Rightarrow> True | CliExited c \<Rightarrow> c < TABLE_ROWS | _ \<Rightarrow> False),
      os_end s = CliRunning \<or> \<not> os_owed s \<or> os_done s,
      (case (os_end s, os_outcome s) of (CliExited c, Some oc) \<Rightarrow> c = outcome_code oc | _ \<Rightarrow> True),
      os_events_after s \<le> 1,
      \<not> os_stopped s \<or> os_remote s,
      (case os_end s of CliExited c \<Rightarrow> \<not> os_stopped s \<or> c = INTERRUPTED \<and> os_noted s | _ \<Rightarrow> True)]"

definition out_inv :: "out_state \<Rightarrow> bool" where
  "out_inv s \<longleftrightarrow>
     (os_stopped s \<longleftrightarrow> os_outcome s = Some OutcomeInterrupted) \<and> (os_stopped s \<longrightarrow> os_remote s \<and> os_noted s) \<and>
     os_events_after s = (if os_stopped s then 1 else 0) \<and>
     (case os_outcome s of Some oc \<Rightarrow> outcome_code oc < TABLE_ROWS | None \<Rightarrow> True) \<and>
     (case os_end s of
        CliRunning \<Rightarrow> True
      | CliExited c \<Rightarrow> \<exists>oc. os_outcome s = Some oc \<and> c = outcome_code oc \<and> (\<not> os_owed s \<or> os_done s)
      | _ \<Rightarrow> False)"

lemma out_inv_init: "out_inv (out_init cmd fmt)"
  by (simp add: out_inv_def out_init_def)

lemma write_line_specified: "og_behavior cfg = OutSpecified \<Longrightarrow> write_line cfg s ch = (s, True)"
  by (simp add: write_line_def out_specified_def)

lemma out_outcomes_small: "oc \<in> set (out_outcomes cmd) \<Longrightarrow> outcome_code oc < TABLE_ROWS \<and> oc \<noteq> OutcomeInterrupted"
  by (cases cmd) (auto simp: PLATFORM_def LAUNCH_DIED_def EXEC_FAILED_def TABLE_ROWS_def)

lemma out_inv_step:
  assumes "og_behavior cfg = OutSpecified" and "out_inv s" and "a \<in> set (out_actions cfg s)"
  shows "out_inv (out_apply cfg s a)"
proof -
  have run: "os_end s = CliRunning" using assms(3) by (auto simp: out_actions_def split: if_splits)
  show ?thesis
  proof (cases a)
    case StreamEvent
    with assms(3) have "streaming s" by (auto simp: out_actions_def split: if_splits)
    with StreamEvent assms(1,2) run show ?thesis
      by (auto simp: write_event_def write_line_specified out_inv_def streaming_def out_specified_def
          INTERRUPTED_def TABLE_ROWS_def Let_def)
  next
    case (RemoteExits oc)
    with assms(3) have "streaming s" "oc \<in> set (out_outcomes (os_command s))"
      by (auto simp: out_actions_def split: if_splits)
    with RemoteExits assms(2) run out_outcomes_small [of oc "os_command s"] show ?thesis
      by (simp add: out_inv_def streaming_def)
  next
    case (Decide oc)
    with assms(3) have "os_outcome s = None" "oc \<in> set (out_outcomes (os_command s))"
      by (auto simp: out_actions_def split: if_splits)
    with Decide assms(2) run out_outcomes_small [of oc "os_command s"] show ?thesis
      by (simp add: out_inv_def)
  next
    case ExitNow
    with assms(3) have "ready s" by (auto simp: out_actions_def split: if_splits)
    with ExitNow assms(1,2) run show ?thesis by (auto simp: out_inv_def ready_def out_specified_def)
  qed (use assms(1,2) run in \<open>auto simp: out_inv_def write_line_specified\<close>)
qed

lemma out_next_apply: "out_next cfg s a = Some t \<Longrightarrow> t = out_apply cfg s a"
  by (auto simp: out_next_def Let_def split: if_splits)

lemma out_inv_path:
  "out_path cfg s as = Some t \<Longrightarrow> og_behavior cfg = OutSpecified \<Longrightarrow> out_inv s \<Longrightarrow> out_inv t"
proof (induction cfg s as rule: out_path.induct)
  case (2 cfg s a as)
  then obtain u where "a \<in> set (out_actions cfg s)" "out_next cfg s a = Some u" "out_path cfg u as = Some t"
    by (auto simp: bind_eq_Some_conv split: if_splits)
  with 2 out_inv_step [of cfg s a] out_next_apply [of cfg s a u] show ?case by simp
qed simp

lemma out_inv_always: "out_inv s \<Longrightarrow> list_all id (out_always s)"
  by (auto simp: out_inv_def out_always_def split: cli_end.splits option.splits)


section \<open>Every run ends\<close>

text \<open>
  Each action closes a reader, spends an event, or raises one of the run's flags, and no action
  undoes another's work: a run takes at most seven steps more than there are events.
\<close>

fun pending :: "bool \<Rightarrow> nat" where
  "pending True = 1"
| "pending False = 0"


definition out_left :: "out_config \<Rightarrow> out_state \<Rightarrow> nat" where
  "out_left cfg s =
     pending (os_stdout_open s) + pending (os_stderr_open s) + pending (\<not> os_progress s) +
     (og_max_events cfg - (os_events s + os_events_after s)) + pending (os_outcome s = None) +
     pending (os_owed s \<and> \<not> os_done s) + pending (\<not> os_document s) + pending (os_end s = CliRunning)"

lemma out_step_spends:
  assumes "og_behavior cfg = OutSpecified" and "out_inv s" and "a \<in> set (out_actions cfg s)"
  shows "out_left cfg (out_apply cfg s a) < out_left cfg s"
proof -
  have run: "os_end s = CliRunning" using assms(3) by (auto simp: out_actions_def split: if_splits)
  show ?thesis
  proof (cases a)
    case StreamEvent
    with assms(3) have "os_events s + os_events_after s < og_max_events cfg" "os_command s = Streamed"
      by (auto simp: out_actions_def streaming_def split: if_splits)
    with StreamEvent assms(1) run show ?thesis
      by (auto simp: write_event_def write_line_specified out_specified_def out_left_def Let_def)
  next
    case ExitNow
    with assms(3) have "ready s" by (auto simp: out_actions_def split: if_splits)
    with ExitNow assms(1) run show ?thesis by (auto simp: out_left_def ready_def out_specified_def)
  qed (use assms(1,3) run in \<open>simp_all add: out_left_def write_line_specified out_action_enabled\<close>)
qed

lemma out_path_spends:
  "out_path cfg s as = Some t \<Longrightarrow> og_behavior cfg = OutSpecified \<Longrightarrow> out_inv s
   \<Longrightarrow> out_left cfg t + length as \<le> out_left cfg s"
proof (induction cfg s as rule: out_path.induct)
  case (2 cfg s a as)
  then obtain u where u: "a \<in> set (out_actions cfg s)" "out_next cfg s a = Some u" "out_path cfg u as = Some t"
    by (auto simp: bind_eq_Some_conv split: if_splits)
  then have "u = out_apply cfg s a" by (simp add: out_next_apply)
  with 2 u out_inv_step [of cfg s a] out_step_spends [of cfg s a] show ?case by fastforce
qed simp

definition out_streams :: "out_state \<Rightarrow> bool" where
  "out_streams s \<longleftrightarrow> os_command s = Streamed \<and> os_outcome s = None \<longrightarrow> os_remote s \<and> \<not> os_stopped s"

lemma out_streams_step:
  assumes "og_behavior cfg = OutSpecified" and "out_streams s" and "a \<in> set (out_actions cfg s)"
  shows "out_streams (out_apply cfg s a)"
  using assms
  by (cases a) (auto simp: out_streams_def write_event_def write_line_specified out_actions_def Let_def
      out_specified_def split: if_splits option.splits)

lemma out_streams_path:
  "out_path cfg s as = Some t \<Longrightarrow> og_behavior cfg = OutSpecified \<Longrightarrow> out_streams s \<Longrightarrow> out_streams t"
proof (induction cfg s as rule: out_path.induct)
  case (2 cfg s a as)
  then obtain u where "a \<in> set (out_actions cfg s)" "out_next cfg s a = Some u" "out_path cfg u as = Some t"
    by (auto simp: bind_eq_Some_conv split: if_splits)
  with 2 out_streams_step [of cfg s a] out_next_apply [of cfg s a u] show ?case by simp
qed simp

lemma out_not_stuck:
  assumes "og_behavior cfg = OutSpecified" and "out_inv s" and "out_streams s" and "os_end s = CliRunning"
  shows "\<exists>a \<in> set (out_actions cfg s). out_next cfg s a \<noteq> None"
proof -
  obtain a where a: "a \<in> set (out_actions cfg s)"
    using assms(3,4)
    by (cases "os_outcome s"; cases "os_command s"; cases "os_owed s \<and> \<not> os_done s"; cases "os_document s")
       (auto simp: out_actions_def streaming_def ready_def out_streams_def)
  from out_step_spends [OF assms(1,2) a] have "out_apply cfg s a \<noteq> s" by auto
  with a show ?thesis by (auto simp: out_next_def Let_def)
qed

lemma out_init_states_eq: "s \<in> set out_init_states \<Longrightarrow> \<exists>cmd fmt. s = out_init cmd fmt"
  by (auto simp: out_init_states_def)

text \<open>
  C24: The command line's output policy keeps every promise of CLI-7, CLI-8 and CLI-9 over every
  interleaving of a command's run with its readers closing, for any number of stream events: it never
  panics or dies by signal, exits with a row of the table, never exits owing a teardown, keeps the
  code of a decided outcome, stops a stream within one event of its reader closing, leaves the remote
  exec running and names it; and every run ends, within a bound on its steps.
\<close>

theorem output_policy_correct:
  assumes "og_behavior cfg = OutSpecified" and "s \<in> set out_init_states" and "out_path cfg s as = Some t"
  shows "list_all id (out_always t)
    \<and> length as \<le> og_max_events cfg + 7
    \<and> (os_end t = CliRunning \<longrightarrow> (\<exists>a \<in> set (out_actions cfg t). out_next cfg t a \<noteq> None))"
proof -
  from out_init_states_eq [OF assms(2)] obtain cmd fmt where s: "s = out_init cmd fmt" by blast
  have inv: "out_inv s" by (simp add: s out_inv_init)
  have str: "out_streams s" by (simp add: s out_init_def out_streams_def)
  note t_inv = out_inv_path [OF assms(3,1) inv]
  have "out_left cfg s \<le> og_max_events cfg + 7" by (cases "cmd = Launch") (simp_all add: s out_left_def out_init_def)
  with out_path_spends [OF assms(3,1) inv] have "length as \<le> og_max_events cfg + 7" by linarith
  moreover have "os_end t = CliRunning \<longrightarrow> (\<exists>a \<in> set (out_actions cfg t). out_next cfg t a \<noteq> None)"
    using out_not_stuck [OF assms(1) t_inv out_streams_path [OF assms(3,1) str]] by blast
  ultimately show ?thesis using out_inv_always [OF t_inv] by blast
qed

text \<open>A streamed exec whose reader leaves after one event: the run the theorem is about.\<close>

definition out_cfg :: "out_behavior \<Rightarrow> out_config" where
  "out_cfg b = \<lparr>og_behavior = b, og_max_events = 3\<rparr>"

lemmas out_eval = out_cfg_def out_init_def out_actions_def out_next_def write_line_def write_event_def
  streaming_def ready_def owed_now_def out_specified_def out_today_def sigpipe_reset_def
  closed_is_failure_def out_always_def INTERRUPTED_def TABLE_ROWS_def UNEXPECTED_def Let_def

lemma left_reader_run:
  "out_path (out_cfg OutSpecified) (out_init Streamed JsonFormat)
     [StreamEvent, CloseStdout, StreamEvent, WriteDocument, ExitNow] =
   Some ((out_init Streamed JsonFormat)\<lparr>os_stdout_open := False, os_outcome := Some OutcomeInterrupted,
     os_events := 1, os_events_after := 1, os_stopped := True, os_noted := True, os_document := True,
     os_end := CliExited INTERRUPTED\<rparr>)"
  by (simp add: out_eval)

lemma out_init_streamed_in: "out_init Streamed JsonFormat \<in> set out_init_states"
  by (simp add: out_init_states_def)

theorem output_policy_correct_witness:
  "list_all id (out_always ((out_init Streamed JsonFormat)\<lparr>os_stdout_open := False,
     os_outcome := Some OutcomeInterrupted, os_events := 1, os_events_after := 1, os_stopped := True,
     os_noted := True, os_document := True, os_end := CliExited INTERRUPTED\<rparr>))"
  using output_policy_correct [OF _ out_init_streamed_in left_reader_run] by (simp add: out_cfg_def)

section \<open>The rejected policies\<close>

text \<open>
  Each alternative the module names breaks one promise: the CLI as filed panics on a closed pipe and
  streams into it, a reset SIGPIPE leaves a teardown owed, and calling a closed reader a failure
  rewrites a completed outcome.
\<close>

theorem rejected_policies_break:
  "(\<exists>t. out_path (out_cfg OutToday) (out_init Help TextFormat) [CloseStdout, Decide OutcomeSuccess, WriteDocument]
        = Some t \<and> os_end t = CliPanicked)
   \<and> (\<exists>t. out_path (out_cfg OutToday) (out_init Streamed TextFormat) [CloseStdout, StreamEvent, StreamEvent]
        = Some t \<and> os_events_after t = 2)
   \<and> (\<exists>t. out_path (out_cfg SigpipeReset) (out_init Launch TextFormat)
          [CloseStderr, Decide OutcomeSuccess, Teardown] = Some t \<and> os_end t = CliSignaled \<and> os_owed t \<and> \<not> os_done t)
   \<and> (\<exists>t. out_path (out_cfg ClosedIsFailure) (out_init OneShot TextFormat)
          [CloseStdout, Decide OutcomeSuccess, WriteDocument, ExitNow] = Some t
        \<and> os_outcome t = Some OutcomeSuccess \<and> os_end t = CliExited UNEXPECTED)"
  by (simp add: out_eval)

end
