(* ===== verification/Sizing.thy ===== *)
theory Sizing
  imports ClientErrors
begin

text \<open>
  Size classes, \<open>crates/microvms-domain/src/sizing.rs\<close>, and the two hook timeouts and the hook
  port of \<open>hooks.rs\<close>. A CPU figure is an \<open>f64\<close>: a finite one is a rational
  number and compares as one, and the others are \<open>NotFinite\<close>. Memory is a number of MiB.
\<close>

section \<open>The table\<close>

record size_row =
  sr_baseline_mib :: nat
  sr_baseline_vcpu :: rat
  sr_peak_mib :: nat
  sr_peak_vcpu :: rat

definition size_row :: "nat \<Rightarrow> rat \<Rightarrow> nat \<Rightarrow> rat \<Rightarrow> size_row" where
  "size_row bm bv pm pv =
     \<lparr>sr_baseline_mib = bm, sr_baseline_vcpu = bv, sr_peak_mib = pm, sr_peak_vcpu = pv\<rparr>"

definition SIZE_CLASSES :: "size_row list" where
  "SIZE_CLASSES =
     [size_row 512 (1/4) 2048 1,
      size_row 1024 (1/2) 4096 2,
      size_row 2048 1 8192 4,
      size_row 4096 2 16384 8,
      size_row 8192 4 32768 16]"

datatype size_class = Mib512 | Mib1024 | Mib2048 | Mib4096 | Mib8192

definition DEFAULT_CLASS :: size_class where
  "DEFAULT_CLASS = Mib2048"

definition ALL_CLASSES :: "size_class list" where
  "ALL_CLASSES = [Mib512, Mib1024, Mib2048, Mib4096, Mib8192]"

fun class_index :: "size_class \<Rightarrow> nat" where
  "class_index Mib512 = 0"
| "class_index Mib1024 = 1"
| "class_index Mib2048 = 2"
| "class_index Mib4096 = 3"
| "class_index Mib8192 = 4"

definition row_in :: "size_row list \<Rightarrow> size_class \<Rightarrow> size_row" where
  "row_in table c = table ! class_index c"

definition headroom_in :: "size_row list \<Rightarrow> size_class \<Rightarrow> nat" where
  "headroom_in table c = (let row = row_in table c in sr_peak_mib row - sr_baseline_mib row)"

definition class_for_baseline_in :: "size_row list \<Rightarrow> nat \<Rightarrow> size_class option" where
  "class_for_baseline_in table mib =
     List.find (\<lambda>c. sr_baseline_mib (table ! class_index c) = mib) ALL_CLASSES"

definition class_row :: "size_class \<Rightarrow> size_row" where
  "class_row c = row_in SIZE_CLASSES c"

definition baseline_mib :: "size_class \<Rightarrow> nat" where
  "baseline_mib c = sr_baseline_mib (class_row c)"

definition peak_mib :: "size_class \<Rightarrow> nat" where
  "peak_mib c = sr_peak_mib (class_row c)"

definition headroom_mib :: "size_class \<Rightarrow> nat" where
  "headroom_mib c = headroom_in SIZE_CLASSES c"

definition baseline_vcpu :: "size_class \<Rightarrow> rat" where
  "baseline_vcpu c = sr_baseline_vcpu (class_row c)"

definition peak_vcpu :: "size_class \<Rightarrow> rat" where
  "peak_vcpu c = sr_peak_vcpu (class_row c)"

definition MIB_PER_GB :: nat where
  "MIB_PER_GB = 1024"

definition baseline_gb :: "size_class \<Rightarrow> rat" where
  "baseline_gb c = of_nat (baseline_mib c) / of_nat MIB_PER_GB"

definition peak_gb :: "size_class \<Rightarrow> rat" where
  "peak_gb c = of_nat (peak_mib c) / of_nat MIB_PER_GB"

section \<open>Choosing a class\<close>

datatype size_error = OffTable nat | NotANumber | TooLargeRequest "rat option" "nat option"

definition from_baseline_mib :: "nat \<Rightarrow> size_error + size_class" where
  "from_baseline_mib mib = ok_or (OffTable mib) (class_for_baseline_in SIZE_CLASSES mib)"

datatype cpu_figure = NotFinite | Finite rat

definition required :: "'a::{zero, ord} option \<Rightarrow> 'a option" where
  "required m = (case m of Some x \<Rightarrow> if 0 < x then Some x else None | None \<Rightarrow> None)"

fun figure :: "cpu_figure \<Rightarrow> rat" where
  "figure (Finite q) = q"
| "figure NotFinite = 0"

definition covers :: "rat option \<Rightarrow> nat option \<Rightarrow> size_class \<Rightarrow> bool" where
  "covers cpus mem c \<longleftrightarrow>
     (case cpus of None \<Rightarrow> True | Some q \<Rightarrow> q \<le> baseline_vcpu c) \<and>
     (case mem of None \<Rightarrow> True | Some m \<Rightarrow> m \<le> baseline_mib c)"

definition bad_cpu :: "cpu_figure option \<Rightarrow> bool" where
  "bad_cpu cpus = (case cpus of Some (Finite q) \<Rightarrow> q < 0 | Some NotFinite \<Rightarrow> True | None \<Rightarrow> False)"

definition from_request :: "cpu_figure option \<Rightarrow> nat option \<Rightarrow> size_error + size_class" where
  "from_request cpus mem =
     (if bad_cpu cpus then Inl NotANumber
      else
        (let q = required (map_option figure cpus); m = required mem in
         if q = None \<and> m = None then Inr DEFAULT_CLASS
         else ok_or (TooLargeRequest q m) (List.find (covers q m) ALL_CLASSES)))"

section \<open>What a class is\<close>

lemmas table_eval = SIZE_CLASSES_def size_row_def class_row_def row_in_def

lemma class_rows [simp]:
  "baseline_mib Mib512 = 512" "baseline_mib Mib1024 = 1024" "baseline_mib Mib2048 = 2048"
  "baseline_mib Mib4096 = 4096" "baseline_mib Mib8192 = 8192"
  "baseline_vcpu Mib512 = 1/4" "baseline_vcpu Mib1024 = 1/2" "baseline_vcpu Mib2048 = 1"
  "baseline_vcpu Mib4096 = 2" "baseline_vcpu Mib8192 = 4"
  by (simp_all add: baseline_mib_def baseline_vcpu_def table_eval)

instantiation size_class :: linorder
begin

definition less_eq_size_class :: "size_class \<Rightarrow> size_class \<Rightarrow> bool" where
  "less_eq_size_class a b \<longleftrightarrow> class_index a \<le> class_index b"

definition less_size_class :: "size_class \<Rightarrow> size_class \<Rightarrow> bool" where
  "less_size_class a b \<longleftrightarrow> class_index a < class_index b"

instance
proof
  fix a b :: size_class
  show "a \<le> b \<Longrightarrow> b \<le> a \<Longrightarrow> a = b"
    by (cases a; cases b) (simp_all add: less_eq_size_class_def)
qed (auto simp: less_eq_size_class_def less_size_class_def)

end

lemma in_ALL_CLASSES [simp]: "c \<in> set ALL_CLASSES"
  by (cases c) (simp_all add: ALL_CLASSES_def)

text \<open>A class is the larger exactly when it bills more on either axis: the table is sorted.\<close>

lemma class_order_is_baseline_order:
  "a \<le> b \<longleftrightarrow> baseline_mib a \<le> baseline_mib b"
  "a \<le> b \<longleftrightarrow> baseline_vcpu a \<le> baseline_vcpu b"
  by (cases a; cases b; simp add: less_eq_size_class_def)+

theorem baseline_selects_class: "from_baseline_mib mib = Inr c \<longleftrightarrow> baseline_mib c = mib"
  by (cases c) (auto simp: from_baseline_mib_def class_for_baseline_in_def ALL_CLASSES_def table_eval)

lemma headroom_is_table_difference: "baseline_mib c + headroom_mib c = peak_mib c"
  by (cases c) (simp_all add: headroom_mib_def headroom_in_def baseline_mib_def peak_mib_def table_eval Let_def)

section \<open>The chosen class covers the request, and is the least that does\<close>

lemma find_least:
  "List.find P ALL_CLASSES = Some c \<longleftrightarrow> P c \<and> (\<forall>d. P d \<longrightarrow> c \<le> d)"
proof -
  have all: "(\<forall>d. Q d) \<longleftrightarrow> Q Mib512 \<and> Q Mib1024 \<and> Q Mib2048 \<and> Q Mib4096 \<and> Q Mib8192" for Q
    by (metis size_class.exhaust)
  show ?thesis
    unfolding all by (cases c) (auto simp: ALL_CLASSES_def less_eq_size_class_def)
qed

lemma covers_mono: "covers q m c \<Longrightarrow> c \<le> d \<Longrightarrow> covers q m d"
  by (auto simp: covers_def class_order_is_baseline_order split: option.splits)
     (metis class_order_is_baseline_order order_trans)+

lemma find_covers_None: "List.find (covers q m) ALL_CLASSES = None \<longleftrightarrow> \<not> covers q m Mib8192"
proof -
  have "d \<le> Mib8192" for d by (cases d) (simp_all add: less_eq_size_class_def)
  then have "\<not> covers q m Mib8192 \<longleftrightarrow> (\<forall>d. \<not> covers q m d)" using covers_mono by blast
  then show ?thesis by (auto simp: find_None_iff)
qed

text \<open>
  The class chosen for a resource request is the least whose billed baseline covers it on both
  axes; zero or nothing on an axis asks nothing of it, nothing on both gives the default class, and a
  request is refused exactly when its CPU figure is no finite non-negative number or it asks for more
  than 4 vCPUs or 8192 MiB.
\<close>

theorem request_gets_least_cover:
  "(from_request cpus mem = Inr c \<longleftrightarrow>
      \<not> bad_cpu cpus \<and>
      (let q = required (map_option figure cpus); m = required mem in
       if q = None \<and> m = None then c = DEFAULT_CLASS
       else covers q m c \<and> (\<forall>d. covers q m d \<longrightarrow> c \<le> d)))
   \<and> ((\<exists>e. from_request cpus mem = Inl e) \<longleftrightarrow>
        bad_cpu cpus \<or> (\<exists>q. cpus = Some (Finite q) \<and> 4 < q) \<or> (\<exists>m. mem = Some m \<and> 8192 < m))"
proof
  show "from_request cpus mem = Inr c \<longleftrightarrow>
      \<not> bad_cpu cpus \<and>
      (let q = required (map_option figure cpus); m = required mem in
       if q = None \<and> m = None then c = DEFAULT_CLASS
       else covers q m c \<and> (\<forall>d. covers q m d \<longrightarrow> c \<le> d))"
    by (auto simp: from_request_def Let_def find_least)
  let ?q = "required (map_option figure cpus)" and ?m = "required mem"
  have "\<not> covers ?q ?m Mib8192 \<longleftrightarrow>
      (\<exists>q. cpus = Some (Finite q) \<and> 4 < q) \<or> (\<exists>m. mem = Some m \<and> 8192 < m)"
  proof -
    have "4 < figure a \<longleftrightarrow> (\<exists>q. a = Finite q \<and> 4 < q)" for a by (cases a) auto
    then show ?thesis
      by (cases cpus; cases mem) (auto simp: covers_def required_def not_le split: option.splits)
  qed
  moreover have "(\<exists>e. from_request cpus mem = Inl e) \<longleftrightarrow> bad_cpu cpus \<or> \<not> covers ?q ?m Mib8192"
    by (auto simp: from_request_def Let_def find_covers_None covers_def)
  ultimately show "(\<exists>e. from_request cpus mem = Inl e) \<longleftrightarrow>
      bad_cpu cpus \<or> (\<exists>q. cpus = Some (Finite q) \<and> 4 < q) \<or> (\<exists>m. mem = Some m \<and> 8192 < m)" by simp
qed

text \<open>
  Asking for more never gives less, between two requests that ask for something. From no request to a
  small one it does: the default class is not the smallest.
\<close>

lemma larger_request_larger_class:
  assumes "from_request (Some (Finite q)) (Some m) = Inr c" and "from_request (Some (Finite q')) (Some m') = Inr d"
    and "0 < q \<or> 0 < m" and "q \<le> q'" and "m \<le> m'"
  shows "c \<le> d"
proof -
  let ?r = "required (Some q)" and ?s = "required (Some m)"
  let ?r' = "required (Some q')" and ?s' = "required (Some m')"
  from assms have c: "\<forall>d. covers ?r ?s d \<longrightarrow> c \<le> d" and d: "covers ?r' ?s' d"
    by (auto simp: from_request_def required_def Let_def find_least split: if_splits)
  from d assms(4,5) have "covers ?r ?s d" by (auto simp: covers_def required_def split: if_splits)
  with c show ?thesis by blast
qed

lemma small_request_below_default:
  "from_request None None = Inr Mib2048 \<and> from_request (Some (Finite (1/4))) None = Inr Mib512"
  by (simp add: from_request_def DEFAULT_CLASS_def required_def bad_cpu_def covers_def ALL_CLASSES_def)

section \<open>Hook timeouts and the hook port\<close>

definition MAX_MICROVM_HOOK_TIMEOUT_SEC :: nat where "MAX_MICROVM_HOOK_TIMEOUT_SEC = 60"
definition MAX_IMAGE_HOOK_TIMEOUT_SEC :: nat where "MAX_IMAGE_HOOK_TIMEOUT_SEC = 3600"

datatype run_hook_timeout = RunHookTimeout nat

datatype build_hook_timeout = BuildHookTimeout nat

datatype hook_range_error = OutOfRange string nat nat nat | BadHookPort nat

definition run_timeout_try_new :: "nat \<Rightarrow> hook_range_error + run_hook_timeout" where
  "run_timeout_try_new s =
     (if 1 \<le> s \<and> s \<le> MAX_MICROVM_HOOK_TIMEOUT_SEC then Inr (RunHookTimeout s)
      else Inl (OutOfRange ''microvmHooks'' s MAX_MICROVM_HOOK_TIMEOUT_SEC MAX_IMAGE_HOOK_TIMEOUT_SEC))"

definition build_timeout_try_new :: "nat \<Rightarrow> hook_range_error + build_hook_timeout" where
  "build_timeout_try_new s =
     (if 1 \<le> s \<and> s \<le> MAX_IMAGE_HOOK_TIMEOUT_SEC then Inr (BuildHookTimeout s)
      else Inl (OutOfRange ''microvmImageHooks'' s MAX_IMAGE_HOOK_TIMEOUT_SEC MAX_MICROVM_HOOK_TIMEOUT_SEC))"

definition require_hook_port :: "u32 \<Rightarrow> hook_range_error + 16 word" where
  "require_hook_port p =
     (if 1 \<le> unat p \<and> unat p \<le> unat (ucast (- 1 :: 16 word) :: u32) then Inr (ucast p)
      else Inl (BadHookPort (unat p)))"

text \<open>A port that passes is the number given: the narrowing loses nothing.\<close>

lemma hook_port_exact: "require_hook_port p = Inr q \<Longrightarrow> unat q = unat p \<and> q \<noteq> 0"
proof -
  assume "require_hook_port p = Inr q"
  then have q: "q = ucast p" and r: "1 \<le> unat p" "unat p \<le> 65535"
    by (auto simp: require_hook_port_def unsigned_ucast_eq take_bit_eq_mod unsigned_minus_1_eq_mask mask_eq_exp_minus_1 split: if_splits)
  have "unat q = unat p" using r by (simp add: q unsigned_ucast_eq take_bit_eq_mod)
  then show ?thesis using r by auto
qed

end
