(* ===== verification/NameRecords.thy ===== *)
theory NameRecords
  imports ClientErrors HookPayload
begin

text \<open>
  What a later process needs to address a VM by name: \<open>crates/microvms-domain/src/region.rs\<close>,
  the launcher's half of the tunnel identity (\<open>identity.rs\<close>) and the name record
  (\<open>names.rs\<close>). Base64 and the x25519 public key of a seed are third-party and arguments;
  the JSON reader of a record is one too.
\<close>

section \<open>Regions\<close>

datatype region = UsEast1 | UsEast2 | UsWest2 | EuWest1 | ApNortheast1 | Unlisted string

fun region_as_str :: "region \<Rightarrow> string" where
  "region_as_str UsEast1 = ''us-east-1''"
| "region_as_str UsEast2 = ''us-east-2''"
| "region_as_str UsWest2 = ''us-west-2''"
| "region_as_str EuWest1 = ''eu-west-1''"
| "region_as_str ApNortheast1 = ''ap-northeast-1''"
| "region_as_str (Unlisted name) = name"

definition NAMED :: "region list" where
  "NAMED = [UsEast1, UsEast2, UsWest2, EuWest1, ApNortheast1]"

definition MEASURED_REGIONS :: "string list" where
  "MEASURED_REGIONS =
     [''us-east-1'', ''us-east-2'', ''us-west-2'', ''eu-west-1'', ''ap-northeast-1'', ''ap-south-1'',
      ''ap-southeast-1'', ''ap-southeast-2'', ''eu-central-1'', ''eu-north-1'', ''ap-east-1'',
      ''ap-southeast-5'', ''ap-southeast-7'', ''eu-south-2'']"

definition is_measured :: "region \<Rightarrow> bool" where
  "is_measured r \<longleftrightarrow> region_as_str r \<in> set MEASURED_REGIONS"

definition is_supported :: "region \<Rightarrow> bool" where
  "is_supported r \<longleftrightarrow> r \<in> set NAMED"

definition region_named :: "string \<Rightarrow> region" where
  "region_named name =
     (case List.find (\<lambda>r. region_as_str r = name) NAMED of Some r \<Rightarrow> r | None \<Rightarrow> Unlisted name)"

definition as_written :: "string \<Rightarrow> region" where
  "as_written name = region_named name"

definition is_lower :: "char \<Rightarrow> bool" where
  "is_lower c \<longleftrightarrow> 97 \<le> code c \<and> code c \<le> 122"

definition HYPHEN :: char where "HYPHEN = CHR ''-''"

fun doubled :: "string \<Rightarrow> bool" where
  "doubled (a # b # s) \<longleftrightarrow> a = HYPHEN \<and> b = HYPHEN \<or> doubled (b # s)"
| "doubled _ \<longleftrightarrow> False"

definition is_region_shaped :: "string \<Rightarrow> bool" where
  "is_region_shaped name \<longleftrightarrow>
     name \<noteq> [] \<and> length name \<le> 63 \<and> is_lower (hd name) \<and> is_digit (List.last name) \<and>
     HYPHEN \<in> set name \<and> \<not> doubled name \<and>
     list_all (\<lambda>c. is_lower c \<or> is_digit c \<or> c = HYPHEN) name"

datatype region_error = NotARegionName string | FromTheEnvironment region_error

definition region_from_str :: "string \<Rightarrow> region_error + region" where
  "region_from_str name =
     (if is_region_shaped name then Inr (region_named name) else Inl (NotARegionName name))"

definition region_from_env :: "(string \<Rightarrow> string option) \<Rightarrow> region_error + region" where
  "region_from_env env =
     (case (case env ''AWS_REGION'' of Some v \<Rightarrow> Some v | None \<Rightarrow> env ''AWS_DEFAULT_REGION'') of
        Some name \<Rightarrow>
          (case region_from_str name of Inl e \<Rightarrow> Inl (FromTheEnvironment e) | Inr r \<Rightarrow> Inr r)
      | None \<Rightarrow> Inr UsEast1)"

text \<open>
  A region is canonical when a name with a constant is that constant: what makes the derived
  equality equality of names. Every way to build a region but the public variant itself is canonical.
\<close>

definition canonical :: "region \<Rightarrow> bool" where
  "canonical r \<longleftrightarrow> (case r of Unlisted name \<Rightarrow> name \<notin> region_as_str ` set NAMED | _ \<Rightarrow> True)"

lemma named_distinct: "inj_on region_as_str (set NAMED)"
  by (simp add: NAMED_def)

lemma region_named_cases:
  "region_named name = r \<longleftrightarrow>
     (r \<in> set NAMED \<and> region_as_str r = name) \<or> (r = Unlisted name \<and> name \<notin> region_as_str ` set NAMED)"
proof (cases "List.find (\<lambda>q. region_as_str q = name) NAMED")
  case None
  then have "name \<notin> region_as_str ` set NAMED" by (auto simp: find_None_iff)
  with None show ?thesis by (auto simp: region_named_def)
next
  case (Some q)
  then have q: "q \<in> set NAMED" "region_as_str q = name" by (auto simp: find_Some_iff)
  with Some inj_onD [OF named_distinct] show ?thesis by (fastforce simp: region_named_def)
qed

lemma region_named_as_str [simp]: "region_as_str (region_named name) = name"
  using region_named_cases [of name "region_named name"] by auto

lemma region_named_canonical [simp]: "canonical (region_named name)"
  using region_named_cases [of name "region_named name"] by (auto simp: canonical_def NAMED_def)

lemma us_east_canonical: "canonical UsEast1"
  by (simp add: canonical_def)

lemma region_named_inverse: "canonical r \<Longrightarrow> region_named (region_as_str r) = r"
  by (cases r) (auto simp: region_named_cases canonical_def NAMED_def)

text \<open>
  C28: A region built by parsing a name, from the environment, or from a stored record is canonical
  and reads back as the name it was built from, and two canonical regions are equal exactly when
  their names are; a parsed name is one label of a host name, so it cannot move the endpoint.
\<close>

theorem regions_are_their_names:
  "(region_from_str name = Inr r \<longrightarrow> canonical r \<and> region_as_str r = name)
   \<and> canonical (as_written name) \<and> region_as_str (as_written name) = name
   \<and> (region_from_env env = Inr r \<longrightarrow> canonical r \<and> is_region_shaped (region_as_str r))
   \<and> (canonical a \<and> canonical b \<longrightarrow> (a = b \<longleftrightarrow> region_as_str a = region_as_str b))
   \<and> (canonical r \<and> is_region_shaped (region_as_str r) \<longrightarrow> region_from_str (region_as_str r) = Inr r)
   \<and> (is_region_shaped name \<longrightarrow>
        length name \<le> 63 \<and> CHR ''.'' \<notin> set name \<and> CHR ''/'' \<notin> set name \<and> CHR ''@'' \<notin> set name)"
proof -
  have us: "is_region_shaped ''us-east-1''"
    by (simp add: is_region_shaped_def is_lower_def is_digit_def HYPHEN_def code_def)
  have "is_region_shaped name \<Longrightarrow>
        CHR ''.'' \<notin> set name \<and> CHR ''/'' \<notin> set name \<and> CHR ''@'' \<notin> set name"
    by (auto simp: is_region_shaped_def list_all_iff is_lower_def is_digit_def HYPHEN_def code_def)
  moreover have "canonical a \<Longrightarrow> canonical b \<Longrightarrow> a = b \<longleftrightarrow> region_as_str a = region_as_str b"
    by (metis region_named_inverse)
  moreover have "region_from_env env = Inr r \<Longrightarrow> canonical r \<and> is_region_shaped (region_as_str r)"
    using us by (auto simp: region_from_env_def region_from_str_def us_east_canonical
        split: option.splits sum.splits if_splits)
  ultimately show ?thesis
    by (auto simp: region_from_str_def as_written_def region_named_inverse is_region_shaped_def)
qed

lemma regions_are_their_names_parse: "region_from_str ''eu-central-1'' = Inr (Unlisted ''eu-central-1'')"
  by (simp add: region_from_str_def is_region_shaped_def is_lower_def is_digit_def HYPHEN_def code_def
      region_named_def NAMED_def)

theorem regions_are_their_names_witness:
  "canonical (Unlisted ''eu-central-1'') \<and> region_as_str (Unlisted ''eu-central-1'') = ''eu-central-1''"
  using regions_are_their_names [of "''eu-central-1''" "Unlisted ''eu-central-1''"] regions_are_their_names_parse
  by blast

text \<open>The public variant is the one way around it: two regions with one name that are not equal.\<close>

lemma variant_breaks_equality:
  "region_as_str (Unlisted ''us-east-1'') = region_as_str UsEast1 \<and> Unlisted ''us-east-1'' \<noteq> UsEast1
   \<and> \<not> canonical (Unlisted ''us-east-1'')"
  by (simp add: canonical_def NAMED_def)

section \<open>The launcher's identity\<close>

record launch_identity =
  li_vm_seed :: bytes
  li_host_seed :: bytes

record tunnel_identity =
  ti_host_seed :: bytes
  ti_vm_public_key :: bytes

datatype identity_error =
    BadSeed seed_error | StoredHostSeed seed_error | StoredPublicKey nat | HostSeedNotBase64
  | VmKeyNotBase64 | HalfAPair string

definition launch_from_seeds :: "bytes \<Rightarrow> bytes \<Rightarrow> identity_error + launch_identity" where
  "launch_from_seeds vm host =
     (case bind_r (seed_from_bytes vm) (\<lambda>_. seed_from_bytes host) of
        Inl e \<Rightarrow> Inl (BadSeed e)
      | Inr _ \<Rightarrow> Inr \<lparr>li_vm_seed = vm, li_host_seed = host\<rparr>)"

definition seed_field :: "(bytes \<Rightarrow> string) \<Rightarrow> launch_identity \<Rightarrow> string" where
  "seed_field enc l = enc (li_vm_seed l)"

definition host_public_field :: "(bytes \<Rightarrow> string) \<Rightarrow> (bytes \<Rightarrow> bytes) \<Rightarrow> launch_identity \<Rightarrow> string" where
  "host_public_field enc pub l = enc (pub (li_host_seed l))"

definition launch_keep :: "(bytes \<Rightarrow> bytes) \<Rightarrow> launch_identity \<Rightarrow> tunnel_identity" where
  "launch_keep pub l = \<lparr>ti_host_seed = li_host_seed l, ti_vm_public_key = pub (li_vm_seed l)\<rparr>"

definition identity_from_parts :: "bytes \<Rightarrow> bytes \<Rightarrow> identity_error + tunnel_identity" where
  "identity_from_parts host vm =
     (case seed_from_bytes host of
        Inl e \<Rightarrow> Inl (StoredHostSeed e)
      | Inr h \<Rightarrow>
          if length vm \<noteq> SEED_BYTES then Inl (StoredPublicKey (length vm))
          else Inr \<lparr>ti_host_seed = h, ti_vm_public_key = vm\<rparr>)"

definition host_seed_base64 :: "(bytes \<Rightarrow> string) \<Rightarrow> tunnel_identity \<Rightarrow> string" where
  "host_seed_base64 enc t = enc (ti_host_seed t)"

definition vm_public_key_base64 :: "(bytes \<Rightarrow> string) \<Rightarrow> tunnel_identity \<Rightarrow> string" where
  "vm_public_key_base64 enc t = enc (ti_vm_public_key t)"

definition from_encoded_parts ::
  "(string \<Rightarrow> bytes option) \<Rightarrow> string \<Rightarrow> string \<Rightarrow> identity_error + tunnel_identity" where
  "from_encoded_parts dec host vm =
     bind_r (ok_or HostSeedNotBase64 (dec host)) (\<lambda>h.
     bind_r (ok_or VmKeyNotBase64 (dec vm)) (\<lambda>v. identity_from_parts h v))"

text \<open>What a tunnel identity holds: a seed the daemon would accept and a key of the right length.\<close>

definition identity_ok :: "tunnel_identity \<Rightarrow> bool" where
  "identity_ok t \<longleftrightarrow>
     seed_from_bytes (ti_host_seed t) = Inr (ti_host_seed t) \<and> length (ti_vm_public_key t) = SEED_BYTES"

lemma seed_from_bytes_Inr: "seed_from_bytes bs = Inr s \<longleftrightarrow> s = bs \<and> length bs = SEED_BYTES \<and> \<not> list_all (\<lambda>b. b = 0) bs"
  by (auto simp: seed_from_bytes_def)

lemma identity_from_parts_ok: "identity_from_parts h v = Inr t \<Longrightarrow> identity_ok t"
  by (auto simp: identity_from_parts_def identity_ok_def seed_from_bytes_Inr split: sum.splits if_splits)

text \<open>
  The launch hands the daemon exactly the material the launcher keeps the other half of: the
  fields of the payload decode, at the daemon, to the VM's seed and the host's public key, and what
  the launcher keeps is the host's seed and the public key of that VM seed, a well-formed identity.
\<close>

theorem launch_identity_agrees:
  assumes "launch_from_seeds vm host = Inr l"
    and "\<And>bs. dec (enc bs) = Some bs"
    and "\<And>s. length s = SEED_BYTES \<Longrightarrow> length (pub s) = SEED_BYTES \<and> \<not> list_all (\<lambda>b. b = 0) (pub s)"
    and "rh_identity_seed hook = Some (seed_field enc l)"
    and "rh_identity_host_public_key hook = Some (host_public_field enc pub l)"
  shows "from_payload dec hook = Inr (Some \<lparr>mt_seed = vm, mt_host_public_key = pub host\<rparr>)
    \<and> launch_keep pub l = \<lparr>ti_host_seed = host, ti_vm_public_key = pub vm\<rparr>
    \<and> identity_ok (launch_keep pub l)"
proof -
  from assms(1) have l: "l = \<lparr>li_vm_seed = vm, li_host_seed = host\<rparr>"
    and vm: "seed_from_bytes vm = Inr vm" and host: "seed_from_bytes host = Inr host"
    by (auto simp: launch_from_seeds_def seed_from_bytes_Inr bind_r_Inr split: sum.splits)
  have "seed_from_bytes (pub host) = Inr (pub host)"
    using assms(3) [of host] host by (simp add: seed_from_bytes_Inr)
  moreover have "length (pub vm) = SEED_BYTES" using assms(3) [of vm] vm by (simp add: seed_from_bytes_Inr)
  ultimately show ?thesis using assms(2,4,5) vm host
    by (simp add: l from_payload_def decode_half_def seed_field_def host_public_field_def launch_keep_def
        identity_ok_def)
qed

definition sample_seed :: "nat \<Rightarrow> bytes" where
  "sample_seed n = replicate SEED_BYTES (of_nat n)"

definition sample_hook :: run_hook where
  "sample_hook = \<lparr>rh_agent_token = ''t'', rh_env = Map.empty,
     rh_identity_seed = Some (string_of (sample_seed 1)),
     rh_identity_host_public_key = Some (string_of (sample_seed 9))\<rparr>"

lemma as_bytes_string_of: "as_bytes (string_of bs) = bs"
proof -
  have "(of_char (char_of (unat b)) :: byte) = b" for b :: byte
  proof -
    have "(of_char (char_of (unat b)) :: byte) = of_nat (of_char (char_of (unat b)))"
      by (simp only: of_nat_of_char)
    moreover have "of_char (char_of (unat b)) = unat b"
      using unsigned_less [of b, where 'a = nat] by simp
    ultimately show ?thesis by simp
  qed
  then show ?thesis by (simp add: as_bytes_def string_of_def o_def)
qed

theorem launch_identity_agrees_witness:
  "from_payload (\<lambda>s. Some (as_bytes s)) sample_hook =
     Inr (Some \<lparr>mt_seed = sample_seed 1, mt_host_public_key = sample_seed 9\<rparr>)"
proof -
  have l: "launch_from_seeds (sample_seed 1) (sample_seed 2) =
      Inr \<lparr>li_vm_seed = sample_seed 1, li_host_seed = sample_seed 2\<rparr>"
    by (simp add: launch_from_seeds_def seed_from_bytes_def sample_seed_def SEED_BYTES_def list_all_iff)
  have pub: "length (sample_seed 9) = SEED_BYTES \<and> \<not> list_all (\<lambda>b. b = 0) (sample_seed 9)"
    by (simp add: sample_seed_def SEED_BYTES_def list_all_iff)
  show ?thesis
    using launch_identity_agrees [OF l, of "\<lambda>s. Some (as_bytes s)" string_of "\<lambda>_. sample_seed 9" sample_hook]
    by (simp add: as_bytes_string_of pub sample_hook_def seed_field_def host_public_field_def)
qed

section \<open>The record\<close>

datatype name_error = EmptyName | NameTooLong nat | LikeAnId string | IllegalCharacter char

definition is_alnum :: "char \<Rightarrow> bool" where
  "is_alnum c \<longleftrightarrow> is_lower c \<or> 65 \<le> code c \<and> code c \<le> 90 \<or> is_digit c"

definition name_char :: "char \<Rightarrow> bool" where
  "name_char c \<longleftrightarrow> is_alnum c \<or> c = HYPHEN \<or> c = CHR ''_''"

definition validate_name :: "string \<Rightarrow> name_error option" where
  "validate_name name =
     (if name = [] then Some EmptyName
      else if 128 < length name then Some (NameTooLong (length name))
      else if starts_with ''microvm-'' name \<or> starts_with ''mvm-'' name then Some (LikeAnId name)
      else map_option IllegalCharacter (List.find (\<lambda>c. \<not> name_char c) name))"

record name_record =
  nr_name :: string
  nr_microvm_id :: string
  nr_endpoint :: string
  nr_agent_token :: string
  nr_region :: string
  nr_at :: nat
  nr_identity_host_seed :: "string option"
  nr_identity_vm_public_key :: "string option"
  nr_egress_posture :: "string option"

datatype record_error =
    IllegalName name_error | EmptyField string | NotARecord | NoSuchName string
  | OtherRegion string string string

definition record_check :: "name_record \<Rightarrow> record_error option" where
  "record_check r =
     (case validate_name (nr_name r) of
        Some e \<Rightarrow> Some (IllegalName e)
      | None \<Rightarrow>
          map_option (\<lambda>f. EmptyField (fst f))
            (List.find (\<lambda>f. snd f = [])
              [(''microvmId'', nr_microvm_id r), (''endpoint'', nr_endpoint r),
               (''agentToken'', nr_agent_token r), (''region'', nr_region r)]))"

definition checked :: "name_record \<Rightarrow> record_error + name_record" where
  "checked r = (case record_check r of Some e \<Rightarrow> Inl e | None \<Rightarrow> Inr r)"

definition record_new_at ::
  "string \<Rightarrow> string \<Rightarrow> string \<Rightarrow> string \<Rightarrow> string \<Rightarrow> nat \<Rightarrow> record_error + name_record" where
  "record_new_at name vm endpoint token reg at_secs =
     checked \<lparr>nr_name = name, nr_microvm_id = vm, nr_endpoint = endpoint, nr_agent_token = token,
       nr_region = reg, nr_at = at_secs, nr_identity_host_seed = None, nr_identity_vm_public_key = None,
       nr_egress_posture = None\<rparr>"

definition record_from_json :: "('j \<Rightarrow> name_record option) \<Rightarrow> 'j \<Rightarrow> record_error + name_record" where
  "record_from_json decode v = bind_r (ok_or NotARecord (decode v)) checked"

definition redacted_json :: "name_record \<Rightarrow> (string \<times> json) list" where
  "redacted_json r =
     [(''name'', JString (nr_name r)), (''microvmId'', JString (nr_microvm_id r)),
      (''endpoint'', JString (nr_endpoint r)), (''region'', JString (nr_region r)),
      (''at'', JNumber (int (nr_at r)))]
     @ (case nr_identity_vm_public_key r of Some k \<Rightarrow> [(''identityVmPublicKey'', JString k)] | None \<Rightarrow> [])
     @ (case nr_egress_posture r of Some p \<Rightarrow> [(''egressPosture'', JString p)] | None \<Rightarrow> [])"

definition record_tunnel_identity ::
  "(string \<Rightarrow> bytes option) \<Rightarrow> name_record \<Rightarrow> identity_error + tunnel_identity option" where
  "record_tunnel_identity dec r =
     (case (nr_identity_host_seed r, nr_identity_vm_public_key r) of
        (None, None) \<Rightarrow> Inr None
      | (Some seed, Some pin) \<Rightarrow> bind_r (from_encoded_parts dec seed pin) (\<lambda>t. Inr (Some t))
      | _ \<Rightarrow> Inl (HalfAPair (nr_name r)))"

definition set_tunnel_identity :: "(bytes \<Rightarrow> string) \<Rightarrow> tunnel_identity option \<Rightarrow> name_record \<Rightarrow> name_record" where
  "set_tunnel_identity enc t r =
     r\<lparr>nr_identity_host_seed := map_option (host_seed_base64 enc) t,
       nr_identity_vm_public_key := map_option (vm_public_key_base64 enc) t\<rparr>"

definition record_region :: "name_record \<Rightarrow> region" where
  "record_region r = as_written (nr_region r)"

definition resolve_record ::
  "string \<Rightarrow> name_record option \<Rightarrow> region option \<Rightarrow> record_error + name_record" where
  "resolve_record name found expected =
     bind_r (ok_or (NoSuchName name) found) (\<lambda>r.
       case expected of
         Some e \<Rightarrow> if region_as_str e \<noteq> nr_region r then Inl (OtherRegion name (nr_region r) (region_as_str e)) else Inr r
       | None \<Rightarrow> Inr r)"

section \<open>What a record promises\<close>

lemma find_None_all: "List.find P xs = None \<longleftrightarrow> (\<forall>x \<in> set xs. \<not> P x)"
  by (induction xs) auto

text \<open>
  A legal name is one plain component of a path and never an id: a store may use it as a file name,
  and an identifier with an id's prefix can only be an id.
\<close>

theorem legal_name_is_plain:
  assumes "validate_name name = None"
  shows "name \<noteq> []" "length name \<le> 128" "CHR ''/'' \<notin> set name" "CHR '':'' \<notin> set name"
    "name \<noteq> ''.''" "name \<noteq> ''..''" "\<not> starts_with ''microvm-'' name" "\<not> starts_with ''mvm-'' name"
proof -
  from assms have chars: "\<forall>c \<in> set name. name_char c"
    by (auto simp: validate_name_def find_None_all split: if_splits)
  show "name \<noteq> []" "length name \<le> 128" using assms by (auto simp: validate_name_def split: if_splits)
  show "CHR ''/'' \<notin> set name" "CHR '':'' \<notin> set name" "name \<noteq> ''.''" "name \<noteq> ''..''"
    using chars by (auto simp: name_char_def is_alnum_def is_lower_def is_digit_def HYPHEN_def code_def)
  show "\<not> starts_with ''microvm-'' name" "\<not> starts_with ''mvm-'' name"
    using assms by (auto simp: validate_name_def split: if_splits)
qed

text \<open>Every record built or read passes the check, and a resolved one is in the region asked for.\<close>

lemma record_built_ok:
  "record_new_at n v e t g a = Inr r \<Longrightarrow> record_check r = None"
  "record_from_json decode j = Inr r \<Longrightarrow> record_check r = None"
  by (auto simp: record_new_at_def record_from_json_def checked_def bind_r_Inr split: option.splits)

lemma resolved_in_region:
  "canonical e \<Longrightarrow> resolve_record name found (Some e) = Inr r \<Longrightarrow> found = Some r \<and> record_region r = e"
  using region_named_inverse [of e]
  by (auto simp: resolve_record_def record_region_def as_written_def bind_r_Inr split: if_splits)

text \<open>A listing says nothing of the two secrets: records that differ only there print alike.\<close>

lemma redacted_tells_no_secret:
  "redacted_json (r\<lparr>nr_agent_token := t, nr_identity_host_seed := s\<rparr>) = redacted_json r"
  by (simp add: redacted_json_def)

text \<open>
  A record gives back the tunnel identity it was given, none when it was given none, and a record
  with one half of the pair is refused rather than read as having none.
\<close>

theorem record_identity_roundtrip:
  assumes "\<And>bs. dec (enc bs) = Some bs" and "\<forall>i. t = Some i \<longrightarrow> identity_ok i"
  shows "record_tunnel_identity dec (set_tunnel_identity enc t r) = Inr t
    \<and> (record_tunnel_identity dec r = Inr None \<longleftrightarrow>
         nr_identity_host_seed r = None \<and> nr_identity_vm_public_key r = None)"
proof
  show "record_tunnel_identity dec (set_tunnel_identity enc t r) = Inr t"
    using assms by (cases t) (auto simp: record_tunnel_identity_def set_tunnel_identity_def from_encoded_parts_def
        host_seed_base64_def vm_public_key_base64_def identity_from_parts_def identity_ok_def)
  show "record_tunnel_identity dec r = Inr None \<longleftrightarrow>
         nr_identity_host_seed r = None \<and> nr_identity_vm_public_key r = None"
    by (auto simp: record_tunnel_identity_def bind_r_Inr split: option.splits)
qed

end
