(* ===== verification/ReleaseFetch.thy ===== *)
theory ReleaseFetch
  imports Strings HookPayload
begin

text \<open>
  How a fetched daemon binary is proven: the ELF check of \<open>crates/microvms-domain/src/provision.rs\<close>,
  the policy \<open>fetch_release\<close> of \<open>crates/microvms-app/src/provision.rs\<close>, and the two
  release sources of \<open>crates/microvms-edges/src/provision/release.rs\<close>. SHA-256, the Sigstore
  verifier, the JSON reader and one HTTP request are third-party and arguments.
\<close>

section \<open>The ELF check\<close>

definition REQUIRED_ELF_MACHINE :: nat where
  "REQUIRED_ELF_MACHINE = 0xB7"

definition elf_machine :: "bytes \<Rightarrow> nat option" where
  "elf_machine bs =
     (if length bs < 20 then None
      else if take 4 bs \<noteq> [0x7F, 0x45, 0x4C, 0x46] then None
      else
        (let a = unat (bs ! 18); b = unat (bs ! 19) in
         Some (if bs ! 5 = 1 then a + 256 * b else 256 * a + b)))"

datatype wrong_binary = OtherMachine nat | NotElf

definition not_aarch64 :: "bytes \<Rightarrow> wrong_binary option" where
  "not_aarch64 bs =
     (case elf_machine bs of
        None \<Rightarrow> Some NotElf
      | Some m \<Rightarrow> if m = REQUIRED_ELF_MACHINE then None else Some (OtherMachine m))"

definition require_aarch64 :: "bytes \<Rightarrow> wrong_binary + unit" where
  "require_aarch64 bs = (case not_aarch64 bs of None \<Rightarrow> Inr () | Some why \<Rightarrow> Inl why)"

section \<open>The policy\<close>

datatype verification = Attestation | Checksum

fun verification_as_str :: "verification \<Rightarrow> string" where
  "verification_as_str Attestation = ''attestation''"
| "verification_as_str Checksum = ''checksum''"

definition RELEASE_REPO :: string where "RELEASE_REPO = ''laithalsaadoon/microvms-agentd''"
definition ASSET :: string where "ASSET = ''agentd''"
definition CHECKSUMS :: string where "CHECKSUMS = ''SHA256SUMS''"
definition RELEASE_WORKFLOW :: string where "RELEASE_WORKFLOW = ''.github/workflows/release.yml''"
definition ACTIONS_ISSUER :: string where "ACTIONS_ISSUER = ''https://token.actions.githubusercontent.com''"
definition SLSA_PROVENANCE_V1 :: string where "SLSA_PROVENANCE_V1 = ''https://slsa.dev/provenance/v1''"

record signer =
  sg_identity :: string
  sg_issuer :: string
  sg_predicate_type :: string

definition signer_release :: "string \<Rightarrow> signer" where
  "signer_release tag =
     \<lparr>sg_identity = ''https://github.com/'' @ RELEASE_REPO @ ''/'' @ RELEASE_WORKFLOW @ ''@refs/tags/'' @ tag,
      sg_issuer = ACTIONS_ISSUER, sg_predicate_type = SLSA_PROVENANCE_V1\<rparr>"

text \<open>The reason of an answer is prose and is dropped.\<close>

datatype bundles = Published "string list" | Absent | Unreachable

record release_source =
  rs_asset :: "string \<Rightarrow> string \<Rightarrow> bytes option"
  rs_checksums :: "string \<Rightarrow> string option"
  rs_attestations :: "string \<Rightarrow> string \<Rightarrow> bundles"

type_synonym verifier = "string \<Rightarrow> bytes \<Rightarrow> signer \<Rightarrow> bool"

record fetched_binary =
  fb_bytes :: bytes
  fb_verification :: verification

datatype fetch_refusal =
    AssetNotDownloaded | AttestationRefused | AttestationAbsent | NoChecksums
  | NoChecksumEntry | ChecksumMismatch string string

fun trim_stars :: "string \<Rightarrow> string" where
  "trim_stars (c # s) = (if c = CHR ''*'' then trim_stars s else c # s)"
| "trim_stars [] = []"

definition checksum_line :: "string \<Rightarrow> string \<Rightarrow> string option" where
  "checksum_line asset line =
     (case split_whitespace line of
        digest # name # _ \<Rightarrow> if trim_stars name = asset then Some (map ascii_lower digest) else None
      | _ \<Rightarrow> None)"

definition verify_sha256 :: "(bytes \<Rightarrow> string) \<Rightarrow> string \<Rightarrow> string \<Rightarrow> bytes \<Rightarrow> fetch_refusal option" where
  "verify_sha256 sha256_hex listing asset bs =
     (case List.map_filter (checksum_line asset) (str_lines listing) of
        [] \<Rightarrow> Some NoChecksumEntry
      | expected # _ \<Rightarrow>
          if sha256_hex bs = expected then None else Some (ChecksumMismatch expected (sha256_hex bs)))"

text \<open>The loop over the bundles of a digest: the first that verifies is the proof.\<close>

fun any_bundle :: "verifier \<Rightarrow> bytes \<Rightarrow> signer \<Rightarrow> string list \<Rightarrow> bool" where
  "any_bundle verify bs sg [] = False"
| "any_bundle verify bs sg (b # rest) = (if verify b bs sg then True else any_bundle verify bs sg rest)"

definition fetch_release ::
  "(bytes \<Rightarrow> string) \<Rightarrow> release_source \<Rightarrow> verifier \<Rightarrow> string \<Rightarrow> fetch_refusal + fetched_binary" where
  "fetch_release sha256_hex src verify tag =
     (case rs_asset src tag ASSET of
        None \<Rightarrow> Inl AssetNotDownloaded
      | Some bs \<Rightarrow>
          (case rs_attestations src tag (sha256_hex bs) of
             Published [] \<Rightarrow> Inl AttestationAbsent
           | Published (b # rest) \<Rightarrow>
               if any_bundle verify bs (signer_release tag) (b # rest)
               then Inr \<lparr>fb_bytes = bs, fb_verification = Attestation\<rparr>
               else Inl AttestationRefused
           | Absent \<Rightarrow> Inl AttestationAbsent
           | Unreachable \<Rightarrow>
               (case rs_checksums src tag of
                  None \<Rightarrow> Inl NoChecksums
                | Some listing \<Rightarrow>
                    (case verify_sha256 sha256_hex listing ASSET bs of
                       Some e \<Rightarrow> Inl e
                     | None \<Rightarrow> Inr \<lparr>fb_bytes = bs, fb_verification = Checksum\<rparr>))))"

section \<open>The release on GitHub\<close>

definition BUNDLE_ASSET :: string where "BUNDLE_ASSET = ''agentd.sigstore.json''"
definition ASSET_LIMIT :: nat where "ASSET_LIMIT = 64 * 2 ^ 20"
definition SMALL_LIMIT :: nat where "SMALL_LIMIT = 2 ^ 20"
definition API_LIMIT :: nat where "API_LIMIT = 8 * 2 ^ 20"

text \<open>A request that returned no body: the status, when a response arrived.\<close>

type_synonym http_failure = "nat option"

definition failure_success :: "http_failure \<Rightarrow> bool" where
  "failure_success f = (case f of Some st \<Rightarrow> 200 \<le> st \<and> st < 300 | None \<Rightarrow> False)"

definition failure_not_found :: "http_failure \<Rightarrow> bool" where
  "failure_not_found f \<longleftrightarrow> f = Some 404"

type_synonym getter = "string \<Rightarrow> string option \<Rightarrow> nat \<Rightarrow> http_failure + bytes"

definition asset_url :: "string \<Rightarrow> string \<Rightarrow> string" where
  "asset_url tag asset = ''https://github.com/'' @ RELEASE_REPO @ ''/releases/download/'' @ tag @ ''/'' @ asset"

definition attestations_url :: "string \<Rightarrow> string" where
  "attestations_url sha = ''https://api.github.com/repos/'' @ RELEASE_REPO @ ''/attestations/sha256:'' @ sha"

text \<open>Indexing a JSON value by a key, \<open>Null\<close> where there is none.\<close>

definition json_at :: "json \<Rightarrow> string \<Rightarrow> json" where
  "json_at v k = (case v of JObject kvs \<Rightarrow> (case map_of kvs k of Some x \<Rightarrow> x | None \<Rightarrow> JNull) | _ \<Rightarrow> JNull)"

definition is_object :: "json \<Rightarrow> bool" where
  "is_object v = (case v of JObject _ \<Rightarrow> True | _ \<Rightarrow> False)"

definition parse_attestations ::
  "(bytes \<Rightarrow> json option) \<Rightarrow> (json \<Rightarrow> string) \<Rightarrow> bytes \<Rightarrow> string list option" where
  "parse_attestations json_from_slice json_to_string body =
     (case json_from_slice body of
        None \<Rightarrow> None
      | Some response \<Rightarrow>
          (case json_at response ''attestations'' of
             JArray listed \<Rightarrow>
               (let bs = [json_to_string (json_at a ''bundle''). a \<leftarrow> listed, is_object (json_at a ''bundle'')] in
                if bs = [] \<and> listed \<noteq> [] then None else Some bs)
           | _ \<Rightarrow> None))"

definition api_bundles ::
  "(bytes \<Rightarrow> json option) \<Rightarrow> (json \<Rightarrow> string) \<Rightarrow> string option \<Rightarrow> string \<Rightarrow> getter \<Rightarrow> http_failure + string list" where
  "api_bundles json_from_slice json_to_string token sha g =
     bind_r (g (attestations_url sha) token API_LIMIT) (\<lambda>body.
       ok_or (Some 200) (parse_attestations json_from_slice json_to_string body))"

definition lookup_bundles ::
  "(bytes \<Rightarrow> json option) \<Rightarrow> (json \<Rightarrow> string) \<Rightarrow> string option \<Rightarrow> string \<Rightarrow> string \<Rightarrow> getter \<Rightarrow> bundles" where
  "lookup_bundles json_from_slice json_to_string token tag sha g =
     (case g (asset_url tag BUNDLE_ASSET) None SMALL_LIMIT of
        Inr body \<Rightarrow> Published [string_of (utf8_lossy body)]
      | Inl asset_failure \<Rightarrow>
          if failure_success asset_failure then Absent
          else
            (case api_bundles json_from_slice json_to_string token sha g of
               Inr (b # bs) \<Rightarrow> Published (b # bs)
             | Inr [] \<Rightarrow> Absent
             | Inl f \<Rightarrow>
                 if failure_not_found asset_failure \<or> failure_not_found f \<or> failure_success f
                 then Absent else Unreachable))"

text \<open>
  \<open>Body\<close> and the loop of \<open>get\<close>: a response is its status, the length it declares and
  the chunks that arrive; a chunk that fails ends it.
\<close>

datatype chunk = Chunk bytes | ChunkFails

fun body_push :: "nat \<Rightarrow> nat \<Rightarrow> bytes \<Rightarrow> chunk list \<Rightarrow> http_failure + bytes" where
  "body_push status limit got [] = Inr got"
| "body_push status limit got (ChunkFails # cs) = Inl (Some status)"
| "body_push status limit got (Chunk c # cs) =
     (if limit - length got < length c then Inl (Some status)
      else body_push status limit (got @ c) cs)"

definition body_start :: "nat \<Rightarrow> nat option \<Rightarrow> nat \<Rightarrow> http_failure + bytes" where
  "body_start status declared limit =
     (if \<not> (200 \<le> status \<and> status < 300) then Inl (Some status)
      else if (case declared of Some n \<Rightarrow> limit < n | None \<Rightarrow> False) then Inl (Some status)
      else Inr [])"

datatype http_answer = NoResponse | Response nat "nat option" "chunk list"

definition http_get :: "(string \<Rightarrow> string option \<Rightarrow> http_answer) \<Rightarrow> getter" where
  "http_get net url token limit =
     (case net url token of
        NoResponse \<Rightarrow> Inl None
      | Response status declared chunks \<Rightarrow>
          bind_r (body_start status declared limit) (\<lambda>got. body_push status limit got chunks))"

definition github_release ::
  "(bytes \<Rightarrow> json option) \<Rightarrow> (json \<Rightarrow> string) \<Rightarrow> string option \<Rightarrow> getter \<Rightarrow> release_source" where
  "github_release json_from_slice json_to_string token g =
     \<lparr>rs_asset = (\<lambda>tag name. case g (asset_url tag name) None ASSET_LIMIT of Inr b \<Rightarrow> Some b | Inl _ \<Rightarrow> None),
      rs_checksums = (\<lambda>tag. case g (asset_url tag CHECKSUMS) None SMALL_LIMIT of
         Inr b \<Rightarrow> utf8_string b | Inl _ \<Rightarrow> None),
      rs_attestations = (\<lambda>tag sha. lookup_bundles json_from_slice json_to_string token tag sha g)\<rparr>"

section \<open>A release on disk\<close>

definition read_limited :: "bytes option \<Rightarrow> nat \<Rightarrow> bytes option" where
  "read_limited file limit =
     (case file of
        None \<Rightarrow> None
      | Some b \<Rightarrow> let got = take (limit + 1) b in if limit < length got then None else Some got)"

definition directory_release :: "(string \<Rightarrow> string \<Rightarrow> bytes option) \<Rightarrow> release_source" where
  "directory_release file =
     \<lparr>rs_asset = (\<lambda>tag name. read_limited (file tag name) ASSET_LIMIT),
      rs_checksums = (\<lambda>tag. Option.bind (read_limited (file tag CHECKSUMS) SMALL_LIMIT) utf8_string),
      rs_attestations = (\<lambda>tag sha.
         case read_limited (file tag BUNDLE_ASSET) SMALL_LIMIT of
           Some body \<Rightarrow> Published [string_of (utf8_lossy body)]
         | None \<Rightarrow> Absent)\<rparr>"

section \<open>What a fetch proves\<close>

lemma any_bundle_iff [simp]: "any_bundle v bs sg l \<longleftrightarrow> (\<exists>b \<in> set l. v b bs sg)"
  by (induction l) auto

text \<open>
  \<open>proven\<close>: what stands behind the bytes of a fetch, stated from the source and the verifier.
\<close>

definition proven :: "(bytes \<Rightarrow> string) \<Rightarrow> release_source \<Rightarrow> verifier \<Rightarrow> string \<Rightarrow> bytes \<Rightarrow> verification \<Rightarrow> bool" where
  "proven sha256_hex src verify tag bs how \<longleftrightarrow>
     rs_asset src tag ASSET = Some bs \<and>
     (case how of
        Attestation \<Rightarrow> (\<exists>l. rs_attestations src tag (sha256_hex bs) = Published l \<and>
                          (\<exists>b \<in> set l. verify b bs (signer_release tag)))
      | Checksum \<Rightarrow> rs_attestations src tag (sha256_hex bs) = Unreachable \<and>
                    (\<exists>listing. rs_checksums src tag = Some listing \<and> verify_sha256 sha256_hex listing ASSET bs = None))"

theorem fetch_release_exact:
  "fetch_release sha256_hex src verify tag = Inr \<lparr>fb_bytes = bs, fb_verification = how\<rparr>
     \<longleftrightarrow> proven sha256_hex src verify tag bs how"
  by (cases how) (auto simp: fetch_release_def proven_def split: option.splits bundles.splits list.splits)

lemma fetch_release_proven:
  "fetch_release sha256_hex src verify tag = Inr f
     \<Longrightarrow> proven sha256_hex src verify tag (fb_bytes f) (fb_verification f)"
  using fetch_release_exact [of sha256_hex src verify tag "fb_bytes f" "fb_verification f"] by simp

text \<open>
  The one case the checksum is consulted in: neither the bundle asset nor the API gave an answer. In
  particular an answered request never falls back to it, however its body reads.
\<close>

lemma unreachable_iff:
  "lookup_bundles jf js token tag sha g = Unreachable \<longleftrightarrow>
     (\<exists>f f'. g (asset_url tag BUNDLE_ASSET) None SMALL_LIMIT = Inl f \<and>
        g (attestations_url sha) token API_LIMIT = Inl f' \<and>
        \<not> failure_success f \<and> \<not> failure_not_found f \<and> \<not> failure_success f' \<and> \<not> failure_not_found f')"
  by (cases "g (asset_url tag BUNDLE_ASSET) None SMALL_LIMIT"; cases "g (attestations_url sha) token API_LIMIT")
     (auto simp: lookup_bundles_def api_bundles_def failure_success_def failure_not_found_def
       split: sum.splits list.splits option.splits)

lemma body_push_bound: "body_push st limit got cs = Inr b \<Longrightarrow> length got \<le> limit \<Longrightarrow> length b \<le> limit"
  by (induction st limit got cs rule: body_push.induct) (auto split: if_splits)

lemma body_push_whole: "body_push st limit got cs = Inr b \<Longrightarrow>
    \<exists>ds. cs = map Chunk ds \<and> b = got @ concat ds"
proof (induction st limit got cs rule: body_push.induct)
  case (3 st limit got c cs)
  then obtain ds where "cs = map Chunk ds" "b = (got @ c) @ concat ds" by (auto split: if_splits)
  then have "Chunk c # cs = map Chunk (c # ds) \<and> b = got @ concat (c # ds)" by simp
  then show ?case by (intro exI [of _ "c # ds"])
qed auto

lemma body_push_status: "body_push st limit got cs = Inl f \<Longrightarrow> f = Some st"
  by (induction st limit got cs rule: body_push.induct) (auto split: if_splits)

text \<open>
  A body is the whole body and within its limit; a response whose body is cut, too large, or declared
  so is an answer, told by its status.
\<close>

theorem http_get_exact:
  "http_get net url token limit = Inr b \<Longrightarrow>
     length b \<le> limit \<and> (\<exists>st d ds. net url token = Response st d (map Chunk ds) \<and> 200 \<le> st \<and> st < 300 \<and> b = concat ds)"
  "http_get net url token limit = Inl None \<longleftrightarrow> net url token = NoResponse"
proof -
  assume *: "http_get net url token limit = Inr b"
  then obtain st d cs where r: "net url token = Response st d cs" and st: "200 \<le> st" "st < 300"
    and b: "body_push st limit [] cs = Inr b"
    by (auto simp: http_get_def body_start_def bind_r_Inr split: http_answer.splits if_splits)
  from body_push_whole [OF b] body_push_bound [OF b] r st
  show "length b \<le> limit \<and> (\<exists>st d ds. net url token = Response st d (map Chunk ds) \<and> 200 \<le> st \<and> st < 300 \<and> b = concat ds)"
    by auto
next
  show "http_get net url token limit = Inl None \<longleftrightarrow> net url token = NoResponse"
    by (auto simp: http_get_def body_start_def bind_r_Inl split: http_answer.splits if_splits
        dest: body_push_status)
qed

text \<open>
  C27: A fetch over HTTPS proves its bytes by the release workflow's attestation for the requested tag
  whenever the release or the attestations API gave any answer about a bundle; it goes by the
  checksum only when neither did, and a release directory never does.
\<close>

theorem checksum_only_without_an_answer:
  assumes "fetch_release sha256_hex (github_release jf js token (http_get net)) verify tag = Inr f"
    and "fb_verification f = Checksum"
  shows "(\<forall>st d cs. net (asset_url tag BUNDLE_ASSET) None = Response st d cs
            \<longrightarrow> \<not> (200 \<le> st \<and> st < 300) \<and> st \<noteq> 404)
    \<and> (\<forall>st d cs. net (attestations_url (sha256_hex (fb_bytes f))) token = Response st d cs
            \<longrightarrow> \<not> (200 \<le> st \<and> st < 300) \<and> st \<noteq> 404)
    \<and> fetch_release sha256_hex (directory_release file) verify tag \<noteq> Inr f"
proof -
  have status: "http_get net url tok limit = Inl g \<Longrightarrow> net url tok = Response st d cs \<Longrightarrow> g = Some st"
    for url tok limit g st d cs
    by (auto simp: http_get_def body_start_def bind_r_Inl split: if_splits dest: body_push_status)
  from fetch_release_proven [OF assms(1)] assms(2)
  have "lookup_bundles jf js token tag (sha256_hex (fb_bytes f)) (http_get net) = Unreachable"
    by (simp add: proven_def github_release_def)
  then obtain g g' where "http_get net (asset_url tag BUNDLE_ASSET) None SMALL_LIMIT = Inl g"
      "http_get net (attestations_url (sha256_hex (fb_bytes f))) token API_LIMIT = Inl g'"
      "\<not> failure_success g" "\<not> failure_not_found g" "\<not> failure_success g'" "\<not> failure_not_found g'"
    by (auto simp: unreachable_iff)
  then have "\<forall>st d cs. net (asset_url tag BUNDLE_ASSET) None = Response st d cs
            \<longrightarrow> \<not> (200 \<le> st \<and> st < 300) \<and> st \<noteq> 404"
    and "\<forall>st d cs. net (attestations_url (sha256_hex (fb_bytes f))) token = Response st d cs
            \<longrightarrow> \<not> (200 \<le> st \<and> st < 300) \<and> st \<noteq> 404"
    by (auto simp: failure_success_def failure_not_found_def dest: status)
  moreover have "fetch_release sha256_hex (directory_release file) verify tag \<noteq> Inr f"
  proof
    assume "fetch_release sha256_hex (directory_release file) verify tag = Inr f"
    from fetch_release_proven [OF this] assms(2) show False
      by (auto simp: proven_def directory_release_def split: option.splits)
  qed
  ultimately show ?thesis by blast
qed

text \<open>A network that serves an asset and its listing, and answers nothing about bundles.\<close>

definition sample_net :: "string \<Rightarrow> string option \<Rightarrow> http_answer" where
  "sample_net url token =
     (if url = asset_url ''v1'' ASSET then Response 200 None [Chunk [1, 2]]
      else if url = asset_url ''v1'' CHECKSUMS then Response 200 None [Chunk (as_bytes ''ab agentd'')]
      else NoResponse)"

lemma sample_urls:
  "asset_url t CHECKSUMS \<noteq> asset_url t ASSET" "asset_url t BUNDLE_ASSET \<noteq> asset_url t ASSET"
  "asset_url t BUNDLE_ASSET \<noteq> asset_url t CHECKSUMS" "attestations_url h \<noteq> asset_url t n"
  by (simp_all add: asset_url_def attestations_url_def ASSET_def CHECKSUMS_def BUNDLE_ASSET_def)

lemma sample_get:
  "http_get sample_net (asset_url ''v1'' ASSET) None ASSET_LIMIT = Inr [1, 2]"
  "http_get sample_net (asset_url ''v1'' CHECKSUMS) None SMALL_LIMIT = Inr (as_bytes ''ab agentd'')"
  "http_get sample_net (asset_url ''v1'' BUNDLE_ASSET) None SMALL_LIMIT = Inl None"
  "http_get sample_net (attestations_url h) None API_LIMIT = Inl None"
  by (simp_all add: http_get_def sample_net_def sample_urls body_start_def ASSET_LIMIT_def SMALL_LIMIT_def)

lemma sample_listing: "verify_sha256 (\<lambda>_. ''ab'') ''ab agentd'' ASSET [1, 2] = None"
proof -
  have "split_whitespace ''ab agentd'' = [''ab'', ''agentd'']"
    by (simp add: split_whitespace_def split_ws.simps ws_len_def flush_def code_def)
  moreover have "str_lines ''ab agentd'' = [''ab agentd'']"
    by (simp add: str_lines_def LF_def)
  ultimately show ?thesis
    by (simp add: verify_sha256_def List.map_filter_simps checksum_line_def ASSET_def ascii_lower_def code_def)
qed

lemma sample_fetch:
  "fetch_release (\<lambda>_. ''ab'') (github_release (\<lambda>_. None) (\<lambda>_. []) None (http_get sample_net)) (\<lambda>_ _ _. False) ''v1''
     = Inr \<lparr>fb_bytes = [1, 2], fb_verification = Checksum\<rparr>"
proof -
  have "utf8_string (as_bytes ''ab agentd'') = Some ''ab agentd''"
  proof -
    have "\<forall>b \<in> set (as_bytes ''ab agentd''). b < 0x80" by (simp add: as_bytes_def)
    then show ?thesis by (simp add: utf8_string_def utf8_lossy_ascii)
  qed
  then show ?thesis
    by (simp add: fetch_release_exact proven_def github_release_def sample_get sample_listing lookup_bundles_def
        api_bundles_def failure_success_def failure_not_found_def)
qed

theorem checksum_only_without_an_answer_witness:
  "fetch_release (\<lambda>_. ''ab'') (directory_release (\<lambda>_ _. None)) (\<lambda>_ _ _. False) ''v1''
     \<noteq> Inr \<lparr>fb_bytes = [1, 2], fb_verification = Checksum\<rparr>"
  using checksum_only_without_an_answer [OF sample_fetch] by simp

end
