(* ===== verification/Provision.thy ===== *)
theory Provision
  imports ReleaseFetch NameRecords
begin

text \<open>
  Provisioning of the daemon binary, \<open>crates/microvms-edges/src/provision.rs\<close>: a caller's
  binary, the cache with its digest record, or a proven fetch. A path is its components. What the
  file system shows is given for each look of a call, so another process may change the cache between
  any two; what a call changes is the list of the renames that installed something, in order.
\<close>

section \<open>Versions, paths and records\<close>

datatype supplier = Argument | EnvVar

datatype bin_source = CallerSupplied supplier | FromCache verification | FetchedNow verification

fun bin_source_as_str :: "bin_source \<Rightarrow> string" where
  "bin_source_as_str (CallerSupplied _) = ''caller-supplied''"
| "bin_source_as_str (FromCache _) = ''cache''"
| "bin_source_as_str (FetchedNow _) = ''fetched''"

fun bin_source_verification :: "bin_source \<Rightarrow> verification option" where
  "bin_source_verification (CallerSupplied _) = None"
| "bin_source_verification (FromCache how) = Some how"
| "bin_source_verification (FetchedNow how) = Some how"

type_synonym path = "string list"

record provisioned =
  pv_bytes :: bytes
  pv_path :: path
  pv_source :: bin_source
  pv_version :: string
  pv_sha256 :: string

record bin_request =
  br_version :: "string option"
  br_state_dir :: "path option"
  br_binary :: "path option"

datatype failure =
    InvalidVersion | CallerBinary supplier | NotAarch64 | FetchFailed fetch_refusal | IoFailed

definition failure_kind :: "failure \<Rightarrow> error_kind" where
  "failure_kind f = (if f = InvalidVersion then InvalidArg else Precondition)"

definition MAX_VERSION_LEN :: nat where
  "MAX_VERSION_LEN = 64"

fun two_dots :: "string \<Rightarrow> bool" where
  "two_dots (a # b # s) \<longleftrightarrow> a = CHR ''.'' \<and> b = CHR ''.'' \<or> two_dots (b # s)"
| "two_dots _ \<longleftrightarrow> False"

definition plain_version :: "string \<Rightarrow> bool" where
  "plain_version v \<longleftrightarrow>
     v \<noteq> [] \<and> length v \<le> MAX_VERSION_LEN \<and> is_alnum (hd v) \<and> \<not> two_dots v \<and>
     list_all (\<lambda>c. is_alnum c \<or> c \<in> {CHR ''.'', CHR ''+'', CHR ''-''}) v"

definition strip_v :: "string \<Rightarrow> string" where
  "strip_v v = (case v of c # s \<Rightarrow> if c = CHR ''v'' then s else v | [] \<Rightarrow> v)"

definition normalize_version :: "string \<Rightarrow> failure + string" where
  "normalize_version v = (if plain_version (strip_v v) then Inr (strip_v v) else Inl InvalidVersion)"

definition RECORD :: string where "RECORD = ''agentd.verified.json''"
definition ENV_OVERRIDE :: string where "ENV_OVERRIDE = ''MICROVM_AGENTD''"

definition tag_of :: "string \<Rightarrow> string" where
  "tag_of v = CHR ''v'' # v"

definition cache_path :: "path \<Rightarrow> string \<Rightarrow> path" where
  "cache_path dir v = dir @ [''agentd'', tag_of v, ASSET]"

definition record_path :: "path \<Rightarrow> string \<Rightarrow> path" where
  "record_path dir v = dir @ [''agentd'', tag_of v, RECORD]"

text \<open>
  An object is read back by its keys, in any order. The codec of a record's body and the digest are one bundle of third-party functions: a JSON value to
  its text and back, and SHA-256 in lowercase hex.
\<close>

record tools =
  tl_to_text :: "json \<Rightarrow> string"
  tl_from_text :: "string \<Rightarrow> json option"
  tl_sha256 :: "bytes \<Rightarrow> string"

definition record_value :: "string \<Rightarrow> string \<Rightarrow> verification \<Rightarrow> json" where
  "record_value v sha how =
     JObject [(''version'', JString v), (''sha256'', JString sha),
              (''verification'', JString (verification_as_str how))]"

definition record_json :: "tools \<Rightarrow> string \<Rightarrow> string \<Rightarrow> verification \<Rightarrow> bytes" where
  "record_json t v sha how = as_bytes (tl_to_text t (record_value v sha how))"

definition parse_record :: "tools \<Rightarrow> string \<Rightarrow> string \<Rightarrow> string \<Rightarrow> verification option" where
  "parse_record t body v sha =
     (case tl_from_text t body of
        None \<Rightarrow> None
      | Some r \<Rightarrow>
          (case as_str (json_at r ''verification'') of
             None \<Rightarrow> None
           | Some written \<Rightarrow>
               List.find
                 (\<lambda>how. as_str (json_at r ''version'') = Some v \<and> as_str (json_at r ''sha256'') = Some sha \<and>
                    verification_as_str how = written)
                 [Attestation, Checksum]))"

section \<open>What a call sees and does\<close>

datatype file_read = Missing | Unreadable | Contents bytes

definition read_to_string :: "file_read \<Rightarrow> string option" where
  "read_to_string r = (case r of Contents b \<Rightarrow> utf8_string b | _ \<Rightarrow> None)"

text \<open>
  \<open>look n\<close> is what the call's n-th read of a path finds. The rest are the answers of the calls
  that make directories, temporary files and renames.
\<close>

record machine =
  mc_exists :: "path \<Rightarrow> bool"
  mc_look :: "nat \<Rightarrow> path \<Rightarrow> file_read"
  mc_env :: "string \<Rightarrow> string option"
  mc_state_root :: "path option"
  mc_create_dir :: bool
  mc_temp_download :: bool
  mc_temp_binary :: bool
  mc_write_binary :: bool
  mc_chmod :: bool
  mc_rename_binary :: bool
  mc_temp_record :: bool
  mc_write_record :: bool
  mc_rename_record :: bool

type_synonym installs = "(path \<times> bytes) list"

definition recorded :: "tools \<Rightarrow> machine \<Rightarrow> path \<Rightarrow> string \<Rightarrow> string \<Rightarrow> verification option" where
  "recorded t m dir v sha =
     (case read_to_string (mc_look m 1 (record_path dir v)) of
        None \<Rightarrow> None
      | Some body \<Rightarrow> parse_record t body v sha)"

definition installed_or_identical :: "bool \<Rightarrow> file_read \<Rightarrow> bytes \<Rightarrow> bool" where
  "installed_or_identical renamed present expected \<longleftrightarrow> renamed \<or> present = Contents expected"

definition caller_supplied :: "tools \<Rightarrow> machine \<Rightarrow> path \<Rightarrow> supplier \<Rightarrow> string \<Rightarrow> failure + provisioned" where
  "caller_supplied t m p who v =
     (if \<not> mc_exists m p then Inl (CallerBinary who)
      else
        (case mc_look m 0 p of
           Contents b \<Rightarrow>
             if not_aarch64 b \<noteq> None then Inl NotAarch64
             else Inr \<lparr>pv_bytes = b, pv_path = p, pv_source = CallerSupplied who, pv_version = v,
                        pv_sha256 = tl_sha256 t b\<rparr>
         | _ \<Rightarrow> Inl (CallerBinary who)))"

definition cache_hit :: "tools \<Rightarrow> machine \<Rightarrow> path \<Rightarrow> string \<Rightarrow> failure + provisioned option" where
  "cache_hit t m dir v =
     (case mc_look m 0 (cache_path dir v) of
        Missing \<Rightarrow> Inr None
      | Unreadable \<Rightarrow> Inl IoFailed
      | Contents b \<Rightarrow>
          (case recorded t m dir v (tl_sha256 t b) of
             Some how \<Rightarrow>
               if not_aarch64 b = None
               then Inr (Some \<lparr>pv_bytes = b, pv_path = cache_path dir v, pv_source = FromCache how,
                               pv_version = v, pv_sha256 = tl_sha256 t b\<rparr>)
               else Inr None
           | None \<Rightarrow> Inr None))"

text \<open>A rename that succeeded is the one change a step makes.\<close>

definition renamed :: "bool \<Rightarrow> path \<Rightarrow> bytes \<Rightarrow> installs" where
  "renamed ok p b = (if ok then [(p, b)] else [])"

definition record_install :: "tools \<Rightarrow> machine \<Rightarrow> path \<Rightarrow> string \<Rightarrow> fetched_binary \<Rightarrow> (failure + provisioned) \<times> installs" where
  "record_install t m dir v f =
     (let sha = tl_sha256 t (fb_bytes f);
          body = record_json t v sha (fb_verification f);
          done_record = renamed (mc_rename_record m) (record_path dir v) body in
      if \<not> (mc_temp_record m \<and> mc_write_record m) then (Inl IoFailed, [])
      else if \<not> installed_or_identical (mc_rename_record m) (mc_look m 3 (record_path dir v)) body
      then (Inl IoFailed, done_record)
      else
        (Inr \<lparr>pv_bytes = fb_bytes f, pv_path = cache_path dir v, pv_source = FetchedNow (fb_verification f),
              pv_version = v, pv_sha256 = sha\<rparr>, done_record))"

definition fetch_and_install ::
  "tools \<Rightarrow> machine \<Rightarrow> (string \<Rightarrow> fetch_refusal + fetched_binary) \<Rightarrow> path \<Rightarrow> string
   \<Rightarrow> (failure + provisioned) \<times> installs" where
  "fetch_and_install t m fetch dir v =
     (if \<not> (mc_create_dir m \<and> mc_temp_download m) then (Inl IoFailed, [])
      else
        (case fetch (tag_of v) of
           Inl e \<Rightarrow> (Inl (FetchFailed e), [])
         | Inr f \<Rightarrow>
             if not_aarch64 (fb_bytes f) \<noteq> None then (Inl NotAarch64, [])
             else if \<not> (mc_temp_binary m \<and> mc_write_binary m \<and> mc_chmod m) then (Inl IoFailed, [])
             else
               (let done_binary = renamed (mc_rename_binary m) (cache_path dir v) (fb_bytes f) in
                if \<not> installed_or_identical (mc_rename_binary m) (mc_look m 2 (cache_path dir v)) (fb_bytes f)
                then (Inl IoFailed, done_binary)
                else
                  (case record_install t m dir v f of
                     (r, more_installs) \<Rightarrow> (r, done_binary @ more_installs)))))"

definition path_of :: "string \<Rightarrow> path" where
  "path_of s = split_on (CHR ''/'') s"

definition supplied :: "machine \<Rightarrow> bin_request \<Rightarrow> (path \<times> supplier) option" where
  "supplied m req =
     (case br_binary req of
        Some p \<Rightarrow> Some (p, Argument)
      | None \<Rightarrow> map_option (\<lambda>s. (path_of s, EnvVar)) (mc_env m ENV_OVERRIDE))"

definition state_dir :: "machine \<Rightarrow> bin_request \<Rightarrow> path option" where
  "state_dir m req = (case br_state_dir req of Some d \<Rightarrow> Some d | None \<Rightarrow> mc_state_root m)"

definition from_cache_or_fetch ::
  "tools \<Rightarrow> machine \<Rightarrow> (string \<Rightarrow> fetch_refusal + fetched_binary) \<Rightarrow> path \<Rightarrow> string
   \<Rightarrow> (failure + provisioned) \<times> installs" where
  "from_cache_or_fetch t m fetch dir v =
     (case cache_hit t m dir v of
        Inl e \<Rightarrow> (Inl e, [])
      | Inr (Some hit) \<Rightarrow> (Inr hit, [])
      | Inr None \<Rightarrow> fetch_and_install t m fetch dir v)"

definition provision_resolve ::
  "tools \<Rightarrow> string \<Rightarrow> bin_request \<Rightarrow> machine \<Rightarrow> (string \<Rightarrow> fetch_refusal + fetched_binary)
   \<Rightarrow> (failure + provisioned) \<times> installs" where
  "provision_resolve t core_version req m fetch =
     (case normalize_version (case br_version req of Some v \<Rightarrow> v | None \<Rightarrow> core_version) of
        Inl e \<Rightarrow> (Inl e, [])
      | Inr v \<Rightarrow>
          (case supplied m req of
             Some (p, who) \<Rightarrow> (caller_supplied t m p who v, [])
           | None \<Rightarrow>
               (case state_dir m req of
                  None \<Rightarrow> (Inl IoFailed, [])
                | Some dir \<Rightarrow> from_cache_or_fetch t m fetch dir v)))"

section \<open>Paths\<close>

text \<open>A normalized version is one plain component: it names no other directory and no flag.\<close>

lemma plain_version_component:
  assumes "plain_version v"
  shows "CHR ''/'' \<notin> set v" "v \<noteq> ''..''" "v \<noteq> ''.''" "hd v \<noteq> CHR ''-''" "length v \<le> 64"
    and "\<forall>c \<in> set v. code c < 128"
  using assms
  by (auto simp: plain_version_def list_all_iff is_alnum_def is_lower_def is_digit_def code_def MAX_VERSION_LEN_def)

lemma normalize_version_Inr: "normalize_version v = Inr w \<longleftrightarrow> plain_version w \<and> w = strip_v v"
  by (auto simp: normalize_version_def)

lemma path_simps [simp]:
  "record_path d v = record_path d' v' \<longleftrightarrow> d = d' \<and> v = v'"
  "cache_path d v = cache_path d' v' \<longleftrightarrow> d = d' \<and> v = v'"
  "record_path d v \<noteq> cache_path d' v'" "cache_path d v \<noteq> record_path d' v'"
  by (auto simp: record_path_def cache_path_def tag_of_def RECORD_def ASSET_def)

definition tools_ok :: "tools \<Rightarrow> bool" where
  "tools_ok t \<longleftrightarrow>
     (\<forall>v bs how. plain_version v \<longrightarrow>
        utf8_string (record_json t v (tl_sha256 t bs) how) =
          Some (tl_to_text t (record_value v (tl_sha256 t bs) how)) \<and>
        (\<exists>r. tl_from_text t (tl_to_text t (record_value v (tl_sha256 t bs) how)) = Some r \<and>
           json_at r = json_at (record_value v (tl_sha256 t bs) how)))"

lemma parse_record_written:
  assumes "tools_ok t" and "plain_version w"
  shows "parse_record t (tl_to_text t (record_value w (tl_sha256 t bs) how)) v sha =
    (if v = w \<and> sha = tl_sha256 t bs then Some how else None)"
proof -
  from assms obtain r where "tl_from_text t (tl_to_text t (record_value w (tl_sha256 t bs) how)) = Some r"
    and r: "json_at r = json_at (record_value w (tl_sha256 t bs) how)"
    unfolding tools_ok_def by blast
  moreover have "json_at r ''version'' = JString w" "json_at r ''sha256'' = JString (tl_sha256 t bs)"
      "json_at r ''verification'' = JString (verification_as_str how)"
    by (simp_all add: r record_value_def json_at_def)
  ultimately show ?thesis by (cases how) (auto simp: parse_record_def)
qed

section \<open>The cache under any number of calls\<close>

type_synonym files = "path \<Rightarrow> bytes option"

text \<open>
  The histories of the cache: it starts with no digest record; any call of any client installs what it
  installs, whatever it saw and whenever it stops; and anything may happen to a file that is no
  record, and to a record but for new contents: a writer that replaces both the binary and its record
  is not caught, as the module's documentation says.
\<close>

definition is_record :: "path \<Rightarrow> bool" where
  "is_record p \<longleftrightarrow> (\<exists>d v. p = record_path d v)"

inductive cache_history :: "tools \<Rightarrow> verifier \<Rightarrow> files \<Rightarrow> bool" for t verify where
  unrecorded: "\<forall>d v. fs (record_path d v) = None \<Longrightarrow> cache_history t verify fs"
| installs: "cache_history t verify fs
    \<Longrightarrow> (p, b) \<in> set (snd (provision_resolve t core req m (fetch_release (tl_sha256 t) src verify)))
    \<Longrightarrow> cache_history t verify (fs(p \<mapsto> b))"
| tampers: "cache_history t verify fs \<Longrightarrow> \<not> is_record p \<Longrightarrow> cache_history t verify (fs(p := x))"
| forgets: "cache_history t verify fs \<Longrightarrow> cache_history t verify (fs(p := None))"

text \<open>A record vouches for bytes some fetch of its version proved.\<close>

definition vouched :: "tools \<Rightarrow> verifier \<Rightarrow> string \<Rightarrow> bytes \<Rightarrow> verification \<Rightarrow> bool" where
  "vouched t verify v bs how \<longleftrightarrow>
     plain_version v \<and> not_aarch64 bs = None \<and> (\<exists>src. proven (tl_sha256 t) src verify (tag_of v) bs how)"

definition records_vouch :: "tools \<Rightarrow> verifier \<Rightarrow> files \<Rightarrow> bool" where
  "records_vouch t verify fs \<longleftrightarrow>
     (\<forall>d v b. fs (record_path d v) = Some b \<longrightarrow>
        (\<exists>bs how. vouched t verify v bs how \<and> b = record_json t v (tl_sha256 t bs) how))"

lemma fetch_and_install_installs:
  assumes "(p, b) \<in> set (snd (fetch_and_install t m (fetch_release (tl_sha256 t) src verify) dir v))"
    and "plain_version v"
  shows "\<exists>bs how. vouched t verify v bs how \<and>
    ((p = cache_path dir v \<and> b = bs) \<or> (p = record_path dir v \<and> b = record_json t v (tl_sha256 t bs) how))"
proof -
  from assms(1) obtain f where f: "fetch_release (tl_sha256 t) src verify (tag_of v) = Inr f"
      "not_aarch64 (fb_bytes f) = None"
    and at: "p = cache_path dir v \<and> b = fb_bytes f \<or>
      p = record_path dir v \<and> b = record_json t v (tl_sha256 t (fb_bytes f)) (fb_verification f)"
    by (auto simp: fetch_and_install_def record_install_def renamed_def Let_def split: if_splits sum.splits)
  from fetch_release_proven [OF f(1)] f(2) assms(2) have "vouched t verify v (fb_bytes f) (fb_verification f)"
    by (auto simp: vouched_def)
  with at show ?thesis by blast
qed

lemma provision_installs:
  assumes "(p, b) \<in> set (snd (provision_resolve t core req m (fetch_release (tl_sha256 t) src verify)))"
  shows "\<exists>dir v bs how. vouched t verify v bs how \<and>
    ((p = cache_path dir v \<and> b = bs) \<or> (p = record_path dir v \<and> b = record_json t v (tl_sha256 t bs) how))"
proof -
  from assms obtain v dir where "plain_version v"
      "(p, b) \<in> set (snd (fetch_and_install t m (fetch_release (tl_sha256 t) src verify) dir v))"
    by (auto simp: provision_resolve_def from_cache_or_fetch_def normalize_version_Inr
        split: sum.splits option.splits)
  from fetch_and_install_installs [OF this(2,1)] show ?thesis by blast
qed

lemma history_records_vouch: "cache_history t verify fs \<Longrightarrow> records_vouch t verify fs"
proof (induction rule: cache_history.induct)
  case (installs fs p b core req m src)
  from provision_installs [OF installs.hyps(2)] installs.IH show ?case
    by (fastforce simp: records_vouch_def)
qed (auto simp: records_vouch_def is_record_def)

text \<open>
  C26: Whatever any number of clients install, change or delete around it, short of writing a digest
  record of their own making, a call serves only an
  aarch64 binary that is the caller's own, or whose very bytes this call's fetch proved, or whose
  digest is that of bytes a fetch of the requested version proved when the cache entry was made.
\<close>

theorem provision_serves_only_proven:
  assumes "tools_ok t"
    and "fst (provision_resolve t core req m (fetch_release (tl_sha256 t) src verify)) = Inr p"
    and "cache_history t verify fs"
    and "\<forall>q b. mc_look m 1 q = Contents b \<longrightarrow> fs q = Some b"
  shows "not_aarch64 (pv_bytes p) = None \<and> pv_sha256 p = tl_sha256 t (pv_bytes p) \<and>
    plain_version (pv_version p) \<and>
    (case pv_source p of
       CallerSupplied who \<Rightarrow> supplied m req = Some (pv_path p, who) \<and> mc_look m 0 (pv_path p) = Contents (pv_bytes p)
     | FetchedNow how \<Rightarrow>
         supplied m req = None \<and> proven (tl_sha256 t) src verify (tag_of (pv_version p)) (pv_bytes p) how
     | FromCache how \<Rightarrow> supplied m req = None \<and>
         (\<exists>bs. vouched t verify (pv_version p) bs how \<and> tl_sha256 t bs = pv_sha256 p))"
proof -
  from assms(2) obtain v where v: "plain_version v" and
    cases: "(\<exists>q who. supplied m req = Some (q, who) \<and> caller_supplied t m q who v = Inr p) \<or>
     supplied m req = None \<and> (\<exists>dir.
       cache_hit t m dir v = Inr (Some p) \<or>
       fst (fetch_and_install t m (fetch_release (tl_sha256 t) src verify) dir v) = Inr p)"
    by (auto simp: provision_resolve_def from_cache_or_fetch_def normalize_version_Inr
        split: sum.splits option.splits)
  from cases consider
      (caller) q who where "supplied m req = Some (q, who)" "caller_supplied t m q who v = Inr p"
    | (cache) dir where "supplied m req = None" "cache_hit t m dir v = Inr (Some p)"
    | (fetch) dir where "supplied m req = None"
        "fst (fetch_and_install t m (fetch_release (tl_sha256 t) src verify) dir v) = Inr p"
    by blast
  then show ?thesis
  proof cases
    case caller
    then show ?thesis using v by (auto simp: caller_supplied_def split: if_splits file_read.splits)
  next
    case cache
    then obtain b how where hit: "recorded t m dir v (tl_sha256 t b) = Some how" "not_aarch64 b = None"
        "p = \<lparr>pv_bytes = b, pv_path = cache_path dir v, pv_source = FromCache how, pv_version = v,
              pv_sha256 = tl_sha256 t b\<rparr>"
      by (auto simp: cache_hit_def split: file_read.splits option.splits if_splits)
    then obtain c body where "mc_look m 1 (record_path dir v) = Contents c" and body: "utf8_string c = Some body"
        "parse_record t body v (tl_sha256 t b) = Some how"
      by (auto simp: recorded_def read_to_string_def split: file_read.splits option.splits)
    then have "fs (record_path dir v) = Some c" using assms(4) by blast
    with history_records_vouch [OF assms(3)] obtain bs how' where
      vouch: "vouched t verify v bs how'" and c: "c = record_json t v (tl_sha256 t bs) how'"
      unfolding records_vouch_def by blast
    have "utf8_string c = Some (tl_to_text t (record_value v (tl_sha256 t bs) how'))"
      using assms(1) v by (simp add: c tools_ok_def)
    with body parse_record_written [OF assms(1) v] have "tl_sha256 t b = tl_sha256 t bs" "how = how'"
      by (auto split: if_splits)
    with hit vouch v cache show ?thesis by auto
  next
    case fetch
    then obtain f where "fetch_release (tl_sha256 t) src verify (tag_of v) = Inr f"
        "not_aarch64 (fb_bytes f) = None" and
        p: "p = \<lparr>pv_bytes = fb_bytes f, pv_path = cache_path dir v, pv_source = FetchedNow (fb_verification f),
              pv_version = v, pv_sha256 = tl_sha256 t (fb_bytes f)\<rparr>"
      by (auto simp: fetch_and_install_def record_install_def Let_def split: if_splits sum.splits)
    with fetch_release_proven [of "tl_sha256 t" src verify "tag_of v" f] v fetch show ?thesis by simp
  qed
qed

section \<open>A proven binary is fetched once\<close>

definition apply_installs :: "installs \<Rightarrow> files \<Rightarrow> files" where
  "apply_installs ws fs = fold (\<lambda>(p, b) fs. fs(p \<mapsto> b)) ws fs"

definition seen :: "files \<Rightarrow> path \<Rightarrow> file_read" where
  "seen fs p = (case fs p of Some b \<Rightarrow> Contents b | None \<Rightarrow> Missing)"

text \<open>
  A fetch that succeeds leaves the cache so that a later call for the same version, with the files as
  the first left them, is answered from it with the same bytes and the same proof, without a fetch.
\<close>

theorem fetched_then_cached:
  assumes "tools_ok t" and "fetch_and_install t m fetch dir v = (Inr p, ws)" and "plain_version v"
    and "mc_rename_binary m" and "mc_rename_record m"
    and "\<forall>n. mc_look m' n = seen (apply_installs ws fs)"
  shows "\<exists>how. pv_source p = FetchedNow how \<and>
    from_cache_or_fetch t m' fetch' dir v = (Inr (p\<lparr>pv_source := FromCache how\<rparr>), [])"
proof -
  from assms(2) obtain f where "fetch (tag_of v) = Inr f"
    by (auto simp: fetch_and_install_def split: if_splits sum.splits)
  with assms(2,4,5) have f: "not_aarch64 (fb_bytes f) = None"
    and p: "p = \<lparr>pv_bytes = fb_bytes f, pv_path = cache_path dir v, pv_source = FetchedNow (fb_verification f),
              pv_version = v, pv_sha256 = tl_sha256 t (fb_bytes f)\<rparr>"
    and ws: "ws = [(cache_path dir v, fb_bytes f),
              (record_path dir v, record_json t v (tl_sha256 t (fb_bytes f)) (fb_verification f))]"
    by (auto simp: fetch_and_install_def record_install_def renamed_def installed_or_identical_def Let_def
        split: if_splits sum.splits)
  have "mc_look m' 0 (cache_path dir v) = Contents (fb_bytes f)"
    by (simp add: assms(6) ws seen_def apply_installs_def)
  moreover have "recorded t m' dir v (tl_sha256 t (fb_bytes f)) = Some (fb_verification f)"
  proof -
    have "mc_look m' 1 (record_path dir v) =
        Contents (record_json t v (tl_sha256 t (fb_bytes f)) (fb_verification f))"
      by (simp add: assms(6) ws seen_def apply_installs_def)
    then show ?thesis
      using assms(1,3) parse_record_written [OF assms(1,3)]
      by (simp add: recorded_def read_to_string_def tools_ok_def)
  qed
  ultimately show ?thesis by (simp add: from_cache_or_fetch_def cache_hit_def f p)
qed

text \<open>Whatever stops a call, what it installed is a prefix of the binary and then its record.\<close>

lemma installs_in_order:
  "\<exists>b r. snd (fetch_and_install t m fetch dir v) = [] \<or>
     snd (fetch_and_install t m fetch dir v) = [(cache_path dir v, b)] \<or>
     snd (fetch_and_install t m fetch dir v) = [(record_path dir v, r)] \<and> \<not> mc_rename_binary m \<or>
     snd (fetch_and_install t m fetch dir v) = [(cache_path dir v, b), (record_path dir v, r)]"
  by (auto simp: fetch_and_install_def record_install_def renamed_def Let_def split: sum.splits)

section \<open>A call that fetches\<close>

definition sample_elf :: bytes where
  "sample_elf = [0x7F, 0x45, 0x4C, 0x46, 0, 1, 0, 0, 0, 0, 0, 0, 0, 0, 0, 0, 0, 0, 0xB7, 0]"

lemma sample_elf_ok: "not_aarch64 sample_elf = None"
  by (simp add: sample_elf_def not_aarch64_def elf_machine_def REQUIRED_ELF_MACHINE_def Let_def)

definition BLANK :: char where "BLANK = CHR '' ''"

fun sample_text :: "json \<Rightarrow> string" where
  "sample_text (JObject [(_, JString v), (_, JString h), (_, JString w)]) = v @ BLANK # h @ BLANK # w"
| "sample_text _ = []"

definition sample_parse :: "string \<Rightarrow> json option" where
  "sample_parse s =
     (case split_on BLANK s of
        [v, h, w] \<Rightarrow> Some (JObject [(''version'', JString v), (''sha256'', JString h), (''verification'', JString w)])
      | _ \<Rightarrow> None)"

definition sample_tools :: tools where
  "sample_tools = \<lparr>tl_to_text = sample_text, tl_from_text = sample_parse, tl_sha256 = (\<lambda>_. ''ab'')\<rparr>"

lemma ascii_text: "\<forall>c \<in> set s. code c < 128 \<Longrightarrow> utf8_string (as_bytes s) = Some s"
proof -
  assume ascii: "\<forall>c \<in> set s. code c < 128"
  have "(of_char c :: byte) < 0x80" if "code c < 128" for c
  proof -
    have "(of_char c :: byte) = of_nat (code c)" by (simp only: code_def of_nat_of_char)
    with that show ?thesis by (simp add: word_less_nat_alt unat_of_nat)
  qed
  with ascii have "\<forall>b \<in> set (as_bytes s). b < 0x80" by (auto simp: as_bytes_def)
  then show ?thesis by (simp add: utf8_string_def utf8_lossy_ascii)
qed

lemma sample_tools_ok: "tools_ok sample_tools"
  unfolding tools_ok_def
proof (intro allI impI conjI)
  fix v bs how
  assume v: "plain_version v"
  let ?text = "v @ BLANK # ''ab'' @ BLANK # verification_as_str how"
  have body: "tl_to_text sample_tools (record_value v (tl_sha256 sample_tools bs) how) = ?text"
    by (simp add: sample_tools_def record_value_def)
  have w: "\<forall>c \<in> set (verification_as_str how). code c < 128 \<and> c \<noteq> BLANK"
    by (cases how) (simp_all add: code_def BLANK_def)
  have "\<forall>c \<in> set ?text. code c < 128"
    using plain_version_component(6) [OF v] w by (auto simp: BLANK_def code_def)
  then show "utf8_string (record_json sample_tools v (tl_sha256 sample_tools bs) how) =
      Some (tl_to_text sample_tools (record_value v (tl_sha256 sample_tools bs) how))"
    unfolding record_json_def body by (rule ascii_text)
  have "BLANK \<notin> set v"
    using v by (auto simp: plain_version_def list_all_iff is_alnum_def is_lower_def is_digit_def code_def BLANK_def)
  moreover have "BLANK \<notin> set ''ab''" by (simp add: BLANK_def)
  ultimately have "split_on BLANK ?text = [v, ''ab'', verification_as_str how]"
    using split_on_append_sep [of BLANK v "''ab'' @ BLANK # verification_as_str how"]
      split_on_append_sep [of BLANK "''ab''" "verification_as_str how"] w
      split_on_no_sep [of BLANK "verification_as_str how"] by auto
  then show "\<exists>r. tl_from_text sample_tools (tl_to_text sample_tools (record_value v (tl_sha256 sample_tools bs) how)) =
        Some r \<and> json_at r = json_at (record_value v (tl_sha256 sample_tools bs) how)"
    unfolding body by (simp add: sample_tools_def sample_parse_def record_value_def)
qed

definition sample_source :: release_source where
  "sample_source = \<lparr>rs_asset = (\<lambda>_ _. Some sample_elf), rs_checksums = (\<lambda>_. None),
     rs_attestations = (\<lambda>_ _. Published [''bundle''])\<rparr>"

definition sample_machine :: machine where
  "sample_machine = \<lparr>mc_exists = (\<lambda>_. False), mc_look = (\<lambda>_ _. Missing), mc_env = Map.empty,
     mc_state_root = Some [''state''], mc_create_dir = True, mc_temp_download = True, mc_temp_binary = True,
     mc_write_binary = True, mc_chmod = True, mc_rename_binary = True, mc_temp_record = True,
     mc_write_record = True, mc_rename_record = True\<rparr>"

definition sample_request :: bin_request where
  "sample_request = \<lparr>br_version = Some ''v1.2'', br_state_dir = None, br_binary = None\<rparr>"

definition sample_provisioned :: provisioned where
  "sample_provisioned = \<lparr>pv_bytes = sample_elf, pv_path = cache_path [''state''] ''1.2'',
     pv_source = FetchedNow Attestation, pv_version = ''1.2'', pv_sha256 = ''ab''\<rparr>"

lemma sample_call:
  "fst (provision_resolve sample_tools ''1'' sample_request sample_machine
     (fetch_release (tl_sha256 sample_tools) sample_source (\<lambda>_ _ _. True))) = Inr sample_provisioned"
proof -
  have "normalize_version ''v1.2'' = Inr ''1.2''"
    by (simp add: normalize_version_def strip_v_def plain_version_def is_alnum_def is_lower_def is_digit_def
        code_def MAX_VERSION_LEN_def)
  moreover have "fetch_release (tl_sha256 sample_tools) sample_source (\<lambda>_ _ _. True) (tag_of ''1.2'') =
      Inr \<lparr>fb_bytes = sample_elf, fb_verification = Attestation\<rparr>"
    by (simp add: fetch_release_exact proven_def sample_source_def)
  ultimately show ?thesis
    by (simp add: provision_resolve_def sample_request_def supplied_def sample_machine_def state_dir_def
        from_cache_or_fetch_def cache_hit_def fetch_and_install_def sample_elf_ok record_install_def Let_def
        installed_or_identical_def sample_provisioned_def sample_tools_def)
qed

theorem provision_serves_only_proven_witness:
  "proven (tl_sha256 sample_tools) sample_source (\<lambda>_ _ _. True) (tag_of ''1.2'') sample_elf Attestation"
proof -
  have "cache_history sample_tools (\<lambda>_ _ _. True) Map.empty" by (rule cache_history.unrecorded) simp
  moreover have "\<forall>q b. mc_look sample_machine 1 q = Contents b \<longrightarrow> Map.empty q = Some b"
    by (simp add: sample_machine_def)
  ultimately show ?thesis
    using provision_serves_only_proven [OF sample_tools_ok sample_call]
    by (fastforce simp: sample_provisioned_def)
qed

end
