(* ===== verification/ModelProvision.thy ===== *)
theory ModelProvision
  imports Prelude
begin

text \<open>
  The specification machine of provisioning, \<open>crates/model/src/provision.rs\<close>: the policy, the
  five it rejects, a machine's cache across requests, and its always properties, for any number of
  versions, requests and changes behind the client's back.
\<close>

section \<open>The world of one fetch\<close>

definition CORE_VERSION :: nat where
  "CORE_VERSION = 0"

datatype wanted = WantedDefault | WantedVersion nat

fun wanted_resolve :: "wanted \<Rightarrow> nat" where
  "wanted_resolve WantedDefault = CORE_VERSION"
| "wanted_resolve (WantedVersion v) = v"

datatype supplied_bin = SuppliedNothing | SuppliedArm | SuppliedNotArm | SuppliedMissing

datatype gh = GhUnavailable | GhAttested | GhUnattested

datatype curl = CurlFails | CurlNoSums | CurlSumsMatch | CurlSumsMismatch

record release =
  rl_gh :: gh
  rl_curl :: curl
  rl_arm :: bool

datatype verdict = VAttestation | VChecksum | VUnverified | VRefused

datatype prov_refusal = MissingBinary | RefusedNotArm | RefusedUnverified

datatype prov_source = ServedCaller | ServedCache | ServedFetched

record served =
  sv_source :: prov_source
  sv_version :: nat
  sv_arm :: bool
  sv_verified :: bool
  sv_attestation_failed :: bool
  sv_matches_record :: bool
  sv_checksum :: bool

datatype prov_outcome = ServedWith served | RefusedWith prov_refusal | Crashed

record prov_entry =
  en_version :: nat
  en_arm :: bool
  en_verified :: bool
  en_recorded :: bool
  en_intact :: bool
  en_attestation_failed :: bool

definition trusted :: "prov_entry \<Rightarrow> bool" where
  "trusted e \<longleftrightarrow> en_recorded e \<and> en_intact e"

datatype prov_phase = ProvIdle | Fetching nat | Downloaded nat release

datatype prov_behavior =
    ProvSpecified | ProvToday | Unversioned | LaunderAttestation | CacheBeforeVerify | WarnOnUnverified

definition verify_curl :: "prov_behavior \<Rightarrow> curl \<Rightarrow> verdict" where
  "verify_curl b c =
     (case c of
        CurlSumsMatch \<Rightarrow> VChecksum
      | CurlNoSums \<Rightarrow> if b = WarnOnUnverified then VUnverified else VRefused
      | _ \<Rightarrow> VRefused)"

definition prov_verify :: "prov_behavior \<Rightarrow> release \<Rightarrow> verdict" where
  "prov_verify b r =
     (case rl_gh r of
        GhAttested \<Rightarrow> VAttestation
      | GhUnattested \<Rightarrow> if b = LaunderAttestation then verify_curl b (rl_curl r) else VRefused
      | GhUnavailable \<Rightarrow> verify_curl b (rl_curl r))"

section \<open>The machine\<close>

text \<open>\<open>pg_versions\<close> is the constant \<open>VERSIONS\<close>, 2 in the source.\<close>

record prov_config =
  pg_behavior :: prov_behavior
  pg_max_requests :: nat
  pg_max_tampers :: nat
  pg_versions :: nat

record prov_state =
  ps_cache :: "prov_entry option list"
  ps_phase :: prov_phase
  ps_requests :: nat
  ps_tampers :: nat
  ps_request :: "(wanted \<times> supplied_bin) option"
  ps_outcome :: "prov_outcome option"
  ps_discarded :: bool
  ps_over_trusted :: bool

datatype prov_action =
    Request wanted supplied_bin | Download release | Verify | Crash | Tamper nat

definition prov_slot :: "prov_config \<Rightarrow> nat \<Rightarrow> nat" where
  "prov_slot cfg v = (if pg_behavior cfg = Unversioned then 0 else v)"

definition prov_empty :: "prov_config \<Rightarrow> prov_state" where
  "prov_empty cfg =
     \<lparr>ps_cache = replicate (pg_versions cfg) None, ps_phase = ProvIdle, ps_requests = 0, ps_tampers = 0,
      ps_request = None, ps_outcome = None, ps_discarded = False, ps_over_trusted = False\<rparr>"

definition prov_legacy :: "prov_config \<Rightarrow> prov_state" where
  "prov_legacy cfg =
     (prov_empty cfg)\<lparr>ps_cache := (replicate (pg_versions cfg) None)[CORE_VERSION :=
        Some \<lparr>en_version = CORE_VERSION, en_arm = True, en_verified = True, en_recorded = False,
              en_intact = True, en_attestation_failed = False\<rparr>]\<rparr>"

definition prov_init_states :: "prov_config \<Rightarrow> prov_state list" where
  "prov_init_states cfg = [prov_empty cfg, prov_legacy cfg]"

definition caller_outcome :: "prov_behavior \<Rightarrow> nat \<Rightarrow> supplied_bin \<Rightarrow> prov_outcome option" where
  "caller_outcome b v bin =
     (if bin = SuppliedNothing then None
      else if bin = SuppliedMissing then Some (RefusedWith MissingBinary)
      else if bin = SuppliedNotArm \<and> b \<noteq> ProvToday then Some (RefusedWith RefusedNotArm)
      else Some (ServedWith \<lparr>sv_source = ServedCaller, sv_version = v, sv_arm = (bin = SuppliedArm),
             sv_verified = False, sv_attestation_failed = False, sv_matches_record = False,
             sv_checksum = False\<rparr>))"

definition served_from :: "prov_entry \<Rightarrow> served" where
  "served_from e =
     \<lparr>sv_source = ServedCache, sv_version = en_version e, sv_arm = en_arm e, sv_verified = en_verified e,
      sv_attestation_failed = en_attestation_failed e, sv_matches_record = trusted e, sv_checksum = False\<rparr>"

definition serves :: "prov_behavior \<Rightarrow> prov_entry \<Rightarrow> bool" where
  "serves b e \<longleftrightarrow> b = ProvToday \<or> b = Unversioned \<or> trusted e"

definition trusted_for :: "nat \<Rightarrow> prov_entry option \<Rightarrow> bool" where
  "trusted_for v e = (case e of Some e \<Rightarrow> en_version e = v \<and> trusted e | None \<Rightarrow> False)"

definition start_fetch :: "nat \<Rightarrow> prov_state \<Rightarrow> prov_state" where
  "start_fetch v s = s\<lparr>ps_over_trusted := trusted_for v (ps_cache s ! v), ps_phase := Fetching v\<rparr>"

definition prov_request :: "prov_config \<Rightarrow> prov_state \<Rightarrow> wanted \<Rightarrow> supplied_bin \<Rightarrow> prov_state" where
  "prov_request cfg s w bin =
     (let v = wanted_resolve w; slot = prov_slot cfg v;
          s0 = s\<lparr>ps_request := Some (w, bin), ps_outcome := None, ps_discarded := False,
                 ps_over_trusted := False, ps_requests := ps_requests s + 1\<rparr> in
      case caller_outcome (pg_behavior cfg) v bin of
        Some oc \<Rightarrow> s0\<lparr>ps_outcome := Some oc\<rparr>
      | None \<Rightarrow>
          (case ps_cache s0 ! slot of
             Some e \<Rightarrow>
               if serves (pg_behavior cfg) e then s0\<lparr>ps_outcome := Some (ServedWith (served_from e))\<rparr>
               else start_fetch v (s0\<lparr>ps_cache := (ps_cache s0)[slot := None], ps_discarded := True\<rparr>)
           | None \<Rightarrow> start_fetch v s0))"

definition fetch_refusal_of :: "verdict \<Rightarrow> bool \<Rightarrow> prov_refusal option" where
  "fetch_refusal_of verdict arm =
     (if verdict = VRefused then Some RefusedUnverified else if \<not> arm then Some RefusedNotArm else None)"

definition prov_verified :: "prov_config \<Rightarrow> prov_state \<Rightarrow> nat \<Rightarrow> release \<Rightarrow> prov_state" where
  "prov_verified cfg s v r =
     (let verdict = prov_verify (pg_behavior cfg) r; s0 = s\<lparr>ps_phase := ProvIdle\<rparr> in
      case fetch_refusal_of verdict (rl_arm r) of
        Some why \<Rightarrow> s0\<lparr>ps_outcome := Some (RefusedWith why)\<rparr>
      | None \<Rightarrow>
          (let e = \<lparr>en_version = v, en_arm = rl_arm r, en_verified = (verdict \<noteq> VUnverified),
                    en_recorded = True, en_intact = True, en_attestation_failed = (rl_gh r = GhUnattested)\<rparr> in
           s0\<lparr>ps_cache := (ps_cache s)[prov_slot cfg v := Some e],
              ps_outcome := Some (ServedWith \<lparr>sv_source = ServedFetched, sv_version = v, sv_arm = en_arm e,
                sv_verified = en_verified e, sv_attestation_failed = en_attestation_failed e,
                sv_matches_record = True, sv_checksum = (verdict = VChecksum)\<rparr>)\<rparr>))"

definition RELEASES :: "release list" where
  "RELEASES =
     [\<lparr>rl_gh = g, rl_curl = c, rl_arm = a\<rparr>. g \<leftarrow> [GhUnavailable, GhAttested, GhUnattested],
        c \<leftarrow> [CurlFails, CurlNoSums, CurlSumsMatch, CurlSumsMismatch], a \<leftarrow> [True, False]]"

definition intact_at :: "prov_state \<Rightarrow> nat \<Rightarrow> bool" where
  "intact_at s i = (case ps_cache s ! i of Some e \<Rightarrow> en_intact e | None \<Rightarrow> False)"

definition prov_actions :: "prov_config \<Rightarrow> prov_state \<Rightarrow> prov_action list" where
  "prov_actions cfg s =
     (case ps_phase s of
        ProvIdle \<Rightarrow>
          (if ps_requests s < pg_max_requests cfg
           then map (Request WantedDefault) [SuppliedNothing, SuppliedArm, SuppliedNotArm, SuppliedMissing] @
                map (\<lambda>v. Request (WantedVersion v) SuppliedNothing) [0..<pg_versions cfg]
           else []) @
          (if ps_tampers s < pg_max_tampers cfg
           then map Tamper (filter (intact_at s) [0..<pg_versions cfg]) else [])
      | Fetching _ \<Rightarrow> map Download RELEASES
      | Downloaded _ _ \<Rightarrow> [Verify, Crash])"

definition prov_apply :: "prov_config \<Rightarrow> prov_state \<Rightarrow> prov_action \<Rightarrow> prov_state option" where
  "prov_apply cfg s a =
     (case a of
        Request w bin \<Rightarrow> Some (prov_request cfg s w bin)
      | Download r \<Rightarrow>
          (case ps_phase s of
             Fetching v \<Rightarrow>
               (let t = s\<lparr>ps_phase := Downloaded v r\<rparr> in
                Some (if pg_behavior cfg = CacheBeforeVerify
                  then t\<lparr>ps_cache := (ps_cache s)[v := Some \<lparr>en_version = v, en_arm = rl_arm r,
                    en_verified = False, en_recorded = True, en_intact = True,
                    en_attestation_failed = (rl_gh r = GhUnattested)\<rparr>]\<rparr>
                  else t))
           | _ \<Rightarrow> None)
      | Verify \<Rightarrow> (case ps_phase s of Downloaded v r \<Rightarrow> Some (prov_verified cfg s v r) | _ \<Rightarrow> None)
      | Crash \<Rightarrow> Some (s\<lparr>ps_phase := ProvIdle, ps_outcome := Some Crashed\<rparr>)
      | Tamper i \<Rightarrow>
          (case ps_cache s ! i of
             None \<Rightarrow> None
           | Some e \<Rightarrow> Some (s\<lparr>ps_cache := (ps_cache s)[i := Some (e\<lparr>en_intact := False\<rparr>)],
                              ps_tampers := ps_tampers s + 1\<rparr>)))"

definition prov_next :: "prov_config \<Rightarrow> prov_state \<Rightarrow> prov_action \<Rightarrow> prov_state option" where
  "prov_next cfg s a =
     (case prov_apply cfg s a of Some t \<Rightarrow> if t \<noteq> s then Some t else None | None \<Rightarrow> None)"

fun prov_path :: "prov_config \<Rightarrow> prov_state \<Rightarrow> prov_action list \<Rightarrow> prov_state option" where
  "prov_path cfg s [] = Some s"
| "prov_path cfg s (a # as) =
     (if a \<in> set (prov_actions cfg s) then Option.bind (prov_next cfg s a) (\<lambda>t. prov_path cfg t as) else None)"

section \<open>The always properties\<close>

definition answered_by_caller :: "prov_state \<Rightarrow> bool" where
  "answered_by_caller s \<longleftrightarrow>
     ps_phase s = ProvIdle \<and>
     (case ps_outcome s of
        Some (RefusedWith _) \<Rightarrow> True
      | Some (ServedWith sv) \<Rightarrow> sv_source sv = ServedCaller
      | _ \<Rightarrow> False)"

definition served_ok :: "(wanted \<Rightarrow> served \<Rightarrow> bool) \<Rightarrow> prov_state \<Rightarrow> bool" where
  "served_ok P s =
     (case (ps_outcome s, ps_request s) of (Some (ServedWith sv), Some (w, _)) \<Rightarrow> P w sv | _ \<Rightarrow> True)"

definition cache_all :: "(prov_entry \<Rightarrow> bool) \<Rightarrow> prov_state \<Rightarrow> bool" where
  "cache_all P s = list_all (\<lambda>e. case e of Some e \<Rightarrow> P e | None \<Rightarrow> True) (ps_cache s)"

definition prov_always :: "prov_state \<Rightarrow> bool list" where
  "prov_always s =
     [(case ps_request s of Some (_, bin) \<Rightarrow> bin \<noteq> SuppliedNothing \<longrightarrow> answered_by_caller s | None \<Rightarrow> True),
      served_ok (\<lambda>w sv. sv_version sv = wanted_resolve w \<and> (w \<noteq> WantedDefault \<or> sv_version sv = CORE_VERSION)) s,
      \<not> ps_over_trusted s,
      served_ok (\<lambda>w sv. sv_source sv = ServedCaller \<or> sv_verified sv) s,
      served_ok (\<lambda>w sv. \<not> sv_attestation_failed sv) s,
      cache_all en_verified s,
      served_ok (\<lambda>w sv. sv_source sv \<noteq> ServedCache \<or> sv_matches_record sv) s,
      served_ok (\<lambda>w sv. sv_arm sv) s,
      cache_all en_arm s]"

section \<open>They hold under the specified policy\<close>

definition entry_ok :: "nat \<Rightarrow> prov_entry \<Rightarrow> bool" where
  "entry_ok v e \<longleftrightarrow> en_version e = v \<and> en_arm e \<and> en_verified e \<and> \<not> en_attestation_failed e"

definition cache_ok :: "prov_config \<Rightarrow> prov_entry option list \<Rightarrow> bool" where
  "cache_ok cfg c \<longleftrightarrow> length c = pg_versions cfg \<and> (\<forall>v < length c. case c ! v of Some e \<Rightarrow> entry_ok v e | None \<Rightarrow> True)"

definition served_fine :: "wanted \<Rightarrow> supplied_bin \<Rightarrow> served \<Rightarrow> bool" where
  "served_fine w bin sv \<longleftrightarrow>
     sv_version sv = wanted_resolve w \<and> sv_arm sv \<and> \<not> sv_attestation_failed sv \<and>
     (if bin = SuppliedNothing then sv_source sv \<noteq> ServedCaller \<and> sv_verified sv \<and> sv_matches_record sv
      else sv_source sv = ServedCaller)"

definition request_fine ::
  "nat \<Rightarrow> (wanted \<times> supplied_bin) option \<Rightarrow> prov_phase \<Rightarrow> prov_outcome option \<Rightarrow> bool" where
  "request_fine n req phase oc \<longleftrightarrow>
     (case req of
        None \<Rightarrow> oc = None \<and> phase = ProvIdle
      | Some (w, bin) \<Rightarrow>
          (case phase of
             ProvIdle \<Rightarrow>
               (case oc of
                  Some (ServedWith sv) \<Rightarrow> served_fine w bin sv
                | Some (RefusedWith _) \<Rightarrow> True
                | Some Crashed \<Rightarrow> bin = SuppliedNothing
                | None \<Rightarrow> False)
           | Fetching v \<Rightarrow> oc = None \<and> bin = SuppliedNothing \<and> v = wanted_resolve w \<and> v < n
           | Downloaded v _ \<Rightarrow> oc = None \<and> bin = SuppliedNothing \<and> v = wanted_resolve w \<and> v < n))"

definition request_ok :: "prov_config \<Rightarrow> prov_state \<Rightarrow> bool" where
  "request_ok cfg s \<longleftrightarrow> request_fine (pg_versions cfg) (ps_request s) (ps_phase s) (ps_outcome s)"

definition prov_inv :: "prov_config \<Rightarrow> prov_state \<Rightarrow> bool" where
  "prov_inv cfg s \<longleftrightarrow> cache_ok cfg (ps_cache s) \<and> \<not> ps_over_trusted s \<and> request_ok cfg s"

lemma cache_ok_update:
  "cache_ok cfg c \<Longrightarrow> (case x of Some e \<Rightarrow> entry_ok v e | None \<Rightarrow> True) \<Longrightarrow> cache_ok cfg (c[v := x])"
  by (cases "v < length c") (auto simp: cache_ok_def nth_list_update)

lemma cache_ok_at: "cache_ok cfg c \<Longrightarrow> v < pg_versions cfg \<Longrightarrow> c ! v = Some e \<Longrightarrow> entry_ok v e"
  by (auto simp: cache_ok_def)

lemma prov_inv_init: "s \<in> set (prov_init_states cfg) \<Longrightarrow> 0 < pg_versions cfg \<Longrightarrow> prov_inv cfg s"
proof -
  have "cache_ok cfg (replicate (pg_versions cfg) None)" by (simp add: cache_ok_def)
  then show "s \<in> set (prov_init_states cfg) \<Longrightarrow> 0 < pg_versions cfg \<Longrightarrow> prov_inv cfg s"
    by (auto simp: prov_init_states_def prov_inv_def prov_empty_def prov_legacy_def request_ok_def request_fine_def
        entry_ok_def intro!: cache_ok_update)
qed

lemma start_fetch_inv:
  assumes "cache_ok cfg (ps_cache s)" and "\<not> trusted_for v (ps_cache s ! v)" and "v < pg_versions cfg"
    and "ps_request s = Some (w, SuppliedNothing)" and "v = wanted_resolve w" and "ps_outcome s = None"
  shows "prov_inv cfg (start_fetch v s)"
  using assms by (simp add: prov_inv_def start_fetch_def request_ok_def request_fine_def)

lemma prov_request_inv:
  assumes spec: "pg_behavior cfg = ProvSpecified" and inv: "prov_inv cfg s" and idle: "ps_phase s = ProvIdle"
    and v: "wanted_resolve w < pg_versions cfg"
  shows "prov_inv cfg (prov_request cfg s w bin)"
proof (cases "caller_outcome ProvSpecified (wanted_resolve w) bin")
  case (Some oc)
  then have "case oc of ServedWith sv \<Rightarrow> served_fine w bin sv | RefusedWith _ \<Rightarrow> True | Crashed \<Rightarrow> False"
    by (cases bin) (auto simp: caller_outcome_def served_fine_def split: if_splits)
  with Some spec inv idle show ?thesis
    by (auto simp: prov_request_def prov_inv_def request_ok_def request_fine_def Let_def split: prov_outcome.splits)
next
  case None
  then have bin: "bin = SuppliedNothing" by (auto simp: caller_outcome_def split: if_splits)
  let ?v = "wanted_resolve w"
  from inv have c: "cache_ok cfg (ps_cache s)" by (simp add: prov_inv_def)
  show ?thesis
  proof (cases "ps_cache s ! ?v")
    case None
    with \<open>caller_outcome _ _ _ = None\<close> bin spec c v show ?thesis
      by (simp add: prov_request_def prov_slot_def start_fetch_inv trusted_for_def)
  next
    case (Some e)
    from cache_ok_at [OF c v Some] have e: "entry_ok ?v e" .
    show ?thesis
    proof (cases "trusted e")
      case True
      with \<open>caller_outcome _ _ _ = None\<close> bin spec inv idle e Some show ?thesis
        by (simp add: prov_request_def prov_slot_def serves_def prov_inv_def request_ok_def request_fine_def served_fine_def
            served_from_def entry_ok_def)
    next
      case False
      have "length (ps_cache s) = pg_versions cfg" using c by (simp add: cache_ok_def)
      with False \<open>caller_outcome _ _ _ = None\<close> bin spec c v Some show ?thesis
        by (simp add: prov_request_def prov_slot_def serves_def start_fetch_inv cache_ok_update trusted_for_def Let_def)
    qed
  qed
qed

lemma verify_specified_attested: "prov_verify ProvSpecified r \<noteq> VRefused \<Longrightarrow> rl_gh r \<noteq> GhUnattested \<and> prov_verify ProvSpecified r \<noteq> VUnverified"
  by (auto simp: prov_verify_def verify_curl_def split: gh.splits curl.splits if_splits)

lemma prov_verified_inv:
  assumes "pg_behavior cfg = ProvSpecified" and "prov_inv cfg s" and "ps_phase s = Downloaded v r"
  shows "prov_inv cfg (prov_verified cfg s v r)"
proof -
  from assms(2,3) obtain w where w: "ps_request s = Some (w, SuppliedNothing)" "v = wanted_resolve w"
    by (auto simp: prov_inv_def request_ok_def request_fine_def split: option.splits)
  show ?thesis
  proof (cases "fetch_refusal_of (prov_verify ProvSpecified r) (rl_arm r)")
    case (Some why)
    with assms w show ?thesis by (simp add: prov_verified_def prov_inv_def request_ok_def request_fine_def)
  next
    case None
    then have "prov_verify ProvSpecified r \<noteq> VRefused" "rl_arm r" by (auto simp: fetch_refusal_of_def split: if_splits)
    with verify_specified_attested [of r] None assms w show ?thesis
      by (simp add: prov_verified_def prov_inv_def request_ok_def request_fine_def prov_slot_def served_fine_def cache_ok_update
          entry_ok_def Let_def)
  qed
qed

lemma prov_inv_step:
  assumes spec: "pg_behavior cfg = ProvSpecified" and inv: "prov_inv cfg s" and pos: "0 < pg_versions cfg"
    and en: "a \<in> set (prov_actions cfg s)" and ap: "prov_apply cfg s a = Some t"
  shows "prov_inv cfg t"
proof (cases a)
  case (Request w bin)
  with en have "ps_phase s = ProvIdle" "wanted_resolve w < pg_versions cfg"
    using pos by (auto simp: prov_actions_def CORE_VERSION_def split: prov_phase.splits if_splits)
  with prov_request_inv [OF spec inv] Request ap show ?thesis by (auto simp: prov_apply_def)
next
  case (Download r)
  with ap spec inv show ?thesis
    by (auto simp: prov_apply_def prov_inv_def request_ok_def request_fine_def split: prov_phase.splits option.splits)
next
  case Verify
  with ap prov_verified_inv [OF spec inv] show ?thesis
    by (auto simp: prov_apply_def split: prov_phase.splits)
next
  case Crash
  with en obtain v r where "ps_phase s = Downloaded v r"
    by (auto simp: prov_actions_def split: prov_phase.splits if_splits)
  with Crash ap inv show ?thesis
    by (auto simp: prov_apply_def prov_inv_def request_ok_def request_fine_def split: option.splits)
next
  case (Tamper i)
  with en have "ps_phase s = ProvIdle" "i < pg_versions cfg"
    by (auto simp: prov_actions_def split: prov_phase.splits if_splits)
  moreover from Tamper ap obtain e where e: "ps_cache s ! i = Some e"
    and t: "t = s\<lparr>ps_cache := (ps_cache s)[i := Some (e\<lparr>en_intact := False\<rparr>)], ps_tampers := ps_tampers s + 1\<rparr>"
    by (auto simp: prov_apply_def split: option.splits)
  moreover from inv have c: "cache_ok cfg (ps_cache s)" by (simp add: prov_inv_def)
  ultimately have "entry_ok i e" by (metis cache_ok_at)
  then have "entry_ok i (e\<lparr>en_intact := False\<rparr>)" by (simp add: entry_ok_def)
  with c inv show ?thesis by (simp add: t prov_inv_def cache_ok_update request_ok_def)
qed

lemma prov_inv_path:
  "prov_path cfg s as = Some t \<Longrightarrow> pg_behavior cfg = ProvSpecified \<Longrightarrow> 0 < pg_versions cfg
   \<Longrightarrow> prov_inv cfg s \<Longrightarrow> prov_inv cfg t"
proof (induction cfg s as rule: prov_path.induct)
  case (2 cfg s a as)
  then obtain u where u: "a \<in> set (prov_actions cfg s)" "prov_next cfg s a = Some u" "prov_path cfg u as = Some t"
    by (auto simp: bind_eq_Some_conv split: if_splits)
  then have "prov_apply cfg s a = Some u" by (auto simp: prov_next_def split: option.splits if_splits)
  with 2 u prov_inv_step [of cfg s a u] show ?case by simp
qed simp

lemma cache_ok_all: "cache_ok cfg c \<Longrightarrow> e \<in> set c \<Longrightarrow> e = Some x \<Longrightarrow> en_verified x \<and> en_arm x"
  by (auto simp: cache_ok_def in_set_conv_nth entry_ok_def)

lemma prov_inv_served:
  "prov_inv cfg s \<Longrightarrow> ps_outcome s = Some (ServedWith sv) \<Longrightarrow> ps_request s = Some (w, bin) \<Longrightarrow> served_fine w bin sv"
  by (cases "ps_phase s") (simp_all add: prov_inv_def request_ok_def request_fine_def)

lemma prov_inv_caller:
  "prov_inv cfg s \<Longrightarrow> ps_request s = Some (w, bin) \<Longrightarrow> bin \<noteq> SuppliedNothing \<Longrightarrow> answered_by_caller s"
  by (cases "ps_phase s") (auto simp: prov_inv_def request_ok_def request_fine_def answered_by_caller_def served_fine_def
      split: option.splits prov_outcome.splits)

lemma served_ok_I:
  assumes "prov_inv cfg s" and "\<forall>w bin sv. served_fine w bin sv \<longrightarrow> P w sv"
  shows "served_ok P s"
proof (cases "\<exists>sv w bin. ps_outcome s = Some (ServedWith sv) \<and> ps_request s = Some (w, bin)")
  case True
  then obtain sv w bin where so: "ps_outcome s = Some (ServedWith sv)" "ps_request s = Some (w, bin)" by blast
  with prov_inv_served [OF assms(1) so] assms(2) show ?thesis by (auto simp: served_ok_def)
next
  case False
  then show ?thesis by (auto simp: served_ok_def split: option.splits prov_outcome.splits)
qed

lemma prov_inv_always: "prov_inv cfg s \<Longrightarrow> list_all id (prov_always s)"
proof -
  assume inv: "prov_inv cfg s"
  then have "cache_all en_verified s" "cache_all en_arm s"
    using cache_ok_all by (auto simp: prov_inv_def cache_all_def list_all_iff split: option.splits)
  moreover note served_ok_I [OF inv]
  moreover have "case ps_request s of Some (_, bin) \<Rightarrow> bin \<noteq> SuppliedNothing \<longrightarrow> answered_by_caller s | None \<Rightarrow> True"
    using prov_inv_caller [OF inv] by (auto split: option.splits)
  ultimately show ?thesis using inv
    by (auto simp: prov_always_def prov_inv_def served_fine_def split: if_splits)
qed

section \<open>Every request is answered\<close>

fun phase_left :: "prov_phase \<Rightarrow> nat" where
  "phase_left ProvIdle = 0"
| "phase_left (Downloaded _ _) = 1"
| "phase_left (Fetching _) = 2"

definition prov_left :: "prov_config \<Rightarrow> prov_state \<Rightarrow> nat" where
  "prov_left cfg s =
     3 * (pg_max_requests cfg - ps_requests s) + (pg_max_tampers cfg - ps_tampers s) + phase_left (ps_phase s)"

lemma prov_request_counts:
  "ps_requests (prov_request cfg s w bin) = ps_requests s + 1"
  "ps_tampers (prov_request cfg s w bin) = ps_tampers s"
  "ps_phase s = ProvIdle \<Longrightarrow> phase_left (ps_phase (prov_request cfg s w bin)) \<le> 2"
  by (auto simp: prov_request_def start_fetch_def Let_def split: option.splits)

lemma prov_verified_counts:
  "ps_requests (prov_verified cfg s v r) = ps_requests s"
  "ps_tampers (prov_verified cfg s v r) = ps_tampers s"
  "ps_phase (prov_verified cfg s v r) = ProvIdle"
  by (auto simp: prov_verified_def Let_def split: option.splits)

lemma prov_step_spends:
  assumes "a \<in> set (prov_actions cfg s)" and "prov_apply cfg s a = Some t"
  shows "prov_left cfg t < prov_left cfg s"
proof (cases a)
  case (Request w bin)
  with assms have "ps_phase s = ProvIdle" "ps_requests s < pg_max_requests cfg" "t = prov_request cfg s w bin"
    by (auto simp: prov_actions_def prov_apply_def split: prov_phase.splits if_splits)
  with prov_request_counts(1,2) [of cfg s w bin] prov_request_counts(3) [of s cfg w bin] show ?thesis by (simp add: prov_left_def)
next
  case (Tamper i)
  with assms have "ps_tampers s < pg_max_tampers cfg"
    by (auto simp: prov_actions_def split: prov_phase.splits if_splits)
  with Tamper assms(2) show ?thesis by (auto simp: prov_left_def prov_apply_def split: option.splits)
next
  case Verify
  with assms show ?thesis by (auto simp: prov_left_def prov_apply_def prov_verified_counts split: prov_phase.splits)
next
  case Crash
  with assms show ?thesis by (auto simp: prov_left_def prov_apply_def prov_actions_def split: prov_phase.splits if_splits)
next
  case (Download r)
  with assms show ?thesis by (auto simp: prov_left_def prov_apply_def Let_def split: prov_phase.splits)
qed

lemma prov_next_apply: "prov_next cfg s a = Some t \<Longrightarrow> prov_apply cfg s a = Some t"
  by (auto simp: prov_next_def split: option.splits if_splits)

lemma prov_path_spends: "prov_path cfg s as = Some t \<Longrightarrow> prov_left cfg t + length as \<le> prov_left cfg s"
proof (induction cfg s as rule: prov_path.induct)
  case (2 cfg s a as)
  then obtain u where u: "a \<in> set (prov_actions cfg s)" "prov_next cfg s a = Some u" "prov_path cfg u as = Some t"
    by (auto simp: bind_eq_Some_conv split: if_splits)
  from prov_step_spends [OF u(1) prov_next_apply [OF u(2)]] 2 u show ?case by fastforce
qed simp

lemma prov_not_stuck:
  assumes "ps_phase s \<noteq> ProvIdle \<or> ps_requests s < pg_max_requests cfg"
  shows "\<exists>a \<in> set (prov_actions cfg s). prov_next cfg s a \<noteq> None"
proof -
  obtain a t where a: "a \<in> set (prov_actions cfg s)" "prov_apply cfg s a = Some t"
  proof (cases "ps_phase s")
    case ProvIdle
    with assms that [of "Request WantedDefault SuppliedNothing"] show ?thesis
      by (simp add: prov_actions_def prov_apply_def)
  next
    case (Fetching v)
    with that [of "Download (hd RELEASES)"] show ?thesis
      by (simp add: prov_actions_def prov_apply_def RELEASES_def Let_def)
  next
    case (Downloaded v r)
    with that [of Crash] show ?thesis by (simp add: prov_actions_def prov_apply_def)
  qed
  from prov_step_spends [OF a] have "t \<noteq> s" by auto
  with a show ?thesis by (force simp: prov_next_def)
qed

text \<open>
  Over every sequence of requests, releases, crashes and changes to the cache, the specified
  policy satisfies each always property of BIND-17 to BIND-20, and every request is answered: a run
  is bounded, and one that can go no further has spent its requests and is idle.
\<close>

theorem provision_machine_correct:
  assumes "pg_behavior cfg = ProvSpecified" and "0 < pg_versions cfg"
    and "s \<in> set (prov_init_states cfg)" and "prov_path cfg s as = Some t"
  shows "list_all id (prov_always t)
    \<and> length as \<le> 3 * pg_max_requests cfg + pg_max_tampers cfg
    \<and> ((\<forall>a \<in> set (prov_actions cfg t). prov_next cfg t a = None)
         \<longrightarrow> ps_phase t = ProvIdle \<and> pg_max_requests cfg \<le> ps_requests t)"
proof -
  have "prov_left cfg s = 3 * pg_max_requests cfg + pg_max_tampers cfg"
    using assms(3) by (auto simp: prov_init_states_def prov_legacy_def prov_empty_def prov_left_def)
  with prov_path_spends [OF assms(4)] have "length as \<le> 3 * pg_max_requests cfg + pg_max_tampers cfg" by simp
  moreover have "list_all id (prov_always t)"
    by (rule prov_inv_always [OF prov_inv_path [OF assms(4,1,2) prov_inv_init [OF assms(3,2)]]])
  ultimately show ?thesis using prov_not_stuck [of t cfg] by (meson not_le)
qed

definition prov_cfg :: "prov_behavior \<Rightarrow> prov_config" where
  "prov_cfg b = \<lparr>pg_behavior = b, pg_max_requests = 3, pg_max_tampers = 1, pg_versions = 2\<rparr>"

definition attested_arm :: release where
  "attested_arm = \<lparr>rl_gh = GhAttested, rl_curl = CurlFails, rl_arm = True\<rparr>"

lemmas prov_eval = prov_cfg_def attested_arm_def prov_empty_def prov_legacy_def prov_actions_def prov_next_def prov_apply_def
  prov_request_def prov_verified_def caller_outcome_def start_fetch_def trusted_for_def serves_def served_from_def
  trusted_def prov_slot_def fetch_refusal_of_def prov_verify_def verify_curl_def RELEASES_def intact_at_def
  CORE_VERSION_def Let_def numeral_2_eq_2 numeral_3_eq_3 bind_eq_Some_conv

lemma tampered_run:
  "prov_path (prov_cfg ProvSpecified) (prov_empty (prov_cfg ProvSpecified))
     [Request WantedDefault SuppliedNothing, Download attested_arm, Verify, Tamper 0,
      Request WantedDefault SuppliedNothing] =
   Some \<lparr>ps_cache = [None, None], ps_phase = Fetching 0, ps_requests = 2, ps_tampers = 1,
     ps_request = Some (WantedDefault, SuppliedNothing), ps_outcome = None, ps_discarded = True,
     ps_over_trusted = False\<rparr>"
  by (simp add: prov_eval)

theorem provision_machine_correct_witness:
  "list_all id (prov_always \<lparr>ps_cache = [None, None], ps_phase = Fetching 0, ps_requests = 2, ps_tampers = 1,
     ps_request = Some (WantedDefault, SuppliedNothing), ps_outcome = None, ps_discarded = True,
     ps_over_trusted = False\<rparr>)"
  using provision_machine_correct [OF _ _ _ tampered_run] by (simp add: prov_cfg_def prov_init_states_def)

section \<open>The rejected policies\<close>

definition release_of :: "gh \<Rightarrow> curl \<Rightarrow> bool \<Rightarrow> release" where
  "release_of g c a = \<lparr>rl_gh = g, rl_curl = c, rl_arm = a\<rparr>"

definition breaks :: "prov_behavior \<Rightarrow> prov_action list \<Rightarrow> nat \<Rightarrow> bool" where
  "breaks b as i =
     (case prov_path (prov_cfg b) (prov_empty (prov_cfg b)) as of
        Some t \<Rightarrow> \<not> prov_always t ! i
      | None \<Rightarrow> False)"

text \<open>
  Each of the five breaks the property the module names it for, on the run the checker finds: the
  client as filed serves an x86 override, the unversioned cache serves another version, the laundered
  fetch serves bytes that failed attestation, the early cache holds unproven bytes after a crash, and
  the warning serves them.
\<close>

theorem rejected_provisioning_breaks:
  "breaks ProvToday [Request WantedDefault SuppliedNotArm] 7"
  "breaks Unversioned [Request WantedDefault SuppliedNothing, Download attested_arm, Verify,
     Request (WantedVersion 1) SuppliedNothing] 1"
  "breaks LaunderAttestation [Request WantedDefault SuppliedNothing,
     Download (release_of GhUnattested CurlSumsMatch True), Verify] 4"
  "breaks CacheBeforeVerify [Request WantedDefault SuppliedNothing, Download (release_of GhUnattested CurlFails True), Crash] 5"
  "breaks WarnOnUnverified [Request WantedDefault SuppliedNothing, Download (release_of GhUnavailable CurlNoSums True), Verify] 3"
  by (simp_all add: breaks_def prov_eval prov_always_def release_of_def served_ok_def cache_all_def)

end
