(* ===== verification/ProvisionRefinement.thy ===== *)
theory ProvisionRefinement
  imports Provision ModelProvision
begin

text \<open>
  Provisioning as it is written (\<open>Provision\<close>, \<open>ReleaseFetch\<close>) refines its specification
  machine: a release reads as the machine's \<open>Release\<close> the way the module's documentation says,
  the policy gives the machine's verdict on it, and one call over an undisturbed disk is a path of the
  machine with the machine's outcome. A version is its number.
\<close>

section \<open>The verdict\<close>

definition gh_seen :: "(bytes \<Rightarrow> string) \<Rightarrow> release_source \<Rightarrow> verifier \<Rightarrow> string \<Rightarrow> bytes \<Rightarrow> gh" where
  "gh_seen sha src verify tag bs =
     (case rs_attestations src tag (sha bs) of
        Published l \<Rightarrow> if \<exists>b \<in> set l. verify b bs (signer_release tag) then GhAttested else GhUnattested
      | Absent \<Rightarrow> GhUnattested
      | Unreachable \<Rightarrow> GhUnavailable)"

definition curl_seen :: "(bytes \<Rightarrow> string) \<Rightarrow> release_source \<Rightarrow> string \<Rightarrow> bytes \<Rightarrow> curl" where
  "curl_seen sha src tag bs =
     (case rs_checksums src tag of
        None \<Rightarrow> CurlNoSums
      | Some listing \<Rightarrow> if verify_sha256 sha listing ASSET bs = None then CurlSumsMatch else CurlSumsMismatch)"

definition release_seen :: "(bytes \<Rightarrow> string) \<Rightarrow> release_source \<Rightarrow> verifier \<Rightarrow> string \<Rightarrow> release" where
  "release_seen sha src verify tag =
     (case rs_asset src tag ASSET of
        None \<Rightarrow> \<lparr>rl_gh = GhUnavailable, rl_curl = CurlFails, rl_arm = False\<rparr>
      | Some bs \<Rightarrow> \<lparr>rl_gh = gh_seen sha src verify tag bs, rl_curl = curl_seen sha src tag bs,
                     rl_arm = (not_aarch64 bs = None)\<rparr>)"

fun verdict_of :: "verification \<Rightarrow> verdict" where
  "verdict_of Attestation = VAttestation"
| "verdict_of Checksum = VChecksum"

definition fetch_verdict :: "fetch_refusal + fetched_binary \<Rightarrow> verdict" where
  "fetch_verdict r = (case r of Inr f \<Rightarrow> verdict_of (fb_verification f) | Inl _ \<Rightarrow> VRefused)"

lemma fetch_gives_the_verdict:
  "fetch_verdict (fetch_release sha src verify tag) = prov_verify ProvSpecified (release_seen sha src verify tag)"
  by (auto simp: fetch_release_def fetch_verdict_def release_seen_def gh_seen_def curl_seen_def prov_verify_def verify_curl_def
      split: option.splits bundles.splits list.splits)

lemma fetched_arm:
  "fetch_release sha src verify tag = Inr f \<Longrightarrow>
     rl_arm (release_seen sha src verify tag) = (not_aarch64 (fb_bytes f) = None)"
  using fetch_release_proven [of sha src verify tag f] by (simp add: proven_def release_seen_def)

lemma release_listed: "r \<in> set RELEASES"
proof (cases r)
  case (fields g c a)
  then show ?thesis by (cases g; cases c; cases a) (simp_all add: RELEASES_def)
qed

section \<open>One call\<close>

definition supplied_seen :: "machine \<Rightarrow> (path \<times> supplier) option \<Rightarrow> supplied_bin" where
  "supplied_seen m given =
     (case given of
        None \<Rightarrow> SuppliedNothing
      | Some (p, _) \<Rightarrow>
          if \<not> mc_exists m p then SuppliedMissing
          else (case mc_look m 0 p of
                  Contents b \<Rightarrow> if not_aarch64 b = None then SuppliedArm else SuppliedNotArm
                | _ \<Rightarrow> SuppliedMissing))"

text \<open>A disk nothing disturbs: every look shows the files, and no call of the system fails.\<close>

definition undisturbed :: "machine \<Rightarrow> files \<Rightarrow> bool" where
  "undisturbed m fs \<longleftrightarrow>
     (\<forall>n. mc_look m n = seen fs) \<and> (\<forall>p. mc_exists m p \<longleftrightarrow> fs p \<noteq> None) \<and>
     mc_create_dir m \<and> mc_temp_download m \<and> mc_temp_binary m \<and> mc_write_binary m \<and> mc_chmod m \<and>
     mc_rename_binary m \<and> mc_temp_record m \<and> mc_write_record m \<and> mc_rename_record m"

definition disk_trusts :: "tools \<Rightarrow> files \<Rightarrow> path \<Rightarrow> string \<Rightarrow> bool" where
  "disk_trusts t fs dir v \<longleftrightarrow>
     (\<exists>b c body how. fs (cache_path dir v) = Some b \<and> fs (record_path dir v) = Some c \<and>
        utf8_string c = Some body \<and> parse_record t body v (tl_sha256 t b) = Some how \<and> not_aarch64 b = None)"

text \<open>
  What is known of a binary served. Of one just fetched: whether the source and the verifier stand
  behind these bytes in the way the call says, and what the attestations of these bytes say. Of one
  from the cache: whether the digest record on the disk stands behind it.
\<close>

record disk_world =
  wd_tools :: tools
  wd_source :: release_source
  wd_verify :: verifier
  wd_files :: files
  wd_dir :: path

definition verified_in :: "disk_world \<Rightarrow> provisioned \<Rightarrow> bool" where
  "verified_in wd p \<longleftrightarrow>
     (case pv_source p of
        CallerSupplied _ \<Rightarrow> False
      | FromCache _ \<Rightarrow> disk_trusts (wd_tools wd) (wd_files wd) (wd_dir wd) (pv_version p)
      | FetchedNow how \<Rightarrow>
          proven (tl_sha256 (wd_tools wd)) (wd_source wd) (wd_verify wd) (tag_of (pv_version p)) (pv_bytes p) how)"

definition attestation_failed_in :: "disk_world \<Rightarrow> provisioned \<Rightarrow> bool" where
  "attestation_failed_in wd p \<longleftrightarrow>
     (case pv_source p of
        FetchedNow _ \<Rightarrow> gh_seen (tl_sha256 (wd_tools wd)) (wd_source wd) (wd_verify wd)
          (tag_of (pv_version p)) (pv_bytes p) = GhUnattested
      | _ \<Rightarrow> False)"

definition matches_record_in :: "disk_world \<Rightarrow> installs \<Rightarrow> provisioned \<Rightarrow> bool" where
  "matches_record_in wd written p \<longleftrightarrow>
     (case pv_source p of
        CallerSupplied _ \<Rightarrow> False
      | _ \<Rightarrow> disk_trusts (wd_tools wd) (apply_installs written (wd_files wd)) (wd_dir wd) (pv_version p) \<and>
            apply_installs written (wd_files wd) (cache_path (wd_dir wd) (pv_version p)) = Some (pv_bytes p))"

definition served_as :: "disk_world \<Rightarrow> (string \<Rightarrow> nat) \<Rightarrow> installs \<Rightarrow> provisioned \<Rightarrow> served" where
  "served_as wd num written p =
     \<lparr>sv_source = (case pv_source p of CallerSupplied _ \<Rightarrow> ServedCaller | FromCache _ \<Rightarrow> ServedCache
                    | FetchedNow _ \<Rightarrow> ServedFetched),
      sv_version = num (pv_version p), sv_arm = (not_aarch64 (pv_bytes p) = None),
      sv_verified = verified_in wd p, sv_attestation_failed = attestation_failed_in wd p,
      sv_matches_record = matches_record_in wd written p,
      sv_checksum = (pv_source p = FetchedNow Checksum)\<rparr>"

fun outcome_as :: "disk_world \<Rightarrow> (string \<Rightarrow> nat) \<Rightarrow> (failure + provisioned) \<times> installs \<Rightarrow> prov_outcome option" where
  "outcome_as wd num (Inr p, written) = Some (ServedWith (served_as wd num written p))"
| "outcome_as wd num (Inl (CallerBinary _), written) = Some (RefusedWith MissingBinary)"
| "outcome_as wd num (Inl NotAarch64, written) = Some (RefusedWith RefusedNotArm)"
| "outcome_as wd num (Inl (FetchFailed _), written) = Some (RefusedWith RefusedUnverified)"
| "outcome_as wd num (Inl _, written) = None"

text \<open>The machine's slot of a version holds a trusted entry exactly when the disk does.\<close>

definition same_cache :: "tools \<Rightarrow> files \<Rightarrow> path \<Rightarrow> (string \<Rightarrow> nat) \<Rightarrow> prov_config \<Rightarrow> prov_state \<Rightarrow> bool" where
  "same_cache t fs dir num cfg s \<longleftrightarrow>
     (\<forall>v. plain_version v \<and> num v < pg_versions cfg \<longrightarrow>
        trusted_for (num v) (ps_cache s ! num v) = disk_trusts t fs dir v)"

definition wanted_of :: "(string \<Rightarrow> nat) \<Rightarrow> bin_request \<Rightarrow> string \<Rightarrow> wanted" where
  "wanted_of num req v = (if br_version req = None then WantedDefault else WantedVersion (num v))"

lemma cache_hit_seen:
  assumes "undisturbed m fs"
  shows "cache_hit t m dir v =
    (if disk_trusts t fs dir v
     then Inr (Some \<lparr>pv_bytes = the (fs (cache_path dir v)), pv_path = cache_path dir v,
            pv_source = FromCache (the (recorded t m dir v (tl_sha256 t (the (fs (cache_path dir v)))))),
            pv_version = v, pv_sha256 = tl_sha256 t (the (fs (cache_path dir v)))\<rparr>)
     else Inr None)"
  using assms
  by (auto simp: cache_hit_def undisturbed_def seen_def disk_trusts_def recorded_def read_to_string_def
      split: option.splits)

lemma fetch_and_install_seen:
  assumes "undisturbed m fs"
  shows "fetch_and_install t m fetch dir v =
    (case fetch (tag_of v) of
       Inl e \<Rightarrow> (Inl (FetchFailed e), [])
     | Inr f \<Rightarrow>
         if not_aarch64 (fb_bytes f) \<noteq> None then (Inl NotAarch64, [])
         else (Inr \<lparr>pv_bytes = fb_bytes f, pv_path = cache_path dir v,
                    pv_source = FetchedNow (fb_verification f), pv_version = v,
                    pv_sha256 = tl_sha256 t (fb_bytes f)\<rparr>,
               [(cache_path dir v, fb_bytes f),
                (record_path dir v, record_json t v (tl_sha256 t (fb_bytes f)) (fb_verification f))]))"
  using assms
  by (auto simp: fetch_and_install_def undisturbed_def record_install_def installed_or_identical_def renamed_def
      Let_def split: sum.splits)

text \<open>What an install leaves on the disk: the version it is for is trusted, the others are as they were.\<close>

lemma installed_trusts:
  assumes "tools_ok t" and "plain_version v" and "not_aarch64 b = None"
  shows "disk_trusts t (apply_installs [(cache_path dir v, b),
      (record_path dir v, record_json t v (tl_sha256 t b) how)] fs) dir w \<longleftrightarrow> w = v \<or> disk_trusts t fs dir w"
proof (cases "w = v")
  case True
  from assms(1,2) have "utf8_string (record_json t v (tl_sha256 t b) how) =
      Some (tl_to_text t (record_value v (tl_sha256 t b) how))"
    unfolding tools_ok_def by blast
  with parse_record_written [OF assms(1,2)] assms(3) True show ?thesis
    by (auto simp: disk_trusts_def apply_installs_def)
next
  case False
  then show ?thesis by (auto simp: disk_trusts_def apply_installs_def)
qed

section \<open>The machine's steps\<close>

definition offered :: "prov_config \<Rightarrow> prov_state \<Rightarrow> wanted \<Rightarrow> supplied_bin \<Rightarrow> bool" where
  "offered cfg s w bin \<longleftrightarrow>
     ps_phase s = ProvIdle \<and> ps_requests s < pg_max_requests cfg \<and>
     (w = WantedDefault \<or> bin = SuppliedNothing \<and> wanted_resolve w < pg_versions cfg)"

lemma request_step:
  assumes "offered cfg s w bin"
  shows "Request w bin \<in> set (prov_actions cfg s)" and "prov_next cfg s (Request w bin) = Some (prov_request cfg s w bin)"
proof -
  show "Request w bin \<in> set (prov_actions cfg s)"
    using assms by (cases w; cases bin) (auto simp: offered_def prov_actions_def)
  have "prov_request cfg s w bin \<noteq> s"
    using prov_request_counts(1) [of cfg s w bin] by (metis n_not_Suc_n add.commute plus_1_eq_Suc)
  then show "prov_next cfg s (Request w bin) = Some (prov_request cfg s w bin)"
    by (simp add: prov_next_def prov_apply_def)
qed

lemma fetch_steps:
  assumes "pg_behavior cfg = ProvSpecified" and "ps_phase s = Fetching v"
  shows "prov_path cfg s [Download r, Verify] = Some (prov_verified cfg (s\<lparr>ps_phase := Downloaded v r\<rparr>) v r)"
proof -
  let ?d = "s\<lparr>ps_phase := Downloaded v r\<rparr>"
  have "ps_phase ?d \<noteq> ps_phase s" using assms(2) by simp
  then have "?d \<noteq> s" by metis
  moreover have "prov_verified cfg ?d v r \<noteq> ?d"
  proof
    assume "prov_verified cfg ?d v r = ?d"
    then have "ps_phase (prov_verified cfg ?d v r) = Downloaded v r" by simp
    then show False by (simp add: prov_verified_counts)
  qed
  ultimately show ?thesis
    using assms release_listed [of r] by (simp add: prov_actions_def prov_next_def prov_apply_def)
qed

text \<open>A request that must fetch: what the machine's cache looks like then, and what it answers.\<close>

lemma prov_path_append:
  "prov_path cfg s (as @ bs) = Option.bind (prov_path cfg s as) (\<lambda>t. prov_path cfg t bs)"
  by (induction cfg s as rule: prov_path.induct) (auto split: Option.bind_split)

lemma prov_request_fetches:
  assumes "pg_behavior cfg = ProvSpecified" and "prov_inv cfg s" and "wanted_resolve w < pg_versions cfg"
    and "\<not> trusted_for (wanted_resolve w) (ps_cache s ! wanted_resolve w)"
  shows "ps_phase (prov_request cfg s w SuppliedNothing) = Fetching (wanted_resolve w)"
    and "ps_cache (prov_request cfg s w SuppliedNothing) = (ps_cache s)[wanted_resolve w := None]"
proof -
  let ?v = "wanted_resolve w"
  from assms(2,3) have len: "?v < length (ps_cache s)" and
    e: "\<And>e. ps_cache s ! ?v = Some e \<Longrightarrow> en_version e = ?v"
    by (auto simp: prov_inv_def cache_ok_def entry_ok_def)
  have "ps_cache s ! ?v = None \<Longrightarrow> (ps_cache s)[?v := None] = ps_cache s" by (metis list_update_id)
  with assms e show "ps_phase (prov_request cfg s w SuppliedNothing) = Fetching ?v"
      "ps_cache (prov_request cfg s w SuppliedNothing) = (ps_cache s)[?v := None]"
    by (auto simp: prov_request_def caller_outcome_def prov_slot_def serves_def start_fetch_def trusted_for_def Let_def
        split: option.splits)
qed

lemma prov_request_hits:
  assumes "pg_behavior cfg = ProvSpecified" and "prov_inv cfg s" and "wanted_resolve w < pg_versions cfg"
    and "trusted_for (wanted_resolve w) (ps_cache s ! wanted_resolve w)" and "ps_phase s = ProvIdle"
  shows "ps_phase (prov_request cfg s w SuppliedNothing) = ProvIdle"
    and "ps_cache (prov_request cfg s w SuppliedNothing) = ps_cache s"
    and "ps_outcome (prov_request cfg s w SuppliedNothing) = Some (ServedWith \<lparr>sv_source = ServedCache,
      sv_version = wanted_resolve w, sv_arm = True, sv_verified = True, sv_attestation_failed = False,
      sv_matches_record = True, sv_checksum = False\<rparr>)"
proof -
  let ?v = "wanted_resolve w"
  from assms(4) obtain e where e: "ps_cache s ! ?v = Some e" "trusted e"
    by (auto simp: trusted_for_def split: option.splits)
  from assms(2,3) e(1) have ok: "entry_ok ?v e" by (auto simp: prov_inv_def cache_ok_def)
  with assms e show "ps_phase (prov_request cfg s w SuppliedNothing) = ProvIdle"
    "ps_cache (prov_request cfg s w SuppliedNothing) = ps_cache s"
    "ps_outcome (prov_request cfg s w SuppliedNothing) = Some (ServedWith \<lparr>sv_source = ServedCache,
      sv_version = ?v, sv_arm = True, sv_verified = True, sv_attestation_failed = False,
      sv_matches_record = True, sv_checksum = False\<rparr>)"
    by (simp_all add: prov_request_def caller_outcome_def prov_slot_def serves_def served_from_def entry_ok_def)
qed

lemma prov_request_caller:
  assumes "caller_outcome (pg_behavior cfg) (wanted_resolve w) bin = Some oc" and "ps_phase s = ProvIdle"
  shows "ps_phase (prov_request cfg s w bin) = ProvIdle" "ps_cache (prov_request cfg s w bin) = ps_cache s"
    "ps_outcome (prov_request cfg s w bin) = Some oc"
  using assms by (simp_all add: prov_request_def)

section \<open>The refinement\<close>

definition refined_by ::
  "disk_world \<Rightarrow> (string \<Rightarrow> nat) \<Rightarrow> prov_config \<Rightarrow> prov_state \<Rightarrow> prov_action list
   \<Rightarrow> (failure + provisioned) \<times> installs \<Rightarrow> bool" where
  "refined_by wd num cfg s as answer \<longleftrightarrow>
     (case prov_path cfg s as of
        None \<Rightarrow> False
      | Some s' \<Rightarrow> ps_phase s' = ProvIdle \<and> ps_outcome s' = outcome_as wd num answer \<and>
          same_cache (wd_tools wd) (apply_installs (snd answer) (wd_files wd)) (wd_dir wd) num cfg s')"

text \<open>
  The machine's path for a call: the request alone when the caller brings the binary or the disk
  trusts the version, else the request, the download of the release as this call's source and verifier
  show it, and its verification.
\<close>

definition release_of_call :: "disk_world \<Rightarrow> string \<Rightarrow> release" where
  "release_of_call wd v = release_seen (tl_sha256 (wd_tools wd)) (wd_source wd) (wd_verify wd) (tag_of v)"

definition call_path :: "disk_world \<Rightarrow> machine \<Rightarrow> bin_request \<Rightarrow> (string \<Rightarrow> nat) \<Rightarrow> string \<Rightarrow> prov_action list" where
  "call_path wd m req num v =
     Request (wanted_of num req v) (supplied_seen m (supplied m req)) #
     (if supplied m req \<noteq> None \<or> disk_trusts (wd_tools wd) (wd_files wd) (wd_dir wd) v then []
      else [Download (release_of_call wd v), Verify])"

lemma caller_answered: "\<exists>oc. outcome_as wd num (caller_supplied t m p who v, []) = Some oc"
  by (auto simp: caller_supplied_def split: file_read.splits)

lemma caller_refined:
  assumes "pg_behavior cfg = ProvSpecified" and "undisturbed m (wd_files wd)"
    and "same_cache (wd_tools wd) (wd_files wd) (wd_dir wd) num cfg s"
    and "offered cfg s w (supplied_seen m (Some (p, who)))" and "wanted_resolve w = num v"
  shows "refined_by wd num cfg s [Request w (supplied_seen m (Some (p, who)))]
    (caller_supplied t m p who v, [])"
proof -
  let ?bin = "supplied_seen m (Some (p, who))"
  have "caller_outcome ProvSpecified (num v) ?bin = outcome_as wd num (caller_supplied t m p who v, [])"
    using assms(2)
    by (cases "wd_files wd p") (auto simp: supplied_seen_def caller_supplied_def undisturbed_def seen_def caller_outcome_def
        served_as_def verified_in_def attestation_failed_in_def matches_record_in_def)
  moreover obtain oc where "outcome_as wd num (caller_supplied t m p who v, []) = Some oc"
    using caller_answered [of wd num t m p who v] by blast
  moreover have "ps_phase s = ProvIdle" using assms(4) by (simp add: offered_def)
  ultimately show ?thesis
    using request_step [OF assms(4)] prov_request_caller [of cfg w ?bin oc s] assms(1,3,5)
    by (simp add: refined_by_def same_cache_def apply_installs_def)
qed

lemma hit_refined:
  assumes "pg_behavior cfg = ProvSpecified" and "prov_inv cfg s" and "undisturbed m (wd_files wd)"
    and "same_cache (wd_tools wd) (wd_files wd) (wd_dir wd) num cfg s" and "offered cfg s w SuppliedNothing"
    and "wanted_resolve w = num v"
    and "plain_version v" and "num v < pg_versions cfg"
    and "cache_hit (wd_tools wd) m (wd_dir wd) v = Inr (Some hit)"
  shows "refined_by wd num cfg s [Request w SuppliedNothing] (Inr hit, [])"
proof -
  from assms(3,9) have d: "disk_trusts (wd_tools wd) (wd_files wd) (wd_dir wd) v"
    and arm: "not_aarch64 (pv_bytes hit) = None" and src: "\<exists>how. pv_source hit = FromCache how"
    and ver: "pv_version hit = v" and held: "wd_files wd (cache_path (wd_dir wd) v) = Some (pv_bytes hit)"
    by (auto simp: cache_hit_seen disk_trusts_def split: if_splits)
  then have tr: "trusted_for (wanted_resolve w) (ps_cache s ! wanted_resolve w)"
    using assms(4,6,7,8) by (simp add: same_cache_def)
  have idle: "ps_phase s = ProvIdle" using assms(5) by (simp add: offered_def)
  have served: "served_as wd num [] hit = \<lparr>sv_source = ServedCache, sv_version = num v, sv_arm = True,
      sv_verified = True, sv_attestation_failed = False, sv_matches_record = True, sv_checksum = False\<rparr>"
    using d arm src ver held
    by (auto simp: served_as_def verified_in_def attestation_failed_in_def matches_record_in_def apply_installs_def)
  have "wanted_resolve w < pg_versions cfg" using assms(6,8) by simp
  from prov_request_hits [OF assms(1,2) this tr idle] request_step [OF assms(5)] assms(4,6) served
  show ?thesis by (auto simp: refined_by_def same_cache_def apply_installs_def)
qed

lemma fetch_refined:
  assumes tools: "tools_ok (wd_tools wd)" and spec: "pg_behavior cfg = ProvSpecified" and inv: "prov_inv cfg s"
    and m: "undisturbed m (wd_files wd)" and same: "same_cache (wd_tools wd) (wd_files wd) (wd_dir wd) num cfg s"
    and off: "offered cfg s w SuppliedNothing" and w: "wanted_resolve w = num v" and v: "plain_version v"
    and num: "num v < pg_versions cfg" and inj: "inj_on num (Collect plain_version)"
    and miss: "cache_hit (wd_tools wd) m (wd_dir wd) v = Inr None"
  shows "refined_by wd num cfg s
    [Request w SuppliedNothing, Download (release_of_call wd v), Verify]
    (fetch_and_install (wd_tools wd) m
      (fetch_release (tl_sha256 (wd_tools wd)) (wd_source wd) (wd_verify wd)) (wd_dir wd) v)"
proof -
  define t where "t = wd_tools wd"
  define src where "src = wd_source wd"
  define verify where "verify = wd_verify wd"
  define fs where "fs = wd_files wd"
  define dir where "dir = wd_dir wd"
  note defs = t_def [symmetric] src_def [symmetric] verify_def [symmetric] fs_def [symmetric] dir_def [symmetric]
  note tools = tools [unfolded defs] and m = m [unfolded defs] and same = same [unfolded defs]
    and miss = miss [unfolded defs]
  let ?rel = "release_seen (tl_sha256 t) src verify (tag_of v)"
  let ?s1 = "prov_request cfg s w SuppliedNothing"
  let ?s2 = "prov_verified cfg (?s1\<lparr>ps_phase := Downloaded (num v) ?rel\<rparr>) (num v) ?rel"
  from miss m have "\<not> disk_trusts t fs dir v" by (auto simp: cache_hit_seen split: if_splits)
  with same v num w have "\<not> trusted_for (wanted_resolve w) (ps_cache s ! wanted_resolve w)"
    by (simp add: same_cache_def)
  from prov_request_fetches [OF spec inv _ this] w num
  have s1: "ps_phase ?s1 = Fetching (num v)" "ps_cache ?s1 = (ps_cache s)[num v := None]" by simp_all
  have path: "prov_path cfg s [Request w SuppliedNothing, Download ?rel, Verify] = Some ?s2"
    using request_step [OF off] fetch_steps [OF spec s1(1), of ?rel] by simp
  have len: "num v < length (ps_cache s)" using inv num by (simp add: prov_inv_def cache_ok_def)
  have other: "num u = num v \<longleftrightarrow> u = v" if "plain_version u" for u
    using inj_on_eq_iff [OF inj] that v by simp
  have quiet: "same_cache t fs dir num cfg x" if "ps_cache x = (ps_cache s)[num v := None]" for x
    unfolding same_cache_def
  proof (intro allI impI)
    fix u assume u: "plain_version u \<and> num u < pg_versions cfg"
    show "trusted_for (num u) (ps_cache x ! num u) = disk_trusts t fs dir u"
    proof (cases "u = v")
      case True
      with that len \<open>\<not> disk_trusts t fs dir v\<close> show ?thesis by (simp add: trusted_for_def)
    next
      case False
      with other u have "num u \<noteq> num v" by simp
      with that u same show ?thesis by (simp add: same_cache_def)
    qed
  qed
  show ?thesis
  proof (cases "fetch_release (tl_sha256 t) src verify (tag_of v)")
    case (Inl e)
    then have "prov_verify ProvSpecified ?rel = VRefused"
      using fetch_gives_the_verdict [of "tl_sha256 t" src verify "tag_of v"] by (simp add: fetch_verdict_def)
    with Inl path spec m show ?thesis
      by (simp add: refined_by_def release_of_call_def defs fetch_and_install_seen prov_verified_def
          fetch_refusal_of_def apply_installs_def quiet s1)
  next
    case (Inr f)
    then have verdict: "prov_verify ProvSpecified ?rel = verdict_of (fb_verification f)"
      using fetch_gives_the_verdict [of "tl_sha256 t" src verify "tag_of v"] by (simp add: fetch_verdict_def)
    have proved: "verdict_of (fb_verification f) \<noteq> VRefused" "verdict_of (fb_verification f) \<noteq> VUnverified"
      by (cases "fb_verification f"; simp)+
    note arm = fetched_arm [OF Inr]
    show ?thesis
    proof (cases "not_aarch64 (fb_bytes f) = None")
      case False
      with Inr path spec m verdict proved arm show ?thesis
        by (simp add: refined_by_def release_of_call_def defs fetch_and_install_seen prov_verified_def
            fetch_refusal_of_def apply_installs_def quiet s1)
    next
      case True
      let ?written = "[(cache_path dir v, fb_bytes f),
        (record_path dir v, record_json t v (tl_sha256 t (fb_bytes f)) (fb_verification f))]"
      let ?p = "\<lparr>pv_bytes = fb_bytes f, pv_path = cache_path dir v, pv_source = FetchedNow (fb_verification f),
        pv_version = v, pv_sha256 = tl_sha256 t (fb_bytes f)\<rparr>"
      note prov = fetch_release_proven [OF Inr]
      have "gh_seen (tl_sha256 t) src verify (tag_of v) (fb_bytes f) = rl_gh ?rel"
        using prov by (simp add: proven_def release_seen_def)
      then have served: "served_as wd num ?written ?p = \<lparr>sv_source = ServedFetched, sv_version = num v,
          sv_arm = True, sv_verified = True, sv_attestation_failed = (rl_gh ?rel = GhUnattested),
          sv_matches_record = True, sv_checksum = (fb_verification f = Checksum)\<rparr>"
        using prov True installed_trusts [OF tools v True, of dir "fb_verification f" fs v]
        by (simp add: served_as_def verified_in_def attestation_failed_in_def matches_record_in_def defs
            apply_installs_def)
      have "same_cache t (apply_installs [(cache_path dir v, fb_bytes f),
              (record_path dir v, record_json t v (tl_sha256 t (fb_bytes f)) (fb_verification f))] fs) dir num cfg x"
        if "ps_cache x = (ps_cache s)[num v := Some e]" "en_version e = num v" "trusted e" for x e
        unfolding same_cache_def installed_trusts [OF tools v True]
      proof (intro allI impI)
        fix u assume u: "plain_version u \<and> num u < pg_versions cfg"
        show "trusted_for (num u) (ps_cache x ! num u) = (u = v \<or> disk_trusts t fs dir u)"
        proof (cases "u = v")
          case True
          with that len show ?thesis by (simp add: trusted_for_def)
        next
          case False
          with other u have "num u \<noteq> num v" by simp
          with that u same False show ?thesis by (simp add: same_cache_def)
        qed
      qed
      moreover have "(verdict_of (fb_verification f) = VChecksum) = (fb_verification f = Checksum)"
        by (cases "fb_verification f") simp_all
      ultimately show ?thesis
        using Inr path spec m verdict proved arm True served
        by (simp add: refined_by_def release_of_call_def defs fetch_and_install_seen prov_verified_def
            fetch_refusal_of_def s1 prov_slot_def trusted_def Let_def)
    qed
  qed
qed

text \<open>
  C25: Provisioning refines its specification machine. From any reachable idle state that agrees
  with the disk on which versions it trusts, a call over an undisturbed disk is one definite path
  of the machine: the request, and, when neither the caller nor the cache answers, the download of
  exactly the release this call's source and verifier show and its verification. The call's answer
  is the machine's: the same refusal, or a binary from the same place, whose bytes the source and
  the verifier stand behind in the way the call says (the attestation, or the checksum where there
  is no attestation answer), and disk and machine agree again afterwards.
\<close>

theorem provisioning_refines_machine:
  assumes "tools_ok (wd_tools wd)" and "pg_behavior cfg = ProvSpecified" and "0 < pg_versions cfg"
    and "s0 \<in> set (prov_init_states cfg)" and "prov_path cfg s0 as0 = Some s"
    and "undisturbed m (wd_files wd)" and "state_dir m req = Some (wd_dir wd)"
    and "same_cache (wd_tools wd) (wd_files wd) (wd_dir wd) num cfg s"
    and "inj_on num (Collect plain_version)"
    and "normalize_version (case br_version req of Some x \<Rightarrow> x | None \<Rightarrow> core) = Inr v"
    and "num v < pg_versions cfg" and "br_version req = None \<longrightarrow> num v = CORE_VERSION"
    and "offered cfg s (wanted_of num req v) (supplied_seen m (supplied m req))"
  shows "refined_by wd num cfg s (call_path wd m req num v)
    (provision_resolve (wd_tools wd) core req m
      (fetch_release (tl_sha256 (wd_tools wd)) (wd_source wd) (wd_verify wd)))"
proof -
  let ?t = "wd_tools wd" and ?dir = "wd_dir wd"
  have inv: "prov_inv cfg s" by (rule prov_inv_path [OF assms(5,2,3) prov_inv_init [OF assms(4,3)]])
  have w: "wanted_resolve (wanted_of num req v) = num v" using assms(12) by (simp add: wanted_of_def)
  have v: "plain_version v" using assms(10) unfolding normalize_version_Inr by blast
  show ?thesis
  proof (cases "supplied m req")
    case (Some given)
    obtain p who where given: "given = (p, who)" by (cases given)
    have "provision_resolve ?t core req m fetch = (caller_supplied ?t m p who v, [])" for fetch
      using Some assms(10) by (simp add: provision_resolve_def given)
    with caller_refined [OF assms(2,6,8) _ w, of p who ?t] assms(13) Some given show ?thesis
      by (simp add: call_path_def)
  next
    case None
    then have off: "offered cfg s (wanted_of num req v) SuppliedNothing"
      using assms(13) by (simp add: supplied_seen_def)
    have call: "provision_resolve ?t core req m fetch = from_cache_or_fetch ?t m fetch ?dir v" for fetch
      using None assms(7,10) by (simp add: provision_resolve_def)
    show ?thesis
    proof (cases "disk_trusts ?t (wd_files wd) ?dir v")
      case True
      then obtain hit where hit: "cache_hit ?t m ?dir v = Inr (Some hit)"
        using cache_hit_seen [OF assms(6), of ?t ?dir v] by simp
      with hit_refined [OF assms(2) inv assms(6,8) off w v assms(11) hit] True None show ?thesis
        by (simp add: call from_cache_or_fetch_def call_path_def supplied_seen_def)
    next
      case False
      then have miss: "cache_hit ?t m ?dir v = Inr None"
        using cache_hit_seen [OF assms(6), of ?t ?dir v] by simp
      with fetch_refined [OF assms(1,2) inv assms(6,8) off w v assms(11,9) miss] False None show ?thesis
        by (simp add: call from_cache_or_fetch_def call_path_def supplied_seen_def)
    qed
  qed
qed

section \<open>A call and its path\<close>

fun string_num :: "string \<Rightarrow> nat" where
  "string_num [] = 0"
| "string_num (c # s) = Suc (code c) + 257 * string_num s"

lemma string_num_inj: "string_num a = string_num b \<Longrightarrow> a = b"
proof (induction a arbitrary: b)
  case Nil
  then show ?case by (cases b) auto
next
  case (Cons c a)
  then obtain d b' where b: "b = d # b'" by (cases b) auto
  have lt: "code x < 256" for x by (cases x) (simp add: code_def of_char_def)
  from Cons.prems b have eq: "Suc (code c) + 257 * string_num a = Suc (code d) + 257 * string_num b'" by simp
  then have "(Suc (code c) + 257 * string_num a) mod 257 = (Suc (code d) + 257 * string_num b') mod 257" by simp
  then have "code c = code d" using lt [of c] lt [of d] by simp
  with eq have "c = d" "string_num a = string_num b'" by (simp_all add: code_def)
  with Cons.IH b show ?case by simp
qed

definition sample_num :: "string \<Rightarrow> nat" where
  "sample_num v = (if v = ''1.2'' then 0 else Suc (string_num v))"

lemma sample_num_inj: "inj_on sample_num A"
  by (auto simp: inj_on_def sample_num_def dest: string_num_inj split: if_splits)

definition sample_world :: disk_world where
  "sample_world = \<lparr>wd_tools = sample_tools, wd_source = sample_source, wd_verify = (\<lambda>_ _ _. True),
     wd_files = Map.empty, wd_dir = [''state'']\<rparr>"

theorem provisioning_refines_machine_witness:
  "refined_by sample_world sample_num (prov_cfg ProvSpecified) (prov_empty (prov_cfg ProvSpecified))
     (call_path sample_world sample_machine sample_request sample_num ''1.2'')
     (provision_resolve (wd_tools sample_world) ''1'' sample_request sample_machine
       (fetch_release (tl_sha256 (wd_tools sample_world)) (wd_source sample_world) (wd_verify sample_world)))"
proof (rule provisioning_refines_machine)
  show "tools_ok (wd_tools sample_world)" using sample_tools_ok by (simp add: sample_world_def)
  show "pg_behavior (prov_cfg ProvSpecified) = ProvSpecified" "0 < pg_versions (prov_cfg ProvSpecified)"
    by (simp_all add: prov_cfg_def)
  show "prov_empty (prov_cfg ProvSpecified) \<in> set (prov_init_states (prov_cfg ProvSpecified))"
    by (simp add: prov_init_states_def)
  show "prov_path (prov_cfg ProvSpecified) (prov_empty (prov_cfg ProvSpecified)) [] =
      Some (prov_empty (prov_cfg ProvSpecified))" by simp
  show "undisturbed sample_machine (wd_files sample_world)"
    by (simp add: sample_world_def undisturbed_def sample_machine_def seen_def fun_eq_iff)
  show "state_dir sample_machine sample_request = Some (wd_dir sample_world)"
    by (simp add: sample_world_def state_dir_def sample_request_def sample_machine_def)
  show "same_cache (wd_tools sample_world) (wd_files sample_world) (wd_dir sample_world) sample_num
      (prov_cfg ProvSpecified) (prov_empty (prov_cfg ProvSpecified))"
    by (auto simp: sample_world_def same_cache_def prov_empty_def trusted_for_def disk_trusts_def)
  show "inj_on sample_num (Collect plain_version)" by (rule sample_num_inj)
  show "normalize_version (case br_version sample_request of Some x \<Rightarrow> x | None \<Rightarrow> ''1'') = Inr ''1.2''"
    by (simp add: sample_request_def normalize_version_def strip_v_def plain_version_def is_alnum_def is_lower_def
        is_digit_def code_def MAX_VERSION_LEN_def)
  show "sample_num ''1.2'' < pg_versions (prov_cfg ProvSpecified)" by (simp add: sample_num_def prov_cfg_def)
  show "br_version sample_request = None \<longrightarrow> sample_num ''1.2'' = CORE_VERSION"
    by (simp add: sample_request_def)
  show "offered (prov_cfg ProvSpecified) (prov_empty (prov_cfg ProvSpecified)) (wanted_of sample_num sample_request ''1.2'')
      (supplied_seen sample_machine (supplied sample_machine sample_request))"
    by (simp add: offered_def prov_empty_def prov_cfg_def wanted_of_def sample_request_def supplied_seen_def
        supplied_def sample_machine_def sample_num_def)
qed

end
