(* ===== verification/Preflight.thy ===== *)
theory Preflight
  imports NameRecords
begin

text \<open>
  Preflight: the report of \<open>crates/microvms-domain/src/preflight.rs\<close>, the procedure of
  \<open>crates/microvms-app/src/preflight.rs\<close>, its specification machine
  \<open>crates/model/src/preflight.rs\<close>, and the refinement between them. A check keeps what decides
  the outcome; its detail and remedy are prose and are dropped. A control plane is what its credential
  chain and its one listing answer, and a run records the calls it makes.
\<close>

section \<open>The report\<close>

record check =
  ck_name :: string
  ck_ok :: bool
  ck_fatal :: bool
  ck_ran :: bool

definition check_pass :: "string \<Rightarrow> check" where
  "check_pass n = \<lparr>ck_name = n, ck_ok = True, ck_fatal = True, ck_ran = True\<rparr>"

definition check_fail :: "string \<Rightarrow> check" where
  "check_fail n = \<lparr>ck_name = n, ck_ok = False, ck_fatal = True, ck_ran = True\<rparr>"

definition check_not_run :: "string \<Rightarrow> check" where
  "check_not_run n = (check_fail n)\<lparr>ck_ran := False\<rparr>"

definition advisory :: "check \<Rightarrow> check" where
  "advisory c = c\<lparr>ck_fatal := False\<rparr>"

definition healthy :: "check list \<Rightarrow> bool" where
  "healthy cs = list_all ck_ok (filter ck_fatal cs)"

record report =
  rp_region :: "region option"
  rp_checks :: "check list"

definition report_ok :: "report \<Rightarrow> bool" where
  "report_ok r = healthy (rp_checks r)"

definition report_check :: "report \<Rightarrow> string \<Rightarrow> check option" where
  "report_check r n = List.find (\<lambda>c. ck_name c = n) (rp_checks r)"

definition region_check :: "region_error + region \<Rightarrow> check" where
  "region_check resolved =
     (case resolved of
        Inr r \<Rightarrow> if is_measured r then check_pass ''region'' else advisory (check_fail ''region'')
      | Inl _ \<Rightarrow> check_fail ''region'')"

section \<open>The procedure\<close>

record control_plane =
  cp_credentials :: bool
  cp_listing :: "nat option"

datatype aws_call = ListManagedMicrovmImages

definition credentials_check :: "control_plane option \<Rightarrow> check" where
  "credentials_check plane =
     (case plane of
        Some p \<Rightarrow> if cp_credentials p then check_pass ''credentials'' else check_fail ''credentials''
      | None \<Rightarrow> check_fail ''credentials'')"

definition service_check :: "control_plane \<Rightarrow> check \<times> aws_call list" where
  "service_check plane =
     ((case cp_listing plane of Some _ \<Rightarrow> check_pass ''service'' | None \<Rightarrow> check_fail ''service''),
      [ListManagedMicrovmImages])"

definition preflight_with ::
  "region_error + region \<Rightarrow> (region \<Rightarrow> control_plane option) \<Rightarrow> report \<times> aws_call list" where
  "preflight_with resolved connect =
     (case resolved of
        Inl e \<Rightarrow>
          (\<lparr>rp_region = None,
            rp_checks = [region_check resolved, check_not_run ''credentials'', check_not_run ''service'']\<rparr>, [])
      | Inr region \<Rightarrow>
          (let plane = connect region; credentials = credentials_check plane;
               (service, calls) =
                 (case plane of
                    Some p \<Rightarrow> if ck_ok credentials then service_check p else (check_not_run ''service'', [])
                  | None \<Rightarrow> (check_not_run ''service'', [])) in
           (\<lparr>rp_region = Some region, rp_checks = [region_check resolved, credentials, service]\<rparr>, calls)))"

section \<open>The specification machine\<close>

datatype region_world = RegionSupported | RegionUnlisted | RegionUnresolvable

datatype service_world = Answers | Denied | ServiceUnreachable

datatype pf_line = LinePass | LineFatal | LineAdvisory | LineNotRun

definition blocks :: "pf_line \<Rightarrow> bool" where
  "blocks l \<longleftrightarrow> l = LineFatal \<or> l = LineNotRun"

datatype pf_behavior =
    PfSpecified | AdvisoryService | ProbeByLaunch | ServiceWithoutCredentials | StopAtFirstFailure

datatype pf_step = StepRegion | StepCredentials | StepService | StepReport | StepDone

record pf_state =
  pf_region :: region_world
  pf_credentials :: bool
  pf_service :: service_world
  pf_step :: pf_step
  pf_lines :: "pf_line option list"
  pf_free_reads :: nat
  pf_billable :: nat
  pf_after_failure :: nat
  pf_ok :: "bool option"

fun region_line :: "region_world \<Rightarrow> pf_line" where
  "region_line RegionSupported = LinePass"
| "region_line RegionUnlisted = LineAdvisory"
| "region_line RegionUnresolvable = LineFatal"

definition pf_specified :: "pf_line list \<Rightarrow> bool" where
  "pf_specified ls = (\<not> list_ex blocks ls)"

definition pf_init :: "region_world \<Rightarrow> bool \<Rightarrow> service_world \<Rightarrow> pf_state" where
  "pf_init r c s =
     \<lparr>pf_region = r, pf_credentials = c, pf_service = s, pf_step = StepRegion,
      pf_lines = [None, None, None], pf_free_reads = 0, pf_billable = 0, pf_after_failure = 0, pf_ok = None\<rparr>"

definition pf_init_states :: "pf_state list" where
  "pf_init_states = [pf_init r c s. r \<leftarrow> [RegionSupported, RegionUnlisted, RegionUnresolvable],
     c \<leftarrow> [True, False], s \<leftarrow> [Answers, Denied, ServiceUnreachable]]"

definition pf_actions :: "pf_state \<Rightarrow> pf_step list" where
  "pf_actions s = (if pf_step s \<noteq> StepDone then [pf_step s] else [])"

definition service_line :: "pf_behavior \<Rightarrow> pf_state \<Rightarrow> pf_line" where
  "service_line b s =
     (if pf_credentials s \<and> pf_service s = Answers then LinePass
      else if b = AdvisoryService then LineAdvisory else LineFatal)"

text \<open>\<open>StopAtFirstFailure\<close>: the lines after the first that blocks are dropped.\<close>

definition stop_lines :: "pf_line option list \<Rightarrow> pf_line option list" where
  "stop_lines ls =
     (let n = length (takeWhile (\<lambda>l. \<not> blocks (case l of Some x \<Rightarrow> x | None \<Rightarrow> LineNotRun)) ls) in
      take (n + 1) ls @ replicate (length ls - (n + 1)) None)"

definition or_line :: "pf_line \<Rightarrow> pf_line option list \<Rightarrow> pf_line list" where
  "or_line d ls = map (\<lambda>l. case l of Some x \<Rightarrow> x | None \<Rightarrow> d) ls"

definition pf_report :: "pf_behavior \<Rightarrow> pf_state \<Rightarrow> pf_state" where
  "pf_report b s =
     (let stops = b = StopAtFirstFailure \<and> list_ex blocks (or_line LineNotRun (pf_lines s));
          kept = (if stops then stop_lines (pf_lines s) else pf_lines s);
          ls = (if stops then or_line LinePass kept else or_line LineNotRun kept) in
      s\<lparr>pf_lines := kept, pf_ok := Some (pf_specified ls), pf_step := StepDone\<rparr>)"

fun pf_apply :: "pf_behavior \<Rightarrow> pf_state \<Rightarrow> pf_step \<Rightarrow> pf_state option" where
  "pf_apply b s StepRegion =
     Some (s\<lparr>pf_lines := (pf_lines s)[0 := Some (region_line (pf_region s))], pf_step := StepCredentials\<rparr>)"
| "pf_apply b s StepCredentials =
     Some (s\<lparr>pf_lines := (pf_lines s)[1 := Some (if pf_region s = RegionUnresolvable then LineNotRun
              else if pf_credentials s then LinePass else LineFatal)], pf_step := StepService\<rparr>)"
| "pf_apply b s StepService =
     (let failed = pf_region s = RegionUnresolvable;
          blocked = failed \<or> \<not> pf_credentials s \<and> b \<noteq> ServiceWithoutCredentials in
      Some
        (if blocked then s\<lparr>pf_lines := (pf_lines s)[2 := Some LineNotRun], pf_step := StepReport\<rparr>
         else
           s\<lparr>pf_lines := (pf_lines s)[2 := Some (service_line b s)], pf_step := StepReport,
             pf_free_reads := pf_free_reads s + (if b = ProbeByLaunch then 0 else 1),
             pf_billable := pf_billable s + (if b = ProbeByLaunch then 1 else 0),
             pf_after_failure := pf_after_failure s + (if failed \<or> \<not> pf_credentials s then 1 else 0)\<rparr>))"
| "pf_apply b s StepReport = Some (pf_report b s)"
| "pf_apply b s StepDone = None"

definition pf_next :: "pf_behavior \<Rightarrow> pf_state \<Rightarrow> pf_step \<Rightarrow> pf_state option" where
  "pf_next b s a = (case pf_apply b s a of Some t \<Rightarrow> if t \<noteq> s then Some t else None | None \<Rightarrow> None)"

fun pf_path :: "pf_behavior \<Rightarrow> pf_state \<Rightarrow> pf_step list \<Rightarrow> pf_state option" where
  "pf_path b s [] = Some s"
| "pf_path b s (a # as) =
     (if a \<in> set (pf_actions s) then Option.bind (pf_next b s a) (\<lambda>t. pf_path b t as) else None)"

definition launchable :: "pf_state \<Rightarrow> bool" where
  "launchable s \<longleftrightarrow> pf_region s \<noteq> RegionUnresolvable \<and> pf_credentials s \<and> pf_service s = Answers"

definition pf_always :: "pf_state \<Rightarrow> bool list" where
  "pf_always s =
     [pf_ok s \<noteq> Some True \<or> launchable s,
      \<not> launchable s \<or> pf_ok s \<noteq> Some False,
      pf_step s \<noteq> StepDone \<or> list_all (\<lambda>l. l \<noteq> None) (pf_lines s),
      pf_billable s = 0,
      pf_after_failure s = 0,
      pf_free_reads s + pf_billable s \<le> 1]"

section \<open>Every run is the one run of its world\<close>

definition pf_steps :: "pf_step list" where
  "pf_steps = [StepRegion, StepCredentials, StepService, StepReport]"

definition pf_lines_of :: "region_world \<Rightarrow> bool \<Rightarrow> service_world \<Rightarrow> pf_line list" where
  "pf_lines_of r c s =
     [region_line r,
      (if r = RegionUnresolvable then LineNotRun else if c then LinePass else LineFatal),
      (if r = RegionUnresolvable \<or> \<not> c then LineNotRun else if s = Answers then LinePass else LineFatal)]"

definition pf_final :: "region_world \<Rightarrow> bool \<Rightarrow> service_world \<Rightarrow> pf_state" where
  "pf_final r c s =
     (pf_init r c s)\<lparr>pf_step := StepDone, pf_lines := map Some (pf_lines_of r c s),
       pf_free_reads := (if r = RegionUnresolvable \<or> \<not> c then 0 else 1),
       pf_ok := Some (pf_specified (pf_lines_of r c s))\<rparr>"

lemmas pf_eval = pf_init_def pf_actions_def pf_next_def pf_report_def or_line_def service_line_def
  pf_specified_def blocks_def pf_final_def pf_lines_of_def pf_steps_def Let_def numeral_2_eq_2

lemma pf_run_final: "pf_path PfSpecified (pf_init r c s) pf_steps = Some (pf_final r c s)"
  by (cases r; cases c; cases s; simp add: pf_eval)

lemma pf_path_forced:
  "pf_path b s as = Some t \<Longrightarrow> pf_path b s bs = Some u \<Longrightarrow> length as \<le> length bs \<Longrightarrow> as = take (length as) bs"
proof (induction as arbitrary: s bs)
  case (Cons a as)
  then obtain b' bs' where bs: "bs = b' # bs'" by (cases bs) auto
  from Cons.prems(1,2) bs have "a = b'" by (auto simp: pf_actions_def split: if_splits)
  with Cons bs show ?case by (auto simp: bind_eq_Some_conv split: if_splits)
qed simp

lemma pf_done_stops: "pf_step s = StepDone \<Longrightarrow> pf_path b s as = Some t \<Longrightarrow> as = []"
  by (cases as) (auto simp: pf_actions_def)

lemma pf_path_prefix:
  "pf_path b s bs = Some u \<Longrightarrow> pf_step u = StepDone \<Longrightarrow> pf_path b s as = Some t \<Longrightarrow> \<exists>n. as = take n bs"
proof (induction bs arbitrary: s as)
  case Nil
  then show ?case using pf_done_stops [of s b as t] by simp
next
  case (Cons b' bs)
  show ?case
  proof (cases as)
    case (Cons a as')
    with Cons.prems have "a = b'" by (auto simp: pf_actions_def split: if_splits)
    with Cons Cons.prems obtain v where "pf_path b v bs = Some u" "pf_path b v as' = Some t"
      by (auto simp: bind_eq_Some_conv split: if_splits)
    from Cons.IH [OF this(1) Cons.prems(2) this(2)] obtain n where "as' = take n bs" by blast
    with Cons \<open>a = b'\<close> have "as = take (Suc n) (b' # bs)" by simp
    then show ?thesis by blast
  qed (auto intro: exI [of _ 0])
qed

lemma pf_prefix_always:
  assumes "n \<le> 4" and "pf_path PfSpecified (pf_init r c s) (take n pf_steps) = Some t"
  shows "list_all id (pf_always t)"
proof -
  from assms(1) consider "n = 0" | "n = 1" | "n = 2" | "n = 3" | "n = 4" by linarith
  then show ?thesis
    using assms(2)
    by cases (cases r; cases c; cases s; auto simp: pf_eval pf_always_def launchable_def numeral_3_eq_3 eval_nat_numeral)+
qed

lemma pf_run_length: "pf_path PfSpecified (pf_init r c w) as = Some t \<Longrightarrow> \<exists>n \<le> 4. as = take n pf_steps"
proof -
  assume "pf_path PfSpecified (pf_init r c w) as = Some t"
  then obtain n where "as = take n pf_steps"
    using pf_path_prefix [OF pf_run_final, of r c w as t] by (auto simp: pf_final_def)
  then have "as = take (min n 4) pf_steps" by (cases "n \<le> 4") (simp_all add: pf_steps_def)
  then show ?thesis by (intro exI [of _ "min n 4"]) simp
qed

text \<open>
  The machine: every reachable state of the specified procedure, in every world, satisfies each always
  property of BIND-15 and BIND-16, and every run is a prefix of the one that reports.
\<close>

theorem preflight_machine_correct:
  assumes "s \<in> set pf_init_states" and "pf_path PfSpecified s as = Some t"
  shows "list_all id (pf_always t) \<and> (\<exists>n \<le> 4. as = take n pf_steps)"
proof -
  from assms(1) obtain r c w where s: "s = pf_init r c w" by (auto simp: pf_init_states_def)
  from pf_run_length assms(2) s obtain n where n: "n \<le> 4" "as = take n pf_steps" by blast
  with pf_prefix_always [OF n(1)] assms(2) s show ?thesis by auto
qed

section \<open>The procedure refines it\<close>

definition line_of :: "check \<Rightarrow> pf_line" where
  "line_of c =
     (if ck_ok c then LinePass else if \<not> ck_ran c then LineNotRun
      else if ck_fatal c then LineFatal else LineAdvisory)"

definition region_seen :: "region_error + region \<Rightarrow> region_world" where
  "region_seen resolved =
     (case resolved of
        Inr r \<Rightarrow> if is_measured r then RegionSupported else RegionUnlisted
      | Inl _ \<Rightarrow> RegionUnresolvable)"

text \<open>
  A world of the machine a caller's inputs can be in: when no region resolved, nothing is known of the
  credentials or the service; a plane that could not be built has no credentials; and a listing that
  failed was denied or had no answer.
\<close>

definition reads_as ::
  "region_error + region \<Rightarrow> (region \<Rightarrow> control_plane option) \<Rightarrow> region_world \<Rightarrow> bool \<Rightarrow> service_world \<Rightarrow> bool" where
  "reads_as resolved connect r c w \<longleftrightarrow>
     r = region_seen resolved \<and>
     (case resolved of
        Inl _ \<Rightarrow> True
      | Inr region \<Rightarrow>
          (case connect region of
             None \<Rightarrow> \<not> c
           | Some p \<Rightarrow> c = cp_credentials p \<and> (w = Answers \<longleftrightarrow> cp_listing p \<noteq> None)))"

text \<open>
  C29: Preflight refines its specification machine: in every world, the procedure's report has the
  machine's three lines and its verdict, and it makes exactly the machine's one free read and no
  other call; so it says a launch could proceed exactly when the region resolves, the credentials
  resolve and the service answers.
\<close>

theorem preflight_refines_machine:
  assumes "reads_as resolved connect r c w" and "preflight_with resolved connect = (rep, calls)"
  shows "\<exists>t. pf_path PfSpecified (pf_init r c w) pf_steps = Some t \<and> pf_step t = StepDone
    \<and> pf_lines t = map (\<lambda>ck. Some (line_of ck)) (rp_checks rep)
    \<and> pf_ok t = Some (report_ok rep) \<and> pf_free_reads t = length calls \<and> pf_billable t = 0
    \<and> (report_ok rep \<longleftrightarrow> launchable t)"
proof -
  have lines: "map line_of (rp_checks rep) = pf_lines_of r c w
      \<and> length calls = (if r = RegionUnresolvable \<or> \<not> c then 0 else 1)"
    using assms
    by (auto simp: preflight_with_def reads_as_def region_seen_def region_check_def credentials_check_def
        service_check_def pf_lines_of_def line_of_def check_pass_def check_fail_def check_not_run_def
        advisory_def Let_def split: sum.splits option.splits if_splits)
  have "\<forall>k \<in> set (rp_checks rep). (ck_fatal k \<longrightarrow> ck_ok k) \<longleftrightarrow> \<not> blocks (line_of k)"
    using assms(2)
    by (auto simp: preflight_with_def region_check_def credentials_check_def service_check_def line_of_def
        blocks_def check_pass_def check_fail_def check_not_run_def advisory_def Let_def
        split: sum.splits option.splits if_splits prod.splits)
  then have ok: "report_ok rep = pf_specified (pf_lines_of r c w)"
    unfolding lines [THEN conjunct1, symmetric] report_ok_def healthy_def pf_specified_def
    by (auto simp: list_all_iff list_ex_iff)
  have "pf_specified (pf_lines_of r c w) \<longleftrightarrow> launchable (pf_final r c w)"
    by (cases r; cases c; cases w; simp add: pf_eval launchable_def)
  moreover have "map (\<lambda>ck. Some (line_of ck)) (rp_checks rep) = map Some (pf_lines_of r c w)"
    using lines by (metis (no_types, lifting) comp_apply list.map_comp map_cong)
  ultimately show ?thesis
    using pf_run_final [of r c w] lines ok by (simp add: pf_final_def pf_init_def)
qed

definition sample_connect :: "region \<Rightarrow> control_plane option" where
  "sample_connect r = Some \<lparr>cp_credentials = True, cp_listing = Some 2\<rparr>"

theorem preflight_refines_machine_witness:
  "\<exists>t. pf_path PfSpecified (pf_init RegionSupported True Answers) pf_steps = Some t \<and> launchable t"
proof -
  have w: "reads_as (Inr UsEast1) sample_connect RegionSupported True Answers"
    by (simp add: reads_as_def region_seen_def sample_connect_def is_measured_def MEASURED_REGIONS_def)
  have r: "preflight_with (Inr UsEast1) sample_connect =
      (\<lparr>rp_region = Some UsEast1, rp_checks = [check_pass ''region'', check_pass ''credentials'', check_pass ''service'']\<rparr>,
       [ListManagedMicrovmImages])"
    by (simp add: preflight_with_def sample_connect_def credentials_check_def service_check_def region_check_def
        is_measured_def MEASURED_REGIONS_def check_pass_def)
  have "report_ok \<lparr>rp_region = Some UsEast1,
      rp_checks = [check_pass ''region'', check_pass ''credentials'', check_pass ''service'']\<rparr>"
    by (simp add: report_ok_def healthy_def check_pass_def)
  with preflight_refines_machine [OF w r] show ?thesis by blast
qed

section \<open>The rejected procedures\<close>

definition pf_breaks :: "pf_behavior \<Rightarrow> pf_state \<Rightarrow> nat \<Rightarrow> bool" where
  "pf_breaks b s i =
     (case pf_path b s pf_steps of Some t \<Rightarrow> \<not> pf_always t ! i | None \<Rightarrow> False)"

theorem rejected_preflights_break:
  "pf_breaks AdvisoryService (pf_init RegionSupported True ServiceUnreachable) 0"
  "pf_breaks ProbeByLaunch (pf_init RegionSupported True Answers) 3"
  "pf_breaks ServiceWithoutCredentials (pf_init RegionSupported False Answers) 4"
  "pf_breaks StopAtFirstFailure (pf_init RegionUnresolvable True Answers) 2"
  by (simp_all add: pf_breaks_def pf_eval pf_always_def launchable_def stop_lines_def eval_nat_numeral)

end
