(* ===== verification/ControlRetry.thy ===== *)
theory ControlRetry
  imports ClientErrors NameRecords
begin

text \<open>
  One control-plane call, \<open>crates/microvms-app/src/control/transport.rs\<close>: how a failed answer
  is classified, and how \<open>send_cancellable\<close> retries it under an optional throttle budget. The
  transport, the jittered delays and the clock are what each round of the loop meets; the JSON reader
  of an error body is an argument.
\<close>

section \<open>Answers and their classification\<close>

record reply =
  rp_status :: nat
  rp_body :: bytes
  rp_error_type :: "string option"

definition reply_success :: "reply \<Rightarrow> bool" where
  "reply_success r \<longleftrightarrow> 200 \<le> rp_status r \<and> rp_status r < 300"

definition HEADER_COLON :: char where "HEADER_COLON = CHR '':''"
definition HASH :: char where "HASH = CHR ''#''"

definition error_type_name :: "string \<Rightarrow> string" where
  "error_type_name header =
     (let name = hd (split_on HEADER_COLON header)
      in str_trim (case split_once HASH name of None \<Rightarrow> name | Some (_, after) \<Rightarrow> after))"

definition THROTTLING :: string where "THROTTLING = ''ThrottlingException''"

text \<open>What a refusal says: one constructor for each explanation of the match.\<close>

datatype availability = CarriesMicrovms string | NotInList string | RegionUnknown

datatype explanation =
    NamedThrottle nat | ServiceRefused | QuotaExceeded | NullDenial string availability | GenuineDenial
  | DoesNotExist | StateForbids | Throttled429 | ServiceFault | UnmodelledStatus

record call_error =
  ce_kind :: error_kind
  ce_throttled :: bool
  ce_operation :: string
  ce_detail :: string
  ce_why :: "explanation option"

definition null_message_denial :: "string \<Rightarrow> region option \<Rightarrow> explanation" where
  "null_message_denial operation r =
     NullDenial operation
       (case r of
          None \<Rightarrow> RegionUnknown
        | Some g \<Rightarrow> if is_measured g then CarriesMicrovms (region_as_str g) else NotInList (region_as_str g))"

definition names_throttle :: "reply \<Rightarrow> bool" where
  "names_throttle r \<longleftrightarrow> rp_error_type r = Some THROTTLING"

definition classify_status :: "string \<Rightarrow> reply \<Rightarrow> region option \<Rightarrow> string \<Rightarrow> error_kind \<times> explanation" where
  "classify_status operation r g detail =
     (let s = rp_status r in
      if names_throttle r then (Retryable, NamedThrottle s)
      else if s = 400 then (Platform, ServiceRefused)
      else if s = 402 then (Platform, QuotaExceeded)
      else if s = 403 \<and> detail = [] then (Credentials, null_message_denial operation g)
      else if s = 403 then (Credentials, GenuineDenial)
      else if s = 404 then (Platform, DoesNotExist)
      else if s = 409 then (Platform, StateForbids)
      else if s = 429 then (Retryable, Throttled429)
      else if 500 \<le> s then (Retryable, ServiceFault)
      else (Platform, UnmodelledStatus))"

text \<open>\<open>message_of\<close> reads the member of that name of an error body, if there is one.\<close>

definition classify_failure_in_region ::
  "(bytes \<Rightarrow> string option) \<Rightarrow> string \<Rightarrow> reply \<Rightarrow> region option \<Rightarrow> call_error" where
  "classify_failure_in_region message_of operation r g =
     (let detail = str_trim (case message_of (rp_body r) of None \<Rightarrow> [] | Some m \<Rightarrow> m);
          (kind, why) = classify_status operation r g detail
      in \<lparr>ce_kind = kind, ce_throttled = (rp_status r = 429 \<or> names_throttle r),
          ce_operation = operation, ce_detail = detail, ce_why = Some why\<rparr>)"

definition classify_failure :: "(bytes \<Rightarrow> string option) \<Rightarrow> string \<Rightarrow> reply \<Rightarrow> call_error" where
  "classify_failure message_of operation r = classify_failure_in_region message_of operation r None"

definition call_retryable :: "call_error \<Rightarrow> bool" where
  "call_retryable e \<longleftrightarrow> kind_retryable (ce_kind e)"

lemma classified_retryable:
  "call_retryable (classify_failure_in_region m op r g) \<longleftrightarrow>
     names_throttle r \<or> rp_status r = 429 \<or> 500 \<le> rp_status r"
  by (simp add: call_retryable_def classify_failure_in_region_def classify_status_def kind_retryable_def
      Let_def)

lemma classified_throttled:
  "ce_throttled (classify_failure_in_region m op r g) \<longleftrightarrow> names_throttle r \<or> rp_status r = 429"
  by (auto simp: classify_failure_in_region_def Let_def split: prod.split)

lemma throttled_is_retryable:
  "ce_throttled (classify_failure_in_region m op r g) \<Longrightarrow>
     call_retryable (classify_failure_in_region m op r g)"
  by (auto simp: classified_retryable classified_throttled)

section \<open>The budget\<close>

text \<open>Times are nanoseconds; a \<open>Duration\<close> holds a \<open>u64\<close> of seconds and the rest of one.\<close>

definition DURATION_MAX_NS :: nat where
  "DURATION_MAX_NS = 2 ^ 64 * 1000000000 - 1"

record retry_policy =
  max_attempts :: nat
  max_elapsed :: nat

definition retry_policy_new :: "nat \<Rightarrow> nat \<Rightarrow> error_kind + retry_policy" where
  "retry_policy_new attempts elapsed =
     (if attempts = 0 \<or> elapsed = 0 then Inl InvalidArg
      else Inr \<lparr>max_attempts = attempts, max_elapsed = elapsed\<rparr>)"

record retry_details =
  attempt_count :: nat
  backed_off :: nat

text \<open>
  One round: whether the call was cancelled by its start, what the transport answered, the next delay,
  the clock after the answer, how the sleep ended, whether a cancellation came during it, and the clock
  after it. \<open>Woken\<close> is the cancellation winning the \<open>select\<close>.
\<close>

datatype nap = Slept | Woken

record round =
  rd_cancelled :: bool
  rd_answer :: "call_error + reply"
  rd_delay :: nat
  rd_elapsed :: nat
  rd_nap :: nap
  rd_wake :: nat

record sender =
  sn_message_of :: "bytes \<Rightarrow> string option"
  sn_operation :: string
  sn_region :: "region option"
  sn_accept :: "nat list"
  sn_policy :: "retry_policy option"
  sn_cancellable :: bool
  sn_started :: nat

definition judge :: "sender \<Rightarrow> call_error + reply \<Rightarrow> call_error + reply" where
  "judge sn a =
     (case a of
        Inr r \<Rightarrow>
          if reply_success r \<or> rp_status r \<in> set (sn_accept sn) then Inr r
          else Inl (classify_failure_in_region (sn_message_of sn) (sn_operation sn) r (sn_region sn))
      | Inl e \<Rightarrow> Inl e)"

definition allowed :: "sender \<Rightarrow> call_error \<Rightarrow> nat \<Rightarrow> nat \<Rightarrow> round \<Rightarrow> bool" where
  "allowed sn e attempts ordinary rd =
     (case sn_policy sn of
        Some p \<Rightarrow>
          if ce_throttled e
          then attempts < max_attempts p \<and>
               min DURATION_MAX_NS (rd_elapsed rd - sn_started sn + rd_delay rd) < max_elapsed p
          else ordinary < 5
      | None \<Rightarrow> ordinary < 5)"

definition counts_ordinary :: "sender \<Rightarrow> call_error \<Rightarrow> bool" where
  "counts_ordinary sn e \<longleftrightarrow> \<not> (ce_throttled e \<and> sn_policy sn \<noteq> None)"

definition overslept :: "sender \<Rightarrow> call_error \<Rightarrow> round \<Rightarrow> bool" where
  "overslept sn e rd \<longleftrightarrow>
     ce_throttled e \<and>
     (case sn_policy sn of None \<Rightarrow> False | Some p \<Rightarrow> max_elapsed p \<le> rd_wake rd - sn_started sn)"

definition interrupted :: call_error where
  "interrupted = \<lparr>ce_kind = Interrupted, ce_throttled = False, ce_operation = [], ce_detail = [], ce_why = None\<rparr>"

definition budget :: "sender \<Rightarrow> nat \<Rightarrow> nat \<Rightarrow> nat" where
  "budget sn attempts ordinary =
     (case sn_policy sn of None \<Rightarrow> 0 | Some p \<Rightarrow> max_attempts p - 1 - attempts) + (5 - ordinary)"

text \<open>
  The loop of \<open>send_cancellable\<close>. The round met is the one the number of attempts so far selects, since
  each round sends once; \<open>woken\<close> says that a wait ended by the cancellation, which is never taken
  back.
\<close>

function send_loop ::
  "sender \<Rightarrow> (nat \<Rightarrow> round) \<Rightarrow> nat \<Rightarrow> nat \<Rightarrow> nat \<Rightarrow> bool \<Rightarrow>
     (call_error \<times> retry_details) + (reply \<times> retry_details)" where
  "send_loop sn rounds attempts ordinary slept woken =
     (let rd = rounds attempts in
      if sn_cancellable sn \<and> (woken \<or> rd_cancelled rd)
      then Inl (interrupted, \<lparr>attempt_count = attempts, backed_off = slept\<rparr>)
      else
        (case judge sn (rd_answer rd) of
           Inr r \<Rightarrow> Inr (r, \<lparr>attempt_count = attempts + 1, backed_off = slept\<rparr>)
         | Inl e \<Rightarrow>
             if \<not> call_retryable e \<or> \<not> allowed sn e (attempts + 1) ordinary rd
             then Inl (e, \<lparr>attempt_count = attempts + 1, backed_off = slept\<rparr>)
             else
               (let ordinary' = (if counts_ordinary sn e then ordinary + 1 else ordinary) in
                if sn_cancellable sn \<and> rd_nap rd = Woken
                then send_loop sn rounds (attempts + 1) ordinary' slept True
                else if overslept sn e rd
                then Inl (e, \<lparr>attempt_count = attempts + 1, backed_off = slept + rd_delay rd\<rparr>)
                else send_loop sn rounds (attempts + 1) ordinary' (slept + rd_delay rd) woken)))"
  by pat_completeness auto

lemma budget_falls:
  assumes "allowed sn e (Suc a) ord rd"
  shows "budget sn (Suc a) (if counts_ordinary sn e then Suc ord else ord) < budget sn a ord"
  using assms by (auto simp: allowed_def budget_def counts_ordinary_def split: option.splits if_splits)

termination send_loop
  by (relation "measure (\<lambda>(sn, rounds, a, ord, slept, woken). budget sn a ord)")
    (auto dest: budget_falls)

declare send_loop.simps [simp del]

definition send_cancellable where
  "send_cancellable sn rounds = send_loop sn rounds 0 0 0 False"

definition send_configured where
  "send_configured sn rounds = send_cancellable (sn\<lparr>sn_cancellable := False\<rparr>) rounds"

section \<open>What every call keeps to\<close>

definition details :: "(call_error \<times> retry_details) + (reply \<times> retry_details) \<Rightarrow> retry_details" where
  "details res = (case res of Inl (_, d) \<Rightarrow> d | Inr (_, d) \<Rightarrow> d)"

lemma details_simps [simp]: "details (Inl (e, d)) = d" "details (Inr (r, d)) = d"
  by (simp_all add: details_def)

text \<open>The failure of one round that the loop went on from.\<close>

definition went_on :: "sender \<Rightarrow> round \<Rightarrow> nat \<Rightarrow> bool" where
  "went_on sn rd i \<longleftrightarrow>
     (case judge sn (rd_answer rd) of
        Inr _ \<Rightarrow> False
      | Inl e \<Rightarrow>
          call_retryable e \<and>
          (case sn_policy sn of
             None \<Rightarrow> True
           | Some p \<Rightarrow>
               ce_throttled e \<longrightarrow>
                 Suc i < max_attempts p \<and>
                 min DURATION_MAX_NS (rd_elapsed rd - sn_started sn + rd_delay rd) < max_elapsed p \<and>
                 (sn_cancellable sn \<and> rd_nap rd = Woken \<or> rd_wake rd - sn_started sn < max_elapsed p)))"

text \<open>The case split every proof about the loop makes.\<close>

lemma send_loop_cases:
  obtains
    (cancelled) "sn_cancellable sn" "w \<or> rd_cancelled (rounds a)"
      "send_loop sn rounds a ord sl w = Inl (interrupted, \<lparr>attempt_count = a, backed_off = sl\<rparr>)"
  | (answered) r where "judge sn (rd_answer (rounds a)) = Inr r"
      "send_loop sn rounds a ord sl w = Inr (r, \<lparr>attempt_count = Suc a, backed_off = sl\<rparr>)"
  | (refused) e where "judge sn (rd_answer (rounds a)) = Inl e"
      "\<not> call_retryable e \<or> \<not> allowed sn e (Suc a) ord (rounds a)"
      "send_loop sn rounds a ord sl w = Inl (e, \<lparr>attempt_count = Suc a, backed_off = sl\<rparr>)"
  | (late) e where "judge sn (rd_answer (rounds a)) = Inl e" "call_retryable e"
      "allowed sn e (Suc a) ord (rounds a)" "overslept sn e (rounds a)"
      "send_loop sn rounds a ord sl w =
         Inl (e, \<lparr>attempt_count = Suc a, backed_off = sl + rd_delay (rounds a)\<rparr>)"
  | (again) e sl' w' where "judge sn (rd_answer (rounds a)) = Inl e" "call_retryable e"
      "allowed sn e (Suc a) ord (rounds a)"
      "w' \<and> sn_cancellable sn \<and> rd_nap (rounds a) = Woken \<and> sl' = sl \<or>
       w' = w \<and> \<not> overslept sn e (rounds a) \<and> sl' = sl + rd_delay (rounds a)"
      "send_loop sn rounds a ord sl w =
         send_loop sn rounds (Suc a) (if counts_ordinary sn e then Suc ord else ord) sl' w'"
proof (cases "sn_cancellable sn \<and> (w \<or> rd_cancelled (rounds a))")
  case True
  then show ?thesis by (intro cancelled) (simp_all add: send_loop.simps [of sn rounds a] Let_def)
next
  case nc: False
  show ?thesis
  proof (cases "judge sn (rd_answer (rounds a))")
    case (Inr r)
    with nc show ?thesis by (intro answered) (simp_all add: send_loop.simps [of sn rounds a] Let_def)
  next
    case (Inl e)
    show ?thesis
    proof (cases "\<not> call_retryable e \<or> \<not> allowed sn e (Suc a) ord (rounds a)")
      case True
      with nc Inl show ?thesis by (intro refused) (auto simp: send_loop.simps [of sn rounds a] Let_def)
    next
      case ok: False
      show ?thesis
      proof (cases "sn_cancellable sn \<and> rd_nap (rounds a) = Woken")
        case True
        with nc Inl ok show ?thesis
          by (intro again [of e True sl]) (simp_all add: send_loop.simps [of sn rounds a] Let_def)
      next
        case nw: False
        show ?thesis
        proof (cases "overslept sn e (rounds a)")
          case True
          with nc Inl ok nw show ?thesis by (intro late) (auto simp: send_loop.simps [of sn rounds a] Let_def)
        next
          case False
          with nc Inl ok nw show ?thesis
            by (intro again [of e w "sl + rd_delay (rounds a)"]) (auto simp: send_loop.simps [of sn rounds a] Let_def)
        qed
      qed
    qed
  qed
qed

text \<open>An induction over the rounds that go on, with what each of them leaves.\<close>

lemma send_loop_bounds:
  "a \<le> attempt_count (details (send_loop sn rounds a ord sl w)) \<and>
   attempt_count (details (send_loop sn rounds a ord sl w)) \<le> Suc (a + budget sn a ord)"
proof (induction "budget sn a ord" arbitrary: a ord sl w rule: less_induct)
  case less
  show ?case
  proof (cases rule: send_loop_cases [of sn w rounds a ord sl])
    case (again e sl' w')
    let ?o = "if counts_ordinary sn e then Suc ord else ord"
    have fall: "budget sn (Suc a) ?o < budget sn a ord"
      using again(3) by (rule budget_falls)
    from less [OF fall, of sl' w'] fall show ?thesis
      unfolding again(5) by linarith
  qed simp_all
qed

lemma went_on_again:
  assumes "judge sn (rd_answer rd) = Inl e" and "call_retryable e" and "allowed sn e (Suc a) ord rd"
    and "w' \<and> sn_cancellable sn \<and> rd_nap rd = Woken \<and> sl' = sl \<or>
       w' = w \<and> \<not> overslept sn e rd \<and> sl' = sl + rd_delay rd"
  shows "went_on sn rd a"
  using assms
  by (auto simp: went_on_def allowed_def overslept_def not_le split: option.splits if_splits)

lemma send_loop_went_on:
  "a \<le> i \<Longrightarrow> Suc i < attempt_count (details (send_loop sn rounds a ord sl w)) \<Longrightarrow>
     went_on sn (rounds i) i"
proof (induction "budget sn a ord" arbitrary: a ord sl w rule: less_induct)
  case less
  show ?case
  proof (cases rule: send_loop_cases [of sn w rounds a ord sl])
    case (again e sl' w')
    let ?o = "if counts_ordinary sn e then Suc ord else ord"
    show ?thesis
    proof (cases "i = a")
      case True
      with again went_on_again show ?thesis by blast
    next
      case False
      have "Suc i < attempt_count (details (send_loop sn rounds (Suc a) ?o sl' w'))"
        using less.prems(2) unfolding again(5) .
      moreover have "Suc a \<le> i" using False less.prems(1) by simp
      ultimately show ?thesis
        using less.hyps [OF budget_falls [OF again(3)]] by blast
    qed
  qed (use less.prems in auto)
qed

lemma send_loop_delivers:
  "send_loop sn rounds a ord sl w = Inr (r, d) \<Longrightarrow>
     a < attempt_count d \<and> judge sn (rd_answer (rounds (attempt_count d - 1))) = Inr r"
proof (induction "budget sn a ord" arbitrary: a ord sl w rule: less_induct)
  case less
  show ?case
  proof (cases rule: send_loop_cases [of sn w rounds a ord sl])
    case (again e sl' w')
    with less.hyps [OF budget_falls [OF again(3)], of sl' w'] less.prems show ?thesis by auto
  qed (use less.prems in auto)
qed

lemma send_loop_refuses:
  "send_loop sn rounds a ord sl w = Inl (e, d) \<Longrightarrow>
     e = interrupted \<and> sn_cancellable sn \<or>
     a < attempt_count d \<and> judge sn (rd_answer (rounds (attempt_count d - 1))) = Inl e"
proof (induction "budget sn a ord" arbitrary: a ord sl w rule: less_induct)
  case less
  show ?case
  proof (cases rule: send_loop_cases [of sn w rounds a ord sl])
    case (again f sl' w')
    with less.hyps [OF budget_falls [OF again(3)], of sl' w'] less.prems show ?thesis by auto
  qed (use less.prems in auto)
qed

text \<open>Without a cancellation the backoff is the sum of the delays slept.\<close>

lemma send_loop_backoff:
  "send_loop sn rounds a ord sl w = Inr (r, d) \<Longrightarrow> \<not> sn_cancellable sn \<Longrightarrow>
     backed_off d = sl + (\<Sum>i = a..<attempt_count d - 1. rd_delay (rounds i))"
proof (induction "budget sn a ord" arbitrary: a ord sl w rule: less_induct)
  case less
  show ?case
  proof (cases rule: send_loop_cases [of sn w rounds a ord sl])
    case (again e sl' w')
    let ?o = "if counts_ordinary sn e then Suc ord else ord"
    have res: "send_loop sn rounds (Suc a) ?o sl' w' = Inr (r, d)"
      using less.prems(1) again(5) by simp
    have sl: "sl' = sl + rd_delay (rounds a)" using again(4) less.prems(2) by blast
    have "a < attempt_count d - 1" using send_loop_delivers [OF res] by linarith
    then have "(\<Sum>i = a..<attempt_count d - 1. rd_delay (rounds i)) =
        rd_delay (rounds a) + (\<Sum>i = Suc a..<attempt_count d - 1. rd_delay (rounds i))"
      by (simp add: sum.atLeast_Suc_lessThan)
    with less.hyps [OF budget_falls [OF again(3)] res less.prems(2)] sl show ?thesis by simp
  qed (use less.prems in auto)
qed

text \<open>The budget of ordinary retries alone, where no answer is a throttle.\<close>

lemma send_loop_ordinary:
  "\<forall>i. case judge sn (rd_answer (rounds i)) of Inl e \<Rightarrow> \<not> ce_throttled e | Inr _ \<Rightarrow> True \<Longrightarrow>
     attempt_count (details (send_loop sn rounds a ord sl w)) \<le> Suc (a + (5 - ord))"
proof (induction "budget sn a ord" arbitrary: a ord sl w rule: less_induct)
  case less
  show ?case
  proof (cases rule: send_loop_cases [of sn w rounds a ord sl])
    case (again e sl' w')
    have "\<not> ce_throttled e" using less.prems [rule_format, of a] again(1) by simp
    then have o: "counts_ordinary sn e" "ord < 5"
      using again(3) by (auto simp: counts_ordinary_def allowed_def split: option.splits)
    from less.hyps [OF budget_falls [OF again(3)] less.prems, of sl' w'] o show ?thesis
      unfolding again(5) by simp
  qed simp_all
qed

lemma ordinary_call_tries_six_times:
  assumes "sn_policy sn = None"
  shows "attempt_count (details (send_cancellable sn rounds)) \<le> 6"
  using send_loop_bounds [of 0 sn rounds 0 0 False] assms by (simp add: send_cancellable_def budget_def)

lemma plain_failures_try_six_times:
  "\<forall>i. case judge sn (rd_answer (rounds i)) of Inl e \<Rightarrow> \<not> ce_throttled e | Inr _ \<Rightarrow> True \<Longrightarrow>
     attempt_count (details (send_cancellable sn rounds)) \<le> 6"
  using send_loop_ordinary [of sn rounds 0 0 0 False] by (simp add: send_cancellable_def)

lemma policy_positive: "retry_policy_new m t = Inr p \<longleftrightarrow> 0 < m \<and> 0 < t \<and> p = \<lparr>max_attempts = m, max_elapsed = t\<rparr>"
  by (auto simp: retry_policy_new_def)

definition all_throttles :: "sender \<Rightarrow> (nat \<Rightarrow> round) \<Rightarrow> bool" where
  "all_throttles sn rounds \<longleftrightarrow>
     (\<forall>i. case judge sn (rd_answer (rounds i)) of Inl e \<Rightarrow> ce_throttled e | Inr _ \<Rightarrow> True)"

lemma went_on_Some:
  assumes "went_on sn rd i" and "sn_policy sn = Some \<lparr>max_attempts = m, max_elapsed = t\<rparr>"
    and "t \<le> DURATION_MAX_NS" and "\<not> sn_cancellable sn"
  shows "\<exists>e. judge sn (rd_answer rd) = Inl e \<and> call_retryable e \<and>
    (ce_throttled e \<longrightarrow> Suc i < m \<and> rd_elapsed rd - sn_started sn + rd_delay rd < t \<and>
       rd_wake rd - sn_started sn < t)"
  using assms by (auto simp: went_on_def split: sum.splits)

lemma throttled_calls_bound:
  assumes "sn_policy sn = Some \<lparr>max_attempts = m, max_elapsed = t\<rparr>" and "0 < m" and "all_throttles sn rounds"
  shows "attempt_count (details (send_loop sn rounds 0 0 0 False)) \<le> m"
proof (rule ccontr)
  let ?n = "attempt_count (details (send_loop sn rounds 0 0 0 False))"
  assume "\<not> ?n \<le> m"
  with assms(2) have n: "Suc (?n - 2) < ?n" "m \<le> Suc (?n - 2)" by linarith+
  from assms(3) have "case judge sn (rd_answer (rounds (?n - 2))) of Inl e \<Rightarrow> ce_throttled e | Inr _ \<Rightarrow> True"
    by (simp add: all_throttles_def)
  moreover have "went_on sn (rounds (?n - 2)) (?n - 2)"
    using n(1) by (intro send_loop_went_on [of 0]) simp_all
  ultimately show False
    using n(2) assms(1) by (auto simp: went_on_def split: sum.splits)
qed

text \<open>The repeats among the requests from one to another that followed a failure which is no throttle.\<close>

definition plain_failure :: "sender \<Rightarrow> round \<Rightarrow> bool" where
  "plain_failure sn rd \<longleftrightarrow>
     (case judge sn (rd_answer rd) of Inl e \<Rightarrow> \<not> ce_throttled e | Inr _ \<Rightarrow> False)"

definition plain_repeats :: "sender \<Rightarrow> (nat \<Rightarrow> round) \<Rightarrow> nat \<Rightarrow> nat \<Rightarrow> nat" where
  "plain_repeats sn rounds a n = length (filter (\<lambda>i. plain_failure sn (rounds i)) [a..<n - 1])"

lemma plain_repeats_step:
  "a < n - 1 \<Longrightarrow> plain_repeats sn rounds a n =
     (if plain_failure sn (rounds a) then 1 else 0) + plain_repeats sn rounds (Suc a) n"
  by (simp add: plain_repeats_def upt_conv_Cons)

lemma plain_repeats_none [simp]: "n \<le> Suc a \<Longrightarrow> plain_repeats sn rounds a n = 0"
  by (simp add: plain_repeats_def)

text \<open>Why a call under a budget gave up with the failure of its last request.\<close>

definition gave_up_rightly :: "nat \<Rightarrow> nat \<Rightarrow> nat \<Rightarrow> call_error \<Rightarrow> round \<Rightarrow> nat \<Rightarrow> nat \<Rightarrow> bool" where
  "gave_up_rightly m t started e rd n plain \<longleftrightarrow>
     \<not> call_retryable e \<or>
     (if ce_throttled e
      then m \<le> n \<or> t \<le> rd_elapsed rd - started + rd_delay rd \<or> t \<le> rd_wake rd - started
      else plain = 5)"

lemma send_loop_plain:
  assumes "sn_policy sn = Some \<lparr>max_attempts = m, max_elapsed = t\<rparr>" and "t \<le> DURATION_MAX_NS"
    and "\<not> sn_cancellable sn"
  shows "ord \<le> 5 \<Longrightarrow> res = send_loop sn rounds a ord sl False \<Longrightarrow> n = attempt_count (details res) \<Longrightarrow>
    ord + plain_repeats sn rounds a n \<le> 5 \<and>
    (case res of
       Inl (e, d) \<Rightarrow>
         gave_up_rightly m t (sn_started sn) e (rounds (n - 1)) n (ord + plain_repeats sn rounds a n)
     | Inr _ \<Rightarrow> True)"
proof (induction "budget sn a ord" arbitrary: a ord sl rule: less_induct)
  case less
  show ?case
  proof (cases rule: send_loop_cases [of sn False rounds a ord sl])
    case cancelled
    then show ?thesis using assms(3) by simp
  next
    case (answered r)
    then show ?thesis using less.prems by simp
  next
    case (refused e)
    then show ?thesis
      using less.prems assms(1,2) by (auto simp: gave_up_rightly_def allowed_def not_less min_def split: if_splits)
  next
    case (late e)
    then show ?thesis
      using less.prems assms(1) by (auto simp: gave_up_rightly_def overslept_def)
  next
    case (again e sl' w')
    let ?o = "if counts_ordinary sn e then Suc ord else ord"
    have w: "w' = False" using again(4) assms(3) by blast
    have step: "?o = ord + (if plain_failure sn (rounds a) then 1 else 0)" "?o \<le> 5"
      using again(1,3) assms(1) less.prems(1)
      by (auto simp: plain_failure_def counts_ordinary_def allowed_def split: if_splits)
    have res: "res = send_loop sn rounds (Suc a) ?o sl' False" using less.prems(2) again(5) w by simp
    have "Suc a \<le> n" using send_loop_bounds [of "Suc a" sn rounds ?o sl' False] less.prems(3) res by simp
    then consider "n = Suc a" | "a < n - 1" by linarith
    then show ?thesis
    proof cases
      case 1
      have "attempt_count (details (send_loop sn rounds (Suc a) ?o sl' False)) \<noteq> Suc a"
        using send_loop_delivers [of sn rounds "Suc a" ?o sl' False]
          send_loop_refuses [of sn rounds "Suc a" ?o sl' False] assms(3)
        by (cases "send_loop sn rounds (Suc a) ?o sl' False") (auto simp: details_def)
      with 1 res less.prems(3) show ?thesis by simp
    next
      case 2
      have "?o + plain_repeats sn rounds (Suc a) n = ord + plain_repeats sn rounds a n"
        using step(1) plain_repeats_step [OF 2, of sn rounds] by (simp only: add.assoc)
      with less.hyps [OF budget_falls [OF again(3)] step(2) res less.prems(3)] show ?thesis by metis
    qed
  qed
qed

text \<open>
  C30: a call of the control plane under a throttle budget of m attempts and t elapsed returns after at
  most m + 5 requests, after m when every failure is a throttle, and repeats at most five times after
  a failure that is no throttle. Each request after the first follows a retryable failure. Only after
  a throttle is it held to the budget: it was within the attempts, the sleep fitted the time, and the
  request begins before the deadline. After another retryable failure, a 5xx or a lost connection, the
  five ordinary repeats are the only bound, and one may begin after the deadline. The call answers
  what the last request answered, gives up only over a failure that is final or whose allowance is
  spent, and the backoff it reports with an answer is the sum of the delays it slept.
\<close>

theorem call_keeps_its_budget:
  assumes "retry_policy_new m t = Inr p" and "t \<le> DURATION_MAX_NS"
    and "sn_policy sn = Some p" and "res = send_configured sn rounds" and "n = attempt_count (details res)"
  shows "1 \<le> n \<and> n \<le> m + 5 \<and> (all_throttles sn rounds \<longrightarrow> n \<le> m) \<and> plain_repeats sn rounds 0 n \<le> 5 \<and>
    (\<forall>i. Suc i < n \<longrightarrow>
       (\<exists>e. judge sn (rd_answer (rounds i)) = Inl e \<and> call_retryable e \<and>
         (ce_throttled e \<longrightarrow>
            Suc i < m \<and> rd_elapsed (rounds i) - sn_started sn + rd_delay (rounds i) < t \<and>
            rd_wake (rounds i) - sn_started sn < t))) \<and>
    (case res of
       Inr (r, d) \<Rightarrow>
         judge sn (rd_answer (rounds (n - 1))) = Inr r \<and>
         backed_off d = (\<Sum>i = 0..<n - 1. rd_delay (rounds i))
     | Inl (e, d) \<Rightarrow>
         judge sn (rd_answer (rounds (n - 1))) = Inl e \<and>
         gave_up_rightly m t (sn_started sn) e (rounds (n - 1)) n (plain_repeats sn rounds 0 n))"
proof -
  let ?sn = "sn\<lparr>sn_cancellable := False\<rparr>"
  have p: "p = \<lparr>max_attempts = m, max_elapsed = t\<rparr>" "0 < m" using assms(1) by (auto simp: policy_positive)
  have pol: "sn_policy ?sn = Some \<lparr>max_attempts = m, max_elapsed = t\<rparr>" using assms(3) p by simp
  have res: "res = send_loop ?sn rounds 0 0 0 False"
    using assms(4) by (simp add: send_configured_def send_cancellable_def)
  have j [simp]: "judge ?sn = judge sn" by (auto simp: judge_def fun_eq_iff split: sum.split)
  have thr: "all_throttles ?sn rounds = all_throttles sn rounds" by (simp add: all_throttles_def)
  have rep: "plain_repeats ?sn rounds 0 n = plain_repeats sn rounds 0 n"
    by (simp add: plain_repeats_def plain_failure_def)
  have lo: "1 \<le> n"
    using send_loop_delivers [of ?sn rounds 0 0 0 False] send_loop_refuses [of ?sn rounds 0 0 0 False]
    by (cases res) (auto simp: res assms(5) details_def split: sum.split prod.split)
  have hi: "n \<le> m + 5"
    using send_loop_bounds [of 0 ?sn rounds 0 0 False] pol p(2) by (simp add: res assms(5) budget_def)
  have all: "all_throttles sn rounds \<Longrightarrow> n \<le> m"
    using throttled_calls_bound [OF pol p(2)] by (simp add: res assms(5) thr)
  have steps: "went_on ?sn (rounds i) i" if "Suc i < n" for i
    using that by (intro send_loop_went_on [of 0]) (simp_all add: res assms(5))
  have each: "\<exists>e. judge sn (rd_answer (rounds i)) = Inl e \<and> call_retryable e \<and>
      (ce_throttled e \<longrightarrow>
         Suc i < m \<and> rd_elapsed (rounds i) - sn_started sn + rd_delay (rounds i) < t \<and>
         rd_wake (rounds i) - sn_started sn < t)" if "Suc i < n" for i
    using went_on_Some [OF steps [OF that] pol assms(2)] by simp
  note plain = send_loop_plain [OF pol assms(2) _ _ res assms(5), unfolded rep]
  have five: "plain_repeats sn rounds 0 n \<le> 5" using plain by simp
  have out: "case res of
       Inr (r, d) \<Rightarrow>
         judge sn (rd_answer (rounds (n - 1))) = Inr r \<and>
         backed_off d = (\<Sum>i = 0..<n - 1. rd_delay (rounds i))
     | Inl (e, d) \<Rightarrow>
         judge sn (rd_answer (rounds (n - 1))) = Inl e \<and>
         gave_up_rightly m t (sn_started sn) e (rounds (n - 1)) n (plain_repeats sn rounds 0 n)"
  proof (cases res)
    case (Inl f)
    then obtain e d where f: "res = Inl (e, d)" by (cases f) simp
    have "judge sn (rd_answer (rounds (n - 1))) = Inl e"
      using send_loop_refuses [of ?sn rounds 0 0 0 False e d] f res assms(5) by simp
    with plain f show ?thesis by simp
  next
    case (Inr g)
    then obtain r d where g: "res = Inr (r, d)" by (cases g) simp
    then have n: "n = attempt_count d" "send_loop ?sn rounds 0 0 0 False = Inr (r, d)"
      using res assms(5) by simp_all
    show ?thesis
      using send_loop_delivers [OF n(2)] send_loop_backoff [OF n(2)] n(1) g by simp
  qed
  show ?thesis using lo hi all five each out by blast
qed

text \<open>A throttle named on an HTTP 400, then an answer, under a budget of two attempts.\<close>

definition example_rounds :: "nat \<Rightarrow> round" where
  "example_rounds i =
     \<lparr>rd_cancelled = False,
      rd_answer = Inr \<lparr>rp_status = (if i = 0 then 400 else 200), rp_body = [],
                       rp_error_type = (if i = 0 then Some THROTTLING else None)\<rparr>,
      rd_delay = 7, rd_elapsed = 3, rd_nap = Slept, rd_wake = 10\<rparr>"

definition example_sender :: sender where
  "example_sender =
     \<lparr>sn_message_of = \<lambda>_. None, sn_operation = ''ListMicrovms'', sn_region = None, sn_accept = [],
      sn_policy = Some \<lparr>max_attempts = 2, max_elapsed = 30\<rparr>, sn_cancellable = False, sn_started = 0\<rparr>"

lemma example_call:
  "attempt_count (details (send_configured example_sender example_rounds)) = 2"
  by (simp add: send_configured_def send_cancellable_def send_loop.simps Let_def judge_def
      example_sender_def example_rounds_def reply_success_def classify_failure_in_region_def
      classify_status_def names_throttle_def call_retryable_def kind_retryable_def allowed_def
      overslept_def DURATION_MAX_NS_def numeral_2_eq_2 str_trim_def)

theorem call_keeps_its_budget_witness:
  "rd_wake (example_rounds 0) < 30 \<and>
   attempt_count (details (send_configured example_sender example_rounds)) \<le> 2 + 5"
proof -
  have p: "retry_policy_new 2 30 = Inr \<lparr>max_attempts = 2, max_elapsed = 30\<rparr>" "30 \<le> DURATION_MAX_NS"
    "sn_policy example_sender = Some \<lparr>max_attempts = 2, max_elapsed = 30\<rparr>" "sn_started example_sender = 0"
    by (simp_all add: retry_policy_new_def DURATION_MAX_NS_def example_sender_def)
  obtain e where e: "judge example_sender (rd_answer (example_rounds 0)) = Inl e"
    "ce_throttled e \<longrightarrow> rd_wake (example_rounds 0) < 30"
    using call_keeps_its_budget [OF p(1-3) refl refl, of example_rounds] p(4) example_call by auto
  have "ce_throttled e" using e(1)
    by (auto simp: judge_def example_sender_def example_rounds_def reply_success_def classified_throttled
        names_throttle_def)
  with e(2) call_keeps_its_budget [OF p(1-3) refl refl, of example_rounds] show ?thesis by blast
qed

text \<open>
  A service fault is sent again after the deadline of the budget: with the whole time of the budget gone before the
  first answer, a 500 is still followed by a second request.
\<close>

definition late_rounds :: "nat \<Rightarrow> round" where
  "late_rounds i =
     \<lparr>rd_cancelled = False,
      rd_answer = Inr \<lparr>rp_status = (if i = 0 then 500 else 200), rp_body = [], rp_error_type = None\<rparr>,
      rd_delay = 7, rd_elapsed = 40 + 10 * i, rd_nap = Slept, rd_wake = 47\<rparr>"

lemma late_fault_is_retried:
  "rd_elapsed (late_rounds 0) - sn_started example_sender > 30 \<and>
   sn_policy example_sender = Some \<lparr>max_attempts = 2, max_elapsed = 30\<rparr> \<and>
   attempt_count (details (send_configured example_sender late_rounds)) = 2"
  by (simp add: send_configured_def send_cancellable_def send_loop.simps Let_def judge_def
      example_sender_def late_rounds_def reply_success_def classify_failure_in_region_def
      classify_status_def names_throttle_def call_retryable_def kind_retryable_def allowed_def
      overslept_def numeral_2_eq_2 str_trim_def)

section \<open>What is retried, and error names\<close>

text \<open>
  A conflict, a refusal, a quota or a missing resource is never sent again, and a throttle is, whatever
  status it came with.
\<close>

lemma settled_answers_are_final:
  "rp_status r \<in> {400, 402, 403, 404, 409} \<Longrightarrow> \<not> names_throttle r \<Longrightarrow>
     \<not> call_retryable (classify_failure_in_region m op r g)"
  by (auto simp: classified_retryable)

lemma named_throttle_is_retried:
  "names_throttle r \<Longrightarrow> call_retryable (classify_failure_in_region m op r g)"
  by (simp add: classified_retryable)

lemma classified_kinds:
  "ce_kind (classify_failure_in_region m op r g) \<in> {Retryable, Platform, Credentials}"
  by (simp add: classify_failure_in_region_def classify_status_def Let_def)

text \<open>The two forms of the header: a name before a colon, and a name after a namespace.\<close>

lemma error_type_of_header:
  assumes "HEADER_COLON \<notin> set name" and "HASH \<notin> set name"
  shows "error_type_name (name @ HEADER_COLON # rest) = str_trim name"
    and "HEADER_COLON \<notin> set ns \<Longrightarrow> HASH \<notin> set ns \<Longrightarrow> error_type_name (ns @ HASH # name) = str_trim name"
proof -
  have "split_once HASH name = None" using assms(2) by (simp add: split_once_None)
  then show "error_type_name (name @ HEADER_COLON # rest) = str_trim name"
    using assms(1) by (simp add: error_type_name_def split_on_append_sep)
next
  assume ns: "HEADER_COLON \<notin> set ns" "HASH \<notin> set ns"
  have "HASH \<noteq> HEADER_COLON" by (simp add: HASH_def HEADER_COLON_def)
  then have "split_on HEADER_COLON (ns @ HASH # name) = [ns @ HASH # name]"
    using assms(1) ns by (intro split_on_no_sep) auto
  moreover have "split_once HASH (ns @ HASH # name) = Some (ns, name)"
    using ns by (simp add: split_once_Some)
  ultimately show "error_type_name (ns @ HASH # name) = str_trim name"
    by (simp add: error_type_name_def)
qed

end
