(* ===== verification/Sweep.thy ===== *)
theory Sweep
  imports Strings NameRecords "HOL-Library.List_Lexorder" "HOL-Library.Char_ord"
begin

text \<open>
  Prefix-scoped cleanup, \<open>crates/microvms-app/src/control/sweep.rs\<close>, with the deletion of one image
  from \<open>control/image.rs\<close> and the termination of one VM from \<open>control/microvm.rs\<close>. The service is a
  list of moments: what it would answer to each operation at that moment and how long it takes; after
  the last of them every call fails. The log keeps every call with its time and the moment that
  answered it.
\<close>

section \<open>The service and the log\<close>

record image =
  im_arn :: string
  im_name :: string
  im_state :: string

record microvm =
  mv_id :: string
  mv_image_arn :: string
  mv_state :: string

record 'a page =
  pg_items :: "'a list"
  pg_next :: "string option"

datatype sweep_error =
    CallFailed error_kind | RepeatedToken string | DeleteReported string | BadImageName | BadIdentifier
  | NotConfirmed

record moment =
  mo_images :: "sweep_error + image page"
  mo_vms :: "sweep_error + microvm page"
  mo_versions :: "sweep_error + string page"
  mo_terminate :: "sweep_error + unit"
  mo_delete_version :: "sweep_error + unit"
  mo_delete_image :: "sweep_error + string"
  mo_took :: nat
  mo_late :: nat

datatype service_call =
    ListImages string "string option"
  | ListVms "string option"
  | ListVersions string "string option"
  | TerminateVm string
  | DeleteVersion string string
  | DeleteImage string

fun mutates :: "service_call \<Rightarrow> bool" where
  "mutates (TerminateVm _) = True"
| "mutates (DeleteVersion _ _) = True"
| "mutates (DeleteImage _) = True"
| "mutates _ = False"

record log_entry =
  en_time :: nat
  en_call :: service_call
  en_answer :: "moment option"

record run =
  rn_moments :: "moment list"
  rn_now :: nat
  rn_paced :: "nat option"
  rn_log :: "log_entry list"

definition ONE_SECOND :: nat where "ONE_SECOND = 1000000000"
definition LIST_SPACING :: nat where "LIST_SPACING = ONE_SECOND"
definition DEFAULT_LIFECYCLE_TIMEOUT :: nat where "DEFAULT_LIFECYCLE_TIMEOUT = 300 * ONE_SECOND"
definition LIFECYCLE_POLL_INTERVAL :: nat where "LIFECYCLE_POLL_INTERVAL = 5 * ONE_SECOND"

text \<open>One call: it is logged, and it takes the moment's time.\<close>

definition perform :: "service_call \<Rightarrow> run \<Rightarrow> moment option \<times> run" where
  "perform c st =
     (case rn_moments st of
        [] \<Rightarrow> (None, st\<lparr>rn_log := rn_log st @ [\<lparr>en_time = rn_now st, en_call = c, en_answer = None\<rparr>]\<rparr>)
      | m # ms \<Rightarrow>
          (Some m, st\<lparr>rn_moments := ms, rn_now := rn_now st + mo_took m,
                      rn_log := rn_log st @ [\<lparr>en_time = rn_now st, en_call = c, en_answer = Some m\<rparr>]\<rparr>))"

definition service_answer :: "(moment \<Rightarrow> sweep_error + 'a) \<Rightarrow> moment option \<Rightarrow> sweep_error + 'a" where
  "service_answer f a = (case a of None \<Rightarrow> Inl (CallFailed Retryable) | Some m \<Rightarrow> f m)"

definition clock_sleep :: "nat \<Rightarrow> run \<Rightarrow> run" where
  "clock_sleep d st =
     st\<lparr>rn_now := rn_now st + d + (case rn_moments st of [] \<Rightarrow> 0 | m # _ \<Rightarrow> mo_late m)\<rparr>"

section \<open>Listings\<close>

definition sweep_page :: "(moment \<Rightarrow> sweep_error + 'a page) \<Rightarrow> service_call \<Rightarrow> run \<Rightarrow>
    (sweep_error + 'a page) \<times> run" where
  "sweep_page f c st =
     (let st1 = (case rn_paced st of
                   None \<Rightarrow> st
                 | Some previous \<Rightarrow> clock_sleep (LIST_SPACING - (rn_now st - previous)) st);
          (a, st2) = perform c (st1\<lparr>rn_paced := Some (rn_now st1)\<rparr>)
      in (service_answer f a, st2))"

text \<open>A \<open>BTreeMap\<close> keyed by a string: an association list in the order of its keys.\<close>

fun bt_insert :: "string \<Rightarrow> 'v \<Rightarrow> (string \<times> 'v) list \<Rightarrow> (string \<times> 'v) list" where
  "bt_insert k v [] = [(k, v)]"
| "bt_insert k v ((j, w) # m) =
     (if k < j then (k, v) # (j, w) # m
      else if k = j then (k, v) # m
      else (j, w) # bt_insert k v m)"

definition keep_image :: "string \<Rightarrow> image \<Rightarrow> bool" where
  "keep_image prefix im \<longleftrightarrow> starts_with prefix (im_name im) \<and> im_state im \<noteq> ''DELETED''"

definition add_images :: "string \<Rightarrow> image list \<Rightarrow> (string \<times> image) list \<Rightarrow> (string \<times> image) list" where
  "add_images prefix ims items =
     foldl (\<lambda>m im. if keep_image prefix im then bt_insert (im_arn im) im m else m) items ims"

definition add_vms :: "microvm list \<Rightarrow> (string \<times> microvm) list \<Rightarrow> (string \<times> microvm) list" where
  "add_vms vms items = foldl (\<lambda>m vm. bt_insert (mv_id vm) vm m) items vms"

lemma perform_steps:
  "perform c st = (Some m, st') \<Longrightarrow> length (rn_moments st) = Suc (length (rn_moments st'))"
  by (auto simp: perform_def split: list.splits)

lemma sleep_moments [simp]: "rn_moments (clock_sleep d st) = rn_moments st"
  by (simp add: clock_sleep_def)

lemma sweep_page_steps:
  "sweep_page f c st = (Inr p, st') \<Longrightarrow> length (rn_moments st') < length (rn_moments st)"
  by (auto simp: sweep_page_def service_answer_def Let_def split: option.splits prod.splits dest!: perform_steps)

text \<open>
  The three listings have one loop: a page is added to what was read, and a token seen before ends it.
\<close>

function pages_loop :: "(moment \<Rightarrow> sweep_error + 'a page) \<Rightarrow> (string option \<Rightarrow> service_call) \<Rightarrow>
    ('a list \<Rightarrow> 'b \<Rightarrow> 'b) \<Rightarrow> string \<Rightarrow> 'b \<Rightarrow> string option \<Rightarrow> string list \<Rightarrow> run \<Rightarrow> (sweep_error + 'b) \<times> run" where
  "pages_loop f c add what acc token seen st =
     (case sweep_page f (c token) st of
        (Inl e, st1) \<Rightarrow> (Inl e, st1)
      | (Inr page, st1) \<Rightarrow>
          (let acc1 = add (pg_items page) acc in
           case pg_next page of
             None \<Rightarrow> (Inr acc1, st1)
           | Some next_token \<Rightarrow>
               if next_token \<in> set seen then (Inl (RepeatedToken what), st1)
               else pages_loop f c add what acc1 (Some next_token) (next_token # seen) st1))"
  by pat_completeness auto
termination
  by (relation "measure (\<lambda>(f, c, add, w, a, t, s, st). length (rn_moments st))")
    (auto dest!: sweep_page_steps [OF sym])

declare pages_loop.simps [simp del]

definition sweep_images :: "string \<Rightarrow> run \<Rightarrow> (sweep_error + image list) \<times> run" where
  "sweep_images prefix st =
     (case pages_loop mo_images (ListImages prefix) (add_images prefix) ''image'' [] None [] st of
        (Inl e, st1) \<Rightarrow> (Inl e, st1)
      | (Inr items, st1) \<Rightarrow> (Inr (map snd items), st1))"

definition sweep_vms :: "run \<Rightarrow> (sweep_error + microvm list) \<times> run" where
  "sweep_vms st =
     (case pages_loop mo_vms ListVms add_vms ''VM'' [] None [] st of
        (Inl e, st1) \<Rightarrow> (Inl e, st1)
      | (Inr items, st1) \<Rightarrow> (Inr (map snd items), st1))"

text \<open>What one listing leaves: its calls in the log, and every item of every page it read.\<close>

definition page_items :: "(moment \<Rightarrow> sweep_error + 'a page) \<Rightarrow> log_entry \<Rightarrow> 'a list" where
  "page_items f e =
     (case en_answer e of None \<Rightarrow> [] | Some m \<Rightarrow> (case f m of Inl _ \<Rightarrow> [] | Inr p \<Rightarrow> pg_items p))"

text \<open>A whole listing: every page answered, each asked for with the token of the one before.\<close>

fun complete_listing :: "(moment \<Rightarrow> sweep_error + 'a page) \<Rightarrow> (string option \<Rightarrow> service_call) \<Rightarrow>
    string option \<Rightarrow> log_entry list \<Rightarrow> bool" where
  "complete_listing f c token [] \<longleftrightarrow> False"
| "complete_listing f c token (e # es) \<longleftrightarrow>
     en_call e = c token \<and>
     (case en_answer e of
        None \<Rightarrow> False
      | Some m \<Rightarrow>
          (case f m of
             Inl _ \<Rightarrow> False
           | Inr p \<Rightarrow>
               (case pg_next p of
                  None \<Rightarrow> es = []
                | Some t \<Rightarrow> complete_listing f c (Some t) es)))"

lemma perform_log:
  "perform c st = (a, st') \<Longrightarrow>
     rn_log st' = rn_log st @ [\<lparr>en_time = rn_now st, en_call = c, en_answer = a\<rparr>]"
  by (auto simp: perform_def split: list.splits)

lemma sleep_log [simp]: "rn_log (clock_sleep d st) = rn_log st"
  by (simp add: clock_sleep_def)

lemma sweep_page_log:
  assumes "sweep_page f c st = (r, st')"
  obtains e where "rn_log st' = rn_log st @ [e]" "en_call e = c"
    "\<And>p. r = Inr p \<Longrightarrow> page_items f e = pg_items p \<and> (\<exists>m. en_answer e = Some m \<and> f m = Inr p)"
proof -
  obtain t a where "rn_log st' = rn_log st @ [\<lparr>en_time = t, en_call = c, en_answer = a\<rparr>]"
    and r: "r = service_answer f a"
    using assms
    by (auto simp: sweep_page_def Let_def split: prod.splits option.splits dest!: perform_log)
  then show ?thesis
    by (intro that) (auto simp: page_items_def service_answer_def split: option.splits sum.splits)
qed

lemma pages_loop_cases:
  obtains
    (failed) e e1 st1 where "sweep_page f (c token) st = (Inl e1, st1)"
      "pages_loop f c add what acc token seen st = (Inl e, st1)"
  | (repeated) p e st1 where "sweep_page f (c token) st = (Inr p, st1)"
      "pages_loop f c add what acc token seen st = (Inl e, st1)"
  | (complete) p st1 where "sweep_page f (c token) st = (Inr p, st1)" "pg_next p = None"
      "pages_loop f c add what acc token seen st = (Inr (add (pg_items p) acc), st1)"
  | (more) p t st1 where "sweep_page f (c token) st = (Inr p, st1)" "pg_next p = Some t"
      "pages_loop f c add what acc token seen st =
         pages_loop f c add what (add (pg_items p) acc) (Some t) (t # seen) st1"
proof -
  obtain r st1 where sp: "sweep_page f (c token) st = (r, st1)" by fastforce
  show ?thesis
  proof (cases r)
    case (Inl e)
    with sp show ?thesis by (intro failed) (auto simp: pages_loop.simps [of f c])
  next
    case (Inr p)
    show ?thesis
    proof (cases "pg_next p")
      case None
      with sp Inr show ?thesis by (intro complete) (auto simp: pages_loop.simps [of f c])
    next
      case (Some t)
      show ?thesis
      proof (cases "t \<in> set seen")
        case True
        with sp Inr Some show ?thesis by (intro repeated) (auto simp: pages_loop.simps [of f c])
      next
        case False
        with sp Inr Some show ?thesis by (intro more) (auto simp: pages_loop.simps [of f c])
      qed
    qed
  qed
qed

lemma pages_loop_steps:
  "pages_loop f c add what acc token seen st = (Inr l, st') \<Longrightarrow> length (rn_moments st') < length (rn_moments st)"
proof (induction "length (rn_moments st)" arbitrary: acc token seen st rule: less_induct)
  case less
  show ?case
  proof (cases rule: pages_loop_cases [of f c token st add what acc seen])
    case (more p t st1)
    with less.hyps [of st1 "add (pg_items p) acc" "Some t" "t # seen"] less.prems sweep_page_steps [of f]
    show ?thesis by (metis less_trans)
  qed (use less.prems sweep_page_steps [of f] in auto)
qed

lemma pages_loop_log:
  "pages_loop f c add what acc token seen st = (r, st') \<Longrightarrow>
     \<exists>new. rn_log st' = rn_log st @ new \<and> (\<forall>e \<in> set new. \<exists>t. en_call e = c t) \<and>
       (\<forall>l. r = Inr l \<longrightarrow>
          l = foldl (\<lambda>a ps. add ps a) acc (map (page_items f) new) \<and> complete_listing f c token new)"
proof (induction "length (rn_moments st)" arbitrary: acc token seen st rule: less_induct)
  case less
  show ?case
  proof (cases rule: pages_loop_cases [of f c token st add what acc seen])
    case (more p t st1)
    from more(1) obtain e m where e: "rn_log st1 = rn_log st @ [e]" "en_call e = c token"
      "page_items f e = pg_items p" "en_answer e = Some m" "f m = Inr p"
      by (elim sweep_page_log) auto
    obtain new where "rn_log st' = rn_log st1 @ new" "\<forall>e \<in> set new. \<exists>t. en_call e = c t"
      "\<forall>l. r = Inr l \<longrightarrow> l = foldl (\<lambda>a ps. add ps a) (add (pg_items p) acc) (map (page_items f) new) \<and>
         complete_listing f c (Some t) new"
      using less.hyps [OF sweep_page_steps [OF more(1)]] less.prems more(3) by metis
    with e more(2) show ?thesis by (intro exI [of _ "e # new"]) auto
  next
    case (complete p st1)
    from complete(1) obtain e m where "rn_log st1 = rn_log st @ [e]" "en_call e = c token"
      "page_items f e = pg_items p" "en_answer e = Some m" "f m = Inr p"
      by (elim sweep_page_log) auto
    with complete less.prems show ?thesis by (intro exI [of _ "[e]"]) auto
  next
    case (failed e e1 st1)
    from failed(1) obtain e2 where "rn_log st1 = rn_log st @ [e2]" "en_call e2 = c token"
      by (elim sweep_page_log) auto
    with failed less.prems show ?thesis by (intro exI [of _ "[e2]"]) auto
  next
    case (repeated p e st1)
    from repeated(1) obtain e2 where "rn_log st1 = rn_log st @ [e2]" "en_call e2 = c token"
      by (elim sweep_page_log) auto
    with repeated less.prems show ?thesis by (intro exI [of _ "[e2]"]) auto
  qed
qed

section \<open>One VM, one image\<close>

definition MAX_IDENTIFIER_LEN :: nat where "MAX_IDENTIFIER_LEN = 256"

definition require_valid_identifier :: "string \<Rightarrow> sweep_error + unit" where
  "require_valid_identifier s =
     (if s = [] \<or> MAX_IDENTIFIER_LEN < length s then Inl BadIdentifier else Inr ())"

definition terminate_vm :: "string \<Rightarrow> run \<Rightarrow> (sweep_error + unit) \<times> run" where
  "terminate_vm vm st =
     (case require_valid_identifier vm of
        Inl e \<Rightarrow> (Inl e, st)
      | Inr _ \<Rightarrow> (let (a, st1) = perform (TerminateVm vm) st in (service_answer mo_terminate a, st1)))"

definition list_versions :: "string \<Rightarrow> run \<Rightarrow> (sweep_error + string list) \<times> run" where
  "list_versions arn st =
     pages_loop mo_versions (ListVersions arn) (\<lambda>vs versions. versions @ vs) ''version'' [] None [] st"

fun delete_versions :: "string \<Rightarrow> string list \<Rightarrow> run \<Rightarrow> (sweep_error + unit) \<times> run" where
  "delete_versions arn [] st = (Inr (), st)"
| "delete_versions arn (v # vs) st =
     (let (a, st1) = perform (DeleteVersion arn v) st in
      case service_answer mo_delete_version a of
        Inl e \<Rightarrow> (Inl e, st1)
      | Inr _ \<Rightarrow> delete_versions arn vs st1)"

fun contains :: "'a list \<Rightarrow> 'a list \<Rightarrow> bool" where
  "contains needle [] \<longleftrightarrow> needle = []"
| "contains needle (c # s) \<longleftrightarrow> starts_with needle (c # s) \<or> contains needle s"

definition image_is_failed :: "string \<Rightarrow> bool" where
  "image_is_failed state \<longleftrightarrow> contains ''FAILED'' state"

definition try_delete_image_paced :: "string \<Rightarrow> run \<Rightarrow> (sweep_error + unit) \<times> run" where
  "try_delete_image_paced arn st =
     (case list_versions arn st of
        (Inl e, st1) \<Rightarrow> (Inl e, st1)
      | (Inr versions, st1) \<Rightarrow>
          (case delete_versions arn (drop 1 versions) st1 of
             (Inl e, st2) \<Rightarrow> (Inl e, st2)
           | (Inr _, st2) \<Rightarrow>
               (let (a, st3) = perform (DeleteImage arn) st2 in
                (case service_answer mo_delete_image a of
                   Inl e \<Rightarrow> (Inl e, st3)
                 | Inr state \<Rightarrow> if image_is_failed state then (Inl (DeleteReported state), st3) else (Inr (), st3)))))"

section \<open>The sweep\<close>

record sweep_options =
  so_keep :: "string list"
  so_dry_run :: bool

definition default_sweep_options :: sweep_options where
  "default_sweep_options = \<lparr>so_keep = [], so_dry_run = True\<rparr>"

type_synonym sweep_failure = "string \<times> sweep_error"

record sweep_report =
  sr_dry_run :: bool
  sr_images_matched :: "string list"
  sr_images_kept :: "string list"
  sr_microvms_matched :: "string list"
  sr_microvms_terminated :: "string list"
  sr_images_deleted :: "string list"
  sr_images_in_use :: "string list"
  sr_failures :: "sweep_failure list"

definition MAX_IMAGE_NAME_LEN :: nat where "MAX_IMAGE_NAME_LEN = 64"

definition is_valid_image_name :: "string \<Rightarrow> bool" where
  "is_valid_image_name name \<longleftrightarrow>
     name \<noteq> [] \<and> length name \<le> MAX_IMAGE_NAME_LEN \<and>
     list_all (\<lambda>c. is_alnum c \<or> c = CHR ''-'' \<or> c = CHR ''_'') name"

definition require_valid_image_name :: "string \<Rightarrow> sweep_error + unit" where
  "require_valid_image_name name = (if is_valid_image_name name then Inr () else Inl BadImageName)"

definition kept :: "sweep_options \<Rightarrow> image \<Rightarrow> bool" where
  "kept opts im \<longleftrightarrow> im_name im \<in> set (so_keep opts) \<or> im_arn im \<in> set (so_keep opts)"

definition candidates_of :: "sweep_options \<Rightarrow> image list \<Rightarrow> string list" where
  "candidates_of opts images = map im_arn (filter (\<lambda>im. \<not> kept opts im) images)"

definition matched_vms :: "string list \<Rightarrow> microvm list \<Rightarrow> string list" where
  "matched_vms candidates vms =
     map mv_id (filter (\<lambda>vm. mv_image_arn vm \<in> set candidates \<and> mv_state vm \<noteq> ''TERMINATED'') vms)"

fun terminate_all :: "string list \<Rightarrow> run \<Rightarrow> sweep_failure list \<times> run" where
  "terminate_all [] st = ([], st)"
| "terminate_all (vm # vms) st =
     (let (r, st1) = terminate_vm vm st; (fails, st2) = terminate_all vms st1
      in ((case r of Inl e \<Rightarrow> [(vm, e)] | Inr _ \<Rightarrow> []) @ fails, st2))"

text \<open>Which of the matched VMs have been seen terminated, so far and in this listing.\<close>

definition seen_terminated :: "string list \<Rightarrow> string list \<Rightarrow> microvm list \<Rightarrow> string list" where
  "seen_terminated matched terminated live =
     filter (\<lambda>i. i \<in> set terminated \<or> list_ex (\<lambda>vm. mv_id vm = i \<and> mv_state vm = ''TERMINATED'') live) matched"

lemma sweep_vms_steps:
  "sweep_vms st = (Inr l, st') \<Longrightarrow> length (rn_moments st') < length (rn_moments st)"
  by (auto simp: sweep_vms_def split: prod.splits sum.splits dest!: pages_loop_steps)

lemma sweep_images_steps:
  "sweep_images p st = (Inr l, st') \<Longrightarrow> length (rn_moments st') < length (rn_moments st)"
  by (auto simp: sweep_images_def split: prod.splits sum.splits dest!: pages_loop_steps)

function await_terminated :: "string list \<Rightarrow> nat \<Rightarrow> string list \<Rightarrow> run \<Rightarrow>
    (sweep_error + microvm list) \<times> string list \<times> run" where
  "await_terminated matched started terminated st =
     (case sweep_vms st of
        (Inl e, st1) \<Rightarrow> (Inl e, terminated, st1)
      | (Inr live, st1) \<Rightarrow>
          (let terminated1 = seen_terminated matched terminated live in
           if length terminated1 = length matched \<or> DEFAULT_LIFECYCLE_TIMEOUT \<le> rn_now st1 - started
           then (Inr live, terminated1, st1)
           else await_terminated matched started terminated1 (clock_sleep LIFECYCLE_POLL_INTERVAL st1)))"
  by pat_completeness auto
termination
  by (relation "measure (\<lambda>(m, s, t, st). length (rn_moments st))")
    (auto dest!: sweep_vms_steps [OF sym])

declare await_terminated.simps [simp del]

definition held :: "microvm list \<Rightarrow> string list \<Rightarrow> string list \<Rightarrow> microvm list \<Rightarrow> string \<Rightarrow> bool" where
  "held vms matched terminated live arn \<longleftrightarrow>
     list_ex (\<lambda>vm. mv_image_arn vm = arn \<and> mv_id vm \<in> set matched \<and> mv_id vm \<notin> set terminated) vms \<or>
     list_ex (\<lambda>vm. mv_image_arn vm = arn \<and> mv_state vm \<noteq> ''TERMINATED'') live"

text \<open>What is being deleted, what is in use, and what failed.\<close>

fun delete_images :: "(string \<Rightarrow> bool) \<Rightarrow> string list \<Rightarrow> run \<Rightarrow>
    string list \<times> string list \<times> sweep_failure list \<times> run" where
  "delete_images is_held [] st = ([], [], [], st)"
| "delete_images is_held (arn # arns) st =
     (if is_held arn
      then (let (ds, us, fs, st1) = delete_images is_held arns st in (ds, arn # us, fs, st1))
      else
        (case try_delete_image_paced arn st of
           (Inl e, st1) \<Rightarrow>
             (let (ds, us, fs, st2) = delete_images is_held arns st1 in (ds, arn # us, (arn, e) # fs, st2))
         | (Inr _, st1) \<Rightarrow>
             (let (ds, us, fs, st2) = delete_images is_held arns st1 in (arn # ds, us, fs, st2))))"

text \<open>
  Polling until every deletion is seen: the ARNs confirmed, the failures, and whether the loop ran to
  its end, after which the report sorts them. The set of deletions is a list; the order in which the
  code iterates over it is not specified.
\<close>

function confirm_deleted :: "string \<Rightarrow> nat \<Rightarrow> string list \<Rightarrow> string list \<Rightarrow> run \<Rightarrow>
    string list \<times> sweep_failure list \<times> bool \<times> run" where
  "confirm_deleted prefix started deleting deleted st =
     (if deleting = [] then (deleted, [], True, st)
      else
        (case sweep_images prefix st of
           (Inl e, st1) \<Rightarrow> (deleted, [(''ListMicrovmImages'', e)], False, st1)
         | (Inr remaining, st1) \<Rightarrow>
             (let absent = filter (\<lambda>arn. arn \<notin> im_arn ` set remaining) deleting;
                  left = filter (\<lambda>arn. arn \<in> im_arn ` set remaining) deleting;
                  deleted1 = deleted @ absent in
              if left = [] then (deleted1, [], True, st1)
              else if DEFAULT_LIFECYCLE_TIMEOUT \<le> rn_now st1 - started
              then (deleted1, map (\<lambda>arn. (arn, NotConfirmed)) left, True, st1)
              else confirm_deleted prefix started left deleted1 (clock_sleep LIFECYCLE_POLL_INTERVAL st1))))"
  by pat_completeness auto
termination
  by (relation "measure (\<lambda>(p, s, d, e, st). length (rn_moments st))")
    (auto dest!: sweep_images_steps [OF sym])

declare confirm_deleted.simps [simp del]

text \<open>The report of a discovery.\<close>

definition discovered :: "sweep_options \<Rightarrow> image list \<Rightarrow> microvm list \<Rightarrow> sweep_report" where
  "discovered opts images vms =
     \<lparr>sr_dry_run = so_dry_run opts,
      sr_images_matched = map im_arn images,
      sr_images_kept = map im_arn (filter (kept opts) images),
      sr_microvms_matched = matched_vms (candidates_of opts images) vms,
      sr_microvms_terminated = [], sr_images_deleted = [], sr_images_in_use = [], sr_failures = []\<rparr>"

text \<open>What follows a discovery that is not a dry run.\<close>

definition clean_up :: "string \<Rightarrow> sweep_options \<Rightarrow> image list \<Rightarrow> microvm list \<Rightarrow> run \<Rightarrow> sweep_report \<times> run" where
  "clean_up prefix opts images vms st =
     (let report = discovered opts images vms;
          candidates = candidates_of opts images;
          matched = sr_microvms_matched report;
          (fails, st1) = terminate_all matched st in
      case await_terminated matched (rn_now st1) [] st1 of
        (Inl e, terminated, st2) \<Rightarrow>
          (report\<lparr>sr_microvms_terminated := terminated, sr_images_in_use := sort candidates,
                  sr_failures := fails @ [(''ListMicrovms'', e)]\<rparr>, st2)
      | (Inr live, terminated, st2) \<Rightarrow>
          (let (deleting, in_use, fails1, st3) = delete_images (held vms matched terminated live) candidates st2;
               (deleted, fails2, finished, st4) = confirm_deleted prefix (rn_now st3) deleting [] st3
           in (report\<lparr>sr_microvms_terminated := terminated,
                      sr_images_deleted := (if finished then sort deleted else deleted),
                      sr_images_in_use := in_use,
                      sr_failures := fails @ fails1 @ fails2\<rparr>, st4)))"

definition sweep :: "string \<Rightarrow> sweep_options \<Rightarrow> run \<Rightarrow> (sweep_error + sweep_report) \<times> run" where
  "sweep prefix opts st =
     (case require_valid_image_name prefix of
        Inl e \<Rightarrow> (Inl e, st)
      | Inr _ \<Rightarrow>
          (let st0 = st\<lparr>rn_paced := None\<rparr> in
           case sweep_images prefix st0 of
             (Inl e, st1) \<Rightarrow> (Inl e, st1)
           | (Inr images, st1) \<Rightarrow>
               (case sweep_vms st1 of
                  (Inl e, st2) \<Rightarrow> (Inl e, st2)
                | (Inr vms, st2) \<Rightarrow>
                    if so_dry_run opts then (Inr (discovered opts images vms), st2)
                    else (let (report, st3) = clean_up prefix opts images vms st2 in (Inr report, st3)))))"

section \<open>What each phase leaves in the log\<close>

lemma bt_insert_set: "set (bt_insert k v m) \<subseteq> insert (k, v) (set m)"
  by (induction k v m rule: bt_insert.induct) auto

lemma bt_insert_keys: "fst ` set (bt_insert k v m) = insert k (fst ` set m)"
  by (induction k v m rule: bt_insert.induct) auto

lemma add_images_simps [simp]:
  "add_images p [] m = m"
  "add_images p (im # ims) m = add_images p ims (if keep_image p im then bt_insert (im_arn im) im m else m)"
  by (simp_all add: add_images_def)

lemma add_vms_simps [simp]:
  "add_vms [] m = m"
  "add_vms (vm # vms) m = add_vms vms (bt_insert (mv_id vm) vm m)"
  by (simp_all add: add_vms_def)

lemma add_images_items:
  "x \<in> set (add_images p ims m) \<Longrightarrow>
     x \<in> set m \<or> (\<exists>im \<in> set ims. keep_image p im \<and> x = (im_arn im, im))"
proof (induction ims arbitrary: m)
  case (Cons im ims)
  from Cons.IH [of "if keep_image p im then bt_insert (im_arn im) im m else m"] Cons.prems
    bt_insert_set [of "im_arn im" im m]
  show ?case by (auto split: if_splits)
qed simp

lemma add_images_keys:
  "fst ` set (add_images p ims m) = fst ` set m \<union> im_arn ` {im \<in> set ims. keep_image p im}"
proof (induction ims arbitrary: m)
  case (Cons im ims)
  show ?case
    by (simp add: Cons.IH bt_insert_keys) blast
qed simp

lemma add_vms_items:
  "x \<in> set (add_vms vms m) \<Longrightarrow> x \<in> set m \<or> (\<exists>vm \<in> set vms. x = (mv_id vm, vm))"
proof (induction vms arbitrary: m)
  case (Cons vm vms)
  from Cons.IH [of "bt_insert (mv_id vm) vm m"] Cons.prems bt_insert_set [of "mv_id vm" vm m]
  show ?case by auto
qed simp

lemma all_images_items:
  "x \<in> set (foldl (\<lambda>a ps. add_images p ps a) m pages) \<Longrightarrow>
     x \<in> set m \<or> (\<exists>ims \<in> set pages. \<exists>im \<in> set ims. keep_image p im \<and> x = (im_arn im, im))"
proof (induction pages arbitrary: m)
  case (Cons ims pages)
  from Cons.IH [of "add_images p ims m"] Cons.prems add_images_items [of x p ims m] show ?case by auto
qed simp

lemma all_images_keys:
  "fst ` set (foldl (\<lambda>a ps. add_images p ps a) m pages) =
     fst ` set m \<union> im_arn ` {im. (\<exists>ims \<in> set pages. im \<in> set ims) \<and> keep_image p im}"
proof (induction pages arbitrary: m)
  case (Cons ims pages)
  show ?case by (auto simp: Cons.IH add_images_keys)
qed simp

lemma all_vms_items:
  "x \<in> set (foldl (\<lambda>a ps. add_vms ps a) m pages) \<Longrightarrow>
     x \<in> set m \<or> (\<exists>vms \<in> set pages. \<exists>vm \<in> set vms. x = (mv_id vm, vm))"
proof (induction pages arbitrary: m)
  case (Cons vms pages)
  from Cons.IH [of "add_vms vms m"] Cons.prems add_vms_items [of x vms m] show ?case by auto
qed simp

text \<open>The image and the VMs a listing of these entries stands for.\<close>

definition images_read :: "string \<Rightarrow> log_entry list \<Rightarrow> image list" where
  "images_read prefix es = map snd (foldl (\<lambda>a ps. add_images prefix ps a) [] (map (page_items mo_images) es))"

definition vms_read :: "log_entry list \<Rightarrow> microvm list" where
  "vms_read es = map snd (foldl (\<lambda>a ps. add_vms ps a) [] (map (page_items mo_vms) es))"

lemma images_read_items:
  assumes "im \<in> set (images_read p es)"
  shows "keep_image p im \<and> (\<exists>e \<in> set es. im \<in> set (page_items mo_images e))"
proof -
  obtain k where "(k, im) \<in> set (foldl (\<lambda>a ps. add_images p ps a) [] (map (page_items mo_images) es))"
    using assms by (auto simp: images_read_def)
  from all_images_items [OF this] show ?thesis by auto
qed

lemma images_read_complete:
  assumes "e \<in> set es" and "im \<in> set (page_items mo_images e)" and "keep_image p im"
  shows "im_arn im \<in> im_arn ` set (images_read p es)"
proof -
  let ?m = "foldl (\<lambda>a ps. add_images p ps a) [] (map (page_items mo_images) es)"
  have keys: "fst ` set ?m = im_arn ` {im. (\<exists>e \<in> set es. im \<in> set (page_items mo_images e)) \<and> keep_image p im}"
    by (auto simp: all_images_keys)
  then have "im_arn im \<in> fst ` set ?m" using assms by auto
  then obtain v where "(im_arn im, v) \<in> set ?m" by force
  moreover from this have "im_arn im = im_arn v" using all_images_items by fastforce
  ultimately show ?thesis by (force simp: images_read_def)
qed

lemma vms_read_items:
  assumes "vm \<in> set (vms_read es)"
  shows "\<exists>e \<in> set es. vm \<in> set (page_items mo_vms e)"
proof -
  obtain k where "(k, vm) \<in> set (foldl (\<lambda>a ps. add_vms ps a) [] (map (page_items mo_vms) es))"
    using assms by (auto simp: vms_read_def)
  from all_vms_items [OF this] show ?thesis by auto
qed

fun lists_images :: "string \<Rightarrow> service_call \<Rightarrow> bool" where
  "lists_images prefix (ListImages p _) \<longleftrightarrow> p = prefix"
| "lists_images prefix _ \<longleftrightarrow> False"

fun lists_vms :: "service_call \<Rightarrow> bool" where
  "lists_vms (ListVms _) \<longleftrightarrow> True"
| "lists_vms _ \<longleftrightarrow> False"

lemma lists_mutate: "lists_images p c \<Longrightarrow> \<not> mutates c" "lists_vms c \<Longrightarrow> \<not> mutates c"
  by (cases c; simp)+

lemma sweep_images_log:
  assumes "sweep_images p st = (r, st')"
  obtains new where "rn_log st' = rn_log st @ new" "\<forall>e \<in> set new. lists_images p (en_call e)"
    "\<And>l. r = Inr l \<Longrightarrow> l = images_read p new \<and> complete_listing mo_images (ListImages p) None new"
proof -
  obtain r0 where r0: "pages_loop mo_images (ListImages p) (add_images p) ''image'' [] None [] st = (r0, st')"
    and r: "r = (case r0 of Inl e \<Rightarrow> Inl e | Inr items \<Rightarrow> Inr (map snd items))"
    using assms by (auto simp: sweep_images_def split: prod.splits sum.splits)
  from pages_loop_log [OF r0] r show ?thesis
    by (elim exE conjE, intro that) (auto simp: images_read_def split: sum.splits)
qed

lemma sweep_vms_log:
  assumes "sweep_vms st = (r, st')"
  obtains new where "rn_log st' = rn_log st @ new" "\<forall>e \<in> set new. lists_vms (en_call e)"
    "\<And>l. r = Inr l \<Longrightarrow> l = vms_read new \<and> complete_listing mo_vms ListVms None new"
proof -
  obtain r0 where r0: "pages_loop mo_vms ListVms add_vms ''VM'' [] None [] st = (r0, st')"
    and r: "r = (case r0 of Inl e \<Rightarrow> Inl e | Inr items \<Rightarrow> Inr (map snd items))"
    using assms by (auto simp: sweep_vms_def split: prod.splits sum.splits)
  from pages_loop_log [OF r0] r show ?thesis
    by (elim exE conjE, intro that) (auto simp: vms_read_def split: sum.splits)
qed

lemma terminate_all_log:
  "terminate_all vms st = (fails, st') \<Longrightarrow>
     \<exists>new. rn_log st' = rn_log st @ new \<and> (\<forall>e \<in> set new. \<exists>vm \<in> set vms. en_call e = TerminateVm vm) \<and>
       (\<forall>vm \<in> set vms. require_valid_identifier vm = Inr () \<longrightarrow> (\<exists>e \<in> set new. en_call e = TerminateVm vm))"
proof (induction vms arbitrary: st fails)
  case (Cons vm vms)
  obtain r st1 fs where one: "terminate_vm vm st = (r, st1)" and rest: "terminate_all vms st1 = (fs, st')"
    using Cons.prems by (auto simp: Let_def split: prod.splits)
  obtain new1 where new1: "rn_log st1 = rn_log st @ new1" "\<forall>e \<in> set new1. en_call e = TerminateVm vm"
    "require_valid_identifier vm = Inr () \<longrightarrow> (\<exists>e \<in> set new1. en_call e = TerminateVm vm)"
    using one by (auto simp: terminate_vm_def split: sum.splits prod.splits dest!: perform_log)
  obtain new2 where "rn_log st' = rn_log st1 @ new2" "\<forall>e \<in> set new2. \<exists>vm \<in> set vms. en_call e = TerminateVm vm"
    "\<forall>vm \<in> set vms. require_valid_identifier vm = Inr () \<longrightarrow> (\<exists>e \<in> set new2. en_call e = TerminateVm vm)"
    using Cons.IH [OF rest] by blast
  with new1 show ?case by (intro exI [of _ "new1 @ new2"]) auto
qed simp

text \<open>A VM that some log_entry lists as terminated.\<close>

definition shown_terminated :: "string \<Rightarrow> log_entry list \<Rightarrow> bool" where
  "shown_terminated i es \<longleftrightarrow>
     (\<exists>e \<in> set es. \<exists>v \<in> set (page_items mo_vms e). mv_id v = i \<and> mv_state v = ''TERMINATED'')"

lemma shown_terminated_append [simp]:
  "shown_terminated i (a @ b) \<longleftrightarrow> shown_terminated i a \<or> shown_terminated i b"
  by (auto simp: shown_terminated_def)

text \<open>The last whole listing of VMs in some entries, and an image that a whole listing no longer holds.\<close>

definition ends_with_listing :: "microvm list \<Rightarrow> log_entry list \<Rightarrow> bool" where
  "ends_with_listing live es \<longleftrightarrow>
     (\<exists>pre seg. es = pre @ seg \<and> complete_listing mo_vms ListVms None seg \<and> live = vms_read seg)"

definition shown_absent :: "string \<Rightarrow> string \<Rightarrow> log_entry list \<Rightarrow> bool" where
  "shown_absent p arn es \<longleftrightarrow>
     (\<exists>pre seg post. es = pre @ seg @ post \<and> complete_listing mo_images (ListImages p) None seg \<and>
        (\<forall>e \<in> set seg. \<forall>im \<in> set (page_items mo_images e). keep_image p im \<longrightarrow> im_arn im \<noteq> arn))"

lemma ends_with_listing_self:
  "complete_listing mo_vms ListVms None new \<Longrightarrow> ends_with_listing (vms_read new) new"
  unfolding ends_with_listing_def by (intro exI [of _ "[]"] exI [of _ new]) simp

lemma shown_absent_read:
  assumes "complete_listing mo_images (ListImages p) None seg" and "arn \<notin> im_arn ` set (images_read p seg)"
  shows "shown_absent p arn seg"
proof -
  have "\<forall>e \<in> set seg. \<forall>im \<in> set (page_items mo_images e). keep_image p im \<longrightarrow> im_arn im \<noteq> arn"
    using images_read_complete assms(2) by metis
  with assms(1) show ?thesis
    unfolding shown_absent_def
    by (intro exI [of _ "[]"] exI [of _ seg] exI [of _ "[]"] conjI) simp_all
qed

lemma shown_absent_append: "shown_absent p arn a \<Longrightarrow> shown_absent p arn (a @ b)"
  "shown_absent p arn b \<Longrightarrow> shown_absent p arn (a @ b)"
proof -
  assume "shown_absent p arn a"
  then obtain pre seg post where "a = pre @ seg @ post" "complete_listing mo_images (ListImages p) None seg"
    "\<forall>e \<in> set seg. \<forall>im \<in> set (page_items mo_images e). keep_image p im \<longrightarrow> im_arn im \<noteq> arn"
    unfolding shown_absent_def by blast
  then show "shown_absent p arn (a @ b)"
    unfolding shown_absent_def by (intro exI [of _ pre] exI [of _ seg] exI [of _ "post @ b"]) simp
next
  assume "shown_absent p arn b"
  then obtain pre seg post where "b = pre @ seg @ post" "complete_listing mo_images (ListImages p) None seg"
    "\<forall>e \<in> set seg. \<forall>im \<in> set (page_items mo_images e). keep_image p im \<longrightarrow> im_arn im \<noteq> arn"
    unfolding shown_absent_def by blast
  then show "shown_absent p arn (a @ b)"
    unfolding shown_absent_def by (intro exI [of _ "a @ pre"] exI [of _ seg] exI [of _ post]) simp
qed

lemma seen_shown:
  "i \<in> set (seen_terminated matched terminated (vms_read new)) \<Longrightarrow>
     i \<in> set matched \<and> (i \<in> set terminated \<or> shown_terminated i new)"
  by (auto simp: seen_terminated_def list_ex_iff shown_terminated_def dest!: vms_read_items)

lemma await_log:
  "await_terminated matched started terminated st = (r, terminated', st') \<Longrightarrow>
     \<exists>new. rn_log st' = rn_log st @ new \<and> (\<forall>e \<in> set new. lists_vms (en_call e)) \<and>
       (\<forall>i \<in> set terminated'. i \<in> set terminated \<or> i \<in> set matched \<and> shown_terminated i new) \<and>
       (\<forall>live. r = Inr live \<longrightarrow> ends_with_listing live new)"
proof (induction "length (rn_moments st)" arbitrary: terminated st rule: less_induct)
  case less
  obtain l st1 where sv: "sweep_vms st = (l, st1)" by fastforce
  obtain new where new: "rn_log st1 = rn_log st @ new" "\<forall>e \<in> set new. lists_vms (en_call e)"
    "\<And>live. l = Inr live \<Longrightarrow> live = vms_read new \<and> complete_listing mo_vms ListVms None new"
    using sweep_vms_log [OF sv] by metis
  show ?case
  proof (cases l)
    case (Inl e)
    with less.prems sv new(1,2) show ?thesis
      by (intro exI [of _ new]) (auto simp: await_terminated.simps [of matched started])
  next
    case (Inr live)
    let ?t = "seen_terminated matched terminated live"
    have live: "live = vms_read new" using new(3) Inr by blast
    have t: "i \<in> set matched \<and> (i \<in> set terminated \<or> shown_terminated i new)" if "i \<in> set ?t" for i
      using that seen_shown unfolding live by blast
    show ?thesis
    proof (cases "length ?t = length matched \<or> DEFAULT_LIFECYCLE_TIMEOUT \<le> rn_now st1 - started")
      case True
      with less.prems sv Inr have "r = Inr live" "terminated' = ?t" "st' = st1"
        by (auto simp: await_terminated.simps [of matched started] Let_def)
      moreover have "ends_with_listing live new"
        using ends_with_listing_self new(3) Inr live by blast
      ultimately show ?thesis using new(1,2) t by (intro exI [of _ new]) auto
    next
      case False
      let ?st = "clock_sleep LIFECYCLE_POLL_INTERVAL st1"
      have next_poll: "await_terminated matched started ?t ?st = (r, terminated', st')"
        using less.prems sv Inr False by (auto simp: await_terminated.simps [of matched started terminated] Let_def)
      have fewer: "length (rn_moments ?st) < length (rn_moments st)"
        using sweep_vms_steps sv Inr by simp
      obtain rest where rest: "rn_log st' = rn_log ?st @ rest" "\<forall>e \<in> set rest. lists_vms (en_call e)"
        "\<forall>i \<in> set terminated'. i \<in> set ?t \<or> i \<in> set matched \<and> shown_terminated i rest"
        "\<forall>live. r = Inr live \<longrightarrow> ends_with_listing live rest"
        using less.hyps [OF fewer next_poll] by blast
      have "ends_with_listing l (new @ rest)" if "r = Inr l" for l
        using rest(4) that unfolding ends_with_listing_def by (metis append_assoc)
      moreover have "\<forall>i \<in> set terminated'. i \<in> set terminated \<or> i \<in> set matched \<and> shown_terminated i (new @ rest)"
        using rest(3) t by (metis shown_terminated_append)
      ultimately show ?thesis using new rest(1,2) by (intro exI [of _ "new @ rest"]) auto
    qed
  qed
qed

fun on_image :: "string \<Rightarrow> service_call \<Rightarrow> bool" where
  "on_image arn (ListVersions a _) \<longleftrightarrow> a = arn"
| "on_image arn (DeleteVersion a _) \<longleftrightarrow> a = arn"
| "on_image arn (DeleteImage a) \<longleftrightarrow> a = arn"
| "on_image arn _ \<longleftrightarrow> False"

definition accepted_delete :: "string \<Rightarrow> log_entry \<Rightarrow> bool" where
  "accepted_delete arn e \<longleftrightarrow>
     en_call e = DeleteImage arn \<and>
     (case en_answer e of None \<Rightarrow> False
      | Some m \<Rightarrow> (case mo_delete_image m of Inl _ \<Rightarrow> False | Inr state \<Rightarrow> \<not> image_is_failed state))"

lemma delete_versions_log:
  "delete_versions arn vs st = (r, st') \<Longrightarrow>
     \<exists>new. rn_log st' = rn_log st @ new \<and> (\<forall>e \<in> set new. on_image arn (en_call e))"
proof (induction vs arbitrary: st)
  case (Cons v vs)
  obtain a st1 where one: "perform (DeleteVersion arn v) st = (a, st1)" by fastforce
  note l1 = perform_log [OF one]
  show ?case
  proof (cases "service_answer mo_delete_version a")
    case (Inl e)
    with Cons.prems one l1 show ?thesis by (auto simp: Let_def)
  next
    case (Inr u)
    with Cons.prems one have "delete_versions arn vs st1 = (r, st')" by (simp add: Let_def)
    from Cons.IH [OF this] l1 show ?thesis by auto
  qed
qed simp

lemma try_delete_log:
  assumes "try_delete_image_paced arn st = (r, st')"
  shows "\<exists>new. rn_log st' = rn_log st @ new \<and> (\<forall>e \<in> set new. on_image arn (en_call e)) \<and>
     (r = Inr () \<longrightarrow> (\<exists>e \<in> set new. accepted_delete arn e))"
proof -
  obtain vs st1 where lv: "list_versions arn st = (vs, st1)" by fastforce
  obtain n1 where n1: "rn_log st1 = rn_log st @ n1" "\<forall>e \<in> set n1. on_image arn (en_call e)"
    using pages_loop_log [OF lv [unfolded list_versions_def]] by force
  show ?thesis
  proof (cases vs)
    case (Inl e)
    with assms lv n1 show ?thesis by (auto simp: try_delete_image_paced_def)
  next
    case (Inr versions)
    obtain d st2 where dv: "delete_versions arn (drop 1 versions) st1 = (d, st2)" by fastforce
    obtain n2 where n2: "rn_log st2 = rn_log st1 @ n2" "\<forall>e \<in> set n2. on_image arn (en_call e)"
      using delete_versions_log [OF dv] by blast
    show ?thesis
    proof (cases d)
      case (Inl e)
      with assms lv Inr dv n1 n2 show ?thesis by (auto simp: try_delete_image_paced_def)
    next
      case d: (Inr u)
      obtain a st3 where pf: "perform (DeleteImage arn) st2 = (a, st3)" by fastforce
      have st': "st' = st3" and ok: "r = Inr () \<longrightarrow> (\<exists>state. service_answer mo_delete_image a = Inr state \<and> \<not> image_is_failed state)"
        using assms lv Inr dv d pf
        by (auto simp: try_delete_image_paced_def Let_def split: sum.splits if_splits)
      show ?thesis
        using n1 n2 perform_log [OF pf] st' ok
        by (intro exI [of _ "n1 @ n2 @ [\<lparr>en_time = rn_now st2, en_call = DeleteImage arn, en_answer = a\<rparr>]"])
          (auto simp: accepted_delete_def service_answer_def split: option.splits)
    qed
  qed
qed

lemma delete_images_log:
  "delete_images is_held arns st = (ds, us, fs, st') \<Longrightarrow>
     \<exists>new. rn_log st' = rn_log st @ new \<and>
       (\<forall>e \<in> set new. \<exists>arn \<in> set arns. \<not> is_held arn \<and> on_image arn (en_call e)) \<and>
       (\<forall>arn \<in> set ds. arn \<in> set arns \<and> (\<exists>e \<in> set new. accepted_delete arn e)) \<and>
       set arns = set ds \<union> set us"
proof (induction arns arbitrary: st ds us fs)
  case (Cons arn arns)
  show ?case
  proof (cases "is_held arn")
    case True
    with Cons.prems obtain us' where "delete_images is_held arns st = (ds, us', fs, st')" "us = arn # us'"
      by (auto split: prod.splits)
    with Cons.IH [of st ds us' fs] show ?thesis by fastforce
  next
    case False
    obtain r st1 where td: "try_delete_image_paced arn st = (r, st1)" by fastforce
    obtain n1 where n1: "rn_log st1 = rn_log st @ n1" "\<forall>e \<in> set n1. on_image arn (en_call e)"
      "r = Inr () \<longrightarrow> (\<exists>e \<in> set n1. accepted_delete arn e)"
      using try_delete_log [OF td] by blast
    obtain ds' us' fs' where rest: "delete_images is_held arns st1 = (ds', us', fs', st')"
      and cases: "r = Inr () \<and> ds = arn # ds' \<and> us = us' \<or> ds = ds' \<and> us = arn # us'"
      using Cons.prems False td by (cases r) (auto split: prod.splits)
    obtain n2 where n2: "rn_log st' = rn_log st1 @ n2"
      "\<forall>e \<in> set n2. \<exists>arn \<in> set arns. \<not> is_held arn \<and> on_image arn (en_call e)"
      "\<forall>arn \<in> set ds'. arn \<in> set arns \<and> (\<exists>e \<in> set n2. accepted_delete arn e)" "set arns = set ds' \<union> set us'"
      using Cons.IH [OF rest] by blast
    show ?thesis
    proof (intro exI [of _ "n1 @ n2"] conjI)
      show "\<forall>a \<in> set ds. a \<in> set (arn # arns) \<and> (\<exists>e \<in> set (n1 @ n2). accepted_delete a e)"
      proof
        fix a assume "a \<in> set ds"
        with cases consider "a \<in> set ds'" | "a = arn" "r = Inr ()" by auto
        then show "a \<in> set (arn # arns) \<and> (\<exists>e \<in> set (n1 @ n2). accepted_delete a e)"
        proof cases
          case 1
          with n2(3) obtain e where "a \<in> set arns" "e \<in> set n2" "accepted_delete a e" by blast
          then show ?thesis by (intro conjI bexI [of _ e]) simp_all
        next
          case 2
          with n1(3) obtain e where "e \<in> set n1" "accepted_delete a e" by blast
          with 2 show ?thesis by (intro conjI bexI [of _ e]) simp_all
        qed
      qed
    qed (use n1 n2 cases False in auto)
  qed
qed simp

lemma confirm_log:
  "confirm_deleted p started deleting deleted st = (deleted', fails, finished, st') \<Longrightarrow>
     \<exists>new. rn_log st' = rn_log st @ new \<and> (\<forall>e \<in> set new. lists_images p (en_call e)) \<and>
       (\<forall>arn \<in> set deleted'. arn \<in> set deleted \<or>
          arn \<in> set deleting \<and> shown_absent p arn new) \<and>
       (finished \<longrightarrow> set deleting \<union> set deleted = set deleted' \<union> fst ` set fails) \<and>
       (\<not> finished \<longrightarrow> (\<exists>e. fails = [(''ListMicrovmImages'', e)]))"
proof (induction "length (rn_moments st)" arbitrary: deleting deleted st rule: less_induct)
  case less
  show ?case
  proof (cases "deleting = []")
    case True
    with less.prems show ?thesis by (auto simp: confirm_deleted.simps [of p started])
  next
    case some: False
    obtain r st1 where si: "sweep_images p st = (r, st1)" by fastforce
    obtain new where new: "rn_log st1 = rn_log st @ new" "\<forall>e \<in> set new. lists_images p (en_call e)"
      "\<And>l. r = Inr l \<Longrightarrow> l = images_read p new \<and> complete_listing mo_images (ListImages p) None new"
      using sweep_images_log [OF si] by metis
    show ?thesis
    proof (cases r)
      case (Inl e)
      with less.prems si some new(1,2) show ?thesis
        by (intro exI [of _ new]) (auto simp: confirm_deleted.simps [of p started])
    next
      case (Inr remaining)
      let ?absent = "filter (\<lambda>arn. arn \<notin> im_arn ` set remaining) deleting"
      let ?left = "filter (\<lambda>arn. arn \<in> im_arn ` set remaining) deleting"
      have rem: "remaining = images_read p new" "complete_listing mo_images (ListImages p) None new"
        using new(3) Inr by blast+
      have gone: "shown_absent p arn new" if "arn \<in> set ?absent" for arn
        using that shown_absent_read [OF rem(2)] unfolding rem(1) by simp
      show ?thesis
      proof (cases "?left = [] \<or> DEFAULT_LIFECYCLE_TIMEOUT \<le> rn_now st1 - started")
        case True
        with less.prems si some Inr
        have res: "deleted' = deleted @ ?absent" "finished" "st' = st1"
          "fails = map (\<lambda>arn. (arn, NotConfirmed)) ?left"
          by (simp_all add: confirm_deleted.simps [of p started] Let_def split: if_splits)
        then have "fst ` set fails = set ?left" by (simp add: image_image)
        with res new(1,2) gone show ?thesis by (intro exI [of _ new]) auto
      next
        case False
        let ?st = "clock_sleep LIFECYCLE_POLL_INTERVAL st1"
        have again: "confirm_deleted p started ?left (deleted @ ?absent) ?st = (deleted', fails, finished, st')"
          using less.prems si some Inr False
          by (simp add: confirm_deleted.simps [of p started deleting deleted] Let_def)
        have fewer: "length (rn_moments ?st) < length (rn_moments st)"
          using sweep_images_steps si Inr by simp
        obtain rest where rest: "rn_log st' = rn_log ?st @ rest" "\<forall>e \<in> set rest. lists_images p (en_call e)"
          "\<forall>arn \<in> set deleted'. arn \<in> set (deleted @ ?absent) \<or> arn \<in> set ?left \<and> shown_absent p arn rest"
          "finished \<longrightarrow> set ?left \<union> set (deleted @ ?absent) = set deleted' \<union> fst ` set fails"
          "\<not> finished \<longrightarrow> (\<exists>e. fails = [(''ListMicrovmImages'', e)])"
          using less.hyps [OF fewer again] by blast
        have "arn \<in> set deleted \<or> arn \<in> set deleting \<and> shown_absent p arn (new @ rest)"
          if "arn \<in> set deleted'" for arn
          using rest(3) that gone [of arn] shown_absent_append [of p arn] by auto
        moreover have "set ?left \<union> set (deleted @ ?absent) = set deleting \<union> set deleted" by auto
        ultimately show ?thesis
          using new(1,2) rest by (intro exI [of _ "new @ rest"]) auto
      qed
    qed
  qed
qed

end
