(* ===== verification/SweepSafety.thy ===== *)
theory SweepSafety
  imports Sweep
begin

text \<open>
  What a sweep may touch, when, and what its report says: the phases of \<open>Sweep\<close> put together over
  the log of one call, whatever the service answers.
\<close>

section \<open>The whole cleanup\<close>

text \<open>
  What the log of a cleanup holds: the terminations, the polls, the deletions and the confirmation, in
  that order, and what each of them may touch.
\<close>

definition deletable :: "image list \<Rightarrow> sweep_options \<Rightarrow> microvm list \<Rightarrow> log_entry list \<Rightarrow> string \<Rightarrow> bool" where
  "deletable images opts vms polls arn \<longleftrightarrow>
     arn \<in> set (candidates_of opts images) \<and>
     (\<forall>vm \<in> set vms. mv_image_arn vm = arn \<and> mv_state vm \<noteq> ''TERMINATED'' \<longrightarrow>
        shown_terminated (mv_id vm) polls) \<and>
     (\<exists>live. ends_with_listing live polls \<and>
        (\<forall>v \<in> set live. mv_image_arn v = arn \<longrightarrow> mv_state v = ''TERMINATED''))"

lemma not_held_deletable:
  assumes "\<not> held vms (matched_vms (candidates_of opts images) vms) terminated live arn"
    and "arn \<in> set (candidates_of opts images)" and "ends_with_listing live polls"
    and "\<forall>i \<in> set terminated. shown_terminated i polls"
  shows "deletable images opts vms polls arn"
  using assms by (fastforce simp: deletable_def held_def list_ex_iff matched_vms_def)

lemma clean_up_log:
  assumes "clean_up p opts images vms st = (rep, st')"
  obtains t w d c where "rn_log st' = rn_log st @ t @ w @ d @ c"
    and "\<forall>e \<in> set t. \<exists>i \<in> set (matched_vms (candidates_of opts images) vms). en_call e = TerminateVm i"
    and "\<forall>i \<in> set (matched_vms (candidates_of opts images) vms). require_valid_identifier i = Inr () \<longrightarrow>
      (\<exists>e \<in> set t. en_call e = TerminateVm i)"
    and "\<forall>e \<in> set w. lists_vms (en_call e)"
    and "\<forall>e \<in> set d. \<exists>arn. deletable images opts vms w arn \<and> on_image arn (en_call e)"
    and "\<forall>e \<in> set c. lists_images p (en_call e)"
    and "\<forall>i \<in> set (sr_microvms_terminated rep). shown_terminated i w"
    and "\<forall>arn \<in> set (sr_images_deleted rep). (\<exists>e \<in> set d. accepted_delete arn e) \<and>
      shown_absent p arn c"
    and "set (candidates_of opts images) \<subseteq>
      set (sr_images_deleted rep) \<union> set (sr_images_in_use rep) \<union> fst ` set (sr_failures rep) \<or>
      ''ListMicrovmImages'' \<in> fst ` set (sr_failures rep)"
proof -
  let ?c = "candidates_of opts images"
  let ?m = "matched_vms ?c vms"
  obtain fails st1 where ta: "terminate_all ?m st = (fails, st1)" by fastforce
  obtain t where t: "rn_log st1 = rn_log st @ t" "\<forall>e \<in> set t. \<exists>i \<in> set ?m. en_call e = TerminateVm i"
    "\<forall>i \<in> set ?m. require_valid_identifier i = Inr () \<longrightarrow> (\<exists>e \<in> set t. en_call e = TerminateVm i)"
    using terminate_all_log [OF ta] by blast
  obtain l terminated st2 where aw: "await_terminated ?m (rn_now st1) [] st1 = (l, terminated, st2)"
    by (metis prod_cases3)
  obtain w where w: "rn_log st2 = rn_log st1 @ w" "\<forall>e \<in> set w. lists_vms (en_call e)"
    "\<forall>i \<in> set terminated. shown_terminated i w"
    "\<forall>live. l = Inr live \<longrightarrow> ends_with_listing live w"
    using await_log [OF aw] by auto
  show thesis
  proof (cases l)
    case (Inl e)
    with assms ta aw t w show ?thesis
      by (intro that [of t w "[]" "[]"]) (auto simp: clean_up_def discovered_def Let_def)
  next
    case (Inr live)
    then have live: "ends_with_listing live w" using w(4) by blast
    let ?h = "held vms ?m terminated live"
    obtain ds us fs st3 where dl: "delete_images ?h ?c st2 = (ds, us, fs, st3)" by (metis prod_cases4)
    obtain d where d: "rn_log st3 = rn_log st2 @ d"
      "\<forall>e \<in> set d. \<exists>arn \<in> set ?c. \<not> ?h arn \<and> on_image arn (en_call e)"
      "\<forall>arn \<in> set ds. arn \<in> set ?c \<and> (\<exists>e \<in> set d. accepted_delete arn e)" "set ?c = set ds \<union> set us"
      using delete_images_log [OF dl] by blast
    obtain del fs2 fin st4 where cf: "confirm_deleted p (rn_now st3) ds [] st3 = (del, fs2, fin, st4)"
      by (metis prod_cases4)
    obtain c where c: "rn_log st4 = rn_log st3 @ c" "\<forall>e \<in> set c. lists_images p (en_call e)"
      "\<forall>arn \<in> set del. arn \<in> set ds \<and> shown_absent p arn c"
      "fin \<longrightarrow> set ds = set del \<union> fst ` set fs2" "\<not> fin \<longrightarrow> (\<exists>e. fs2 = [(''ListMicrovmImages'', e)])"
      using confirm_log [OF cf] by auto
    have rep: "st' = st4" "sr_microvms_terminated rep = terminated" "set (sr_images_deleted rep) = set del"
      "sr_images_in_use rep = us" "sr_failures rep = fails @ fs @ fs2"
      using assms ta aw Inr dl cf by (auto simp: clean_up_def discovered_def Let_def split: if_splits)
    have del: "\<forall>e \<in> set d. \<exists>arn. deletable images opts vms w arn \<and> on_image arn (en_call e)"
      using d(2) w(3) live not_held_deletable by metis
    show ?thesis
    proof (rule that [of t w d c])
      show "set ?c \<subseteq> set (sr_images_deleted rep) \<union> set (sr_images_in_use rep) \<union> fst ` set (sr_failures rep) \<or>
          ''ListMicrovmImages'' \<in> fst ` set (sr_failures rep)"
        using c(4,5) d(4) rep by (cases fin) auto
      show "\<forall>arn \<in> set (sr_images_deleted rep). (\<exists>e \<in> set d. accepted_delete arn e) \<and>
          shown_absent p arn c"
        using c(3) d(3) rep by auto
    qed (use t w d(1) del c rep in auto)
  qed
qed

lemma unquiet_suffix:
  assumes "before @ e # after = q @ rest" and "\<forall>x \<in> set q. \<not> P x" and "P e"
  shows "\<exists>before'. before = q @ before' \<and> before' @ e # after = rest"
proof -
  from assms(1) obtain us where "before = q @ us \<and> us @ e # after = rest \<or> before @ us = q \<and> e # after = us @ rest"
    by (auto simp: append_eq_append_conv2)
  then show ?thesis
  proof
    assume us: "before @ us = q \<and> e # after = us @ rest"
    show ?thesis
    proof (cases us)
      case Nil
      with us show ?thesis by auto
    next
      case (Cons x xs)
      with us have "e \<in> set q" by auto
      with assms(2,3) show ?thesis by blast
    qed
  qed blast
qed

lemma sweep_log:
  assumes "sweep prefix opts st = (r, st')"
  obtains (quiet) new where "rn_log st' = rn_log st @ new" "\<forall>e \<in> set new. \<not> mutates (en_call e)"
      "\<forall>rep. r = Inr rep \<longrightarrow> so_dry_run opts \<and> sr_images_deleted rep = [] \<and> sr_microvms_terminated rep = []"
  | (cleaned) l v rep st2 where "is_valid_image_name prefix" "\<not> so_dry_run opts"
      "\<forall>e \<in> set l. lists_images prefix (en_call e)" "complete_listing mo_images (ListImages prefix) None l"
      "\<forall>e \<in> set v. lists_vms (en_call e)" "complete_listing mo_vms ListVms None v"
      "rn_log st2 = rn_log st @ l @ v" "r = Inr rep"
      "clean_up prefix opts (images_read prefix l) (vms_read v) st2 = (rep, st')"
proof (cases "is_valid_image_name prefix")
  case False
  with assms show ?thesis by (intro quiet [of "[]"]) (auto simp: sweep_def require_valid_image_name_def)
next
  case valid: True
  obtain ri st1 where si: "sweep_images prefix (st\<lparr>rn_paced := None\<rparr>) = (ri, st1)" by fastforce
  obtain l where l0: "rn_log st1 = rn_log (st\<lparr>rn_paced := None\<rparr>) @ l" and l: "True" "\<forall>e \<in> set l. lists_images prefix (en_call e)"
    "\<And>x. ri = Inr x \<Longrightarrow> x = images_read prefix l \<and> complete_listing mo_images (ListImages prefix) None l"
    using sweep_images_log [OF si] by metis
  then have lg1: "rn_log st1 = rn_log st @ l" by simp
  show ?thesis
  proof (cases ri)
    case (Inl e)
    with assms valid si have "st' = st1" "r = Inl e"
      by (auto simp: sweep_def require_valid_image_name_def)
    then show ?thesis using lg1 l(2) lists_mutate by (intro quiet [of l]) auto
  next
    case (Inr images)
    obtain rv st2 where sv: "sweep_vms st1 = (rv, st2)" by fastforce
    obtain v where v: "rn_log st2 = rn_log st1 @ v" "\<forall>e \<in> set v. lists_vms (en_call e)"
      "\<And>x. rv = Inr x \<Longrightarrow> x = vms_read v \<and> complete_listing mo_vms ListVms None v"
      using sweep_vms_log [OF sv] by metis
    have q: "\<forall>e \<in> set (l @ v). \<not> mutates (en_call e)" using l(2) v(2) lists_mutate by auto
    have lg: "rn_log st2 = rn_log st @ l @ v" using lg1 v(1) by simp
    show ?thesis
    proof (cases rv)
      case rv: (Inl e)
      with assms valid si Inr sv have "st' = st2" "r = Inl e"
        by (auto simp: sweep_def require_valid_image_name_def)
      then show ?thesis using q lg by (intro quiet [of "l @ v"]) auto
    next
      case rv: (Inr vms)
      show ?thesis
      proof (cases "so_dry_run opts")
        case True
        with assms valid si Inr sv rv have "st' = st2" "r = Inr (discovered opts images vms)"
          by (auto simp: sweep_def require_valid_image_name_def)
        then show ?thesis using q lg True by (intro quiet [of "l @ v"]) (auto simp: discovered_def)
      next
        case False
        obtain rep st3 where cu: "clean_up prefix opts images vms st2 = (rep, st3)" by fastforce
        with assms valid si Inr sv rv False have res: "st' = st3" "r = Inr rep"
          by (auto simp: sweep_def require_valid_image_name_def)
        have "images = images_read prefix l" "complete_listing mo_images (ListImages prefix) None l"
          "vms = vms_read v" "complete_listing mo_vms ListVms None v"
          using l(3) Inr v(3) rv by blast+
        with valid False l(2) v(2) lg res cu show ?thesis by (intro cleaned [of l v st2 rep]) simp_all
      qed
    qed
  qed
qed

lemma lists_vms_not: "on_image a c \<or> lists_images p c \<Longrightarrow> \<not> lists_vms c"
  by (cases c) auto

lemma clean_up_discovery:
  assumes "clean_up p opts images vms st = (rep, st')"
  shows "sr_images_matched rep = map im_arn images \<and> sr_images_kept rep = map im_arn (filter (kept opts) images)"
  using assms
  by (auto simp: clean_up_def discovered_def Let_def split: prod.splits sum.splits)

text \<open>A candidate was listed, under the prefix and outside the keep list.\<close>

lemma candidate_listed:
  assumes "arn \<in> set (candidates_of opts (images_read p l))"
  shows "\<exists>e \<in> set l. \<exists>im \<in> set (page_items mo_images e).
    im_arn im = arn \<and> starts_with p (im_name im) \<and> im_state im \<noteq> ''DELETED'' \<and> \<not> kept opts im"
proof -
  obtain im where im: "im \<in> set (images_read p l)" "im_arn im = arn" "\<not> kept opts im"
    using assms by (auto simp: candidates_of_def)
  from images_read_items [OF im(1)] im(2,3) show ?thesis unfolding keep_image_def by blast
qed

text \<open>
  C37: A sweep touches only what it may. It changes nothing on a dry run or under an invalid (so also an
  empty) prefix. Otherwise each VM it terminates was listed before, live, on an image that was listed
  before under a name with the prefix and is in the keep list neither by its name nor by its ARN; and
  each image or version it deletes is of such an image.
\<close>

theorem sweep_stays_in_scope:
  assumes "sweep prefix opts st = (r, st')"
    and "rn_log st' = rn_log st @ before @ e # after" and "mutates (en_call e)"
  shows "\<not> so_dry_run opts \<and> is_valid_image_name prefix \<and>
    (\<exists>e1 \<in> set before. \<exists>im \<in> set (page_items mo_images e1).
       lists_images prefix (en_call e1) \<and> starts_with prefix (im_name im) \<and>
       im_name im \<notin> set (so_keep opts) \<and> im_arn im \<notin> set (so_keep opts) \<and>
       (case en_call e of
          TerminateVm i \<Rightarrow>
            (\<exists>e2 \<in> set before. \<exists>vm \<in> set (page_items mo_vms e2).
               mv_id vm = i \<and> mv_image_arn vm = im_arn im \<and> mv_state vm \<noteq> ''TERMINATED'')
        | c \<Rightarrow> on_image (im_arn im) c))"
proof (cases rule: sweep_log [OF assms(1)])
  case (1 new)
  with assms(2,3) show ?thesis by auto
next
  case (2 l v rep st2)
  let ?images = "images_read prefix l" and ?vms = "vms_read v"
  obtain t w d c where lg: "rn_log st' = rn_log st2 @ t @ w @ d @ c"
    and t: "\<forall>e \<in> set t. \<exists>i \<in> set (matched_vms (candidates_of opts ?images) ?vms). en_call e = TerminateVm i"
    and w: "\<forall>e \<in> set w. lists_vms (en_call e)"
    and d: "\<forall>e \<in> set d. \<exists>arn. deletable ?images opts ?vms w arn \<and> on_image arn (en_call e)"
    and c: "\<forall>e \<in> set c. lists_images prefix (en_call e)"
    by (rule clean_up_log [OF 2(9)]) (rule that; assumption)
  have "before @ e # after = (l @ v) @ t @ w @ d @ c" using assms(2) lg 2(7) by simp
  moreover have quiet: "\<forall>x \<in> set (l @ v). \<not> mutates (en_call x)" using 2(3,5) lists_mutate by auto
  ultimately obtain before' where b: "before = (l @ v) @ before'" "before' @ e # after = t @ w @ d @ c"
    using unquiet_suffix [of before e after "l @ v" _ "\<lambda>x. mutates (en_call x)"] assms(3) by blast
  then have "e \<in> set (t @ w @ d @ c)" by (metis in_set_conv_decomp)
  with w c assms(3) lists_mutate have "e \<in> set t \<or> e \<in> set d" by auto
  then show ?thesis
  proof
    assume "e \<in> set t"
    with t obtain i where i: "i \<in> set (matched_vms (candidates_of opts ?images) ?vms)" "en_call e = TerminateVm i"
      by blast
    then obtain vm where vm: "vm \<in> set ?vms" "mv_id vm = i" "mv_state vm \<noteq> ''TERMINATED''"
      "mv_image_arn vm \<in> set (candidates_of opts ?images)"
      by (auto simp: matched_vms_def)
    from vm(4) obtain e1 im where im: "e1 \<in> set l" "im \<in> set (page_items mo_images e1)" "im_arn im = mv_image_arn vm"
      "starts_with prefix (im_name im)" "\<not> kept opts im"
      using candidate_listed by blast
    obtain e2 where "e2 \<in> set v" "vm \<in> set (page_items mo_vms e2)" using vms_read_items [OF vm(1)] by blast
    with im vm i(2) 2(1-3) b(1) show ?thesis
      by (intro conjI bexI [of _ e1] bexI [of _ im]) (auto simp: kept_def)
  next
    assume "e \<in> set d"
    with d obtain arn where arn: "arn \<in> set (candidates_of opts ?images)" "on_image arn (en_call e)"
      by (auto simp: deletable_def)
    from arn(1) obtain e1 im where im: "e1 \<in> set l" "im \<in> set (page_items mo_images e1)" "im_arn im = arn"
      "starts_with prefix (im_name im)" "\<not> kept opts im"
      using candidate_listed by blast
    with arn(2) 2(1-3) b(1) show ?thesis
      by (intro conjI bexI [of _ e1] bexI [of _ im]) (auto simp: kept_def split: service_call.split)
  qed
qed

text \<open>
  C38: A sweep deletes an image, or a version of one, only once nothing runs on it. Before the call, the
  VMs were listed in full; every VM that listing shows live on the image was asked to terminate and
  was shown terminated by a later listing; and the last full listing of the VMs before the call shows
  no VM of the image that is not terminated.
\<close>

theorem sweep_deletes_only_released:
  assumes "sweep prefix opts st = (r, st')"
    and "rn_log st' = rn_log st @ before @ e # after" and "mutates (en_call e)"
    and "on_image arn (en_call e)"
  shows "\<exists>l v t w d live. before = l @ v @ t @ w @ d \<and> complete_listing mo_vms ListVms None v \<and>
    (\<forall>vm \<in> set (vms_read v). mv_image_arn vm = arn \<and> mv_state vm \<noteq> ''TERMINATED'' \<longrightarrow>
       (require_valid_identifier (mv_id vm) = Inr () \<longrightarrow> (\<exists>e \<in> set t. en_call e = TerminateVm (mv_id vm))) \<and>
       shown_terminated (mv_id vm) w) \<and>
    ends_with_listing live w \<and> (\<forall>e \<in> set d. \<not> lists_vms (en_call e)) \<and>
    (\<forall>x \<in> set live. mv_image_arn x = arn \<longrightarrow> mv_state x = ''TERMINATED'')"
proof (cases rule: sweep_log [OF assms(1)])
  case (1 new)
  with assms(2,3) show ?thesis by auto
next
  case (2 l v rep st2)
  let ?images = "images_read prefix l" and ?vms = "vms_read v"
  obtain t w d c where lg: "rn_log st' = rn_log st2 @ t @ w @ d @ c"
    and t: "\<forall>e \<in> set t. \<exists>i \<in> set (matched_vms (candidates_of opts ?images) ?vms). en_call e = TerminateVm i"
    and asked: "\<forall>i \<in> set (matched_vms (candidates_of opts ?images) ?vms). require_valid_identifier i = Inr () \<longrightarrow>
      (\<exists>e \<in> set t. en_call e = TerminateVm i)"
    and w: "\<forall>e \<in> set w. lists_vms (en_call e)"
    and d: "\<forall>e \<in> set d. \<exists>arn. deletable ?images opts ?vms w arn \<and> on_image arn (en_call e)"
    and c: "\<forall>e \<in> set c. lists_images prefix (en_call e)"
    by (rule clean_up_log [OF 2(9)]) (rule that; assumption)
  have "before @ e # after = (l @ v @ t @ w) @ d @ c" using assms(2) lg 2(7) by simp
  moreover have "\<forall>x \<in> set (l @ v @ t @ w). \<not> (mutates (en_call x) \<and> on_image arn (en_call x))"
    using 2(3,5) t w lists_mutate by auto
  ultimately obtain b where b: "before = (l @ v @ t @ w) @ b" "b @ e # after = d @ c"
    using unquiet_suffix [of before e after "l @ v @ t @ w" _ "\<lambda>x. mutates (en_call x) \<and> on_image arn (en_call x)"]
      assms(3,4) by blast
  have nc: "\<forall>x \<in> set c. \<not> mutates (en_call x)" using c lists_mutate by blast
  have "e \<in> set d"
  proof (rule ccontr)
    assume "e \<notin> set d"
    moreover have "e \<in> set (d @ c)" using b(2) by (metis in_set_conv_decomp)
    ultimately show False using nc assms(3) by simp
  qed
  then obtain a where a: "deletable ?images opts ?vms w a" "on_image a (en_call e)" using d by blast
  have "a = arn" using a(2) assms(4) by (cases "en_call e") auto
  note del = a(1) [unfolded this deletable_def]
  then obtain live where live: "ends_with_listing live w"
    "\<forall>x \<in> set live. mv_image_arn x = arn \<longrightarrow> mv_state x = ''TERMINATED''" by blast
  have "\<forall>x \<in> set b. x \<in> set d \<or> x \<in> set c" using arg_cong [OF b(2), of set] by auto
  then have nb: "\<forall>x \<in> set b. \<not> lists_vms (en_call x)"
    using d c lists_vms_not by blast
  have vms: "(require_valid_identifier (mv_id vm) = Inr () \<longrightarrow> (\<exists>e \<in> set t. en_call e = TerminateVm (mv_id vm))) \<and>
       shown_terminated (mv_id vm) w"
    if "vm \<in> set ?vms" "mv_image_arn vm = arn \<and> mv_state vm \<noteq> ''TERMINATED''" for vm
  proof -
    have "mv_id vm \<in> set (matched_vms (candidates_of opts ?images) ?vms)"
      using that del by (auto simp: matched_vms_def)
    with asked del that show ?thesis by blast
  qed
  show ?thesis
    by (rule exI [of _ l], rule exI [of _ v], rule exI [of _ t], rule exI [of _ w], rule exI [of _ b],
        rule exI [of _ live]) (use b(1) 2(6) vms live nb in \<open>simp\<close>)
qed

text \<open>
  C39: The report of a sweep is what was seen. A VM it calls terminated was listed in that state, and an
  image it calls deleted was deleted by an accepted call, after which a whole listing under the prefix
  no longer held it. On a cleanup every candidate is reported as deleted, in use or failed, unless
  the listing that confirms the deletions failed, which is then reported.
\<close>

theorem sweep_report_truthful:
  assumes "sweep prefix opts st = (Inr rep, st')"
  shows "\<exists>new. rn_log st' = rn_log st @ new \<and>
    (\<forall>i \<in> set (sr_microvms_terminated rep). shown_terminated i new) \<and>
    (\<forall>arn \<in> set (sr_images_deleted rep).
       \<exists>a b. new = a @ b \<and> (\<exists>e \<in> set a. accepted_delete arn e) \<and> shown_absent prefix arn b) \<and>
    (\<not> so_dry_run opts \<longrightarrow>
       set (sr_images_matched rep) - set (sr_images_kept rep) \<subseteq>
         set (sr_images_deleted rep) \<union> set (sr_images_in_use rep) \<union> fst ` set (sr_failures rep) \<or>
       ''ListMicrovmImages'' \<in> fst ` set (sr_failures rep))"
proof (cases rule: sweep_log [OF assms(1)])
  case (1 new)
  then show ?thesis by (intro exI [of _ new]) auto
next
  case (2 l v rep' st2)
  have rep: "rep' = rep" using 2(8) by simp
  let ?images = "images_read prefix l" and ?vms = "vms_read v"
  obtain t w d c where lg: "rn_log st' = rn_log st2 @ t @ w @ d @ c"
    and ended: "\<forall>i \<in> set (sr_microvms_terminated rep). shown_terminated i w"
    and del: "\<forall>arn \<in> set (sr_images_deleted rep). (\<exists>e \<in> set d. accepted_delete arn e) \<and> shown_absent prefix arn c"
    and all: "set (candidates_of opts ?images) \<subseteq>
      set (sr_images_deleted rep) \<union> set (sr_images_in_use rep) \<union> fst ` set (sr_failures rep) \<or>
      ''ListMicrovmImages'' \<in> fst ` set (sr_failures rep)"
    by (rule clean_up_log [OF 2(9) [unfolded rep]]) (rule that; assumption)
  have cand: "set (sr_images_matched rep) - set (sr_images_kept rep) \<subseteq> set (candidates_of opts ?images)"
    using clean_up_discovery [OF 2(9) [unfolded rep]] by (auto simp: candidates_of_def)
  have "\<exists>a b. l @ v @ t @ w @ d @ c = a @ b \<and> (\<exists>e \<in> set a. accepted_delete arn e) \<and> shown_absent prefix arn b"
    if "arn \<in> set (sr_images_deleted rep)" for arn
    using del that by (intro exI [of _ "l @ v @ t @ w @ d"] exI [of _ c]) auto
  with lg ended all cand 2(7) show ?thesis
    by (intro exI [of _ "l @ v @ t @ w @ d @ c"]) auto
qed

section \<open>One sweep\<close>

text \<open>An image with one running VM: listed, terminated, seen terminated, deleted, seen gone.\<close>

definition job_image :: image where
  "job_image = \<lparr>im_arn = ''arn:old'', im_name = ''job-old'', im_state = ''CREATED''\<rparr>"

definition job_moment :: "string \<Rightarrow> image list \<Rightarrow> moment" where
  "job_moment state images =
     \<lparr>mo_images = Inr \<lparr>pg_items = images, pg_next = None\<rparr>,
      mo_vms = Inr \<lparr>pg_items = [\<lparr>mv_id = ''mvm-old'', mv_image_arn = ''arn:old'', mv_state = state\<rparr>], pg_next = None\<rparr>,
      mo_versions = Inr \<lparr>pg_items = [''1''], pg_next = None\<rparr>,
      mo_terminate = Inr (), mo_delete_version = Inr (), mo_delete_image = Inr ''DELETING'',
      mo_took = 0, mo_late = 0\<rparr>"

definition job_run :: run where
  "job_run =
     \<lparr>rn_moments = replicate 3 (job_moment ''RUNNING'' [job_image]) @ replicate 4 (job_moment ''TERMINATED'' []),
      rn_now = 0, rn_paced = None, rn_log = []\<rparr>"

definition job_options :: sweep_options where
  "job_options = \<lparr>so_keep = [''job-keep''], so_dry_run = False\<rparr>"

lemmas job_defs =
  sweep_def require_valid_image_name_def is_valid_image_name_def MAX_IMAGE_NAME_LEN_def is_alnum_def
  is_lower_def code_def job_run_def job_options_def job_moment_def job_image_def sweep_images_def sweep_vms_def
  list_versions_def pages_loop.simps sweep_page_def perform_def service_answer_def Let_def clock_sleep_def
  eval_nat_numeral add_images_def add_vms_def keep_image_def starts_with_def candidates_of_def kept_def
  discovered_def clean_up_def matched_vms_def terminate_vm_def require_valid_identifier_def
  MAX_IDENTIFIER_LEN_def await_terminated.simps seen_terminated_def held_def try_delete_image_paced_def
  image_is_failed_def confirm_deleted.simps

lemma job_sweep_log:
  "map en_call (rn_log (snd (sweep ''job-'' job_options job_run))) =
     [ListImages ''job-'' None, ListVms None, TerminateVm ''mvm-old'', ListVms None,
      ListVersions ''arn:old'' None, DeleteImage ''arn:old'', ListImages ''job-'' None]"
  by (simp add: job_defs)

lemma job_sweep_reportX: "True" by simp

lemma job_sweep_report:
  "\<exists>rep. fst (sweep ''job-'' job_options job_run) = Inr rep \<and> sr_images_deleted rep = [''arn:old''] \<and>
     sr_microvms_terminated rep = [''mvm-old''] \<and> sr_failures rep = []"
  by (simp add: job_defs)

lemma job_entry:
  assumes "c \<in> set (map en_call (rn_log (snd (sweep ''job-'' job_options job_run))))"
  obtains before e after st r where "sweep ''job-'' job_options job_run = (r, st)"
    "rn_log st = rn_log job_run @ before @ e # after" "en_call e = c"
proof -
  obtain r st where st: "sweep ''job-'' job_options job_run = (r, st)" by fastforce
  with assms obtain e where "e \<in> set (rn_log st)" "en_call e = c" by auto
  then obtain before after where "rn_log st = before @ e # after" "en_call e = c" by (meson split_list)
  moreover have "rn_log job_run = []" by (simp add: job_run_def)
  ultimately show ?thesis using st that by simp
qed

theorem sweep_stays_in_scope_witness:
  "is_valid_image_name ''job-'' \<and>
   (\<exists>im :: image. starts_with ''job-'' (im_name im) \<and> im_name im \<noteq> ''job-keep'' \<and> im_arn im = ''arn:old'')"
proof -
  obtain before e after st r where run: "sweep ''job-'' job_options job_run = (r, st)"
    "rn_log st = rn_log job_run @ before @ e # after" "en_call e = DeleteImage ''arn:old''"
    by (rule job_entry [of "DeleteImage ''arn:old''"]) (simp_all add: job_sweep_log)
  then have "mutates (en_call e)" by simp
  from sweep_stays_in_scope [OF run(1,2) this] obtain im :: image where
    "is_valid_image_name ''job-''" "starts_with ''job-'' (im_name im)"
    "im_name im \<notin> set (so_keep job_options)" "''arn:old'' = im_arn im"
    unfolding run(3) service_call.case on_image.simps by blast
  then show ?thesis by (intro conjI exI [of _ im]) (simp_all add: job_options_def)
qed

theorem sweep_deletes_only_released_witness:
  "\<exists>v w. complete_listing mo_vms ListVms None v \<and> (\<exists>live. ends_with_listing live w)"
proof -
  obtain before e after st r where run: "sweep ''job-'' job_options job_run = (r, st)"
    "rn_log st = rn_log job_run @ before @ e # after" "en_call e = DeleteImage ''arn:old''"
    by (rule job_entry [of "DeleteImage ''arn:old''"]) (simp_all add: job_sweep_log)
  then have "mutates (en_call e)" "on_image ''arn:old'' (en_call e)" by simp_all
  from sweep_deletes_only_released [OF run(1,2) this] show ?thesis by blast
qed

theorem sweep_report_truthful_witness:
  "\<exists>new. shown_terminated ''mvm-old'' new \<and> (\<exists>e. accepted_delete ''arn:old'' e)"
proof -
  obtain rep where rep: "fst (sweep ''job-'' job_options job_run) = Inr rep"
    "sr_images_deleted rep = [''arn:old'']" "sr_microvms_terminated rep = [''mvm-old'']"
    using job_sweep_report by blast
  obtain st where "sweep ''job-'' job_options job_run = (Inr rep, st)"
    using rep(1) by (metis prod.collapse)
  from sweep_report_truthful [OF this] rep show ?thesis by auto
qed

end
