(* ===== verification/ModelClient.thy ===== *)
theory ModelClient
  imports Prelude
begin

text \<open>
  The specification machine of the client's view of one microVM, \<open>crates/model/src/client.rs\<close>: what a
  caller and the platform can do, the local guards, the calls that reach the wire, and the always
  properties, for any bound on suspend and resume cycles.
\<close>

section \<open>States and actions\<close>

datatype cl_vm = VPending | VRunning | VSuspending | VSuspended | VTerminating | VTerminated

record cl_wire =
  wi_launches :: nat
  wi_suspends :: nat
  wi_resumes :: nat
  wi_terminates :: nat
  wi_payloads :: nat

datatype cl_verdict = Issued | RefusedLocally | RefusedAfterRead | RefusedByService | Ignored

datatype cl_action =
    LaunchAccepted | HookSucceeded | ExecRequested | SuspendRequested | SuspendComplete
  | PlatformIdleSuspended | ResumeRequested | SuspendedVmEnded | ResumeComplete | TerminateRequested
  | TerminateComplete

record cl_state =
  cl_vm_state :: cl_vm
  cl_token_installed :: bool
  cl_image_exists :: bool
  cl_was_terminated :: bool
  cl_bootstrap_count :: nat
  cl_wires :: cl_wire
  cl_proxy_token_cached :: bool
  cl_mints :: nat
  cl_installed_token :: "nat option"
  cl_resume_in_flight :: bool
  cl_platform_ended :: bool
  cl_platform_idle_suspended :: bool
  cl_idle_suspends :: nat
  cl_suspends_outside_running :: nat
  cl_resumes_after_terminate :: nat
  cl_token_replacements :: nat
  cl_last :: "(cl_action \<times> cl_verdict) option"
  cl_cycles :: nat

record cl_config =
  cg_max_cycles :: nat
  cg_skip_local_guards :: bool
  cg_allow_double_bootstrap :: bool

definition guards_held :: cl_config where
  "guards_held = \<lparr>cg_max_cycles = 2, cg_skip_local_guards = False, cg_allow_double_bootstrap = False\<rparr>"

definition guards_skipped :: cl_config where
  "guards_skipped = guards_held\<lparr>cg_skip_local_guards := True\<rparr>"

definition double_bootstrap_planted :: cl_config where
  "double_bootstrap_planted = guards_held\<lparr>cg_allow_double_bootstrap := True\<rparr>"

definition cl_guarded :: "cl_config \<Rightarrow> bool" where
  "cl_guarded cfg \<longleftrightarrow> \<not> cg_skip_local_guards cfg"

definition no_wire :: cl_wire where
  "no_wire = \<lparr>wi_launches = 0, wi_suspends = 0, wi_resumes = 0, wi_terminates = 0, wi_payloads = 0\<rparr>"

definition cl_init :: cl_state where
  "cl_init =
     \<lparr>cl_vm_state = VPending, cl_token_installed = False, cl_image_exists = False, cl_was_terminated = False,
      cl_bootstrap_count = 0, cl_wires = no_wire, cl_proxy_token_cached = False, cl_mints = 0,
      cl_installed_token = None, cl_resume_in_flight = False, cl_platform_ended = False,
      cl_platform_idle_suspended = False, cl_idle_suspends = 0, cl_suspends_outside_running = 0,
      cl_resumes_after_terminate = 0, cl_token_replacements = 0, cl_last = None, cl_cycles = 0\<rparr>"

section \<open>Actions on offer\<close>

definition cl_offered :: "cl_config \<Rightarrow> cl_state \<Rightarrow> cl_action \<Rightarrow> bool" where
  "cl_offered cfg s a =
     (let w = cl_wires s; launched = 0 < wi_launches w; bound = cg_max_cycles cfg in
      case a of
        LaunchAccepted \<Rightarrow> wi_launches w = 0 \<or> cg_allow_double_bootstrap cfg \<and> wi_launches w < 2
      | HookSucceeded \<Rightarrow> cl_bootstrap_count s < wi_launches w
      | ExecRequested \<Rightarrow> launched \<and> cl_vm_state s = VRunning \<and> \<not> cl_proxy_token_cached s
      | SuspendRequested \<Rightarrow> launched \<and> wi_suspends w \<le> bound
      | TerminateRequested \<Rightarrow> launched \<and> wi_terminates w = 0
      | ResumeRequested \<Rightarrow> launched \<and> wi_resumes w \<le> bound
      | SuspendComplete \<Rightarrow> cl_vm_state s = VSuspending
      | PlatformIdleSuspended \<Rightarrow>
          cl_vm_state s = VRunning \<and> \<not> cl_platform_idle_suspended s \<and> cl_idle_suspends s < bound
      | SuspendedVmEnded \<Rightarrow>
          (cl_vm_state s = VSuspended \<or> cl_platform_idle_suspended s) \<and> \<not> cl_was_terminated s \<and>
          \<not> cl_resume_in_flight s \<and> \<not> cl_platform_ended s
      | ResumeComplete \<Rightarrow> 0 < wi_resumes w \<and> cl_vm_state s \<noteq> VRunning
      | TerminateComplete \<Rightarrow> cl_vm_state s = VTerminating)"

definition ALL_CL_ACTIONS :: "cl_action list" where
  "ALL_CL_ACTIONS =
     [LaunchAccepted, HookSucceeded, ExecRequested, SuspendRequested, TerminateRequested, ResumeRequested,
      SuspendComplete, PlatformIdleSuspended, SuspendedVmEnded, ResumeComplete, TerminateComplete]"

definition cl_actions :: "cl_config \<Rightarrow> cl_state \<Rightarrow> cl_action list" where
  "cl_actions cfg s = filter (cl_offered cfg s) ALL_CL_ACTIONS"

section \<open>The transition\<close>

definition launch_step :: "cl_state \<Rightarrow> cl_state \<times> cl_verdict" where
  "launch_step s =
     (let w = cl_wires s in
      (s\<lparr>cl_vm_state := VPending, cl_image_exists := True,
         cl_wires := w\<lparr>wi_launches := wi_launches w + 1, wi_payloads := wi_payloads w + 1\<rparr>\<rparr>, Issued))"

definition hook_step :: "cl_state \<Rightarrow> cl_state \<times> cl_verdict" where
  "hook_step s =
     (if cl_vm_state s \<noteq> VPending \<or> 0 < cl_bootstrap_count s then (s, Ignored)
      else (s\<lparr>cl_vm_state := VRunning, cl_token_installed := True,
              cl_bootstrap_count := cl_bootstrap_count s + 1,
              cl_installed_token := Some (wi_launches (cl_wires s) - 1),
              cl_proxy_token_cached := True\<rparr>, Issued))"

definition suspend_step :: "cl_config \<Rightarrow> cl_state \<Rightarrow> cl_state \<times> cl_verdict" where
  "suspend_step cfg s =
     (if cl_guarded cfg \<and> cl_vm_state s \<noteq> VRunning then (s, RefusedLocally)
      else
        (let w = cl_wires s in
         (s\<lparr>cl_wires := w\<lparr>wi_suspends := wi_suspends w + 1\<rparr>,
            cl_suspends_outside_running :=
              cl_suspends_outside_running s + (if cl_vm_state s \<noteq> VRunning then 1 else 0),
            cl_vm_state := VSuspending, cl_platform_idle_suspended := False\<rparr>, Issued)))"

definition resume_step :: "cl_config \<Rightarrow> cl_state \<Rightarrow> cl_state \<times> cl_verdict" where
  "resume_step cfg s =
     (let ended = cl_was_terminated s \<or> cl_vm_state s = VTerminated;
          observes = (cl_vm_state s = VRunning);
          suspended = (cl_vm_state s = VSuspended \<or> observes \<and> cl_platform_idle_suspended s) in
      if cl_guarded cfg \<and> ended then (s, RefusedLocally)
      else if cl_guarded cfg \<and> observes \<and> \<not> suspended then (s, RefusedAfterRead)
      else if cl_guarded cfg \<and> \<not> suspended then (s, RefusedLocally)
      else
        (let w = cl_wires s;
             s1 = s\<lparr>cl_wires := (if observes \<and> cl_platform_ended s then w
                                  else w\<lparr>wi_resumes := wi_resumes w + 1\<rparr>),
                     cl_resumes_after_terminate := cl_resumes_after_terminate s + (if ended then 1 else 0)\<rparr>
         in if cl_platform_ended s
            then (s1\<lparr>cl_vm_state := VTerminated, cl_was_terminated := True\<rparr>, RefusedByService)
            else (s1\<lparr>cl_vm_state := VSuspended, cl_platform_idle_suspended := False,
                     cl_resume_in_flight := True\<rparr>, Issued)))"

definition resumed_step :: "cl_state \<Rightarrow> cl_state \<times> cl_verdict" where
  "resumed_step s =
     (if \<not> cl_resume_in_flight s \<or> cl_vm_state s \<noteq> VSuspended then (s, Ignored)
      else (s\<lparr>cl_vm_state := VRunning, cl_resume_in_flight := False, cl_proxy_token_cached := False,
              cl_mints := cl_mints s + 1, cl_cycles := cl_cycles s + 1\<rparr>, Issued))"

definition terminate_step :: "cl_state \<Rightarrow> cl_state \<times> cl_verdict" where
  "terminate_step s =
     (let w = cl_wires s in
      (s\<lparr>cl_wires := w\<lparr>wi_terminates := wi_terminates w + 1\<rparr>, cl_vm_state := VTerminating,
         cl_was_terminated := True, cl_resume_in_flight := False\<rparr>, Issued))"

fun cl_effect :: "cl_config \<Rightarrow> cl_state \<Rightarrow> cl_action \<Rightarrow> cl_state \<times> cl_verdict" where
  "cl_effect cfg s LaunchAccepted = launch_step s"
| "cl_effect cfg s HookSucceeded = hook_step s"
| "cl_effect cfg s ExecRequested =
     (if cl_vm_state s \<noteq> VRunning \<or> cl_proxy_token_cached s then (s, Ignored)
      else (s\<lparr>cl_proxy_token_cached := True\<rparr>, Issued))"
| "cl_effect cfg s SuspendRequested = suspend_step cfg s"
| "cl_effect cfg s SuspendComplete =
     (if cl_vm_state s \<noteq> VSuspending then (s, Ignored) else (s\<lparr>cl_vm_state := VSuspended\<rparr>, Issued))"
| "cl_effect cfg s PlatformIdleSuspended =
     (s\<lparr>cl_platform_idle_suspended := True, cl_idle_suspends := cl_idle_suspends s + 1\<rparr>, Issued)"
| "cl_effect cfg s ResumeRequested = resume_step cfg s"
| "cl_effect cfg s SuspendedVmEnded = (s\<lparr>cl_platform_ended := True\<rparr>, Issued)"
| "cl_effect cfg s ResumeComplete = resumed_step s"
| "cl_effect cfg s TerminateRequested = terminate_step s"
| "cl_effect cfg s TerminateComplete =
     (if cl_vm_state s \<noteq> VTerminating then (s, Ignored) else (s\<lparr>cl_vm_state := VTerminated\<rparr>, Issued))"

text \<open>An installed token that another one replaces is counted.\<close>

definition count_replacement :: "cl_state \<Rightarrow> cl_state \<Rightarrow> cl_state" where
  "count_replacement s t =
     (case (cl_installed_token s, cl_installed_token t) of
        (Some a, Some b) \<Rightarrow> if a \<noteq> b then t\<lparr>cl_token_replacements := cl_token_replacements t + 1\<rparr> else t
      | _ \<Rightarrow> t)"

definition cl_next :: "cl_config \<Rightarrow> cl_state \<Rightarrow> cl_action \<Rightarrow> cl_state option" where
  "cl_next cfg s a =
     (let (t0, verdict) = cl_effect cfg s a;
          t = count_replacement s t0
      in if cg_max_cycles cfg < cl_cycles t then None
         else (let u = t\<lparr>cl_last := Some (a, verdict)\<rparr> in if u = s then None else Some u))"

fun cl_path :: "cl_config \<Rightarrow> cl_state \<Rightarrow> cl_action list \<Rightarrow> cl_state option" where
  "cl_path cfg s [] = Some s"
| "cl_path cfg s (a # as) =
     (if a \<in> set (cl_actions cfg s)
      then (case cl_next cfg s a of None \<Rightarrow> None | Some t \<Rightarrow> cl_path cfg t as)
      else None)"

section \<open>The always properties\<close>

definition step_lands :: "cl_state \<Rightarrow> bool" where
  "step_lands s \<longleftrightarrow>
     (case cl_last s of
        Some (LaunchAccepted, Issued) \<Rightarrow> cl_vm_state s = VPending \<and> cl_image_exists s
      | Some (HookSucceeded, Issued) \<Rightarrow> cl_vm_state s = VRunning \<and> cl_token_installed s
      | Some (SuspendRequested, Issued) \<Rightarrow> cl_vm_state s = VSuspending
      | Some (SuspendComplete, Issued) \<Rightarrow> cl_vm_state s = VSuspended
      | Some (ResumeComplete, Issued) \<Rightarrow> cl_vm_state s = VRunning \<and> \<not> cl_proxy_token_cached s
      | Some (TerminateRequested, Issued) \<Rightarrow> cl_vm_state s = VTerminating \<and> cl_was_terminated s
      | Some (TerminateComplete, Issued) \<Rightarrow> cl_vm_state s = VTerminated
      | Some (ResumeRequested, RefusedByService) \<Rightarrow> cl_vm_state s = VTerminated \<and> cl_was_terminated s
      | Some (ResumeRequested, RefusedLocally) \<Rightarrow> cl_was_terminated s \<or> cl_vm_state s \<noteq> VSuspended
      | _ \<Rightarrow> True)"

definition cl_always :: "cl_state \<Rightarrow> bool list" where
  "cl_always s =
     (let w = cl_wires s in
      [step_lands s,
       cl_bootstrap_count s \<le> 1,
       cl_suspends_outside_running s = 0,
       \<not> (cl_was_terminated s \<and> cl_vm_state s = VRunning),
       cl_image_exists s = (0 < wi_launches w) \<and> (cl_token_installed s \<longrightarrow> cl_image_exists s),
       cl_resumes_after_terminate s = 0,
       wi_payloads w = wi_launches w,
       cl_token_replacements s = 0 \<and> (cl_installed_token s \<noteq> None) = cl_token_installed s,
       cl_token_installed s \<longrightarrow> cl_installed_token s \<noteq> None \<or> cl_vm_state s = VTerminated,
       (wi_suspends w = 0 \<or> 0 < wi_launches w) \<and>
         (wi_resumes w = 0 \<or> 0 < wi_suspends w \<or> 0 < cl_idle_suspends s \<or> 0 < cl_resumes_after_terminate s) \<and>
         cl_mints s \<le> wi_resumes w])"

section \<open>The invariant\<close>

definition vm_ok :: "cl_state \<Rightarrow> bool" where
  "vm_ok s \<longleftrightarrow>
     (let w = cl_wires s; launched = 0 < wi_launches w;
          live = launched \<and> \<not> cl_was_terminated s \<and> cl_token_installed s in
      case cl_vm_state s of
        VPending \<Rightarrow> \<not> cl_was_terminated s \<and> \<not> cl_resume_in_flight s
      | VRunning \<Rightarrow> live \<and> \<not> cl_resume_in_flight s
      | VSuspending \<Rightarrow> live \<and> \<not> cl_resume_in_flight s \<and> 0 < wi_suspends w
      | VSuspended \<Rightarrow>
          live \<and> (cl_resume_in_flight s \<longrightarrow> \<not> cl_platform_ended s) \<and>
          (0 < wi_suspends w \<or> 0 < cl_idle_suspends s)
      | VTerminating \<Rightarrow> launched \<and> cl_was_terminated s \<and> \<not> cl_resume_in_flight s
      | VTerminated \<Rightarrow> launched \<and> cl_was_terminated s \<and> \<not> cl_resume_in_flight s)"

definition counts_ok :: "cl_state \<Rightarrow> bool" where
  "counts_ok s \<longleftrightarrow>
     (let w = cl_wires s in
      wi_launches w \<le> 1 \<and> cl_bootstrap_count s \<le> wi_launches w \<and>
      cl_image_exists s = (0 < wi_launches w) \<and> cl_suspends_outside_running s = 0 \<and>
      cl_resumes_after_terminate s = 0 \<and> cl_token_replacements s = 0 \<and> wi_payloads w = wi_launches w \<and>
      cl_token_installed s = (cl_bootstrap_count s = 1) \<and>
      cl_installed_token s = (if cl_token_installed s then Some 0 else None) \<and>
      (wi_launches w = 0 \<longrightarrow> wi_suspends w = 0 \<and> wi_resumes w = 0) \<and>
      (cl_platform_idle_suspended s \<longrightarrow> 0 < cl_idle_suspends s) \<and>
      (0 < wi_resumes w \<longrightarrow> 0 < wi_suspends w \<or> 0 < cl_idle_suspends s) \<and>
      cl_mints s + (if cl_resume_in_flight s then 1 else 0) \<le> wi_resumes w)"

definition cl_inv :: "cl_state \<Rightarrow> bool" where
  "cl_inv s \<longleftrightarrow> vm_ok s \<and> counts_ok s \<and> step_lands s"

lemmas inv_defs = vm_ok_def counts_ok_def Let_def

lemmas cl_steps = launch_step_def hook_step_def suspend_step_def resume_step_def resumed_step_def
  terminate_step_def cl_guarded_def

lemma cl_inv_init: "cl_inv cl_init"
  by (simp add: cl_inv_def inv_defs cl_init_def no_wire_def step_lands_def)

lemma vm_ok_simps [simp]: "vm_ok (s\<lparr>cl_last := x\<rparr>) = vm_ok s" "counts_ok (s\<lparr>cl_last := x\<rparr>) = counts_ok s"
  by (cases "cl_vm_state s"; simp add: inv_defs)+

lemma launch_ok: "vm_ok s \<Longrightarrow> counts_ok s \<Longrightarrow> wi_launches (cl_wires s) = 0 \<Longrightarrow>
    vm_ok (fst (launch_step s)) \<and> counts_ok (fst (launch_step s))"
  by (cases "cl_vm_state s"; simp add: launch_step_def inv_defs)

lemma hook_ok: "vm_ok s \<Longrightarrow> counts_ok s \<Longrightarrow> cl_bootstrap_count s < wi_launches (cl_wires s) \<Longrightarrow>
    vm_ok (fst (hook_step s)) \<and> counts_ok (fst (hook_step s))"
  by (cases "cl_vm_state s"; simp add: hook_step_def inv_defs split: if_splits)

lemma suspend_ok: "vm_ok s \<Longrightarrow> counts_ok s \<Longrightarrow> \<not> cg_skip_local_guards cfg \<Longrightarrow>
    0 < wi_launches (cl_wires s) \<Longrightarrow> vm_ok (fst (suspend_step cfg s)) \<and> counts_ok (fst (suspend_step cfg s))"
  by (cases "cl_vm_state s"; simp add: suspend_step_def cl_guarded_def inv_defs split: if_splits)

lemma resume_cases:
  assumes "\<not> cg_skip_local_guards cfg" and "vm_ok s"
  obtains
    (refused) v where "resume_step cfg s = (s, v)" "v = RefusedLocally \<or> v = RefusedAfterRead"
      "v = RefusedLocally \<longrightarrow> cl_was_terminated s \<or> cl_vm_state s \<noteq> VSuspended"
  | (ended) w where "resume_step cfg s =
        (s\<lparr>cl_wires := w, cl_vm_state := VTerminated, cl_was_terminated := True\<rparr>, RefusedByService)"
      "cl_platform_ended s"
      "w = cl_wires s \<or> w = (cl_wires s)\<lparr>wi_resumes := wi_resumes (cl_wires s) + 1\<rparr>"
      "cl_vm_state s = VSuspended \<or> cl_vm_state s = VRunning \<and> cl_platform_idle_suspended s"
  | (sent) "resume_step cfg s =
        (s\<lparr>cl_wires := (cl_wires s)\<lparr>wi_resumes := wi_resumes (cl_wires s) + 1\<rparr>, cl_vm_state := VSuspended,
           cl_platform_idle_suspended := False, cl_resume_in_flight := True\<rparr>, Issued)"
      "\<not> cl_platform_ended s"
      "cl_vm_state s = VSuspended \<or> cl_vm_state s = VRunning \<and> cl_platform_idle_suspended s"
proof -
  let ?ended = "cl_was_terminated s \<or> cl_vm_state s = VTerminated"
  let ?sus = "cl_vm_state s = VSuspended \<or> cl_vm_state s = VRunning \<and> cl_platform_idle_suspended s"
  consider "?ended \<or> \<not> ?sus" | "\<not> ?ended" "?sus" "cl_platform_ended s" | "\<not> ?ended" "?sus" "\<not> cl_platform_ended s"
    by blast
  then show ?thesis
  proof cases
    case 1
    then show ?thesis using assms
      by (intro refused [of "if ?ended \<or> cl_vm_state s \<noteq> VRunning then RefusedLocally else RefusedAfterRead"]) (auto simp: resume_step_def cl_guarded_def Let_def)
  next
    case 2
    then show ?thesis
      by (intro ended) (auto simp: resume_step_def cl_guarded_def Let_def)
  next
    case 3
    then show ?thesis
      by (intro sent) (auto simp: resume_step_def cl_guarded_def Let_def)
  qed
qed

lemma resume_ok:
  assumes "vm_ok s" and "counts_ok s" and "\<not> cg_skip_local_guards cfg"
  shows "vm_ok (fst (resume_step cfg s)) \<and> counts_ok (fst (resume_step cfg s))"
proof (cases rule: resume_cases [OF assms(3,1)])
  case (1 v)
  with assms show ?thesis by simp
next
  case (2 w)
  with assms show ?thesis by (cases "cl_vm_state s"; elim disjE; simp add: inv_defs split: if_splits)
next
  case 3
  with assms show ?thesis by (cases "cl_vm_state s"; simp add: inv_defs split: if_splits)
qed

lemma resumed_ok: "vm_ok s \<Longrightarrow> counts_ok s \<Longrightarrow> vm_ok (fst (resumed_step s)) \<and> counts_ok (fst (resumed_step s))"
  by (cases "cl_vm_state s"; cases "cl_resume_in_flight s"; simp add: resumed_step_def inv_defs split: if_splits)

lemma terminate_ok: "vm_ok s \<Longrightarrow> counts_ok s \<Longrightarrow> 0 < wi_launches (cl_wires s) \<Longrightarrow>
    vm_ok (fst (terminate_step s)) \<and> counts_ok (fst (terminate_step s))"
  by (cases "cl_vm_state s"; simp add: terminate_step_def inv_defs split: if_splits)

lemma effect_ok:
  assumes "vm_ok s" and "counts_ok s" and "cl_offered cfg s a"
    and "\<not> cg_skip_local_guards cfg" and "\<not> cg_allow_double_bootstrap cfg"
  shows "vm_ok (fst (cl_effect cfg s a)) \<and> counts_ok (fst (cl_effect cfg s a))"
proof (cases a)
  case LaunchAccepted
  with assms launch_ok show ?thesis by (simp add: cl_offered_def Let_def)
next
  case HookSucceeded
  with assms hook_ok show ?thesis by (simp add: cl_offered_def Let_def)
next
  case ExecRequested
  with assms show ?thesis by (cases "cl_vm_state s"; simp add: inv_defs split: if_splits)
next
  case SuspendRequested
  with assms suspend_ok show ?thesis by (simp add: cl_offered_def Let_def)
next
  case SuspendComplete
  with assms show ?thesis by (cases "cl_vm_state s"; simp add: inv_defs cl_offered_def split: if_splits)
next
  case PlatformIdleSuspended
  with assms show ?thesis by (cases "cl_vm_state s"; simp add: inv_defs cl_offered_def split: if_splits)
next
  case ResumeRequested
  with assms resume_ok show ?thesis by simp
next
  case SuspendedVmEnded
  with assms show ?thesis by (cases "cl_vm_state s"; simp add: inv_defs cl_offered_def split: if_splits)
next
  case ResumeComplete
  with assms resumed_ok show ?thesis by simp
next
  case TerminateRequested
  with assms terminate_ok show ?thesis by (simp add: cl_offered_def Let_def)
next
  case TerminateComplete
  with assms show ?thesis by (cases "cl_vm_state s"; simp add: inv_defs cl_offered_def split: if_splits)
qed

lemma no_replacement:
  assumes "counts_ok s" and "counts_ok t"
  shows "count_replacement s t = t"
  using assms by (auto simp: count_replacement_def counts_ok_def Let_def split: option.splits if_splits)

lemma effect_lands:
  assumes "vm_ok s" and "counts_ok s" and "\<not> cg_skip_local_guards cfg"
  shows "step_lands ((fst (cl_effect cfg s a))\<lparr>cl_last := Some (a, snd (cl_effect cfg s a))\<rparr>)"
proof (cases a)
  case ResumeRequested
  then show ?thesis by (cases rule: resume_cases [OF assms(3,1)]) (auto simp: step_lands_def)
qed (use assms in \<open>auto simp: step_lands_def launch_step_def hook_step_def suspend_step_def resumed_step_def
  terminate_step_def cl_guarded_def Let_def\<close>)

lemma cl_inv_step:
  assumes "cl_inv s" and "cl_next cfg s a = Some t" and "cl_offered cfg s a"
    and "\<not> cg_skip_local_guards cfg" and "\<not> cg_allow_double_bootstrap cfg"
  shows "cl_inv t"
proof -
  obtain t0 v where e: "cl_effect cfg s a = (t0, v)" by fastforce
  have ok: "vm_ok t0" "counts_ok t0" using effect_ok [of s cfg a] assms e by (auto simp: cl_inv_def)
  then have "count_replacement s t0 = t0" using no_replacement assms(1) by (auto simp: cl_inv_def)
  then have "t = t0\<lparr>cl_last := Some (a, v)\<rparr>"
    using assms(2) e by (auto simp: cl_next_def Let_def split: if_splits)
  with ok effect_lands [of s cfg a] assms e show ?thesis by (simp add: cl_inv_def)
qed

lemma cl_inv_path:
  "cl_path cfg s as = Some t \<Longrightarrow> cl_inv s \<Longrightarrow> \<not> cg_skip_local_guards cfg \<Longrightarrow>
     \<not> cg_allow_double_bootstrap cfg \<Longrightarrow> cl_inv t"
proof (induction as arbitrary: s)
  case (Cons a as)
  from Cons.prems(1) obtain u where u: "cl_offered cfg s a" "cl_next cfg s a = Some u" "cl_path cfg u as = Some t"
    by (auto simp: cl_actions_def split: if_splits option.splits)
  with Cons cl_inv_step show ?case by blast
qed simp

lemma cl_inv_always: "cl_inv s \<Longrightarrow> list_all id (cl_always s)"
  by (cases "cl_vm_state s"; simp add: cl_inv_def inv_defs cl_always_def split: if_splits; linarith?)

text \<open>
  C33: every state the client machine reaches with its guards in place satisfies every always property
  of the specification, whatever the bound on cycles: each step lands where STATE-1 to STATE-12 say,
  the token is installed at most once and never replaced, no suspend leaves from outside RUNNING, no
  resume is sent after a termination, and a terminated VM never runs again.
\<close>

theorem client_machine_correct:
  assumes "cl_path cfg cl_init as = Some s"
    and "\<not> cg_skip_local_guards cfg" and "\<not> cg_allow_double_bootstrap cfg"
  shows "list_all id (cl_always s)"
  using cl_inv_path [OF assms(1) cl_inv_init assms(2,3)] by (rule cl_inv_always)

lemmas cl_eval = cl_actions_def ALL_CL_ACTIONS_def cl_offered_def cl_next_def cl_steps count_replacement_def
  cl_init_def no_wire_def guards_held_def guards_skipped_def double_bootstrap_planted_def Let_def

text \<open>A run through a suspend, a resume that completes, an idle suspension, its end and the refused resume.\<close>

definition client_run :: "cl_action list" where
  "client_run =
     [LaunchAccepted, HookSucceeded, SuspendRequested, SuspendComplete, ResumeRequested, ResumeComplete,
      PlatformIdleSuspended, SuspendedVmEnded, ResumeRequested, ResumeRequested]"

lemma client_run_state:
  "\<exists>s. cl_path guards_held cl_init client_run = Some s \<and> cl_vm_state s = VTerminated \<and> cl_mints s = 1 \<and>
     cl_last s = Some (ResumeRequested, RefusedLocally)"
  by (simp add: client_run_def cl_eval)

theorem client_machine_correct_witness:
  "\<exists>s. cl_path guards_held cl_init client_run = Some s \<and> list_all id (cl_always s) \<and> cl_mints s = 1"
proof -
  obtain s where s: "cl_path guards_held cl_init client_run = Some s" "cl_mints s = 1"
    using client_run_state by blast
  have "list_all id (cl_always s)"
    using client_machine_correct [OF s(1)] by (simp add: guards_held_def)
  with s show ?thesis by blast
qed

text \<open>
  The guards are what holds it: without them a resume is sent after a termination and a suspend leaves
  from outside RUNNING, and a second launch revives a terminated VM.
\<close>

lemma unguarded_client_breaks:
  "\<exists>s. cl_path guards_skipped cl_init [LaunchAccepted, TerminateRequested, ResumeRequested] = Some s \<and>
     cl_resumes_after_terminate s = 1"
  "\<exists>s. cl_path guards_skipped cl_init [LaunchAccepted, SuspendRequested] = Some s \<and>
     cl_suspends_outside_running s = 1"
  by (simp_all add: cl_eval)

lemma second_launch_breaks:
  "\<exists>s. cl_path double_bootstrap_planted cl_init
     [LaunchAccepted, TerminateRequested, LaunchAccepted, HookSucceeded] = Some s \<and>
     cl_was_terminated s \<and> cl_vm_state s = VRunning"
  by (simp add: cl_eval)

end
