(* ===== verification/ControlPlane.thy ===== *)
theory ControlPlane
  imports ClientErrors
begin

text \<open>
  The calls a sandbox makes for one VM, \<open>crates/microvms-app/src/control/microvm.rs\<close> and the retry loop
  of \<open>delete_image\<close> in \<open>control/image.rs\<close>: polling for a state, the launch wait, and the resume that tells
  an ended VM from a refusal. The service is a list of answers, one for each call: what it would say
  to each operation at that moment, after the retries of the call. After the last one every call
  fails. The world keeps the clock and every call made.
\<close>

section \<open>The world\<close>

record vm_view =
  vv_id :: string
  vv_endpoint :: string
  vv_state :: string
  vv_max_idle :: "nat option"

datatype plane_call =
    ResolveImage | RunMicrovm | GetMicrovm string | SuspendMicrovm string | ResumeMicrovm string
  | TerminateMicrovm string | DeleteImageTry string | BuildImage | AwaitDaemon

record service_moment =
  sm_arn :: "error_kind + string"
  sm_launch :: "error_kind + vm_view"
  sm_vm :: "error_kind + vm_view"
  sm_done :: "error_kind + unit"
  sm_deleted :: bool
  sm_image :: "error_kind + (string \<times> string)"
  sm_ready :: "error_kind + unit"
  sm_client :: "error_kind option"
  sm_took :: nat
  sm_late :: nat

record plane_world =
  wd_moments :: "service_moment list"
  wd_now :: nat
  wd_calls :: "plane_call list"

definition do_call :: "(service_moment \<Rightarrow> error_kind + 'a) \<Rightarrow> plane_call \<Rightarrow> plane_world \<Rightarrow> (error_kind + 'a) \<times> plane_world" where
  "do_call f c w =
     (case wd_moments w of
        [] \<Rightarrow> (Inl Retryable, w\<lparr>wd_calls := wd_calls w @ [c]\<rparr>)
      | m # ms \<Rightarrow>
          (f m, w\<lparr>wd_moments := ms, wd_now := wd_now w + sm_took m, wd_calls := wd_calls w @ [c]\<rparr>))"

definition nap_for :: "nat \<Rightarrow> plane_world \<Rightarrow> plane_world" where
  "nap_for d w = w\<lparr>wd_now := wd_now w + d + (case wd_moments w of [] \<Rightarrow> 0 | m # _ \<Rightarrow> sm_late m)\<rparr>"

lemma do_call_calls [simp]: "wd_calls (snd (do_call f c w)) = wd_calls w @ [c]"
  by (simp add: do_call_def split: list.split)

lemma do_call_answered:
  "do_call f c w = (Inr x, w') \<Longrightarrow> length (wd_moments w') < length (wd_moments w)"
  by (auto simp: do_call_def split: list.splits)

lemma nap_simps [simp]: "wd_calls (nap_for d w) = wd_calls w" "wd_moments (nap_for d w) = wd_moments w"
  by (simp_all add: nap_for_def)

section \<open>One VM\<close>

definition IDENTIFIER_LIMIT :: nat where "IDENTIFIER_LIMIT = 256"

definition valid_identifier :: "string \<Rightarrow> bool" where
  "valid_identifier s \<longleftrightarrow> s \<noteq> [] \<and> length s \<le> IDENTIFIER_LIMIT"

definition on_vm :: "(service_moment \<Rightarrow> error_kind + 'a) \<Rightarrow> (string \<Rightarrow> plane_call) \<Rightarrow> string \<Rightarrow> plane_world \<Rightarrow>
    (error_kind + 'a) \<times> plane_world" where
  "on_vm f c i w = (if valid_identifier i then do_call f (c i) w else (Inl InvalidArg, w))"

definition get_microvm where "get_microvm i w = on_vm sm_vm GetMicrovm i w"
definition control_suspend where "control_suspend i w = on_vm sm_done SuspendMicrovm i w"
definition control_terminate where "control_terminate i w = on_vm sm_done TerminateMicrovm i w"

definition TERMINAL_STATES :: "string list" where
  "TERMINAL_STATES = [''TERMINATED'', ''TERMINATING'', ''SUSPENDED'', ''SUSPENDING'']"

definition DEAD_STATES :: "string list" where
  "DEAD_STATES = [''TERMINATED'', ''TERMINATING'']"

definition SUSPEND_WANTED :: "string list" where
  "SUSPEND_WANTED = [''SUSPENDED'', ''TERMINATED'']"

text \<open>A resume the service refuses is \<open>WindowClosed\<close> when the VM turns out to have ended.\<close>

definition ended_before_resume :: "string \<Rightarrow> error_kind \<Rightarrow> plane_world \<Rightarrow> error_kind \<times> plane_world" where
  "ended_before_resume i refused w =
     (case get_microvm i w of
        (Inl _, w1) \<Rightarrow> (refused, w1)
      | (Inr vm, w1) \<Rightarrow> (if vv_state vm \<in> set DEAD_STATES then (WindowClosed, w1) else (refused, w1)))"

definition control_resume :: "string \<Rightarrow> plane_world \<Rightarrow> (error_kind + unit) \<times> plane_world" where
  "control_resume i w =
     (case on_vm sm_done ResumeMicrovm i w of
        (Inr _, w1) \<Rightarrow> (Inr (), w1)
      | (Inl e, w1) \<Rightarrow>
          if e = Platform
          then (let (k, w2) = ended_before_resume i e w1 in (Inl k, w2))
          else (Inl e, w1))"

section \<open>Waiting\<close>

definition NS :: nat where "NS = 1000000000"
definition LIFECYCLE_POLL :: nat where "LIFECYCLE_POLL = 5 * NS"
definition LIFECYCLE_TIMEOUT :: nat where "LIFECYCLE_TIMEOUT = 300 * NS"

lemma get_microvm_answered:
  "get_microvm i w = (Inr vm, w') \<Longrightarrow> length (wd_moments w') < length (wd_moments w)"
  by (auto simp: get_microvm_def on_vm_def dest: do_call_answered split: if_splits)

function state_wait_loop :: "string \<Rightarrow> string list \<Rightarrow> string list \<Rightarrow> nat \<Rightarrow> nat \<Rightarrow> plane_world \<Rightarrow> (error_kind + vm_view) \<times> plane_world" where
  "state_wait_loop i wanted fail_on timeout started w =
     (case get_microvm i w of
        (Inl e, w1) \<Rightarrow> (Inl e, w1)
      | (Inr vm, w1) \<Rightarrow>
          if vv_state vm \<in> set wanted then (Inr vm, w1)
          else if vv_state vm \<in> set fail_on then (Inl LaunchDied, w1)
          else if timeout \<le> wd_now w1 - started then (Inl TimeoutKind, w1)
          else state_wait_loop i wanted fail_on timeout started (nap_for LIFECYCLE_POLL w1))"
  by pat_completeness auto
termination
  by (relation "measure (\<lambda>(i, a, b, t, s, w). length (wd_moments w))")
    (auto dest: get_microvm_answered [OF sym])

definition wait_for_state where
  "wait_for_state i wanted fail_on timeout w = state_wait_loop i wanted fail_on timeout (wd_now w) w"

text \<open>The launch wait: at most one resume, and three quick polls.\<close>

definition poll_gap :: "nat \<Rightarrow> nat" where
  "poll_gap fast = (if 0 < fast then min LIFECYCLE_POLL NS else LIFECYCLE_POLL)"

lemma resume_moments: "control_resume i w = (r, w') \<Longrightarrow> length (wd_moments w') \<le> length (wd_moments w)"
  by (auto simp: control_resume_def ended_before_resume_def get_microvm_def on_vm_def do_call_def
      split: if_splits list.splits prod.splits sum.splits)

function launch_loop :: "string \<Rightarrow> bool \<Rightarrow> nat \<Rightarrow> nat \<Rightarrow> bool \<Rightarrow> nat \<Rightarrow> plane_world \<Rightarrow> (error_kind + vm_view) \<times> plane_world" where
  "launch_loop i adoptable timeout started resumed fast w =
     (case get_microvm i w of
        (Inl e, w1) \<Rightarrow> (Inl e, w1)
      | (Inr vm, w1) \<Rightarrow>
          if vv_state vm = ''RUNNING'' then (Inr vm, w1)
          else if vv_state vm \<in> set (if adoptable then DEAD_STATES else TERMINAL_STATES) then (Inl LaunchDied, w1)
          else if vv_state vm = ''SUSPENDED'' \<and> adoptable \<and> \<not> resumed
          then (case control_resume i w1 of
                  (Inl e, w2) \<Rightarrow> (Inl e, w2)
                | (Inr _, w2) \<Rightarrow> launch_loop i adoptable timeout started True fast w2)
          else if timeout \<le> wd_now w1 - started then (Inl TimeoutKind, w1)
          else launch_loop i adoptable timeout started resumed (fast - 1) (nap_for (poll_gap fast) w1))"
  by pat_completeness auto
termination
  by (relation "measure (\<lambda>(i, a, t, s, r, f, w). length (wd_moments w))")
    (auto dest!: get_microvm_answered [OF sym] resume_moments [OF sym])

definition wait_for_sandbox_launch where
  "wait_for_sandbox_launch i timeout adoptable w = launch_loop i adoptable timeout (wd_now w) False 3 w"

declare state_wait_loop.simps [simp del] launch_loop.simps [simp del]

section \<open>Deleting an image\<close>

text \<open>
  \<open>delete_image\<close>: the attempts left, after a pause from the second on. One attempt is
  \<open>try_delete_image_paced\<close> of \<open>Sweep\<close> without the pacing, here one call.
\<close>

fun delete_tries :: "string \<Rightarrow> nat \<Rightarrow> bool \<Rightarrow> nat \<Rightarrow> plane_world \<Rightarrow> bool \<times> plane_world" where
  "delete_tries i backoff first 0 w = (False, w)"
| "delete_tries i backoff first (Suc n) w =
     (let w1 = (if first then w else nap_for backoff w) in
      case do_call (\<lambda>m. Inr (sm_deleted m)) (DeleteImageTry i) w1 of
        (Inr True, w2) \<Rightarrow> (True, w2)
      | (_, w2) \<Rightarrow> delete_tries i backoff False n w2)"

definition delete_image :: "string \<Rightarrow> nat \<Rightarrow> nat \<Rightarrow> plane_world \<Rightarrow> bool \<times> plane_world" where
  "delete_image i attempts backoff w =
     (if valid_identifier i then delete_tries i backoff True (max attempts 1) w else (False, w))"

section \<open>What each call leaves in the world\<close>

text \<open>
  The calls one operation makes: the world's list of calls grows by some calls of a set, and each of
  them used one answer of the service, as long as there was one.
\<close>

definition grows :: "(plane_call \<Rightarrow> bool) \<Rightarrow> plane_world \<Rightarrow> plane_world \<Rightarrow> bool" where
  "grows P w w' \<longleftrightarrow>
     (\<exists>new. wd_calls w' = wd_calls w @ new \<and> list_all P new \<and>
        wd_moments w' = drop (length new) (wd_moments w))"

named_theorems grows \<open>how the list of calls grows\<close>

lemma grows_refl [intro!, grows]: "grows P w w"
  by (auto simp: grows_def)

lemma grows_trans [trans]: "grows P w w1 \<Longrightarrow> grows P w1 w2 \<Longrightarrow> grows P w w2"
  by (auto simp: grows_def add.commute)

lemma grows_mono: "grows P w w' \<Longrightarrow> (\<And>c. P c \<Longrightarrow> Q c) \<Longrightarrow> grows Q w w'"
  by (auto simp: grows_def list_all_iff)

lemma do_call_grows [grows]: "do_call f c w = (r, w') \<Longrightarrow> P c \<Longrightarrow> grows P w w'"
  by (auto simp: grows_def do_call_def intro!: exI [of _ "[c]"] split: list.splits)

lemma nap_grows [grows]: "grows P w (nap_for d w)"
  by (auto simp: grows_def)

fun reads_vm :: "string \<Rightarrow> plane_call \<Rightarrow> bool" where
  "reads_vm i (GetMicrovm j) \<longleftrightarrow> j = i"
| "reads_vm i _ \<longleftrightarrow> False"

fun resumes_vm :: "string \<Rightarrow> plane_call \<Rightarrow> bool" where
  "resumes_vm i (ResumeMicrovm j) \<longleftrightarrow> j = i"
| "resumes_vm i _ \<longleftrightarrow> False"

lemma get_grows [grows]: "get_microvm i w = (r, w') \<Longrightarrow> grows (reads_vm i) w w'"
  by (auto simp: get_microvm_def on_vm_def intro: do_call_grows split: if_splits)

lemma suspend_grows: "control_suspend i w = (r, w') \<Longrightarrow> grows (\<lambda>c. c = SuspendMicrovm i) w w'"
  by (auto simp: control_suspend_def on_vm_def intro: do_call_grows split: if_splits)

lemma terminate_grows: "control_terminate i w = (r, w') \<Longrightarrow> grows (\<lambda>c. c = TerminateMicrovm i) w w'"
  by (auto simp: control_terminate_def on_vm_def intro: do_call_grows split: if_splits)

lemma resume_grows:
  assumes "control_resume i w = (r, w')"
  shows "grows (\<lambda>c. reads_vm i c \<or> resumes_vm i c) w w'"
proof -
  obtain a w1 where a: "on_vm sm_done ResumeMicrovm i w = (a, w1)" by fastforce
  have one: "grows (\<lambda>c. reads_vm i c \<or> resumes_vm i c) w w1"
    using a by (auto simp: on_vm_def intro: do_call_grows split: if_splits)
  show ?thesis
  proof (cases "\<exists>e. a = Inl e \<and> e = Platform")
    case True
    obtain g w2 where g: "get_microvm i w1 = (g, w2)" by fastforce
    have "w' = w2"
      using assms a True g
      by (auto simp: control_resume_def ended_before_resume_def Let_def split: sum.splits if_splits)
    with one grows_mono [OF get_grows [OF g]] grows_trans show ?thesis by fastforce
  next
    case False
    with assms a have "w' = w1" by (auto simp: control_resume_def split: sum.splits)
    with one show ?thesis by simp
  qed
qed

lemma state_wait_loop_grows:
  "state_wait_loop i wanted fail_on timeout started w = (r, w') \<Longrightarrow> grows (reads_vm i) w w'"
proof (induction "length (wd_moments w)" arbitrary: w rule: less_induct)
  case less
  obtain g w1 where g: "get_microvm i w = (g, w1)" by fastforce
  note one = get_grows [OF g]
  show ?case
  proof (cases "\<exists>vm. g = Inr vm \<and> vv_state vm \<notin> set wanted \<and> vv_state vm \<notin> set fail_on \<and> \<not> timeout \<le> wd_now w1 - started")
    case True
    then obtain vm where vm: "g = Inr vm" by blast
    have rest: "state_wait_loop i wanted fail_on timeout started (nap_for LIFECYCLE_POLL w1) = (r, w')"
      using less.prems g True by (auto simp: state_wait_loop.simps [of i wanted fail_on timeout started w])
    have "length (wd_moments (nap_for LIFECYCLE_POLL w1)) < length (wd_moments w)"
      using get_microvm_answered g vm by simp
    from less.hyps [OF this rest] one nap_grows show ?thesis by (blast intro: grows_trans)
  next
    case False
    with less.prems g have "w' = w1"
      by (auto simp: state_wait_loop.simps [of i wanted fail_on timeout started w] split: sum.splits if_splits)
    with one show ?thesis by simp
  qed
qed

lemma wait_grows: "wait_for_state i wanted fail_on timeout w = (r, w') \<Longrightarrow> grows (reads_vm i) w w'"
  by (simp add: wait_for_state_def state_wait_loop_grows)

text \<open>What a wait returns is a state it was asked for.\<close>

lemma wait_loop_wanted:
  "state_wait_loop i wanted fail_on timeout started w = (Inr vm, w') \<Longrightarrow> vv_state vm \<in> set wanted"
proof (induction "length (wd_moments w)" arbitrary: w rule: less_induct)
  case less
  obtain g w1 where g: "get_microvm i w = (g, w1)" by fastforce
  show ?case
  proof (cases g)
    case (Inl e)
    with less.prems g show ?thesis by (auto simp: state_wait_loop.simps [of i wanted fail_on timeout started w])
  next
    case (Inr v)
    have "length (wd_moments (nap_for LIFECYCLE_POLL w1)) < length (wd_moments w)"
      using get_microvm_answered g Inr by simp
    with less.prems less.hyps [of "nap_for LIFECYCLE_POLL w1"] g Inr show ?thesis
      by (auto simp: state_wait_loop.simps [of i wanted fail_on timeout started w] split: if_splits)
  qed
qed

lemma wait_wanted: "wait_for_state i wanted fail_on timeout w = (Inr vm, w') \<Longrightarrow> vv_state vm \<in> set wanted"
  by (simp add: wait_for_state_def wait_loop_wanted)

lemma launch_loop_cases:
  obtains
    (over) g w1 r where "get_microvm i w = (g, w1)" "launch_loop i ad t st res fast w = (r, w1)"
      "\<And>vm. r = Inr vm \<Longrightarrow> g = Inr vm \<and> vv_state vm = ''RUNNING''"
  | (unresumed) vm w1 w2 e where "get_microvm i w = (Inr vm, w1)" "control_resume i w1 = (Inl e, w2)"
      "ad" "\<not> res" "launch_loop i ad t st res fast w = (Inl e, w2)"
  | (resumed) vm w1 w2 u where "get_microvm i w = (Inr vm, w1)" "control_resume i w1 = (Inr u, w2)"
      "ad" "\<not> res" "launch_loop i ad t st res fast w = launch_loop i ad t st True fast w2"
  | (again) vm w1 where "get_microvm i w = (Inr vm, w1)"
      "launch_loop i ad t st res fast w = launch_loop i ad t st res (fast - 1) (nap_for (poll_gap fast) w1)"
proof -
  obtain g w1 where g: "get_microvm i w = (g, w1)" by fastforce
  show ?thesis
  proof (cases g)
    case (Inl e)
    with g show ?thesis by (intro over) (auto simp: launch_loop.simps [of i ad t st res fast w])
  next
    case (Inr vm)
    let ?dead = "vv_state vm = ''RUNNING'' \<or> vv_state vm \<in> set (if ad then DEAD_STATES else TERMINAL_STATES)"
    let ?sus = "vv_state vm = ''SUSPENDED'' \<and> ad \<and> \<not> res"
    consider "?dead" | "\<not> ?dead" "?sus" | "\<not> ?dead" "\<not> ?sus" "t \<le> wd_now w1 - st" | "\<not> ?dead" "\<not> ?sus" "\<not> t \<le> wd_now w1 - st"
      by blast
    then show ?thesis
    proof cases
      case 2
      obtain rr w2 where cr: "control_resume i w1 = (rr, w2)" by fastforce
      show ?thesis
      proof (cases rr)
        case rr: (Inl e)
        have "launch_loop i ad t st res fast w = (Inl e, w2)"
          by (subst launch_loop.simps) (use g Inr 2 cr rr in simp)
        with g Inr 2 cr rr show ?thesis by (intro unresumed [of vm w1 e w2]) simp_all
      next
        case rr: (Inr u)
        have "launch_loop i ad t st res fast w = launch_loop i ad t st True fast w2"
          by (subst launch_loop.simps) (use g Inr 2 cr rr in simp)
        with g Inr 2 cr rr show ?thesis by (intro resumed [of vm w1 u w2]) simp_all
      qed
    next
      case 4
      have "launch_loop i ad t st res fast w = launch_loop i ad t st res (fast - 1) (nap_for (poll_gap fast) w1)"
        by (subst launch_loop.simps) (use g Inr 4 in auto)
      with g Inr show ?thesis by (intro again [of vm w1]) simp_all
    next
      case 1
      have "launch_loop i ad t st res fast w = ((if vv_state vm = ''RUNNING'' then Inr vm else Inl LaunchDied), w1)"
        by (subst launch_loop.simps) (use g Inr 1 in auto)
      with g Inr show ?thesis by (intro over [of g w1]) (auto split: if_split_asm)
    next
      case 3
      have "launch_loop i ad t st res fast w = (Inl TimeoutKind, w1)"
        by (subst launch_loop.simps) (use g Inr 3 in auto)
      with g show ?thesis by (intro over [of g w1 "Inl TimeoutKind"]) auto
    qed
  qed
qed

section \<open>What the service said\<close>

text \<open>The calls between two worlds, alone and each with the moment of the service that answered it.\<close>

definition new_calls :: "plane_world \<Rightarrow> plane_world \<Rightarrow> plane_call list" where
  "new_calls w w' = drop (length (wd_calls w)) (wd_calls w')"

definition heard :: "plane_world \<Rightarrow> plane_world \<Rightarrow> (plane_call \<times> service_moment) list" where
  "heard w w' = zip (drop (length (wd_calls w)) (wd_calls w')) (wd_moments w)"

fun tells_state :: "string \<Rightarrow> plane_call \<times> service_moment \<Rightarrow> bool" where
  "tells_state st (GetMicrovm j, m) = (case sm_vm m of Inl _ \<Rightarrow> False | Inr vm \<Rightarrow> vv_state vm = st)"
| "tells_state st (_, m) = False"

definition said :: "string \<Rightarrow> (plane_call \<times> service_moment) list \<Rightarrow> bool" where
  "said st h \<longleftrightarrow> list_ex (tells_state st) h"

lemma said_simps [simp]: "\<not> said st []" "said st (g @ h) \<longleftrightarrow> said st g \<or> said st h"
  by (simp_all add: said_def)

lemma heard_same [simp]: "heard w w = []"
  by (simp add: heard_def)

lemma heard_nap [simp]: "heard (nap_for d w) w' = heard w w'"
  by (simp add: heard_def)

lemma heard_trans:
  assumes "grows P w w1" "grows Q w1 w2"
  shows "heard w w2 = heard w w1 @ heard w1 w2"
proof -
  obtain a b where "wd_calls w1 = wd_calls w @ a" "wd_moments w1 = drop (length a) (wd_moments w)"
    "wd_calls w2 = wd_calls w1 @ b"
    using assms by (auto simp: grows_def)
  moreover have "zip a (take (length a) ms) = zip a ms" for ms :: "service_moment list"
    using zip_append1 [of a "[]" ms] by simp
  ultimately show ?thesis by (simp add: heard_def zip_append1)
qed

lemma said_unasked: "grows P w w' \<Longrightarrow> (\<And>j. \<not> P (GetMicrovm j)) \<Longrightarrow> \<not> said st (heard w w')"
proof -
  have "tells_state st x \<Longrightarrow> \<exists>j. fst x = GetMicrovm j" for x
    by (cases "(st, x)" rule: tells_state.cases) auto
  then show "grows P w w' \<Longrightarrow> (\<And>j. \<not> P (GetMicrovm j)) \<Longrightarrow> ?thesis"
    by (fastforce simp: grows_def heard_def said_def list_ex_iff list_all_iff dest: set_zip_leftD)
qed

lemma get_said:
  "get_microvm i w = (r, w') \<Longrightarrow> said st (heard w w') \<longleftrightarrow> (\<exists>vm. r = Inr vm \<and> vv_state vm = st)"
  by (auto simp: get_microvm_def on_vm_def do_call_def heard_def said_def split: if_splits list.splits sum.splits)

lemma wait_loop_said:
  "state_wait_loop i wanted fail_on timeout started w = (r, w') \<Longrightarrow>
     (\<forall>vm. r = Inr vm \<longrightarrow> said (vv_state vm) (heard w w')) \<and>
     (said st (heard w w') \<and> st \<in> set wanted \<longrightarrow> (\<exists>vm. r = Inr vm \<and> vv_state vm = st))"
proof (induction "length (wd_moments w)" arbitrary: w rule: less_induct)
  case less
  obtain g w1 where g: "get_microvm i w = (g, w1)" by fastforce
  note one = get_said [OF g]
  show ?case
  proof (cases "\<exists>vm. g = Inr vm \<and> vv_state vm \<notin> set wanted \<and> vv_state vm \<notin> set fail_on \<and> \<not> timeout \<le> wd_now w1 - started")
    case True
    then obtain vm where vm: "g = Inr vm" "vv_state vm \<notin> set wanted" by blast
    have rest: "state_wait_loop i wanted fail_on timeout started (nap_for LIFECYCLE_POLL w1) = (r, w')"
      using less.prems g True by (auto simp: state_wait_loop.simps [of i wanted fail_on timeout started w])
    have "length (wd_moments (nap_for LIFECYCLE_POLL w1)) < length (wd_moments w)"
      using get_microvm_answered g vm by simp
    note later = less.hyps [OF this rest]
    have "heard w w' = heard w w1 @ heard (nap_for LIFECYCLE_POLL w1) w'"
      using heard_trans [OF get_grows [OF g], of "reads_vm i" w'] state_wait_loop_grows [OF rest]
      by (simp add: grows_def)
    with later one vm show ?thesis by auto
  next
    case False
    with less.prems g have "w' = w1 \<and> (g = r \<or> (\<exists>e. r = Inl e) \<and> (\<forall>vm. g = Inr vm \<longrightarrow> vv_state vm \<notin> set wanted))"
      by (auto simp: state_wait_loop.simps [of i wanted fail_on timeout started w] split: sum.splits if_splits)
    with one show ?thesis by auto
  qed
qed

lemma wait_said:
  assumes "wait_for_state i wanted fail_on timeout w = (r, w')"
  shows "r = Inr vm \<Longrightarrow> said (vv_state vm) (heard w w')"
    and "said st (heard w w') \<Longrightarrow> st \<in> set wanted \<Longrightarrow> \<exists>vm. r = Inr vm \<and> vv_state vm = st"
  using wait_loop_said [OF assms [unfolded wait_for_state_def]] by blast+

lemma launch_loop_grows:
  "launch_loop i ad t st res fast w = (r, w') \<Longrightarrow>
     grows (\<lambda>c. reads_vm i c \<or> ad \<and> resumes_vm i c) w w' \<and>
     (\<forall>vm. r = Inr vm \<longrightarrow> vv_state vm = ''RUNNING'' \<and> said ''RUNNING'' (heard w w'))"
proof (induction "length (wd_moments w)" arbitrary: w res fast rule: less_induct)
  case less
  let ?P = "\<lambda>c. reads_vm i c \<or> ad \<and> resumes_vm i c"
  have getP: "grows ?P w w1" if "get_microvm i w = (g, w1)" for g w1
    by (rule grows_mono [OF get_grows [OF that]]) simp
  have resP: "grows ?P w1 w2" if "control_resume i w1 = (g, w2)" "ad" for g w1 w2
    by (rule grows_mono [OF resume_grows [OF that(1)]]) (use that(2) in auto)
  show ?case
  proof (cases rule: launch_loop_cases [of i w ad t st res fast])
    case (over g w1 r')
    have "r = r'" "w' = w1" using less.prems over(2) by simp_all
    with getP [OF over(1)] over(3) get_said [OF over(1)] show ?thesis by blast
  next
    case (unresumed vm w1 w2 e)
    have "grows ?P w w2" using getP [OF unresumed(1)] resP [OF unresumed(2,3)] by (rule grows_trans)
    with less.prems unresumed show ?thesis by auto
  next
    case (resumed vm w1 w2 u)
    have go: "grows ?P w w2" using getP [OF resumed(1)] resP [OF resumed(2,3)] by (rule grows_trans)
    have "length (wd_moments w2) < length (wd_moments w)"
      using get_microvm_answered [OF resumed(1)] resume_moments [OF resumed(2)] by simp
    moreover have "launch_loop i ad t st True fast w2 = (r, w')" using less.prems resumed(5) by simp
    ultimately have "grows ?P w2 w' \<and>
        (\<forall>vm. r = Inr vm \<longrightarrow> vv_state vm = ''RUNNING'' \<and> said ''RUNNING'' (heard w2 w'))" by (rule less.hyps)
    with go heard_trans [OF go, of ?P w'] show ?thesis by (auto intro: grows_trans)
  next
    case (again vm w1)
    have go: "grows ?P w (nap_for (poll_gap fast) w1)"
      using getP [OF again(1)] nap_grows by (rule grows_trans)
    have "length (wd_moments (nap_for (poll_gap fast) w1)) < length (wd_moments w)"
      using get_microvm_answered [OF again(1)] by simp
    moreover have "launch_loop i ad t st res (fast - 1) (nap_for (poll_gap fast) w1) = (r, w')"
      using less.prems again(2) by simp
    ultimately have "grows ?P (nap_for (poll_gap fast) w1) w' \<and>
        (\<forall>vm. r = Inr vm \<longrightarrow> vv_state vm = ''RUNNING'' \<and> said ''RUNNING'' (heard (nap_for (poll_gap fast) w1) w'))"
      by (rule less.hyps)
    with go heard_trans [OF go, of ?P w'] show ?thesis by (auto intro: grows_trans)
  qed
qed

lemma launch_grows:
  "wait_for_sandbox_launch i t ad w = (r, w') \<Longrightarrow> grows (\<lambda>c. reads_vm i c \<or> ad \<and> resumes_vm i c) w w'"
  "wait_for_sandbox_launch i t ad w = (Inr vm, w') \<Longrightarrow> vv_state vm = ''RUNNING'' \<and> said ''RUNNING'' (heard w w')"
  using launch_loop_grows by (auto simp: wait_for_sandbox_launch_def)

lemma delete_tries_grows: "delete_tries i b first n w = (r, w') \<Longrightarrow> grows (\<lambda>c. c = DeleteImageTry i) w w'"
proof (induction n arbitrary: first w)
  case (Suc n)
  let ?w = "if first then w else nap_for b w"
  obtain g w1 where g: "do_call (\<lambda>m. Inr (sm_deleted m)) (DeleteImageTry i) ?w = (g :: error_kind + bool, w1)" by fastforce
  have "grows (\<lambda>c. c = DeleteImageTry i) ?w w1"
    using g by (rule do_call_grows) simp
  then have one: "grows (\<lambda>c. c = DeleteImageTry i) w w1" by (auto simp: grows_def split: if_splits)
  show ?case
  proof (cases "g = Inr True")
    case True
    with Suc.prems g have "w' = w1" by simp
    with one show ?thesis by simp
  next
    case False
    with Suc.prems g have "delete_tries i b False n w1 = (r, w')"
      by (auto simp: Let_def split: sum.splits bool.splits)
    from Suc.IH [OF this] one show ?thesis by (blast intro: grows_trans)
  qed
qed auto

lemma delete_image_grows: "delete_image i n b w = (r, w') \<Longrightarrow> grows (\<lambda>c. c = DeleteImageTry i) w w'"
  by (auto simp: delete_image_def dest: delete_tries_grows split: if_splits)

end
