(* ===== verification/Sandbox.thy ===== *)
theory Sandbox
  imports ControlPlane
begin

text \<open>
  One VM's whole life as a client sees it, \<open>crates/microvms-app/src/sandbox.rs\<close>: launch, adoption, hand
  off, suspend, resume and teardown over any answers of the service, and the state rules that hold
  after any sequence of them. An error is its kind; the text is dropped. What the build services do
  for \<open>ensure_image\<close> is one call here.
\<close>

section \<open>State\<close>

datatype vm_lifecycle = LPending | LRunning | LSuspending | LSuspended | LTerminating | LTerminated

fun lifecycle_as_str :: "vm_lifecycle \<Rightarrow> string" where
  "lifecycle_as_str LPending = ''PENDING''"
| "lifecycle_as_str LRunning = ''RUNNING''"
| "lifecycle_as_str LSuspending = ''SUSPENDING''"
| "lifecycle_as_str LSuspended = ''SUSPENDED''"
| "lifecycle_as_str LTerminating = ''TERMINATING''"
| "lifecycle_as_str LTerminated = ''TERMINATED''"

definition from_service :: "string \<Rightarrow> vm_lifecycle option" where
  "from_service s =
     (if s = ''PENDING'' then Some LPending
      else if s = ''RUNNING'' then Some LRunning
      else if s = ''SUSPENDING'' then Some LSuspending
      else if s = ''SUSPENDED'' then Some LSuspended
      else if s = ''TERMINATING'' then Some LTerminating
      else if s = ''TERMINATED'' then Some LTerminated
      else None)"

definition is_live :: "vm_lifecycle \<Rightarrow> bool" where
  "is_live l \<longleftrightarrow> l \<in> {LPending, LRunning, LSuspending, LSuspended}"

record client_session =
  cs_endpoint :: string
  cs_agent_token :: string
  cs_proxy_cached :: bool

record sandbox =
  sb_image :: "(string \<times> string) option"
  sb_launch_image_arn :: "string option"
  sb_microvm :: "vm_view option"
  sb_session :: "client_session option"
  sb_lifecycle :: vm_lifecycle
  sb_token_installed :: bool
  sb_image_exists :: bool
  sb_was_terminated :: bool
  sb_bootstrap_count :: nat
  sb_suspended_window :: "nat option"
  sb_launch_adoptable :: bool
  sb_pending_token :: "string option"
  sb_idle_window :: "nat option"
  sb_torn_down :: bool
  sb_adopted :: bool
  sb_detached :: bool

definition new_sandbox :: sandbox where
  "new_sandbox =
     \<lparr>sb_image = None, sb_launch_image_arn = None, sb_microvm = None, sb_session = None,
      sb_lifecycle = LPending, sb_token_installed = False, sb_image_exists = False,
      sb_was_terminated = False, sb_bootstrap_count = 0, sb_suspended_window = None,
      sb_launch_adoptable = False, sb_pending_token = None, sb_idle_window = None, sb_torn_down = False,
      sb_adopted = False, sb_detached = False\<rparr>"

section \<open>Launch\<close>

text \<open>
  A request, with what the checks that read nothing but the request and the entropy source answer: the
  egress posture, the minted token, the identity, the payload and the connectors.
\<close>

record run_request =
  rr_image :: "string option"
  rr_client_token :: "string option"
  rr_agent_token :: "string option"
  rr_identity :: bool
  rr_suspended_sec :: nat
  rr_max_idle_sec :: nat
  rr_wait :: bool
  rr_ready_timeout :: nat
  rr_posture :: "error_kind + unit"
  rr_minted :: "error_kind + string"
  rr_identity_minted :: "error_kind + unit"
  rr_payload :: "error_kind + unit"
  rr_connectors :: "error_kind + unit"

text \<open>Everything \<open>run_inner\<close> refuses before it makes a call: the token and the image to ask for.\<close>

definition launch_checks :: "run_request \<Rightarrow> sandbox \<Rightarrow> error_kind + (string \<times> string)" where
  "launch_checks rq sb =
     (if sb_detached sb then Inl Precondition
      else if 0 < sb_bootstrap_count sb \<or> sb_microvm sb \<noteq> None then Inl InvalidArg
      else bind_r (rr_posture rq) (\<lambda>_.
        case (case rr_image rq of Some i \<Rightarrow> Some i | None \<Rightarrow> map_option fst (sb_image sb)) of
          None \<Rightarrow> Inl Precondition
        | Some identifier \<Rightarrow>
            if rr_client_token rq \<noteq> None \<and> (rr_agent_token rq = None \<or> rr_identity rq) then Inl InvalidArg
            else bind_r (case rr_agent_token rq of Some t \<Rightarrow> Inr t | None \<Rightarrow> rr_minted rq) (\<lambda>token.
              bind_r (if rr_identity rq then rr_identity_minted rq else Inr ()) (\<lambda>_.
                bind_r (rr_payload rq) (\<lambda>_.
                  bind_r (rr_connectors rq) (\<lambda>_. Inr (token, identifier)))))))"

definition build_session :: "sandbox \<Rightarrow> plane_world \<Rightarrow> (error_kind + unit) \<times> sandbox" where
  "build_session sb w =
     (case (sb_microvm sb, sb_pending_token sb) of
        (Some vm, Some token) \<Rightarrow>
          (case (case wd_moments w of [] \<Rightarrow> None | m # _ \<Rightarrow> sm_client m) of
             Some e \<Rightarrow> (Inl e, sb)
           | None \<Rightarrow>
               (Inr (), sb\<lparr>sb_session := Some \<lparr>cs_endpoint = vv_endpoint vm, cs_agent_token = token,
                                               cs_proxy_cached = False\<rparr>\<rparr>))
      | _ \<Rightarrow> (Inl Precondition, sb))"

text \<open>The session's wait for its daemon: a proxied request, so a proxy token is cached by it.\<close>

definition await_daemon :: "sandbox \<Rightarrow> plane_world \<Rightarrow> (error_kind + unit) \<times> sandbox \<times> plane_world" where
  "await_daemon sb w =
     (case sb_session sb of
        None \<Rightarrow> (Inl Precondition, sb, w)
      | Some s \<Rightarrow>
          (let (r, w1) = do_call sm_ready AwaitDaemon w
           in (r, (case r of Inl _ \<Rightarrow> sb | Inr _ \<Rightarrow> sb\<lparr>sb_session := Some (s\<lparr>cs_proxy_cached := True\<rparr>)\<rparr>), w1)))"

text \<open>The platform reported RUNNING (STATE-2, STATE-3), and the session of a sandbox that has none.\<close>

definition mark_running :: "vm_view \<Rightarrow> sandbox \<Rightarrow> sandbox" where
  "mark_running running sb =
     sb\<lparr>sb_lifecycle := LRunning, sb_token_installed := True,
        sb_bootstrap_count := sb_bootstrap_count sb + 1, sb_microvm := Some running\<rparr>"

definition ensure_session :: "sandbox \<Rightarrow> plane_world \<Rightarrow> (error_kind + unit) \<times> sandbox" where
  "ensure_session sb w = (if sb_session sb = None then build_session sb w else (Inr (), sb))"

definition wait_until_running :: "nat \<Rightarrow> sandbox \<Rightarrow> plane_world \<Rightarrow> (error_kind + unit) \<times> sandbox \<times> plane_world" where
  "wait_until_running timeout sb w =
     (if sb_detached sb then (Inl Precondition, sb, w)
      else
        (case sb_microvm sb of
           None \<Rightarrow> (Inl Precondition, sb, w)
         | Some vm \<Rightarrow>
             if sb_lifecycle sb \<noteq> LPending then (Inl InvalidArg, sb, w)
             else
               (case wait_for_sandbox_launch (vv_id vm) timeout (sb_launch_adoptable sb) w of
                  (Inl e, w1) \<Rightarrow> (Inl e, sb, w1)
                | (Inr running, w1) \<Rightarrow>
                    (let (built, sb2) = ensure_session (mark_running running sb) w1
                     in (case built of
                           Inl e \<Rightarrow> (Inl e, sb2, w1)
                         | Inr _ \<Rightarrow> await_daemon sb2 w1)))))"

definition wait_until_ready :: "nat \<Rightarrow> sandbox \<Rightarrow> plane_world \<Rightarrow> (error_kind + unit) \<times> sandbox \<times> plane_world" where
  "wait_until_ready timeout sb w =
     (if sb_lifecycle sb = LRunning
      then (if sb_detached sb then (Inl Precondition, sb, w) else await_daemon sb w)
      else wait_until_running timeout sb w)"

text \<open>The service accepted the launch (STATE-1).\<close>

definition accept_launch :: "run_request \<Rightarrow> string \<Rightarrow> vm_view \<Rightarrow> sandbox \<Rightarrow> sandbox" where
  "accept_launch rq token vm sb =
     sb\<lparr>sb_lifecycle := LPending, sb_image_exists := True,
        sb_suspended_window := Some (rr_suspended_sec rq), sb_idle_window := Some (rr_max_idle_sec rq),
        sb_microvm := Some vm, sb_launch_adoptable := (rr_client_token rq \<noteq> None),
        sb_pending_token := Some token\<rparr>"

definition run_sandbox :: "run_request \<Rightarrow> sandbox \<Rightarrow> plane_world \<Rightarrow> (error_kind + unit) \<times> sandbox \<times> plane_world" where
  "run_sandbox rq sb w =
     (case launch_checks rq sb of
        Inl e \<Rightarrow> (Inl e, sb, w)
      | Inr (token, identifier) \<Rightarrow>
          (case do_call sm_arn ResolveImage w of
             (Inl e, w1) \<Rightarrow> (Inl e, sb, w1)
           | (Inr arn, w1) \<Rightarrow>
               (let sb1 = sb\<lparr>sb_launch_image_arn := Some arn\<rparr> in
                (case do_call sm_launch RunMicrovm w1 of
                   (Inl e, w2) \<Rightarrow> (Inl e, sb1, w2)
                 | (Inr vm, w2) \<Rightarrow>
                     (let sb2 = accept_launch rq token vm sb1 in
                      if rr_wait rq then wait_until_running (rr_ready_timeout rq) sb2 w2
                      else (let (r, sb3) = build_session sb2 w2 in (r, sb3, w2)))))))"

text \<open>
  The run a caller can cancel: \<open>early\<close> is a cancellation that wins over the image lookup. A later one is
  the launch's own answer \<open>Interrupted\<close>.
\<close>

definition run_cancellable :: "bool \<Rightarrow> run_request \<Rightarrow> sandbox \<Rightarrow> plane_world \<Rightarrow>
    (error_kind + unit) \<times> sandbox \<times> plane_world" where
  "run_cancellable early rq sb w =
     (case launch_checks rq sb of
        Inl e \<Rightarrow> (Inl e, sb, w)
      | Inr _ \<Rightarrow> if early then (Inl Interrupted, sb, w) else run_sandbox rq sb w)"

section \<open>Adoption and hand-off\<close>

definition adopted_sandbox :: "vm_view \<Rightarrow> vm_lifecycle \<Rightarrow> string \<Rightarrow> sandbox" where
  "adopted_sandbox vm l token =
     new_sandbox\<lparr>sb_adopted := True, sb_lifecycle := l, sb_idle_window := vv_max_idle vm,
       sb_image_exists := True, sb_launch_adoptable := True, sb_pending_token := Some token,
       sb_token_installed := (l \<in> {LRunning, LSuspending, LSuspended}),
       sb_bootstrap_count := (if l = LPending then 0 else 1),
       sb_was_terminated := (l \<in> {LTerminating, LTerminated}),
       sb_microvm := Some vm\<rparr>"

definition adopt :: "string \<Rightarrow> string \<Rightarrow> string \<Rightarrow> plane_world \<Rightarrow> (error_kind + sandbox) \<times> plane_world" where
  "adopt i endpoint token w =
     (if token = [] then (Inl InvalidArg, w)
      else
        (case get_microvm i w of
           (Inl e, w1) \<Rightarrow> (Inl e, w1)
         | (Inr vm0, w1) \<Rightarrow>
             if endpoint \<noteq> [] \<and> vv_endpoint vm0 \<noteq> [] \<and> vv_endpoint vm0 \<noteq> endpoint then (Inl InvalidArg, w1)
             else
               (let vm = (if vv_endpoint vm0 = [] then vm0\<lparr>vv_endpoint := endpoint\<rparr> else vm0) in
                (case from_service (vv_state vm) of
                   None \<Rightarrow> (Inl Platform, w1)
                 | Some l \<Rightarrow>
                     (let sb = adopted_sandbox vm l token in
                      if is_live l
                      then (case build_session sb w1 of
                              (Inl e, _) \<Rightarrow> (Inl e, w1)
                            | (Inr _, sb1) \<Rightarrow> (Inr sb1, w1))
                      else (Inr sb, w1))))))"

record handoff =
  ho_microvm_id :: string
  ho_endpoint :: string
  ho_agent_token :: string

definition detach :: "sandbox \<Rightarrow> (error_kind + handoff) \<times> sandbox" where
  "detach sb =
     (if sb_detached sb then (Inl Precondition, sb)
      else
        (case sb_microvm sb of
           None \<Rightarrow> (Inl Precondition, sb)
         | Some vm \<Rightarrow>
             if sb_torn_down sb \<or> \<not> is_live (sb_lifecycle sb) then (Inl Precondition, sb)
             else
               (case (case sb_session sb of Some s \<Rightarrow> Some (cs_agent_token s) | None \<Rightarrow> sb_pending_token sb) of
                  None \<Rightarrow> (Inl Precondition, sb)
                | Some token \<Rightarrow>
                    (Inr \<lparr>ho_microvm_id = vv_id vm, ho_endpoint = vv_endpoint vm, ho_agent_token = token\<rparr>,
                     sb\<lparr>sb_detached := True, sb_session := None, sb_pending_token := None\<rparr>))))"

section \<open>Suspend and resume\<close>

definition suspend :: "sandbox \<Rightarrow> plane_world \<Rightarrow> (error_kind + unit) \<times> sandbox \<times> plane_world" where
  "suspend sb w =
     (if sb_detached sb then (Inl Precondition, sb, w)
      else
        (case sb_microvm sb of
           None \<Rightarrow> (Inl Precondition, sb, w)
         | Some vm \<Rightarrow>
             if sb_lifecycle sb \<noteq> LRunning then (Inl InvalidArg, sb, w)
             else
               (case control_suspend (vv_id vm) w of
                  (Inl e, w1) \<Rightarrow> (Inl e, sb, w1)
                | (Inr _, w1) \<Rightarrow>
                    (let sb1 = sb\<lparr>sb_lifecycle := LSuspending\<rparr> in
                     (case wait_for_state (vv_id vm) SUSPEND_WANTED [] LIFECYCLE_TIMEOUT w1 of
                        (Inl e, w2) \<Rightarrow> (Inl e, sb1, w2)
                      | (Inr settled, w2) \<Rightarrow>
                          if vv_state settled = ''SUSPENDED''
                          then (Inr (), sb1\<lparr>sb_lifecycle := LSuspended, sb_microvm := Some settled\<rparr>, w2)
                          else if vv_state settled = ''TERMINATED''
                          then (Inr (), sb1\<lparr>sb_was_terminated := True, sb_lifecycle := LTerminated,
                                            sb_microvm := Some settled\<rparr>, w2)
                          else (Inl Platform, sb1, w2))))))"

text \<open>
  What a resume first reads: a handle that holds RUNNING asks the service, since an idle suspension
  happens without a call. The answer is the error, or the state the resume is judged by.
\<close>

definition refresh_state :: "string \<Rightarrow> sandbox \<Rightarrow> plane_world \<Rightarrow> (error_kind + vm_lifecycle) \<times> sandbox \<times> plane_world" where
  "refresh_state i sb w =
     (if sb_lifecycle sb \<noteq> LRunning then (Inr (sb_lifecycle sb), sb, w)
      else
        (case get_microvm i w of
           (Inl e, w1) \<Rightarrow> (Inl e, sb, w1)
         | (Inr observed, w1) \<Rightarrow>
             (case from_service (vv_state observed) of
                None \<Rightarrow> (Inl Platform, sb, w1)
              | Some l \<Rightarrow>
                  (let sb1 = sb\<lparr>sb_microvm := Some observed\<rparr>;
                       sb2 = (if l = LSuspended then sb1\<lparr>sb_lifecycle := l\<rparr> else sb1)
                   in if vv_state observed \<in> set DEAD_STATES
                      then (Inl WindowClosed, sb2\<lparr>sb_was_terminated := True, sb_lifecycle := LTerminated\<rparr>, w1)
                      else (Inr l, sb2, w1)))))"

text \<open>A resume the service accepted (STATE-7, STATE-8).\<close>

definition finish_resume :: "string \<Rightarrow> sandbox \<Rightarrow> plane_world \<Rightarrow> (error_kind + unit) \<times> sandbox \<times> plane_world" where
  "finish_resume i sb w =
     (case wait_for_state i [''RUNNING''] DEAD_STATES LIFECYCLE_TIMEOUT w of
        (Inl e, w1) \<Rightarrow> (Inl e, sb, w1)
      | (Inr running, w1) \<Rightarrow>
          (let sb1 = sb\<lparr>sb_lifecycle := LRunning, sb_microvm := Some running\<rparr> in
           (case sb_session sb of
              None \<Rightarrow> (Inl Unexpected, sb1, w1)
            | Some s \<Rightarrow>
                (Inr (), sb1\<lparr>sb_session := Some (s\<lparr>cs_endpoint := vv_endpoint running,
                                                   cs_proxy_cached := False\<rparr>)\<rparr>, w1))))"

definition resume :: "sandbox \<Rightarrow> plane_world \<Rightarrow> (error_kind + unit) \<times> sandbox \<times> plane_world" where
  "resume sb w =
     (if sb_detached sb then (Inl Precondition, sb, w)
      else
        (case sb_microvm sb of
           None \<Rightarrow> (Inl Precondition, sb, w)
         | Some vm \<Rightarrow>
             if sb_was_terminated sb \<or> sb_lifecycle sb = LTerminated then (Inl InvalidArg, sb, w)
             else
               (case refresh_state (vv_id vm) sb w of
                  (Inl e, sb1, w1) \<Rightarrow> (Inl e, sb1, w1)
                | (Inr l, sb1, w1) \<Rightarrow>
                    if l \<noteq> LSuspended then (Inl InvalidArg, sb1, w1)
                    else
                      (case control_resume (vv_id vm) w1 of
                         (Inl e, w2) \<Rightarrow>
                           (Inl e, (if e = WindowClosed
                                    then sb1\<lparr>sb_was_terminated := True, sb_lifecycle := LTerminated\<rparr>
                                    else sb1), w2)
                       | (Inr _, w2) \<Rightarrow> finish_resume (vv_id vm) sb1 w2))))"

section \<open>Teardown\<close>

record teardown_opts =
  to_delete_image :: bool
  to_delete_log_group :: bool
  to_attempts :: nat
  to_backoff :: nat
  to_wait :: "nat option"

definition default_teardown_opts :: teardown_opts where
  "default_teardown_opts =
     \<lparr>to_delete_image = False, to_delete_log_group = False, to_attempts = 20, to_backoff = 15 * NS,
      to_wait = None\<rparr>"

text \<open>A failure is what it concerns; \<open>StillWaiting\<close> is a terminate that was accepted.\<close>

datatype teardown_failure =
    RefusedDetached | TerminateFailed string error_kind | StillWaiting string error_kind
  | ImageSurvived string | LogGroupLeft string

record teardown_report =
  tr_undeleted :: "string list"
  tr_terminate_accepted :: bool
  tr_image_deleted :: "bool option"
  tr_lifecycle :: "vm_lifecycle option"
  tr_failures :: "teardown_failure list"

definition empty_report :: teardown_report where
  "empty_report =
     \<lparr>tr_undeleted = [], tr_terminate_accepted = False, tr_image_deleted = None, tr_lifecycle = None,
      tr_failures = []\<rparr>"

definition leaked :: "teardown_report \<Rightarrow> bool" where
  "leaked rep \<longleftrightarrow> tr_undeleted rep \<noteq> []"

definition end_vm :: "teardown_opts \<Rightarrow> sandbox \<Rightarrow> plane_world \<Rightarrow> teardown_report \<times> sandbox \<times> plane_world" where
  "end_vm opts sb w =
     (case sb_microvm sb of
        None \<Rightarrow> (empty_report, sb, w)
      | Some vm \<Rightarrow>
          (let sb1 = sb\<lparr>sb_lifecycle := LTerminating, sb_was_terminated := True\<rparr>;
               i = vv_id vm in
           (case control_terminate i w of
              (Inl e, w1) \<Rightarrow>
                (empty_report\<lparr>tr_failures := [TerminateFailed i e], tr_undeleted := [i]\<rparr>, sb1, w1)
            | (Inr _, w1) \<Rightarrow>
                (let rep = empty_report\<lparr>tr_terminate_accepted := True\<rparr> in
                 (case to_wait opts of
                    None \<Rightarrow> (rep, sb1, w1)
                  | Some timeout \<Rightarrow>
                      (case wait_for_state i [''TERMINATED''] [] timeout w1 of
                         (Inr settled, w2) \<Rightarrow>
                           (rep, sb1\<lparr>sb_lifecycle := LTerminated, sb_microvm := Some settled\<rparr>, w2)
                       | (Inl e, w2) \<Rightarrow> (rep\<lparr>tr_failures := [StillWaiting i e]\<rparr>, sb1, w2)))))))"

definition end_image :: "teardown_opts \<Rightarrow> teardown_report \<Rightarrow> sandbox \<Rightarrow> plane_world \<Rightarrow>
    teardown_report \<times> sandbox \<times> plane_world" where
  "end_image opts rep sb w =
     (if \<not> to_delete_image opts then (rep, sb, w)
      else
        (case sb_image sb of
           None \<Rightarrow> (rep\<lparr>tr_image_deleted := Some False\<rparr>, sb, w)
         | Some (i, _) \<Rightarrow>
             (let (gone, w1) = delete_image i (to_attempts opts) (to_backoff opts) w;
                  rep1 = rep\<lparr>tr_image_deleted := Some gone\<rparr>
              in if gone then (rep1, sb\<lparr>sb_image_exists := False\<rparr>, w1)
                 else (rep1\<lparr>tr_failures := tr_failures rep1 @ [ImageSurvived i],
                            tr_undeleted := tr_undeleted rep1 @ [i]\<rparr>, sb, w1))))"

definition name_log_group :: "teardown_opts \<Rightarrow> sandbox \<Rightarrow> teardown_report \<Rightarrow> teardown_report" where
  "name_log_group opts sb rep =
     (case sb_image sb of
        Some (_, g) \<Rightarrow>
          if to_delete_log_group opts
          then rep\<lparr>tr_failures := tr_failures rep @ [LogGroupLeft g],
                   tr_undeleted := tr_undeleted rep @ [g]\<rparr>
          else rep
      | None \<Rightarrow> rep)"

definition terminate :: "teardown_opts \<Rightarrow> sandbox \<Rightarrow> plane_world \<Rightarrow> teardown_report \<times> sandbox \<times> plane_world" where
  "terminate opts sb w =
     (if sb_detached sb
      then (empty_report\<lparr>tr_failures := [RefusedDetached], tr_lifecycle := Some (sb_lifecycle sb)\<rparr>, sb, w)
      else
        (let (rep1, sb1, w1) = end_vm opts (sb\<lparr>sb_torn_down := True, sb_session := None\<rparr>) w;
             (rep2, sb2, w2) = end_image opts rep1 sb1 w1;
             rep3 = name_log_group opts sb2 rep2
         in (rep3\<lparr>tr_lifecycle := Some (sb_lifecycle sb2)\<rparr>, sb2, w2)))"

text \<open>What a dropped sandbox warns about, and the image it builds.\<close>

definition drop_warning :: "sandbox \<Rightarrow> (string \<times> vm_lifecycle) option" where
  "drop_warning sb =
     (if sb_torn_down sb \<or> sb_adopted sb \<or> sb_detached sb then None
      else (case sb_microvm sb of
              None \<Rightarrow> None
            | Some vm \<Rightarrow> if is_live (sb_lifecycle sb) then Some (vv_id vm, sb_lifecycle sb) else None))"

definition build_image :: "sandbox \<Rightarrow> plane_world \<Rightarrow> (error_kind + unit) \<times> sandbox \<times> plane_world" where
  "build_image sb w =
     (case do_call sm_image BuildImage w of
        (Inl e, w1) \<Rightarrow> (Inl e, sb, w1)
      | (Inr built, w1) \<Rightarrow> (Inr (), sb\<lparr>sb_image_exists := True, sb_image := Some built\<rparr>, w1))"

text \<open>
  \<open>ensure_image\<close>: the preparation and the account lookup may refuse; what the ensure itself does with the
  service is one call here.
\<close>

definition ensure_image :: "error_kind + unit \<Rightarrow> error_kind + unit \<Rightarrow> sandbox \<Rightarrow> plane_world \<Rightarrow>
    (error_kind + unit) \<times> sandbox \<times> plane_world" where
  "ensure_image prepared account sb w =
     (case bind_r prepared (\<lambda>_. account) of
        Inl e \<Rightarrow> (Inl e, sb, w)
      | Inr _ \<Rightarrow> build_image sb w)"

section \<open>The state rules\<close>

text \<open>What holds between any two operations, and which calls an operation may make.\<close>

definition sb_ok :: "sandbox \<Rightarrow> bool" where
  "sb_ok sb \<longleftrightarrow>
     (sb_lifecycle sb = LPending \<longrightarrow> sb_bootstrap_count sb = 0) \<and>
     sb_bootstrap_count sb \<le> 1 \<and>
     sb_was_terminated sb = (sb_lifecycle sb \<in> {LTerminating, LTerminated}) \<and>
     (sb_microvm sb = None \<longrightarrow> sb_lifecycle sb = LPending) \<and>
     (sb_token_installed sb \<longrightarrow> sb_bootstrap_count sb = 1) \<and>
     (sb_lifecycle sb \<in> {LRunning, LSuspending, LSuspended} \<longrightarrow> sb_token_installed sb)"

definition own :: "sandbox \<Rightarrow> string \<Rightarrow> bool" where
  "own sb i \<longleftrightarrow> (case sb_microvm sb of None \<Rightarrow> True | Some vm \<Rightarrow> vv_id vm = i)"

fun may_call :: "sandbox \<Rightarrow> plane_call \<Rightarrow> bool" where
  "may_call sb (SuspendMicrovm i) \<longleftrightarrow> \<not> sb_detached sb \<and> sb_lifecycle sb = LRunning \<and> own sb i"
| "may_call sb (ResumeMicrovm i) \<longleftrightarrow> \<not> sb_detached sb \<and> \<not> sb_was_terminated sb \<and> own sb i"
| "may_call sb RunMicrovm \<longleftrightarrow> \<not> sb_detached sb \<and> sb_microvm sb = None \<and> sb_bootstrap_count sb = 0"
| "may_call sb (TerminateMicrovm i) \<longleftrightarrow> \<not> sb_detached sb \<and> own sb i"
| "may_call sb (GetMicrovm i) \<longleftrightarrow> \<not> sb_detached sb \<and> own sb i"
| "may_call sb (DeleteImageTry i) \<longleftrightarrow> \<not> sb_detached sb \<and> map_option fst (sb_image sb) = Some i"
| "may_call sb BuildImage \<longleftrightarrow> True"
| "may_call sb ResolveImage \<longleftrightarrow> \<not> sb_detached sb"
| "may_call sb AwaitDaemon \<longleftrightarrow> \<not> sb_detached sb"

definition keeps :: "sandbox \<Rightarrow> plane_world \<Rightarrow> sandbox \<Rightarrow> plane_world \<Rightarrow> bool" where
  "keeps sb w sb' w' \<longleftrightarrow>
     sb_ok sb' \<and> (sb_was_terminated sb \<longrightarrow> sb_was_terminated sb') \<and>
     sb_bootstrap_count sb \<le> sb_bootstrap_count sb' \<and> (sb_detached sb \<longrightarrow> sb_detached sb') \<and>
     (sb_microvm sb \<noteq> None \<longrightarrow> sb_microvm sb' \<noteq> None) \<and>
     grows (may_call sb) w w'"

lemma keeps_refl: "sb_ok sb \<Longrightarrow> keeps sb w sb w"
  by (auto simp: keeps_def)

lemma build_session_keeps:
  assumes "build_session sb w = (r, sb')"
  shows "sb' = sb\<lparr>sb_session := sb_session sb'\<rparr>"
  using assms by (auto simp: build_session_def split: option.splits list.splits)

lemma ensure_session_keeps:
  assumes "ensure_session sb w = (r, sb')"
  shows "sb' = sb\<lparr>sb_session := sb_session sb'\<rparr>"
proof (cases "sb_session sb")
  case None
  with assms have "build_session sb w = (r, sb')" by (simp add: ensure_session_def)
  then show ?thesis by (rule build_session_keeps)
next
  case (Some x)
  with assms show ?thesis by (simp add: ensure_session_def)
qed

lemma session_ok [simp]: "sb_ok (sb\<lparr>sb_session := x\<rparr>) = sb_ok sb"
  by (simp add: sb_ok_def)

lemma await_daemon_keeps:
  assumes "await_daemon sb w = (r, sb', w')"
  obtains x where "sb' = sb\<lparr>sb_session := x\<rparr>" and "grows (\<lambda>c. c = AwaitDaemon) w w'"
proof (cases "sb_session sb")
  case None
  with assms show ?thesis by (intro that [of "sb_session sb"]) (auto simp: await_daemon_def)
next
  case (Some s)
  obtain a w1 where d: "do_call sm_ready AwaitDaemon w = (a, w1)" by fastforce
  have "grows (\<lambda>c. c = AwaitDaemon) w w1" using d by (rule do_call_grows) simp
  with assms Some d show ?thesis
    by (cases a) (auto simp: await_daemon_def intro: that [of "sb_session sb"] that)
qed

lemma may_reads: "reads_vm i c \<Longrightarrow> own sb i \<Longrightarrow> \<not> sb_detached sb \<Longrightarrow> may_call sb c"
  by (cases c) auto

lemma may_resumes: "resumes_vm i c \<Longrightarrow> own sb i \<Longrightarrow> \<not> sb_detached sb \<Longrightarrow> \<not> sb_was_terminated sb \<Longrightarrow> may_call sb c"
  by (cases c) auto

lemma wait_until_running_grows:
  assumes "wait_until_running t sb w = (r, sb', w')"
    and "\<forall>i c. own sb i \<and> (reads_vm i c \<or> resumes_vm i c) \<and> \<not> sb_detached sb \<and>
      sb_lifecycle sb = LPending \<longrightarrow> P c"
    and "\<not> sb_detached sb \<longrightarrow> P AwaitDaemon"
  shows "grows P w w' \<and>
    (\<exists>x. sb' = sb\<lparr>sb_session := x\<rparr> \<or>
       sb_lifecycle sb = LPending \<and> \<not> sb_detached sb \<and> said ''RUNNING'' (heard w w') \<and>
       (\<exists>vm. sb' = (mark_running vm sb)\<lparr>sb_session := x\<rparr>))"
proof (cases "sb_detached sb \<or> sb_microvm sb = None \<or> sb_lifecycle sb \<noteq> LPending")
  case True
  with assms(1) have "sb' = sb \<and> w' = w"
    by (auto simp: wait_until_running_def split: option.splits if_splits)
  then show ?thesis by (auto intro: exI [of _ "sb_session sb"])
next
  case False
  then obtain vm where vm: "sb_microvm sb = Some vm" by (cases "sb_microvm sb") auto
  obtain a w1 where l: "wait_for_sandbox_launch (vv_id vm) t (sb_launch_adoptable sb) w = (a, w1)" by fastforce
  have one: "grows P w w1"
    by (rule grows_mono [OF launch_grows(1) [OF l]]) (use False assms(2) vm in \<open>auto simp: own_def\<close>)
  show ?thesis
  proof (cases a)
    case (Inl e)
    with assms(1) False vm l have "sb' = sb \<and> w' = w1" by (simp add: wait_until_running_def)
    with one show ?thesis by (auto intro: exI [of _ "sb_session sb"])
  next
    case (Inr running)
    obtain b sb2 where b: "ensure_session (mark_running running sb) w1 = (b, sb2)" by fastforce
    have told: "said ''RUNNING'' (heard w w1)" using launch_grows(2) l Inr by blast
    have sb2: "\<exists>y. sb2 = (mark_running running sb)\<lparr>sb_session := y\<rparr>"
      using ensure_session_keeps [OF b] by blast
    show ?thesis
    proof (cases b)
      case (Inl e)
      with assms(1) False vm l Inr b have "sb' = sb2 \<and> w' = w1"
        by (auto simp: wait_until_running_def Let_def)
      with one sb2 False told show ?thesis by auto
    next
      case b2: (Inr u)
      with assms(1) False vm l Inr b have aw: "await_daemon sb2 w1 = (r, sb', w')"
        by (auto simp: wait_until_running_def Let_def)
      obtain x where x: "sb' = sb2\<lparr>sb_session := x\<rparr>" "grows (\<lambda>c. c = AwaitDaemon) w1 w'"
        using await_daemon_keeps [OF aw] by blast
      have two: "grows P w1 w'" by (rule grows_mono [OF x(2)]) (use assms(3) False in auto)
      have "said ''RUNNING'' (heard w w')" using told heard_trans [OF one two] by simp
      moreover from one two have "grows P w w'" by (rule grows_trans)
      moreover have "sb' = (mark_running running sb)\<lparr>sb_session := x\<rparr>" using x(1) sb2 by auto
      ultimately show ?thesis using False by blast
    qed
  qed
qed

lemma wait_until_running_keeps:
  assumes "wait_until_running t sb w = (r, sb', w')" and "sb_ok sb"
  shows "keeps sb w sb' w'"
proof -
  have P: "\<forall>i c. own sb i \<and> (reads_vm i c \<or> resumes_vm i c) \<and> \<not> sb_detached sb \<and>
      sb_lifecycle sb = LPending \<longrightarrow> may_call sb c"
    using assms(2) may_reads may_resumes by (auto simp: sb_ok_def)
  have "\<not> sb_detached sb \<longrightarrow> may_call sb AwaitDaemon" by simp
  from wait_until_running_grows [OF assms(1) P this] obtain x where
    g: "grows (may_call sb) w w'" and
    d: "sb' = sb\<lparr>sb_session := x\<rparr> \<or> sb_lifecycle sb = LPending \<and> \<not> sb_detached sb \<and>
       (\<exists>vm. sb' = (mark_running vm sb)\<lparr>sb_session := x\<rparr>)"
    by blast
  from d show ?thesis
  proof
    assume "sb' = sb\<lparr>sb_session := x\<rparr>"
    with g assms(2) show ?thesis by (simp add: keeps_def)
  next
    assume "sb_lifecycle sb = LPending \<and> \<not> sb_detached sb \<and>
       (\<exists>vm. sb' = (mark_running vm sb)\<lparr>sb_session := x\<rparr>)"
    with g assms(2) show ?thesis by (elim conjE exE) (simp add: keeps_def sb_ok_def mark_running_def)
  qed
qed

lemma wait_until_ready_keeps:
  assumes "wait_until_ready t sb w = (r, sb', w')" and "sb_ok sb"
  shows "keeps sb w sb' w'"
proof (cases "sb_lifecycle sb = LRunning")
  case False
  with assms wait_until_running_keeps show ?thesis by (simp add: wait_until_ready_def)
next
  case True
  show ?thesis
  proof (cases "sb_detached sb")
    case True
    with assms \<open>sb_lifecycle sb = LRunning\<close> show ?thesis by (auto simp: wait_until_ready_def intro: keeps_refl)
  next
    case False
    with True assms have "await_daemon sb w = (r, sb', w')" by (simp add: wait_until_ready_def)
    then obtain x where x: "sb' = sb\<lparr>sb_session := x\<rparr>" "grows (\<lambda>c. c = AwaitDaemon) w w'"
      by (rule await_daemon_keeps)
    have "grows (may_call sb) w w'" by (rule grows_mono [OF x(2)]) (use False in auto)
    with x(1) assms(2) show ?thesis by (simp add: keeps_def)
  qed
qed

lemma launch_checks_pass:
  "launch_checks rq sb = Inr p \<Longrightarrow> \<not> sb_detached sb \<and> sb_bootstrap_count sb = 0 \<and> sb_microvm sb = None"
  by (auto simp: launch_checks_def split: if_splits)

lemma run_keeps:
  assumes "run_sandbox rq sb w = (r, sb', w')" and ok: "sb_ok sb"
  shows "keeps sb w sb' w'"
proof (cases "launch_checks rq sb")
  case (Inl e)
  with assms show ?thesis by (auto simp: run_sandbox_def intro: keeps_refl)
next
  case (Inr p)
  obtain token ident where p: "p = (token, ident)" by fastforce
  from launch_checks_pass [OF Inr] have fresh: "\<not> sb_detached sb" "sb_bootstrap_count sb = 0" "sb_microvm sb = None"
    by simp_all
  have pend: "sb_lifecycle sb = LPending" "\<not> sb_was_terminated sb" using ok fresh(3) by (auto simp: sb_ok_def)
  obtain a w1 where ra: "do_call sm_arn ResolveImage w = (a, w1)" by fastforce
  have g1: "grows (may_call sb) w w1" using ra by (rule do_call_grows) (use fresh in simp)
  show ?thesis
  proof (cases a)
    case a: (Inl e)
    with assms Inr p ra g1 show ?thesis by (auto simp: run_sandbox_def keeps_def)
  next
    case a: (Inr arn)
    obtain l w2 where rl: "do_call sm_launch RunMicrovm w1 = (l, w2)" by fastforce
    have "grows (may_call sb) w1 w2" using rl by (rule do_call_grows) (use fresh in simp)
    with g1 have g2: "grows (may_call sb) w w2" by (rule grows_trans)
    let ?sb1 = "sb\<lparr>sb_launch_image_arn := Some arn\<rparr>"
    show ?thesis
    proof (cases l)
      case l: (Inl e)
      with assms(1) Inr p ra a rl have "sb' = ?sb1" "w' = w2" by (simp_all add: run_sandbox_def)
      moreover have "sb_ok ?sb1" using ok by (simp add: sb_ok_def)
      ultimately show ?thesis using g2 by (simp add: keeps_def)
    next
      case l: (Inr vm)
      let ?sb2 = "accept_launch rq token vm ?sb1"
      have ok2: "sb_ok ?sb2" using ok fresh pend by (auto simp: accept_launch_def sb_ok_def)
      show ?thesis
      proof (cases "rr_wait rq")
        case True
        with assms Inr p ra a rl l have wr: "wait_until_running (rr_ready_timeout rq) ?sb2 w2 = (r, sb', w')"
          by (simp add: run_sandbox_def)
        have own: "own sb i" for i by (simp add: own_def fresh)
        have P: "\<forall>i c. own ?sb2 i \<and> (reads_vm i c \<or> resumes_vm i c) \<and> \<not> sb_detached ?sb2 \<and>
            sb_lifecycle ?sb2 = LPending \<longrightarrow> may_call sb c"
        proof (intro allI impI)
          fix i c
          assume "own ?sb2 i \<and> (reads_vm i c \<or> resumes_vm i c) \<and> \<not> sb_detached ?sb2 \<and> sb_lifecycle ?sb2 = LPending"
          then show "may_call sb c"
            using may_reads [of i c sb] may_resumes [of i c sb] own [of i] fresh(1) pend(2) by (elim conjE disjE) simp_all
        qed
        have "\<not> sb_detached ?sb2 \<longrightarrow> may_call sb AwaitDaemon" using fresh(1) by simp
        from wait_until_running_grows [OF wr P this] have "grows (may_call sb) w2 w'" by blast
        moreover have "keeps ?sb2 w2 sb' w'" using wait_until_running_keeps [OF wr ok2] .
        ultimately show ?thesis using g2 fresh pend by (auto simp: keeps_def intro: grows_trans)
      next
        case False
        obtain b sb3 where b: "build_session ?sb2 w2 = (b, sb3)" by fastforce
        with assms Inr p ra a rl l False have "sb' = sb3" "w' = w2" by (auto simp: run_sandbox_def Let_def)
        moreover have "sb_ok sb3" "\<not> sb_detached sb3"
          by (subst build_session_keeps [OF b], simp add: ok2)
            (subst build_session_keeps [OF b], simp add: accept_launch_def fresh)
        ultimately show ?thesis using g2 fresh pend by (auto simp: keeps_def)
      qed
    qed
  qed
qed

lemma run_cancellable_keeps:
  assumes "run_cancellable early rq sb w = (r, sb', w')" and ok: "sb_ok sb"
  shows "keeps sb w sb' w'"
  using assms run_keeps [OF _ ok] keeps_refl [OF ok]
  by (auto simp: run_cancellable_def split: sum.splits if_splits)

lemma detach_keeps:
  assumes "detach sb = (r, sb')" and "sb_ok sb"
  shows "keeps sb w sb' w"
proof -
  have "sb' = sb \<or> sb' = sb\<lparr>sb_detached := True, sb_session := None, sb_pending_token := None\<rparr>"
    using assms(1) by (auto simp: detach_def split: option.splits if_splits)
  then show ?thesis
  proof
    assume "sb' = sb"
    with assms(2) show ?thesis by (simp add: keeps_refl)
  next
    assume "sb' = sb\<lparr>sb_detached := True, sb_session := None, sb_pending_token := None\<rparr>"
    with assms(2) show ?thesis by (simp add: keeps_def sb_ok_def grows_refl)
  qed
qed

lemma suspend_keeps:
  assumes "suspend sb w = (r, sb', w')" and ok: "sb_ok sb"
  shows "keeps sb w sb' w'"
proof (cases "sb_detached sb \<or> sb_microvm sb = None \<or> sb_lifecycle sb \<noteq> LRunning")
  case True
  with assms(1) have "sb' = sb \<and> w' = w" by (auto simp: suspend_def split: option.splits if_splits)
  with ok show ?thesis by (simp add: keeps_refl)
next
  case False
  then obtain vm where vm: "sb_microvm sb = Some vm" by (cases "sb_microvm sb") auto
  have run: "sb_lifecycle sb = LRunning" "\<not> sb_detached sb" using False by auto
  obtain a w1 where cs: "control_suspend (vv_id vm) w = (a, w1)" by fastforce
  have g1: "grows (may_call sb) w w1"
    by (rule grows_mono [OF suspend_grows [OF cs]]) (use run vm in \<open>simp add: own_def\<close>)
  show ?thesis
  proof (cases a)
    case (Inl e)
    with assms(1) vm run cs have "sb' = sb" "w' = w1" by (simp_all add: suspend_def)
    with ok g1 show ?thesis by (simp add: keeps_def)
  next
    case (Inr u)
    obtain b w2 where wt: "wait_for_state (vv_id vm) SUSPEND_WANTED [] LIFECYCLE_TIMEOUT w1 = (b, w2)" by fastforce
    have "grows (may_call sb) w1 w2"
      by (rule grows_mono [OF wait_grows [OF wt]]) (use run vm may_reads in \<open>auto simp: own_def\<close>)
    with g1 have g2: "grows (may_call sb) w w2" by (rule grows_trans)
    let ?sb1 = "sb\<lparr>sb_lifecycle := LSuspending\<rparr>"
    have "w' = w2 \<and> (sb' = ?sb1 \<or> (\<exists>v. sb' = ?sb1\<lparr>sb_lifecycle := LSuspended, sb_microvm := Some v\<rparr>) \<or>
        (\<exists>v. sb' = ?sb1\<lparr>sb_was_terminated := True, sb_lifecycle := LTerminated, sb_microvm := Some v\<rparr>))"
      using assms(1) vm run cs Inr wt by (auto simp: suspend_def Let_def split: sum.splits if_splits)
    then show ?thesis
      by (elim conjE disjE exE) (use g2 ok run in \<open>simp_all add: keeps_def sb_ok_def\<close>)
  qed
qed

lemma refresh_keeps:
  assumes "refresh_state i sb w = (r, sb', w')" and ok: "sb_ok sb" and "own sb i"
    and "\<not> sb_detached sb" and "\<not> sb_was_terminated sb"
  shows "keeps sb w sb' w' \<and> (\<forall>l. r = Inr l \<longrightarrow> \<not> sb_was_terminated sb' \<and>
    (l = LSuspended \<longrightarrow> sb_lifecycle sb' = LSuspended)) \<and> (sb_microvm sb \<noteq> None \<longrightarrow> sb_microvm sb' \<noteq> None)"
proof (cases "sb_lifecycle sb = LRunning")
  case False
  with assms(1,5) ok show ?thesis by (auto simp: refresh_state_def keeps_refl)
next
  case True
  obtain g w1 where g: "get_microvm i w = (g, w1)" by fastforce
  have g1: "grows (may_call sb) w w1"
    by (rule grows_mono [OF get_grows [OF g]]) (use assms(3,4) may_reads in blast)
  show ?thesis
  proof (cases g)
    case (Inl e)
    with assms(1) True g have "r = Inl e" "sb' = sb" "w' = w1" by (simp_all add: refresh_state_def)
    with ok g1 show ?thesis by (simp add: keeps_def)
  next
    case (Inr v)
    show ?thesis
    proof (cases "from_service (vv_state v)")
      case None
      with assms(1) True g Inr have "r = Inl Platform" "sb' = sb" "w' = w1" by (simp_all add: refresh_state_def)
      with ok g1 show ?thesis by (simp add: keeps_def)
    next
      case (Some l)
      have "w' = w1 \<and>
        ((\<exists>e. r = Inl e) \<and> (\<exists>x. sb' = sb\<lparr>sb_microvm := Some v, sb_was_terminated := True, sb_lifecycle := LTerminated\<rparr>) \<or>
         r = Inr l \<and> l = LSuspended \<and> sb' = sb\<lparr>sb_microvm := Some v, sb_lifecycle := LSuspended\<rparr> \<or>
         r = Inr l \<and> l \<noteq> LSuspended \<and> sb' = sb\<lparr>sb_microvm := Some v\<rparr>)"
        using assms(1) True g Inr Some by (auto simp: refresh_state_def Let_def split: if_splits)
      then show ?thesis
        by (elim conjE disjE exE) (use g1 ok True assms(5) in \<open>simp_all add: keeps_def sb_ok_def\<close>)
    qed
  qed
qed

lemma finish_resume_keeps:
  assumes "finish_resume i sb w = (r, sb', w')" and ok: "sb_ok sb" and "sb_lifecycle sb = LSuspended"
  shows "grows (reads_vm i) w w' \<and> sb_ok sb' \<and> sb_bootstrap_count sb' = sb_bootstrap_count sb \<and>
    sb_detached sb' = sb_detached sb \<and> (sb_microvm sb \<noteq> None \<longrightarrow> sb_microvm sb' \<noteq> None)"
proof -
  obtain a w1 where wt: "wait_for_state i [''RUNNING''] DEAD_STATES LIFECYCLE_TIMEOUT w = (a, w1)" by fastforce
  have "w' = w1 \<and> (sb' = sb \<or> (\<exists>v x. sb' = sb\<lparr>sb_lifecycle := LRunning, sb_microvm := Some v\<rparr> \<or>
      sb' = sb\<lparr>sb_lifecycle := LRunning, sb_microvm := Some v, sb_session := x\<rparr>))"
    using assms(1) wt by (auto simp: finish_resume_def Let_def split: sum.splits option.splits)
  then show ?thesis
    by (elim conjE disjE exE) (use wait_grows [OF wt] ok assms(3) in \<open>simp_all add: sb_ok_def\<close>)
qed

lemma resume_keeps:
  assumes "resume sb w = (r, sb', w')" and ok: "sb_ok sb"
  shows "keeps sb w sb' w'"
proof (cases "sb_detached sb \<or> sb_microvm sb = None \<or> sb_was_terminated sb \<or> sb_lifecycle sb = LTerminated")
  case True
  with assms(1) have "sb' = sb \<and> w' = w" by (auto simp: resume_def split: option.splits if_splits)
  with ok show ?thesis by (simp add: keeps_refl)
next
  case False
  then obtain vm where vm: "sb_microvm sb = Some vm" by (cases "sb_microvm sb") auto
  let ?i = "vv_id vm"
  have own: "own sb ?i" by (simp add: own_def vm)
  have live: "\<not> sb_detached sb" "\<not> sb_was_terminated sb" using False by auto
  obtain a sb1 w1 where rs: "refresh_state ?i sb w = (a, sb1, w1)" by (metis prod_cases3)
  from refresh_keeps [OF rs ok own live] have k1: "keeps sb w sb1 w1"
    and st: "\<forall>l. a = Inr l \<longrightarrow> \<not> sb_was_terminated sb1 \<and> (l = LSuspended \<longrightarrow> sb_lifecycle sb1 = LSuspended)"
    by simp_all
  have res: "resume sb w =
      (case a of Inl e \<Rightarrow> (Inl e, sb1, w1)
       | Inr l \<Rightarrow> if l \<noteq> LSuspended then (Inl InvalidArg, sb1, w1)
           else (case control_resume ?i w1 of
                   (Inl e, w2) \<Rightarrow> (Inl e, (if e = WindowClosed
                      then sb1\<lparr>sb_was_terminated := True, sb_lifecycle := LTerminated\<rparr> else sb1), w2)
                 | (Inr _, w2) \<Rightarrow> finish_resume ?i sb1 w2))"
    using False vm rs by (cases a) (simp_all add: resume_def)
  show ?thesis
  proof (cases "a = Inr LSuspended")
    case False
    with res assms(1) have "sb' = sb1" "w' = w1" by (auto split: sum.splits if_splits)
    with k1 show ?thesis by simp
  next
    case True
    obtain c w2 where cr: "control_resume ?i w1 = (c, w2)" by fastforce
    have "grows (may_call sb) w1 w2"
      by (rule grows_mono [OF resume_grows [OF cr]]) (use own live may_reads may_resumes in blast)
    then have g2: "grows (may_call sb) w w2" using k1 grows_trans by (auto simp: keeps_def)
    have s1: "sb_ok sb1" "sb_lifecycle sb1 = LSuspended" "sb_bootstrap_count sb \<le> sb_bootstrap_count sb1"
      "sb_microvm sb \<noteq> None \<longrightarrow> sb_microvm sb1 \<noteq> None"
      using k1 st True by (auto simp: keeps_def)
    show ?thesis
    proof (cases c)
      case (Inl e)
      with res assms(1) True cr have "w' = w2" "sb' = (if e = WindowClosed
          then sb1\<lparr>sb_was_terminated := True, sb_lifecycle := LTerminated\<rparr> else sb1)"
        by simp_all
      with g2 s1 live show ?thesis by (auto simp: keeps_def sb_ok_def)
    next
      case (Inr u)
      with res assms(1) True cr have "finish_resume ?i sb1 w2 = (r, sb', w')" by simp
      from finish_resume_keeps [OF this s1(1,2)] have f: "grows (reads_vm ?i) w2 w'" "sb_ok sb'"
        "sb_bootstrap_count sb' = sb_bootstrap_count sb1" "sb_microvm sb1 \<noteq> None \<longrightarrow> sb_microvm sb' \<noteq> None" by simp_all
      have "grows (may_call sb) w2 w'"
        by (rule grows_mono [OF f(1)]) (use own live may_reads in blast)
      with g2 have "grows (may_call sb) w w'" by (rule grows_trans)
      with f s1 live show ?thesis by (simp add: keeps_def)
    qed
  qed
qed


text \<open>Teardown: the VM first, then the image, then the log group it only names.\<close>

lemma end_vm_keeps:
  assumes "end_vm opts sb w = (rep, sb', w')" and ok: "sb_ok sb" and "\<not> sb_detached sb"
  shows "keeps sb w sb' w' \<and> sb_image sb' = sb_image sb \<and> \<not> sb_detached sb' \<and> sb_torn_down sb' = sb_torn_down sb"
proof (cases "sb_microvm sb")
  case None
  with assms show ?thesis by (simp add: end_vm_def keeps_refl)
next
  case (Some vm)
  let ?i = "vv_id vm"
  let ?sb1 = "sb\<lparr>sb_lifecycle := LTerminating, sb_was_terminated := True\<rparr>"
  obtain a w1 where ct: "control_terminate ?i w = (a, w1)" by fastforce
  have own: "own sb ?i" by (simp add: own_def Some)
  have g1: "grows (may_call sb) w w1"
    by (rule grows_mono [OF terminate_grows [OF ct]]) (use own assms(3) in simp)
  have ok1: "sb_ok ?sb1" using ok Some by (simp add: sb_ok_def)
  show ?thesis
  proof (cases "(\<exists>e. a = Inl e) \<or> to_wait opts = None")
    case True
    with assms(1) Some ct have "sb' = ?sb1" "w' = w1" by (auto simp: end_vm_def Let_def split: sum.splits)
    with g1 ok1 assms(3) show ?thesis by (simp add: keeps_def)
  next
    case False
    then obtain u t where ut: "a = Inr u" "to_wait opts = Some t" by (cases a) auto
    obtain b w2 where wt: "wait_for_state ?i [''TERMINATED''] [] t w1 = (b, w2)" by fastforce
    have "grows (may_call sb) w1 w2"
      by (rule grows_mono [OF wait_grows [OF wt]]) (use own assms(3) may_reads in blast)
    with g1 have g2: "grows (may_call sb) w w2" by (rule grows_trans)
    have "w' = w2 \<and> (sb' = ?sb1 \<or> (\<exists>v. sb' = ?sb1\<lparr>sb_lifecycle := LTerminated, sb_microvm := Some v\<rparr>))"
      using assms(1) Some ct ut wt by (auto simp: end_vm_def Let_def split: sum.splits)
    then show ?thesis
      by (elim conjE disjE exE) (use g2 ok1 assms(3) in \<open>simp_all add: keeps_def sb_ok_def\<close>)
  qed
qed

lemma end_image_calls:
  assumes "end_image opts rep sb w = (rep', sb', w')"
  shows "grows (\<lambda>c. \<exists>i. c = DeleteImageTry i \<and> map_option fst (sb_image sb) = Some i) w w' \<and>
    (sb' = sb \<or> sb' = sb\<lparr>sb_image_exists := False\<rparr>)"
proof (cases "to_delete_image opts")
  case False
  with assms show ?thesis by (simp add: end_image_def grows_refl)
next
  case True
  show ?thesis
  proof (cases "sb_image sb")
    case None
    with assms True show ?thesis by (simp add: end_image_def grows_refl)
  next
    case (Some im)
    obtain i g where i: "im = (i, g)" by fastforce
    obtain gone w1 where d: "delete_image i (to_attempts opts) (to_backoff opts) w = (gone, w1)" by fastforce
    have "grows (\<lambda>c. c = DeleteImageTry i) w w1"
      using d by (auto simp: delete_image_def intro: delete_tries_grows split: if_splits)
    then have "grows (\<lambda>c. \<exists>i. c = DeleteImageTry i \<and> map_option fst (sb_image sb) = Some i) w w1"
      by (rule grows_mono) (use Some i in simp)
    moreover have "w' = w1 \<and> (sb' = sb \<or> sb' = sb\<lparr>sb_image_exists := False\<rparr>)"
      using assms True Some i d by (cases gone) (simp_all add: end_image_def Let_def)
    ultimately show ?thesis by simp
  qed
qed

lemma end_image_keeps:
  assumes "end_image opts rep sb w = (rep', sb', w')" and ok: "sb_ok sb" and "\<not> sb_detached sb"
  shows "keeps sb w sb' w'"
proof -
  from end_image_calls [OF assms(1)] have
    g: "grows (\<lambda>c. \<exists>i. c = DeleteImageTry i \<and> map_option fst (sb_image sb) = Some i) w w'"
    and sb': "sb' = sb \<or> sb' = sb\<lparr>sb_image_exists := False\<rparr>" by blast+
  have "grows (may_call sb) w w'" by (rule grows_mono [OF g]) (use assms(3) in auto)
  with sb' ok show ?thesis by (elim disjE) (simp_all add: keeps_def sb_ok_def)
qed

lemma terminate_keeps:
  assumes "terminate opts sb w = (rep, sb', w')" and ok: "sb_ok sb"
  shows "keeps sb w sb' w'"
proof (cases "sb_detached sb")
  case True
  with assms have "sb' = sb \<and> w' = w" by (auto simp: terminate_def)
  with ok show ?thesis by (simp add: keeps_refl)
next
  case False
  let ?sb0 = "sb\<lparr>sb_torn_down := True, sb_session := None\<rparr>"
  obtain rep1 sb1 w1 where e: "end_vm opts ?sb0 w = (rep1, sb1, w1)" by (metis prod_cases3)
  obtain rep2 sb2 w2 where d: "end_image opts rep1 sb1 w1 = (rep2, sb2, w2)" by (metis prod_cases3)
  from assms(1) False e d have res: "sb' = sb2" "w' = w2" by (simp_all add: terminate_def Let_def)
  have ok0: "sb_ok ?sb0" using ok by (simp add: sb_ok_def)
  have k1: "keeps ?sb0 w sb1 w1" "sb_image sb1 = sb_image sb" "\<not> sb_detached sb1"
    using end_vm_keeps [OF e ok0] False by simp_all
  have k2: "keeps sb1 w1 sb2 w2" using end_image_keeps [OF d _ k1(3)] k1(1) by (simp add: keeps_def)
  have may: "may_call ?sb0 = may_call sb"
    by (rule ext, rename_tac c, case_tac c) (simp_all add: own_def)
  have "grows (may_call sb) w1 w2"
    by (rule grows_mono [OF conjunct1 [OF end_image_calls [OF d]]]) (use k1(2) False in auto)
  moreover have "grows (may_call sb) w w1" using k1(1) may by (simp add: keeps_def)
  ultimately have "grows (may_call sb) w w2" using grows_trans by blast
  with k1(1) k2 res show ?thesis by (simp add: keeps_def)
qed

lemma build_image_keeps:
  assumes "build_image sb w = (r, sb', w')" and ok: "sb_ok sb"
  shows "keeps sb w sb' w'"
proof -
  obtain a w1 where d: "do_call sm_image BuildImage w = (a, w1)" by fastforce
  have "grows (may_call sb) w w1" using d by (rule do_call_grows) simp
  moreover have "w' = w1 \<and> (sb' = sb \<or> (\<exists>b. sb' = sb\<lparr>sb_image_exists := True, sb_image := Some b\<rparr>))"
    using assms(1) d by (cases a) (auto simp: build_image_def)
  ultimately show ?thesis
    by (elim conjE disjE exE) (use ok in \<open>simp_all add: keeps_def sb_ok_def\<close>)
qed

lemma ensure_image_keeps:
  assumes "ensure_image prepared account sb w = (r, sb', w')" and ok: "sb_ok sb"
  shows "keeps sb w sb' w'"
  using assms build_image_keeps [OF _ ok] keeps_refl [OF ok]
  by (auto simp: ensure_image_def split: sum.splits)

lemma new_ok: "sb_ok new_sandbox"
  by (simp add: sb_ok_def new_sandbox_def)

lemma adopted_ok: "sb_ok (adopted_sandbox vm l token)"
  by (cases l) (simp_all add: sb_ok_def adopted_sandbox_def new_sandbox_def)

lemma adopt_ok:
  assumes "adopt i endpoint token w = (Inr sb, w')"
  shows "sb_ok sb \<and> sb_adopted sb \<and> grows (reads_vm i) w w'"
proof -
  obtain g w1 where g: "get_microvm i w = (g, w1)" by fastforce
  have "token \<noteq> []" using assms by (auto simp: adopt_def)
  obtain vm0 where vm0: "g = Inr vm0" using assms g \<open>token \<noteq> []\<close> by (cases g) (auto simp: adopt_def)
  define vm where "vm = (if vv_endpoint vm0 = [] then vm0\<lparr>vv_endpoint := endpoint\<rparr> else vm0)"
  have "\<not> (endpoint \<noteq> [] \<and> vv_endpoint vm0 \<noteq> [] \<and> vv_endpoint vm0 \<noteq> endpoint)"
  proof
    assume "endpoint \<noteq> [] \<and> vv_endpoint vm0 \<noteq> [] \<and> vv_endpoint vm0 \<noteq> endpoint"
    with assms g vm0 \<open>token \<noteq> []\<close> show False by (simp add: adopt_def)
  qed
  note known = assms [unfolded adopt_def g vm0 if_not_P [OF \<open>token \<noteq> []\<close>] if_not_P [OF this] vm_def [symmetric]
      Let_def prod.case sum.case]
  obtain l where l: "from_service (vv_state vm) = Some l" using known by (auto split: option.splits)
  let ?a = "adopted_sandbox vm l token"
  have "w' = w1 \<and> sb = ?a\<lparr>sb_session := sb_session sb\<rparr>"
  proof (cases "is_live l")
    case False
    with known l show ?thesis by (auto simp: adopted_sandbox_def new_sandbox_def)
  next
    case True
    obtain b sb1 where b: "build_session ?a w1 = (b, sb1)" by fastforce
    with known l True have "sb = sb1 \<and> w' = w1" by (cases b) auto
    with build_session_keeps [OF b] show ?thesis by simp
  qed
  moreover have "sb_ok (?a\<lparr>sb_session := x\<rparr>) \<and> sb_adopted (?a\<lparr>sb_session := x\<rparr>)" for x
    using adopted_ok [of vm l token] by (simp add: sb_ok_def adopted_sandbox_def)
  ultimately show ?thesis using get_grows [OF g] by metis
qed

section \<open>Any sequence of operations\<close>

datatype sandbox_op =
    OpBuildImage | OpEnsureImage "error_kind + unit" "error_kind + unit" | OpRun run_request
  | OpRunCancellable bool run_request | OpWaitRunning nat | OpWaitReady nat | OpDetach | OpSuspend
  | OpResume | OpTerminate teardown_opts

fun sandbox_step :: "sandbox_op \<Rightarrow> sandbox \<Rightarrow> plane_world \<Rightarrow> sandbox \<times> plane_world" where
  "sandbox_step OpBuildImage sb w = snd (build_image sb w)"
| "sandbox_step (OpEnsureImage prepared account) sb w = snd (ensure_image prepared account sb w)"
| "sandbox_step (OpRun rq) sb w = snd (run_sandbox rq sb w)"
| "sandbox_step (OpRunCancellable early rq) sb w = snd (run_cancellable early rq sb w)"
| "sandbox_step (OpWaitRunning t) sb w = snd (wait_until_running t sb w)"
| "sandbox_step (OpWaitReady t) sb w = snd (wait_until_ready t sb w)"
| "sandbox_step OpDetach sb w = (snd (detach sb), w)"
| "sandbox_step OpSuspend sb w = snd (suspend sb w)"
| "sandbox_step OpResume sb w = snd (resume sb w)"
| "sandbox_step (OpTerminate opts) sb w = snd (terminate opts sb w)"

text \<open>
  Every step of a run: the sandbox before, the calls the step made, what the service answered to them,
  and the sandbox after.
\<close>

type_synonym history_step =
  "sandbox \<times> plane_call list \<times> (plane_call \<times> service_moment) list \<times> sandbox"

fun sandbox_history :: "sandbox_op list \<Rightarrow> sandbox \<Rightarrow> plane_world \<Rightarrow> history_step list" where
  "sandbox_history [] sb w = []"
| "sandbox_history (a # ops) sb w =
     (let (sb', w') = sandbox_step a sb w
      in (sb, new_calls w w', heard w w', sb') # sandbox_history ops sb' w')"

lemma sandbox_step_keeps:
  assumes "sandbox_step a sb w = (sb', w')" and "sb_ok sb"
  shows "keeps sb w sb' w'"
proof (cases a)
  case OpBuildImage
  with assms build_image_keeps [of sb w _ sb' w'] show ?thesis by (cases "build_image sb w") simp
next
  case (OpEnsureImage prepared account)
  with assms ensure_image_keeps [of prepared account sb w _ sb' w'] show ?thesis
    by (cases "ensure_image prepared account sb w") simp
next
  case (OpRun rq)
  with assms run_keeps [of rq sb w _ sb' w'] show ?thesis by (cases "run_sandbox rq sb w") simp
next
  case (OpRunCancellable early rq)
  with assms run_cancellable_keeps [of early rq sb w _ sb' w'] show ?thesis
    by (cases "run_cancellable early rq sb w") simp
next
  case (OpWaitRunning t)
  with assms wait_until_running_keeps [of t sb w _ sb' w'] show ?thesis by (cases "wait_until_running t sb w") simp
next
  case (OpWaitReady t)
  with assms wait_until_ready_keeps [of t sb w _ sb' w'] show ?thesis by (cases "wait_until_ready t sb w") simp
next
  case OpDetach
  with assms detach_keeps [of sb _ sb' w] show ?thesis by (cases "detach sb") auto
next
  case OpSuspend
  with assms suspend_keeps [of sb w _ sb' w'] show ?thesis by (cases "suspend sb w") simp
next
  case OpResume
  with assms resume_keeps [of sb w _ sb' w'] show ?thesis by (cases "resume sb w") simp
next
  case (OpTerminate opts)
  with assms terminate_keeps [of opts sb w _ sb' w'] show ?thesis by (cases "terminate opts sb w") simp
qed

section \<open>What a step may conclude from the service\<close>

fun is_terminate :: "plane_call \<Rightarrow> bool" where
  "is_terminate (TerminateMicrovm i) \<longleftrightarrow> True"
| "is_terminate _ \<longleftrightarrow> False"

fun is_resume :: "plane_call \<Rightarrow> bool" where
  "is_resume (ResumeMicrovm i) \<longleftrightarrow> True"
| "is_resume _ \<longleftrightarrow> False"

text \<open>
  A step ends the VM when it sends a termination, or when it was made of a handle that said RUNNING,
  the service answered TERMINATED, and no resume was sent.
\<close>

definition ends_vm :: "sandbox \<Rightarrow> plane_call list \<Rightarrow> (plane_call \<times> service_moment) list \<Rightarrow> bool" where
  "ends_vm sb calls h \<longleftrightarrow>
     list_ex is_terminate calls \<or>
     sb_lifecycle sb = LRunning \<and> said ''TERMINATED'' h \<and> \<not> list_ex is_resume calls"

definition token_arrives :: "sandbox \<Rightarrow> sandbox \<Rightarrow> bool" where
  "token_arrives sb sb' \<longleftrightarrow> sb_token_installed sb' \<and> \<not> sb_token_installed sb"

text \<open>
  The token, the bootstrap count and the states RUNNING and SUSPENDED change on the service's word
  alone, and an end of the VM is remembered.
\<close>

definition tells :: "sandbox \<Rightarrow> plane_call list \<Rightarrow> (plane_call \<times> service_moment) list \<Rightarrow> sandbox \<Rightarrow> bool" where
  "tells sb calls h sb' \<longleftrightarrow>
     (sb_token_installed sb \<longrightarrow> sb_token_installed sb') \<and>
     (token_arrives sb sb' \<longrightarrow> sb_lifecycle sb' = LRunning \<and> said ''RUNNING'' h) \<and>
     sb_bootstrap_count sb' = sb_bootstrap_count sb + (if token_arrives sb sb' then 1 else 0) \<and>
     (sb_lifecycle sb' = LRunning \<and> sb_lifecycle sb \<noteq> LRunning \<longrightarrow> said ''RUNNING'' h) \<and>
     (sb_lifecycle sb' = LSuspended \<and> sb_lifecycle sb \<noteq> LSuspended \<longrightarrow> said ''SUSPENDED'' h) \<and>
     (ends_vm sb calls h \<longrightarrow> sb_was_terminated sb')"

lemma new_calls_all: "grows P w w' \<Longrightarrow> list_all P (new_calls w w')"
  by (auto simp: grows_def new_calls_def)

lemma new_calls_trans: "grows P w w1 \<Longrightarrow> grows Q w1 w2 \<Longrightarrow> new_calls w w2 = new_calls w w1 @ new_calls w1 w2"
  by (auto simp: grows_def new_calls_def)

lemma no_terminate: "grows P w w' \<Longrightarrow> (\<And>c. P c \<Longrightarrow> \<not> is_terminate c) \<Longrightarrow> \<not> list_ex is_terminate (new_calls w w')"
  using new_calls_all by (fastforce simp: list_all_iff list_ex_iff)

lemma reads_no_terminate: "reads_vm i c \<Longrightarrow> \<not> is_terminate c" "resumes_vm i c \<Longrightarrow> \<not> is_terminate c"
  by (cases c; simp)+

text \<open>A step that changes none of the flags.\<close>

lemma flags_tell:
  assumes "sb_token_installed sb' = sb_token_installed sb" "sb_bootstrap_count sb' = sb_bootstrap_count sb"
    "sb_lifecycle sb' = sb_lifecycle sb" "\<not> list_ex is_terminate calls"
    "sb_lifecycle sb = LRunning \<Longrightarrow> \<not> said ''TERMINATED'' h"
  shows "tells sb calls h sb'"
  using assms by (auto simp: tells_def token_arrives_def ends_vm_def)

lemma quiet_tell:
  assumes "sb_token_installed sb' = sb_token_installed sb" "sb_bootstrap_count sb' = sb_bootstrap_count sb"
    "sb_lifecycle sb' = sb_lifecycle sb" "grows P w w'" "\<And>j. \<not> P (GetMicrovm j)" "\<And>j. \<not> P (TerminateMicrovm j)"
  shows "tells sb (new_calls w w') (heard w w') sb'"
proof (rule flags_tell)
  show "\<not> list_ex is_terminate (new_calls w w')"
    using assms(4)
  proof (rule no_terminate)
    show "\<not> is_terminate c" if "P c" for c using that assms(6) by (cases c) auto
  qed
  show "\<not> said ''TERMINATED'' (heard w w')" by (rule said_unasked [OF assms(4,5)])
qed (use assms in simp_all)

lemma stays_tell: "tells sb (new_calls w w) (heard w w) sb"
  by (rule quiet_tell [of _ _ "\<lambda>_. False"]) auto

lemma wait_until_running_tells:
  assumes "wait_until_running t sb w = (r, sb', w')" and "sb_ok sb"
  shows "tells sb (new_calls w w') (heard w w') sb' \<and> grows (\<lambda>c. \<not> is_terminate c) w w'"
proof -
  have P: "\<forall>i c. own sb i \<and> (reads_vm i c \<or> resumes_vm i c) \<and> \<not> sb_detached sb \<and>
      sb_lifecycle sb = LPending \<longrightarrow> \<not> is_terminate c"
    using reads_no_terminate by blast
  have A: "\<not> sb_detached sb \<longrightarrow> \<not> is_terminate AwaitDaemon" by simp
  from wait_until_running_grows [OF assms(1) P A] obtain x where
    g: "grows (\<lambda>c. \<not> is_terminate c) w w'" and
    d: "sb' = sb\<lparr>sb_session := x\<rparr> \<or> sb_lifecycle sb = LPending \<and> said ''RUNNING'' (heard w w') \<and>
       (\<exists>vm. sb' = (mark_running vm sb)\<lparr>sb_session := x\<rparr>)"
    by blast
  have nt: "\<not> list_ex is_terminate (new_calls w w')" using g by (rule no_terminate) simp
  show ?thesis
  proof (cases "sb_lifecycle sb = LPending")
    case True
    with d nt assms(2) g show ?thesis
      by (elim disjE conjE exE) (auto simp: tells_def token_arrives_def ends_vm_def mark_running_def sb_ok_def)
  next
    case False
    then have "sb' = sb \<and> w' = w"
      using assms(1) by (auto simp: wait_until_running_def split: option.splits if_splits)
    with stays_tell g show ?thesis by simp
  qed
qed

lemma await_daemon_tells:
  assumes "await_daemon sb w = (r, sb', w')"
  shows "tells sb (new_calls w w') (heard w w') sb'"
proof -
  obtain x where x: "sb' = sb\<lparr>sb_session := x\<rparr>" "grows (\<lambda>c. c = AwaitDaemon) w w'"
    using assms by (rule await_daemon_keeps)
  show ?thesis by (rule quiet_tell [OF _ _ _ x(2)]) (simp_all add: x(1))
qed

lemma wait_until_ready_tells:
  assumes "wait_until_ready t sb w = (r, sb', w')" and "sb_ok sb"
  shows "tells sb (new_calls w w') (heard w w') sb'"
  using assms wait_until_running_tells await_daemon_tells stays_tell
  by (auto simp: wait_until_ready_def split: if_splits)

lemma prefix_tells:
  assumes "grows P w w2" "\<And>c. P c \<Longrightarrow> \<not> is_terminate c" "grows Q w2 w'"
    and "tells sb2 (new_calls w2 w') (heard w2 w') sb'" "sb_lifecycle sb = LPending" "sb_lifecycle sb2 = LPending"
    and "sb_token_installed sb2 = sb_token_installed sb" "sb_bootstrap_count sb2 = sb_bootstrap_count sb"
  shows "tells sb (new_calls w w') (heard w w') sb'"
proof -
  have "\<not> list_ex is_terminate (new_calls w w2)" by (rule no_terminate [OF assms(1,2)])
  with assms(4-8) show ?thesis
    unfolding heard_trans [OF assms(1,3)] new_calls_trans [OF assms(1,3)]
    by (simp add: tells_def token_arrives_def ends_vm_def)
qed

lemma run_tells:
  assumes "run_sandbox rq sb w = (r, sb', w')" and ok: "sb_ok sb"
  shows "tells sb (new_calls w w') (heard w w') sb'"
proof (cases "launch_checks rq sb")
  case (Inl e)
  with assms stays_tell show ?thesis by (auto simp: run_sandbox_def)
next
  case (Inr p)
  obtain token ident where p: "p = (token, ident)" by fastforce
  from launch_checks_pass [OF Inr] have fresh: "\<not> sb_detached sb" "sb_bootstrap_count sb = 0" "sb_microvm sb = None"
    by simp_all
  have pend: "sb_lifecycle sb = LPending" "\<not> sb_was_terminated sb" using ok fresh(3) by (auto simp: sb_ok_def)
  let ?P = "\<lambda>c. c = ResolveImage \<or> c = RunMicrovm"
  obtain a w1 where ra: "do_call sm_arn ResolveImage w = (a, w1)" by fastforce
  have g1: "grows ?P w w1" using ra by (rule do_call_grows) simp
  show ?thesis
  proof (cases a)
    case a: (Inl e)
    with assms Inr p ra have "sb' = sb" "w' = w1" by (simp_all add: run_sandbox_def)
    then show ?thesis using quiet_tell [OF _ _ _ g1] by simp
  next
    case a: (Inr arn)
    obtain l w2 where rl: "do_call sm_launch RunMicrovm w1 = (l, w2)" by fastforce
    have "grows ?P w1 w2" using rl by (rule do_call_grows) simp
    with g1 have g2: "grows ?P w w2" by (rule grows_trans)
    let ?sb1 = "sb\<lparr>sb_launch_image_arn := Some arn\<rparr>"
    show ?thesis
    proof (cases l)
      case l: (Inl e)
      with assms(1) Inr p ra a rl have "sb' = ?sb1" "w' = w2" by (simp_all add: run_sandbox_def)
      then show ?thesis using quiet_tell [OF _ _ _ g2] by simp
    next
      case l: (Inr vm)
      let ?sb2 = "accept_launch rq token vm ?sb1"
      have ok2: "sb_ok ?sb2" using ok fresh pend by (auto simp: accept_launch_def sb_ok_def)
      have same: "sb_lifecycle ?sb2 = LPending" "sb_token_installed ?sb2 = sb_token_installed sb"
        "sb_bootstrap_count ?sb2 = sb_bootstrap_count sb" by (simp_all add: accept_launch_def)
      show ?thesis
      proof (cases "rr_wait rq")
        case True
        with assms Inr p ra a rl l have wr: "wait_until_running (rr_ready_timeout rq) ?sb2 w2 = (r, sb', w')"
          by (simp add: run_sandbox_def)
        note W = wait_until_running_tells [OF wr ok2]
        show ?thesis
          by (rule prefix_tells [OF g2 _ conjunct2 [OF W] conjunct1 [OF W] pend(1) same]) auto
      next
        case False
        obtain b sb3 where b: "build_session ?sb2 w2 = (b, sb3)" by fastforce
        with assms Inr p ra a rl l False have "sb' = sb3" "w' = w2" by (auto simp: run_sandbox_def Let_def)
        moreover have "sb_token_installed sb3 = sb_token_installed ?sb2" "sb_lifecycle sb3 = sb_lifecycle ?sb2"
          "sb_bootstrap_count sb3 = sb_bootstrap_count ?sb2"
          by (subst build_session_keeps [OF b], simp)+
        ultimately show ?thesis using quiet_tell [OF _ _ _ g2] same pend(1) by simp
      qed
    qed
  qed
qed

lemma detach_tells: "detach sb = (r, sb') \<Longrightarrow> tells sb (new_calls w w) (heard w w) sb'"
  by (rule quiet_tell [of _ _ "\<lambda>_. False"]) (auto simp: detach_def split: option.splits if_splits)

lemma suspend_tells:
  assumes "suspend sb w = (r, sb', w')"
  shows "tells sb (new_calls w w') (heard w w') sb'"
proof (cases "sb_detached sb \<or> sb_microvm sb = None \<or> sb_lifecycle sb \<noteq> LRunning")
  case True
  with assms(1) have "sb' = sb \<and> w' = w" by (auto simp: suspend_def split: option.splits if_splits)
  with stays_tell show ?thesis by simp
next
  case False
  then obtain vm where vm: "sb_microvm sb = Some vm" by (cases "sb_microvm sb") auto
  have run: "sb_lifecycle sb = LRunning" "\<not> sb_detached sb" using False by auto
  obtain a w1 where cs: "control_suspend (vv_id vm) w = (a, w1)" by fastforce
  note g1 = suspend_grows [OF cs]
  show ?thesis
  proof (cases a)
    case (Inl e)
    with assms(1) vm run cs have "sb' = sb" "w' = w1" by (simp_all add: suspend_def)
    then show ?thesis using quiet_tell [OF _ _ _ g1] by simp
  next
    case (Inr u)
    obtain b w2 where wt: "wait_for_state (vv_id vm) SUSPEND_WANTED [] LIFECYCLE_TIMEOUT w1 = (b, w2)" by fastforce
    note g2 = wait_grows [OF wt]
    have h: "said st (heard w w2) \<longleftrightarrow> said st (heard w1 w2)" for st
      using heard_trans [OF g1 g2] said_unasked [OF g1] by simp
    have nt: "\<not> list_ex is_terminate (new_calls w w2)"
      using no_terminate [OF g1] no_terminate [OF g2 reads_no_terminate(1)] by (simp add: new_calls_trans [OF g1 g2])
    note W = wait_said [OF wt]
    let ?sb1 = "sb\<lparr>sb_lifecycle := LSuspending\<rparr>"
    have ended: "\<exists>v. b = Inr v \<and> vv_state v = ''TERMINATED''" if "said ''TERMINATED'' (heard w w2)"
      using W(2) [of "''TERMINATED''"] that by (simp add: h SUSPEND_WANTED_def)
    have "w' = w2 \<and>
        (sb' = ?sb1 \<and> \<not> said ''TERMINATED'' (heard w w2) \<or>
         (\<exists>v. sb' = ?sb1\<lparr>sb_lifecycle := LSuspended, sb_microvm := Some v\<rparr>) \<and>
           said ''SUSPENDED'' (heard w w2) \<and> \<not> said ''TERMINATED'' (heard w w2) \<or>
         (\<exists>v. sb' = ?sb1\<lparr>sb_was_terminated := True, sb_lifecycle := LTerminated, sb_microvm := Some v\<rparr>))"
    proof (cases b)
      case (Inl e)
      with assms(1) vm run cs Inr wt ended show ?thesis by (auto simp: suspend_def Let_def)
    next
      case b: (Inr v)
      have "said (vv_state v) (heard w w2)" using W(1) [OF b] by (simp add: h)
      with assms(1) vm run cs Inr wt ended b show ?thesis
        by (auto simp: suspend_def Let_def split: if_splits)
    qed
    then show ?thesis using nt run
      by (elim conjE disjE exE) (simp_all add: tells_def token_arrives_def ends_vm_def)
  qed
qed

lemma refresh_tells:
  assumes "refresh_state i sb w = (a, sb1, w1)"
  shows "tells sb (new_calls w w1) (heard w w1) sb1 \<and> grows (reads_vm i) w w1 \<and>
    sb_token_installed sb1 = sb_token_installed sb \<and> sb_bootstrap_count sb1 = sb_bootstrap_count sb \<and>
    (a = Inr LSuspended \<longrightarrow> sb_lifecycle sb1 = LSuspended \<and>
      (sb_lifecycle sb = LSuspended \<or>
       sb_lifecycle sb = LRunning \<and> said ''SUSPENDED'' (heard w w1) \<and> valid_identifier i))"
proof (cases "sb_lifecycle sb = LRunning")
  case False
  with assms(1) have "a = Inr (sb_lifecycle sb)" "sb1 = sb" "w1 = w" by (auto simp: refresh_state_def)
  with stays_tell False show ?thesis by (simp add: grows_refl)
next
  case True
  obtain g w2 where g: "get_microvm i w = (g, w2)" by fastforce
  have w1: "w1 = w2" using assms True g by (auto simp: refresh_state_def Let_def split: sum.splits option.splits if_splits)
  note gg = get_grows [OF g] and gs = get_said [OF g]
  have nt: "\<not> list_ex is_terminate (new_calls w w2)" by (rule no_terminate [OF gg reads_no_terminate(1)])
  have valid: "valid_identifier i" if "g = Inr v" for v
    using g that by (auto simp: get_microvm_def on_vm_def split: if_splits)
  show ?thesis
  proof (cases g)
    case (Inl e)
    with assms(1) True g have "a = Inl e" "sb1 = sb" by (simp_all add: refresh_state_def)
    with nt gs gg w1 Inl show ?thesis by (simp add: tells_def token_arrives_def ends_vm_def)
  next
    case (Inr v)
    show ?thesis
    proof (cases "from_service (vv_state v)")
      case None
      with assms(1) True g Inr have "a = Inl Platform" "sb1 = sb" by (simp_all add: refresh_state_def)
      moreover have "vv_state v \<noteq> ''TERMINATED''" using None by (auto simp: from_service_def)
      ultimately show ?thesis using nt gs gg w1 Inr by (simp add: tells_def token_arrives_def ends_vm_def)
    next
      case (Some l)
      have l: "l = LSuspended \<Longrightarrow> vv_state v = ''SUSPENDED''" using Some by (auto simp: from_service_def split: if_splits)
      have "((\<exists>e. a = Inl e) \<and> sb1 = sb\<lparr>sb_microvm := Some v, sb_was_terminated := True, sb_lifecycle := LTerminated\<rparr> \<or>
         a = Inr l \<and> l = LSuspended \<and> sb1 = sb\<lparr>sb_microvm := Some v, sb_lifecycle := LSuspended\<rparr> \<or>
         a = Inr l \<and> l \<noteq> LSuspended \<and> vv_state v \<noteq> ''TERMINATED'' \<and> sb1 = sb\<lparr>sb_microvm := Some v\<rparr>)"
        using assms(1) True g Inr Some by (auto simp: refresh_state_def Let_def DEAD_STATES_def split: if_splits)
      then show ?thesis
        by (elim conjE disjE exE)
          (use nt gs gg w1 Inr l True valid in \<open>simp_all add: tells_def token_arrives_def ends_vm_def\<close>)
    qed
  qed
qed

lemma resume_logged: "control_resume i w = (r, w') \<Longrightarrow> valid_identifier i \<Longrightarrow> list_ex is_resume (new_calls w w')"
  by (auto simp: control_resume_def ended_before_resume_def get_microvm_def on_vm_def do_call_def new_calls_def
      split: if_splits list.splits prod.splits sum.splits)

lemma finish_resume_tells:
  assumes "finish_resume i sb w = (r, sb', w')"
  shows "grows (reads_vm i) w w' \<and> sb_token_installed sb' = sb_token_installed sb \<and>
    sb_bootstrap_count sb' = sb_bootstrap_count sb \<and>
    (sb_lifecycle sb' = sb_lifecycle sb \<or> sb_lifecycle sb' = LRunning \<and> said ''RUNNING'' (heard w w'))"
proof -
  obtain a w1 where wt: "wait_for_state i [''RUNNING''] DEAD_STATES LIFECYCLE_TIMEOUT w = (a, w1)" by fastforce
  show ?thesis
  proof (cases a)
    case (Inl e)
    with assms wt wait_grows [OF wt] show ?thesis by (auto simp: finish_resume_def)
  next
    case (Inr v)
    have "vv_state v = ''RUNNING''" using wait_wanted wt Inr by fastforce
    then have "said ''RUNNING'' (heard w w1)" using wait_said(1) [OF wt Inr] by simp
    with assms wt Inr wait_grows [OF wt] show ?thesis
      by (auto simp: finish_resume_def Let_def split: option.splits)
  qed
qed

text \<open>The end of a resume that was judged SUSPENDED, from the refreshed handle.\<close>

lemma resumed_tells:
  assumes "tells sb (new_calls w w1) (heard w w1) sb1" "grows (reads_vm i) w w1"
    and "sb_token_installed sb1 = sb_token_installed sb" "sb_bootstrap_count sb1 = sb_bootstrap_count sb"
    and "sb_lifecycle sb1 = LSuspended"
    and "sb_lifecycle sb = LSuspended \<or>
      sb_lifecycle sb = LRunning \<and> said ''SUSPENDED'' (heard w w1) \<and> valid_identifier i"
    and "control_resume i w1 = (c, w2)" "grows (reads_vm i) w2 w'"
    and "sb_token_installed sb' = sb_token_installed sb1" "sb_bootstrap_count sb' = sb_bootstrap_count sb1"
    and "sb_lifecycle sb' = LSuspended \<or> sb_lifecycle sb' = LTerminated \<or>
      sb_lifecycle sb' = LRunning \<and> said ''RUNNING'' (heard w2 w')"
  shows "tells sb (new_calls w w') (heard w w') sb'"
proof -
  note g1 = assms(2) and g2 = resume_grows [OF assms(7)] and g3 = assms(8)
  note g23 = grows_trans [OF grows_mono [OF g2] grows_mono [OF g3], of "\<lambda>c. reads_vm i c \<or> resumes_vm i c"]
  have g23: "grows (\<lambda>c. reads_vm i c \<or> resumes_vm i c) w1 w'" by (rule g23) auto
  have g: "grows (\<lambda>c. reads_vm i c \<or> resumes_vm i c) w w'"
    using grows_trans [OF grows_mono [OF g1, of "\<lambda>c. reads_vm i c \<or> resumes_vm i c"] g23] by blast
  have nt: "\<not> list_ex is_terminate (new_calls w w')"
    by (rule no_terminate [OF g]) (use reads_no_terminate in blast)
  have h: "heard w w' = heard w w1 @ heard w1 w2 @ heard w2 w'"
    using heard_trans [OF g1 g23] heard_trans [OF g2 g3] by simp
  have "list_ex is_resume (new_calls w w')" if "valid_identifier i"
    using resume_logged [OF assms(7) that] new_calls_trans [OF g1 g23] new_calls_trans [OF g2 g3] by simp
  then show ?thesis using assms(3-6) assms(9-11) nt h
    by (auto simp: tells_def token_arrives_def ends_vm_def)
qed

lemma resume_tells:
  assumes "resume sb w = (r, sb', w')"
  shows "tells sb (new_calls w w') (heard w w') sb'"
proof (cases "sb_detached sb \<or> sb_microvm sb = None \<or> sb_was_terminated sb \<or> sb_lifecycle sb = LTerminated")
  case True
  with assms(1) have "sb' = sb \<and> w' = w" by (auto simp: resume_def split: option.splits if_splits)
  with stays_tell show ?thesis by simp
next
  case False
  then obtain vm where vm: "sb_microvm sb = Some vm" by (cases "sb_microvm sb") auto
  let ?i = "vv_id vm"
  obtain a sb1 w1 where rs: "refresh_state ?i sb w = (a, sb1, w1)" by (metis prod_cases3)
  note R = refresh_tells [OF rs]
  have res: "resume sb w =
      (case a of Inl e \<Rightarrow> (Inl e, sb1, w1)
       | Inr l \<Rightarrow> if l \<noteq> LSuspended then (Inl InvalidArg, sb1, w1)
           else (case control_resume ?i w1 of
                   (Inl e, w2) \<Rightarrow> (Inl e, (if e = WindowClosed
                      then sb1\<lparr>sb_was_terminated := True, sb_lifecycle := LTerminated\<rparr> else sb1), w2)
                 | (Inr _, w2) \<Rightarrow> finish_resume ?i sb1 w2))"
    using False vm rs by (cases a) (simp_all add: resume_def)
  show ?thesis
  proof (cases "a = Inr LSuspended")
    case False
    with res assms(1) have "sb' = sb1" "w' = w1" by (auto split: sum.splits if_splits)
    with R show ?thesis by simp
  next
    case True
    obtain c w2 where cr: "control_resume ?i w1 = (c, w2)" by fastforce
    have s: "tells sb (new_calls w w1) (heard w w1) sb1" "grows (reads_vm ?i) w w1"
      "sb_token_installed sb1 = sb_token_installed sb" "sb_bootstrap_count sb1 = sb_bootstrap_count sb"
      "sb_lifecycle sb1 = LSuspended"
      "sb_lifecycle sb = LSuspended \<or>
        sb_lifecycle sb = LRunning \<and> said ''SUSPENDED'' (heard w w1) \<and> valid_identifier ?i"
      using R True by simp_all
    note E = resumed_tells [OF s cr]
    show ?thesis
    proof (cases c)
      case (Inl e)
      with res assms(1) True cr have "w' = w2" "sb' = (if e = WindowClosed
          then sb1\<lparr>sb_was_terminated := True, sb_lifecycle := LTerminated\<rparr> else sb1)"
        by simp_all
      with E [OF grows_refl] s(5) show ?thesis by simp
    next
      case (Inr u)
      with res assms(1) True cr have "finish_resume ?i sb1 w2 = (r, sb', w')" by simp
      note F = finish_resume_tells [OF this]
      show ?thesis by (rule E) (use F s(5) in auto)
    qed
  qed
qed

lemma terminate_tells:
  assumes "terminate opts sb w = (rep, sb', w')" and ok: "sb_ok sb"
  shows "tells sb (new_calls w w') (heard w w') sb'"
proof (cases "sb_detached sb")
  case True
  with assms stays_tell show ?thesis by (auto simp: terminate_def)
next
  case False
  let ?sb0 = "sb\<lparr>sb_torn_down := True, sb_session := None\<rparr>"
  obtain rep1 sb1 w1 where e: "end_vm opts ?sb0 w = (rep1, sb1, w1)" by (metis prod_cases3)
  obtain rep2 sb2 w2 where d: "end_image opts rep1 sb1 w1 = (rep2, sb2, w2)" by (metis prod_cases3)
  from assms(1) False e d have res: "sb' = sb2" "w' = w2" by (simp_all add: terminate_def Let_def)
  have img: "sb2 = sb1 \<or> sb2 = sb1\<lparr>sb_image_exists := False\<rparr>" using end_image_calls [OF d] by blast
  show ?thesis
  proof (cases "sb_microvm sb")
    case None
    with e have one: "sb1 = ?sb0" "w1 = w" by (simp_all add: end_vm_def)
    show ?thesis
      by (rule quiet_tell [OF _ _ _ conjunct1 [OF end_image_calls [OF d], unfolded one(2), folded res(2)]])
        (use img one res in auto)
  next
    case (Some vm)
    have "sb_token_installed sb1 = sb_token_installed sb \<and> sb_bootstrap_count sb1 = sb_bootstrap_count sb \<and>
        sb_was_terminated sb1 \<and> sb_lifecycle sb1 \<in> {LTerminating, LTerminated}"
      using e Some by (auto simp: end_vm_def Let_def split: sum.splits prod.splits option.splits)
    with img res show ?thesis by (auto simp: tells_def token_arrives_def)
  qed
qed

lemma build_image_tells:
  assumes "build_image sb w = (r, sb', w')"
  shows "tells sb (new_calls w w') (heard w w') sb'"
proof -
  obtain a w1 where d: "do_call sm_image BuildImage w = (a, w1)" by fastforce
  have g: "grows (\<lambda>c. c = BuildImage) w w1" using d by (rule do_call_grows) simp
  have "w' = w1 \<and> (sb' = sb \<or> (\<exists>b. sb' = sb\<lparr>sb_image_exists := True, sb_image := Some b\<rparr>))"
    using assms(1) d by (cases a) (auto simp: build_image_def)
  with quiet_tell [OF _ _ _ g, of sb' sb] show ?thesis by auto
qed

lemma sandbox_step_tells:
  assumes "sandbox_step a sb w = (sb', w')" and ok: "sb_ok sb"
  shows "tells sb (new_calls w w') (heard w w') sb'"
proof (cases a)
  case OpBuildImage
  with assms build_image_tells [of sb w _ sb' w'] show ?thesis by (cases "build_image sb w") simp
next
  case (OpEnsureImage prepared account)
  with assms(1) build_image_tells [of sb w _ sb' w'] stays_tell [of sb w] show ?thesis
    by (cases "build_image sb w") (auto simp: ensure_image_def split: sum.splits)
next
  case (OpRun rq)
  with assms run_tells [of rq sb w _ sb' w'] show ?thesis by (cases "run_sandbox rq sb w") simp
next
  case (OpRunCancellable early rq)
  with assms run_tells [of rq sb w _ sb' w'] stays_tell [of sb w] show ?thesis
    by (cases "run_sandbox rq sb w") (auto simp: run_cancellable_def split: sum.splits if_splits)
next
  case (OpWaitRunning t)
  with assms wait_until_running_tells [of t sb w _ sb' w'] show ?thesis by (cases "wait_until_running t sb w") simp
next
  case (OpWaitReady t)
  with assms wait_until_ready_tells [of t sb w _ sb' w'] show ?thesis by (cases "wait_until_ready t sb w") simp
next
  case OpDetach
  with assms detach_tells [of sb _ sb' w] show ?thesis by (cases "detach sb") auto
next
  case OpSuspend
  with assms suspend_tells [of sb w _ sb' w'] show ?thesis by (cases "suspend sb w") simp
next
  case OpResume
  with assms resume_tells [of sb w _ sb' w'] show ?thesis by (cases "resume sb w") simp
next
  case (OpTerminate opts)
  with assms terminate_tells [of opts sb w _ sb' w'] show ?thesis by (cases "terminate opts sb w") simp
qed

section \<open>Any history\<close>

text \<open>One step obeys the rules: the calls it may make and what it may not undo.\<close>

definition step_obeys :: "sandbox \<Rightarrow> plane_call list \<Rightarrow> sandbox \<Rightarrow> bool" where
  "step_obeys sb calls sb' \<longleftrightarrow>
     sb_ok sb' \<and> list_all (may_call sb) calls \<and>
     (sb_was_terminated sb \<longrightarrow> sb_was_terminated sb') \<and>
     sb_bootstrap_count sb \<le> sb_bootstrap_count sb' \<and> (sb_detached sb \<longrightarrow> sb_detached sb') \<and>
     (sb_microvm sb \<noteq> None \<longrightarrow> sb_microvm sb' \<noteq> None)"

lemma keeps_obeys:
  "keeps sb w sb' w' \<Longrightarrow> step_obeys sb (new_calls w w') sb'"
  by (auto simp: keeps_def step_obeys_def grows_def new_calls_def)

lemma history_obeys:
  "sb_ok sb \<Longrightarrow> (b, calls, h, a) \<in> set (sandbox_history ops sb w) \<Longrightarrow>
     sb_ok b \<and> step_obeys b calls a \<and> tells b calls h a"
proof (induction ops arbitrary: sb w)
  case Nil
  then show ?case by simp
next
  case (Cons x ops)
  obtain sb1 w1 where s: "sandbox_step x sb w = (sb1, w1)" by fastforce
  have k: "keeps sb w sb1 w1" using sandbox_step_keeps [OF s Cons.prems(1)] .
  then have "sb_ok sb1" by (simp add: keeps_def)
  with Cons.IH [OF this] Cons.prems s k keeps_obeys [OF k] sandbox_step_tells [OF s Cons.prems(1)]
  show ?case by auto
qed

text \<open>An end remembered by one step is known to every later one.\<close>

lemma history_from_terminated:
  "sb_ok sb \<Longrightarrow> sb_was_terminated sb \<Longrightarrow> (b, calls, h, a) \<in> set (sandbox_history ops sb w) \<Longrightarrow> sb_was_terminated b"
proof (induction ops arbitrary: sb w)
  case Nil
  then show ?case by simp
next
  case (Cons x ops)
  obtain sb1 w1 where s: "sandbox_step x sb w = (sb1, w1)" by fastforce
  have "sb_ok sb1 \<and> sb_was_terminated sb1"
    using sandbox_step_keeps [OF s Cons.prems(1)] Cons.prems(2) by (simp add: keeps_def)
  with Cons.IH [of sb1 w1] Cons.prems s show ?case by auto
qed

lemma history_remembers:
  "sb_ok sb \<Longrightarrow> sandbox_history ops sb w = earlier @ (b, calls, h, a) # later \<Longrightarrow>
     (b0, calls0, h0, a0) \<in> set earlier \<Longrightarrow> sb_was_terminated a0 \<Longrightarrow> sb_was_terminated b"
proof (induction ops arbitrary: sb w earlier)
  case Nil
  then show ?case by simp
next
  case (Cons x ops)
  obtain sb1 w1 where s: "sandbox_step x sb w = (sb1, w1)" by fastforce
  have ok: "sb_ok sb1" using sandbox_step_keeps [OF s Cons.prems(1)] by (simp add: keeps_def)
  obtain e es where e: "earlier = e # es" using Cons.prems(3) by (cases earlier) auto
  have parts: "e = (sb, new_calls w w1, heard w w1, sb1)"
    "sandbox_history ops sb1 w1 = es @ (b, calls, h, a) # later"
    using Cons.prems(2) s e by auto
  show ?case
  proof (cases "(b0, calls0, h0, a0) \<in> set es")
    case True
    with Cons.IH [OF ok parts(2)] Cons.prems(4) show ?thesis by simp
  next
    case False
    then have "sb_was_terminated sb1" using Cons.prems(3,4) e parts(1) by auto
    moreover have "(b, calls, h, a) \<in> set (sandbox_history ops sb1 w1)" by (simp add: parts(2))
    ultimately show ?thesis using history_from_terminated [OF ok] by blast
  qed
qed

fun call_vm :: "plane_call \<Rightarrow> string option" where
  "call_vm (GetMicrovm i) = Some i"
| "call_vm (SuspendMicrovm i) = Some i"
| "call_vm (ResumeMicrovm i) = Some i"
| "call_vm (TerminateMicrovm i) = Some i"
| "call_vm _ = None"

text \<open>What an operation of a handle that has a VM may call, spelled out.\<close>

lemma may_call_own: "may_call sb c \<Longrightarrow> sb_microvm sb = Some vm \<Longrightarrow> call_vm c = Some i \<Longrightarrow> i = vv_id vm"
  by (cases c) (simp_all add: own_def)

lemma may_call_detached: "may_call sb c \<Longrightarrow> sb_detached sb \<Longrightarrow> c = BuildImage"
  by (cases c) simp_all

text \<open>What an adopted handle takes for installed, the service said when it was adopted.\<close>

definition adopted_as_installed :: "(plane_call \<times> service_moment) list \<Rightarrow> bool" where
  "adopted_as_installed h \<longleftrightarrow> said ''RUNNING'' h \<or> said ''SUSPENDING'' h \<or> said ''SUSPENDED'' h"

lemma adopted_token:
  assumes "adopt i endpoint token w = (Inr sb, w')" and "sb_token_installed sb"
  shows "adopted_as_installed (heard w w')"
proof -
  obtain g w1 where g: "get_microvm i w = (g, w1)" by fastforce
  obtain vm0 where vm0: "g = Inr vm0" "w' = w1" using assms g
    by (cases g) (auto simp: adopt_def Let_def split: if_splits option.splits sum.splits prod.splits)
  define vm where "vm = (if vv_endpoint vm0 = [] then vm0\<lparr>vv_endpoint := endpoint\<rparr> else vm0)"
  obtain l where l: "from_service (vv_state vm0) = Some l" "l \<in> {LRunning, LSuspending, LSuspended}"
  proof -
    have st: "vv_state vm = vv_state vm0" by (simp add: vm_def)
    obtain l where l: "from_service (vv_state vm) = Some l" "sb_token_installed sb = sb_token_installed (adopted_sandbox vm l token)"
      using assms(1) g vm0(1) unfolding adopt_def
      by (auto simp: vm_def [symmetric] Let_def split: if_splits option.splits sum.splits prod.splits
          dest: arg_cong [OF build_session_keeps, of _ _ _ _ sb_token_installed])
    with st assms(2) that show thesis by (simp add: adopted_sandbox_def)
  qed
  have "vv_state vm0 \<in> {''RUNNING'', ''SUSPENDING'', ''SUSPENDED''}"
    using l by (auto simp: from_service_def split: if_splits)
  with get_said [OF g] vm0 show ?thesis by (auto simp: adopted_as_installed_def)
qed

text \<open>
  C31: the state rules of one VM's handle, over any sequence of operations on a fresh or an adopted
  sandbox and any answers of the service. The bootstrap token is installed by a step only when the
  service answered RUNNING within that step, which then ends RUNNING; the bootstrap count rises with it
  and at no other time, to one at most, and the token stays installed (STATE-2, STATE-3). An adopted
  handle starts with an installed token only on the service's word. The handle turns RUNNING or
  SUSPENDED only in a step in which the service said so. A suspend is sent only from RUNNING
  (STATE-5). Once a step has sent a termination, or has heard of one from RUNNING without resuming,
  no later step launches or resumes, and none ends RUNNING (STATE-11). A handle that has a VM launches
  none and addresses no other VM, and a detached one calls nothing but an image build.
\<close>

theorem sandbox_keeps_state_rules:
  assumes "start = new_sandbox \<and> adopting = [] \<or>
      (\<exists>i endpoint token w0 w1. adopt i endpoint token w0 = (Inr start, w1) \<and> adopting = heard w0 w1)"
    and "sandbox_history ops start w = earlier @ (before, calls, answers, after) # later"
  shows "(sb_token_installed start \<longrightarrow> adopted_as_installed adopting) \<and>
    (sb_token_installed before \<longrightarrow> sb_token_installed after) \<and>
    (sb_token_installed after \<and> \<not> sb_token_installed before \<longrightarrow>
       sb_lifecycle after = LRunning \<and> said ''RUNNING'' answers) \<and>
    sb_bootstrap_count after = sb_bootstrap_count before +
      (if sb_token_installed after \<and> \<not> sb_token_installed before then 1 else 0) \<and>
    sb_bootstrap_count after \<le> 1 \<and>
    (sb_lifecycle after = LRunning \<longrightarrow> sb_token_installed after \<and> sb_bootstrap_count after = 1) \<and>
    (sb_lifecycle after = LRunning \<and> sb_lifecycle before \<noteq> LRunning \<longrightarrow> said ''RUNNING'' answers) \<and>
    (sb_lifecycle after = LSuspended \<and> sb_lifecycle before \<noteq> LSuspended \<longrightarrow> said ''SUSPENDED'' answers) \<and>
    (SuspendMicrovm i \<in> set calls \<longrightarrow> sb_lifecycle before = LRunning) \<and>
    (ends_vm before calls answers \<longrightarrow> sb_was_terminated after) \<and>
    (sb_was_terminated before \<or> list_ex (\<lambda>(b, cs, an, a). ends_vm b cs an) earlier \<longrightarrow>
       sb_was_terminated after \<and> sb_lifecycle after \<noteq> LRunning \<and>
       RunMicrovm \<notin> set calls \<and> ResumeMicrovm i \<notin> set calls) \<and>
    (\<forall>vm. sb_microvm before = Some vm \<longrightarrow>
       sb_microvm after \<noteq> None \<and> RunMicrovm \<notin> set calls \<and>
       (\<forall>c\<in>set calls. \<forall>j. call_vm c = Some j \<longrightarrow> j = vv_id vm)) \<and>
    (sb_detached before \<longrightarrow> sb_detached after \<and> set calls \<subseteq> {BuildImage})"
proof -
  have start: "sb_ok start" "sb_token_installed start \<longrightarrow> adopted_as_installed adopting"
    using assms(1) new_ok adopt_ok adopted_token by (auto simp: new_sandbox_def)
  have mem: "(before, calls, answers, after) \<in> set (sandbox_history ops start w)" by (simp add: assms(2))
  from history_obeys [OF start(1) mem] have okb: "sb_ok before" and obey: "step_obeys before calls after"
    and told: "tells before calls answers after" by blast+
  have made: "may_call before c" if "c \<in> set calls" for c
    using obey that by (simp add: step_obeys_def list_all_iff)
  have ok: "sb_ok after" using obey by (simp add: step_obeys_def)
  have ended: "sb_was_terminated before" if "list_ex (\<lambda>(b, cs, an, a). ends_vm b cs an) earlier"
  proof -
    from that obtain b cs an a where e: "(b, cs, an, a) \<in> set earlier" "ends_vm b cs an"
      by (auto simp: list_ex_iff)
    have "(b, cs, an, a) \<in> set (sandbox_history ops start w)" using e(1) by (simp add: assms(2))
    from history_obeys [OF start(1) this] e(2) have "sb_was_terminated a" by (simp add: tells_def)
    from history_remembers [OF start(1) assms(2) e(1) this] show ?thesis .
  qed
  have none: "RunMicrovm \<notin> set calls" if "sb_microvm before \<noteq> None"
    using made [of RunMicrovm] that by auto
  have after: "sb_lifecycle after = LRunning \<longrightarrow> sb_token_installed after \<and> sb_bootstrap_count after = 1"
    "sb_bootstrap_count after \<le> 1" "sb_was_terminated after \<longrightarrow> sb_lifecycle after \<noteq> LRunning"
    using ok by (auto simp: sb_ok_def)
  have stays: "sb_was_terminated before \<longrightarrow> sb_was_terminated after"
    "sb_detached before \<longrightarrow> sb_detached after" "sb_microvm before \<noteq> None \<longrightarrow> sb_microvm after \<noteq> None"
    using obey by (simp_all add: step_obeys_def)
  have known: "sb_was_terminated before \<or> list_ex (\<lambda>(b, cs, an, a). ends_vm b cs an) earlier \<longrightarrow>
      sb_was_terminated after \<and> sb_lifecycle after \<noteq> LRunning \<and>
      RunMicrovm \<notin> set calls \<and> ResumeMicrovm i \<notin> set calls"
  proof
    assume "sb_was_terminated before \<or> list_ex (\<lambda>(b, cs, an, a). ends_vm b cs an) earlier"
    with ended have t: "sb_was_terminated before" by blast
    have "sb_microvm before \<noteq> None" using okb t by (auto simp: sb_ok_def)
    moreover have "ResumeMicrovm i \<notin> set calls" using made [of "ResumeMicrovm i"] t by auto
    ultimately show "sb_was_terminated after \<and> sb_lifecycle after \<noteq> LRunning \<and>
        RunMicrovm \<notin> set calls \<and> ResumeMicrovm i \<notin> set calls"
      using none stays(1) after(3) t by blast
  qed
  have suspends: "SuspendMicrovm i \<in> set calls \<longrightarrow> sb_lifecycle before = LRunning"
    using made [of "SuspendMicrovm i"] by auto
  have own: "\<forall>vm. sb_microvm before = Some vm \<longrightarrow>
      sb_microvm after \<noteq> None \<and> RunMicrovm \<notin> set calls \<and>
      (\<forall>c\<in>set calls. \<forall>j. call_vm c = Some j \<longrightarrow> j = vv_id vm)"
    using none stays(3) may_call_own [OF made] by blast
  have detached: "sb_detached before \<longrightarrow> sb_detached after \<and> set calls \<subseteq> {BuildImage}"
    using may_call_detached [OF made] stays(2) by blast
  have flags: "sb_token_installed before \<longrightarrow> sb_token_installed after"
    "sb_token_installed after \<and> \<not> sb_token_installed before \<longrightarrow>
       sb_lifecycle after = LRunning \<and> said ''RUNNING'' answers"
    "sb_bootstrap_count after = sb_bootstrap_count before +
       (if sb_token_installed after \<and> \<not> sb_token_installed before then 1 else 0)"
    "sb_lifecycle after = LRunning \<and> sb_lifecycle before \<noteq> LRunning \<longrightarrow> said ''RUNNING'' answers"
    "sb_lifecycle after = LSuspended \<and> sb_lifecycle before \<noteq> LSuspended \<longrightarrow> said ''SUSPENDED'' answers"
    "ends_vm before calls answers \<longrightarrow> sb_was_terminated after"
    using told unfolding tells_def token_arrives_def by - (elim conjE, assumption)+
  show ?thesis
    using start(2) flags after(1,2) suspends known own detached by (intro conjI)
qed

section \<open>A teardown says what it left\<close>

lemma end_vm_report:
  assumes "end_vm opts sb w = (rep, sb', w')"
  shows "(\<forall>vm. sb_microvm sb = Some vm \<longrightarrow>
      (tr_terminate_accepted rep \<and> tr_undeleted rep = [] \<or>
       \<not> tr_terminate_accepted rep \<and> tr_undeleted rep = [vv_id vm] \<and> tr_failures rep \<noteq> []) \<and>
      sb_was_terminated sb' \<and> \<not> is_live (sb_lifecycle sb')) \<and>
    (sb_microvm sb = None \<longrightarrow> rep = empty_report \<and> sb' = sb) \<and>
    sb_image sb' = sb_image sb \<and> sb_session sb' = sb_session sb \<and> sb_torn_down sb' = sb_torn_down sb"
proof (cases "sb_microvm sb")
  case None
  with assms show ?thesis by (simp add: end_vm_def)
next
  case (Some vm)
  obtain a w1 where ct: "control_terminate (vv_id vm) w = (a, w1)" by fastforce
  consider e where "a = Inl e" | u where "a = Inr u" "to_wait opts = None"
    | u t where "a = Inr u" "to_wait opts = Some t" by (cases a; cases "to_wait opts") auto
  then show ?thesis
  proof cases
    case 1
    with assms Some ct show ?thesis by (auto simp: end_vm_def Let_def empty_report_def is_live_def)
  next
    case 2
    with assms Some ct show ?thesis by (auto simp: end_vm_def Let_def empty_report_def is_live_def)
  next
    case 3
    obtain b w2 where wt: "wait_for_state (vv_id vm) [''TERMINATED''] [] t w1 = (b, w2)" by fastforce
    from 3 assms Some ct wt show ?thesis
      by (cases b) (auto simp: end_vm_def Let_def empty_report_def is_live_def)
  qed
qed

lemma end_image_report:
  assumes "end_image opts rep sb w = (rep', sb', w')"
  shows "tr_terminate_accepted rep' = tr_terminate_accepted rep \<and>
    (\<exists>more. tr_undeleted rep' = tr_undeleted rep @ map fst more \<and>
      tr_failures rep' = tr_failures rep @ map snd more \<and>
      set (map fst more) \<subseteq> fst ` set_option (sb_image sb)) \<and>
    (\<forall>i g. to_delete_image opts \<and> sb_image sb = Some (i, g) \<longrightarrow>
      tr_image_deleted rep' = Some True \<and> \<not> sb_image_exists sb' \<or>
      tr_image_deleted rep' = Some False \<and> i \<in> set (tr_undeleted rep')) \<and>
    (sb' = sb \<or> sb' = sb\<lparr>sb_image_exists := False\<rparr>)"
proof (cases "to_delete_image opts \<and> sb_image sb \<noteq> None")
  case False
  show ?thesis
  proof (cases "to_delete_image opts")
    case True
    with False have "sb_image sb = None" by (cases "sb_image sb") simp_all
    moreover from this True assms have "rep' = rep\<lparr>tr_image_deleted := Some False\<rparr>" "sb' = sb"
      by (simp_all add: end_image_def)
    ultimately show ?thesis by (simp add: exI [of _ "[]"])
  next
    case no: False
    with assms have "rep' = rep" "sb' = sb" by (simp_all add: end_image_def)
    with no show ?thesis by (simp add: exI [of _ "[]"])
  qed
next
  case True
  then obtain i g where i: "sb_image sb = Some (i, g)" by auto
  obtain gone w1 where d: "delete_image i (to_attempts opts) (to_backoff opts) w = (gone, w1)" by fastforce
  show ?thesis
  proof (cases gone)
    case True
    with assms \<open>to_delete_image opts \<and> sb_image sb \<noteq> None\<close> i d
    have "rep' = rep\<lparr>tr_image_deleted := Some True\<rparr>" "sb' = sb\<lparr>sb_image_exists := False\<rparr>"
      by (simp_all add: end_image_def Let_def)
    then show ?thesis by (simp add: exI [of _ "[]"])
  next
    case False
    with assms \<open>to_delete_image opts \<and> sb_image sb \<noteq> None\<close> i d
    have "rep' = rep\<lparr>tr_image_deleted := Some False, tr_failures := tr_failures rep @ [ImageSurvived i],
        tr_undeleted := tr_undeleted rep @ [i]\<rparr>" "sb' = sb"
      by (simp_all add: end_image_def Let_def)
    with i show ?thesis by (simp add: exI [of _ "[(i, ImageSurvived i)]"])
  qed
qed

lemma log_group_report:
  "tr_terminate_accepted (name_log_group opts sb rep) = tr_terminate_accepted rep"
  "tr_image_deleted (name_log_group opts sb rep) = tr_image_deleted rep"
  "set (tr_undeleted (name_log_group opts sb rep)) =
     set (tr_undeleted rep) \<union> (if to_delete_log_group opts then snd ` set_option (sb_image sb) else {})"
  "tr_failures rep \<noteq> [] \<Longrightarrow> tr_failures (name_log_group opts sb rep) \<noteq> []"
  "tr_undeleted (name_log_group opts sb rep) \<noteq> [] \<Longrightarrow> tr_undeleted rep = [] \<Longrightarrow>
     tr_failures (name_log_group opts sb rep) \<noteq> []"
  by (auto simp: name_log_group_def split: option.splits if_splits)

lemma teardown_phases:
  assumes "terminate opts sb w = (rep, sb', w')" and "\<not> sb_detached sb"
  obtains rep1 sb1 w1 rep2 where
    "end_vm opts (sb\<lparr>sb_torn_down := True, sb_session := None\<rparr>) w = (rep1, sb1, w1)"
    "end_image opts rep1 sb1 w1 = (rep2, sb', w')" "sb_image sb1 = sb_image sb" "sb_image sb' = sb_image sb"
    "tr_terminate_accepted rep = tr_terminate_accepted rep1" "tr_image_deleted rep = tr_image_deleted rep2"
    "set (tr_undeleted rep) =
       set (tr_undeleted rep2) \<union> (if to_delete_log_group opts then snd ` set_option (sb_image sb) else {})"
    "tr_undeleted rep \<noteq> [] \<longrightarrow> tr_undeleted rep2 = [] \<or> tr_failures rep2 \<noteq> [] \<longrightarrow> tr_failures rep \<noteq> []"
proof -
  obtain rep1 sb1 w1 where e: "end_vm opts (sb\<lparr>sb_torn_down := True, sb_session := None\<rparr>) w = (rep1, sb1, w1)"
    by (metis prod_cases3)
  obtain rep2 sb2 w2 where d: "end_image opts rep1 sb1 w1 = (rep2, sb2, w2)" by (metis prod_cases3)
  have res: "sb' = sb2" "w' = w2" "rep = (name_log_group opts sb2 rep2)\<lparr>tr_lifecycle := Some (sb_lifecycle sb2)\<rparr>"
    using assms e d by (auto simp: terminate_def Let_def)
  have img: "sb_image sb1 = sb_image sb" "sb_image sb2 = sb_image sb"
    using end_vm_report [OF e] end_image_report [OF d] by auto
  show thesis
  proof (rule that [OF e _ img(1)])
    show "end_image opts rep1 sb1 w1 = (rep2, sb', w')" "sb_image sb' = sb_image sb" using d res img by simp_all
    show "tr_terminate_accepted rep = tr_terminate_accepted rep1" "tr_image_deleted rep = tr_image_deleted rep2"
      using end_image_report [OF d] by (simp_all add: res(3) log_group_report)
    show "set (tr_undeleted rep) =
        set (tr_undeleted rep2) \<union> (if to_delete_log_group opts then snd ` set_option (sb_image sb) else {})"
      by (simp add: res(3) log_group_report(3) img(2))
    show "tr_undeleted rep \<noteq> [] \<longrightarrow> tr_undeleted rep2 = [] \<or> tr_failures rep2 \<noteq> [] \<longrightarrow> tr_failures rep \<noteq> []"
      using log_group_report(4) [of rep2 opts sb2] log_group_report(5) [of opts sb2 rep2] by (auto simp: res(3))
  qed
qed

text \<open>The VM, the image and the log group: removed, or named among what is left.\<close>

lemma teardown_names:
  assumes "terminate opts sb w = (rep, sb', w')" and "\<not> sb_detached sb"
  shows "\<forall>vm. sb_microvm sb = Some vm \<longrightarrow> tr_terminate_accepted rep \<or> vv_id vm \<in> set (tr_undeleted rep)"
    and "\<forall>i g. sb_image sb = Some (i, g) \<longrightarrow>
      (to_delete_image opts \<longrightarrow>
        tr_image_deleted rep = Some True \<and> \<not> sb_image_exists sb' \<or>
        tr_image_deleted rep = Some False \<and> i \<in> set (tr_undeleted rep)) \<and>
      (to_delete_log_group opts \<longrightarrow> g \<in> set (tr_undeleted rep))"
proof -
  obtain rep1 sb1 w1 rep2 where P: "end_vm opts (sb\<lparr>sb_torn_down := True, sb_session := None\<rparr>) w = (rep1, sb1, w1)"
    "end_image opts rep1 sb1 w1 = (rep2, sb', w')" "sb_image sb1 = sb_image sb"
    "tr_terminate_accepted rep = tr_terminate_accepted rep1" "tr_image_deleted rep = tr_image_deleted rep2"
    "set (tr_undeleted rep) =
       set (tr_undeleted rep2) \<union> (if to_delete_log_group opts then snd ` set_option (sb_image sb) else {})"
    by (rule teardown_phases [OF assms])
  note E = end_vm_report [OF P(1)]
  note D = end_image_report [OF P(2)]
  have more: "set (tr_undeleted rep1) \<subseteq> set (tr_undeleted rep2)" using D by auto
  show "\<forall>vm. sb_microvm sb = Some vm \<longrightarrow> tr_terminate_accepted rep \<or> vv_id vm \<in> set (tr_undeleted rep)"
    using E P(4,6) more by auto
  show "\<forall>i g. sb_image sb = Some (i, g) \<longrightarrow>
      (to_delete_image opts \<longrightarrow>
        tr_image_deleted rep = Some True \<and> \<not> sb_image_exists sb' \<or>
        tr_image_deleted rep = Some False \<and> i \<in> set (tr_undeleted rep)) \<and>
      (to_delete_log_group opts \<longrightarrow> g \<in> set (tr_undeleted rep))"
    using D P(3,5,6) by auto
qed

text \<open>
  C32: a teardown accounts for everything it was asked to remove. The VM's termination was accepted, or
  its id is among what is left; the image is gone, or it is among what is left; a log group is always
  named. Nothing else is named, and whatever is left comes with a failure that says why. Afterwards the
  handle holds no session, is not live, and its drop warns of nothing.
\<close>

theorem teardown_accounts_for_everything:
  assumes "terminate opts sb w = (rep, sb', w')" and "\<not> sb_detached sb"
  shows "(\<forall>vm. sb_microvm sb = Some vm \<longrightarrow>
      tr_terminate_accepted rep \<or> vv_id vm \<in> set (tr_undeleted rep)) \<and>
    (\<forall>i g. sb_image sb = Some (i, g) \<longrightarrow>
      (to_delete_image opts \<longrightarrow>
        tr_image_deleted rep = Some True \<and> \<not> sb_image_exists sb' \<or>
        tr_image_deleted rep = Some False \<and> i \<in> set (tr_undeleted rep)) \<and>
      (to_delete_log_group opts \<longrightarrow> g \<in> set (tr_undeleted rep))) \<and>
    set (tr_undeleted rep) \<subseteq> vv_id ` set_option (sb_microvm sb) \<union>
      fst ` set_option (sb_image sb) \<union> snd ` set_option (sb_image sb) \<and>
    (leaked rep \<longrightarrow> tr_failures rep \<noteq> []) \<and>
    sb_session sb' = None \<and> drop_warning sb' = None \<and>
    (sb_microvm sb \<noteq> None \<longrightarrow> \<not> is_live (sb_lifecycle sb'))"
proof -
  obtain rep1 sb1 w1 rep2 where P: "end_vm opts (sb\<lparr>sb_torn_down := True, sb_session := None\<rparr>) w = (rep1, sb1, w1)"
    "end_image opts rep1 sb1 w1 = (rep2, sb', w')" "sb_image sb1 = sb_image sb"
    "set (tr_undeleted rep) =
       set (tr_undeleted rep2) \<union> (if to_delete_log_group opts then snd ` set_option (sb_image sb) else {})"
    "tr_undeleted rep \<noteq> [] \<longrightarrow> tr_undeleted rep2 = [] \<or> tr_failures rep2 \<noteq> [] \<longrightarrow> tr_failures rep \<noteq> []"
    by (rule teardown_phases [OF assms])
  note E = end_vm_report [OF P(1)]
  note D = end_image_report [OF P(2)]
  obtain xs where xs: "tr_undeleted rep2 = tr_undeleted rep1 @ map fst xs"
    "tr_failures rep2 = tr_failures rep1 @ map snd xs" "set (map fst xs) \<subseteq> fst ` set_option (sb_image sb)"
    using D P(3) by auto
  have mine: "set (tr_undeleted rep1) \<subseteq> vv_id ` set_option (sb_microvm sb)"
    using E by (cases "sb_microvm sb") (auto simp: empty_report_def)
  have "tr_undeleted rep2 = [] \<or> tr_failures rep2 \<noteq> []"
    using E xs(1,2) by (cases "sb_microvm sb") (auto simp: empty_report_def)
  then have "leaked rep \<longrightarrow> tr_failures rep \<noteq> []" using P(5) by (simp add: leaked_def)
  moreover have "sb_session sb' = None \<and> sb_torn_down sb'" using E D by auto
  moreover have "set (tr_undeleted rep) \<subseteq> vv_id ` set_option (sb_microvm sb) \<union>
      fst ` set_option (sb_image sb) \<union> snd ` set_option (sb_image sb)"
    using P(4) mine xs(1,3) by auto
  moreover have "sb_microvm sb \<noteq> None \<longrightarrow> \<not> is_live (sb_lifecycle sb')" using E D by auto
  ultimately show ?thesis using teardown_names [OF assms] by (simp add: drop_warning_def)
qed

section \<open>A resume keeps the agent token and drops the proxy's\<close>

text \<open>
  a resume that succeeds leaves the handle RUNNING, with the session's agent token as it was
  (STATE-8), its proxy token dropped (STATE-7) and its endpoint the one the service now names. It was
  asked of a VM the handle or the service held as SUSPENDED, and the service answered RUNNING.
\<close>

theorem resume_keeps_agent_token:
  assumes "resume sb w = (Inr (), sb', w')"
  shows "sb_lifecycle sb' = LRunning \<and> sb_lifecycle sb \<in> {LRunning, LSuspended} \<and>
    (\<exists>s s' vm. sb_session sb = Some s \<and> sb_session sb' = Some s' \<and> sb_microvm sb' = Some vm \<and>
      vv_state vm = ''RUNNING'' \<and>
      cs_agent_token s' = cs_agent_token s \<and> \<not> cs_proxy_cached s' \<and> cs_endpoint s' = vv_endpoint vm)"
proof -
  obtain vm where vm: "sb_microvm sb = Some vm" "\<not> sb_detached sb" "\<not> sb_was_terminated sb"
    "sb_lifecycle sb \<noteq> LTerminated"
    using assms by (auto simp: resume_def split: if_splits option.splits)
  let ?i = "vv_id vm"
  obtain a sb1 w1 where rs: "refresh_state ?i sb w = (a, sb1, w1)" by (metis prod_cases3)
  have al: "a = Inr LSuspended" using assms vm rs by (cases a) (auto simp: resume_def split: if_splits)
  obtain c w2 where cr: "control_resume ?i w1 = (c, w2)" by fastforce
  obtain u where u: "c = Inr u" using assms vm rs al cr by (cases c) (simp_all add: resume_def)
  have fin: "finish_resume ?i sb1 w2 = (Inr (), sb', w')"
    using assms vm rs al cr u by (simp add: resume_def)
  have one: "sb_session sb1 = sb_session sb \<and> sb_lifecycle sb \<in> {LRunning, LSuspended}"
    using rs al by (auto simp: refresh_state_def Let_def split: if_splits prod.splits sum.splits option.splits)
  obtain b w3 where wt: "wait_for_state ?i [''RUNNING''] DEAD_STATES LIFECYCLE_TIMEOUT w2 = (b, w3)" by fastforce
  obtain run where run: "b = Inr run" using fin wt by (cases b) (simp_all add: finish_resume_def)
  obtain s where s: "sb_session sb1 = Some s"
    using fin wt run by (cases "sb_session sb1") (simp_all add: finish_resume_def)
  have "vv_state run = ''RUNNING''" using wait_wanted wt run by fastforce
  moreover have "sb' = sb1\<lparr>sb_lifecycle := LRunning, sb_microvm := Some run,
      sb_session := Some (s\<lparr>cs_endpoint := vv_endpoint run, cs_proxy_cached := False\<rparr>)\<rparr>"
    using fin wt run s by (auto simp: finish_resume_def Let_def)
  moreover have "sb_session sb = Some s" using one s by simp
  ultimately show ?thesis using one by simp
qed

section \<open>One life, run through\<close>

definition answering :: "string \<Rightarrow> service_moment" where
  "answering st =
     \<lparr>sm_arn = Inr ''arn:image'', sm_launch = Inr \<lparr>vv_id = ''vm-1'', vv_endpoint = [], vv_state = ''PENDING'', vv_max_idle = None\<rparr>,
      sm_vm = Inr \<lparr>vv_id = ''vm-1'', vv_endpoint = ''e1'', vv_state = st, vv_max_idle = None\<rparr>,
      sm_done = Inr (), sm_deleted = False, sm_image = Inr (''im-1'', ''/logs/im-1''), sm_ready = Inr (),
      sm_client = None, sm_took = 1, sm_late = 0\<rparr>"

definition life_world :: plane_world where
  "life_world =
     \<lparr>wd_moments = map answering
        [''PENDING'', ''PENDING'', ''PENDING'', ''RUNNING'', ''RUNNING'', ''RUNNING'', ''SUSPENDED'',
         ''RUNNING'', ''RUNNING'', ''TERMINATING''],
      wd_now = 0, wd_calls = []\<rparr>"

definition life_request :: run_request where
  "life_request =
     \<lparr>rr_image = None, rr_client_token = None, rr_agent_token = None, rr_identity = False,
      rr_suspended_sec = 60, rr_max_idle_sec = 60, rr_wait = True, rr_ready_timeout = 60 * NS,
      rr_posture = Inr (), rr_minted = Inr ''token'', rr_identity_minted = Inr (), rr_payload = Inr (),
      rr_connectors = Inr ()\<rparr>"

lemmas life_simps = life_world_def life_request_def answering_def new_sandbox_def build_image_def
  run_sandbox_def launch_checks_def do_call_def accept_launch_def wait_until_running_def
  wait_for_sandbox_launch_def launch_loop.simps state_wait_loop.simps get_microvm_def on_vm_def valid_identifier_def
  IDENTIFIER_LIMIT_def DEAD_STATES_def TERMINAL_STATES_def nap_for_def poll_gap_def LIFECYCLE_POLL_def NS_def
  mark_running_def ensure_session_def build_session_def await_daemon_def suspend_def control_suspend_def
  wait_for_state_def SUSPEND_WANTED_def LIFECYCLE_TIMEOUT_def Let_def

definition life_ops :: "sandbox_op list" where
  "life_ops = [OpBuildImage, OpRun life_request, OpSuspend, OpResume, OpTerminate default_teardown_opts]"

lemmas end_simps = resume_def refresh_state_def control_resume_def finish_resume_def terminate_def end_vm_def
  control_terminate_def end_image_def name_log_group_def delete_image_def default_teardown_opts_def
  empty_report_def

lemma life_calls:
  "map (\<lambda>(b, calls, h, a). (sb_lifecycle b, calls, sb_lifecycle a)) (sandbox_history life_ops new_sandbox life_world) =
     [(LPending, [BuildImage], LPending),
      (LPending, [ResolveImage, RunMicrovm, GetMicrovm ''vm-1'', AwaitDaemon], LRunning),
      (LRunning, [SuspendMicrovm ''vm-1'', GetMicrovm ''vm-1''], LSuspended),
      (LSuspended, [ResumeMicrovm ''vm-1'', GetMicrovm ''vm-1''], LRunning),
      (LRunning, [TerminateMicrovm ''vm-1''], LTerminating)]"
  by (simp add: life_ops_def life_simps end_simps new_calls_def)

text \<open>The second step of that life installs the token, on the answer RUNNING.\<close>

lemma life_installs:
  "map (\<lambda>(b, calls, h, a). (sb_token_installed b, sb_token_installed a)) (sandbox_history life_ops new_sandbox life_world) =
     [(False, False), (False, True), (True, True), (True, True), (True, True)]"
  by (simp add: life_ops_def life_simps end_simps)

theorem sandbox_keeps_state_rules_witness:
  "\<exists>before calls answers after.
     sandbox_history life_ops new_sandbox life_world ! 1 = (before, calls, answers, after) \<and>
     \<not> sb_token_installed before \<and> sb_token_installed after \<and> sb_lifecycle after = LRunning \<and>
     said ''RUNNING'' answers \<and> sb_bootstrap_count after = sb_bootstrap_count before + 1"
proof -
  let ?h = "sandbox_history life_ops new_sandbox life_world"
  have len: "length ?h = 5" using arg_cong [OF life_calls, of length] by simp
  obtain b cs h a where e: "?h ! 1 = (b, cs, h, a)" by (metis prod_cases4)
  have split: "?h = take 1 ?h @ (b, cs, h, a) # drop 2 ?h"
    using id_take_nth_drop [of 1 ?h] len e by (simp add: numeral_2_eq_2)
  have "(sb_token_installed b, sb_token_installed a) = (False, True)"
    using arg_cong [OF life_installs, of "\<lambda>l. l ! 1"] e len by simp
  then have flags: "\<not> sb_token_installed b" "sb_token_installed a" by simp_all
  note rules = sandbox_keeps_state_rules [OF disjI1 [OF conjI [OF refl refl]] split, of "''vm-1''"]
  have "sb_lifecycle a = LRunning \<and> said ''RUNNING'' h" using rules flags by blast
  moreover have "sb_bootstrap_count a = sb_bootstrap_count b + 1"
    using conjunct1 [OF conjunct2 [OF conjunct2 [OF conjunct2 [OF rules]]]] flags by simp
  ultimately show ?thesis using e flags by blast
qed

definition held_vm :: "vm_lifecycle \<Rightarrow> sandbox" where
  "held_vm l =
     (adopted_sandbox \<lparr>vv_id = ''vm-1'', vv_endpoint = ''e0'', vv_state = lifecycle_as_str l, vv_max_idle = None\<rparr>
        l ''token'')
     \<lparr>sb_image := Some (''im-1'', ''/logs/im-1''),
      sb_session := Some \<lparr>cs_endpoint = ''e0'', cs_agent_token = ''token'', cs_proxy_cached = True\<rparr>\<rparr>"

definition thorough :: teardown_opts where
  "thorough = \<lparr>to_delete_image = True, to_delete_log_group = True, to_attempts = 2, to_backoff = NS, to_wait = None\<rparr>"

definition one_answer :: plane_world where
  "one_answer = \<lparr>wd_moments = [answering ''TERMINATING''], wd_now = 0, wd_calls = []\<rparr>"

theorem teardown_accounts_for_everything_witness:
  "\<not> sb_detached (held_vm LRunning) \<and>
   tr_terminate_accepted (fst (terminate thorough (held_vm LRunning) one_answer)) \<and>
   tr_undeleted (fst (terminate thorough (held_vm LRunning) one_answer)) = [''im-1'', ''/logs/im-1''] \<and>
   tr_failures (fst (terminate thorough (held_vm LRunning) one_answer)) \<noteq> [] \<and>
   drop_warning (fst (snd (terminate thorough (held_vm LRunning) one_answer))) = None"
proof -
  let ?t = "terminate thorough (held_vm LRunning) one_answer"
  have held: "\<not> sb_detached (held_vm LRunning)"
    by (simp add: held_vm_def adopted_sandbox_def new_sandbox_def)
  have un: "tr_terminate_accepted (fst ?t)" "tr_undeleted (fst ?t) = [''im-1'', ''/logs/im-1'']"
    by (simp_all add: held_vm_def adopted_sandbox_def thorough_def one_answer_def life_simps end_simps
        numeral_2_eq_2)
  then have "leaked (fst ?t)" by (simp add: leaked_def)
  with held un teardown_accounts_for_everything [of thorough "held_vm LRunning" one_answer "fst ?t"
      "fst (snd ?t)" "snd (snd ?t)"] show ?thesis by simp
qed

definition two_answers :: plane_world where
  "two_answers = \<lparr>wd_moments = map answering [''SUSPENDED'', ''RUNNING''], wd_now = 0, wd_calls = []\<rparr>"

theorem resume_keeps_agent_token_witness:
  "fst (resume (held_vm LSuspended) two_answers) = Inr () \<and>
   (\<exists>s vm. sb_session (fst (snd (resume (held_vm LSuspended) two_answers))) = Some s \<and>
     sb_microvm (fst (snd (resume (held_vm LSuspended) two_answers))) = Some vm \<and>
     vv_state vm = ''RUNNING'' \<and> cs_agent_token s = ''token'' \<and> \<not> cs_proxy_cached s \<and> vv_endpoint vm = ''e1'')"
proof -
  let ?r = "resume (held_vm LSuspended) two_answers"
  have ok: "fst ?r = Inr ()" and vm: "map_option vv_endpoint (sb_microvm (fst (snd ?r))) = Some ''e1''"
    by (simp_all add: held_vm_def adopted_sandbox_def two_answers_def life_simps end_simps)
  have pair: "?r = (Inr (), fst (snd ?r), snd (snd ?r))" using ok by (cases ?r) simp
  have "map_option cs_agent_token (sb_session (held_vm LSuspended)) = Some ''token''"
    by (simp add: held_vm_def)
  with resume_keeps_agent_token [OF pair] ok vm show ?thesis by auto
qed

section \<open>Two gaps of the handle\<close>

text \<open>
  A teardown before any launch still marks the handle torn down, and nothing takes the mark back: a VM
  launched afterwards is RUNNING, its drop warns of nothing, and it cannot be handed off.
\<close>

lemma teardown_before_launch_silences_drop:
  "case sandbox_step (OpRun life_request)
      (fst (sandbox_step OpBuildImage (fst (sandbox_step (OpTerminate default_teardown_opts) new_sandbox life_world)) life_world))
      (snd (sandbox_step OpBuildImage new_sandbox life_world)) of
     (sb, w) \<Rightarrow> sb_lifecycle sb = LRunning \<and> map_option vv_id (sb_microvm sb) = Some ''vm-1'' \<and>
       drop_warning sb = None \<and> fst (detach sb) = Inl Precondition"
  by (simp add: life_simps end_simps drop_warning_def detach_def)

text \<open>
  A suspend the service accepted whose wait then failed leaves the handle SUSPENDING, and from there
  neither a suspend nor a resume nor a wait asks the service anything: only a teardown or a hand-off
  is left.
\<close>

lemma suspending_handle_is_stuck:
  assumes "sb_lifecycle sb = LSuspending" "sb_microvm sb = Some vm" "\<not> sb_detached sb" "sb_ok sb"
  shows "suspend sb w = (Inl InvalidArg, sb, w)" "resume sb w = (Inl InvalidArg, sb, w)"
    "wait_until_running t sb w = (Inl InvalidArg, sb, w)" "wait_until_ready t sb w = (Inl InvalidArg, sb, w)"
  using assms
  by (simp_all add: suspend_def resume_def refresh_state_def wait_until_running_def wait_until_ready_def sb_ok_def)

lemma failed_wait_leaves_suspending:
  assumes "suspend (held_vm LRunning) one_answer = (r, sb', w')"
  shows "r = Inl Retryable \<and> sb_lifecycle sb' = LSuspending"
  using assms by (auto simp: held_vm_def adopted_sandbox_def one_answer_def life_simps)

end
