(* ===== verification/RunLedger.thy ===== *)
theory RunLedger
  imports Sandbox "HOL-Library.AList" "HOL-Library.List_Lexorder" "HOL-Library.Char_ord"
begin

text \<open>
  What one invocation created, kept on disk: \<open>crates/microvms-app/src/ledger.rs\<close> over the file store of
  \<open>crates/microvms-edges/src/run_store.rs\<close>, and the two teardowns of the command line that narrow it,
  \<open>tear_down\<close> and \<open>terminate\<close> of \<open>crates/microvms-cli/src/commands/lifecycle.rs\<close>. A document of the store
  is whatever the JSON writer makes of a record; a write or a removal may be refused, and is one step.
\<close>

section \<open>The store\<close>

record run_record =
  rd_run_id :: string
  rd_region :: string
  rd_image_identifier :: "string option"
  rd_image_name :: "string option"
  rd_microvm_id :: "string option"
  rd_leaked :: "string list"
  rd_vm_log_group :: "string option"

record 'j ledger_codec =
  lc_encode :: "run_record \<Rightarrow> 'j"
  lc_decode :: "'j \<Rightarrow> run_record option"

text \<open>The documents by key, each its text if it can be read, and what the file system will refuse.\<close>

record 'j run_store =
  rs_docs :: "(string \<times> 'j option) list"
  rs_refusals :: "bool list"

definition check_component :: "string \<Rightarrow> bool" where
  "check_component v \<longleftrightarrow>
     v \<noteq> [] \<and> v \<noteq> ''.'' \<and> v \<noteq> ''..'' \<and>
     list_all (\<lambda>c. c \<noteq> CHR ''/'' \<and> c \<noteq> CHR 0x5C \<and> c \<noteq> CHR '':'') v"

definition write_refused :: "'j run_store \<Rightarrow> bool" where
  "write_refused st \<longleftrightarrow> (case rs_refusals st of [] \<Rightarrow> False | b # _ \<Rightarrow> b)"

definition write_ledger :: "string \<Rightarrow> 'j \<Rightarrow> 'j run_store \<Rightarrow> bool \<times> 'j run_store" where
  "write_ledger key doc st =
     (if \<not> check_component key then (False, st)
      else
        (let st1 = st\<lparr>rs_refusals := tl (rs_refusals st)\<rparr> in
         if write_refused st then (False, st1)
         else (True, st1\<lparr>rs_docs := AList.update key (Some doc) (rs_docs st)\<rparr>)))"

definition remove_ledger :: "string \<Rightarrow> 'j run_store \<Rightarrow> bool \<times> 'j run_store" where
  "remove_ledger key st =
     (if \<not> check_component key then (False, st)
      else
        (let st1 = st\<lparr>rs_refusals := tl (rs_refusals st)\<rparr> in
         if write_refused st \<or> map_of (rs_docs st) key = None then (False, st1)
         else (True, st1\<lparr>rs_docs := AList.delete key (rs_docs st)\<rparr>)))"

section \<open>One run's ledger\<close>

record run_ledger =
  lg_record :: run_record
  lg_key :: string

definition from_store :: "string \<Rightarrow> string \<Rightarrow> run_ledger" where
  "from_store region run_id =
     \<lparr>lg_record = \<lparr>rd_run_id = run_id, rd_region = region, rd_image_identifier = None, rd_image_name = None,
                   rd_microvm_id = None, rd_leaked = [], rd_vm_log_group = None\<rparr>,
      lg_key = run_id\<rparr>"

definition flush_ledger :: "'j ledger_codec \<Rightarrow> run_ledger \<Rightarrow> 'j run_store \<Rightarrow> 'j run_store" where
  "flush_ledger J l st = snd (write_ledger (lg_key l) (lc_encode J (lg_record l)) st)"

definition rewrite :: "'j ledger_codec \<Rightarrow> (run_record \<Rightarrow> run_record) \<Rightarrow> run_ledger \<Rightarrow> 'j run_store \<Rightarrow>
    run_ledger \<times> 'j run_store" where
  "rewrite J f l st = (let l1 = l\<lparr>lg_record := f (lg_record l)\<rparr> in (l1, flush_ledger J l1 st))"

definition record_image where
  "record_image J i n l st = rewrite J (\<lambda>r. r\<lparr>rd_image_identifier := Some i, rd_image_name := Some n\<rparr>) l st"

definition record_vm_log_group where
  "record_vm_log_group J g l st = rewrite J (\<lambda>r. r\<lparr>rd_vm_log_group := Some g\<rparr>) l st"

definition record_microvm where
  "record_microvm J i l st = rewrite J (\<lambda>r. r\<lparr>rd_microvm_id := Some i\<rparr>) l st"

definition option_list :: "'a option \<Rightarrow> 'a list" where
  "option_list x = (case x of None \<Rightarrow> [] | Some y \<Rightarrow> [y])"

definition mark_outstanding where
  "mark_outstanding J l st =
     rewrite J (\<lambda>r. r\<lparr>rd_leaked := option_list (rd_microvm_id r) @ option_list (rd_image_identifier r)\<rparr>) l st"

definition mark_deleted where
  "mark_deleted J still l st = rewrite J (\<lambda>r. r\<lparr>rd_leaked := still\<rparr>) l st"

definition clear_ledger :: "run_ledger \<Rightarrow> 'j run_store \<Rightarrow> 'j run_store" where
  "clear_ledger l st = (if rd_leaked (lg_record l) \<noteq> [] then st else snd (remove_ledger (lg_key l) st))"

definition open_all_for_vm :: "'j ledger_codec \<Rightarrow> string \<Rightarrow> 'j run_store \<Rightarrow> run_ledger list" where
  "open_all_for_vm J vm st =
     List.map_filter
       (\<lambda>(key, doc). case Option.bind doc (lc_decode J) of
          None \<Rightarrow> None
        | Some r \<Rightarrow> if rd_microvm_id r = Some vm then Some \<lparr>lg_record = r, lg_key = key\<rparr> else None)
       (rev (sort_key fst (rs_docs st)))"

definition legal_run_id :: "string \<Rightarrow> bool" where
  "legal_run_id s \<longleftrightarrow>
     s \<noteq> [] \<and>
     list_all (\<lambda>c. CHR ''0'' \<le> c \<and> c \<le> CHR ''9'' \<or> CHR ''A'' \<le> c \<and> c \<le> CHR ''Z'' \<or>
                   CHR ''a'' \<le> c \<and> c \<le> CHR ''z'' \<or> c = CHR ''-'' \<or> c = CHR ''_'') s"

definition prune_ledger :: "string \<Rightarrow> 'j run_store \<Rightarrow> bool \<times> 'j run_store" where
  "prune_ledger run_id st = (if legal_run_id run_id then remove_ledger run_id st else (False, st))"

datatype ledger_row = Readable run_record | Unreadable string

definition read_all :: "'j ledger_codec \<Rightarrow> 'j run_store \<Rightarrow> ledger_row list" where
  "read_all J st =
     map (\<lambda>(key, doc). case Option.bind doc (lc_decode J) of Some r \<Rightarrow> Readable r | None \<Rightarrow> Unreadable key)
       (sort_key fst (rs_docs st))"

section \<open>The teardown of a run\<close>

definition run_teardown_opts :: "bool \<Rightarrow> teardown_opts" where
  "run_teardown_opts del =
     (if del then default_teardown_opts\<lparr>to_delete_image := True, to_delete_log_group := True\<rparr>
      else default_teardown_opts)"

definition still_owed :: "teardown_report \<Rightarrow> string option \<Rightarrow> string list" where
  "still_owed rep vm =
     (if tr_terminate_accepted rep
      then (case vm of Some i \<Rightarrow> filter (\<lambda>x. x \<noteq> i) (tr_undeleted rep) | None \<Rightarrow> tr_undeleted rep)
      else tr_undeleted rep)"

text \<open>Besides its results, the store as it is while the calls are made, after the narrowing, and at the end.\<close>

definition tear_down where
  "tear_down J keep del l st sb w =
     (let (l1, st1) = mark_outstanding J l st in
      if keep then (empty_report, l1, [st1], sb, w)
      else
        (let (rep, sb1, w1) = terminate (run_teardown_opts del) sb w;
             (l2, st2) = mark_deleted J (still_owed rep (rd_microvm_id (lg_record l1))) l1 st1
         in (rep, l2, [st1, st2, clear_ledger l2 st2], sb1, w1)))"

section \<open>The terminate command\<close>

record terminate_args =
  ta_delete_image :: bool
  ta_image :: "string option"
  ta_image_name :: "string option"
  ta_wait :: "nat option"

definition BUILD_LOG_GROUP_PREFIX :: string where "BUILD_LOG_GROUP_PREFIX = ''/aws/lambda-microvms''"

definition first_image :: "run_ledger list \<Rightarrow> string option" where
  "first_image rs = (case rs of [] \<Rightarrow> None | r # _ \<Rightarrow> rd_image_identifier (lg_record r))"

definition image_asked :: "terminate_args \<Rightarrow> run_ledger list \<Rightarrow> string option" where
  "image_asked a rs = (case ta_image a of Some i \<Rightarrow> Some i | None \<Rightarrow> first_image rs)"

definition name_asked :: "terminate_args \<Rightarrow> run_ledger list \<Rightarrow> string option" where
  "name_asked a rs =
     (case ta_image_name a of
        Some n \<Rightarrow> Some n
      | None \<Rightarrow>
          (case rs of
             [] \<Rightarrow> None
           | r # _ \<Rightarrow>
               if rd_image_identifier (lg_record r) = image_asked a rs then rd_image_name (lg_record r) else None))"

definition records_name_image :: "string option list \<Rightarrow> string option \<Rightarrow> bool" where
  "records_name_image images i \<longleftrightarrow> i \<noteq> None \<and> i \<in> set images"

text \<open>What one record is narrowed to.\<close>

definition record_owes :: "terminate_args \<Rightarrow> string \<Rightarrow> run_ledger list \<Rightarrow> string list \<Rightarrow> string list \<Rightarrow>
    nat \<Rightarrow> run_ledger \<Rightarrow> string list" where
  "record_owes a vm rs lost groups n l =
     (let asked = image_asked a rs in
      (if vm \<in> set lost then [vm] else []) @
      (case rd_image_identifier (lg_record l) of
         None \<Rightarrow> []
       | Some i \<Rightarrow> if ta_delete_image a \<and> asked = Some i \<and> i \<notin> set lost then [] else [i]) @
      (if rd_image_identifier (lg_record l) = asked \<or>
          n = 0 \<and> \<not> records_name_image (map (rd_image_identifier \<circ> lg_record) rs) asked
       then groups else []))"

fun retire_records :: "'j ledger_codec \<Rightarrow> (nat \<Rightarrow> run_ledger \<Rightarrow> string list) \<Rightarrow> nat \<Rightarrow> run_ledger list \<Rightarrow>
    'j run_store \<Rightarrow> 'j run_store" where
  "retire_records J owes n [] st = st"
| "retire_records J owes n (l # ls) st =
     (let (l1, st1) = mark_deleted J (owes n l) l st in
      retire_records J owes (Suc n) ls (clear_ledger l1 st1))"

text \<open>The VM: what is lost of it, and the world its wait leaves.\<close>

definition end_the_vm :: "nat option \<Rightarrow> string \<Rightarrow> plane_world \<Rightarrow> string list \<times> plane_world" where
  "end_the_vm wait vm w =
     (case control_terminate vm w of
        (Inl _, w1) \<Rightarrow> ([vm], w1)
      | (Inr _, w1) \<Rightarrow>
          (case wait of
             Some t \<Rightarrow> ([], snd (wait_for_state vm [''TERMINATED''] [] t w1))
           | None \<Rightarrow> ([], w1)))"

definition terminate_command ::
    "'j ledger_codec \<Rightarrow> terminate_args \<Rightarrow> string \<Rightarrow> 'j run_store \<Rightarrow> plane_world \<Rightarrow>
     (error_kind + string list \<times> string list) \<times> 'j run_store \<times> plane_world" where
  "terminate_command J a vm st w =
     (let rs = open_all_for_vm J vm st; asked = image_asked a rs in
      if ta_delete_image a \<and> asked = None then (Inl InvalidArg, st, w)
      else
        (let (vm_lost, w2) = end_the_vm (ta_wait a) vm w;
             (gone, w3) = (if ta_delete_image a then delete_image (the asked) 20 (15 * NS) w2 else (True, w2));
             lost = vm_lost @ (if gone then [] else [the asked]);
             groups = (if ta_delete_image a
                       then map (\<lambda>n. BUILD_LOG_GROUP_PREFIX @ ''/'' @ n) (option_list (name_asked a rs)) else [])
         in (Inr (lost, groups), retire_records J (record_owes a vm rs lost groups) 0 rs st, w3)))"

section \<open>What the store holds afterwards\<close>

definition names_in :: "'j ledger_codec \<Rightarrow> 'j run_store \<Rightarrow> string \<Rightarrow> string \<Rightarrow> bool" where
  "names_in J st key x \<longleftrightarrow>
     (case Option.bind (map_of (rs_docs st) key) (\<lambda>doc. Option.bind doc (lc_decode J)) of
        None \<Rightarrow> False
      | Some r \<Rightarrow> x \<in> set (rd_leaked r))"

definition reads_back :: "'j ledger_codec \<Rightarrow> bool" where
  "reads_back J \<longleftrightarrow> (\<forall>r. lc_decode J (lc_encode J r) = Some r)"

text \<open>A store that refuses nothing, and a key that names one file.\<close>

definition accepting :: "'j run_store \<Rightarrow> bool" where
  "accepting st \<longleftrightarrow> rs_refusals st = []"

lemma write_accepted:
  assumes "accepting st" "check_component key"
  shows "write_ledger key d st = (True, st\<lparr>rs_docs := AList.update key (Some d) (rs_docs st)\<rparr>)"
  using assms by (cases st) (simp add: write_ledger_def accepting_def write_refused_def)

lemma removed_docs:
  assumes "accepting st" "check_component key"
  shows "map_of (rs_docs (snd (remove_ledger key st))) k = (if k = key then None else map_of (rs_docs st) k)"
    and "accepting (snd (remove_ledger key st))"
  using assms
  by (auto simp: remove_ledger_def accepting_def write_refused_def Let_def delete_conv' )

lemma rewritten:
  assumes "accepting st" "check_component (lg_key l)" "rewrite J f l st = (l', st')"
  shows "l' = l\<lparr>lg_record := f (lg_record l)\<rparr>" "accepting st'"
    "map_of (rs_docs st') k = (if k = lg_key l then Some (Some (lc_encode J (f (lg_record l)))) else map_of (rs_docs st) k)"
  using assms write_accepted [OF assms(1,2), of "lc_encode J (f (lg_record l))"]
  by (auto simp: rewrite_def flush_ledger_def accepting_def Let_def update_conv')

lemma cleared:
  assumes "accepting st" "check_component (lg_key l)"
  shows "map_of (rs_docs (clear_ledger l st)) k =
      (if k = lg_key l \<and> rd_leaked (lg_record l) = [] then None else map_of (rs_docs st) k)"
    and "accepting (clear_ledger l st)"
  using removed_docs [OF assms] assms(1) by (auto simp: clear_ledger_def)

text \<open>Narrowing one record and clearing it: what is left under its key, and nothing else moves.\<close>

lemma narrowed:
  assumes "accepting st" "check_component (lg_key l)" "reads_back J" "mark_deleted J still l st = (l', st')"
  shows "accepting st'" "accepting (clear_ledger l' st')"
    "rd_leaked (lg_record l') = still" "lg_key l' = lg_key l"
    "names_in J st' (lg_key l) x \<longleftrightarrow> x \<in> set still"
    "names_in J (clear_ledger l' st') (lg_key l) x \<longleftrightarrow> x \<in> set still"
    "map_of (rs_docs (clear_ledger l' st')) (lg_key l) = None \<longleftrightarrow> still = []"
    "k \<noteq> lg_key l \<Longrightarrow> map_of (rs_docs (clear_ledger l' st')) k = map_of (rs_docs st) k"
proof -
  note R = rewritten [OF assms(1,2) assms(4) [unfolded mark_deleted_def]]
  have key: "check_component (lg_key l')" using assms(2) R(1) by simp
  note C = cleared [OF R(2) key]
  have f: "lg_key l' = lg_key l" "rd_leaked (lg_record l') = still" using R(1) by simp_all
  show "accepting st'" using R(2) .
  show "accepting (clear_ledger l' st')" using C(2) .
  show "rd_leaked (lg_record l') = still" "lg_key l' = lg_key l" using R(1) by simp_all
  show "names_in J st' (lg_key l) x \<longleftrightarrow> x \<in> set still"
    using assms(3) by (simp add: names_in_def R(3) reads_back_def)
  show "names_in J (clear_ledger l' st') (lg_key l) x \<longleftrightarrow> x \<in> set still"
    using assms(3) by (simp add: names_in_def C(1) f R(3) reads_back_def)
  show "map_of (rs_docs (clear_ledger l' st')) (lg_key l) = None \<longleftrightarrow> still = []"
    by (simp add: C(1) f R(3))
  show "k \<noteq> lg_key l \<Longrightarrow> map_of (rs_docs (clear_ledger l' st')) k = map_of (rs_docs st) k"
    by (simp add: C(1) f R(3))
qed

section \<open>A run's teardown\<close>

text \<open>
  What a teardown leaves, by the service's answers alone: the VM unless its termination was accepted,
  the image it was asked to delete unless one of the attempts deleted it, and that image's log group.
\<close>

definition left_behind :: "bool \<Rightarrow> sandbox \<Rightarrow> plane_world \<Rightarrow> string list" where
  "left_behind del sb w =
     (let (vms, w1) =
            (case sb_microvm sb of
               None \<Rightarrow> ([], w)
             | Some vm \<Rightarrow>
                 (let (answer, w1) = control_terminate (vv_id vm) w
                  in (if answer = Inr () then [] else [vv_id vm], w1)))
      in vms @
         (case sb_image sb of
            Some (i, g) \<Rightarrow>
              if del then (if fst (delete_image i 20 (15 * NS) w1) then [] else [i]) @ [g] else []
          | None \<Rightarrow> []))"

lemma end_vm_left:
  assumes "end_vm opts sb w = (rep, sb', w')" and "to_wait opts = None"
  shows "(tr_undeleted rep, w') =
      (case sb_microvm sb of
         None \<Rightarrow> ([], w)
       | Some vm \<Rightarrow> (let (answer, w1) = control_terminate (vv_id vm) w
                   in (if answer = Inr () then [] else [vv_id vm], w1)))"
    and "tr_terminate_accepted rep \<longleftrightarrow>
      (\<exists>vm. sb_microvm sb = Some vm \<and> fst (control_terminate (vv_id vm) w) = Inr ())"
proof (atomize (full), cases "sb_microvm sb")
  case None
  with assms show "(tr_undeleted rep, w') =
      (case sb_microvm sb of
         None \<Rightarrow> ([], w)
       | Some vm \<Rightarrow> (let (answer, w1) = control_terminate (vv_id vm) w
                   in (if answer = Inr () then [] else [vv_id vm], w1))) \<and>
    tr_terminate_accepted rep = (\<exists>vm. sb_microvm sb = Some vm \<and> fst (control_terminate (vv_id vm) w) = Inr ())"
    by (auto simp: end_vm_def empty_report_def)
next
  case (Some vm)
  obtain a w1 where a: "control_terminate (vv_id vm) w = (a, w1)" by fastforce
  with Some assms show "(tr_undeleted rep, w') =
      (case sb_microvm sb of
         None \<Rightarrow> ([], w)
       | Some vm \<Rightarrow> (let (answer, w1) = control_terminate (vv_id vm) w
                   in (if answer = Inr () then [] else [vv_id vm], w1))) \<and>
    tr_terminate_accepted rep = (\<exists>vm. sb_microvm sb = Some vm \<and> fst (control_terminate (vv_id vm) w) = Inr ())"
    by (cases a) (auto simp: end_vm_def empty_report_def Let_def)
qed

lemma teardown_left:
  assumes "terminate (run_teardown_opts del) sb w = (rep, sb', w')" and "\<not> sb_detached sb"
  shows "tr_undeleted rep = left_behind del sb w"
    and "tr_terminate_accepted rep \<longleftrightarrow>
      (\<exists>vm. sb_microvm sb = Some vm \<and> fst (control_terminate (vv_id vm) w) = Inr ())"
proof -
  let ?sb0 = "sb\<lparr>sb_torn_down := True, sb_session := None\<rparr>"
  let ?opts = "run_teardown_opts del"
  have opts: "to_delete_image (run_teardown_opts b) = b" "to_delete_log_group (run_teardown_opts b) = b"
    "to_attempts (run_teardown_opts b) = 20" "to_backoff (run_teardown_opts b) = 15 * NS"
    "to_wait (run_teardown_opts b) = None" for b
    by (simp_all add: run_teardown_opts_def default_teardown_opts_def)
  obtain rep1 sb1 w1 where e: "end_vm ?opts ?sb0 w = (rep1, sb1, w1)" by (metis prod_cases3)
  obtain rep2 sb2 w2 where d: "end_image ?opts rep1 sb1 w1 = (rep2, sb2, w2)" by (metis prod_cases3)
  have res: "rep = (name_log_group ?opts sb2 rep2)\<lparr>tr_lifecycle := Some (sb_lifecycle sb2)\<rparr>"
    using assms e d by (auto simp: terminate_def Let_def)
  have img: "sb_image sb1 = sb_image sb" "sb_image sb2 = sb_image sb"
    using end_vm_report [OF e] end_image_report [OF d] by auto
  note vm = end_vm_left [OF e opts(5), simplified]
  have im: "tr_undeleted rep2 = tr_undeleted rep1 @
      (case sb_image sb of
         Some (i, g) \<Rightarrow> if del \<and> \<not> fst (delete_image i 20 (15 * NS) w1) then [i] else []
       | None \<Rightarrow> [])" "tr_terminate_accepted rep2 = tr_terminate_accepted rep1"
    using d by (auto simp: end_image_def opts img Let_def split: option.splits prod.splits if_splits)
  show "tr_undeleted rep = left_behind del sb w"
    using im(1) by (auto simp: res name_log_group_def opts img left_behind_def vm(1) [symmetric] split: option.splits)
  show "tr_terminate_accepted rep \<longleftrightarrow>
      (\<exists>vm. sb_microvm sb = Some vm \<and> fst (control_terminate (vv_id vm) w) = Inr ())"
    using im(2) vm(2) by (simp add: res log_group_report)
qed

lemma owed_is_left:
  assumes "terminate (run_teardown_opts del) sb w = (rep, sb', w')" and "\<not> sb_detached sb"
    and "\<And>vm i g. sb_microvm sb = Some vm \<Longrightarrow> sb_image sb = Some (i, g) \<Longrightarrow> vv_id vm \<noteq> i \<and> vv_id vm \<noteq> g"
  shows "still_owed rep (map_option vv_id (sb_microvm sb)) = left_behind del sb w"
proof (cases "tr_terminate_accepted rep")
  case False
  with teardown_left(1) [OF assms(1,2)] show ?thesis by (simp add: still_owed_def)
next
  case True
  with teardown_left(2) [OF assms(1,2)] obtain vm where
    vm: "sb_microvm sb = Some vm" "fst (control_terminate (vv_id vm) w) = Inr ()" by blast
  have "vv_id vm \<notin> set (left_behind del sb w)"
    using vm assms(3) [OF vm(1)] by (cases "sb_image sb") (auto simp: left_behind_def split: prod.splits)
  with True vm teardown_left(1) [OF assms(1,2)] show ?thesis
    by (auto simp: still_owed_def filter_id_conv)
qed

text \<open>
  C34: a run's ledger names exactly what its teardown leaves. While the calls are made the document on
  disk names the run's VM and image and nothing else, so a process that dies inside them loses neither;
  a run that is kept makes no call and stays so. Afterwards the document names exactly what the
  service's answers leave of what the teardown was asked to remove: the VM unless its termination was
  accepted, the image unless its deletion succeeded, and the log group, which can only be named. The
  document is removed exactly when that is nothing, and no other document changes.
\<close>

theorem ledger_names_what_teardown_leaves:
  assumes "reads_back J" and "accepting st" and "check_component (lg_key l)"
    and "rd_microvm_id (lg_record l) = map_option vv_id (sb_microvm sb)" and "\<not> sb_detached sb"
    and "\<And>vm i g. sb_microvm sb = Some vm \<Longrightarrow> sb_image sb = Some (i, g) \<Longrightarrow> vv_id vm \<noteq> i \<and> vv_id vm \<noteq> g"
    and "tear_down J keep del l st sb w = (rep, l', states, sb', w')"
  shows "\<exists>during later. states = during # later \<and>
    (\<forall>x. names_in J during (lg_key l) x \<longleftrightarrow>
      rd_microvm_id (lg_record l) = Some x \<or> rd_image_identifier (lg_record l) = Some x) \<and>
    (keep \<longrightarrow> later = [] \<and> sb' = sb \<and> w' = w) \<and>
    (\<not> keep \<longrightarrow> (\<exists>narrowed final. later = [narrowed, final] \<and>
      lg_record l' = (lg_record l)\<lparr>rd_leaked := left_behind del sb w\<rparr> \<and>
      (\<forall>x. names_in J narrowed (lg_key l) x \<longleftrightarrow> x \<in> set (left_behind del sb w)) \<and>
      (\<forall>x. names_in J final (lg_key l) x \<longleftrightarrow> x \<in> set (left_behind del sb w)) \<and>
      (map_of (rs_docs final) (lg_key l) = None \<longleftrightarrow> left_behind del sb w = []) \<and>
      (\<forall>k. k \<noteq> lg_key l \<longrightarrow> map_of (rs_docs final) k = map_of (rs_docs st) k)))"
proof -
  obtain l1 st1 where o: "mark_outstanding J l st = (l1, st1)" by fastforce
  note O = rewritten [OF assms(2,3) o [unfolded mark_outstanding_def]]
  have during: "names_in J st1 (lg_key l) x \<longleftrightarrow>
      rd_microvm_id (lg_record l) = Some x \<or> rd_image_identifier (lg_record l) = Some x" for x
    using assms(1) by (auto simp: names_in_def O(3) reads_back_def option_list_def split: option.splits)
  show ?thesis
  proof (cases keep)
    case True
    with assms(7) o have "states = [st1]" "sb' = sb" "w' = w" by (auto simp: tear_down_def)
    with True during show ?thesis by simp
  next
    case False
    obtain sb1 w1 where t: "terminate (run_teardown_opts del) sb w = (rep, sb1, w1)"
      using assms(7) o False by (auto simp: tear_down_def Let_def split: prod.splits)
    have l1: "lg_key l1 = lg_key l" "rd_microvm_id (lg_record l1) = map_option vv_id (sb_microvm sb)"
      using O(1) assms(4) by simp_all
    note owed = owed_is_left [OF t assms(5,6)]
    obtain l2 st2 where d: "mark_deleted J (left_behind del sb w) l1 st1 = (l2, st2)" by fastforce
    have res: "l' = l2" "states = [st1, st2, clear_ledger l2 st2]"
      using assms(7) o t d False by (auto simp: tear_down_def l1(2) owed)
    have key: "check_component (lg_key l1)" using assms(3) l1 by simp
    note N = narrowed [OF O(2) key assms(1) d, unfolded l1(1)]
    have "lg_record l2 = (lg_record l)\<lparr>rd_leaked := left_behind del sb w\<rparr>"
      using rewritten(1) [OF O(2) key d [unfolded mark_deleted_def]] O(1) by simp
    moreover have "map_of (rs_docs (clear_ledger l2 st2)) k = map_of (rs_docs st) k" if "k \<noteq> lg_key l" for k
      using that N(8) O(3) by simp
    ultimately show ?thesis
      using False during N(5-7) res by (intro exI [of _ st1] exI [of _ "[st2, clear_ledger l2 st2]"]) simp
  qed
qed

section \<open>What the terminate command leaves in the records of its VM\<close>

lemma retire_narrows:
  assumes "reads_back J"
  shows "\<lbrakk>accepting st; \<forall>l\<in>set rs. check_component (lg_key l); distinct (map lg_key rs)\<rbrakk> \<Longrightarrow>
    (\<forall>i<length rs.
      (\<forall>x. names_in J (retire_records J owes n rs st) (lg_key (rs ! i)) x \<longleftrightarrow> x \<in> set (owes (n + i) (rs ! i))) \<and>
      (map_of (rs_docs (retire_records J owes n rs st)) (lg_key (rs ! i)) = None \<longleftrightarrow> owes (n + i) (rs ! i) = [])) \<and>
    (\<forall>k. k \<notin> set (map lg_key rs) \<longrightarrow>
      map_of (rs_docs (retire_records J owes n rs st)) k = map_of (rs_docs st) k)"
proof (induction rs arbitrary: n st)
  case Nil
  then show ?case by simp
next
  case (Cons l ls)
  obtain l1 st1 where d: "mark_deleted J (owes n l) l st = (l1, st1)" by fastforce
  have key: "check_component (lg_key l)" using Cons.prems by simp
  note N = narrowed [OF Cons.prems(1) key assms d]
  let ?st2 = "clear_ledger l1 st1"
  let ?fin = "retire_records J owes (Suc n) ls ?st2"
  have e: "retire_records J owes n (l # ls) st = ?fin" by (simp add: d)
  have "accepting ?st2" using N(2) .
  with Cons.IH [of ?st2 "Suc n"] Cons.prems have ih:
    "\<forall>i<length ls. (\<forall>x. names_in J ?fin (lg_key (ls ! i)) x \<longleftrightarrow> x \<in> set (owes (Suc n + i) (ls ! i))) \<and>
      (map_of (rs_docs ?fin) (lg_key (ls ! i)) = None \<longleftrightarrow> owes (Suc n + i) (ls ! i) = [])"
    "\<forall>k. k \<notin> set (map lg_key ls) \<longrightarrow> map_of (rs_docs ?fin) k = map_of (rs_docs ?st2) k"
    by simp_all
  have "map_of (rs_docs ?fin) (lg_key l) = map_of (rs_docs ?st2) (lg_key l)"
    using ih(2) Cons.prems(3) by simp
  then have first: "names_in J ?fin (lg_key l) x \<longleftrightarrow> x \<in> set (owes n l)"
    "map_of (rs_docs ?fin) (lg_key l) = None \<longleftrightarrow> owes n l = []" for x
    using N(6) [of x] N(7) by (simp_all add: names_in_def)
  have "(\<forall>x. names_in J ?fin (lg_key ((l # ls) ! i)) x \<longleftrightarrow> x \<in> set (owes (n + i) ((l # ls) ! i))) \<and>
      (map_of (rs_docs ?fin) (lg_key ((l # ls) ! i)) = None \<longleftrightarrow> owes (n + i) ((l # ls) ! i) = [])"
    if "i < length (l # ls)" for i
    using that first ih(1) by (cases i) simp_all
  moreover have "map_of (rs_docs ?fin) k = map_of (rs_docs st) k" if "k \<notin> set (map lg_key (l # ls))" for k
    using that ih(2) N(8) [of k] by simp
  ultimately show ?case unfolding e by blast
qed

lemma map_filter_keys:
  assumes "distinct (map fst xs)" and "\<And>x y. f x = Some y \<Longrightarrow> lg_key y = fst x"
  shows "distinct (map lg_key (List.map_filter f xs)) \<and>
    set (map lg_key (List.map_filter f xs)) \<subseteq> fst ` set xs"
  using assms
  by (induction xs) (auto simp: List.map_filter_simps image_iff split: option.splits dest: assms(2))

lemma open_all_keys:
  assumes "distinct (map fst (rs_docs st))"
  shows "distinct (map lg_key (open_all_for_vm J vm st))"
    "set (map lg_key (open_all_for_vm J vm st)) \<subseteq> fst ` set (rs_docs st)"
proof -
  have d: "distinct (map fst (rev (sort_key fst (rs_docs st))))"
    using assms by (simp add: rev_map [symmetric] distinct_map inj_on_def)
  let ?f = "\<lambda>(key, doc). case Option.bind doc (lc_decode J) of
      None \<Rightarrow> None
    | Some r \<Rightarrow> if rd_microvm_id r = Some vm then Some \<lparr>lg_record = r, lg_key = key\<rparr> else None"
  have f: "?f x = Some y \<Longrightarrow> lg_key y = fst x" for x y
    by (cases x) (auto split: option.splits if_splits)
  show "distinct (map lg_key (open_all_for_vm J vm st))"
    "set (map lg_key (open_all_for_vm J vm st)) \<subseteq> fst ` set (rs_docs st)"
    using map_filter_keys [OF d f] by (simp_all add: open_all_for_vm_def)
qed

text \<open>The two answers of the service a terminate command goes by.\<close>

definition vm_ended :: "string \<Rightarrow> plane_world \<Rightarrow> bool" where
  "vm_ended vm w \<longleftrightarrow> fst (control_terminate vm w) = Inr ()"

definition image_gone :: "terminate_args \<Rightarrow> string \<Rightarrow> string option \<Rightarrow> plane_world \<Rightarrow> string \<Rightarrow> bool" where
  "image_gone a vm asked w i \<longleftrightarrow>
     ta_delete_image a \<and> asked = Some i \<and>
     fst (delete_image i 20 (15 * NS) (snd (end_the_vm (ta_wait a) vm w)))"

lemma terminate_command_retires:
  assumes "terminate_command J a vm st w = (Inr (lost, groups), st', w')" and "rs = open_all_for_vm J vm st"
  shows "st' = retire_records J (record_owes a vm rs lost groups) 0 rs st"
  using assms by (auto simp: terminate_command_def Let_def split: prod.splits if_splits)

lemma terminate_command_steps:
  assumes "terminate_command J a vm st w = (Inr (lost, groups), st', w')"
    and "image_asked a rs \<noteq> Some vm" and "rs = open_all_for_vm J vm st"
  shows "vm \<in> set lost \<longleftrightarrow> \<not> vm_ended vm w"
    and "x \<noteq> vm \<Longrightarrow> x \<in> set lost \<longleftrightarrow>
      ta_delete_image a \<and> image_asked a rs = Some x \<and> \<not> image_gone a vm (image_asked a rs) w x"
    and "groups = (if ta_delete_image a
       then map (\<lambda>n. BUILD_LOG_GROUP_PREFIX @ ''/'' @ n) (option_list (name_asked a rs)) else [])"
proof -
  note t = assms(1) [unfolded terminate_command_def Let_def, folded assms(3)]
  obtain vl w2 where e: "end_the_vm (ta_wait a) vm w = (vl, w2)" by fastforce
  have vl: "vl = (if vm_ended vm w then [] else [vm])"
    using e by (auto simp: end_the_vm_def vm_ended_def split: prod.splits sum.splits option.splits)
  obtain gone w3 where d: "(if ta_delete_image a then delete_image (the (image_asked a rs)) 20 (15 * NS) w2
      else (True, w2)) = (gone, w3)" by fastforce
  have asked: "\<not> (ta_delete_image a \<and> image_asked a rs = None)"
    using t by (auto split: if_splits)
  then have res: "lost = vl @ (if gone then [] else [the (image_asked a rs)])"
    "groups = (if ta_delete_image a
       then map (\<lambda>n. BUILD_LOG_GROUP_PREFIX @ ''/'' @ n) (option_list (name_asked a rs)) else [])"
    using t e d by auto
  have gone: "\<not> gone \<longleftrightarrow> (\<exists>i. ta_delete_image a \<and> image_asked a rs = Some i \<and> \<not> image_gone a vm (image_asked a rs) w i)"
    using d e asked by (cases "image_asked a rs") (auto simp: image_gone_def prod_eq_iff split: if_splits)
  show "groups = (if ta_delete_image a
       then map (\<lambda>n. BUILD_LOG_GROUP_PREFIX @ ''/'' @ n) (option_list (name_asked a rs)) else [])"
    using res by simp
  show "vm \<in> set lost \<longleftrightarrow> \<not> vm_ended vm w"
    using gone assms(2) by (auto simp: res(1) vl)
  show "x \<in> set lost \<longleftrightarrow>
      ta_delete_image a \<and> image_asked a rs = Some x \<and> \<not> image_gone a vm (image_asked a rs) w x"
    if "x \<noteq> vm" using gone that by (auto simp: res(1) vl)
qed

lemma terminate_command_narrows:
  assumes "reads_back J" and "accepting st" and "distinct (map fst (rs_docs st))"
    and "\<forall>(k, d)\<in>set (rs_docs st). check_component k"
    and "terminate_command J a vm st w = (Inr (lost, groups), st', w')"
    and "n < length (open_all_for_vm J vm st)"
  shows "names_in J st' (lg_key (open_all_for_vm J vm st ! n)) x \<longleftrightarrow>
      x \<in> set (record_owes a vm (open_all_for_vm J vm st) lost groups n (open_all_for_vm J vm st ! n))"
    and "map_of (rs_docs st') (lg_key (open_all_for_vm J vm st ! n)) = None \<longleftrightarrow>
      record_owes a vm (open_all_for_vm J vm st) lost groups n (open_all_for_vm J vm st ! n) = []"
    and "k \<notin> lg_key ` set (open_all_for_vm J vm st) \<Longrightarrow> map_of (rs_docs st') k = map_of (rs_docs st) k"
proof -
  let ?rs = "open_all_for_vm J vm st"
  have "\<forall>m\<in>set ?rs. check_component (lg_key m)"
    using open_all_keys(2) [OF assms(3), of J vm] assms(4) by fastforce
  note R = retire_narrows [OF assms(1) assms(2) this open_all_keys(1) [OF assms(3)],
      of "record_owes a vm ?rs lost groups" 0, folded terminate_command_retires [OF assms(5) refl]]
  show "names_in J st' (lg_key (?rs ! n)) x \<longleftrightarrow> x \<in> set (record_owes a vm ?rs lost groups n (?rs ! n))"
    "map_of (rs_docs st') (lg_key (?rs ! n)) = None \<longleftrightarrow> record_owes a vm ?rs lost groups n (?rs ! n) = []"
    "k \<notin> lg_key ` set ?rs \<Longrightarrow> map_of (rs_docs st') k = map_of (rs_docs st) k"
    using R assms(6) by simp_all
qed

text \<open>
  What one terminate command leaves of one record of the VM: the VM unless its termination was
  accepted, the record's image unless this command deleted that very image, and the build log group
  this command named, on the records of the image it asked for or, when none of them has that image,
  on the newest.
\<close>

definition command_leaves :: "terminate_args \<Rightarrow> string \<Rightarrow> run_ledger list \<Rightarrow> plane_world \<Rightarrow> nat \<Rightarrow> run_record \<Rightarrow>
    string set" where
  "command_leaves a vm rs w n r =
     (if vm_ended vm w then {} else {vm}) \<union>
     {i. rd_image_identifier r = Some i \<and> \<not> image_gone a vm (image_asked a rs) w i} \<union>
     (if ta_delete_image a \<and>
         (rd_image_identifier r = image_asked a rs \<or>
          n = 0 \<and> (\<forall>m\<in>set rs. rd_image_identifier (lg_record m) \<noteq> image_asked a rs))
      then (\<lambda>name. BUILD_LOG_GROUP_PREFIX @ ''/'' @ name) ` set_option (name_asked a rs) else {})"

lemma record_owes_leaves:
  assumes "terminate_command J a vm st w = (Inr (lost, groups), st', w')"
    and "image_asked a (open_all_for_vm J vm st) \<noteq> Some vm"
  shows "set (record_owes a vm (open_all_for_vm J vm st) lost groups n l) =
    command_leaves a vm (open_all_for_vm J vm st) w n (lg_record l)"
proof -
  let ?rs = "open_all_for_vm J vm st"
  note S = terminate_command_steps [OF assms refl]
  have named: "records_name_image (map (rd_image_identifier \<circ> lg_record) ?rs) (image_asked a ?rs) \<longleftrightarrow>
      (\<exists>m\<in>set ?rs. rd_image_identifier (lg_record m) = image_asked a ?rs)" if "ta_delete_image a"
  proof -
    have "image_asked a ?rs \<noteq> None"
      using assms(1) that by (auto simp: terminate_command_def Let_def split: if_splits)
    then show ?thesis by (auto simp: records_name_image_def intro: rev_image_eqI)
  qed
  have image: "i \<in> set lost \<longleftrightarrow> \<not> image_gone a vm (image_asked a ?rs) w i"
    if "ta_delete_image a" "image_asked a ?rs = Some i" for i
    using S(2) [of i] that assms(2) by auto
  have "set (case rd_image_identifier (lg_record l) of
      None \<Rightarrow> []
    | Some i \<Rightarrow> if ta_delete_image a \<and> image_asked a ?rs = Some i \<and> i \<notin> set lost then [] else [i]) =
    {i. rd_image_identifier (lg_record l) = Some i \<and> \<not> image_gone a vm (image_asked a ?rs) w i}"
    using image by (cases "rd_image_identifier (lg_record l)") (auto simp: image_gone_def)
  moreover have "set (if vm \<in> set lost then [vm] else []) = (if vm_ended vm w then {} else {vm})"
    using S(1) by simp
  moreover have "set (if rd_image_identifier (lg_record l) = image_asked a ?rs \<or>
        n = 0 \<and> \<not> records_name_image (map (rd_image_identifier \<circ> lg_record) ?rs) (image_asked a ?rs)
      then groups else []) =
    (if ta_delete_image a \<and>
        (rd_image_identifier (lg_record l) = image_asked a ?rs \<or>
         n = 0 \<and> (\<forall>m\<in>set ?rs. rd_image_identifier (lg_record m) \<noteq> image_asked a ?rs))
     then (\<lambda>name. BUILD_LOG_GROUP_PREFIX @ ''/'' @ name) ` set_option (name_asked a ?rs) else {})"
  proof (cases "ta_delete_image a")
    case True
    have "set groups = (\<lambda>name. BUILD_LOG_GROUP_PREFIX @ ''/'' @ name) ` set_option (name_asked a ?rs)"
      unfolding S(3) using True by (cases "name_asked a ?rs") (simp_all add: option_list_def)
    with True named [OF True] show ?thesis by auto
  qed (simp add: S(3))
  ultimately show ?thesis
    by (simp only: record_owes_def command_leaves_def Let_def set_append Un_assoc)
qed

text \<open>
  C35: what one terminate command leaves in the records of its VM. Afterwards each record names
  exactly what this command left of it: the VM unless its termination was accepted, the record's image
  unless this command was asked to delete that very image and deleted it, and the build log group this
  command could only name, on the records of the image it asked for, or on the newest record when none
  has that image. A record is removed exactly when this command left nothing of it, and the documents
  of other VMs do not change. The answer lists the VM and the image it could not remove. What an
  earlier command had named is not carried over: a log group it left is dropped by the next command
  that deletes no image.
\<close>

theorem terminate_keeps_records_truthful:
  assumes "reads_back J" and "accepting st" and "distinct (map fst (rs_docs st))"
    and "\<forall>(k, d)\<in>set (rs_docs st). check_component k"
    and "terminate_command J a vm st w = (Inr (lost, groups), st', w')"
    and "rs = open_all_for_vm J vm st" and "n < length rs" and "image_asked a rs \<noteq> Some vm"
  shows "(\<forall>x. names_in J st' (lg_key (rs ! n)) x \<longleftrightarrow> x \<in> command_leaves a vm rs w n (lg_record (rs ! n))) \<and>
    (map_of (rs_docs st') (lg_key (rs ! n)) = None \<longleftrightarrow> command_leaves a vm rs w n (lg_record (rs ! n)) = {}) \<and>
    (\<forall>k. k \<notin> lg_key ` set rs \<longrightarrow> map_of (rs_docs st') k = map_of (rs_docs st) k) \<and>
    set lost =
      (if vm_ended vm w then {} else {vm}) \<union>
      {i. ta_delete_image a \<and> image_asked a rs = Some i \<and> \<not> image_gone a vm (image_asked a rs) w i}"
proof -
  note R = terminate_command_narrows [OF assms(1-5)]
  have asked: "image_asked a (open_all_for_vm J vm st) \<noteq> Some vm" using assms(6,8) by simp
  note L = record_owes_leaves [OF assms(5) asked, folded assms(6)]
  have none: "xs = [] \<longleftrightarrow> set xs = {}" for xs :: "string list" by simp
  note S = terminate_command_steps(1,2) [OF assms(5) assms(8,6)]
  have "set lost =
      (if vm_ended vm w then {} else {vm}) \<union>
      {i. ta_delete_image a \<and> image_asked a rs = Some i \<and> \<not> image_gone a vm (image_asked a rs) w i}"
  proof (rule set_eqI)
    fix x
    show "x \<in> set lost \<longleftrightarrow> x \<in> (if vm_ended vm w then {} else {vm}) \<union>
      {i. ta_delete_image a \<and> image_asked a rs = Some i \<and> \<not> image_gone a vm (image_asked a rs) w i}"
      using S(1) S(2) [of x] assms(8) by (cases "x = vm") auto
  qed
  then show ?thesis
    using R [of n, folded assms(6), unfolded L none] assms(7) by blast
qed

text \<open>
  What the records do not keep: a log group that an earlier teardown could only name is dropped by the
  next terminate without an image deletion, which lists the record's image again, deleted or not.
\<close>

lemma plain_terminate_forgets_log_groups:
  assumes "reads_back J" and "accepting st" and "distinct (map fst (rs_docs st))"
    and "\<forall>(k, d)\<in>set (rs_docs st). check_component k"
    and "terminate_command J a vm st w = (Inr (lost, groups), st', w')"
    and "l \<in> set (open_all_for_vm J vm st)" and "\<not> ta_delete_image a"
  shows "names_in J st' (lg_key l) x \<longrightarrow> x = vm \<or> rd_image_identifier (lg_record l) = Some x"
    and "rd_image_identifier (lg_record l) = Some i \<Longrightarrow> names_in J st' (lg_key l) i"
proof -
  let ?rs = "open_all_for_vm J vm st"
  obtain n where n: "n < length ?rs" "?rs ! n = l" using assms(6) by (auto simp: in_set_conv_nth)
  have "groups = []" using assms(5,7) by (auto simp: terminate_command_def Let_def split: prod.splits)
  then show "names_in J st' (lg_key l) x \<longrightarrow> x = vm \<or> rd_image_identifier (lg_record l) = Some x"
    "rd_image_identifier (lg_record l) = Some i \<Longrightarrow> names_in J st' (lg_key l) i"
    using terminate_command_narrows(1) [OF assms(1-5) n(1)] n(2) assms(7)
    by (auto simp: record_owes_def Let_def split: option.splits)
qed

section \<open>Examples\<close>

definition plain_codec :: "run_record ledger_codec" where
  "plain_codec = \<lparr>lc_encode = (\<lambda>r. r), lc_decode = Some\<rparr>"

definition kept_record :: run_record where
  "kept_record =
     \<lparr>rd_run_id = ''1-2'', rd_region = ''eu-west-1'', rd_image_identifier = Some ''im-1'', rd_image_name = Some ''im'',
      rd_microvm_id = Some ''vm-1'', rd_leaked = [], rd_vm_log_group = None\<rparr>"

definition kept_ledger :: run_ledger where
  "kept_ledger = \<lparr>lg_record = kept_record, lg_key = ''1-2''\<rparr>"

definition kept_store :: "run_record run_store" where
  "kept_store = \<lparr>rs_docs = [(''1-2'', Some kept_record)], rs_refusals = []\<rparr>"

definition no_answers :: plane_world where
  "no_answers = \<lparr>wd_moments = [], wd_now = 0, wd_calls = []\<rparr>"

lemma kept_facts:
  "reads_back plain_codec" "accepting kept_store" "check_component ''1-2''"
  "distinct (map fst (rs_docs kept_store))" "\<forall>(k, d)\<in>set (rs_docs kept_store). check_component k"
  "open_all_for_vm plain_codec ''vm-1'' kept_store = [kept_ledger]"
  by (simp_all add: reads_back_def plain_codec_def accepting_def kept_store_def check_component_def
      open_all_for_vm_def List.map_filter_simps kept_record_def kept_ledger_def)

theorem ledger_names_what_teardown_leaves_witness:
  "\<exists>rep l' during narrowed final sb' w'.
    tear_down plain_codec False False kept_ledger kept_store (held_vm LRunning) no_answers =
      (rep, l', [during, narrowed, final], sb', w') \<and>
    names_in plain_codec during ''1-2'' ''vm-1'' \<and> names_in plain_codec during ''1-2'' ''im-1'' \<and>
    names_in plain_codec final ''1-2'' ''vm-1'' \<and> \<not> names_in plain_codec final ''1-2'' ''im-1'' \<and>
    map_of (rs_docs final) ''1-2'' \<noteq> None"
proof -
  let ?t = "tear_down plain_codec False False kept_ledger kept_store (held_vm LRunning) no_answers"
  obtain rep l' states sb' w' where t: "?t = (rep, l', states, sb', w')" by (metis prod_cases5)
  have vm: "map_option vv_id (sb_microvm (held_vm LRunning)) = Some ''vm-1''" "\<not> sb_detached (held_vm LRunning)"
    "sb_image (held_vm LRunning) = Some (''im-1'', ''/logs/im-1'')"
    by (simp_all add: held_vm_def adopted_sandbox_def new_sandbox_def)
  have key: "check_component (lg_key kept_ledger)"
    "rd_microvm_id (lg_record kept_ledger) = map_option vv_id (sb_microvm (held_vm LRunning))"
    using kept_facts(3)
    by (simp_all add: kept_ledger_def kept_record_def held_vm_def adopted_sandbox_def new_sandbox_def)
  have apart: "vv_id v \<noteq> i \<and> vv_id v \<noteq> g"
    if "sb_microvm (held_vm LRunning) = Some v" "sb_image (held_vm LRunning) = Some (i, g)" for v i g
    using that vm(1,3) by auto
  have left: "left_behind False (held_vm LRunning) no_answers = [''vm-1'']"
    by (simp add: left_behind_def no_answers_def held_vm_def adopted_sandbox_def new_sandbox_def
        control_terminate_def on_vm_def do_call_def valid_identifier_def IDENTIFIER_LIMIT_def)
  from ledger_names_what_teardown_leaves [OF kept_facts(1,2) key vm(2) apart t] t show ?thesis
    by (auto simp: kept_ledger_def kept_record_def left)
qed

definition plain_args :: terminate_args where
  "plain_args = \<lparr>ta_delete_image = False, ta_image = None, ta_image_name = None, ta_wait = None\<rparr>"

theorem terminate_keeps_records_truthful_witness:
  "\<exists>lost groups st' w'.
    terminate_command plain_codec plain_args ''vm-1'' kept_store no_answers = (Inr (lost, groups), st', w') \<and>
    open_all_for_vm plain_codec ''vm-1'' kept_store = [kept_ledger] \<and>
    names_in plain_codec st' ''1-2'' ''vm-1'' \<and> names_in plain_codec st' ''1-2'' ''im-1'' \<and>
    \<not> names_in plain_codec st' ''1-2'' ''im'' \<and> map_of (rs_docs st') ''1-2'' \<noteq> None"
proof -
  let ?t = "terminate_command plain_codec plain_args ''vm-1'' kept_store no_answers"
  have "\<exists>x. fst ?t = Inr x" by (simp add: terminate_command_def plain_args_def Let_def split_beta)
  then obtain lost groups st' w' where t: "?t = (Inr (lost, groups), st', w')" by (metis prod.collapse)
  note rs = kept_facts(6)
  have asked: "image_asked plain_args [kept_ledger] \<noteq> Some ''vm-1''"
    by (simp add: image_asked_def plain_args_def first_image_def kept_ledger_def kept_record_def)
  have no: "\<not> vm_ended ''vm-1'' no_answers"
    by (simp add: vm_ended_def no_answers_def control_terminate_def on_vm_def do_call_def valid_identifier_def
        IDENTIFIER_LIMIT_def)
  have leaves: "command_leaves plain_args ''vm-1'' [kept_ledger] no_answers 0 kept_record = {''vm-1'', ''im-1''}"
    using no by (auto simp: command_leaves_def image_gone_def plain_args_def kept_record_def)
  from terminate_keeps_records_truthful [OF kept_facts(1,2,4,5) t rs [symmetric] _ asked, of 0] rs t leaves
  show ?thesis by (auto simp: kept_ledger_def)
qed

end
