(* ===== verification/Spec2Isabelle.thy ===== *)
theory Spec2Isabelle
  imports Lifecycle ExecStart AttachStream Waiter ProcScan Disk LineRange TarConfined FsRoutes HookRoutes RouteSurface Tunnel RunRefinement Split
  KeepAlive ExecStartRefinement ModelOutput Sizing NameRecords ReleaseFetch Provision ModelProvision ProvisionRefinement Preflight ControlRetry Sweep SweepSafety ModelClient ControlPlane Sandbox RunLedger
begin

text \<open>
  A model of \<open>agentd\<close>, the daemon that runs as the first process of a microVM and is the
  only way into it, of the client that talks to it, launches its VM, fetches its binary and cleans up
  after it, and of the specification machines the repository checks both against. The code is the Rust of \<open>src/crates/agentd\<close>, the wire
  types of \<open>src/crates/protocol\<close>, the session, the control plane and the sandbox of
  \<open>src/crates/microvms-app\<close>, the rules of \<open>src/crates/microvms-domain\<close>, the
  provisioning and the run store of \<open>src/crates/microvms-edges\<close>, two teardowns of
  \<open>src/crates/microvms-cli\<close> and the state machines of \<open>src/crates/model\<close>.

  The program. A client mints an exec id and posts a start request. The daemon resolves the
  user, group, shell and environment (\<open>exec_start.rs\<close>), spawns the child in a process
  group of its own and registers an entry for the id (\<open>exec.rs\<close>, \<open>spawn\<close>). A
  detached task drains both pipes, publishes every chunk to a bounded replay ring, waits for the
  child, lingers for grandchildren, and then records a terminal marker and the outcome
  (\<open>super_wait\<close>). The client polls, attaches a stream that can resume at a byte offset,
  writes stdin, kills the group, and acks, which hands the output out and starts the clock after
  which the entry is collected. All of it is closed until the run hook installs a token, once.

  The client. A launch goes through the control plane, whose calls are retried within a budget
  (\<open>transport.rs\<close>); a \<open>Sandbox\<close> follows the VM from PENDING to its teardown under the
  state rules STATE-1 to STATE-12, a ledger on disk names what a run still owes, and a sweep removes
  what a prefix of names left behind. The daemon's binary in an image is the caller's own or one a
  fetch proved (\<open>provision.rs\<close>).

  Theories, in the order they build on each other.

  \<^item> \<open>Prelude\<close>: words and byte strings, the error sum, association lists as the daemon's
    hash maps (locale \<open>keyed_store\<close>), list lemmas.
  \<^item> \<open>Protocol\<close>: the wire types of \<open>protocol/src/exec.rs\<close>; an error carries its
    slug and a structured detail in place of the formatted text.
  \<^item> \<open>Strings\<close>: the standard library's lossy UTF-8, whitespace and number parsing.
  \<^item> \<open>ExecStart\<close>: \<open>exec_start.rs\<close>. \<open>make_plan\<close> is \<open>plan\<close>; the
    databases are looked up through the locale \<open>user_db\<close>.
  \<^item> \<open>ReplayLog\<close>: \<open>Log\<close> and \<open>publish\<close>. The ring holds exactly the last
    \<open>cap\<close> bytes published; locale \<open>replay_source\<close> is what a stream relies on.
  \<^item> \<open>AttachStream\<close>: \<open>Attach\<close> and \<open>build_stream\<close>. The live channel is a
    list of what \<open>recv\<close> returns, so every schedule of publishes, lags and closes is covered;
    the specification is that each byte up to the stream's end is delivered once, or is inside a
    reported gap. The end is computed (\<open>stream_reach\<close>); it is the end of the output unless
    output landed between the snapshot and the marker of an exec found over.
  \<^item> \<open>Waiter\<close>: \<open>Capped\<close>, \<open>super_wait\<close> and \<open>escalate_blind\<close>. The
    branches the select takes are a list of events; \<open>None\<close> is a wait that has not ended. A
    timeout or a linger so long that the clock overflows, which panics in the source, is not modelled.
  \<^item> \<open>ProcScan\<close>: the walk of \<open>/proc\<close>.
  \<^item> \<open>Config\<close>: \<open>config.rs\<close> and \<open>image_user.rs\<close>; durations are nanoseconds.
  \<^item> \<open>AppState\<close>: \<open>state.rs\<close>, \<open>auth.rs\<close> and the hook records of
    \<open>protocol/src/health.rs\<close>. The part of an entry the waiter shares lives in a heap, an
    entry holds its address.
  \<^item> \<open>ExecRegistry\<close>: the handlers of \<open>exec.rs\<close>, each the function from the state
    and what the guest answers to a response and the new state; a handler that gives up the
    registry between two steps is also split there (\<open>lookup_exec\<close>, \<open>ack_locked\<close>).
  \<^item> \<open>RegistryRuns\<close>: the interleavings. \<open>do_act\<close> is one atomic step of a handler,
    a waiter task or the collector, \<open>runs\<close> the histories, \<open>reg_inv\<close> the invariant
    that ties the registry, the heap and the tasks.
  \<^item> \<open>Disk\<close>: \<open>disk.rs\<close>, with the filesystem's free space as state.
  \<^item> \<open>IdentityRepair\<close>: \<open>identity.rs\<close> over the machine's files, hostname and
    mounts; every call may be refused, with any error.
  \<^item> \<open>HookPayload\<close>: the run hook's payload (\<open>protocol/src/hook.rs\<close>) and the
    tunnel's identity material (\<open>tunnel_identity.rs\<close>).
  \<^item> \<open>HookRoutes\<close>: the hooks of \<open>routes.rs\<close>, \<open>hook_handlers.rs\<close>
    and the health report. \<open>do_hook\<close> is one piece of a hook handler between two awaits, or
    an act of \<open>RegistryRuns\<close>; \<open>hook_runs\<close> are the histories, \<open>hook_trace\<close> one of
    them with its acts, \<open>hook_log_inv\<close> and \<open>repair_inv\<close> the invariants. The machine is
    changed by the repairs alone: what children or the file routes write to the repaired files is not
    in it.
  \<^item> \<open>RouteSurface\<close>: the rows of \<open>surface_docs\<close>, \<open>handler_for\<close>, and
    what stands between a request and its handler.
  \<^item> \<open>Tunnel\<close>: \<open>tunnel.rs\<close>; a run of the pump is the list of the branches its
    select took. Noise is a parameter: what a frame opens as at each position; so is whether the
    socket takes the zero linger that makes its close a reset.
  \<^item> \<open>LineRange\<close>: the line window of \<open>protocol/src/fs.rs\<close> and the
    \<open>LineSlicer\<close> of \<open>agentd/src/fs.rs\<close>, proved against the lines of the
    whole file.
  \<^item> \<open>FsPaths\<close>: the lexical half of the confinement (\<open>normalize\<close>,
    \<open>link_target_is_in_tree\<close>, \<open>resolve_member\<close>) and \<open>parse_mode\<close>.
  \<^item> \<open>TarExtract\<close>: \<open>Confined\<close> and \<open>extract_into\<close>. A tree is a
    map from paths to entries and from inodes to contents; the directory-relative system calls are
    the record \<open>kernel\<close>, any of which may fail, and what a successful one does is the
    locale \<open>kernel_laws\<close> (\<open>openat2\<close> beneath the root without symlinks,
    exclusive creation, \<open>linkat\<close> of the name itself).
  \<^item> \<open>TarConfined\<close>: what extraction changes, member by member
    (\<open>member_effect\<close>), and the in-memory kernel \<open>mem_kernel\<close> that meets the
    laws. Nothing else writes to the tree during an extraction, and no directory of the tree is
    reachable by two paths (a bind mount inside the root). The order in which the hash map hands out
    the deferred modes is any function of the path.
  \<^item> \<open>FsRoutes\<close>: the four file handlers and \<open>estimate_tree\<close>. What the
    guest answers (open, stat, the tar builder) is an input. The target of a write is a path entry:
    nothing, a file with its number of names, or a symlink; the open goes through a link, the removal
    takes the name.
  \<^item> \<open>ModelAgentd\<close>: \<open>model/src/lib.rs\<close>, its actions, \<open>next_state\<close> and
    always properties, proved for every configuration and not only the bounds it is explored with.
  \<^item> \<open>Lifecycle\<close>: the abstract lifecycle of an exec id, which both the daemon
    (\<open>daemon_phase\<close>) and the specification machine (\<open>model_phase\<close>) refine.

  \<^item> \<open>ClientErrors\<close>: \<open>microvms-domain/src/error.rs\<close> and
    \<open>error_for_status\<close>; a message is the values it interpolates.
  \<^item> \<open>SseParser\<close>: \<open>session/sse.rs\<close>, the incremental event-stream parser,
    proved equal to a reference on the whole body however it is cut.
  \<^item> \<open>ExecClient\<close>: the stream machine of \<open>session/exec.rs\<close>. A network gives
    the answer to each attach; a drive ends because every reconnect without progress costs budget.
  \<^item> \<open>ClientStream\<close>: the client over the daemon's \<open>build_stream\<close>, cuts and
    refusals between them.
  \<^item> \<open>Completion\<close>: \<open>wait\<close>, \<open>wait_and_ack\<close> and the composition
    of \<open>session/complete.rs\<close>, over a server that may answer anything, after any time.
  \<^item> \<open>ModelRun\<close>: \<open>model/src/run.rs\<close>, the specification machine of
    run-to-completion and the behaviors it rejects, for every exit code and signal.
  \<^item> \<open>RunRefinement\<close>: a call of \<open>run_to_completion\<close> is a path of that
    machine and ends with its result, the notes being those the code gives; a result without an
    outcome, after the response to an ack was lost, is the one exception.

  \<^item> \<open>Split\<close>: \<open>session/split.rs\<close>, one exec's output as two channels over
    the one drive, with the attribution of gaps.
  \<^item> \<open>KeepAlive\<close>: \<open>session/keepalive.rs\<close>, the policy and the poll loop,
    over a list of probes and their durations.

  \<^item> \<open>ModelExecStart\<close>: \<open>model/src/exec_start.rs\<close>, the specification machine
    of start resolution; a variable is the layer it came from.
  \<^item> \<open>ExecStartRefinement\<close>: \<open>make_plan\<close> refines its \<open>specified\<close>,
    for requests and guests reduced to the machine's cases, with rows, shells and values stated by a
    specification of their own. A request that falls to a default user captured from the image is left
    out: the machine has no such case.

  \<^item> \<open>ModelOutput\<close>: \<open>model/src/output.rs\<close>, what a command does when a reader
    of its output closes, and the policies the module rejects.

  \<^item> \<open>Sizing\<close>: \<open>microvms-domain/src/sizing.rs\<close> and the bounds of \<open>hooks.rs\<close>; a CPU
    figure is a rational or not finite.

  \<^item> \<open>NameRecords\<close>: \<open>microvms-domain/src/region.rs\<close>, \<open>identity.rs\<close> and
    \<open>names.rs\<close>: regions, the launcher's half of the identity, the name record.

  \<^item> \<open>ReleaseFetch\<close>: how a fetched daemon is proven: \<open>microvms-domain/src/provision.rs\<close>,
    \<open>fetch_release\<close> and the release sources of \<open>microvms-edges\<close>.

  \<^item> \<open>Provision\<close>: \<open>microvms-edges/src/provision.rs\<close>, the cache of proven daemons under any number of
    calls, crashes and changes, but for a forged record: a writer that replaces a binary and its digest
    record together is not caught, as the source says.

  \<^item> \<open>ModelProvision\<close>: \<open>model/src/provision.rs\<close>, the specification machine of provisioning and the
    policies it rejects.

  \<^item> \<open>ProvisionRefinement\<close>: provisioning refines its specification machine: the verdict on a release, and
    one call over an undisturbed disk, along the path its own source and verifier determine
    (\<open>call_path\<close>).

  \<^item> \<open>Preflight\<close>: the report, the procedure and the specification machine of preflight
    (\<open>microvms-domain\<close>, \<open>microvms-app\<close> and \<open>model/src/preflight.rs\<close>), and the refinement.

  \<^item> \<open>ControlRetry\<close>: one call of the control plane, \<open>microvms-app/src/control/transport.rs\<close>: how a failure is
    classified, and the retry loop under an optional throttle budget, which binds the repeats after a
    throttle alone.

  \<^item> \<open>Sweep\<close>: prefix-scoped cleanup of images and their VMs, \<open>microvms-app/src/control/sweep.rs\<close>, over any
    answers of the service, with the log of every call.

  \<^item> \<open>SweepSafety\<close>: what a sweep may touch, when, and what its report says.

  \<^item> \<open>ModelClient\<close>: \<open>model/src/client.rs\<close>, the specification machine of the client lifecycle of one VM, and
    the behaviors its guards exclude.

  \<^item> \<open>ControlPlane\<close>: the calls of \<open>control/microvm.rs\<close> made for one VM, and the deletion of an
    image. The service is a list of moments, each what it would answer to every operation; a wait ends
    because the list does.

  \<^item> \<open>Sandbox\<close>: \<open>microvms-app/src/sandbox.rs\<close>: launch, adoption, hand-off, suspend, resume, teardown
    and drop. \<open>sb_ok\<close> holds between operations, \<open>may_call\<close> is what one may ask of the service,
    \<open>tells\<close> ties what an operation concludes to what the service answered in it (\<open>heard\<close>), and
    \<open>sandbox_history\<close> is any sequence of them.

  \<^item> \<open>RunLedger\<close>: \<open>microvms-app/src/ledger.rs\<close> over a store that may refuse a write, and the two teardowns
    of \<open>microvms-cli/src/commands/lifecycle.rs\<close> that narrow it. What they leave
    (\<open>left_behind\<close>, \<open>command_leaves\<close>) is stated by the service's answers, one teardown or one
    command at a time.

  Parameters. Code outside the repository is an argument: base64, the JSON decoding of a record,
  the kernel's answers (spawn, signals, pipe reads and writes, free space, the files of
  \<open>/etc\<close> and \<open>/proc\<close>). A request body arrives decoded, or as \<open>None\<close> when
  its JSON was refused.

  Machine integers. Ids are 32-bit words. Byte offsets and counts are natural numbers: they count
  bytes a process can hold, far below 2 to the 64. Where the code saturates or checks, the model
  does (\<open>saturating_add64\<close>, \<open>INSTANT_MAX\<close>, \<open>duration_try_from_secs\<close>).
  The loops end by a measure (\<open>trim\<close>, \<open>copy_guarded\<close>) or by the list of events
  they consume; no fuel is used.

  Concurrency. The daemon runs on a single-threaded runtime, so a handler is atomic between its
  awaits; the steps of \<open>do_act\<close> are those pieces.

  The service. A call of the control plane is what it answers once its retries are over; the retries
  themselves are \<open>ControlRetry\<close>. Text that only a message shows is dropped, an error is its kind.

  Not modelled here: the power-off service, a system call; the server's start and the JSON schema it
  publishes; the machines of the tunnel, the egress posture, the wrapper image and the image build; the
  image build and upload of the control plane, whose steps are request building over AWS wire types; the
  cost report, which is arithmetic on floating-point rates; the HTTP session's routes, proxy and uploads;
  the language bindings and the rest of the command line, which print what the modelled core returns.
\<close>

end
